(* ===== verification/Kernel_Prelude.thy ===== *)
theory Kernel_Prelude
  imports Main "HOL-Library.Word"
begin

text \<open>
  The vocabulary every component of the muxOS development shares: the fixed-width integers
  of \<open>stdint.h\<close>, the C \<open>for\<close> loop over a \<open>uint32_t\<close>, byte-addressed physical memory with its
  32-bit little-endian loads and stores, and the word and list facts the component proofs
  need. The kernel identity-maps the physical memory it hands out, so a pointer is a
  \<open>u32\<close> address and memory is one function from addresses to bytes.
\<close>

unbundle bit_operations_syntax

type_synonym u8 = "8 word"
type_synonym u16 = "16 word"
type_synonym u32 = "32 word"
type_synonym u64 = "64 word"

type_synonym memory = "u32 \<Rightarrow> u8"

named_theorems kernel_simps \<open>closed forms of the kernel's loops and accessors\<close>

section \<open>The C loop \<open>for (i = lo; i < hi; i++)\<close> over \<open>uint32_t\<close>\<close>

lemma unat_plus1_less:
  fixes i hi :: "'a::len word"
  assumes "i < hi"
  shows "unat (i + 1) = Suc (unat i)"
proof -
  from assms have "Suc (unat i) \<le> unat hi" by (simp add: word_less_nat_alt)
  also have "unat hi < 2 ^ LENGTH('a)" by (rule unsigned_less)
  finally show ?thesis by (simp add: unat_word_ariths)
qed

lemma unat_of_nat_below: "k < unat x \<Longrightarrow> unat (of_nat k :: 'a::len word) = k"
  for x :: "'a::len word"
  by (rule le_unat_uoi [of _ x]) simp

lemma unat_of_nat_lt: "n < 2 ^ 32 \<Longrightarrow> unat (of_nat n :: u32) = n"
  by (simp add: unat_of_nat)

function for_u32 :: "(u32 \<Rightarrow> 's \<Rightarrow> 's) \<Rightarrow> u32 \<Rightarrow> u32 \<Rightarrow> 's \<Rightarrow> 's" where
  "for_u32 f i hi s = (if i < hi then for_u32 f (i + 1) hi (f i s) else s)"
  by pat_completeness auto
termination
proof (relation "measure (\<lambda>(f, i, hi, s). unat hi - unat i)", goal_cases)
  case 1
  then show ?case by simp
next
  case (2 f i hi s)
  then show ?case by (auto simp: unat_plus1_less word_less_nat_alt)
qed

declare for_u32.simps [simp del]

text \<open>The loop visits \<open>lo, \<dots>, hi - 1\<close> in order.\<close>

lemma for_u32_fold:
  "for_u32 f i hi s = fold (\<lambda>k. f (of_nat k)) [unat i..<unat hi] s"
proof (induction f i hi s rule: for_u32.induct)
  case (1 f i hi s)
  show ?case
  proof (cases "i < hi")
    case True
    then have "[unat i..<unat hi] = unat i # [unat (i + 1)..<unat hi]"
      by (simp add: unat_plus1_less word_less_nat_alt upt_conv_Cons)
    with True "1.IH" show ?thesis
      by (simp add: for_u32.simps [of f i hi s])
  next
    case False
    then show ?thesis
      by (simp add: for_u32.simps [of f i hi s] word_less_nat_alt)
  qed
qed

lemma for_u32_invariant:
  assumes "P s" and "\<And>i s. P s \<Longrightarrow> lo \<le> i \<Longrightarrow> i < hi \<Longrightarrow> P (f i s)"
  shows "P (for_u32 f lo hi s)"
proof -
  have "P (fold (\<lambda>k. f (of_nat k)) ks s)" if "set ks \<subseteq> {unat lo..<unat hi}" for ks
    using that assms(1)
  proof (induction ks arbitrary: s)
    case (Cons k ks)
    then have k: "unat lo \<le> k" "k < unat hi" by auto
    have "unat (of_nat k :: u32) = k"
      using k(2) by (rule unat_of_nat_below)
    with k have "P (f (of_nat k) s)"
      by (intro assms(2) Cons.prems(2)) (simp_all add: word_le_nat_alt word_less_nat_alt)
    with Cons show ?case by simp
  qed simp
  from this [of "[unat lo..<unat hi]"] show ?thesis by (simp add: for_u32_fold)
qed

lemma for_u32_index_rule:
  assumes "P lo s" and "lo \<le> hi" and step: "\<And>i s. P i s \<Longrightarrow> lo \<le> i \<Longrightarrow> i < hi \<Longrightarrow> P (i + 1) (f i s)"
  shows "P hi (for_u32 f lo hi s)"
proof -
  have "lo \<le> i \<Longrightarrow> i \<le> hi \<Longrightarrow> P i s \<Longrightarrow> P hi (for_u32 f i hi s)" for i s
  proof (induction "unat hi - unat i" arbitrary: i s)
    case 0
    then have "i = hi" by (simp add: word_le_nat_alt word_unat_eq_iff)
    with 0 show ?case by (simp add: for_u32.simps [of f hi])
  next
    case (Suc n)
    then have lt: "i < hi" by (simp add: word_less_nat_alt)
    then have "n = unat hi - unat (i + 1)" "lo \<le> i + 1" "i + 1 \<le> hi"
      using Suc.hyps(2) Suc.prems(1) by (auto simp: unat_plus1_less word_le_nat_alt word_less_nat_alt)
    with Suc lt step show ?case by (simp add: for_u32.simps [of f i])
  qed
  with assms(1,2) show ?thesis by simp
qed

section \<open>Physical memory\<close>

text \<open>
  Address arithmetic wraps modulo \<open>2\<^sup>32\<close>. An address \<open>a\<close> lies in the \<open>n\<close> bytes at \<open>d\<close> when
  its distance \<open>a - d\<close> is below \<open>n\<close>, which is right for a region that wraps too.
\<close>

definition in_region :: "u32 \<Rightarrow> nat \<Rightarrow> u32 \<Rightarrow> bool" where
  "in_region d n a \<longleftrightarrow> unat (a - d) < n"

definition region_disjoint :: "u32 \<Rightarrow> nat \<Rightarrow> u32 \<Rightarrow> nat \<Rightarrow> bool" where
  "region_disjoint d n s m \<longleftrightarrow> (\<forall>a. \<not> (in_region d n a \<and> in_region s m a))"

lemma in_region_0 [simp]: "\<not> in_region d 0 a"
  by (simp add: in_region_def)

lemma unat_distance_Suc:
  fixes a d :: "'a::len word"
  assumes "a \<noteq> d"
  shows "unat (a - d) = Suc (unat (a - (d + 1)))"
proof -
  have ne: "a - d \<noteq> 0" using assms by simp
  have "unat (a - (d + 1)) = unat ((a - d) - 1)" by (simp add: diff_diff_eq)
  also have "\<dots> = unat (a - d) - 1" using ne by (rule unat_minus_one)
  finally show ?thesis using ne unat_gt_0 [of "a - d"] by linarith
qed

lemma unat_u32_le: "unat (x :: u32) \<le> 4294967295"
proof -
  have "unat x < 2 ^ LENGTH(32)" by (rule unsigned_less)
  then show ?thesis by simp
qed

lemma unat_minus1_u32 [simp]: "unat (- 1 :: u32) = 4294967295"
proof -
  have "(- 1 :: u32) = 4294967295" by simp
  then show ?thesis by (simp only: unat_numeral) simp
qed

lemma unat_of_nat_self: "of_nat (unat w) = (w :: u32)"
  by simp

lemma sint_small:
  assumes "unat (w :: u32) < 2 ^ 31"
  shows "sint w = int (unat w)"
proof -
  have u: "uint w = int (unat w)" by (rule uint_nat)
  have "int (unat w) < int (2 ^ 31)" using assms by (simp only: of_nat_less_iff)
  then have "uint w < 2 ^ 31" unfolding u by simp
  moreover have "- (2 ^ 31) \<le> uint w" by (rule order_trans [of _ 0]) simp_all
  ultimately have "signed_take_bit 31 (uint w) = uint w" by (intro signed_take_bit_int_eq_self)
  then show ?thesis unfolding u [symmetric] by (simp add: sint_uint)
qed

lemma in_region_Suc:
  assumes "n < 2 ^ 32"
  shows "in_region d (Suc n) a \<longleftrightarrow> a = d \<or> in_region (d + 1) n a"
proof (cases "a = d")
  case True
  then show ?thesis by (simp add: in_region_def)
next
  case False
  then show ?thesis by (simp add: in_region_def unat_distance_Suc)
qed

lemma not_in_region_next: "n < 2 ^ 32 \<Longrightarrow> \<not> in_region (d + 1) n d"
  by (simp add: in_region_def)

lemma in_region_offset: "k < n \<Longrightarrow> n \<le> 2 ^ 32 \<Longrightarrow> in_region d n (d + of_nat k)"
  by (simp add: in_region_def unat_of_nat)

lemma in_regionE:
  assumes "in_region d n a"
  obtains k where "k < n" and "a = d + of_nat k"
proof
  show "unat (a - d) < n" using assms by (simp add: in_region_def)
  show "a = d + of_nat (unat (a - d))" by simp
qed

lemma region_disjoint_sym: "region_disjoint d n s m \<longleftrightarrow> region_disjoint s m d n"
  by (auto simp: region_disjoint_def)

lemma region_disjointD:
  "region_disjoint d n s m \<Longrightarrow> in_region d n a \<Longrightarrow> \<not> in_region s m a"
  by (auto simp: region_disjoint_def)

lemma in_region_window:
  assumes "unat d + n \<le> 2 ^ 32"
  shows "in_region (a + d) n z \<longleftrightarrow> unat d \<le> unat (z - a) \<and> unat (z - a) < unat d + n"
proof -
  have e: "z - (a + d) = (z - a) - d" by simp
  show ?thesis
  proof (cases "d \<le> z - a")
    case True
    then have "unat ((z - a) - d) = unat (z - a) - unat d" by (rule unat_sub)
    with True show ?thesis unfolding in_region_def e by (auto simp: word_le_nat_alt)
  next
    case False
    then have lt: "unat (z - a) < unat d" by (simp add: word_le_nat_alt)
    have "unat ((z - a) - d) = 2 ^ 32 + unat (z - a) - unat d"
      using lt unat_sub_if' [of "z - a" d] by simp
    with assms lt show ?thesis unfolding in_region_def e by simp
  qed
qed

text \<open>Windows at fixed offsets inside larger regions.\<close>

lemma window_inside:
  assumes "in_region (a + of_nat j) n z" and "j + n \<le> k" and "k \<le> 2 ^ 32"
  shows "in_region a k z"
proof (cases "n = 0")
  case False
  then have u: "unat (of_nat j :: u32) = j" using assms(2,3) by (intro unat_of_nat_lt) simp
  with in_region_window [of "of_nat j" n a z] assms show ?thesis by (simp add: in_region_def)
qed (use assms(1) in simp)

lemma window_disjoint:
  assumes "region_disjoint a k b l" and "j + n \<le> k" "k \<le> 2 ^ 32" and "i + m \<le> l" "l \<le> 2 ^ 32"
  shows "region_disjoint (a + of_nat j) n (b + of_nat i) m"
  using assms window_inside unfolding region_disjoint_def by blast

lemma window_apart:
  assumes "j + n \<le> i" and "i + m \<le> 2 ^ 32"
  shows "region_disjoint (a + of_nat j) n (a + of_nat i) m"
proof (cases "n = 0 \<or> m = 0")
  case False
  then have u: "unat (of_nat j :: u32) = j" "unat (of_nat i :: u32) = i" using assms by (auto intro!: unat_of_nat_lt)
  with in_region_window [of "of_nat j" n a] in_region_window [of "of_nat i" m a] assms show ?thesis
    by (auto simp: region_disjoint_def)
qed (auto simp: region_disjoint_def)

text \<open>The \<open>n\<close> bytes at an address, and storing a byte list there.\<close>

definition bytes_at :: "memory \<Rightarrow> u32 \<Rightarrow> nat \<Rightarrow> u8 list" where
  "bytes_at m a n = map (\<lambda>k. m (a + of_nat k)) [0..<n]"

fun store_bytes :: "memory \<Rightarrow> u32 \<Rightarrow> u8 list \<Rightarrow> memory" where
  "store_bytes m a [] = m"
| "store_bytes m a (b # bs) = store_bytes (m(a := b)) (a + 1) bs"

lemma length_bytes_at [simp]: "length (bytes_at m a n) = n"
  by (simp add: bytes_at_def)

lemma nth_bytes_at [simp]: "k < n \<Longrightarrow> bytes_at m a n ! k = m (a + of_nat k)"
  by (simp add: bytes_at_def)

lemma bytes_at_cong:
  "(\<And>x. in_region a n x \<Longrightarrow> m x = m' x) \<Longrightarrow> n \<le> 2 ^ 32 \<Longrightarrow> bytes_at m a n = bytes_at m' a n"
  by (auto simp: bytes_at_def in_region_offset)

lemma store_bytes_apply:
  "length bs \<le> 2 ^ 32 \<Longrightarrow>
   store_bytes m a bs x = (if in_region a (length bs) x then bs ! unat (x - a) else m x)"
proof (induction bs arbitrary: m a)
  case (Cons b bs)
  then have len: "length bs < 2 ^ 32" by simp
  show ?case
  proof (cases "x = a")
    case True
    then have "\<not> in_region (a + 1) (length bs) x"
      using len not_in_region_next [of "length bs" a] by simp
    with True Cons len show ?thesis by (simp add: in_region_def)
  next
    case False
    then have "unat (x - a) = Suc (unat (x - (a + 1)))"
      by (rule unat_distance_Suc)
    with False Cons len show ?thesis by (simp add: in_region_Suc)
  qed
qed simp

lemma store_bytes_outside:
  "\<not> in_region a (length bs) x \<Longrightarrow> length bs \<le> 2 ^ 32 \<Longrightarrow> store_bytes m a bs x = m x"
  by (simp add: store_bytes_apply)

lemma bytes_at_store_bytes:
  assumes "length bs \<le> 2 ^ 32"
  shows "bytes_at (store_bytes m a bs) a (length bs) = bs"
proof (rule nth_equalityI)
  fix k assume "k < length (bytes_at (store_bytes m a bs) a (length bs))"
  then have k: "k < length bs" by simp
  with assms have "unat (of_nat k :: u32) = k" by (simp add: unat_of_nat)
  with k assms show "bytes_at (store_bytes m a bs) a (length bs) ! k = bs ! k"
    by (simp add: store_bytes_apply in_region_def)
qed simp

lemma bytes_at_store_disjoint:
  assumes "region_disjoint a (length bs) b n" and "length bs \<le> 2 ^ 32" "n \<le> 2 ^ 32"
  shows "bytes_at (store_bytes m a bs) b n = bytes_at m b n"
  using assms region_disjointD [of b n a "length bs"]
  by (intro bytes_at_cong) (auto simp: store_bytes_apply region_disjoint_sym)

section \<open>Little-endian integers\<close>

text \<open>
  The byte order of i386 and of the 9P wire format. \<open>u16_bytes\<close>, \<open>u32_bytes\<close> and \<open>u64_bytes\<close>
  split a value by shifts; \<open>bytes_u16\<close>, \<open>bytes_u32\<close> and \<open>bytes_u64\<close> join the bytes by shifts
  and bitwise or.
\<close>

definition u16_bytes :: "u16 \<Rightarrow> u8 list" where
  "u16_bytes v = [ucast v, ucast (drop_bit 8 v)]"

definition u32_bytes :: "u32 \<Rightarrow> u8 list" where
  "u32_bytes v = [ucast v, ucast (drop_bit 8 v), ucast (drop_bit 16 v), ucast (drop_bit 24 v)]"

definition u64_bytes :: "u64 \<Rightarrow> u8 list" where
  "u64_bytes v =
     [ucast v, ucast (drop_bit 8 v), ucast (drop_bit 16 v), ucast (drop_bit 24 v),
      ucast (drop_bit 32 v), ucast (drop_bit 40 v), ucast (drop_bit 48 v), ucast (drop_bit 56 v)]"

definition bytes_u16 :: "u8 \<Rightarrow> u8 \<Rightarrow> u16" where
  "bytes_u16 b0 b1 = ucast b0 OR push_bit 8 (ucast b1)"

definition bytes_u32 :: "u8 \<Rightarrow> u8 \<Rightarrow> u8 \<Rightarrow> u8 \<Rightarrow> u32" where
  "bytes_u32 b0 b1 b2 b3 =
     ucast b0 OR push_bit 8 (ucast b1) OR push_bit 16 (ucast b2) OR push_bit 24 (ucast b3)"

definition bytes_u64 :: "u32 \<Rightarrow> u32 \<Rightarrow> u64" where
  "bytes_u64 lo hi = ucast lo OR push_bit 32 (ucast hi)"

lemma length_le_bytes [simp]:
  "length (u16_bytes w) = 2" "length (u32_bytes v) = 4" "length (u64_bytes x) = 8"
  by (simp_all add: u16_bytes_def u32_bytes_def u64_bytes_def)

lemma bit_u8_bound: "bit (b :: u8) n \<Longrightarrow> n < 8"
  using bit_imp_le_length [of b n] by simp

lemma bit_bytes_u16:
  "n < 16 \<Longrightarrow> bit (bytes_u16 b0 b1) n = (if n < 8 then bit b0 n else bit b1 (n - 8))"
  unfolding bytes_u16_def by (auto simp: bit_simps dest: bit_u8_bound)

lemma bit_bytes_u32:
  "n < 32 \<Longrightarrow> bit (bytes_u32 b0 b1 b2 b3) n =
     (if n < 8 then bit b0 n else if n < 16 then bit b1 (n - 8)
      else if n < 24 then bit b2 (n - 16) else bit b3 (n - 24))"
  unfolding bytes_u32_def by (auto simp: bit_simps dest: bit_u8_bound)

lemma bytes_u16_join: "bytes_u16 (ucast v) (ucast (drop_bit 8 v)) = v"
  by (rule bit_word_eqI) (auto simp: bit_bytes_u16 bit_ucast_iff bit_drop_bit_eq)

lemma bytes_u32_join:
  "bytes_u32 (ucast v) (ucast (drop_bit 8 v)) (ucast (drop_bit 16 v)) (ucast (drop_bit 24 v)) =
   (ucast (v :: 'a::len word) :: u32)"
  by (rule bit_word_eqI) (auto simp: bit_bytes_u32 bit_ucast_iff bit_drop_bit_eq)

lemma bytes_u64_join:
  "bytes_u64
     (bytes_u32 (ucast v) (ucast (drop_bit 8 v)) (ucast (drop_bit 16 v)) (ucast (drop_bit 24 v)))
     (bytes_u32 (ucast (drop_bit 32 v)) (ucast (drop_bit 40 v)) (ucast (drop_bit 48 v))
        (ucast (drop_bit 56 v))) = v"
proof -
  have "bytes_u32 (ucast (drop_bit 32 v)) (ucast (drop_bit 40 v)) (ucast (drop_bit 48 v))
        (ucast (drop_bit 56 v)) = (ucast (drop_bit 32 v) :: u32)"
    using bytes_u32_join [of "drop_bit 32 v"] by simp
  moreover have "bytes_u64 (ucast v) (ucast (drop_bit 32 v)) = v"
    unfolding bytes_u64_def by (rule bit_word_eqI) (auto simp: bit_simps)
  ultimately show ?thesis by (simp only: bytes_u32_join)
qed

section \<open>32-bit loads and stores\<close>

definition ld32 :: "memory \<Rightarrow> u32 \<Rightarrow> u32" where
  "ld32 m a = bytes_u32 (m a) (m (a + 1)) (m (a + 2)) (m (a + 3))"

definition st32 :: "memory \<Rightarrow> u32 \<Rightarrow> u32 \<Rightarrow> memory" where
  "st32 m a v = store_bytes m a (u32_bytes v)"

lemma st32_apply:
  "st32 m a v x =
     (if x = a then ucast v else if x = a + 1 then ucast (drop_bit 8 v)
      else if x = a + 2 then ucast (drop_bit 16 v)
      else if x = a + 3 then ucast (drop_bit 24 v) else m x)"
proof -
  have "st32 m a v =
    m(a := ucast v, a + 1 := ucast (drop_bit 8 v), a + 2 := ucast (drop_bit 16 v),
      a + 3 := ucast (drop_bit 24 v))"
    by (simp add: st32_def u32_bytes_def add.assoc)
  then show ?thesis by auto
qed

lemma ld32_st32_same [simp]: "ld32 (st32 m a v) a = v"
  by (simp add: ld32_def st32_apply bytes_u32_join)

lemma st32_outside: "\<not> in_region a 4 x \<Longrightarrow> st32 m a v x = m x"
  by (simp add: st32_def store_bytes_outside)

lemma ld32_cong:
  assumes "\<And>x. in_region a 4 x \<Longrightarrow> m x = m' x"
  shows "ld32 m a = ld32 m' a"
proof -
  have "m (a + of_nat k) = m' (a + of_nat k)" if "k < 4" for k
    using that by (intro assms in_region_offset) simp_all
  from this [of 0] this [of 1] this [of 2] this [of 3] show ?thesis
    by (simp add: ld32_def)
qed

lemma ld32_st32_disjoint:
  "region_disjoint a 4 b 4 \<Longrightarrow> ld32 (st32 m a v) b = ld32 m b"
  by (rule ld32_cong) (metis st32_outside region_disjoint_def)

section \<open>Pages\<close>

text \<open>
  A page is the 4096 bytes at a multiple of 4096. Two different page addresses name
  disjoint regions, and an entry of a page never leaves it.
\<close>

definition page_aligned :: "u32 \<Rightarrow> bool" where
  "page_aligned a \<longleftrightarrow> a AND 0xFFF = 0"

definition page_base :: "u32 \<Rightarrow> u32" where
  "page_base a = a AND NOT 0xFFF"

lemma page_base_aligned [simp]: "page_aligned (page_base a)"
  by (simp add: page_aligned_def page_base_def and.assoc)

lemma page_aligned_base: "page_aligned a \<Longrightarrow> page_base a = a"
  unfolding page_aligned_def page_base_def
  by (metis (no_types) and.right_neutral bit.conj_cancel_right bit.conj_disj_distrib
      bit.disj_cancel_right or.right_neutral or.commute)

end
