(* ===== verification/Byte_Stream.thy ===== *)
theory Byte_Stream
  imports Kernel_Prelude
begin

text \<open>
  The contract of a bounded byte stream, the interface both ends of a pipe and the keyboard's line
  buffer rely on: \<open>put\<close> accepts a prefix of what it is given, \<open>get\<close> removes a prefix of what is held.
  Its client is an arbitrary interleaving of writers and readers: what has been read so far,
  followed by what is still held, is what was held at the start followed by what was accepted.
\<close>

datatype stream_op = Put "u8 list" | Get nat

text \<open>One run: the bytes accepted, the bytes delivered, and the final state.\<close>

fun stream_run :: "(u8 list \<Rightarrow> 's \<Rightarrow> nat \<times> 's) \<Rightarrow> (nat \<Rightarrow> 's \<Rightarrow> u8 list \<times> 's) \<Rightarrow> stream_op list \<Rightarrow> 's \<Rightarrow>
    u8 list \<times> u8 list \<times> 's" where
  "stream_run put get [] s = ([], [], s)"
| "stream_run put get (Put bs # xs) s =
     (let (k, s) = put bs s; (ins, outs, s) = stream_run put get xs s in (take k bs @ ins, outs, s))"
| "stream_run put get (Get n # xs) s =
     (let (bs, s) = get n s; (ins, outs, s) = stream_run put get xs s in (ins, bs @ outs, s))"

locale byte_stream =
  fixes inv :: "'s \<Rightarrow> bool"
    and held :: "'s \<Rightarrow> u8 list"
    and cap :: nat
    and put :: "u8 list \<Rightarrow> 's \<Rightarrow> nat \<times> 's"
    and get :: "nat \<Rightarrow> 's \<Rightarrow> u8 list \<times> 's"
  assumes held_bound: "inv s \<Longrightarrow> length (held s) \<le> cap"
    and put_law: "inv s \<Longrightarrow> put bs s = (k, s') \<Longrightarrow> inv s' \<and> k \<le> length bs \<and> held s' = held s @ take k bs"
    and get_law: "inv s \<Longrightarrow> get n s = (bs, s') \<Longrightarrow> inv s' \<and> length bs \<le> n \<and> held s = bs @ held s'"
    and put_progress: "inv s \<Longrightarrow> length (held s) < cap \<Longrightarrow> bs \<noteq> [] \<Longrightarrow> length bs < 2 ^ 31 \<Longrightarrow> 0 < fst (put bs s)"
    and get_progress: "inv s \<Longrightarrow> held s \<noteq> [] \<Longrightarrow> 0 < n \<Longrightarrow> n < 2 ^ 31 \<Longrightarrow> fst (get n s) \<noteq> []"
begin

lemma stream:
  assumes "inv s" "stream_run put get xs s = (ins, outs, s')"
  shows "inv s' \<and> held s @ ins = outs @ held s'"
  using assms
proof (induction xs arbitrary: s ins outs)
  case (Cons x xs)
  show ?case
  proof (cases x)
    case (Put bs)
    obtain k s1 ins1 where p: "put bs s = (k, s1)" and r: "stream_run put get xs s1 = (ins1, outs, s')"
      and i: "ins = take k bs @ ins1"
      using Cons.prems(2) by (auto simp: Put split: prod.splits)
    from Cons.IH [OF _ r] put_law [OF Cons.prems(1) p] show ?thesis by (auto simp: i)
  next
    case (Get n)
    obtain bs s1 outs1 where p: "get n s = (bs, s1)" and r: "stream_run put get xs s1 = (ins, outs1, s')"
      and i: "outs = bs @ outs1"
      using Cons.prems(2) by (auto simp: Get split: prod.splits)
    from Cons.IH [OF _ r] get_law [OF Cons.prems(1) p] show ?thesis by (auto simp: i)
  qed
qed simp

lemma never_stuck:
  assumes "inv s" "0 < cap"
  shows "0 < fst (put [b] s) \<or> fst (get 1 s) \<noteq> []"
proof (cases "held s = []")
  case True
  then show ?thesis using put_progress [OF assms(1), of "[b]"] assms(2) by simp
next
  case False
  then show ?thesis using get_progress [OF assms(1), of 1] by simp
qed

end

end
