(* ===== verification/Keyboard.thy ===== *)
theory Keyboard
  imports Byte_Stream
begin

text \<open>
  \<open>drivers/input/keyboard.c\<close>: the PS/2 interrupt handler that translates scancodes and the ring buffer between it and
  \<open>kb_getchar\<close>. The scancode read from port 0x60 is the argument of the handler; the end-of-interrupt written on every
  path is not modelled, nor the wait of \<open>kb_getchar\<close> for a character (it is \<open>None\<close> on an empty buffer).
\<close>

section \<open>Model\<close>

definition KB_BUFFER_SIZE :: nat where "KB_BUFFER_SIZE = 128"

record keyboard =
  kb_buf :: "nat \<Rightarrow> u8"
  kb_head :: nat
  kb_tail :: nat
  kb_shift :: bool
  kb_ctrl :: bool
  kb_e0 :: bool

definition chars :: "char list \<Rightarrow> u8 list" where
  "chars s = map (of_nat \<circ> of_char) s"

definition pad128 :: "u8 list \<Rightarrow> u8 list" where
  "pad128 xs = xs @ replicate (128 - length xs) 0"

definition scancode_map :: "u8 list" where
  "scancode_map = pad128 ([0, 0] @ chars ''1234567890-='' @ [8, 9] @ chars ''qwertyuiop[]'' @ [10, 0] @ chars ''asdfghjkl;'' @ [39, 96] @
     [0, 92] @ chars ''zxcvbnm,./'' @ [0] @ chars ''*'' @ [0] @ chars '' '')"

definition shift_map :: "u8 list" where
  "shift_map = pad128 ([0, 0] @ chars ''!@#$%^&*()_+'' @ [8, 9] @ chars ''QWERTYUIOP{}'' @ [10, 0] @ chars ''ASDFGHJKL:'' @ [34, 126] @
     [0] @ chars ''|'' @ chars ''ZXCVBNM<>?'' @ [0] @ chars ''*'' @ [0] @ chars '' '')"

definition kb_buf_push :: "u8 \<Rightarrow> keyboard \<Rightarrow> keyboard" where
  "kb_buf_push c k =
     (let next = (kb_head k + 1) mod KB_BUFFER_SIZE
      in if next \<noteq> kb_tail k then k\<lparr>kb_buf := (kb_buf k)(kb_head k := c), kb_head := next\<rparr> else k)"

definition kb_push_str :: "u8 list \<Rightarrow> keyboard \<Rightarrow> keyboard" where
  "kb_push_str s k = fold kb_buf_push s k"

definition extended_key :: "u8 \<Rightarrow> u8 list" where
  "extended_key sc =
     (if sc = 0x48 then [0x1b] @ chars ''[A'' else if sc = 0x50 then [0x1b] @ chars ''[B''
      else if sc = 0x4D then [0x1b] @ chars ''[C'' else if sc = 0x4B then [0x1b] @ chars ''[D''
      else if sc = 0x47 then [0x1b] @ chars ''[H'' else if sc = 0x4F then [0x1b] @ chars ''[F''
      else if sc = 0x49 then [0x1b] @ chars ''[5~'' else if sc = 0x51 then [0x1b] @ chars ''[6~''
      else if sc = 0x52 then [0x1b] @ chars ''[2~'' else if sc = 0x53 then [0x1b] @ chars ''[3~'' else [])"

definition keyboard_handler :: "u8 \<Rightarrow> keyboard \<Rightarrow> keyboard" where
  "keyboard_handler scancode k =
     (if scancode AND 0x80 \<noteq> 0 then
        (let sc = scancode AND 0x7F;
             k = (if sc = 0x2A \<or> sc = 0x36 then k\<lparr>kb_shift := False\<rparr> else k);
             k = (if sc = 0x1D then k\<lparr>kb_ctrl := False\<rparr> else k)
         in k\<lparr>kb_e0 := False\<rparr>)
      else if scancode = 0xE0 then k\<lparr>kb_e0 := True\<rparr>
      else if kb_e0 k then kb_push_str (extended_key scancode) (k\<lparr>kb_e0 := False\<rparr>)
      else if scancode = 0x01 then kb_buf_push 0x1b k
      else if scancode = 0x2A \<or> scancode = 0x36 then k\<lparr>kb_shift := True\<rparr>
      else if scancode = 0x1D then k\<lparr>kb_ctrl := True\<rparr>
      else
        (let map = (if kb_shift k then shift_map else scancode_map);
             c = (if scancode < 128 then map ! unat scancode else 0);
             c = (if kb_ctrl k \<and> c \<noteq> 0 then c AND 0x1F else c)
         in if c \<noteq> 0 then kb_buf_push c k else k))"

definition kb_haschar :: "keyboard \<Rightarrow> bool" where
  "kb_haschar k \<longleftrightarrow> kb_head k \<noteq> kb_tail k"

definition kb_getchar :: "keyboard \<Rightarrow> (u8 \<times> keyboard) option" where
  "kb_getchar k =
     (if kb_head k = kb_tail k then None
      else Some (kb_buf k (kb_tail k), k\<lparr>kb_tail := (kb_tail k + 1) mod KB_BUFFER_SIZE\<rparr>))"

section \<open>The buffer as a byte stream\<close>

definition kb_wf :: "keyboard \<Rightarrow> bool" where
  "kb_wf k \<longleftrightarrow> kb_head k < 128 \<and> kb_tail k < 128"

definition kb_used :: "keyboard \<Rightarrow> nat" where
  "kb_used k = (kb_head k + 128 - kb_tail k) mod 128"

definition kb_held :: "keyboard \<Rightarrow> u8 list" where
  "kb_held k = map (\<lambda>i. kb_buf k ((kb_tail k + i) mod 128)) [0..<kb_used k]"

lemma kb_head_used: "kb_wf k \<Longrightarrow> (kb_tail k + kb_used k) mod 128 = kb_head k"
  by (cases "kb_tail k \<le> kb_head k") (auto simp: kb_used_def kb_wf_def mod_if)

lemma kb_used_less [simp]: "kb_used k < 128"
  by (simp add: kb_used_def)

lemma kb_empty: "kb_wf k \<Longrightarrow> kb_head k = kb_tail k \<longleftrightarrow> kb_held k = []"
  by (cases "kb_tail k \<le> kb_head k") (auto simp: kb_held_def kb_used_def kb_wf_def mod_if)

lemma kb_full: "kb_wf k \<Longrightarrow> (kb_head k + 1) mod 128 = kb_tail k \<longleftrightarrow> kb_used k = 127"
  by (cases "kb_tail k \<le> kb_head k") (auto simp: kb_used_def kb_wf_def mod_if)

lemma ring_index_inj:
  assumes "i < 128" "j < 128" "(t + i) mod 128 = (t + j) mod 128"
  shows "i = (j :: nat)"
proof -
  have le: "a = b" if "a \<le> b" "b < 128" "(t + b) mod 128 = (t + a) mod 128" for a b :: nat
  proof -
    have "128 dvd b - a" using that(1,3) mod_eq_dvd_iff_nat [of "t + a" "t + b" 128] by simp
    then show ?thesis using that by (auto dest: dvd_imp_le)
  qed
  show ?thesis using le [of i j] le [of j i] assms by (cases "i \<le> j") auto
qed

lemma kb_buf_push_law:
  assumes "kb_wf k"
  shows "kb_wf (kb_buf_push c k)" "kb_held (kb_buf_push c k) = (if kb_used k = 127 then kb_held k else kb_held k @ [c])"
    "kb_shift (kb_buf_push c k) = kb_shift k" "kb_ctrl (kb_buf_push c k) = kb_ctrl k" "kb_e0 (kb_buf_push c k) = kb_e0 k"
proof -
  show "kb_wf (kb_buf_push c k)" "kb_shift (kb_buf_push c k) = kb_shift k" "kb_ctrl (kb_buf_push c k) = kb_ctrl k"
      "kb_e0 (kb_buf_push c k) = kb_e0 k"
    using assms by (simp_all add: kb_buf_push_def kb_wf_def Let_def KB_BUFFER_SIZE_def)
  show "kb_held (kb_buf_push c k) = (if kb_used k = 127 then kb_held k else kb_held k @ [c])"
  proof (cases "kb_used k = 127")
    case True
    then show ?thesis using kb_full [OF assms] by (simp add: kb_buf_push_def Let_def KB_BUFFER_SIZE_def)
  next
    case False
    let ?k = "k\<lparr>kb_buf := (kb_buf k)(kb_head k := c), kb_head := (kb_head k + 1) mod 128\<rparr>"
    have p: "kb_buf_push c k = ?k" using False kb_full [OF assms] by (simp add: kb_buf_push_def Let_def KB_BUFFER_SIZE_def)
    have u: "kb_used ?k = Suc (kb_used k)"
      using False assms kb_used_less [of k] by (cases "kb_tail k \<le> kb_head k") (auto simp: kb_used_def kb_wf_def mod_if split: if_splits)
    have old: "(kb_tail k + i) mod 128 \<noteq> kb_head k" if "i < kb_used k" for i
      using ring_index_inj [of i "kb_used k" "kb_tail k"] that kb_used_less [of k] kb_head_used [OF assms] by auto
    show ?thesis unfolding p kb_held_def u using False old kb_head_used [OF assms] by simp
  qed
qed

lemma kb_getchar_law:
  assumes "kb_wf k"
  shows "case kb_getchar k of None \<Rightarrow> kb_held k = []
    | Some (c, k') \<Rightarrow> kb_wf k' \<and> kb_held k = c # kb_held k'"
proof (cases "kb_head k = kb_tail k")
  case True
  then show ?thesis using kb_empty [OF assms] by (simp add: kb_getchar_def)
next
  case False
  let ?k = "k\<lparr>kb_tail := (kb_tail k + 1) mod 128\<rparr>"
  have u: "kb_used k = Suc (kb_used ?k)"
    using False assms by (cases "kb_tail k \<le> kb_head k") (auto simp: kb_used_def kb_wf_def mod_if split: if_splits)
  have "kb_held k = kb_buf k (kb_tail k) # kb_held ?k"
    unfolding kb_held_def [of k] u map_upt_Suc using assms by (simp add: kb_held_def kb_wf_def mod_simps)
  then show ?thesis using False assms by (simp add: kb_getchar_def kb_wf_def KB_BUFFER_SIZE_def)
qed

text \<open>Both ends: the interrupt handler pushes a string, the reader takes up to \<open>n\<close> characters.\<close>

fun kb_put :: "u8 list \<Rightarrow> keyboard \<Rightarrow> nat \<times> keyboard" where
  "kb_put [] k = (0, k)"
| "kb_put (c # cs) k =
     (if kb_used k = 127 then (0, kb_buf_push c k) else (let (n, k) = kb_put cs (kb_buf_push c k) in (Suc n, k)))"

fun kb_get :: "nat \<Rightarrow> keyboard \<Rightarrow> u8 list \<times> keyboard" where
  "kb_get 0 k = ([], k)"
| "kb_get (Suc n) k = (case kb_getchar k of None \<Rightarrow> ([], k) | Some (c, k) \<Rightarrow> (let (cs, k) = kb_get n k in (c # cs, k)))"

lemma length_kb_held: "length (kb_held k) = kb_used k"
  by (simp add: kb_held_def)

interpretation kb: byte_stream kb_wf kb_held 127 kb_put kb_get
proof
  fix k assume "kb_wf k"
  show "length (kb_held k) \<le> 127" using kb_used_less [of k] by (simp add: length_kb_held del: kb_used_less)
next
  fix k k' :: keyboard and bs n assume "kb_wf k" "kb_put bs k = (n, k')"
  then show "kb_wf k' \<and> n \<le> length bs \<and> kb_held k' = kb_held k @ take n bs"
  proof (induction bs arbitrary: k n)
    case (Cons c cs)
    then show ?case using kb_buf_push_law [OF Cons.prems(1), of c] by (auto split: if_splits prod.splits)
  qed simp
next
  fix k k' :: keyboard and bs n assume "kb_wf k" "kb_get n k = (bs, k')"
  then show "kb_wf k' \<and> length bs \<le> n \<and> kb_held k = bs @ kb_held k'"
  proof (induction n arbitrary: k bs)
    case (Suc n)
    then show ?case using kb_getchar_law [OF Suc.prems(1)] by (auto split: option.splits prod.splits)
  qed simp
next
  fix k and bs :: "u8 list" assume "kb_wf k" "length (kb_held k) < 127" "bs \<noteq> []"
  then show "0 < fst (kb_put bs k)" by (cases bs) (auto simp: length_kb_held split_beta)
next
  fix k and n :: nat assume "kb_wf k" "kb_held k \<noteq> []" "0 < n"
  then show "fst (kb_get n k) \<noteq> []" using kb_getchar_law [of k] by (cases n) (auto split: option.splits prod.splits)
qed

section \<open>Properties\<close>

text \<open>
  The keyboard buffer delivers what was typed, in order: over any interleaving of pushes by the interrupt handler and
  reads, what was read followed by what is still held is what was held at first followed by the accepted
  characters. A character is accepted unless 127 are held, and with none held a push is always accepted.
\<close>

lemma keyboard_stream:
  assumes "kb_wf k" and "stream_run kb_put kb_get ops k = (ins, outs, k')"
  shows "kb_wf k' \<and> kb_held k @ ins = outs @ kb_held k' \<and> length (kb_held k') \<le> 127 \<and>
    (\<forall>c. fst (kb_put [c] k') = (if length (kb_held k') < 127 then 1 else 0))"
  using kb.stream [OF assms] kb.held_bound [of k'] by (auto simp: length_kb_held split_beta)

definition kb_example :: keyboard where
  "kb_example = \<lparr>kb_buf = (\<lambda>_. 0), kb_head = 126, kb_tail = 126, kb_shift = False, kb_ctrl = False, kb_e0 = False\<rparr>"

lemma keyboard_stream_witness:
  "fst (snd (stream_run kb_put kb_get [Put [104, 105, 33], Get 2] kb_example)) = [104, 105]"
proof -
  obtain ins outs k' where r: "stream_run kb_put kb_get [Put [104, 105, 33], Get 2] kb_example = (ins, outs, k')"
    by (metis surj_pair)
  have "kb_wf kb_example" "kb_held kb_example = []" by (simp_all add: kb_example_def kb_wf_def kb_held_def kb_used_def)
  then have "ins = outs @ kb_held k'" using keyboard_stream [OF _ r] by simp
  moreover have "ins = [104, 105, 33]" "length outs = 2"
    using r by (auto simp: kb_example_def kb_used_def kb_buf_push_def kb_getchar_def KB_BUFFER_SIZE_def numeral_2_eq_2 Let_def)
  ultimately show ?thesis using r by (cases outs) (auto simp: length_Suc_conv numeral_2_eq_2)
qed

text \<open>
  Every scancode of a release or a prefix has its top bit set, so the prefix 0xE0 is taken for a release and the extended keys are
  never reported: with no prefix pending, none is pending after any scancode.
\<close>

lemma keyboard_prefix_ignored: "\<not> kb_e0 k \<Longrightarrow> \<not> kb_e0 (keyboard_handler sc k)"
  by (auto simp: keyboard_handler_def kb_push_str_def kb_buf_push_def Let_def)

end
