(* ===== verification/Terminal.thy ===== *)
theory Terminal
  imports Kernel_Prelude
begin

text \<open>
  \<open>kernel/tty/terminal.c\<close> and the escape sequence parser \<open>kernel/tty/lw_terminal_parser.c\<close>: the 80 by 25 text
  screen, cursor, scroll region and attributes, driven byte by byte. The text buffer is a function of the cell index, so
  that a write outside of its 2000 cells is visible; \<open>crtc\<close> holds the registers of the hardware cursor. C's \<open>int\<close> is
  \<open>int\<close>, wrapped to 32 bits where a parameter of a sequence enters the arithmetic. \<open>None\<close> is the loop of a tab
  that does not end, or a write of the parser after its parameter array. Characters from 128 on are negative \<open>char\<close>s in
  C; they fail every range test of the parser as they do here.
\<close>

section \<open>The parser's state\<close>

definition COLS :: int where "COLS = 80"
definition ROWS :: int where "ROWS = 25"
definition TERM_STACK_SIZE :: nat where "TERM_STACK_SIZE = 1024"
definition TTY_CANON :: int where "TTY_CANON = 1"
definition TTY_ECHO :: int where "TTY_ECHO = 2"
definition TTY_ISIG :: int where "TTY_ISIG = 4"

datatype term_state = INIT | ESC | HASH | G0SET | G1SET | CSI

record lw_terminal =
  tstate :: term_state
  argc :: nat
  argv :: "nat \<Rightarrow> u32"
  stack :: "u8 list"
  pflag :: u8

definition wrap32 :: "int \<Rightarrow> int" where
  "wrap32 x = sint (word_of_int x :: u32)"

definition lw_terminal_parser_push :: "u8 \<Rightarrow> lw_terminal \<Rightarrow> lw_terminal" where
  "lw_terminal_parser_push c t = (if length (stack t) \<ge> TERM_STACK_SIZE then t else t\<lparr>stack := stack t @ [c]\<rparr>)"

fun parse_params_loop :: "u8 list \<Rightarrow> nat \<Rightarrow> (nat \<Rightarrow> u32) \<Rightarrow> bool \<Rightarrow> (nat \<times> (nat \<Rightarrow> u32)) option" where
  "parse_params_loop [] n v got = Some (if got then n + 1 else n, v)"
| "parse_params_loop (c # cs) n v got =
     (if c \<ge> 48 \<and> c \<le> 57 then parse_params_loop cs n (v(n := v n * 10 + ucast c - 48)) True
      else if c = 59 then if n + 1 < TERM_STACK_SIZE then parse_params_loop cs (n + 1) (v(n + 1 := 0)) False else None
      else parse_params_loop cs n v got)"

definition lw_terminal_parser_parse_params :: "lw_terminal \<Rightarrow> lw_terminal option" where
  "lw_terminal_parser_parse_params t =
     map_option (\<lambda>(n, v). t\<lparr>argc := n, argv := v\<rparr>) (parse_params_loop (stack t) 0 ((argv t)(0 := 0)) False)"

definition leave_sequence :: "lw_terminal \<Rightarrow> lw_terminal" where
  "leave_sequence t = t\<lparr>tstate := INIT, stack := [], argc := 0\<rparr>"

section \<open>The screen\<close>

record terminal =
  vga :: "int \<Rightarrow> u16"
  crtc :: "u8 \<Rightarrow> u8"
  parser :: lw_terminal
  ready :: bool
  cx :: int
  cy :: int
  top_row :: int
  bot_row :: int
  sx :: int
  sy :: int
  pending_wrap :: bool
  autowrap :: bool
  cursor_visible :: bool
  fg :: int
  bg :: int
  bold :: bool
  reverse_video :: bool
  lflag :: int

definition attr :: "terminal \<Rightarrow> u8" where
  "attr s =
     (let f = word_of_int (fg s) AND 0x0F :: u32; b = word_of_int (bg s) AND 0x07;
          f = (if bold s \<and> f < 8 then f OR 8 else f);
          (f, b) = (if reverse_video s then (b, f) else (f, b))
      in ucast (push_bit 4 b OR (f AND 0x0F)))"

definition cell :: "u8 \<Rightarrow> terminal \<Rightarrow> u16" where
  "cell c s = push_bit 8 (ucast (attr s)) OR ucast c"

definition putcell :: "int \<Rightarrow> int \<Rightarrow> u8 \<Rightarrow> terminal \<Rightarrow> terminal" where
  "putcell x y c s = s\<lparr>vga := (vga s)(y * COLS + x := cell c s)\<rparr>"

definition blank_cell :: "int \<Rightarrow> int \<Rightarrow> terminal \<Rightarrow> terminal" where
  "blank_cell x y s = putcell x y 32 s"

definition blank_row :: "int \<Rightarrow> terminal \<Rightarrow> terminal" where
  "blank_row y s = fold (\<lambda>x. blank_cell x y) [0..COLS - 1] s"

definition set_cursor :: "terminal \<Rightarrow> terminal" where
  "set_cursor s =
     (if \<not> cursor_visible s then s\<lparr>crtc := (crtc s)(0x0A := 0x20)\<rparr>
      else
        (let pos = word_of_int (cy s * COLS + cx s) :: u16
         in s\<lparr>crtc := (crtc s)(0x0A := 0x0E, 0x0B := 0x0F, 0x0E := ucast (drop_bit 8 pos), 0x0F := ucast (pos AND 0xFF))\<rparr>))"

definition move_rows :: "int \<Rightarrow> int \<Rightarrow> terminal \<Rightarrow> terminal" where
  "move_rows dst src s = fold (\<lambda>x s. s\<lparr>vga := (vga s)(dst * COLS + x := vga s (src * COLS + x))\<rparr>) [0..COLS - 1] s"

definition scroll_up :: "terminal \<Rightarrow> terminal" where
  "scroll_up s = blank_row (bot_row s) (fold (\<lambda>y. move_rows y (y + 1)) [top_row s..bot_row s - 1] s)"

definition scroll_down :: "terminal \<Rightarrow> terminal" where
  "scroll_down s = blank_row (top_row s) (fold (\<lambda>y. move_rows y (y - 1)) (rev [top_row s + 1..bot_row s]) s)"

definition linefeed :: "terminal \<Rightarrow> terminal" where
  "linefeed s = (if cy s \<ge> bot_row s then scroll_up s else if cy s < ROWS - 1 then s\<lparr>cy := cy s + 1\<rparr> else s)"

definition putc :: "u8 \<Rightarrow> terminal \<Rightarrow> terminal" where
  "putc c s =
     (let s = (if pending_wrap s then linefeed (s\<lparr>pending_wrap := False, cx := 0\<rparr>) else s);
          s = putcell (cx s) (cy s) c s;
          s = (if cx s = COLS - 1 then if autowrap s then s\<lparr>pending_wrap := True\<rparr> else s else s\<lparr>cx := cx s + 1\<rparr>)
      in set_cursor s)"

partial_function (option) tab_loop :: "terminal \<Rightarrow> terminal option" where
  "tab_loop s = (let s = putc 32 s in if cx s mod 8 \<noteq> 0 \<and> cx s > 0 then tab_loop s else Some s)"

definition term_write_cb :: "u8 \<Rightarrow> terminal \<Rightarrow> terminal option" where
  "term_write_cb u s =
     map_option set_cursor
       (if u = 10 then Some (linefeed (s\<lparr>cx := 0, pending_wrap := False\<rparr>))
        else if u = 13 then Some (s\<lparr>cx := 0, pending_wrap := False\<rparr>)
        else if u = 8 then Some ((if cx s > 0 then s\<lparr>cx := cx s - 1\<rparr> else s)\<lparr>pending_wrap := False\<rparr>)
        else if u = 9 then tab_loop s
        else if u = 7 then Some s
        else if u = 0x0e \<or> u = 0x0f then Some s
        else if u \<ge> 32 then Some (putc u s) else Some s)"

definition csi_arg :: "nat \<Rightarrow> int \<Rightarrow> terminal \<Rightarrow> int" where
  "csi_arg i d s = (if i < argc (parser s) \<and> argv (parser s) i \<noteq> 0 then sint (argv (parser s) i) else d)"

definition cursor_home :: "terminal \<Rightarrow> terminal" where
  "cursor_home s = s\<lparr>cx := 0, cy := 0, pending_wrap := False\<rparr>"

definition erase_line :: "int \<Rightarrow> int \<Rightarrow> int \<Rightarrow> terminal \<Rightarrow> terminal" where
  "erase_line y a b s =
     (let a = (if a < 0 then 0 else a); b = (if b > COLS - 1 then COLS - 1 else b) in fold (\<lambda>x. blank_cell x y) [a..b] s)"

definition erase_display :: "int \<Rightarrow> terminal \<Rightarrow> terminal" where
  "erase_display mode s =
     (if mode = 0 then fold blank_row [cy s + 1..ROWS - 1] (erase_line (cy s) (cx s) (COLS - 1) s)
      else if mode = 1 then erase_line (cy s) 0 (cx s) (fold blank_row [0..cy s - 1] s)
      else fold blank_row [0..ROWS - 1] s)"

definition insert_lines :: "int \<Rightarrow> terminal \<Rightarrow> terminal" where
  "insert_lines n s =
     (let limit = bot_row s - cy s + 1; n = (if n > limit then limit else n)
      in fold blank_row [cy s..cy s + n - 1] (fold (\<lambda>y. move_rows y (y - n)) (rev [cy s + n..bot_row s]) s))"

definition delete_lines :: "int \<Rightarrow> terminal \<Rightarrow> terminal" where
  "delete_lines n s =
     (let limit = bot_row s - cy s + 1; n = (if n > limit then limit else n)
      in fold blank_row [bot_row s - n + 1..bot_row s] (fold (\<lambda>y. move_rows y (y + n)) [cy s..bot_row s - n] s))"

section \<open>Control sequences\<close>

definition csi_cuu :: "terminal \<Rightarrow> terminal" where
  "csi_cuu s = s\<lparr>cy := max (top_row s) (wrap32 (cy s - csi_arg 0 1 s))\<rparr>"
definition csi_cud :: "terminal \<Rightarrow> terminal" where
  "csi_cud s = s\<lparr>cy := min (bot_row s) (wrap32 (cy s + csi_arg 0 1 s))\<rparr>"
definition csi_cuf :: "terminal \<Rightarrow> terminal" where
  "csi_cuf s = s\<lparr>cx := min (COLS - 1) (wrap32 (cx s + csi_arg 0 1 s))\<rparr>"
definition csi_cub :: "terminal \<Rightarrow> terminal" where
  "csi_cub s = s\<lparr>cx := max 0 (wrap32 (cx s - csi_arg 0 1 s))\<rparr>"
definition csi_cnl :: "terminal \<Rightarrow> terminal" where
  "csi_cnl s = s\<lparr>cx := 0, cy := min (bot_row s) (wrap32 (cy s + csi_arg 0 1 s))\<rparr>"
definition csi_cpl :: "terminal \<Rightarrow> terminal" where
  "csi_cpl s = s\<lparr>cx := 0, cy := max (top_row s) (wrap32 (cy s - csi_arg 0 1 s))\<rparr>"
definition csi_cha :: "terminal \<Rightarrow> terminal" where
  "csi_cha s = s\<lparr>cx := min (COLS - 1) (wrap32 (csi_arg 0 1 s - 1))\<rparr>"
definition csi_vpa :: "terminal \<Rightarrow> terminal" where
  "csi_vpa s = s\<lparr>cy := min (ROWS - 1) (wrap32 (csi_arg 0 1 s - 1))\<rparr>"
definition csi_cup :: "terminal \<Rightarrow> terminal" where
  "csi_cup s = s\<lparr>cy := min (ROWS - 1) (wrap32 (csi_arg 0 1 s - 1)), cx := min (COLS - 1) (wrap32 (csi_arg 1 1 s - 1)),
     pending_wrap := False\<rparr>"
definition csi_ed :: "terminal \<Rightarrow> terminal" where
  "csi_ed s = erase_display (csi_arg 0 0 s) s"
definition csi_el :: "terminal \<Rightarrow> terminal" where
  "csi_el s =
     (let m = csi_arg 0 0 s
      in if m = 0 then erase_line (cy s) (cx s) (COLS - 1) s
         else if m = 1 then erase_line (cy s) 0 (cx s) s
         else erase_line (cy s) 0 (COLS - 1) s)"
definition csi_il :: "terminal \<Rightarrow> terminal" where
  "csi_il s = insert_lines (csi_arg 0 1 s) s"
definition csi_dl :: "terminal \<Rightarrow> terminal" where
  "csi_dl s = delete_lines (csi_arg 0 1 s) s"
definition csi_su :: "terminal \<Rightarrow> terminal" where
  "csi_su s = (scroll_up ^^ nat (csi_arg 0 1 s)) s"
definition csi_sd :: "terminal \<Rightarrow> terminal" where
  "csi_sd s = (scroll_down ^^ nat (csi_arg 0 1 s)) s"
definition csi_decstbm :: "terminal \<Rightarrow> terminal" where
  "csi_decstbm s =
     (let nt = wrap32 (csi_arg 0 1 s - 1); nb = wrap32 (csi_arg 1 ROWS s - 1);
          nt = (if nt < 0 then 0 else nt); nb = (if nb > ROWS - 1 then ROWS - 1 else nb)
      in if nt \<ge> nb then s else cursor_home (s\<lparr>top_row := nt, bot_row := nb\<rparr>))"

definition sgr_default :: "terminal \<Rightarrow> terminal" where
  "sgr_default s = s\<lparr>bold := False, reverse_video := False, fg := 7, bg := 0\<rparr>"

definition sgr_colour :: "int \<Rightarrow> terminal \<Rightarrow> terminal" where
  "sgr_colour a s =
     (if a = 0 then sgr_default s
      else if a = 1 then s\<lparr>bold := True\<rparr>
      else if a = 22 then s\<lparr>bold := False\<rparr>
      else if a = 7 then s\<lparr>reverse_video := True\<rparr>
      else if a = 27 then s\<lparr>reverse_video := False\<rparr>
      else if a \<ge> 30 \<and> a \<le> 37 then s\<lparr>fg := a - 30\<rparr>
      else if a = 39 then s\<lparr>fg := 7\<rparr>
      else if a \<ge> 40 \<and> a \<le> 47 then s\<lparr>bg := a - 40\<rparr>
      else if a = 49 then s\<lparr>bg := 0\<rparr>
      else if a \<ge> 90 \<and> a \<le> 97 then s\<lparr>fg := a - 90 + 8\<rparr>
      else if a \<ge> 100 \<and> a \<le> 107 then s\<lparr>bg := a - 100\<rparr>
      else s)"

text \<open>The loop of \<open>sgr\<close> over the remaining parameters; 38 and 48 take two or four more.\<close>

fun sgr_loop :: "u32 list \<Rightarrow> terminal \<Rightarrow> terminal" where
  "sgr_loop [] s = s"
| "sgr_loop (v # vs) s =
     (let a = sint v
      in if a = 38 \<or> a = 48 then
           if length vs \<ge> 2 \<and> vs ! 0 = 5 then
             (let idx = uint (vs ! 1 AND 0x0F)
              in sgr_loop (drop 2 vs) (if a = 38 then s\<lparr>fg := idx\<rparr> else s\<lparr>bg := idx mod 8\<rparr>))
           else if length vs \<ge> 4 \<and> vs ! 0 = 2 then sgr_loop (drop 4 vs) s
           else sgr_loop vs s
         else sgr_loop vs (sgr_colour a s))"

definition sgr :: "terminal \<Rightarrow> terminal" where
  "sgr s = (if argc (parser s) = 0 then sgr_default s else sgr_loop (map (argv (parser s)) [0..<argc (parser s)]) s)"

definition set_private_mode :: "bool \<Rightarrow> u32 \<Rightarrow> terminal \<Rightarrow> terminal" where
  "set_private_mode b m s =
     (if pflag (parser s) = 63 then if m = 25 then s\<lparr>cursor_visible := b\<rparr> else if m = 7 then s\<lparr>autowrap := b\<rparr> else s else s)"

definition csi_sm :: "terminal \<Rightarrow> terminal" where
  "csi_sm s = set_cursor (fold (set_private_mode True) (map (argv (parser s)) [0..<argc (parser s)]) s)"
definition csi_rm :: "terminal \<Rightarrow> terminal" where
  "csi_rm s = set_cursor (fold (set_private_mode False) (map (argv (parser s)) [0..<argc (parser s)]) s)"

definition esc_ind :: "terminal \<Rightarrow> terminal" where
  "esc_ind s = linefeed s"
definition esc_ri :: "terminal \<Rightarrow> terminal" where
  "esc_ri s = (if cy s \<le> top_row s then scroll_down s else s\<lparr>cy := cy s - 1\<rparr>)"
definition esc_nel :: "terminal \<Rightarrow> terminal" where
  "esc_nel s = linefeed (s\<lparr>cx := 0\<rparr>)"
definition esc_decsc :: "terminal \<Rightarrow> terminal" where
  "esc_decsc s = s\<lparr>sx := cx s, sy := cy s\<rparr>"
definition esc_decrc :: "terminal \<Rightarrow> terminal" where
  "esc_decrc s = s\<lparr>cx := sx s, cy := sy s, pending_wrap := False\<rparr>"

definition terminal_reset :: "terminal \<Rightarrow> terminal" where
  "terminal_reset s =
     set_cursor (fold blank_row [0..ROWS - 1]
       (s\<lparr>cx := 0, cy := 0, top_row := 0, bot_row := ROWS - 1, sx := 0, sy := 0, pending_wrap := False, autowrap := True,
          cursor_visible := True, bold := False, reverse_video := False, fg := 7, bg := 0\<rparr>))"

definition esc_ris :: "terminal \<Rightarrow> terminal" where
  "esc_ris s = terminal_reset s"

text \<open>The callback tables as \<open>terminal_init\<close> fills them; the tables of \<open>hash\<close> and \<open>scs\<close> stay empty.\<close>

definition csi_table :: "u8 \<Rightarrow> (terminal \<Rightarrow> terminal) option" where
  "csi_table = map_of [(65, csi_cuu), (66, csi_cud), (67, csi_cuf), (68, csi_cub), (69, csi_cnl), (70, csi_cpl), (71, csi_cha),
     (72, csi_cup), (102, csi_cup), (100, csi_vpa), (74, csi_ed), (75, csi_el), (76, csi_il), (77, csi_dl), (83, csi_su),
     (84, csi_sd), (114, csi_decstbm), (109, sgr), (104, csi_sm), (108, csi_rm)]"

definition esc_table :: "u8 \<Rightarrow> (terminal \<Rightarrow> terminal) option" where
  "esc_table = map_of [(68, esc_ind), (77, esc_ri), (69, esc_nel), (55, esc_decsc), (56, esc_decrc), (99, esc_ris)]"

section \<open>Reading bytes\<close>

definition upd_parser :: "(lw_terminal \<Rightarrow> lw_terminal) \<Rightarrow> terminal \<Rightarrow> terminal" where
  "upd_parser f s = s\<lparr>parser := f (parser s)\<rparr>"

definition lw_terminal_parser_call_CSI :: "u8 \<Rightarrow> terminal \<Rightarrow> terminal option" where
  "lw_terminal_parser_call_CSI c s =
     map_option (\<lambda>t.
         let s = s\<lparr>parser := t\<rparr>; s = (case csi_table c of None \<Rightarrow> s | Some f \<Rightarrow> f s)
         in upd_parser (\<lambda>t. (leave_sequence t)\<lparr>pflag := 0\<rparr>) s)
       (lw_terminal_parser_parse_params (parser s))"

definition lw_terminal_parser_call_ESC :: "u8 \<Rightarrow> terminal \<Rightarrow> terminal" where
  "lw_terminal_parser_call_ESC c s = upd_parser leave_sequence (case esc_table c of None \<Rightarrow> s | Some f \<Rightarrow> f s)"

definition lw_terminal_parser_call_HASH :: "u8 \<Rightarrow> terminal \<Rightarrow> terminal" where
  "lw_terminal_parser_call_HASH c s = upd_parser leave_sequence s"

definition lw_terminal_parser_call_GSET :: "u8 \<Rightarrow> terminal \<Rightarrow> terminal" where
  "lw_terminal_parser_call_GSET c s = upd_parser leave_sequence s"

definition goto :: "term_state \<Rightarrow> terminal \<Rightarrow> terminal" where
  "goto st s = upd_parser (\<lambda>t. t\<lparr>tstate := st\<rparr>) s"

definition lw_terminal_parser_read :: "u8 \<Rightarrow> terminal \<Rightarrow> terminal option" where
  "lw_terminal_parser_read c s =
     (case tstate (parser s) of
        INIT \<Rightarrow> if c = 27 then Some (goto ESC s) else term_write_cb c s
      | ESC \<Rightarrow>
          if c = 91 then Some (goto CSI s)
          else if c = 35 then Some (goto HASH s)
          else if c = 40 then Some (goto G0SET s)
          else if c = 41 then Some (goto G1SET s)
          else if c \<ge> 48 \<and> c \<le> 122 then Some (lw_terminal_parser_call_ESC c s)
          else term_write_cb c s
      | HASH \<Rightarrow> if c \<ge> 48 \<and> c \<le> 57 then Some (lw_terminal_parser_call_HASH c s) else term_write_cb c s
      | G0SET \<Rightarrow> Some (lw_terminal_parser_call_GSET c s)
      | G1SET \<Rightarrow> Some (lw_terminal_parser_call_GSET c s)
      | CSI \<Rightarrow>
          if c = 63 then Some (upd_parser (\<lambda>t. t\<lparr>pflag := 63\<rparr>) s)
          else if c = 59 \<or> c \<ge> 48 \<and> c \<le> 57 then Some (upd_parser (lw_terminal_parser_push c) s)
          else if c \<ge> 63 \<and> c \<le> 122 then lw_terminal_parser_call_CSI c s
          else term_write_cb c s)"

fun read_all :: "u8 list \<Rightarrow> terminal \<Rightarrow> terminal option" where
  "read_all [] s = Some s"
| "read_all (c # cs) s = Option.bind (lw_terminal_parser_read c s) (read_all cs)"

definition lw_terminal_parser_read_str :: "u8 list \<Rightarrow> terminal \<Rightarrow> terminal option" where
  "lw_terminal_parser_read_str str s = read_all str s"

definition terminal_write :: "u8 list \<Rightarrow> terminal \<Rightarrow> terminal option" where
  "terminal_write buf s = (if \<not> ready s then Some s else map_option set_cursor (read_all buf s))"

definition terminal_init :: "terminal \<Rightarrow> terminal" where
  "terminal_init s = terminal_reset (s\<lparr>ready := True\<rparr>)"

definition terminal_ready :: "terminal \<Rightarrow> bool" where
  "terminal_ready s = ready s"

definition terminal_mode :: "terminal \<Rightarrow> int" where
  "terminal_mode s = lflag s"

definition terminal_set_mode :: "int \<Rightarrow> terminal \<Rightarrow> terminal" where
  "terminal_set_mode mode s = s\<lparr>lflag := mode\<rparr>"

text \<open>The line before the cursor: its length and the bytes stored in the caller's buffer, the NUL included.\<close>

definition terminal_snapshot_line :: "int \<Rightarrow> terminal \<Rightarrow> int \<times> u8 list" where
  "terminal_snapshot_line mx s =
     (if \<not> ready s then (0, if mx > 0 then [0] else [])
      else
        (let n = (if cx s > mx - 1 then mx - 1 else cx s);
             ch = (\<lambda>x. let c = ucast (vga s (cy s * COLS + x) AND 0xFF) :: u8 in if c \<noteq> 0 then c else 32)
         in (n, map ch [0..n - 1] @ [0])))"

end
