(* ===== verification/Vga.thy ===== *)
theory Vga
  imports Terminal
begin

text \<open>
  \<open>drivers/video/vga.c\<close> and \<open>serial_putchar\<close> of \<open>drivers/serial/serial.c\<close>: the console output of the kernel. Before the terminal
  is initialised text goes straight to the cells; afterwards to the terminal. Everything is mirrored to the serial port, whose
  output is the list of bytes sent (the wait for the transmitter is not modelled). Both drivers share the text buffer,
  16-bit cells with the character in the low byte.
\<close>

record console =
  tty :: terminal
  cursor_x :: int
  cursor_y :: int
  serial_out :: "u8 list"

definition serial_putchar :: "u8 \<Rightarrow> console \<Rightarrow> console" where
  "serial_putchar c s = s\<lparr>serial_out := serial_out s @ (if c = 10 then [13] else []) @ [c]\<rparr>"

definition put_cell :: "int \<Rightarrow> u8 \<Rightarrow> u8 \<Rightarrow> console \<Rightarrow> console" where
  "put_cell i c a s = s\<lparr>tty := (tty s)\<lparr>vga := (vga (tty s))(i := push_bit 8 (ucast a) OR ucast c)\<rparr>\<rparr>"

definition update_hw_cursor :: "console \<Rightarrow> console" where
  "update_hw_cursor s =
     (let pos = word_of_int (cursor_y s * 80 + cursor_x s) :: u16
      in s\<lparr>tty := (tty s)\<lparr>crtc := (crtc (tty s))(0x0F := ucast (pos AND 0xFF), 0x0E := ucast (drop_bit 8 pos AND 0xFF))\<rparr>\<rparr>)"

definition scroll :: "console \<Rightarrow> console" where
  "scroll s =
     (let copy = (\<lambda>y x s. s\<lparr>tty := (tty s)\<lparr>vga := (vga (tty s))(y * 80 + x := vga (tty s) ((y + 1) * 80 + x))\<rparr>\<rparr>);
          s = fold (\<lambda>y s. fold (copy y) [0..79] s) [0..23] s;
          s = fold (\<lambda>x s. put_cell (24 * 80 + x) 32 0x07 s) [0..79] s
      in s\<lparr>cursor_y := 24\<rparr>)"

definition next_line :: "console \<Rightarrow> console" where
  "next_line s = (let s = s\<lparr>cursor_y := cursor_y s + 1, cursor_x := 0\<rparr> in if cursor_y s \<ge> 25 then scroll s else s)"

definition print_char :: "u8 \<Rightarrow> u8 \<Rightarrow> console \<Rightarrow> console" where
  "print_char color c s =
     (if c = 10 then next_line s
      else
        (let s = put_cell (cursor_y s * 80 + cursor_x s) c (if color \<noteq> 0 then color else 0x07) s;
             s = s\<lparr>cursor_x := cursor_x s + 1\<rparr>
         in if cursor_x s \<ge> 80 then next_line s else s))"

definition print :: "u8 list \<Rightarrow> u8 \<Rightarrow> console \<Rightarrow> console option" where
  "print str color s =
     (let s = fold serial_putchar str s
      in if terminal_ready (tty s) then map_option (\<lambda>t. s\<lparr>tty := t\<rparr>) (terminal_write str (tty s))
         else Some (update_hw_cursor (fold (print_char (if color = 0 then 0x07 else color)) str s)))"

definition print_at :: "u8 list \<Rightarrow> int \<Rightarrow> int \<Rightarrow> u8 \<Rightarrow> console \<Rightarrow> console" where
  "print_at str x y color s =
     (let a = (if color = 0 then 0x07 else color)
      in fold (\<lambda>(i, c) s. put_cell (y * 80 + x + int i) c a s) (enumerate 0 str) (s\<lparr>cursor_x := x, cursor_y := y\<rparr>))"

definition clear_screen :: "console \<Rightarrow> console" where
  "clear_screen s =
     (if terminal_ready (tty s) then s\<lparr>tty := terminal_reset (tty s)\<rparr>
      else
        (let s = fold (\<lambda>y s. fold (\<lambda>x s. put_cell (y * 80 + x) 32 0x07 s) [0..79] s) [0..24] s
         in update_hw_cursor (s\<lparr>cursor_x := 0, cursor_y := 0\<rparr>)))"

text \<open>The eight hexadecimal digits \<open>print_hex\<close> writes after \<open>0x\<close>, highest first.\<close>

definition hex_digit :: "u32 \<Rightarrow> u8" where
  "hex_digit n = (if n < 10 then 48 + ucast n else 97 + ucast n - 10)"

definition hex_text :: "u32 \<Rightarrow> u8 list" where
  "hex_text val = map (\<lambda>i. hex_digit (drop_bit (4 * (7 - i)) val AND 0xF)) [0..<8]"

definition print_hex :: "u32 \<Rightarrow> console \<Rightarrow> console option" where
  "print_hex val s = print ([48, 120] @ hex_text val) 0x07 s"

end
