(* ===== verification/KString.thy ===== *)
theory KString
  imports Kernel_Prelude
begin

text \<open>
  \<open>kernel/lib/string.c\<close>: the freestanding memory and string routines, over byte-addressed
  memory. A routine that returns its first argument is modelled by the memory it leaves.
  The counted loops run on \<open>unat n\<close>; the loops that search for a NUL byte may run forever on a
  memory that has none, so they are \<^theory_text>\<open>partial_function (option)\<close> with \<open>None\<close> for "does not
  return", and the lemmas prove that they return on NUL-terminated strings.
\<close>

section \<open>The routines\<close>

partial_function (option) kstrcpy :: "memory \<Rightarrow> u32 \<Rightarrow> u32 \<Rightarrow> memory option" where
  "kstrcpy m dst src =
     (if m src \<noteq> 0 then kstrcpy (m(dst := m src)) (dst + 1) (src + 1)
      else Some (m(dst := 0)))"

fun kmemset_loop :: "nat \<Rightarrow> memory \<Rightarrow> u32 \<Rightarrow> u8 \<Rightarrow> memory" where
  "kmemset_loop 0 m d c = m"
| "kmemset_loop (Suc n) m d c = kmemset_loop n (m(d := c)) (d + 1) c"

definition kmemset :: "memory \<Rightarrow> u32 \<Rightarrow> u32 \<Rightarrow> u32 \<Rightarrow> memory" where
  "kmemset m dst c n = kmemset_loop (unat n) m dst (ucast c)"

fun kmemcpy_loop :: "nat \<Rightarrow> memory \<Rightarrow> u32 \<Rightarrow> u32 \<Rightarrow> memory" where
  "kmemcpy_loop 0 m d s = m"
| "kmemcpy_loop (Suc n) m d s = kmemcpy_loop n (m(d := m s)) (d + 1) (s + 1)"

definition kmemcpy :: "memory \<Rightarrow> u32 \<Rightarrow> u32 \<Rightarrow> u32 \<Rightarrow> memory" where
  "kmemcpy m dst src n = kmemcpy_loop (unat n) m dst src"

fun kmemmove_down :: "nat \<Rightarrow> memory \<Rightarrow> u32 \<Rightarrow> u32 \<Rightarrow> memory" where
  "kmemmove_down 0 m d s = m"
| "kmemmove_down (Suc n) m d s =
     kmemmove_down n (m(d - 1 := m (s - 1))) (d - 1) (s - 1)"

definition kmemmove :: "memory \<Rightarrow> u32 \<Rightarrow> u32 \<Rightarrow> u32 \<Rightarrow> memory" where
  "kmemmove m dst src n =
     (if dst < src then kmemcpy_loop (unat n) m dst src
      else if dst > src then kmemmove_down (unat n) m (dst + n) (src + n)
      else m)"

partial_function (option) kstrlen_loop :: "memory \<Rightarrow> u32 \<Rightarrow> u32 \<Rightarrow> u32 option" where
  "kstrlen_loop m s n = (if m (s + n) \<noteq> 0 then kstrlen_loop m s (n + 1) else Some n)"

definition kstrlen :: "memory \<Rightarrow> u32 \<Rightarrow> u32 option" where
  "kstrlen m s = kstrlen_loop m s 0"

partial_function (option) kstrcmp :: "memory \<Rightarrow> u32 \<Rightarrow> u32 \<Rightarrow> int option" where
  "kstrcmp m a b =
     (if m a \<noteq> 0 \<and> m a = m b then kstrcmp m (a + 1) (b + 1)
      else Some (uint (m a) - uint (m b)))"

fun kstrncmp_loop :: "nat \<Rightarrow> memory \<Rightarrow> u32 \<Rightarrow> u32 \<Rightarrow> int" where
  "kstrncmp_loop 0 m a b = 0"
| "kstrncmp_loop (Suc n) m a b =
     (if m a \<noteq> 0 \<and> m a = m b then kstrncmp_loop n m (a + 1) (b + 1)
      else uint (m a) - uint (m b))"

definition kstrncmp :: "memory \<Rightarrow> u32 \<Rightarrow> u32 \<Rightarrow> u32 \<Rightarrow> int" where
  "kstrncmp m a b n = kstrncmp_loop (unat n) m a b"

section \<open>C strings in memory and the list functions the routines compute\<close>

fun cstring :: "memory \<Rightarrow> u32 \<Rightarrow> u8 list \<Rightarrow> bool" where
  "cstring m a [] \<longleftrightarrow> m a = 0"
| "cstring m a (x # xs) \<longleftrightarrow> m a = x \<and> x \<noteq> 0 \<and> cstring m (a + 1) xs"

text \<open>Byte-wise comparison, the value the C routines return: the difference at the first
  place the strings differ, the end counting as 0.\<close>

fun strcmp_list :: "u8 list \<Rightarrow> u8 list \<Rightarrow> int" where
  "strcmp_list [] [] = 0"
| "strcmp_list (x # xs) [] = uint x"
| "strcmp_list [] (y # ys) = - uint y"
| "strcmp_list (x # xs) (y # ys) = (if x = y then strcmp_list xs ys else uint x - uint y)"

text \<open>The memory a copy of \<open>n\<close> bytes through a temporary buffer leaves.\<close>

definition copied :: "memory \<Rightarrow> u32 \<Rightarrow> u32 \<Rightarrow> nat \<Rightarrow> memory" where
  "copied m d s n = (\<lambda>a. if in_region d n a then m (s + (a - d)) else m a)"

section \<open>Memory routines\<close>

lemma kmemset_loop_apply:
  "n \<le> 2 ^ 32 \<Longrightarrow> kmemset_loop n m d c a = (if in_region d n a then c else m a)"
proof (induction n arbitrary: m d)
  case (Suc n)
  then show ?case
    by (cases "a = d") (auto simp: in_region_Suc not_in_region_next)
qed simp

lemma kmemset_apply [kernel_simps]:
  "kmemset m d c n a = (if in_region d (unat n) a then ucast c else m a)"
  using unat_u32_le [of n] by (simp add: kmemset_def kmemset_loop_apply)

lemma in_region_next: "in_region (d + 1) n a \<Longrightarrow> n < 2 ^ 32 \<Longrightarrow> a \<noteq> d \<and> in_region d (Suc n) a"
  using not_in_region_next [of n d] by (auto simp: in_region_Suc)

text \<open>
  The upward loop is a copy unless the destination starts inside the source block it has
  yet to read.
\<close>

lemma kmemcpy_loop_copied:
  assumes "n \<le> 2 ^ 32" and "d = s \<or> n \<le> unat (d - s)"
  shows "kmemcpy_loop n m d s = copied m d s n"
  using assms
proof (induction n arbitrary: m d s)
  case 0
  then show ?case by (simp add: copied_def)
next
  case (Suc n)
  have "(d + 1) - (s + 1) = d - s" by simp
  with Suc.prems have IH: "kmemcpy_loop n (m(d := m s)) (d + 1) (s + 1) =
      copied (m(d := m s)) (d + 1) (s + 1) n"
    by (intro Suc.IH) auto
  have "copied (m(d := m s)) (d + 1) (s + 1) n a = copied m d s (Suc n) a" for a
  proof (cases "in_region (d + 1) n a")
    case True
    then have a: "a \<noteq> d" "in_region d (Suc n) a"
      using Suc.prems(1) in_region_next by simp_all
    have "s + (a - d) \<noteq> d"
    proof
      assume "s + (a - d) = d"
      then have "a - d = d - s" by (simp add: algebra_simps)
      with Suc.prems a show False by (auto simp: in_region_def)
    qed
    moreover have "s + 1 + (a - (d + 1)) = s + (a - d)" by simp
    ultimately show ?thesis using True a by (simp add: copied_def)
  next
    case False
    then show ?thesis
      using Suc.prems(1) by (auto simp: copied_def in_region_Suc)
  qed
  with IH show ?case by auto
qed

lemma kmemcpy_copied:
  "d = s \<or> unat n \<le> unat (d - s) \<Longrightarrow> kmemcpy m d s n = copied m d s (unat n)"
  using unat_u32_le [of n] by (simp add: kmemcpy_def kmemcpy_loop_copied)

text \<open>The downward loop of \<open>kmemmove\<close>, from the end pointers.\<close>

lemma kmemmove_down_copied:
  assumes "n \<le> 2 ^ 32" and "d = s \<or> n \<le> unat (s - d)"
  shows "kmemmove_down n m (d + of_nat n) (s + of_nat n) = copied m d s n"
  using assms
proof (induction n arbitrary: m)
  case 0
  then show ?case by (simp add: copied_def)
next
  case (Suc n)
  let ?m = "m(d + of_nat n := m (s + of_nat n))"
  have n: "unat (of_nat n :: u32) = n" using Suc.prems(1) by (simp add: unat_of_nat)
  from Suc.prems have IH: "kmemmove_down n ?m (d + of_nat n) (s + of_nat n) = copied ?m d s n"
    by (intro Suc.IH) auto
  have last: "in_region d (Suc n) a \<longleftrightarrow> a = d + of_nat n \<or> in_region d n a" for a
  proof -
    have "a = d + of_nat n \<longleftrightarrow> a - d = of_nat n" by (auto simp: algebra_simps)
    also have "\<dots> \<longleftrightarrow> unat (a - d) = n" by (simp only: word_unat_eq_iff n)
    finally have "a = d + of_nat n \<longleftrightarrow> unat (a - d) = n" .
    then show ?thesis by (auto simp: in_region_def)
  qed
  have "copied ?m d s n a = copied m d s (Suc n) a" for a
  proof (cases "in_region d n a")
    case True
    then have ne: "unat (a - d) < n" by (simp add: in_region_def)
    have "s + (a - d) \<noteq> d + of_nat n"
    proof
      assume "s + (a - d) = d + of_nat n"
      then have eq: "a - d + (s - d) = of_nat n" by (simp add: algebra_simps)
      show False
      proof (cases "d = s")
        case True
        with eq have "unat (a - d) = n" using n by simp
        with ne show False by simp
      next
        case False
        with Suc.prems(2) have "Suc n \<le> unat (s - d)" by simp
        moreover have "unat (a - d + (s - d)) = n" by (simp only: eq n)
        ultimately show False
          using ne unat_u32_le [of "s - d"] unat_plus_if' [of "a - d" "s - d"]
          by (simp split: if_splits)
      qed
    qed
    with True last show ?thesis by (simp add: copied_def)
  next
    case False
    with last show ?thesis by (simp add: copied_def)
  qed
  with IH show ?case by (auto simp: algebra_simps)
qed

lemma kmemmove_copied:
  assumes "unat d + unat n \<le> 2 ^ 32" and "unat s + unat n \<le> 2 ^ 32"
  shows "kmemmove m d s n = copied m d s (unat n)"
proof (cases d s rule: linorder_cases)
  case less
  then have "unat n \<le> unat (d - s)"
    using assms(2) by (simp add: unat_sub_if' word_less_nat_alt)
  with less show ?thesis
    using unat_u32_le [of n] by (simp add: kmemmove_def kmemcpy_loop_copied)
next
  case equal
  then show ?thesis by (auto simp: kmemmove_def copied_def fun_eq_iff)
next
  case greater
  then have "unat n \<le> unat (s - d)"
    using assms(1) by (simp add: unat_sub_if' word_less_nat_alt)
  with greater show ?thesis
    using unat_u32_le [of n] kmemmove_down_copied [of "unat n" d s m]
    by (auto simp: kmemmove_def)
qed

lemma bytes_at_copied:
  assumes "k \<le> 2 ^ 32"
  shows "bytes_at (copied m d s k) d k = bytes_at m s k"
  using assms by (auto simp: bytes_at_def copied_def in_region_offset)

lemma copied_outside: "\<not> in_region d n a \<Longrightarrow> copied m d s n a = m a"
  by (simp add: copied_def)

section \<open>String routines\<close>

lemma cstring_cong:
  "(\<And>k. k \<le> length xs \<Longrightarrow> m (a + of_nat k) = m' (a + of_nat k)) \<Longrightarrow>
   cstring m a xs = cstring m' a xs"
proof (induction xs arbitrary: a)
  case Nil
  from Nil [of 0] show ?case by simp
next
  case (Cons x xs)
  have "cstring m (a + 1) xs = cstring m' (a + 1) xs"
  proof (rule Cons.IH)
    fix k assume "k \<le> length xs"
    with Cons.prems [of "Suc k"] show "m (a + 1 + of_nat k) = m' (a + 1 + of_nat k)"
      by (simp add: algebra_simps)
  qed
  moreover have "m a = m' a" using Cons.prems [of 0] by simp
  ultimately show ?case by simp
qed

lemma kstrlen_loop_cstring:
  "cstring m (s + n) xs \<Longrightarrow> kstrlen_loop m s n = Some (n + of_nat (length xs))"
proof (induction xs arbitrary: n)
  case Nil
  then show ?case by (subst kstrlen_loop.simps) simp
next
  case (Cons x xs)
  then have "kstrlen_loop m s (n + 1) = Some (n + 1 + of_nat (length xs))"
    by (intro Cons.IH) (simp add: algebra_simps)
  with Cons.prems show ?case by (subst kstrlen_loop.simps) (simp add: algebra_simps)
qed

lemma kstrlen_cstring: "cstring m s xs \<Longrightarrow> kstrlen m s = Some (of_nat (length xs))"
  using kstrlen_loop_cstring [of m s 0 xs] by (simp add: kstrlen_def)

lemma kstrcmp_cstring:
  "cstring m a xs \<Longrightarrow> cstring m b ys \<Longrightarrow> kstrcmp m a b = Some (strcmp_list xs ys)"
  by (induction xs ys arbitrary: a b rule: strcmp_list.induct)
    (subst kstrcmp.simps, simp)+

lemma kstrncmp_loop_cstring:
  "cstring m a xs \<Longrightarrow> cstring m b ys \<Longrightarrow>
   kstrncmp_loop n m a b = strcmp_list (take n xs) (take n ys)"
proof (induction n arbitrary: a b xs ys)
  case (Suc n)
  then show ?case by (cases xs; cases ys) auto
qed simp

lemma strcmp_list_eq_0: "0 \<notin> set xs \<Longrightarrow> 0 \<notin> set ys \<Longrightarrow> strcmp_list xs ys = 0 \<longleftrightarrow> xs = ys"
  by (induction xs ys rule: strcmp_list.induct) (auto simp: uint_0_iff simp flip: word_uint_eq_iff)

lemma cstring_nonzero: "cstring m a xs \<Longrightarrow> 0 \<notin> set xs"
  by (induction xs arbitrary: a) auto

end
