(* ===== verification/Page_Allocator.thy ===== *)
theory Page_Allocator
  imports KString
begin

text \<open>
  The contract of a physical page allocator, as its clients see it: what \<open>alloc\<close> hands out
  was owned by nobody, is a whole page and is not the address 0, and \<open>release\<close> gives back
  exactly that page. The locale is interpreted on the bitmap allocator in theory \<open>PMM\<close>.
\<close>

section \<open>Page arithmetic\<close>

lemma page_aligned_mod: "page_aligned a \<longleftrightarrow> unat a mod 4096 = 0"
proof -
  have "a AND 0xFFF = take_bit 12 a" by (simp add: take_bit_eq_mask mask_eq_exp_minus_1)
  moreover have "unat (take_bit 12 a) = unat a mod 4096"
    by (simp add: take_bit_eq_mod unat_mod)
  ultimately show ?thesis by (simp add: page_aligned_def word_unat_eq_iff)
qed

lemma page_aligned_0 [simp]: "page_aligned 0"
  by (simp add: page_aligned_def)

lemma page_number:
  assumes "i < 0x100000"
  shows "unat (i * 4096) = unat i * 4096" and "page_aligned (i * 4096)"
    and "i * 4096 div 4096 = (i :: u32)" and "i * 4096 = 0 \<longleftrightarrow> i = 0"
proof -
  have i: "unat i < 1048576" using assms by (simp add: word_less_nat_alt)
  then have "unat i * unat (4096 :: u32) < 2 ^ LENGTH(32)" by simp
  then show u: "unat (i * 4096) = unat i * 4096"
    by (simp only: unat_mult_lem) simp
  then show "page_aligned (i * 4096)" by (simp add: page_aligned_mod)
  show "i * 4096 div 4096 = i" using u by (simp add: word_unat_eq_iff unat_div)
  show "i * 4096 = 0 \<longleftrightarrow> i = 0" using u by (simp add: word_unat_eq_iff)
qed

lemma page_aligned_div:
  assumes "page_aligned a"
  shows "a div 4096 * 4096 = a"
proof -
  have "a div 4096 < 0x100000"
    using unat_u32_le [of a] by (simp add: word_less_nat_alt unat_div)
  then have "unat (a div 4096 * 4096) = unat a div 4096 * 4096"
    by (simp add: page_number unat_div)
  also have "\<dots> = unat a" using assms by (auto simp: page_aligned_mod)
  finally show ?thesis by (simp add: word_unat_eq_iff)
qed

lemma page_region_page:
  assumes "page_aligned a" and "in_region a 4096 x"
  shows "unat a \<le> unat x" and "unat x < unat a + 4096" and "unat x div 4096 = unat a div 4096"
proof -
  from assms(1) obtain q where q: "unat a = 4096 * q"
    by (auto simp: page_aligned_mod)
  have d: "unat (x - a) < 4096" using assms(2) by (simp add: in_region_def)
  have "q \<le> 1048575" using q unat_u32_le [of a] by linarith
  then have "unat a + unat (x - a) < 2 ^ 32" using q d by simp
  then have "unat (a + (x - a)) = unat a + unat (x - a)" by (simp only: unat_plus_if') simp
  then have ux: "unat x = 4096 * q + unat (x - a)" by (simp add: q)
  then show "unat a \<le> unat x" "unat x < unat a + 4096" using d q by simp_all
  show "unat x div 4096 = unat a div 4096" using d by (simp add: ux q)
qed

lemma distinct_pages_disjoint:
  assumes "page_aligned a" "page_aligned b" "a \<noteq> b"
  shows "region_disjoint a 4096 b 4096"
  unfolding region_disjoint_def
proof (intro allI notI)
  fix x assume "in_region a 4096 x \<and> in_region b 4096 x"
  then have "unat a div 4096 = unat b div 4096"
    using page_region_page(3) [OF assms(1)] page_region_page(3) [OF assms(2)] by metis
  then have "a div 4096 = b div 4096" by (simp add: word_unat_eq_iff unat_div)
  then have "a = b" using page_aligned_div assms by metis
  with assms(3) show False by simp
qed

section \<open>The contract\<close>

locale page_allocator =
  fixes alloc :: "'s \<Rightarrow> u32 option \<times> 's"
    and release :: "u32 \<Rightarrow> 's \<Rightarrow> 's"
    and owned :: "'s \<Rightarrow> u32 \<Rightarrow> bool"
    and inv :: "'s \<Rightarrow> bool"
  assumes alloc_inv: "inv s \<Longrightarrow> alloc s = (Some a, s') \<Longrightarrow> inv s'"
    and alloc_page: "inv s \<Longrightarrow> alloc s = (Some a, s') \<Longrightarrow> page_aligned a \<and> a \<noteq> 0"
    and alloc_fresh: "inv s \<Longrightarrow> alloc s = (Some a, s') \<Longrightarrow> \<not> owned s a"
    and alloc_owned: "inv s \<Longrightarrow> alloc s = (Some a, s') \<Longrightarrow> page_aligned p \<Longrightarrow>
      owned s' p \<longleftrightarrow> p = a \<or> owned s p"
    and release_inv: "inv s \<Longrightarrow> page_aligned a \<Longrightarrow> a \<noteq> 0 \<Longrightarrow> inv (release a s)"
    and release_owned: "inv s \<Longrightarrow> page_aligned a \<Longrightarrow> page_aligned p \<Longrightarrow>
      owned (release a s) p \<longleftrightarrow> p \<noteq> a \<and> owned s p"
begin

text \<open>A fresh page shares no byte with any page that is owned.\<close>

lemma alloc_disjoint:
  assumes "inv s" "alloc s = (Some a, s')" "page_aligned p" "owned s p"
  shows "region_disjoint a 4096 p 4096"
proof -
  have "p \<noteq> a" using assms alloc_fresh by blast
  then show ?thesis
    using alloc_page [OF assms(1,2)] assms(3) distinct_pages_disjoint [of a p] by auto
qed

end

text \<open>
  A client that takes pages and gives back pages it holds: \<open>Take\<close> asks for a page, \<open>Give k\<close>
  returns the \<open>k\<close>-th page held. \<open>None\<close> is a panic of the allocator.
\<close>

datatype page_op = Take | Give nat

fun run_page_ops ::
  "('s \<Rightarrow> u32 option \<times> 's) \<Rightarrow> (u32 \<Rightarrow> 's \<Rightarrow> 's) \<Rightarrow> page_op list \<Rightarrow> u32 list \<Rightarrow> 's \<Rightarrow>
   (u32 list \<times> 's) option" where
  "run_page_ops alloc release [] held s = Some (held, s)"
| "run_page_ops alloc release (Take # ops) held s =
     (case alloc s of (None, _) \<Rightarrow> None
      | (Some a, s') \<Rightarrow> run_page_ops alloc release ops (a # held) s')"
| "run_page_ops alloc release (Give k # ops) held s =
     (if k < length held
      then run_page_ops alloc release ops (take k held @ drop (Suc k) held)
             (release (held ! k) s)
      else run_page_ops alloc release ops held s)"

context page_allocator
begin

definition holds :: "'s \<Rightarrow> u32 list \<Rightarrow> bool" where
  "holds s held \<longleftrightarrow> inv s \<and> distinct held \<and> (\<forall>a \<in> set held. page_aligned a \<and> a \<noteq> 0 \<and> owned s a)"

lemma holds_Take:
  assumes "holds s held" and "alloc s = (Some a, s')"
  shows "holds s' (a # held)"
proof -
  have inv: "inv s" and old: "p \<in> set held \<Longrightarrow> page_aligned p \<and> p \<noteq> 0 \<and> owned s p" for p
    using assms(1) by (auto simp: holds_def)
  have "a \<notin> set held" using old [of a] alloc_fresh [OF inv assms(2)] by blast
  moreover have "page_aligned a" "a \<noteq> 0" using alloc_page [OF inv assms(2)] by simp_all
  moreover have "owned s' p \<longleftrightarrow> p = a \<or> owned s p" if "page_aligned p" for p
    by (rule alloc_owned [OF inv assms(2) that])
  ultimately show ?thesis
    using alloc_inv [OF inv assms(2)] assms(1) unfolding holds_def by simp
qed

lemma holds_Give:
  assumes "holds s held" and "k < length held"
  shows "holds (release (held ! k) s) (take k held @ drop (Suc k) held)"
proof -
  let ?a = "held ! k" and ?rest = "take k held @ drop (Suc k) held"
  have split: "held = take k held @ ?a # drop (Suc k) held"
    using assms(2) by (rule id_take_nth_drop)
  have "distinct held" using assms(1) by (simp add: holds_def)
  then have "distinct (take k held @ ?a # drop (Suc k) held)" using split by simp
  then have ne: "?a \<notin> set ?rest" and dr: "distinct ?rest" by auto
  have a: "page_aligned ?a" "?a \<noteq> 0" using assms by (auto simp: holds_def)
  have rest: "page_aligned p \<and> p \<noteq> 0 \<and> owned s p \<and> p \<noteq> ?a" if "p \<in> set ?rest" for p
  proof -
    have "p \<in> set held" using that by (auto dest: in_set_takeD in_set_dropD)
    with that ne assms(1) show ?thesis by (auto simp: holds_def)
  qed
  have "inv s" using assms(1) by (simp add: holds_def)
  with a dr rest show ?thesis
    unfolding holds_def by (simp add: release_inv release_owned)
qed

lemma run_page_ops_holds:
  assumes "holds s held" and "run_page_ops alloc release ops held s = Some (held', s')"
  shows "holds s' held'"
  using assms
proof (induction ops arbitrary: held s)
  case (Cons op ops)
  then show ?case
    by (cases op) (auto split: prod.splits option.splits if_splits intro: holds_Take holds_Give)
qed simp

end

end
