(* ===== verification/PMM.thy ===== *)
theory PMM
  imports Page_Allocator
begin

text \<open>
  \<open>kernel/mm/pmm.c\<close>: the bitmap allocator of 4 KiB physical pages. The state is the bitmap
  (one byte for eight pages, a set bit is a page in use) and the roving allocation hint.
  \<open>pmm_alloc\<close> returns \<open>None\<close> where the code panics. The abstract view is the predicate
  \<open>page_used\<close> on page numbers; the locale \<open>page_allocator\<close> is the contract the clients of
  the allocator (page directories, files, pipes) rely on.
\<close>

section \<open>State and operations\<close>

record pmm =
  bitmap :: "u32 \<Rightarrow> u8"
  pmm_hint :: u32

definition PAGE_SIZE :: u32 where "PAGE_SIZE = 4096"
definition MAX_PAGES :: u32 where "MAX_PAGES = 1048576"
definition PMM_IDENTITY_MAPPED_LIMIT :: u32 where "PMM_IDENTITY_MAPPED_LIMIT = 0x10000000"

definition pmm_total :: u32 where
  "pmm_total = PMM_IDENTITY_MAPPED_LIMIT div PAGE_SIZE"

definition page_mask :: "u32 \<Rightarrow> u8" where
  "page_mask i = ucast (push_bit (unat (i AND 7)) (1 :: u32))"

definition page_used :: "pmm \<Rightarrow> u32 \<Rightarrow> bool" where
  "page_used s i \<longleftrightarrow> bitmap s (drop_bit 3 i) AND page_mask i \<noteq> 0"

definition set_used :: "u32 \<Rightarrow> pmm \<Rightarrow> pmm" where
  "set_used i s =
     s\<lparr>bitmap := (bitmap s)(drop_bit 3 i := bitmap s (drop_bit 3 i) OR page_mask i)\<rparr>"

definition set_free :: "u32 \<Rightarrow> pmm \<Rightarrow> pmm" where
  "set_free i s =
     s\<lparr>bitmap := (bitmap s)(drop_bit 3 i :=
        bitmap s (drop_bit 3 i) AND ucast (NOT (push_bit (unat (i AND 7)) (1 :: u32))))\<rparr>"

fun pmm_alloc_loop :: "nat \<Rightarrow> pmm \<Rightarrow> u32 option \<times> pmm" where
  "pmm_alloc_loop 0 s = (None, s)"
| "pmm_alloc_loop (Suc n) s =
     (let i = pmm_hint s;
          h = pmm_hint s + 1;
          s' = s\<lparr>pmm_hint := (if h \<ge> pmm_total then 0 else h)\<rparr>
      in if \<not> page_used s' i then (Some (i * PAGE_SIZE), set_used i s')
         else pmm_alloc_loop n s')"

definition pmm_alloc :: "pmm \<Rightarrow> u32 option \<times> pmm" where
  "pmm_alloc s = pmm_alloc_loop (unat pmm_total) s"

function pmm_contig_loop :: "u32 \<Rightarrow> u32 \<Rightarrow> u32 \<Rightarrow> u32 \<Rightarrow> pmm \<Rightarrow> u32 \<times> pmm" where
  "pmm_contig_loop pages i run start s =
     (if i < pmm_total then
        if \<not> page_used s i then
          (let start' = (if run = 0 then i else start); run' = run + 1
           in if run' = pages
              then (start' * PAGE_SIZE, for_u32 set_used start' (start' + pages) s)
              else pmm_contig_loop pages (i + 1) run' start' s)
        else pmm_contig_loop pages (i + 1) 0 start s
      else (0, s))"
  by pat_completeness auto
termination
  by (relation "measure (\<lambda>(pages, i, run, start, s). unat pmm_total - unat i)")
    (auto simp: unat_plus1_less word_less_nat_alt)

declare pmm_contig_loop.simps [simp del]

definition pmm_alloc_contig :: "u32 \<Rightarrow> pmm \<Rightarrow> u32 \<times> pmm" where
  "pmm_alloc_contig pages s =
     (if pages = 0 \<or> pages > pmm_total then (0, s) else pmm_contig_loop pages 0 0 0 s)"

definition pmm_free :: "u32 \<Rightarrow> pmm \<Rightarrow> pmm" where
  "pmm_free addr s = set_free (addr div PAGE_SIZE) s"

definition pmm_mark_free :: "u32 \<Rightarrow> u32 \<Rightarrow> pmm \<Rightarrow> pmm" where
  "pmm_mark_free start len s =
     (let page = start div PAGE_SIZE; count = len div PAGE_SIZE
      in for_u32 set_free page (page + count) s)"

definition pmm_mark_used :: "u32 \<Rightarrow> u32 \<Rightarrow> pmm \<Rightarrow> pmm" where
  "pmm_mark_used start len s =
     (let page = start div PAGE_SIZE; count = (len + PAGE_SIZE - 1) div PAGE_SIZE
      in for_u32 set_used page (page + count) s)"

record memory_info =
  info_total :: u64
  info_free :: u64
  info_used :: u64
  info_reserved :: u64

definition count_page :: "pmm \<Rightarrow> u32 \<Rightarrow> u32 \<times> u32 \<Rightarrow> u32 \<times> u32" where
  "count_page s i c =
     (if page_used s i then (fst c, snd c + 1) else (fst c + 1, snd c))"

definition pmm_get_info :: "pmm \<Rightarrow> memory_info \<Rightarrow> memory_info" where
  "pmm_get_info s info =
     (let (free_pages, used_pages) = for_u32 (count_page s) 0 pmm_total (0, 0)
      in info\<lparr>info_total := ucast (pmm_total * PAGE_SIZE),
              info_free := ucast (free_pages * PAGE_SIZE),
              info_used := ucast (used_pages * PAGE_SIZE)\<rparr>)"

text \<open>
  \<open>pmm_init\<close> walks the multiboot memory map in memory: an entry is its size (not counting
  the size field), a 64-bit address and length, and a type. Only the low 32 bits of address
  and length are kept. A map whose entry sizes wrap around may never end, so the walk is
  \<^theory_text>\<open>partial_function (option)\<close>.
\<close>

record multiboot_info =
  mbi_flags :: u32
  mmap_length :: u32
  mmap_addr :: u32

record mmap_entry =
  mmap_size :: u32
  mmap_base :: u32
  mmap_len :: u32
  mmap_type :: u32

definition mmap_entry_at :: "memory \<Rightarrow> u32 \<Rightarrow> mmap_entry" where
  "mmap_entry_at m p =
     \<lparr>mmap_size = ld32 m p, mmap_base = ld32 m (p + 4), mmap_len = ld32 m (p + 12),
      mmap_type = ld32 m (p + 20)\<rparr>"

definition mmap_available :: "mmap_entry \<Rightarrow> bool" where
  "mmap_available e \<longleftrightarrow> mmap_type e = 1 \<and> mmap_base e \<ge> 0x100000"

definition pmm_add_entry :: "mmap_entry \<Rightarrow> pmm \<Rightarrow> pmm" where
  "pmm_add_entry e s =
     (if mmap_available e then pmm_mark_free (mmap_base e) (mmap_len e) s else s)"

partial_function (option) pmm_init_loop :: "memory \<Rightarrow> u32 \<Rightarrow> u32 \<Rightarrow> pmm \<Rightarrow> pmm option" where
  "pmm_init_loop m p stop s =
     (if p < stop then
        pmm_init_loop m (p + mmap_size (mmap_entry_at m p) + 4) stop
          (pmm_add_entry (mmap_entry_at m p) s)
      else Some s)"

definition pmm_reset :: "pmm \<Rightarrow> pmm" where
  "pmm_reset s =
     s\<lparr>bitmap := (\<lambda>i. if i < MAX_PAGES div 8 then 0xFF else bitmap s i)\<rparr>"

definition pmm_init :: "memory \<Rightarrow> multiboot_info \<Rightarrow> u32 \<Rightarrow> pmm \<Rightarrow> pmm option" where
  "pmm_init m mbi kernel_end s =
     (case (if mbi_flags mbi AND push_bit 6 1 \<noteq> 0
            then pmm_init_loop m (mmap_addr mbi) (mmap_addr mbi + mmap_length mbi) (pmm_reset s)
            else Some (pmm_reset s)) of
        None \<Rightarrow> None
      | Some s' \<Rightarrow> Some (pmm_mark_used 0x100000 (kernel_end - 0x100000) s'))"

section \<open>Bits of the bitmap\<close>

lemma and7_less: "unat (i AND 7 :: u32) < 8"
proof -
  have "i AND 7 \<le> 7" by (rule word_and_le1)
  then show ?thesis by (simp add: word_le_nat_alt)
qed

lemma bit_page_mask: "bit (page_mask i) n \<longleftrightarrow> n = unat (i AND 7)"
  using and7_less [of i]
  by (auto simp: page_mask_def bit_ucast_iff bit_push_bit_iff bit_exp_iff)

lemma page_used_bit: "page_used s i \<longleftrightarrow> bit (bitmap s (drop_bit 3 i)) (unat (i AND 7))"
proof -
  have "bit (bitmap s (drop_bit 3 i) AND page_mask i) n \<longleftrightarrow>
      n = unat (i AND 7) \<and> bit (bitmap s (drop_bit 3 i)) n" for n
    by (auto simp: bit_and_iff bit_page_mask)
  then show ?thesis
    unfolding page_used_def by (metis bit_0_eq bit_word_eqI bot_apply bot_bool_def)
qed

lemma page_index_inj:
  assumes "drop_bit 3 i = drop_bit 3 j" and "unat (i AND 7) = unat (j AND 7)"
  shows "i = (j :: u32)"
proof -
  have m: "take_bit 3 x = x AND 7" for x :: u32
    by (simp add: take_bit_eq_mask mask_eq_exp_minus_1)
  have "i = push_bit 3 (drop_bit 3 i) + take_bit 3 i" by (simp only: bits_ident)
  also have "\<dots> = push_bit 3 (drop_bit 3 j) + take_bit 3 j"
    using assms by (simp only: m flip: word_unat_eq_iff)
  also have "\<dots> = j" by (simp only: bits_ident)
  finally show ?thesis .
qed

lemma page_used_set_used [simp]: "page_used (set_used i s) j \<longleftrightarrow> j = i \<or> page_used s j"
  using page_index_inj [of j i]
  by (auto simp: page_used_bit set_used_def bit_or_iff bit_page_mask)

lemma page_used_set_free [simp]: "page_used (set_free i s) j \<longleftrightarrow> j \<noteq> i \<and> page_used s j"
proof (cases "drop_bit 3 j = drop_bit 3 i")
  case True
  then have "page_used (set_free i s) j \<longleftrightarrow>
      unat (j AND 7) \<noteq> unat (i AND 7) \<and> page_used s j"
    using and7_less [of j]
    by (auto simp: page_used_bit set_free_def bit_and_iff bit_ucast_iff bit_not_iff
        bit_push_bit_iff bit_exp_iff)
  with True page_index_inj [of j i] show ?thesis by auto
next
  case False
  then show ?thesis by (auto simp: page_used_bit set_free_def)
qed

lemma hint_set [simp]:
  "pmm_hint (set_used i s) = pmm_hint s" "pmm_hint (set_free i s) = pmm_hint s"
  by (simp_all add: set_used_def set_free_def)

lemma page_used_hint [simp]: "page_used (s\<lparr>pmm_hint := h\<rparr>) i = page_used s i"
  by (simp add: page_used_def)

lemma pmm_total_eq [simp]: "pmm_total = 65536"
  by (simp add: pmm_total_def PMM_IDENTITY_MAPPED_LIMIT_def PAGE_SIZE_def)

section \<open>Marking ranges of pages\<close>

lemma fold_set_used:
  "page_used (fold (\<lambda>k. set_used (of_nat k)) ks s) j \<longleftrightarrow>
     j \<in> of_nat ` set ks \<or> page_used s j"
  by (induction ks arbitrary: s) auto

lemma fold_set_free:
  "page_used (fold (\<lambda>k. set_free (of_nat k)) ks s) j \<longleftrightarrow>
     j \<notin> of_nat ` set ks \<and> page_used s j"
  by (induction ks arbitrary: s) auto

lemma u32_interval_image:
  "j \<in> of_nat ` {unat lo..<unat hi} \<longleftrightarrow> lo \<le> j \<and> j < hi" for j lo hi :: u32
proof
  assume "j \<in> of_nat ` {unat lo..<unat hi}"
  then obtain k where k: "unat lo \<le> k" "k < unat hi" "j = of_nat k" by auto
  then have "unat j = k" by (simp only: unat_of_nat_below)
  with k show "lo \<le> j \<and> j < hi" by (simp add: word_le_nat_alt word_less_nat_alt)
next
  assume "lo \<le> j \<and> j < hi"
  then have "j = of_nat (unat j)" and "unat j \<in> {unat lo..<unat hi}"
    by (simp_all add: word_le_nat_alt word_less_nat_alt)
  then show "j \<in> of_nat ` {unat lo..<unat hi}" by (rule image_eqI)
qed

lemma page_used_mark_used [kernel_simps]:
  "page_used (for_u32 set_used lo hi s) j \<longleftrightarrow> (lo \<le> j \<and> j < hi) \<or> page_used s j"
  by (simp add: for_u32_fold fold_set_used u32_interval_image)

lemma page_used_mark_free [kernel_simps]:
  "page_used (for_u32 set_free lo hi s) j \<longleftrightarrow> \<not> (lo \<le> j \<and> j < hi) \<and> page_used s j"
  by (simp add: for_u32_fold fold_set_free u32_interval_image)

lemma hint_for_u32 [simp]:
  "pmm_hint (for_u32 set_used lo hi s) = pmm_hint s"
  "pmm_hint (for_u32 set_free lo hi s) = pmm_hint s"
  by (rule for_u32_invariant; simp)+

section \<open>Single-page allocation\<close>

text \<open>
  The invariant of the allocator: the hint stays inside the identity-mapped range, and page
  0 is never free, so that the address 0, which the callers read as "no memory", is never a
  page the allocator handed out.
\<close>

definition pmm_inv :: "pmm \<Rightarrow> bool" where
  "pmm_inv s \<longleftrightarrow> pmm_hint s < pmm_total \<and> page_used s 0"

definition rover :: "pmm \<Rightarrow> nat \<Rightarrow> u32" where
  "rover s k = of_nat ((unat (pmm_hint s) + k) mod 65536)"

lemma rover_less [simp]: "rover s k < 65536"
  by (simp add: rover_def word_less_nat_alt unat_of_nat)

lemma rover_0: "pmm_hint s < 65536 \<Longrightarrow> rover s 0 = pmm_hint s"
  by (simp add: rover_def word_less_nat_alt)

lemma hint_step:
  assumes "pmm_hint s < 65536"
    and "s' = s\<lparr>pmm_hint := (if pmm_hint s + 1 \<ge> pmm_total then 0 else pmm_hint s + 1)\<rparr>"
  shows "pmm_hint s' < 65536" and "rover s' k = rover s (Suc k)"
proof -
  have h: "unat (pmm_hint s + 1) = Suc (unat (pmm_hint s))"
    using assms(1) by (rule unat_plus1_less)
  have eq: "unat (pmm_hint s') = Suc (unat (pmm_hint s)) mod 65536"
    using assms h
    by (cases "unat (pmm_hint s) = 65535") (auto simp: word_le_nat_alt word_less_nat_alt)
  then show "pmm_hint s' < 65536" by (simp add: word_less_nat_alt)
  show "rover s' k = rover s (Suc k)"
    unfolding rover_def eq by (simp add: mod_simps)
qed

lemma pmm_alloc_loop_Some:
  assumes "pmm_alloc_loop n s = (Some a, s')" and "pmm_hint s < 65536"
  shows "\<exists>k<n. a = rover s k * PAGE_SIZE \<and> \<not> page_used s (rover s k) \<and>
      (\<forall>j<k. page_used s (rover s j)) \<and>
      (\<forall>p. page_used s' p \<longleftrightarrow> p = rover s k \<or> page_used s p) \<and> pmm_hint s' < 65536"
  using assms
proof (induction n arbitrary: s)
  case (Suc n)
  define t where "t = s\<lparr>pmm_hint := (if pmm_hint s + 1 \<ge> pmm_total then 0 else pmm_hint s + 1)\<rparr>"
  note t = hint_step [OF Suc.prems(2) t_def]
  show ?case
  proof (cases "page_used s (pmm_hint s)")
    case True
    then have "pmm_alloc_loop n t = (Some a, s')"
      using Suc.prems(1) by (simp add: t_def Let_def split: if_splits)
    from Suc.IH [OF this t(1)] obtain k where k: "k < n" "a = rover s (Suc k) * PAGE_SIZE"
      "\<not> page_used t (rover s (Suc k))" "\<forall>j<k. page_used t (rover s (Suc j))"
      "\<forall>p. page_used s' p \<longleftrightarrow> p = rover s (Suc k) \<or> page_used t p" "pmm_hint s' < 65536"
      by (auto simp: t(2))
    have "page_used t p = page_used s p" for p by (simp add: t_def)
    with k True show ?thesis
      by (intro exI [of _ "Suc k"])
        (auto simp: less_Suc_eq_0_disj rover_0 [OF Suc.prems(2)])
  next
    case False
    then have "a = pmm_hint s * PAGE_SIZE" "s' = set_used (pmm_hint s) t"
      using Suc.prems(1) by (auto simp: t_def Let_def split: if_splits)
    with False t(1) show ?thesis
      by (intro exI [of _ 0]) (auto simp: rover_0 [OF Suc.prems(2)] t_def)
  qed
qed simp

lemma pmm_alloc_loop_None:
  assumes "pmm_alloc_loop n s = (None, s')" and "pmm_hint s < 65536" and "j < n"
  shows "page_used s (rover s j)"
  using assms
proof (induction n arbitrary: s j)
  case (Suc n)
  define t where "t = s\<lparr>pmm_hint := (if pmm_hint s + 1 \<ge> pmm_total then 0 else pmm_hint s + 1)\<rparr>"
  note t = hint_step [OF Suc.prems(2) t_def]
  from Suc.prems(1) have used: "page_used s (pmm_hint s)" and "pmm_alloc_loop n t = (None, s')"
    by (auto simp: t_def Let_def split: if_splits)
  then have IH: "j' < n \<Longrightarrow> page_used s (rover s (Suc j'))" for j'
    using Suc.IH [of t j'] t by (simp add: t_def)
  show ?case
    using Suc.prems(3) IH used by (cases j) (simp_all add: rover_0 [OF Suc.prems(2)])
qed simp

lemma rover_onto:
  assumes "pmm_hint s < 65536" and "i < 65536"
  shows "\<exists>k<65536. rover s k = i"
proof -
  define h where "h = unat (pmm_hint s)"
  have h: "h < 65536" and i: "unat i < 65536"
    using assms by (simp_all add: h_def word_less_nat_alt)
  define k where "k = (unat i + 65536 - h) mod 65536"
  have "(h + k) mod 65536 = (h + (unat i + 65536 - h)) mod 65536"
    by (simp add: k_def mod_add_right_eq)
  also have "\<dots> = unat i" using h i by simp
  finally have "rover s k = i" by (simp add: rover_def h_def)
  moreover have "k < 65536" by (simp add: k_def)
  ultimately show ?thesis by blast
qed

lemma pmm_alloc_None:
  assumes "pmm_inv s" and "pmm_alloc s = (None, s')" and "i < pmm_total"
  shows "page_used s i"
proof -
  obtain k where "k < 65536" "rover s k = i"
    using assms rover_onto [of s i] by (auto simp: pmm_inv_def)
  with assms show ?thesis
    using pmm_alloc_loop_None [of 65536 s s' k] by (simp add: pmm_alloc_def pmm_inv_def)
qed

lemma pmm_alloc_Some:
  assumes "pmm_inv s" and "pmm_alloc s = (Some a, s')"
  obtains i where "i < pmm_total" "i \<noteq> 0" "a = i * PAGE_SIZE" "\<not> page_used s i"
    "\<And>p. page_used s' p \<longleftrightarrow> p = i \<or> page_used s p" "pmm_inv s'"
proof -
  from assms obtain k where k: "a = rover s k * PAGE_SIZE" "\<not> page_used s (rover s k)"
      "\<And>p. page_used s' p \<longleftrightarrow> p = rover s k \<or> page_used s p" "pmm_hint s' < 65536"
    using pmm_alloc_loop_Some [of "unat pmm_total" s a s']
    by (auto simp: pmm_alloc_def pmm_inv_def)
  show ?thesis
    by (rule that [of "rover s k"]) (use k assms(1) in \<open>auto simp: pmm_inv_def\<close>)
qed

section \<open>Contiguous allocation\<close>

text \<open>All pages of \<open>[lo, lo + n)\<close> are free, in page numbers as naturals.\<close>

definition free_run :: "pmm \<Rightarrow> nat \<Rightarrow> nat \<Rightarrow> bool" where
  "free_run s lo n \<longleftrightarrow> (\<forall>k. lo \<le> k \<and> k < lo + n \<longrightarrow> \<not> page_used s (of_nat k))"

lemma free_run_Suc: "free_run s lo (Suc n) \<longleftrightarrow> free_run s lo n \<and> \<not> page_used s (of_nat (lo + n))"
  by (auto simp: free_run_def less_Suc_eq simp del: of_nat_add)

text \<open>
  Loop invariant: the free pages that end at \<open>i\<close> are the last \<open>run\<close> ones, \<open>start\<close> is where they
  begin, and no run of the wanted length ends at or before \<open>i\<close>.
\<close>

definition contig_inv :: "pmm \<Rightarrow> u32 \<Rightarrow> u32 \<Rightarrow> u32 \<Rightarrow> u32 \<Rightarrow> bool" where
  "contig_inv s pages i run start \<longleftrightarrow>
     unat run < unat pages \<and> unat i \<le> 65536 \<and> unat run \<le> unat i \<and>
     free_run s (unat i - unat run) (unat run) \<and>
     (unat run < unat i \<longrightarrow> page_used s (of_nat (unat i - unat run - 1))) \<and>
     (run \<noteq> 0 \<longrightarrow> unat start = unat i - unat run) \<and>
     (\<forall>lo. lo + unat pages \<le> unat i \<longrightarrow> \<not> free_run s lo (unat pages))"

definition contig_post :: "pmm \<Rightarrow> u32 \<Rightarrow> u32 \<times> pmm \<Rightarrow> bool" where
  "contig_post s pages r \<longleftrightarrow>
     (if \<exists>lo. lo + unat pages \<le> 65536 \<and> free_run s lo (unat pages)
      then \<exists>lo. lo + unat pages \<le> 65536 \<and> free_run s lo (unat pages) \<and>
             (\<forall>lo'<lo. \<not> free_run s lo' (unat pages)) \<and>
             fst r = of_nat lo * PAGE_SIZE \<and>
             (\<forall>p. page_used (snd r) p \<longleftrightarrow>
                (lo \<le> unat p \<and> unat p < lo + unat pages) \<or> page_used s p)
      else r = (0, s))"

lemma contig_step_used:
  assumes "contig_inv s pages i run start" and "i < pmm_total" and "page_used s i"
  shows "contig_inv s pages (i + 1) 0 start"
proof -
  have i: "unat (i + 1) = Suc (unat i)" using assms(2) by (rule unat_plus1_less)
  have "\<not> free_run s lo (unat pages)" if "lo + unat pages \<le> Suc (unat i)" for lo
  proof (cases "lo + unat pages \<le> unat i")
    case True
    with assms(1) show ?thesis by (simp add: contig_inv_def)
  next
    case False
    with that have "lo + unat pages = Suc (unat i)" by simp
    moreover have "0 < unat pages" using assms(1) by (simp add: contig_inv_def)
    ultimately show ?thesis
      using assms(3) by (auto simp: free_run_def intro!: exI [of _ "unat i"])
  qed
  with assms show ?thesis
    unfolding contig_inv_def i by (auto simp: free_run_def word_less_nat_alt)
qed

lemma contig_step_free:
  assumes "contig_inv s pages i run start" and "i < pmm_total" and "\<not> page_used s i"
    and "run + 1 \<noteq> pages"
  shows "contig_inv s pages (i + 1) (run + 1) (if run = 0 then i else start)"
proof -
  have i: "unat (i + 1) = Suc (unat i)" using assms(2) by (rule unat_plus1_less)
  have "run < pages" using assms(1) by (simp add: contig_inv_def word_less_nat_alt)
  then have r: "unat (run + 1) = Suc (unat run)" by (rule unat_plus1_less)
  have lt: "Suc (unat run) < unat pages"
    using assms(1,4) r by (auto simp: contig_inv_def word_unat_eq_iff)
  let ?b = "unat i - unat run"
  have le: "unat run \<le> unat i" and fr: "free_run s ?b (unat run)"
    and before: "unat run < unat i \<Longrightarrow> page_used s (of_nat (?b - 1))"
    using assms(1) by (auto simp: contig_inv_def)
  have run': "free_run s ?b (Suc (unat run))"
    using fr assms(3) le by (simp add: free_run_Suc)
  have "\<not> free_run s lo (unat pages)" if "lo + unat pages \<le> Suc (unat i)" for lo
  proof (cases "lo + unat pages \<le> unat i")
    case True
    with assms(1) show ?thesis by (simp add: contig_inv_def)
  next
    case False
    with that lt have "lo \<le> ?b - 1" "?b - 1 < lo + unat pages" "unat run < unat i" by auto
    with before show ?thesis by (auto simp: free_run_def)
  qed
  moreover have "unat start = ?b" if "run \<noteq> 0" using assms(1) that by (simp add: contig_inv_def)
  ultimately show ?thesis
    using lt le run' before assms(2) unfolding contig_inv_def i r
    by (auto simp: word_less_nat_alt)
qed

lemma contig_finish:
  assumes "contig_inv s pages i run start" and "i < pmm_total" and "\<not> page_used s i"
    and "run + 1 = pages" and "pages \<le> pmm_total"
  shows "contig_post s pages
    ((if run = 0 then i else start) * PAGE_SIZE,
     for_u32 set_used (if run = 0 then i else start) ((if run = 0 then i else start) + pages) s)"
proof -
  define st where "st = (if run = 0 then i else start)"
  let ?lo = "unat i - unat run"
  have "run < pages" using assms(1) by (simp add: contig_inv_def word_less_nat_alt)
  then have p: "unat pages = Suc (unat run)"
    using unat_plus1_less [of run pages] assms(4) by simp
  have le: "unat run \<le> unat i" and fr: "free_run s ?lo (unat run)"
    using assms(1) by (auto simp: contig_inv_def)
  have st: "unat st = ?lo" using assms(1) by (auto simp: contig_inv_def st_def)
  have "st = of_nat (unat st)" by simp
  then have st': "st = of_nat ?lo" by (simp only: st)
  have bound: "?lo + unat pages \<le> 65536"
    using assms(2) le p by (simp add: word_less_nat_alt)
  have win: "free_run s ?lo (unat pages)"
    using fr assms(3) le by (simp add: p free_run_Suc)
  have first: "\<not> free_run s lo' (unat pages)" if "lo' < ?lo" for lo'
    using that assms(1) p le by (simp add: contig_inv_def)
  have sum: "unat (st + pages) = ?lo + unat pages"
    using st bound by (simp only: unat_plus_if') simp
  have "page_used (for_u32 set_used st (st + pages) s) q \<longleftrightarrow>
      (?lo \<le> unat q \<and> unat q < ?lo + unat pages) \<or> page_used s q" for q
    by (simp only: page_used_mark_used word_le_nat_alt word_less_nat_alt st sum)
  with bound win first st' show ?thesis
    unfolding contig_post_def fst_conv snd_conv st_def [symmetric] by (auto intro!: exI [of _ ?lo])
qed

lemma pmm_contig_loop_post:
  assumes "contig_inv s pages i run start" and "pages \<le> pmm_total"
  shows "contig_post s pages (pmm_contig_loop pages i run start s)"
  using assms
proof (induction pages i run start s rule: pmm_contig_loop.induct)
  case (1 pages i run start s)
  note inv = "1.prems"(1)
  show ?case
  proof (cases "i < pmm_total")
    case False
    then have "unat i = 65536" using inv by (simp add: contig_inv_def word_less_nat_alt)
    with inv False show ?thesis
      by (auto simp: pmm_contig_loop.simps [of pages i] contig_post_def contig_inv_def)
  next
    case True
    show ?thesis
    proof (cases "page_used s i")
      case used: True
      with True "1.IH"(2) contig_step_used [OF inv] "1.prems"(2) show ?thesis
        by (simp add: pmm_contig_loop.simps [of pages i])
    next
      case free: False
      show ?thesis
      proof (cases "run + 1 = pages")
        case fin: True
        with True free contig_finish [OF inv True free fin "1.prems"(2)] show ?thesis
          by (simp add: pmm_contig_loop.simps [of pages i] Let_def)
      next
        case cont: False
        with True free "1.IH"(1) contig_step_free [OF inv True free cont] "1.prems"(2)
        show ?thesis
          by (simp add: pmm_contig_loop.simps [of pages i] Let_def)
      qed
    qed
  qed
qed

section \<open>The allocator meets its contract\<close>

definition page_owned :: "pmm \<Rightarrow> u32 \<Rightarrow> bool" where
  "page_owned s a \<longleftrightarrow> page_used s (a div PAGE_SIZE)"

lemma page_div_eq_iff:
  "page_aligned a \<Longrightarrow> page_aligned b \<Longrightarrow> a div 4096 = b div 4096 \<longleftrightarrow> a = b"
  by (metis page_aligned_div)

lemma total_page: "i < pmm_total \<Longrightarrow> i < 0x100000"
  by (simp add: word_less_nat_alt)

interpretation pmm: page_allocator pmm_alloc pmm_free page_owned pmm_inv
proof
  fix s s' a p
  assume inv: "pmm_inv s" and alloc: "pmm_alloc s = (Some a, s')"
  obtain i where i: "i < pmm_total" "i \<noteq> 0" "a = i * PAGE_SIZE" "\<not> page_used s i"
      "\<And>p. page_used s' p \<longleftrightarrow> p = i \<or> page_used s p" "pmm_inv s'"
    using pmm_alloc_Some [OF inv alloc] by blast
  have a: "page_aligned a" "a div 4096 = i" "a \<noteq> 0"
    using page_number [OF total_page [OF i(1)]] i(2,3) by (simp_all add: PAGE_SIZE_def)
  show "pmm_inv s'" by (rule i(6))
  show "page_aligned a \<and> a \<noteq> 0" using a by simp
  show "\<not> page_owned s a" using i(4) a(2) by (simp add: page_owned_def PAGE_SIZE_def)
  assume "page_aligned p"
  then show "page_owned s' p \<longleftrightarrow> p = a \<or> page_owned s p"
    using a i(5) page_div_eq_iff [of p a] by (simp add: page_owned_def PAGE_SIZE_def)
next
  fix s a p
  assume inv: "pmm_inv s" and a: "page_aligned a"
  show "pmm_inv (pmm_free a s)" if "a \<noteq> 0"
    using inv that page_div_eq_iff [OF a page_aligned_0]
    by (simp add: pmm_inv_def pmm_free_def PAGE_SIZE_def)
  assume p: "page_aligned p"
  show "page_owned (pmm_free a s) p \<longleftrightarrow> p \<noteq> a \<and> page_owned s p"
    using page_div_eq_iff [OF p a] by (simp add: page_owned_def pmm_free_def PAGE_SIZE_def)
qed

section \<open>Statistics\<close>

lemma fold_count_page:
  assumes "n \<le> 65536"
  shows "fold (\<lambda>k. count_page s (of_nat k)) [0..<n] (0, 0) =
    (of_nat (card {k. k < n \<and> \<not> page_used s (of_nat k)}),
     of_nat (card {k. k < n \<and> page_used s (of_nat k)}))"
  using assms
proof (induction n)
  case (Suc n)
  have split: "{k. k < Suc n \<and> P k} = (if P n then insert n {k. k < n \<and> P k} else {k. k < n \<and> P k})"
    for P by (auto simp: less_Suc_eq)
  from Suc show ?case
    by (simp add: count_page_def split [of "\<lambda>k. page_used s (of_nat k)"]
        split [of "\<lambda>k. \<not> page_used s (of_nat k)"])
qed simp

lemma pages_partition:
  "card {k. k < n \<and> \<not> P k} + card {k. k < n \<and> P k} = (n :: nat)"
proof -
  have "card ({k. k < n \<and> \<not> P k} \<union> {k. k < n \<and> P k}) =
      card {k. k < n \<and> \<not> P k} + card {k. k < n \<and> P k}"
    by (intro card_Un_disjoint) auto
  moreover have "{k. k < n \<and> \<not> P k} \<union> {k. k < n \<and> P k} = {..<n}" by auto
  ultimately show ?thesis by simp
qed

section \<open>Initialisation\<close>

text \<open>The entries the walk over the memory map visits, from \<open>p\<close> up to \<open>stop\<close>.\<close>

fun mmap_entries :: "memory \<Rightarrow> u32 \<Rightarrow> u32 \<Rightarrow> mmap_entry list \<Rightarrow> bool" where
  "mmap_entries m p stop [] \<longleftrightarrow> \<not> p < stop"
| "mmap_entries m p stop (e # es) \<longleftrightarrow>
     p < stop \<and> e = mmap_entry_at m p \<and> mmap_entries m (p + mmap_size e + 4) stop es"

definition entry_covers :: "mmap_entry \<Rightarrow> u32 \<Rightarrow> bool" where
  "entry_covers e i \<longleftrightarrow> mmap_available e \<and>
     mmap_base e div PAGE_SIZE \<le> i \<and> i < mmap_base e div PAGE_SIZE + mmap_len e div PAGE_SIZE"

lemma pmm_init_loop_entries:
  "mmap_entries m p stop es \<Longrightarrow> pmm_init_loop m p stop s = Some (fold pmm_add_entry es s)"
  by (induction es arbitrary: p s) (subst pmm_init_loop.simps, simp)+

lemma page_used_add_entry:
  "page_used (pmm_add_entry e s) i \<longleftrightarrow> \<not> entry_covers e i \<and> page_used s i"
  by (simp add: pmm_add_entry_def pmm_mark_free_def entry_covers_def kernel_simps Let_def)

lemma page_used_fold_entries:
  "page_used (fold pmm_add_entry es s) i \<longleftrightarrow> (\<forall>e \<in> set es. \<not> entry_covers e i) \<and> page_used s i"
  by (induction es arbitrary: s) (auto simp: page_used_add_entry)

lemma hint_fold_entries: "pmm_hint (fold pmm_add_entry es s) = pmm_hint s"
  by (induction es arbitrary: s) (simp_all add: pmm_add_entry_def pmm_mark_free_def Let_def)

lemma page_used_reset: "i < MAX_PAGES \<Longrightarrow> page_used (pmm_reset s) i"
proof -
  assume "i < MAX_PAGES"
  then have "drop_bit 3 i < MAX_PAGES div 8"
    by (simp add: MAX_PAGES_def word_less_nat_alt unat_drop_bit_eq drop_bit_eq_div unat_div)
  moreover have "bit (0xFF :: u8) (unat (i AND 7))"
  proof -
    have "(0xFF :: u8) = - 1" by simp
    then show ?thesis using and7_less [of i] by (simp only: bit_minus_1_iff) simp
  qed
  ultimately show ?thesis by (simp add: page_used_bit pmm_reset_def)
qed

section \<open>Accesses stay inside the bitmap\<close>

lemma set_used_bounds: "i < MAX_PAGES \<Longrightarrow> j \<ge> MAX_PAGES div 8 \<Longrightarrow>
    bitmap (set_used i s) j = bitmap s j"
  by (auto simp: set_used_def MAX_PAGES_def word_less_nat_alt word_le_nat_alt unat_drop_bit_eq
      drop_bit_eq_div unat_div)

lemma set_free_bounds: "i < MAX_PAGES \<Longrightarrow> j \<ge> MAX_PAGES div 8 \<Longrightarrow>
    bitmap (set_free i s) j = bitmap s j"
  by (auto simp: set_free_def MAX_PAGES_def word_less_nat_alt word_le_nat_alt unat_drop_bit_eq
      drop_bit_eq_div unat_div)

lemma for_u32_bounds:
  assumes "hi \<le> MAX_PAGES" and "j \<ge> MAX_PAGES div 8"
  shows "bitmap (for_u32 set_used lo hi s) j = bitmap s j"
    and "bitmap (for_u32 set_free lo hi s) j = bitmap s j"
proof -
  have lt: "i < MAX_PAGES" if "i < hi" for i using that assms(1) by simp
  show "bitmap (for_u32 set_used lo hi s) j = bitmap s j"
    by (rule for_u32_invariant [where P = "\<lambda>t. bitmap t j = bitmap s j"])
      (simp_all add: set_used_bounds lt assms(2))
  show "bitmap (for_u32 set_free lo hi s) j = bitmap s j"
    by (rule for_u32_invariant [where P = "\<lambda>t. bitmap t j = bitmap s j"])
      (simp_all add: set_free_bounds lt assms(2))
qed

lemma mark_range_end:
  assumes "unat start + unat len \<le> 2 ^ 32"
  shows "start div PAGE_SIZE + len div PAGE_SIZE \<le> MAX_PAGES"
proof -
  have "unat start div 4096 + unat len div 4096 \<le> (unat start + unat len) div 4096"
    using div_times_less_eq_dividend [of "unat start" 4096]
      div_times_less_eq_dividend [of "unat len" 4096]
    by (simp add: less_eq_div_iff_mult_less_eq algebra_simps)
  also have "\<dots> \<le> 2 ^ 32 div 4096" using assms by (rule div_le_mono)
  finally have le: "unat start div 4096 + unat len div 4096 \<le> 1048576" by simp
  then show ?thesis
    by (simp add: word_le_nat_alt unat_plus_if' unat_div PAGE_SIZE_def MAX_PAGES_def)
qed

section \<open>Properties\<close>

text \<open>
  (C1) Single-page allocation is exact: from a state that satisfies the allocator's invariant,
  \<open>pmm_alloc\<close> panics only when every page of the identity-mapped range is in use; otherwise
  it returns the address of a page of that range, never the address 0, that was free, marks
  this page and nothing else, and keeps the invariant.
\<close>

theorem pmm_alloc_correct:
  assumes "pmm_inv s"
  shows "case pmm_alloc s of
      (None, s') \<Rightarrow> (\<forall>i < pmm_total. page_used s i)
    | (Some a, s') \<Rightarrow> \<exists>i. i < pmm_total \<and> i \<noteq> 0 \<and> a = i * PAGE_SIZE \<and> \<not> page_used s i \<and>
        (\<forall>p. page_used s' p \<longleftrightarrow> p = i \<or> page_used s p) \<and> pmm_inv s'"
proof (cases "pmm_alloc s")
  case (Pair r s')
  show ?thesis
  proof (cases r)
    case None
    with Pair assms show ?thesis by (auto intro: pmm_alloc_None)
  next
    case (Some a)
    with Pair have "pmm_alloc s = (Some a, s')" by simp
    from pmm_alloc_Some [OF assms this] Pair Some show ?thesis by (auto 4 4)
  qed
qed

definition pmm_example :: pmm where
  "pmm_example = set_free 7 (pmm_reset \<lparr>bitmap = (\<lambda>_. 0), pmm_hint = 5\<rparr>)"

lemma pmm_example_used: "i < MAX_PAGES \<Longrightarrow> page_used pmm_example i \<longleftrightarrow> i \<noteq> 7"
  by (simp add: pmm_example_def page_used_reset)

lemma pmm_example_inv: "pmm_inv pmm_example"
  using pmm_example_used [of 0]
  by (simp add: pmm_inv_def MAX_PAGES_def) (simp add: pmm_example_def pmm_reset_def)

theorem pmm_alloc_correct_witness:
  "pmm_inv pmm_example \<and> (\<exists>s'. pmm_alloc pmm_example = (Some (7 * PAGE_SIZE), s') \<and> page_used s' 7)"
proof -
  have "\<not> (\<forall>i < pmm_total. page_used pmm_example i)"
    using pmm_example_used [of 7] by (auto simp: MAX_PAGES_def intro!: exI [of _ 7])
  moreover have "i = 7" if "i < pmm_total" "\<not> page_used pmm_example i" for i
    using that pmm_example_used [of i] by (auto simp: MAX_PAGES_def word_less_nat_alt)
  ultimately obtain s' where "pmm_alloc pmm_example = (Some (7 * PAGE_SIZE), s')" "page_used s' 7"
    using pmm_alloc_correct [OF pmm_example_inv]
    by (cases "pmm_alloc pmm_example") (force split: option.splits)
  with pmm_example_inv show ?thesis by blast
qed

text \<open>
  (C2) No page has two owners: whatever sequence of allocations and frees of held pages a
  client performs from an initialised allocator, the pages it holds at the end are
  pairwise different, page-aligned, not 0, and marked in use.
\<close>

theorem pmm_no_double_allocation:
  assumes "pmm_inv s" and "run_page_ops pmm_alloc pmm_free ops [] s = Some (held, s')"
  shows "distinct held \<and> pmm_inv s' \<and>
    (\<forall>a \<in> set held. page_aligned a \<and> a \<noteq> 0 \<and> page_owned s' a)"
  using pmm.run_page_ops_holds [of s "[]" ops held s'] assms
  by (simp add: pmm.holds_def)

definition pmm_example2 :: pmm where
  "pmm_example2 = set_free 6 (pmm_example\<lparr>pmm_hint := 6\<rparr>)"

lemma pmm_example2_inv: "pmm_inv pmm_example2"
  using pmm_example_inv by (simp add: pmm_example2_def pmm_inv_def)

lemma pmm_alloc_hint_free:
  "\<not> page_used s (pmm_hint s) \<Longrightarrow> pmm_alloc s = (Some (pmm_hint s * PAGE_SIZE),
     set_used (pmm_hint s)
       (s\<lparr>pmm_hint := (if pmm_hint s + 1 \<ge> pmm_total then 0 else pmm_hint s + 1)\<rparr>))"
  using pmm_alloc_loop.simps(2) [of 65535 s] by (simp add: pmm_alloc_def Let_def)

theorem pmm_no_double_allocation_witness:
  "pmm_inv pmm_example2 \<and> (\<exists>s'. run_page_ops pmm_alloc pmm_free [Take, Take] [] pmm_example2 =
     Some ([7 * PAGE_SIZE, 6 * PAGE_SIZE], s') \<and> page_owned s' (6 * PAGE_SIZE))"
proof -
  define t where "t = set_used 6 (pmm_example2\<lparr>pmm_hint := 7\<rparr>)"
  have h: "pmm_hint pmm_example2 = 6" "\<not> page_used pmm_example2 6" "pmm_hint t = 7"
    by (simp_all add: pmm_example2_def t_def)
  have "\<not> page_used t 7" using pmm_example_used [of 7]
    by (simp add: t_def pmm_example2_def MAX_PAGES_def)
  then obtain u where "run_page_ops pmm_alloc pmm_free [Take, Take] [] pmm_example2 =
      Some ([7 * PAGE_SIZE, 6 * PAGE_SIZE], u)"
    using pmm_alloc_hint_free [of pmm_example2] pmm_alloc_hint_free [of t] h
    by (simp add: t_def [symmetric])
  with pmm_no_double_allocation [OF pmm_example2_inv this] pmm_example2_inv
  show ?thesis by auto
qed

text \<open>
  (C39) Contiguous allocation is complete and first-fit: for a request of 1 to 65536 pages,
  \<open>pmm_alloc_contig\<close> returns the lowest run of that many free pages of the identity-mapped
  range and marks exactly that run, and when there is no such run it returns 0 and changes
  nothing. A request outside that range returns 0 and changes nothing.
\<close>

theorem pmm_alloc_contig_correct:
  "if pages = 0 \<or> pages > pmm_total then pmm_alloc_contig pages s = (0, s)
   else contig_post s pages (pmm_alloc_contig pages s)"
proof (cases "pages = 0 \<or> pages > pmm_total")
  case False
  then have "contig_inv s pages 0 0 0"
    by (simp add: contig_inv_def free_run_def unat_gt_0)
  with False show ?thesis
    using pmm_contig_loop_post [of s pages 0 0 0] by (auto simp: pmm_alloc_contig_def not_less)
qed (auto simp: pmm_alloc_contig_def)

text \<open>
  \<open>pmm_get_info\<close> reports, in bytes, the pages of the identity-mapped range that are free
  and in use; the two add up to the reported total of 256 MiB, and no product wraps around.
  The \<open>reserved\<close> field is left as it was.
\<close>

lemma pmm_get_info_correct:
  "unat (info_free (pmm_get_info s info)) = 4096 * card {k. k < 65536 \<and> \<not> page_used s (of_nat k)} \<and>
   unat (info_used (pmm_get_info s info)) = 4096 * card {k. k < 65536 \<and> page_used s (of_nat k)} \<and>
   unat (info_free (pmm_get_info s info)) + unat (info_used (pmm_get_info s info)) =
     unat (info_total (pmm_get_info s info)) \<and>
   unat (info_total (pmm_get_info s info)) = 2 ^ 28 \<and>
   info_reserved (pmm_get_info s info) = info_reserved info"
proof -
  define f where "f = card {k. k < 65536 \<and> \<not> page_used s (of_nat k)}"
  define u where "u = card {k. k < 65536 \<and> page_used s (of_nat k)}"
  have sum: "f + u = 65536" unfolding f_def u_def by (rule pages_partition)
  have loop: "for_u32 (count_page s) 0 65536 (0, 0) = (of_nat f, of_nat u)"
    by (simp add: for_u32_fold fold_count_page f_def u_def)
  have prod: "unat (of_nat k * 4096 :: u32) = 4096 * k" if "k \<le> 65536" for k
  proof -
    have "unat (of_nat k :: u32) = k" using that by (simp add: unat_of_nat)
    then show ?thesis using that by (simp add: unat_word_ariths)
  qed
  have up: "unat (ucast w :: u64) = unat w" for w :: u32
    by (simp add: unsigned_ucast_eq take_bit_nat_eq_self unat_u32_le [THEN le_less_trans])
  have "unat (info_free (pmm_get_info s info)) = 4096 * f"
    and "unat (info_used (pmm_get_info s info)) = 4096 * u"
    using sum prod by (simp_all add: pmm_get_info_def loop PAGE_SIZE_def up)
  moreover have "unat (info_total (pmm_get_info s info)) = 2 ^ 28"
    and "info_reserved (pmm_get_info s info) = info_reserved info"
    by (simp_all add: pmm_get_info_def loop PAGE_SIZE_def)
  ultimately show ?thesis using sum by (simp add: f_def u_def)
qed

lemma pmm_init_effect:
  assumes "mbi_flags mbi AND push_bit 6 1 \<noteq> 0"
    and "mmap_entries m (mmap_addr mbi) (mmap_addr mbi + mmap_length mbi) es"
    and "kernel_end \<ge> 0x100000"
  shows "\<exists>s'. pmm_init m mbi kernel_end s = Some s' \<and>
    (\<forall>i < MAX_PAGES. page_used s' i \<longleftrightarrow> (\<forall>e \<in> set es. \<not> entry_covers e i) \<or>
       (256 \<le> i \<and> i < 256 + (kernel_end - 0x100000 + 4095) div 4096)) \<and>
    (pmm_hint s = 0 \<longrightarrow> pmm_inv s')"
proof -
  let ?t = "fold pmm_add_entry es (pmm_reset s)"
  let ?s = "pmm_mark_used 0x100000 (kernel_end - 0x100000) ?t"
  have run: "pmm_init m mbi kernel_end s = Some ?s"
    using assms by (simp add: pmm_init_def pmm_init_loop_entries)
  have used: "page_used ?s i \<longleftrightarrow> (\<forall>e \<in> set es. \<not> entry_covers e i) \<or>
       (256 \<le> i \<and> i < 256 + (kernel_end - 0x100000 + 4095) div 4096)" if "i < MAX_PAGES" for i
    using that
    by (auto simp: pmm_mark_used_def PAGE_SIZE_def kernel_simps page_used_fold_entries page_used_reset)
  have "\<not> entry_covers e 0" for e
  proof -
    have "mmap_base e div 4096 \<noteq> 0" if "mmap_base e \<ge> 0x100000"
      using that by (auto simp: word_unat_eq_iff word_le_nat_alt unat_div)
    then show ?thesis by (auto simp: entry_covers_def mmap_available_def PAGE_SIZE_def)
  qed
  then have "page_used ?s 0" using used [of 0] by (simp add: MAX_PAGES_def)
  moreover have "pmm_hint ?s = pmm_hint s"
    by (simp add: pmm_mark_used_def hint_fold_entries pmm_reset_def Let_def)
  ultimately show ?thesis using run used by (auto simp: pmm_inv_def)
qed

text \<open>
  (C40) Boot: when the memory map the loader left is a finite sequence of entries and the
  kernel image ends above 1 MiB, \<open>pmm_init\<close> returns, and a page of the 4 GiB space is in use
  exactly when no available entry based at 1 MiB or above covers it or the kernel image
  occupies it. Started from the static state (hint 0) it establishes the invariant.
\<close>

theorem pmm_init_correct:
  assumes "mbi_flags mbi AND push_bit 6 1 \<noteq> 0"
    and "mmap_entries m (mmap_addr mbi) (mmap_addr mbi + mmap_length mbi) es"
    and "kernel_end \<ge> 0x100000"
  shows "\<exists>s'. pmm_init m mbi kernel_end s = Some s' \<and>
    (\<forall>i < MAX_PAGES. page_used s' i \<longleftrightarrow> (\<forall>e \<in> set es. \<not> entry_covers e i) \<or>
       (256 \<le> i \<and> i < 256 + (kernel_end - 0x100000 + 4095) div 4096)) \<and>
    (pmm_hint s = 0 \<longrightarrow> pmm_inv s')"
  by (rule pmm_init_effect [OF assms])

text \<open>A memory map with one entry: 1 MiB of available memory at 2 MiB.\<close>

definition mmap_memory :: memory where
  "mmap_memory = st32 (st32 (st32 (st32 (\<lambda>_. 0) 0x1000 20) 0x1004 0x200000) 0x100C 0x100000) 0x1014 1"

definition mmap_example :: mmap_entry where
  "mmap_example = \<lparr>mmap_size = 20, mmap_base = 0x200000, mmap_len = 0x100000, mmap_type = 1\<rparr>"

lemma mmap_example_at: "mmap_entry_at mmap_memory 0x1000 = mmap_example"
  by (simp add: mmap_entry_at_def mmap_example_def mmap_memory_def ld32_def st32_apply bytes_u32_def)

theorem pmm_init_correct_witness:
  "\<exists>s'. pmm_init mmap_memory \<lparr>mbi_flags = 64, mmap_length = 24, mmap_addr = 0x1000\<rparr> 0x180000
        \<lparr>bitmap = (\<lambda>_. 0), pmm_hint = 0\<rparr> = Some s' \<and>
     \<not> page_used s' 0x200 \<and> page_used s' 0x300 \<and> pmm_inv s'"
proof -
  let ?mbi = "\<lparr>mbi_flags = 64, mmap_length = 24, mmap_addr = 0x1000\<rparr>"
  have "mmap_entries mmap_memory (mmap_addr ?mbi) (mmap_addr ?mbi + mmap_length ?mbi) [mmap_example]"
    using mmap_example_at by (simp add: mmap_example_def)
  from pmm_init_correct [OF _ this, where kernel_end = "0x180000"
      and s = "\<lparr>bitmap = (\<lambda>_. 0), pmm_hint = 0\<rparr>"]
  show ?thesis
    by (auto simp: MAX_PAGES_def entry_covers_def mmap_available_def mmap_example_def PAGE_SIZE_def)
qed

text \<open>
  Memory safety of the bitmap: allocating and freeing any page, and marking a region that
  ends at or below 4 GiB, leave everything past the 131072 bytes of the bitmap unchanged.
\<close>

lemma pmm_bitmap_bounds:
  assumes "j \<ge> MAX_PAGES div 8"
  shows "(pmm_hint s < pmm_total \<longrightarrow> pmm_alloc s = (r, s') \<longrightarrow> bitmap s' j = bitmap s j) \<and>
    bitmap (pmm_free a s) j = bitmap s j \<and>
    (unat start + unat len \<le> 2 ^ 32 \<longrightarrow> bitmap (pmm_mark_free start len s) j = bitmap s j)"
proof (intro conjI impI)
  have "pmm_hint s < 65536 \<Longrightarrow> pmm_alloc_loop n s = (r, s') \<Longrightarrow> bitmap s' j = bitmap s j" for n s
  proof (induction n arbitrary: s)
    case (Suc n)
    define t where "t = s\<lparr>pmm_hint := (if pmm_hint s + 1 \<ge> pmm_total then 0 else pmm_hint s + 1)\<rparr>"
    note t = hint_step(1) [OF Suc.prems(1) t_def]
    have "bitmap (set_used (pmm_hint s) t) j = bitmap t j"
      using assms Suc.prems(1) by (intro set_used_bounds) (simp_all add: MAX_PAGES_def word_less_nat_alt)
    moreover have "bitmap t j = bitmap s j" by (simp add: t_def)
    moreover have "pmm_alloc_loop n t = (r, s') \<or> s' = set_used (pmm_hint s) t"
      using Suc.prems(2) by (simp add: t_def Let_def split: if_splits)
    ultimately show ?case using Suc.IH [OF t] by auto
  qed simp
  then show "bitmap s' j = bitmap s j" if "pmm_hint s < pmm_total" "pmm_alloc s = (r, s')"
    using that by (simp add: pmm_alloc_def)
  have "a div PAGE_SIZE < MAX_PAGES"
    using unat_u32_le [of a] by (simp add: PAGE_SIZE_def MAX_PAGES_def word_less_nat_alt unat_div)
  with assms show "bitmap (pmm_free a s) j = bitmap s j"
    by (simp add: pmm_free_def set_free_bounds)
  show "bitmap (pmm_mark_free start len s) j = bitmap s j" if "unat start + unat len \<le> 2 ^ 32"
    using for_u32_bounds(2) [OF mark_range_end [OF that] assms] by (simp add: pmm_mark_free_def Let_def)
qed

lemma pmm_bitmap_bounds_witness:
  "(0x20000 :: u32) \<ge> MAX_PAGES div 8 \<and>
   bitmap (pmm_mark_free 0xFFFFF000 0x1000 pmm_example) 0x20000 = bitmap pmm_example 0x20000"
  using pmm_bitmap_bounds [of "0x20000" pmm_example None pmm_example 0 "0xFFFFF000" "0x1000"]
  by (simp add: MAX_PAGES_def)

text \<open>
  The bound is needed: marking a region free never checks its end, so an available
  region that claims to extend past 4 GiB clears bytes after the bitmap.
\<close>

lemma pmm_mark_free_past_bitmap:
  "\<exists>start len s j. j \<ge> MAX_PAGES div 8 \<and> bitmap (pmm_mark_free start len s) j \<noteq> bitmap s j"
proof -
  define s :: pmm where "s = \<lparr>bitmap = (\<lambda>_. 0xFF), pmm_hint = 0\<rparr>"
  have "page_used s 0x100000" by (simp add: page_used_def s_def page_mask_def)
  moreover have "\<not> page_used (pmm_mark_free 0xFFFFF000 0x2000 s) 0x100000"
    by (simp add: pmm_mark_free_def kernel_simps PAGE_SIZE_def)
  ultimately have "bitmap (pmm_mark_free 0xFFFFF000 0x2000 s) 0x20000 \<noteq> bitmap s 0x20000"
    by (auto simp: page_used_def)
  moreover have "(0x20000 :: u32) \<ge> MAX_PAGES div 8" by (simp add: MAX_PAGES_def)
  ultimately show ?thesis by blast
qed

end
