(* ===== verification/Machine.thy ===== *)
theory Machine
  imports PMM "HOL-Library.Monad_Syntax"
begin

text \<open>
  The machine the memory-managing components share: physical memory, the page allocator's
  state, the address of the static \<open>kernel_pdir\<close> array, and the control registers CR3 and
  CR0. An operation that may panic returns an option; \<open>None\<close> is the panic of \<open>pmm_alloc\<close>.
  A counted C loop whose body may panic, \<open>continue\<close> or \<open>return\<close> is \<open>loop_u32\<close>.
\<close>

record machine =
  mem :: memory
  frames :: pmm
  kernel_pdir :: u32
  cr3 :: u32
  cr0 :: u32

definition frame_alloc :: "machine \<Rightarrow> (u32 \<times> machine) option" where
  "frame_alloc s =
     (case pmm_alloc (frames s) of
        (None, p) \<Rightarrow> None
      | (Some a, p) \<Rightarrow> Some (a, s\<lparr>frames := p\<rparr>))"

definition frame_free :: "u32 \<Rightarrow> machine \<Rightarrow> machine" where
  "frame_free a s = s\<lparr>frames := pmm_free a (frames s)\<rparr>"

abbreviation owned :: "machine \<Rightarrow> u32 \<Rightarrow> bool" where
  "owned s a \<equiv> page_owned (frames s) a"

section \<open>Counted loops with panic and early return\<close>

text \<open>
  The body maps the index and the state to \<open>None\<close> (panic), \<open>Some (True, s)\<close> (go on with the next
  index) or \<open>Some (False, s)\<close> (return from the function).
\<close>

function loop_u32 :: "(u32 \<Rightarrow> 's \<Rightarrow> (bool \<times> 's) option) \<Rightarrow> u32 \<Rightarrow> u32 \<Rightarrow> 's \<Rightarrow> (bool \<times> 's) option" where
  "loop_u32 f i hi s =
     (if i < hi then
        case f i s of
          None \<Rightarrow> None
        | Some (go, s') \<Rightarrow> if go then loop_u32 f (i + 1) hi s' else Some (False, s')
      else Some (True, s))"
  by pat_completeness auto
termination
  by (relation "measure (\<lambda>(f, i, hi, s). unat hi - unat i)")
    (auto simp: unat_plus1_less word_less_nat_alt)

declare loop_u32.simps [simp del]

text \<open>
  An invariant indexed by the loop counter: the body never leaves the loop early and takes the
  invariant from one index to the next.
\<close>

lemma loop_u32_rule:
  assumes "P lo s" and "lo \<le> hi"
    and step: "\<And>i s go s'. P i s \<Longrightarrow> i < hi \<Longrightarrow> f i s = Some (go, s') \<Longrightarrow> go \<and> P (i + 1) s'"
    and "loop_u32 f lo hi s = Some (go', s'')"
  shows "go' \<and> P hi s''"
  using assms(1,2,4)
proof (induction "unat hi - unat lo" arbitrary: lo s)
  case 0
  then have "lo = hi" by (simp add: word_le_nat_alt word_unat_eq_iff)
  with 0 show ?case by (simp add: loop_u32.simps [of f hi])
next
  case (Suc n)
  then have lt: "lo < hi" by (simp add: word_less_nat_alt)
  with Suc.prems(3) obtain go s1 where s1: "f lo s = Some (go, s1)"
    by (auto simp: loop_u32.simps [of f lo] split: option.splits)
  have n: "n = unat hi - unat (lo + 1)" and le: "lo + 1 \<le> hi"
    using Suc.hyps(2) lt by (auto simp: unat_plus1_less word_le_nat_alt word_less_nat_alt)
  from step [OF Suc.prems(1) lt s1] have go: "go" "P (lo + 1) s1" by auto
  with Suc.prems(3) lt s1 have "loop_u32 f (lo + 1) hi s1 = Some (go', s'')"
    by (simp add: loop_u32.simps [of f lo])
  with Suc.hyps(1) [OF n go(2) le] show ?case by simp
qed

lemma loop_u32_total:
  assumes "P lo s" and "lo \<le> hi"
    and step: "\<And>i s. P i s \<Longrightarrow> i < hi \<Longrightarrow> \<exists>s'. f i s = Some (True, s') \<and> P (i + 1) s'"
  shows "\<exists>s'. loop_u32 f lo hi s = Some (True, s') \<and> P hi s'"
  using assms(1,2)
proof (induction "unat hi - unat lo" arbitrary: lo s)
  case 0
  then have "lo = hi" by (simp add: word_le_nat_alt word_unat_eq_iff)
  with 0 show ?case by (simp add: loop_u32.simps [of f hi])
next
  case (Suc n)
  then have lt: "lo < hi" by (simp add: word_less_nat_alt)
  from step [OF Suc.prems(1) lt] obtain s1 where s1: "f lo s = Some (True, s1)" "P (lo + 1) s1" by blast
  have n: "n = unat hi - unat (lo + 1)" and le: "lo + 1 \<le> hi"
    using Suc.hyps(2) lt by (auto simp: unat_plus1_less word_le_nat_alt word_less_nat_alt)
  from Suc.hyps(1) [OF n s1(2) le] lt s1(1) show ?case by (simp add: loop_u32.simps [of f lo])
qed

section \<open>Allocation through the contract\<close>

lemma frame_alloc_fields:
  assumes "frame_alloc s = Some (a, s')"
  shows "mem s' = mem s" "kernel_pdir s' = kernel_pdir s" "cr3 s' = cr3 s" "cr0 s' = cr0 s"
    "pmm_alloc (frames s) = (Some a, frames s')"
  using assms by (auto simp: frame_alloc_def split: prod.splits option.splits)

lemma frame_alloc_correct:
  assumes "pmm_inv (frames s)" and "frame_alloc s = Some (a, s')"
  shows "pmm_inv (frames s')" "page_aligned a" "a \<noteq> 0" "\<not> owned s a"
    "\<And>p. page_aligned p \<Longrightarrow> owned s' p \<longleftrightarrow> p = a \<or> owned s p"
  using pmm.alloc_inv [OF assms(1)] pmm.alloc_page [OF assms(1)] pmm.alloc_fresh [OF assms(1)]
    pmm.alloc_owned [OF assms(1)] frame_alloc_fields(5) [OF assms(2)]
  by blast+

lemma frame_alloc_panics:
  assumes "pmm_inv (frames s)" and "frame_alloc s = None" and "i < pmm_total"
  shows "page_used (frames s) i"
  using assms pmm_alloc_None [of "frames s"]
  by (auto simp: frame_alloc_def split: prod.splits option.splits)

lemma frame_free_fields [simp]:
  "mem (frame_free a s) = mem s" "kernel_pdir (frame_free a s) = kernel_pdir s"
  "cr3 (frame_free a s) = cr3 s" "cr0 (frame_free a s) = cr0 s"
  by (simp_all add: frame_free_def)

lemma frame_free_correct:
  assumes "pmm_inv (frames s)" "page_aligned a" "a \<noteq> 0"
  shows "pmm_inv (frames (frame_free a s))"
    "\<And>p. page_aligned p \<Longrightarrow> owned (frame_free a s) p \<longleftrightarrow> p \<noteq> a \<and> owned s p"
  using pmm.release_inv [OF assms] pmm.release_owned [OF assms(1,2)]
  by (simp_all add: frame_free_def)

text \<open>The pages left: an allocation succeeds while there is one, and takes one.\<close>

definition free_pages :: "pmm \<Rightarrow> u32 set" where
  "free_pages p = {i. i < pmm_total \<and> \<not> page_used p i}"

lemma frame_alloc_free:
  assumes "pmm_inv (frames s)" and "Suc n \<le> card (free_pages (frames s))"
  shows "\<exists>a s'. frame_alloc s = Some (a, s') \<and> n \<le> card (free_pages (frames s'))"
proof -
  have "free_pages (frames s) \<noteq> {}" using assms(2) by force
  then obtain a s' where a: "frame_alloc s = Some (a, s')"
    using frame_alloc_panics [OF assms(1)] by (cases "frame_alloc s") (auto simp: free_pages_def)
  from pmm_alloc_Some [OF assms(1) frame_alloc_fields(5) [OF a]]
  obtain i where "i < pmm_total" "\<not> page_used (frames s) i"
    "\<And>p. page_used (frames s') p \<longleftrightarrow> p = i \<or> page_used (frames s) p" by auto
  then have "i \<in> free_pages (frames s)" "free_pages (frames s') = free_pages (frames s) - {i}"
    by (auto simp: free_pages_def)
  with a assms(2) show ?thesis by (auto simp: card_Diff_singleton)
qed

end
