(* ===== verification/VMM.thy ===== *)
theory VMM
  imports Machine
begin

text \<open>
  \<open>kernel/mm/vmm.c\<close>: x86 two-level paging. Page directories and page tables are pages of
  physical memory, read and written as 32-bit entries exactly as the code does; a directory is
  its physical address. The theorems are about the translation \<open>vmm_phys\<close> that the tables in
  memory encode, and about which physical pages a directory owns.
\<close>

section \<open>Operations\<close>

definition PAGE_PRESENT :: u32 where "PAGE_PRESENT = 1"
definition PAGE_WRITE :: u32 where "PAGE_WRITE = 2"
definition PAGE_USER :: u32 where "PAGE_USER = 4"
definition PDIR_ENTRIES :: u32 where "PDIR_ENTRIES = 1024"
definition KERNEL_PDES :: u32 where "KERNEL_PDES = 64"

text \<open>\<open>pdir_ptr(t)[i]\<close>: the address, the load and the store of entry \<open>i\<close> of a table.\<close>

definition entry_addr :: "u32 \<Rightarrow> u32 \<Rightarrow> u32" where
  "entry_addr t i = t + 4 * i"

definition entry :: "memory \<Rightarrow> u32 \<Rightarrow> u32 \<Rightarrow> u32" where
  "entry m t i = ld32 m (entry_addr t i)"

definition set_entry :: "u32 \<Rightarrow> u32 \<Rightarrow> u32 \<Rightarrow> memory \<Rightarrow> memory" where
  "set_entry t i v m = st32 m (entry_addr t i) v"

definition present :: "u32 \<Rightarrow> bool" where
  "present e \<longleftrightarrow> e AND PAGE_PRESENT \<noteq> 0"

abbreviation upd_mem :: "(memory \<Rightarrow> memory) \<Rightarrow> machine \<Rightarrow> machine" where
  "upd_mem f s \<equiv> s\<lparr>mem := f (mem s)\<rparr>"

definition vmm_init_table :: "u32 \<Rightarrow> machine \<Rightarrow> (bool \<times> machine) option" where
  "vmm_init_table pd_idx s = do {
     (pt, s) \<leftarrow> frame_alloc s;
     let m = for_u32 (\<lambda>i. set_entry pt i ((pd_idx * 1024 + i) * 0x1000 OR PAGE_PRESENT OR PAGE_WRITE))
               0 1024 (mem s);
     let m = set_entry (kernel_pdir s) pd_idx (pt OR PAGE_PRESENT OR PAGE_WRITE) m;
     Some (True, s\<lparr>mem := m\<rparr>)
   }"

definition vmm_init :: "machine \<Rightarrow> machine option" where
  "vmm_init s = do {
     (go, s) \<leftarrow> loop_u32 vmm_init_table 0 KERNEL_PDES s;
     Some (s\<lparr>cr3 := kernel_pdir s, cr0 := cr0 s OR 0x80000000\<rparr>)
   }"

definition vmm_kernel_pdir :: "machine \<Rightarrow> u32" where
  "vmm_kernel_pdir s = kernel_pdir s"

definition vmm_current_pdir :: "machine \<Rightarrow> u32" where
  "vmm_current_pdir s = cr3 s"

definition vmm_switch_pdir :: "u32 \<Rightarrow> machine \<Rightarrow> machine" where
  "vmm_switch_pdir pdir s = s\<lparr>cr3 := pdir\<rparr>"

definition vmm_create_pdir :: "machine \<Rightarrow> (u32 \<times> machine) option" where
  "vmm_create_pdir s = do {
     (pdir, s) \<leftarrow> frame_alloc s;
     if pdir = 0 then Some (0, s)
     else do {
       let m = kmemset (mem s) pdir 0 4096;
       let m = for_u32 (\<lambda>i m. set_entry pdir i (entry m (kernel_pdir s) i) m) 0 KERNEL_PDES m;
       Some (pdir, s\<lparr>mem := m\<rparr>)
     }
   }"

definition destroy_pages :: "u32 \<Rightarrow> machine \<Rightarrow> machine" where
  "destroy_pages pt s =
     for_u32 (\<lambda>j s. if present (entry (mem s) pt j) then frame_free (page_base (entry (mem s) pt j)) s
                    else s) 0 1024 s"

definition destroy_table :: "u32 \<Rightarrow> u32 \<Rightarrow> machine \<Rightarrow> machine" where
  "destroy_table pdir i s =
     (let pde = entry (mem s) pdir i
      in if \<not> present pde then s
         else frame_free (page_base pde) (destroy_pages (page_base pde) s))"

definition vmm_destroy_pdir :: "u32 \<Rightarrow> machine \<Rightarrow> machine" where
  "vmm_destroy_pdir pdir s =
     frame_free pdir (for_u32 (destroy_table pdir) KERNEL_PDES PDIR_ENTRIES s)"

definition copy_page :: "u32 \<Rightarrow> u32 \<Rightarrow> u32 \<Rightarrow> machine \<Rightarrow> (bool \<times> machine) option" where
  "copy_page spt dpt j s =
     (let pte = entry (mem s) spt j
      in if \<not> present pte then Some (True, s)
         else do {
           (np, s) \<leftarrow> frame_alloc s;
           if np = 0 then Some (False, s)
           else do {
             let m = kmemcpy (mem s) np (page_base pte) 4096;
             Some (True, s\<lparr>mem := set_entry dpt j (np OR (entry m spt j AND 0xFFF)) m\<rparr>)
           }
         })"

definition copy_table :: "u32 \<Rightarrow> u32 \<Rightarrow> u32 \<Rightarrow> machine \<Rightarrow> (bool \<times> machine) option" where
  "copy_table dst src i s =
     (let pde = entry (mem s) src i
      in if \<not> present pde then Some (True, s)
         else do {
           (npt, s) \<leftarrow> frame_alloc s;
           if npt = 0 then Some (False, s)
           else do {
             let m = kmemset (mem s) npt 0 4096;
             let m = set_entry dst i (npt OR (entry m src i AND 0xFFF)) m;
             loop_u32 (copy_page (page_base pde) npt) 0 1024 (s\<lparr>mem := m\<rparr>)
           }
         })"

definition vmm_copy_pdir :: "u32 \<Rightarrow> u32 \<Rightarrow> machine \<Rightarrow> machine option" where
  "vmm_copy_pdir dst src s = do {
     (go, s) \<leftarrow> loop_u32 (copy_table dst src) KERNEL_PDES PDIR_ENTRIES s;
     Some s
   }"

definition pd_index :: "u32 \<Rightarrow> u32" where
  "pd_index virt = drop_bit 22 virt"

definition pt_index :: "u32 \<Rightarrow> u32" where
  "pt_index virt = drop_bit 12 virt AND 0x3FF"

text \<open>The first half of \<open>vmm_alloc_at\<close>; \<open>Some (None, s)\<close> is its \<open>return 0\<close>.\<close>

definition alloc_table :: "u32 \<Rightarrow> u32 \<Rightarrow> machine \<Rightarrow> (u32 option \<times> machine) option" where
  "alloc_table pdir pd_idx s =
     (let pde = entry (mem s) pdir pd_idx
      in if present pde then Some (Some (page_base pde), s)
         else do {
           (npt, s) \<leftarrow> frame_alloc s;
           if npt = 0 then Some (None, s)
           else do {
             let m = set_entry pdir pd_idx (npt OR PAGE_PRESENT OR PAGE_WRITE OR PAGE_USER) (mem s);
             Some (Some npt, s\<lparr>mem := kmemset m npt 0 4096\<rparr>)
           }
         })"

definition alloc_page_in :: "u32 \<Rightarrow> u32 \<Rightarrow> machine \<Rightarrow> (u32 \<times> machine) option" where
  "alloc_page_in pt virt s =
     (if present (entry (mem s) pt (pt_index virt)) then Some (0, s)
      else do {
        (phys, s) \<leftarrow> frame_alloc s;
        if phys = 0 then Some (0, s)
        else Some (virt, upd_mem (set_entry pt (pt_index virt)
                           (phys OR PAGE_PRESENT OR PAGE_WRITE OR PAGE_USER)) s)
      })"

definition vmm_alloc_at :: "u32 \<Rightarrow> u32 \<Rightarrow> machine \<Rightarrow> (u32 \<times> machine) option" where
  "vmm_alloc_at pdir virt s = do {
     (pt, s) \<leftarrow> alloc_table pdir (pd_index virt) s;
     (case pt of None \<Rightarrow> Some (0, s) | Some pt \<Rightarrow> alloc_page_in pt virt s)
   }"

definition vmm_phys :: "u32 \<Rightarrow> u32 \<Rightarrow> machine \<Rightarrow> u32" where
  "vmm_phys pdir virt s =
     (let pde = entry (mem s) pdir (pd_index virt)
      in if \<not> present pde then 0
         else (let pte = entry (mem s) (page_base pde) (pt_index virt)
               in if \<not> present pte then 0 else page_base pte + (virt AND 0xFFF)))"

definition vmm_page_present :: "u32 \<Rightarrow> u32 \<Rightarrow> machine \<Rightarrow> bool" where
  "vmm_page_present pdir virt s \<longleftrightarrow> vmm_phys pdir virt s \<noteq> 0"

definition vmm_free :: "u32 \<Rightarrow> u32 \<Rightarrow> machine \<Rightarrow> machine" where
  "vmm_free pdir virt s =
     (let pde = entry (mem s) pdir (pd_index virt)
      in if \<not> present pde then s
         else (let pt = page_base pde; pte = entry (mem s) pt (pt_index virt)
               in if \<not> present pte then s
                  else frame_free (page_base pte) (upd_mem (set_entry pt (pt_index virt) 0) s)))"

section \<open>Entries of tables in memory\<close>

lemma entry_region:
  assumes "i < 1024" and "in_region (entry_addr t i) 4 x"
  shows "unat (x - t) div 4 = unat i" and "in_region t 4096 x"
proof -
  have i: "unat i < 1024" using assms(1) by (simp add: word_less_nat_alt)
  have k: "unat (x - entry_addr t i) < 4" using assms(2) by (simp add: in_region_def)
  have "x - t = 4 * i + (x - entry_addr t i)" by (simp add: entry_addr_def algebra_simps)
  moreover have m: "unat (4 * i) = 4 * unat i" using i by (simp add: unat_word_ariths)
  ultimately have "unat (x - t) = unat (4 * i + (x - entry_addr t i))" by (simp only:)
  also have "\<dots> = 4 * unat i + unat (x - entry_addr t i)"
    using i k by (subst unat_plus_if') (simp add: m)
  finally have "unat (x - t) = 4 * unat i + unat (x - entry_addr t i)" .
  then show "unat (x - t) div 4 = unat i" "in_region t 4096 x"
    using i k by (simp_all add: in_region_def)
qed

lemma entry_cong:
  "i < 1024 \<Longrightarrow> (\<And>x. in_region t 4096 x \<Longrightarrow> m x = m' x) \<Longrightarrow> entry m t i = entry m' t i"
  unfolding entry_def by (rule ld32_cong) (simp add: entry_region)

lemma set_entry_outside: "i < 1024 \<Longrightarrow> \<not> in_region t 4096 x \<Longrightarrow> set_entry t i v m x = m x"
  unfolding set_entry_def using entry_region(2) st32_outside by blast

lemma page_disjointD:
  "page_aligned a \<Longrightarrow> page_aligned b \<Longrightarrow> a \<noteq> b \<Longrightarrow> in_region a 4096 x \<Longrightarrow> \<not> in_region b 4096 x"
  using distinct_pages_disjoint region_disjointD by blast

lemma entry_set_entry_same [simp]: "entry (set_entry t i v m) t i = v"
  by (simp add: entry_def set_entry_def)

lemma entry_set_entry_index:
  assumes "i < 1024" "j < 1024" "i \<noteq> j"
  shows "entry (set_entry t i v m) t j = entry m t j"
proof -
  have "region_disjoint (entry_addr t i) 4 (entry_addr t j) 4"
    unfolding region_disjoint_def
    using assms entry_region(1) [of i t] entry_region(1) [of j t] by (metis word_unat_eq_iff)
  then show ?thesis by (simp add: entry_def set_entry_def ld32_st32_disjoint)
qed

lemma entry_set_entry_page:
  assumes "i < 1024" "j < 1024" "page_aligned t" "page_aligned u" "t \<noteq> u"
  shows "entry (set_entry t i v m) u j = entry m u j"
  using assms by (intro entry_cong set_entry_outside) (auto dest: page_disjointD)

lemma entry_set_entry:
  "i < 1024 \<Longrightarrow> j < 1024 \<Longrightarrow> page_aligned t \<Longrightarrow> page_aligned u \<Longrightarrow>
   entry (set_entry t i v m) u j = (if t = u \<and> i = j then v else entry m u j)"
  using entry_set_entry_index entry_set_entry_page by (cases "t = u") auto

lemma page_base_offset: "page_base a + (a AND 0xFFF) = a"
proof -
  have "page_base a + (a AND 0xFFF) = page_base a OR (a AND 0xFFF)"
    by (rule disjunctive_add_eq_or) (simp add: page_base_def bit_eq_iff bit_simps)
  also have "\<dots> = a" by (simp add: page_base_def flip: bit.conj_disj_distrib)
  finally show ?thesis .
qed

lemma in_region_page: "in_region (page_base a) 4096 a"
proof -
  have "a - page_base a = a AND 0xFFF" using page_base_offset [of a] by (metis add_diff_cancel_left')
  moreover have "a AND 0xFFF \<le> 0xFFF" by (rule word_and_le1)
  ultimately show ?thesis by (simp add: in_region_def word_le_nat_alt)
qed

lemma entry_kmemset:
  assumes "i < 1024" "page_aligned t" "page_aligned u"
  shows "entry (kmemset m t 0 4096) u i = (if t = u then 0 else entry m u i)"
proof (cases "t = u")
  case True
  have "entry (kmemset m t 0 4096) u i = entry (\<lambda>_. 0) u i"
    by (rule entry_cong [OF assms(1)]) (simp add: kernel_simps True)
  with True show ?thesis by (simp add: entry_def ld32_def bytes_u32_def)
next
  case False
  with assms show ?thesis
    by (auto intro!: entry_cong simp: kernel_simps dest: page_disjointD)
qed

lemma kmemset_page_outside: "\<not> in_region t 4096 x \<Longrightarrow> kmemset m t c 4096 x = m x"
  by (simp add: kernel_simps)

lemma page_base_flags:
  assumes "page_aligned f" and "page_base e = 0"
  shows "page_base (f OR e) = f"
  using assms(2) page_aligned_base [OF assms(1)] by (simp add: page_base_def bit.conj_disj_distrib2)

lemma present_flags: "page_aligned f \<Longrightarrow> present (f OR e) \<longleftrightarrow> present e"
proof -
  assume f: "page_aligned f"
  have "f AND 1 = (f AND 0xFFF) AND 1" by (simp add: and.assoc)
  also have "\<dots> = 0" using f by (simp add: page_aligned_def)
  finally show ?thesis by (simp add: present_def PAGE_PRESENT_def bit.conj_disj_distrib2)
qed

lemma page_base_low: "page_base (e AND 0xFFF) = 0"
  by (simp add: page_base_def and.assoc)

lemma present_low: "present (e AND 0xFFF) = present e"
  by (simp add: present_def PAGE_PRESENT_def and.assoc)

lemma user_entry:
  assumes "page_aligned f"
  shows "page_base (f OR PAGE_PRESENT OR PAGE_WRITE OR PAGE_USER) = f"
    and "present (f OR PAGE_PRESENT OR PAGE_WRITE OR PAGE_USER)"
proof -
  have "page_base (PAGE_PRESENT OR PAGE_WRITE OR PAGE_USER) = 0"
    and "present (PAGE_PRESENT OR PAGE_WRITE OR PAGE_USER)"
    by (simp_all add: page_base_def present_def PAGE_PRESENT_def PAGE_WRITE_def PAGE_USER_def)
  then show "page_base (f OR PAGE_PRESENT OR PAGE_WRITE OR PAGE_USER) = f"
    and "present (f OR PAGE_PRESENT OR PAGE_WRITE OR PAGE_USER)"
    using assms by (simp_all only: or.assoc page_base_flags present_flags)
qed

lemma copied_entry:
  assumes "page_aligned f"
  shows "page_base (f OR (e AND 0xFFF)) = f" and "present (f OR (e AND 0xFFF)) = present e"
  using assms by (simp_all add: page_base_flags page_base_low present_flags present_low)

lemmas entry_simps = entry_set_entry entry_kmemset user_entry copied_entry

section \<open>The indices of a virtual address\<close>

lemma pd_index_less [simp]: "pd_index v < 1024"
proof -
  have "unat (pd_index v) = unat v div 4194304"
    by (simp add: pd_index_def drop_bit_eq_div unat_div)
  then show ?thesis using unat_u32_le [of v] by (simp add: word_less_nat_alt)
qed

lemma pt_index_less [simp]: "pt_index v < 1024"
proof -
  have "pt_index v \<le> 0x3FF" unfolding pt_index_def by (rule word_and_le1)
  then show ?thesis by (simp add: word_le_nat_alt word_less_nat_alt)
qed

lemma user_address: "v \<ge> 0x10000000 \<longleftrightarrow> 64 \<le> pd_index v"
proof -
  have "unat (pd_index v) = unat v div 4194304"
    by (simp add: pd_index_def drop_bit_eq_div unat_div)
  then show ?thesis by (simp add: word_le_nat_alt less_eq_div_iff_mult_less_eq)
qed

lemma page_index_eq: "unat (page_base v) = unat v div 4096 * 4096"
proof -
  have "unat v div 4096 = unat (page_base v) div 4096"
    by (rule page_region_page(3)) (simp_all add: in_region_page)
  moreover have "unat (page_base v) mod 4096 = 0"
    using page_base_aligned by (simp add: page_aligned_mod)
  ultimately show ?thesis by (simp add: mod_eq_0_iff_dvd)
qed

lemma pd_index_nat: "unat (pd_index x) = unat x div 4096 div 1024"
  by (simp add: pd_index_def drop_bit_eq_div unat_div div_mult2_eq [of _ 4096 1024, simplified])

lemma pt_index_nat: "unat (pt_index x) = unat x div 4096 mod 1024"
proof -
  have "drop_bit 12 x AND 0x3FF = take_bit 10 (drop_bit 12 x)"
    by (simp add: take_bit_eq_mask mask_eq_exp_minus_1)
  then show ?thesis by (simp add: pt_index_def take_bit_eq_mod unat_mod drop_bit_eq_div unat_div)
qed

lemma same_page: "pd_index v = pd_index w \<and> pt_index v = pt_index w \<longleftrightarrow> page_base v = page_base w"
proof -
  have "unat v div 4096 = unat w div 4096 \<longleftrightarrow>
      unat v div 4096 div 1024 = unat w div 4096 div 1024 \<and>
      unat v div 4096 mod 1024 = unat w div 4096 mod 1024"
    by (metis div_mod_decomp)
  then show ?thesis by (simp add: word_unat_eq_iff pd_index_nat pt_index_nat page_index_eq)
qed

section \<open>The frames of an address space\<close>

text \<open>
  A slot names a place of an address space that holds a physical page: the directory itself,
  the page table of a directory entry, and the page of a table entry in the user half (the 64
  kernel tables map all of the identity-mapped memory and own none of it). A directory is
  well-formed when different slots hold different pages, all marked in use.
\<close>

datatype slot = Dir | Table u32 | Page u32 u32

fun slot_frame :: "memory \<Rightarrow> u32 \<Rightarrow> slot \<Rightarrow> u32 option" where
  "slot_frame m pdir Dir = Some pdir"
| "slot_frame m pdir (Table i) =
     (if i < 1024 \<and> present (entry m pdir i) then Some (page_base (entry m pdir i)) else None)"
| "slot_frame m pdir (Page i j) =
     (if 64 \<le> i \<and> i < 1024 \<and> j < 1024 \<and> present (entry m pdir i) \<and>
         present (entry m (page_base (entry m pdir i)) j)
      then Some (page_base (entry m (page_base (entry m pdir i)) j)) else None)"

definition pdir_wf :: "u32 \<Rightarrow> machine \<Rightarrow> bool" where
  "pdir_wf pdir s \<longleftrightarrow> pmm_inv (frames s) \<and> page_aligned pdir \<and>
     (\<forall>x f. slot_frame (mem s) pdir x = Some f \<longrightarrow> f \<noteq> 0 \<and> owned s f) \<and>
     (\<forall>x y f. slot_frame (mem s) pdir x = Some f \<longrightarrow> slot_frame (mem s) pdir y = Some f \<longrightarrow> x = y)"

lemma pdir_wfD:
  assumes "pdir_wf pdir s"
  shows "pmm_inv (frames s)" "page_aligned pdir" "pdir \<noteq> 0"
    "slot_frame (mem s) pdir x = Some f \<Longrightarrow> f \<noteq> 0 \<and> owned s f"
    "slot_frame (mem s) pdir x = Some f \<Longrightarrow> slot_frame (mem s) pdir y = Some f \<Longrightarrow> x = y"
proof -
  have "pdir \<noteq> 0" if "\<forall>x f. slot_frame (mem s) pdir x = Some f \<longrightarrow> f \<noteq> 0 \<and> owned s f"
    using that [rule_format, of Dir pdir] by simp
  with assms show "pdir \<noteq> 0" by (simp add: pdir_wf_def)
qed (use assms in \<open>auto simp: pdir_wf_def\<close>)

lemma slot_frame_aligned:
  "page_aligned pdir \<Longrightarrow> slot_frame m pdir x = Some f \<Longrightarrow> page_aligned f"
  by (cases x) (auto split: if_splits)

text \<open>Filling an empty slot with a fresh page keeps a directory well-formed.\<close>

lemma pdir_wf_fill:
  assumes wf: "pdir_wf pdir s" and "pmm_inv (frames s')"
    and f: "\<not> owned s f" "f \<noteq> 0" "page_aligned f"
    and own: "\<And>p. page_aligned p \<Longrightarrow> owned s' p \<longleftrightarrow> p = f \<or> owned s p"
    and slot: "\<And>x. slot_frame (mem s') pdir x = (if x = z then Some f else slot_frame (mem s) pdir x)"
  shows "pdir_wf pdir s'"
  unfolding pdir_wf_def
proof (intro conjI allI impI)
  note D = pdir_wfD [OF wf]
  show "pmm_inv (frames s')" "page_aligned pdir" by (fact assms(2), fact D(2))
  fix x y g assume x: "slot_frame (mem s') pdir x = Some g"
  then have "page_aligned g" using slot_frame_aligned [OF D(2)] by blast
  then show "g \<noteq> 0" "owned s' g"
    using x slot [of x] D(4) [of x g] own [of g] f by (auto split: if_splits)
  assume y: "slot_frame (mem s') pdir y = Some g"
  show "x = y"
    using x y slot [of x] slot [of y] D(4) [of x g] D(4) [of y g] D(5) [of x g y] f(1)
    by (auto split: if_splits)
qed

text \<open>Translation of a user address in terms of the slots.\<close>

lemma vmm_phys_slot:
  "v \<ge> 0x10000000 \<Longrightarrow> vmm_phys pdir v s =
     (case slot_frame (mem s) pdir (Page (pd_index v) (pt_index v)) of
        None \<Rightarrow> 0 | Some f \<Rightarrow> f + (v AND 0xFFF))"
  by (simp add: vmm_phys_def user_address Let_def)

lemma page_offset_nonzero:
  assumes "page_aligned f" and "f \<noteq> 0"
  shows "f + (v AND 0xFFF) \<noteq> 0" and "page_base (f + (v AND 0xFFF)) = f"
    and "in_region f 4096 (f + (v AND 0xFFF))"
proof -
  have "f AND (v AND 0xFFF) = (f AND 0xFFF) AND v"
    by (simp only: and.assoc and.commute and.left_commute)
  also have "\<dots> = 0" using assms(1) by (simp add: page_aligned_def)
  finally have "f + (v AND 0xFFF) = f OR (v AND 0xFFF)" by (rule disjunctive_add_eq_or)
  then show "page_base (f + (v AND 0xFFF)) = f" using assms(1) by (simp add: copied_entry)
  then show "f + (v AND 0xFFF) \<noteq> 0" using assms(2) by (auto simp: page_base_def)
  have "v AND 0xFFF \<le> 0xFFF" by (rule word_and_le1)
  then show "in_region f 4096 (f + (v AND 0xFFF))" by (simp add: in_region_def word_le_nat_alt)
qed

section \<open>Mapping one page\<close>

lemma table_frame:
  assumes "pdir_wf pdir s" "i < 1024" "present (entry (mem s) pdir i)"
  shows "page_base (entry (mem s) pdir i) \<noteq> pdir" "page_base (entry (mem s) pdir i) \<noteq> 0"
    "owned s (page_base (entry (mem s) pdir i))"
    "\<And>k. k < 1024 \<Longrightarrow> present (entry (mem s) pdir k) \<Longrightarrow>
        page_base (entry (mem s) pdir k) = page_base (entry (mem s) pdir i) \<Longrightarrow> k = i"
  using pdir_wfD(4) [OF assms(1), of "Table i"] pdir_wfD(5) [OF assms(1), of "Table i" _ Dir]
    pdir_wfD(5) [OF assms(1), of "Table i" _ "Table k" for k] assms
  by force+

lemma slot_frame_new_table:
  assumes wf: "pdir_wf pdir s" and i: "i < 1024" "\<not> present (entry (mem s) pdir i)"
    and n: "\<not> owned s n" "page_aligned n"
    and e: "present e" "page_base e = n"
    and m': "\<And>u j. page_aligned u \<Longrightarrow> j < 1024 \<Longrightarrow> u \<noteq> n \<Longrightarrow>
      entry m' u j = (if u = pdir \<and> j = i then e else entry (mem s) u j)"
    and zero: "\<And>j. j < 1024 \<Longrightarrow> 64 \<le> i \<Longrightarrow> \<not> present (entry m' n j)"
  shows "slot_frame m' pdir x = (if x = Table i then Some n else slot_frame (mem s) pdir x)"
proof -
  note al = pdir_wfD(2) [OF wf]
  have "owned s pdir" using pdir_wfD(4) [OF wf, of Dir] by simp
  then have np: "pdir \<noteq> n" using n(1) by auto
  have dir: "entry m' pdir k = (if k = i then e else entry (mem s) pdir k)" if "k < 1024" for k
    using m' [OF al that] np by simp
  have tab: "entry m' (page_base (entry (mem s) pdir k)) j = entry (mem s) (page_base (entry (mem s) pdir k)) j"
    if "k < 1024" "present (entry (mem s) pdir k)" "j < 1024" for k j
    using table_frame [OF wf that(1,2)] n(1)
      m' [OF page_base_aligned [of "entry (mem s) pdir k"] that(3)] by auto
  show ?thesis
    by (cases x) (auto simp: dir tab e zero i split: if_splits)
qed

text \<open>
  What the two halves of \<open>vmm_alloc_at\<close> do to a well-formed directory. The second conjunct group
  is the frame condition: only the directory, the table written and the new pages change.
\<close>

lemma alloc_table_correct:
  assumes wf: "pdir_wf pdir s" and i: "i < 1024" and run: "alloc_table pdir i s = Some (r, s')"
  shows "\<exists>pt. r = Some pt \<and> pdir_wf pdir s' \<and> slot_frame (mem s') pdir (Table i) = Some pt \<and>
    (if present (entry (mem s) pdir i) then s' = s else \<not> owned s pt) \<and>
    (\<forall>x. x \<noteq> Table i \<longrightarrow> slot_frame (mem s') pdir x = slot_frame (mem s) pdir x) \<and>
    (\<forall>p. page_aligned p \<longrightarrow> (owned s' p \<longleftrightarrow> p = pt \<or> owned s p)) \<and>
    (\<forall>a. \<not> in_region pdir 4096 a \<longrightarrow> \<not> in_region pt 4096 a \<longrightarrow> mem s' a = mem s a)"
proof (cases "present (entry (mem s) pdir i)")
  case True
  with run table_frame(3) [OF wf i True] wf i show ?thesis by (auto simp: alloc_table_def)
next
  case False
  note D = pdir_wfD [OF wf]
  from run False obtain n s1 where a: "frame_alloc s = Some (n, s1)"
    by (auto simp: alloc_table_def bind_eq_Some_conv)
  note A = frame_alloc_correct [OF D(1) a] frame_alloc_fields [OF a]
  define e where "e = n OR PAGE_PRESENT OR PAGE_WRITE OR PAGE_USER"
  have r: "r = Some n" and s': "s' = s1\<lparr>mem := kmemset (set_entry pdir i e (mem s)) n 0 4096\<rparr>"
    using run False a A by (auto simp: alloc_table_def e_def)
  have ent: "entry (mem s') u j = (if u = n then 0 else if u = pdir \<and> j = i then e else entry (mem s) u j)"
    if "page_aligned u" "j < 1024" for u j
    using that A D(2) i by (auto simp: s' entry_simps)
  have slot: "slot_frame (mem s') pdir x = (if x = Table i then Some n else slot_frame (mem s) pdir x)" for x
    by (rule slot_frame_new_table [OF wf i False A(4,2)])
      (use A(2) ent in \<open>simp_all add: e_def user_entry present_def [of 0]\<close>)
  have own: "owned s' p \<longleftrightarrow> p = n \<or> owned s p" if "page_aligned p" for p
    using A(5) [OF that] by (simp add: s')
  have "pdir_wf pdir s'"
    by (rule pdir_wf_fill [OF wf _ A(4,3,2) own slot]) (simp add: s' A(1))
  moreover have "mem s' a = mem s a" if "\<not> in_region pdir 4096 a" "\<not> in_region n 4096 a" for a
    using that i by (simp add: s' kmemset_page_outside set_entry_outside)
  ultimately show ?thesis using False slot own A(4) by (simp add: r del: slot_frame.simps)
qed

lemma slot_frame_new_page:
  assumes wf: "pdir_wf pdir s" and pt: "slot_frame (mem s) pdir (Table i) = Some pt"
    and i: "64 \<le> i" and j: "j < 1024" and e: "present e"
  shows "slot_frame (set_entry pt j e (mem s)) pdir x =
    (if x = Page i j then Some (page_base e) else slot_frame (mem s) pdir x)"
proof -
  have i2: "i < 1024" "present (entry (mem s) pdir i)" and pt': "pt = page_base (entry (mem s) pdir i)"
    using pt by (auto split: if_splits)
  note T = table_frame [OF wf i2, folded pt']
  have al: "page_aligned pdir" "page_aligned pt" using pdir_wfD(2) [OF wf] by (simp_all add: pt')
  have "entry (set_entry pt j e (mem s)) pdir k = entry (mem s) pdir k" if "k < 1024" for k
    using that T(1) al j by (auto simp: entry_set_entry)
  moreover have "entry (set_entry pt j e (mem s)) (page_base (entry (mem s) pdir k)) l =
      (if k = i \<and> l = j then e else entry (mem s) (page_base (entry (mem s) pdir k)) l)"
    if "k < 1024" "present (entry (mem s) pdir k)" "l < 1024" for k l
    using that T(4) [of k] al j pt' by (auto simp: entry_set_entry)
  ultimately show ?thesis using i i2 j e by (cases x) (auto split: if_splits)
qed

lemma alloc_page_in_correct:
  assumes wf: "pdir_wf pdir s" and user: "virt \<ge> 0x10000000"
    and pt: "slot_frame (mem s) pdir (Table (pd_index virt)) = Some pt"
    and run: "alloc_page_in pt virt s = Some (r, s')"
  shows "if slot_frame (mem s) pdir (Page (pd_index virt) (pt_index virt)) \<noteq> None then r = 0 \<and> s' = s
    else r = virt \<and> (\<exists>f. pdir_wf pdir s' \<and> \<not> owned s f \<and> page_aligned f \<and> f \<noteq> 0 \<and>
      slot_frame (mem s') pdir (Page (pd_index virt) (pt_index virt)) = Some f \<and>
      (\<forall>x. x \<noteq> Page (pd_index virt) (pt_index virt) \<longrightarrow> slot_frame (mem s') pdir x = slot_frame (mem s) pdir x) \<and>
      (\<forall>p. page_aligned p \<longrightarrow> (owned s' p \<longleftrightarrow> p = f \<or> owned s p)) \<and>
      (\<forall>a. \<not> in_region pt 4096 a \<longrightarrow> mem s' a = mem s a))"
proof -
  let ?i = "pd_index virt" and ?j = "pt_index virt"
  have i: "64 \<le> ?i" using user by (simp add: user_address)
  have mapped: "slot_frame (mem s) pdir (Page ?i ?j) \<noteq> None \<longleftrightarrow> present (entry (mem s) pt ?j)"
    using pt i by (auto split: if_splits)
  show ?thesis
  proof (cases "present (entry (mem s) pt ?j)")
    case True
    with run mapped show ?thesis by (simp add: alloc_page_in_def del: slot_frame.simps)
  next
    case False
    note D = pdir_wfD [OF wf]
    from run False obtain f s1 where a: "frame_alloc s = Some (f, s1)"
      by (auto simp: alloc_page_in_def bind_eq_Some_conv)
    note A = frame_alloc_correct [OF D(1) a] frame_alloc_fields [OF a]
    define e where "e = f OR PAGE_PRESENT OR PAGE_WRITE OR PAGE_USER"
    have r: "r = virt" and s': "s' = s1\<lparr>mem := set_entry pt ?j e (mem s)\<rparr>"
      using run False a A by (auto simp: alloc_page_in_def e_def)
    have slot: "slot_frame (mem s') pdir x = (if x = Page ?i ?j then Some f else slot_frame (mem s) pdir x)" for x
      using slot_frame_new_page [OF wf pt i pt_index_less, of e] A(2)
      by (simp add: s' e_def user_entry del: slot_frame.simps)
    have own: "owned s' p \<longleftrightarrow> p = f \<or> owned s p" if "page_aligned p" for p
      using A(5) [OF that] by (simp add: s')
    have "pdir_wf pdir s'"
      by (rule pdir_wf_fill [OF wf _ A(4,3,2) own slot]) (simp add: s' A(1))
    moreover have "mem s' a = mem s a" if "\<not> in_region pt 4096 a" for a
      using that by (simp add: s' set_entry_outside)
    ultimately show ?thesis using False mapped slot own A r by (auto simp del: slot_frame.simps)
  qed
qed

definition alloc_at_post :: "u32 \<Rightarrow> u32 \<Rightarrow> machine \<Rightarrow> u32 \<Rightarrow> u32 \<Rightarrow> machine \<Rightarrow> bool" where
  "alloc_at_post pdir virt s pt f s' \<longleftrightarrow>
     pdir_wf pdir s' \<and> \<not> owned s f \<and> page_aligned f \<and> f \<noteq> 0 \<and>
     slot_frame (mem s') pdir (Page (pd_index virt) (pt_index virt)) = Some f \<and>
     slot_frame (mem s') pdir (Table (pd_index virt)) = Some pt \<and>
     (slot_frame (mem s) pdir (Table (pd_index virt)) = Some pt \<or>
      slot_frame (mem s) pdir (Table (pd_index virt)) = None \<and> \<not> owned s pt) \<and>
     (\<forall>x. x \<noteq> Page (pd_index virt) (pt_index virt) \<longrightarrow> x \<noteq> Table (pd_index virt) \<longrightarrow>
        slot_frame (mem s') pdir x = slot_frame (mem s) pdir x) \<and>
     (\<forall>p. page_aligned p \<longrightarrow> (owned s' p \<longleftrightarrow> p = f \<or> p = pt \<or> owned s p)) \<and>
     (\<forall>a. \<not> in_region pdir 4096 a \<longrightarrow> \<not> in_region pt 4096 a \<longrightarrow> mem s' a = mem s a)"

lemma vmm_alloc_at_effect:
  assumes wf: "pdir_wf pdir s" and user: "virt \<ge> 0x10000000"
    and run: "vmm_alloc_at pdir virt s = Some (r, s')"
  shows "if slot_frame (mem s) pdir (Page (pd_index virt) (pt_index virt)) \<noteq> None then r = 0 \<and> s' = s
    else r = virt \<and> (\<exists>pt f. alloc_at_post pdir virt s pt f s')"
proof -
  let ?i = "pd_index virt" and ?j = "pt_index virt"
  from run obtain r1 s1 where t: "alloc_table pdir ?i s = Some (r1, s1)"
    by (auto simp: vmm_alloc_at_def bind_eq_Some_conv)
  from alloc_table_correct [OF wf pd_index_less t] obtain pt where pt: "r1 = Some pt"
    "pdir_wf pdir s1" "slot_frame (mem s1) pdir (Table ?i) = Some pt"
    "if present (entry (mem s) pdir ?i) then s1 = s else \<not> owned s pt"
    "\<And>x. x \<noteq> Table ?i \<Longrightarrow> slot_frame (mem s1) pdir x = slot_frame (mem s) pdir x"
    "\<And>p. page_aligned p \<Longrightarrow> owned s1 p \<longleftrightarrow> p = pt \<or> owned s p"
    "\<And>a. \<not> in_region pdir 4096 a \<Longrightarrow> \<not> in_region pt 4096 a \<Longrightarrow> mem s1 a = mem s a"
    by blast
  have run2: "alloc_page_in pt virt s1 = Some (r, s')"
    using run t pt(1) by (simp add: vmm_alloc_at_def)
  note E = alloc_page_in_correct [OF pt(2) user pt(3) run2]
  have old: "slot_frame (mem s) pdir (Table ?i) = Some pt \<or>
      slot_frame (mem s) pdir (Table ?i) = None \<and> \<not> owned s pt"
    using pt(3,4) by (cases "present (entry (mem s) pdir ?i)") auto
  show ?thesis
  proof (cases "slot_frame (mem s) pdir (Page ?i ?j)")
    case (Some g)
    then have "s1 = s" using pt(4) by (auto split: if_splits)
    with E Some show ?thesis by (simp del: slot_frame.simps)
  next
    case None
    with E pt(5) [of "Page ?i ?j"] obtain f where f: "r = virt" "pdir_wf pdir s'" "\<not> owned s1 f"
      "page_aligned f" "f \<noteq> 0" "slot_frame (mem s') pdir (Page ?i ?j) = Some f"
      "\<And>x. x \<noteq> Page ?i ?j \<Longrightarrow> slot_frame (mem s') pdir x = slot_frame (mem s1) pdir x"
      "\<And>p. page_aligned p \<Longrightarrow> owned s' p \<longleftrightarrow> p = f \<or> owned s1 p"
      "\<And>a. \<not> in_region pt 4096 a \<Longrightarrow> mem s' a = mem s1 a"
      by (auto simp del: slot_frame.simps)
    have "alloc_at_post pdir virt s pt f s'"
      unfolding alloc_at_post_def using f pt old by (simp del: slot_frame.simps)
    with None f(1) show ?thesis by auto
  qed
qed

text \<open>
  A directory keeps its slots and its translation when the bytes of its directory page and of
  its tables do not change.
\<close>

lemma translation_unchanged:
  assumes al: "page_aligned q"
    and dir: "\<And>a. in_region q 4096 a \<Longrightarrow> m' a = mem s a"
    and tab: "\<And>i f a. slot_frame (mem s) q (Table i) = Some f \<Longrightarrow> in_region f 4096 a \<Longrightarrow> m' a = mem s a"
  shows "slot_frame m' q x = slot_frame (mem s) q x"
    and "mem s' = m' \<Longrightarrow> vmm_phys q v s' = vmm_phys q v s"
proof -
  have d: "entry m' q i = entry (mem s) q i" if "i < 1024" for i
    using that dir by (rule entry_cong)
  have t: "entry m' (page_base (entry (mem s) q i)) j = entry (mem s) (page_base (entry (mem s) q i)) j"
    if "i < 1024" "present (entry (mem s) q i)" "j < 1024" for i j
    using that(3) by (rule entry_cong) (use that in \<open>auto intro: tab [of i]\<close>)
  show "slot_frame m' q x = slot_frame (mem s) q x"
    by (cases x) (auto simp: d t)
  show "vmm_phys q v s' = vmm_phys q v s" if "mem s' = m'"
    by (auto simp: vmm_phys_def Let_def that d t)
qed

lemma vmm_phys_table:
  "vmm_phys pdir v s = (case slot_frame (mem s) pdir (Table (pd_index v)) of None \<Rightarrow> 0
     | Some t \<Rightarrow> (let pte = entry (mem s) t (pt_index v)
                 in if present pte then page_base pte + (v AND 0xFFF) else 0))"
  by (simp add: vmm_phys_def Let_def)

lemma alloc_at_other_pages:
  assumes post: "alloc_at_post pdir virt s pt f s'" and user: "virt \<ge> 0x10000000"
    and ne: "page_base v \<noteq> page_base virt"
  shows "vmm_phys pdir v s' = vmm_phys pdir v s"
proof (cases "v \<ge> 0x10000000")
  case True
  have "slot_frame (mem s') pdir (Page (pd_index v) (pt_index v)) =
      slot_frame (mem s) pdir (Page (pd_index v) (pt_index v))"
    using post ne same_page [of v virt] by (auto simp: alloc_at_post_def simp del: slot_frame.simps)
  with True show ?thesis by (simp add: vmm_phys_slot del: slot_frame.simps)
next
  case False
  then have ki: "pd_index v \<noteq> pd_index virt" using user by (auto simp: user_address)
  then have slot: "slot_frame (mem s') pdir (Table (pd_index v)) = slot_frame (mem s) pdir (Table (pd_index v))"
    and pt: "slot_frame (mem s') pdir (Table (pd_index virt)) = Some pt" and wf: "pdir_wf pdir s'"
    and m: "\<And>a. \<not> in_region pdir 4096 a \<Longrightarrow> \<not> in_region pt 4096 a \<Longrightarrow> mem s' a = mem s a"
    using post by (auto simp: alloc_at_post_def simp del: slot_frame.simps)
  have "entry (mem s') t (pt_index v) = entry (mem s) t (pt_index v)"
    if t: "slot_frame (mem s') pdir (Table (pd_index v)) = Some t" for t
  proof (rule entry_cong)
    have "t \<noteq> pdir" "t \<noteq> pt"
      using pdir_wfD(5) [OF wf t, of Dir] pdir_wfD(5) [OF wf t, of "Table (pd_index virt)"] pt ki by auto
    moreover have "page_aligned t" "page_aligned pt" "page_aligned pdir"
      using slot_frame_aligned [OF pdir_wfD(2) [OF wf]] t pt pdir_wfD(2) [OF wf] by blast+
    ultimately show "in_region t 4096 a \<Longrightarrow> mem s' a = mem s a" for a
      using m page_disjointD [of t pdir] page_disjointD [of t pt] by blast
  qed simp
  then show ?thesis
    unfolding vmm_phys_table slot [symmetric] by (simp split: option.split del: slot_frame.simps)
qed

section \<open>Separate address spaces\<close>

text \<open>Two directories are separate when the only pages they share are kernel page tables.\<close>

definition separate :: "memory \<Rightarrow> u32 \<Rightarrow> u32 \<Rightarrow> bool" where
  "separate m p q \<longleftrightarrow>
     (\<forall>x y f. slot_frame m p x = Some f \<longrightarrow> slot_frame m q y = Some f \<longrightarrow> (\<exists>k<64. x = Table k \<and> y = Table k))"

lemma separateD:
  "separate m p q \<Longrightarrow> slot_frame m p x = Some f \<Longrightarrow> slot_frame m q y = Some f \<Longrightarrow>
   \<exists>k<64. x = Table k \<and> y = Table k"
  by (auto simp: separate_def)

lemma alloc_at_isolation:
  assumes post: "alloc_at_post pdir virt s pt f s'" and user: "virt \<ge> 0x10000000"
    and wf: "pdir_wf pdir s" and q: "pdir_wf q s" and sep: "separate (mem s) pdir q"
    and x: "slot_frame (mem s) q x = Some g" and a: "in_region g 4096 a"
  shows "mem s' a = mem s a"
proof -
  have al: "page_aligned g" "page_aligned pdir"
    using slot_frame_aligned [OF pdir_wfD(2) [OF q] x] pdir_wfD(2) [OF wf] by auto
  have "slot_frame (mem s') pdir (Table (pd_index virt)) = Some pt" "pdir_wf pdir s'"
    using post by (auto simp: alloc_at_post_def simp del: slot_frame.simps)
  then have alp: "page_aligned pt" using slot_frame_aligned pdir_wfD(2) by blast
  have "g \<noteq> pdir" using separateD [OF sep, of Dir pdir x] x by auto
  moreover have "g \<noteq> pt"
  proof
    assume g: "g = pt"
    then have "owned s pt" using pdir_wfD(4) [OF q x] by simp
    with post have "slot_frame (mem s) pdir (Table (pd_index virt)) = Some pt"
      by (auto simp: alloc_at_post_def simp del: slot_frame.simps)
    from separateD [OF sep this, of x] x g user show False by (auto simp: user_address)
  qed
  ultimately show ?thesis
    using post a page_disjointD [OF al] page_disjointD [OF al(1) alp]
    by (auto simp: alloc_at_post_def simp del: slot_frame.simps)
qed

lemma separate_after_alloc:
  assumes post: "alloc_at_post pdir virt s pt f s'"
    and q: "pdir_wf q s" and sep: "separate (mem s) pdir q"
    and same: "\<And>x. slot_frame (mem s') q x = slot_frame (mem s) q x"
  shows "separate (mem s') pdir q" and "pdir_wf q s'"
proof -
  have own: "owned s' p \<longleftrightarrow> p = f \<or> p = pt \<or> owned s p" if "page_aligned p" for p
    using post that by (simp add: alloc_at_post_def)
  note Q = pdir_wfD [OF q]
  show "separate (mem s') pdir q"
    unfolding separate_def
  proof (intro allI impI)
    fix x y g assume x: "slot_frame (mem s') pdir x = Some g" and y: "slot_frame (mem s') q y = Some g"
    then have "slot_frame (mem s) q y = Some g" "owned s g" using same Q(4) [of y g] by auto
    moreover have "slot_frame (mem s) pdir x = Some g"
      using post x \<open>owned s g\<close>
      by (cases "x = Page (pd_index virt) (pt_index virt)"; cases "x = Table (pd_index virt)")
        (auto simp: alloc_at_post_def simp del: slot_frame.simps)
    ultimately show "\<exists>k<64. x = Table k \<and> y = Table k" using separateD [OF sep] by blast
  qed
  have "pmm_inv (frames s')" using post pdir_wfD(1) by (auto simp: alloc_at_post_def)
  moreover have "owned s' g" if "slot_frame (mem s) q x = Some g" for x g
    using own [of g] slot_frame_aligned [OF Q(2) that] Q(4) [OF that] by simp
  ultimately show "pdir_wf q s'"
    using q by (simp add: pdir_wf_def same del: slot_frame.simps)
qed

section \<open>Filling the entries of a table\<close>

text \<open>
  A loop that writes entry after entry of one page, from values that do not depend on that page.
\<close>

lemma fill_entries:
  assumes "n \<le> 1024" and t: "page_aligned t"
    and F: "\<And>i m'. (\<And>x. \<not> in_region t 4096 x \<Longrightarrow> m' x = m x) \<Longrightarrow> i < 1024 \<Longrightarrow> F i m' = F i m"
  shows "let m' = fold (\<lambda>k m. set_entry t (of_nat k) (F (of_nat k) m) m) [0..<n] m
    in (\<forall>x. \<not> in_region t 4096 x \<longrightarrow> m' x = m x) \<and>
       (\<forall>j < 1024. entry m' t j = (if unat j < n then F j m else entry m t j))"
  using assms(1)
proof (induction n)
  case (Suc n)
  define m1 where "m1 = fold (\<lambda>k m. set_entry t (of_nat k) (F (of_nat k) m) m) [0..<n] m"
  have IH: "\<not> in_region t 4096 x \<Longrightarrow> m1 x = m x"
    "j < 1024 \<Longrightarrow> entry m1 t j = (if unat j < n then F j m else entry m t j)" for x j
    using Suc by (auto simp: m1_def Let_def)
  have u: "unat (of_nat n :: u32) = n" using Suc.prems by (simp add: unat_of_nat)
  then have lt: "(of_nat n :: u32) < 1024" using Suc.prems by (simp add: word_less_nat_alt)
  have F1: "F (of_nat n) m1 = F (of_nat n) m" using F [of m1 "of_nat n"] IH(1) lt by blast
  have eq: "j = of_nat n \<longleftrightarrow> unat j = n" for j :: u32 using u by (auto simp: word_unat_eq_iff)
  have "entry (set_entry t (of_nat n) (F (of_nat n) m) m1) t j =
      (if unat j < Suc n then F j m else entry m t j)" if "j < 1024" for j
    using IH(2) [OF that] that lt t by (auto simp: entry_set_entry less_Suc_eq eq u)
  moreover have "set_entry t (of_nat n) (F (of_nat n) m) m1 x = m x" if "\<not> in_region t 4096 x" for x
    using IH(1) [OF that] that lt by (simp add: set_entry_outside)
  ultimately show ?case by (simp add: m1_def [symmetric] F1)
qed simp

lemma fill_entries_u32:
  assumes "hi \<le> 1024" and "page_aligned t"
    and "\<And>i m'. (\<And>x. \<not> in_region t 4096 x \<Longrightarrow> m' x = m x) \<Longrightarrow> i < 1024 \<Longrightarrow> F i m' = F i m"
    and m': "m' = for_u32 (\<lambda>i m. set_entry t i (F i m) m) 0 hi m"
  shows "\<not> in_region t 4096 x \<Longrightarrow> m' x = m x"
    and "j < 1024 \<Longrightarrow> entry m' t j = (if j < hi then F j m else entry m t j)"
proof -
  have "unat hi \<le> 1024" using assms(1) by (simp add: word_le_nat_alt)
  from fill_entries [where F = F and m = m, OF this assms(2,3)]
  have "(\<forall>x. \<not> in_region t 4096 x \<longrightarrow> m' x = m x) \<and>
      (\<forall>j < 1024. entry m' t j = (if unat j < unat hi then F j m else entry m t j))"
    by (simp add: m' for_u32_fold Let_def)
  then show "\<not> in_region t 4096 x \<Longrightarrow> m' x = m x"
    and "j < 1024 \<Longrightarrow> entry m' t j = (if j < hi then F j m else entry m t j)"
    by (simp_all add: word_less_nat_alt)
qed

section \<open>Creating directories\<close>

lemma vmm_create_effect:
  assumes k: "pdir_wf (kernel_pdir s) s" and run: "vmm_create_pdir s = Some (pdir, s')"
  shows "pdir \<noteq> 0" "page_aligned pdir" "\<not> owned s pdir" "pmm_inv (frames s')"
    "kernel_pdir s' = kernel_pdir s"
    "\<And>p. page_aligned p \<Longrightarrow> owned s' p \<longleftrightarrow> p = pdir \<or> owned s p"
    "\<And>x. \<not> in_region pdir 4096 x \<Longrightarrow> mem s' x = mem s x"
    "\<And>j. j < 1024 \<Longrightarrow> entry (mem s') pdir j = (if j < 64 then entry (mem s) (kernel_pdir s) j else 0)"
proof -
  note K = pdir_wfD [OF k]
  from run obtain s1 where a: "frame_alloc s = Some (pdir, s1)"
    by (auto simp: vmm_create_pdir_def bind_eq_Some_conv Let_def split: if_splits)
  note A = frame_alloc_correct [OF K(1) a] frame_alloc_fields [OF a]
  define z where "z = kmemset (mem s) pdir 0 4096"
  define w where "w = for_u32 (\<lambda>i m. set_entry pdir i (entry m (kernel_pdir s) i) m) 0 KERNEL_PDES z"
  have s': "s' = s1\<lparr>mem := w\<rparr>"
    using run a A by (simp add: vmm_create_pdir_def w_def z_def)
  have "owned s (kernel_pdir s)" using K(4) [of Dir] by simp
  then have ne: "kernel_pdir s \<noteq> pdir" using A(4) by auto
  have F: "entry m' (kernel_pdir s) i = entry z (kernel_pdir s) i"
    if "\<And>x. \<not> in_region pdir 4096 x \<Longrightarrow> m' x = z x" "i < 1024" for i m'
    using that page_disjointD [OF K(2) A(2) ne] by (intro entry_cong) auto
  have hi: "KERNEL_PDES \<le> 1024" by (simp add: KERNEL_PDES_def)
  note W = fill_entries_u32 [where F = "\<lambda>i m. entry m (kernel_pdir s) i" and m = z, OF hi A(2) F w_def]
  show "pdir \<noteq> 0" "page_aligned pdir" "\<not> owned s pdir" by (fact A)+
  show "pmm_inv (frames s')" "kernel_pdir s' = kernel_pdir s" using A by (simp_all add: s')
  show "owned s' p \<longleftrightarrow> p = pdir \<or> owned s p" if "page_aligned p" for p
    using A(5) [OF that] by (simp add: s')
  show "mem s' x = mem s x" if "\<not> in_region pdir 4096 x" for x
    using W(1) [OF _ _ that] that by (simp add: s' z_def kmemset_page_outside)
  show "entry (mem s') pdir j = (if j < 64 then entry (mem s) (kernel_pdir s) j else 0)" if "j < 1024" for j
    using W(2) [OF _ _ that] that ne A(2) K(2) by (simp add: s' z_def entry_kmemset KERNEL_PDES_def)
qed

section \<open>Properties: mapping\<close>

text \<open>
  (C6) Mapping a user page. In a well-formed directory, \<open>vmm_alloc_at\<close> on a user address that is
  already mapped returns 0 and changes nothing. Otherwise it returns the address, which then
  translates to a page nobody owned before; every other page, the kernel's included, keeps its
  translation, and the directory stays well-formed.
\<close>

theorem vmm_alloc_at_correct:
  assumes "pdir_wf pdir s" and "virt \<ge> 0x10000000"
    and "vmm_alloc_at pdir virt s = Some (r, s')"
  shows "if vmm_page_present pdir virt s then r = 0 \<and> s' = s
    else r = virt \<and> pdir_wf pdir s' \<and>
      (\<exists>f. \<not> owned s f \<and> owned s' f \<and> page_aligned f \<and> f \<noteq> 0 \<and> vmm_phys pdir virt s' = f + (virt AND 0xFFF)) \<and>
      (\<forall>v. page_base v \<noteq> page_base virt \<longrightarrow> vmm_phys pdir v s' = vmm_phys pdir v s)"
proof (cases "slot_frame (mem s) pdir (Page (pd_index virt) (pt_index virt))")
  case (Some f)
  then have "f \<noteq> 0" "page_aligned f"
    using pdir_wfD(4) [OF assms(1)] slot_frame_aligned [OF pdir_wfD(2) [OF assms(1)]] by blast+
  then have "vmm_page_present pdir virt s"
    using Some assms(2) by (simp add: vmm_page_present_def vmm_phys_slot page_offset_nonzero del: slot_frame.simps)
  with vmm_alloc_at_effect [OF assms] Some show ?thesis by (simp del: slot_frame.simps)
next
  case None
  with vmm_alloc_at_effect [OF assms] obtain pt f where r: "r = virt"
    and post: "alloc_at_post pdir virt s pt f s'"
    by (auto simp del: slot_frame.simps)
  have "\<not> vmm_page_present pdir virt s"
    using None assms(2) by (simp add: vmm_page_present_def vmm_phys_slot del: slot_frame.simps)
  moreover have "vmm_phys pdir virt s' = f + (virt AND 0xFFF)" "pdir_wf pdir s'" "\<not> owned s f"
    "owned s' f" "page_aligned f" "f \<noteq> 0"
    using post assms(2) by (auto simp: alloc_at_post_def vmm_phys_slot simp del: slot_frame.simps)
  ultimately show ?thesis using r alloc_at_other_pages [OF post assms(2)] by auto
qed

lemma frame_alloc_returns:
  assumes "pmm_inv (frames s)" "i < pmm_total" "\<not> page_used (frames s) i"
  shows "\<exists>a s'. frame_alloc s = Some (a, s')"
  using frame_alloc_panics [OF assms(1) _ assms(2)] assms(3) by (cases "frame_alloc s") auto

lemma page_owned_used: "page_owned p (i * PAGE_SIZE) \<longleftrightarrow> page_used p i" if "i < pmm_total"
  using page_number(3) [OF total_page [OF that]] by (simp add: page_owned_def PAGE_SIZE_def)

text \<open>Two free pages are enough for \<open>vmm_alloc_at\<close> not to panic.\<close>

lemma vmm_alloc_at_returns:
  assumes wf: "pdir_wf pdir s"
    and free: "i < pmm_total" "j < pmm_total" "i \<noteq> j" "\<not> page_used (frames s) i" "\<not> page_used (frames s) j"
  shows "\<exists>r s'. vmm_alloc_at pdir virt s = Some (r, s')"
proof -
  obtain a s1 where a: "frame_alloc s = Some (a, s1)"
    using frame_alloc_returns [OF pdir_wfD(1) [OF wf] free(1,4)] by blast
  then have "alloc_table pdir (pd_index virt) s \<noteq> None" by (simp add: alloc_table_def Let_def)
  then obtain pt s2 where t: "alloc_table pdir (pd_index virt) s = Some (pt, s2)" by auto
  from alloc_table_correct [OF wf pd_index_less t] obtain n where n: "pt = Some n" "pdir_wf pdir s2"
    "\<And>p. page_aligned p \<Longrightarrow> owned s2 p \<longleftrightarrow> p = n \<or> owned s p" by blast
  have pn: "page_aligned (k * PAGE_SIZE)" if "k < pmm_total" for k
    using page_number(2) [OF total_page [OF that]] by (simp add: PAGE_SIZE_def)
  have inj: "i * PAGE_SIZE \<noteq> j * PAGE_SIZE"
    using page_number(3) [OF total_page [OF free(1)]] page_number(3) [OF total_page [OF free(2)]] free(3)
    by (metis PAGE_SIZE_def)
  obtain k where k: "k < pmm_total" "\<not> page_used (frames s2) k"
    using n(3) [OF pn [OF free(1)]] n(3) [OF pn [OF free(2)]] free inj
    by (metis page_owned_used)
  obtain b s3 where "frame_alloc s2 = Some (b, s3)"
    using frame_alloc_returns [OF pdir_wfD(1) [OF n(2)] k] by blast
  then show ?thesis using t n(1) by (auto simp: vmm_alloc_at_def alloc_page_in_def)
qed

text \<open>A machine with two empty directories at 1 MiB and two free pages.\<close>

definition vmm_example :: machine where
  "vmm_example = \<lparr>mem = (\<lambda>_. 0), frames = pmm_example2, kernel_pdir = 0x102000, cr3 = 0x100000, cr0 = 0\<rparr>"

lemma entry_vmm_example: "entry (mem vmm_example) t i = 0"
  by (simp add: vmm_example_def entry_def ld32_def bytes_u32_def)

lemma slot_vmm_example: "slot_frame (mem vmm_example) t x = (if x = Dir then Some t else None)"
  by (cases x) (simp_all add: entry_vmm_example present_def)

lemma vmm_example_used: "i < pmm_total \<Longrightarrow> page_used (frames vmm_example) i \<longleftrightarrow> i \<noteq> 6 \<and> i \<noteq> 7"
  using pmm_example_used [of i]
  by (auto simp: vmm_example_def pmm_example2_def MAX_PAGES_def word_less_nat_alt)

lemma vmm_example_wf: "pdir_wf 0x100000 vmm_example" "pdir_wf 0x101000 vmm_example"
  "separate (mem vmm_example) 0x100000 0x101000"
proof -
  have "pmm_inv (frames vmm_example)" using pmm_example2_inv by (simp add: vmm_example_def)
  moreover have "owned vmm_example 0x100000" "owned vmm_example 0x101000"
    using page_owned_used [of 256 "frames vmm_example"] page_owned_used [of 257 "frames vmm_example"]
      vmm_example_used [of 256] vmm_example_used [of 257] by (simp_all add: PAGE_SIZE_def)
  ultimately show "pdir_wf 0x100000 vmm_example" "pdir_wf 0x101000 vmm_example"
    by (simp_all add: pdir_wf_def slot_vmm_example page_aligned_def)
  show "separate (mem vmm_example) 0x100000 0x101000"
    by (simp add: separate_def slot_vmm_example)
qed

lemma vmm_example_alloc:
  obtains r s' where "vmm_alloc_at 0x100000 0x10000000 vmm_example = Some (r, s')"
  using vmm_alloc_at_returns [OF vmm_example_wf(1), of 6 7 "0x10000000"] vmm_example_used [of 6]
    vmm_example_used [of 7] by auto

lemma vmm_phys_example: "vmm_phys q v vmm_example = 0"
  by (simp add: vmm_phys_def entry_vmm_example present_def)

theorem vmm_alloc_at_correct_witness:
  "\<exists>s'. pdir_wf 0x100000 vmm_example \<and> vmm_alloc_at 0x100000 0x10000000 vmm_example = Some (0x10000000, s') \<and>
     vmm_page_present 0x100000 0x10000000 s' \<and> \<not> vmm_page_present 0x100000 0x10001000 s'"
proof -
  obtain r s' where run: "vmm_alloc_at 0x100000 0x10000000 vmm_example = Some (r, s')"
    by (rule vmm_example_alloc)
  show ?thesis
    using vmm_alloc_at_correct [OF vmm_example_wf(1) _ run] vmm_example_wf(1) run
    by (auto simp: vmm_page_present_def vmm_phys_example page_base_def)
qed

text \<open>
  (C7) Isolation of address spaces. Mapping a page in one directory leaves every other
  directory that shares only the kernel's page tables with it unchanged: all its translations,
  every byte its user addresses reach, its well-formedness and the separation itself.
\<close>

theorem vmm_alloc_at_isolation:
  assumes "pdir_wf pdir s" "pdir_wf q s" "separate (mem s) pdir q"
    and "virt \<ge> 0x10000000" and "vmm_alloc_at pdir virt s = Some (r, s')"
  shows "(\<forall>v. vmm_phys q v s' = vmm_phys q v s) \<and>
    (\<forall>v \<ge> 0x10000000. vmm_page_present q v s \<longrightarrow> mem s' (vmm_phys q v s) = mem s (vmm_phys q v s)) \<and>
    pdir_wf q s' \<and> separate (mem s') pdir q"
proof (cases "\<exists>pt f. alloc_at_post pdir virt s pt f s'")
  case True
  then obtain pt f where post: "alloc_at_post pdir virt s pt f s'" by blast
  note iso = alloc_at_isolation [OF post assms(4,1,2,3)]
  have dir: "in_region q 4096 a \<Longrightarrow> mem s' a = mem s a" for a
    using iso [of Dir q a] by simp
  note same = translation_unchanged [OF pdir_wfD(2) [OF assms(2)], of "mem s'" s, OF dir iso]
  have "mem s' (vmm_phys q v s) = mem s (vmm_phys q v s)"
    if v: "v \<ge> 0x10000000" "vmm_page_present q v s" for v
  proof -
    obtain g where g: "slot_frame (mem s) q (Page (pd_index v) (pt_index v)) = Some g"
      using v by (auto simp: vmm_page_present_def vmm_phys_slot split: option.splits simp del: slot_frame.simps)
    then have "in_region g 4096 (vmm_phys q v s)"
      using v(1) slot_frame_aligned [OF pdir_wfD(2) [OF assms(2)] g] pdir_wfD(4) [OF assms(2) g]
      by (simp add: vmm_phys_slot page_offset_nonzero del: slot_frame.simps)
    with iso [OF g] show ?thesis .
  qed
  with same separate_after_alloc [OF post assms(2,3)] show ?thesis by (simp del: slot_frame.simps)
next
  case False
  then have "s' = s" using vmm_alloc_at_effect [OF assms(1,4,5)] by (auto split: if_splits simp del: slot_frame.simps)
  with assms show ?thesis by simp
qed

theorem vmm_alloc_at_isolation_witness:
  "\<exists>s'. separate (mem vmm_example) 0x100000 0x101000 \<and>
     vmm_alloc_at 0x100000 0x10000000 vmm_example = Some (0x10000000, s') \<and>
     vmm_phys 0x101000 0x10000000 s' = 0 \<and> pdir_wf 0x101000 s' \<and> separate (mem s') 0x100000 0x101000"
proof -
  obtain r s' where run: "vmm_alloc_at 0x100000 0x10000000 vmm_example = Some (r, s')"
    by (rule vmm_example_alloc)
  have "r = 0x10000000"
    using vmm_alloc_at_effect [OF vmm_example_wf(1) _ run]
    by (simp add: slot_vmm_example del: slot_frame.simps)
  with vmm_alloc_at_isolation [OF vmm_example_wf(1,2,3) _ run] run vmm_example_wf(3) show ?thesis
    by (simp add: vmm_phys_example)
qed

section \<open>Unmapping\<close>

text \<open>Emptying the slot of a page and releasing the page.\<close>

lemma slot_frame_clear_page:
  assumes wf: "pdir_wf pdir s" and pt: "slot_frame (mem s) pdir (Table i) = Some pt" and j: "j < 1024"
    and i: "64 \<le> i"
  shows "slot_frame (set_entry pt j 0 (mem s)) pdir x =
    (if x = Page i j then None else slot_frame (mem s) pdir x)"
proof -
  have i2: "i < 1024" "present (entry (mem s) pdir i)" and pt': "pt = page_base (entry (mem s) pdir i)"
    using pt by (auto split: if_splits)
  note T = table_frame [OF wf i2, folded pt']
  have al: "page_aligned pdir" "page_aligned pt" using pdir_wfD(2) [OF wf] by (simp_all add: pt')
  have "entry (set_entry pt j 0 (mem s)) pdir k = entry (mem s) pdir k" if "k < 1024" for k
    using that T(1) al j by (auto simp: entry_set_entry)
  moreover have "entry (set_entry pt j 0 (mem s)) (page_base (entry (mem s) pdir k)) l =
      (if k = i \<and> l = j then 0 else entry (mem s) (page_base (entry (mem s) pdir k)) l)"
    if "k < 1024" "present (entry (mem s) pdir k)" "l < 1024" for k l
    using that T(4) [of k] al j pt' by (auto simp: entry_set_entry)
  ultimately show ?thesis using i2 j by (cases x) (auto simp: present_def split: if_splits)
qed

lemma pdir_wf_clear:
  assumes wf: "pdir_wf pdir s" and "pmm_inv (frames s')"
    and z: "slot_frame (mem s) pdir z = Some f"
    and own: "\<And>p. page_aligned p \<Longrightarrow> owned s' p \<longleftrightarrow> p \<noteq> f \<and> owned s p"
    and slot: "\<And>x. slot_frame (mem s') pdir x = (if x = z then None else slot_frame (mem s) pdir x)"
  shows "pdir_wf pdir s'"
  unfolding pdir_wf_def
proof (intro conjI allI impI)
  note D = pdir_wfD [OF wf]
  show "pmm_inv (frames s')" "page_aligned pdir" by (fact assms(2), fact D(2))
  fix x y g assume x: "slot_frame (mem s') pdir x = Some g"
  then have x': "slot_frame (mem s) pdir x = Some g" "x \<noteq> z" using slot [of x] by (auto split: if_splits)
  then have "page_aligned g" "g \<noteq> f" using slot_frame_aligned [OF D(2)] D(5) [OF x'(1)] z by blast+
  then show "g \<noteq> 0" "owned s' g" using D(4) [OF x'(1)] own [of g] by auto
  assume "slot_frame (mem s') pdir y = Some g"
  then show "x = y" using slot [of y] D(5) [OF x'(1), of y] by (auto split: if_splits)
qed

text \<open>
  Unmapping a user page. On an unmapped user address \<open>vmm_free\<close> changes nothing. On a mapped
  one it removes exactly this page's translation, releases exactly the page that backed it, and
  keeps the directory well-formed.
\<close>

lemma vmm_free_correct:
  assumes "pdir_wf pdir s" and "virt \<ge> 0x10000000"
  shows "if vmm_page_present pdir virt s
    then pdir_wf pdir (vmm_free pdir virt s) \<and> \<not> vmm_page_present pdir virt (vmm_free pdir virt s) \<and>
      (\<forall>v \<ge> 0x10000000. page_base v \<noteq> page_base virt \<longrightarrow>
         vmm_phys pdir v (vmm_free pdir virt s) = vmm_phys pdir v s) \<and>
      (\<forall>p. page_aligned p \<longrightarrow> (owned (vmm_free pdir virt s) p \<longleftrightarrow>
         p \<noteq> page_base (vmm_phys pdir virt s) \<and> owned s p))
    else vmm_free pdir virt s = s"
proof -
  let ?i = "pd_index virt" and ?j = "pt_index virt" and ?s' = "vmm_free pdir virt s"
  note D = pdir_wfD [OF assms(1)]
  show ?thesis
  proof (cases "slot_frame (mem s) pdir (Page ?i ?j)")
    case None
    then have "\<not> vmm_page_present pdir virt s"
      using assms(2) by (simp add: vmm_page_present_def vmm_phys_slot del: slot_frame.simps)
    moreover have "?s' = s"
      using None assms(2) by (auto simp: vmm_free_def Let_def user_address split: if_splits)
    ultimately show ?thesis by simp
  next
    case (Some f)
    then have f: "f \<noteq> 0" "page_aligned f" using D(4) slot_frame_aligned [OF D(2)] by blast+
    have phys: "vmm_phys pdir virt s = f + (virt AND 0xFFF)"
      using Some assms(2) by (simp add: vmm_phys_slot del: slot_frame.simps)
    from Some obtain pt where pt: "slot_frame (mem s) pdir (Table ?i) = Some pt" by (auto split: if_splits)
    have s': "?s' = frame_free f (upd_mem (set_entry pt ?j 0) s)"
      using Some pt by (auto simp: vmm_free_def Let_def split: if_splits)
    have slot: "slot_frame (mem ?s') pdir x = (if x = Page ?i ?j then None else slot_frame (mem s) pdir x)" for x
      using slot_frame_clear_page [OF assms(1) pt pt_index_less] assms(2)
      by (simp add: s' user_address del: slot_frame.simps)
    note F = frame_free_correct [of "upd_mem (set_entry pt ?j 0) s" f]
    have own: "owned ?s' p \<longleftrightarrow> p \<noteq> f \<and> owned s p" if "page_aligned p" for p
      using F(2) [OF _ f(2,1) that] D(1) by (simp add: s')
    have "pdir_wf pdir ?s'"
      by (rule pdir_wf_clear [OF assms(1) _ Some own slot]) (use F(1) D(1) f in \<open>simp add: s'\<close>)
    moreover have "vmm_phys pdir v ?s' = vmm_phys pdir v s"
      if "v \<ge> 0x10000000" "page_base v \<noteq> page_base virt" for v
      using that slot [of "Page (pd_index v) (pt_index v)"] same_page [of v virt]
      by (auto simp add: vmm_phys_slot simp del: slot_frame.simps)
    moreover have "vmm_page_present pdir virt s" "\<not> vmm_page_present pdir virt ?s'"
      using assms(2) slot phys page_offset_nonzero [OF f(2,1)]
      by (simp_all add: vmm_page_present_def vmm_phys_slot del: slot_frame.simps)
    ultimately show ?thesis using own phys page_offset_nonzero [OF f(2,1)] by simp
  qed
qed

lemma vmm_free_correct_witness:
  "\<exists>s'. vmm_alloc_at 0x100000 0x10000000 vmm_example = Some (0x10000000, s') \<and>
     vmm_page_present 0x100000 0x10000000 s' \<and>
     \<not> vmm_page_present 0x100000 0x10000000 (vmm_free 0x100000 0x10000000 s')"
proof -
  obtain r s' where run: "vmm_alloc_at 0x100000 0x10000000 vmm_example = Some (r, s')"
    by (rule vmm_example_alloc)
  with vmm_alloc_at_effect [OF vmm_example_wf(1) _ run] obtain pt f
    where r: "r = 0x10000000" and post: "alloc_at_post 0x100000 0x10000000 vmm_example pt f s'"
    by (auto simp: slot_vmm_example simp del: slot_frame.simps)
  then have "vmm_page_present 0x100000 0x10000000 s'" and wf: "pdir_wf 0x100000 s'"
    by (auto simp: alloc_at_post_def vmm_page_present_def vmm_phys_slot simp del: slot_frame.simps)
  with vmm_free_correct [OF wf, of "0x10000000"] run r show ?thesis by auto
qed

section \<open>Properties: directories\<close>

lemma create_slots:
  assumes k: "pdir_wf (kernel_pdir s) s" and run: "vmm_create_pdir s = Some (pdir, s')"
  shows "slot_frame (mem s') pdir x =
    (case x of Dir \<Rightarrow> Some pdir
     | Table i \<Rightarrow> if i < 64 then slot_frame (mem s) (kernel_pdir s) (Table i) else None
     | Page i j \<Rightarrow> None)"
  using vmm_create_effect(8) [OF k run]
  by (cases x) (auto simp: present_def word_less_nat_alt word_le_nat_alt split: if_splits)

lemma create_keeps:
  assumes k: "pdir_wf (kernel_pdir s) s" and run: "vmm_create_pdir s = Some (pdir, s')"
    and q: "pdir_wf q s"
  shows "slot_frame (mem s') q x = slot_frame (mem s) q x" "vmm_phys q v s' = vmm_phys q v s" "pdir_wf q s'"
proof -
  note E = vmm_create_effect [OF k run]
  have page: "mem s' a = mem s a" if "slot_frame (mem s) q y = Some f" "in_region f 4096 a" for y f a
  proof -
    have "page_aligned f" "f \<noteq> pdir"
      using slot_frame_aligned [OF pdir_wfD(2) [OF q] that(1)] pdir_wfD(4) [OF q that(1)] E(3) by auto
    then show ?thesis using E(7) page_disjointD [OF _ E(2)] that(2) by blast
  qed
  have dir: "in_region q 4096 a \<Longrightarrow> mem s' a = mem s a" for a using page [of Dir q a] by simp
  show "slot_frame (mem s') q x = slot_frame (mem s) q x" for x
    by (rule translation_unchanged(1) [OF pdir_wfD(2) [OF q]]) (use dir page in blast)+
  show "vmm_phys q v s' = vmm_phys q v s"
    by (rule translation_unchanged(2) [where m' = "mem s'", OF pdir_wfD(2) [OF q]]) (use dir page in blast)+
  from \<open>\<And>x. slot_frame (mem s') q x = slot_frame (mem s) q x\<close> show "pdir_wf q s'"
    using q E(4,6) slot_frame_aligned [OF pdir_wfD(2) [OF q]]
    by (simp add: pdir_wf_def del: slot_frame.simps)
qed

text \<open>
  A new address space. With the kernel's directory well-formed, \<open>vmm_create_pdir\<close> returns a
  well-formed directory on a fresh page in which every kernel address translates as in the
  kernel's directory and no user address is mapped. Every well-formed directory with the
  kernel's tables keeps its translation and is separate from the new one.
\<close>

lemma vmm_create_pdir_correct:
  assumes "pdir_wf (kernel_pdir s) s" and "vmm_create_pdir s = Some (pdir, s')"
    and "pdir_wf q s" and "\<And>i. i < 64 \<Longrightarrow> slot_frame (mem s) q (Table i) = slot_frame (mem s) (kernel_pdir s) (Table i)"
  shows "pdir \<noteq> 0 \<and> pdir_wf pdir s' \<and>
    (\<forall>v < 0x10000000. vmm_phys pdir v s' = vmm_phys (kernel_pdir s) v s) \<and>
    (\<forall>v \<ge> 0x10000000. \<not> vmm_page_present pdir v s') \<and>
    (\<forall>v. vmm_phys q v s' = vmm_phys q v s) \<and> pdir_wf q s' \<and> separate (mem s') q pdir"
proof (intro conjI allI impI)
  note E = vmm_create_effect [OF assms(1,2)] and K = pdir_wfD [OF assms(1)]
  note slots = create_slots [OF assms(1,2)] and keep = create_keeps [OF assms(1,2)]
  show "pdir \<noteq> 0" by (fact E)
  show "pdir_wf pdir s'"
    unfolding pdir_wf_def
  proof (intro conjI allI impI)
    show "pmm_inv (frames s')" "page_aligned pdir" by (fact E)+
    fix x y f assume x: "slot_frame (mem s') pdir x = Some f"
    then have f: "f = pdir \<and> x = Dir \<or>
        (\<exists>i<64. x = Table i \<and> slot_frame (mem s) (kernel_pdir s) (Table i) = Some f)"
      using slots [of x] by (auto split: slot.splits if_splits simp del: slot_frame.simps)
    then show "f \<noteq> 0" "owned s' f"
      using E(1,2) K(4) E(6) [of f] slot_frame_aligned [OF K(2)] by blast+
    assume "slot_frame (mem s') pdir y = Some f"
    then have "f = pdir \<and> y = Dir \<or>
        (\<exists>i<64. y = Table i \<and> slot_frame (mem s) (kernel_pdir s) (Table i) = Some f)"
      using slots [of y] by (auto split: slot.splits if_splits simp del: slot_frame.simps)
    then show "x = y" using f K(5) K(4) E(3) by blast
  qed
  show "vmm_phys pdir v s' = vmm_phys (kernel_pdir s) v s" if "v < 0x10000000" for v
  proof -
    have "pd_index v < 64" using that user_address [of v] by (metis not_le)
    then have "slot_frame (mem s') pdir (Table (pd_index v)) = slot_frame (mem s') (kernel_pdir s) (Table (pd_index v))"
      using slots [of "Table (pd_index v)"] keep(1) [OF assms(1)] by (simp del: slot_frame.simps)
    then have "vmm_phys pdir v s' = vmm_phys (kernel_pdir s) v s'" by (simp add: vmm_phys_table del: slot_frame.simps)
    then show ?thesis using keep(2) [OF assms(1)] by simp
  qed
  show "\<not> vmm_page_present pdir v s'" if "v \<ge> 0x10000000" for v
    using that slots by (simp add: vmm_page_present_def vmm_phys_slot del: slot_frame.simps)
  show "vmm_phys q v s' = vmm_phys q v s" for v by (rule keep(2) [OF assms(3)])
  show "pdir_wf q s'" by (rule keep(3) [OF assms(3)])
  show "separate (mem s') q pdir"
    unfolding separate_def keep(1) [OF assms(3)]
  proof (intro allI impI)
    fix x y f assume x: "slot_frame (mem s) q x = Some f" and "slot_frame (mem s') pdir y = Some f"
    then consider "f = pdir" | i where "i < 64" "y = Table i" "slot_frame (mem s) q (Table i) = Some f"
      using slots [of y] assms(4) by (auto split: slot.splits if_splits simp del: slot_frame.simps)
    then show "\<exists>k<64. x = Table k \<and> y = Table k"
      using pdir_wfD(4) [OF assms(3) x] E(3) pdir_wfD(5) [OF assms(3) x] by cases auto
  qed
qed

lemma vmm_create_pdir_correct_witness:
  "\<exists>pdir s'. pdir_wf (kernel_pdir (vmm_example\<lparr>kernel_pdir := 0x101000\<rparr>)) (vmm_example\<lparr>kernel_pdir := 0x101000\<rparr>) \<and>
     vmm_create_pdir (vmm_example\<lparr>kernel_pdir := 0x101000\<rparr>) = Some (pdir, s') \<and>
     pdir_wf pdir s' \<and> separate (mem s') 0x101000 pdir"
proof -
  let ?s = "vmm_example\<lparr>kernel_pdir := 0x101000\<rparr>"
  have wf: "pdir_wf 0x101000 ?s" using vmm_example_wf(2) by (simp add: pdir_wf_def)
  obtain a s1 where a: "frame_alloc ?s = Some (a, s1)"
    using frame_alloc_returns [of ?s 6] pdir_wfD(1) [OF wf] vmm_example_used [of 6] by auto
  then have "a \<noteq> 0" using frame_alloc_correct(3) [OF _ a] pdir_wfD(1) [OF wf] by simp
  with a have "\<exists>pdir s'. vmm_create_pdir ?s = Some (pdir, s')" by (simp add: vmm_create_pdir_def Let_def)
  then obtain pdir s' where run: "vmm_create_pdir ?s = Some (pdir, s')" by blast
  show ?thesis using vmm_create_pdir_correct [OF _ run, of "0x101000"] wf run by auto
qed

section \<open>The boot page tables\<close>

lemma identity_entry:
  assumes "pd_index a < 64"
  shows "page_base ((pd_index a * 1024 + pt_index a) * 0x1000 OR PAGE_PRESENT OR PAGE_WRITE) = page_base a"
    and "present ((pd_index a * 1024 + pt_index a) * 0x1000 OR PAGE_PRESENT OR PAGE_WRITE)"
proof -
  define n where "n = pd_index a * 1024 + pt_index a"
  have "unat (pd_index a) < 64" "unat (pt_index a) < 1024"
    using assms pt_index_less [of a] by (simp_all add: word_less_nat_alt)
  then have "unat (pd_index a * 1024) = unat (pd_index a) * 1024" by (simp add: unat_word_ariths)
  then have un: "unat n = unat (pd_index a) * 1024 + unat (pt_index a)"
    using \<open>unat (pd_index a) < 64\<close> \<open>unat (pt_index a) < 1024\<close> by (simp add: n_def unat_word_ariths)
  then have "n < 0x100000" using \<open>unat (pd_index a) < 64\<close> \<open>unat (pt_index a) < 1024\<close> by (simp add: word_less_nat_alt)
  note N = page_number [OF this]
  have "unat (n * 4096) = unat (page_base a)"
    using N(1) by (simp add: un page_index_eq pd_index_nat pt_index_nat) 
  then have base: "n * 0x1000 = page_base a" by (simp add: word_unat_eq_iff)
  have "page_base (PAGE_PRESENT OR PAGE_WRITE) = 0" "present (PAGE_PRESENT OR PAGE_WRITE)"
    by (simp_all add: page_base_def present_def PAGE_PRESENT_def PAGE_WRITE_def)
  then show "page_base ((pd_index a * 1024 + pt_index a) * 0x1000 OR PAGE_PRESENT OR PAGE_WRITE) = page_base a"
    "present ((pd_index a * 1024 + pt_index a) * 0x1000 OR PAGE_PRESENT OR PAGE_WRITE)"
    unfolding n_def [symmetric] or.assoc base by (simp_all only: page_base_flags present_flags page_base_aligned)
qed

definition identity_pte :: "u32 \<Rightarrow> u32 \<Rightarrow> u32" where
  "identity_pte i j = (i * 1024 + j) * 0x1000 OR PAGE_PRESENT OR PAGE_WRITE"

definition init_inv :: "u32 \<Rightarrow> u32 \<Rightarrow> machine \<Rightarrow> bool" where
  "init_inv k idx s \<longleftrightarrow> kernel_pdir s = k \<and> pdir_wf k s \<and>
     (\<forall>i<1024. present (entry (mem s) k i) \<longleftrightarrow> i < idx) \<and>
     (\<forall>i<idx. \<forall>j<1024. entry (mem s) (page_base (entry (mem s) k i)) j = identity_pte i j)"

lemma vmm_init_table_step:
  assumes inv: "init_inv k idx s" and idx: "idx < 64" and run: "vmm_init_table idx s = Some (go, s')"
  shows "go \<and> init_inv k (idx + 1) s'"
proof -
  have k: "kernel_pdir s = k" and wf: "pdir_wf k s"
    and pres: "i < 1024 \<Longrightarrow> present (entry (mem s) k i) \<longleftrightarrow> i < idx"
    and old: "i < idx \<Longrightarrow> j < 1024 \<Longrightarrow> entry (mem s) (page_base (entry (mem s) k i)) j = identity_pte i j" for i j
    using inv by (auto simp: init_inv_def)
  note D = pdir_wfD [OF wf]
  have idx': "idx < 1024" using idx by (simp add: word_less_nat_alt)
  from run obtain pt s1 where a: "frame_alloc s = Some (pt, s1)"
    by (auto simp: vmm_init_table_def bind_eq_Some_conv)
  note A = frame_alloc_correct [OF D(1) a] frame_alloc_fields [OF a]
  define w where "w = for_u32 (\<lambda>i m. set_entry pt i (identity_pte idx i) m) 0 1024 (mem s)"
  define e where "e = pt OR PAGE_PRESENT OR PAGE_WRITE"
  have go: "go" and s': "s' = s1\<lparr>mem := set_entry k idx e w\<rparr>"
    using run a A k by (auto simp: vmm_init_table_def w_def e_def identity_pte_def)
  note W = fill_entries_u32 [where F = "\<lambda>i m. identity_pte idx i", OF _ A(2) _ w_def]
  have "owned s k" using D(4) [of Dir] by simp
  then have ne: "pt \<noteq> k" using A(4) by auto
  have e: "present e" "page_base e = pt"
    unfolding e_def or.assoc using A(2)
    by (subst present_flags page_base_flags; simp add: present_def page_base_def PAGE_PRESENT_def PAGE_WRITE_def)+
  have other: "entry (mem s') u j = (if u = k \<and> j = idx then e else entry (mem s) u j)"
    if "page_aligned u" "j < 1024" "u \<noteq> pt" for u j
  proof -
    have "entry w u j = entry (mem s) u j"
      using that W(1) page_disjointD [OF that(1) A(2)] by (intro entry_cong) auto
    then show ?thesis using that D(2) idx' by (auto simp: s' entry_set_entry)
  qed
  have new: "entry (mem s') pt j = identity_pte idx j" if "j < 1024" for j
    using that ne D(2) A(2) idx' W(2) [of j] by (simp add: s' entry_set_entry)
  have "\<not> present (entry (mem s) k idx)" using pres [OF idx'] by simp
  then have slot: "slot_frame (mem s') k x = (if x = Table idx then Some pt else slot_frame (mem s) k x)" for x
    using idx by (intro slot_frame_new_table [OF wf idx' _ A(4,2) e other]) (auto simp: not_le)
  have own: "owned s' p \<longleftrightarrow> p = pt \<or> owned s p" if "page_aligned p" for p
    using A(5) [OF that] by (simp add: s')
  have "pdir_wf k s'"
    by (rule pdir_wf_fill [OF wf _ A(4,3,2) own slot]) (simp add: s' A(1))
  moreover have dir: "entry (mem s') k i = (if i = idx then e else entry (mem s) k i)" if "i < 1024" for i
    using other [OF D(2) that] ne by auto
  moreover have lt: "i < idx + 1 \<longleftrightarrow> i = idx \<or> i < idx" for i
    using unat_plus1_less [OF idx] by (auto simp: word_less_nat_alt word_unat_eq_iff)
  moreover have "entry (mem s') (page_base (entry (mem s) k i)) j = identity_pte i j"
    if i: "i < idx" "j < 1024" for i j
  proof -
    have i': "i < 1024" using i(1) idx' by simp
    note T = table_frame [OF wf i', unfolded pres [OF i'], OF i(1)]
    have "page_base (entry (mem s) k i) \<noteq> pt" using T(3) A(4) by auto
    then show ?thesis using other [OF page_base_aligned i(2)] T(1) old [OF i] by simp
  qed
  ultimately show ?thesis
    using go k A e new pres idx' by (auto simp: init_inv_def s' lt)
qed

lemma vmm_init_table_total:
  assumes "init_inv k idx s" "idx < 64" "Suc n \<le> card (free_pages (frames s))"
  shows "\<exists>s'. vmm_init_table idx s = Some (True, s') \<and> init_inv k (idx + 1) s' \<and> n \<le> card (free_pages (frames s'))"
proof -
  have "pmm_inv (frames s)" using assms(1) pdir_wfD(1) by (auto simp: init_inv_def)
  then obtain a s1 where a: "frame_alloc s = Some (a, s1)" "n \<le> card (free_pages (frames s1))"
    using frame_alloc_free assms(3) by blast
  then obtain s' where s': "vmm_init_table idx s = Some (True, s')" "frames s' = frames s1"
    by (simp add: vmm_init_table_def Let_def)
  with a vmm_init_table_step [OF assms(1,2) s'(1)] show ?thesis by simp
qed

text \<open>
  Boot page tables. With the static \<open>kernel_pdir\<close> empty on a page of its own and at least \<open>64 + n\<close>
  free pages, \<open>vmm_init\<close> returns and leaves \<open>n\<close> of them, paging is on and CR3 names the kernel's directory, every
  address below 256 MiB translates to itself, no other address is mapped, and the directory is
  well-formed.
\<close>

lemma vmm_init_correct:
  assumes "pmm_inv (frames s)" and "64 + n \<le> card (free_pages (frames s))"
    and "page_aligned (kernel_pdir s)" "kernel_pdir s \<noteq> 0" "owned s (kernel_pdir s)"
    and "\<And>i. i < 1024 \<Longrightarrow> entry (mem s) (kernel_pdir s) i = 0"
  shows "\<exists>s'. vmm_init s = Some s' \<and> vmm_current_pdir s' = vmm_kernel_pdir s \<and> cr0 s' AND 0x80000000 \<noteq> 0 \<and>
    (\<forall>a < 0x10000000. vmm_phys (vmm_kernel_pdir s) a s' = a) \<and>
    (\<forall>a \<ge> 0x10000000. \<not> vmm_page_present (vmm_kernel_pdir s) a s') \<and>
    pdir_wf (vmm_kernel_pdir s) s' \<and> n \<le> card (free_pages (frames s'))"
proof -
  let ?k = "kernel_pdir s"
  let ?P = "\<lambda>i s. init_inv ?k i s \<and> 64 - unat i + n \<le> card (free_pages (frames s))"
  have np: "i < 1024 \<Longrightarrow> \<not> present (entry (mem s) ?k i)" for i using assms(6) by (simp add: present_def)
  then have "slot_frame (mem s) ?k x = (if x = Dir then Some ?k else None)" for x by (cases x) auto
  then have "pdir_wf ?k s" using assms by (simp add: pdir_wf_def)
  then have start: "?P 0 s" using assms(2) np by (simp add: init_inv_def)
  have step: "\<exists>s'. vmm_init_table i t = Some (True, s') \<and> ?P (i + 1) s'" if "?P i t" "i < KERNEL_PDES" for i t
  proof -
    have i: "i < 64" "unat i < 64" using that(2) by (simp_all add: KERNEL_PDES_def word_less_nat_alt)
    then have "Suc (63 - unat i + n) \<le> card (free_pages (frames t))" using that(1) by linarith
    from vmm_init_table_total [OF conjunct1 [OF that(1)] i(1) this] i show ?thesis
      using unat_plus1_less [OF i(1)] by auto
  qed
  have "\<exists>s'. loop_u32 vmm_init_table 0 KERNEL_PDES s = Some (True, s') \<and> ?P KERNEL_PDES s'"
    by (rule loop_u32_total [of ?P, OF start _ step]) simp_all
  then obtain s1 where s1: "loop_u32 vmm_init_table 0 KERNEL_PDES s = Some (True, s1)" "init_inv ?k 64 s1" "n \<le> card (free_pages (frames s1))"
    by (auto simp: KERNEL_PDES_def)
  define s' where "s' = s1\<lparr>cr3 := kernel_pdir s1, cr0 := cr0 s1 OR 0x80000000\<rparr>"
  have run: "vmm_init s = Some s'" using s1(1) by (simp add: vmm_init_def s'_def)
  have k1: "kernel_pdir s1 = ?k" and pres: "i < 1024 \<Longrightarrow> present (entry (mem s1) ?k i) \<longleftrightarrow> i < 64"
    and id: "i < 64 \<Longrightarrow> j < 1024 \<Longrightarrow> entry (mem s1) (page_base (entry (mem s1) ?k i)) j = identity_pte i j" for i j
    using s1(2) by (auto simp: init_inv_def)
  have "vmm_phys ?k a s' = a" if "a < 0x10000000" for a
  proof -
    have "pd_index a < 64" using that user_address [of a] by (metis not_le)
    then show ?thesis
      using id pres identity_entry [of a] page_base_offset [of a] by (simp add: vmm_phys_def s'_def identity_pte_def)
  qed
  moreover have "\<not> vmm_page_present ?k a s'" if "a \<ge> 0x10000000" for a
    using that pres [of "pd_index a"] by (simp add: user_address vmm_page_present_def vmm_phys_def s'_def not_less)
  moreover have "pdir_wf ?k s'" using s1(2) by (simp add: init_inv_def pdir_wf_def s'_def)
  moreover have "cr0 s' AND 0x80000000 \<noteq> 0" by (simp add: s'_def bit.conj_disj_distrib2)
  ultimately show ?thesis using run k1 s1(3) by (auto simp: vmm_current_pdir_def vmm_kernel_pdir_def s'_def)
qed

text \<open>A machine with pages 1 to 64 free and the kernel's directory at 1 MiB.\<close>

definition boot_example :: machine where
  "boot_example = \<lparr>mem = (\<lambda>_. 0),
     frames = for_u32 set_free 1 65 (pmm_reset \<lparr>bitmap = (\<lambda>_. 0), pmm_hint = 0\<rparr>),
     kernel_pdir = 0x100000, cr3 = 0, cr0 = 0\<rparr>"

lemma boot_example_used: "i < pmm_total \<Longrightarrow> page_used (frames boot_example) i \<longleftrightarrow> \<not> (1 \<le> i \<and> i < 65)"
  using page_used_reset [of i]
  by (simp add: boot_example_def kernel_simps MAX_PAGES_def word_less_nat_alt)

lemma boot_example_ready:
  "pmm_inv (frames boot_example)" "64 \<le> card (free_pages (frames boot_example))" "owned boot_example 0x100000"
proof -
  show "pmm_inv (frames boot_example)"
    using boot_example_used [of 0] by (simp add: pmm_inv_def) (simp add: boot_example_def pmm_reset_def)
  have lt: "i < pmm_total" if "i < 65" for i :: u32 using that by (simp add: word_less_nat_alt)
  have "of_nat ` {1..<65} \<subseteq> free_pages (frames boot_example)"
  proof
    fix i :: u32 assume "i \<in> of_nat ` {1..<65}"
    then have "1 \<le> i \<and> i < 65" using u32_interval_image [of i 1 65] by simp
    with lt [of i] boot_example_used [of i] show "i \<in> free_pages (frames boot_example)" by (simp add: free_pages_def)
  qed
  moreover have "inj_on (of_nat :: nat \<Rightarrow> u32) {1..<65}"
    by (rule inj_onI) (simp add: word_unat_eq_iff unat_of_nat)
  then have "card ((of_nat :: nat \<Rightarrow> u32) ` {1..<65}) = 64" by (simp add: card_image)
  moreover have "finite (free_pages (frames boot_example))" by simp
  ultimately show "64 \<le> card (free_pages (frames boot_example))" using card_mono by metis
  show "owned boot_example 0x100000"
    using page_owned_used [of 256 "frames boot_example"] boot_example_used [of 256] by (simp add: PAGE_SIZE_def)
qed

lemma vmm_init_correct_witness:
  "\<exists>s'. vmm_init boot_example = Some s' \<and> cr3 s' = 0x100000 \<and> vmm_phys 0x100000 0xB8000 s' = 0xB8000 \<and>
     pdir_wf 0x100000 s'"
  using vmm_init_correct [of boot_example 0] boot_example_ready
  by (auto simp: boot_example_def vmm_kernel_pdir_def vmm_current_pdir_def page_aligned_def entry_def
      ld32_def bytes_u32_def)

section \<open>Copying an address space\<close>

text \<open>
  \<open>page_copied\<close> says that user page \<open>(a, b)\<close> of \<open>src\<close> in the old memory has a counterpart with the
  same bytes in \<open>dst\<close>, or is absent in both. \<open>copy_inv\<close> is the invariant of the two nested loops:
  \<open>D\<close> holds of the pages already dealt with and \<open>T\<close> of the directory entries already filled.
  Pages owned at the start keep their bytes, \<open>dst\<close>'s directory page excepted.
\<close>

definition page_copied :: "memory \<Rightarrow> u32 \<Rightarrow> memory \<Rightarrow> u32 \<Rightarrow> u32 \<Rightarrow> u32 \<Rightarrow> bool" where
  "page_copied m0 src m dst a b \<longleftrightarrow>
     (case slot_frame m0 src (Page a b) of
        None \<Rightarrow> slot_frame m dst (Page a b) = None
      | Some f \<Rightarrow> (\<exists>g. slot_frame m dst (Page a b) = Some g \<and> bytes_at m g 4096 = bytes_at m0 f 4096))"

definition copy_inv ::
  "machine \<Rightarrow> u32 \<Rightarrow> u32 \<Rightarrow> (u32 \<Rightarrow> u32 \<Rightarrow> bool) \<Rightarrow> (u32 \<Rightarrow> bool) \<Rightarrow> machine \<Rightarrow> bool" where
  "copy_inv s0 src dst D T s \<longleftrightarrow> pdir_wf dst s \<and>
     (\<forall>p. page_aligned p \<longrightarrow> owned s0 p \<longrightarrow> owned s p) \<and>
     (\<forall>p x. page_aligned p \<longrightarrow> owned s0 p \<longrightarrow> p \<noteq> dst \<longrightarrow> in_region p 4096 x \<longrightarrow> mem s x = mem s0 x) \<and>
     (\<forall>k<64. slot_frame (mem s) dst (Table k) = slot_frame (mem s0) dst (Table k)) \<and>
     (\<forall>x f. slot_frame (mem s) dst x = Some f \<longrightarrow> owned s0 f \<longrightarrow> x = Dir \<or> (\<exists>k<64. x = Table k)) \<and>
     (\<forall>a b. if D a b then page_copied (mem s0) src (mem s) dst a b
            else slot_frame (mem s) dst (Page a b) = None) \<and>
     (\<forall>a. 64 \<le> a \<longrightarrow> \<not> T a \<longrightarrow> slot_frame (mem s) dst (Table a) = None)"

lemma copy_invD:
  assumes "copy_inv s0 src dst D T s"
  shows "pdir_wf dst s"
    "\<And>p. page_aligned p \<Longrightarrow> owned s0 p \<Longrightarrow> owned s p"
    "\<And>p x. page_aligned p \<Longrightarrow> owned s0 p \<Longrightarrow> p \<noteq> dst \<Longrightarrow> in_region p 4096 x \<Longrightarrow> mem s x = mem s0 x"
    "\<And>k. k < 64 \<Longrightarrow> slot_frame (mem s) dst (Table k) = slot_frame (mem s0) dst (Table k)"
    "\<And>x f. slot_frame (mem s) dst x = Some f \<Longrightarrow> owned s0 f \<Longrightarrow> x = Dir \<or> (\<exists>k<64. x = Table k)"
    "\<And>a b. D a b \<Longrightarrow> page_copied (mem s0) src (mem s) dst a b"
    "\<And>a b. \<not> D a b \<Longrightarrow> slot_frame (mem s) dst (Page a b) = None"
    "\<And>a. 64 \<le> a \<Longrightarrow> \<not> T a \<Longrightarrow> slot_frame (mem s) dst (Table a) = None"
  using assms by (auto simp: copy_inv_def simp del: slot_frame.simps)

lemma copy_inv_extend:
  assumes "copy_inv s0 src dst D T s"
    and "\<And>a b. D' a b \<Longrightarrow> \<not> D a b \<Longrightarrow> page_copied (mem s0) src (mem s) dst a b"
    and "\<And>a b. D a b \<Longrightarrow> D' a b" and "\<And>a. T a \<Longrightarrow> T' a"
  shows "copy_inv s0 src dst D' T' s"
proof -
  note I = copy_invD [OF assms(1)]
  have "if D' a b then page_copied (mem s0) src (mem s) dst a b else slot_frame (mem s) dst (Page a b) = None" for a b
    using I(6) [of a b] I(7) [of a b] assms(2,3) [of a b] by (cases "D a b") (auto simp del: slot_frame.simps)
  moreover have "slot_frame (mem s) dst (Table a) = None" if "64 \<le> a" "\<not> T' a" for a
    using I(8) [of a] that assms(4) [of a] by blast
  ultimately show ?thesis using I(1-5) unfolding copy_inv_def by (simp del: slot_frame.simps)
qed

text \<open>The slots of \<open>src\<close> that still need a page, which bounds the allocations left to do.\<close>

definition pending :: "memory \<Rightarrow> u32 \<Rightarrow> (u32 \<Rightarrow> u32 \<Rightarrow> bool) \<Rightarrow> (u32 \<Rightarrow> bool) \<Rightarrow> slot set" where
  "pending m src D T = {x. slot_frame m src x \<noteq> None \<and>
     (case x of Dir \<Rightarrow> False | Table a \<Rightarrow> 64 \<le> a \<and> \<not> T a | Page a b \<Rightarrow> \<not> D a b)}"

lemma finite_slots: "finite (A :: slot set)"
proof (rule finite_subset)
  show "A \<subseteq> insert Dir (range Table \<union> range (\<lambda>(i, j). Page i j))"
  proof
    fix x show "x \<in> insert Dir (range Table \<union> range (\<lambda>(i, j). Page i j))" by (cases x) auto
  qed
qed (simp add: finite_imageI)

lemma pending_take:
  assumes "x \<in> P" "P' = P - {x}" "card (P :: slot set) \<le> card (free_pages (frames s))"
    and "pmm_inv (frames s)"
  shows "\<exists>a s1. frame_alloc s = Some (a, s1) \<and> a \<noteq> 0 \<and> card P' \<le> card (free_pages (frames s1))"
proof -
  have "card P = Suc (card P')" using assms(1,2) card_Suc_Diff1 [OF finite_slots assms(1)] by simp
  then obtain a s1 where "frame_alloc s = Some (a, s1)" "card P' \<le> card (free_pages (frames s1))"
    using frame_alloc_free [OF assms(4)] assms(3) by metis
  with frame_alloc_correct(3) [OF assms(4)] show ?thesis by blast
qed

lemma kmemcpy_page:
  assumes "page_aligned d" "page_aligned f" "d \<noteq> f"
  shows "kmemcpy m d f 4096 = copied m d f 4096"
proof -
  have "\<not> in_region f 4096 d"
    using page_disjointD [OF assms, of d] by (auto simp: in_region_def)
  then show ?thesis using kmemcpy_copied [of d f 4096 m] by (simp add: in_region_def)
qed

text \<open>Writing only to pages that no slot of a directory holds keeps the directory.\<close>

lemma pdir_wf_outside:
  assumes wf: "pdir_wf dst s" and n: "page_aligned n" "\<not> owned s n"
    and m': "\<And>x. \<not> in_region n 4096 x \<Longrightarrow> m' x = mem s x"
  shows "slot_frame m' dst x = slot_frame (mem s) dst x" and "pdir_wf dst (s\<lparr>mem := m'\<rparr>)"
proof -
  have page: "m' a = mem s a" if "slot_frame (mem s) dst y = Some f" "in_region f 4096 a" for y f a
  proof -
    have "page_aligned f" "f \<noteq> n"
      using slot_frame_aligned [OF pdir_wfD(2) [OF wf] that(1)] pdir_wfD(4) [OF wf that(1)] n(2) by auto
    then show ?thesis using m' page_disjointD [OF _ n(1)] that(2) by blast
  qed
  have dir: "in_region dst 4096 a \<Longrightarrow> m' a = mem s a" for a using page [of Dir dst a] by simp
  show same: "slot_frame m' dst x = slot_frame (mem s) dst x" for x
    by (rule translation_unchanged(1) [OF pdir_wfD(2) [OF wf]]) (use dir page in blast)+
  show "pdir_wf dst (s\<lparr>mem := m'\<rparr>)" using wf by (simp add: pdir_wf_def same del: slot_frame.simps)
qed

lemma page_copied_keep:
  assumes "page_copied m0 src m dst a b"
    and "slot_frame m' dst (Page a b) = slot_frame m dst (Page a b)"
    and "\<And>g x. slot_frame m dst (Page a b) = Some g \<Longrightarrow> in_region g 4096 x \<Longrightarrow> m' x = m x"
  shows "page_copied m0 src m' dst a b"
proof -
  have "bytes_at m' g 4096 = bytes_at m g 4096" if "slot_frame m dst (Page a b) = Some g" for g
    using assms(3) [OF that] by (intro bytes_at_cong) auto
  with assms(1,2) show ?thesis
    by (auto simp: page_copied_def split: option.splits simp del: slot_frame.simps)
qed

lemma src_frame:
  assumes "pdir_wf src s0" "separate (mem s0) src dst" "slot_frame (mem s0) src x = Some f"
  shows "page_aligned f" "owned s0 f" "f \<noteq> dst"
proof -
  show "page_aligned f" using slot_frame_aligned [OF pdir_wfD(2) [OF assms(1)] assms(3)] .
  show "owned s0 f" using pdir_wfD(4) [OF assms(1,3)] by simp
  show "f \<noteq> dst" using separateD [OF assms(2,3), of Dir] by auto
qed

lemma src_entry:
  assumes inv: "copy_inv s0 src dst D T s" and src: "pdir_wf src s0" "separate (mem s0) src dst"
    and x: "slot_frame (mem s0) src x = Some f" and j: "j < 1024"
  shows "entry (mem s) f j = entry (mem s0) f j"
  using copy_invD(3) [OF inv] src_frame [OF src x] by (intro entry_cong [OF j]) blast

lemma copy_page_present:
  assumes inv: "copy_inv s0 src dst D T s" and src: "pdir_wf src s0" "separate (mem s0) src dst"
    and dpt: "slot_frame (mem s) dst (Table i) = Some dpt" and ij: "64 \<le> i" "i < 1024" "j < 1024"
    and f: "slot_frame (mem s0) src (Page i j) = Some f" and e: "present e"
    and a: "frame_alloc s = Some (np, s1)"
    and s': "s' = s1\<lparr>mem := set_entry dpt j (np OR (e AND 0xFFF)) (kmemcpy (mem s) np f 4096)\<rparr>"
  shows "copy_inv s0 src dst (\<lambda>a b. D a b \<or> a = i \<and> b = j) T s' \<and> slot_frame (mem s') dst (Table i) = Some dpt"
proof -
  note I = copy_invD [OF inv] and F = src_frame [OF src f]
  note A = frame_alloc_correct [OF pdir_wfD(1) [OF I(1)] a] frame_alloc_fields [OF a]
  define m1 where "m1 = kmemcpy (mem s) np f 4096"
  have nf: "np \<noteq> f" using A(4) I(2) [OF F(1,2)] by auto
  have m1: "m1 = copied (mem s) np f 4096" unfolding m1_def by (rule kmemcpy_page [OF A(2) F(1) nf])
  have m1_out: "\<not> in_region np 4096 x \<Longrightarrow> m1 x = mem s x" for x by (simp add: m1 copied_outside)
  note O = pdir_wf_outside [OF I(1) A(2,4) m1_out]
  have dpt1: "slot_frame (mem (s\<lparr>mem := m1\<rparr>)) dst (Table i) = Some dpt" using O(1) dpt by (simp del: slot_frame.simps)
  have slot: "slot_frame (mem s') dst x = (if x = Page i j then Some np else slot_frame (mem s) dst x)" for x
    using slot_frame_new_page [OF O(2) dpt1 ij(1,3), of "np OR (e AND 0xFFF)" x] e A(2) O(1)
    by (simp add: s' m1_def [symmetric] copied_entry del: slot_frame.simps)
  have al: "page_aligned dpt" "owned s dpt" "\<not> owned s0 dpt"
    using slot_frame_aligned [OF pdir_wfD(2) [OF I(1)] dpt] pdir_wfD(4) [OF I(1) dpt] I(5) [OF dpt] ij(1)
    by auto
  have own: "owned s' p \<longleftrightarrow> p = np \<or> owned s p" if "page_aligned p" for p
    using A(5) [OF that] by (simp add: s')
  have wf: "pdir_wf dst s'"
    by (rule pdir_wf_fill [OF I(1) _ A(4,3,2) own slot]) (simp add: s' A(1))
  have mem': "mem s' x = mem s x" if "\<not> in_region np 4096 x" "\<not> in_region dpt 4096 x" for x
    using that ij(3) by (simp add: s' m1_def [symmetric] set_entry_outside m1_out)
  have page: "mem s' x = mem s x" if "page_aligned p" "owned s p" "p \<noteq> dpt" "in_region p 4096 x" for p x
    using that A(4) mem' page_disjointD [OF that(1) A(2) _ that(4)] page_disjointD [OF that(1) al(1) _ that(4)] by metis
  have "np \<noteq> dpt" using al(2) A(4) by auto
  then have "bytes_at (mem s') np 4096 = bytes_at m1 np 4096"
    using ij(3) page_disjointD [OF A(2) al(1)]
    by (intro bytes_at_cong) (auto simp: s' m1_def [symmetric] set_entry_outside)
  also have "\<dots> = bytes_at (mem s) f 4096" by (simp add: m1 bytes_at_copied)
  also have "\<dots> = bytes_at (mem s0) f 4096" using I(3) [OF F] by (intro bytes_at_cong) auto
  finally have new: "page_copied (mem s0) src (mem s') dst i j"
    using f slot [of "Page i j"] by (simp add: page_copied_def del: slot_frame.simps)
  have old: "page_copied (mem s0) src (mem s') dst a b" if "D a b" "\<not> (a = i \<and> b = j)" for a b
  proof (rule page_copied_keep [OF I(6) [OF that(1)]])
    show "slot_frame (mem s') dst (Page a b) = slot_frame (mem s) dst (Page a b)"
      using slot [of "Page a b"] that(2) by (simp del: slot_frame.simps)
    fix g x assume g: "slot_frame (mem s) dst (Page a b) = Some g" "in_region g 4096 x"
    have "g \<noteq> dpt" using pdir_wfD(5) [OF I(1) g(1), of "Table i"] dpt by auto
    then show "mem s' x = mem s x"
      using page [of g x] g slot_frame_aligned [OF pdir_wfD(2) [OF I(1)] g(1)] pdir_wfD(4) [OF I(1) g(1)] by blast
  qed
  have "copy_inv s0 src dst (\<lambda>a b. D a b \<or> a = i \<and> b = j) T s'"
    unfolding copy_inv_def
  proof (intro conjI allI impI)
    fix p x assume p: "page_aligned p" "owned s0 p"
    then show "owned s' p" using own I(2) by blast
    assume "p \<noteq> dst" "in_region p 4096 x"
    then show "mem s' x = mem s0 x" using page [of p x] p I(2,3) al(3) by metis
  next
    fix x g assume x: "slot_frame (mem s') dst x = Some g" "owned s0 g"
    have "page_aligned g" using slot_frame_aligned [OF pdir_wfD(2) [OF wf] x(1)] .
    then have "g \<noteq> np" using A(4) I(2) x(2) by blast
    then show "x = Dir \<or> (\<exists>k<64. x = Table k)" using x slot [of x] I(5) [of x g] by (simp split: if_splits del: slot_frame.simps)
  qed (use wf slot I new old in \<open>auto simp del: slot_frame.simps\<close>)
  then show ?thesis using dpt slot [of "Table i"] by (simp del: slot_frame.simps)
qed

text \<open>The inner loop, over the entries of one table.\<close>

lemma copy_page_step:
  assumes inv: "copy_inv s0 src dst (\<lambda>a b. a < i \<or> a = i \<and> b < j) T s"
    and dpt: "slot_frame (mem s) dst (Table i) = Some dpt"
    and src: "pdir_wf src s0" "separate (mem s0) src dst" "slot_frame (mem s0) src (Table i) = Some spt"
    and ij: "64 \<le> i" "i < 1024" "j < 1024" and run: "copy_page spt dpt j s = Some (go, s')"
  shows "go \<and> copy_inv s0 src dst (\<lambda>a b. a < i \<or> a = i \<and> b < j + 1) T s' \<and>
    slot_frame (mem s') dst (Table i) = Some dpt"
proof -
  have lt: "b < j + 1 \<longleftrightarrow> b < j \<or> b = j" for b
    using unat_plus1_less [OF ij(3)] by (auto simp: word_less_nat_alt word_unat_eq_iff)
  have D: "(\<lambda>a b. a < i \<or> a = i \<and> b < j + 1) = (\<lambda>a b. (a < i \<or> a = i \<and> b < j) \<or> a = i \<and> b = j)"
    by (auto simp: lt fun_eq_iff)
  note pte = src_entry [OF inv src ij(3)]
  have slot: "slot_frame (mem s0) src (Page i j) =
      (if present (entry (mem s0) spt j) then Some (page_base (entry (mem s0) spt j)) else None)"
    using src(3) ij by (auto split: if_splits)
  show ?thesis
  proof (cases "present (entry (mem s0) spt j)")
    case False
    then have "go" "s' = s" using run by (simp_all add: copy_page_def pte)
    moreover have "page_copied (mem s0) src (mem s) dst i j"
      using copy_invD(7) [OF inv, of i j] False slot by (simp add: page_copied_def del: slot_frame.simps)
    then have "copy_inv s0 src dst (\<lambda>a b. (a < i \<or> a = i \<and> b < j) \<or> a = i \<and> b = j) T s"
      by (intro copy_inv_extend [OF inv]) auto
    ultimately show ?thesis using dpt unfolding D by simp
  next
    case True
    with run obtain np s1 where a: "frame_alloc s = Some (np, s1)"
      by (auto simp: copy_page_def pte bind_eq_Some_conv)
    note wf = copy_invD(1) [OF inv]
    note A = frame_alloc_correct [OF pdir_wfD(1) [OF wf] a] frame_alloc_fields [OF a]
    let ?m = "kmemcpy (mem s) np (page_base (entry (mem s0) spt j)) 4096"
    have f: "slot_frame (mem s0) src (Page i j) = Some (page_base (entry (mem s0) spt j))" using slot True by simp
    note F = src_frame [OF src(1,2) f] and S = src_frame [OF src]
    have "np \<noteq> page_base (entry (mem s0) spt j)" "np \<noteq> spt" using A(4) copy_invD(2) [OF inv] F S by auto
    then have ent: "entry ?m spt j = entry (mem s0) spt j"
      using S(1) A(2) page_disjointD [OF S(1) A(2)] ij(3)
      by (subst pte [symmetric], intro entry_cong) (auto simp: kmemcpy_page copied_outside)
    have "go" and s': "s' = s1\<lparr>mem := set_entry dpt j (np OR (entry (mem s0) spt j AND 0xFFF)) ?m\<rparr>"
      using run True a A ent by (auto simp: copy_page_def pte Let_def)
    with copy_page_present [OF inv src(1,2) dpt ij f True a s'] show ?thesis unfolding D by simp
  qed
qed

lemma copy_page_total:
  assumes inv: "copy_inv s0 src dst (\<lambda>a b. a < i \<or> a = i \<and> b < j) T s"
    and src: "pdir_wf src s0" "separate (mem s0) src dst" "slot_frame (mem s0) src (Table i) = Some spt"
    and ij: "64 \<le> i" "i < 1024" "j < 1024"
    and free: "card (pending (mem s0) src (\<lambda>a b. a < i \<or> a = i \<and> b < j) T) \<le> card (free_pages (frames s))"
  shows "\<exists>go s'. copy_page spt dpt j s = Some (go, s') \<and>
    card (pending (mem s0) src (\<lambda>a b. a < i \<or> a = i \<and> b < j + 1) T) \<le> card (free_pages (frames s'))"
proof -
  have lt: "b < j + 1 \<longleftrightarrow> b < j \<or> b = j" for b
    using unat_plus1_less [OF ij(3)] by (auto simp: word_less_nat_alt word_unat_eq_iff)
  note pte = src_entry [OF inv src ij(3)]
  have slot: "slot_frame (mem s0) src (Page i j) =
      (if present (entry (mem s0) spt j) then Some (page_base (entry (mem s0) spt j)) else None)"
    using src(3) ij by (auto split: if_splits)
  let ?N = "pending (mem s0) src (\<lambda>a b. a < i \<or> a = i \<and> b < j) T"
  let ?N' = "pending (mem s0) src (\<lambda>a b. a < i \<or> a = i \<and> b < j + 1) T"
  have N': "?N' = ?N - {Page i j}"
    by (auto simp: pending_def lt simp del: slot_frame.simps split: slot.splits)
  show ?thesis
  proof (cases "present (entry (mem s0) spt j)")
    case False
    then have "Page i j \<notin> ?N" using slot by (simp add: pending_def del: slot_frame.simps)
    then have "?N' = ?N" using N' by simp
    with False free show ?thesis by (auto simp: copy_page_def pte)
  next
    case True
    then have "Page i j \<in> ?N" using slot by (simp add: pending_def del: slot_frame.simps)
    from pending_take [OF this N' free pdir_wfD(1) [OF copy_invD(1) [OF inv]]] True
    show ?thesis by (auto simp: copy_page_def pte Let_def)
  qed
qed

lemma copy_pages:
  assumes inv: "copy_inv s0 src dst (\<lambda>a b. a < i) T s"
    and dpt: "slot_frame (mem s) dst (Table i) = Some dpt"
    and src: "pdir_wf src s0" "separate (mem s0) src dst" "slot_frame (mem s0) src (Table i) = Some spt"
    and i: "64 \<le> i" "i < 1024"
    and free: "card (pending (mem s0) src (\<lambda>a b. a < i) T) \<le> card (free_pages (frames s))"
  shows "\<exists>s'. loop_u32 (copy_page spt dpt) 0 1024 s = Some (True, s') \<and>
    copy_inv s0 src dst (\<lambda>a b. a \<le> i) T s' \<and>
    card (pending (mem s0) src (\<lambda>a b. a \<le> i) T) \<le> card (free_pages (frames s'))"
proof -
  let ?D = "\<lambda>j a b. a < i \<or> a = i \<and> b < j"
  let ?P = "\<lambda>j s. copy_inv s0 src dst (?D j) T s \<and> slot_frame (mem s) dst (Table i) = Some dpt \<and>
    card (pending (mem s0) src (?D j) T) \<le> card (free_pages (frames s))"
  have start: "?P 0 s" using inv dpt free by (simp del: slot_frame.simps)
  have step: "\<exists>s'. copy_page spt dpt j t = Some (True, s') \<and> ?P (j + 1) s'" if "?P j t" "j < 1024" for j t
  proof -
    have P: "copy_inv s0 src dst (?D j) T t" "slot_frame (mem t) dst (Table i) = Some dpt"
      "card (pending (mem s0) src (?D j) T) \<le> card (free_pages (frames t))" using that(1) by auto
    from copy_page_total [OF P(1) src i that(2) P(3)] obtain go t' where t': "copy_page spt dpt j t = Some (go, t')"
      "card (pending (mem s0) src (?D (j + 1)) T) \<le> card (free_pages (frames t'))" by blast
    from copy_page_step [OF P(1,2) src i that(2) t'(1)] t' show ?thesis by (simp del: slot_frame.simps)
  qed
  have "\<exists>s'. loop_u32 (copy_page spt dpt) 0 1024 s = Some (True, s') \<and> ?P 1024 s'"
    by (rule loop_u32_total [of ?P, OF start _ step]) simp_all
  then obtain s' where s': "loop_u32 (copy_page spt dpt) 0 1024 s = Some (True, s')"
    and inv': "copy_inv s0 src dst (?D 1024) T s'"
    and free': "card (pending (mem s0) src (?D 1024) T) \<le> card (free_pages (frames s'))" by auto
  have "page_copied (mem s0) src (mem s') dst i b" if "\<not> b < 1024" for b
    using that by (simp add: page_copied_def)
  then have "copy_inv s0 src dst (\<lambda>a b. a \<le> i) T s'"
    by (intro copy_inv_extend [OF inv']) (auto simp: le_less)
  moreover have "pending (mem s0) src (?D 1024) T = pending (mem s0) src (\<lambda>a b. a \<le> i) T"
    by (auto simp: pending_def le_less split: slot.splits)
  ultimately show ?thesis using s' free' by auto
qed

text \<open>The outer loop, over the directory entries of the user half.\<close>

lemma copy_table_new:
  assumes inv: "copy_inv s0 src dst (\<lambda>a b. a < i) (\<lambda>a. a < i) s" and i: "64 \<le> i" "i < 1024"
    and a: "frame_alloc s = Some (npt, s1)" and e: "present e"
    and s': "s' = s1\<lparr>mem := set_entry dst i (npt OR (e AND 0xFFF)) (kmemset (mem s) npt 0 4096)\<rparr>"
  shows "copy_inv s0 src dst (\<lambda>a b. a < i) (\<lambda>a. a \<le> i) s'" "slot_frame (mem s') dst (Table i) = Some npt"
proof -
  note I = copy_invD [OF inv]
  note A = frame_alloc_correct [OF pdir_wfD(1) [OF I(1)] a] frame_alloc_fields [OF a]
  note al = pdir_wfD(2) [OF I(1)]
  have "owned s dst" using pdir_wfD(4) [OF I(1), of Dir] by simp
  then have nd: "npt \<noteq> dst" using A(4) by auto
  have "\<not> present (entry (mem s) dst i)" using I(8) [OF i(1)] i(2) by (auto split: if_splits)
  then have slot: "slot_frame (mem s') dst x = (if x = Table i then Some npt else slot_frame (mem s) dst x)" for x
    by (rule slot_frame_new_table [OF I(1) i(2) _ A(4,2), where e = "npt OR (e AND 0xFFF)"])
      (use A(2) al nd i(2) e in \<open>simp_all add: s' entry_simps present_def [of 0]\<close>)
  have own: "owned s' p \<longleftrightarrow> p = npt \<or> owned s p" if "page_aligned p" for p
    using A(5) [OF that] by (simp add: s')
  have wf: "pdir_wf dst s'"
    by (rule pdir_wf_fill [OF I(1) _ A(4,3,2) own slot]) (simp add: s' A(1))
  have page: "mem s' x = mem s x" if "page_aligned p" "owned s p" "p \<noteq> dst" "in_region p 4096 x" for p x
  proof -
    have "\<not> in_region npt 4096 x" "\<not> in_region dst 4096 x"
      using that A(4) page_disjointD [OF that(1) A(2) _ that(4)] page_disjointD [OF that(1) al _ that(4)] by auto
    then show ?thesis using i(2) by (simp add: s' set_entry_outside kmemset_page_outside)
  qed
  have old: "page_copied (mem s0) src (mem s') dst a b" if "a < i" for a b
  proof (rule page_copied_keep [OF I(6) [OF that]])
    show "slot_frame (mem s') dst (Page a b) = slot_frame (mem s) dst (Page a b)"
      using slot [of "Page a b"] by (simp del: slot_frame.simps)
    fix g x assume g: "slot_frame (mem s) dst (Page a b) = Some g" "in_region g 4096 x"
    have "g \<noteq> dst" using pdir_wfD(5) [OF I(1) g(1), of Dir] by auto
    then show "mem s' x = mem s x"
      using page [of g x] g slot_frame_aligned [OF al g(1)] pdir_wfD(4) [OF I(1) g(1)] by blast
  qed
  show "copy_inv s0 src dst (\<lambda>a b. a < i) (\<lambda>a. a \<le> i) s'"
    unfolding copy_inv_def
  proof (intro conjI allI impI)
    fix p x assume p: "page_aligned p" "owned s0 p"
    then show "owned s' p" using own I(2) by blast
    assume "p \<noteq> dst" "in_region p 4096 x"
    then show "mem s' x = mem s0 x" using page [of p x] p I(2,3) by metis
  next
    fix x g assume x: "slot_frame (mem s') dst x = Some g" "owned s0 g"
    have "page_aligned g" using slot_frame_aligned [OF al x(1)] .
    then have "g \<noteq> npt" using A(4) I(2) x(2) by blast
    then show "x = Dir \<or> (\<exists>k<64. x = Table k)"
      using x slot [of x] I(5) [of x g] by (simp split: if_splits del: slot_frame.simps)
  qed (use wf slot I old i in \<open>auto simp del: slot_frame.simps\<close>)
  show "slot_frame (mem s') dst (Table i) = Some npt" using slot [of "Table i"] by (simp del: slot_frame.simps)
qed

lemma copy_table_step:
  assumes inv: "copy_inv s0 src dst (\<lambda>a b. a < i) (\<lambda>a. a < i) s"
    and src: "pdir_wf src s0" "separate (mem s0) src dst" and i: "64 \<le> i" "i < 1024"
    and free: "card (pending (mem s0) src (\<lambda>a b. a < i) (\<lambda>a. a < i)) \<le> card (free_pages (frames s))"
  shows "\<exists>s'. copy_table dst src i s = Some (True, s') \<and>
    copy_inv s0 src dst (\<lambda>a b. a < i + 1) (\<lambda>a. a < i + 1) s' \<and>
    card (pending (mem s0) src (\<lambda>a b. a < i + 1) (\<lambda>a. a < i + 1)) \<le> card (free_pages (frames s'))"
proof -
  have lt: "a < i + 1 \<longleftrightarrow> a \<le> i" for a
    using unat_plus1_less [OF i(2)] by (auto simp: word_less_nat_alt word_le_nat_alt)
  have dir: "slot_frame (mem s0) src Dir = Some src" by simp
  note pde = src_entry [OF inv src dir i(2)]
  let ?N = "pending (mem s0) src"
  show ?thesis
  proof (cases "present (entry (mem s0) src i)")
    case False
    have "page_copied (mem s0) src (mem s) dst i b" for b
      using copy_invD(7) [OF inv, of i b] False by (simp add: page_copied_def)
    then have "copy_inv s0 src dst (\<lambda>a b. a \<le> i) (\<lambda>a. a \<le> i) s"
      by (intro copy_inv_extend [OF inv]) (auto simp: le_less)
    moreover have "?N (\<lambda>a b. a \<le> i) (\<lambda>a. a \<le> i) = ?N (\<lambda>a b. a < i) (\<lambda>a. a < i)"
      using False by (auto simp: pending_def le_less split: slot.splits if_splits)
    ultimately show ?thesis using False free by (simp add: lt copy_table_def pde)
  next
    case True
    note wf = copy_invD(1) [OF inv]
    have "Table i \<in> ?N (\<lambda>a b. a < i) (\<lambda>a. a < i)" using True i by (simp add: pending_def)
    moreover have "?N (\<lambda>a b. a < i) (\<lambda>a. a \<le> i) = ?N (\<lambda>a b. a < i) (\<lambda>a. a < i) - {Table i}"
      by (auto simp: pending_def le_less simp del: slot_frame.simps split: slot.splits)
    ultimately obtain npt s1 where a: "frame_alloc s = Some (npt, s1)" "npt \<noteq> 0"
      and free1: "card (?N (\<lambda>a b. a < i) (\<lambda>a. a \<le> i)) \<le> card (free_pages (frames s1))"
      using pending_take [OF _ _ free pdir_wfD(1) [OF wf]] by metis
    note A = frame_alloc_correct [OF pdir_wfD(1) [OF wf] a(1)] frame_alloc_fields [OF a(1)]
    note S = src_frame [OF src dir]
    have "npt \<noteq> src" using A(4) copy_invD(2) [OF inv] S by auto
    then have ent: "entry (kmemset (mem s) npt 0 4096) src i = entry (mem s0) src i"
      using S(1) A(2) i(2) by (simp add: entry_kmemset pde)
    define s2 where
      "s2 = s1\<lparr>mem := set_entry dst i (npt OR (entry (mem s0) src i AND 0xFFF)) (kmemset (mem s) npt 0 4096)\<rparr>"
    have run: "copy_table dst src i s =
        loop_u32 (copy_page (page_base (entry (mem s0) src i)) npt) 0 1024 s2"
      using True a A ent by (simp add: copy_table_def pde s2_def Let_def)
    have spt: "slot_frame (mem s0) src (Table i) = Some (page_base (entry (mem s0) src i))" using True i by simp
    have free2: "card (?N (\<lambda>a b. a < i) (\<lambda>a. a \<le> i)) \<le> card (free_pages (frames s2))"
      using free1 by (simp add: s2_def)
    from copy_pages [OF copy_table_new [OF inv i a(1) True s2_def] src spt i free2] show ?thesis
      by (simp add: lt run)
  qed
qed

lemma copy_inv_start:
  assumes "pdir_wf dst s" and empty: "\<And>a. 64 \<le> a \<Longrightarrow> slot_frame (mem s) dst (Table a) = None"
  shows "copy_inv s src dst (\<lambda>a b. a < 64) (\<lambda>a. a < 64) s"
proof -
  have np: "\<not> present (entry (mem s) dst a)" if "64 \<le> a" "a < 1024" for a
    using empty [OF that(1)] that(2) by (auto split: if_splits)
  then have page: "slot_frame (mem s) dst (Page a b) = None" for a b by auto
  have "page_copied (mem s) src (mem s) dst a b" if "a < 64" for a b
  proof -
    have "\<not> 64 \<le> a" using that by (simp add: not_le)
    then show ?thesis by (simp add: page_copied_def)
  qed
  moreover have "x = Dir \<or> (\<exists>k<64. x = Table k)" if "slot_frame (mem s) dst x = Some f" for x f
  proof (cases x)
    case (Table k)
    then show ?thesis using that empty [of k] by (cases "64 \<le> k") (auto simp: not_le)
  qed (use that page in auto)
  ultimately show ?thesis using assms page unfolding copy_inv_def by (auto simp del: slot_frame.simps)
qed

lemma copy_inv_src:
  assumes src: "pdir_wf src s" "separate (mem s) src dst" and inv: "copy_inv s src dst D T s'"
  shows "slot_frame (mem s') src x = slot_frame (mem s) src x" "vmm_phys src v s' = vmm_phys src v s"
    "pdir_wf src s'" "separate (mem s') src dst"
proof -
  note I = copy_invD [OF inv] and F = src_frame [OF src] and D = pdir_wfD [OF src(1)]
  have page: "mem s' a = mem s a" if "slot_frame (mem s) src y = Some f" "in_region f 4096 a" for y f a
    using I(3) [OF F [OF that(1)] that(2)] .
  have dir: "in_region src 4096 a \<Longrightarrow> mem s' a = mem s a" for a using page [of Dir src a] by simp
  show same: "slot_frame (mem s') src x = slot_frame (mem s) src x" for x
    by (rule translation_unchanged(1) [OF D(2)]) (use dir page in blast)+
  show "vmm_phys src v s' = vmm_phys src v s"
    by (rule translation_unchanged(2) [where m' = "mem s'", OF D(2)]) (use dir page in blast)+
  have "owned s' f" if "slot_frame (mem s) src y = Some f" for y f using I(2) F [OF that] by blast
  then show "pdir_wf src s'"
    using src(1) pdir_wfD(1) [OF I(1)] by (simp add: pdir_wf_def same del: slot_frame.simps)
  show "separate (mem s') src dst"
    unfolding separate_def same
  proof (intro allI impI)
    fix x y f assume x: "slot_frame (mem s) src x = Some f" and y: "slot_frame (mem s') dst y = Some f"
    from I(5) [OF y F(2) [OF x]] F(3) [OF x] y obtain k where k: "k < 64" "y = Table k" by auto
    then have "slot_frame (mem s) dst y = Some f" using I(4) [OF k(1)] y by (simp del: slot_frame.simps)
    from separateD [OF src(2) x this] show "\<exists>k<64. x = Table k \<and> y = Table k" .
  qed
qed

lemma copy_inv_user:
  assumes src: "pdir_wf src s" "separate (mem s) src dst"
    and inv: "copy_inv s src dst (\<lambda>a b. a < 1024) T s'" and v: "v \<ge> 0x10000000"
  shows "vmm_page_present dst v s' = vmm_page_present src v s"
    "vmm_page_present src v s \<Longrightarrow> mem s' (vmm_phys dst v s') = mem s (vmm_phys src v s)"
    "vmm_page_present src v s \<Longrightarrow> mem s' (vmm_phys src v s) = mem s (vmm_phys src v s)"
proof -
  note I = copy_invD [OF inv]
  let ?p = "Page (pd_index v) (pt_index v)" and ?o = "v AND 0xFFF"
  have "?o \<le> 0xFFF" by (rule word_and_le1)
  then have o: "?o = of_nat (unat ?o)" "unat ?o < 4096" by (simp_all add: word_le_nat_alt)
  have pc: "page_copied (mem s) src (mem s') dst (pd_index v) (pt_index v)" by (rule I(6)) simp
  have *: "vmm_page_present dst v s' \<and> vmm_page_present src v s \<and>
      mem s' (vmm_phys dst v s') = mem s (vmm_phys src v s) \<and> mem s' (vmm_phys src v s) = mem s (vmm_phys src v s)"
    if f: "slot_frame (mem s) src ?p = Some f" for f
  proof -
    from pc f obtain g where g: "slot_frame (mem s') dst ?p = Some g" "bytes_at (mem s') g 4096 = bytes_at (mem s) f 4096"
      by (auto simp: page_copied_def simp del: slot_frame.simps)
    note F = src_frame [OF src f]
    have nz: "g \<noteq> 0" "page_aligned g" "f \<noteq> 0"
      using pdir_wfD(4) [OF I(1) g(1)] slot_frame_aligned [OF pdir_wfD(2) [OF I(1)] g(1)] pdir_wfD(4) [OF src(1) f] by auto
    have "mem s' (g + of_nat (unat ?o)) = mem s (f + of_nat (unat ?o))"
      using arg_cong [OF g(2), of "\<lambda>l. l ! unat ?o"] o(2) by simp
    then have "mem s' (g + ?o) = mem s (f + ?o)" by (simp flip: o(1))
    moreover have "mem s' (f + ?o) = mem s (f + ?o)"
      by (rule I(3) [OF F]) (simp add: page_offset_nonzero F nz)
    ultimately show ?thesis
      using v f g(1) nz F(1) by (simp add: vmm_page_present_def vmm_phys_slot page_offset_nonzero del: slot_frame.simps)
  qed
  have none: "\<not> vmm_page_present dst v s' \<and> \<not> vmm_page_present src v s" if "slot_frame (mem s) src ?p = None"
    using pc that v by (simp add: page_copied_def vmm_page_present_def vmm_phys_slot del: slot_frame.simps)
  show "vmm_page_present dst v s' = vmm_page_present src v s"
    "vmm_page_present src v s \<Longrightarrow> mem s' (vmm_phys dst v s') = mem s (vmm_phys src v s)"
    "vmm_page_present src v s \<Longrightarrow> mem s' (vmm_phys src v s) = mem s (vmm_phys src v s)"
    using * none by (cases "slot_frame (mem s) src ?p"; blast)+
qed

text \<open>The user pages and page tables of a directory.\<close>

definition user_slots :: "memory \<Rightarrow> u32 \<Rightarrow> slot set" where
  "user_slots m src = {x. slot_frame m src x \<noteq> None \<and> (case x of Dir \<Rightarrow> False | Table a \<Rightarrow> 64 \<le> a | Page a b \<Rightarrow> True)}"

text \<open>
  (C10) Fork copies the address space. When \<open>dst\<close> is a fresh directory (no user mapping) that shares
  only kernel tables with \<open>src\<close>, and there is a free page for each user page and user page table of
  \<open>src\<close>, \<open>vmm_copy_pdir\<close> returns; it has mapped in \<open>dst\<close> exactly the user pages mapped in \<open>src\<close>, each
  backed by a page of its own with the same bytes; \<open>src\<close> keeps its translation and contents, both
  directories are well-formed, and they still share nothing but kernel tables.
\<close>

theorem vmm_copy_pdir_correct:
  assumes "pdir_wf src s" "pdir_wf dst s" "separate (mem s) src dst"
    and "\<And>a. 64 \<le> a \<Longrightarrow> slot_frame (mem s) dst (Table a) = None"
    and "card (user_slots (mem s) src) \<le> card (free_pages (frames s))"
  shows "\<exists>s'. vmm_copy_pdir dst src s = Some s' \<and>
    pdir_wf src s' \<and> pdir_wf dst s' \<and> separate (mem s') src dst \<and>
    (\<forall>v \<ge> 0x10000000.
       vmm_page_present dst v s' = vmm_page_present src v s \<and>
       vmm_phys src v s' = vmm_phys src v s \<and>
       (vmm_page_present src v s \<longrightarrow>
          mem s' (vmm_phys dst v s') = mem s (vmm_phys src v s) \<and>
          mem s' (vmm_phys src v s') = mem s (vmm_phys src v s)))"
proof -
  let ?P = "\<lambda>i t. 64 \<le> i \<and> copy_inv s src dst (\<lambda>a b. a < i) (\<lambda>a. a < i) t \<and>
    card (pending (mem s) src (\<lambda>a b. a < i) (\<lambda>a. a < i)) \<le> card (free_pages (frames t))"
  have step: "\<exists>t'. copy_table dst src i t = Some (True, t') \<and> ?P (i + 1) t'"
    if "?P i t" "i < PDIR_ENTRIES" for i t
  proof -
    have i: "64 \<le> i" "i < 1024" using that by (simp_all add: PDIR_ENTRIES_def)
    then have "64 \<le> i + 1" using unat_plus1_less [OF i(2)] by (simp add: word_le_nat_alt)
    moreover from that(1) have "copy_inv s src dst (\<lambda>a b. a < i) (\<lambda>a. a < i) t"
      "card (pending (mem s) src (\<lambda>a b. a < i) (\<lambda>a. a < i)) \<le> card (free_pages (frames t))" by simp_all
    note copy_table_step [OF this(1) assms(1,3) i this(2)]
    ultimately show ?thesis by simp
  qed
  have "pending (mem s) src (\<lambda>a b. a < 64) (\<lambda>a. a < 64) \<subseteq> user_slots (mem s) src"
    by (auto simp: pending_def user_slots_def simp del: slot_frame.simps split: slot.splits)
  from le_trans [OF card_mono [OF finite_slots this] assms(5)] have start: "?P KERNEL_PDES s" using copy_inv_start [OF assms(2,4)] by (simp add: KERNEL_PDES_def)
  have "\<exists>s'. loop_u32 (copy_table dst src) KERNEL_PDES PDIR_ENTRIES s = Some (True, s') \<and> ?P PDIR_ENTRIES s'"
    by (rule loop_u32_total [of ?P, OF start _ step]) (simp_all add: KERNEL_PDES_def PDIR_ENTRIES_def)
  then obtain s' where run: "loop_u32 (copy_table dst src) KERNEL_PDES PDIR_ENTRIES s = Some (True, s')"
    and inv: "copy_inv s src dst (\<lambda>a b. a < 1024) (\<lambda>a. a < 1024) s'" by (auto simp: PDIR_ENTRIES_def)
  show ?thesis
  proof (intro exI [of _ s'] conjI allI impI)
    show "vmm_copy_pdir dst src s = Some s'" using run by (simp add: vmm_copy_pdir_def)
    note R = copy_inv_src [OF assms(1,3) inv] copy_invD(1) [OF inv] and U = copy_inv_user [OF assms(1,3) inv]
    show "pdir_wf src s'" "pdir_wf dst s'" "separate (mem s') src dst" by (fact R)+
    fix v :: u32 assume "v \<ge> 0x10000000"
    note U = U [OF this]
    show "vmm_page_present dst v s' = vmm_page_present src v s" "vmm_phys src v s' = vmm_phys src v s"
      by (fact U R)+
    assume "vmm_page_present src v s"
    then show "mem s' (vmm_phys dst v s') = mem s (vmm_phys src v s)"
      "mem s' (vmm_phys src v s') = mem s (vmm_phys src v s)" using U R(2) by simp_all
  qed
qed

lemma boot_example_wf:
  "pdir_wf 0x100000 boot_example" "pdir_wf 0x101000 boot_example" "separate (mem boot_example) 0x100000 0x101000"
  "slot_frame (mem boot_example) t x = (if x = Dir then Some t else None)"
proof -
  have ent: "entry (mem boot_example) t i = 0" for t i
    by (simp add: boot_example_def entry_def ld32_def bytes_u32_def)
  then have slot: "slot_frame (mem boot_example) t x = (if x = Dir then Some t else None)" for t x
    by (cases x) (simp_all add: present_def)
  have "owned boot_example 0x101000"
    using page_owned_used [of 257 "frames boot_example"] boot_example_used [of 257] by (simp add: PAGE_SIZE_def)
  then show "pdir_wf 0x100000 boot_example" "pdir_wf 0x101000 boot_example"
    using boot_example_ready(1,3) by (simp_all add: pdir_wf_def slot page_aligned_def)
  show "separate (mem boot_example) 0x100000 0x101000" by (simp add: separate_def slot)
  show "slot_frame (mem boot_example) t x = (if x = Dir then Some t else None)" by (rule slot)
qed

lemma boot_example_alloc:
  obtains s1 pt f where "vmm_alloc_at 0x100000 0x10000000 boot_example = Some (0x10000000, s1)"
    "alloc_at_post 0x100000 0x10000000 boot_example pt f s1" "2 \<le> card (free_pages (frames s1))"
proof -
  have "\<not> page_used (frames boot_example) 1" "\<not> page_used (frames boot_example) 2"
    using boot_example_used [of 1] boot_example_used [of 2] by simp_all
  then obtain r s1 where run: "vmm_alloc_at 0x100000 0x10000000 boot_example = Some (r, s1)"
    using vmm_alloc_at_returns [OF boot_example_wf(1), of 1 2 "0x10000000"] by auto
  then obtain pt f where r: "r = 0x10000000" and post: "alloc_at_post 0x100000 0x10000000 boot_example pt f s1"
    using vmm_alloc_at_effect [OF boot_example_wf(1) _ run] by (auto simp: boot_example_wf(4) simp del: slot_frame.simps)
  have "free_pages (frames boot_example) - {f div 4096, pt div 4096} \<subseteq> free_pages (frames s1)"
  proof
    fix i assume i: "i \<in> free_pages (frames boot_example) - {f div 4096, pt div 4096}"
    then have lt: "i < pmm_total" by (simp add: free_pages_def)
    note N = page_number [OF total_page [OF lt]]
    have "i * PAGE_SIZE \<noteq> f" "i * PAGE_SIZE \<noteq> pt" using i N(3) by (auto simp: PAGE_SIZE_def)
    then have "owned s1 (i * PAGE_SIZE) \<longleftrightarrow> owned boot_example (i * PAGE_SIZE)"
      using post N(2) by (simp add: alloc_at_post_def PAGE_SIZE_def)
    with i lt show "i \<in> free_pages (frames s1)" by (simp add: page_owned_used [OF lt] free_pages_def)
  qed
  then have "card (free_pages (frames boot_example) - {f div 4096, pt div 4096}) \<le> card (free_pages (frames s1))"
    by (rule card_mono [rotated]) simp
  moreover have "card (free_pages (frames boot_example)) - card {f div 4096, pt div 4096} \<le>
      card (free_pages (frames boot_example) - {f div 4096, pt div 4096})"
    by (rule diff_card_le_card_Diff) simp
  moreover have "card {f div 4096, pt div 4096} \<le> 2" by (simp add: card_insert_if)
  ultimately have "2 \<le> card (free_pages (frames s1))" using boot_example_ready(2) by linarith
  with that run r post show thesis by blast
qed

theorem vmm_copy_pdir_correct_witness:
  "\<exists>s1 s2. vmm_alloc_at 0x100000 0x10000000 boot_example = Some (0x10000000, s1) \<and>
     vmm_copy_pdir 0x101000 0x100000 s1 = Some s2 \<and> vmm_page_present 0x101000 0x10000000 s2 \<and>
     separate (mem s2) 0x100000 0x101000"
proof -
  obtain s1 pt f where run: "vmm_alloc_at 0x100000 0x10000000 boot_example = Some (0x10000000, s1)"
    and post: "alloc_at_post 0x100000 0x10000000 boot_example pt f s1" and free: "2 \<le> card (free_pages (frames s1))"
    by (rule boot_example_alloc)
  note iso = alloc_at_isolation [OF post _ boot_example_wf(1,2,3)]
  have dst: "slot_frame (mem s1) 0x101000 x = slot_frame (mem boot_example) 0x101000 x" for x
  proof (rule translation_unchanged(1) [where s = boot_example and m' = "mem s1"])
    show "mem s1 a = mem boot_example a" if "in_region 0x101000 4096 a" for a
      using iso [of Dir "0x101000" a] that by simp
  qed (use boot_example_wf(4) in \<open>simp_all add: page_aligned_def del: slot_frame.simps\<close>)
  have wf: "pdir_wf 0x100000 s1" and page: "vmm_page_present 0x100000 0x10000000 s1"
    using post by (auto simp: alloc_at_post_def vmm_page_present_def vmm_phys_slot simp del: slot_frame.simps)
  have "user_slots (mem s1) 0x100000 \<subseteq> {Table (pd_index 0x10000000), Page (pd_index 0x10000000) (pt_index 0x10000000)}"
  proof
    fix x assume "x \<in> user_slots (mem s1) 0x100000"
    then have x: "slot_frame (mem s1) 0x100000 x \<noteq> None" "x \<noteq> Dir" by (auto simp: user_slots_def)
    have "slot_frame (mem s1) 0x100000 x = None"
      if "x \<noteq> Table (pd_index 0x10000000)" "x \<noteq> Page (pd_index 0x10000000) (pt_index 0x10000000)"
      using that x(2) post boot_example_wf(4) [of "0x100000" x] by (simp add: alloc_at_post_def del: slot_frame.simps)
    with x(1) show "x \<in> {Table (pd_index 0x10000000), Page (pd_index 0x10000000) (pt_index 0x10000000)}"
      by (metis insertCI)
  qed
  then have "card (user_slots (mem s1) 0x100000) \<le> 2" by (auto dest: card_mono [rotated])
  with free have "card (user_slots (mem s1) 0x100000) \<le> card (free_pages (frames s1))" by simp
  note C = vmm_copy_pdir_correct [OF wf separate_after_alloc(2,1) [OF post boot_example_wf(2,3) dst] _ this]
  show ?thesis using C page run by (auto simp: dst boot_example_wf(4) simp del: slot_frame.simps)
qed

section \<open>Destroying an address space\<close>

text \<open>\<open>freed s S t\<close>: \<open>t\<close> is \<open>s\<close> with the pages of \<open>S\<close> released.\<close>

definition freed :: "machine \<Rightarrow> u32 set \<Rightarrow> machine \<Rightarrow> bool" where
  "freed s S t \<longleftrightarrow> mem t = mem s \<and> pmm_inv (frames t) \<and>
     (\<forall>p. page_aligned p \<longrightarrow> (owned t p \<longleftrightarrow> owned s p \<and> p \<notin> S))"

lemma freed_step:
  assumes "freed s S t" "page_aligned a" "a \<noteq> 0"
  shows "freed s (insert a S) (frame_free a t)"
  using assms frame_free_correct [of t a] by (auto simp: freed_def)

lemma destroy_pages_freed:
  assumes start: "freed s S t"
    and pages: "\<And>j. j < 1024 \<Longrightarrow> present (entry (mem s) pt j) \<Longrightarrow> page_base (entry (mem s) pt j) \<noteq> 0"
  shows "freed s (S \<union> {page_base (entry (mem s) pt j) | j. j < 1024 \<and> present (entry (mem s) pt j)}) (destroy_pages pt t)"
proof -
  let ?S = "\<lambda>i. S \<union> {page_base (entry (mem s) pt j) | j. j < i \<and> present (entry (mem s) pt j)}"
  let ?f = "\<lambda>j u. if present (entry (mem u) pt j) then frame_free (page_base (entry (mem u) pt j)) u else u"
  have step: "freed s (?S (i + 1)) (?f i u)" if u: "freed s (?S i) u" and i: "i < 1024" for i u
  proof -
    have lt: "j < i + 1 \<longleftrightarrow> j < i \<or> j = i" for j
      using unat_plus1_less [OF i] by (auto simp: word_less_nat_alt word_unat_eq_iff)
    have m: "mem u = mem s" using u by (simp add: freed_def)
    show ?thesis
    proof (cases "present (entry (mem s) pt i)")
      case True
      then have "?S (i + 1) = insert (page_base (entry (mem s) pt i)) (?S i)" by (auto simp: lt)
      with freed_step [OF u page_base_aligned pages [OF i True]] True show ?thesis by (simp add: m)
    next
      case False
      then have "?S (i + 1) = ?S i" by (auto simp: lt)
      with False u show ?thesis by (simp add: m)
    qed
  qed
  have "freed s (?S 1024) (for_u32 ?f 0 1024 t)"
    by (rule for_u32_index_rule [of "\<lambda>i. freed s (?S i)"]) (use start step in auto)
  then show ?thesis by (simp add: destroy_pages_def)
qed

definition slots_below :: "memory \<Rightarrow> u32 \<Rightarrow> u32 \<Rightarrow> u32 set" where
  "slots_below m pdir i = {f. \<exists>a. 64 \<le> a \<and> a < i \<and>
     (slot_frame m pdir (Table a) = Some f \<or> (\<exists>b. slot_frame m pdir (Page a b) = Some f))}"

lemma destroy_table_freed:
  assumes wf: "pdir_wf pdir s" and t: "freed s (slots_below (mem s) pdir i) t" and i: "64 \<le> i" "i < 1024"
  shows "freed s (slots_below (mem s) pdir (i + 1)) (destroy_table pdir i t)"
proof -
  have lt: "j < i + 1 \<longleftrightarrow> j < i \<or> j = i" for j
    using unat_plus1_less [OF i(2)] by (auto simp: word_less_nat_alt word_unat_eq_iff)
  have m: "mem t = mem s" using t by (simp add: freed_def)
  let ?e = "entry (mem s) pdir i"
  let ?P = "{page_base (entry (mem s) (page_base ?e) j) | j. j < 1024 \<and> present (entry (mem s) (page_base ?e) j)}"
  have B: "slots_below (mem s) pdir (i + 1) = slots_below (mem s) pdir i \<union>
      {f. slot_frame (mem s) pdir (Table i) = Some f \<or> (\<exists>b. slot_frame (mem s) pdir (Page i b) = Some f)}"
    unfolding slots_below_def lt using i(1) by blast
  show ?thesis
  proof (cases "present ?e")
    case False
    with t show ?thesis by (simp add: B destroy_table_def m)
  next
    case True
    have pages: "page_base (entry (mem s) (page_base ?e) j) \<noteq> 0"
      if "j < 1024" "present (entry (mem s) (page_base ?e) j)" for j
      using pdir_wfD(4) [OF wf, of "Page i j"] that True i by simp
    have "slots_below (mem s) pdir (i + 1) = insert (page_base ?e) (slots_below (mem s) pdir i \<union> ?P)"
      unfolding B using True i by auto
    moreover have "page_base ?e \<noteq> 0" using table_frame(2) [OF wf i(2) True] .
    ultimately show ?thesis
      using freed_step [OF destroy_pages_freed [OF t pages] page_base_aligned [of ?e]] True
      by (simp add: destroy_table_def m Let_def)
  qed
qed

text \<open>
  (C15) Destroying an address space releases exactly its own pages: the directory, its user page
  tables and its user pages. The kernel tables and every other page stay in use, memory is not
  written, and every directory separate from the destroyed one stays well-formed.
\<close>

theorem vmm_destroy_pdir_correct:
  assumes "pdir_wf pdir s" "pdir_wf q s" "separate (mem s) pdir q"
  shows "(\<forall>p. page_aligned p \<longrightarrow> (owned (vmm_destroy_pdir pdir s) p \<longleftrightarrow>
      owned s p \<and> \<not> (\<exists>x. slot_frame (mem s) pdir x = Some p \<and> (\<forall>k<64. x \<noteq> Table k)))) \<and>
    mem (vmm_destroy_pdir pdir s) = mem s \<and> pdir_wf q (vmm_destroy_pdir pdir s)"
proof -
  let ?P = "\<lambda>i. freed s (slots_below (mem s) pdir i)" and ?s' = "vmm_destroy_pdir pdir s"
  note D = pdir_wfD [OF assms(1)]
  have "slots_below (mem s) pdir 64 = {}" by (auto simp: slots_below_def word_le_nat_alt word_less_nat_alt)
  then have start: "?P 64 s" using D(1) by (simp add: freed_def)
  have step: "?P (i + 1) (destroy_table pdir i t)" if "?P i t" "64 \<le> i" "i < 1024" for i t
    using destroy_table_freed [OF assms(1) that] .
  have "?P 1024 (for_u32 (destroy_table pdir) 64 1024 s)"
    by (rule for_u32_index_rule [of ?P, OF start _ step]) simp_all
  from freed_step [OF this D(2,3)] have F: "freed s (insert pdir (slots_below (mem s) pdir 1024)) ?s'"
    by (simp add: vmm_destroy_pdir_def KERNEL_PDES_def PDIR_ENTRIES_def)
  have S: "p \<in> insert pdir (slots_below (mem s) pdir 1024) \<longleftrightarrow>
      (\<exists>x. slot_frame (mem s) pdir x = Some p \<and> (\<forall>k<64. x \<noteq> Table k))" for p
  proof
    assume "p \<in> insert pdir (slots_below (mem s) pdir 1024)"
    then consider "slot_frame (mem s) pdir Dir = Some p"
      | a where "64 \<le> a" "slot_frame (mem s) pdir (Table a) = Some p"
      | a b where "slot_frame (mem s) pdir (Page a b) = Some p"
      unfolding slots_below_def by (auto simp del: slot_frame.simps(2,3))
    then show "\<exists>x. slot_frame (mem s) pdir x = Some p \<and> (\<forall>k<64. x \<noteq> Table k)" by cases force+
  next
    assume "\<exists>x. slot_frame (mem s) pdir x = Some p \<and> (\<forall>k<64. x \<noteq> Table k)"
    then obtain x where x: "slot_frame (mem s) pdir x = Some p" "\<forall>k<64. x \<noteq> Table k" by blast
    show "p \<in> insert pdir (slots_below (mem s) pdir 1024)"
    proof (cases x)
      case (Table a)
      with x have "64 \<le> a" "a < 1024" by (auto simp: not_le split: if_splits) (metis not_le)
      with x(1) Table show ?thesis unfolding slots_below_def by blast
    next
      case (Page a b)
      with x have "64 \<le> a" "a < 1024" by (auto split: if_splits)
      with x(1) Page show ?thesis unfolding slots_below_def by blast
    qed (use x in simp)
  qed
  have own: "page_aligned p \<Longrightarrow> owned ?s' p \<longleftrightarrow>
      owned s p \<and> \<not> (\<exists>x. slot_frame (mem s) pdir x = Some p \<and> (\<forall>k<64. x \<noteq> Table k))"
    and m: "mem ?s' = mem s" and inv: "pmm_inv (frames ?s')" for p
    using F unfolding freed_def S by simp_all
  have "owned ?s' f" if f: "slot_frame (mem s) q x = Some f" for x f
    using own [OF slot_frame_aligned [OF pdir_wfD(2) [OF assms(2)] f]] pdir_wfD(4) [OF assms(2) f]
      separateD [OF assms(3) _ f] by blast
  then have "pdir_wf q ?s'" using assms(2) inv by (simp add: pdir_wf_def m)
  with own m show ?thesis by blast
qed

theorem vmm_destroy_pdir_correct_witness:
  "separate (mem vmm_example) 0x100000 0x101000 \<and> \<not> owned (vmm_destroy_pdir 0x100000 vmm_example) 0x100000 \<and>
   owned (vmm_destroy_pdir 0x100000 vmm_example) 0x101000"
proof -
  have "owned vmm_example 0x101000" using pdir_wfD(4) [OF vmm_example_wf(2), of Dir] by simp
  then show ?thesis
    using vmm_destroy_pdir_correct [OF vmm_example_wf] vmm_example_wf(3)
    by (auto simp: page_aligned_def slot_vmm_example split: if_splits)
qed

end
