(* ===== verification/Memfs.thy ===== *)
theory Memfs
  imports VMM
begin

text \<open>
  \<open>kernel/fs/memfs.c\<close>, the inode layer: the table of inodes and the contents of files, kept in
  physical pages of the page allocator. A \<open>struct inode *\<close> always points into \<open>inode_table\<close>,
  so it is the index of its slot. Callers' buffers are byte lists: \<open>readi\<close> returns the bytes it
  stores at \<open>dst\<close>, \<open>writei\<close> takes the bytes at \<open>src\<close>. \<open>None\<close> is the panic of \<open>pmm_alloc\<close>. The
  field \<open>addrs\<close> is total: past \<open>NDIRECT\<close> it stands for the memory after the array.
\<close>

section \<open>Data\<close>

definition BSIZE :: u32 where "BSIZE = 4096"
definition NDIRECT :: u32 where "NDIRECT = 512"
definition MAXFILE :: u32 where "MAXFILE = NDIRECT * BSIZE"
definition MAX_INODES :: u32 where "MAX_INODES = 128"
definition ROOTINO :: u32 where "ROOTINO = 1"

definition T_DIR :: u32 where "T_DIR = 1"
definition T_FILE :: u32 where "T_FILE = 2"
definition T_DEVICE :: u32 where "T_DEVICE = 3"

definition MODE_DIR :: u16 where "MODE_DIR = 493"
definition MODE_FILE :: u16 where "MODE_FILE = 420"
definition MODE_DEV :: u16 where "MODE_DEV = 384"

datatype backend = INODE_MEM | INODE_9P | INODE_PROCFS

record inode =
  inum :: u32
  itype :: u32
  major :: u32
  minor :: u32
  nlink :: int
  mode :: u16
  isize :: u32
  addrs :: "u32 \<Rightarrow> u32"
  ibackend :: backend
  fid :: u32
  parent :: u32
  dir_loaded :: bool

record memfs =
  inode_table :: "u32 \<Rightarrow> inode"
  mach :: machine

definition empty_inode :: inode where
  "empty_inode = \<lparr>inum = 0, itype = 0, major = 0, minor = 0, nlink = 0, mode = 0, isize = 0,
     addrs = (\<lambda>_. 0), ibackend = INODE_MEM, fid = 0, parent = 0, dir_loaded = False\<rparr>"

definition upd_inode :: "u32 \<Rightarrow> (inode \<Rightarrow> inode) \<Rightarrow> memfs \<Rightarrow> memfs" where
  "upd_inode i f s = s\<lparr>inode_table := (inode_table s)(i := f (inode_table s i))\<rparr>"

section \<open>Operations\<close>

definition iget :: "u32 \<Rightarrow> memfs \<Rightarrow> u32 option" where
  "iget n s =
     (if n = 0 \<or> n \<ge> MAX_INODES then None
      else if itype (inode_table s n) = 0 then None else Some n)"

definition default_mode :: "u32 \<Rightarrow> u16" where
  "default_mode type = (if type = T_DIR then MODE_DIR else if type = T_DEVICE then MODE_DEV else MODE_FILE)"

function ialloc_loop :: "u32 \<Rightarrow> u32 \<Rightarrow> u32 \<Rightarrow> u32 \<Rightarrow> memfs \<Rightarrow> u32 option \<times> memfs" where
  "ialloc_loop i type maj mnr s =
     (if i < MAX_INODES then
        if itype (inode_table s i) = 0
        then (Some i, upd_inode i (\<lambda>_. empty_inode\<lparr>inum := i, itype := type, major := maj, minor := mnr,
                        nlink := 1, mode := default_mode type\<rparr>) s)
        else ialloc_loop (i + 1) type maj mnr s
      else (None, s))"
  by pat_completeness auto
termination
  by (relation "measure (\<lambda>(i, t, mj, mn, s). unat MAX_INODES - unat i)")
    (auto simp: unat_plus1_less word_less_nat_alt)

declare ialloc_loop.simps [simp del]

definition ialloc :: "u32 \<Rightarrow> u32 \<Rightarrow> u32 \<Rightarrow> memfs \<Rightarrow> u32 option \<times> memfs" where
  "ialloc type maj mnr s = ialloc_loop 1 type maj mnr s"

definition release_block :: "u32 \<Rightarrow> u32 \<Rightarrow> memfs \<Rightarrow> memfs" where
  "release_block ip bn s =
     (let a = addrs (inode_table s ip) bn
      in if a \<noteq> 0
         then upd_inode ip (\<lambda>n. n\<lparr>addrs := (addrs n)(bn := 0)\<rparr>) (s\<lparr>mach := frame_free a (mach s)\<rparr>)
         else s)"

definition itrunc :: "u32 \<Rightarrow> memfs \<Rightarrow> memfs" where
  "itrunc ip s = upd_inode ip (\<lambda>n. n\<lparr>isize := 0\<rparr>) (for_u32 (release_block ip) 0 NDIRECT s)"

definition ifree :: "u32 \<Rightarrow> memfs \<Rightarrow> memfs" where
  "ifree ip s = upd_inode ip (\<lambda>n. n\<lparr>itype := 0, nlink := 0\<rparr>) (itrunc ip s)"

definition bmap :: "u32 \<Rightarrow> u32 \<Rightarrow> memfs \<Rightarrow> (u32 \<times> memfs) option" where
  "bmap ip bn s =
     (if bn \<ge> NDIRECT then Some (0, s)
      else if addrs (inode_table s ip) bn = 0 then do {
        (page, m) \<leftarrow> frame_alloc (mach s);
        if page = 0 then Some (0, s\<lparr>mach := m\<rparr>)
        else Some (page, upd_inode ip (\<lambda>n. n\<lparr>addrs := (addrs n)(bn := page)\<rparr>)
               (s\<lparr>mach := upd_mem (\<lambda>mm. kmemset mm page 0 BSIZE) m\<rparr>))
      }
      else Some (addrs (inode_table s ip) bn, s))"

text \<open>The length of the next piece of a transfer: up to the end of the block or of the request.\<close>

definition chunk :: "u32 \<Rightarrow> u32 \<Rightarrow> u32 \<Rightarrow> u32" where
  "chunk off n tot =
     (let m = BSIZE - (off + tot) mod BSIZE in if m > n - tot then n - tot else m)"

lemma unat_mod_BSIZE: "unat (k mod BSIZE) = unat k mod 4096"
  by (simp add: BSIZE_def unat_mod)

lemma chunk_bounds:
  assumes "tot < n"
  shows "0 < unat (chunk off n tot)" "unat (chunk off n tot) \<le> unat n - unat tot"
    "unat (chunk off n tot) + unat (off + tot) mod 4096 \<le> 4096"
    "unat (tot + chunk off n tot) = unat tot + unat (chunk off n tot)"
proof -
  have bo: "unat ((off + tot) mod BSIZE) < 4096" by (simp add: unat_mod_BSIZE)
  then have m: "unat (BSIZE - (off + tot) mod BSIZE) = 4096 - unat (off + tot) mod 4096"
    by (simp add: unat_sub_if' BSIZE_def unat_mod)
  have nt: "unat (n - tot) = unat n - unat tot" using assms by (simp add: unat_sub_if' word_less_nat_alt)
  have lt: "unat tot < unat n" using assms by (simp add: word_less_nat_alt)
  show 1: "0 < unat (chunk off n tot)" "unat (chunk off n tot) \<le> unat n - unat tot"
    "unat (chunk off n tot) + unat (off + tot) mod 4096 \<le> 4096"
    using lt by (auto simp: chunk_def Let_def m nt word_less_nat_alt)
  show "unat (tot + chunk off n tot) = unat tot + unat (chunk off n tot)"
    using 1(2) lt unat_u32_le [of n] by (simp add: unat_plus_if')
qed

function readi_loop :: "inode \<Rightarrow> memory \<Rightarrow> u32 \<Rightarrow> u32 \<Rightarrow> u32 \<Rightarrow> u8 list \<Rightarrow> u32 \<times> u8 list" where
  "readi_loop ip m off n tot dst =
     (if tot < n then
        (let bn = (off + tot) div BSIZE; bo = (off + tot) mod BSIZE; k = chunk off n tot; addr = addrs ip bn
         in if addr = 0 then (tot, dst)
            else readi_loop ip m off n (tot + k) (dst @ bytes_at m (addr + bo) (unat k)))
      else (tot, dst))"
  by pat_completeness auto
termination
proof (relation "measure (\<lambda>(ip, m, off, n, tot, dst). unat n - unat tot)", goal_cases)
  case (2 ip m off n tot dst bn bo k addr)
  then show ?case using chunk_bounds [of tot n off] by (auto simp: word_less_nat_alt)
qed simp

declare readi_loop.simps [simp del]

definition readi :: "u32 \<Rightarrow> u32 \<Rightarrow> u32 \<Rightarrow> memfs \<Rightarrow> int \<times> u8 list" where
  "readi ip off n s =
     (let nd = inode_table s ip
      in if off > isize nd then (0, [])
         else (let n = (if off + n > isize nd then isize nd - off else n);
                   (tot, dst) = readi_loop nd (mem (mach s)) off n 0 []
               in (sint tot, dst)))"

function writei_loop :: "u32 \<Rightarrow> u8 list \<Rightarrow> u32 \<Rightarrow> u32 \<Rightarrow> u32 \<Rightarrow> memfs \<Rightarrow> (u32 \<times> memfs) option" where
  "writei_loop ip src off n tot s =
     (if tot < n then do {
        let bn = (off + tot) div BSIZE; let bo = (off + tot) mod BSIZE; let k = chunk off n tot;
        (addr, s) \<leftarrow> bmap ip bn s;
        if addr = 0 then Some (tot, s)
        else writei_loop ip src off n (tot + k)
               (s\<lparr>mach := upd_mem (\<lambda>m. store_bytes m (addr + bo) (take (unat k) (drop (unat tot) src))) (mach s)\<rparr>)
      }
      else Some (tot, s))"
  by pat_completeness auto
termination
proof (relation "measure (\<lambda>(ip, src, off, n, tot, s). unat n - unat tot)", goal_cases)
  case (2 ip src off n tot s)
  then show ?case using chunk_bounds [of tot n off] by (auto simp: word_less_nat_alt)
qed simp

declare writei_loop.simps [simp del]

definition writei :: "u32 \<Rightarrow> u8 list \<Rightarrow> u32 \<Rightarrow> u32 \<Rightarrow> memfs \<Rightarrow> (int \<times> memfs) option" where
  "writei ip src off n s =
     (if off > isize (inode_table s ip) \<or> off + n > MAXFILE then Some (-1, s)
      else do {
        (tot, s) \<leftarrow> writei_loop ip src off n 0 s;
        let s = (if off + tot > isize (inode_table s ip)
                 then upd_inode ip (\<lambda>nd. nd\<lparr>isize := off + tot\<rparr>) s else s);
        Some (sint tot, s)
      })"

definition span :: "u32 \<Rightarrow> u32 \<Rightarrow> u32" where
  "span off sz = (let m = BSIZE - off mod BSIZE in if m > sz - off then sz - off else m)"

lemma span_chunk: "span off sz = chunk 0 sz off"
  by (simp add: span_def chunk_def)

function itruncate_grow :: "u32 \<Rightarrow> u32 \<Rightarrow> u32 \<Rightarrow> memfs \<Rightarrow> (bool \<times> memfs) option" where
  "itruncate_grow ip sz off s =
     (if off < sz then do {
        (addr, s) \<leftarrow> bmap ip (off div BSIZE) s;
        if addr = 0 then Some (False, s)
        else itruncate_grow ip sz (off + span off sz)
               (s\<lparr>mach := upd_mem (\<lambda>m. kmemset m (addr + off mod BSIZE) 0 (span off sz)) (mach s)\<rparr>)
      }
      else Some (True, s))"
  by pat_completeness auto
termination
proof (relation "measure (\<lambda>(ip, sz, off, s). unat sz - unat off)", goal_cases)
  case (2 ip sz off s)
  then show ?case using chunk_bounds [of off sz 0] by (auto simp: span_chunk word_less_nat_alt)
qed simp

declare itruncate_grow.simps [simp del]

definition itruncate :: "u32 \<Rightarrow> u32 \<Rightarrow> memfs \<Rightarrow> (int \<times> memfs) option" where
  "itruncate ip sz s =
     (let old = isize (inode_table s ip); set_size = upd_inode ip (\<lambda>n. n\<lparr>isize := sz\<rparr>)
      in if sz > MAXFILE then Some (-1, s)
         else if sz < old
         then Some (0, set_size (for_u32 (release_block ip) ((sz + BSIZE - 1) div BSIZE) NDIRECT s))
         else if sz > old then do {
           (ok, s) \<leftarrow> itruncate_grow ip sz old s;
           if ok then Some (0, set_size s) else Some (-1, s)
         }
         else Some (0, set_size s))"

section \<open>Bytes of a page\<close>

lemma page_offset_region: "r < 4096 \<Longrightarrow> in_region q 4096 (q + of_nat r)"
  by (rule in_region_offset) simp_all

lemma page_part_region:
  assumes "\<not> in_region p 4096 x" "n \<le> 4096" "k + n \<le> 4096"
  shows "\<not> in_region (p + of_nat k) n x"
proof
  assume "in_region (p + of_nat k) n x"
  then obtain j where j: "j < n" "x = p + of_nat k + of_nat j" by (rule in_regionE)
  then have "x = p + of_nat (k + j)" by (simp add: algebra_simps)
  with assms(1,3) j(1) page_offset_region [of "k + j" p] show False by auto
qed

lemma page_part_inside:
  assumes "r < 4096" "k + n \<le> 4096"
  shows "in_region (p + of_nat k) n (p + of_nat r) \<longleftrightarrow> k \<le> r \<and> r < k + n"
proof (cases "n = 0")
  case False
  have e: "p + of_nat r - (p + of_nat k) = (of_nat r - of_nat k :: u32)" by simp
  have k: "unat (of_nat k :: u32) = k" "unat (of_nat r :: u32) = r" using assms False by (simp_all add: unat_of_nat)
  have "unat (of_nat r - of_nat k :: u32) = (if k \<le> r then r - k else r + 2 ^ 32 - k)"
    using unat_sub_if' [of "of_nat r :: u32" "of_nat k"] by (simp add: k)
  with assms show ?thesis by (auto simp: in_region_def e)
qed simp

text \<open>A store that stays inside page \<open>p\<close>, read back at byte \<open>r\<close> of page \<open>q\<close>.\<close>

lemma store_in_page:
  assumes "page_aligned p" "page_aligned q" "r < 4096" "k + length bs \<le> 4096"
  shows "store_bytes m (p + of_nat k) bs (q + of_nat r) =
    (if p = q \<and> k \<le> r \<and> r < k + length bs then bs ! (r - k) else m (q + of_nat r))"
proof (cases "p = q")
  case True
  have "k \<le> r \<Longrightarrow> unat (q + of_nat r - (q + of_nat k) :: u32) = r - k"
    using assms(3) by (simp add: unat_sub_if' unat_of_nat)
  then show ?thesis
    using True assms page_part_inside [of r k "length bs" q] by (auto simp: store_bytes_apply)
next
  case False
  then have "\<not> in_region p 4096 (q + of_nat r)"
    using page_disjointD [OF assms(2,1)] page_offset_region [OF assms(3)] by blast
  from page_part_region [OF this _ assms(4)] assms(4) False show ?thesis by (simp add: store_bytes_apply)
qed

lemma kmemset_store: "kmemset m d 0 n = store_bytes m d (replicate (unat n) 0)"
  using unat_u32_le [of n]
  by (auto simp: fun_eq_iff kernel_simps store_bytes_apply in_region_def)

lemma store_outside_page:
  assumes "\<not> in_region p 4096 x" "k + length bs \<le> 4096"
  shows "store_bytes m (p + of_nat k) bs x = m x"
  using page_part_region [OF assms(1) _ assms(2)] assms(2) by (simp add: store_bytes_outside)

section \<open>File contents\<close>

definition file_byte :: "inode \<Rightarrow> memory \<Rightarrow> nat \<Rightarrow> u8" where
  "file_byte nd m k = m (addrs nd (of_nat (k div 4096)) + of_nat (k mod 4096))"

definition contents :: "memfs \<Rightarrow> u32 \<Rightarrow> u8 list" where
  "contents s i =
     map (file_byte (inode_table s i) (mem (mach s))) [0..<unat (isize (inode_table s i))]"

abbreviation block :: "memfs \<Rightarrow> u32 \<Rightarrow> u32 \<Rightarrow> u32" where
  "block s i bn \<equiv> addrs (inode_table s i) bn"

text \<open>
  The invariant of the inode table: the blocks of the inodes are pages in use, no two of them
  the same, no file exceeds \<open>MAXFILE\<close>, and a file has a block wherever it has a byte.
\<close>

definition fs_wf :: "memfs \<Rightarrow> bool" where
  "fs_wf s \<longleftrightarrow> pmm_inv (frames (mach s)) \<and>
     (\<forall>i<128. \<forall>bn<512. block s i bn \<noteq> 0 \<longrightarrow> page_aligned (block s i bn) \<and> owned (mach s) (block s i bn)) \<and>
     (\<forall>i<128. \<forall>j<128. \<forall>bn<512. \<forall>cn<512. block s i bn \<noteq> 0 \<longrightarrow> block s i bn = block s j cn \<longrightarrow> i = j \<and> bn = cn) \<and>
     (\<forall>i<128. isize (inode_table s i) \<le> MAXFILE \<and>
        (\<forall>k < unat (isize (inode_table s i)). block s i (of_nat (k div 4096)) \<noteq> 0))"

lemma fs_wfD:
  assumes "fs_wf s"
  shows "pmm_inv (frames (mach s))"
    "i < 128 \<Longrightarrow> bn < 512 \<Longrightarrow> block s i bn \<noteq> 0 \<Longrightarrow> page_aligned (block s i bn) \<and> owned (mach s) (block s i bn)"
    "i < 128 \<Longrightarrow> j < 128 \<Longrightarrow> bn < 512 \<Longrightarrow> cn < 512 \<Longrightarrow> block s i bn \<noteq> 0 \<Longrightarrow>
       block s i bn = block s j cn \<Longrightarrow> i = j \<and> bn = cn"
    "i < 128 \<Longrightarrow> unat (isize (inode_table s i)) \<le> 2097152"
    "i < 128 \<Longrightarrow> k < unat (isize (inode_table s i)) \<Longrightarrow> block s i (of_nat (k div 4096)) \<noteq> 0"
  using assms by (auto simp: fs_wf_def MAXFILE_def NDIRECT_def BSIZE_def word_le_nat_alt)

text \<open>The relation between the states before and after work on inode \<open>i\<close> alone.\<close>

definition keeps :: "u32 \<Rightarrow> memfs \<Rightarrow> memfs \<Rightarrow> bool" where
  "keeps i s s' \<longleftrightarrow> (\<forall>j. j \<noteq> i \<longrightarrow> inode_table s' j = inode_table s j) \<and>
     (\<forall>bn<512. block s' i bn \<noteq> 0 \<longrightarrow> (\<exists>cn<512. block s i cn = block s' i bn) \<or> \<not> owned (mach s) (block s' i bn)) \<and>
     (\<forall>p. page_aligned p \<longrightarrow> owned (mach s) p \<longrightarrow> (\<forall>bn<512. block s i bn = p \<longrightarrow> p = 0) \<longrightarrow>
        owned (mach s') p \<and> (\<forall>x. in_region p 4096 x \<longrightarrow> mem (mach s') x = mem (mach s) x)) \<and>
     kernel_pdir (mach s') = kernel_pdir (mach s) \<and> cr3 (mach s') = cr3 (mach s)"

lemma keepsD:
  assumes "keeps i s s'"
  shows "j \<noteq> i \<Longrightarrow> inode_table s' j = inode_table s j"
    "bn < 512 \<Longrightarrow> block s' i bn \<noteq> 0 \<Longrightarrow> (\<exists>cn<512. block s i cn = block s' i bn) \<or> \<not> owned (mach s) (block s' i bn)"
    "page_aligned p \<Longrightarrow> owned (mach s) p \<Longrightarrow> (\<And>bn. bn < 512 \<Longrightarrow> block s i bn = p \<Longrightarrow> p = 0) \<Longrightarrow> owned (mach s') p"
    "page_aligned p \<Longrightarrow> owned (mach s) p \<Longrightarrow> (\<And>bn. bn < 512 \<Longrightarrow> block s i bn = p \<Longrightarrow> p = 0) \<Longrightarrow>
       in_region p 4096 x \<Longrightarrow> mem (mach s') x = mem (mach s) x"
  using assms by (auto simp: keeps_def)

lemma keeps_refl [simp]: "keeps i s s"
  by (auto simp: keeps_def)

lemma keeps_trans:
  assumes 1: "keeps i s t" and 2: "keeps i t u" and wf: "fs_wf u" "i < 128"
  shows "keeps i s u"
  unfolding keeps_def
proof (intro conjI allI impI)
  note A = keepsD [OF 1] and B = keepsD [OF 2]
  show "inode_table u j = inode_table s j" if "j \<noteq> i" for j using A(1) [OF that] B(1) [OF that] by simp
  have sub: "p = 0" if "owned (mach s) p" "\<forall>bn<512. block s i bn = p \<longrightarrow> p = 0" "bn < 512" "block t i bn = p" for p bn
    using A(2) [OF that(3)] that by (cases "p = 0") auto
  show own: "owned (mach u) p"
    if "page_aligned p" "owned (mach s) p" "\<forall>bn<512. block s i bn = p \<longrightarrow> p = 0" for p
    using B(3) [OF that(1) A(3)] sub [OF that(2,3)] that by blast
  show "mem (mach u) x = mem (mach s) x"
    if p: "page_aligned p" "owned (mach s) p" "\<forall>bn<512. block s i bn = p \<longrightarrow> p = 0" "in_region p 4096 x" for p x
  proof -
    have "owned (mach t) p" using A(3) p by blast
    then show ?thesis using B(4) [OF p(1) _ _ p(4)] A(4) [OF p(1,2) _ p(4)] sub [OF p(2,3)] p(3) by metis
  qed
  show "(\<exists>cn<512. block s i cn = block u i bn) \<or> \<not> owned (mach s) (block u i bn)"
    if bn: "bn < 512" "block u i bn \<noteq> 0" for bn
  proof (rule ccontr)
    assume no: "\<not> ((\<exists>cn<512. block s i cn = block u i bn) \<or> \<not> owned (mach s) (block u i bn))"
    have "page_aligned (block u i bn)" using fs_wfD(2) [OF wf bn] by simp
    then have "owned (mach t) (block u i bn)" using A(3) no by blast
    then obtain cn where "cn < 512" "block t i cn = block u i bn" using B(2) [OF bn] by blast
    then show False using A(2) [of cn] no bn by auto
  qed
  show "kernel_pdir (mach u) = kernel_pdir (mach s)" "cr3 (mach u) = cr3 (mach s)"
    using 1 2 by (simp_all add: keeps_def)
qed

text \<open>Work on one inode leaves the contents of all the others alone.\<close>

lemma of_nat_block: "k < 2097152 \<Longrightarrow> (of_nat (k div 4096) :: u32) < 512"
proof -
  assume "k < 2097152"
  then have "k div 4096 < 512" by (simp add: div_less_iff_less_mult)
  then show ?thesis by (simp add: word_less_nat_alt unat_of_nat)
qed

lemma file_byte_cong:
  assumes "\<And>x. in_region (addrs nd (of_nat (k div 4096))) 4096 x \<Longrightarrow> m' x = m x"
  shows "file_byte nd m' k = file_byte nd m k"
  unfolding file_byte_def by (intro assms page_offset_region) simp

lemma keeps_contents:
  assumes wf: "fs_wf s" and k: "keeps i s s'" and ij: "i < 128" "j < 128" "j \<noteq> i"
  shows "contents s' j = contents s j"
proof -
  have same: "inode_table s' j = inode_table s j" using keepsD(1) [OF k ij(3)] .
  have "file_byte (inode_table s j) (mem (mach s')) b = file_byte (inode_table s j) (mem (mach s)) b"
    if b: "b < unat (isize (inode_table s j))" for b
  proof (rule file_byte_cong, rule keepsD(4) [OF k])
    have bn: "(of_nat (b div 4096) :: u32) < 512"
      using b fs_wfD(4) [OF wf ij(2)] by (intro of_nat_block) simp
    note nz = fs_wfD(5) [OF wf ij(2) b]
    note P = fs_wfD(2) [OF wf ij(2) bn nz]
    show "page_aligned (block s j (of_nat (b div 4096)))" "owned (mach s) (block s j (of_nat (b div 4096)))"
      using P by auto
    show "block s j (of_nat (b div 4096)) = 0" if "cn < 512" "block s i cn = block s j (of_nat (b div 4096))" for cn
      using fs_wfD(3) [OF wf ij(2,1) bn that(1) nz] that(2) ij(3) by auto
  qed
  then show ?thesis by (simp add: contents_def same)
qed

section \<open>Reading\<close>

lemma upt_split: "i \<le> j \<Longrightarrow> j \<le> k \<Longrightarrow> [i..<k] = [i..<j] @ [j..<k]"
  using upt_add_eq_append [of i j "k - j"] by simp

lemma block_of: "of_nat (unat k div 4096) = k div BSIZE" "of_nat (unat k mod 4096) = k mod BSIZE"
proof -
  have "unat (k div BSIZE) = unat k div 4096" "unat (k mod BSIZE) = unat k mod 4096"
    by (simp_all add: BSIZE_def unat_div unat_mod)
  then show "of_nat (unat k div 4096) = k div BSIZE" "of_nat (unat k mod 4096) = k mod BSIZE"
    by (metis unat_of_nat_self)+
qed

lemma within_block:
  fixes k j :: nat
  assumes "k mod 4096 + j < 4096"
  shows "(k + j) div 4096 = k div 4096" "(k + j) mod 4096 = k mod 4096 + j"
proof -
  have j: "j < 4096" using assms by simp
  then show "(k + j) div 4096 = k div 4096" using assms by (simp add: div_add1_eq [of k j])
  have "(k + j) mod 4096 = (k mod 4096 + j) mod 4096" by (simp add: mod_simps)
  then show "(k + j) mod 4096 = k mod 4096 + j" using assms by simp
qed

text \<open>Bytes \<open>k, \<dots>, k + n - 1\<close> of a file that lie in one block are \<open>n\<close> bytes of its page.\<close>

lemma block_bytes:
  assumes "unat k mod 4096 + n \<le> 4096"
  shows "bytes_at m (addrs nd (k div BSIZE) + k mod BSIZE) n = map (file_byte nd m) [unat k..<unat k + n]"
proof (rule nth_equalityI)
  fix j assume "j < length (bytes_at m (addrs nd (k div BSIZE) + k mod BSIZE) n)"
  then have j: "j < n" by simp
  with assms have "unat k mod 4096 + j < 4096" by simp
  note W = within_block [OF this]
  show "bytes_at m (addrs nd (k div BSIZE) + k mod BSIZE) n ! j = map (file_byte nd m) [unat k..<unat k + n] ! j"
    using j by (simp add: file_byte_def W add.assoc flip: block_of)
qed simp

lemma readi_loop_correct:
  assumes "\<And>k. k < unat off + unat n \<Longrightarrow> addrs nd (of_nat (k div 4096)) \<noteq> 0"
    and "unat off + unat n < 2 ^ 32" and "unat tot \<le> unat n"
  shows "readi_loop nd m off n tot dst =
    (n, dst @ map (file_byte nd m) [unat off + unat tot..<unat off + unat n])"
  using assms
proof (induction nd m off n tot dst rule: readi_loop.induct)
  case (1 nd m off n tot dst)
  show ?case
  proof (cases "tot < n")
    case True
    note C = chunk_bounds [OF True, of off]
    have lt: "unat tot < unat n" using True by (simp add: word_less_nat_alt)
    have k: "unat (off + tot) = unat off + unat tot" using "1.prems"(2) lt by (simp add: unat_plus_if')
    have nz: "addrs nd ((off + tot) div BSIZE) \<noteq> 0"
      using "1.prems"(1) [of "unat off + unat tot"] lt k by (metis block_of(1) add_less_cancel_left)
    have split: "[unat off + unat tot..<unat off + unat n] =
        [unat (off + tot)..<unat (off + tot) + unat (chunk off n tot)] @
        [unat off + unat (tot + chunk off n tot)..<unat off + unat n]"
      using C(2,4) lt by (subst upt_split [of _ "unat off + unat (tot + chunk off n tot)"]) (simp_all add: k add.assoc)
    show ?thesis
      using "1.IH" [OF True refl refl refl refl nz "1.prems"(1,2)] C lt nz True
      by (simp add: readi_loop.simps [of nd m off n tot] Let_def block_bytes add.commute [of "unat (chunk off n tot)"] split)
  next
    case False
    then have "tot = n" using "1.prems"(3) by (simp add: word_less_nat_alt word_unat_eq_iff)
    then show ?thesis by (simp add: readi_loop.simps [of nd m off n])
  qed
qed

lemma contents_take_drop:
  assumes "k \<le> n" "n \<le> unat (isize (inode_table s i))"
  shows "map (file_byte (inode_table s i) (mem (mach s))) [k..<n] = take (n - k) (drop k (contents s i))"
  using assms by (simp add: contents_def drop_map take_map)

lemma readi_contents:
  assumes "fs_wf s" and "ip < MAX_INODES" and "unat off + unat n < 2 ^ 32"
  shows "readi ip off n s =
    (int (length (take (unat n) (drop (unat off) (contents s ip)))), take (unat n) (drop (unat off) (contents s ip)))"
proof -
  let ?nd = "inode_table s ip" and ?m = "mem (mach s)"
  have ip: "ip < 128" using assms(2) by (simp add: MAX_INODES_def)
  have len: "length (contents s ip) = unat (isize ?nd)" by (simp add: contents_def)
  note sz = fs_wfD(4) [OF assms(1) ip]
  show ?thesis
  proof (cases "off > isize ?nd")
    case True
    then show ?thesis by (simp add: readi_def Let_def len word_less_nat_alt)
  next
    case False
    define k where "k = (if off + n > isize ?nd then isize ?nd - off else n)"
    have off: "unat off \<le> unat (isize ?nd)" using False by (simp add: word_less_nat_alt)
    have sum: "unat (off + n) = unat off + unat n" using assms(3) by (simp add: unat_plus_if')
    have k: "unat k = min (unat n) (unat (isize ?nd) - unat off)"
      using off by (auto simp: k_def word_less_nat_alt sum unat_sub_if')
    then have le: "unat off + unat k \<le> unat (isize ?nd)" using off by simp
    have "readi_loop ?nd ?m off k 0 [] = (k, map (file_byte ?nd ?m) [unat off..<unat off + unat k])"
      using readi_loop_correct [of off k ?nd 0 ?m "[]"] fs_wfD(5) [OF assms(1) ip] le sz by simp
    moreover have "map (file_byte ?nd ?m) [unat off..<unat off + unat k] = take (unat n) (drop (unat off) (contents s ip))"
      using contents_take_drop [of "unat off" "unat off + unat k" s ip] le by (simp add: k len min_def)
    moreover have "sint k = int (unat k)"
      using sz k by (intro sint_small) simp
    ultimately show ?thesis using False
      by (simp add: readi_def Let_def k_def [symmetric] len k min.commute)
  qed
qed

section \<open>Allocating blocks\<close>

lemma inode_upd_inode [simp]:
  "inode_table (upd_inode i f s) j = (if j = i then f (inode_table s i) else inode_table s j)"
  "mach (upd_inode i f s) = mach s"
  by (simp_all add: upd_inode_def)

text \<open>A new page in an empty slot of an inode keeps the table well-formed.\<close>

lemma fs_wf_new_block:
  assumes wf: "fs_wf s" and i: "i < 128" "bn < 512" "block s i bn = 0"
    and a: "\<not> owned (mach s) a" "page_aligned a" "a \<noteq> 0"
    and tab: "inode_table s' = (inode_table s)(i := (inode_table s i)\<lparr>addrs := (addrs (inode_table s i))(bn := a)\<rparr>)"
    and inv: "pmm_inv (frames (mach s'))"
    and own: "\<And>p. page_aligned p \<Longrightarrow> owned (mach s') p \<longleftrightarrow> p = a \<or> owned (mach s) p"
  shows "fs_wf s'"
proof -
  note D = fs_wfD [OF wf]
  have blk: "block s' j cn = (if j = i \<and> cn = bn then a else block s j cn)" for j cn by (simp add: tab)
  have old: "block s j cn \<noteq> a" if "j < 128" "cn < 512" "block s j cn \<noteq> 0" for j cn
    using D(2) [OF that] a(1) by auto
  have "page_aligned (block s' j cn) \<and> owned (mach s') (block s' j cn)"
    if "j < 128" "cn < 512" "block s' j cn \<noteq> 0" for j cn
    using that D(2) [of j cn] own [of "block s j cn"] own [OF a(2)] a(2) by (auto simp: blk split: if_splits)
  moreover have "j = k \<and> cn = dn"
    if "j < 128" "k < 128" "cn < 512" "dn < 512" "block s' j cn \<noteq> 0" "block s' j cn = block s' k dn" for j k cn dn
    using that D(3) [of j k cn dn] old [of j cn] old [of k dn] a(3) i(3) by (auto simp: blk split: if_splits)
  moreover have "isize (inode_table s' j) = isize (inode_table s j)" for j by (simp add: tab)
  moreover have "block s' j (of_nat (k div 4096)) \<noteq> 0" if "j < 128" "k < unat (isize (inode_table s j))" for j k
    using D(5) [OF that] a(3) by (simp add: blk)
  ultimately show ?thesis using inv wf unfolding fs_wf_def by auto
qed

lemma bmap_correct:
  assumes wf: "fs_wf s" and i: "i < 128" "bn < 512" and run: "bmap i bn s = Some (a, s')"
  shows "a \<noteq> 0" "page_aligned a" "fs_wf s'" "keeps i s s'"
    "inode_table s' i = (inode_table s i)\<lparr>addrs := (addrs (inode_table s i))(bn := a)\<rparr>"
    "\<And>p x. page_aligned p \<Longrightarrow> owned (mach s) p \<Longrightarrow> in_region p 4096 x \<Longrightarrow> mem (mach s') x = mem (mach s) x"
    "block s i bn = 0 \<or> block s i bn = a"
    "\<And>p. page_aligned p \<Longrightarrow> owned (mach s) p \<Longrightarrow> owned (mach s') p"
proof -
  note D = fs_wfD [OF wf]
  have bn: "\<not> bn \<ge> NDIRECT" using i(2) by (simp add: NDIRECT_def not_le)
  consider (old) "block s i bn \<noteq> 0" "a = block s i bn" "s' = s" |
    (new) m where "block s i bn = 0" "frame_alloc (mach s) = Some (a, m)"
      "s' = upd_inode i (\<lambda>n. n\<lparr>addrs := (addrs n)(bn := a)\<rparr>) (s\<lparr>mach := upd_mem (\<lambda>mm. kmemset mm a 0 BSIZE) m\<rparr>)"
  proof (cases "block s i bn = 0")
    case True
    then obtain b m where m: "frame_alloc (mach s) = Some (b, m)"
      using run bn by (auto simp: bmap_def bind_eq_Some_conv)
    have "b \<noteq> 0" using frame_alloc_correct(3) [OF D(1) m] .
    with True run bn m have "a = b" "s' = upd_inode i (\<lambda>n. n\<lparr>addrs := (addrs n)(bn := b)\<rparr>)
        (s\<lparr>mach := upd_mem (\<lambda>mm. kmemset mm b 0 BSIZE) m\<rparr>)" by (auto simp: bmap_def)
    with that(2) True m show ?thesis by blast
  next
    case False
    have "a = block s i bn" "s' = s" using run bn False by (auto simp: bmap_def)
    with that(1) False show ?thesis by blast
  qed
  then have "a \<noteq> 0 \<and> page_aligned a \<and> fs_wf s' \<and> keeps i s s' \<and>
    inode_table s' i = (inode_table s i)\<lparr>addrs := (addrs (inode_table s i))(bn := a)\<rparr> \<and>
    (\<forall>p x. page_aligned p \<longrightarrow> owned (mach s) p \<longrightarrow> in_region p 4096 x \<longrightarrow> mem (mach s') x = mem (mach s) x) \<and>
    (block s i bn = 0 \<or> block s i bn = a) \<and> (\<forall>p. page_aligned p \<longrightarrow> owned (mach s) p \<longrightarrow> owned (mach s') p)"
  proof cases
    case old
    have "(addrs (inode_table s i))(bn := a) = addrs (inode_table s i)" using old(2) by simp
    then have "inode_table s i = (inode_table s i)\<lparr>addrs := (addrs (inode_table s i))(bn := a)\<rparr>"
      by (simp only:) simp
    then show ?thesis using wf D(2) [OF i] old by (simp only: keeps_refl) blast
  next
    case new
    note A = frame_alloc_correct [OF D(1) new(2)] frame_alloc_fields [OF new(2)]
    have own: "owned (mach s') p \<longleftrightarrow> p = a \<or> owned (mach s) p" if "page_aligned p" for p
      using A(5) [OF that] by (simp add: new(3))
    have mem: "mem (mach s') x = mem (mach s) x"
      if "page_aligned p" "owned (mach s) p" "in_region p 4096 x" for p x
    proof -
      have "p \<noteq> a" using A(4) that(2) by auto
      then have "\<not> in_region a 4096 x" using page_disjointD [OF that(1) A(2) _ that(3)] by simp
      then show ?thesis using A(6) by (simp add: new(3) BSIZE_def kmemset_page_outside)
    qed
    have tab: "inode_table s' = (inode_table s)(i := (inode_table s i)\<lparr>addrs := (addrs (inode_table s i))(bn := a)\<rparr>)"
      by (auto simp: new(3) fun_eq_iff)
    have "fs_wf s'" by (rule fs_wf_new_block [OF wf i new(1) A(4,2,3) tab _ own]) (simp add: new(3) A(1))
    moreover have "keeps i s s'"
      unfolding keeps_def
    proof (intro conjI allI impI)
      show "inode_table s' j = inode_table s j" if "j \<noteq> i" for j using that by (simp add: tab)
      show "(\<exists>cn<512. block s i cn = block s' i dn) \<or> \<not> owned (mach s) (block s' i dn)" if "dn < 512" for dn
        using that A(4) by (cases "dn = bn") (auto simp: tab)
      show "owned (mach s') p" if "page_aligned p" "owned (mach s) p" for p using own that by simp
      show "mem (mach s') x = mem (mach s) x" if "page_aligned p" "owned (mach s) p" "in_region p 4096 x" for p x
        using mem that .
      show "kernel_pdir (mach s') = kernel_pdir (mach s)" "cr3 (mach s') = cr3 (mach s)"
        by (simp_all add: new(3) A(7,8))
    qed
    moreover have "inode_table s' i = (inode_table s i)\<lparr>addrs := (addrs (inode_table s i))(bn := a)\<rparr>" by (simp add: tab)
    ultimately show ?thesis using A(2,3) own mem new(1) by blast
  qed
  then show "a \<noteq> 0" "page_aligned a" "fs_wf s'" "keeps i s s'"
    "inode_table s' i = (inode_table s i)\<lparr>addrs := (addrs (inode_table s i))(bn := a)\<rparr>"
    "\<And>p x. page_aligned p \<Longrightarrow> owned (mach s) p \<Longrightarrow> in_region p 4096 x \<Longrightarrow> mem (mach s') x = mem (mach s) x"
    "block s i bn = 0 \<or> block s i bn = a"
    "\<And>p. page_aligned p \<Longrightarrow> owned (mach s) p \<Longrightarrow> owned (mach s') p" by blast+
qed

section \<open>Writing into blocks\<close>

text \<open>A store into one block of inode \<open>i\<close>, seen as a change of the file's bytes.\<close>

definition put_bytes :: "u32 \<Rightarrow> u8 list \<Rightarrow> memfs \<Rightarrow> memfs" where
  "put_bytes a bs s = s\<lparr>mach := upd_mem (\<lambda>m. store_bytes m a bs) (mach s)\<rparr>"

lemma put_bytes_fields [simp]:
  "inode_table (put_bytes a bs s) = inode_table s" "frames (mach (put_bytes a bs s)) = frames (mach s)"
  "kernel_pdir (mach (put_bytes a bs s)) = kernel_pdir (mach s)" "cr3 (mach (put_bytes a bs s)) = cr3 (mach s)"
  "mem (mach (put_bytes a bs s)) = store_bytes (mem (mach s)) a bs"
  by (simp_all add: put_bytes_def)

lemma put_bytes_wf [simp]: "fs_wf (put_bytes a bs s) = fs_wf s"
  by (simp add: fs_wf_def)

lemma put_bytes_keeps:
  assumes wf: "fs_wf s" and i: "i < 128" "bn < 512" "block s i bn \<noteq> 0" and k: "k + length bs \<le> 4096"
  shows "keeps i s (put_bytes (block s i bn + of_nat k) bs s)"
proof -
  note P = fs_wfD(2) [OF wf i]
  have "store_bytes (mem (mach s)) (block s i bn + of_nat k) bs x = mem (mach s) x"
    if "page_aligned p" "\<forall>cn<512. block s i cn = p \<longrightarrow> p = 0" "in_region p 4096 x" for p x
  proof -
    have "p \<noteq> block s i bn" using that(2) i(2,3) by auto
    then have "\<not> in_region (block s i bn) 4096 x" using page_disjointD [OF that(1) conjunct1 [OF P] _ that(3)] by blast
    then show ?thesis using k by (rule store_outside_page)
  qed
  then show ?thesis unfolding keeps_def by auto
qed

lemma put_bytes_file_byte:
  assumes wf: "fs_wf s" and i: "i < 128" and b: "b < 2097152" "block s i (of_nat (b div 4096)) \<noteq> 0"
    and k: "k < 2097152" "block s i (of_nat (k div 4096)) \<noteq> 0" "k mod 4096 + length bs \<le> 4096"
  shows "file_byte (inode_table s i)
      (store_bytes (mem (mach s)) (block s i (of_nat (k div 4096)) + of_nat (k mod 4096)) bs) b =
    (if k \<le> b \<and> b < k + length bs then bs ! (b - k) else file_byte (inode_table s i) (mem (mach s)) b)"
proof -
  note bb = of_nat_block [OF b(1)] and kb = of_nat_block [OF k(1)]
  note P = fs_wfD(2) [OF wf i bb b(2)] and Q = fs_wfD(2) [OF wf i kb k(2)]
  have "(of_nat (k div 4096) :: u32) = of_nat (b div 4096) \<longleftrightarrow> k div 4096 = b div 4096"
    using b(1) k(1) by (simp add: word_unat_eq_iff unat_of_nat)
  then have same: "block s i (of_nat (k div 4096)) = block s i (of_nat (b div 4096)) \<longleftrightarrow> k div 4096 = b div 4096"
    using fs_wfD(3) [OF wf i i kb bb k(2)] by auto
  have pos: "k div 4096 = b div 4096 \<and> k mod 4096 \<le> b mod 4096 \<and> b mod 4096 < k mod 4096 + length bs \<longleftrightarrow>
      k \<le> b \<and> b < k + length bs"
  proof
    assume "k div 4096 = b div 4096 \<and> k mod 4096 \<le> b mod 4096 \<and> b mod 4096 < k mod 4096 + length bs"
    then show "k \<le> b \<and> b < k + length bs"
      using div_mult_mod_eq [of k 4096] div_mult_mod_eq [of b 4096] by linarith
  next
    assume kb: "k \<le> b \<and> b < k + length bs"
    then have "k mod 4096 + (b - k) < 4096" using k(3) by linarith
    from within_block [OF this] kb show
      "k div 4096 = b div 4096 \<and> k mod 4096 \<le> b mod 4096 \<and> b mod 4096 < k mod 4096 + length bs" by auto
  qed
  have diff: "b mod 4096 - k mod 4096 = b - k" if "k div 4096 = b div 4096"
    using that div_mult_mod_eq [of k 4096] div_mult_mod_eq [of b 4096] by linarith
  show ?thesis
    unfolding file_byte_def
    using store_in_page [OF conjunct1 [OF Q] conjunct1 [OF P], of "b mod 4096" "k mod 4096" bs] k(3) same pos diff
    by auto
qed

abbreviation fbyte :: "memfs \<Rightarrow> u32 \<Rightarrow> nat \<Rightarrow> u8" where
  "fbyte s i \<equiv> file_byte (inode_table s i) (mem (mach s))"

abbreviation mapped :: "memfs \<Rightarrow> u32 \<Rightarrow> nat \<Rightarrow> bool" where
  "mapped s i b \<equiv> block s i (of_nat (b div 4096)) \<noteq> 0"

text \<open>
  \<open>wrote i lo hi f s s'\<close>: between \<open>s\<close> and \<open>s'\<close> bytes \<open>lo, \<dots>, hi - 1\<close> of inode \<open>i\<close> took the values \<open>f\<close>, and
  nothing else of the file system changed but the blocks added to the inode.
\<close>

definition wrote :: "u32 \<Rightarrow> nat \<Rightarrow> nat \<Rightarrow> (nat \<Rightarrow> u8) \<Rightarrow> memfs \<Rightarrow> memfs \<Rightarrow> bool" where
  "wrote i lo hi f s s' \<longleftrightarrow> fs_wf s' \<and> keeps i s s' \<and>
     (\<exists>ad. inode_table s' i = (inode_table s i)\<lparr>addrs := ad\<rparr>) \<and>
     (\<forall>b<2097152. mapped s i b \<or> lo \<le> b \<and> b < hi \<longrightarrow> mapped s' i b) \<and>
     (\<forall>b<2097152. mapped s i b \<or> lo \<le> b \<and> b < hi \<longrightarrow>
        fbyte s' i b = (if lo \<le> b \<and> b < hi then f b else fbyte s i b))"

lemma wrote_trans:
  assumes "wrote i lo mid f s t" "wrote i mid hi f t u" "i < 128" "lo \<le> mid" "mid \<le> hi"
  shows "wrote i lo hi f s u"
proof -
  have wf: "fs_wf u" using assms(2) by (simp add: wrote_def)
  have "keeps i s u" using keeps_trans [of i s t u] assms(1-3) by (simp add: wrote_def)
  moreover have "\<exists>ad. inode_table u i = (inode_table s i)\<lparr>addrs := ad\<rparr>" using assms(1,2) by (auto simp: wrote_def)
  moreover have "mapped u i b \<and> fbyte u i b = (if lo \<le> b \<and> b < hi then f b else fbyte s i b)"
    if b: "b < 2097152" "mapped s i b \<or> lo \<le> b \<and> b < hi" for b
  proof -
    have t: "mapped s i b \<or> lo \<le> b \<and> b < mid \<Longrightarrow>
        mapped t i b \<and> fbyte t i b = (if lo \<le> b \<and> b < mid then f b else fbyte s i b)"
      using assms(1) b(1) unfolding wrote_def by blast
    have u: "mapped t i b \<or> mid \<le> b \<and> b < hi \<Longrightarrow>
        mapped u i b \<and> fbyte u i b = (if mid \<le> b \<and> b < hi then f b else fbyte t i b)"
      using assms(2) b(1) unfolding wrote_def by blast
    show ?thesis using t u b(2) assms(4,5) by (cases "mid \<le> b \<and> b < hi") auto
  qed
  ultimately show ?thesis using wf unfolding wrote_def by blast
qed

lemma block_write:
  assumes wf: "fs_wf s" and i: "i < 128" and k: "k < 2097152" "k mod 4096 + length bs \<le> 4096" "bs \<noteq> []"
    and run: "bmap i (of_nat (k div 4096)) s = Some (a, t)"
  shows "a \<noteq> 0" "wrote i k (k + length bs) (\<lambda>b. bs ! (b - k)) s (put_bytes (a + of_nat (k mod 4096)) bs t)"
proof -
  note kb = of_nat_block [OF k(1)]
  note B = bmap_correct [OF wf i kb run]
  show "a \<noteq> 0" by (fact B)
  let ?u = "put_bytes (a + of_nat (k mod 4096)) bs t"
  have a: "block t i (of_nat (k div 4096)) = a" using B(5) by simp
  note K = put_bytes_keeps [OF B(3) i kb, of "k mod 4096" bs, unfolded a, OF B(1) k(2)]
  have same: "fbyte t i b = fbyte s i b" if "b < 2097152" "mapped s i b" for b
  proof -
    have "block t i (of_nat (b div 4096)) = block s i (of_nat (b div 4096))" using B(5,7) that(2) by auto
    then have "fbyte t i b = file_byte (inode_table s i) (mem (mach t)) b" by (simp add: file_byte_def)
    also have "\<dots> = fbyte s i b"
      using fs_wfD(2) [OF wf i of_nat_block [OF that(1)] that(2)] B(6) by (intro file_byte_cong) blast
    finally show ?thesis .
  qed
  have map: "mapped t i b" if "mapped s i b \<or> b div 4096 = k div 4096" for b
    using that B(1,5) by auto
  have in_block: "b div 4096 = k div 4096" if "k \<le> b" "b < k + length bs" for b
    using within_block(1) [of k "b - k"] that k(2) by simp
  have "mapped ?u i b \<and> fbyte ?u i b =
      (if k \<le> b \<and> b < k + length bs then bs ! (b - k) else fbyte s i b)"
    if b: "b < 2097152" "mapped s i b \<or> k \<le> b \<and> b < k + length bs" for b
  proof -
    have m: "mapped t i b" using b(2) map in_block by blast
    from put_bytes_file_byte [OF B(3) i b(1) m k(1) _ k(2)] a B(1)
    have "fbyte ?u i b = (if k \<le> b \<and> b < k + length bs then bs ! (b - k) else fbyte t i b)" by simp
    with m same [OF b(1)] b(2) show ?thesis by auto
  qed
  moreover have "keeps i s ?u" using keeps_trans [OF B(4) K] B(3) i by simp
  moreover have "\<exists>ad. inode_table ?u i = (inode_table s i)\<lparr>addrs := ad\<rparr>" using B(5) by auto
  ultimately show "wrote i k (k + length bs) (\<lambda>b. bs ! (b - k)) s ?u"
    using B(3) unfolding wrote_def by auto
qed

lemma wrote_cong:
  "wrote i lo hi f s s' \<Longrightarrow> (\<And>b. lo \<le> b \<Longrightarrow> b < hi \<Longrightarrow> f b = g b) \<Longrightarrow> wrote i lo hi g s s'"
  unfolding wrote_def by auto

lemma wrote_refl: "fs_wf s \<Longrightarrow> wrote i lo lo f s s"
proof -
  assume "fs_wf s"
  moreover have "\<exists>ad. inode_table s i = (inode_table s i)\<lparr>addrs := ad\<rparr>" by (rule exI [of _ "addrs (inode_table s i)"]) simp
  ultimately show ?thesis by (auto simp: wrote_def)
qed

lemma writei_loop_wrote:
  assumes "fs_wf s" "i < 128" "unat off + unat n \<le> 2097152" "unat tot \<le> unat n" "unat n \<le> length src"
    and "writei_loop i src off n tot s = Some (t, s')"
  shows "t = n \<and> wrote i (unat off + unat tot) (unat off + unat n) (\<lambda>b. src ! (b - unat off)) s s'"
  using assms
proof (induction i src off n tot s rule: writei_loop.induct)
  case (1 i src off n tot s)
  show ?case
  proof (cases "tot < n")
    case True
    define k where "k = unat off + unat tot"
    define bs where "bs = take (unat (chunk off n tot)) (drop (unat tot) src)"
    note C = chunk_bounds [OF True, of off]
    have lt: "unat tot < unat n" using True by (simp add: word_less_nat_alt)
    have kw: "unat (off + tot) = k" using "1.prems"(3) lt by (simp add: unat_plus_if' k_def)
    then have bn: "(off + tot) div BSIZE = of_nat (k div 4096)" "(off + tot) mod BSIZE = of_nat (k mod 4096)"
      using block_of [of "off + tot"] by simp_all
    have len: "length bs = unat (chunk off n tot)" using C(2) lt "1.prems"(5) by (simp add: bs_def)
    have k: "k < 2097152" "k mod 4096 + length bs \<le> 4096" "bs \<noteq> []"
      using "1.prems"(3) lt C(1,3) len kw by (auto simp: k_def)
    obtain a u where u: "bmap i (of_nat (k div 4096)) s = Some (a, u)"
      using "1.prems"(6) True by (auto simp: writei_loop.simps [of i src off n tot] bn Let_def bind_eq_Some_conv)
    note W = block_write [OF "1.prems"(1,2) k u]
    let ?v = "put_bytes (a + of_nat (k mod 4096)) bs u"
    have run: "writei_loop i src off n (tot + chunk off n tot) ?v = Some (t, s')"
      using "1.prems"(6) True u W(1) by (simp add: writei_loop.simps [of i src off n tot] bn Let_def put_bytes_def bs_def)
    have tot: "unat off + unat (tot + chunk off n tot) = k + length bs" using C(4) len by (simp add: k_def)
    have wf: "fs_wf ?v" and le: "unat (tot + chunk off n tot) \<le> unat n" using W(2) C lt by (simp_all add: wrote_def)
    have IH: "t = n \<and> wrote i (k + length bs) (unat off + unat n) (\<lambda>b. src ! (b - unat off)) ?v s'"
      using "1.IH" [OF True refl refl refl, unfolded bn, OF u refl W(1), folded bs_def put_bytes_def,
          OF wf "1.prems"(2,3) le "1.prems"(5) run] by (simp only: tot)
    have "wrote i k (k + length bs) (\<lambda>b. src ! (b - unat off)) s ?v"
      by (rule wrote_cong [OF W(2)]) (use len C(2) lt "1.prems"(5) in \<open>auto simp: bs_def k_def algebra_simps\<close>)
    then have "wrote i k (unat off + unat n) (\<lambda>b. src ! (b - unat off)) s s'"
      by (rule wrote_trans [OF _ conjunct2 [OF IH] "1.prems"(2)]) (use len C(2) lt in \<open>simp_all add: k_def\<close>)
    then show ?thesis using IH by (simp add: k_def)
  next
    case False
    then have "tot = n" using "1.prems"(4) by (simp add: word_less_nat_alt word_unat_eq_iff)
    then show ?thesis using "1.prems"(1,6) by (simp add: writei_loop.simps [of i src off n] wrote_refl)
  qed
qed

text \<open>A transfer returns when there is a free page for each block it touches.\<close>

lemma chunk_full:
  assumes "tot < n" "unat (tot + chunk off n tot) < unat n"
  shows "unat (chunk off n tot) + unat (off + tot) mod 4096 = 4096"
proof -
  have m: "unat (BSIZE - (off + tot) mod BSIZE) = 4096 - unat (off + tot) mod 4096"
    by (simp add: unat_sub_if' BSIZE_def unat_mod)
  have nt: "unat (n - tot) = unat n - unat tot" using assms(1) by (simp add: unat_sub_if' word_less_nat_alt)
  have "unat tot + unat (chunk off n tot) < unat n" using assms chunk_bounds(4) [OF assms(1)] by simp
  then have "unat (chunk off n tot) = 4096 - unat (off + tot) mod 4096"
    by (auto simp: chunk_def Let_def m nt word_less_nat_alt split: if_splits)
  moreover have "unat (off + tot) mod 4096 < 4096" by simp
  ultimately show ?thesis by linarith
qed

lemma bmap_returns:
  assumes "fs_wf s" "bn < 512" "Suc n \<le> card (free_pages (frames (mach s)))"
  shows "\<exists>a s'. bmap i bn s = Some (a, s') \<and> n \<le> card (free_pages (frames (mach s')))"
proof -
  obtain a m where m: "frame_alloc (mach s) = Some (a, m)" "n \<le> card (free_pages (frames m))"
    using frame_alloc_free [OF fs_wfD(1) [OF assms(1)] assms(3)] by blast
  have bn: "\<not> NDIRECT \<le> bn" using assms(2) by (simp add: NDIRECT_def not_le)
  show ?thesis
  proof (cases "block s i bn = 0")
    case True
    then show ?thesis using m bn by (cases "a = 0") (simp_all add: bmap_def)
  next
    case False
    then show ?thesis using bn assms(3) by (simp add: bmap_def)
  qed
qed

lemma writei_loop_spares:
  assumes "fs_wf s" "i < 128" "unat off + unat n \<le> 2097152" "unat n \<le> length src"
    and "unat tot < unat n \<Longrightarrow>
      (unat off + unat n + 4095) div 4096 - (unat off + unat tot) div 4096 + p \<le> card (free_pages (frames (mach s)))"
    and "p \<le> card (free_pages (frames (mach s)))"
  shows "\<exists>t s'. writei_loop i src off n tot s = Some (t, s') \<and> p \<le> card (free_pages (frames (mach s')))"
  using assms
proof (induction i src off n tot s rule: writei_loop.induct)
  case (1 i src off n tot s)
  show ?case
  proof (cases "tot < n")
    case True
    define k where "k = unat off + unat tot"
    define bs where "bs = take (unat (chunk off n tot)) (drop (unat tot) src)"
    note C = chunk_bounds [OF True, of off]
    have lt: "unat tot < unat n" using True by (simp add: word_less_nat_alt)
    have kw: "unat (off + tot) = k" using "1.prems"(3) lt by (simp add: unat_plus_if' k_def)
    then have bn: "(off + tot) div BSIZE = of_nat (k div 4096)" "(off + tot) mod BSIZE = of_nat (k mod 4096)"
      using block_of [of "off + tot"] by simp_all
    have len: "length bs = unat (chunk off n tot)" using C(2) lt "1.prems"(4) by (simp add: bs_def)
    have k: "k < 2097152" "k mod 4096 + length bs \<le> 4096" "bs \<noteq> []"
      using "1.prems"(3) lt C(1,3) len kw by (auto simp: k_def)
    define need where "need = (unat off + unat n + 4095) div 4096 - k div 4096"
    have "k + 1 + 4095 \<le> unat off + unat n + 4095" using lt by (simp add: k_def)
    then have "(k + 1 + 4095) div 4096 \<le> (unat off + unat n + 4095) div 4096" by (rule div_le_mono)
    then have pos: "need \<ge> 1" by (simp add: need_def)
    then have "Suc (need - 1 + p) \<le> card (free_pages (frames (mach s)))"
      using "1.prems"(5) [OF lt] by (simp add: need_def k_def)
    from bmap_returns [OF "1.prems"(1) of_nat_block [OF k(1)] this] obtain a u
      where u: "bmap i (of_nat (k div 4096)) s = Some (a, u)" "need - 1 + p \<le> card (free_pages (frames (mach u)))" by blast
    note W = block_write [OF "1.prems"(1,2) k u(1)]
    let ?v = "put_bytes (a + of_nat (k mod 4096)) bs u"
    have wf: "fs_wf ?v" using W(2) by (simp add: wrote_def)
    have free: "(unat off + unat n + 4095) div 4096 - (unat off + unat (tot + chunk off n tot)) div 4096 + p
        \<le> card (free_pages (frames (mach ?v)))" if "unat (tot + chunk off n tot) < unat n"
    proof -
      have full: "unat (chunk off n tot) + k mod 4096 = 4096" using chunk_full [OF True that] kw by simp
      have "k + unat (chunk off n tot) = k div 4096 * 4096 + (unat (chunk off n tot) + k mod 4096)" by simp
      then have "k + unat (chunk off n tot) = (k div 4096 + 1) * 4096" by (simp only: full) simp
      then have "(unat off + unat (tot + chunk off n tot)) div 4096 = k div 4096 + 1"
        by (simp add: C(4) k_def add.assoc)
      then show ?thesis using u(2) by (simp add: need_def)
    qed
    have spare: "p \<le> card (free_pages (frames (mach ?v)))" using u(2) by simp
    have "\<exists>t s'. writei_loop i src off n (tot + chunk off n tot) ?v = Some (t, s') \<and> p \<le> card (free_pages (frames (mach s')))"
      using "1.IH" [OF True refl refl refl, unfolded bn, OF u(1) refl W(1), folded bs_def put_bytes_def,
          OF wf "1.prems"(2,3,4) free spare] .
    then show ?thesis
      using True u(1) W(1) by (simp add: writei_loop.simps [of i src off n tot] bn Let_def put_bytes_def bs_def)
  qed (use "1.prems"(6) in \<open>simp add: writei_loop.simps [of i src off n]\<close>)
qed

lemma writei_loop_returns:
  assumes "fs_wf s" "i < 128" "unat off + unat n \<le> 2097152" "unat n \<le> length src"
    and "unat tot < unat n \<Longrightarrow>
      (unat off + unat n + 4095) div 4096 - (unat off + unat tot) div 4096 \<le> card (free_pages (frames (mach s)))"
  shows "\<exists>t s'. writei_loop i src off n tot s = Some (t, s')"
  using writei_loop_spares [OF assms(1-4), of tot 0] assms(5) by auto

section \<open>Properties of the contents\<close>

definition overwrite :: "'a list \<Rightarrow> nat \<Rightarrow> 'a list \<Rightarrow> 'a list" where
  "overwrite xs k ys = take k xs @ ys @ drop (k + length ys) xs"

lemma wrote_contents:
  assumes wf: "fs_wf s" and i: "i < 128" and w: "wrote i k (k + length bs) (\<lambda>b. bs ! (b - k)) s s'"
    and k: "k \<le> unat (isize (inode_table s i))" "k + length bs \<le> 2097152"
    and sz: "unat sz = max (unat (isize (inode_table s i))) (k + length bs)"
    and s'': "s'' = upd_inode i (\<lambda>nd. nd\<lparr>isize := sz\<rparr>) s'"
  shows "fs_wf s''" "keeps i s s''" "contents s'' i = overwrite (contents s i) k bs"
proof -
  obtain ad where ad: "inode_table s' i = (inode_table s i)\<lparr>addrs := ad\<rparr>" using w by (auto simp: wrote_def)
  have wf': "fs_wf s'" and kp: "keeps i s s'" using w by (simp_all add: wrote_def)
  let ?n = "unat (isize (inode_table s i))"
  have n: "?n \<le> 2097152" using fs_wfD(4) [OF wf i] .
  have map: "mapped s i b" if "b < ?n" for b using fs_wfD(5) [OF wf i that] .
  have blk: "block s'' j bn = block s' j bn" for j bn by (simp add: s'')
  have fb: "file_byte (inode_table s'' i) m b = file_byte (inode_table s' i) m b" for m b
    by (simp add: file_byte_def s'')
  have new: "mapped s' i b \<and> fbyte s' i b = (if k \<le> b \<and> b < k + length bs then bs ! (b - k) else fbyte s i b)"
    if "b < unat sz" for b
  proof -
    have "b < 2097152" "b < ?n \<or> k \<le> b \<and> b < k + length bs" using that k n sz by (auto simp: max_def split: if_splits)
    then show ?thesis using w map [of b] unfolding wrote_def by blast
  qed
  have "isize (inode_table s'' j) \<le> MAXFILE \<and> (\<forall>b < unat (isize (inode_table s'' j)). mapped s'' j b)" if "j < 128" for j
  proof (cases "j = i")
    case True
    have "sz \<le> MAXFILE" using sz n k by (simp add: word_le_nat_alt MAXFILE_def NDIRECT_def BSIZE_def max_def)
    then show ?thesis using True new by (simp add: s'')
  next
    case False
    then show ?thesis using wf' that by (simp add: fs_wf_def s'')
  qed
  then show "fs_wf s''" using wf' unfolding fs_wf_def by (simp add: s'')
  show "keeps i s s''" using kp unfolding keeps_def by (simp add: s'')
  have len: "length (contents s i) = ?n" by (simp add: contents_def)
  show "contents s'' i = overwrite (contents s i) k bs"
  proof (rule nth_equalityI)
    show L: "length (contents s'' i) = length (overwrite (contents s i) k bs)"
    proof -
      have "length (contents s'' i) = unat sz" by (simp add: contents_def s'')
      then show ?thesis using k sz by (simp add: overwrite_def len max_def)
    qed
    fix b assume "b < length (contents s'' i)"
    then have b: "b < unat sz" by (simp add: contents_def s'')
    then have "contents s'' i ! b = (if k \<le> b \<and> b < k + length bs then bs ! (b - k) else fbyte s i b)"
      using new [OF b] by (simp add: contents_def s'' file_byte_def)
    also have "\<dots> = overwrite (contents s i) k bs ! b"
      using b sz k by (auto simp: overwrite_def nth_append len contents_def min_def max_def split: if_splits)
    finally show "contents s'' i ! b = overwrite (contents s i) k bs ! b" .
  qed
qed

lemma unat_MAXFILE: "unat MAXFILE = 2097152"
  by (simp add: MAXFILE_def NDIRECT_def BSIZE_def)

lemma blocks_needed: "(a + b + 4095) div 4096 \<le> a div 4096 + (b div 4096 + 2)" for a b :: nat
proof -
  have "a < 4096 + a div 4096 * 4096" "b < 4096 + b div 4096 * 4096" by (simp_all add: dividend_less_div_times)
  then have "a + b + 4095 < (a div 4096 + b div 4096 + 3) * 4096" by (simp add: algebra_simps)
  then have "(a + b + 4095) div 4096 < a div 4096 + b div 4096 + 3" by (subst div_less_iff_less_mult) simp_all
  then show ?thesis by simp
qed

text \<open>What \<open>writei\<close> has done when it returns, and when it returns.\<close>

definition write_post :: "u32 \<Rightarrow> u8 list \<Rightarrow> nat \<Rightarrow> memfs \<Rightarrow> memfs \<Rightarrow> bool" where
  "write_post ip bs k s s' \<longleftrightarrow> fs_wf s' \<and> contents s' ip = overwrite (contents s ip) k bs \<and> keeps ip s s' \<and>
     (\<exists>ad sz. inode_table s' ip = (inode_table s ip)\<lparr>addrs := ad, isize := sz\<rparr>) \<and>
     (\<forall>j < MAX_INODES. j \<noteq> ip \<longrightarrow> inode_table s' j = inode_table s j \<and> contents s' j = contents s j)"

lemma keeps_others:
  assumes "fs_wf s" "keeps ip s s'" "ip < 128"
  shows "\<forall>j < MAX_INODES. j \<noteq> ip \<longrightarrow> inode_table s' j = inode_table s j \<and> contents s' j = contents s j"
proof (intro allI impI)
  fix j :: u32 assume "j < MAX_INODES" "j \<noteq> ip"
  then have "j < 128" by (simp add: MAX_INODES_def)
  with \<open>j \<noteq> ip\<close> show "inode_table s' j = inode_table s j \<and> contents s' j = contents s j"
    using keepsD(1) [OF assms(2)] keeps_contents [OF assms] by blast
qed

lemma writei_guard:
  assumes "unat off + unat n < 2 ^ 32"
  shows "off > isize (inode_table s ip) \<or> off + n > MAXFILE \<longleftrightarrow>
    unat off > length (contents s ip) \<or> unat off + unat n > 2097152"
  using assms by (simp add: contents_def word_less_nat_alt unat_plus_if' unat_MAXFILE)

lemma writei_effect:
  assumes wf: "fs_wf s" "ip < MAX_INODES" and nw: "unat off + unat n < 2 ^ 32" and src: "unat n \<le> length src"
    and run: "writei ip src off n s = Some (r, s')"
  shows "if unat off > length (contents s ip) \<or> unat off + unat n > 2097152 then r = -1 \<and> s' = s
    else r = int (unat n) \<and> write_post ip (take (unat n) src) (unat off) s s'"
proof -
  have ip: "ip < 128" using wf(2) by (simp add: MAX_INODES_def)
  let ?nd = "inode_table s ip" and ?o = "unat off" and ?n = "unat n" and ?bs = "take (unat n) src"
  have len: "length (contents s ip) = unat (isize ?nd)" by (simp add: contents_def)
  have sum: "unat (off + n) = ?o + ?n" using nw by (simp add: unat_plus_if')
  note guard = writei_guard [OF nw, of s ip]
  show ?thesis
  proof (cases "off > isize ?nd \<or> off + n > MAXFILE")
    case True
    then show ?thesis using guard run by (simp add: writei_def)
  next
    case False
    then have le: "?o \<le> unat (isize ?nd)" "?o + ?n \<le> 2097152" using guard len by simp_all
    obtain t s1 where loop: "writei_loop ip src off n 0 s = Some (t, s1)"
      using run False by (auto simp: writei_def bind_eq_Some_conv)
    from writei_loop_wrote [OF wf(1) ip le(2) _ src loop] have t: "t = n"
      and w: "wrote ip ?o (?o + ?n) (\<lambda>b. src ! (b - ?o)) s s1" by auto
    have w': "wrote ip ?o (?o + length ?bs) (\<lambda>b. ?bs ! (b - ?o)) s s1"
      using w src by (auto simp: min_def intro: wrote_cong)
    obtain ad where ad: "inode_table s1 ip = ?nd\<lparr>addrs := ad\<rparr>" using w by (auto simp: wrote_def)
    define sz where "sz = (if off + n > isize ?nd then off + n else isize ?nd)"
    have "upd_inode ip (\<lambda>nd. nd\<lparr>isize := isize ?nd\<rparr>) s1 = s1" by (simp add: upd_inode_def fun_upd_idem ad)
    then have s': "s' = upd_inode ip (\<lambda>nd. nd\<lparr>isize := sz\<rparr>) s1" and r: "r = sint n"
      using False run loop by (auto simp: writei_def t ad sz_def Let_def)
    have "sint n = int ?n" using le(2) by (intro sint_small) simp
    then have "r = int ?n" using r by argo
    have usz: "unat sz = max (unat (isize ?nd)) (?o + length ?bs)"
      using src by (simp add: sz_def word_less_nat_alt sum max_def min_def)
    have "?o + length ?bs \<le> 2097152" using le(2) src by (simp add: min_def)
    note W = wrote_contents [OF wf(1) ip w' le(1) this usz s']
    have "inode_table s' ip = ?nd\<lparr>addrs := ad, isize := sz\<rparr>" by (simp add: s' ad)
    then have "write_post ip ?bs ?o s s'" unfolding write_post_def using W keeps_others [OF wf(1) W(2) ip] by blast
    with \<open>r = int ?n\<close> show ?thesis using False guard by auto
  qed
qed

text \<open>A write returns when there are enough pages, and leaves the rest of them free.\<close>

lemma writei_spares:
  assumes "fs_wf s" "ip < MAX_INODES" "unat off + unat n < 2 ^ 32" "unat n \<le> length src"
    and "unat n div 4096 + 2 + p \<le> card (free_pages (frames (mach s)))"
  shows "\<exists>r s'. writei ip src off n s = Some (r, s') \<and> p \<le> card (free_pages (frames (mach s')))"
proof (cases "off > isize (inode_table s ip) \<or> off + n > MAXFILE")
  case False
  have ip: "ip < 128" using assms(2) by (simp add: MAX_INODES_def)
  have le: "unat off + unat n \<le> 2097152" using False writei_guard [OF assms(3), of s ip] by simp
  have "(unat off + unat n + 4095) div 4096 \<le> unat off div 4096 + (unat n div 4096 + 2)" by (rule blocks_needed)
  then have "(unat off + unat n + 4095) div 4096 - unat off div 4096 + p \<le> card (free_pages (frames (mach s)))"
    using assms(5) by linarith
  then obtain t s1 where "writei_loop ip src off n 0 s = Some (t, s1)" "p \<le> card (free_pages (frames (mach s1)))"
    using writei_loop_spares [OF assms(1) ip le assms(4), of 0 p] assms(5) by auto
  with False show ?thesis by (simp add: writei_def Let_def upd_inode_def)
qed (use assms(5) in \<open>simp add: writei_def\<close>)

lemma writei_returns:
  assumes "fs_wf s" "ip < MAX_INODES" "unat off + unat n < 2 ^ 32" "unat n \<le> length src"
    and "unat n div 4096 + 2 \<le> card (free_pages (frames (mach s)))"
  shows "\<exists>r s'. writei ip src off n s = Some (r, s')"
  using writei_spares [OF assms(1-4), of 0] assms(5) by auto

section \<open>Shrinking, growing and releasing files\<close>

definition released :: "u32 \<Rightarrow> u32 \<Rightarrow> u32 \<Rightarrow> memfs \<Rightarrow> memfs \<Rightarrow> bool" where
  "released i lo hi s t \<longleftrightarrow>
     inode_table t = (inode_table s)(i := (inode_table s i)\<lparr>addrs :=
        (\<lambda>bn. if lo \<le> bn \<and> bn < hi then 0 else block s i bn)\<rparr>) \<and>
     mem (mach t) = mem (mach s) \<and> kernel_pdir (mach t) = kernel_pdir (mach s) \<and> cr3 (mach t) = cr3 (mach s) \<and>
     pmm_inv (frames (mach t)) \<and>
     (\<forall>p. page_aligned p \<longrightarrow> (owned (mach t) p \<longleftrightarrow> owned (mach s) p \<and>
        \<not> (\<exists>bn. lo \<le> bn \<and> bn < hi \<and> block s i bn = p \<and> p \<noteq> 0)))"

lemma release_block_step:
  assumes wf: "fs_wf s" and i: "i < 128" and b: "lo \<le> b" "b < 512" and t: "released i lo b s t"
  shows "released i lo (b + 1) s (release_block i b t)"
proof -
  have lt: "bn < b + 1 \<longleftrightarrow> bn < b \<or> bn = b" for bn
    using unat_plus1_less [OF b(2)] by (auto simp: word_less_nat_alt word_unat_eq_iff)
  have tab: "inode_table t = (inode_table s)(i := (inode_table s i)\<lparr>addrs :=
      (\<lambda>bn. if lo \<le> bn \<and> bn < b then 0 else block s i bn)\<rparr>)" using t by (simp add: released_def)
  then have a: "block t i b = block s i b" by simp
  have upd: "(\<lambda>bn. if lo \<le> bn \<and> bn < b then 0 else block s i bn)(b := 0) =
      (\<lambda>bn. if lo \<le> bn \<and> bn < b + 1 then 0 else block s i bn)" using b by (auto simp: lt)
  show ?thesis
  proof (cases "block s i b = 0")
    case True
    then have "(\<lambda>bn. if lo \<le> bn \<and> bn < b then 0 else block s i bn) =
        (\<lambda>bn. if lo \<le> bn \<and> bn < b + 1 then 0 else block s i bn)" using b by (auto simp: lt)
    moreover have "release_block i b t = t" using True a by (simp add: release_block_def)
    ultimately show ?thesis using t True unfolding released_def by (auto simp: lt)
  next
    case False
    note P = fs_wfD(2) [OF wf i b(2) False]
    note F = frame_free_correct [of "mach t" "block s i b", OF _ conjunct1 [OF P] False]
    have r: "release_block i b t = upd_inode i (\<lambda>n. n\<lparr>addrs := (addrs n)(b := 0)\<rparr>)
        (t\<lparr>mach := frame_free (block s i b) (mach t)\<rparr>)" using False a by (simp add: release_block_def)
    have "inode_table (release_block i b t) = (inode_table s)(i := (inode_table s i)\<lparr>addrs :=
        (\<lambda>bn. if lo \<le> bn \<and> bn < b + 1 then 0 else block s i bn)\<rparr>)"
      by (auto simp: fun_eq_iff r tab upd)
    moreover have "pmm_inv (frames (mach t))" using t by (simp add: released_def)
    ultimately show ?thesis using t F b False unfolding released_def r by (auto simp: lt)
  qed
qed

lemma release_blocks:
  assumes "fs_wf s" "i < 128" "lo \<le> 512"
  shows "released i lo 512 s (for_u32 (release_block i) lo NDIRECT s)"
proof -
  have "released i lo lo s s"
  proof -
    have "(\<lambda>bn. if lo \<le> bn \<and> bn < lo then 0 else block s i bn) = block s i" by (auto simp: fun_eq_iff)
    then show ?thesis using fs_wfD(1) [OF assms(1)] by (auto simp: released_def)
  qed
  then have "released i lo 512 s (for_u32 (release_block i) lo 512 s)"
    by (rule for_u32_index_rule [of "\<lambda>b. released i lo b s"]) (use assms release_block_step in auto)
  then show ?thesis by (simp add: NDIRECT_def)
qed

lemma released_correct:
  assumes wf: "fs_wf s" and i: "i < 128" and t: "released i lo 512 s t" and lo: "lo \<le> 512"
    and sz: "unat sz \<le> unat lo * 4096" "unat sz \<le> unat (isize (inode_table s i))"
    and s': "s' = upd_inode i f t"
    and f: "\<And>n. isize (f n) = sz" "\<And>n. addrs (f n) = addrs n"
  shows "fs_wf s'" "keeps i s s'" "contents s' i = take (unat sz) (contents s i)"
proof -
  note D = fs_wfD [OF wf]
  have tab: "inode_table t = (inode_table s)(i := (inode_table s i)\<lparr>addrs :=
      (\<lambda>bn. if lo \<le> bn \<and> bn < 512 then 0 else block s i bn)\<rparr>)"
    and own: "\<And>p. page_aligned p \<Longrightarrow> owned (mach t) p \<longleftrightarrow> owned (mach s) p \<and>
        \<not> (\<exists>bn. lo \<le> bn \<and> bn < 512 \<and> block s i bn = p \<and> p \<noteq> 0)"
    and m: "mem (mach t) = mem (mach s)" and inv: "pmm_inv (frames (mach t))"
    using t by (simp_all add: released_def)
  have blk: "block s' j bn = (if j = i \<and> lo \<le> bn \<and> bn < 512 then 0 else block s j bn)" for j bn
    by (simp add: s' tab f)
  have "page_aligned (block s' j bn) \<and> owned (mach s') (block s' j bn)"
    if "j < 128" "bn < 512" "block s' j bn \<noteq> 0" for j bn
  proof -
    have b: "block s' j bn = block s j bn" "\<not> (j = i \<and> lo \<le> bn)" using that by (auto simp: blk split: if_splits)
    have nz: "block s j bn \<noteq> 0" using that(3) b(1) by simp
    note P = D(2) [OF that(1,2) nz]
    have "\<not> (lo \<le> cn \<and> cn < 512 \<and> block s i cn = block s j bn)" for cn
      using D(3) [OF that(1) i that(2) _ nz, of cn] b(2) by auto
    then have "owned (mach t) (block s j bn)" using P own [of "block s j bn"] by blast
    moreover have "mach s' = mach t" by (simp add: s')
    ultimately show ?thesis using P by (simp add: b(1))
  qed
  moreover have "j = k \<and> bn = cn"
    if "j < 128" "k < 128" "bn < 512" "cn < 512" "block s' j bn \<noteq> 0" "block s' j bn = block s' k cn" for j k bn cn
    using that D(3) [of j k bn cn] by (auto simp: blk split: if_splits)
  moreover have "isize (inode_table s' j) \<le> MAXFILE \<and> (\<forall>k < unat (isize (inode_table s' j)). mapped s' j k)"
    if "j < 128" for j
  proof (cases "j = i")
    case True
    have "mapped s' i k" if "k < unat sz" for k
    proof -
      have "k div 4096 < unat lo" using that sz(1) by (simp add: div_less_iff_less_mult)
      then have "\<not> lo \<le> of_nat (k div 4096)" using unat_of_nat_below [of "k div 4096" lo] by (simp add: word_le_nat_alt)
      then show ?thesis using D(5) [OF i, of k] that sz(2) by (simp add: blk)
    qed
    moreover have "isize (inode_table s' i) = sz" by (simp add: s' f)
    moreover have "sz \<le> MAXFILE" using sz(2) D(4) [OF i] by (simp add: word_le_nat_alt unat_MAXFILE)
    ultimately show ?thesis using True by simp
  next
    case False
    then show ?thesis using wf that by (simp add: fs_wf_def blk) (simp add: s' tab)
  qed
  ultimately show wf': "fs_wf s'" unfolding fs_wf_def using inv by (simp add: s')
  show "keeps i s s'"
    unfolding keeps_def
  proof (intro conjI allI impI)
    show "inode_table s' j = inode_table s j" if "j \<noteq> i" for j using that by (simp add: s' tab)
    show "(\<exists>cn<512. block s i cn = block s' i bn) \<or> \<not> owned (mach s) (block s' i bn)"
      if "bn < 512" "block s' i bn \<noteq> 0" for bn using that by (auto simp: blk split: if_splits)
    show "owned (mach s') p" if "page_aligned p" "owned (mach s) p" "\<forall>bn<512. block s i bn = p \<longrightarrow> p = 0" for p
      using own that by (auto simp: s')
    show "mem (mach s') x = mem (mach s) x" for x using m by (simp add: s')
    show "kernel_pdir (mach s') = kernel_pdir (mach s)" "cr3 (mach s') = cr3 (mach s)"
      using t by (simp_all add: s' released_def)
  qed
  have "fbyte s' i b = fbyte s i b" if "b < unat sz" for b
  proof -
    have "mapped s' i b" using fs_wfD(5) [OF wf' i, of b] that by (simp add: s' f)
    then have "block s' i (of_nat (b div 4096)) = block s i (of_nat (b div 4096))" by (simp add: blk split: if_splits)
    moreover have "mem (mach s') = mem (mach s)" using m by (simp add: s')
    ultimately show ?thesis by (simp add: file_byte_def)
  qed
  then show "contents s' i = take (unat sz) (contents s i)"
    using sz(2) by (simp add: contents_def take_map s' f)
qed

lemma grow_as_write:
  assumes "unat o0 + unat n < 2 ^ 32" "unat tot \<le> unat n"
  shows "itruncate_grow ip (o0 + n) (o0 + tot) s =
    (case writei_loop ip (replicate (unat n) 0) o0 n tot s of
       None \<Rightarrow> None | Some (t, s') \<Rightarrow> Some (t = n, s'))"
  using assms
proof (induction ip "replicate (unat n) (0::u8)" o0 n tot s rule: writei_loop.induct)
  case (1 ip o0 n tot s)
  have u: "unat (o0 + n) = unat o0 + unat n" "unat (o0 + tot) = unat o0 + unat tot"
    using "1.prems" by (simp_all add: unat_plus_if')
  have lt: "o0 + tot < o0 + n \<longleftrightarrow> tot < n" by (simp add: word_less_nat_alt u)
  show ?case
  proof (cases "tot < n")
    case True
    note C = chunk_bounds [OF True, of o0]
    have "o0 + n - (o0 + tot) = n - tot" by simp
    then have sp: "span (o0 + tot) (o0 + n) = chunk o0 n tot" by (simp only: span_def chunk_def)
    have mn: "min (unat (chunk o0 n tot)) (unat n - unat tot) = unat (chunk o0 n tot)" using C(2) by simp
    have le: "unat (tot + chunk o0 n tot) \<le> unat n" using C True by (simp add: word_less_nat_alt)
    have ne: "tot \<noteq> n" using True by auto
    show ?thesis
    proof (cases "bmap ip ((o0 + tot) div BSIZE) s")
      case None
      then show ?thesis using True by (simp add: itruncate_grow.simps [of ip "o0 + n"] writei_loop.simps [of ip _ o0 n tot] lt)
    next
      case (Some r)
      obtain a u where r: "r = (a, u)" by (cases r)
      show ?thesis
      proof (cases "a = 0")
        case True': True
        then show ?thesis using Some r True ne
          by (simp add: itruncate_grow.simps [of ip "o0 + n"] writei_loop.simps [of ip _ o0 n tot] lt)
      next
        case False
        note IH = "1.hyps" [OF True refl refl refl Some [unfolded r] refl False "1.prems"(1) le]
        show ?thesis
          using Some r True False IH
          by (simp add: itruncate_grow.simps [of ip "o0 + n" "o0 + tot"] writei_loop.simps [of ip _ o0 n tot] lt sp
              kmemset_store mn add.assoc Let_def)
      qed
    qed
  next
    case False
    then have "tot = n" using "1.prems"(2) by (simp add: word_less_nat_alt word_unat_eq_iff)
    then show ?thesis by (simp add: itruncate_grow.simps [of ip "o0 + n"] writei_loop.simps [of ip _ o0 n])
  qed
qed

lemma itruncate_grows:
  assumes wf: "fs_wf s" and ip: "ip < 128" and sz: "isize (inode_table s ip) < sz" "unat sz \<le> 2097152"
    and free: "unat sz div 4096 + 2 \<le> card (free_pages (frames (mach s)))"
  shows "\<exists>s1. itruncate_grow ip sz (isize (inode_table s ip)) s = Some (True, s1) \<and>
    wrote ip (unat (isize (inode_table s ip))) (unat sz) (\<lambda>b. 0) s s1"
proof -
  define o0 where "o0 = isize (inode_table s ip)"
  define n where "n = sz - o0"
  have lt: "unat o0 < unat sz" using sz(1) by (simp add: o0_def word_less_nat_alt)
  then have n: "unat n = unat sz - unat o0" by (simp add: n_def unat_sub_if')
  have sum: "unat o0 + unat n = unat sz" using lt n by simp
  let ?z = "replicate (unat n) (0::u8)"
  have "(unat o0 + unat n + 4095) div 4096 - unat o0 div 4096 \<le> unat sz div 4096 + 2"
    using blocks_needed [of 0 "unat sz"] sum by simp
  then obtain t s1 where run: "writei_loop ip ?z o0 n 0 s = Some (t, s1)"
    using writei_loop_returns [OF wf ip, of o0 n ?z 0] free sum sz(2) by (auto intro: le_trans)
  from writei_loop_wrote [OF wf ip _ _ _ run] have t: "t = n"
    and w: "wrote ip (unat o0) (unat sz) (\<lambda>b. ?z ! (b - unat o0)) s s1"
    using sum sz(2) by auto
  have "itruncate_grow ip (o0 + n) (o0 + 0) s = Some (True, s1)"
    using grow_as_write [of o0 n 0 ip s] run t sum sz(2) by simp
  moreover have "o0 + n = sz" by (simp add: n_def)
  moreover have "wrote ip (unat o0) (unat sz) (\<lambda>b. 0) s s1"
    by (rule wrote_cong [OF w]) (use n in auto)
  ultimately show ?thesis by (simp add: o0_def)
qed

lemma itruncate_effect:
  assumes "fs_wf s" and "ip < MAX_INODES" and "unat sz div 4096 + 2 \<le> card (free_pages (frames (mach s)))"
  shows "if unat sz > 2097152 then itruncate ip sz s = Some (-1, s)
    else \<exists>s'. itruncate ip sz s = Some (0, s') \<and> fs_wf s' \<and>
      contents s' ip = take (unat sz) (contents s ip @ replicate (unat sz) 0) \<and>
      (\<forall>j < MAX_INODES. j \<noteq> ip \<longrightarrow> inode_table s' j = inode_table s j \<and> contents s' j = contents s j)"
proof -
  have ip: "ip < 128" using assms(2) by (simp add: MAX_INODES_def)
  let ?old = "isize (inode_table s ip)" and ?set = "upd_inode ip (\<lambda>n. n\<lparr>isize := sz\<rparr>)"
  have len: "length (contents s ip) = unat ?old" by (simp add: contents_def)
  show ?thesis
  proof (cases "sz > MAXFILE")
    case True
    then show ?thesis by (simp add: itruncate_def Let_def word_less_nat_alt unat_MAXFILE)
  next
    case False
    then have sz: "unat sz \<le> 2097152" by (simp add: word_less_nat_alt unat_MAXFILE)
    consider (shrink) "sz < ?old" | (grow) "?old < sz" | (same) "sz = ?old" by force
    then have "\<exists>s'. itruncate ip sz s = Some (0, s') \<and> fs_wf s' \<and> keeps ip s s' \<and>
        contents s' ip = take (unat sz) (contents s ip @ replicate (unat sz) 0)"
    proof cases
      case shrink
      let ?lo = "(sz + BSIZE - 1) div BSIZE" and ?s = "for_u32 (release_block ip) ((sz + BSIZE - 1) div BSIZE) NDIRECT s"
      have "unat (sz + BSIZE - 1) = unat sz + 4095" using sz by (simp add: BSIZE_def unat_plus_if')
      then have lo: "unat ?lo = (unat sz + 4095) div 4096" by (simp add: BSIZE_def unat_div)
      then have "unat ?lo < 513" using sz by (simp add: div_less_iff_less_mult)
      then have le: "?lo \<le> 512" by (simp add: word_le_nat_alt)
      have "unat sz \<le> unat ?lo * 4096" unfolding lo using dividend_less_div_times [of 4096 "unat sz + 4095"] by simp
      note R = released_correct [OF assms(1) ip release_blocks [OF assms(1) ip le] le this _ refl [of "?set ?s"]]
      have "unat sz \<le> unat ?old" using shrink by (simp add: word_less_nat_alt)
      moreover have "itruncate ip sz s = Some (0, ?set ?s)" using False shrink by (simp add: itruncate_def Let_def)
      ultimately show ?thesis using R by (simp add: len)
    next
      case grow
      from itruncate_grows [OF assms(1) ip grow sz assms(3)] obtain s1
        where run: "itruncate_grow ip sz ?old s = Some (True, s1)" and w: "wrote ip (unat ?old) (unat sz) (\<lambda>b. 0) s s1" by blast
      define bs where "bs = replicate (unat sz - unat ?old) (0::u8)"
      have lt: "unat ?old < unat sz" using grow by (simp add: word_less_nat_alt)
      then have hi: "unat ?old + length bs = unat sz" by (simp add: bs_def)
      have "wrote ip (unat ?old) (unat ?old + length bs) (\<lambda>b. bs ! (b - unat ?old)) s s1"
        unfolding hi by (rule wrote_cong [OF w]) (simp add: bs_def)
      note W = wrote_contents [OF assms(1) ip this le_refl _ _ refl, of sz, unfolded hi, OF sz]
      have "contents (?set s1) ip = contents s ip @ bs"
        using W(3) lt by (simp add: overwrite_def len hi)
      moreover have "take (unat sz) (contents s ip @ replicate (unat sz) 0) = contents s ip @ bs"
        using lt by (simp add: len bs_def)
      moreover have "itruncate ip sz s = Some (0, ?set s1)" using False grow run by (simp add: itruncate_def Let_def)
      ultimately show ?thesis using W(1,2) lt by simp
    next
      case same
      have "?set s = s" by (simp add: upd_inode_def same)
      then show ?thesis using same False assms(1) by (simp add: itruncate_def Let_def len)
    qed
    then obtain s' where s': "itruncate ip sz s = Some (0, s')" "fs_wf s'" "keeps ip s s'"
      "contents s' ip = take (unat sz) (contents s ip @ replicate (unat sz) 0)" by blast
    have "\<not> unat sz > 2097152" using sz by simp
    with s' keeps_others [OF assms(1) s'(3) ip] show ?thesis by (simp only: if_False) blast
  qed
qed

text \<open>
  \<open>itruncate\<close>. A size above \<open>MAXFILE\<close> is refused with -1 and no change. Otherwise, with enough
  free pages, the file has the new size: its old contents cut off, or extended with zero bytes, also
  where a freed or partly used block is exposed again; the other inodes are unchanged and the file
  system stays well-formed.
\<close>

lemma itruncate_correct:
  assumes "fs_wf s" and "ip < MAX_INODES" and "unat sz div 4096 + 2 \<le> card (free_pages (frames (mach s)))"
  shows "if unat sz > 2097152 then itruncate ip sz s = Some (-1, s)
    else \<exists>s'. itruncate ip sz s = Some (0, s') \<and> fs_wf s' \<and>
      contents s' ip = take (unat sz) (contents s ip @ replicate (unat sz) 0) \<and>
      (\<forall>j < MAX_INODES. j \<noteq> ip \<longrightarrow> inode_table s' j = inode_table s j \<and> contents s' j = contents s j)"
  using assms by (rule itruncate_effect)

lemma ifree_effect:
  assumes "fs_wf s" and "ip < MAX_INODES"
  shows "fs_wf (ifree ip s) \<and> iget ip (ifree ip s) = None \<and> contents (ifree ip s) ip = [] \<and>
    (\<forall>p. page_aligned p \<longrightarrow> (owned (mach (ifree ip s)) p \<longleftrightarrow>
       owned (mach s) p \<and> \<not> (p \<noteq> 0 \<and> (\<exists>bn<NDIRECT. addrs (inode_table s ip) bn = p)))) \<and>
    (\<forall>j < MAX_INODES. j \<noteq> ip \<longrightarrow> inode_table (ifree ip s) j = inode_table s j \<and> contents (ifree ip s) j = contents s j)"
proof -
  have ip: "ip < 128" using assms(2) by (simp add: MAX_INODES_def)
  let ?t = "for_u32 (release_block ip) 0 NDIRECT s"
  have R: "released ip 0 512 s ?t" by (rule release_blocks [OF assms(1) ip]) simp
  define f where "f = (\<lambda>n::inode. n\<lparr>isize := 0, itype := 0, nlink := 0\<rparr>)"
  have e: "ifree ip s = upd_inode ip f ?t" by (simp add: ifree_def itrunc_def upd_inode_def f_def)
  have f: "isize (f n) = 0" "addrs (f n) = addrs n" for n by (simp_all add: f_def)
  note C = released_correct [OF assms(1) ip R _ _ _ e f, simplified]
  moreover have "iget ip (ifree ip s) = None" by (simp add: iget_def e f_def)
  moreover have "owned (mach (ifree ip s)) p \<longleftrightarrow>
       owned (mach s) p \<and> \<not> (p \<noteq> 0 \<and> (\<exists>bn<NDIRECT. addrs (inode_table s ip) bn = p))" if "page_aligned p" for p
    using R that by (auto simp: e released_def NDIRECT_def)
  ultimately show ?thesis using C keeps_others [OF assms(1) C(2) ip] by simp
qed

text \<open>
  \<open>ifree\<close>. Releasing an inode makes its slot unused and its file empty, gives back exactly the
  pages of its blocks, and leaves every other inode and file unchanged.
\<close>

lemma ifree_correct:
  assumes "fs_wf s" and "ip < MAX_INODES"
  shows "fs_wf (ifree ip s) \<and> iget ip (ifree ip s) = None \<and> contents (ifree ip s) ip = [] \<and>
    (\<forall>p. page_aligned p \<longrightarrow> (owned (mach (ifree ip s)) p \<longleftrightarrow>
       owned (mach s) p \<and> \<not> (p \<noteq> 0 \<and> (\<exists>bn<NDIRECT. addrs (inode_table s ip) bn = p)))) \<and>
    (\<forall>j < MAX_INODES. j \<noteq> ip \<longrightarrow> inode_table (ifree ip s) j = inode_table s j \<and> contents (ifree ip s) j = contents s j)"
  using assms by (rule ifree_effect)

lemma ialloc_loop_correct:
  assumes "1 \<le> i" "i \<le> MAX_INODES"
  shows "case ialloc_loop i type maj mnr s of
      (None, s') \<Rightarrow> s' = s \<and> (\<forall>j. i \<le> j \<longrightarrow> j < MAX_INODES \<longrightarrow> itype (inode_table s j) \<noteq> 0)
    | (Some n, s') \<Rightarrow> i \<le> n \<and> n < MAX_INODES \<and> itype (inode_table s n) = 0 \<and>
        (\<forall>j. i \<le> j \<longrightarrow> j < n \<longrightarrow> itype (inode_table s j) \<noteq> 0) \<and>
        s' = upd_inode n (\<lambda>_. empty_inode\<lparr>inum := n, itype := type, major := maj, minor := mnr,
               nlink := 1, mode := default_mode type\<rparr>) s"
  using assms
proof (induction i type maj mnr s rule: ialloc_loop.induct)
  case (1 i type maj mnr s)
  show ?case
  proof (cases "i < MAX_INODES")
    case True
    have i1: "1 \<le> i + 1" "i + 1 \<le> MAX_INODES"
      using True unat_plus1_less [OF True] by (simp_all add: word_le_nat_alt word_less_nat_alt)
    have le: "i \<le> j \<longleftrightarrow> j = i \<or> i + 1 \<le> j" for j
      using unat_plus1_less [OF True] by (auto simp: word_le_nat_alt word_unat_eq_iff)
    show ?thesis
    proof (cases "itype (inode_table s i) = 0")
      case False
      show ?thesis
        using "1.IH" [OF True False i1] True False
        by (auto simp: ialloc_loop.simps [of i] le split: prod.splits option.splits)
    qed (use True in \<open>auto simp: ialloc_loop.simps [of i]\<close>)
  next
    case False
    then show ?thesis by (auto simp: ialloc_loop.simps [of i])
  qed
qed

lemma ialloc_effect:
  assumes "fs_wf s" and "type \<noteq> 0"
  shows "case ialloc type maj mnr s of
      (None, s') \<Rightarrow> s' = s \<and> (\<forall>j. 1 \<le> j \<longrightarrow> j < MAX_INODES \<longrightarrow> iget j s \<noteq> None)
    | (Some n, s') \<Rightarrow> 1 \<le> n \<and> n < MAX_INODES \<and> iget n s = None \<and> (\<forall>j. 1 \<le> j \<longrightarrow> j < n \<longrightarrow> iget j s \<noteq> None) \<and>
        iget n s' = Some n \<and> contents s' n = [] \<and> fs_wf s' \<and>
        itype (inode_table s' n) = type \<and> nlink (inode_table s' n) = 1 \<and> mode (inode_table s' n) = default_mode type \<and>
        major (inode_table s' n) = maj \<and> minor (inode_table s' n) = mnr \<and>
        (\<forall>j. j \<noteq> n \<longrightarrow> inode_table s' j = inode_table s j \<and> contents s' j = contents s j)"
proof -
  have used: "iget j s \<noteq> None \<longleftrightarrow> itype (inode_table s j) \<noteq> 0" if "1 \<le> j" "j < MAX_INODES" for j
    using that by (auto simp: iget_def word_le_nat_alt word_less_nat_alt)
  show ?thesis
  proof (cases "ialloc type maj mnr s")
    case (Pair r s')
    then have L: "case (r, s') of
      (None, s') \<Rightarrow> s' = s \<and> (\<forall>j. 1 \<le> j \<longrightarrow> j < MAX_INODES \<longrightarrow> itype (inode_table s j) \<noteq> 0)
    | (Some n, s') \<Rightarrow> 1 \<le> n \<and> n < MAX_INODES \<and> itype (inode_table s n) = 0 \<and>
        (\<forall>j. 1 \<le> j \<longrightarrow> j < n \<longrightarrow> itype (inode_table s j) \<noteq> 0) \<and>
        s' = upd_inode n (\<lambda>_. empty_inode\<lparr>inum := n, itype := type, major := maj, minor := mnr,
               nlink := 1, mode := default_mode type\<rparr>) s"
      using ialloc_loop_correct [where i = 1 and type = type and maj = maj and mnr = mnr and s = s] by (simp add: ialloc_def MAX_INODES_def)
    show ?thesis
    proof (cases r)
      case None
      then show ?thesis using L Pair used by auto
    next
      case (Some n)
      with L have n: "1 \<le> n" "n < MAX_INODES" "itype (inode_table s n) = 0"
        "\<And>j. 1 \<le> j \<Longrightarrow> j < n \<Longrightarrow> itype (inode_table s j) \<noteq> 0"
        and s': "s' = upd_inode n (\<lambda>_. empty_inode\<lparr>inum := n, itype := type, major := maj, minor := mnr,
               nlink := 1, mode := default_mode type\<rparr>) s" by auto
      have blk: "block s' j bn = (if j = n then 0 else block s j bn)" for j bn by (simp add: s' empty_inode_def)
      have sz: "isize (inode_table s' j) = (if j = n then 0 else isize (inode_table s j))" for j by (simp add: s' empty_inode_def)
      have "fs_wf s'"
        using assms(1) unfolding fs_wf_def by (auto simp: blk sz) (auto simp: s')
      moreover have "contents s' n = []" by (simp add: contents_def s' empty_inode_def)
      moreover have "inode_table s' j = inode_table s j \<and> contents s' j = contents s j" if "j \<noteq> n" for j
        using that by (simp add: contents_def s')
      moreover have "iget n s = None" using n(3) by (simp add: iget_def)
      moreover have "iget j s \<noteq> None" if "1 \<le> j" "j < n" for j using n(4) [OF that] used [of j] that n(2) by force
      moreover have "iget n s' = Some n" using n(1,2) assms(2) by (auto simp: iget_def s' word_le_nat_alt word_less_nat_alt)
      ultimately show ?thesis using Pair Some n(1,2) by (simp add: s' empty_inode_def)
    qed
  qed
qed

text \<open>
  \<open>ialloc\<close>. It fails, changing nothing, exactly when the inodes 1 to 127 are all in use; otherwise
  it returns the lowest unused one, now in use, empty, with one link, the requested type and device
  numbers and the default permissions, and leaves the other inodes and files unchanged.
\<close>

lemma ialloc_correct:
  assumes "fs_wf s" and "type \<noteq> 0"
  shows "case ialloc type maj mnr s of
      (None, s') \<Rightarrow> s' = s \<and> (\<forall>j. 1 \<le> j \<longrightarrow> j < MAX_INODES \<longrightarrow> iget j s \<noteq> None)
    | (Some n, s') \<Rightarrow> 1 \<le> n \<and> n < MAX_INODES \<and> iget n s = None \<and> (\<forall>j. 1 \<le> j \<longrightarrow> j < n \<longrightarrow> iget j s \<noteq> None) \<and>
        iget n s' = Some n \<and> contents s' n = [] \<and> fs_wf s' \<and>
        itype (inode_table s' n) = type \<and> nlink (inode_table s' n) = 1 \<and> mode (inode_table s' n) = default_mode type \<and>
        major (inode_table s' n) = maj \<and> minor (inode_table s' n) = mnr \<and>
        (\<forall>j. j \<noteq> n \<longrightarrow> inode_table s' j = inode_table s j \<and> contents s' j = contents s j)"
  using assms by (rule ialloc_effect)

section \<open>Properties: reading and writing\<close>

text \<open>
  (C22) \<open>readi\<close> returns exactly the bytes of the file: the \<open>n\<close> bytes from offset \<open>off\<close>, cut at the end of
  the file, provided \<open>off + n\<close> does not wrap around. At or past the end it returns nothing.
\<close>

theorem readi_correct:
  assumes "fs_wf s" and "ip < MAX_INODES" and "unat off + unat n < 2 ^ 32"
  shows "readi ip off n s =
    (int (length (take (unat n) (drop (unat off) (contents s ip)))), take (unat n) (drop (unat off) (contents s ip)))"
  by (rule readi_contents [OF assms])

text \<open>
  (C20) \<open>writei\<close>. On a well-formed file system, a write that starts past the end of the file or would
  end past \<open>MAXFILE\<close> returns -1 and changes nothing. Any other write for which the free pages suffice
  returns the number of bytes asked for; the file's contents are the old ones with the bytes
  overwrited in at the offset, every other inode and its contents are unchanged, and the file system is
  well-formed.
\<close>

theorem writei_correct:
  assumes "fs_wf s" and "ip < MAX_INODES" and "unat off + unat n < 2 ^ 32" and "unat n \<le> length src"
    and "unat n div 4096 + 2 \<le> card (free_pages (frames (mach s)))"
  shows "if unat off > length (contents s ip) \<or> unat off + unat n > 2097152
    then writei ip src off n s = Some (-1, s)
    else \<exists>s'. writei ip src off n s = Some (int (unat n), s') \<and> fs_wf s' \<and>
      contents s' ip = overwrite (contents s ip) (unat off) (take (unat n) src) \<and>
      (\<forall>j < MAX_INODES. j \<noteq> ip \<longrightarrow> inode_table s' j = inode_table s j \<and> contents s' j = contents s j)"
proof -
  obtain r s' where run: "writei ip src off n s = Some (r, s')" using writei_returns [OF assms] by blast
  from writei_effect [OF assms(1-4) run] show ?thesis unfolding write_post_def using run by (auto split: if_splits)
qed

section \<open>Witnesses\<close>

text \<open>A file system with one empty file, inode 1, and 64 free pages.\<close>

definition fs_example :: memfs where
  "fs_example = \<lparr>inode_table = (\<lambda>_. empty_inode)(1 := empty_inode\<lparr>inum := 1, itype := T_FILE\<rparr>),
     mach = boot_example\<rparr>"

lemma fs_example_wf: "fs_wf fs_example" "64 \<le> card (free_pages (frames (mach fs_example)))" "contents fs_example i = []"
  using boot_example_ready by (auto simp: fs_wf_def fs_example_def empty_inode_def contents_def)

lemma fs_example_inode: "(1 :: u32) < MAX_INODES"
  by (simp add: MAX_INODES_def)

theorem writei_correct_witness:
  "\<exists>s'. writei 1 [7, 8, 9] 0 3 fs_example = Some (3, s') \<and> contents s' 1 = [7, 8, 9] \<and> fs_wf s'"
  using writei_correct [of fs_example 1 0 3 "[7, 8, 9]"] fs_example_wf fs_example_inode
  by (auto simp: overwrite_def)

lemma itruncate_correct_witness:
  "\<exists>s'. itruncate 1 2 fs_example = Some (0, s') \<and> contents s' 1 = [0, 0] \<and> fs_wf s'"
proof -
  have "replicate 2 (0::u8) = [0, 0]" by (simp add: numeral_2_eq_2)
  then show ?thesis
    using itruncate_correct [of fs_example 1 2] fs_example_wf fs_example_inode by auto
qed

text \<open>The same inode with three bytes in the page at 1 MiB.\<close>

definition file_example :: memfs where
  "file_example = \<lparr>inode_table = (\<lambda>_. empty_inode)(1 := empty_inode\<lparr>inum := 1, itype := T_FILE, isize := 3,
       addrs := (\<lambda>_. 0)(0 := 0x100000)\<rparr>),
     mach = boot_example\<lparr>mem := (\<lambda>_. 0)(0x100000 := 7, 0x100001 := 8, 0x100002 := 9)\<rparr>\<rparr>"

lemma file_example_wf: "fs_wf file_example" "contents file_example 1 = [7, 8, 9]"
proof -
  have "page_aligned 0x100000" by (simp add: page_aligned_def)
  then show "fs_wf file_example"
    using boot_example_ready by (auto simp: fs_wf_def file_example_def empty_inode_def unat_MAXFILE word_le_nat_alt)
  show "contents file_example 1 = [7, 8, 9]"
  proof -
    have "[0..<3] = [0, 1, 2::nat]" by (simp add: upt_rec)
    then show ?thesis by (simp add: contents_def file_example_def empty_inode_def file_byte_def)
  qed
qed

theorem readi_correct_witness: "fs_wf file_example \<and> readi 1 1 10 file_example = (2, [8, 9])"
  using readi_correct [of file_example 1 1 10] file_example_wf fs_example_inode by simp

lemma ifree_correct_witness:
  "iget 1 file_example = Some 1 \<and> iget 1 (ifree 1 file_example) = None \<and>
   \<not> owned (mach (ifree 1 file_example)) 0x100000"
proof -
  have "addrs (inode_table file_example 1) 0 = 0x100000" "(0 :: u32) < NDIRECT"
    by (simp_all add: file_example_def NDIRECT_def)
  moreover have "iget 1 file_example = Some 1" by (simp add: iget_def file_example_def MAX_INODES_def T_FILE_def word_le_nat_alt)
  ultimately show ?thesis
    using ifree_correct [OF file_example_wf(1) fs_example_inode] by (auto simp: page_aligned_def)
qed

lemma ialloc_correct_witness:
  "\<exists>s'. ialloc T_DIR 0 0 fs_example = (Some 2, s') \<and> iget 2 s' = Some 2 \<and> mode (inode_table s' 2) = MODE_DIR"
proof -
  have free: "iget 2 fs_example = None" and used: "iget 1 fs_example = Some 1"
    by (simp_all add: iget_def fs_example_def MAX_INODES_def empty_inode_def T_FILE_def word_le_nat_alt)
  have "T_DIR \<noteq> 0" by (simp add: T_DIR_def)
  note A = ialloc_correct [OF fs_example_wf(1) this, of 0 0]
  show ?thesis
  proof (cases "ialloc T_DIR 0 0 fs_example")
    case (Pair r s')
    show ?thesis
    proof (cases r)
      case None
      with A Pair have "\<forall>j. 1 \<le> j \<longrightarrow> j < MAX_INODES \<longrightarrow> iget j fs_example \<noteq> None" by auto
      from this [rule_format, of 2] free have False by (simp add: MAX_INODES_def)
      then show ?thesis ..
    next
      case (Some n)
      with A Pair have n: "1 \<le> n" "n < MAX_INODES" "iget n fs_example = None" "\<forall>j. 1 \<le> j \<longrightarrow> j < n \<longrightarrow> iget j fs_example \<noteq> None"
        "iget n s' = Some n" "mode (inode_table s' n) = default_mode T_DIR" by auto
      have "n = 2"
      proof (rule ccontr)
        assume "n \<noteq> 2"
        moreover have "n \<noteq> 1" using n(3) used by auto
        ultimately have "2 < n" using n(1) by (simp add: word_le_nat_alt word_less_nat_alt word_unat_eq_iff)
        with n(4) [rule_format, of 2] free show False by simp
      qed
      with n(5,6) Pair Some show ?thesis by (simp add: default_mode_def)
    qed
  qed
qed

end
