(* ===== verification/Pipe.thy ===== *)
theory Pipe
  imports Byte_Stream Memfs
begin

text \<open>
  Pipes (\<open>struct pipe\<close> of \<open>kernel/fs/fs.h\<close> and the pipe branches of \<open>fileread\<close> and \<open>filewrite\<close> in
  \<open>kernel/fs/fs.c\<close>): a ring of 2048 bytes with the reader and writer counts. A transfer stops at the end
  of the ring, so it can be shorter than what fits.
\<close>

definition EAGAIN :: int where "EAGAIN = 11"
definition EPIPE :: int where "EPIPE = 32"

definition PIPE_BUF_SIZE :: u32 where "PIPE_BUF_SIZE = 2048"

record pipe =
  pbuf :: "u8 list"
  pr :: u32
  pw :: u32
  pcount :: u32
  readers :: int
  writers :: int

text \<open>The pipe \<open>vfs_pipe\<close> makes: a zeroed page with one reader and one writer.\<close>

definition new_pipe :: pipe where
  "new_pipe = \<lparr>pbuf = replicate 2048 0, pr = 0, pw = 0, pcount = 0, readers = 1, writers = 1\<rparr>"

definition pipe_read :: "pipe \<Rightarrow> int \<Rightarrow> int \<times> u8 list \<times> pipe" where
  "pipe_read p n =
     (if pcount p = 0 then (if writers p > 0 then - EAGAIN else 0, [], p)
      else
        (let len = (word_of_int n :: u32);
             len = (if len > pcount p then pcount p else len);
             first = PIPE_BUF_SIZE - pr p;
             len = (if len > first then first else len)
         in (sint len, take (unat len) (drop (unat (pr p)) (pbuf p)),
             p\<lparr>pr := (pr p + len) mod PIPE_BUF_SIZE, pcount := pcount p - len\<rparr>)))"

definition pipe_write :: "pipe \<Rightarrow> u8 list \<Rightarrow> int \<Rightarrow> int \<times> pipe" where
  "pipe_write p src n =
     (if readers p = 0 then (- EPIPE, p)
      else if pcount p \<ge> PIPE_BUF_SIZE then (- EAGAIN, p)
      else
        (let space = PIPE_BUF_SIZE - pcount p;
             len = (word_of_int n :: u32);
             len = (if len > space then space else len);
             first = PIPE_BUF_SIZE - pw p;
             len = (if len > first then first else len)
         in (sint len,
             p\<lparr>pbuf := overwrite (pbuf p) (unat (pw p)) (take (unat len) src),
               pw := (pw p + len) mod PIPE_BUF_SIZE, pcount := pcount p + len\<rparr>)))"

section \<open>The ring as a queue\<close>

definition pipe_wf :: "pipe \<Rightarrow> bool" where
  "pipe_wf p \<longleftrightarrow> length (pbuf p) = 2048 \<and> pr p < 2048 \<and> pw p < 2048 \<and> pcount p \<le> 2048 \<and>
     unat (pw p) = (unat (pr p) + unat (pcount p)) mod 2048"

definition pipe_held :: "pipe \<Rightarrow> u8 list" where
  "pipe_held p = map (\<lambda>i. pbuf p ! ((unat (pr p) + i) mod 2048)) [0..<unat (pcount p)]"

lemma pipe_wfD:
  assumes "pipe_wf p"
  shows "length (pbuf p) = 2048" "unat (pr p) < 2048" "unat (pw p) < 2048" "unat (pcount p) \<le> 2048"
    "unat (pw p) = (unat (pr p) + unat (pcount p)) mod 2048"
  using assms by (auto simp: pipe_wf_def word_less_nat_alt word_le_nat_alt)

lemma mod_ring: "a < 4096 \<Longrightarrow> a mod 2048 = (if a < 2048 then a else a - 2048)" for a :: nat
  by (simp add: mod_if)

lemma unat_ring_add: "unat a + unat b < 4096 \<Longrightarrow> unat ((a + b) mod PIPE_BUF_SIZE) = (unat a + unat b) mod 2048" for a b :: u32
  by (simp add: PIPE_BUF_SIZE_def unat_mod unat_plus_if')

lemma length_pipe_held [simp]: "length (pipe_held p) = unat (pcount p)"
  by (simp add: pipe_held_def)

text \<open>The number of bytes each transfer moves.\<close>

definition read_len :: "pipe \<Rightarrow> nat \<Rightarrow> nat" where
  "read_len p n = min n (min (unat (pcount p)) (2048 - unat (pr p)))"

definition write_len :: "pipe \<Rightarrow> nat \<Rightarrow> nat" where
  "write_len p n = min n (min (2048 - unat (pcount p)) (2048 - unat (pw p)))"

lemma unat_space: "unat w \<le> 2048 \<Longrightarrow> unat (PIPE_BUF_SIZE - w) = 2048 - unat w"
  by (simp add: PIPE_BUF_SIZE_def unat_sub_if')

lemma pipe_read_len:
  assumes wf: "pipe_wf p" and c: "pcount p \<noteq> 0"
  obtains len where "unat len = read_len p (unat (word_of_int n :: u32))"
    "pipe_read p n = (int (unat len), take (unat len) (drop (unat (pr p)) (pbuf p)),
       p\<lparr>pr := (pr p + len) mod PIPE_BUF_SIZE, pcount := pcount p - len\<rparr>)"
proof -
  note W = pipe_wfD [OF wf]
  define len where "len = (let len = (if word_of_int n > pcount p then pcount p else word_of_int n); first = PIPE_BUF_SIZE - pr p
      in if len > first then first else len)"
  have len: "unat len = read_len p (unat (word_of_int n :: u32))"
    using W(2) by (auto simp: len_def Let_def read_len_def word_less_nat_alt unat_space min_def)
  then have "sint len = int (unat len)" using W(4) by (intro sint_small) (simp add: read_len_def)
  then show thesis
    using c by (intro that [OF len]) (simp add: pipe_read_def Let_def len_def)
qed

lemma pipe_write_len:
  assumes wf: "pipe_wf p" and c: "unat (pcount p) < 2048" and r: "readers p \<noteq> 0"
  obtains len where "unat len = write_len p (unat (word_of_int n :: u32))"
    "pipe_write p src n = (int (unat len), p\<lparr>pbuf := overwrite (pbuf p) (unat (pw p)) (take (unat len) src),
       pw := (pw p + len) mod PIPE_BUF_SIZE, pcount := pcount p + len\<rparr>)"
proof -
  note W = pipe_wfD [OF wf]
  define len where "len = (let space = PIPE_BUF_SIZE - pcount p; len = (if word_of_int n > space then space else word_of_int n);
      first = PIPE_BUF_SIZE - pw p in if len > first then first else len)"
  have len: "unat len = write_len p (unat (word_of_int n :: u32))"
    using W(3,4) by (auto simp: len_def Let_def write_len_def word_less_nat_alt unat_space min_def)
  then have "sint len = int (unat len)" by (intro sint_small) (simp add: write_len_def)
  moreover have "\<not> pcount p \<ge> PIPE_BUF_SIZE" using c by (simp add: PIPE_BUF_SIZE_def word_le_nat_alt)
  ultimately show thesis
    using r by (intro that [OF len]) (simp add: pipe_write_def Let_def len_def)
qed

lemma pipe_read_correct_lemma:
  assumes wf: "pipe_wf p" and run: "pipe_read p n = (r, bs, p')"
  shows "pipe_wf p'" "pipe_held p = bs @ pipe_held p'" "readers p' = readers p" "writers p' = writers p"
    "length bs = read_len p (unat (word_of_int n :: u32))"
    "r = (if pcount p = 0 then if writers p > 0 then - EAGAIN else 0 else int (length bs))"
proof -
  note W = pipe_wfD [OF wf]
  have "pipe_wf p' \<and> pipe_held p = bs @ pipe_held p' \<and> readers p' = readers p \<and> writers p' = writers p \<and>
    length bs = read_len p (unat (word_of_int n :: u32)) \<and>
    r = (if pcount p = 0 then if writers p > 0 then - EAGAIN else 0 else int (length bs))"
  proof (cases "pcount p = 0")
    case True
    then show ?thesis using wf run by (auto simp: pipe_read_def read_len_def)
  next
    case False
    obtain len where len: "unat len = read_len p (unat (word_of_int n :: u32))"
      and eq: "pipe_read p n = (int (unat len), take (unat len) (drop (unat (pr p)) (pbuf p)),
       p\<lparr>pr := (pr p + len) mod PIPE_BUF_SIZE, pcount := pcount p - len\<rparr>)"
      by (rule pipe_read_len [OF wf False])
    let ?k = "unat len"
    have k: "?k \<le> unat (pcount p)" "?k \<le> 2048 - unat (pr p)" by (simp_all add: len read_len_def)
    have bs: "bs = take ?k (drop (unat (pr p)) (pbuf p))" and r: "r = int ?k"
      and p': "p' = p\<lparr>pr := (pr p + len) mod PIPE_BUF_SIZE, pcount := pcount p - len\<rparr>" using run eq by auto
    have pr': "unat (pr p') = (unat (pr p) + ?k) mod 2048" using W k by (simp add: p' unat_ring_add)
    have pc': "unat (pcount p') = unat (pcount p) - ?k" using k by (simp add: p' unat_sub word_le_nat_alt)
    have lb: "length bs = ?k" using W k by (simp add: bs)
    obtain d where d: "unat (pcount p) = ?k + d" using k(1) le_Suc_ex by blast
    have "unat (pw p') = (unat (pr p') + unat (pcount p')) mod 2048"
      using W(5) by (simp add: pr' pc' d mod_simps add.assoc) (simp add: p' d)
    then have "pipe_wf p'" using W(1,3,4) pr' pc'
      by (auto simp: pipe_wf_def word_less_nat_alt word_le_nat_alt p')
    moreover have "pipe_held p = bs @ pipe_held p'"
    proof (rule nth_equalityI)
      show "length (pipe_held p) = length (bs @ pipe_held p')" using k by (simp add: lb pc')
      fix i assume "i < length (pipe_held p)"
      then have i: "i < unat (pcount p)" by simp
      then show "pipe_held p ! i = (bs @ pipe_held p') ! i"
        using W k pr' pc' by (auto simp: pipe_held_def nth_append lb bs p' mod_simps)
    qed
    ultimately show ?thesis using lb len False r by (auto simp: p')
  qed
  then show "pipe_wf p'" "pipe_held p = bs @ pipe_held p'" "readers p' = readers p" "writers p' = writers p"
    "length bs = read_len p (unat (word_of_int n :: u32))"
    "r = (if pcount p = 0 then if writers p > 0 then - EAGAIN else 0 else int (length bs))" by blast+
qed

lemma pipe_write_correct_lemma:
  assumes wf: "pipe_wf p" and run: "pipe_write p src n = (r, p')" and src: "unat (word_of_int n :: u32) \<le> length src"
  defines "k \<equiv> write_len p (unat (word_of_int n :: u32))"
  shows "pipe_wf p'" "readers p' = readers p" "writers p' = writers p"
    "pipe_held p' = pipe_held p @ (if readers p = 0 then [] else take k src)"
    "r = (if readers p = 0 then - EPIPE else if unat (pcount p) = 2048 then - EAGAIN else int k)"
proof -
  note W = pipe_wfD [OF wf]
  have "pipe_wf p' \<and> readers p' = readers p \<and> writers p' = writers p \<and>
    pipe_held p' = pipe_held p @ (if readers p = 0 then [] else take k src) \<and>
    r = (if readers p = 0 then - EPIPE else if unat (pcount p) = 2048 then - EAGAIN else int k)"
  proof (cases "readers p = 0 \<or> unat (pcount p) = 2048")
    case True
    then show ?thesis using wf run by (auto simp: pipe_write_def k_def write_len_def PIPE_BUF_SIZE_def word_le_nat_alt)
  next
    case False
    then have c: "unat (pcount p) < 2048" "readers p \<noteq> 0" using W(4) by auto
    obtain len where len: "unat len = k" and eq: "pipe_write p src n = (int (unat len),
        p\<lparr>pbuf := overwrite (pbuf p) (unat (pw p)) (take (unat len) src), pw := (pw p + len) mod PIPE_BUF_SIZE,
          pcount := pcount p + len\<rparr>)"
      unfolding k_def by (rule pipe_write_len [OF wf c])
    have k: "k \<le> length src" "unat (pcount p) + k \<le> 2048" "unat (pw p) + k \<le> 2048"
      using src W(3,4) by (auto simp: k_def write_len_def)
    have r: "r = int k" and p': "p' = p\<lparr>pbuf := overwrite (pbuf p) (unat (pw p)) (take k src),
        pw := (pw p + len) mod PIPE_BUF_SIZE, pcount := pcount p + len\<rparr>" using run eq len by auto
    have pw': "unat (pw p') = (unat (pw p) + k) mod 2048" using W(3) k(2,3) len by (simp add: p' unat_ring_add)
    have pc': "unat (pcount p') = unat (pcount p) + k" using k(2) len by (simp add: p' unat_plus_if')
    have b': "pbuf p' = overwrite (pbuf p) (unat (pw p)) (take k src)" "pr p' = pr p" by (simp_all add: p')
    have "unat (pw p') = (unat (pr p) + (unat (pcount p) + k)) mod 2048"
      by (simp add: pw' W(5) mod_simps add.assoc)
    moreover have "length (pbuf p') = 2048" using W(1,3) k(1,3) by (simp add: b' overwrite_def min_def)
    ultimately have "pipe_wf p'" using W(2) pw' pc' k(2)
      by (auto simp: pipe_wf_def word_less_nat_alt word_le_nat_alt b')
    moreover have "pipe_held p' = pipe_held p @ take k src"
    proof (rule nth_equalityI)
      show "length (pipe_held p') = length (pipe_held p @ take k src)" using k(1) by (simp add: pc')
      fix i assume "i < length (pipe_held p')"
      then have i: "i < unat (pcount p) + k" by (simp add: pc')
      have m: "(unat (pr p) + i) mod 2048 = (if unat (pr p) + i < 2048 then unat (pr p) + i else unat (pr p) + i - 2048)"
        using W(2) i k(2) by (intro mod_ring) simp
      have w: "unat (pw p) = (if unat (pr p) + unat (pcount p) < 2048 then unat (pr p) + unat (pcount p)
          else unat (pr p) + unat (pcount p) - 2048)"
        using W(2,4) c unfolding W(5) by (intro mod_ring) simp
      let ?j = "(unat (pr p) + i) mod 2048"
      have old: "pbuf p' ! ?j = pbuf p ! ?j" if "i < unat (pcount p)"
        using that m w W(1-4) k by (auto simp: b' overwrite_def nth_append min_def split: if_splits)
      have new: "pbuf p' ! ?j = src ! (i - unat (pcount p))" if "\<not> i < unat (pcount p)"
      proof -
        define t where "t = i - unat (pcount p)"
        have t: "t < k" using that i by (simp add: t_def)
        have "?j = unat (pw p) + t" unfolding t_def using that m w i k(3) W(2) by (auto split: if_splits)
        then show ?thesis using t k(1) W(1,3) by (simp add: b' overwrite_def nth_append min_def t_def [symmetric])
      qed
      show "pipe_held p' ! i = (pipe_held p @ take k src) ! i"
        using i old new by (auto simp: pipe_held_def nth_append pc' b'(2))
    qed
    ultimately show ?thesis using c r by (auto simp: p')
  qed
  then show "pipe_wf p'" "readers p' = readers p" "writers p' = writers p"
    "pipe_held p' = pipe_held p @ (if readers p = 0 then [] else take k src)"
    "r = (if readers p = 0 then - EPIPE else if unat (pcount p) = 2048 then - EAGAIN else int k)" by blast+
qed

section \<open>The byte stream contract\<close>

definition pipe_put :: "u8 list \<Rightarrow> pipe \<Rightarrow> nat \<times> pipe" where
  "pipe_put bs p = (let (r, p') = pipe_write p bs (int (length bs)) in (nat r, p'))"

definition pipe_get :: "nat \<Rightarrow> pipe \<Rightarrow> u8 list \<times> pipe" where
  "pipe_get n p = (let (r, bs, p') = pipe_read p (int n) in (bs, p'))"

definition pipe_open :: "pipe \<Rightarrow> bool" where
  "pipe_open p \<longleftrightarrow> pipe_wf p \<and> readers p > 0"

lemma unat_word_of_length: "unat (word_of_int (int n) :: u32) \<le> n" "n < 2 ^ 31 \<Longrightarrow> unat (word_of_int (int n) :: u32) = n"
  by (simp_all add: unat_of_nat take_bit_nat_eq_self_iff)

interpretation pipe: byte_stream pipe_open pipe_held 2048 pipe_put pipe_get
proof
  fix p assume "pipe_open p"
  then show "length (pipe_held p) \<le> 2048" using pipe_wfD(4) by (simp add: pipe_open_def)
next
  fix p p' :: pipe and bs k assume p: "pipe_open p" and "pipe_put bs p = (k, p')"
  then obtain r where run: "pipe_write p bs (int (length bs)) = (r, p')" and k: "k = nat r"
    by (auto simp: pipe_put_def split: prod.splits)
  note W = pipe_write_correct_lemma [OF _ run unat_word_of_length(1)]
  have "pipe_wf p" "readers p > 0" using p by (simp_all add: pipe_open_def)
  then have "pipe_wf p'" "readers p' > 0" using W by simp_all
  moreover have "pipe_held p' = pipe_held p @ take k bs" "k \<le> length bs"
    using W(4,5) \<open>pipe_wf p\<close> \<open>readers p > 0\<close> unat_word_of_length(1) [of "length bs"]
    by (auto simp: k write_len_def EAGAIN_def)
  ultimately show "pipe_open p' \<and> k \<le> length bs \<and> pipe_held p' = pipe_held p @ take k bs" by (simp add: pipe_open_def)
next
  fix p p' n bs assume p: "pipe_open p" and "pipe_get n p = (bs, p')"
  then obtain r where run: "pipe_read p (int n) = (r, bs, p')" by (auto simp: pipe_get_def split: prod.splits)
  have "pipe_wf p" "readers p > 0" using p by (simp_all add: pipe_open_def)
  with pipe_read_correct_lemma [OF _ run] unat_word_of_length(1) [of n]
  show "pipe_open p' \<and> length bs \<le> n \<and> pipe_held p = bs @ pipe_held p'" by (auto simp: pipe_open_def read_len_def)
next
  fix p :: pipe and bs :: "u8 list" assume p: "pipe_open p" and free: "length (pipe_held p) < 2048" and bs: "bs \<noteq> []" "length bs < 2 ^ 31"
  obtain r p' where run: "pipe_write p bs (int (length bs)) = (r, p')" by fastforce
  note W = pipe_write_correct_lemma [OF _ run unat_word_of_length(1)]
  show "0 < fst (pipe_put bs p)"
    using W(5) p free bs(1) pipe_wfD(3) [of p] unat_word_of_length(2) [OF bs(2)]
    by (auto simp: pipe_put_def run pipe_open_def write_len_def)
next
  fix p :: pipe and n :: nat assume p: "pipe_open p" and h: "pipe_held p \<noteq> []" and n: "0 < n" "n < 2 ^ 31"
  obtain r bs p' where run: "pipe_read p (int n) = (r, bs, p')" by (metis prod_cases3)
  have "0 < unat (pcount p)" using h by (metis length_pipe_held length_greater_0_conv)
  then show "fst (pipe_get n p) \<noteq> []"
    using pipe_read_correct_lemma(5) [OF _ run] p n(1) pipe_wfD(2) [of p] unat_word_of_length(2) [OF n(2)]
    by (auto simp: pipe_get_def run pipe_open_def read_len_def)
qed

text \<open>
  (C29) A pipe is a lossless FIFO: from an open pipe, run any interleaving of writes and reads of any
  sizes. The bytes delivered to the readers, followed by the bytes still in the ring, are the bytes that
  were in the ring at the start followed by the bytes the writes accepted, in order; the ring's
  indices stay consistent, and at no moment are both ends blocked.
\<close>

theorem pipe_stream:
  assumes "pipe_open p" and "stream_run pipe_put pipe_get xs p = (ins, outs, p')"
  shows "pipe_open p' \<and> pipe_held p @ ins = outs @ pipe_held p' \<and>
    (0 < fst (pipe_put [b] p') \<or> fst (pipe_get 1 p') \<noteq> [])"
  using pipe.stream [OF assms] pipe.never_stuck [of p' b] by simp

lemma new_pipe: "pipe_open new_pipe" "pipe_held new_pipe = []" "pipe_wf new_pipe"
  by (simp_all add: pipe_open_def pipe_wf_def new_pipe_def pipe_held_def)

theorem pipe_stream_witness:
  "\<exists>ins outs p'. stream_run pipe_put pipe_get [Put [1, 2, 3], Get 2, Put [4], Get 9] new_pipe = (ins, outs, p') \<and>
    ins = outs @ pipe_held p'"
proof -
  obtain ins outs p' where run: "stream_run pipe_put pipe_get [Put [1, 2, 3], Get 2, Put [4], Get 9] new_pipe = (ins, outs, p')"
    by (metis prod_cases3)
  with pipe_stream [OF new_pipe(1) run] show ?thesis by (auto simp: new_pipe(2))
qed

text \<open>
  Every branch of a pipe transfer. Reading an empty pipe reports end of file exactly when no writer is
  left and would-block otherwise; else it delivers the oldest bytes, as many as requested, held and
  contiguous in the ring. Writing with no reader left reports a broken pipe, writing to a full pipe
  would-block; else it appends as many bytes as fit contiguously, and reports how many.
\<close>

lemma pipe_transfer_correct:
  assumes "pipe_wf p" and "unat (word_of_int n :: u32) \<le> length src"
  shows "(case pipe_read p n of (r, bs, p') \<Rightarrow>
      pipe_wf p' \<and> pipe_held p = bs @ pipe_held p' \<and>
      r = (if pipe_held p = [] then if writers p > 0 then - EAGAIN else 0
           else int (min (unat (word_of_int n :: u32)) (min (length (pipe_held p)) (2048 - unat (pr p)))))) \<and>
    (case pipe_write p src n of (r, p') \<Rightarrow>
      pipe_wf p' \<and>
      r = (if readers p = 0 then - EPIPE else if length (pipe_held p) = 2048 then - EAGAIN
           else int (min (unat (word_of_int n :: u32)) (min (2048 - length (pipe_held p)) (2048 - unat (pw p))))) \<and>
      pipe_held p' = pipe_held p @ (if r < 0 then [] else take (nat r) src))"
proof (intro conjI)
  have e: "pipe_held p = [] \<longleftrightarrow> pcount p = 0" by (simp add: pipe_held_def unat_eq_zero)
  obtain r bs p' where run: "pipe_read p n = (r, bs, p')" by (metis prod_cases3)
  note R = pipe_read_correct_lemma [OF assms(1) run]
  have "r = (if pipe_held p = [] then if writers p > 0 then - EAGAIN else 0
      else int (min (unat (word_of_int n :: u32)) (min (length (pipe_held p)) (2048 - unat (pr p)))))"
    using R(5,6) by (simp add: e read_len_def)
  with R(1,2) show "case pipe_read p n of (r, bs, p') \<Rightarrow>
      pipe_wf p' \<and> pipe_held p = bs @ pipe_held p' \<and>
      r = (if pipe_held p = [] then if writers p > 0 then - EAGAIN else 0
           else int (min (unat (word_of_int n :: u32)) (min (length (pipe_held p)) (2048 - unat (pr p)))))"
    by (simp add: run)
  obtain r p' where w: "pipe_write p src n = (r, p')" by fastforce
  from pipe_write_correct_lemma [OF assms(1) w assms(2)] show "case pipe_write p src n of (r, p') \<Rightarrow>
      pipe_wf p' \<and>
      r = (if readers p = 0 then - EPIPE else if length (pipe_held p) = 2048 then - EAGAIN
           else int (min (unat (word_of_int n :: u32)) (min (2048 - length (pipe_held p)) (2048 - unat (pw p))))) \<and>
      pipe_held p' = pipe_held p @ (if r < 0 then [] else take (nat r) src)"
    by (auto simp: w write_len_def EPIPE_def EAGAIN_def)
qed

lemma pipe_transfer_correct_witness:
  "pipe_read new_pipe 5 = (- EAGAIN, [], new_pipe) \<and>
   (case pipe_write new_pipe [1, 2, 3] 3 of (r, p') \<Rightarrow> r = 3 \<and> pipe_held p' = [1, 2, 3])"
proof -
  have "pipe_read new_pipe 5 = (- EAGAIN, [], new_pipe)" by (simp add: pipe_read_def new_pipe_def)
  moreover have "pr new_pipe = 0" "pw new_pipe = 0" "readers new_pipe = 1" by (simp_all add: new_pipe_def)
  ultimately show ?thesis
    using pipe_transfer_correct [OF new_pipe(3), of 3 "[1, 2, 3]"] by (auto simp: new_pipe(2) split: prod.splits)
qed

end
