(* ===== verification/Directory.thy ===== *)
theory Directory
  imports Memfs
begin

text \<open>
  \<open>kernel/fs/memfs.c\<close>, the directory layer: a directory is a file of 44-byte \<open>struct dirent\<close>
  records. Names are byte lists without NUL (what a C string denotes); the \<open>name\<close> field of a record
  is its 32 raw bytes. The operations read and write records through \<open>readi\<close> and \<open>writei\<close>, loop by loop
  as the code does; a loop over \<open>off\<close> could wrap around for sizes no file has, so it is a partial
  function, \<open>None\<close> meaning that the call does not return (it loops or the page allocator panics).
  The listing of a 9P directory (\<open>v9p_loaddir\<close>) and the four \<open>/proc\<close> inode numbers are parameters.
\<close>

section \<open>Records\<close>

definition DIRSIZ :: u32 where "DIRSIZ = 32"
definition sizeof_dirent :: u32 where "sizeof_dirent = 44"

record dirent =
  de_inum :: u32
  de_off :: u32
  de_type :: u32
  de_name :: "u8 list"

definition le32 :: "u8 list \<Rightarrow> nat \<Rightarrow> u32" where
  "le32 bs k = bytes_u32 (bs ! k) (bs ! (k + 1)) (bs ! (k + 2)) (bs ! (k + 3))"

definition dirent_of_bytes :: "u8 list \<Rightarrow> dirent" where
  "dirent_of_bytes bs = \<lparr>de_inum = le32 bs 0, de_off = le32 bs 4, de_type = le32 bs 8, de_name = take 32 (drop 12 bs)\<rparr>"

definition bytes_of_dirent :: "dirent \<Rightarrow> u8 list" where
  "bytes_of_dirent de = u32_bytes (de_inum de) @ u32_bytes (de_off de) @ u32_bytes (de_type de) @ de_name de"

definition cstr :: "u8 list \<Rightarrow> u8 list" where
  "cstr bs = takeWhile (\<lambda>b. b \<noteq> 0) bs"

definition namecmp :: "u8 list \<Rightarrow> u8 list \<Rightarrow> int" where
  "namecmp a b = strcmp_list (take (unat DIRSIZ) a) (cstr (take (unat DIRSIZ) b))"

definition empty_dirent :: dirent where
  "empty_dirent = \<lparr>de_inum = 0, de_off = 0, de_type = 0, de_name = replicate 32 0\<rparr>"

definition name_field :: "u8 list \<Rightarrow> u8 list" where
  "name_field name = take 31 name @ replicate (32 - length (take 31 name)) 0"

section \<open>Operations\<close>

record fs_env =
  v9p_loaddir :: "u32 \<Rightarrow> memfs \<Rightarrow> memfs option"
  proc_inum :: "nat \<Rightarrow> u32"

definition dot :: "u8 list" where "dot = [46]"
definition dotdot :: "u8 list" where "dotdot = [46, 46]"
definition cpuinfo_name :: "u8 list" where "cpuinfo_name = map (of_nat \<circ> of_char) ''cpuinfo''"
definition meminfo_name :: "u8 list" where "meminfo_name = map (of_nat \<circ> of_char) ''meminfo''"
definition loadavg_name :: "u8 list" where "loadavg_name = map (of_nat \<circ> of_char) ''loadavg''"
definition version_name :: "u8 list" where "version_name = map (of_nat \<circ> of_char) ''version''"

definition read_dirent :: "u32 \<Rightarrow> u32 \<Rightarrow> memfs \<Rightarrow> dirent option" where
  "read_dirent dp off s =
     (let (n, bs) = readi dp off sizeof_dirent s
      in if n \<noteq> 44 then None else Some (dirent_of_bytes bs))"

text \<open>The record scan of \<open>dirlookup\<close>: the inode number (0 for not found) and the offset.\<close>

partial_function (option) scan_name :: "u32 \<Rightarrow> u8 list \<Rightarrow> u32 \<Rightarrow> memfs \<Rightarrow> (u32 \<times> u32 option) option" where
  "scan_name dp name off s =
     (if off < isize (inode_table s dp) then
        (case read_dirent dp off s of
           None \<Rightarrow> Some (0, None)
         | Some de \<Rightarrow>
             if de_inum de = 0 then scan_name dp name (off + sizeof_dirent) s
             else if namecmp name (de_name de) = 0 then Some (de_inum de, Some off)
             else scan_name dp name (off + sizeof_dirent) s)
      else Some (0, None))"

definition dirlookup :: "fs_env \<Rightarrow> u32 \<Rightarrow> u8 list \<Rightarrow> memfs \<Rightarrow> (u32 \<times> u32 option \<times> memfs) option" where
  "dirlookup env dp name s =
     (let nd = inode_table s dp;
          up = (if parent nd \<noteq> 0 then parent nd else inum nd);
          scan = (\<lambda>s. do { (n, off) \<leftarrow> scan_name dp name 0 s; Some (n, off, s) })
      in case ibackend nd of
           INODE_9P \<Rightarrow>
             if name = dot then Some (inum nd, Some 0, s)
             else if name = dotdot then Some (up, Some 0, s)
             else if \<not> dir_loaded nd then do { s \<leftarrow> v9p_loaddir env dp s; scan s }
             else scan s
         | INODE_PROCFS \<Rightarrow>
             if name = dot then Some (inum nd, Some 0, s)
             else if name = dotdot then Some (up, Some 0, s)
             else if name = cpuinfo_name then Some (proc_inum env 0, None, s)
             else if name = meminfo_name then Some (proc_inum env 1, None, s)
             else if name = loadavg_name then Some (proc_inum env 2, None, s)
             else if name = version_name then Some (proc_inum env 3, None, s)
             else Some (0, None, s)
         | INODE_MEM \<Rightarrow> scan s)"

text \<open>The search of \<open>dirlink\<close> for a free record; \<open>Some None\<close> is its \<open>return -1\<close>.\<close>

partial_function (option) scan_free :: "u32 \<Rightarrow> u32 \<Rightarrow> memfs \<Rightarrow> u32 option option" where
  "scan_free dp off s =
     (if off < isize (inode_table s dp) then
        (case read_dirent dp off s of
           None \<Rightarrow> Some None
         | Some de \<Rightarrow> if de_inum de = 0 then Some (Some off) else scan_free dp (off + sizeof_dirent) s)
      else Some (Some off))"

definition dirlink :: "fs_env \<Rightarrow> u32 \<Rightarrow> u8 list \<Rightarrow> u32 \<Rightarrow> memfs \<Rightarrow> (int \<times> memfs) option" where
  "dirlink env dp name n s = do {
     (found, off, s) \<leftarrow> dirlookup env dp name s;
     if found \<noteq> 0 then Some (-1, s)
     else do {
       slot \<leftarrow> scan_free dp 0 s;
       (case slot of
          None \<Rightarrow> Some (-1, s)
        | Some off \<Rightarrow> do {
            let de = \<lparr>de_inum = n, de_off = 0,
                      de_type = (case iget n s of None \<Rightarrow> 0 | Some t \<Rightarrow> ucast (ucast (itype (inode_table s t)) :: u16)),
                      de_name = name_field name\<rparr>;
            (r, s) \<leftarrow> writei dp (bytes_of_dirent de) off sizeof_dirent s;
            if r \<noteq> 44 then Some (-1, s) else Some (0, s)
          })
     }
   }"

text \<open>
  \<open>dirunlink\<close> clears the record at the offset \<open>dirlookup\<close> reported. The C variable \<open>off\<close> is not
  initialised; \<open>dirlookup\<close> leaves it alone for the \<open>/proc\<close> names, so it is a parameter here.
\<close>

definition dirunlink :: "fs_env \<Rightarrow> u32 \<Rightarrow> u32 \<Rightarrow> u8 list \<Rightarrow> memfs \<Rightarrow> (int \<times> memfs) option" where
  "dirunlink env uninit dp name s = do {
     (n, off, s) \<leftarrow> dirlookup env dp name s;
     if n = 0 then Some (-1, s)
     else do {
       (r, s) \<leftarrow> writei dp (bytes_of_dirent empty_dirent) (case off of None \<Rightarrow> uninit | Some k \<Rightarrow> k) sizeof_dirent s;
       if r \<noteq> 44 then Some (-1, s) else Some (sint n, s)
     }
   }"

partial_function (option) isdirempty_loop :: "u32 \<Rightarrow> u32 \<Rightarrow> memfs \<Rightarrow> bool option" where
  "isdirempty_loop ip off s =
     (if off < isize (inode_table s ip) then
        (case read_dirent ip off s of
           None \<Rightarrow> Some True
         | Some de \<Rightarrow>
             if de_inum de = 0 then isdirempty_loop ip (off + sizeof_dirent) s
             else if cstr (de_name de) = dot \<or> cstr (de_name de) = dotdot
             then isdirempty_loop ip (off + sizeof_dirent) s
             else Some False)
      else Some True)"

definition isdirempty :: "u32 \<Rightarrow> memfs \<Rightarrow> bool option" where
  "isdirempty ip s = isdirempty_loop ip 0 s"

record stat =
  st_ino :: u32
  st_type :: u16
  st_mode :: u16
  st_nlink :: u32
  st_size :: u32
  st_dev :: u32

definition stati :: "u32 \<Rightarrow> memfs \<Rightarrow> stat" where
  "stati ip s =
     (let nd = inode_table s ip
      in \<lparr>st_ino = inum nd, st_type = ucast (itype nd), st_mode = mode nd,
          st_nlink = ucast (word_of_int (nlink nd) :: u16), st_size = isize nd, st_dev = 0\<rparr>)"

definition create :: "fs_env \<Rightarrow> u32 \<Rightarrow> u8 list \<Rightarrow> u32 \<Rightarrow> u32 \<Rightarrow> memfs \<Rightarrow> (u32 option \<times> memfs) option" where
  "create env dir name type maj s =
     (case ialloc type maj 0 s of
        (None, s) \<Rightarrow> Some (None, s)
      | (Some ip, s) \<Rightarrow> do {
          (r, s) \<leftarrow> dirlink env dir name (inum (inode_table s ip)) s;
          if r < 0 then Some (None, ifree ip s) else Some (Some ip, s)
        })"

datatype readdir_result = Readdir_error int | Readdir_end | Readdir_entry dirent

definition ENOTDIR :: int where "ENOTDIR = 20"
definition EIO :: int where "EIO = 5"

partial_function (option) readdir_loop :: "u32 \<Rightarrow> u32 \<Rightarrow> memfs \<Rightarrow> (readdir_result \<times> u32) option" where
  "readdir_loop dir off s =
     (if off + sizeof_dirent \<le> isize (inode_table s dir) then
        (case read_dirent dir off s of
           None \<Rightarrow> Some (Readdir_error (- EIO), off)
         | Some de \<Rightarrow>
             (let off = off + sizeof_dirent
              in if de_inum de = 0 then readdir_loop dir off s
                 else Some (Readdir_entry (de\<lparr>de_off := off\<rparr>), off)))
      else Some (Readdir_end, off))"

definition readdir :: "u32 \<Rightarrow> u32 \<Rightarrow> memfs \<Rightarrow> (readdir_result \<times> u32) option" where
  "readdir dir off s =
     (if itype (inode_table s dir) \<noteq> T_DIR then Some (Readdir_error (- ENOTDIR), off)
      else readdir_loop dir off s)"

section \<open>The abstract directory\<close>

text \<open>
  The records of a directory, the name a record carries, and the finite map from names to inode
  numbers the live records define. A directory is well-formed when it is a memfs directory made of
  whole records whose live names differ.
\<close>

definition entry_at :: "u8 list \<Rightarrow> nat \<Rightarrow> dirent" where
  "entry_at bs k = dirent_of_bytes (take 44 (drop (44 * k) bs))"

definition entries :: "u8 list \<Rightarrow> dirent list" where
  "entries bs = map (entry_at bs) [0..<length bs div 44]"

definition live :: "dirent \<Rightarrow> bool" where
  "live e \<longleftrightarrow> de_inum e \<noteq> 0"

definition ename :: "dirent \<Rightarrow> u8 list" where
  "ename e = cstr (take 32 (de_name e))"

definition bindings :: "dirent list \<Rightarrow> (u8 list \<times> u32) list" where
  "bindings es = map (\<lambda>e. (ename e, de_inum e)) (filter live es)"

definition dir_map :: "memfs \<Rightarrow> u32 \<Rightarrow> u8 list \<rightharpoonup> u32" where
  "dir_map s d = map_of (bindings (entries (contents s d)))"

definition dir_wf :: "memfs \<Rightarrow> u32 \<Rightarrow> bool" where
  "dir_wf s d \<longleftrightarrow> ibackend (inode_table s d) = INODE_MEM \<and> 44 dvd length (contents s d) \<and>
     distinct (map fst (bindings (entries (contents s d))))"

definition name_ok :: "u8 list \<Rightarrow> bool" where
  "name_ok name \<longleftrightarrow> 0 \<notin> set name \<and> length name < 32"

lemma length_entries [simp]: "length (entries bs) = length bs div 44"
  by (simp add: entries_def)

lemma nth_entries: "k < length bs div 44 \<Longrightarrow> entries bs ! k = entry_at bs k"
  by (simp add: entries_def)

lemma cstr_nonzero: "0 \<notin> set (cstr bs)"
  unfolding cstr_def by (metis (mono_tags) set_takeWhileD)

lemma namecmp_eq:
  assumes "name_ok name"
  shows "namecmp name (de_name e) = 0 \<longleftrightarrow> name = ename e"
proof -
  have "take 32 name = name" using assms by (simp add: name_ok_def)
  moreover have "0 \<notin> set name" using assms by (simp add: name_ok_def)
  ultimately show ?thesis
    by (simp add: namecmp_def ename_def DIRSIZ_def strcmp_list_eq_0 cstr_nonzero)
qed

definition rec_off :: "nat \<Rightarrow> u32" where
  "rec_off k = of_nat (44 * k)"

lemma unat_rec_off: "44 * k < 2 ^ 32 \<Longrightarrow> unat (rec_off k) = 44 * k"
  unfolding rec_off_def by (rule unat_of_nat_lt)

lemma rec_off_0 [simp]: "rec_off 0 = 0"
  by (simp add: rec_off_def)

text \<open>Reading the record at a multiple of the record size.\<close>

lemma read_dirent_entry:
  assumes wf: "fs_wf s" "d < MAX_INODES" and k: "k < length (contents s d) div 44"
  shows "read_dirent d (rec_off k) s = Some (entries (contents s d) ! k)"
proof -
  have d: "d < 128" using wf(2) by (simp add: MAX_INODES_def)
  have len: "length (contents s d) \<le> 2097152" using fs_wfD(4) [OF wf(1) d] by (simp add: contents_def)
  have "44 * k + 44 \<le> 44 * (length (contents s d) div 44)" using k by simp
  also have "\<dots> \<le> length (contents s d)" by simp
  finally have le: "44 * k + 44 \<le> length (contents s d)" .
  then have u: "unat (rec_off k) = 44 * k" using len by (intro unat_rec_off) simp
  have "readi d (rec_off k) sizeof_dirent s =
      (44, take 44 (drop (44 * k) (contents s d)))"
    using readi_contents [OF wf, of "rec_off k" sizeof_dirent] le len u by (auto simp: sizeof_dirent_def min_def)
  then show ?thesis using k by (simp add: read_dirent_def nth_entries entry_at_def)
qed

lemma scan_offset:
  assumes wf: "fs_wf s" "d < MAX_INODES" and dv: "44 dvd length (contents s d)" and k: "k \<le> length (contents s d) div 44"
  shows "rec_off k < isize (inode_table s d) \<longleftrightarrow> k < length (contents s d) div 44"
    and "rec_off k + sizeof_dirent = rec_off (Suc k)"
proof -
  have d: "d < 128" using wf(2) by (simp add: MAX_INODES_def)
  have len: "length (contents s d) = unat (isize (inode_table s d))" by (simp add: contents_def)
  have sz: "unat (isize (inode_table s d)) \<le> 2097152" using fs_wfD(4) [OF wf(1) d] .
  obtain n where n: "length (contents s d) = 44 * n" using dv by blast
  then have "unat (rec_off k) = 44 * k" using k sz len by (intro unat_rec_off) simp
  then show "rec_off k < isize (inode_table s d) \<longleftrightarrow> k < length (contents s d) div 44"
    using n len by (simp add: word_less_nat_alt)
  show "rec_off k + sizeof_dirent = rec_off (Suc k)" by (simp add: sizeof_dirent_def rec_off_def)
qed

lemma readdir_guard:
  assumes wf: "fs_wf s" "d < MAX_INODES" and dv: "44 dvd length (contents s d)" and k: "k \<le> length (contents s d) div 44"
  shows "rec_off (Suc k) \<le> isize (inode_table s d) \<longleftrightarrow> k < length (contents s d) div 44"
proof -
  have len: "length (contents s d) = unat (isize (inode_table s d))" by (simp add: contents_def)
  have sz: "unat (isize (inode_table s d)) \<le> 2097152" using fs_wfD(4) [OF wf(1)] wf(2) by (simp add: MAX_INODES_def)
  obtain n where n: "length (contents s d) = 44 * n" using dv by blast
  then have "unat (rec_off (Suc k)) = 44 * Suc k" using k sz len by (intro unat_rec_off) simp
  then show ?thesis using n len by (simp add: word_le_nat_alt) linarith
qed

text \<open>The scans as searches in the list of records.\<close>

fun find_name :: "u8 list \<Rightarrow> dirent list \<Rightarrow> nat \<Rightarrow> u32 \<times> u32 option" where
  "find_name name [] k = (0, None)"
| "find_name name (e # es) k =
     (if live e \<and> ename e = name then (de_inum e, Some (rec_off k)) else find_name name es (Suc k))"

fun find_free :: "dirent list \<Rightarrow> nat \<Rightarrow> nat" where
  "find_free [] k = k"
| "find_free (e # es) k = (if live e then find_free es (Suc k) else k)"

lemma scan_name_find:
  assumes wf: "fs_wf s" "d < MAX_INODES" and dv: "44 dvd length (contents s d)" and name: "name_ok name"
    and k: "k \<le> length (contents s d) div 44"
  shows "scan_name d name (rec_off k) s = Some (find_name name (drop k (entries (contents s d))) k)"
  using k
proof (induction "length (contents s d) div 44 - k" arbitrary: k)
  case 0
  then show ?case using scan_offset(1) [OF wf dv 0(2)] by (subst scan_name.simps) simp
next
  case (Suc n)
  then have lt: "k < length (contents s d) div 44" by simp
  let ?e = "entries (contents s d) ! k"
  have d: "drop k (entries (contents s d)) = ?e # drop (Suc k) (entries (contents s d))"
    using lt by (simp add: Cons_nth_drop_Suc)
  have IH: "scan_name d name (rec_off (Suc k)) s = Some (find_name name (drop (Suc k) (entries (contents s d))) (Suc k))"
    using Suc lt by (intro Suc.hyps(1)) simp_all
  show ?case
    unfolding d
    using scan_offset [OF wf dv Suc.prems] lt read_dirent_entry [OF wf lt] IH namecmp_eq [OF name, of ?e]
    by (subst scan_name.simps) (auto simp: live_def)
qed

lemma scan_free_find:
  assumes wf: "fs_wf s" "d < MAX_INODES" and dv: "44 dvd length (contents s d)"
    and k: "k \<le> length (contents s d) div 44"
  shows "scan_free d (rec_off k) s = Some (Some (rec_off (find_free (drop k (entries (contents s d))) k)))"
  using k
proof (induction "length (contents s d) div 44 - k" arbitrary: k)
  case 0
  then show ?case using scan_offset(1) [OF wf dv 0(2)] by (subst scan_free.simps) simp
next
  case (Suc n)
  then have lt: "k < length (contents s d) div 44" by simp
  let ?e = "entries (contents s d) ! k"
  have d: "drop k (entries (contents s d)) = ?e # drop (Suc k) (entries (contents s d))"
    using lt by (simp add: Cons_nth_drop_Suc)
  have IH: "scan_free d (rec_off (Suc k)) s =
      Some (Some (rec_off (find_free (drop (Suc k) (entries (contents s d))) (Suc k))))"
    using Suc lt by (intro Suc.hyps(1)) simp_all
  show ?case
    unfolding d
    using scan_offset [OF wf dv Suc.prems] lt read_dirent_entry [OF wf lt] IH
    by (subst scan_free.simps) (auto simp: live_def)
qed

section \<open>Changing records\<close>

lemma entries_overwrite:
  assumes n: "length bs = 44 * n" and k: "k \<le> n" and r: "length rec = 44"
  shows "entries (overwrite bs (44 * k) rec) =
      (if k < n then (entries bs)[k := dirent_of_bytes rec] else entries bs @ [dirent_of_bytes rec])"
    and "length (overwrite bs (44 * k) rec) = 44 * max n (Suc k)"
proof -
  show len: "length (overwrite bs (44 * k) rec) = 44 * max n (Suc k)"
    using n k r by (auto simp: overwrite_def max_def)
  have at: "entry_at (overwrite bs (44 * k) rec) j = (if j = k then dirent_of_bytes rec else entry_at bs j)"
    if j: "j < max n (Suc k)" for j
  proof (cases j k rule: linorder_cases)
    case less
    then have "44 * j + 44 \<le> 44 * k" by simp
    then have "take 44 (drop (44 * j) (overwrite bs (44 * k) rec)) = take 44 (drop (44 * j) bs)"
      using n k by (auto simp: overwrite_def drop_take min_def)
    with less show ?thesis by (simp add: entry_at_def)
  next
    case equal
    then show ?thesis using n k r by (simp add: overwrite_def entry_at_def)
  next
    case greater
    then have "44 * k + 44 \<le> 44 * j" by simp
    then have "drop (44 * j) (overwrite bs (44 * k) rec) = drop (44 * j) bs"
      using n k r by (simp add: overwrite_def)
    with greater show ?thesis by (simp add: entry_at_def)
  qed
  show "entries (overwrite bs (44 * k) rec) =
      (if k < n then (entries bs)[k := dirent_of_bytes rec] else entries bs @ [dirent_of_bytes rec])"
  proof (rule nth_equalityI)
    show "length (entries (overwrite bs (44 * k) rec)) =
        length (if k < n then (entries bs)[k := dirent_of_bytes rec] else entries bs @ [dirent_of_bytes rec])"
      using k by (simp add: len n max_def)
    fix j assume "j < length (entries (overwrite bs (44 * k) rec))"
    then have j: "j < max n (Suc k)" by (simp add: len)
    then show "entries (overwrite bs (44 * k) rec) ! j =
        (if k < n then (entries bs)[k := dirent_of_bytes rec] else entries bs @ [dirent_of_bytes rec]) ! j"
      using at [OF j] k n by (auto simp: nth_entries len nth_list_update nth_append max_def split: if_splits)
  qed
qed

lemma le32_u32_bytes: "length xs = k \<Longrightarrow> le32 (xs @ u32_bytes v @ ys) k = v"
  by (simp add: le32_def u32_bytes_def nth_append bytes_u32_join)

lemma dirent_roundtrip: "length (de_name de) = 32 \<Longrightarrow> dirent_of_bytes (bytes_of_dirent de) = de"
  using le32_u32_bytes [of "[]" 0 "de_inum de"] le32_u32_bytes [of "u32_bytes (de_inum de)" 4 "de_off de"]
    le32_u32_bytes [of "u32_bytes (de_inum de) @ u32_bytes (de_off de)" 8 "de_type de"]
  by (simp add: dirent_of_bytes_def bytes_of_dirent_def)

lemma length_name_field [simp]: "length (name_field name) = 32"
  by (simp add: name_field_def)

lemma cstr_name_field: "name_ok name \<Longrightarrow> cstr (name_field name) = name"
  unfolding name_ok_def name_field_def cstr_def
  by (subst takeWhile_append2) (auto simp: takeWhile_eq_Nil_iff)

lemma find_free_split:
  "find_free es k = k + length (takeWhile live es)"
  by (induction es k rule: find_free.induct) auto

lemma find_name_none: "find_name name es k = (0, None)" if "name \<notin> fst ` set (bindings es)"
  using that by (induction name es k rule: find_name.induct) (auto simp: bindings_def split: if_splits)

lemma find_name_some:
  assumes "map_of (bindings es) name = Some n"
  shows "\<exists>j < length es. find_name name es k = (n, Some (rec_off (k + j))) \<and> live (es ! j) \<and> ename (es ! j) = name \<and>
    de_inum (es ! j) = n \<and> name \<notin> fst ` set (bindings (take j es))"
  using assms
proof (induction es arbitrary: k)
  case (Cons e es)
  show ?case
  proof (cases "live e \<and> ename e = name")
    case True
    then show ?thesis using Cons.prems by (intro exI [of _ 0]) (simp add: bindings_def rec_off_def)
  next
    case False
    then have "map_of (bindings es) name = Some n" using Cons.prems by (auto simp: bindings_def split: if_splits)
    from Cons.IH [OF this, of "Suc k"] obtain j where j: "j < length es"
      "find_name name es (Suc k) = (n, Some (rec_off (Suc k + j)))" "live (es ! j)" "ename (es ! j) = name"
      "de_inum (es ! j) = n" "name \<notin> fst ` set (bindings (take j es))" by blast
    with False show ?thesis by (intro exI [of _ "Suc j"]) (auto simp: bindings_def)
  qed
qed (simp add: bindings_def)

lemma bindings_append [simp]: "bindings (xs @ ys) = bindings xs @ bindings ys"
  by (simp add: bindings_def)

lemma bindings_Nil [simp]: "bindings [] = []"
  by (simp add: bindings_def)

lemma bindings_Cons [simp]: "bindings (e # es) = (if live e then (ename e, de_inum e) # bindings es else bindings es)"
  by (simp add: bindings_def)

lemma bindings_live: "(name, n) \<in> set (bindings es) \<Longrightarrow> n \<noteq> 0"
  by (auto simp: bindings_def live_def)

lemma dirlookup_map:
  assumes wf: "fs_wf s" "d < MAX_INODES" and dir: "dir_wf s d" and name: "name_ok name"
  shows "dirlookup env d name s =
    (let (n, off) = find_name name (entries (contents s d)) 0 in Some (n, off, s))"
    and "fst (find_name name (entries (contents s d)) 0) = (case dir_map s d name of None \<Rightarrow> 0 | Some n \<Rightarrow> n)"
proof -
  have dv: "44 dvd length (contents s d)" and b: "ibackend (inode_table s d) = INODE_MEM"
    using dir by (auto simp: dir_wf_def)
  have "scan_name d name 0 s = Some (find_name name (entries (contents s d)) 0)"
    using scan_name_find [OF wf dv name, of 0] by simp
  then show "dirlookup env d name s =
      (let (n, off) = find_name name (entries (contents s d)) 0 in Some (n, off, s))"
    by (simp add: dirlookup_def b Let_def split: prod.split)
  show "fst (find_name name (entries (contents s d)) 0) = (case dir_map s d name of None \<Rightarrow> 0 | Some n \<Rightarrow> n)"
  proof (cases "dir_map s d name")
    case None
    then have "name \<notin> fst ` set (bindings (entries (contents s d)))" by (simp add: dir_map_def map_of_eq_None_iff)
    then show ?thesis using None by (simp add: find_name_none)
  next
    case (Some n)
    then show ?thesis using find_name_some [of "entries (contents s d)" name n 0] by (auto simp: dir_map_def)
  qed
qed

lemma dir_map_nonzero: "dir_map s d name = Some n \<Longrightarrow> n \<noteq> 0"
  unfolding dir_map_def using bindings_live map_of_SomeD by fast

text \<open>Writing one record of a directory.\<close>

definition dir_only :: "u32 \<Rightarrow> memfs \<Rightarrow> memfs \<Rightarrow> bool" where
  "dir_only d s s' \<longleftrightarrow> fs_wf s' \<and> keeps d s s' \<and>
     (\<exists>ad sz. inode_table s' d = (inode_table s d)\<lparr>addrs := ad, isize := sz\<rparr>) \<and>
     (\<forall>j < MAX_INODES. j \<noteq> d \<longrightarrow> inode_table s' j = inode_table s j \<and> contents s' j = contents s j)"

lemma write_record:
  assumes wf: "fs_wf s" "d < MAX_INODES"
    and n: "length (contents s d) = 44 * n" and k: "k \<le> n" and de: "length (de_name de) = 32"
    and run: "writei d (bytes_of_dirent de) (rec_off k) sizeof_dirent s = Some (r, s')"
  shows "if 44 * k + 44 > 2097152 then r = -1 \<and> s' = s
    else r = 44 \<and> dir_only d s s' \<and> 44 dvd length (contents s' d) \<and>
      ibackend (inode_table s' d) = ibackend (inode_table s d) \<and>
      entries (contents s' d) = (if k < n then (entries (contents s d))[k := de] else entries (contents s d) @ [de])"
proof -
  have d: "d < 128" using wf(2) by (simp add: MAX_INODES_def)
  have "length (contents s d) \<le> 2097152" using fs_wfD(4) [OF wf(1) d] by (simp add: contents_def)
  then have u: "unat (rec_off k) = 44 * k" using n k by (intro unat_rec_off) simp
  have len: "length (bytes_of_dirent de) = 44" using de by (simp add: bytes_of_dirent_def)
  have z: "unat sizeof_dirent = 44" by (simp add: sizeof_dirent_def)
  have "unat (rec_off k) + unat sizeof_dirent < 2 ^ 32"
    using u z n k \<open>length (contents s d) \<le> 2097152\<close> by simp
  from writei_effect [OF wf this _ run] have "if unat (rec_off k) > length (contents s d) \<or> unat (rec_off k) + 44 > 2097152
      then r = -1 \<and> s' = s else r = int 44 \<and> write_post d (take 44 (bytes_of_dirent de)) (unat (rec_off k)) s s'"
    unfolding z using len by simp
  then have W: "if 44 * k > length (contents s d) \<or> 44 * k + 44 > 2097152
      then r = -1 \<and> s' = s else r = 44 \<and> write_post d (bytes_of_dirent de) (44 * k) s s'"
    unfolding u using take_all [of "bytes_of_dirent de" 44] len by (auto split: if_splits)
  note E = entries_overwrite [OF n k len]
  show ?thesis
  proof (cases "44 * k + 44 > 2097152")
    case False
    then have "r = 44" and P: "write_post d (bytes_of_dirent de) (44 * k) s s'" using W n k by auto
    moreover have "contents s' d = overwrite (contents s d) (44 * k) (bytes_of_dirent de)"
      using P by (simp add: write_post_def)
    moreover have "\<exists>ad sz. inode_table s' d = (inode_table s d)\<lparr>addrs := ad, isize := sz\<rparr>"
      using P by (auto simp: write_post_def)
    moreover from this have "ibackend (inode_table s' d) = ibackend (inode_table s d)" by auto
    moreover have "fs_wf s'" "keeps d s s'"
      "\<forall>j < MAX_INODES. j \<noteq> d \<longrightarrow> inode_table s' j = inode_table s j \<and> contents s' j = contents s j"
      using P by (simp_all add: write_post_def)
    ultimately show ?thesis using False E unfolding dir_only_def by (simp add: dirent_roundtrip [OF de])
  qed (use W in auto)
qed

lemma write_record_spares:
  assumes wf: "fs_wf s" "d < MAX_INODES" and free: "2 + p \<le> card (free_pages (frames (mach s)))"
    and n: "length (contents s d) = 44 * n" and k: "k \<le> n" and de: "length (de_name de) = 32"
  shows "\<exists>r s'. writei d (bytes_of_dirent de) (rec_off k) sizeof_dirent s = Some (r, s') \<and> p \<le> card (free_pages (frames (mach s')))"
proof (rule writei_spares [OF wf])
  have d: "d < 128" using wf(2) by (simp add: MAX_INODES_def)
  have "length (contents s d) \<le> 2097152" using fs_wfD(4) [OF wf(1) d] by (simp add: contents_def)
  then have "unat (rec_off k) = 44 * k" using n k by (intro unat_rec_off) simp
  then show "unat (rec_off k) + unat sizeof_dirent < 2 ^ 32"
    using n k \<open>length (contents s d) \<le> 2097152\<close> by (simp add: sizeof_dirent_def)
qed (use free de in \<open>simp_all add: sizeof_dirent_def bytes_of_dirent_def\<close>)

lemma write_record_returns:
  assumes "fs_wf s" "d < MAX_INODES" and "2 \<le> card (free_pages (frames (mach s)))"
    and "length (contents s d) = 44 * n" and "k \<le> n" and "length (de_name de) = 32"
  shows "\<exists>r s'. writei d (bytes_of_dirent de) (rec_off k) sizeof_dirent s = Some (r, s')"
  using write_record_spares [OF assms(1,2), of 0] assms(3-) by auto

lemma insert_binding:
  assumes "map_of (b1 @ b2) name = None" "distinct (map fst (b1 @ b2))"
  shows "map_of (b1 @ (name, n) # b2) = (map_of (b1 @ b2))(name \<mapsto> n)" "distinct (map fst (b1 @ (name, n) # b2))"
proof -
  have n: "name \<notin> fst ` set b1" "name \<notin> fst ` set b2" using assms(1) by (auto simp: map_of_eq_None_iff)
  then have "map_of b1 name = None" "map_of b2 name = None" by (simp_all add: map_of_eq_None_iff)
  then show "map_of (b1 @ (name, n) # b2) = (map_of (b1 @ b2))(name \<mapsto> n)"
    by (auto simp: fun_eq_iff map_add_def split: option.split)
  show "distinct (map fst (b1 @ (name, n) # b2))"
    using assms(2) n by auto
qed

lemma remove_binding:
  assumes "distinct (map fst (b1 @ (name, n) # b2))"
  shows "map_of (b1 @ b2) = (map_of (b1 @ (name, n) # b2))(name := None)" "distinct (map fst (b1 @ b2))"
proof -
  have "name \<notin> fst ` set b1" "name \<notin> fst ` set b2" using assms by auto
  then have "map_of b1 name = None" "map_of b2 name = None" by (simp_all add: map_of_eq_None_iff)
  then show "map_of (b1 @ b2) = (map_of (b1 @ (name, n) # b2))(name := None)"
    by (auto simp: fun_eq_iff map_add_def split: option.split)
  show "distinct (map fst (b1 @ b2))" using assms by auto
qed

text \<open>The live bindings after a record is filled or cleared.\<close>

lemma bindings_fill:
  assumes k: "k = length (takeWhile live es)" and de: "live de"
  shows "bindings es = bindings (take k es) @ bindings (drop (Suc k) es)"
    "bindings (if k < length es then es[k := de] else es @ [de]) =
      bindings (take k es) @ (ename de, de_inum de) # bindings (drop (Suc k) es)"
proof -
  have le: "k \<le> length es" using length_takeWhile_le [of live es] by (simp add: k)
  show "bindings es = bindings (take k es) @ bindings (drop (Suc k) es)"
  proof (cases "k < length es")
    case True
    then have "\<not> live (es ! k)" using nth_length_takeWhile [of live es] by (simp add: k)
    moreover have "es = take k es @ es ! k # drop (Suc k) es" using True by (rule id_take_nth_drop)
    ultimately show ?thesis by (metis bindings_append bindings_Cons)
  qed simp
  have "(if k < length es then es[k := de] else es @ [de]) = take k es @ de # drop (Suc k) es"
    using le by (auto simp: upd_conv_take_nth_drop)
  then show "bindings (if k < length es then es[k := de] else es @ [de]) =
      bindings (take k es) @ (ename de, de_inum de) # bindings (drop (Suc k) es)"
    using de by simp
qed

lemma bindings_clear:
  assumes "k < length es" "live (es ! k)"
  shows "bindings es = bindings (take k es) @ (ename (es ! k), de_inum (es ! k)) # bindings (drop (Suc k) es)"
    "bindings (es[k := empty_dirent]) = bindings (take k es) @ bindings (drop (Suc k) es)"
proof -
  have "es = take k es @ es ! k # drop (Suc k) es" using assms(1) by (rule id_take_nth_drop)
  then show "bindings es = bindings (take k es) @ (ename (es ! k), de_inum (es ! k)) # bindings (drop (Suc k) es)"
    using assms(2) by (metis bindings_append bindings_Cons)
  show "bindings (es[k := empty_dirent]) = bindings (take k es) @ bindings (drop (Suc k) es)"
    using assms(1) by (simp add: upd_conv_take_nth_drop live_def empty_dirent_def)
qed

definition dir_step :: "u32 \<Rightarrow> memfs \<Rightarrow> memfs \<Rightarrow> (u8 list \<rightharpoonup> u32) \<Rightarrow> bool" where
  "dir_step d s s' m \<longleftrightarrow> dir_only d s s' \<and> dir_wf s' d \<and> dir_map s' d = m"

text \<open>\<open>dirlink\<close> on a name that is not there: the record the scan finds, and the write to it.\<close>

definition new_dirent :: "u8 list \<Rightarrow> u32 \<Rightarrow> memfs \<Rightarrow> dirent" where
  "new_dirent name n s = \<lparr>de_inum = n, de_off = 0,
     de_type = (case iget n s of None \<Rightarrow> 0 | Some t \<Rightarrow> ucast (ucast (itype (inode_table s t)) :: u16)),
     de_name = name_field name\<rparr>"

lemma new_dirent: "length (de_name (new_dirent name n s)) = 32"
  "n \<noteq> 0 \<Longrightarrow> live (new_dirent name n s)" "name_ok name \<Longrightarrow> ename (new_dirent name n s) = name"
  "de_inum (new_dirent name n s) = n"
  by (simp_all add: new_dirent_def live_def ename_def cstr_name_field)

lemma dirlink_unfold:
  assumes wf: "fs_wf s" "d < MAX_INODES" and dir: "dir_wf s d" and name: "name_ok name"
  shows "dirlink env d name n s =
    (if dir_map s d name \<noteq> None then Some (-1, s)
     else do {
       (r, s') \<leftarrow> writei d (bytes_of_dirent (new_dirent name n s))
         (rec_off (length (takeWhile live (entries (contents s d))))) sizeof_dirent s;
       Some (if r \<noteq> 44 then -1 else 0, s') })"
proof -
  let ?es = "entries (contents s d)"
  have dv: "44 dvd length (contents s d)" using dir by (simp add: dir_wf_def)
  have "scan_free d (rec_off 0) s = Some (Some (rec_off (find_free (drop 0 ?es) 0)))"
    by (rule scan_free_find [OF wf dv]) simp
  then have slot: "scan_free d 0 s = Some (Some (rec_off (length (takeWhile live ?es))))" by (simp add: find_free_split)
  show ?thesis
  proof (cases "dir_map s d name")
    case (Some m)
    then show ?thesis using dirlookup_map [OF wf dir name] dir_map_nonzero [OF Some]
      by (auto simp: dirlink_def split: prod.splits)
  next
    case None
    obtain off where look: "dirlookup env d name s = Some (0, off, s)"
      using dirlookup_map [OF wf dir name] None by (cases "find_name name ?es 0") auto
    show ?thesis using None slot
      by (auto simp: dirlink_def look new_dirent_def Let_def intro!: arg_cong2 [where f = Option.bind])
  qed
qed

lemma dirlink_effect:
  assumes wf: "fs_wf s" "d < MAX_INODES" and dir: "dir_wf s d" and name: "name_ok name" and n: "n \<noteq> 0"
    and run: "dirlink env d name n s = Some (r, s')"
  shows "r = -1 \<and> s' = s \<and> (dir_map s d name \<noteq> None \<or> length (contents s d) + 44 > 2097152) \<or>
    r = 0 \<and> dir_map s d name = None \<and> dir_step d s s' ((dir_map s d)(name \<mapsto> n))"
proof (cases "dir_map s d name")
  case None
  let ?es = "entries (contents s d)" and ?de = "new_dirent name n s"
  have dv: "44 dvd length (contents s d)" and b: "ibackend (inode_table s d) = INODE_MEM"
    and dist: "distinct (map fst (bindings ?es))" using dir by (auto simp: dir_wf_def)
  obtain N where N: "length (contents s d) = 44 * N" using dv by blast
  define k where "k = length (takeWhile live ?es)"
  have k: "k \<le> N" using length_takeWhile_le [of live ?es] by (simp add: k_def N)
  obtain r' where w: "writei d (bytes_of_dirent ?de) (rec_off k) sizeof_dirent s = Some (r', s')"
    and r: "r = (if r' \<noteq> 44 then -1 else 0)"
    using run None by (auto simp: dirlink_unfold [OF wf dir name] k_def bind_eq_Some_conv)
  note W = write_record [OF wf N k new_dirent(1) w]
  show ?thesis
  proof (cases "44 * k + 44 > 2097152")
    case True
    then show ?thesis using W r N k by auto
  next
    case False
    have es': "entries (contents s' d) = (if k < length ?es then ?es[k := ?de] else ?es @ [?de])" and "r = 0"
      and s': "dir_only d s s'" "44 dvd length (contents s' d)" "ibackend (inode_table s' d) = INODE_MEM"
      using W False r b by (auto simp: N)
    note B = bindings_fill [OF k_def new_dirent(2) [OF n, of name s]]
    have bs': "bindings (entries (contents s' d)) = bindings (take k ?es) @ (name, n) # bindings (drop (Suc k) ?es)"
      using B(2) by (simp add: es' new_dirent(3) [OF name] new_dirent(4))
    have "map_of (bindings ?es) name = None" using None by (simp add: dir_map_def)
    note I = insert_binding [OF this [unfolded B(1)] dist [unfolded B(1)]]
    have "dir_map s' d = (dir_map s d)(name \<mapsto> n)" unfolding dir_map_def bs' B(1) using I(1) by simp
    moreover have "dir_wf s' d" using s' I(2) by (simp add: dir_wf_def bs')
    ultimately show ?thesis using None s'(1) \<open>r = 0\<close> by (simp add: dir_step_def)
  qed
qed (use run in \<open>simp add: dirlink_unfold [OF wf dir name]\<close>)

lemma dirlink_spares:
  assumes wf: "fs_wf s" "d < MAX_INODES" and dir: "dir_wf s d" and name: "name_ok name"
    and free: "2 + p \<le> card (free_pages (frames (mach s)))"
  shows "\<exists>r s'. dirlink env d name n s = Some (r, s') \<and> p \<le> card (free_pages (frames (mach s')))"
proof -
  obtain N where N: "length (contents s d) = 44 * N" using dir by (auto simp: dir_wf_def)
  have "length (takeWhile live (entries (contents s d))) \<le> N"
    using length_takeWhile_le [of live "entries (contents s d)"] by (simp add: N)
  from write_record_spares [OF wf free N this new_dirent(1) [of name n s]] free show ?thesis
    by (auto simp: dirlink_unfold [OF wf dir name])
qed

lemma dirlink_returns:
  assumes "fs_wf s" "d < MAX_INODES" "dir_wf s d" "name_ok name" "2 \<le> card (free_pages (frames (mach s)))"
  shows "\<exists>r s'. dirlink env d name n s = Some (r, s')"
  using dirlink_spares [OF assms(1-4), of 0] assms(5) by auto

lemma dirunlink_unfold:
  assumes wf: "fs_wf s" "d < MAX_INODES" and dir: "dir_wf s d" and name: "name_ok name" and bound: "dir_map s d name = Some n"
  shows "\<exists>k < length (entries (contents s d)). live (entries (contents s d) ! k) \<and>
    ename (entries (contents s d) ! k) = name \<and> de_inum (entries (contents s d) ! k) = n \<and>
    dirunlink env u d name s = do {
      (r, s') \<leftarrow> writei d (bytes_of_dirent empty_dirent) (rec_off k) sizeof_dirent s;
      Some (if r \<noteq> 44 then -1 else sint n, s') }"
proof -
  let ?es = "entries (contents s d)"
  from find_name_some [of ?es name n 0] bound obtain k where k: "k < length ?es"
    "find_name name ?es 0 = (n, Some (rec_off k))" "live (?es ! k)" "ename (?es ! k) = name" "de_inum (?es ! k) = n"
    by (auto simp: dir_map_def)
  have look: "dirlookup env d name s = Some (n, Some (rec_off k), s)" using dirlookup_map(1) [OF wf dir name] k(2) by simp
  show ?thesis using k dir_map_nonzero [OF bound]
    by (intro exI [of _ k]) (auto simp: dirunlink_def look intro!: arg_cong2 [where f = Option.bind])
qed

lemma dirunlink_effect:
  assumes wf: "fs_wf s" "d < MAX_INODES" and dir: "dir_wf s d" and name: "name_ok name"
    and run: "dirunlink env u d name s = Some (r, s')"
  shows "case dir_map s d name of
      None \<Rightarrow> r = -1 \<and> s' = s
    | Some n \<Rightarrow> r = sint n \<and> dir_step d s s' ((dir_map s d)(name := None))"
proof (cases "dir_map s d name")
  case None
  then show ?thesis using dirlookup_map [OF wf dir name] run by (auto simp: dirunlink_def split: prod.splits)
next
  case (Some n)
  let ?es = "entries (contents s d)"
  have dv: "44 dvd length (contents s d)" and b: "ibackend (inode_table s d) = INODE_MEM"
    and dist: "distinct (map fst (bindings ?es))" using dir by (auto simp: dir_wf_def)
  obtain N where N: "length (contents s d) = 44 * N" using dv by blast
  from dirunlink_unfold [OF wf dir name Some, of env u] obtain k where k: "k < length ?es" "live (?es ! k)" "ename (?es ! k) = name"
    "de_inum (?es ! k) = n" and eq: "dirunlink env u d name s = do {
      (r, s') \<leftarrow> writei d (bytes_of_dirent empty_dirent) (rec_off k) sizeof_dirent s;
      Some (if r \<noteq> 44 then -1 else sint n, s') }" by blast
  obtain r' where w: "writei d (bytes_of_dirent empty_dirent) (rec_off k) sizeof_dirent s = Some (r', s')"
    and r: "r = (if r' \<noteq> 44 then -1 else sint n)"
    using run eq by (auto simp: bind_eq_Some_conv)
  have "length (contents s d) \<le> 2097152"
    using fs_wfD(4) [OF wf(1), of d] wf(2) by (simp add: contents_def MAX_INODES_def)
  then have sz: "\<not> 44 * k + 44 > 2097152" using k(1) N by simp
  have "length (de_name empty_dirent) = 32" by (simp add: empty_dirent_def)
  from write_record [OF wf N _ this w] sz k(1) have es': "entries (contents s' d) = ?es[k := empty_dirent]" and "r = sint n"
    and s': "dir_only d s s'" "44 dvd length (contents s' d)" "ibackend (inode_table s' d) = INODE_MEM"
    by (auto simp: b N r)
  note B = bindings_clear [OF k(1,2), unfolded k(3,4)]
  note R = remove_binding [OF dist [unfolded B(1)]]
  have "dir_map s' d = (dir_map s d)(name := None)" unfolding dir_map_def es' B using R(1) by simp
  moreover have "dir_wf s' d" using s' R(2) by (simp add: dir_wf_def es' B)
  ultimately show ?thesis using Some s'(1) \<open>r = sint n\<close> by (simp add: dir_step_def)
qed

lemma dirunlink_returns:
  assumes wf: "fs_wf s" "d < MAX_INODES" and dir: "dir_wf s d" and name: "name_ok name"
    and free: "2 \<le> card (free_pages (frames (mach s)))"
  shows "\<exists>r s'. dirunlink env u d name s = Some (r, s')"
proof (cases "dir_map s d name")
  case None
  then show ?thesis using dirlookup_map [OF wf dir name] by (auto simp: dirunlink_def split: prod.splits)
next
  case (Some n)
  obtain N where N: "length (contents s d) = 44 * N" using dir by (auto simp: dir_wf_def)
  from dirunlink_unfold [OF wf dir name Some, of env u] obtain k where k: "k < length (entries (contents s d))"
    "dirunlink env u d name s = do {
      (r, s') \<leftarrow> writei d (bytes_of_dirent empty_dirent) (rec_off k) sizeof_dirent s;
      Some (if r \<noteq> 44 then -1 else sint n, s') }" by blast
  have "k \<le> N" "length (de_name empty_dirent) = 32" using k(1) by (simp_all add: N empty_dirent_def)
  from write_record_returns [OF wf free N this] show ?thesis using k(2) by auto
qed

text \<open>The two scans that only read.\<close>

lemma isdirempty_loop_all:
  assumes wf: "fs_wf s" "d < MAX_INODES" and dv: "44 dvd length (contents s d)"
    and k: "k \<le> length (contents s d) div 44"
  shows "isdirempty_loop d (rec_off k) s =
    Some (list_all (\<lambda>e. live e \<longrightarrow> ename e \<in> {dot, dotdot}) (drop k (entries (contents s d))))"
  using k
proof (induction "length (contents s d) div 44 - k" arbitrary: k)
  case 0
  then show ?case using scan_offset [OF wf dv, of k] by (simp add: isdirempty_loop.simps [of _ "rec_off k"])
next
  case (Suc n)
  let ?es = "entries (contents s d)"
  have k: "k < length (contents s d) div 44" using Suc.hyps(2) by simp
  then have d: "drop k ?es = ?es ! k # drop (Suc k) ?es" by (simp add: Cons_nth_drop_Suc)
  have "length (de_name (?es ! k)) \<le> 32" using k by (simp add: nth_entries entry_at_def dirent_of_bytes_def)
  then have "ename (?es ! k) = cstr (de_name (?es ! k))" by (simp add: ename_def)
  moreover have "isdirempty_loop d (rec_off (Suc k)) s =
      Some (list_all (\<lambda>e. live e \<longrightarrow> ename e \<in> {dot, dotdot}) (drop (Suc k) ?es))"
    using Suc.hyps Suc.prems by (intro Suc.hyps(1)) simp_all
  ultimately show ?case
    using scan_offset [OF wf dv Suc.prems] k read_dirent_entry [OF wf k]
    by (subst isdirempty_loop.simps) (simp add: d live_def)
qed

lemma readdir_loop_next:
  assumes wf: "fs_wf s" "d < MAX_INODES" and dv: "44 dvd length (contents s d)"
    and k: "k \<le> length (contents s d) div 44"
  shows "readdir_loop d (rec_off k) s =
    Some (let es = entries (contents s d); j = k + length (takeWhile (\<lambda>e. \<not> live e) (drop k es))
          in if j < length es then (Readdir_entry ((es ! j)\<lparr>de_off := rec_off (Suc j)\<rparr>), rec_off (Suc j))
             else (Readdir_end, rec_off (length es)))"
  using k
proof (induction "length (contents s d) div 44 - k" arbitrary: k)
  case 0
  then have k: "k = length (contents s d) div 44" by simp
  then have "\<not> rec_off (Suc k) \<le> isize (inode_table s d)" using readdir_guard [OF wf dv, of k] by simp
  then show ?case using scan_offset(2) [OF wf dv, of k] k by (subst readdir_loop.simps) simp
next
  case (Suc n)
  let ?es = "entries (contents s d)"
  have k: "k < length (contents s d) div 44" using Suc.hyps(2) by simp
  then have d: "drop k ?es = ?es ! k # drop (Suc k) ?es" by (simp add: Cons_nth_drop_Suc)
  have g: "rec_off (Suc k) \<le> isize (inode_table s d)" using readdir_guard [OF wf dv, of k] k by simp
  have IH: "readdir_loop d (rec_off (Suc k)) s =
      Some (let es = ?es; j = Suc k + length (takeWhile (\<lambda>e. \<not> live e) (drop (Suc k) es))
          in if j < length es then (Readdir_entry ((es ! j)\<lparr>de_off := rec_off (Suc j)\<rparr>), rec_off (Suc j))
             else (Readdir_end, rec_off (length es)))"
    using Suc.hyps Suc.prems by (intro Suc.hyps(1)) simp_all
  show ?case
    using scan_offset(2) [OF wf dv Suc.prems] k read_dirent_entry [OF wf k] g IH
    by (subst readdir_loop.simps) (auto simp: d live_def Let_def)
qed

section \<open>A directory as a finite map\<close>

text \<open>
  The contract of a directory towards the path operations that use it: names are bound by \<open>link\<close>,
  unbound by \<open>unlink\<close> and read by \<open>lookup\<close>; a failing operation changes nothing. Its client is a
  history of operations: a lookup after it returns what replaying the history on a finite map gives.
\<close>

datatype ('n, 'i) dir_op = Link 'n 'i | Unlink 'n

fun dir_run :: "('n \<Rightarrow> 'i \<Rightarrow> 's \<Rightarrow> (int \<times> 's) option) \<Rightarrow> ('n \<Rightarrow> 's \<Rightarrow> (int \<times> 's) option) \<Rightarrow>
    ('n, 'i) dir_op list \<Rightarrow> 's \<Rightarrow> (int list \<times> 's) option" where
  "dir_run link unlink [] s = Some ([], s)"
| "dir_run link unlink (x # xs) s = do {
     (r, s) \<leftarrow> (case x of Link n i \<Rightarrow> link n i s | Unlink n \<Rightarrow> unlink n s);
     (rs, s) \<leftarrow> dir_run link unlink xs s;
     Some (r # rs, s) }"

fun dir_replay :: "(('n, 'i) dir_op \<times> int) list \<Rightarrow> ('n \<rightharpoonup> 'i) \<Rightarrow> 'n \<rightharpoonup> 'i" where
  "dir_replay [] m = m"
| "dir_replay ((Link n i, r) # xs) m = dir_replay xs (if r = 0 then m(n \<mapsto> i) else m)"
| "dir_replay ((Unlink n, r) # xs) m = dir_replay xs (m(n := None))"

text \<open>The results a history may report.\<close>

fun dir_results :: "('i \<Rightarrow> int) \<Rightarrow> (('n, 'i) dir_op \<times> int) list \<Rightarrow> ('n \<rightharpoonup> 'i) \<Rightarrow> bool" where
  "dir_results code [] m \<longleftrightarrow> True"
| "dir_results code ((Link n i, r) # xs) m \<longleftrightarrow>
     (r = 0 \<and> m n = None \<or> r = -1) \<and> dir_results code xs (if r = 0 then m(n \<mapsto> i) else m)"
| "dir_results code ((Unlink n, r) # xs) m \<longleftrightarrow>
     r = (case m n of None \<Rightarrow> -1 | Some i \<Rightarrow> code i) \<and> dir_results code xs (m(n := None))"

fun dir_op_ok :: "('n \<Rightarrow> bool) \<Rightarrow> ('i \<Rightarrow> bool) \<Rightarrow> ('n, 'i) dir_op \<Rightarrow> bool" where
  "dir_op_ok nok iok (Link n i) \<longleftrightarrow> nok n \<and> iok i"
| "dir_op_ok nok iok (Unlink n) \<longleftrightarrow> nok n"

locale name_map =
  fixes ok :: "'s \<Rightarrow> bool"
    and nok :: "'n \<Rightarrow> bool"
    and iok :: "'i \<Rightarrow> bool"
    and code :: "'i \<Rightarrow> int"
    and view :: "'s \<Rightarrow> 'n \<rightharpoonup> 'i"
    and lookup :: "'n \<Rightarrow> 's \<Rightarrow> 'i option"
    and link :: "'n \<Rightarrow> 'i \<Rightarrow> 's \<Rightarrow> (int \<times> 's) option"
    and unlink :: "'n \<Rightarrow> 's \<Rightarrow> (int \<times> 's) option"
  assumes lookup_law: "ok s \<Longrightarrow> nok n \<Longrightarrow> lookup n s = view s n"
    and link_law: "ok s \<Longrightarrow> nok n \<Longrightarrow> iok i \<Longrightarrow> link n i s = Some (r, s') \<Longrightarrow>
      ok s' \<and> (r = 0 \<and> view s n = None \<and> view s' = (view s)(n \<mapsto> i) \<or> r = -1 \<and> view s' = view s)"
    and unlink_law: "ok s \<Longrightarrow> nok n \<Longrightarrow> unlink n s = Some (r, s') \<Longrightarrow>
      ok s' \<and> r = (case view s n of None \<Rightarrow> -1 | Some i \<Rightarrow> code i) \<and> view s' = (view s)(n := None)"
begin

lemma history:
  assumes "ok s" "dir_run link unlink xs s = Some (rs, s')" "list_all (dir_op_ok nok iok) xs"
  shows "ok s' \<and> length rs = length xs \<and> view s' = dir_replay (zip xs rs) (view s) \<and>
    dir_results code (zip xs rs) (view s)"
  using assms
proof (induction xs arbitrary: s rs)
  case (Cons x xs)
  obtain r s1 rs1 where step: "(case x of Link n i \<Rightarrow> link n i s | Unlink n \<Rightarrow> unlink n s) = Some (r, s1)"
    and rest: "dir_run link unlink xs s1 = Some (rs1, s')" and rs: "rs = r # rs1"
    using Cons.prems(2) by (auto simp: bind_eq_Some_conv)
  show ?case
  proof (cases x)
    case (Link n i)
    then have L: "ok s1 \<and> (r = 0 \<and> view s n = None \<and> view s1 = (view s)(n \<mapsto> i) \<or> r = -1 \<and> view s1 = view s)"
      using link_law [OF Cons.prems(1)] step Cons.prems(3) by auto
    then have "ok s1" by blast
    from Cons.IH [OF this rest] Cons.prems(3) L show ?thesis by (auto simp: Link rs)
  next
    case (Unlink n)
    then have L: "ok s1 \<and> r = (case view s n of None \<Rightarrow> -1 | Some i \<Rightarrow> code i) \<and> view s1 = (view s)(n := None)"
      using unlink_law [OF Cons.prems(1)] step Cons.prems(3) by auto
    then have "ok s1" by blast
    from Cons.IH [OF this rest] Cons.prems(3) L show ?thesis by (simp add: Unlink rs fun_upd_def)
  qed
qed simp

lemma lookup_after:
  assumes "ok s" "dir_run link unlink xs s = Some (rs, s')" "list_all (dir_op_ok nok iok) xs" "nok n"
  shows "lookup n s' = dir_replay (zip xs rs) (view s) n"
  using history [OF assms(1-3)] lookup_law [OF _ assms(4)] by simp

end

definition dir_ok :: "u32 \<Rightarrow> memfs \<Rightarrow> bool" where
  "dir_ok d s \<longleftrightarrow> fs_wf s \<and> d < MAX_INODES \<and> dir_wf s d"

definition dir_find :: "fs_env \<Rightarrow> u32 \<Rightarrow> u8 list \<Rightarrow> memfs \<Rightarrow> u32 option" where
  "dir_find env d name s =
     (case dirlookup env d name s of None \<Rightarrow> None | Some (n, _, _) \<Rightarrow> if n = 0 then None else Some n)"

lemma dir_find_map: "dir_ok d s \<Longrightarrow> name_ok name \<Longrightarrow> dir_find env d name s = dir_map s d name"
  using dirlookup_map(1) [of s d name env] dirlookup_map(2) [of s d name] dir_map_nonzero [of s d name]
  by (cases "dir_map s d name") (auto simp: dir_ok_def dir_find_def split: prod.splits)

interpretation dir: name_map "dir_ok d" name_ok "\<lambda>i. i \<noteq> 0" sint "\<lambda>s. dir_map s d" "dir_find env d" "dirlink env d" "dirunlink env u d"
  for d env u
proof
  fix s :: memfs and n
  assume "dir_ok d s" "name_ok n"
  then show "dir_find env d n s = dir_map s d n" by (rule dir_find_map)
next
  fix s s' :: memfs and n i r
  assume "dir_ok d s" and n: "name_ok n" and i: "i \<noteq> 0" and run: "dirlink env d n i s = Some (r, s')"
  then have s: "fs_wf s" "d < MAX_INODES" "dir_wf s d" by (simp_all add: dir_ok_def)
  from dirlink_effect [OF s n i run] s show "dir_ok d s' \<and> (r = 0 \<and> dir_map s d n = None \<and>
      dir_map s' d = (dir_map s d)(n \<mapsto> i) \<or> r = -1 \<and> dir_map s' d = dir_map s d)"
    by (auto simp: dir_ok_def dir_step_def dir_only_def)
next
  fix s s' :: memfs and n r
  assume "dir_ok d s" and n: "name_ok n" and run: "dirunlink env u d n s = Some (r, s')"
  then have s: "fs_wf s" "d < MAX_INODES" "dir_wf s d" by (simp_all add: dir_ok_def)
  from dirunlink_effect [OF s n run] s show "dir_ok d s' \<and>
      r = (case dir_map s d n of None \<Rightarrow> -1 | Some i \<Rightarrow> sint i) \<and> dir_map s' d = (dir_map s d)(n := None)"
    by (auto simp: dir_ok_def dir_step_def dir_only_def fun_upd_idem split: option.splits)
qed

section \<open>Properties\<close>

text \<open>
  (C27) A directory is a finite map, whatever is done to it: run any history of \<open>dirlink\<close> and
  \<open>dirunlink\<close> calls on a well-formed directory. If every call returned, the directory is still
  well-formed, each result is the one the map prescribes (\<open>dirlink\<close> 0 on a free name or -1 without effect,
  \<open>dirunlink\<close> the inode number that was bound or -1), and \<open>dirlookup\<close> finds for every name exactly what
  replaying the successful operations on the map of the initial directory leaves there.
\<close>

theorem directory_history:
  assumes "dir_ok d s" and "dir_run (dirlink env d) (dirunlink env u d) xs s = Some (rs, s')"
    and "list_all (dir_op_ok name_ok (\<lambda>i. i \<noteq> 0)) xs" and "name_ok name"
  shows "dir_ok d s' \<and> dir_results sint (zip xs rs) (dir_map s d) \<and>
    dir_find env d name s' = dir_replay (zip xs rs) (dir_map s d) name"
  using dir.history [OF assms(1-3)] dir.lookup_after [OF assms] by simp

text \<open>
  \<open>dirlink\<close> on a well-formed directory with two free pages left always returns. It returns -1 and
  changes nothing when the name is already bound (or the directory is full); otherwise it returns 0,
  the directory maps the name to the inode number and every other name as before, and no other file changes.
\<close>

lemma dirlink_correct:
  assumes "dir_ok d s" and "name_ok name" and "n \<noteq> 0" and "2 \<le> card (free_pages (frames (mach s)))"
    and "length (contents s d) + 44 \<le> 2097152"
  shows "\<exists>r s'. dirlink env d name n s = Some (r, s') \<and>
    (if dir_map s d name \<noteq> None then r = -1 \<and> s' = s
     else r = 0 \<and> dir_ok d s' \<and> dir_map s' d = (dir_map s d)(name \<mapsto> n) \<and>
       (\<forall>j < MAX_INODES. j \<noteq> d \<longrightarrow> inode_table s' j = inode_table s j \<and> contents s' j = contents s j))"
proof -
  have s: "fs_wf s" "d < MAX_INODES" "dir_wf s d" using assms(1) by (simp_all add: dir_ok_def)
  from dirlink_returns [OF s assms(2,4)] obtain r s' where run: "dirlink env d name n s = Some (r, s')" by blast
  from dirlink_effect [OF s assms(2,3) run] s assms(5) show ?thesis
    by (intro exI [of _ r] exI [of _ s']) (auto simp: run dir_ok_def dir_step_def dir_only_def)
qed

text \<open>
  \<open>dirunlink\<close> on a well-formed directory with two free pages left always returns. On an unbound name it
  returns -1 and changes nothing; otherwise it returns the inode number that was bound, the name is
  unbound, every other name keeps its inode number, and no other file changes.
\<close>

lemma dirunlink_correct:
  assumes "dir_ok d s" and "name_ok name" and "2 \<le> card (free_pages (frames (mach s)))"
  shows "\<exists>r s'. dirunlink env u d name s = Some (r, s') \<and>
    (case dir_map s d name of
       None \<Rightarrow> r = -1 \<and> s' = s
     | Some n \<Rightarrow> r = sint n \<and> dir_ok d s' \<and> dir_map s' d = (dir_map s d)(name := None) \<and>
         (\<forall>j < MAX_INODES. j \<noteq> d \<longrightarrow> inode_table s' j = inode_table s j \<and> contents s' j = contents s j))"
proof -
  have s: "fs_wf s" "d < MAX_INODES" "dir_wf s d" using assms(1) by (simp_all add: dir_ok_def)
  from dirunlink_returns [OF s assms(2,3)] obtain r s' where run: "dirunlink env u d name s = Some (r, s')" by blast
  from dirunlink_effect [OF s assms(2) run] s show ?thesis
    by (intro exI [of _ r] exI [of _ s']) (auto simp: run dir_ok_def dir_step_def dir_only_def split: option.splits)
qed

text \<open>
  \<open>isdirempty\<close> on a well-formed directory always returns, and answers whether no name other than
  \<open>.\<close> and \<open>..\<close> is bound.
\<close>

lemma isdirempty_correct:
  assumes "dir_ok d s"
  shows "isdirempty d s = Some (dom (dir_map s d) \<subseteq> {dot, dotdot})"
proof -
  have wf: "fs_wf s" "d < MAX_INODES" and dv: "44 dvd length (contents s d)"
    using assms by (simp_all add: dir_ok_def dir_wf_def)
  have "isdirempty_loop d (rec_off 0) s =
      Some (list_all (\<lambda>e. live e \<longrightarrow> ename e \<in> {dot, dotdot}) (drop 0 (entries (contents s d))))"
    by (rule isdirempty_loop_all [OF wf dv]) simp
  moreover have "dom (dir_map s d) = ename ` {e \<in> set (entries (contents s d)). live e}"
    by (auto simp: dir_map_def dom_map_of_conv_image_fst bindings_def image_image)
  ultimately show ?thesis by (auto simp: isdirempty_def list_all_iff)
qed

text \<open>
  \<open>readdir\<close> from a record boundary of a well-formed directory delivers the first live record at or
  after the offset, with its own \<open>d_off\<close> set to the offset of the next record, and moves the offset there;
  with no live record left it reports the end and moves the offset to the end of the directory.
\<close>

lemma readdir_correct:
  assumes "dir_ok d s" and "itype (inode_table s d) = T_DIR" and "44 * k \<le> length (contents s d)"
  shows "readdir d (rec_off k) s =
    Some (let es = entries (contents s d); j = k + length (takeWhile (\<lambda>e. \<not> live e) (drop k es))
          in if j < length es then (Readdir_entry ((es ! j)\<lparr>de_off := rec_off (Suc j)\<rparr>), rec_off (Suc j))
             else (Readdir_end, rec_off (length es)))"
proof -
  have wf: "fs_wf s" "d < MAX_INODES" and dv: "44 dvd length (contents s d)"
    using assms by (simp_all add: dir_ok_def dir_wf_def)
  have "k \<le> length (contents s d) div 44" using assms(3) dv by auto
  from readdir_loop_next [OF wf dv this] show ?thesis using assms(2) by (simp add: readdir_def)
qed

section \<open>Witnesses\<close>

text \<open>A directory, inode 1, whose one record binds the name \<open>a\<close> to inode 5; 64 pages are free.\<close>

definition dirent_a :: dirent where
  "dirent_a = \<lparr>de_inum = 5, de_off = 0, de_type = 2, de_name = name_field [97]\<rparr>"

definition dir_example :: memfs where
  "dir_example = \<lparr>inode_table = (\<lambda>_. empty_inode)(1 := empty_inode\<lparr>inum := 1, itype := T_DIR, isize := 44,
       addrs := (\<lambda>_. 0)(0 := 0x100000)\<rparr>),
     mach = boot_example\<lparr>mem := store_bytes (\<lambda>_. 0) 0x100000 (bytes_of_dirent dirent_a)\<rparr>\<rparr>"

lemma dir_example_contents: "contents dir_example 1 = bytes_of_dirent dirent_a"
proof (rule nth_equalityI)
  have len: "length (bytes_of_dirent dirent_a) = 44" by (simp add: bytes_of_dirent_def dirent_a_def)
  then show "length (contents dir_example 1) = length (bytes_of_dirent dirent_a)"
    by (simp add: contents_def dir_example_def)
  fix b assume "b < length (contents dir_example 1)"
  then have b: "b < 44" by (simp add: contents_def dir_example_def)
  have "page_aligned 0x100000" by (simp add: page_aligned_def)
  from store_in_page [OF this this, of b 0 "bytes_of_dirent dirent_a" "\<lambda>_. 0"] b len
  show "contents dir_example 1 ! b = bytes_of_dirent dirent_a ! b"
    by (simp add: contents_def dir_example_def file_byte_def)
qed

lemma dir_example_entries: "entries (contents dir_example 1) = [dirent_a]"
proof -
  have "length (de_name dirent_a) = 32" by (simp add: dirent_a_def)
  then have "length (bytes_of_dirent dirent_a) = 44" by (simp add: bytes_of_dirent_def)
  then show ?thesis
    by (simp add: dir_example_contents entries_def entry_at_def dirent_roundtrip [OF \<open>length (de_name dirent_a) = 32\<close>])
qed

lemma name_a: "name_ok [97]" "name_ok [98]" "live dirent_a" "ename dirent_a = [97]"
  by (simp_all add: name_ok_def live_def dirent_a_def ename_def cstr_name_field)

lemma dir_example_ok: "dir_ok 1 dir_example" "dir_map dir_example 1 = [[97] \<mapsto> 5]"
  "64 \<le> card (free_pages (frames (mach dir_example)))" "length (contents dir_example 1) = 44"
proof -
  have "page_aligned 0x100000" by (simp add: page_aligned_def)
  then have wf: "fs_wf dir_example"
    using boot_example_ready by (auto simp: fs_wf_def dir_example_def empty_inode_def unat_MAXFILE word_le_nat_alt)
  show len: "length (contents dir_example 1) = 44" by (simp add: contents_def dir_example_def)
  have "ibackend (inode_table dir_example 1) = INODE_MEM" by (simp add: dir_example_def empty_inode_def)
  then show "dir_ok 1 dir_example"
    using wf len by (simp add: dir_ok_def dir_wf_def dir_example_entries MAX_INODES_def bindings_def)
  show "dir_map dir_example 1 = [[97] \<mapsto> 5]"
    by (simp add: dir_map_def dir_example_entries name_a) (simp add: dirent_a_def)
  show "64 \<le> card (free_pages (frames (mach dir_example)))" using boot_example_ready by (simp add: dir_example_def)
qed

definition env_example :: fs_env where
  "env_example = \<lparr>v9p_loaddir = (\<lambda>d s. Some s), proc_inum = (\<lambda>_. 0)\<rparr>"

theorem directory_history_witness:
  "\<exists>s'. dir_run (dirlink env_example 1) (dirunlink env_example 0 1) [Unlink [97]] dir_example = Some ([5], s') \<and>
    dir_find env_example 1 [97] s' = None"
proof -
  have s: "fs_wf dir_example" "(1::u32) < MAX_INODES" "dir_wf dir_example 1"
    using dir_example_ok(1) by (simp_all add: dir_ok_def)
  have "2 \<le> card (free_pages (frames (mach dir_example)))" using dir_example_ok(3) by simp
  from dirunlink_returns [OF s name_a(1) this, of env_example 0] obtain r s'
    where "dirunlink env_example 0 1 [97] dir_example = Some (r, s')" by blast
  then have run: "dir_run (dirlink env_example 1) (dirunlink env_example 0 1) [Unlink [97]] dir_example = Some ([r], s')"
    by simp
  from directory_history [OF dir_example_ok(1) run _ name_a(1)] have "r = 5 \<and> dir_find env_example 1 [97] s' = None"
    using name_a(1) by (simp add: dir_example_ok(2))
  with run show ?thesis by blast
qed

lemma dirlink_correct_witness:
  "\<exists>s'. dirlink env_example 1 [98] 7 dir_example = Some (0, s') \<and> dir_map s' 1 = [[97] \<mapsto> 5, [98] \<mapsto> 7]"
  using dirlink_correct [OF dir_example_ok(1) name_a(2), of 7 env_example] dir_example_ok(2-4) by auto

lemma dirunlink_correct_witness:
  "\<exists>s'. dirunlink env_example 0 1 [97] dir_example = Some (5, s') \<and> dir_map s' 1 [97] = None"
  using dirunlink_correct [OF dir_example_ok(1) name_a(1), of env_example 0] dir_example_ok(2,3) by auto

lemma isdirempty_correct_witness: "isdirempty 1 dir_example = Some False"
  using isdirempty_correct [OF dir_example_ok(1)] by (simp add: dir_example_ok(2) dot_def dotdot_def)

lemma readdir_correct_witness:
  "readdir 1 (rec_off 0) dir_example = Some (Readdir_entry (dirent_a\<lparr>de_off := 44\<rparr>), 44)"
proof -
  have "itype (inode_table dir_example 1) = T_DIR" by (simp add: dir_example_def)
  from readdir_correct [OF dir_example_ok(1) this, of 0] show ?thesis
    by (simp add: dir_example_entries name_a(3) rec_off_def)
qed

end
