(* ===== verification/Paths.thy ===== *)
theory Paths
  imports Directory
begin

text \<open>
  The path routines of \<open>kernel/fs/fs.c\<close>: \<open>skipelem\<close>, \<open>path_normalize\<close> and \<open>path_absolute\<close>. Paths are
  the bytes of a C string without its NUL. An output buffer is the list of the bytes written so far, so its
  length is the C variable \<open>n\<close>; lengths are naturals, since the only caller hands over strings shorter
  than 256 bytes. \<open>None\<close> is the result -1, or the end of the path for \<open>skipelem\<close>.
\<close>

definition SLASH :: u8 where "SLASH = 47"

definition skipelem :: "u8 list \<Rightarrow> (u8 list \<times> u8 list) option" where
  "skipelem path =
     (let p = dropWhile (\<lambda>c. c = SLASH) path
      in if p = [] then None
         else (let s = takeWhile (\<lambda>c. c \<noteq> SLASH) p; rest = dropWhile (\<lambda>c. c \<noteq> SLASH) p;
                   len = (if length s \<ge> unat DIRSIZ then unat DIRSIZ - 1 else length s)
               in Some (dropWhile (\<lambda>c. c = SLASH) rest, take len s)))"

text \<open>The branch of \<open>path_normalize\<close> for \<open>..\<close>: drop the last component already written.\<close>

definition pop_elem :: "u8 list \<Rightarrow> u8 list" where
  "pop_elem out =
     (if length out > 1 then
        (let kept = rev (dropWhile (\<lambda>c. c \<noteq> SLASH) (tl (rev out))) in if kept = [] then take 1 out else kept)
      else out)"

lemma drop_elem_less:
  assumes "dropWhile (\<lambda>c. c = SLASH) p = x # xs"
  shows "length (dropWhile (\<lambda>c. c \<noteq> SLASH) (x # xs)) < length p"
proof -
  have "x \<noteq> SLASH" using assms by (metis (full_types) dropWhile_eq_Cons_conv)
  then have "length (dropWhile (\<lambda>c. c \<noteq> SLASH) (x # xs)) \<le> length xs" by (simp add: length_dropWhile_le)
  also have "\<dots> < length p" using assms length_dropWhile_le [of "\<lambda>c. c = SLASH" p] by simp
  finally show ?thesis .
qed

function normalize_loop :: "u8 list \<Rightarrow> u8 list \<Rightarrow> nat \<Rightarrow> u8 list option" where
  "normalize_loop p out outsz =
     (case dropWhile (\<lambda>c. c = SLASH) p of
        [] \<Rightarrow> Some out
      | x # xs \<Rightarrow>
          (let s = takeWhile (\<lambda>c. c \<noteq> SLASH) (x # xs); p = dropWhile (\<lambda>c. c \<noteq> SLASH) (x # xs)
           in if s = dot then normalize_loop p out outsz
              else if s = dotdot then normalize_loop p (pop_elem out) outsz
              else if length out + length s + 1 \<ge> outsz then None
              else normalize_loop p (out @ s @ [SLASH]) outsz))"
  by pat_completeness auto
termination
  by (relation "measure (\<lambda>(p, out, outsz). length p)") (simp_all only: in_measure wf_measure split drop_elem_less)

declare normalize_loop.simps [simp del]

definition path_normalize :: "u8 list \<Rightarrow> nat \<Rightarrow> u8 list option" where
  "path_normalize p outsz =
     (if outsz < 2 then None
      else case normalize_loop p [SLASH] outsz of
             None \<Rightarrow> None
           | Some out \<Rightarrow> Some (if length out > 1 \<and> last out = SLASH then butlast out else out))"

definition path_absolute :: "u8 list \<Rightarrow> u8 list \<Rightarrow> nat \<Rightarrow> u8 list option" where
  "path_absolute fs_cwd path outsz =
     (if path \<noteq> [] \<and> hd path = SLASH then if length path \<ge> 256 then None else path_normalize path outsz
      else if length fs_cwd + 1 + length path \<ge> 256 then None
      else path_normalize (fs_cwd @ [SLASH] @ path) outsz)"

section \<open>Components\<close>

text \<open>The specification: a path is its list of components, and \<open>..\<close> cancels the component before it.\<close>

function components :: "u8 list \<Rightarrow> u8 list list" where
  "components p =
     (case dropWhile (\<lambda>c. c = SLASH) p of
        [] \<Rightarrow> []
      | x # xs \<Rightarrow> takeWhile (\<lambda>c. c \<noteq> SLASH) (x # xs) # components (dropWhile (\<lambda>c. c \<noteq> SLASH) (x # xs)))"
  by pat_completeness auto
termination
  by (relation "measure length") (simp_all only: in_measure wf_measure drop_elem_less)

declare components.simps [simp del]

definition resolve1 :: "u8 list \<Rightarrow> u8 list list \<Rightarrow> u8 list list" where
  "resolve1 e st = (if e = dot then st else if e = dotdot then butlast st else st @ [e])"

definition resolve :: "u8 list list \<Rightarrow> u8 list list" where
  "resolve cs = fold resolve1 cs []"

definition render :: "u8 list list \<Rightarrow> u8 list" where
  "render st = SLASH # concat (map (\<lambda>e. e @ [SLASH]) st)"

definition abs_path :: "u8 list list \<Rightarrow> u8 list" where
  "abs_path st = (if st = [] then [SLASH] else butlast (render st))"

definition elem_ok :: "u8 list \<Rightarrow> bool" where
  "elem_ok e \<longleftrightarrow> e \<noteq> [] \<and> SLASH \<notin> set e"

lemma takeWhile_elem_ok:
  assumes "dropWhile (\<lambda>c. c = SLASH) p = x # xs"
  shows "elem_ok (takeWhile (\<lambda>c. c \<noteq> SLASH) (x # xs))"
proof -
  have "x \<noteq> SLASH" using assms by (metis (full_types) dropWhile_eq_Cons_conv)
  moreover have "SLASH \<notin> set (takeWhile (\<lambda>c. c \<noteq> SLASH) (x # xs))" by (metis (mono_tags, lifting) set_takeWhileD)
  ultimately show ?thesis by (simp add: elem_ok_def)
qed

lemma components_step:
  "dropWhile (\<lambda>c. c = SLASH) p = [] \<Longrightarrow> components p = []"
  "dropWhile (\<lambda>c. c = SLASH) p = x # xs \<Longrightarrow>
    components p = takeWhile (\<lambda>c. c \<noteq> SLASH) (x # xs) # components (dropWhile (\<lambda>c. c \<noteq> SLASH) (x # xs))"
  by (simp_all only: components.simps [of p] list.case)

lemma components_ok: "e \<in> set (components p) \<Longrightarrow> elem_ok e"
proof (induction p rule: components.induct)
  case (1 p)
  show ?case
  proof (cases "dropWhile (\<lambda>c. c = SLASH) p")
    case (Cons x xs)
    then show ?thesis using 1 takeWhile_elem_ok [OF Cons] by (auto simp only: components_step(2) [OF Cons] list.set)
  qed (use 1(2) components_step(1) in simp)
qed

lemma resolve1_ok: "\<forall>x \<in> set st. elem_ok x \<and> x \<noteq> dot \<and> x \<noteq> dotdot \<Longrightarrow> elem_ok e \<Longrightarrow>
    \<forall>x \<in> set (resolve1 e st). elem_ok x \<and> x \<noteq> dot \<and> x \<noteq> dotdot"
  by (auto simp: resolve1_def dest: in_set_butlastD)

lemma fold_resolve_ok: "\<forall>x \<in> set st. elem_ok x \<and> x \<noteq> dot \<and> x \<noteq> dotdot \<Longrightarrow> \<forall>e \<in> set cs. elem_ok e \<Longrightarrow>
    \<forall>x \<in> set (fold resolve1 cs st). elem_ok x \<and> x \<noteq> dot \<and> x \<noteq> dotdot"
proof (induction cs arbitrary: st)
  case (Cons c cs)
  from Cons.IH [OF resolve1_ok [OF Cons.prems(1), of c]] Cons.prems(2) show ?case by simp
qed simp

lemma render_snoc: "render (st @ [e]) = render st @ e @ [SLASH]"
  by (simp add: render_def)

lemma render_last: "last (render st) = SLASH" "render st \<noteq> []"
  by (induction st rule: rev_induct) (simp_all add: render_snoc, simp_all add: render_def)

lemma pop_render:
  assumes "\<forall>x \<in> set st. elem_ok x"
  shows "pop_elem (render st) = render (butlast st)"
proof (cases st rule: rev_cases)
  case Nil
  then show ?thesis by (simp add: pop_elem_def render_def)
next
  case (snoc ys e)
  have e: "SLASH \<notin> set e" using assms by (simp add: snoc elem_ok_def)
  obtain zs where r: "render ys = zs @ [SLASH]" using render_last [of ys] by (metis append_butlast_last_id)
  have "dropWhile (\<lambda>c. c \<noteq> SLASH) (rev e @ SLASH # rev zs) = SLASH # rev zs"
    using e by (subst dropWhile_append2) auto
  then show ?thesis by (simp add: pop_elem_def snoc render_snoc r)
qed

definition fits :: "nat \<Rightarrow> u8 list list \<Rightarrow> u8 list list \<Rightarrow> bool" where
  "fits outsz cs st \<longleftrightarrow> (\<forall>k \<le> length cs. length (render (fold resolve1 (take k cs) st)) < outsz)"

lemma fits_Cons: "fits outsz (c # cs) st \<longleftrightarrow> length (render st) < outsz \<and> fits outsz cs (resolve1 c st)"
  unfolding fits_def by (auto simp: All_less_Suc2 less_Suc_eq_le [symmetric])

lemma fits_first: "fits outsz cs st \<Longrightarrow> length (render st) < outsz"
  by (cases cs) (simp_all add: fits_Cons, simp add: fits_def)

lemma render_butlast_le: "length (render (butlast st)) \<le> length (render st)"
  by (cases st rule: rev_cases) (simp_all add: render_snoc)

lemma normalize_loop_resolve:
  assumes "\<forall>x \<in> set st. elem_ok x \<and> x \<noteq> dot \<and> x \<noteq> dotdot" "length (render st) < outsz"
  shows "normalize_loop p (render st) outsz =
    (if fits outsz (components p) st then Some (render (fold resolve1 (components p) st)) else None)"
  using assms
proof (induction p arbitrary: st rule: components.induct)
  case (1 p)
  show ?case
  proof (cases "dropWhile (\<lambda>c. c = SLASH) p")
    case Nil
    then have "normalize_loop p (render st) outsz = Some (render st)" by (simp only: normalize_loop.simps [of p] list.case)
    then show ?thesis using 1(3) by (simp add: components_step(1) [OF Nil] fits_def)
  next
    case (Cons x xs)
    define s where "s = takeWhile (\<lambda>c. c \<noteq> SLASH) (x # xs)"
    define p' where "p' = dropWhile (\<lambda>c. c \<noteq> SLASH) (x # xs)"
    have s: "elem_ok s" unfolding s_def using takeWhile_elem_ok [OF Cons] .
    have c: "components p = s # components p'" unfolding s_def p'_def by (rule components_step(2) [OF Cons])
    have n: "normalize_loop p (render st) outsz =
        (if s = dot then normalize_loop p' (render st) outsz
         else if s = dotdot then normalize_loop p' (pop_elem (render st)) outsz
         else if length (render st) + length s + 1 \<ge> outsz then None
         else normalize_loop p' (render st @ s @ [SLASH]) outsz)"
      by (simp only: normalize_loop.simps [of p] Cons list.case s_def p'_def Let_def)
    note IH = 1(1) [OF Cons, folded p'_def]
    have ok': "\<forall>x \<in> set (resolve1 s st). elem_ok x \<and> x \<noteq> dot \<and> x \<noteq> dotdot" by (rule resolve1_ok [OF 1(2) s])
    have pop: "pop_elem (render st) = render (butlast st)" using 1(2) by (intro pop_render) blast
    show ?thesis
    proof (cases "length (render (resolve1 s st)) < outsz")
      case True
      then have "normalize_loop p (render st) outsz = normalize_loop p' (render (resolve1 s st)) outsz"
        by (auto simp: n resolve1_def pop render_snoc)
      then show ?thesis using IH [OF ok' True] 1(3) by (simp add: c fits_Cons)
    next
      case False
      then have "s \<noteq> dot" "s \<noteq> dotdot" using 1(3) render_butlast_le [of st] by (auto simp: resolve1_def split: if_splits)
      then have "normalize_loop p (render st) outsz = None" using False by (simp add: n resolve1_def render_snoc)
      moreover have "\<not> fits outsz (components p) st" using False fits_first by (auto simp: c fits_Cons)
      ultimately show ?thesis by simp
    qed
  qed
qed

lemma render_abs_path: "(if length (render st) > 1 \<and> last (render st) = SLASH then butlast (render st) else render st) = abs_path st"
  by (cases st) (simp_all add: abs_path_def render_last, simp_all add: render_def)

lemma path_normalize_eq:
  "path_normalize p outsz =
    (if 2 \<le> outsz \<and> fits outsz (components p) [] then Some (abs_path (resolve (components p))) else None)"
proof (cases "2 \<le> outsz")
  case True
  have "normalize_loop p (render []) outsz =
      (if fits outsz (components p) [] then Some (render (fold resolve1 (components p) [])) else None)"
    using True by (intro normalize_loop_resolve) (simp_all add: render_def)
  then have "normalize_loop p [SLASH] outsz =
      (if fits outsz (components p) [] then Some (render (resolve (components p))) else None)"
    by (simp add: resolve_def render_def)
  then show ?thesis using True render_abs_path [of "resolve (components p)"]
    by (auto simp: path_normalize_def split: if_splits)
qed (simp add: path_normalize_def)

section \<open>Properties\<close>

text \<open>
  (C32) \<open>path_normalize\<close> is exact: it computes the absolute path whose components are those of the
  input with \<open>.\<close> dropped and \<open>..\<close> cancelling the component before it (and nothing at the root), and it
  fails exactly when the buffer has fewer than two bytes or some intermediate path, with its slash and the
  terminating NUL, does not fit.
\<close>

theorem path_normalize_correct:
  "path_normalize p outsz =
    (if 2 \<le> outsz \<and> fits outsz (components p) [] then Some (abs_path (resolve (components p))) else None)"
  by (rule path_normalize_eq)

lemma components_elem: "elem_ok e \<Longrightarrow> components (e @ SLASH # p) = e # components p" "elem_ok e \<Longrightarrow> components e = [e]"
proof -
  assume e: "elem_ok e"
  then obtain x xs where x: "e = x # xs" "x \<noteq> SLASH" "SLASH \<notin> set e" by (cases e) (auto simp: elem_ok_def)
  have t: "takeWhile (\<lambda>c. c \<noteq> SLASH) (e @ SLASH # p) = e" "dropWhile (\<lambda>c. c \<noteq> SLASH) (e @ SLASH # p) = SLASH # p"
    using x(3) by (subst takeWhile_append2 dropWhile_append2; auto)+
  have c: "components (SLASH # p) = components p" by (simp add: components.simps [of "SLASH # p"] components.simps [of p])
  have "dropWhile (\<lambda>c. c = SLASH) (e @ SLASH # p) = x # xs @ SLASH # p" using x by simp
  from components_step(2) [OF this] show "components (e @ SLASH # p) = e # components p"
    using t c by (simp add: x(1) del: takeWhile.simps dropWhile.simps)
  have d: "dropWhile (\<lambda>c. c = SLASH) e = x # xs" using x by simp
  have t: "takeWhile (\<lambda>c. c \<noteq> SLASH) e = e" "dropWhile (\<lambda>c. c \<noteq> SLASH) e = []"
    using x(3) by (auto simp: takeWhile_eq_all_conv dropWhile_eq_Nil_conv)
  show "components e = [e]"
    using components_step(2) [OF d, folded x(1), unfolded t] components_step(1) [of "[]"] by simp
qed

lemma components_abs_path: "\<forall>x \<in> set st. elem_ok x \<Longrightarrow> components (abs_path st) = st"
proof -
  assume ok: "\<forall>x \<in> set st. elem_ok x"
  have slash: "components (SLASH # p) = components p" for p
    by (simp add: components.simps [of "SLASH # p"] components.simps [of p])
  have nil: "components [] = []" by (rule components_step(1)) simp
  have "components (butlast (concat (map (\<lambda>e. e @ [SLASH]) st))) = st" if "st \<noteq> []" using ok that
  proof (induction st)
    case (Cons e st)
    show ?case
    proof (cases st)
      case Nil
      then show ?thesis using Cons.prems components_elem(2) by simp
    next
      case (Cons e' st')
      then have "butlast (concat (map (\<lambda>e. e @ [SLASH]) (e # st))) = e @ SLASH # butlast (concat (map (\<lambda>e. e @ [SLASH]) st))"
        by (simp add: butlast_append)
      then show ?thesis using Cons.prems Cons.IH components_elem(1) Cons by simp
    qed
  qed simp
  moreover have "concat (map (\<lambda>e. e @ [SLASH]) st) \<noteq> []" if "st \<noteq> []" using that by (cases st) auto
  ultimately show ?thesis by (cases "st = []") (simp_all add: abs_path_def render_def slash nil)
qed

lemma fold_resolve_id: "\<forall>x \<in> set cs. x \<noteq> dot \<and> x \<noteq> dotdot \<Longrightarrow> fold resolve1 cs st = st @ cs"
  by (induction cs arbitrary: st) (auto simp: resolve1_def)

text \<open>
  Normal paths are fixed points: the result of \<open>path_normalize\<close> contains no empty, \<open>.\<close> or \<open>..\<close>
  component, is shorter than the buffer, and normalising it again gives it back.
\<close>

lemma path_normalize_idempotent:
  assumes "path_normalize p outsz = Some q"
  shows "path_normalize q outsz = Some q \<and> length q < outsz \<and> dot \<notin> set (components q) \<and> dotdot \<notin> set (components q)"
proof -
  let ?st = "resolve (components p)"
  have q: "2 \<le> outsz" "fits outsz (components p) []" "q = abs_path ?st"
    using assms by (auto simp: path_normalize_eq split: if_splits)
  have st: "\<forall>x \<in> set ?st. elem_ok x \<and> x \<noteq> dot \<and> x \<noteq> dotdot"
    unfolding resolve_def using components_ok by (intro fold_resolve_ok) auto
  then have c: "components q = ?st" unfolding q(3) by (intro components_abs_path) blast
  have id: "fold resolve1 (take k ?st) [] = take k ?st" for k
    using st by (subst fold_resolve_id) (auto dest: in_set_takeD)
  have len: "length (render ?st) < outsz" using q(2) unfolding fits_def resolve_def by (auto dest: spec [of _ "length (components p)"])
  have "length (render (take k ?st)) \<le> length (render ?st)" for k
  proof -
    have "render ?st = render (take k ?st) @ concat (map (\<lambda>e. e @ [SLASH]) (drop k ?st))"
      unfolding render_def by (metis append_Cons append_take_drop_id concat_append map_append)
    then show ?thesis by simp
  qed
  then have "fits outsz (components q) []" using len by (auto simp: fits_def c id intro: le_less_trans)
  moreover have "resolve ?st = ?st" using id [of "length ?st"] by (simp add: resolve_def)
  moreover have "length q \<le> length (render ?st)" unfolding q(3) by (auto simp: abs_path_def render_def)
  ultimately show ?thesis using q(1,3) len st c by (auto simp: path_normalize_eq)
qed

lemma path_normalize_idempotent_witness:
  "path_normalize [47, 97, 47, 46, 46, 47, 98] 256 = Some [47, 98] \<and> path_normalize [47, 98] 256 = Some [47, 98]"
proof -
  have "path_normalize [47, 97, 47, 46, 46, 47, 98] 256 = Some [47, 98]"
    by (simp add: path_normalize_def normalize_loop.simps SLASH_def dot_def dotdot_def pop_elem_def)
  from path_normalize_idempotent [OF this] this show ?thesis by blast
qed

end
