(* ===== verification/VFS.thy ===== *)
theory VFS
  imports Pipe Paths
begin

text \<open>
  \<open>kernel/fs/fs.c\<close>: the open-file table, the descriptor tables, path walking and the path operations.
  A \<open>struct inode *\<close> is the index of its slot in the inode table, a \<open>struct file *\<close> the index of its
  slot in \<open>ftable\<close>, a \<open>struct pipe *\<close> the address of its page; \<open>None\<close> is the null pointer. A
  function that can panic, loop or dereference a null pointer returns an option whose \<open>None\<close> stands for
  that. The 9P client, the \<open>/proc\<close> files and the device switch are the environment: functions on an
  opaque \<open>world\<close> (and on the inode table where they change it).
\<close>

section \<open>State\<close>

definition NFILE :: nat where "NFILE = 64"
definition FD_MAX :: int where "FD_MAX = 16"

definition EPERM :: int where "EPERM = 1"
definition ENOENT :: int where "ENOENT = 2"
definition ENOMEM :: int where "ENOMEM = 12"
definition EACCES :: int where "EACCES = 13"
definition EEXIST :: int where "EEXIST = 17"
definition EISDIR :: int where "EISDIR = 21"
definition EINVAL :: int where "EINVAL = 22"
definition ENFILE :: int where "ENFILE = 23"
definition EFBIG :: int where "EFBIG = 27"
definition ENOSPC :: int where "ENOSPC = 28"
definition EROFS :: int where "EROFS = 30"
definition ERANGE :: int where "ERANGE = 34"
definition ENAMETOOLONG :: int where "ENAMETOOLONG = 36"
definition ENOTEMPTY :: int where "ENOTEMPTY = 39"

definition O_RDONLY :: u32 where "O_RDONLY = 0"
definition O_WRONLY :: u32 where "O_WRONLY = 1"
definition O_RDWR :: u32 where "O_RDWR = 2"
definition O_CREAT :: u32 where "O_CREAT = 0x40"
definition O_EXCL :: u32 where "O_EXCL = 0x80"
definition O_TRUNC :: u32 where "O_TRUNC = 0x200"
definition O_APPEND :: u32 where "O_APPEND = 0x400"

datatype fd_type = FD_NONE | FD_INODE | FD_DEVICE | FD_PIPE

record open_file =
  ftype :: fd_type
  fref :: int
  readable :: bool
  writable :: bool
  fip :: "u32 option"
  foff :: u32
  fpipe :: "u32 option"
  v9p_fid :: u32

definition zero_file :: open_file where
  "zero_file = \<lparr>ftype = FD_NONE, fref = 0, readable = False, writable = False, fip = None, foff = 0,
     fpipe = None, v9p_fid = 0\<rparr>"

record 'w vfs =
  fsys :: memfs
  fs_errno :: int
  ftable :: "nat \<Rightarrow> open_file"
  pipes :: "u32 \<Rightarrow> pipe"
  fs_cwd :: "u8 list"
  world :: 'w

record 'w vfs_env =
  fsenv :: fs_env
  v9p_file_read :: "u32 \<Rightarrow> u32 \<Rightarrow> u32 \<Rightarrow> 'w \<Rightarrow> (int \<times> u8 list) \<times> 'w"
  v9p_file_write :: "u32 \<Rightarrow> u8 list \<Rightarrow> u32 \<Rightarrow> u32 \<Rightarrow> 'w \<Rightarrow> int \<times> 'w"
  v9p_truncate :: "u32 \<Rightarrow> u32 \<Rightarrow> 'w \<Rightarrow> int \<times> 'w"
  v9p_close :: "u32 \<Rightarrow> 'w \<Rightarrow> 'w"
  v9p_open_file :: "inode \<Rightarrow> u32 \<Rightarrow> 'w \<Rightarrow> u32 option \<times> 'w"
  v9p_create :: "u32 \<Rightarrow> u8 list \<Rightarrow> u32 \<Rightarrow> memfs \<times> 'w \<Rightarrow> ((int + u32) \<times> memfs \<times> 'w) option"
  v9p_mkdir :: "u32 \<Rightarrow> u8 list \<Rightarrow> u16 \<Rightarrow> memfs \<times> 'w \<Rightarrow> (int \<times> memfs \<times> 'w) option"
  v9p_remove :: "u32 \<Rightarrow> u8 list \<Rightarrow> memfs \<times> 'w \<Rightarrow> (int \<times> memfs \<times> 'w) option"
  procfs_read :: "inode \<Rightarrow> u32 \<Rightarrow> u32 \<Rightarrow> 'w \<Rightarrow> int \<times> u8 list"
  dev_read :: "u32 \<Rightarrow> (int \<Rightarrow> 'w \<Rightarrow> (int \<times> u8 list) \<times> 'w) option"
  dev_write :: "u32 \<Rightarrow> (u8 list \<Rightarrow> int \<Rightarrow> 'w \<Rightarrow> int \<times> 'w) option"

definition node :: "'w vfs \<Rightarrow> u32 \<Rightarrow> inode" where
  "node st i = inode_table (fsys st) i"

definition upd_file :: "nat \<Rightarrow> (open_file \<Rightarrow> open_file) \<Rightarrow> 'w vfs \<Rightarrow> 'w vfs" where
  "upd_file f g st = st\<lparr>ftable := (ftable st)(f := g (ftable st f))\<rparr>"

definition upd_node :: "u32 \<Rightarrow> (inode \<Rightarrow> inode) \<Rightarrow> 'w vfs \<Rightarrow> 'w vfs" where
  "upd_node i g st = st\<lparr>fsys := upd_inode i g (fsys st)\<rparr>"

definition set_errno :: "int \<Rightarrow> 'w vfs \<Rightarrow> 'w vfs" where
  "set_errno e st = st\<lparr>fs_errno := e\<rparr>"

text \<open>The inode operations on the file system inside the state.\<close>

definition on_fs :: "(memfs \<Rightarrow> (int \<times> memfs) option) \<Rightarrow> 'w vfs \<Rightarrow> (int \<times> 'w vfs) option" where
  "on_fs op st = do { (r, s) \<leftarrow> op (fsys st); Some (r, st\<lparr>fsys := s\<rparr>) }"

definition vfs_lookup :: "'w vfs_env \<Rightarrow> u32 \<Rightarrow> u8 list \<Rightarrow> 'w vfs \<Rightarrow> (u32 \<times> 'w vfs) option" where
  "vfs_lookup env dp name st = do { (n, off, s) \<leftarrow> dirlookup (fsenv env) dp name (fsys st); Some (n, st\<lparr>fsys := s\<rparr>) }"

definition vfs_ifree :: "u32 \<Rightarrow> 'w vfs \<Rightarrow> 'w vfs" where
  "vfs_ifree i st = st\<lparr>fsys := ifree i (fsys st)\<rparr>"

definition vfs_ialloc :: "u32 \<Rightarrow> 'w vfs \<Rightarrow> u32 option \<times> 'w vfs" where
  "vfs_ialloc type st = (let (r, s) = ialloc type 0 0 (fsys st) in (r, st\<lparr>fsys := s\<rparr>))"

section \<open>The open-file table\<close>

definition fs_error :: "'w vfs \<Rightarrow> int" where
  "fs_error st = (if fs_errno st \<noteq> 0 then fs_errno st else EIO)"

definition fileinit :: "'w vfs \<Rightarrow> 'w vfs" where
  "fileinit st = st\<lparr>ftable := (\<lambda>_. zero_file)\<rparr>"

function filealloc_loop :: "nat \<Rightarrow> 'w vfs \<Rightarrow> nat option \<times> 'w vfs" where
  "filealloc_loop i st =
     (if i < NFILE then
        if fref (ftable st i) = 0
        then (Some i, upd_file i (\<lambda>_. zero_file\<lparr>fref := 1, ftype := FD_NONE\<rparr>) st)
        else filealloc_loop (Suc i) st
      else (None, st))"
  by pat_completeness auto
termination by (relation "measure (\<lambda>(i, st). NFILE - i)") auto

declare filealloc_loop.simps [simp del]

definition filealloc :: "'w vfs \<Rightarrow> nat option \<times> 'w vfs" where
  "filealloc st = filealloc_loop 0 st"

definition filedup :: "nat \<Rightarrow> 'w vfs \<Rightarrow> 'w vfs" where
  "filedup f st = (if fref (ftable st f) \<ge> 1 then upd_file f (\<lambda>x. x\<lparr>fref := fref x + 1\<rparr>) st else st)"

definition close_pipe :: "open_file \<Rightarrow> 'w vfs \<Rightarrow> 'w vfs" where
  "close_pipe x st =
     (case fpipe x of
        Some a \<Rightarrow>
          if ftype x = FD_PIPE then
            (let p = pipes st a;
                 p = (if writable x \<and> writers p > 0 then p\<lparr>writers := writers p - 1\<rparr> else p);
                 p = (if readable x \<and> readers p > 0 then p\<lparr>readers := readers p - 1\<rparr> else p);
                 st = st\<lparr>pipes := (pipes st)(a := p)\<rparr>
             in if readers p = 0 \<and> writers p = 0
                then st\<lparr>fsys := (fsys st)\<lparr>mach := frame_free a (mach (fsys st))\<rparr>\<rparr> else st)
          else st
      | None \<Rightarrow> st)"

definition fileclose :: "'w vfs_env \<Rightarrow> nat \<Rightarrow> 'w vfs \<Rightarrow> 'w vfs" where
  "fileclose env f st =
     (let x = ftable st f
      in if fref x < 1 then st
         else
           (let st = upd_file f (\<lambda>y. y\<lparr>fref := fref y - 1\<rparr>) st
            in if fref x - 1 > 0 then st
               else
                 (let st = close_pipe x st;
                      st = (if v9p_fid x \<noteq> 0 then st\<lparr>world := v9p_close env (v9p_fid x) (world st)\<rparr> else st);
                      st = (case fip x of Some i \<Rightarrow> if nlink (node st i) = 0 then vfs_ifree i st else st | None \<Rightarrow> st)
                  in upd_file f (\<lambda>y. y\<lparr>ftype := FD_NONE, fip := None, fpipe := None, foff := 0, v9p_fid := 0\<rparr>) st)))"

definition advance :: "nat \<Rightarrow> int \<Rightarrow> 'w vfs \<Rightarrow> 'w vfs" where
  "advance f r st = (if r > 0 then upd_file f (\<lambda>y. y\<lparr>foff := foff y + word_of_int r\<rparr>) st else st)"

definition fileread :: "'w vfs_env \<Rightarrow> nat \<Rightarrow> int \<Rightarrow> 'w vfs \<Rightarrow> (int \<times> u8 list \<times> 'w vfs) option" where
  "fileread env f n st =
     (let x = ftable st f
      in if \<not> readable x \<or> n < 0 then Some (-1, [], st)
         else case ftype x of
           FD_PIPE \<Rightarrow>
             (case fpipe x of
                None \<Rightarrow> Some (-1, [], st)
              | Some a \<Rightarrow> (let (r, bs, p) = pipe_read (pipes st a) n in Some (r, bs, st\<lparr>pipes := (pipes st)(a := p)\<rparr>)))
         | FD_DEVICE \<Rightarrow> do {
             i \<leftarrow> fip x;
             (case dev_read env (major (node st i)) of
                None \<Rightarrow> Some (-1, [], st)
              | Some rd \<Rightarrow> (let ((r, bs), w) = rd n (world st) in Some (r, bs, st\<lparr>world := w\<rparr>)))
           }
         | FD_INODE \<Rightarrow> do {
             i \<leftarrow> fip x;
             let ((r, bs), st) =
               (case ibackend (node st i) of
                  INODE_9P \<Rightarrow> (let (rb, w) = v9p_file_read env (v9p_fid x) (foff x) (word_of_int n) (world st) in (rb, st\<lparr>world := w\<rparr>))
                | INODE_PROCFS \<Rightarrow> (procfs_read env (node st i) (foff x) (word_of_int n) (world st), st)
                | INODE_MEM \<Rightarrow> (readi i (foff x) (word_of_int n) (fsys st), st));
             Some (r, bs, advance f r st)
           }
         | FD_NONE \<Rightarrow> Some (-1, [], st))"

definition filewrite :: "'w vfs_env \<Rightarrow> nat \<Rightarrow> u8 list \<Rightarrow> int \<Rightarrow> 'w vfs \<Rightarrow> (int \<times> 'w vfs) option" where
  "filewrite env f src n st =
     (let x = ftable st f
      in if \<not> writable x \<or> n < 0 then Some (-1, st)
         else case ftype x of
           FD_PIPE \<Rightarrow>
             (case fpipe x of
                None \<Rightarrow> Some (-1, st)
              | Some a \<Rightarrow> (let (r, p) = pipe_write (pipes st a) src n in Some (r, st\<lparr>pipes := (pipes st)(a := p)\<rparr>)))
         | FD_DEVICE \<Rightarrow> do {
             i \<leftarrow> fip x;
             (case dev_write env (major (node st i)) of
                None \<Rightarrow> Some (-1, st)
              | Some wr \<Rightarrow> (let (r, w) = wr src n (world st) in Some (r, st\<lparr>world := w\<rparr>)))
           }
         | FD_INODE \<Rightarrow> do {
             i \<leftarrow> fip x;
             (r, st) \<leftarrow>
               (if ibackend (node st i) = INODE_9P then
                  (let (r, w) = v9p_file_write env (v9p_fid x) src (foff x) (word_of_int n) (world st);
                       st = st\<lparr>world := w\<rparr>;
                       pos = foff x + word_of_int r
                   in Some (r, if r > 0 \<and> pos > isize (node st i) then upd_node i (\<lambda>nd. nd\<lparr>isize := pos\<rparr>) st else st))
                else on_fs (writei i src (foff x) (word_of_int n)) st);
             Some (r, advance f r st)
           }
         | FD_NONE \<Rightarrow> Some (-1, st))"

definition filestat :: "nat \<Rightarrow> 'w vfs \<Rightarrow> stat option" where
  "filestat f st = (case fip (ftable st f) of None \<Rightarrow> None | Some i \<Rightarrow> Some (stati i (fsys st)))"

definition filetruncate :: "'w vfs_env \<Rightarrow> nat \<Rightarrow> u32 \<Rightarrow> 'w vfs \<Rightarrow> (int \<times> 'w vfs) option" where
  "filetruncate env f sz st =
     (let x = ftable st f
      in case fip x of
           None \<Rightarrow> Some (-1, set_errno EINVAL st)
         | Some i \<Rightarrow>
             if ftype x \<noteq> FD_INODE then Some (-1, set_errno EINVAL st)
             else if ibackend (node st i) = INODE_9P then
               (let (r, w) = v9p_truncate env (v9p_fid x) sz (world st); st = st\<lparr>world := w\<rparr>
                in if r < 0 then Some (-1, set_errno EIO st)
                   else Some (0, upd_node i (\<lambda>nd. nd\<lparr>isize := sz\<rparr>) st))
             else do {
               (r, st) \<leftarrow> on_fs (itruncate i sz) st;
               if r < 0 then Some (-1, set_errno EFBIG st) else Some (0, st)
             })"

section \<open>Path walking\<close>

lemma skipelem_less:
  assumes "skipelem p = Some (rest, name)"
  shows "length rest < length p"
proof (cases "dropWhile (\<lambda>c. c = SLASH) p")
  case Nil
  then show ?thesis using assms by (auto simp: skipelem_def Let_def)
next
  case (Cons x xs)
  then have "rest = dropWhile (\<lambda>c. c = SLASH) (dropWhile (\<lambda>c. c \<noteq> SLASH) (x # xs))"
    using assms by (simp only: skipelem_def Let_def Cons list.distinct if_False option.inject prod.inject)
  then have "length rest \<le> length (dropWhile (\<lambda>c. c \<noteq> SLASH) (x # xs))" by (simp only: length_dropWhile_le)
  also have "\<dots> < length p" by (rule drop_elem_less [OF Cons])
  finally show ?thesis .
qed

function cwd_loop :: "'w vfs_env \<Rightarrow> u32 \<Rightarrow> u8 list \<Rightarrow> 'w vfs \<Rightarrow> (u32 option \<times> 'w vfs) option" where
  "cwd_loop env ip p st =
     (case skipelem p of
        None \<Rightarrow> Some (Some ip, st)
      | Some (p', name) \<Rightarrow>
          if itype (node st ip) \<noteq> T_DIR then Some (None, st)
          else do {
            (n, st) \<leftarrow> vfs_lookup env ip name st;
            if n = 0 then Some (None, st)
            else case iget n (fsys st) of None \<Rightarrow> Some (None, st) | Some ip \<Rightarrow> cwd_loop env ip p' st
          })"
  by pat_completeness auto
termination
  by (relation "measure (\<lambda>(env, ip, p, st). length p)") (auto dest: skipelem_less)

declare cwd_loop.simps [simp del]

definition iget_cwd :: "'w vfs_env \<Rightarrow> 'w vfs \<Rightarrow> (u32 option \<times> 'w vfs) option" where
  "iget_cwd env st =
     (case iget ROOTINO (fsys st) of None \<Rightarrow> Some (None, st) | Some ip \<Rightarrow> cwd_loop env ip (fs_cwd st) st)"

text \<open>\<open>is_parent\<close> is the C argument \<open>parent\<close>; the result is the inode and the last \<open>name\<close> read.\<close>

function namex_loop :: "'w vfs_env \<Rightarrow> bool \<Rightarrow> u32 \<Rightarrow> u8 list \<Rightarrow> u8 list \<Rightarrow> 'w vfs \<Rightarrow>
    ((u32 \<times> u8 list) option \<times> 'w vfs) option" where
  "namex_loop env is_parent ip p last_name st =
     (case skipelem p of
        None \<Rightarrow> if is_parent then Some (None, set_errno ENOENT st) else Some (Some (ip, last_name), st)
      | Some (p', name) \<Rightarrow>
          if itype (node st ip) \<noteq> T_DIR then Some (None, set_errno ENOTDIR st)
          else if is_parent \<and> p' = [] then Some (Some (ip, name), st)
          else do {
            (n, st) \<leftarrow> vfs_lookup env ip name st;
            if n = 0 then Some (None, set_errno ENOENT st)
            else case iget n (fsys st) of
                   None \<Rightarrow> Some (None, set_errno ENOENT st)
                 | Some ip \<Rightarrow> namex_loop env is_parent ip p' name st
          })"
  by pat_completeness auto
termination
  by (relation "measure (\<lambda>(env, is_parent, ip, p, last_name, st). length p)") (auto dest: skipelem_less)

declare namex_loop.simps [simp del]

definition namexat :: "'w vfs_env \<Rightarrow> u32 option \<Rightarrow> u8 list \<Rightarrow> bool \<Rightarrow> 'w vfs \<Rightarrow>
    ((u32 \<times> u8 list) option \<times> 'w vfs) option" where
  "namexat env base path is_parent st = do {
     (ip, st) \<leftarrow>
       (if path \<noteq> [] \<and> hd path = SLASH then Some (iget ROOTINO (fsys st), st)
        else case base of Some b \<Rightarrow> Some (Some b, st) | None \<Rightarrow> iget_cwd env st);
     (case ip of
        None \<Rightarrow> Some (None, set_errno ENOENT st)
      | Some ip \<Rightarrow> namex_loop env is_parent ip path [] st)
   }"

definition nameiat :: "'w vfs_env \<Rightarrow> u32 option \<Rightarrow> u8 list \<Rightarrow> 'w vfs \<Rightarrow> (u32 option \<times> 'w vfs) option" where
  "nameiat env base path st = do { (r, st) \<leftarrow> namexat env base path False st; Some (map_option fst r, st) }"

definition nameiparentat :: "'w vfs_env \<Rightarrow> u32 option \<Rightarrow> u8 list \<Rightarrow> 'w vfs \<Rightarrow>
    ((u32 \<times> u8 list) option \<times> 'w vfs) option" where
  "nameiparentat env base path st = namexat env base path True st"

definition namei :: "'w vfs_env \<Rightarrow> u8 list \<Rightarrow> 'w vfs \<Rightarrow> (u32 option \<times> 'w vfs) option" where
  "namei env path st = nameiat env None path st"

definition nameiparent :: "'w vfs_env \<Rightarrow> u8 list \<Rightarrow> 'w vfs \<Rightarrow> ((u32 \<times> u8 list) option \<times> 'w vfs) option" where
  "nameiparent env path st = nameiparentat env None path st"

section \<open>Path operations\<close>

definition flag :: "u32 \<Rightarrow> u32 \<Rightarrow> bool" where
  "flag flags b \<longleftrightarrow> and flags b \<noteq> 0"

text \<open>The inode \<open>vfs_open_at\<close> opens; \<open>O_CREAT\<close> makes it when the name is not there.\<close>

definition open_target :: "'w vfs_env \<Rightarrow> u32 option \<Rightarrow> u8 list \<Rightarrow> u32 \<Rightarrow> 'w vfs \<Rightarrow> (u32 option \<times> 'w vfs) option" where
  "open_target env base path flags st =
     (if flag flags O_CREAT then do {
        (d, st) \<leftarrow> nameiparentat env base path st;
        (case d of
           None \<Rightarrow> Some (None, st)
         | Some (dp, name) \<Rightarrow> do {
             (n, st) \<leftarrow> vfs_lookup env dp name st;
             if n \<noteq> 0 then
               if flag flags O_EXCL then Some (None, set_errno EEXIST st)
               else do { i \<leftarrow> iget n (fsys st); Some (Some i, st) }
             else if ibackend (node st dp) = INODE_9P then do {
               (r, s, w) \<leftarrow> v9p_create env dp name flags (fsys st, world st);
               let st = st\<lparr>fsys := s, world := w\<rparr>;
               (case r of Inl e \<Rightarrow> Some (None, set_errno e st) | Inr i \<Rightarrow> Some (Some i, st))
             }
             else
               (case vfs_ialloc T_FILE st of
                  (None, st) \<Rightarrow> Some (None, set_errno ENOSPC st)
                | (Some i, st) \<Rightarrow> do {
                    (r, st) \<leftarrow> on_fs (dirlink (fsenv env) dp name (inum (node st i))) st;
                    if r < 0 then Some (None, set_errno ENOSPC (vfs_ifree i st)) else Some (Some i, st)
                  })
           })
      }
      else nameiat env base path st)"

definition open_inode :: "'w vfs_env \<Rightarrow> u32 \<Rightarrow> u32 \<Rightarrow> 'w vfs \<Rightarrow> (nat option \<times> 'w vfs) option" where
  "open_inode env i flags st = do {
     (r, st) \<leftarrow>
       (if flag flags O_TRUNC \<and> itype (node st i) = T_FILE \<and> ibackend (node st i) \<noteq> INODE_9P
        then on_fs (itruncate i 0) st else Some (0, st));
     if r < 0 then Some (None, set_errno EIO st)
     else do {
       st \<leftarrow>
         (if ibackend (node st i) = INODE_9P \<and> itype (node st i) = T_DIR \<and> \<not> dir_loaded (node st i)
          then do { s \<leftarrow> v9p_loaddir (fsenv env) i (fsys st); Some (st\<lparr>fsys := s\<rparr>) } else Some st);
       (case filealloc st of
          (None, st) \<Rightarrow> Some (None, set_errno ENFILE st)
        | (Some f, st) \<Rightarrow>
            (let st = upd_file f (\<lambda>x. x\<lparr>ftype := (if itype (node st i) = T_DEVICE then FD_DEVICE else FD_INODE),
                        fip := Some i, readable := \<not> flag flags O_WRONLY,
                        writable := flag flags (or O_WRONLY O_RDWR),
                        foff := (if flag flags O_APPEND then isize (node st i) else 0)\<rparr>) st
             in if ibackend (node st i) = INODE_9P \<and> itype (node st i) = T_FILE then
                  (case v9p_open_file env (node st i) flags (world st) of
                     (None, w) \<Rightarrow> Some (None, set_errno EACCES (fileclose env f (st\<lparr>world := w\<rparr>)))
                   | (Some nf, w) \<Rightarrow>
                       (let st = upd_file f (\<lambda>x. x\<lparr>v9p_fid := nf\<rparr>) (st\<lparr>world := w\<rparr>)
                        in Some (Some f, if flag flags O_TRUNC then upd_node i (\<lambda>nd. nd\<lparr>isize := 0\<rparr>) st else st)))
                else Some (Some f, st)))
     }
   }"

definition vfs_open_at :: "'w vfs_env \<Rightarrow> u32 option \<Rightarrow> u8 list \<Rightarrow> u32 \<Rightarrow> 'w vfs \<Rightarrow> (nat option \<times> 'w vfs) option" where
  "vfs_open_at env base path flags st = do {
     (t, st) \<leftarrow> open_target env base path flags st;
     (case t of None \<Rightarrow> Some (None, st) | Some i \<Rightarrow> open_inode env i flags st)
   }"

definition vfs_open :: "'w vfs_env \<Rightarrow> u8 list \<Rightarrow> u32 \<Rightarrow> 'w vfs \<Rightarrow> (nat option \<times> 'w vfs) option" where
  "vfs_open env path flags st = vfs_open_at env None path flags st"

definition vfs_mkdir_at :: "'w vfs_env \<Rightarrow> u32 option \<Rightarrow> u8 list \<Rightarrow> 'w vfs \<Rightarrow> (int \<times> 'w vfs) option" where
  "vfs_mkdir_at env base path st = do {
     (d, st) \<leftarrow> nameiparentat env base path st;
     (case d of
        None \<Rightarrow> Some (-1, st)
      | Some (dp, name) \<Rightarrow>
          if ibackend (node st dp) = INODE_9P then do {
            (r, s, w) \<leftarrow> v9p_mkdir env dp name MODE_DIR (fsys st, world st);
            let st = st\<lparr>fsys := s, world := w\<rparr>;
            if r < 0 then Some (-1, set_errno EACCES st) else Some (0, st)
          }
          else do {
            (n, st) \<leftarrow> vfs_lookup env dp name st;
            if n \<noteq> 0 then Some (-1, set_errno EEXIST st)
            else
              (case vfs_ialloc T_DIR st of
                 (None, st) \<Rightarrow> Some (-1, set_errno ENOSPC st)
               | (Some i, st) \<Rightarrow> do {
                   let st = upd_node i (\<lambda>nd. nd\<lparr>nlink := 2\<rparr>) st;
                   (r, st) \<leftarrow> on_fs (dirlink (fsenv env) dp name (inum (node st i))) st;
                   if r < 0 then Some (-1, set_errno ENOSPC (vfs_ifree i st))
                   else do {
                     (_, st) \<leftarrow> on_fs (dirlink (fsenv env) i dot (inum (node st i))) st;
                     (_, st) \<leftarrow> on_fs (dirlink (fsenv env) i dotdot (inum (node st dp))) st;
                     Some (0, upd_node dp (\<lambda>nd. nd\<lparr>nlink := nlink nd + 1\<rparr>) st)
                   }
                 })
          })
   }"

text \<open>\<open>if (ip && --ip->nlink <= 0) ifree(ip)\<close>, the end of \<open>unlink\<close> and of a replacing \<open>rename\<close>.\<close>

definition drop_link :: "u32 option \<Rightarrow> 'w vfs \<Rightarrow> 'w vfs" where
  "drop_link ip st =
     (case ip of
        None \<Rightarrow> st
      | Some i \<Rightarrow>
          (let st = upd_node i (\<lambda>nd. nd\<lparr>nlink := nlink nd - 1\<rparr>) st
           in if nlink (node st i) \<le> 0 then vfs_ifree i st else st))"

text \<open>\<open>uninit\<close> is the uninitialised stack variable of \<open>dirunlink\<close>, see there.\<close>

definition vfs_unlink_at :: "'w vfs_env \<Rightarrow> u32 \<Rightarrow> u32 option \<Rightarrow> u8 list \<Rightarrow> 'w vfs \<Rightarrow> (int \<times> 'w vfs) option" where
  "vfs_unlink_at env uninit base path st = do {
     (d, st) \<leftarrow> nameiparentat env base path st;
     (case d of
        None \<Rightarrow> Some (-1, st)
      | Some (dp, name) \<Rightarrow>
          if ibackend (node st dp) = INODE_9P then do {
            (r, s, w) \<leftarrow> v9p_remove env dp name (fsys st, world st);
            let st = st\<lparr>fsys := s, world := w\<rparr>;
            if r < 0 then Some (-1, set_errno EACCES st) else Some (0, st)
          }
          else do {
            (n, st) \<leftarrow> vfs_lookup env dp name st;
            if n = 0 then Some (-1, set_errno ENOENT st)
            else
              (let ip = iget n (fsys st)
               in if (case ip of Some i \<Rightarrow> itype (node st i) = T_DIR | None \<Rightarrow> False)
                  then Some (-1, set_errno EISDIR st)
                  else do {
                    (_, st) \<leftarrow> on_fs (dirunlink (fsenv env) uninit dp name) st;
                    Some (0, drop_link ip st)
                  })
          })
   }"

definition vfs_rmdir_at :: "'w vfs_env \<Rightarrow> u32 \<Rightarrow> u32 option \<Rightarrow> u8 list \<Rightarrow> 'w vfs \<Rightarrow> (int \<times> 'w vfs) option" where
  "vfs_rmdir_at env uninit base path st = do {
     (d, st) \<leftarrow> nameiparentat env base path st;
     (case d of
        None \<Rightarrow> Some (-1, st)
      | Some (dp, name) \<Rightarrow>
          if ibackend (node st dp) = INODE_9P then do {
            (r, s, w) \<leftarrow> v9p_remove env dp name (fsys st, world st);
            let st = st\<lparr>fsys := s, world := w\<rparr>;
            if r < 0 then Some (-1, set_errno EACCES st) else Some (0, st)
          }
          else do {
            (n, st) \<leftarrow> vfs_lookup env dp name st;
            if n = 0 then Some (-1, set_errno ENOENT st)
            else
              (case iget n (fsys st) of
                 None \<Rightarrow> Some (-1, set_errno ENOTDIR st)
               | Some i \<Rightarrow>
                   if itype (node st i) \<noteq> T_DIR then Some (-1, set_errno ENOTDIR st)
                   else do {
                     e \<leftarrow> isdirempty i (fsys st);
                     if \<not> e then Some (-1, set_errno ENOTEMPTY st)
                     else do {
                       (_, st) \<leftarrow> on_fs (dirunlink (fsenv env) uninit dp name) st;
                       let st = (if nlink (node st dp) \<noteq> 0 then upd_node dp (\<lambda>nd. nd\<lparr>nlink := nlink nd - 1\<rparr>) st else st);
                       Some (0, vfs_ifree i (upd_node i (\<lambda>nd. nd\<lparr>nlink := 0\<rparr>) st))
                     }
                   })
          })
   }"

text \<open>The steps of \<open>vfs_rename_at\<close> once both directories and the inode are known.\<close>

definition rename_replace :: "'w vfs_env \<Rightarrow> u32 \<Rightarrow> u32 \<Rightarrow> u8 list \<Rightarrow> u32 \<Rightarrow> 'w vfs \<Rightarrow> (bool \<times> 'w vfs) option" where
  "rename_replace env uninit ndp nname existing st =
     (if existing = 0 then Some (True, st)
      else
        (let eip = iget existing (fsys st)
         in if (case eip of Some e \<Rightarrow> itype (node st e) = T_DIR | None \<Rightarrow> False)
            then Some (False, set_errno EISDIR st)
            else do {
              (_, st) \<leftarrow> on_fs (dirunlink (fsenv env) uninit ndp nname) st;
              Some (True, drop_link eip st)
            }))"

definition rename_move :: "'w vfs_env \<Rightarrow> u32 \<Rightarrow> u32 \<Rightarrow> u8 list \<Rightarrow> u32 \<Rightarrow> u8 list \<Rightarrow> u32 \<Rightarrow> u32 option \<Rightarrow> 'w vfs \<Rightarrow> (int \<times> 'w vfs) option" where
  "rename_move env uninit odp oname ndp nname n ip st = do {
     (_, st) \<leftarrow> on_fs (dirunlink (fsenv env) uninit odp oname) st;
     (r, st) \<leftarrow> on_fs (dirlink (fsenv env) ndp nname n) st;
     if r < 0 then Some (-1, set_errno ENOSPC st)
     else case ip of
       None \<Rightarrow> Some (0, st)
     | Some i \<Rightarrow>
         if itype (node st i) = T_DIR \<and> odp \<noteq> ndp then do {
           (_, st) \<leftarrow> on_fs (dirunlink (fsenv env) uninit i dotdot) st;
           (_, st) \<leftarrow> on_fs (dirlink (fsenv env) i dotdot (inum (node st ndp))) st;
           let st = (if nlink (node st odp) \<noteq> 0 then upd_node odp (\<lambda>nd. nd\<lparr>nlink := nlink nd - 1\<rparr>) st else st);
           Some (0, upd_node ndp (\<lambda>nd. nd\<lparr>nlink := nlink nd + 1\<rparr>) st)
         }
         else Some (0, st)
   }"

definition vfs_rename_at :: "'w vfs_env \<Rightarrow> u32 \<Rightarrow> u32 option \<Rightarrow> u8 list \<Rightarrow> u32 option \<Rightarrow> u8 list \<Rightarrow> 'w vfs \<Rightarrow> (int \<times> 'w vfs) option" where
  "vfs_rename_at env uninit obase oldpath nbase newpath st = do {
     (od, st) \<leftarrow> nameiparentat env obase oldpath st;
     (case od of
        None \<Rightarrow> Some (-1, st)
      | Some (odp, oname) \<Rightarrow>
          if ibackend (node st odp) = INODE_9P then Some (-1, set_errno EROFS st)
          else do {
            (n, st) \<leftarrow> vfs_lookup env odp oname st;
            if n = 0 then Some (-1, set_errno ENOENT st)
            else do {
              (nd, st) \<leftarrow> nameiparentat env nbase newpath st;
              (case nd of
                 None \<Rightarrow> Some (-1, st)
               | Some (ndp, nname) \<Rightarrow>
                   if ibackend (node st ndp) = INODE_9P then Some (-1, set_errno EROFS st)
                   else do {
                     let ip = iget n (fsys st);
                     (existing, st) \<leftarrow> vfs_lookup env ndp nname st;
                     if existing = n then Some (0, st)
                     else do {
                       (ok, st) \<leftarrow> rename_replace env uninit ndp nname existing st;
                       if ok then rename_move env uninit odp oname ndp nname n ip st else Some (-1, st)
                     }
                   })
            }
          })
   }"

definition vfs_link_at :: "'w vfs_env \<Rightarrow> u32 option \<Rightarrow> u8 list \<Rightarrow> u32 option \<Rightarrow> u8 list \<Rightarrow> 'w vfs \<Rightarrow> (int \<times> 'w vfs) option" where
  "vfs_link_at env obase oldpath nbase newpath st = do {
     (t, st) \<leftarrow> nameiat env obase oldpath st;
     (case t of
        None \<Rightarrow> Some (-1, st)
      | Some i \<Rightarrow>
          if itype (node st i) = T_DIR then Some (-1, set_errno EPERM st)
          else do {
            (d, st) \<leftarrow> nameiparentat env nbase newpath st;
            (case d of
               None \<Rightarrow> Some (-1, st)
             | Some (dp, name) \<Rightarrow>
                 if ibackend (node st dp) = INODE_9P then Some (-1, set_errno EROFS st)
                 else do {
                   (n, st) \<leftarrow> vfs_lookup env dp name st;
                   if n \<noteq> 0 then Some (-1, set_errno EEXIST st)
                   else do {
                     (r, st) \<leftarrow> on_fs (dirlink (fsenv env) dp name (inum (node st i))) st;
                     if r < 0 then Some (-1, set_errno ENOSPC st)
                     else Some (0, upd_node i (\<lambda>nd. nd\<lparr>nlink := nlink nd + 1\<rparr>) st)
                   }
                 })
          })
   }"

definition vfs_chmod_at :: "'w vfs_env \<Rightarrow> u32 option \<Rightarrow> u8 list \<Rightarrow> u16 \<Rightarrow> 'w vfs \<Rightarrow> (int \<times> 'w vfs) option" where
  "vfs_chmod_at env base path m st = do {
     (t, st) \<leftarrow> nameiat env base path st;
     (case t of
        None \<Rightarrow> Some (-1, st)
      | Some i \<Rightarrow>
          if ibackend (node st i) = INODE_9P then Some (-1, set_errno EROFS st)
          else Some (0, upd_node i (\<lambda>nd. nd\<lparr>mode := and m 0xFFF\<rparr>) st))
   }"

definition vfs_stat_at :: "'w vfs_env \<Rightarrow> u32 option \<Rightarrow> u8 list \<Rightarrow> 'w vfs \<Rightarrow> (stat option \<times> 'w vfs) option" where
  "vfs_stat_at env base path st = do {
     (t, st) \<leftarrow> nameiat env base path st;
     Some (map_option (\<lambda>i. stati i (fsys st)) t, st)
   }"

definition vfs_chdir :: "'w vfs_env \<Rightarrow> u8 list \<Rightarrow> 'w vfs \<Rightarrow> (int \<times> 'w vfs) option" where
  "vfs_chdir env path st = do {
     (t, st) \<leftarrow> namei env path st;
     (case t of
        None \<Rightarrow> Some (-1, st)
      | Some i \<Rightarrow>
          if itype (node st i) \<noteq> T_DIR then Some (-1, set_errno ENOTDIR st)
          else
            (case path_absolute (fs_cwd st) path 256 of
               None \<Rightarrow> Some (-1, set_errno ENAMETOOLONG st)
             | Some q \<Rightarrow> Some (0, st\<lparr>fs_cwd := q\<rparr>)))
   }"

text \<open>\<open>vfs_getcwd\<close> returns the bytes it stores in the caller's buffer, NUL included.\<close>

definition vfs_getcwd :: "u32 \<Rightarrow> 'w vfs \<Rightarrow> int \<times> u8 list \<times> 'w vfs" where
  "vfs_getcwd sz st =
     (let n = length (fs_cwd st) + 1
      in if unat sz < n then (-1, [], set_errno ERANGE st) else (0, fs_cwd st @ [0], st))"

section \<open>Descriptor tables\<close>

type_synonym fds = "nat \<Rightarrow> nat option"

function fdalloc_loop :: "nat \<Rightarrow> fds \<Rightarrow> nat \<Rightarrow> int \<times> fds" where
  "fdalloc_loop fd fds f =
     (if int fd < FD_MAX then
        if fds fd = None then (int fd, fds(fd \<mapsto> f)) else fdalloc_loop (Suc fd) fds f
      else (-1, fds))"
  by pat_completeness auto
termination by (relation "measure (\<lambda>(fd, fds, f). nat (FD_MAX - int fd))") auto

declare fdalloc_loop.simps [simp del]

definition fdalloc :: "fds \<Rightarrow> nat \<Rightarrow> int \<times> fds" where
  "fdalloc fds f = fdalloc_loop 0 fds f"

definition fdget :: "fds \<Rightarrow> int \<Rightarrow> nat option" where
  "fdget fds fd = (if fd < 0 \<or> fd \<ge> FD_MAX then None else fds (nat fd))"

definition fdclose :: "'w vfs_env \<Rightarrow> fds \<Rightarrow> int \<Rightarrow> 'w vfs \<Rightarrow> fds \<times> 'w vfs" where
  "fdclose env fds fd st =
     (if fd < 0 \<or> fd \<ge> FD_MAX then (fds, st)
      else case fds (nat fd) of
             None \<Rightarrow> (fds, st)
           | Some f \<Rightarrow> (fds(nat fd := None), fileclose env f st))"

definition console_path :: "u8 list" where
  "console_path = map (of_nat \<circ> of_char) ''/dev/console''"

definition fd_init :: "'w vfs_env \<Rightarrow> 'w vfs \<Rightarrow> (fds \<times> 'w vfs) option" where
  "fd_init env st = do {
     (f0, st) \<leftarrow> vfs_open env console_path O_RDONLY st;
     (f1, st) \<leftarrow> vfs_open env console_path O_WRONLY st;
     (f2, st) \<leftarrow> vfs_open env console_path O_WRONLY st;
     Some ((\<lambda>_. None)(0 := f0, 1 := f1, 2 := f2), st)
   }"

fun fork_loop :: "nat list \<Rightarrow> fds \<Rightarrow> 'w vfs \<Rightarrow> 'w vfs" where
  "fork_loop [] pfds st = st"
| "fork_loop (i # is) pfds st = fork_loop is pfds (case pfds i of None \<Rightarrow> st | Some f \<Rightarrow> filedup f st)"

text \<open>\<open>fd_fork\<close> writes entries 0 to 15 of the child's table; the table has no others.\<close>

definition fd_fork :: "fds \<Rightarrow> 'w vfs \<Rightarrow> fds \<times> 'w vfs" where
  "fd_fork pfds st = ((\<lambda>i. if i < 16 then pfds i else None), fork_loop [0..<16] pfds st)"

definition vfs_pipe :: "'w vfs_env \<Rightarrow> 'w vfs \<Rightarrow> ((int + nat \<times> nat) \<times> 'w vfs) option" where
  "vfs_pipe env st = do {
     (a, m) \<leftarrow> frame_alloc (mach (fsys st));
     let st = st\<lparr>fsys := (fsys st)\<lparr>mach := m\<rparr>\<rparr>;
     if a = 0 then Some (Inl (- ENOMEM), st)
     else
       (let st = st\<lparr>pipes := (pipes st)(a := new_pipe)\<rparr>;
            (rf, st) = filealloc st;
            (wf, st) = filealloc st
        in case (rf, wf) of
             (Some r, Some w) \<Rightarrow>
               Some (Inr (r, w),
                 upd_file w (\<lambda>x. x\<lparr>ftype := FD_PIPE, fpipe := Some a, readable := False, writable := True\<rparr>)
                   (upd_file r (\<lambda>x. x\<lparr>ftype := FD_PIPE, fpipe := Some a, readable := True, writable := False\<rparr>) st))
           | _ \<Rightarrow>
               (let st = (case rf of Some r \<Rightarrow> fileclose env r st | None \<Rightarrow> st);
                    st = (case wf of Some w \<Rightarrow> fileclose env w st | None \<Rightarrow> st)
                in Some (Inl (- ENFILE), st\<lparr>fsys := (fsys st)\<lparr>mach := frame_free a (mach (fsys st))\<rparr>\<rparr>)))
   }"

section \<open>Path walking as a walk in the directory tree\<close>

text \<open>
  The specification: a path is the list of its components, cut to 31 bytes as \<open>skipelem\<close> does, and
  is walked through the maps of the directories. \<open>tree_ok\<close> describes an in-memory file system (with
  the \<open>/proc\<close> directory, not a 9P mount) whose directories are all well-formed.
\<close>

definition elems :: "u8 list \<Rightarrow> u8 list list" where
  "elems path = map (take 31) (components path)"

definition proc_view :: "fs_env \<Rightarrow> inode \<Rightarrow> u8 list \<Rightarrow> u32" where
  "proc_view env nd name =
     (if name = dot then inum nd else if name = dotdot then if parent nd \<noteq> 0 then parent nd else inum nd
      else if name = cpuinfo_name then proc_inum env 0 else if name = meminfo_name then proc_inum env 1
      else if name = loadavg_name then proc_inum env 2 else if name = version_name then proc_inum env 3 else 0)"

definition dir_view :: "fs_env \<Rightarrow> memfs \<Rightarrow> u32 \<Rightarrow> u8 list \<Rightarrow> u32" where
  "dir_view env s d name =
     (if ibackend (inode_table s d) = INODE_PROCFS then proc_view env (inode_table s d) name
      else case dir_map s d name of None \<Rightarrow> 0 | Some n \<Rightarrow> n)"

definition tree_ok :: "memfs \<Rightarrow> bool" where
  "tree_ok s \<longleftrightarrow> fs_wf s \<and>
     (\<forall>d < MAX_INODES. itype (inode_table s d) = T_DIR \<longrightarrow> ibackend (inode_table s d) = INODE_PROCFS \<or> dir_wf s d) \<and>
     (\<forall>i < MAX_INODES. itype (inode_table s i) \<noteq> 0 \<longrightarrow> inum (inode_table s i) = i) \<and>
     iget ROOTINO s = Some ROOTINO \<and> itype (inode_table s ROOTINO) = T_DIR"

fun walk :: "fs_env \<Rightarrow> memfs \<Rightarrow> u32 \<Rightarrow> u8 list list \<Rightarrow> int + u32" where
  "walk env s ip [] = Inr ip"
| "walk env s ip (c # cs) =
     (if itype (inode_table s ip) \<noteq> T_DIR then Inl ENOTDIR
      else let n = dir_view env s ip c
           in if n = 0 then Inl ENOENT else case iget n s of None \<Rightarrow> Inl ENOENT | Some i \<Rightarrow> walk env s i cs)"

definition walk_parent :: "fs_env \<Rightarrow> memfs \<Rightarrow> u32 \<Rightarrow> u8 list list \<Rightarrow> int + u32 \<times> u8 list" where
  "walk_parent env s ip cs =
     (if cs = [] then Inl ENOENT
      else case walk env s ip (butlast cs) of
             Inl e \<Rightarrow> Inl e
           | Inr d \<Rightarrow> if itype (inode_table s d) \<noteq> T_DIR then Inl ENOTDIR else Inr (d, last cs))"

lemma skipelem_components:
  "skipelem p = None \<longleftrightarrow> components p = []"
  "skipelem p = Some (rest, name) \<Longrightarrow> elems p = name # elems rest \<and> (rest = [] \<longleftrightarrow> elems rest = [])"
proof -
  show "skipelem p = None \<longleftrightarrow> components p = []"
  proof (cases "dropWhile (\<lambda>c. c = SLASH) p")
    case Nil
    then show ?thesis using components_step(1) [OF Nil] by (auto simp: skipelem_def Let_def)
  next
    case (Cons x xs)
    then show ?thesis by (simp only: components_step(2) [OF Cons] skipelem_def Let_def list.distinct if_False option.distinct)
  qed
  assume s: "skipelem p = Some (rest, name)"
  show "elems p = name # elems rest \<and> (rest = [] \<longleftrightarrow> elems rest = [])"
  proof (cases "dropWhile (\<lambda>c. c = SLASH) p")
    case Nil
    then show ?thesis using s by (auto simp: skipelem_def Let_def)
  next
    case (Cons x xs)
    let ?e = "takeWhile (\<lambda>c. c \<noteq> SLASH) (x # xs)" and ?t = "dropWhile (\<lambda>c. c \<noteq> SLASH) (x # xs)"
    have r: "rest = dropWhile (\<lambda>c. c = SLASH) ?t" and n: "name = take 31 ?e"
      using s by (auto simp only: skipelem_def Let_def Cons list.distinct if_False option.inject prod.inject)
        (auto simp: DIRSIZ_def)
    have idem: "dropWhile (\<lambda>c. c = SLASH) rest = rest" unfolding r by (rule dropWhile_idem)
    have c: "components rest = components ?t"
    proof (cases rest)
      case Nil
      then have "dropWhile (\<lambda>c. c = SLASH) ?t = []" "dropWhile (\<lambda>c. c = SLASH) rest = []" using r idem by (simp_all only:)
      then show ?thesis by (simp only: components_step(1))
    next
      case (Cons y ys)
      then have "dropWhile (\<lambda>c. c = SLASH) ?t = y # ys" "dropWhile (\<lambda>c. c = SLASH) rest = y # ys" using r idem by (simp_all only:)
      then show ?thesis by (simp only: components_step(2))
    qed
    have "components rest = [] \<longleftrightarrow> rest = []"
    proof (cases rest)
      case (Cons y ys)
      then show ?thesis using components_step(2) [of rest y ys] idem by (simp only: list.distinct)
    qed (simp add: components_step(1))
    then show ?thesis by (simp only: elems_def components_step(2) [OF Cons] list.map n c [symmetric] map_is_Nil_conv)
  qed
qed

lemma name_ok_elems:
  assumes "0 \<notin> set p" "c \<in> set (elems p)"
  shows "name_ok c"
proof -
  have sub: "\<forall>c \<in> set (components p). set c \<subseteq> set p" for p
  proof (induction p rule: components.induct)
    case (1 p)
    show ?case
    proof (cases "dropWhile (\<lambda>c. c = SLASH) p")
      case (Cons x xs)
      have p: "set (x # xs) \<subseteq> set p" unfolding Cons [symmetric] by (meson set_dropWhileD subsetI)
      have "set (takeWhile (\<lambda>c. c \<noteq> SLASH) (x # xs)) \<subseteq> set (x # xs)" by (meson set_takeWhileD subsetI)
      moreover have "set (dropWhile (\<lambda>c. c \<noteq> SLASH) (x # xs)) \<subseteq> set (x # xs)" by (meson set_dropWhileD subsetI)
      moreover have "\<forall>c \<in> set (components (dropWhile (\<lambda>c. c \<noteq> SLASH) (x # xs))).
          set c \<subseteq> set (dropWhile (\<lambda>c. c \<noteq> SLASH) (x # xs))" by (rule 1 [OF Cons])
      ultimately show ?thesis using p unfolding components_step(2) [OF Cons] list.set by blast
    qed (simp add: components_step(1))
  qed
  obtain e where e: "e \<in> set (components p)" "c = take 31 e" using assms(2) by (auto simp: elems_def)
  then have "0 \<notin> set c" using sub [of p] assms(1) by (auto dest: in_set_takeD)
  with e(2) show ?thesis by (simp add: name_ok_def)
qed

lemma tree_okD:
  assumes "tree_ok s"
  shows "fs_wf s" "d < MAX_INODES \<Longrightarrow> itype (inode_table s d) = T_DIR \<Longrightarrow>
      ibackend (inode_table s d) \<noteq> INODE_PROCFS \<Longrightarrow> dir_wf s d"
    "i < MAX_INODES \<Longrightarrow> itype (inode_table s i) \<noteq> 0 \<Longrightarrow> inum (inode_table s i) = i"
    "iget ROOTINO s = Some ROOTINO" "itype (inode_table s ROOTINO) = T_DIR"
  using assms by (auto simp: tree_ok_def)

lemma igetD: "iget n s = Some i \<Longrightarrow> i = n \<and> i < MAX_INODES \<and> i \<noteq> 0 \<and> itype (inode_table s i) \<noteq> 0"
  by (auto simp: iget_def split: if_splits)

lemma vfs_lookup_view:
  assumes ok: "tree_ok (fsys st)" and d: "d < MAX_INODES" "itype (node st d) = T_DIR" and name: "name_ok name"
  shows "vfs_lookup env d name st = Some (dir_view (fsenv env) (fsys st) d name, st)"
proof (cases "ibackend (inode_table (fsys st) d) = INODE_PROCFS")
  case True
  then show ?thesis by (simp add: vfs_lookup_def dirlookup_def dir_view_def proc_view_def Let_def)
next
  case False
  have wf: "fs_wf (fsys st)" "dir_wf (fsys st) d" using tree_okD(1,2) [OF ok] d False by (simp_all add: node_def)
  then show ?thesis using dirlookup_map(1) [OF wf(1) d(1) wf(2) name, of "fsenv env"] dirlookup_map(2) [OF wf(1) d(1) wf(2) name] False
    by (cases "find_name name (entries (contents (fsys st) d)) 0") (simp add: vfs_lookup_def dir_view_def)
qed

definition walk_result :: "(int + 'a) \<Rightarrow> 'w vfs \<Rightarrow> ('a option \<times> 'w vfs)" where
  "walk_result r st = (case r of Inl e \<Rightarrow> (None, set_errno e st) | Inr x \<Rightarrow> (Some x, st))"

lemma namex_loop_walk:
  assumes ok: "tree_ok (fsys st)" and ip: "ip < MAX_INODES" and nul: "\<forall>c \<in> set (elems p). name_ok c"
  shows "\<exists>nm. namex_loop env False ip p last_name st =
      Some (walk_result (map_sum id (\<lambda>i. (i, nm)) (walk (fsenv env) (fsys st) ip (elems p))) st)"
    and "namex_loop env True ip p last_name st = Some (walk_result (walk_parent (fsenv env) (fsys st) ip (elems p)) st)"
proof -
  have "(\<exists>nm. namex_loop env False ip p last_name st =
      Some (walk_result (map_sum id (\<lambda>i. (i, nm)) (walk (fsenv env) (fsys st) ip (elems p))) st)) \<and>
    namex_loop env True ip p last_name st = Some (walk_result (walk_parent (fsenv env) (fsys st) ip (elems p)) st)"
    using ip nul
  proof (induction "length p" arbitrary: p ip last_name rule: less_induct)
    case less
    show ?case
    proof (cases "skipelem p")
      case None
      then show ?thesis using skipelem_components(1) [of p]
        by (simp add: namex_loop.simps [of _ _ _ p] elems_def walk_result_def walk_parent_def)
    next
      case (Some pn)
      then obtain rest name where s: "skipelem p = Some (rest, name)" by (cases pn) auto
      then have e: "elems p = name # elems rest" and r: "rest = [] \<longleftrightarrow> elems rest = []"
        using skipelem_components(2) by blast+
      have nok: "name_ok name" using less.prems(2) e by simp
      show ?thesis
      proof (cases "itype (node st ip) = T_DIR")
        case False
        then show ?thesis by (simp add: namex_loop.simps [of _ _ _ p] s e walk_result_def walk_parent_def node_def)
      next
        case True
        then have D: "itype (inode_table (fsys st) ip) = T_DIR" by (simp add: node_def)
        note L = vfs_lookup_view [OF ok less.prems(1) True nok, of env]
        let ?n = "dir_view (fsenv env) (fsys st) ip name"
        show ?thesis
        proof (cases "?n = 0 \<or> iget ?n (fsys st) = None")
          case T: True
          then show ?thesis using D r
            by (auto simp: namex_loop.simps [of _ _ _ p] s e L True walk_result_def walk_parent_def)
        next
          case F: False
          then obtain i where i: "iget ?n (fsys st) = Some i" by auto
          then have "i < MAX_INODES" using igetD by blast
          moreover have "\<forall>c \<in> set (elems rest). name_ok c" using less.prems(2) e by simp
          ultimately have IH: "(\<exists>nm. namex_loop env False i rest name st =
              Some (walk_result (map_sum id (\<lambda>i. (i, nm)) (walk (fsenv env) (fsys st) i (elems rest))) st)) \<and>
            namex_loop env True i rest name st = Some (walk_result (walk_parent (fsenv env) (fsys st) i (elems rest)) st)"
            using less.hyps [of rest i name] skipelem_less [OF s] by blast
          have "namex_loop env False ip p last_name st = namex_loop env False i rest name st"
            using F i by (simp add: namex_loop.simps [of _ _ _ p] s L True)
          moreover have "namex_loop env True ip p last_name st =
              (if rest = [] then Some (Some (ip, name), st) else namex_loop env True i rest name st)"
            using F i by (simp add: namex_loop.simps [of _ _ _ p] s L True)
          moreover have "walk (fsenv env) (fsys st) ip (elems p) = walk (fsenv env) (fsys st) i (elems rest)"
            using F i D by (simp add: e)
          moreover have "walk_parent (fsenv env) (fsys st) ip (elems p) =
              (if rest = [] then Inr (ip, name) else walk_parent (fsenv env) (fsys st) i (elems rest))"
            using F i D r by (cases "elems rest") (simp_all add: e walk_parent_def split: sum.split)
          ultimately show ?thesis using IH by (simp add: walk_result_def)
        qed
      qed
    qed
  qed
  then show "\<exists>nm. namex_loop env False ip p last_name st =
      Some (walk_result (map_sum id (\<lambda>i. (i, nm)) (walk (fsenv env) (fsys st) ip (elems p))) st)"
    and "namex_loop env True ip p last_name st = Some (walk_result (walk_parent (fsenv env) (fsys st) ip (elems p)) st)"
    by blast+
qed

text \<open>Where a walk starts: the root for an absolute path, else the base or the working directory.\<close>

definition walk_start :: "fs_env \<Rightarrow> u32 option \<Rightarrow> u8 list \<Rightarrow> 'w vfs \<Rightarrow> int + u32" where
  "walk_start env base path st =
     (if path \<noteq> [] \<and> hd path = SLASH then Inr ROOTINO
      else case base of
             Some b \<Rightarrow> Inr b
           | None \<Rightarrow> (case walk env (fsys st) ROOTINO (elems (fs_cwd st)) of Inl e \<Rightarrow> Inl ENOENT | Inr i \<Rightarrow> Inr i))"

lemma cwd_loop_walk:
  assumes ok: "tree_ok (fsys st)" and ip: "ip < MAX_INODES" and nul: "\<forall>c \<in> set (elems p). name_ok c"
  shows "cwd_loop env ip p st =
    Some (case walk (fsenv env) (fsys st) ip (elems p) of Inl e \<Rightarrow> None | Inr i \<Rightarrow> Some i, st)"
  using ip nul
proof (induction "length p" arbitrary: p ip rule: less_induct)
  case less
  show ?case
  proof (cases "skipelem p")
    case None
    then show ?thesis using skipelem_components(1) [of p] by (simp add: cwd_loop.simps [of _ _ p] elems_def)
  next
    case (Some pn)
    then obtain rest name where s: "skipelem p = Some (rest, name)" by (cases pn) auto
    then have e: "elems p = name # elems rest" using skipelem_components(2) by blast
    then have nok: "name_ok name" "\<forall>c \<in> set (elems rest). name_ok c" using less.prems(2) by simp_all
    show ?thesis
    proof (cases "itype (node st ip) = T_DIR")
      case True
      note L = vfs_lookup_view [OF ok less.prems(1) True nok(1), of env]
      show ?thesis using less.hyps [OF skipelem_less [OF s] _ nok(2)] igetD [of "dir_view (fsenv env) (fsys st) ip name" "fsys st"] True
        by (auto simp: cwd_loop.simps [of _ _ p] s L e node_def split: option.splits)
    qed (simp add: cwd_loop.simps [of _ _ p] s e node_def)
  qed
qed

lemma walk_inode:
  "walk env s ip cs = Inr i \<Longrightarrow> ip < MAX_INODES \<Longrightarrow> i < MAX_INODES"
  by (induction env s ip cs rule: walk.induct) (auto simp: Let_def dest: igetD split: if_splits option.splits)

definition path_ok :: "u32 option \<Rightarrow> u8 list \<Rightarrow> 'w vfs \<Rightarrow> bool" where
  "path_ok base path st \<longleftrightarrow> 0 \<notin> set path \<and> 0 \<notin> set (fs_cwd st) \<and> (\<forall>b. base = Some b \<longrightarrow> b < MAX_INODES)"

lemma namexat_walk:
  assumes ok: "tree_ok (fsys st)" and p: "path_ok base path st"
  shows "\<exists>nm. namexat env base path False st = Some (walk_result
      (case walk_start (fsenv env) base path st of Inl e \<Rightarrow> Inl e
       | Inr i \<Rightarrow> map_sum id (\<lambda>i. (i, nm)) (walk (fsenv env) (fsys st) i (elems path))) st)"
    and "namexat env base path True st = Some (walk_result
      (case walk_start (fsenv env) base path st of Inl e \<Rightarrow> Inl e
       | Inr i \<Rightarrow> walk_parent (fsenv env) (fsys st) i (elems path)) st)"
proof -
  let ?start = "walk_start (fsenv env) base path st"
  have nok: "\<forall>c \<in> set (elems path). name_ok c" "\<forall>c \<in> set (elems (fs_cwd st)). name_ok c"
    using p name_ok_elems by (auto simp: path_ok_def)
  have root: "ROOTINO < MAX_INODES" by (simp add: ROOTINO_def MAX_INODES_def)
  have cwd: "iget_cwd env st =
      Some (case walk (fsenv env) (fsys st) ROOTINO (elems (fs_cwd st)) of Inl e \<Rightarrow> None | Inr i \<Rightarrow> Some i, st)"
    using tree_okD(4) [OF ok] cwd_loop_walk [OF ok root nok(2)] by (simp add: iget_cwd_def)
  have start: "namexat env base path b st =
      (case ?start of Inl e \<Rightarrow> Some (None, set_errno ENOENT st) | Inr i \<Rightarrow> namex_loop env b i path [] st)" for b
    using tree_okD(4) [OF ok] by (auto simp: namexat_def walk_start_def cwd split: option.splits sum.splits)
  have err: "e = ENOENT" if "?start = Inl e" for e
    using that by (auto simp: walk_start_def split: if_splits option.splits sum.splits)
  have ino: "i < MAX_INODES" if "?start = Inr i" for i
    using that p root walk_inode [OF _ root] by (auto simp: walk_start_def path_ok_def split: if_splits option.splits sum.splits)
  show "\<exists>nm. namexat env base path False st = Some (walk_result
      (case ?start of Inl e \<Rightarrow> Inl e
       | Inr i \<Rightarrow> map_sum id (\<lambda>i. (i, nm)) (walk (fsenv env) (fsys st) i (elems path))) st)"
    using start [of False] err ino namex_loop_walk(1) [OF ok _ nok(1), of _ env "[]"]
    by (cases ?start) (auto simp: walk_result_def)
  show "namexat env base path True st = Some (walk_result
      (case ?start of Inl e \<Rightarrow> Inl e | Inr i \<Rightarrow> walk_parent (fsenv env) (fsys st) i (elems path)) st)"
    using start [of True] err ino namex_loop_walk(2) [OF ok _ nok(1), of _ env "[]"]
    by (cases ?start) (auto simp: walk_result_def)
qed

definition find_path :: "fs_env \<Rightarrow> u32 option \<Rightarrow> u8 list \<Rightarrow> 'w vfs \<Rightarrow> int + u32" where
  "find_path env base path st =
     (case walk_start env base path st of Inl e \<Rightarrow> Inl e | Inr i \<Rightarrow> walk env (fsys st) i (elems path))"

definition find_parent :: "fs_env \<Rightarrow> u32 option \<Rightarrow> u8 list \<Rightarrow> 'w vfs \<Rightarrow> int + u32 \<times> u8 list" where
  "find_parent env base path st =
     (case walk_start env base path st of Inl e \<Rightarrow> Inl e | Inr i \<Rightarrow> walk_parent env (fsys st) i (elems path))"

lemma nameiat_find:
  assumes "tree_ok (fsys st)" "path_ok base path st"
  shows "nameiat env base path st = Some (walk_result (find_path (fsenv env) base path st) st)"
  using namexat_walk(1) [OF assms, of env]
  by (auto simp: nameiat_def walk_result_def find_path_def split: sum.splits)

lemma nameiparentat_find:
  assumes "tree_ok (fsys st)" "path_ok base path st"
  shows "nameiparentat env base path st = Some (walk_result (find_parent (fsenv env) base path st) st)"
  using namexat_walk(2) [OF assms, of env] by (simp add: nameiparentat_def find_parent_def)

lemma find_parent_dir:
  assumes ok: "tree_ok (fsys st)" and p: "path_ok base path st" and f: "find_parent env base path st = Inr (d, name)"
  shows "d < MAX_INODES" "itype (node st d) = T_DIR" "name_ok name"
proof -
  obtain i where i: "walk_start env base path st = Inr i" "walk_parent env (fsys st) i (elems path) = Inr (d, name)"
    using f by (auto simp: find_parent_def split: sum.splits)
  have root: "ROOTINO < MAX_INODES" by (simp add: ROOTINO_def MAX_INODES_def)
  have "i < MAX_INODES"
    using i(1) p root walk_inode [OF _ root] by (auto simp: walk_start_def path_ok_def split: if_splits option.splits sum.splits)
  then show "d < MAX_INODES" using i(2) walk_inode by (auto simp: walk_parent_def split: if_splits sum.splits)
  show "itype (node st d) = T_DIR" using i(2) by (auto simp: walk_parent_def node_def split: if_splits sum.splits)
  have "name \<in> set (elems path)" using i(2) by (auto simp: walk_parent_def split: if_splits sum.splits)
  then show "name_ok name" using p name_ok_elems by (auto simp: path_ok_def)
qed

text \<open>
  (C34) Path resolution is a walk in the directory tree. On an in-memory file system whose directories are
  well-formed, \<open>nameiat\<close> and \<open>nameiparentat\<close> always return, change nothing but \<open>fs_errno\<close>, and
  find exactly what walking the components of the path (each cut to 31 bytes) through the directories'
  maps finds: \<open>ENOTDIR\<close> for a component below a non-directory, \<open>ENOENT\<close> for an unbound name, and for
  \<open>nameiparentat\<close> the directory of the last component and its name.
\<close>

theorem path_walk_correct:
  assumes "tree_ok (fsys st)" and "path_ok base path st"
  shows "nameiat env base path st =
      Some (case find_path (fsenv env) base path st of Inl e \<Rightarrow> (None, set_errno e st) | Inr i \<Rightarrow> (Some i, st)) \<and>
    nameiparentat env base path st =
      Some (case find_parent (fsenv env) base path st of Inl e \<Rightarrow> (None, set_errno e st) | Inr dn \<Rightarrow> (Some dn, st))"
  using nameiat_find [OF assms] nameiparentat_find [OF assms] by (simp_all add: walk_result_def)

section \<open>Witness\<close>

text \<open>A root directory that binds \<open>a\<close> to inode 5, a file with one link, open in slot 0.\<close>

definition tree_example :: memfs where
  "tree_example = upd_inode 5 (\<lambda>_. empty_inode\<lparr>inum := 5, itype := T_FILE, nlink := 1\<rparr>) dir_example"

definition vfs_example :: "unit vfs" where
  "vfs_example = \<lparr>fsys = tree_example, fs_errno = 0,
     ftable = (\<lambda>_. zero_file)(0 := zero_file\<lparr>ftype := FD_INODE, fref := 1, readable := True, fip := Some 5\<rparr>),
     pipes = (\<lambda>_. new_pipe), fs_cwd = [47], world = ()\<rparr>"

definition vfs_env_example :: "unit vfs_env" where
  "vfs_env_example = \<lparr>fsenv = env_example, v9p_file_read = (\<lambda>_ _ _ w. ((-1, []), w)),
     v9p_file_write = (\<lambda>_ _ _ _ w. (-1, w)), v9p_truncate = (\<lambda>_ _ w. (-1, w)), v9p_close = (\<lambda>_ w. w),
     v9p_open_file = (\<lambda>_ _ w. (None, w)), v9p_create = (\<lambda>_ _ _ sw. Some (Inl 5, sw)),
     v9p_mkdir = (\<lambda>_ _ _ sw. Some (-1, sw)), v9p_remove = (\<lambda>_ _ sw. Some (-1, sw)),
     procfs_read = (\<lambda>_ _ _ _. (0, [])), dev_read = (\<lambda>_. None), dev_write = (\<lambda>_. None)\<rparr>"

lemma tree_example_contents: "contents tree_example 1 = contents dir_example 1"
  by (simp add: contents_def tree_example_def upd_inode_def)

lemma tree_example_map: "dir_map tree_example 1 = [[97] \<mapsto> 5]"
  using dir_example_ok(2) by (simp add: dir_map_def tree_example_contents)

lemma tree_example_ok: "tree_ok tree_example"
proof -
  have "page_aligned 0x100000" by (simp add: page_aligned_def)
  then have wf: "fs_wf tree_example"
    using boot_example_ready
    by (auto simp: fs_wf_def tree_example_def dir_example_def upd_inode_def empty_inode_def unat_MAXFILE word_le_nat_alt)
  have "dir_wf dir_example 1" using dir_example_ok(1) by (simp add: dir_ok_def)
  then have "dir_wf tree_example 1"
    by (simp add: dir_wf_def tree_example_contents) (simp add: tree_example_def upd_inode_def)
  moreover have "itype (inode_table tree_example d) = T_DIR \<Longrightarrow> d = 1" for d
    by (auto simp: tree_example_def dir_example_def upd_inode_def empty_inode_def T_DIR_def T_FILE_def split: if_splits)
  moreover have "itype (inode_table tree_example i) \<noteq> 0 \<Longrightarrow> inum (inode_table tree_example i) = i" for i
    by (auto simp: tree_example_def dir_example_def upd_inode_def empty_inode_def split: if_splits)
  moreover have "iget ROOTINO tree_example = Some ROOTINO" "itype (inode_table tree_example ROOTINO) = T_DIR"
    by (simp_all add: iget_def ROOTINO_def MAX_INODES_def tree_example_def dir_example_def upd_inode_def T_DIR_def word_le_nat_alt)
  ultimately show ?thesis using wf by (auto simp: tree_ok_def)
qed

lemma components_a: "components [47, 97] = [[97]]"
  by (simp add: components.simps SLASH_def)

lemma vfs_example_path: "tree_ok (fsys vfs_example)" "path_ok None [47, 97] vfs_example"
  "find_path (fsenv vfs_env_example) None [47, 97] vfs_example = Inr 5"
  "find_parent (fsenv vfs_env_example) None [47, 97] vfs_example = Inr (1, [97])"
proof -
  show "tree_ok (fsys vfs_example)" by (simp add: vfs_example_def tree_example_ok)
  show "path_ok None [47, 97] vfs_example" by (simp add: path_ok_def vfs_example_def)
  have n: "itype (inode_table tree_example 1) = T_DIR" "iget 5 tree_example = Some 5"
    "ibackend (inode_table tree_example 1) = INODE_MEM"
    by (simp_all add: tree_example_def dir_example_def upd_inode_def iget_def MAX_INODES_def T_FILE_def empty_inode_def word_le_nat_alt)
  then show "find_path (fsenv vfs_env_example) None [47, 97] vfs_example = Inr 5"
    by (simp add: find_path_def walk_start_def vfs_example_def SLASH_def elems_def components_a ROOTINO_def dir_view_def tree_example_map)
  show "find_parent (fsenv vfs_env_example) None [47, 97] vfs_example = Inr (1, [97])"
    using n by (simp add: find_parent_def walk_start_def walk_parent_def vfs_example_def SLASH_def elems_def components_a ROOTINO_def)
qed

theorem path_walk_correct_witness:
  "nameiat vfs_env_example None [47, 97] vfs_example = Some (Some 5, vfs_example) \<and>
   nameiparentat vfs_env_example None [47, 97] vfs_example = Some (Some (1, [97]), vfs_example)"
  using path_walk_correct [OF vfs_example_path(1,2), of vfs_env_example] vfs_example_path(3,4) by simp

end
