(* ===== verification/ELF.thy ===== *)
theory ELF
  imports Memfs
begin

text \<open>
  \<open>kernel/elf.c\<close>: the loader of static ELF32 programs. A header is decoded from its bytes; the loops over
  pages and program headers are partial functions on the file system state, whose machine holds the page
  tables; \<open>None\<close> stands for a panic of the page allocator. The loader's results 0 and -1 are \<open>True\<close>
  and \<open>False\<close>, the entry point is returned beside.
\<close>

record elf32_ehdr =
  e_ident :: "u8 list"
  e_machine :: u16
  e_entry :: u32
  e_phoff :: u32
  e_phentsize :: u16
  e_phnum :: u16

record elf32_phdr =
  p_type :: u32
  p_offset :: u32
  p_vaddr :: u32
  p_filesz :: u32
  p_memsz :: u32

definition sizeof_ehdr :: u32 where "sizeof_ehdr = 52"
definition sizeof_phdr :: u32 where "sizeof_phdr = 32"
definition PT_LOAD :: u32 where "PT_LOAD = 1"
definition ELFCLASS32 :: u8 where "ELFCLASS32 = 1"
definition EM_386 :: u16 where "EM_386 = 3"

definition get16 :: "u8 list \<Rightarrow> nat \<Rightarrow> u16" where
  "get16 bs k = bytes_u16 (bs ! k) (bs ! (k + 1))"

definition get32 :: "u8 list \<Rightarrow> nat \<Rightarrow> u32" where
  "get32 bs k = bytes_u32 (bs ! k) (bs ! (k + 1)) (bs ! (k + 2)) (bs ! (k + 3))"

definition ehdr_of_bytes :: "u8 list \<Rightarrow> elf32_ehdr" where
  "ehdr_of_bytes bs = \<lparr>e_ident = take 16 bs, e_machine = get16 bs 18, e_entry = get32 bs 24, e_phoff = get32 bs 28,
     e_phentsize = get16 bs 42, e_phnum = get16 bs 44\<rparr>"

definition phdr_of_bytes :: "u8 list \<Rightarrow> elf32_phdr" where
  "phdr_of_bytes bs = \<lparr>p_type = get32 bs 0, p_offset = get32 bs 4, p_vaddr = get32 bs 8,
     p_filesz = get32 bs 16, p_memsz = get32 bs 20\<rparr>"

definition check_ehdr :: "elf32_ehdr \<Rightarrow> bool" where
  "check_ehdr eh \<longleftrightarrow>
     \<not> (e_ident eh ! 0 \<noteq> 0x7f \<or> e_ident eh ! 1 \<noteq> 69 \<or> e_ident eh ! 2 \<noteq> 76 \<or> e_ident eh ! 3 \<noteq> 70) \<and>
     \<not> (e_ident eh ! 4 \<noteq> ELFCLASS32 \<or> e_machine eh \<noteq> EM_386)"

partial_function (option) map_segment_loop :: "u32 \<Rightarrow> u32 \<Rightarrow> u32 \<Rightarrow> memfs \<Rightarrow> (bool \<times> memfs) option" where
  "map_segment_loop pdir va vend s =
     (if va < vend then
        if vmm_page_present pdir va (mach s) then map_segment_loop pdir (va + 0x1000) vend s
        else do {
          (p, m) \<leftarrow> vmm_alloc_at pdir va (mach s);
          if p = 0 then Some (False, s\<lparr>mach := m\<rparr>) else map_segment_loop pdir (va + 0x1000) vend (s\<lparr>mach := m\<rparr>)
        }
      else Some (True, s))"

definition map_segment :: "u32 \<Rightarrow> elf32_phdr \<Rightarrow> memfs \<Rightarrow> (bool \<times> memfs) option" where
  "map_segment pdir ph s =
     map_segment_loop pdir (p_vaddr ph AND NOT 0xFFF) ((p_vaddr ph + p_memsz ph + 0xFFF) AND NOT 0xFFF) s"

definition page_chunk :: "u32 \<Rightarrow> u32 \<Rightarrow> u32" where
  "page_chunk vaddr n = (let chunk = 0x1000 - (vaddr AND 0xFFF) in if chunk > n then n else chunk)"

partial_function (option) copy_to_pdir :: "u32 \<Rightarrow> u32 \<Rightarrow> u8 list \<Rightarrow> u32 \<Rightarrow> memfs \<Rightarrow> (bool \<times> memfs) option" where
  "copy_to_pdir pdir vaddr src n s =
     (if n \<noteq> 0 then
        (let chunk = page_chunk vaddr n; phys = vmm_phys pdir vaddr (mach s)
         in if phys = 0 then Some (False, s)
            else copy_to_pdir pdir (vaddr + chunk) (drop (unat chunk) src) (n - chunk)
                   (s\<lparr>mach := upd_mem (\<lambda>m. store_bytes m phys (take (unat chunk) src)) (mach s)\<rparr>))
      else Some (True, s))"

partial_function (option) zero_in_pdir :: "u32 \<Rightarrow> u32 \<Rightarrow> u32 \<Rightarrow> memfs \<Rightarrow> memfs option" where
  "zero_in_pdir pdir vaddr n s =
     (if n \<noteq> 0 then
        (let chunk = page_chunk vaddr n; phys = vmm_phys pdir vaddr (mach s)
         in if phys = 0 then Some s
            else zero_in_pdir pdir (vaddr + chunk) (n - chunk)
                   (s\<lparr>mach := upd_mem (\<lambda>m. kmemset m phys 0 chunk) (mach s)\<rparr>))
      else Some s)"

definition zero_tail :: "u32 \<Rightarrow> elf32_phdr \<Rightarrow> memfs \<Rightarrow> memfs option" where
  "zero_tail pdir ph s =
     (if p_memsz ph > p_filesz ph then zero_in_pdir pdir (p_vaddr ph + p_filesz ph) (p_memsz ph - p_filesz ph) s
      else Some s)"

text \<open>\<open>elf_load\<close> from an image in memory.\<close>

definition load_segment :: "u32 \<Rightarrow> u8 list \<Rightarrow> elf32_phdr \<Rightarrow> memfs \<Rightarrow> (bool \<times> memfs) option" where
  "load_segment pdir img ph s =
     (if p_type ph \<noteq> PT_LOAD \<or> p_memsz ph = 0 then Some (True, s)
      else if p_offset ph + p_filesz ph > of_nat (length img) then Some (False, s)
      else do {
        (ok, s) \<leftarrow> map_segment pdir ph s;
        if \<not> ok then Some (False, s)
        else do {
          (ok, s) \<leftarrow> (if p_filesz ph \<noteq> 0
            then copy_to_pdir pdir (p_vaddr ph) (drop (unat (p_offset ph)) img) (p_filesz ph) s else Some (True, s));
          if \<not> ok then Some (False, s) else do { s \<leftarrow> zero_tail pdir ph s; Some (True, s) }
        }
      })"

partial_function (option) elf_load_loop :: "u32 \<Rightarrow> u8 list \<Rightarrow> elf32_ehdr \<Rightarrow> u32 \<Rightarrow> memfs \<Rightarrow> (bool \<times> memfs) option" where
  "elf_load_loop pdir img eh i s =
     (if i < ucast (e_phnum eh) then
        (let phoff = e_phoff eh + i * ucast (e_phentsize eh)
         in if phoff + sizeof_phdr > of_nat (length img) then Some (False, s)
            else do {
              (ok, s) \<leftarrow> load_segment pdir img (phdr_of_bytes (drop (unat phoff) img)) s;
              if ok then elf_load_loop pdir img eh (i + 1) s else Some (False, s)
            })
      else Some (True, s))"

definition elf_load :: "u32 \<Rightarrow> u8 list \<Rightarrow> memfs \<Rightarrow> (u32 option \<times> memfs) option" where
  "elf_load pdir img s =
     (if of_nat (length img) < sizeof_ehdr then Some (None, s)
      else
        (let eh = ehdr_of_bytes img
         in if \<not> check_ehdr eh then Some (None, s)
            else do {
              (ok, s) \<leftarrow> elf_load_loop pdir img eh 0 s;
              Some (if ok then Some (e_entry eh) else None, s)
            }))"

text \<open>\<open>elf_load_inode\<close>: the same program, read page by page from its inode.\<close>

partial_function (option) read_segment :: "u32 \<Rightarrow> u32 \<Rightarrow> elf32_phdr \<Rightarrow> u32 \<Rightarrow> memfs \<Rightarrow> (bool \<times> memfs) option" where
  "read_segment pdir ip ph dn s =
     (if dn < p_filesz ph then
        (let va = p_vaddr ph + dn; chunk = page_chunk va (p_filesz ph - dn); phys = vmm_phys pdir va (mach s)
         in if phys = 0 then Some (False, s)
            else
              (let (r, bs) = readi ip (p_offset ph + dn) chunk s;
                   s = s\<lparr>mach := upd_mem (\<lambda>m. store_bytes m phys bs) (mach s)\<rparr>
               in if r \<noteq> sint chunk then Some (False, s) else read_segment pdir ip ph (dn + chunk) s))
      else Some (True, s))"

partial_function (option) elf_inode_loop :: "u32 \<Rightarrow> u32 \<Rightarrow> elf32_ehdr \<Rightarrow> u32 \<Rightarrow> memfs \<Rightarrow> (bool \<times> memfs) option" where
  "elf_inode_loop pdir ip eh i s =
     (if i < ucast (e_phnum eh) then
        (let (r, bs) = readi ip (e_phoff eh + i * ucast (e_phentsize eh)) sizeof_phdr s; ph = phdr_of_bytes bs
         in if r \<noteq> 32 then Some (False, s)
            else if p_type ph \<noteq> PT_LOAD \<or> p_memsz ph = 0 then elf_inode_loop pdir ip eh (i + 1) s
            else do {
              (ok, s) \<leftarrow> map_segment pdir ph s;
              if \<not> ok then Some (False, s)
              else do {
                (ok, s) \<leftarrow> read_segment pdir ip ph 0 s;
                if \<not> ok then Some (False, s)
                else do { s \<leftarrow> zero_tail pdir ph s; elf_inode_loop pdir ip eh (i + 1) s }
              }
            })
      else Some (True, s))"

definition elf_load_inode :: "u32 \<Rightarrow> u32 \<Rightarrow> memfs \<Rightarrow> (u32 option \<times> memfs) option" where
  "elf_load_inode pdir ip s =
     (let (r, bs) = readi ip 0 sizeof_ehdr s; eh = ehdr_of_bytes bs
      in if r \<noteq> 52 then Some (None, s)
         else if \<not> check_ehdr eh then Some (None, s)
         else do {
           (ok, s) \<leftarrow> elf_inode_loop pdir ip eh 0 s;
           Some (if ok then Some (e_entry eh) else None, s)
         })"

end
