(* ===== verification/Process.thy ===== *)
theory Process
  imports VFS ELF
begin

text \<open>
  \<open>kernel/task/process.c\<close>: the process table, scheduling, fork, exec, exit, wait, signals and process
  groups. The table is the list of its first \<open>process_count\<close> slots (a slot is cleared before it is used), \<open>cur\<close> is
  \<open>current\<close>. Kernel addresses are physical addresses, since the kernel half of every address space is
  identity mapped; user addresses go through the page tables of CR3 and an unmapped one is a page fault.
  \<open>None\<close> is a page fault, a panic of the page allocator or a null dereference. The assembly that
  switches stacks is outside; the functions that call it say which switch they ask for.
\<close>

section \<open>State\<close>

definition MAX_PROCESSES :: nat where "MAX_PROCESSES = 64"
definition PROC_RUNNING :: u32 where "PROC_RUNNING = 1"
definition PROC_ZOMBIE :: u32 where "PROC_ZOMBIE = 2"
definition USER_MMAP_BASE :: u32 where "USER_MMAP_BASE = 0x30000000"
definition USER_STACK_TOP :: u32 where "USER_STACK_TOP = 0x28000000"
definition USER_STACK_PAGES :: u32 where "USER_STACK_PAGES = 64"
definition SIGRETURN_TRAMPOLINE :: u32 where "SIGRETURN_TRAMPOLINE = 0x40000000"
definition SYS_SIGRETURN :: u32 where "SYS_SIGRETURN = 51"
definition LOAD_ONE :: u32 where "LOAD_ONE = 2048"
definition PIT_HZ :: u32 where "PIT_HZ = 1000"
definition ESRCH :: int where "ESRCH = 3"
definition ENOEXEC :: int where "ENOEXEC = 8"
definition ECHILD :: int where "ECHILD = 10"

record cpu_context =
  c_esp :: u32
  c_ebp :: u32
  c_ebx :: u32
  c_esi :: u32
  c_edi :: u32

record sigcontext =
  sc_eip :: u32
  sc_cs :: u32
  sc_eflags :: u32
  sc_esp :: u32
  sc_ss :: u32
  sc_regs :: "u32 list"

record process =
  pid :: u32
  ctx :: cpu_context
  pstate :: u32
  started :: u32
  kernel_stack :: u32
  sleep_ticks :: u32
  user_code :: u32
  user_stack :: u32
  parent_pid :: u32
  exit_code :: u32
  process_name :: "u8 list"
  pfds :: fds
  pdir :: u32
  mmap_next :: u32
  tls_base :: u32
  pgid :: u32
  sid :: u32
  sig_handler :: "nat \<Rightarrow> u32"
  sig_pending :: u32
  sig_blocked :: u32
  in_signal :: u32
  sig_saved :: sigcontext
  syscall_esp :: u32

definition zero_context :: cpu_context where
  "zero_context = \<lparr>c_esp = 0, c_ebp = 0, c_ebx = 0, c_esi = 0, c_edi = 0\<rparr>"

definition zero_sigcontext :: sigcontext where
  "zero_sigcontext = \<lparr>sc_eip = 0, sc_cs = 0, sc_eflags = 0, sc_esp = 0, sc_ss = 0, sc_regs = replicate 8 0\<rparr>"

definition zero_process :: process where
  "zero_process = \<lparr>pid = 0, ctx = zero_context, pstate = 0, started = 0, kernel_stack = 0, sleep_ticks = 0,
     user_code = 0, user_stack = 0, parent_pid = 0, exit_code = 0, process_name = [], pfds = (\<lambda>_. None), pdir = 0,
     mmap_next = 0, tls_base = 0, pgid = 0, sid = 0, sig_handler = (\<lambda>_. 0), sig_pending = 0, sig_blocked = 0,
     in_signal = 0, sig_saved = zero_sigcontext, syscall_esp = 0\<rparr>"

record 'w kernel =
  procs :: "process list"
  cur :: nat
  next_pid :: u32
  foreground_pgid :: int
  avenrun :: "u32 list"
  load_ticks :: u32
  gs_base :: u32
  kvfs :: "'w vfs"

abbreviation kmach :: "'w kernel \<Rightarrow> machine" where
  "kmach k \<equiv> mach (fsys (kvfs k))"

definition set_vfs :: "'w vfs \<Rightarrow> 'w kernel \<Rightarrow> 'w kernel" where
  "set_vfs v k = k\<lparr>kvfs := v\<rparr>"

definition set_fsys :: "memfs \<Rightarrow> 'w kernel \<Rightarrow> 'w kernel" where
  "set_fsys s k = k\<lparr>kvfs := (kvfs k)\<lparr>fsys := s\<rparr>\<rparr>"

definition set_mach :: "machine \<Rightarrow> 'w kernel \<Rightarrow> 'w kernel" where
  "set_mach m k = set_fsys ((fsys (kvfs k))\<lparr>mach := m\<rparr>) k"

definition upd_proc :: "nat \<Rightarrow> (process \<Rightarrow> process) \<Rightarrow> 'w kernel \<Rightarrow> 'w kernel" where
  "upd_proc i f k = k\<lparr>procs := (procs k)[i := f (procs k ! i)]\<rparr>"

definition curp :: "'w kernel \<Rightarrow> process" where
  "curp k = procs k ! cur k"

definition process_count :: "'w kernel \<Rightarrow> nat" where
  "process_count k = length (procs k)"

definition bytes_of :: "char list \<Rightarrow> u8 list" where
  "bytes_of s = map (of_nat \<circ> of_char) s"

section \<open>Pids and the load average\<close>

definition alloc_pid :: "'w kernel \<Rightarrow> u32 \<times> 'w kernel" where
  "alloc_pid k = (next_pid k, k\<lparr>next_pid := next_pid k + 1\<rparr>)"

definition counted :: "process \<Rightarrow> bool" where
  "counted p \<longleftrightarrow> pid p \<noteq> 0 \<and> pstate p = PROC_RUNNING \<and> sleep_ticks p = 0 \<and> (kernel_stack p = 0 \<or> started p \<noteq> 0)"

definition count_runnable :: "'w kernel \<Rightarrow> u32" where
  "count_runnable k = fold (\<lambda>p n. if counted p then n + 1 else n) (procs k) 0"

definition decay :: "u32 list" where
  "decay = [1884, 2014, 2037]"

definition load_update :: "u32 \<Rightarrow> u32 \<Rightarrow> u32 \<Rightarrow> u32" where
  "load_update active avg d =
     (let v = avg * d + active * (LOAD_ONE - d); v = (if active \<ge> avg then v + (LOAD_ONE - 1) else v) in v div LOAD_ONE)"

definition process_loadavg_tick :: "'w kernel \<Rightarrow> 'w kernel" where
  "process_loadavg_tick k =
     (let t = load_ticks k + 1
      in if t < 5 * PIT_HZ then k\<lparr>load_ticks := t\<rparr>
         else
           (let active = count_runnable k * LOAD_ONE
            in k\<lparr>load_ticks := 0, avenrun := map2 (load_update active) (avenrun k) decay\<rparr>))"

record loadavg =
  la_avg :: "u32 list"
  la_runnable :: u32
  la_total :: u32
  la_last_pid :: u32

definition process_get_loadavg :: "'w kernel \<Rightarrow> loadavg" where
  "process_get_loadavg k =
     \<lparr>la_avg = map (\<lambda>a. (a * 100 + LOAD_ONE div 2) div LOAD_ONE) (avenrun k), la_runnable = count_runnable k,
      la_total = of_nat (process_count k), la_last_pid = next_pid k - 1\<rparr>"

section \<open>Scheduling\<close>

definition process_set_tls :: "process \<Rightarrow> 'w kernel \<Rightarrow> 'w kernel" where
  "process_set_tls p k = k\<lparr>gs_base := tls_base p\<rparr>"

definition process_register_current :: "'w vfs_env \<Rightarrow> 'w kernel \<Rightarrow> 'w kernel option" where
  "process_register_current env k = do {
     (fds, v) \<leftarrow> fd_init env (kvfs k);
     Some (k\<lparr>kvfs := v, procs := [zero_process\<lparr>pid := 0, started := 1, kernel_stack := 0, pstate := PROC_RUNNING,
       pdir := vmm_kernel_pdir (kmach k), mmap_next := USER_MMAP_BASE, tls_base := 0,
       process_name := bytes_of ''bootstrap'', pfds := fds\<rparr>]\<rparr>)
   }"

definition dec_sleep :: "process \<Rightarrow> process" where
  "dec_sleep p = (if sleep_ticks p > 0 then p\<lparr>sleep_ticks := sleep_ticks p - 1\<rparr> else p)"

text \<open>The search loops: the index where the loop stops and the number of slots checked.\<close>

function find_next :: "(process \<Rightarrow> bool) \<Rightarrow> process list \<Rightarrow> nat \<Rightarrow> nat \<Rightarrow> nat \<times> nat" where
  "find_next ok ps next checked =
     (if checked < length ps then
        if ok (ps ! next) then (next, checked) else find_next ok ps ((next + 1) mod length ps) (checked + 1)
      else (next, checked))"
  by pat_completeness auto
termination by (relation "measure (\<lambda>(ok, ps, next, checked). length ps - checked)") auto

declare find_next.simps [simp del]

datatype switch = Stay | Enter nat nat | Switch nat nat

definition process_schedule :: "'w kernel \<Rightarrow> switch \<times> 'w kernel" where
  "process_schedule k =
     (if process_count k < 2 then (Stay, k)
      else
        (let k = k\<lparr>procs := map dec_sleep (procs k)\<rparr>;
             need_switch = (sleep_ticks (curp k) > 0);
             (next, checked) = find_next (\<lambda>p. pid p \<noteq> 0 \<and> sleep_ticks p = 0) (procs k) ((cur k + 1) mod process_count k) 0
         in if \<not> need_switch \<and> (next = cur k \<or> checked = process_count k) then (Stay, k)
            else if checked = process_count k then (Stay, k)
            else
              (let old = cur k; k = process_set_tls (procs k ! next) (k\<lparr>cur := next\<rparr>);
                   k = set_mach (vmm_switch_pdir (pdir (procs k ! next)) (kmach k)) k
               in if started (procs k ! next) = 0
                  then (Enter old next, upd_proc next (\<lambda>p. p\<lparr>started := 1\<rparr>) k) else (Switch old next, k))))"

definition runnable :: "process \<Rightarrow> bool" where
  "runnable p \<longleftrightarrow> pid p \<noteq> 0 \<and> (kernel_stack p = 0 \<or> started p \<noteq> 0) \<and> sleep_ticks p = 0 \<and> pstate p = PROC_RUNNING"

definition process_tick :: "'w kernel \<Rightarrow> int \<times> 'w kernel" where
  "process_tick k =
     (if process_count k < 2 then (-1, k)
      else
        (let k = k\<lparr>procs := map dec_sleep (procs k)\<rparr>;
             (next, checked) = find_next runnable (procs k) ((cur k + 1) mod process_count k) 0
         in if checked = process_count k \<or> next = cur k then (-1, k) else (int next, k\<lparr>cur := next\<rparr>)))"

definition process_sleep :: "u32 \<Rightarrow> 'w kernel \<Rightarrow> 'w kernel" where
  "process_sleep ticks k = upd_proc (cur k) (\<lambda>p. p\<lparr>sleep_ticks := ticks\<rparr>) k"

section \<open>Memory of the current process\<close>

text \<open>Stores through the page tables of CR3, one byte at a time.\<close>

fun ustore :: "u32 \<Rightarrow> u8 list \<Rightarrow> machine \<Rightarrow> machine option" where
  "ustore a [] m = Some m"
| "ustore a (b # bs) m =
     (let ph = vmm_phys (cr3 m) a m in if ph = 0 then None else ustore (a + 1) bs (upd_mem (\<lambda>mm. mm(ph := b)) m))"

definition ustore32 :: "u32 \<Rightarrow> u32 \<Rightarrow> machine \<Rightarrow> machine option" where
  "ustore32 a v m = ustore a (u32_bytes v) m"

fun push_strings :: "u8 list list \<Rightarrow> u32 \<Rightarrow> machine \<Rightarrow> (u32 list \<times> u32 \<times> machine) option" where
  "push_strings [] sp m = Some ([], sp, m)"
| "push_strings (s # ss) sp m = do {
     let sp = sp - (of_nat (length s) + 1);
     m \<leftarrow> ustore sp (s @ [0]) m;
     (ps, sp', m) \<leftarrow> push_strings ss (sp AND NOT 3) m;
     Some (sp # ps, sp', m)
   }"

fun push_words :: "u32 list \<Rightarrow> u32 \<Rightarrow> machine \<Rightarrow> (u32 \<times> machine) option" where
  "push_words [] sp m = Some (sp, m)"
| "push_words (v # vs) sp m = do { m \<leftarrow> ustore32 (sp - 4) v m; push_words vs (sp - 4) m }"

definition user_build_stack :: "u8 list list \<Rightarrow> u8 list list \<Rightarrow> machine \<Rightarrow> (u32 \<times> machine) option" where
  "user_build_stack args envp m = do {
     let args = take 32 args;
     let envp = take 32 envp;
     (argp, sp, m) \<leftarrow> push_strings args USER_STACK_TOP m;
     (envpp, sp, m) \<leftarrow> push_strings envp sp m;
     let sp = (sp AND NOT 15) - 8;
     m \<leftarrow> ustore32 sp 0 m;
     m \<leftarrow> ustore32 (sp + 4) 0 m;
     let sp = sp - 8;
     m \<leftarrow> ustore32 sp 0 m;
     m \<leftarrow> ustore32 (sp + 4) 0 m;
     (sp, m) \<leftarrow> push_words ([0] @ rev envpp @ [0] @ rev argp @ [of_nat (length args)]) sp m;
     Some (sp, m)
   }"

text \<open>The iret frame of the current system call and the pusha frame of eight registers below it.\<close>

definition iret_addr :: "'w kernel \<Rightarrow> nat \<Rightarrow> u32" where
  "iret_addr k i = syscall_esp (curp k) + 4 * of_nat i"

definition reg_addr :: "'w kernel \<Rightarrow> nat \<Rightarrow> u32" where
  "reg_addr k i = syscall_esp (curp k) - 32 + 4 * of_nat i"

definition kload :: "u32 \<Rightarrow> 'w kernel \<Rightarrow> u32" where
  "kload a k = ld32 (mem (kmach k)) a"

definition kstore :: "u32 \<Rightarrow> u32 \<Rightarrow> 'w kernel \<Rightarrow> 'w kernel" where
  "kstore a v k = set_mach (upd_mem (\<lambda>m. st32 m a v) (kmach k)) k"

definition patch_user_frame :: "u32 \<Rightarrow> u32 \<Rightarrow> 'w kernel \<Rightarrow> 'w kernel" where
  "patch_user_frame ent stk k =
     fold (\<lambda>i k. kstore (reg_addr k i) 0 k) [0..<8] (kstore (iret_addr k 3) stk (kstore (iret_addr k 0) ent k))"

section \<open>Creating processes\<close>

definition process_create_kernel :: "'w vfs_env \<Rightarrow> u32 \<Rightarrow> 'w kernel \<Rightarrow> 'w kernel option" where
  "process_create_kernel env ent k = do {
     (a, m) \<leftarrow> frame_alloc (kmach k);
     let top = a + 4096;
     let k = kstore (top - 12) ent (kstore (top - 8) 0x08 (kstore (top - 4) 0x200 (set_mach m k)));
     let (n, k) = alloc_pid k;
     (fds, v) \<leftarrow> fd_init env (kvfs k);
     let k = set_vfs v k;
     Some (k\<lparr>procs := procs k @ [zero_process\<lparr>pid := n, ctx := zero_context\<lparr>c_esp := top - 12 - 32\<rparr>,
       started := 0, kernel_stack := 0, pstate := PROC_RUNNING, pdir := vmm_kernel_pdir (kmach k),
       mmap_next := USER_MMAP_BASE, tls_base := 0, process_name := bytes_of ''kernel_init'', pfds := fds\<rparr>]\<rparr>)
   }"

definition process_map_sigtramp :: "u32 \<Rightarrow> machine \<Rightarrow> machine option" where
  "process_map_sigtramp pd m =
     (if vmm_page_present pd SIGRETURN_TRAMPOLINE m then Some m
      else do {
        (p, m) \<leftarrow> vmm_alloc_at pd SIGRETURN_TRAMPOLINE m;
        if p = 0 then Some m
        else
          (let phys = vmm_phys pd SIGRETURN_TRAMPOLINE m
           in Some (if phys \<noteq> 0
                    then upd_mem (\<lambda>mm. store_bytes mm phys [0xB8, ucast (SYS_SIGRETURN AND 0xFF), 0, 0, 0, 0xCD, 0x80]) m
                    else m))
      })"

definition map_stack_page :: "u32 \<Rightarrow> u32 \<Rightarrow> u32 \<Rightarrow> machine \<Rightarrow> (bool \<times> machine) option" where
  "map_stack_page pd base i m = do { (p, m) \<leftarrow> vmm_alloc_at pd (base + i * 4096) m; Some (p \<noteq> 0, m) }"

definition sh_path :: "u8 list" where "sh_path = bytes_of ''/bin/sh''"
definition init_argv :: "u8 list list" where "init_argv = [bytes_of ''sh'']"
definition init_envp :: "u8 list list" where
  "init_envp = [bytes_of ''PATH=/bin'', bytes_of ''HOME=/'', bytes_of ''PWD=/'', bytes_of ''TERM=muxos'']"

text \<open>\<open>process_create_user\<close> from the mapped image on: stack, kernel stack and table slot.\<close>

definition create_user_tail :: "'w vfs_env \<Rightarrow> u32 \<Rightarrow> u32 \<Rightarrow> 'w kernel \<Rightarrow> (int \<times> 'w kernel) option" where
  "create_user_tail env pd ent k = do {
     m \<leftarrow> process_map_sigtramp pd (kmach k);
     (ok, m) \<leftarrow> loop_u32 (map_stack_page pd (USER_STACK_TOP - USER_STACK_PAGES * 4096)) 0 USER_STACK_PAGES m;
     let k = set_mach m k;
     if \<not> ok then Some (-1, k)
     else do {
       let old = vmm_current_pdir (kmach k);
       (ustk, m) \<leftarrow> user_build_stack init_argv init_envp (vmm_switch_pdir pd (kmach k));
       (ks, m) \<leftarrow> frame_alloc (vmm_switch_pdir old m);
       let k = set_mach m k;
       if ks = 0 then Some (-1, k)
       else do {
         let (n, k) = alloc_pid k;
         let k = k\<lparr>foreground_pgid := sint n\<rparr>;
         (fds, v) \<leftarrow> fd_init env (kvfs k);
         let k = set_vfs v k;
         Some (sint n, k\<lparr>procs := procs k @ [zero_process\<lparr>pid := n, pgid := n, sid := n,
           ctx := zero_context\<lparr>c_esp := ent, c_ebp := ustk\<rparr>, started := 0, kernel_stack := ks + 4096,
           user_code := ent, user_stack := ustk, pstate := PROC_RUNNING, parent_pid := 0, pdir := pd,
           mmap_next := USER_MMAP_BASE, tls_base := 0, pfds := fds\<rparr>]\<rparr>)
       }
     }
   }"

definition process_create_user :: "'w vfs_env \<Rightarrow> 'w kernel \<Rightarrow> (int \<times> 'w kernel) option" where
  "process_create_user env k = do {
     (f, v) \<leftarrow> vfs_open env sh_path O_RDONLY (kvfs k);
     let k = set_vfs v k;
     (case f of
        None \<Rightarrow> Some (-1, k)
      | Some f \<Rightarrow> do {
          (pd, m) \<leftarrow> vmm_create_pdir (kmach k);
          let k = set_mach m k;
          if pd = 0 then Some (-1, set_vfs (fileclose env f (kvfs k)) k)
          else do {
            ip \<leftarrow> fip (ftable (kvfs k) f);
            (ent, s) \<leftarrow> elf_load_inode pd ip (fsys (kvfs k));
            let k = set_fsys s k;
            let k = set_vfs (fileclose env f (kvfs k)) k;
            (case ent of None \<Rightarrow> Some (-1, k) | Some ent \<Rightarrow> create_user_tail env pd ent k)
          }
        })
   }"

definition start_frame :: "process \<Rightarrow> u32 list" where
  "start_frame p = [0x23, user_stack p, 0x202, 0x1B, user_code p] @ replicate 8 0"

fun kpush :: "u32 list \<Rightarrow> u32 \<Rightarrow> 'w kernel \<Rightarrow> u32 \<times> 'w kernel" where
  "kpush [] sp k = (sp, k)"
| "kpush (v # vs) sp k = kpush vs (sp - 4) (kstore (sp - 4) v k)"

definition startable :: "int \<Rightarrow> process \<Rightarrow> bool" where
  "startable n p \<longleftrightarrow>
     \<not> (pid p \<noteq> word_of_int n \<or> kernel_stack p = 0 \<or> started p \<noteq> 0 \<or> pstate p \<noteq> PROC_RUNNING)"

fun first_index :: "('a \<Rightarrow> bool) \<Rightarrow> 'a list \<Rightarrow> nat option" where
  "first_index ok [] = None"
| "first_index ok (x # xs) = (if ok x then Some 0 else map_option Suc (first_index ok xs))"

definition start_user_process :: "int \<Rightarrow> u8 list \<Rightarrow> 'w kernel \<Rightarrow> 'w kernel" where
  "start_user_process n name k =
     (case first_index (startable n) (procs k) of
        None \<Rightarrow> k
      | Some i \<Rightarrow>
          (let (sp, k) = kpush (start_frame (procs k ! i)) (kernel_stack (procs k ! i)) k
           in upd_proc i (\<lambda>p. p\<lparr>process_name := name, ctx := (ctx p)\<lparr>c_esp := sp\<rparr>, started := 1\<rparr>) k))"

definition process_fork :: "'w kernel \<Rightarrow> (int \<times> 'w kernel) option" where
  "process_fork k =
     (let p = curp k
      in if process_count k \<ge> MAX_PROCESSES then Some (-1, k)
         else do {
           (cpd, m) \<leftarrow> vmm_create_pdir (kmach k);
           if cpd = 0 then Some (-1, set_mach m k)
           else do {
             m \<leftarrow> vmm_copy_pdir cpd (pdir p) m;
             (cks, m) \<leftarrow> frame_alloc m;
             if cks = 0 then Some (-1, set_mach (vmm_destroy_pdir cpd m) k)
             else do {
               let k = set_mach (if kernel_stack p \<noteq> 0
                        then upd_mem (\<lambda>mm. kmemcpy mm cks (kernel_stack p - 4096) 4096) m else m) k;
               let top = cks + 4096;
               let (n, k) = alloc_pid k;
               let (fds, v) = fd_fork (pfds p) (kvfs k);
               let pusha = top - (kernel_stack p - (syscall_esp p - 32));
               let k = kstore (pusha + 28) 0 (set_vfs v k);
               Some (sint n, k\<lparr>procs := procs k @ [zero_process\<lparr>pid := n, parent_pid := pid p, pdir := cpd,
                 kernel_stack := top, user_code := user_code p, user_stack := user_stack p, mmap_next := mmap_next p,
                 tls_base := tls_base p, pgid := pgid p, sid := sid p, pstate := PROC_RUNNING, started := 1,
                 process_name := process_name p, pfds := fds, ctx := zero_context\<lparr>c_esp := pusha\<rparr>\<rparr>]\<rparr>)
             }
           }
         })"

section \<open>Exit and wait\<close>

definition close_fds :: "'w vfs_env \<Rightarrow> nat \<Rightarrow> 'w kernel \<Rightarrow> 'w kernel" where
  "close_fds env i k =
     (case pfds (curp k) i of
        None \<Rightarrow> k
      | Some f \<Rightarrow> upd_proc (cur k) (\<lambda>p. p\<lparr>pfds := (pfds p)(i := None)\<rparr>) (set_vfs (fileclose env f (kvfs k)) k))"

definition remove_slot :: "nat \<Rightarrow> 'w kernel \<Rightarrow> 'w kernel" where
  "remove_slot i k = k\<lparr>procs := take i (procs k) @ drop (Suc i) (procs k)\<rparr>"

datatype exit_flow = Exit_returns | Exit_halts | Exit_jumps nat

definition process_exit :: "'w vfs_env \<Rightarrow> 'w kernel \<Rightarrow> exit_flow \<times> 'w kernel" where
  "process_exit env k =
     (let k = fold (close_fds env) [0..<16] k; p = curp k
      in if parent_pid p > 0 then
           (let k = upd_proc (cur k) (\<lambda>p. p\<lparr>pstate := PROC_ZOMBIE\<rparr>) k
            in case first_index (\<lambda>q. pid q = parent_pid p) (procs k) of
                 None \<Rightarrow> (Exit_returns, k)
               | Some i \<Rightarrow> (Exit_returns, upd_proc i (\<lambda>q. q\<lparr>sleep_ticks := 0\<rparr>) k))
         else
           (let m = vmm_switch_pdir (vmm_kernel_pdir (kmach k)) (kmach k);
                m = (if pdir p \<noteq> 0 \<and> pdir p \<noteq> vmm_kernel_pdir m then vmm_destroy_pdir (pdir p) m else m);
                m = (if kernel_stack p \<noteq> 0 then frame_free (kernel_stack p - 4096) m else m);
                k = remove_slot (cur k) (set_mach m k)
            in if process_count k = 0 then (Exit_halts, k)
               else
                 (let c = (if cur k \<ge> process_count k then 0 else cur k);
                      c = (if c = 0 \<and> process_count k > 1 then 1 else c);
                      k = process_set_tls (procs k ! c) (k\<lparr>cur := c\<rparr>);
                      k = set_mach (vmm_switch_pdir (pdir (procs k ! c)) (kmach k)) k
                  in (Exit_jumps c, upd_proc c (\<lambda>q. q\<lparr>started := 1\<rparr>) k))))"

definition reap_child :: "nat \<Rightarrow> 'w kernel \<Rightarrow> int \<times> 'w kernel" where
  "reap_child i k =
     (let p = procs k ! i;
          m = kmach k;
          m = (if kernel_stack p \<noteq> 0 then frame_free (kernel_stack p - 4096) m else m);
          m = (if pdir p \<noteq> 0 \<and> pdir p \<noteq> vmm_kernel_pdir m then vmm_destroy_pdir (pdir p) m else m);
          k = remove_slot i (set_mach m k);
          c = (if cur k > i then cur k - 1 else cur k);
          c = (if c \<ge> process_count k then 0 else c)
      in (sint (pid p), k\<lparr>cur := c\<rparr>))"

definition process_wait :: "'w kernel \<Rightarrow> int \<times> 'w kernel" where
  "process_wait k =
     (case first_index (\<lambda>p. parent_pid p = pid (curp k) \<and> pstate p = PROC_ZOMBIE) (procs k) of
        Some i \<Rightarrow> reap_child i k
      | None \<Rightarrow> (-1, upd_proc (cur k) (\<lambda>p. p\<lparr>sleep_ticks := 10\<rparr>) k))"

definition wait_match :: "u32 \<Rightarrow> int \<Rightarrow> process \<Rightarrow> bool" where
  "wait_match me n p \<longleftrightarrow> parent_pid p = me \<and> \<not> (n > 0 \<and> sint (pid p) \<noteq> n)"

text \<open>\<open>process_waitpid\<close>; the second result is what it stores through \<open>status\<close>.\<close>

definition process_waitpid :: "int \<Rightarrow> u32 \<Rightarrow> 'w kernel \<Rightarrow> int \<times> int option \<times> 'w kernel" where
  "process_waitpid n flags k =
     (let me = pid (curp k)
      in case first_index (\<lambda>p. wait_match me n p \<and> pstate p = PROC_ZOMBIE) (procs k) of
           Some i \<Rightarrow>
             (let st = sint (push_bit 8 (exit_code (procs k ! i) AND 0xFF)); (r, k) = reap_child i k in (r, Some st, k))
         | None \<Rightarrow>
             if \<not> list_ex (wait_match me n) (procs k) then (- ECHILD, None, k)
             else if flags AND 1 \<noteq> 0 then (0, None, k)
             else (- EAGAIN, None, k))"

section \<open>Exec\<close>

fun snapshot_vec :: "u8 list list \<Rightarrow> nat \<Rightarrow> nat \<Rightarrow> nat \<Rightarrow> u8 list list" where
  "snapshot_vec [] used bufsz left = []"
| "snapshot_vec (s # ss) used bufsz left =
     (if left > 0 \<and> used < bufsz - 1
      then (let t = take (bufsz - 1 - used) s in t # snapshot_vec ss (used + length t + 1) bufsz (left - 1))
      else [])"

partial_function (option) mmap_reset_loop :: "u32 \<Rightarrow> u32 \<Rightarrow> u32 \<Rightarrow> machine \<Rightarrow> machine option" where
  "mmap_reset_loop pd va fin m = (if va < fin then mmap_reset_loop pd (va + 0x1000) fin (vmm_free pd va m) else Some m)"

definition mmap_reset :: "'w kernel \<Rightarrow> 'w kernel option" where
  "mmap_reset k = do {
     m \<leftarrow> mmap_reset_loop (pdir (curp k)) USER_MMAP_BASE (mmap_next (curp k)) (kmach k);
     Some (upd_proc (cur k) (\<lambda>p. p\<lparr>mmap_next := USER_MMAP_BASE\<rparr>) (set_mach m k))
   }"

text \<open>\<open>uargv\<close> and \<open>uenvp\<close> are the strings the user vectors point to (an empty list for a null vector).\<close>

definition process_execve :: "'w vfs_env \<Rightarrow> u8 list \<Rightarrow> u8 list list \<Rightarrow> u8 list list \<Rightarrow> 'w kernel \<Rightarrow> (int \<times> 'w kernel) option" where
  "process_execve env path uargv uenvp k = do {
     (f, v) \<leftarrow> vfs_open env path O_RDONLY (kvfs k);
     let k = set_vfs v k;
     (case f of
        None \<Rightarrow> Some (- fs_errno (kvfs k), k)
      | Some f \<Rightarrow> do {
          ip \<leftarrow> fip (ftable (kvfs k) f);
          if itype (node (kvfs k) ip) \<noteq> T_FILE then Some (- EACCES, set_vfs (fileclose env f (kvfs k)) k)
          else do {
            let kargv = snapshot_vec uargv 0 1024 32;
            let kenvp = snapshot_vec uenvp 0 2048 32;
            let kargv = (if kargv = [] then [[]] else kargv);
            (ent, s) \<leftarrow> elf_load_inode (pdir (curp k)) ip (fsys (kvfs k));
            let k = set_fsys s k;
            let k = set_vfs (fileclose env f (kvfs k)) k;
            (case ent of
               None \<Rightarrow> Some (- ENOEXEC, k)
             | Some ent \<Rightarrow> do {
                 m \<leftarrow> process_map_sigtramp (pdir (curp k)) (kmach k);
                 k \<leftarrow> mmap_reset (set_mach m k);
                 (stk, m) \<leftarrow> user_build_stack kargv kenvp (kmach k);
                 let k = patch_user_frame ent stk (set_mach m k);
                 Some (0, upd_proc (cur k) (\<lambda>p. p\<lparr>user_code := ent, user_stack := stk\<rparr>) k)
               })
          }
        })
   }"

section \<open>Signals, groups and sessions\<close>

definition SIGCHLD :: nat where "SIGCHLD = 17"
definition SIGCONT :: nat where "SIGCONT = 18"
definition SIGSTOP :: nat where "SIGSTOP = 19"
definition SIGTSTP :: nat where "SIGTSTP = 20"
definition SIGTTIN :: nat where "SIGTTIN = 21"
definition SIGTTOU :: nat where "SIGTTOU = 22"
definition SIGURG :: nat where "SIGURG = 23"
definition SIGWINCH :: nat where "SIGWINCH = 28"

text \<open>\<open>process_sigaction\<close>: \<open>act\<close> is the word at the user's pointer; the second result is what it stores at \<open>old\<close>.\<close>

definition process_sigaction :: "int \<Rightarrow> u32 option \<Rightarrow> 'w kernel \<Rightarrow> int \<times> u32 option \<times> 'w kernel" where
  "process_sigaction sig act k =
     (if sig \<le> 0 \<or> sig \<ge> 64 then (- EINVAL, None, k)
      else if sig < 32 then
        (0, Some (sig_handler (curp k) (nat sig)),
         case act of
           None \<Rightarrow> k
         | Some h \<Rightarrow> upd_proc (cur k) (\<lambda>p. p\<lparr>sig_handler := (sig_handler p)(nat sig := h)\<rparr>) k)
      else (0, Some 0, k))"

definition kill_match :: "process \<Rightarrow> int \<Rightarrow> process \<Rightarrow> bool" where
  "kill_match me n t \<longleftrightarrow> pid t \<noteq> 0 \<and>
     (if n > 0 then sint (pid t) = n else if n = 0 then pgid t = pgid me else pgid t = word_of_int (- n))"

definition process_kill :: "int \<Rightarrow> int \<Rightarrow> 'w kernel \<Rightarrow> int \<times> 'w kernel" where
  "process_kill n sig k =
     (if sig < 0 \<or> sig \<ge> 64 then (- EINVAL, k)
      else
        (let hit = kill_match (curp k) n;
             mark = (\<lambda>t. if hit t \<and> sig > 0 \<and> sig < 32 then t\<lparr>sig_pending := sig_pending t OR push_bit (nat sig) 1\<rparr> else t)
         in (if list_ex hit (procs k) then 0 else - ESRCH, k\<lparr>procs := map mark (procs k)\<rparr>)))"

definition process_sigreturn :: "'w kernel \<Rightarrow> int \<times> 'w kernel" where
  "process_sigreturn k =
     (let sc = sig_saved (curp k);
          k = kstore (iret_addr k 4) (sc_ss sc) (kstore (iret_addr k 3) (sc_esp sc) (kstore (iret_addr k 2) (sc_eflags sc)
                (kstore (iret_addr k 1) (sc_cs sc) (kstore (iret_addr k 0) (sc_eip sc) k))));
          k = fold (\<lambda>i k. kstore (reg_addr k i) (sc_regs sc ! i) k) [0..<8] k
      in (sint (sc_regs sc ! 7), upd_proc (cur k) (\<lambda>p. p\<lparr>in_signal := 0\<rparr>) k))"

definition dfl_ignored :: "nat \<Rightarrow> bool" where
  "dfl_ignored sig \<longleftrightarrow> sig = SIGCHLD \<or> sig = SIGCONT \<or> sig = SIGURG \<or> sig = SIGWINCH \<or> sig = SIGTSTP \<or>
     sig = SIGTTIN \<or> sig = SIGTTOU \<or> sig = SIGSTOP"

text \<open>Entering the handler \<open>h\<close>: save the frame, push the argument and the trampoline, redirect the frame.\<close>

definition enter_handler :: "nat \<Rightarrow> u32 \<Rightarrow> 'w kernel \<Rightarrow> 'w kernel option" where
  "enter_handler sig h k = do {
     let sc = \<lparr>sc_eip = kload (iret_addr k 0) k, sc_cs = kload (iret_addr k 1) k, sc_eflags = kload (iret_addr k 2) k,
               sc_esp = kload (iret_addr k 3) k, sc_ss = kload (iret_addr k 4) k,
               sc_regs = map (\<lambda>i. kload (reg_addr k i) k) [0..<8]\<rparr>;
     let k = upd_proc (cur k) (\<lambda>p. p\<lparr>sig_saved := sc\<rparr>) k;
     let usp = sc_esp sc - 8;
     m \<leftarrow> ustore32 (usp + 4) (of_nat sig) (kmach k);
     m \<leftarrow> ustore32 usp SIGRETURN_TRAMPOLINE m;
     let k = kstore (iret_addr k 3) usp (kstore (iret_addr k 0) h (set_mach m k));
     Some (upd_proc (cur k) (\<lambda>p. p\<lparr>in_signal := 1\<rparr>) k)
   }"

text \<open>The loop over the signals; the default action of the others ends the process.\<close>

datatype delivery = No_handler | Handler_entered | Terminated exit_flow

function signal_loop :: "'w vfs_env \<Rightarrow> u32 \<Rightarrow> nat \<Rightarrow> 'w kernel \<Rightarrow> (delivery \<times> 'w kernel) option" where
  "signal_loop env pend sig k =
     (if sig < 32 then
        if pend AND push_bit sig 1 = 0 then signal_loop env pend (Suc sig) k
        else
          (let k = upd_proc (cur k) (\<lambda>p. p\<lparr>sig_pending := sig_pending p AND NOT (push_bit sig 1)\<rparr>) k;
               h = sig_handler (curp k) sig
           in if h = 1 then signal_loop env pend (Suc sig) k
              else if h = 0 then
                if dfl_ignored sig then signal_loop env pend (Suc sig) k
                else (let (fl, k) = process_exit env (upd_proc (cur k) (\<lambda>p. p\<lparr>exit_code := 128 + of_nat sig\<rparr>) k)
                      in Some (Terminated fl, k))
              else do { k \<leftarrow> enter_handler sig h k; Some (Handler_entered, k) })
      else Some (No_handler, k))"
  by pat_completeness auto
termination by (relation "measure (\<lambda>(env, pend, sig, k). 32 - sig)") auto

declare signal_loop.simps [simp del]

definition signal_deliver :: "'w vfs_env \<Rightarrow> 'w kernel \<Rightarrow> (delivery \<times> 'w kernel) option" where
  "signal_deliver env k =
     (let p = curp k; pend = sig_pending p AND NOT (sig_blocked p)
      in if in_signal p \<noteq> 0 then Some (No_handler, k)
         else if pend = 0 then Some (No_handler, k)
         else signal_loop env pend 1 k)"

definition process_setpgid :: "int \<Rightarrow> int \<Rightarrow> 'w kernel \<Rightarrow> int \<times> 'w kernel" where
  "process_setpgid n g k =
     (let n = (if n = 0 then sint (pid (curp k)) else n); g = (if g = 0 then n else g)
      in case first_index (\<lambda>p. sint (pid p) = n) (procs k) of
           None \<Rightarrow> (- ESRCH, k)
         | Some i \<Rightarrow> (0, upd_proc i (\<lambda>p. p\<lparr>pgid := word_of_int g\<rparr>) k))"

definition process_getpgid :: "int \<Rightarrow> 'w kernel \<Rightarrow> int" where
  "process_getpgid n k =
     (let n = (if n = 0 then sint (pid (curp k)) else n)
      in case first_index (\<lambda>p. sint (pid p) = n) (procs k) of None \<Rightarrow> - ESRCH | Some i \<Rightarrow> sint (pgid (procs k ! i)))"

definition process_getsid :: "int \<Rightarrow> 'w kernel \<Rightarrow> int" where
  "process_getsid n k =
     (let n = (if n = 0 then sint (pid (curp k)) else n)
      in case first_index (\<lambda>p. sint (pid p) = n) (procs k) of None \<Rightarrow> - ESRCH | Some i \<Rightarrow> sint (sid (procs k ! i)))"

definition process_setsid :: "'w kernel \<Rightarrow> int \<times> 'w kernel" where
  "process_setsid k =
     (let n = pid (curp k)
      in (sint n, (upd_proc (cur k) (\<lambda>p. p\<lparr>sid := n, pgid := n\<rparr>) k)\<lparr>foreground_pgid := sint n\<rparr>))"

definition process_current_pid :: "'w kernel \<Rightarrow> int" where
  "process_current_pid k = sint (pid (curp k))"

record process_info =
  pi_pid :: u32
  pi_parent_pid :: u32
  pi_state :: u32
  pi_exit_code :: u32
  pi_name :: "u8 list"

definition process_get_info :: "u32 \<Rightarrow> 'w kernel \<Rightarrow> process_info option" where
  "process_get_info n k =
     (case first_index (\<lambda>p. pid p = n) (procs k) of
        None \<Rightarrow> None
      | Some i \<Rightarrow>
          (let p = procs k ! i
           in Some \<lparr>pi_pid = pid p, pi_parent_pid = parent_pid p, pi_state = pstate p, pi_exit_code = exit_code p,
                pi_name = process_name p\<rparr>))"

definition process_get_count :: "'w kernel \<Rightarrow> int" where
  "process_get_count k = int (process_count k)"

end
