(* ===== verification/Console.thy ===== *)
theory Console
  imports Vga Process
begin

text \<open>
  \<open>kernel/fs/devfs.c\<close> and \<open>kernel/console.c\<close>: the character devices behind the file system, with the line discipline of the console.
  Input is the list of characters that will arrive, each with a flag that is true for the keyboard; running out of input is
  waiting for ever (\<open>None\<close>, as is a hanging terminal).
\<close>

section \<open>Model\<close>

definition EINTR :: int where "EINTR = 4"
definition SIGINT :: int where "SIGINT = 2"
definition NDEV :: nat where "NDEV = 4"
definition CONSOLE_MAJOR :: nat where "CONSOLE_MAJOR = 1"
definition NULL_MAJOR :: nat where "NULL_MAJOR = 2"

record 'w machine_state =
  con :: console
  kern :: "'w kernel"
  input :: "(bool \<times> u8) list"

definition say :: "u8 list \<Rightarrow> 'w machine_state \<Rightarrow> 'w machine_state option" where
  "say str s = map_option (\<lambda>c. s\<lparr>con := c\<rparr>) (print str 0x07 (con s))"

text \<open>\<open>print(s, 0x07)\<close> of a one-character string prints nothing for a NUL.\<close>

definition say_char :: "u8 \<Rightarrow> 'w machine_state \<Rightarrow> 'w machine_state option" where
  "say_char c s = say (if c = 0 then [] else [c]) s"

fun console_write :: "u8 list \<Rightarrow> 'w machine_state \<Rightarrow> 'w machine_state option" where
  "console_write [] s = Some s"
| "console_write (c # cs) s = Option.bind (say_char c s) (console_write cs)"

definition console_getchar_src :: "'w machine_state \<Rightarrow> (bool \<times> u8 \<times> 'w machine_state) option" where
  "console_getchar_src s = (case input s of [] \<Rightarrow> None | (kb, c) # inp \<Rightarrow> Some (kb, c, s\<lparr>input := inp\<rparr>))"

definition console_getchar :: "'w machine_state \<Rightarrow> (u8 \<times> 'w machine_state) option" where
  "console_getchar s = map_option snd (console_getchar_src s)"

definition kill_foreground :: "'w machine_state \<Rightarrow> 'w machine_state" where
  "kill_foreground s =
     (let k = kern s; fg = foreground_pgid k
      in s\<lparr>kern := snd (process_kill (if fg \<noteq> 0 then - fg else sint (pid (curp k))) SIGINT k)\<rparr>)"

definition ignores_sigint :: "'w machine_state \<Rightarrow> bool" where
  "ignores_sigint s \<longleftrightarrow> sig_handler (curp (kern s)) (nat SIGINT) = 1"

text \<open>\<open>has_more\<close> is the answer of \<open>kb_haschar() || serial_haschar()\<close> after a character.\<close>

function read_raw :: "nat \<Rightarrow> (nat \<Rightarrow> bool) \<Rightarrow> u8 list \<Rightarrow> 'w machine_state \<Rightarrow> (int \<times> u8 list \<times> 'w machine_state) option" where
  "read_raw n has_more b s =
     (if length b < n then
        (case console_getchar_src s of
           None \<Rightarrow> None
         | Some (kb, c, s) \<Rightarrow>
             (let c = (if c = 13 then 10 else c)
              in if word_of_int (terminal_mode (tty (con s))) AND (4 :: u32) \<noteq> 0 \<and> c = 3 then
                   (let s = kill_foreground s in if ignores_sigint s then read_raw n has_more b s else Some (- EINTR, b, s))
                 else
                   (let b = b @ [c]
                    in if \<not> has_more (length (input s)) then Some (int (length b), b, s) else read_raw n has_more b s)))
      else Some (int (length b), b, s))"
  by pat_completeness auto
termination
  by (relation "measure (\<lambda>(n, has_more, b, s). length (input s))")
     (auto simp: console_getchar_src_def kill_foreground_def Let_def split: list.splits)

declare read_raw.simps [simp del]

text \<open>^L: clear, then print the saved prompt and the line so far.\<close>

definition repaint :: "u8 list \<Rightarrow> u8 list \<Rightarrow> 'w machine_state \<Rightarrow> 'w machine_state option" where
  "repaint prefix b s = do {
     let s = s\<lparr>con := clear_screen (con s)\<rparr>;
     s \<leftarrow> (if prefix \<noteq> [] then say prefix s else Some s);
     console_write b s
   }"

definition say_kb :: "bool \<Rightarrow> u8 list \<Rightarrow> 'w machine_state \<Rightarrow> 'w machine_state option" where
  "say_kb kb str s = (if kb then say str s else Some s)"

lemma say_input [simp]: "say str s = Some s' \<Longrightarrow> input s' = input s"
  by (auto simp: say_def)

lemma console_write_input [simp]: "console_write cs s = Some s' \<Longrightarrow> input s' = input s"
  by (induction cs arbitrary: s) (auto simp: say_char_def split: bind_splits)

lemma repaint_input [simp]: "repaint prefix b s = Some s' \<Longrightarrow> input s' = input s"
  by (auto simp: repaint_def Let_def split: bind_splits if_splits)

lemma say_kb_input [simp]: "say_kb kb str s = Some s' \<Longrightarrow> input s' = input s"
  by (auto simp: say_kb_def split: if_splits)

text \<open>Canonical mode: one line with its editing; \<open>b\<close> is the line so far.\<close>

function read_line :: "nat \<Rightarrow> u8 list \<Rightarrow> u8 list \<Rightarrow> 'w machine_state \<Rightarrow> (int \<times> u8 list \<times> 'w machine_state) option" where
  "read_line n prefix b s =
     (if length b < n then
        (case console_getchar_src s of
           None \<Rightarrow> None
         | Some (kb, c, s) \<Rightarrow>
             (let c = (if c = 13 then 10 else c)
              in if c = 0x0C then (case repaint prefix b s of None \<Rightarrow> None | Some s \<Rightarrow> read_line n prefix b s)
                 else if c = 3 then
                   (let s = kill_foreground s
                    in if ignores_sigint s then read_line n prefix b s
                       else map_option (\<lambda>s. (- EINTR, b, s)) (say_kb kb [94, 67, 10] s))
                 else if c = 4 then if b = [] then Some (0, [], s) else read_line n prefix b s
                 else if c = 10 then map_option (\<lambda>s. (int (length b) + 1, b @ [10], s)) (say_kb kb [10] s)
                 else if c = 8 \<or> c = 127 then
                   if b \<noteq> []
                   then (case say_kb kb [8, 32, 8] s of None \<Rightarrow> None | Some s \<Rightarrow> read_line n prefix (butlast b) s)
                   else read_line n prefix b s
                 else (case say_kb kb (if c = 0 then [] else [c]) s of None \<Rightarrow> None | Some s \<Rightarrow> read_line n prefix (b @ [c]) s)))
      else Some (int (length b), b, s))"
  by pat_completeness auto
termination
  by (relation "measure (\<lambda>(n, prefix, b, s). length (input s))")
     (auto simp: console_getchar_src_def kill_foreground_def Let_def split: list.splits)

declare read_line.simps [simp del]

definition console_read :: "(nat \<Rightarrow> bool) \<Rightarrow> nat \<Rightarrow> 'w machine_state \<Rightarrow> (int \<times> u8 list \<times> 'w machine_state) option" where
  "console_read has_more n s =
     (if word_of_int (terminal_mode (tty (con s))) AND (1 :: u32) = 0 then read_raw n has_more [] s
      else (let (plen, prefix) = terminal_snapshot_line 80 (tty (con s)) in read_line n (if plen > 0 then butlast prefix else []) [] s))"

definition null_write :: "u8 list \<Rightarrow> int \<Rightarrow> int" where
  "null_write buf n = n"

definition null_read :: "int \<Rightarrow> int" where
  "null_read n = 0"

section \<open>Lines\<close>

definition canonical :: "'w machine_state \<Rightarrow> bool" where
  "canonical s \<longleftrightarrow> word_of_int (terminal_mode (tty (con s))) AND (1 :: u32) \<noteq> 0"

definition line_ok :: "nat \<Rightarrow> int \<Rightarrow> u8 list \<Rightarrow> bool" where
  "line_ok n r out \<longleftrightarrow> length out \<le> n \<and> (r = - EINTR \<or> r = int (length out)) \<and> 10 \<notin> set (butlast out) \<and> set out \<inter> {3, 4, 8, 12, 13, 127} = {}"

lemma read_line_ok:
  "read_line n prefix b s = Some (r, out, s') \<Longrightarrow> length b \<le> n \<Longrightarrow> set b \<inter> {3, 4, 8, 10, 12, 13, 127} = {} \<Longrightarrow> line_ok n r out"
proof (induction n prefix b s rule: read_line.induct)
  case (1 n prefix b s)
  show ?case
  proof (cases "length b < n")
    case False
    then show ?thesis using "1.prems" by (auto simp: read_line.simps [of n prefix b s] line_ok_def dest: in_set_butlastD)
  next
    case True
    then obtain kb c0 s1 where g: "console_getchar_src s = Some (kb, c0, s1)"
      using "1.prems"(1) by (auto simp: read_line.simps [of n prefix b s] split: option.splits)
    define c where "c = (if c0 = 13 then 10 else c0)"
    have c13: "c \<noteq> 13" by (auto simp: c_def)
    note U = read_line.simps [of n prefix b s] g c_def [symmetric]
    note IH = "1.IH" [OF True g refl refl c_def]
    have bl: "set (butlast b) \<inter> {3, 4, 8, 10, 12, 13, 127} = {}" using "1.prems"(3) by (auto dest: in_set_butlastD)
    consider "c = 12" | "c = 3" | "c = 4" | "c = 10" | "c = 8 \<or> c = 127" | "c \<notin> {3, 4, 8, 10, 12, 13, 127}" using c13 by auto
    then show ?thesis
    proof cases
      case 1
      then show ?thesis using "1.prems" IH(1) True by (auto simp: U split: option.splits)
    next
      case 2
      then show ?thesis using "1.prems" IH(2) True
        by (auto simp: U Let_def line_ok_def split: if_splits dest: in_set_butlastD)
    next
      case 3
      then show ?thesis using "1.prems" IH(3) True by (auto simp: U line_ok_def split: if_splits)
    next
      case 4
      then show ?thesis using "1.prems" True by (auto simp: U line_ok_def)
    next
      case 5
      then show ?thesis using "1.prems" IH(4,5) True bl by (auto simp: U split: option.splits if_splits)
    next
      case 6
      then show ?thesis using "1.prems" IH(6) True by (auto simp: U split: option.splits)
    qed
  qed
qed

text \<open>Input from the serial line is not echoed; a line there always ends at its newline.\<close>

lemma read_line_returns:
  fixes s :: "'w machine_state"
  shows "\<forall>(kb, c)\<in>set (input s). \<not> kb \<and> c \<noteq> 12 \<Longrightarrow> \<exists>e\<in>set (input s). snd e = 10 \<or> snd e = 13 \<Longrightarrow> read_line n prefix b s \<noteq> None"
proof (induction "input s" arbitrary: b s)
  case Nil
  then show ?case by simp
next
  case (Cons e inp)
  have inp: "input s = e # inp" using Cons.hyps(2) by simp
  obtain c0 where e: "e = (False, c0)" "c0 \<noteq> 12" using Cons.prems(1) by (cases e) (auto simp: inp)
  let ?s = "s\<lparr>input := inp\<rparr>"
  have g: "console_getchar_src s = Some (False, c0, ?s)" by (simp add: console_getchar_src_def inp e(1))
  have U: "read_line n prefix b s = (if length b < n then
      if c0 = 10 \<or> c0 = 13 then Some (int (length b) + 1, b @ [10], ?s)
      else if c0 = 3 then
        if ignores_sigint (kill_foreground ?s) then read_line n prefix b (kill_foreground ?s) else Some (- EINTR, b, kill_foreground ?s)
      else if c0 = 4 then if b = [] then Some (0, [], ?s) else read_line n prefix b ?s
      else if c0 = 8 \<or> c0 = 127 then read_line n prefix (if b \<noteq> [] then butlast b else b) ?s
      else read_line n prefix (b @ [c0]) ?s
      else Some (int (length b), b, s))"
    using e(2) by (subst read_line.simps) (simp add: g say_kb_def Let_def)
  show ?case
  proof (cases "c0 = 10 \<or> c0 = 13")
    case True
    then show ?thesis by (simp add: U)
  next
    case False
    have more: "read_line n prefix b' s' \<noteq> None" if "input s' = inp" for b' and s' :: "'w machine_state"
      by (rule Cons.hyps(1)) (use that Cons.prems e False inp in auto)
    have k: "input (kill_foreground ?s) = inp" by (simp add: kill_foreground_def Let_def)
    show ?thesis unfolding U using more [OF k] more [of ?s] by (simp split del: if_split split: if_split)
  qed
qed


definition term_boot :: terminal where
  "term_boot = \<lparr>vga = (\<lambda>_. 0), crtc = (\<lambda>_. 0), parser = \<lparr>tstate = INIT, argc = 0, argv = (\<lambda>_. 0), stack = [], pflag = 0\<rparr>,
     ready = True, cx = 0, cy = 0, top_row = 0, bot_row = 24, sx = 0, sy = 0, pending_wrap = False, autowrap = True,
     cursor_visible = True, fg = 7, bg = 0, bold = False, reverse_video = False, lflag = 7\<rparr>"

definition console_example :: "unit machine_state" where
  "console_example = \<lparr>con = \<lparr>tty = term_boot, cursor_x = 0, cursor_y = 0, serial_out = []\<rparr>,
     kern = \<lparr>procs = [zero_process], cur = 0, next_pid = 1, foreground_pgid = 0, avenrun = [0, 0, 0], load_ticks = 0, gs_base = 0,
       kvfs = vfs_example\<rparr>, input = [(False, 108), (False, 120), (False, 8), (False, 115), (False, 13)]\<rparr>"


end
