(* ===== verification/Scheduler.thy ===== *)
theory Scheduler
  imports Process
begin

text \<open>
  Properties of the process table of \<open>Process\<close>: the timer's round robin, the load average, waiting for
  children, signal delivery and return, and the invariant of the table under every operation.
\<close>

section \<open>Round robin\<close>

lemma find_next_search:
  assumes "ps \<noteq> []" "s < length ps" "c \<le> length ps"
  shows "\<exists>j \<le> length ps - c. find_next ok ps s c = ((s + j) mod length ps, c + j) \<and>
    (\<forall>i < j. \<not> ok (ps ! ((s + i) mod length ps))) \<and> (c + j < length ps \<longrightarrow> ok (ps ! ((s + j) mod length ps)))"
  using assms(2,3)
proof (induction ok ps s c rule: find_next.induct)
  case (1 ok ps s c)
  show ?case
  proof (cases "c < length ps \<and> \<not> ok (ps ! s)")
    case True
    let ?s = "(s + 1) mod length ps"
    have "?s < length ps" using 1(2) by (intro mod_less_divisor) arith
    then obtain j where j: "j \<le> length ps - (c + 1)" "find_next ok ps ?s (c + 1) = ((?s + j) mod length ps, c + 1 + j)"
      "\<forall>i < j. \<not> ok (ps ! ((?s + i) mod length ps))" "c + 1 + j < length ps \<longrightarrow> ok (ps ! ((?s + j) mod length ps))"
      using 1(1) True by auto
    have m: "(?s + i) mod length ps = (s + Suc i) mod length ps" for i by (simp add: mod_simps)
    have "\<not> ok (ps ! ((s + i) mod length ps))" if "i < Suc j" for i
    proof (cases i)
      case (Suc i')
      then show ?thesis using that j(3) [rule_format, of i'] unfolding Suc m by simp
    qed (use True 1(2) in simp)
    moreover have "find_next ok ps s c = ((s + Suc j) mod length ps, c + Suc j)"
      using True j(2) [unfolded m] by (simp add: find_next.simps [of ok ps s c])
    ultimately show ?thesis using j(1) j(4) [unfolded m] True by (intro exI [of _ "Suc j"]) auto
  next
    case False
    then show ?thesis using 1(2,3) by (intro exI [of _ 0]) (auto simp: find_next.simps [of ok ps s c])
  qed
qed

lemma find_next_round:
  assumes "2 \<le> length ps" "c < length ps" "find_next ok ps ((c + 1) mod length ps) 0 = (next, checked)"
  shows "(checked = length ps \<or> next = c) \<longleftrightarrow> (\<forall>i < length ps. i \<noteq> c \<longrightarrow> \<not> ok (ps ! i))"
    and "\<not> (checked = length ps \<or> next = c) \<Longrightarrow> next < length ps \<and> next \<noteq> c \<and> ok (ps ! next) \<and>
      (\<exists>d. 0 < d \<and> d < length ps \<and> next = (c + d) mod length ps \<and> (\<forall>i. 0 < i \<longrightarrow> i < d \<longrightarrow> \<not> ok (ps ! ((c + i) mod length ps))))"
proof -
  let ?n = "length ps"
  have ne: "ps \<noteq> []" "(c + 1) mod ?n < ?n" using assms(1) by (auto intro: mod_less_divisor simp del: add_Suc_right)
  obtain j where j: "j \<le> ?n" "next = (c + Suc j) mod ?n" "checked = j"
    "\<forall>i < j. \<not> ok (ps ! ((c + Suc i) mod ?n))" "j < ?n \<longrightarrow> ok (ps ! ((c + Suc j) mod ?n))"
    using find_next_search [OF ne, of 0 ok] assms(3) by (auto simp: mod_simps)
  have inj: "(c + d) mod ?n \<noteq> c" if "0 < d" "d < ?n" for d
    using that assms(2) by (cases "c + d < ?n") (auto simp: mod_if)
  have surj: "\<exists>d. 0 < d \<and> d < ?n \<and> i = (c + d) mod ?n" if "i < ?n" "i \<noteq> c" for i
  proof (cases "c < i")
    case True
    then show ?thesis using that by (intro exI [of _ "i - c"]) auto
  next
    case False
    then show ?thesis using that assms(2) by (intro exI [of _ "?n + i - c"]) auto
  qed
  have none: "\<not> ok (ps ! i)" if stop: "checked = ?n \<or> next = c" and i: "i < ?n" "i \<noteq> c" for i
  proof -
    obtain d where d: "0 < d" "d < ?n" "i = (c + d) mod ?n" using surj [OF i] by blast
    have "d - 1 < j"
    proof (rule ccontr)
      assume "\<not> d - 1 < j"
      then have "Suc j < ?n" "j < ?n" using d by simp_all
      then show False using stop inj [of "Suc j"] j(2,3) by auto
    qed
    with j(4) d show ?thesis by (metis Suc_pred')
  qed
  have some: "next < ?n \<and> next \<noteq> c \<and> ok (ps ! next)" if "\<not> (checked = ?n \<or> next = c)"
    using that j ne by auto
  show "(checked = ?n \<or> next = c) \<longleftrightarrow> (\<forall>i < ?n. i \<noteq> c \<longrightarrow> \<not> ok (ps ! i))" using none some by blast
  assume s: "\<not> (checked = ?n \<or> next = c)"
  have "Suc j < ?n"
  proof (rule ccontr)
    assume "\<not> Suc j < ?n"
    then have "Suc j = ?n" using j(1,3) s by auto
    then show False using s j(2) assms(2) by simp
  qed
  moreover have "\<not> ok (ps ! ((c + i) mod ?n))" if "0 < i" "i < Suc j" for i
    using j(4) that by (metis Suc_less_eq Suc_pred')
  ultimately show "next < ?n \<and> next \<noteq> c \<and> ok (ps ! next) \<and>
      (\<exists>d. 0 < d \<and> d < ?n \<and> next = (c + d) mod ?n \<and> (\<forall>i. 0 < i \<longrightarrow> i < d \<longrightarrow> \<not> ok (ps ! ((c + i) mod ?n))))"
    using some [OF s] j(2) by blast
qed

section \<open>Ticks\<close>

abbreviation tick :: "'w kernel \<Rightarrow> 'w kernel" where
  "tick k \<equiv> snd (process_tick k)"

text \<open>A process that only sleep keeps from running.\<close>

definition schedulable :: "process \<Rightarrow> bool" where
  "schedulable p \<longleftrightarrow> pid p \<noteq> 0 \<and> (kernel_stack p = 0 \<or> started p \<noteq> 0) \<and> pstate p = PROC_RUNNING"

lemma runnable_schedulable: "runnable p \<longleftrightarrow> schedulable p \<and> sleep_ticks p = 0"
  by (auto simp: runnable_def schedulable_def)

lemma dec_sleep_simps [simp]: "schedulable (dec_sleep p) = schedulable p" "pid (dec_sleep p) = pid p"
  "sleep_ticks (dec_sleep p) = (if sleep_ticks p = 0 then 0 else sleep_ticks p - 1)"
  by (auto simp: dec_sleep_def schedulable_def word_gt_0)

lemma process_tick_cases:
  assumes "2 \<le> process_count k" "cur k < process_count k"
  shows "procs (tick k) = map dec_sleep (procs k) \<and>
    ((\<forall>i < process_count k. i \<noteq> cur k \<longrightarrow> \<not> runnable (dec_sleep (procs k ! i))) \<and> process_tick k = (-1, k\<lparr>procs := map dec_sleep (procs k)\<rparr>) \<or>
     (\<exists>d. 0 < d \<and> d < process_count k \<and> cur (tick k) = (cur k + d) mod process_count k \<and>
        process_tick k = (int (cur (tick k)), k\<lparr>procs := map dec_sleep (procs k), cur := cur (tick k)\<rparr>) \<and>
        cur (tick k) \<noteq> cur k \<and> runnable (dec_sleep (procs k ! cur (tick k))) \<and>
        (\<forall>i. 0 < i \<longrightarrow> i < d \<longrightarrow> \<not> runnable (dec_sleep (procs k ! ((cur k + i) mod process_count k))))))"
proof -
  let ?ps = "map dec_sleep (procs k)"
  have n: "length ?ps = process_count k" by (simp add: process_count_def)
  obtain nx ch where f: "find_next runnable ?ps ((cur k + 1) mod length ?ps) 0 = (nx, ch)" by fastforce
  have l: "2 \<le> length ?ps" "cur k < length ?ps" using assms by (simp_all add: process_count_def)
  note R = find_next_round [OF l f, unfolded n]
  have t: "process_tick k = (if ch = length ?ps \<or> nx = cur k then (-1, k\<lparr>procs := ?ps\<rparr>)
      else (int nx, k\<lparr>procs := ?ps, cur := nx\<rparr>))"
    using assms f by (simp add: process_tick_def process_count_def)
  have nth: "?ps ! i = dec_sleep (procs k ! i)" if "i < process_count k" for i
    using that by (simp add: process_count_def)
  have lt: "(cur k + d) mod process_count k < process_count k" for d using assms(1) by simp
  show ?thesis
  proof (cases "ch = process_count k \<or> nx = cur k")
    case True
    then show ?thesis using R(1) t n nth by simp
  next
    case False
    then show ?thesis using R(2) t n nth lt by auto
  qed
qed

text \<open>
  The timer tick is a round robin: with the sleep counters counted down, \<open>process_tick\<close> returns -1 and
  keeps the current process exactly when no other process can run; otherwise it moves to the nearest
  runnable slot after the current one, going round the table, and every slot it passes cannot run.
\<close>

lemma process_tick_round_robin:
  assumes "2 \<le> process_count k" and "cur k < process_count k"
  shows "let ps = map dec_sleep (procs k); n = process_count k; (r, k') = process_tick k
    in procs k' = ps \<and>
       (if \<forall>i < n. i \<noteq> cur k \<longrightarrow> \<not> runnable (ps ! i) then r = -1 \<and> cur k' = cur k
        else \<exists>d. 0 < d \<and> d < n \<and> r = int (cur k') \<and> cur k' = (cur k + d) mod n \<and> cur k' \<noteq> cur k \<and> runnable (ps ! cur k') \<and>
               (\<forall>i. 0 < i \<longrightarrow> i < d \<longrightarrow> \<not> runnable (ps ! ((cur k + i) mod n))))"
proof -
  have "(cur k + d) mod length (procs k) < length (procs k)" for d
    using assms(2) by (intro mod_less_divisor) (auto simp: process_count_def)
  then show ?thesis using process_tick_cases [OF assms] assms(2)
    by (cases "process_tick k") (auto simp: Let_def process_count_def)
qed


definition idle_slot :: process where
  "idle_slot = zero_process\<lparr>pstate := PROC_RUNNING, started := 1\<rparr>"

text \<open>Bootstrap, a running process, one asleep for two ticks, a zombie and another running process.\<close>

definition sched_example :: "unit kernel" where
  "sched_example = \<lparr>procs = [idle_slot, idle_slot\<lparr>pid := 1\<rparr>, idle_slot\<lparr>pid := 2, sleep_ticks := 2\<rparr>,
     idle_slot\<lparr>pid := 3, pstate := PROC_ZOMBIE, parent_pid := 1, exit_code := 7\<rparr>, idle_slot\<lparr>pid := 4\<rparr>],
     cur = 1, next_pid = 5, foreground_pgid = 0, avenrun = [0, 100, 4096], load_ticks = 4999, gs_base = 0, kvfs = vfs_example\<rparr>"

lemmas sched_example_simps = sched_example_def idle_slot_def zero_process_def process_count_def runnable_def
  dec_sleep_def PROC_RUNNING_def PROC_ZOMBIE_def

lemma process_tick_round_robin_witness:
  "process_count sched_example = 5 \<and> cur sched_example = 1 \<and> procs (tick sched_example) = map dec_sleep (procs sched_example) \<and>
   process_tick sched_example = (4, (tick sched_example)\<lparr>cur := 4\<rparr>)"
proof -
  have l: "2 \<le> process_count sched_example" "cur sched_example < process_count sched_example"
    by (simp_all add: sched_example_def process_count_def)
  have "procs (tick sched_example) = map dec_sleep (procs sched_example)"
    using process_tick_round_robin [OF l] by (simp add: Let_def split_beta)
  moreover have "process_tick sched_example = (4, (tick sched_example)\<lparr>cur := 4\<rparr>)"
    by (simp add: process_tick_def sched_example_simps find_next.simps Let_def)
  ultimately show ?thesis by (simp add: sched_example_def process_count_def)
qed

section \<open>No starvation\<close>

lemma tick_pow:
  assumes "2 \<le> process_count k" "cur k < process_count k"
  shows "process_count ((tick ^^ m) k) = process_count k \<and> cur ((tick ^^ m) k) < process_count k \<and>
    procs ((tick ^^ m) k) = map (dec_sleep ^^ m) (procs k)"
proof (induction m)
  case (Suc m)
  let ?k = "(tick ^^ m) k"
  have "2 \<le> process_count ?k" "cur ?k < process_count ?k" using Suc assms by simp_all
  from process_tick_cases [OF this] have "procs (tick ?k) = map dec_sleep (procs ?k)" "cur (tick ?k) < process_count ?k"
    using \<open>cur ?k < process_count ?k\<close> by (auto intro: mod_less_divisor)
  then show ?case using Suc by (simp add: process_count_def)
qed (use assms in simp)

lemma unat_dec_sleep: "unat (sleep_ticks (dec_sleep p)) = unat (sleep_ticks p) - 1"
  by (simp add: unat_minus_one)

lemma dec_sleep_pow: "unat (sleep_ticks ((dec_sleep ^^ m) p)) = unat (sleep_ticks p) - m \<and> schedulable ((dec_sleep ^^ m) p) = schedulable p"
  by (induction m) (simp_all add: unat_dec_sleep del: dec_sleep_simps(3))

text \<open>From a process that is awake at distance \<open>d\<close> from the current slot.\<close>

lemma tick_reaches:
  assumes "2 \<le> process_count k" "cur k < process_count k"
    and "0 < d" "d \<le> process_count k" "i = (cur k + d) mod process_count k"
    and "schedulable (procs k ! i)" "unat (sleep_ticks (procs k ! i)) \<le> 1"
  shows "\<exists>m. 0 < m \<and> m \<le> d \<and> cur ((tick ^^ m) k) = i"
  using assms
proof (induction d arbitrary: k rule: less_induct)
  case (less d)
  let ?n = "process_count k"
  have i: "i < ?n" using less.prems(1,5) by simp
  have run: "runnable (dec_sleep (procs k ! i))"
    using less.prems(6,7) unat_dec_sleep [of "procs k ! i"] by (simp add: runnable_schedulable unat_eq_0 del: dec_sleep_simps(3))
  from process_tick_cases [OF less.prems(1,2)] consider
      (stay) "\<forall>j < ?n. j \<noteq> cur k \<longrightarrow> \<not> runnable (dec_sleep (procs k ! j))" "cur (tick k) = cur k"
    | (move) e where "0 < e" "e < ?n" "cur (tick k) = (cur k + e) mod ?n" "procs (tick k) = map dec_sleep (procs k)"
        "\<forall>j. 0 < j \<longrightarrow> j < e \<longrightarrow> \<not> runnable (dec_sleep (procs k ! ((cur k + j) mod ?n)))"
    by (elim conjE disjE exE) (simp, blast)
  then show ?case
  proof cases
    case stay
    then have "i = cur k" using run i by blast
    then show ?thesis using stay less.prems(3) by (intro exI [of _ 1]) simp
  next
    case move
    have "e \<le> d" using move(5) run less.prems(3) unfolding less.prems(5) by (metis not_le)
    show ?thesis
    proof (cases "e = d")
      case True
      then show ?thesis using move less.prems(3,5) by (intro exI [of _ 1]) simp
    next
      case False
      then have ed: "e < d" using \<open>e \<le> d\<close> by simp
      let ?k = "tick k"
      have n: "process_count ?k = ?n" using move(4) by (simp add: process_count_def)
      have "(cur ?k + (d - e)) mod ?n = i" 
        unfolding move(3) mod_add_left_eq using ed less.prems(5) by (simp add: add.assoc)
      moreover have "schedulable (procs ?k ! i)" "unat (sleep_ticks (procs ?k ! i)) \<le> 1"
        using i less.prems(6,7) unat_dec_sleep [of "procs k ! i"] by (simp_all add: move(4) process_count_def del: dec_sleep_simps(3))
      ultimately have "\<exists>m. 0 < m \<and> m \<le> d - e \<and> cur ((tick ^^ m) ?k) = i"
        using less.prems(1,4) ed move(1,2,3) n by (intro less.IH) (auto intro: mod_less_divisor)
      then obtain m where "0 < m" "m \<le> d - e" "cur ((tick ^^ m) ?k) = i" by blast
      then show ?thesis using move(1) ed by (intro exI [of _ "Suc m"]) (simp add: funpow_Suc_right del: funpow.simps(2))
    qed
  qed
qed

text \<open>
  (C24) No starvation: a started, running process that sleeps \<open>s\<close> ticks is the current process again after at
  most \<open>s + n\<close> ticks of the timer, where \<open>n\<close> is the number of slots, whatever the other processes are.
\<close>

theorem process_tick_no_starvation:
  assumes "2 \<le> process_count k" and "cur k < process_count k" and "i < process_count k"
    and "schedulable (procs k ! i)"
  shows "\<exists>m. 0 < m \<and> m \<le> unat (sleep_ticks (procs k ! i)) + process_count k \<and> cur ((tick ^^ m) k) = i"
proof -
  let ?s = "unat (sleep_ticks (procs k ! i))" and ?n = "process_count k"
  let ?k = "(tick ^^ ?s) k"
  note P = tick_pow [OF assms(1,2), of ?s]
  obtain d where "0 < d" "d \<le> ?n" "i = (cur ?k + d) mod ?n"
  proof (cases "cur ?k < i")
    case True
    then show ?thesis using that [of "i - cur ?k"] assms(3) by simp
  next
    case False
    then show ?thesis using that [of "?n + i - cur ?k"] assms(3) P by simp
  qed
  then obtain m where "0 < m" "m \<le> d" "cur ((tick ^^ m) ?k) = i"
    using tick_reaches [of ?k d i] P assms dec_sleep_pow [of ?s "procs k ! i"] by (auto simp: process_count_def)
  then show ?thesis using \<open>d \<le> ?n\<close> by (intro exI [of _ "m + ?s"]) (simp add: funpow_add)
qed

theorem process_tick_no_starvation_witness:
  "sleep_ticks (procs sched_example ! 2) = 2 \<and> (\<exists>m. 0 < m \<and> m \<le> 7 \<and> cur ((tick ^^ m) sched_example) = 2)"
  using process_tick_no_starvation [of sched_example 2]
  by (simp add: sched_example_def process_count_def schedulable_def idle_slot_def zero_process_def)

section \<open>Load average\<close>

lemma count_runnable_nat:
  assumes "process_count k \<le> 64"
  shows "count_runnable k = of_nat (length (filter counted (procs k)))" "unat (count_runnable k) \<le> 64"
proof -
  have f: "fold (\<lambda>p n. if counted p then n + 1 else n) ps c = c + of_nat (length (filter counted ps))" for ps and c :: u32
    by (induction ps arbitrary: c) simp_all
  then show c: "count_runnable k = of_nat (length (filter counted (procs k)))" by (simp add: count_runnable_def)
  show "unat (count_runnable k) \<le> 64"
    using order_trans [OF length_filter_le assms [unfolded process_count_def], of counted] by (simp add: c unat_of_nat)
qed

lemma load_update_nat:
  assumes "unat active \<le> 131072" "unat avg \<le> 131072" "unat d \<le> 2048"
  shows "unat (load_update active avg d) = (unat avg * unat d + unat active * (2048 - unat d) + (if avg \<le> active then 2047 else 0)) div 2048"
proof -
  have "unat avg * unat d + unat active * (2048 - unat d) \<le> 131072 * unat d + 131072 * (2048 - unat d)"
    using assms by (intro add_mono mult_right_mono) simp_all
  also have "\<dots> = 131072 * 2048" using assms(3) by simp
  finally have b: "unat avg * unat d + unat active * (2048 - unat d) \<le> 268435456" by simp
  have s: "unat (2048 - d) = 2048 - unat d" using assms(3) by (simp add: unat_sub word_le_nat_alt)
  have v: "unat (avg * d + active * (2048 - d)) = unat avg * unat d + unat active * (2048 - unat d)"
    using b s by (simp add: unat_word_ariths)
  then show ?thesis using b by (simp add: load_update_def Let_def LOAD_ONE_def unat_div unat_word_ariths)
qed

lemma load_update_converges:
  assumes "unat active \<le> 131072" "unat avg \<le> 131072" "unat d < 2048"
  shows "avg < active \<Longrightarrow> avg < load_update active avg d \<and> load_update active avg d \<le> active"
    and "active < avg \<Longrightarrow> active \<le> load_update active avg d \<and> load_update active avg d \<le> avg"
    and "load_update active active d = active"
proof -
  let ?a = "unat active" and ?g = "unat avg" and ?d = "unat d"
  have split: "x * ?d + x * (2048 - ?d) = x * 2048" for x using assms(3) by (simp flip: distrib_left)
  note N = load_update_nat [OF assms(1,2) less_imp_le [OF assms(3)]]
  show "avg < load_update active avg d \<and> load_update active avg d \<le> active" if "avg < active"
  proof -
    have lt: "?g < ?a" using that by (simp add: word_less_nat_alt)
    have "?g * ?d + (?g + 1) * (2048 - ?d) \<le> ?g * ?d + ?a * (2048 - ?d)" using lt by (intro add_left_mono mult_right_mono) simp_all
    then have lo: "?g * 2048 + 1 \<le> ?g * ?d + ?a * (2048 - ?d)" using split [of ?g] assms(3) by (simp add: algebra_simps)
    have hi: "?g * ?d + ?a * (2048 - ?d) \<le> ?a * 2048" using split [of ?a] lt by (simp add: mult_right_mono flip: split)
    have "?g + 1 \<le> (?g * ?d + ?a * (2048 - ?d) + 2047) div 2048" "(?g * ?d + ?a * (2048 - ?d) + 2047) div 2048 \<le> ?a"
      using lo hi by linarith+
    then show ?thesis using that N by (simp add: word_less_nat_alt word_le_nat_alt)
  qed
  show "active \<le> load_update active avg d \<and> load_update active avg d \<le> avg" if "active < avg"
  proof -
    have lt: "?a < ?g" using that by (simp add: word_less_nat_alt)
    have "?a * 2048 \<le> ?g * ?d + ?a * (2048 - ?d)" using lt by (simp add: mult_right_mono flip: split)
    moreover have "?g * ?d + ?a * (2048 - ?d) \<le> ?g * 2048" using lt by (simp add: mult_right_mono flip: split)
    ultimately have "?a \<le> (?g * ?d + ?a * (2048 - ?d)) div 2048" "(?g * ?d + ?a * (2048 - ?d)) div 2048 \<le> ?g" by linarith+
    then show ?thesis using that N by (simp add: word_less_nat_alt word_le_nat_alt)
  qed
  have "unat (load_update active active d) = ?a"
    using load_update_nat [OF assms(1,1) less_imp_le [OF assms(3)]] by (simp add: split)
  then show "load_update active active d = active" by (simp add: word_unat_eq_iff)
qed

lemma decay_lt: "i < 3 \<Longrightarrow> unat (decay ! i) < 2048"
proof -
  assume "i < 3"
  then have "i = 0 \<or> i = 1 \<or> i = 2" by arith
  then show ?thesis by (auto simp: decay_def)
qed

lemma load_active:
  assumes "process_count k \<le> MAX_PROCESSES"
  shows "unat (count_runnable k * LOAD_ONE) = length (filter counted (procs k)) * 2048"
    and "length (filter counted (procs k)) * 2048 \<le> 131072"
proof -
  have "length (filter counted (procs k)) \<le> 64"
    using order_trans [OF length_filter_le assms [unfolded process_count_def MAX_PROCESSES_def], of counted] .
  then show "length (filter counted (procs k)) * 2048 \<le> 131072"
    and "unat (count_runnable k * LOAD_ONE) = length (filter counted (procs k)) * 2048"
    using count_runnable_nat(1) [OF assms [unfolded MAX_PROCESSES_def]] by (simp_all add: LOAD_ONE_def unat_word_ariths unat_of_nat)
qed

lemma load_update_step:
  assumes "unat act = n" "n \<le> 131072" "unat g \<le> 131072" "unat d < 2048"
  shows "unat (load_update act g d) \<le> 131072"
    and "unat (load_update act g d) = (unat g * unat d + n * (2048 - unat d) + (if unat g \<le> n then 2047 else 0)) div 2048"
    and "unat g < n \<Longrightarrow> unat g < unat (load_update act g d) \<and> unat (load_update act g d) \<le> n"
    and "n < unat g \<Longrightarrow> n \<le> unat (load_update act g d) \<and> unat (load_update act g d) \<le> unat g"
    and "unat g = n \<Longrightarrow> unat (load_update act g d) = unat g"
proof -
  have b: "unat act \<le> 131072" using assms(1,2) by simp
  note B = b assms(3,4)
  show up: "unat g < n \<Longrightarrow> unat g < unat (load_update act g d) \<and> unat (load_update act g d) \<le> n"
    using load_update_converges(1) [OF B] unfolding word_less_nat_alt word_le_nat_alt assms(1) .
  show down: "n < unat g \<Longrightarrow> n \<le> unat (load_update act g d) \<and> unat (load_update act g d) \<le> unat g"
    using load_update_converges(2) [OF B] unfolding word_less_nat_alt word_le_nat_alt assms(1) .
  show eq: "unat g = n \<Longrightarrow> unat (load_update act g d) = unat g"
  proof -
    assume "unat g = n"
    then have "g = act" using assms(1) by (simp add: word_unat_eq_iff)
    then show ?thesis using load_update_converges(3) [OF B] by simp
  qed
  show "unat (load_update act g d) \<le> 131072"
    using up down eq assms(2,3) by (cases "unat g" n rule: linorder_cases) linarith+
  show "unat (load_update act g d) = (unat g * unat d + n * (2048 - unat d) + (if unat g \<le> n then 2047 else 0)) div 2048"
    using load_update_nat [OF b assms(3) less_imp_le [OF assms(4)]] unfolding word_le_nat_alt assms(1) .
qed

text \<open>
  The load average of at most \<open>MAX_PROCESSES\<close> processes: every 5 seconds of ticks each of the three
  averages moves towards the number of processes that can run (as a fixed point number with 11 fractional bits), strictly so on
  rising load, and never past it; between the updates it does not change. No 32-bit
  product or sum wraps around, and the averages never exceed \<open>64 * 2048\<close>.
\<close>

lemma process_loadavg_tick_correct:
  assumes "process_count k \<le> MAX_PROCESSES" and "length (avenrun k) = 3" and "\<forall>a\<in>set (avenrun k). unat a \<le> 64 * 2048"
  shows "let k' = process_loadavg_tick k; n = length (filter counted (procs k))
    in if load_ticks k + 1 < 5000 then k' = k\<lparr>load_ticks := load_ticks k + 1\<rparr>
       else load_ticks k' = 0 \<and> length (avenrun k') = 3 \<and>
         (\<forall>i < 3. let a = unat (avenrun k ! i); a' = unat (avenrun k' ! i) in a' \<le> 64 * 2048 \<and>
            a' = (a * unat (decay ! i) + n * 2048 * (2048 - unat (decay ! i)) + (if a \<le> n * 2048 then 2047 else 0)) div 2048 \<and>
            (a < n * 2048 \<longrightarrow> a < a' \<and> a' \<le> n * 2048) \<and> (n * 2048 < a \<longrightarrow> n * 2048 \<le> a' \<and> a' \<le> a) \<and> (a = n * 2048 \<longrightarrow> a' = a))"
proof (cases "load_ticks k + 1 < 5000")
  case True
  then show ?thesis by (simp add: Let_def process_loadavg_tick_def PIT_HZ_def)
next
  case False
  let ?k = "process_loadavg_tick k" and ?n = "length (filter counted (procs k))"
  have l: "load_ticks ?k = 0" "length (avenrun ?k) = 3"
    using False by (simp_all add: Let_def process_loadavg_tick_def PIT_HZ_def assms(2) decay_def)
  have upd: "avenrun ?k ! i = load_update (count_runnable k * LOAD_ONE) (avenrun k ! i) (decay ! i)" if "i < 3" for i
    using that False assms(2) by (simp add: process_loadavg_tick_def PIT_HZ_def decay_def Let_def)
  have avg: "unat (avenrun k ! i) \<le> 131072" if "i < 3" for i using that assms(2,3) by simp
  have S: "unat (avenrun ?k ! i) \<le> 64 * 2048"
      "unat (avenrun ?k ! i) = (unat (avenrun k ! i) * unat (decay ! i) + ?n * 2048 * (2048 - unat (decay ! i)) +
         (if unat (avenrun k ! i) \<le> ?n * 2048 then 2047 else 0)) div 2048"
      "unat (avenrun k ! i) < ?n * 2048 \<Longrightarrow> unat (avenrun k ! i) < unat (avenrun ?k ! i) \<and> unat (avenrun ?k ! i) \<le> ?n * 2048"
      "?n * 2048 < unat (avenrun k ! i) \<Longrightarrow> ?n * 2048 \<le> unat (avenrun ?k ! i) \<and> unat (avenrun ?k ! i) \<le> unat (avenrun k ! i)"
      "unat (avenrun k ! i) = ?n * 2048 \<Longrightarrow> unat (avenrun ?k ! i) = unat (avenrun k ! i)"
    if "i < 3" for i
    using load_update_step [OF load_active [OF assms(1)] avg [OF that] decay_lt [OF that]]
    unfolding upd [OF that] by simp_all
  show ?thesis unfolding Let_def if_not_P [OF False] using l S by blast
qed

lemma process_loadavg_tick_correct_witness:
  "avenrun sched_example = [0, 100, 4096] \<and> length (filter counted (procs sched_example)) = 2 \<and>
   unat (avenrun (process_loadavg_tick sched_example) ! 0) = 328"
proof -
  have f: "avenrun sched_example = [0, 100, 4096]" "load_ticks sched_example = 4999" "process_count sched_example = 5"
      "length (filter counted (procs sched_example)) = 2"
    by (simp_all add: sched_example_simps counted_def)
  have "\<forall>i < 3. let a = unat (avenrun sched_example ! i) in unat (avenrun (process_loadavg_tick sched_example) ! i) =
      (a * unat (decay ! i) + 2 * 2048 * (2048 - unat (decay ! i)) + (if a \<le> 2 * 2048 then 2047 else 0)) div 2048"
    using process_loadavg_tick_correct [of sched_example] by (simp add: f MAX_PROCESSES_def Let_def)
  from this [rule_format, of 0] show ?thesis using f by (simp add: decay_def)
qed

section \<open>Signals\<close>

text \<open>The 13 words from the pusha frame to the end of the iret frame, as entries of a table.\<close>

lemma frame_addr:
  "reg_addr k i = entry_addr (syscall_esp (curp k) - 32) (of_nat i)"
  "iret_addr k i = entry_addr (syscall_esp (curp k) - 32) (of_nat (8 + i))"
  by (simp_all add: reg_addr_def iret_addr_def entry_addr_def)

definition frame_word :: "'w kernel \<Rightarrow> nat \<Rightarrow> u32" where
  "frame_word k j = entry (mem (kmach k)) (syscall_esp (curp k) - 32) (of_nat j)"

lemma kload_frame: "kload (reg_addr k i) k = frame_word k i" "kload (iret_addr k i) k = frame_word k (8 + i)"
  by (simp_all add: kload_def frame_word_def entry_def frame_addr)

lemma kstore_fields [simp]: "procs (kstore a v k) = procs k" "cur (kstore a v k) = cur k" "curp (kstore a v k) = curp k"
  "reg_addr (kstore a v k) i = reg_addr k i" "iret_addr (kstore a v k) i = iret_addr k i"
  by (simp_all add: kstore_def set_mach_def set_fsys_def curp_def reg_addr_def iret_addr_def)

lemma kstore_mem: "mem (kmach (kstore a v k)) = st32 (mem (kmach k)) a v"
  by (simp add: kstore_def set_mach_def set_fsys_def)

lemma frame_word_kstore:
  assumes "i < 13" "j < 13"
  shows "frame_word (kstore (entry_addr (syscall_esp (curp k) - 32) (of_nat i)) v k) j = (if i = j then v else frame_word k j)"
proof -
  have "(of_nat i :: u32) < 1024" "(of_nat j :: u32) < 1024" "(of_nat i :: u32) = of_nat j \<longleftrightarrow> i = j"
    using assms by (simp_all add: word_less_nat_alt unat_of_nat word_unat_eq_iff)
  then show ?thesis
    by (auto simp: frame_word_def kstore_mem entry_set_entry_index simp flip: set_entry_def)
qed

lemma frame_word_kstore_reg: "i < 8 \<Longrightarrow> j < 13 \<Longrightarrow> frame_word (kstore (reg_addr k i) v k) j = (if i = j then v else frame_word k j)"
  using frame_word_kstore [of i j k v] by (simp add: frame_addr)

lemma frame_word_kstore_iret: "i < 5 \<Longrightarrow> j < 13 \<Longrightarrow> frame_word (kstore (iret_addr k i) v k) j = (if 8 + i = j then v else frame_word k j)"
  using frame_word_kstore [of "8 + i" j k v] by (simp add: frame_addr)

lemma upd_proc_fields [simp]: "cur (upd_proc i f k) = cur k" "kvfs (upd_proc i f k) = kvfs k"
  "next_pid (upd_proc i f k) = next_pid k" "process_count (upd_proc i f k) = process_count k"
  by (simp_all add: upd_proc_def process_count_def)

lemma curp_upd_proc [simp]: "c = cur k \<Longrightarrow> cur k < process_count k \<Longrightarrow> curp (upd_proc c f k) = f (curp k)"
  by (simp add: upd_proc_def process_count_def curp_def)

lemma set_mach_fields [simp]: "procs (set_mach m k) = procs k" "cur (set_mach m k) = cur k" "curp (set_mach m k) = curp k"
  "process_count (set_mach m k) = process_count k" "next_pid (set_mach m k) = next_pid k" "kmach (set_mach m k) = m"
  by (simp_all add: set_mach_def set_fsys_def curp_def process_count_def)

lemma kstore_count [simp]: "process_count (kstore a v k) = process_count k" "next_pid (kstore a v k) = next_pid k"
  by (simp_all add: kstore_def process_count_def)

lemma frame_word_upd [simp]:
  assumes "c = cur k" "cur k < process_count k" "\<And>p. syscall_esp (f p) = syscall_esp p"
  shows "frame_word (upd_proc c f k) j = frame_word k j"
  using assms by (simp add: frame_word_def)

lemma fold_kstore_regs:
  "n \<le> 8 \<Longrightarrow> procs (fold (\<lambda>i k. kstore (reg_addr k i) (rs ! i) k) [0..<n] k) = procs k \<and>
   cur (fold (\<lambda>i k. kstore (reg_addr k i) (rs ! i) k) [0..<n] k) = cur k \<and>
   (\<forall>j < 13. frame_word (fold (\<lambda>i k. kstore (reg_addr k i) (rs ! i) k) [0..<n] k) j = (if j < n then rs ! j else frame_word k j))"
  by (induction n) (auto simp: frame_word_kstore_reg less_Suc_eq)

lemma enter_handler_effect:
  assumes "enter_handler sig h k = Some k'" "cur k < process_count k"
  shows "cur k' = cur k \<and> sig_saved (curp k') = \<lparr>sc_eip = frame_word k 8, sc_cs = frame_word k 9, sc_eflags = frame_word k 10,
           sc_esp = frame_word k 11, sc_ss = frame_word k 12, sc_regs = map (frame_word k) [0..<8]\<rparr> \<and>
         procs k' = (procs k)[cur k := (curp k)\<lparr>sig_saved := sig_saved (curp k'), in_signal := 1\<rparr>] \<and>
         in_signal (curp k') = 1 \<and> frame_word k' 8 = h \<and> frame_word k' 11 = frame_word k 11 - 8"
proof -
  define sc where "sc = \<lparr>sc_eip = frame_word k 8, sc_cs = frame_word k 9, sc_eflags = frame_word k 10,
           sc_esp = frame_word k 11, sc_ss = frame_word k 12, sc_regs = map (frame_word k) [0..<8]\<rparr>"
  define k0 where "k0 = upd_proc (cur k) (\<lambda>p. p\<lparr>sig_saved := sc\<rparr>) k"
  have c0: "cur k0 < process_count k0" "cur k0 = cur k" "curp k0 = (curp k)\<lparr>sig_saved := sc\<rparr>"
    using assms(2) by (simp_all add: k0_def)
  have "sc = \<lparr>sc_eip = kload (iret_addr k 0) k, sc_cs = kload (iret_addr k 1) k, sc_eflags = kload (iret_addr k 2) k,
               sc_esp = kload (iret_addr k 3) k, sc_ss = kload (iret_addr k 4) k,
               sc_regs = map (\<lambda>i. kload (reg_addr k i) k) [0..<8]\<rparr>"
    by (simp add: sc_def kload_frame)
  then obtain m where k': "k' = upd_proc (cur k) (\<lambda>p. p\<lparr>in_signal := 1\<rparr>)
      (kstore (iret_addr k 3) (sc_esp sc - 8) (kstore (iret_addr k 0) h (set_mach m k0)))"
    using assms(1) c0 by (auto simp: enter_handler_def Let_def k0_def iret_addr_def split: Option.bind_splits)
  let ?m = "set_mach m k0"
  have ia: "iret_addr k i = iret_addr ?m i" for i using c0 by (simp add: iret_addr_def)
  have "frame_word k' 8 = h \<and> frame_word k' 11 = sc_esp sc - 8"
    using c0 unfolding k' ia
    by (simp add: frame_word_kstore_iret [of _ _ "kstore (iret_addr ?m 0) h ?m", simplified] frame_word_kstore_iret)
  moreover have "procs k' = (procs k)[cur k := (curp k)\<lparr>sig_saved := sc, in_signal := 1\<rparr>]"
    using assms(2) by (simp add: k' k0_def upd_proc_def process_count_def curp_def)
  ultimately show ?thesis using assms(2) c0(2) by (simp add: k' sc_def curp_def process_count_def)
qed

lemma signal_loop_handler:
  "signal_loop env pend s k = Some (Handler_entered, k') \<Longrightarrow> cur k < process_count k \<Longrightarrow>
   \<exists>sig x. s \<le> sig \<and> sig < 32 \<and> pend AND push_bit sig 1 \<noteq> 0 \<and> sig_handler (curp k) sig \<notin> {0, 1} \<and>
     (\<forall>i. s \<le> i \<longrightarrow> i < sig \<longrightarrow> pend AND push_bit i 1 = 0 \<or> sig_handler (curp k) i = 1 \<or> sig_handler (curp k) i = 0 \<and> dfl_ignored i) \<and>
     enter_handler sig (sig_handler (curp k) sig) (upd_proc (cur k) (\<lambda>p. p\<lparr>sig_pending := x\<rparr>) k) = Some k'"
proof (induction env pend s k rule: signal_loop.induct)
  case (1 env pend s k)
  let ?k = "upd_proc (cur k) (\<lambda>p. p\<lparr>sig_pending := sig_pending p AND NOT (push_bit s 1)\<rparr>) k"
  let ?goal = "\<lambda>s0 k. \<exists>sig x. s0 \<le> sig \<and> sig < 32 \<and> pend AND push_bit sig 1 \<noteq> 0 \<and> sig_handler (curp k) sig \<notin> {0, 1} \<and>
     (\<forall>i. s0 \<le> i \<longrightarrow> i < sig \<longrightarrow> pend AND push_bit i 1 = 0 \<or> sig_handler (curp k) i = 1 \<or> sig_handler (curp k) i = 0 \<and> dfl_ignored i) \<and>
     enter_handler sig (sig_handler (curp k) sig) (upd_proc (cur k) (\<lambda>p. p\<lparr>sig_pending := x\<rparr>) k) = Some k'"
  have s: "s < 32" using "1.prems"(1) by (auto simp: signal_loop.simps [of env pend s k] split: if_splits)
  have h: "sig_handler (curp ?k) = sig_handler (curp k)" "process_count ?k = process_count k" using "1.prems"(2) by simp_all
  have up: "upd_proc (cur k) (\<lambda>p. p\<lparr>sig_pending := x\<rparr>) ?k = upd_proc (cur k) (\<lambda>p. p\<lparr>sig_pending := x\<rparr>) k" for x
    using "1.prems"(2) by (simp add: upd_proc_def process_count_def)
  have nxt: "?goal s k"
    if g: "?goal (Suc s) k" and skip: "pend AND push_bit s 1 = 0 \<or> sig_handler (curp k) s = 1 \<or> sig_handler (curp k) s = 0 \<and> dfl_ignored s"
    using g skip by (metis Suc_leD Suc_leI le_neq_implies_less)
  show ?case
  proof (cases "pend AND push_bit s 1 = 0")
    case True
    then have "signal_loop env pend (Suc s) k = Some (Handler_entered, k')" using "1.prems"(1) s
      by (simp add: signal_loop.simps [of env pend s k])
    with "1.IH"(1) [OF s True] "1.prems"(2) True nxt show ?thesis by blast
  next
    case False
    note U = signal_loop.simps [of env pend s k]
    consider "sig_handler (curp k) s = 1 \<or> sig_handler (curp k) s = 0 \<and> dfl_ignored s"
      | "sig_handler (curp k) s = 0" "\<not> dfl_ignored s" | "sig_handler (curp k) s \<notin> {0, 1}" by auto
    then show ?thesis
    proof cases
      case 1
      then have "signal_loop env pend (Suc s) ?k = Some (Handler_entered, k')"
        using "1.prems" s False by (auto simp: U Let_def)
      then have "?goal (Suc s) ?k" using "1.IH"(2,3) [OF s False refl refl] "1.prems"(2) 1 h by auto
      then have "?goal (Suc s) k" unfolding upd_proc_fields h up .
      then show ?thesis using nxt 1 by blast
    next
      case 2
      then show ?thesis using "1.prems" s False by (simp add: U Let_def split_beta)
    next
      case 3
      then have "enter_handler s (sig_handler (curp k) s) ?k = Some k'"
        using "1.prems" s False by (auto simp: U Let_def split: Option.bind_splits)
      moreover have "?k = upd_proc (cur k) (\<lambda>p. p\<lparr>sig_pending := sig_pending (curp k) AND NOT (push_bit s 1)\<rparr>) k"
        by (simp add: upd_proc_def curp_def)
      ultimately show ?thesis using 3 s False by (intro exI [of _ s] exI) auto
    qed
  qed
qed

lemma process_sigreturn_frame:
  assumes "cur k < process_count k" "sig_saved (curp k) = sc" "length (sc_regs sc) = 8"
  shows "fst (process_sigreturn k) = sint (sc_regs sc ! 7)" "in_signal (curp (snd (process_sigreturn k))) = 0"
    and "j < 13 \<Longrightarrow> frame_word (snd (process_sigreturn k)) j = (sc_regs sc @ [sc_eip sc, sc_cs sc, sc_eflags sc, sc_esp sc, sc_ss sc]) ! j"
proof -
  define k1 where "k1 = kstore (iret_addr k 4) (sc_ss sc) (kstore (iret_addr k 3) (sc_esp sc) (kstore (iret_addr k 2) (sc_eflags sc)
                (kstore (iret_addr k 1) (sc_cs sc) (kstore (iret_addr k 0) (sc_eip sc) k))))"
  let ?k2 = "fold (\<lambda>i k. kstore (reg_addr k i) (sc_regs sc ! i) k) [0..<8] k1"
  note F = fold_kstore_regs [of 8 "sc_regs sc" k1, simplified]
  have r: "process_sigreturn k = (sint (sc_regs sc ! 7), upd_proc (cur k) (\<lambda>p. p\<lparr>in_signal := 0\<rparr>) ?k2)"
    using F assms(2) by (simp add: process_sigreturn_def Let_def k1_def)
  have c: "cur ?k2 = cur k" "procs ?k2 = procs k" using F by (simp_all add: k1_def)
  then have b: "cur ?k2 < process_count ?k2" using assms(1) by (simp add: process_count_def)
  show "fst (process_sigreturn k) = sint (sc_regs sc ! 7)" by (simp add: r)
  show "in_signal (curp (snd (process_sigreturn k))) = 0" using curp_upd_proc [OF refl b] c by (simp add: r)
  assume j: "j < 13"
  have i: "iret_addr k i = iret_addr k' i" if "curp k' = curp k" for i and k' :: "'a kernel" using that by (simp add: iret_addr_def)
  have w: "frame_word k1 j = (if j < 8 then frame_word k j else [sc_eip sc, sc_cs sc, sc_eflags sc, sc_esp sc, sc_ss sc] ! (j - 8))"
  proof -
    have st: "frame_word (kstore (iret_addr k i) v k') j = (if 8 + i = j then v else frame_word k' j)"
      if "i < 5" "curp k' = curp k" for i v and k' :: "'a kernel"
      using frame_word_kstore_iret [OF that(1) j, of k' v] i [OF that(2)] by simp
    have "j < 8 \<or> j = 8 \<or> j = 9 \<or> j = 10 \<or> j = 11 \<or> j = 12" using j by arith
    then show ?thesis unfolding k1_def by (auto simp: st)
  qed
  show "frame_word (snd (process_sigreturn k)) j = (sc_regs sc @ [sc_eip sc, sc_cs sc, sc_eflags sc, sc_esp sc, sc_ss sc]) ! j"
    using F j w b c assms(3) by (simp add: r nth_append)
qed

text \<open>
  (C17) Signal delivery and return are inverse. When \<open>signal_deliver\<close> enters a handler, it is the handler of the
  lowest pending, unblocked signal that is neither ignored nor defaulted, the return frame points at it with the user stack
  lowered by two words, and further delivery is held off. Whatever the handler does to the frame and to memory, the later
  \<open>process_sigreturn\<close> puts back all five words of the interrupt frame and all eight registers, gives back the saved eax
  and allows delivery again.
\<close>

theorem signal_deliver_sigreturn_roundtrip:
  fixes k :: "'w kernel"
  assumes "signal_deliver env k = Some (Handler_entered, k1)" and "cur k < process_count k"
  shows "(\<exists>sig. 1 \<le> sig \<and> sig < 32 \<and> bit (sig_pending (curp k) AND NOT (sig_blocked (curp k))) sig \<and>
      sig_handler (curp k) sig \<notin> {0, 1} \<and>
      (\<forall>i. 1 \<le> i \<longrightarrow> i < sig \<longrightarrow> bit (sig_pending (curp k) AND NOT (sig_blocked (curp k))) i \<longrightarrow>
         sig_handler (curp k) i = 1 \<or> sig_handler (curp k) i = 0 \<and> dfl_ignored i) \<and>
      frame_word k1 8 = sig_handler (curp k) sig \<and> frame_word k1 11 = frame_word k 11 - 8 \<and> in_signal (curp k1) = 1) \<and>
    (\<forall>k2 :: 'w kernel. cur k2 < process_count k2 \<longrightarrow> sig_saved (curp k2) = sig_saved (curp k1) \<longrightarrow>
      fst (process_sigreturn k2) = sint (frame_word k 7) \<and> in_signal (curp (snd (process_sigreturn k2))) = 0 \<and>
      (\<forall>j < 13. frame_word (snd (process_sigreturn k2)) j = frame_word k j))"
proof -
  let ?pend = "sig_pending (curp k) AND NOT (sig_blocked (curp k))"
  have "signal_loop env ?pend 1 k = Some (Handler_entered, k1)"
    using assms(1) by (auto simp: signal_deliver_def Let_def split: if_splits)
  then obtain sig x where sig: "1 \<le> sig" "sig < 32" "?pend AND push_bit sig 1 \<noteq> 0" "sig_handler (curp k) sig \<notin> {0, 1}"
    "\<forall>i. 1 \<le> i \<longrightarrow> i < sig \<longrightarrow> ?pend AND push_bit i 1 = 0 \<or> sig_handler (curp k) i = 1 \<or> sig_handler (curp k) i = 0 \<and> dfl_ignored i"
    and h: "enter_handler sig (sig_handler (curp k) sig) (upd_proc (cur k) (\<lambda>p. p\<lparr>sig_pending := x\<rparr>) k) = Some k1"
    using signal_loop_handler assms(2) by blast
  have bit: "?pend AND push_bit i 1 = 0 \<longleftrightarrow> \<not> bit ?pend i" for i by (simp add: bit_iff_and_push_bit_not_eq_0)
  note E = enter_handler_effect [OF h, unfolded upd_proc_fields, OF assms(2)]
  have fw: "frame_word (upd_proc (cur k) (\<lambda>p. p\<lparr>sig_pending := x\<rparr>) k) j = frame_word k j" for j
    using assms(2) by simp
  have entered: "\<exists>sig. 1 \<le> sig \<and> sig < 32 \<and> bit ?pend sig \<and> sig_handler (curp k) sig \<notin> {0, 1} \<and>
      (\<forall>i. 1 \<le> i \<longrightarrow> i < sig \<longrightarrow> bit ?pend i \<longrightarrow> sig_handler (curp k) i = 1 \<or> sig_handler (curp k) i = 0 \<and> dfl_ignored i) \<and>
      frame_word k1 8 = sig_handler (curp k) sig \<and> frame_word k1 11 = frame_word k 11 - 8 \<and> in_signal (curp k1) = 1"
    using E fw sig bit by (intro exI [of _ sig]) auto
  have "fst (process_sigreturn k2) = sint (frame_word k 7) \<and> in_signal (curp (snd (process_sigreturn k2))) = 0 \<and>
      (\<forall>j < 13. frame_word (snd (process_sigreturn k2)) j = frame_word k j)"
    if k2: "cur k2 < process_count k2" "sig_saved (curp k2) = sig_saved (curp k1)" for k2 :: "'w kernel"
  proof -
  have "sig_saved (curp k2) = \<lparr>sc_eip = frame_word k 8, sc_cs = frame_word k 9, sc_eflags = frame_word k 10,
           sc_esp = frame_word k 11, sc_ss = frame_word k 12, sc_regs = map (frame_word k) [0..<8]\<rparr>"
    using E fw k2(2) by simp
  note R = process_sigreturn_frame [OF k2(1) this, simplified]
  have "frame_word (snd (process_sigreturn k2)) j = frame_word k j" if "j < 13" for j
  proof -
    have "j < 8 \<or> j = 8 \<or> j = 9 \<or> j = 10 \<or> j = 11 \<or> j = 12" using that by arith
    then show ?thesis using R(3) [OF that] by (auto simp: nth_append)
  qed
  then show ?thesis using R by simp
  qed
  with entered show ?thesis by blast
qed

text \<open>Process 1 with signal 2 pending and a handler for it; its user stack page is mapped at \<open>0x400000\<close>.\<close>

definition sig_memory :: memory where
  "sig_memory = st32 (st32 (st32 (\<lambda>_. 0) 0x1004 0x2007) 0x2000 0x5007) 0x902C 0x400010"

definition sig_example :: "unit kernel" where
  "sig_example = set_mach (boot_example\<lparr>mem := sig_memory, cr3 := 0x1000\<rparr>)
     (upd_proc 1 (\<lambda>p. p\<lparr>sig_pending := 4, sig_handler := (\<lambda>_. 0)(2 := 0x500000), syscall_esp := 0x9020\<rparr>) sched_example)"

lemma sig_example_phys:
  assumes "\<And>x. x < 0x5000 \<Longrightarrow> mem m x = sig_memory x" "page_base a = 0x400000"
  shows "vmm_phys 0x1000 a m = 0x5000 + (a AND 0xFFF)" "0x5000 \<le> 0x5000 + (a AND 0xFFF)"
proof -
  have "page_base a = page_base 0x400000" using assms(2) by (simp add: page_base_def)
  then have "pd_index a = 1" "pt_index a = 0"
    unfolding same_page [symmetric] by (simp_all add: pd_index_def pt_index_def)
  moreover have "entry (mem m) 0x1000 1 = 0x2007" "entry (mem m) 0x2000 0 = 0x5007"
    by (simp_all add: entry_def entry_addr_def ld32_def assms(1)) (simp_all add: sig_memory_def st32_apply bytes_u32_def)
  ultimately show "vmm_phys 0x1000 a m = 0x5000 + (a AND 0xFFF)"
    by (simp add: vmm_phys_def present_def PAGE_PRESENT_def page_base_def Let_def)
  have "a AND 0xFFF \<le> 0xFFF" by (rule word_and_le1)
  then have "unat (a AND 0xFFF) \<le> 0xFFF" by (simp add: word_le_nat_alt)
  then show "0x5000 \<le> 0x5000 + (a AND 0xFFF)" by (simp add: word_le_nat_alt unat_word_ariths)
qed

lemma ustore_sig_example:
  assumes "\<And>x. x < 0x5000 \<Longrightarrow> mem m x = sig_memory x" "cr3 m = 0x1000" "\<And>i. i < length bs \<Longrightarrow> page_base (a + of_nat i) = 0x400000"
  shows "\<exists>m'. ustore a bs m = Some m' \<and> cr3 m' = 0x1000 \<and> (\<forall>x < 0x5000. mem m' x = sig_memory x)"
  using assms
proof (induction bs arbitrary: a m)
  case (Cons b bs)
  have "page_base a = 0x400000" using Cons.prems(3) [of 0] by simp
  note P = sig_example_phys [OF Cons.prems(1) this]
  let ?m = "upd_mem (\<lambda>mm. mm(0x5000 + (a AND 0xFFF) := b)) m"
  have "0x5000 + (a AND 0xFFF) \<noteq> 0" using P(2) by auto
  moreover have "\<exists>m'. ustore (a + 1) bs ?m = Some m' \<and> cr3 m' = 0x1000 \<and> (\<forall>x < 0x5000. mem m' x = sig_memory x)"
  proof (rule Cons.IH)
    show "mem ?m x = sig_memory x" if "x < 0x5000" for x
    proof -
      have "x \<noteq> 0x5000 + (a AND 0xFFF)" using that P(2) by (metis not_le)
      then show ?thesis using Cons.prems(1) [OF that] by simp
    qed
    show "page_base (a + 1 + of_nat i) = 0x400000" if "i < length bs" for i
      using Cons.prems(3) [of "Suc i"] that by (simp add: ac_simps)
  qed (use Cons.prems in simp)
  ultimately show ?case using P(1) Cons.prems(2) by (simp add: Let_def)
qed simp

lemma ustore32_sig_example:
  assumes "\<And>x. x < 0x5000 \<Longrightarrow> mem m x = sig_memory x" "cr3 m = 0x1000" "a = 0x400008 \<or> a = 0x40000C"
  shows "\<exists>m'. ustore32 a v m = Some m' \<and> cr3 m' = 0x1000 \<and> (\<forall>x < 0x5000. mem m' x = sig_memory x)"
  unfolding ustore32_def
proof (rule ustore_sig_example [OF assms(1,2)])
  fix i
  assume "i < length (u32_bytes v)"
  then have "i = 0 \<or> i = 1 \<or> i = 2 \<or> i = 3" by (simp add: u32_bytes_def) arith
  then show "page_base (a + of_nat i) = 0x400000" using assms(3) by (auto simp: page_base_def)
qed

theorem signal_deliver_sigreturn_roundtrip_witness:
  "\<exists>k1. signal_deliver vfs_env_example sig_example = Some (Handler_entered, k1) \<and> frame_word sig_example 11 = 0x400010 \<and>
     in_signal (curp k1) = 1 \<and>
     (\<forall>j < 13. frame_word (snd (process_sigreturn (upd_proc 1 (\<lambda>p. p\<lparr>sig_saved := sig_saved (curp k1)\<rparr>) sig_example))) j =
        frame_word sig_example j)"
proof -
  have c: "cur sig_example < process_count sig_example" "cur sig_example = 1" "in_signal (curp sig_example) = 0"
    "sig_pending (curp sig_example) = 4" "sig_blocked (curp sig_example) = 0" "sig_handler (curp sig_example) (Suc (Suc 0)) = 0x500000"
    "syscall_esp (curp sig_example) = 0x9020"
    by (simp_all add: sig_example_def sched_example_def upd_proc_def process_count_def curp_def idle_slot_def zero_process_def)
  have m: "mem (kmach sig_example) = sig_memory" "cr3 (kmach sig_example) = 0x1000" by (simp_all add: sig_example_def)
  have fw: "frame_word sig_example 11 = 0x400010"
    by (simp add: frame_word_def m c entry_def entry_addr_def ld32_def) (simp add: sig_memory_def st32_apply bytes_u32_def)
  have kl: "kload (iret_addr (upd_proc 1 f sig_example) 3) (upd_proc 1 f sig_example) = 0x400010"
    if "\<And>p. syscall_esp (f p) = syscall_esp p" for f
    using kload_frame(2) [of "upd_proc 1 f sig_example" 3] frame_word_upd [of 1 sig_example f] c that fw by simp
  obtain m1 where m1: "ustore32 0x40000C 2 (kmach sig_example) = Some m1" "cr3 m1 = 0x1000" "\<forall>x < 0x5000. mem m1 x = sig_memory x"
    using ustore32_sig_example [of "kmach sig_example" "0x40000C" 2] m by auto
  obtain m2 where m2: "ustore32 0x400008 SIGRETURN_TRAMPOLINE m1 = Some m2"
    using ustore32_sig_example [of m1 "0x400008"] m1 by blast
  have "\<exists>k1. signal_deliver vfs_env_example sig_example = Some (Handler_entered, k1)"
    using c m1 m2 kl by (simp add: signal_deliver_def signal_loop.simps enter_handler_def Let_def)
  then obtain k1 where k1: "signal_deliver vfs_env_example sig_example = Some (Handler_entered, k1)" by blast
  note R = signal_deliver_sigreturn_roundtrip [OF this c(1)]
  then show ?thesis using k1 fw c by (intro exI [of _ k1]) auto
qed

section \<open>Waiting for children\<close>

lemma first_index_None: "first_index P xs = None \<longleftrightarrow> filter P xs = []"
  by (induction xs) auto

lemma first_index_Some:
  "first_index P xs = Some i \<Longrightarrow> i < length xs \<and> P (xs ! i) \<and> filter P xs \<noteq> [] \<and> xs ! i = hd (filter P xs) \<and>
     take i xs @ drop (Suc i) xs = remove1 (hd (filter P xs)) xs"
proof (induction xs arbitrary: i)
  case (Cons x xs)
  show ?case
  proof (cases "P x")
    case False
    then obtain j where "i = Suc j" "first_index P xs = Some j" using Cons.prems by (cases "first_index P xs") auto
    with Cons.IH [of j] False show ?thesis by (auto dest: filter_eq_ConsD)
  qed (use Cons.prems in simp)
qed simp

lemma wait_status: "sint (push_bit 8 (w AND 0xFF) :: u32) = int (unat w mod 256) * 256"
proof -
  have "w AND 0xFF = take_bit 8 w" by (simp add: take_bit_eq_mask mask_eq_exp_minus_1)
  then have "unat (push_bit 8 (w AND 0xFF)) = (unat w mod 256) * 256"
    by (simp add: push_bit_eq_mult unat_word_ariths unsigned_take_bit_eq take_bit_eq_mod)
  then show ?thesis by (simp add: sint_small)
qed

lemma reap_child_effect:
  assumes "i < process_count k" "cur k < process_count k" "i \<noteq> cur k"
  shows "fst (reap_child i k) = sint (pid (procs k ! i))"
    and "procs (snd (reap_child i k)) = take i (procs k) @ drop (Suc i) (procs k)"
    and "curp (snd (reap_child i k)) = curp k" "cur (snd (reap_child i k)) < process_count (snd (reap_child i k))"
    and "next_pid (snd (reap_child i k)) = next_pid k"
  using assms
  by (auto simp: reap_child_def Let_def remove_slot_def curp_def process_count_def set_mach_def set_fsys_def nth_append min_def)

text \<open>
  (C23) \<open>process_waitpid\<close> with all its results: \<open>-ECHILD\<close> when no child matches; with children but no zombie among them, 0 under
  \<open>WNOHANG\<close> and \<open>-EAGAIN\<close> otherwise, the table unchanged; else the first zombie is reaped, its pid returned, its exit code's
  low byte stored as the second byte of the status, exactly that process leaves the table and, though
  the slots move, the caller is still the current process.
\<close>

theorem process_waitpid_correct:
  assumes "cur k < process_count k" and "pstate (curp k) \<noteq> PROC_ZOMBIE"
  shows "let kids = filter (wait_match (pid (curp k)) n) (procs k);
             zombies = filter (\<lambda>p. wait_match (pid (curp k)) n p \<and> pstate p = PROC_ZOMBIE) (procs k);
             (r, st, k') = process_waitpid n flags k
    in if kids = [] then r = - ECHILD \<and> st = None \<and> k' = k
       else if zombies = [] then r = (if flags AND 1 \<noteq> 0 then 0 else - EAGAIN) \<and> st = None \<and> k' = k
       else r = sint (pid (hd zombies)) \<and> st = Some (int (unat (exit_code (hd zombies)) mod 256) * 256) \<and>
         procs k' = remove1 (hd zombies) (procs k) \<and> curp k' = curp k \<and> cur k' < process_count k'"
proof -
  let ?P = "wait_match (pid (curp k)) n"
  let ?Z = "\<lambda>p. ?P p \<and> pstate p = PROC_ZOMBIE"
  have ex: "list_ex ?P (procs k) \<longleftrightarrow> filter ?P (procs k) \<noteq> []" by (simp add: list_ex_iff filter_empty_conv)
  show ?thesis
  proof (cases "first_index ?Z (procs k)")
    case None
    then have "filter ?Z (procs k) = []" by (simp add: first_index_None)
    then show ?thesis using None ex by (simp add: process_waitpid_def Let_def)
  next
    case (Some i)
    note F = first_index_Some [OF Some]
    have i: "i < process_count k" "i \<noteq> cur k" using F assms(2) by (auto simp: process_count_def curp_def)
    have "filter ?P (procs k) \<noteq> []" using F by (auto simp: filter_empty_conv)
    then show ?thesis
      using wait_status reap_child_effect [OF i(1) assms(1) i(2)] F Some by (simp add: process_waitpid_def Let_def split_beta)
  qed
qed

theorem process_waitpid_correct_witness:
  "pid (curp sched_example) = 1 \<and> fst (process_waitpid (-1) 0 sched_example) = 3 \<and>
   fst (snd (process_waitpid (-1) 0 sched_example)) = Some (7 * 256) \<and>
   pid (curp (snd (snd (process_waitpid (-1) 0 sched_example)))) = 1"
proof -
  have c: "cur sched_example < process_count sched_example" "pstate (curp sched_example) \<noteq> PROC_ZOMBIE" "pid (curp sched_example) = 1"
    by (simp_all add: sched_example_simps curp_def)
  have k: "filter (wait_match 1 (-1)) (procs sched_example) \<noteq> []"
    "filter (\<lambda>p. wait_match 1 (-1) p \<and> pstate p = PROC_ZOMBIE) (procs sched_example) =
       [idle_slot\<lparr>pid := 3, pstate := PROC_ZOMBIE, parent_pid := 1, exit_code := 7\<rparr>]"
    by (simp_all add: sched_example_simps wait_match_def)
  show ?thesis using process_waitpid_correct [OF c(1,2), of "-1" 0] c(3) k by (simp add: Let_def split_beta)
qed

end
