(* ===== verification/Process_Table.thy ===== *)
theory Process_Table
  imports Scheduler
begin

text \<open>
  The invariant of the process table under every operation of \<open>process.c\<close>: pids ascend with the slots and are
  never reused, a child's parent has a smaller pid, and the current slot exists.
\<close>

section \<open>The invariant\<close>

definition ids :: "'w kernel \<Rightarrow> (u32 \<times> u32) list" where
  "ids k = map (\<lambda>p. (pid p, parent_pid p)) (procs k)"

definition table_inv :: "'w kernel \<Rightarrow> bool" where
  "table_inv k \<longleftrightarrow> sorted_wrt (<) (map pid (procs k)) \<and>
     (\<forall>p\<in>set (procs k). pid p < next_pid k \<and> (parent_pid p = 0 \<or> parent_pid p < pid p)) \<and>
     cur k < process_count k \<and> process_count k \<le> MAX_PROCESSES"

lemma map_pid_ids: "map pid (procs k) = map fst (ids k)"
  by (simp add: ids_def)

lemma table_inv_ids:
  "table_inv k \<longleftrightarrow> sorted_wrt (<) (map fst (ids k)) \<and> (\<forall>(n, q)\<in>set (ids k). n < next_pid k \<and> (q = 0 \<or> q < n)) \<and>
     cur k < length (ids k) \<and> length (ids k) \<le> MAX_PROCESSES"
  by (auto simp: table_inv_def map_pid_ids process_count_def) (auto simp: ids_def)

text \<open>The three ways an operation changes the table.\<close>

lemma table_inv_same:
  "table_inv k \<Longrightarrow> ids k' = ids k \<Longrightarrow> next_pid k' = next_pid k \<Longrightarrow> cur k' < length (ids k) \<Longrightarrow> table_inv k'"
  by (simp add: table_inv_ids)

lemma table_inv_remove:
  assumes "table_inv k" "ids k' = take i (ids k) @ drop (Suc i) (ids k)" "next_pid k' = next_pid k" "cur k' < length (ids k')"
  shows "table_inv k'"
proof -
  have "sorted_wrt (<) (take i (map fst (ids k)) @ drop (Suc i) (map fst (ids k)))"
    using assms(1) unfolding table_inv_ids sorted_wrt_append
    by (auto simp: sorted_wrt_take sorted_wrt_drop set_conv_nth sorted_wrt_iff_nth_less)
  moreover have "set (ids k') \<subseteq> set (ids k)" using assms(2) by (auto dest: in_set_takeD in_set_dropD)
  moreover have "length (ids k') \<le> length (ids k)" using assms(2) by auto
  ultimately show ?thesis using assms unfolding table_inv_ids by (auto simp: take_map drop_map)
qed

lemma table_inv_add:
  assumes "table_inv k" "ids k' = ids k @ [(next_pid k, q)]" "next_pid k' = next_pid k + 1" "cur k' = cur k"
    and "next_pid k \<noteq> - 1" "q = 0 \<or> q < next_pid k" "length (ids k) < MAX_PROCESSES"
  shows "table_inv k'"
proof -
  have "next_pid k + 1 \<noteq> 0" using assms(5) by (simp add: eq_neg_iff_add_eq_0)
  then have "unat (next_pid k + 1) = Suc (unat (next_pid k))" by (simp add: unatSuc add.commute)
  then have lt: "n < next_pid k + 1" if "n \<le> next_pid k" for n using that by (simp add: word_less_nat_alt word_le_nat_alt)
  show ?thesis using assms lt by (auto simp: table_inv_ids sorted_wrt_append dest: less_imp_le)
qed

section \<open>Effect of the operations on pids\<close>

lemma ids_procs: "procs k' = procs k \<Longrightarrow> ids k' = ids k"
  by (simp add: ids_def)

lemma ids_fields [simp]:
  "ids (k\<lparr>kvfs := v\<rparr>) = ids k" "ids (k\<lparr>gs_base := g\<rparr>) = ids k" "ids (k\<lparr>cur := c\<rparr>) = ids k" "ids (k\<lparr>next_pid := n\<rparr>) = ids k"
  "ids (k\<lparr>foreground_pgid := f\<rparr>) = ids k" "ids (k\<lparr>load_ticks := t\<rparr>) = ids k" "ids (k\<lparr>avenrun := a\<rparr>) = ids k"
  "ids (set_vfs v k) = ids k" "ids (set_fsys s k) = ids k" "ids (set_mach m k) = ids k" "ids (kstore ad w k) = ids k"
  "ids (process_set_tls p k) = ids k"
  by (simp_all add: ids_def set_vfs_def set_mach_def set_fsys_def process_set_tls_def)

lemma ids_upd_proc [simp]:
  assumes "\<And>p. pid (f p) = pid p" "\<And>p. parent_pid (f p) = parent_pid p"
  shows "ids (upd_proc i f k) = ids k"
  by (cases "i < length (procs k)") (auto simp: ids_def upd_proc_def map_update assms intro: nth_equalityI simp: nth_list_update)

lemma ids_map [simp]:
  assumes "\<And>p. pid (f p) = pid p" "\<And>p. parent_pid (f p) = parent_pid p"
  shows "ids (k\<lparr>procs := map f (procs k)\<rparr>) = ids k"
  by (simp add: ids_def assms comp_def)

lemma misc_fields [simp]:
  "cur (set_vfs v k) = cur k" "next_pid (set_vfs v k) = next_pid k" "procs (set_vfs v k) = procs k"
  "cur (set_fsys s k) = cur k" "next_pid (set_fsys s k) = next_pid k" "procs (set_fsys s k) = procs k"
  "cur (process_set_tls p k) = cur k" "next_pid (process_set_tls p k) = next_pid k" "procs (process_set_tls p k) = procs k"
  by (simp_all add: set_vfs_def set_fsys_def process_set_tls_def)

lemma dec_sleep_ids [simp]: "parent_pid (dec_sleep p) = parent_pid p"
  by (simp add: dec_sleep_def)

lemma length_ids [simp]: "length (ids k) = process_count k"
  by (simp add: ids_def process_count_def)

lemma find_next_less: "s < length ps \<Longrightarrow> find_next ok ps s c = (j, d) \<Longrightarrow> j < length ps"
proof (induction ok ps s c rule: find_next.induct)
  case (1 ok ps s c)
  have "Suc s mod length ps < length ps" using 1(2) by (intro mod_less_divisor) auto
  with 1 show ?case by (cases "c < length ps \<and> \<not> ok (ps ! s)") (auto simp: find_next.simps [of ok ps s c] split: if_splits)
qed

definition same_ids :: "'w kernel \<Rightarrow> 'w kernel \<Rightarrow> bool" where
  "same_ids k k' \<longleftrightarrow> ids k' = ids k \<and> next_pid k' = next_pid k \<and> cur k' = cur k"

lemma same_ids_inv: "same_ids k k' \<Longrightarrow> table_inv k \<Longrightarrow> table_inv k'"
  by (auto simp: same_ids_def table_inv_ids)

lemma same_ids_trans [trans]: "same_ids k k' \<Longrightarrow> same_ids k' k'' \<Longrightarrow> same_ids k k''"
  by (simp add: same_ids_def)

text \<open>What one operation does to the table: nothing, one slot less, or one slot more with the next pid.\<close>

definition added :: "u32 \<Rightarrow> 'w kernel \<Rightarrow> 'w kernel \<Rightarrow> bool" where
  "added q k k' \<longleftrightarrow> ids k' = ids k @ [(next_pid k, q)] \<and> next_pid k' = next_pid k + 1 \<and> cur k' = cur k"

definition change :: "'w kernel \<Rightarrow> 'w kernel \<Rightarrow> bool" where
  "change k k' \<longleftrightarrow> cur k' < process_count k' \<and>
     (ids k' = ids k \<and> next_pid k' = next_pid k \<or>
      (\<exists>i. ids k' = take i (ids k) @ drop (Suc i) (ids k) \<and> next_pid k' = next_pid k) \<or>
      (\<exists>q. added q k k' \<and> (q = 0 \<or> q \<in> fst ` set (ids k)) \<and> next_pid k \<noteq> - 1 \<and> process_count k < MAX_PROCESSES))"

lemma change_inv:
  assumes "table_inv k" "change k k'"
  shows "table_inv k'"
proof -
  have "cur k' < length (ids k')" using assms(2) by (simp add: change_def)
  moreover have "q < next_pid k" if "q \<in> fst ` set (ids k)" for q using assms(1) that by (auto simp: table_inv_ids)
  ultimately show ?thesis
    using assms(2) table_inv_same [OF assms(1), of k'] table_inv_remove [OF assms(1), of k'] table_inv_add [OF assms(1), of k']
    unfolding change_def added_def length_ids [symmetric] by metis
qed

lemma same_ids_change: "table_inv k \<Longrightarrow> same_ids k k' \<Longrightarrow> change k k'"
  by (auto simp: change_def same_ids_def table_inv_def simp flip: length_ids)

lemma change_same: "same_ids k k0 \<Longrightarrow> change k0 k' \<Longrightarrow> change k k'"
  by (auto simp: change_def same_ids_def added_def simp flip: length_ids)

lemma change_cur: "ids k' = ids k \<Longrightarrow> next_pid k' = next_pid k \<Longrightarrow> cur k' < process_count k \<Longrightarrow> change k k'"
  by (simp add: change_def flip: length_ids)

lemma change_remove: "ids k' = take i (ids k) @ drop (Suc i) (ids k) \<Longrightarrow> next_pid k' = next_pid k \<Longrightarrow> cur k' < process_count k' \<Longrightarrow> change k k'"
  by (auto simp: change_def)

lemma same_ids_simple:
  "same_ids k (process_sleep t k)" "same_ids k (process_loadavg_tick k)" "same_ids k (snd (snd (process_sigaction sig act k)))"
  "same_ids k (snd (process_kill n sig k))" "same_ids k (snd (process_setpgid n g k))" "same_ids k (snd (process_setsid k))"
  by (auto simp: same_ids_def process_sleep_def process_loadavg_tick_def process_sigaction_def process_kill_def
      process_setpgid_def process_setsid_def Let_def split: option.splits)

lemma fold_same: "(\<And>x k. f x k = g x k \<and> same_ids k (g x k)) \<Longrightarrow> same_ids k (fold f xs k)"
  by (induction xs arbitrary: k) (auto simp: same_ids_def)

lemma same_ids_kstore_fold: "same_ids k (fold (\<lambda>i k. kstore (a k i) (v i) k) xs k)"
  by (rule fold_same [where g = "\<lambda>i k. kstore (a k i) (v i) k"]) (simp add: same_ids_def)

lemma same_ids_close: "same_ids k (fold (close_fds env) xs k)"
  by (rule fold_same [where g = "close_fds env"]) (auto simp: same_ids_def close_fds_def split: option.splits)

lemma same_ids_kpush: "kpush vs sp k = (sp', k') \<Longrightarrow> same_ids k k'"
  by (induction vs sp k rule: kpush.induct) (auto simp: same_ids_def)

lemma same_ids_start: "same_ids k (start_user_process n name k)"
proof (cases "first_index (startable n) (procs k)")
  case (Some i)
  obtain sp k' where "kpush (start_frame (procs k ! i)) (kernel_stack (procs k ! i)) k = (sp, k')" by fastforce
  then show ?thesis using same_ids_kpush Some by (simp add: start_user_process_def same_ids_def)
qed (simp add: start_user_process_def same_ids_def)

lemma same_ids_patch: "same_ids k (patch_user_frame e st k)"
  unfolding patch_user_frame_def
  by (rule same_ids_trans [OF _ same_ids_kstore_fold]) (simp add: same_ids_def)

lemma same_ids_sigreturn: "same_ids k (snd (process_sigreturn k))"
proof -
  let ?sc = "sig_saved (curp k)"
  let ?k = "kstore (iret_addr k 4) (sc_ss ?sc) (kstore (iret_addr k 3) (sc_esp ?sc) (kstore (iret_addr k 2) (sc_eflags ?sc)
                (kstore (iret_addr k 1) (sc_cs ?sc) (kstore (iret_addr k 0) (sc_eip ?sc) k))))"
  have "same_ids k (fold (\<lambda>i k. kstore (reg_addr k i) (sc_regs ?sc ! i) k) [0..<8] ?k)"
    by (rule same_ids_trans [OF _ same_ids_kstore_fold]) (simp add: same_ids_def)
  then show ?thesis by (simp add: process_sigreturn_def Let_def same_ids_def)
qed

lemma same_ids_mmap_reset: "mmap_reset k = Some k' \<Longrightarrow> same_ids k k'"
  by (auto simp: mmap_reset_def same_ids_def split: Option.bind_splits)

lemma same_ids_execve:
  assumes "process_execve env path uargv uenvp k = Some (r, k')"
  shows "same_ids k k'"
proof -
  have step: "same_ids k (upd_proc c (\<lambda>p. p\<lparr>user_code := e, user_stack := st\<rparr>) (patch_user_frame e st (set_mach m' k1)))"
    if "mmap_reset (set_mach m (set_vfs v' (set_fsys s' (set_vfs v k)))) = Some k1" for c e st m m' k1 v v' s'
    using same_ids_mmap_reset [OF that] same_ids_patch [of "set_mach m' k1" e st] by (simp add: same_ids_def)
  show ?thesis
    using assms step
    by (auto simp: process_execve_def Let_def split: Option.bind_splits option.splits prod.splits if_splits) (auto simp: same_ids_def)
qed

lemma same_ids_enter: "enter_handler sig h k = Some k' \<Longrightarrow> same_ids k k'"
  by (auto simp: enter_handler_def same_ids_def Let_def split: Option.bind_splits)

lemma change_schedule:
  assumes "table_inv k"
  shows "change k (snd (process_schedule k))" "change k (snd (process_tick k))"
proof -
  let ?ps = "map dec_sleep (procs k)"
  have "cur k < length (procs k)" using assms by (simp add: table_inv_def process_count_def)
  then have s: "(cur k + 1) mod length ?ps < length ?ps" by (intro mod_less_divisor) auto
  have f: "j < process_count k" if "find_next ok ?ps ((cur k + 1) mod process_count k) 0 = (j, d)" for ok j d
    using find_next_less [OF s] that by (simp add: process_count_def)
  have c: "process_count (k\<lparr>procs := ?ps\<rparr>) = process_count k" "cur k < process_count k"
    using assms by (simp_all add: process_count_def table_inv_def)
  show "change k (snd (process_tick k))"
    using assms f by (auto simp: process_tick_def c Let_def split: prod.splits intro!: change_cur)
  show "change k (snd (process_schedule k))"
    using assms f by (auto simp: process_schedule_def c Let_def split: prod.splits intro!: change_cur)
qed

lemma ids_remove_slot: "ids (remove_slot i k) = take i (ids k) @ drop (Suc i) (ids k)"
  by (simp add: ids_def remove_slot_def take_map drop_map)

lemma remove_slot_fields [simp]: "cur (remove_slot i k) = cur k" "next_pid (remove_slot i k) = next_pid k"
  by (simp_all add: remove_slot_def)

lemma change_reap:
  assumes "table_inv k" "i < process_count k" "i \<noteq> cur k"
  shows "change k (snd (reap_child i k))"
proof (rule change_remove [of _ i])
  have c: "cur k < process_count k" using assms(1) by (simp add: table_inv_def)
  note R = reap_child_effect [OF assms(2) c assms(3)]
  show "ids (snd (reap_child i k)) = take i (ids k) @ drop (Suc i) (ids k)" by (simp add: ids_def R(2) take_map drop_map)
qed (use reap_child_effect [OF assms(2) _ assms(3)] assms(1) in \<open>simp_all add: table_inv_def\<close>)

text \<open>A running current process is never the zombie that \<open>wait\<close> finds.\<close>

lemma zombie_not_current:
  assumes "pstate (curp k) \<noteq> PROC_ZOMBIE" "first_index P (procs k) = Some i" "\<And>p. P p \<Longrightarrow> pstate p = PROC_ZOMBIE"
  shows "i < process_count k" "i \<noteq> cur k"
  using first_index_Some [OF assms(2)] assms(1,3) by (auto simp: process_count_def curp_def)

lemma change_wait:
  assumes "table_inv k" "pstate (curp k) \<noteq> PROC_ZOMBIE"
  shows "change k (snd (process_wait k))" "change k (snd (snd (process_waitpid n flags k)))"
proof -
  show "change k (snd (process_wait k))"
  proof (cases "first_index (\<lambda>p. parent_pid p = pid (curp k) \<and> pstate p = PROC_ZOMBIE) (procs k)")
    case None
    then show ?thesis using assms(1) same_ids_change [of k] by (simp add: process_wait_def same_ids_def)
  next
    case (Some i)
    then show ?thesis using change_reap [OF assms(1)] zombie_not_current [OF assms(2) Some] by (simp add: process_wait_def)
  qed
  show "change k (snd (snd (process_waitpid n flags k)))"
  proof (cases "first_index (\<lambda>p. wait_match (pid (curp k)) n p \<and> pstate p = PROC_ZOMBIE) (procs k)")
    case None
    then show ?thesis using same_ids_change [OF assms(1), of k] by (simp add: process_waitpid_def Let_def same_ids_def)
  next
    case (Some i)
    then show ?thesis using change_reap [OF assms(1)] zombie_not_current [OF assms(2) Some]
      by (simp add: process_waitpid_def Let_def split_beta)
  qed
qed

lemma change_exit:
  assumes "table_inv k" "process_exit env k = (fl, k')" "fl \<noteq> Exit_halts"
  shows "change k k'"
proof -
  let ?k = "fold (close_fds env) [0..<16] k"
  have S: "same_ids k ?k" by (rule same_ids_close)
  have inv: "table_inv ?k" using same_ids_inv [OF S assms(1)] .
  show ?thesis
  proof (cases "parent_pid (curp ?k) > 0")
    case True
    let ?z = "upd_proc (cur ?k) (\<lambda>p. p\<lparr>pstate := PROC_ZOMBIE\<rparr>) ?k"
    have "same_ids ?k k'" using assms(2) True
      by (auto simp: process_exit_def Let_def same_ids_def split: option.splits)
    then show ?thesis using same_ids_change [OF inv] change_same [OF S] by blast
  next
    case False
    define m0 where "m0 = vmm_switch_pdir (vmm_kernel_pdir (kmach ?k)) (kmach ?k)"
    define m1 where "m1 = (if pdir (curp ?k) \<noteq> 0 \<and> pdir (curp ?k) \<noteq> vmm_kernel_pdir m0 then vmm_destroy_pdir (pdir (curp ?k)) m0 else m0)"
    define m where "m = (if kernel_stack (curp ?k) \<noteq> 0 then frame_free (kernel_stack (curp ?k) - 4096) m1 else m1)"
    define r where "r = remove_slot (cur ?k) (set_mach m ?k)"
    define c where "c = (let c = if cur r \<ge> process_count r then 0 else cur r in if c = 0 \<and> process_count r > 1 then 1 else c)"
    define t where "t = process_set_tls (procs r ! c) (r\<lparr>cur := c\<rparr>)"
    have eq: "process_exit env k = (if process_count r = 0 then (Exit_halts, r)
        else (Exit_jumps c, upd_proc c (\<lambda>q. q\<lparr>started := 1\<rparr>) (set_mach (vmm_switch_pdir (pdir (procs t ! c)) (kmach t)) t)))"
      using False unfolding process_exit_def Let_def t_def c_def r_def m_def m1_def m0_def by simp
    have "process_count r \<noteq> 0" using eq assms(2,3) by (auto split: if_splits)
    then have "c < process_count r" by (simp add: c_def Let_def)
    moreover have k': "k' = upd_proc c (\<lambda>q. q\<lparr>started := 1\<rparr>) (set_mach (vmm_switch_pdir (pdir (procs t ! c)) (kmach t)) t)"
      using eq assms(2) \<open>process_count r \<noteq> 0\<close> by simp
    have "ids k' = ids r" "next_pid k' = next_pid ?k" "cur k' = c" by (simp_all add: k' t_def r_def)
    ultimately have "change ?k k'" by (intro change_remove [of _ "cur ?k"]) (simp_all add: r_def ids_remove_slot flip: length_ids)
    then show ?thesis by (rule change_same [OF S])
  qed
qed

lemma added_change:
  assumes "added q k k'" "table_inv k" "next_pid k \<noteq> - 1" "q = 0 \<or> q = pid (curp k)" "process_count k < MAX_PROCESSES"
  shows "change k k'"
proof -
  have c: "cur k < process_count k" using assms(2) by (simp add: table_inv_def)
  then have "pid (curp k) \<in> fst ` set (ids k)" by (force simp: ids_def curp_def process_count_def)
  moreover have "process_count k' = Suc (process_count k)" using assms(1) by (simp add: added_def flip: length_ids)
  ultimately show ?thesis using assms c by (auto simp: change_def added_def)
qed

lemma create_kernel_added:
  assumes "process_create_kernel env ent k = Some k'"
  shows "added 0 k k'"
  using assms
  by (auto simp: process_create_kernel_def Let_def alloc_pid_def added_def ids_def zero_process_def split: Option.bind_splits)

lemma create_user_tail_added:
  assumes "create_user_tail env pd ent k = Some (r, k')"
  shows "same_ids k k' \<or> added 0 k k'"
  using assms
  by (auto simp: create_user_tail_def Let_def alloc_pid_def added_def same_ids_def zero_process_def split: Option.bind_splits if_splits)
     (auto simp: ids_def)

lemma create_user_added:
  assumes "process_create_user env k = Some (r, k')"
  shows "same_ids k k' \<or> added 0 k k'"
proof -
  have t: "same_ids k k' \<or> added 0 k k'"
    if "create_user_tail env pd ent (set_vfs v (set_fsys s (set_mach m (set_vfs w k)))) = Some (r, k')" for pd ent v s m w
    using create_user_tail_added [OF that] by (simp add: same_ids_def added_def)
  show ?thesis using assms t
    by (auto simp: process_create_user_def Let_def split: Option.bind_splits option.splits if_splits) (auto simp: same_ids_def)
qed

lemma fork_added:
  assumes "process_fork k = Some (r, k')"
  shows "same_ids k k' \<or> process_count k < MAX_PROCESSES \<and> added (pid (curp k)) k k'"
  using assms
  by (auto simp: process_fork_def Let_def alloc_pid_def added_def same_ids_def zero_process_def split: Option.bind_splits if_splits prod.splits)
     (auto simp: ids_def curp_def)

lemma change_signal_loop:
  "signal_loop env pend s k = Some (d, k') \<Longrightarrow> table_inv k \<Longrightarrow> d \<noteq> Terminated Exit_halts \<Longrightarrow> change k k'"
proof (induction env pend s k rule: signal_loop.induct)
  case (1 env pend s k)
  let ?k = "upd_proc (cur k) (\<lambda>p. p\<lparr>sig_pending := sig_pending p AND NOT (push_bit s 1)\<rparr>) k"
  have S: "same_ids k ?k" by (simp add: same_ids_def)
  have inv: "table_inv ?k" by (rule same_ids_inv [OF S "1.prems"(2)])
  have ex: "change k k2" if "process_exit env (upd_proc (cur k) (\<lambda>p. p\<lparr>exit_code := 128 + of_nat s\<rparr>) ?k) = (fl, k2)" "fl \<noteq> Exit_halts" for fl k2
    by (rule change_same [OF _ change_exit [OF same_ids_inv [OF _ inv] that]]) (simp_all add: same_ids_def)
  note U = signal_loop.simps [of env pend s k]
  show ?case
  proof (cases "s < 32 \<and> pend AND push_bit s 1 \<noteq> 0")
    case False
    then show ?thesis using "1.prems" "1.IH"(1) same_ids_change [of k k] by (auto simp: U same_ids_def split: if_splits)
  next
    case True
    then have s: "s < 32" "pend AND push_bit s 1 \<noteq> 0" by auto
    note IH = "1.IH"(2,3) [OF s refl refl]
    consider "sig_handler (curp ?k) s = 1" | "sig_handler (curp ?k) s = 0" "dfl_ignored s" | "sig_handler (curp ?k) s = 0" "\<not> dfl_ignored s"
      | "sig_handler (curp ?k) s \<notin> {0, 1}" by auto
    then show ?thesis
    proof cases
      case 1
      then show ?thesis using change_same [OF S IH(1)] "1.prems" inv s by (simp add: U Let_def)
    next
      case 2
      then show ?thesis using change_same [OF S IH(2)] "1.prems" inv s by (simp add: U Let_def)
    next
      case 3
      then show ?thesis using ex "1.prems" s by (auto simp: U Let_def split: prod.splits)
    next
      case 4
      then show ?thesis using change_same [OF S same_ids_change [OF inv same_ids_enter]] "1.prems" s by (auto simp: U Let_def split: Option.bind_splits)
    qed
  qed
qed

lemma change_signal_deliver:
  "signal_deliver env k = Some (d, k') \<Longrightarrow> table_inv k \<Longrightarrow> d \<noteq> Terminated Exit_halts \<Longrightarrow> change k k'"
  by (auto simp: signal_deliver_def Let_def split: if_splits intro: change_signal_loop same_ids_change simp: same_ids_def)

section \<open>All runs\<close>

text \<open>
  One operation of the kernel on its table. A zombie makes no system call, processes are created at boot while there is a free
  slot, and pids do not wrap around; \<open>process_exit\<close> of the last process halts the machine.
\<close>

inductive kernel_step :: "'w vfs_env \<Rightarrow> 'w kernel \<Rightarrow> 'w kernel \<Rightarrow> bool" for env where
  tick: "kernel_step env k (snd (process_tick k))"
| schedule: "kernel_step env k (snd (process_schedule k))"
| loadavg: "kernel_step env k (process_loadavg_tick k)"
| sleep: "kernel_step env k (process_sleep t k)"
| create_kernel: "process_create_kernel env ent k = Some k' \<Longrightarrow> next_pid k \<noteq> - 1 \<Longrightarrow> process_count k < MAX_PROCESSES \<Longrightarrow> kernel_step env k k'"
| create_user: "process_create_user env k = Some (r, k') \<Longrightarrow> next_pid k \<noteq> - 1 \<Longrightarrow> process_count k < MAX_PROCESSES \<Longrightarrow> kernel_step env k k'"
| start_user: "kernel_step env k (start_user_process n name k)"
| fork: "process_fork k = Some (r, k') \<Longrightarrow> next_pid k \<noteq> - 1 \<Longrightarrow> kernel_step env k k'"
| exit: "process_exit env k = (fl, k') \<Longrightarrow> fl \<noteq> Exit_halts \<Longrightarrow> kernel_step env k k'"
| wait: "pstate (curp k) \<noteq> PROC_ZOMBIE \<Longrightarrow> kernel_step env k (snd (process_wait k))"
| waitpid: "pstate (curp k) \<noteq> PROC_ZOMBIE \<Longrightarrow> kernel_step env k (snd (snd (process_waitpid n flags k)))"
| execve: "process_execve env path uargv uenvp k = Some (r, k') \<Longrightarrow> kernel_step env k k'"
| sigaction: "kernel_step env k (snd (snd (process_sigaction sig act k)))"
| kill: "kernel_step env k (snd (process_kill n sig k))"
| sigreturn: "kernel_step env k (snd (process_sigreturn k))"
| deliver: "signal_deliver env k = Some (d, k') \<Longrightarrow> d \<noteq> Terminated Exit_halts \<Longrightarrow> kernel_step env k k'"
| setpgid: "kernel_step env k (snd (process_setpgid n g k))"
| setsid: "kernel_step env k (snd (process_setsid k))"

lemma kernel_step_change: "kernel_step env k k' \<Longrightarrow> table_inv k \<Longrightarrow> change k k'"
proof (induction rule: kernel_step.induct)
  case (create_kernel ent k k')
  then show ?case using added_change create_kernel_added by blast
next
  case (create_user k r k')
  then show ?case using added_change create_user_added same_ids_change by blast
next
  case (fork k r k')
  then show ?case using added_change fork_added same_ids_change by blast
qed (auto intro: change_schedule change_exit change_wait change_signal_deliver same_ids_change same_ids_simple same_ids_start
    same_ids_execve same_ids_sigreturn)

text \<open>The table right after boot: the bootstrap process in slot 0.\<close>

lemma process_register_current_inv:
  "process_register_current env k = Some k' \<Longrightarrow> cur k = 0 \<Longrightarrow> next_pid k = 1 \<Longrightarrow> table_inv k'"
  by (auto simp: process_register_current_def table_inv_def process_count_def zero_process_def MAX_PROCESSES_def split: Option.bind_splits)

lemma change_pids:
  assumes "change k k'" "table_inv k"
  shows "next_pid k \<le> next_pid k'" "n < next_pid k \<Longrightarrow> n \<in> pid ` set (procs k') \<Longrightarrow> n \<in> pid ` set (procs k)"
proof -
  have pids: "pid ` set (procs k) = fst ` set (ids k)" for k :: "'a kernel" by (auto simp: ids_def image_image)
  have "next_pid k \<le> next_pid k + 1" if "next_pid k \<noteq> - 1"

  proof -
    have "next_pid k + 1 \<noteq> 0" using that by (simp add: eq_neg_iff_add_eq_0)
    then show ?thesis by (simp add: word_le_nat_alt unatSuc add.commute)
  qed
  then show "next_pid k \<le> next_pid k'" using assms(1) by (auto simp: change_def added_def)
  show "n < next_pid k \<Longrightarrow> n \<in> pid ` set (procs k') \<Longrightarrow> n \<in> pid ` set (procs k)"
  proof -
    assume n: "n < next_pid k" "n \<in> pid ` set (procs k')"
    have "set (ids k') \<subseteq> set (ids k) \<or> (\<exists>q. set (ids k') = insert (next_pid k, q) (set (ids k)))"
      using assms(1) unfolding change_def added_def by (auto dest: in_set_takeD in_set_dropD)
    then show ?thesis using n unfolding pids by fastforce
  qed
qed

text \<open>
  (C3) The process table in every run: starting from a table as it is after boot, any sequence of timer ticks, scheduling, fork,
  exec, exit, wait, signals and process group calls keeps the pids strictly ascending from slot to slot and below \<open>next_pid\<close>,
  gives every child a parent with a smaller pid (so the process tree has no cycle), keeps the current slot inside the
  table and at most 64 processes; and the pid of a process that left the table is never used again.
\<close>

theorem process_table_invariant:
  assumes "(kernel_step env)\<^sup>*\<^sup>* k k'" and "table_inv k"
  shows "table_inv k' \<and> distinct (map pid (procs k')) \<and> next_pid k \<le> next_pid k' \<and>
    (\<forall>n < next_pid k. n \<notin> pid ` set (procs k) \<longrightarrow> n \<notin> pid ` set (procs k'))"
proof -
  have "table_inv k' \<and> next_pid k \<le> next_pid k' \<and> (\<forall>n < next_pid k. n \<notin> pid ` set (procs k) \<longrightarrow> n \<notin> pid ` set (procs k'))"
    using assms
  proof (induction rule: rtranclp_induct)
    case (step k1 k2)
    then have inv: "table_inv k1" by blast
    have c: "change k1 k2" using kernel_step_change step inv by blast
    have "table_inv k2" using change_inv [OF inv c] .
    moreover have "next_pid k \<le> next_pid k2" using change_pids(1) [OF c inv] step by (meson order_trans)
    moreover have "n \<notin> pid ` set (procs k2)" if "n < next_pid k" "n \<notin> pid ` set (procs k)" for n
      using change_pids(2) [OF c inv, of n] step that by (meson less_le_trans)
    ultimately show ?case by blast
  qed simp
  moreover from this have "distinct (map pid (procs k'))" unfolding table_inv_def using strict_sorted_iff by blast
  ultimately show ?thesis by blast
qed

theorem process_table_invariant_witness:
  "table_inv sched_example \<and> (kernel_step vfs_env_example)\<^sup>*\<^sup>* sched_example (snd (snd (process_waitpid (-1) 0 (tick sched_example)))) \<and>
   table_inv (snd (snd (process_waitpid (-1) 0 (tick sched_example))))"
proof -
  have inv: "table_inv sched_example"
    by (simp add: table_inv_def sched_example_simps MAX_PROCESSES_def)
  have "pstate (curp (tick sched_example)) \<noteq> PROC_ZOMBIE"
    by (simp add: process_tick_def sched_example_simps find_next.simps Let_def curp_def)
  then have "(kernel_step vfs_env_example)\<^sup>*\<^sup>* sched_example (snd (snd (process_waitpid (-1) 0 (tick sched_example))))"
    by (meson kernel_step.tick kernel_step.waitpid converse_rtranclp_into_rtranclp rtranclp.rtrancl_refl)
  then show ?thesis using process_table_invariant [OF _ inv] inv by blast
qed

end
