(* ===== verification/Stdio.thy ===== *)
theory Stdio
  imports Kernel_Prelude
begin

text \<open>
  \<open>kernel/lib/stdio.c\<close>: number conversion and the bounded formatter \<open>ksnprintf\<close>. The output buffer is a function of the
  index, so that every store is visible; the variable arguments are a list of tagged values, and taking an argument that is
  missing or of the wrong kind, undefined in C, is \<open>None\<close>. A string argument is its bytes, or \<open>None\<close> for a null
  pointer.
\<close>

section \<open>Model\<close>

definition digits_lower :: "u8 list" where
  "digits_lower = map (of_nat \<circ> of_char) ''0123456789abcdef''"

definition digits_upper :: "u8 list" where
  "digits_upper = map (of_nat \<circ> of_char) ''0123456789ABCDEF''"

text \<open>The loop that produces digits, lowest first. Its callers pass bases from 2 to 16.\<close>

function digit_loop :: "u8 list \<Rightarrow> u32 \<Rightarrow> u32 \<Rightarrow> u8 list" where
  "digit_loop ds base v =
     (if base < 2 then []
      else ds ! unat (v mod base) # (if v div base \<noteq> 0 then digit_loop ds base (v div base) else []))"
  by pat_completeness auto
termination
proof (relation "measure (\<lambda>(ds, base, v). unat v)")
  fix ds :: "u8 list" and base v :: u32
  assume b: "\<not> base < 2" and nz: "v div base \<noteq> 0"
  have v: "0 < unat v" using nz by (metis div_0 unat_gt_0)
  moreover have "2 \<le> unat base" using b by (simp add: word_less_nat_alt)
  ultimately have "unat v div unat base < unat v" by (intro div_less_dividend) auto
  then show "((ds, base, v div base), ds, base, v) \<in> measure (\<lambda>(ds, base, v). unat v)" by (simp add: unat_div)
qed simp

declare digit_loop.simps [simp del]

definition kitoa :: "int \<Rightarrow> u32 \<Rightarrow> u8 list option" where
  "kitoa value base =
     (if base < 2 \<or> base > 16 then None
      else
        (let (sign, magnitude) = (if value < 0 \<and> base = 10 then ([45], word_of_int (- (value + 1)) + 1) else ([], word_of_int value))
         in Some (sign @ rev (digit_loop digits_lower base magnitude))))"

record sink =
  sbuf :: "nat \<Rightarrow> u8"
  spos :: u32

definition ksnprintf_putc :: "u32 \<Rightarrow> u8 \<Rightarrow> sink \<Rightarrow> sink" where
  "ksnprintf_putc sz c s =
     (let s = (if spos s + 1 < sz then s\<lparr>sbuf := (sbuf s)(unat (spos s) := c)\<rparr> else s) in s\<lparr>spos := spos s + 1\<rparr>)"

definition null_text :: "u8 list" where
  "null_text = map (of_nat \<circ> of_char) ''(null)''"

definition ksnprintf_puts :: "u32 \<Rightarrow> u8 list option \<Rightarrow> sink \<Rightarrow> sink" where
  "ksnprintf_puts sz str s = fold (ksnprintf_putc sz) (case str of None \<Rightarrow> null_text | Some str \<Rightarrow> str) s"

definition ksnprintf_put_uint :: "u32 \<Rightarrow> u32 \<Rightarrow> u32 \<Rightarrow> bool \<Rightarrow> sink \<Rightarrow> sink" where
  "ksnprintf_put_uint sz value base uppercase s =
     (let digits = (if uppercase then digits_upper else digits_lower)
      in if value = 0 then ksnprintf_putc sz 48 s
         else (let tmp = digit_loop digits base value in fold (ksnprintf_putc sz) (rev tmp) s))"

datatype karg = KInt u32 | KStr "u8 list option"

fun int_arg :: "karg list \<Rightarrow> (u32 \<times> karg list) option" where
  "int_arg (KInt w # ap) = Some (w, ap)"
| "int_arg _ = None"

fun str_arg :: "karg list \<Rightarrow> (u8 list option \<times> karg list) option" where
  "str_arg (KStr t # ap) = Some (t, ap)"
| "str_arg _ = None"

definition put_signed :: "u32 \<Rightarrow> u32 \<Rightarrow> sink \<Rightarrow> sink" where
  "put_signed sz w s =
     (let value = sint w
      in if value < 0
         then ksnprintf_put_uint sz (word_of_int (- (value + 1)) + 1) 10 False (ksnprintf_putc sz 45 s)
         else ksnprintf_put_uint sz w 10 False s)"

text \<open>One conversion: the character after the percent sign.\<close>

definition convert :: "u32 \<Rightarrow> u8 \<Rightarrow> karg list \<Rightarrow> sink \<Rightarrow> (karg list \<times> sink) option" where
  "convert sz f ap s =
     (if f = 37 then Some (ap, ksnprintf_putc sz 37 s)
      else if f = 99 then map_option (\<lambda>(w, ap). (ap, ksnprintf_putc sz (ucast w) s)) (int_arg ap)
      else if f = 115 then map_option (\<lambda>(t, ap). (ap, ksnprintf_puts sz t s)) (str_arg ap)
      else if f = 100 then map_option (\<lambda>(w, ap). (ap, put_signed sz w s)) (int_arg ap)
      else if f = 117 then map_option (\<lambda>(w, ap). (ap, ksnprintf_put_uint sz w 10 False s)) (int_arg ap)
      else if f = 120 then map_option (\<lambda>(w, ap). (ap, ksnprintf_put_uint sz w 16 False s)) (int_arg ap)
      else if f = 88 then map_option (\<lambda>(w, ap). (ap, ksnprintf_put_uint sz w 16 True s)) (int_arg ap)
      else Some (ap, ksnprintf_putc sz f (ksnprintf_putc sz 37 s)))"

fun format_loop :: "u32 \<Rightarrow> u8 list \<Rightarrow> karg list \<Rightarrow> sink \<Rightarrow> sink option" where
  "format_loop sz [] ap s = Some s"
| "format_loop sz (c # fmt) ap s =
     (if c \<noteq> 37 then format_loop sz fmt ap (ksnprintf_putc sz c s)
      else
        (case fmt of
           [] \<Rightarrow> Some s
         | f # fmt \<Rightarrow> (case convert sz f ap s of None \<Rightarrow> None | Some (ap, s) \<Rightarrow> format_loop sz fmt ap s)))"

definition ksnprintf :: "(nat \<Rightarrow> u8) option \<Rightarrow> u32 \<Rightarrow> u8 list option \<Rightarrow> karg list \<Rightarrow> (int \<times> (nat \<Rightarrow> u8) option) option" where
  "ksnprintf buf sz fmt ap =
     (if buf = None \<and> sz \<noteq> 0 then Some (-1, buf)
      else
        (case fmt of
           None \<Rightarrow> Some (-1, buf)
         | Some fmt \<Rightarrow>
             map_option (\<lambda>s.
                 let b = (if sz \<noteq> 0 then if spos s < sz then (sbuf s)(unat (spos s) := 0) else (sbuf s)(unat (sz - 1) := 0)
                          else sbuf s)
                 in (sint (spos s), map_option (\<lambda>_. b) buf))
               (format_loop sz fmt ap \<lparr>sbuf = (case buf of None \<Rightarrow> (\<lambda>_. 0) | Some b \<Rightarrow> b), spos = 0\<rparr>)))"

section \<open>Reference\<close>

text \<open>A number in positional notation, highest digit first, and the number a digit string stands for.\<close>

function positional :: "u8 list \<Rightarrow> nat \<Rightarrow> nat \<Rightarrow> u8 list" where
  "positional ds b n = (if n < b \<or> b < 2 then [ds ! n] else positional ds b (n div b) @ [ds ! (n mod b)])"
  by pat_completeness auto
termination by (relation "measure (\<lambda>(ds, b, n). n)") auto

declare positional.simps [simp del]

definition digit_value :: "u8 \<Rightarrow> nat" where
  "digit_value c = (if c \<ge> 97 then unat c - 87 else if c \<ge> 65 then unat c - 55 else unat c - 48)"

definition number_value :: "nat \<Rightarrow> u8 list \<Rightarrow> nat" where
  "number_value b cs = foldl (\<lambda>n c. n * b + digit_value c) 0 cs"

definition signed_text :: "int \<Rightarrow> u8 list" where
  "signed_text x = (if x < 0 then 45 # positional digits_lower 10 (nat (- x)) else positional digits_lower 10 (nat x))"

text \<open>The whole output of a format, without any limit.\<close>

definition expand_conversion :: "u8 \<Rightarrow> karg list \<Rightarrow> (u8 list \<times> karg list) option" where
  "expand_conversion f ap =
     (if f = 37 then Some ([37], ap)
      else if f = 99 then map_option (\<lambda>(w, ap). ([ucast w], ap)) (int_arg ap)
      else if f = 115 then map_option (\<lambda>(t, ap). (case t of None \<Rightarrow> null_text | Some t \<Rightarrow> t, ap)) (str_arg ap)
      else if f = 100 then map_option (\<lambda>(w, ap). (signed_text (sint w), ap)) (int_arg ap)
      else if f = 117 then map_option (\<lambda>(w, ap). (positional digits_lower 10 (unat w), ap)) (int_arg ap)
      else if f = 120 then map_option (\<lambda>(w, ap). (positional digits_lower 16 (unat w), ap)) (int_arg ap)
      else if f = 88 then map_option (\<lambda>(w, ap). (positional digits_upper 16 (unat w), ap)) (int_arg ap)
      else Some ([37, f], ap))"

fun expand :: "u8 list \<Rightarrow> karg list \<Rightarrow> u8 list option" where
  "expand [] ap = Some []"
| "expand (c # fmt) ap =
     (if c \<noteq> 37 then map_option (Cons c) (expand fmt ap)
      else
        (case fmt of
           [] \<Rightarrow> Some []
         | f # fmt \<Rightarrow>
             (case expand_conversion f ap of None \<Rightarrow> None | Some (t, ap) \<Rightarrow> map_option (append t) (expand fmt ap))))"

section \<open>Digits\<close>

lemma digit_loop_positional:
  "2 \<le> unat base \<Longrightarrow> rev (digit_loop ds base v) = positional ds (unat base) (unat v)"
proof (induction ds base v rule: digit_loop.induct)
  case (1 ds base v)
  have b: "\<not> base < 2" using 1(2) by (simp add: word_less_nat_alt)
  show ?case
  proof (cases "v div base = 0")
    case True
    then have "unat v div unat base = 0" by (metis unat_0 unat_div)
    then have "unat v < unat base" using 1(2) by (simp add: div_eq_0_iff)
    then show ?thesis using True b by (simp add: digit_loop.simps [of ds base v] positional.simps [of ds "unat base"] unat_mod)
  next
    case False
    then have "unat v div unat base \<noteq> 0" by (metis unat_div word_unat_eq_iff unat_0)
    then have "\<not> unat v < unat base" by auto
    then show ?thesis using 1(1) [OF b False] 1(2) b False
      by (simp add: digit_loop.simps [of ds base v] positional.simps [of ds "unat base" "unat v"] unat_mod unat_div)
  qed
qed

lemma digit_value_digits: "i < 16 \<Longrightarrow> digit_value (digits_lower ! i) = i \<and> digit_value (digits_upper ! i) = i"
proof -
  have "list_all (\<lambda>i. digit_value (digits_lower ! i) = i \<and> digit_value (digits_upper ! i) = i) [0..<16]" by code_simp
  then show "i < 16 \<Longrightarrow> digit_value (digits_lower ! i) = i \<and> digit_value (digits_upper ! i) = i" by (simp add: list_all_iff)
qed

lemma number_value_positional:
  assumes "2 \<le> b" "\<And>i. i < b \<Longrightarrow> digit_value (ds ! i) = i"
  shows "number_value b (positional ds b n) = n"
proof (induction n rule: less_induct)
  case (less n)
  show ?case
  proof (cases "n < b")
    case True
    then show ?thesis using assms by (simp add: positional.simps number_value_def)
  next
    case False
    then have "number_value b (positional ds b (n div b)) = n div b" using assms(1) by (intro less.IH) auto
    then show ?thesis using False assms by (simp add: positional.simps [of ds b n] number_value_def)
  qed
qed

section \<open>Formatting\<close>

text \<open>What a run of puts leaves behind: the text as far as it fits, and the length it would have.\<close>

definition emitted :: "u32 \<Rightarrow> u8 list \<Rightarrow> sink \<Rightarrow> sink \<Rightarrow> bool" where
  "emitted sz t s s' \<longleftrightarrow> unat (spos s') = unat (spos s) + length t \<and>
     (\<forall>i. sbuf s' i = (if unat (spos s) \<le> i \<and> i < unat (spos s) + length t \<and> i + 1 < unat sz then t ! (i - unat (spos s)) else sbuf s i))"

lemma emitted_Nil [simp]: "emitted sz [] s s"
  by (auto simp: emitted_def)

lemma emitted_append:
  assumes "emitted sz t s s1" "emitted sz u s1 s2"
  shows "emitted sz (t @ u) s s2"
  using assms by (auto simp: emitted_def nth_append diff_diff_left)

lemma emitted_putc:
  assumes "unat (spos s) + 1 < 2 ^ 32"
  shows "emitted sz [c] s (ksnprintf_putc sz c s)"
proof -
  have u: "unat (spos s + 1) = unat (spos s) + 1" using assms by (simp add: unat_word_ariths)
  then show ?thesis by (auto simp: emitted_def ksnprintf_putc_def Let_def word_less_nat_alt)
qed

lemma emitted_fold:
  "unat (spos s) + length cs < 2 ^ 32 \<Longrightarrow> emitted sz cs s (fold (ksnprintf_putc sz) cs s)"
proof (induction cs arbitrary: s)
  case (Cons c cs)
  have c: "emitted sz [c] s (ksnprintf_putc sz c s)" using Cons.prems by (intro emitted_putc) simp
  then have "unat (spos (ksnprintf_putc sz c s)) = unat (spos s) + 1" by (simp add: emitted_def)
  then have "emitted sz cs (ksnprintf_putc sz c s) (fold (ksnprintf_putc sz) cs (ksnprintf_putc sz c s))"
    using Cons.prems by (intro Cons.IH) simp
  from emitted_append [OF c this] show ?case by simp
qed simp

lemma put_uint_text:
  assumes "base = 10 \<or> base = 16"
  shows "ksnprintf_put_uint sz v base up s =
    fold (ksnprintf_putc sz) (positional (if up then digits_upper else digits_lower) (unat base) (unat v)) s"
proof (cases "v = 0")
  case True
  have "digits_upper ! 0 = 48" "digits_lower ! 0 = 48" by (simp_all add: digits_upper_def digits_lower_def)
  then show ?thesis using True assms by (auto simp: ksnprintf_put_uint_def positional.simps)
next
  case False
  have "2 \<le> unat base" using assms by auto
  then show ?thesis using False digit_loop_positional by (simp add: ksnprintf_put_uint_def Let_def)
qed

lemma unat_word_of_int: "0 \<le> x \<Longrightarrow> x < 2 ^ 32 \<Longrightarrow> unat (word_of_int x :: u32) = nat x"
  by (simp add: unat_eq_nat_uint uint_word_of_int_eq take_bit_int_eq_self)

lemma put_signed_text: "put_signed sz w s = fold (ksnprintf_putc sz) (signed_text (sint w)) s"
proof (cases "sint w < 0")
  case True
  have lo: "- (2 ^ 31) \<le> sint w" using sint_ge [of w] by simp
  have "word_of_int (- (x + 1)) + 1 = (word_of_int (- x) :: u32)" for x by simp
  moreover have "unat (word_of_int (- sint w) :: u32) = nat (- sint w)" using True lo by (intro unat_word_of_int) simp_all
  ultimately show ?thesis using True by (simp add: put_signed_def Let_def put_uint_text signed_text_def)
next
  case False
  have "sint w < 2 ^ 31" using sint_lt [of w] by simp
  then have "unat w = nat (sint w)" using unat_word_of_int [of "sint w"] False by simp
  then show ?thesis using False by (simp add: put_signed_def put_uint_text signed_text_def)
qed

lemma convert_expand:
  "convert sz f ap s = map_option (\<lambda>(t, ap). (ap, fold (ksnprintf_putc sz) t s)) (expand_conversion f ap)"
  by (cases "int_arg ap"; cases "str_arg ap")
     (auto simp: convert_def expand_conversion_def put_signed_text put_uint_text ksnprintf_puts_def)

lemma format_loop_emits:
  "expand fmt ap = Some t \<Longrightarrow> unat (spos s) + length t < 2 ^ 32 \<Longrightarrow> \<exists>s'. format_loop sz fmt ap s = Some s' \<and> emitted sz t s s'"
proof (induction fmt ap arbitrary: t s rule: expand.induct)
  case (2 c fmt ap)
  have next_pos: "unat (spos s1) = unat (spos s) + length u" if "emitted sz u s s1" for u s1 using that by (simp add: emitted_def)
  show ?case
  proof (cases "c = 37")
    case False
    then obtain t' where t': "expand fmt ap = Some t'" "t = c # t'" using 2(3) by auto
    have e: "emitted sz [c] s (ksnprintf_putc sz c s)" using 2(4) t' by (intro emitted_putc) simp
    then obtain s' where "format_loop sz fmt ap (ksnprintf_putc sz c s) = Some s'" "emitted sz t' (ksnprintf_putc sz c s) s'"
      using 2(1) [OF False t'(1), of "ksnprintf_putc sz c s"] next_pos [OF e] 2(4) t'(2) by auto
    then show ?thesis using False emitted_append [OF e] t'(2) by auto
  next
    case True
    show ?thesis
    proof (cases fmt)
      case Nil
      then show ?thesis using True 2(3) by simp
    next
      case (Cons f fmt')
      then obtain u ap' t' where u: "expand_conversion f ap = Some (u, ap')" "expand fmt' ap' = Some t'" "t = u @ t'"
        using 2(3) True by (auto split: option.splits)
      let ?s = "fold (ksnprintf_putc sz) u s"
      have e: "emitted sz u s ?s" using 2(4) u(3) by (intro emitted_fold) simp
      obtain s' where "format_loop sz fmt' ap' ?s = Some s'" "emitted sz t' ?s s'"
        using 2(2) [OF _ Cons u(1) refl u(2), of ?s] True next_pos [OF e] 2(4) u(3) by auto
      moreover have "convert sz f ap s = Some (ap', ?s)" using u(1) by (simp add: convert_expand)
      ultimately show ?thesis using True Cons emitted_append [OF e] u(3) by auto
    qed
  qed
qed simp

text \<open>
  (C37) The bounded formatter agrees with the unlimited expansion of the format: \<open>ksnprintf\<close> returns the length of the whole text, stores exactly
  its first \<open>sz - 1\<close> characters followed by a NUL, stores nothing at or after index \<open>sz\<close>, and with \<open>sz = 0\<close> stores
  nothing at all.
\<close>

theorem ksnprintf_correct:
  assumes "expand fmt ap = Some t" and "length t < 2 ^ 31"
  shows "\<exists>b'. ksnprintf (Some b) sz (Some fmt) ap = Some (int (length t), Some b') \<and>
    (let n = min (length t) (unat sz - 1)
     in if sz = 0 then b' = b else (\<forall>i < n. b' i = t ! i) \<and> b' n = 0 \<and> (\<forall>i > n. b' i = b i))"
proof -
  let ?s0 = "\<lparr>sbuf = b, spos = 0\<rparr>"
  obtain s where s: "format_loop sz fmt ap ?s0 = Some s" "emitted sz t ?s0 s"
    using format_loop_emits [OF assms(1), of ?s0 sz] assms(2) by auto
  then have pos: "unat (spos s) = length t" and buf: "\<And>i. sbuf s i = (if i < length t \<and> i + 1 < unat sz then t ! i else b i)"
    by (simp_all add: emitted_def)
  have "sint (spos s) = int (length t)" using sint_small [of "spos s"] pos assms(2) by simp
  moreover have z: "sz \<noteq> 0 \<Longrightarrow> unat (sz - 1) = unat sz - 1 \<and> 0 < unat sz" by (simp add: unat_minus_one unat_gt_0)
  ultimately have r: "ksnprintf (Some b) sz (Some fmt) ap = Some (int (length t), Some (if sz \<noteq> 0 then (sbuf s)(min (length t) (unat sz - 1) := 0) else sbuf s))"
    using s(1) pos by (auto simp: ksnprintf_def word_less_nat_alt min_def)
  have "0 < unat sz" if "sz \<noteq> 0" using that by (simp add: unat_gt_0)
  then show ?thesis using r buf
    by (intro exI [of _ "if sz \<noteq> 0 then (sbuf s)(min (length t) (unat sz - 1) := 0) else sbuf s"]) (auto simp: Let_def fun_eq_iff)
qed

definition format_example :: "u8 list" where "format_example = map (of_nat \<circ> of_char) ''pid %d''"

theorem ksnprintf_correct_witness:
  "\<exists>b'. ksnprintf (Some (\<lambda>_. 1)) 7 (Some format_example) [KInt (- 42)] = Some (7, Some b') \<and>
     map b' [0..<7] = map (of_nat \<circ> of_char) ''pid -4'' @ [0] \<and> b' 7 = 1"
proof -
  let ?t = "map (of_nat \<circ> of_char) ''pid -42'' :: u8 list"
  have e: "expand format_example [KInt (- 42)] = Some ?t"
    by (simp add: format_example_def expand_conversion_def signed_text_def positional.simps digits_lower_def)
  show ?thesis using ksnprintf_correct [OF e, of "\<lambda>_. 1" 7] by (auto simp: upt_rec Let_def)
qed

text \<open>
  Numbers read back: what \<open>kitoa\<close> writes for a 32-bit value in a base from 2 to 16 stands for the value, with a minus sign for a
  negative decimal one (the smallest \<open>int\<close> included) and for its residue modulo \<open>2 ^ 32\<close> in the other bases; other
  bases are refused.
\<close>

lemma kitoa_roundtrip:
  assumes "- (2 ^ 31) \<le> value" and "value < 2 ^ 31"
  shows "case kitoa value base of
      None \<Rightarrow> base < 2 \<or> base > 16
    | Some cs \<Rightarrow> 2 \<le> base \<and> base \<le> 16 \<and> cs \<noteq> [] \<and>
        (if base = 10 \<and> value < 0 then hd cs = 45 \<and> int (number_value 10 (tl cs)) = - value
         else int (number_value (unat base) cs) = value mod 2 ^ 32)"
proof (cases "base < 2 \<or> base > 16")
  case True
  then show ?thesis by (simp add: kitoa_def)
next
  case False
  then have b: "2 \<le> unat base" "unat base \<le> 16" "2 \<le> base" "base \<le> 16" by (auto simp: word_less_nat_alt word_le_nat_alt not_less)
  have v: "number_value (unat base) (rev (digit_loop digits_lower base m)) = unat m" for m
    using b digit_value_digits by (simp add: digit_loop_positional number_value_positional)
  have ne: "digit_loop digits_lower base m \<noteq> []" for m using b(3) by (simp add: digit_loop.simps not_less)
  have neg: "unat (word_of_int (- (value + 1)) + 1 :: u32) = nat (- value)" if "value < 0"
  proof -
    have "word_of_int (- (value + 1)) + 1 = (word_of_int (- value) :: u32)" by simp
    then show ?thesis using unat_word_of_int [of "- value"] that assms(1) by (simp only:) simp
  qed
  have pos: "int (unat (word_of_int value :: u32)) = value mod 2 ^ 32"
    by (simp add: uint_word_of_int_eq take_bit_eq_mod)
  show ?thesis
  proof (cases "value < 0 \<and> base = 10")
    case True
    then show ?thesis using b neg v [of "word_of_int (- (value + 1)) + 1"] False by (simp add: kitoa_def)
  next
    case F: False
    then have "kitoa value base = Some (rev (digit_loop digits_lower base (word_of_int value)))" using False by (auto simp: kitoa_def)
    then show ?thesis using F b v [of "word_of_int value"] ne pos by auto
  qed
qed

lemma kitoa_roundtrip_witness:
  "\<exists>cs. kitoa (- 2147483648) 10 = Some (45 # cs) \<and> number_value 10 cs = 2147483648"
proof -
  obtain cs where cs: "kitoa (- 2147483648) 10 = Some cs" by (simp add: kitoa_def)
  then show ?thesis using kitoa_roundtrip [of "- 2147483648" 10] by (cases cs) auto
qed

end
