(* ===== verification/Procfs.thy ===== *)
theory Procfs
  imports Process_Table Stdio
begin

text \<open>
  \<open>kernel/fs/procfs.c\<close>: the files of \<open>/proc\<close> and its directory. The texts are made by \<open>ksnprintf\<close>; \<open>cpuid\<close> stands for the
  instruction of that name (its four result registers for a leaf) and \<open>cpuid_max\<close> for \<open>__get_cpuid_max\<close>. The buffer of
  \<open>meminfo\<close> is static, so it keeps what an earlier, longer text left after a shorter one.
\<close>

section \<open>Texts\<close>

definition PROC_INO_BASE :: u32 where "PROC_INO_BASE = 100"
definition PROC_VERSION_LEN :: u32 where "PROC_VERSION_LEN = 16"
definition PROC_MEMINFO_LEN :: u32 where "PROC_MEMINFO_LEN = 512"
definition PROC_CPUINFO_LEN :: u32 where "PROC_CPUINFO_LEN = 1536"
definition KERNEL_VERSION :: "u8 list" where "KERNEL_VERSION = bytes_of ''0.0.1'' @ [10]"

record procfs =
  cpuinfo_buf :: "nat \<Rightarrow> u8"
  meminfo_buf :: "nat \<Rightarrow> u8"

definition ktext :: "u32 \<Rightarrow> u8 list \<Rightarrow> karg list \<Rightarrow> (nat \<Rightarrow> u8) \<Rightarrow> nat \<Rightarrow> u8" where
  "ktext sz fmt ap b = (case ksnprintf (Some b) sz (Some fmt) ap of Some (r, Some b) \<Rightarrow> b | _ \<Rightarrow> b)"

definition buf_str :: "u32 \<Rightarrow> (nat \<Rightarrow> u8) \<Rightarrow> u8 list" where
  "buf_str sz b = takeWhile (\<lambda>c. c \<noteq> 0) (map b [0..<unat sz])"

record cpu_regs =
  r_eax :: u32
  r_ebx :: u32
  r_ecx :: u32
  r_edx :: u32

definition edx_flags :: "(nat \<times> u8 list) list" where
  "edx_flags = map (\<lambda>(b, n). (b, bytes_of n))
     [(0, ''fpu''), (1, ''vme''), (2, ''de''), (3, ''pse''), (4, ''tsc''), (5, ''msr''), (6, ''pae''), (7, ''mce''), (8, ''cx8''),
      (9, ''apic''), (11, ''sep''), (12, ''mtrr''), (13, ''pge''), (14, ''mca''), (15, ''cmov''), (16, ''pat''), (17, ''pse36''),
      (19, ''clflush''), (23, ''mmx''), (24, ''fxsr''), (25, ''sse''), (26, ''sse2''), (28, ''ht'')]"

definition ecx_flags :: "(nat \<times> u8 list) list" where
  "ecx_flags = map (\<lambda>(b, n). (b, bytes_of n))
     [(0, ''pni''), (1, ''pclmulqdq''), (9, ''ssse3''), (13, ''cx16''), (19, ''sse4_1''), (20, ''sse4_2''), (22, ''movbe''),
      (23, ''popcnt''), (25, ''aes''), (26, ''xsave''), (30, ''rdrand''), (31, ''hypervisor'')]"

text \<open>\<open>flags\<close> is the C string in the 512-byte buffer.\<close>

definition add_flags :: "u32 \<Rightarrow> (nat \<times> u8 list) list \<Rightarrow> u8 list \<Rightarrow> u8 list" where
  "add_flags reg tab flags =
     fold (\<lambda>(b, name) flags.
       if reg AND push_bit b 1 \<noteq> 0 then
         (let len = of_nat (length flags)
          in flags @ buf_str (512 - len) (ktext (512 - len) (bytes_of ''%s%s'')
               [KStr (Some (if len \<noteq> 0 then [32] else [])), KStr (Some name)] (\<lambda>_. 0)))
       else flags) tab flags"

definition unknown :: "u8 list" where "unknown = bytes_of ''unknown''"

definition cpuinfo_fmt :: "u8 list" where
  "cpuinfo_fmt = bytes_of ''processor'' @ [9] @ bytes_of '': 0'' @ [10] @ bytes_of ''vendor_id'' @ [9] @ bytes_of '': %s'' @ [10] @
     bytes_of ''cpu family'' @ [9] @ bytes_of '': %u'' @ [10] @ bytes_of ''model'' @ [9, 9] @ bytes_of '': %u'' @ [10] @
     bytes_of ''model name'' @ [9] @ bytes_of '': %s'' @ [10] @ bytes_of ''stepping'' @ [9] @ bytes_of '': %u'' @ [10] @
     bytes_of ''flags'' @ [9, 9] @ bytes_of '': %s'' @ [10, 10]"

definition cpuinfo_init :: "(u32 \<Rightarrow> cpu_regs) \<Rightarrow> (u32 \<Rightarrow> u32) \<Rightarrow> procfs \<Rightarrow> procfs" where
  "cpuinfo_init cpuid cpuid_max s =
     (let r0 = cpuid 0; r1 = cpuid 1; a = r_eax r1; base_family = drop_bit 8 a AND 15;
          str = takeWhile (\<lambda>c. c \<noteq> 0);
          (vendor, family, model, stepping, flags, brand) =
            (if cpuid_max 0 \<noteq> 0 then
               (str (u32_bytes (r_ebx r0) @ u32_bytes (r_edx r0) @ u32_bytes (r_ecx r0)),
                base_family + (if base_family = 15 then drop_bit 20 a AND 255 else 0),
                (drop_bit 4 a AND 15) OR (if base_family = 6 \<or> base_family = 15 then push_bit 4 (drop_bit 16 a AND 15) else 0),
                a AND 15,
                add_flags (r_ecx r1) ecx_flags (add_flags (r_edx r1) edx_flags []),
                if cpuid_max 0x80000000 \<ge> 0x80000004
                then str (concat (map (\<lambda>i. let r = cpuid (0x80000002 + i)
                       in u32_bytes (r_eax r) @ u32_bytes (r_ebx r) @ u32_bytes (r_ecx r) @ u32_bytes (r_edx r)) [0, 1, 2]))
                else unknown)
             else (unknown, 0, 0, 0, [], unknown));
          name = dropWhile (\<lambda>c. c = 32) brand
      in s\<lparr>cpuinfo_buf := ktext PROC_CPUINFO_LEN cpuinfo_fmt
             [KStr (Some vendor), KInt family, KInt model, KStr (Some (if name \<noteq> [] then name else unknown)), KInt stepping, KStr (Some flags)]
             (cpuinfo_buf s)\<rparr>)"

definition procfs_read_text :: "u8 list \<Rightarrow> u32 \<Rightarrow> u32 \<Rightarrow> int \<times> u8 list" where
  "procfs_read_text text off count =
     (let len = of_nat (length text)
      in if off \<ge> len then (0, [])
         else (let n = len - off; n = (if n > count then count else n) in (sint n, take (unat n) (drop (unat off) text))))"

text \<open>Reading from a fixed-size buffer, as \<open>meminfo\<close> and \<open>version\<close> do.\<close>

definition read_fixed :: "u32 \<Rightarrow> (nat \<Rightarrow> u8) \<Rightarrow> u32 \<Rightarrow> u32 \<Rightarrow> int \<times> u8 list" where
  "read_fixed len b off count =
     (let n = len - off; n = (if n > count then count else n) in (sint n, map (\<lambda>i. b (unat off + i)) [0..<unat n]))"

definition meminfo_fmt :: "u8 list" where
  "meminfo_fmt = bytes_of ''MemTotal:       %u kB'' @ [10] @ bytes_of ''MemFree:        %u kB'' @ [10] @ bytes_of ''MemUsed:        %u kB'' @ [10]"

definition loadavg_fmt :: "u8 list" where
  "loadavg_fmt = bytes_of ''%u.%s%u %u.%s%u %u.%s%u %u/%u %u'' @ [10]"

definition loadavg_args :: "loadavg \<Rightarrow> karg list" where
  "loadavg_args info =
     concat (map (\<lambda>a. [KInt (a div 100), KStr (Some (if a mod 100 < 10 then [48] else [])), KInt (a mod 100)]) (la_avg info)) @
     [KInt (la_runnable info), KInt (la_total info), KInt (la_last_pid info)]"

definition version_buf :: "nat \<Rightarrow> u8" where
  "version_buf i = (if i < length KERNEL_VERSION then KERNEL_VERSION ! i else 0)"

definition procfs_read :: "(nat \<Rightarrow> u32) \<Rightarrow> inode \<Rightarrow> u32 \<Rightarrow> u32 \<Rightarrow> 'w kernel \<Rightarrow> procfs \<Rightarrow> (int \<times> u8 list) \<times> procfs" where
  "procfs_read ino ip off count k s =
     (if itype ip \<noteq> T_FILE \<or> ibackend ip \<noteq> INODE_PROCFS then ((-1, []), s)
      else if ino 0 = inum ip then (procfs_read_text (buf_str PROC_CPUINFO_LEN (cpuinfo_buf s)) off count, s)
      else if ino 1 = inum ip then
        if off \<ge> PROC_MEMINFO_LEN then ((0, []), s)
        else
          (let info = pmm_get_info (frames (kmach k)) \<lparr>info_total = 0, info_free = 0, info_used = 0, info_reserved = 0\<rparr>;
               kb = (\<lambda>b :: u64. ucast (b div 1024));
               s = s\<lparr>meminfo_buf := ktext PROC_MEMINFO_LEN meminfo_fmt
                     [KInt (kb (info_total info)), KInt (kb (info_free info)), KInt (kb (info_used info))] (meminfo_buf s)\<rparr>
           in (read_fixed PROC_MEMINFO_LEN (meminfo_buf s) off count, s))
      else if ino 2 = inum ip then
        (procfs_read_text (buf_str 128 (ktext 128 loadavg_fmt (loadavg_args (process_get_loadavg k)) (\<lambda>_. 0))) off count, s)
      else if ino 3 = inum ip then
        if off \<ge> PROC_VERSION_LEN then ((0, []), s) else (read_fixed PROC_VERSION_LEN version_buf off count, s)
      else ((0, []), s))"

section \<open>The directory\<close>

definition PROC_ENTRY_COUNT :: u32 where "PROC_ENTRY_COUNT = 6"

definition proc_dirent :: "u32 \<Rightarrow> u8 list \<Rightarrow> u32 \<Rightarrow> u32 \<Rightarrow> dirent" where
  "proc_dirent n name type cookie = \<lparr>de_inum = n, de_off = cookie + 1, de_type = type, de_name = name @ replicate (32 - length name) 0\<rparr>"

text \<open>The result code, the new cookie and the entry.\<close>

definition procfs_readdir :: "(nat \<Rightarrow> u32) \<Rightarrow> inode \<Rightarrow> u32 \<Rightarrow> 'w kernel \<Rightarrow> int \<times> u32 \<times> dirent" where
  "procfs_readdir ino dir cookie k =
     (if itype dir \<noteq> T_DIR \<or> ibackend dir \<noteq> INODE_PROCFS then (-1, cookie, empty_dirent)
      else if cookie = 0 then (1, cookie + 1, proc_dirent (inum dir) dot T_DIR cookie)
      else if cookie = 1 then (1, cookie + 1, proc_dirent ROOTINO dotdot T_DIR cookie)
      else if cookie = 2 then (1, cookie + 1, proc_dirent (ino 0) cpuinfo_name T_FILE cookie)
      else if cookie = 3 then (1, cookie + 1, proc_dirent (ino 1) meminfo_name T_FILE cookie)
      else if cookie = 4 then (1, cookie + 1, proc_dirent (ino 2) loadavg_name T_FILE cookie)
      else if cookie = 5 then (1, cookie + 1, proc_dirent (ino 3) version_name T_FILE cookie)
      else
        (let index = cookie - PROC_ENTRY_COUNT
         in if index < word_of_int (process_get_count k) then
              (case process_get_info (pid (procs k ! unat index)) k of
                 None \<Rightarrow> (-1, cookie, empty_dirent)
               | Some info \<Rightarrow>
                   (case kitoa (sint (pi_pid info)) 10 of
                      None \<Rightarrow> (-1, cookie, empty_dirent)
                    | Some name \<Rightarrow> (1, cookie + 1, proc_dirent (PROC_INO_BASE + pi_pid info) name T_DIR cookie)))
            else (0, cookie, empty_dirent)))"

text \<open>
  \<open>fs_procfs_init\<close>; the second result are the inode numbers stored from \<open>proc_inum\<close> on. The loop runs \<open>PROC_ENTRY_COUNT - PROC_DOTDOT\<close>,
  that is five, times although the array has four elements.
\<close>

fun init_inodes :: "nat \<Rightarrow> u32 \<Rightarrow> u32 list \<Rightarrow> 'w vfs \<Rightarrow> u32 list \<times> 'w vfs" where
  "init_inodes 0 proc ns v = (ns, v)"
| "init_inodes (Suc n) proc ns v =
     (case vfs_ialloc T_FILE v of
        (None, v) \<Rightarrow> (ns, v)
      | (Some i, v) \<Rightarrow>
          (let v = upd_node i (\<lambda>nd. nd\<lparr>ibackend := INODE_PROCFS, parent := inum (node v proc)\<rparr>) v
           in init_inodes n proc (ns @ [inum (node v i)]) v))"

definition proc_path :: "u8 list" where "proc_path = bytes_of ''/proc''"

definition fs_procfs_init :: "'w vfs_env \<Rightarrow> (u32 \<Rightarrow> cpu_regs) \<Rightarrow> (u32 \<Rightarrow> u32) \<Rightarrow> procfs \<Rightarrow> 'w vfs \<Rightarrow> (procfs \<times> u32 list \<times> 'w vfs) option" where
  "fs_procfs_init env cpuid cpuid_max s v = do {
     let s = cpuinfo_init cpuid cpuid_max s;
     (_, v) \<leftarrow> vfs_mkdir_at env None proc_path v;
     (p, v) \<leftarrow> namei env proc_path v;
     (case p of
        None \<Rightarrow> Some (s, [], v)
      | Some proc \<Rightarrow>
          (let v = upd_node proc (\<lambda>nd. nd\<lparr>ibackend := INODE_PROCFS, parent := ROOTINO\<rparr>) v; (ns, v) = init_inodes 5 proc [] v
           in Some (s, ns, v)))
   }"

end
