(* ===== verification/Syscall.thy ===== *)
theory Syscall
  imports Console Procfs
begin

text \<open>
  \<open>kernel/task/syscall.c\<close>: the system calls. The registers are words; what the user pointers point to is given by a view of
  user memory (\<open>user_mem\<close>), and what a call stores at a user address is part of its outcome, as a list of addresses and
  bytes. \<open>uninit\<close> is the uninitialised stack variable of \<open>dirunlink\<close>. A call that does not come back to its caller
  says so: the process ended, or the machine was asked to stop.
\<close>

section \<open>Numbers\<close>

definition SYS_READ :: u32 where "SYS_READ = 0"
definition SYS_WRITE :: u32 where "SYS_WRITE = 1"
definition SYS_EXIT :: u32 where "SYS_EXIT = 2"
definition SYS_SLEEP :: u32 where "SYS_SLEEP = 3"
definition SYS_FORK :: u32 where "SYS_FORK = 4"
definition SYS_EXECVE :: u32 where "SYS_EXECVE = 5"
definition SYS_WAIT :: u32 where "SYS_WAIT = 6"
definition SYS_RESTART_SYSCALL :: u32 where "SYS_RESTART_SYSCALL = 7"
definition SYS_OPEN :: u32 where "SYS_OPEN = 8"
definition SYS_CLOSE :: u32 where "SYS_CLOSE = 9"
definition SYS_WAITPID :: u32 where "SYS_WAITPID = 10"
definition SYS_CREAT :: u32 where "SYS_CREAT = 11"
definition SYS_LINK :: u32 where "SYS_LINK = 12"
definition SYS_UNLINK :: u32 where "SYS_UNLINK = 13"
definition SYS_SETUID :: u32 where "SYS_SETUID = 14"
definition SYS_GETUID :: u32 where "SYS_GETUID = 15"
definition SYS_SHUTDOWN :: u32 where "SYS_SHUTDOWN = 16"
definition SYS_POWEROFF :: u32 where "SYS_POWEROFF = 17"
definition SYS_CLEAR :: u32 where "SYS_CLEAR = 18"
definition SYS_GETCHAR :: u32 where "SYS_GETCHAR = 19"
definition SYS_VGASPACE :: u32 where "SYS_VGASPACE = 20"
definition SYS_GETPID :: u32 where "SYS_GETPID = 21"
definition SYS_GET_PROCESS_INFO :: u32 where "SYS_GET_PROCESS_INFO = 22"
definition SYS_GET_PROCESS_COUNT :: u32 where "SYS_GET_PROCESS_COUNT = 23"
definition SYS_LSEEK :: u32 where "SYS_LSEEK = 24"
definition SYS_STAT :: u32 where "SYS_STAT = 25"
definition SYS_FSTAT :: u32 where "SYS_FSTAT = 26"
definition SYS_MKDIR :: u32 where "SYS_MKDIR = 27"
definition SYS_GETDENTS :: u32 where "SYS_GETDENTS = 28"
definition SYS_DUP :: u32 where "SYS_DUP = 29"
definition SYS_MMAP :: u32 where "SYS_MMAP = 30"
definition SYS_MUNMAP :: u32 where "SYS_MUNMAP = 31"
definition SYS_SET_TLS :: u32 where "SYS_SET_TLS = 32"
definition SYS_RENAME :: u32 where "SYS_RENAME = 33"
definition SYS_RMDIR :: u32 where "SYS_RMDIR = 34"
definition SYS_FTRUNCATE :: u32 where "SYS_FTRUNCATE = 35"
definition SYS_DUP2 :: u32 where "SYS_DUP2 = 36"
definition SYS_CHMOD :: u32 where "SYS_CHMOD = 37"
definition SYS_FCHMOD :: u32 where "SYS_FCHMOD = 38"
definition SYS_CHDIR :: u32 where "SYS_CHDIR = 39"
definition SYS_GETCWD :: u32 where "SYS_GETCWD = 40"
definition SYS_OPENAT :: u32 where "SYS_OPENAT = 41"
definition SYS_STATAT :: u32 where "SYS_STATAT = 42"
definition SYS_UNLINKAT :: u32 where "SYS_UNLINKAT = 43"
definition SYS_MKDIRAT :: u32 where "SYS_MKDIRAT = 44"
definition SYS_RENAMEAT :: u32 where "SYS_RENAMEAT = 45"
definition SYS_LINKAT :: u32 where "SYS_LINKAT = 46"
definition SYS_PIPE :: u32 where "SYS_PIPE = 47"
definition SYS_KILL :: u32 where "SYS_KILL = 48"
definition SYS_SIGACTION :: u32 where "SYS_SIGACTION = 49"
definition SYS_SIGPROCMASK :: u32 where "SYS_SIGPROCMASK = 50"
definition SYS_SETPGID :: u32 where "SYS_SETPGID = 52"
definition SYS_GETPGID :: u32 where "SYS_GETPGID = 53"
definition SYS_GETSID :: u32 where "SYS_GETSID = 54"
definition SYS_SETSID :: u32 where "SYS_SETSID = 55"
definition SYS_TCGETPGRP :: u32 where "SYS_TCGETPGRP = 56"
definition SYS_TCSETPGRP :: u32 where "SYS_TCSETPGRP = 57"
definition SYS_TTYGETMODE :: u32 where "SYS_TTYGETMODE = 58"
definition SYS_TTYSETMODE :: u32 where "SYS_TTYSETMODE = 59"
definition SYS_REBOOT :: u32 where "SYS_REBOOT = 60"

section \<open>Calls\<close>

definition EBADF :: int where "EBADF = 9"
definition EMFILE :: int where "EMFILE = 24"
definition AT_FDCWD_K :: int where "AT_FDCWD_K = -100"
definition AT_REMOVEDIR_K :: u32 where "AT_REMOVEDIR_K = 0x200"
definition SEEK_CUR :: int where "SEEK_CUR = 1"
definition SEEK_END :: int where "SEEK_END = 2"

record user_mem =
  u_str :: "u32 \<Rightarrow> u8 list"
  u_vec :: "u32 \<Rightarrow> u8 list list"
  u_word :: "u32 \<Rightarrow> u32"
  u_bytes :: "u32 \<Rightarrow> nat \<Rightarrow> u8 list"

datatype outcome = Ret int "(u32 \<times> u8 list) list" | Ended exit_flow | Halted | Reset

abbreviation ret :: "int \<Rightarrow> 'w kernel \<Rightarrow> (outcome \<times> 'w kernel) option" where
  "ret r k \<equiv> Some (Ret r [], k)"

definition cur_fds :: "'w kernel \<Rightarrow> fds" where
  "cur_fds k = pfds (curp k)"

definition set_fds :: "fds \<Rightarrow> 'w kernel \<Rightarrow> 'w kernel" where
  "set_fds t k = upd_proc (cur k) (\<lambda>p. p\<lparr>pfds := t\<rparr>) k"

definition path_base :: "int \<Rightarrow> 'w kernel \<Rightarrow> int + u32 option" where
  "path_base dirfd k =
     (if dirfd = AT_FDCWD_K then Inr None
      else
        (case fdget (cur_fds k) dirfd of
           None \<Rightarrow> Inl EBADF
         | Some f \<Rightarrow>
             (case fip (ftable (kvfs k) f) of
                None \<Rightarrow> Inl EBADF
              | Some i \<Rightarrow> if itype (node (kvfs k) i) \<noteq> T_DIR then Inl ENOTDIR else Inr (Some i))))"

definition clear_errno :: "'w kernel \<Rightarrow> 'w kernel" where
  "clear_errno k = set_vfs (set_errno 0 (kvfs k)) k"

text \<open>The result of a VFS call: 0, or the negative errno it recorded.\<close>

definition vfs_result :: "(int \<times> 'w vfs) option \<Rightarrow> 'w kernel \<Rightarrow> (outcome \<times> 'w kernel) option" where
  "vfs_result x k = do {
     (r, v) \<leftarrow> x;
     let k = set_vfs v k;
     ret (if r < 0 then - fs_error (kvfs k) else 0) k
   }"

definition with_base :: "int \<Rightarrow> 'w kernel \<Rightarrow> (u32 option \<Rightarrow> (outcome \<times> 'w kernel) option) \<Rightarrow> (outcome \<times> 'w kernel) option" where
  "with_base dirfd k f = (case path_base dirfd k of Inl e \<Rightarrow> ret (- e) k | Inr base \<Rightarrow> f base)"

definition sys_read :: "'w vfs_env \<Rightarrow> int \<Rightarrow> u32 \<Rightarrow> int \<Rightarrow> 'w kernel \<Rightarrow> (outcome \<times> 'w kernel) option" where
  "sys_read env fd buf n k =
     (case fdget (cur_fds k) fd of
        None \<Rightarrow> ret (-1) k
      | Some f \<Rightarrow> do { (r, bs, v) \<leftarrow> fileread env f n (kvfs k); Some (Ret r [(buf, bs)], set_vfs v k) })"

definition sys_write :: "'w vfs_env \<Rightarrow> int \<Rightarrow> u8 list \<Rightarrow> int \<Rightarrow> 'w kernel \<Rightarrow> (outcome \<times> 'w kernel) option" where
  "sys_write env fd bs n k =
     (case fdget (cur_fds k) fd of
        None \<Rightarrow> ret (-1) k
      | Some f \<Rightarrow> do { (r, v) \<leftarrow> filewrite env f bs n (kvfs k); ret r (set_vfs v k) })"

definition sys_open :: "'w vfs_env \<Rightarrow> u32 option \<Rightarrow> u8 list \<Rightarrow> u32 \<Rightarrow> 'w kernel \<Rightarrow> (outcome \<times> 'w kernel) option" where
  "sys_open env base path flags k = do {
     let k = clear_errno k;
     (f, v) \<leftarrow> vfs_open_at env base path flags (kvfs k);
     let k = set_vfs v k;
     (case f of
        None \<Rightarrow> ret (- fs_error (kvfs k)) k
      | Some f \<Rightarrow>
          (let (fd, t) = fdalloc (cur_fds k) f; k = set_fds t k
           in if fd < 0 then ret (- EMFILE) (set_vfs (fileclose env f (kvfs k)) k) else ret fd k))
   }"

definition sys_close :: "'w vfs_env \<Rightarrow> int \<Rightarrow> 'w kernel \<Rightarrow> (outcome \<times> 'w kernel) option" where
  "sys_close env fd k = (let (t, v) = fdclose env (cur_fds k) fd (kvfs k) in ret 0 (set_vfs v (set_fds t k)))"

definition sys_fchmod :: "int \<Rightarrow> u32 \<Rightarrow> 'w kernel \<Rightarrow> (outcome \<times> 'w kernel) option" where
  "sys_fchmod fd m k =
     (case fdget (cur_fds k) fd of
        None \<Rightarrow> ret (- EBADF) k
      | Some f \<Rightarrow>
          (case fip (ftable (kvfs k) f) of
             None \<Rightarrow> ret (- EBADF) k
           | Some i \<Rightarrow> ret 0 (set_vfs (upd_node i (\<lambda>nd. nd\<lparr>mode := ucast m AND 0xFFF\<rparr>) (kvfs k)) k)))"

definition sys_lseek :: "int \<Rightarrow> int \<Rightarrow> int \<Rightarrow> 'w kernel \<Rightarrow> (outcome \<times> 'w kernel) option" where
  "sys_lseek fd off whence k =
     (case fdget (cur_fds k) fd of
        None \<Rightarrow> ret (-1) k
      | Some f \<Rightarrow>
          (let x = ftable (kvfs k) f
           in if ftype x \<noteq> FD_INODE then ret (-1) k
              else do {
                base \<leftarrow> (if whence = SEEK_CUR then Some (sint (foff x))
                  else if whence = SEEK_END then map_option (\<lambda>i. sint (isize (node (kvfs k) i))) (fip x) else Some 0);
                let newoff = sint (word_of_int (base + off) :: u32);
                if newoff < 0 then ret (-1) k
                else ret newoff (set_vfs (upd_file f (\<lambda>y. y\<lparr>foff := word_of_int newoff\<rparr>) (kvfs k)) k)
              }))"

definition sys_dup :: "int \<Rightarrow> 'w kernel \<Rightarrow> (outcome \<times> 'w kernel) option" where
  "sys_dup fd k =
     (case fdget (cur_fds k) fd of
        None \<Rightarrow> ret (-1) k
      | Some f \<Rightarrow> (let k = set_vfs (filedup f (kvfs k)) k; (nfd, t) = fdalloc (cur_fds k) f in ret nfd (set_fds t k)))"

definition sys_dup2 :: "'w vfs_env \<Rightarrow> int \<Rightarrow> int \<Rightarrow> 'w kernel \<Rightarrow> (outcome \<times> 'w kernel) option" where
  "sys_dup2 env oldfd newfd k =
     (case fdget (cur_fds k) oldfd of
        None \<Rightarrow> ret (- EBADF) k
      | Some f \<Rightarrow>
          if oldfd = newfd then ret newfd k
          else if newfd < 0 \<or> newfd \<ge> FD_MAX then ret (- EBADF) k
          else
            (let (t, v) = fdclose env (cur_fds k) newfd (kvfs k)
             in ret newfd (set_vfs (filedup f v) (set_fds (t(nat newfd \<mapsto> f)) k))))"

definition sys_pipe :: "'w vfs_env \<Rightarrow> u32 \<Rightarrow> 'w kernel \<Rightarrow> (outcome \<times> 'w kernel) option" where
  "sys_pipe env ufds k = do {
     (e, v) \<leftarrow> vfs_pipe env (kvfs k);
     let k = set_vfs v k;
     (case e of
        Inl e \<Rightarrow> ret e k
      | Inr (rfd, wfd) \<Rightarrow>
          (let (fd0, t) = fdalloc (cur_fds k) rfd; k = set_fds t k;
               (fd1, t) = fdalloc (cur_fds k) wfd; k = set_fds t k
           in if fd0 < 0 \<or> fd1 < 0 then
                (let k = (if fd0 \<ge> 0 then (let (t, v) = fdclose env (cur_fds k) fd0 (kvfs k) in set_vfs v (set_fds t k))
                          else set_vfs (fileclose env rfd (kvfs k)) k);
                     k = (if fd1 \<ge> 0 then (let (t, v) = fdclose env (cur_fds k) fd1 (kvfs k) in set_vfs v (set_fds t k))
                          else set_vfs (fileclose env wfd (kvfs k)) k)
                 in ret (- EMFILE) k)
              else Some (Ret 0 [(ufds, u32_bytes (word_of_int fd0)), (ufds + 4, u32_bytes (word_of_int fd1))], k)))
   }"

text \<open>\<open>mmap\<close>: map and clear one page after the other, through the caller's page tables.\<close>

definition mmap_page :: "u32 \<Rightarrow> u32 \<Rightarrow> u32 \<Rightarrow> machine \<Rightarrow> (bool \<times> machine) option" where
  "mmap_page pd base i m = do {
     let va = base + i * 0x1000;
     (p, m) \<leftarrow> vmm_alloc_at pd va m;
     if p = 0 then Some (False, m) else do { m \<leftarrow> ustore va (replicate 0x1000 0) m; Some (True, m) }
   }"

definition sys_mmap :: "u32 \<Rightarrow> 'w kernel \<Rightarrow> (outcome \<times> 'w kernel) option" where
  "sys_mmap len k =
     (if len = 0 then ret (-1) k
      else do {
        let pages = (len + 0xFFF) div 0x1000;
        let base = mmap_next (curp k);
        (ok, m) \<leftarrow> loop_u32 (mmap_page (pdir (curp k)) base) 0 pages (kmach k);
        let k = set_mach m k;
        if \<not> ok then ret (-1) k
        else ret (sint base) (upd_proc (cur k) (\<lambda>p. p\<lparr>mmap_next := base + pages * 0x1000\<rparr>) k)
      })"

text \<open>
  The two loops of \<open>getdents\<close>: the records copied so far and the offset of the file; the second is for \<open>/proc\<close>, where
  the result code of an error is returned when nothing was copied.
\<close>

partial_function (option) getdents_loop :: "u32 \<Rightarrow> int \<Rightarrow> u32 \<Rightarrow> u8 list \<Rightarrow> memfs \<Rightarrow> (u8 list \<times> u32) option" where
  [code]: "getdents_loop i mx off w s =
     (if off + sizeof_dirent \<le> isize (inode_table s i) \<and> int (length w) + 44 \<le> mx then
        (let (r, bs) = readi i off sizeof_dirent s
         in if r \<noteq> 44 then Some (w, off)
            else
              (let off = off + sizeof_dirent; de = dirent_of_bytes bs
               in if de_inum de = 0 then getdents_loop i mx off w s
                  else getdents_loop i mx off (w @ bytes_of_dirent (de\<lparr>de_off := off\<rparr>)) s))
      else Some (w, off))"

function getdents_proc :: "(nat \<Rightarrow> u32) \<Rightarrow> inode \<Rightarrow> int \<Rightarrow> u32 \<Rightarrow> nat \<Rightarrow> u8 list \<Rightarrow> 'w kernel \<Rightarrow> int \<times> u8 list \<times> u32" where
  "getdents_proc ino dir mx off n w k =
     (if int n + 44 \<le> mx then
        (let (r, cookie, de) = procfs_readdir ino dir off k
         in if r \<le> 0 then (if r < 0 \<and> n = 0 then - EIO else int n, w, off)
            else getdents_proc ino dir mx cookie (n + 44) (w @ bytes_of_dirent (de\<lparr>de_off := cookie\<rparr>)) k)
      else (int n, w, off))"
  by pat_completeness auto
termination by (relation "measure (\<lambda>(ino, dir, mx, off, n, w, k). nat (mx - int n))") auto

declare getdents_proc.simps [simp del]

definition sys_getdents :: "'w vfs_env \<Rightarrow> int \<Rightarrow> u32 \<Rightarrow> int \<Rightarrow> 'w kernel \<Rightarrow> (outcome \<times> 'w kernel) option" where
  "sys_getdents env fd ubuf mx k =
     (case fdget (cur_fds k) fd of
        None \<Rightarrow> ret (- EBADF) k
      | Some f \<Rightarrow>
          (let x = ftable (kvfs k) f; seek = (\<lambda>off. set_vfs (upd_file f (\<lambda>y. y\<lparr>foff := off\<rparr>) (kvfs k)) k)
           in case fip x of
                None \<Rightarrow> ret (- ENOTDIR) k
              | Some i \<Rightarrow>
                  if itype (node (kvfs k) i) \<noteq> T_DIR then ret (- ENOTDIR) k
                  else if ibackend (node (kvfs k) i) = INODE_PROCFS then
                    (let (r, w, off) = getdents_proc (proc_inum (fsenv env)) (node (kvfs k) i) mx (foff x) 0 [] k
                     in Some (Ret r [(ubuf, w)], seek off))
                  else do {
                    (w, off) \<leftarrow> getdents_loop i mx (foff x) [] (fsys (kvfs k));
                    Some (Ret (int (length w)) [(ubuf, w)], seek off)
                  }))"

definition sys_ftruncate :: "'w vfs_env \<Rightarrow> int \<Rightarrow> u32 \<Rightarrow> 'w kernel \<Rightarrow> (outcome \<times> 'w kernel) option" where
  "sys_ftruncate env fd sz k =
     (case fdget (cur_fds k) fd of
        None \<Rightarrow> ret (- EBADF) k
      | Some f \<Rightarrow> (let k = clear_errno k in vfs_result (filetruncate env f sz (kvfs k)) k))"

definition bytes_of_stat :: "stat \<Rightarrow> u8 list" where
  "bytes_of_stat st = u32_bytes (st_ino st) @ u16_bytes (st_type st) @ u16_bytes (st_mode st) @ u32_bytes (st_nlink st) @
     u32_bytes (st_size st) @ u32_bytes (st_dev st)"

definition sys_fstat :: "int \<Rightarrow> u32 \<Rightarrow> 'w kernel \<Rightarrow> (outcome \<times> 'w kernel) option" where
  "sys_fstat fd buf k =
     (case fdget (cur_fds k) fd of
        None \<Rightarrow> ret (- EBADF) k
      | Some f \<Rightarrow>
          (case filestat f (kvfs k) of None \<Rightarrow> ret (-1) k | Some st \<Rightarrow> Some (Ret 0 [(buf, bytes_of_stat st)], k)))"

definition sys_statat :: "'w vfs_env \<Rightarrow> u32 option \<Rightarrow> u8 list \<Rightarrow> u32 \<Rightarrow> 'w kernel \<Rightarrow> (outcome \<times> 'w kernel) option" where
  "sys_statat env base path buf k = do {
     let k = clear_errno k;
     (st, v) \<leftarrow> vfs_stat_at env base path (kvfs k);
     let k = set_vfs v k;
     (case st of None \<Rightarrow> ret (- fs_error (kvfs k)) k | Some st \<Rightarrow> Some (Ret 0 [(buf, bytes_of_stat st)], k))
   }"

definition sys_stat :: "'w vfs_env \<Rightarrow> u8 list \<Rightarrow> u32 \<Rightarrow> 'w kernel \<Rightarrow> (outcome \<times> 'w kernel) option" where
  "sys_stat env path buf k = do {
     let k = clear_errno k;
     (t, v) \<leftarrow> namei env path (kvfs k);
     let k = set_vfs v k;
     (case t of
        None \<Rightarrow> ret (- fs_error (kvfs k)) k
      | Some i \<Rightarrow> Some (Ret 0 [(buf, bytes_of_stat (stati i (fsys (kvfs k))))], k))
   }"

definition sys_getcwd :: "u32 \<Rightarrow> u32 \<Rightarrow> 'w kernel \<Rightarrow> (outcome \<times> 'w kernel) option" where
  "sys_getcwd buf sz k =
     (let k = clear_errno k; (r, bs, v) = vfs_getcwd sz (kvfs k); k = set_vfs v k
      in if r < 0 then ret (- fs_error (kvfs k)) k else Some (Ret 0 [(buf, bs)], k))"

text \<open>The calls that clear \<open>fs_errno\<close>, call the VFS and report its error.\<close>

definition path_call :: "('w vfs \<Rightarrow> (int \<times> 'w vfs) option) \<Rightarrow> 'w kernel \<Rightarrow> (outcome \<times> 'w kernel) option" where
  "path_call f k = (let k = clear_errno k in vfs_result (f (kvfs k)) k)"

definition sys_exit :: "'w vfs_env \<Rightarrow> u32 \<Rightarrow> 'w kernel \<Rightarrow> (outcome \<times> 'w kernel) option" where
  "sys_exit env code k =
     (let (fl, k) = process_exit env (upd_proc (cur k) (\<lambda>p. p\<lparr>exit_code := code\<rparr>) k)
      in Some (if fl = Exit_returns then Ret 0 [] else Ended fl, k))"

definition sys_waitpid :: "int \<Rightarrow> u32 \<Rightarrow> u32 \<Rightarrow> 'w kernel \<Rightarrow> (outcome \<times> 'w kernel) option" where
  "sys_waitpid n flags status k =
     (let (r, st, k) = process_waitpid n flags k
      in Some (Ret r (case st of None \<Rightarrow> [] | Some w \<Rightarrow> if status \<noteq> 0 then [(status, u32_bytes (word_of_int w))] else []), k))"

definition sys_sigaction :: "user_mem \<Rightarrow> int \<Rightarrow> u32 \<Rightarrow> u32 \<Rightarrow> 'w kernel \<Rightarrow> (outcome \<times> 'w kernel) option" where
  "sys_sigaction um sig act old k =
     (let (r, w, k) = process_sigaction sig (if act \<noteq> 0 then Some (u_word um act) else None) k
      in Some (Ret r (case w of None \<Rightarrow> [] | Some w \<Rightarrow> if old \<noteq> 0 then [(old, u32_bytes w)] else []), k))"

definition sys_get_process_info :: "u32 \<Rightarrow> u32 \<Rightarrow> 'w kernel \<Rightarrow> (outcome \<times> 'w kernel) option" where
  "sys_get_process_info n buf k =
     (case process_get_info n k of
        None \<Rightarrow> ret (-1) k
      | Some info \<Rightarrow>
          Some (Ret 0 [(buf, u32_bytes (pi_pid info) @ u32_bytes (pi_parent_pid info) @ u32_bytes (pi_state info) @
                  u32_bytes (pi_exit_code info) @ pi_name info @ [0])], k))"

section \<open>Stopping the machine\<close>

text \<open>\<open>drivers/platform/reboot.c\<close>: the messages, and what the machine does next. Powering off only disables interrupts and returns.\<close>

definition announce :: "char list \<Rightarrow> u8 list \<Rightarrow> 'w machine_state \<Rightarrow> 'w machine_state option" where
  "announce str rest s = map_option (\<lambda>c. s\<lparr>con := c\<rparr>) (print (bytes_of str @ rest) 0 (con s))"

definition machine_power_off :: "'w machine_state \<Rightarrow> (outcome \<times> 'w machine_state) option" where
  "machine_power_off s = do { s \<leftarrow> announce ''machine power off.'' [] s; Some (Ret 0 [], s) }"

definition machine_shutdown :: "'w machine_state \<Rightarrow> (outcome \<times> 'w machine_state) option" where
  "machine_shutdown s = do { s \<leftarrow> announce ''machine shutdown.'' [] s; Some (Halted, s) }"

definition machine_halt :: "'w machine_state \<Rightarrow> (outcome \<times> 'w machine_state) option" where
  "machine_halt s = do { s \<leftarrow> announce ''machine halt.'' [] s; Some (Halted, s) }"

definition machine_restart :: "'w machine_state \<Rightarrow> (outcome \<times> 'w machine_state) option" where
  "machine_restart s = do {
     s \<leftarrow> announce ''machine restart.'' [] s;
     s \<leftarrow> announce ''restart load.'' [10] s;
     Some (Reset, s)
   }"

section \<open>The handler\<close>

definition on_kern :: "('w kernel \<Rightarrow> (outcome \<times> 'w kernel) option) \<Rightarrow> 'w machine_state \<Rightarrow> (outcome \<times> 'w machine_state) option" where
  "on_kern f s = map_option (\<lambda>(r, k). (r, s\<lparr>kern := k\<rparr>)) (f (kern s))"

definition returning :: "(int \<times> 'w kernel) option \<Rightarrow> (outcome \<times> 'w kernel) option" where
  "returning = map_option (\<lambda>(r, k). (Ret r [], k))"

text \<open>The calls on files and paths, by their number.\<close>

definition file_call :: "'w vfs_env \<Rightarrow> u32 \<Rightarrow> user_mem \<Rightarrow> u32 \<Rightarrow> u32 \<Rightarrow> u32 \<Rightarrow> u32 \<Rightarrow> u32 \<Rightarrow>
    ('w kernel \<Rightarrow> (outcome \<times> 'w kernel) option)" where
  "file_call env uninit um eax ebx ecx edx esi k =
     (if eax = SYS_READ then sys_read env (sint ebx) ecx (sint edx) k
      else if eax = SYS_WRITE then sys_write env (sint ebx) (u_bytes um ecx (nat (sint edx))) (sint edx) k
      else if eax = SYS_OPEN then sys_open env None (u_str um ebx) ecx k
      else if eax = SYS_CLOSE then sys_close env (sint ebx) k
      else if eax = SYS_CREAT then sys_open env None (u_str um ebx) (O_CREAT OR O_WRONLY OR O_TRUNC) k
      else if eax = SYS_UNLINK then path_call (vfs_unlink_at env uninit None (u_str um ebx)) k
      else if eax = SYS_RMDIR then path_call (vfs_rmdir_at env uninit None (u_str um ebx)) k
      else if eax = SYS_RENAME then path_call (vfs_rename_at env uninit None (u_str um ebx) None (u_str um ecx)) k
      else if eax = SYS_LINK then path_call (vfs_link_at env None (u_str um ebx) None (u_str um ecx)) k
      else if eax = SYS_CHMOD then path_call (vfs_chmod_at env None (u_str um ebx) (ucast ecx)) k
      else if eax = SYS_FCHMOD then sys_fchmod (sint ebx) ecx k
      else if eax = SYS_CHDIR then path_call (vfs_chdir env (u_str um ebx)) k
      else if eax = SYS_GETCWD then sys_getcwd ebx ecx k
      else if eax = SYS_OPENAT then with_base (sint ebx) k (\<lambda>b. sys_open env b (u_str um ecx) edx k)
      else if eax = SYS_STATAT then with_base (sint ebx) k (\<lambda>b. sys_statat env b (u_str um ecx) edx k)
      else if eax = SYS_UNLINKAT then
        with_base (sint ebx) k (\<lambda>b. path_call
          ((if edx AND AT_REMOVEDIR_K \<noteq> 0 then vfs_rmdir_at else vfs_unlink_at) env uninit b (u_str um ecx)) k)
      else if eax = SYS_MKDIRAT then with_base (sint ebx) k (\<lambda>b. path_call (vfs_mkdir_at env b (u_str um ecx)) k)
      else if eax = SYS_RENAMEAT then
        with_base (sint ebx) k (\<lambda>ob. with_base (sint edx) k (\<lambda>nb.
          path_call (vfs_rename_at env uninit ob (u_str um ecx) nb (u_str um esi)) k))
      else if eax = SYS_LINKAT then
        with_base (sint ebx) k (\<lambda>ob. with_base (sint edx) k (\<lambda>nb.
          path_call (vfs_link_at env ob (u_str um ecx) nb (u_str um esi)) k))
      else if eax = SYS_LSEEK then sys_lseek (sint ebx) (sint ecx) (sint edx) k
      else if eax = SYS_STAT then sys_stat env (u_str um ebx) ecx k
      else if eax = SYS_FSTAT then sys_fstat (sint ebx) ecx k
      else if eax = SYS_MKDIR then path_call (vfs_mkdir_at env None (u_str um ebx)) k
      else if eax = SYS_GETDENTS then sys_getdents env (sint ebx) ecx (sint edx) k
      else if eax = SYS_FTRUNCATE then sys_ftruncate env (sint ebx) ecx k
      else if eax = SYS_DUP2 then sys_dup2 env (sint ebx) (sint ecx) k
      else if eax = SYS_DUP then sys_dup (sint ebx) k
      else if eax = SYS_PIPE then sys_pipe env ebx k
      else ret 0 k)"

text \<open>The calls on processes, signals and memory.\<close>

definition process_call :: "'w vfs_env \<Rightarrow> user_mem \<Rightarrow> u32 \<Rightarrow> u32 \<Rightarrow> u32 \<Rightarrow> u32 \<Rightarrow> ('w kernel \<Rightarrow> (outcome \<times> 'w kernel) option)" where
  "process_call env um eax ebx ecx edx k =
     (if eax = SYS_EXIT then sys_exit env ebx k
      else if eax = SYS_FORK then returning (process_fork k)
      else if eax = SYS_SLEEP then ret 0 (if ebx > 0 then process_sleep ebx k else k)
      else if eax = SYS_EXECVE then returning (process_execve env (u_str um ebx) (u_vec um ecx) (u_vec um edx) k)
      else if eax = SYS_WAIT then returning (Some (process_wait k))
      else if eax = SYS_WAITPID then sys_waitpid (sint ebx) ecx edx k
      else if eax = SYS_KILL then returning (Some (process_kill (sint ebx) (sint ecx) k))
      else if eax = SYS_SIGACTION then sys_sigaction um (sint ebx) ecx edx k
      else if eax = SYS_SIGPROCMASK then Some (Ret 0 (if edx \<noteq> 0 then [(edx, u32_bytes 0)] else []), k)
      else if eax = SYS_SIGRETURN then returning (Some (process_sigreturn k))
      else if eax = SYS_SETPGID then returning (Some (process_setpgid (sint ebx) (sint ecx) k))
      else if eax = SYS_GETPGID then ret (process_getpgid (sint ebx) k) k
      else if eax = SYS_GETSID then ret (process_getsid (sint ebx) k) k
      else if eax = SYS_SETSID then returning (Some (process_setsid k))
      else if eax = SYS_TCGETPGRP then ret (foreground_pgid k) k
      else if eax = SYS_TCSETPGRP then ret 0 (k\<lparr>foreground_pgid := sint ebx\<rparr>)
      else if eax = SYS_MMAP then sys_mmap ecx k
      else if eax = SYS_MUNMAP then ret 0 k
      else if eax = SYS_SET_TLS then ret 0 ((upd_proc (cur k) (\<lambda>p. p\<lparr>tls_base := ebx\<rparr>) k)\<lparr>gs_base := ebx\<rparr>)
      else if eax = SYS_SETUID \<or> eax = SYS_GETUID then ret 0 k
      else if eax = SYS_GETPID then ret (process_current_pid k) k
      else if eax = SYS_GET_PROCESS_COUNT then ret (process_get_count k) k
      else if eax = SYS_GET_PROCESS_INFO then sys_get_process_info ebx ecx k
      else ret 0 k)"

text \<open>The calls on the console and the machine.\<close>

definition console_call :: "u32 \<Rightarrow> u32 \<Rightarrow> 'w machine_state \<Rightarrow> (outcome \<times> 'w machine_state) option" where
  "console_call eax ebx s =
     (if eax = SYS_TTYGETMODE then Some (Ret (terminal_mode (tty (con s))) [], s)
      else if eax = SYS_TTYSETMODE then
        Some (Ret 0 [], s\<lparr>con := (con s)\<lparr>tty := terminal_set_mode (sint ebx) (tty (con s))\<rparr>\<rparr>)
      else if eax = SYS_RESTART_SYSCALL then machine_restart s
      else if eax = SYS_SHUTDOWN then machine_shutdown s
      else if eax = SYS_POWEROFF then machine_power_off s
      else if eax = SYS_CLEAR then Some (Ret 0 [], s\<lparr>con := clear_screen (con s)\<rparr>)
      else if eax = SYS_GETCHAR then map_option (\<lambda>(c, s). (Ret (sint c) [], s)) (console_getchar s)
      else if eax = SYS_VGASPACE then map_option (\<lambda>s. (Ret 0 [], s)) (say [8, 32, 8] s)
      else if eax = SYS_REBOOT then
        if ebx = 0x1234567 then machine_restart s
        else if ebx = 0xcdef0123 then machine_halt s
        else if ebx = 0x4321fedc then machine_shutdown s
        else Some (Ret 0 [], s)
      else Some (Ret 0 [], s))"

definition file_calls :: "u32 list" where
  "file_calls = [SYS_READ, SYS_WRITE, SYS_OPEN, SYS_CLOSE, SYS_CREAT, SYS_UNLINK, SYS_RMDIR, SYS_RENAME, SYS_LINK, SYS_CHMOD,
     SYS_FCHMOD, SYS_CHDIR, SYS_GETCWD, SYS_OPENAT, SYS_STATAT, SYS_UNLINKAT, SYS_MKDIRAT, SYS_RENAMEAT, SYS_LINKAT, SYS_LSEEK,
     SYS_STAT, SYS_FSTAT, SYS_MKDIR, SYS_GETDENTS, SYS_FTRUNCATE, SYS_DUP2, SYS_DUP, SYS_PIPE]"

definition console_calls :: "u32 list" where
  "console_calls = [SYS_TTYGETMODE, SYS_TTYSETMODE, SYS_RESTART_SYSCALL, SYS_SHUTDOWN, SYS_POWEROFF, SYS_CLEAR, SYS_GETCHAR,
     SYS_VGASPACE, SYS_REBOOT]"

definition syscall_handler :: "'w vfs_env \<Rightarrow> u32 \<Rightarrow> user_mem \<Rightarrow> u32 \<Rightarrow> u32 \<Rightarrow> u32 \<Rightarrow> u32 \<Rightarrow> u32 \<Rightarrow>
    'w machine_state \<Rightarrow> (outcome \<times> 'w machine_state) option" where
  "syscall_handler env uninit um eax ebx ecx edx esi s =
     (if eax \<in> set file_calls then on_kern (file_call env uninit um eax ebx ecx edx esi) s
      else if eax \<in> set console_calls then console_call eax ebx s
      else on_kern (process_call env um eax ebx ecx edx) s)"

end
