(* ===== verification/Mlibc.thy ===== *)
theory Mlibc
  imports Syscall "HOL-Library.Monad_Syntax"
begin

text \<open>
  \<open>ports/mlibc/sysdeps/muxos\<close>: the hooks through which the user-space C library reaches the kernel. A user program is its memory
  together with what is behind the instruction \<open>int 0x80\<close>, a parameter \<open>trap\<close> that may read and change the memory and a
  state of its own; \<open>None\<close> is a call that does not come back. Macros of the C library's headers, which are not part of
  these sources, are a parameter \<open>c\<close> that maps their names to values. A hook returns an error number, zero on success; an
  output parameter is a part of the result, \<open>None\<close> when the hook does not set it. A local buffer whose address goes to the kernel
  is a parameter of the hook.
\<close>

section \<open>System calls from user code\<close>

type_synonym 's user = "memory \<times> 's"
type_synonym 's trap = "u32 \<Rightarrow> u32 \<Rightarrow> u32 \<Rightarrow> u32 \<Rightarrow> u32 \<Rightarrow> u32 \<Rightarrow> 's user \<Rightarrow> (u32 \<times> 's user) option"
type_synonym abi = "string \<Rightarrow> u32"

definition muxos_syscall :: "'s trap \<Rightarrow> u32 \<Rightarrow> u32 \<Rightarrow> u32 \<Rightarrow> u32 \<Rightarrow> u32 \<Rightarrow> u32 \<Rightarrow> 's user \<Rightarrow> (u32 \<times> 's user) option" where
  "muxos_syscall t sc a1 a2 a3 a4 a5 u = t sc a1 a2 a3 a4 a5 u"

definition do_syscall0 :: "'s trap \<Rightarrow> u32 \<Rightarrow> 's user \<Rightarrow> (u32 \<times> 's user) option" where
  "do_syscall0 t sc u = muxos_syscall t sc 0 0 0 0 0 u"

definition do_syscall1 :: "'s trap \<Rightarrow> u32 \<Rightarrow> u32 \<Rightarrow> 's user \<Rightarrow> (u32 \<times> 's user) option" where
  "do_syscall1 t sc a1 u = muxos_syscall t sc a1 0 0 0 0 u"

definition do_syscall2 :: "'s trap \<Rightarrow> u32 \<Rightarrow> u32 \<Rightarrow> u32 \<Rightarrow> 's user \<Rightarrow> (u32 \<times> 's user) option" where
  "do_syscall2 t sc a1 a2 u = muxos_syscall t sc a1 a2 0 0 0 u"

definition do_syscall3 :: "'s trap \<Rightarrow> u32 \<Rightarrow> u32 \<Rightarrow> u32 \<Rightarrow> u32 \<Rightarrow> 's user \<Rightarrow> (u32 \<times> 's user) option" where
  "do_syscall3 t sc a1 a2 a3 u = muxos_syscall t sc a1 a2 a3 0 0 u"

definition do_syscall4 :: "'s trap \<Rightarrow> u32 \<Rightarrow> u32 \<Rightarrow> u32 \<Rightarrow> u32 \<Rightarrow> u32 \<Rightarrow> 's user \<Rightarrow> (u32 \<times> 's user) option" where
  "do_syscall4 t sc a1 a2 a3 a4 u = muxos_syscall t sc a1 a2 a3 a4 0 u"

definition do_syscall5 :: "'s trap \<Rightarrow> u32 \<Rightarrow> u32 \<Rightarrow> u32 \<Rightarrow> u32 \<Rightarrow> u32 \<Rightarrow> u32 \<Rightarrow> 's user \<Rightarrow> (u32 \<times> 's user) option" where
  "do_syscall5 t sc a1 a2 a3 a4 a5 u = muxos_syscall t sc a1 a2 a3 a4 a5 u"

definition do_syscall6 :: "'s trap \<Rightarrow> u32 \<Rightarrow> u32 \<Rightarrow> u32 \<Rightarrow> u32 \<Rightarrow> u32 \<Rightarrow> u32 \<Rightarrow> u32 \<Rightarrow> 's user \<Rightarrow> (u32 \<times> 's user) option" where
  "do_syscall6 t sc a1 a2 a3 a4 a5 a6 u = muxos_syscall t sc a1 a2 a3 a4 a5 u"

definition do_syscall_ret :: "u32 \<Rightarrow> int" where
  "do_syscall_ret r = sint r"

text \<open>The overloads of \<open>syscall\<close>, by the number of arguments.\<close>

definition sys_ret :: "(u32 \<times> 's user) option \<Rightarrow> (int \<times> 's user) option" where
  "sys_ret x = map_option (\<lambda>(r, u). (do_syscall_ret r, u)) x"

fun syscall :: "'s trap \<Rightarrow> u32 \<Rightarrow> u32 list \<Rightarrow> 's user \<Rightarrow> (int \<times> 's user) option" where
  "syscall t n [] u = sys_ret (do_syscall0 t n u)"
| "syscall t n [a] u = sys_ret (do_syscall1 t n a u)"
| "syscall t n [a, b] u = sys_ret (do_syscall2 t n a b u)"
| "syscall t n [a, b, d] u = sys_ret (do_syscall3 t n a b d u)"
| "syscall t n [a, b, d, e] u = sys_ret (do_syscall4 t n a b d e u)"
| "syscall t n [a, b, d, e, f] u = sys_ret (do_syscall5 t n a b d e f u)"
| "syscall t n (a # b # d # e # f # g # _) u = sys_ret (do_syscall6 t n a b d e f g u)"

section \<open>Numbers\<close>

definition MUX_TCGETS :: u32 where "MUX_TCGETS = 0x5401"
definition MUX_TCSETS :: u32 where "MUX_TCSETS = 0x5402"
definition MUX_TCSETSW :: u32 where "MUX_TCSETSW = 0x5403"
definition MUX_TCSETSF :: u32 where "MUX_TCSETSF = 0x5404"
definition MUX_TIOCGPGRP :: u32 where "MUX_TIOCGPGRP = 0x540F"
definition MUX_TIOCSPGRP :: u32 where "MUX_TIOCSPGRP = 0x5410"
definition MUX_TIOCGWINSZ :: u32 where "MUX_TIOCGWINSZ = 0x5413"
definition MUX_TIOCGSID :: u32 where "MUX_TIOCGSID = 0x5429"

definition KSYS_READ :: u32 where "KSYS_READ = 0"
definition KSYS_WRITE :: u32 where "KSYS_WRITE = 1"
definition KSYS_EXIT :: u32 where "KSYS_EXIT = 2"
definition KSYS_SLEEP :: u32 where "KSYS_SLEEP = 3"
definition KSYS_FORK :: u32 where "KSYS_FORK = 4"
definition KSYS_EXECVE :: u32 where "KSYS_EXECVE = 5"
definition KSYS_WAITPID :: u32 where "KSYS_WAITPID = 10"
definition KSYS_OPEN :: u32 where "KSYS_OPEN = 8"
definition KSYS_CLOSE :: u32 where "KSYS_CLOSE = 9"
definition KSYS_LINK :: u32 where "KSYS_LINK = 12"
definition KSYS_GETPID :: u32 where "KSYS_GETPID = 21"
definition KSYS_LSEEK :: u32 where "KSYS_LSEEK = 24"
definition KSYS_STAT :: u32 where "KSYS_STAT = 25"
definition KSYS_FSTAT :: u32 where "KSYS_FSTAT = 26"
definition KSYS_MKDIR :: u32 where "KSYS_MKDIR = 27"
definition KSYS_GETDENTS :: u32 where "KSYS_GETDENTS = 28"
definition KSYS_DUP :: u32 where "KSYS_DUP = 29"
definition KSYS_MMAP :: u32 where "KSYS_MMAP = 30"
definition KSYS_MUNMAP :: u32 where "KSYS_MUNMAP = 31"
definition KSYS_SET_TLS :: u32 where "KSYS_SET_TLS = 32"
definition KSYS_RENAME :: u32 where "KSYS_RENAME = 33"
definition KSYS_RMDIR :: u32 where "KSYS_RMDIR = 34"
definition KSYS_FTRUNCATE :: u32 where "KSYS_FTRUNCATE = 35"
definition KSYS_DUP2 :: u32 where "KSYS_DUP2 = 36"
definition KSYS_CHMOD :: u32 where "KSYS_CHMOD = 37"
definition KSYS_FCHMOD :: u32 where "KSYS_FCHMOD = 38"
definition KSYS_CHDIR :: u32 where "KSYS_CHDIR = 39"
definition KSYS_GETCWD :: u32 where "KSYS_GETCWD = 40"
definition KSYS_OPENAT :: u32 where "KSYS_OPENAT = 41"
definition KSYS_STATAT :: u32 where "KSYS_STATAT = 42"
definition KSYS_UNLINKAT :: u32 where "KSYS_UNLINKAT = 43"
definition KSYS_MKDIRAT :: u32 where "KSYS_MKDIRAT = 44"
definition KSYS_RENAMEAT :: u32 where "KSYS_RENAMEAT = 45"
definition KSYS_LINKAT :: u32 where "KSYS_LINKAT = 46"
definition KSYS_PIPE :: u32 where "KSYS_PIPE = 47"
definition KSYS_KILL :: u32 where "KSYS_KILL = 48"
definition KSYS_SIGACTION :: u32 where "KSYS_SIGACTION = 49"
definition KSYS_SIGPROCMASK :: u32 where "KSYS_SIGPROCMASK = 50"
definition KSYS_SETPGID :: u32 where "KSYS_SETPGID = 52"
definition KSYS_GETPGID :: u32 where "KSYS_GETPGID = 53"
definition KSYS_GETSID :: u32 where "KSYS_GETSID = 54"
definition KSYS_SETSID :: u32 where "KSYS_SETSID = 55"
definition KSYS_TCGETPGRP :: u32 where "KSYS_TCGETPGRP = 56"
definition KSYS_TCSETPGRP :: u32 where "KSYS_TCSETPGRP = 57"
definition KSYS_TTYGETMODE :: u32 where "KSYS_TTYGETMODE = 58"
definition KSYS_TTYSETMODE :: u32 where "KSYS_TTYSETMODE = 59"
definition KSYS_REBOOT :: u32 where "KSYS_REBOOT = 60"

lemmas KSYS_numbers = KSYS_READ_def KSYS_WRITE_def KSYS_EXIT_def KSYS_SLEEP_def KSYS_FORK_def KSYS_EXECVE_def KSYS_WAITPID_def KSYS_OPEN_def KSYS_CLOSE_def KSYS_LINK_def KSYS_GETPID_def KSYS_LSEEK_def KSYS_STAT_def KSYS_FSTAT_def KSYS_MKDIR_def KSYS_GETDENTS_def KSYS_DUP_def KSYS_MMAP_def KSYS_MUNMAP_def KSYS_SET_TLS_def KSYS_RENAME_def KSYS_RMDIR_def KSYS_FTRUNCATE_def KSYS_DUP2_def KSYS_CHMOD_def KSYS_FCHMOD_def KSYS_CHDIR_def KSYS_GETCWD_def KSYS_OPENAT_def KSYS_STATAT_def KSYS_UNLINKAT_def KSYS_MKDIRAT_def KSYS_RENAMEAT_def KSYS_LINKAT_def KSYS_PIPE_def KSYS_KILL_def KSYS_SIGACTION_def KSYS_SIGPROCMASK_def KSYS_SETPGID_def KSYS_GETPGID_def KSYS_GETSID_def KSYS_SETSID_def KSYS_TCGETPGRP_def KSYS_TCSETPGRP_def KSYS_TTYGETMODE_def KSYS_TTYSETMODE_def KSYS_REBOOT_def

definition MUX_DIRSIZ :: nat where "MUX_DIRSIZ = 32"
definition MUX_T_DIR :: u32 where "MUX_T_DIR = 1"
definition MUX_T_FILE :: u32 where "MUX_T_FILE = 2"
definition MUX_T_DEVICE :: u32 where "MUX_T_DEVICE = 3"

record muxos_stat =
  ks_ino :: u32
  ks_type :: u16
  ks_mode :: u16
  ks_nlink :: u32
  ks_size :: u32
  ks_dev :: u32

record muxos_dirent =
  md_ino :: u32
  md_off :: u32
  md_type :: u32
  md_name :: "u8 list"

text \<open>The structures as the kernel stored them at an address.\<close>

definition stat_at :: "memory \<Rightarrow> u32 \<Rightarrow> muxos_stat" where
  "stat_at m a = \<lparr>ks_ino = ld32 m a, ks_type = bytes_u16 (m (a + 4)) (m (a + 5)), ks_mode = bytes_u16 (m (a + 6)) (m (a + 7)),
     ks_nlink = ld32 m (a + 8), ks_size = ld32 m (a + 12), ks_dev = ld32 m (a + 16)\<rparr>"

definition dirent_at :: "memory \<Rightarrow> u32 \<Rightarrow> muxos_dirent" where
  "dirent_at m a = \<lparr>md_ino = ld32 m a, md_off = ld32 m (a + 4), md_type = ld32 m (a + 8), md_name = bytes_at m (a + 12) MUX_DIRSIZ\<rparr>"

definition sizeof_muxos_dirent :: u32 where "sizeof_muxos_dirent = 44"

text \<open>The error number of a negative result.\<close>

definition errno_of :: "int \<Rightarrow> int" where
  "errno_of r = (if r < 0 then - r else 0)"

definition err :: "abi \<Rightarrow> string \<Rightarrow> int" where
  "err c e = uint (c e)"

text \<open>One call that only reports an error, and one with a result.\<close>

definition check :: "'s trap \<Rightarrow> u32 \<Rightarrow> u32 list \<Rightarrow> 's user \<Rightarrow> (int \<times> 's user) option" where
  "check t n args u = do { (r, u) \<leftarrow> syscall t n args u; Some (errno_of r, u) }"

definition fetch :: "'s trap \<Rightarrow> u32 \<Rightarrow> u32 list \<Rightarrow> 's user \<Rightarrow> ((int \<times> int option) \<times> 's user) option" where
  "fetch t n args u = do { (r, u) \<leftarrow> syscall t n args u; Some (if r < 0 then (- r, None) else (0, Some r), u) }"

section \<open>The terminal\<close>

record termios =
  c_iflag :: u32
  c_oflag :: u32
  c_cflag :: u32
  c_lflag :: u32
  c_cc :: "u32 \<Rightarrow> u8"
  c_ispeed :: u32
  c_ospeed :: u32

record winsize =
  ws_row :: u16
  ws_col :: u16
  ws_xpixel :: u16
  ws_ypixel :: u16

definition fill_termios :: "abi \<Rightarrow> termios" where
  "fill_termios c =
     \<lparr>c_iflag = c ''ICRNL'' OR c ''IXON'', c_oflag = c ''OPOST'' OR c ''ONLCR'', c_cflag = c ''CS8'' OR c ''CREAD'' OR c ''CLOCAL'',
      c_lflag = c ''ISIG'' OR c ''ICANON'' OR c ''ECHO'' OR c ''ECHOE'' OR c ''ECHOK'',
      c_cc = (\<lambda>_. 0)(c ''VINTR'' := 3, c ''VQUIT'' := 28, c ''VERASE'' := 127, c ''VKILL'' := 21, c ''VEOF'' := 4,
        c ''VSTART'' := 17, c ''VSTOP'' := 19, c ''VSUSP'' := 26),
      c_ispeed = c ''B38400'', c_ospeed = c ''B38400''\<rparr>"

definition fill_winsize :: winsize where
  "fill_winsize = \<lparr>ws_row = 25, ws_col = 80, ws_xpixel = 0, ws_ypixel = 0\<rparr>"

text \<open>What an \<open>ioctl\<close> stores at its argument.\<close>

datatype tty_out = Nothing_out | Termios_out termios | Winsize_out winsize | Int_out u32

definition term_ioctl :: "abi \<Rightarrow> 's trap \<Rightarrow> u32 \<Rightarrow> u32 \<Rightarrow> 's user \<Rightarrow> ((int \<times> tty_out) \<times> 's user) option" where
  "term_ioctl c t request arg u =
     (if request = MUX_TCGETS then Some ((0, Termios_out (fill_termios c)), u)
      else if request = MUX_TCSETS \<or> request = MUX_TCSETSW \<or> request = MUX_TCSETSF then Some ((0, Nothing_out), u)
      else if request = MUX_TIOCGWINSZ then Some ((0, Winsize_out fill_winsize), u)
      else if request = MUX_TIOCGPGRP then do { (r, u) \<leftarrow> syscall t KSYS_TCGETPGRP [] u; Some ((0, Int_out (word_of_int r)), u) }
      else if request = MUX_TIOCSPGRP then
        do { (_, u) \<leftarrow> syscall t KSYS_TCSETPGRP [ld32 (fst u) arg] u; Some ((0, Nothing_out), u) }
      else if request = MUX_TIOCGSID then do { (r, u) \<leftarrow> syscall t KSYS_GETSID [0] u; Some ((0, Int_out (word_of_int r)), u) }
      else Some ((err c ''ENOTTY'', Nothing_out), u))"

text \<open>The function \<open>ioctl\<close> itself returns -1 and sets \<open>errno\<close>, the last part of the result.\<close>

definition ioctl :: "abi \<Rightarrow> 's trap \<Rightarrow> int \<Rightarrow> u32 \<Rightarrow> u32 \<Rightarrow> 's user \<Rightarrow> ((int \<times> tty_out \<times> int option) \<times> 's user) option" where
  "ioctl c t fd request arg u = do {
     ((e, out), u) \<leftarrow> term_ioctl c t request arg u;
     Some (if e \<noteq> 0 then (-1, out, Some e) else (0, out, None), u)
   }"

section \<open>Paths and file status\<close>

definition resolve_path :: "abi \<Rightarrow> u32 \<Rightarrow> u32 \<Rightarrow> u32 \<Rightarrow> 's user \<Rightarrow> (int \<times> 's user) option" where
  "resolve_path c path out outsz u =
     (if path = 0 \<or> fst u path = 0 then Some (err c ''ENOENT'', u)
      else do {
        n \<leftarrow> kstrlen (fst u) path;
        if n \<ge> outsz then Some (err c ''ENAMETOOLONG'', u)
        else Some (0, store_bytes (fst u) out (bytes_at (fst u) path (unat (n + 1))), snd u)
      })"

text \<open>A call on a checked copy of a path.\<close>

definition with_path :: "abi \<Rightarrow> u32 \<Rightarrow> u32 \<Rightarrow> 'o \<Rightarrow> ('s user \<Rightarrow> ((int \<times> 'o) \<times> 's user) option) \<Rightarrow> 's user \<Rightarrow>
    ((int \<times> 'o) \<times> 's user) option" where
  "with_path c path buf none f u = do {
     (e, u) \<leftarrow> resolve_path c path buf 256 u;
     if e \<noteq> 0 then Some ((e, none), u) else f u
   }"

record ustat =
  us_dev :: u32
  us_ino :: u32
  us_mode :: u32
  us_nlink :: u32
  us_size :: u32
  us_blksize :: u32
  us_blocks :: u32

definition fill_stat :: "abi \<Rightarrow> muxos_stat \<Rightarrow> ustat" where
  "fill_stat c ks =
     (let bits = ucast (ks_mode ks) AND 0xFFF
      in \<lparr>us_dev = ks_dev ks, us_ino = ks_ino ks,
          us_mode = (if ucast (ks_type ks) = MUX_T_DIR then c ''S_IFDIR'' OR bits
                     else if ucast (ks_type ks) = MUX_T_DEVICE then c ''S_IFCHR'' OR bits else c ''S_IFREG'' OR bits),
          us_nlink = ks_nlink ks, us_size = ks_size ks, us_blksize = 4096, us_blocks = (ks_size ks + 511) div 512\<rparr>)"

section \<open>Processes and the terminal\<close>

text \<open>The state at the trap instruction that ends the hook.\<close>

definition libc_panic :: "'s trap \<Rightarrow> u32 \<Rightarrow> 's user \<Rightarrow> 's user option" where
  "libc_panic t msg u = do {
     n \<leftarrow> kstrlen (fst u) msg;
     (_, u) \<leftarrow> syscall t KSYS_WRITE [2, msg, n] u;
     (_, u) \<leftarrow> syscall t KSYS_EXIT [1] u;
     Some u
   }"

definition libc_log :: "'s trap \<Rightarrow> u32 \<Rightarrow> 's user \<Rightarrow> 's user option" where
  "libc_log t message u = do {
     n \<leftarrow> kstrlen (fst u) message;
     (_, u) \<leftarrow> syscall t KSYS_WRITE [2, message, n] u;
     Some u
   }"

definition mlibc_isatty :: "abi \<Rightarrow> int \<Rightarrow> int" where
  "mlibc_isatty c fd = (if fd \<ge> 0 \<and> fd \<le> 2 then 0 else err c ''ENOTTY'')"

definition mlibc_kill :: "'s trap \<Rightarrow> u32 \<Rightarrow> u32 \<Rightarrow> 's user \<Rightarrow> (int \<times> 's user) option" where
  "mlibc_kill t p sig u = check t KSYS_KILL [p, sig] u"

definition mlibc_getpgid :: "'s trap \<Rightarrow> u32 \<Rightarrow> 's user \<Rightarrow> ((int \<times> int option) \<times> 's user) option" where
  "mlibc_getpgid t p u = fetch t KSYS_GETPGID [p] u"

definition mlibc_getsid :: "'s trap \<Rightarrow> u32 \<Rightarrow> 's user \<Rightarrow> ((int \<times> int option) \<times> 's user) option" where
  "mlibc_getsid t p u = fetch t KSYS_GETSID [p] u"

definition mlibc_setpgid :: "'s trap \<Rightarrow> u32 \<Rightarrow> u32 \<Rightarrow> 's user \<Rightarrow> (int \<times> 's user) option" where
  "mlibc_setpgid t p g u = check t KSYS_SETPGID [p, g] u"

definition mlibc_setsid :: "'s trap \<Rightarrow> 's user \<Rightarrow> ((int \<times> int option) \<times> 's user) option" where
  "mlibc_setsid t u = fetch t KSYS_SETSID [] u"

definition lflag_bit :: "u32 \<Rightarrow> u32 \<Rightarrow> u32 \<Rightarrow> u32" where
  "lflag_bit md b v = (if md AND b \<noteq> 0 then v else 0)"

definition mlibc_tcgetattr :: "abi \<Rightarrow> 's trap \<Rightarrow> 's user \<Rightarrow> ((int \<times> termios) \<times> 's user) option" where
  "mlibc_tcgetattr c t u = do {
     let ta = fill_termios c;
     (r, u) \<leftarrow> syscall t KSYS_TTYGETMODE [] u;
     let md = word_of_int r;
     let ta = (if r \<ge> 0
                 then ta\<lparr>c_lflag := lflag_bit md 1 (c ''ICANON'') OR lflag_bit md 2 (c ''ECHO'') OR lflag_bit md 4 (c ''ISIG'')\<rparr>
                 else ta);
     Some ((0, ta), u)
   }"

definition mlibc_tcsetattr :: "abi \<Rightarrow> 's trap \<Rightarrow> termios \<Rightarrow> 's user \<Rightarrow> (int \<times> 's user) option" where
  "mlibc_tcsetattr c t ta u = do {
     let md = lflag_bit (c_lflag ta) (c ''ICANON'') 1 OR lflag_bit (c_lflag ta) (c ''ECHO'') 2 OR lflag_bit (c_lflag ta) (c ''ISIG'') 4;
     (_, u) \<leftarrow> syscall t KSYS_TTYSETMODE [md] u;
     Some (0, u)
   }"

record pollfd =
  poll_fd :: int
  poll_events :: u16
  poll_revents :: u16

definition poll_one :: "abi \<Rightarrow> pollfd \<Rightarrow> pollfd" where
  "poll_one c p =
     (if poll_fd p < 0 then p\<lparr>poll_revents := 0\<rparr>
      else p\<lparr>poll_revents := (if poll_events p AND ucast (c ''POLLIN'') \<noteq> 0 then ucast (c ''POLLIN'') else 0) OR
                 (if poll_events p AND ucast (c ''POLLOUT'') \<noteq> 0 then ucast (c ''POLLOUT'') else 0)\<rparr>)"

definition mlibc_poll :: "abi \<Rightarrow> pollfd list \<Rightarrow> int \<times> pollfd list \<times> int" where
  "mlibc_poll c fds =
     (let fds = map (poll_one c) fds in (0, fds, int (length (filter (\<lambda>p. poll_revents p \<noteq> 0) fds))))"

definition mlibc_tcgetwinsize :: "int \<times> winsize" where
  "mlibc_tcgetwinsize = (0, fill_winsize)"

definition mlibc_times :: "int \<times> u32 list \<times> u32" where
  "mlibc_times = (0, replicate 4 0, 0)"

definition mlibc_uname :: "int \<times> string list" where
  "mlibc_uname = (0, [''muxOS'', ''muxos'', ''0.0.1'', ''muxOS'', ''i686''])"

definition mlibc_getpid :: "'s trap \<Rightarrow> 's user \<Rightarrow> (int \<times> 's user) option" where
  "mlibc_getpid t u = do { (r, u) \<leftarrow> syscall t KSYS_GETPID [] u; Some (if r < 0 then 0 else r, u) }"

definition mlibc_getppid :: int where "mlibc_getppid = 0"
definition mlibc_getuid :: u32 where "mlibc_getuid = 0"
definition mlibc_geteuid :: u32 where "mlibc_geteuid = 0"
definition mlibc_getgid :: u32 where "mlibc_getgid = 0"
definition mlibc_getegid :: u32 where "mlibc_getegid = 0"

definition mlibc_fork :: "'s trap \<Rightarrow> 's user \<Rightarrow> ((int \<times> int option) \<times> 's user) option" where
  "mlibc_fork t u = fetch t KSYS_FORK [] u"

text \<open>The loop of the blocking calls: while the kernel answers EAGAIN, sleep a tick and ask again.\<close>

partial_function (option) retry :: "abi \<Rightarrow> 's trap \<Rightarrow> u32 \<Rightarrow> u32 list \<Rightarrow> 's user \<Rightarrow> ((int \<times> int option) \<times> 's user) option" where
  "retry c t n args u =
     Option.bind (syscall t n args u) (\<lambda>(r, u).
       if r = - err c ''EAGAIN'' then Option.bind (syscall t KSYS_SLEEP [1] u) (\<lambda>(_, u). retry c t n args u)
       else Some (if r < 0 then (- r, None) else (0, Some r), u))"

definition mlibc_waitpid :: "abi \<Rightarrow> 's trap \<Rightarrow> u32 \<Rightarrow> u32 \<Rightarrow> u32 \<Rightarrow> 's user \<Rightarrow> ((int \<times> int option) \<times> 's user) option" where
  "mlibc_waitpid c t p st flags u = retry c t KSYS_WAITPID [p, flags, st] u"

definition mlibc_umask :: "int \<times> u32" where
  "mlibc_umask = (0, 0)"

text \<open>Milliseconds, in the width of \<open>long\<close>.\<close>

definition sleep_ms :: "int option \<Rightarrow> int option \<Rightarrow> u32" where
  "sleep_ms secs nanos =
     (let ms = (case secs of None \<Rightarrow> 0 | Some x \<Rightarrow> word_of_int x * 1000);
          ms = ms + (case nanos of None \<Rightarrow> 0 | Some x \<Rightarrow> word_of_int (sgn x * (abs x div 1000000)))
      in if sint ms < 1 then 1 else ms)"

definition mlibc_sleep :: "'s trap \<Rightarrow> int option \<Rightarrow> int option \<Rightarrow> 's user \<Rightarrow> (int \<times> 's user) option" where
  "mlibc_sleep t secs nanos u = do { (_, u) \<leftarrow> syscall t KSYS_SLEEP [sleep_ms secs nanos] u; Some (0, u) }"

definition mlibc_sigaction :: "'s trap \<Rightarrow> u32 \<Rightarrow> u32 \<Rightarrow> u32 \<Rightarrow> 's user \<Rightarrow> (int \<times> 's user) option" where
  "mlibc_sigaction t sig act old u = check t KSYS_SIGACTION [sig, act, old] u"

definition mlibc_sigprocmask :: "'s trap \<Rightarrow> u32 \<Rightarrow> u32 \<Rightarrow> u32 \<Rightarrow> 's user \<Rightarrow> (int \<times> 's user) option" where
  "mlibc_sigprocmask t how new old u = check t KSYS_SIGPROCMASK [how, new, old] u"

definition mlibc_ioctl :: "abi \<Rightarrow> 's trap \<Rightarrow> u32 \<Rightarrow> u32 \<Rightarrow> 's user \<Rightarrow> ((int \<times> tty_out \<times> int) \<times> 's user) option" where
  "mlibc_ioctl c t request arg u = do { ((e, out), u) \<leftarrow> term_ioctl c t request arg u; Some ((e, out, 0), u) }"

definition mlibc_execve :: "'s trap \<Rightarrow> u32 \<Rightarrow> u32 \<Rightarrow> u32 \<Rightarrow> 's user \<Rightarrow> (int \<times> 's user) option" where
  "mlibc_execve t path av ev u = check t KSYS_EXECVE [path, av, ev] u"

section \<open>Files\<close>

definition mlibc_getcwd :: "'s trap \<Rightarrow> u32 \<Rightarrow> u32 \<Rightarrow> 's user \<Rightarrow> (int \<times> 's user) option" where
  "mlibc_getcwd t buffer sz u = check t KSYS_GETCWD [buffer, sz] u"

definition mlibc_chdir :: "'s trap \<Rightarrow> u32 \<Rightarrow> 's user \<Rightarrow> (int \<times> 's user) option" where
  "mlibc_chdir t path u = check t KSYS_CHDIR [path] u"

definition mlibc_readlink :: "abi \<Rightarrow> 's trap \<Rightarrow> u32 \<Rightarrow> u32 \<Rightarrow> 's user \<Rightarrow> (int \<times> 's user) option" where
  "mlibc_readlink c t ks path u = do {
     (r, u) \<leftarrow> syscall t KSYS_STAT [path, ks] u;
     Some (if r < 0 then - r else err c ''EINVAL'', u)
   }"

definition mlibc_readlinkat :: "abi \<Rightarrow> 's trap \<Rightarrow> u32 \<Rightarrow> u32 \<Rightarrow> u32 \<Rightarrow> 's user \<Rightarrow> (int \<times> 's user) option" where
  "mlibc_readlinkat c t ks dirfd path u = do {
     (r, u) \<leftarrow> syscall t KSYS_STATAT [dirfd, path, ks] u;
     Some (if r < 0 then - r else err c ''EINVAL'', u)
   }"

text \<open>A call on one checked path that only reports an error, and one on two.\<close>

definition path_check :: "abi \<Rightarrow> u32 \<Rightarrow> u32 \<Rightarrow> ('s user \<Rightarrow> (int \<times> 's user) option) \<Rightarrow> 's user \<Rightarrow> (int \<times> 's user) option" where
  "path_check c path buf f u = do {
     (e, u) \<leftarrow> resolve_path c path buf 256 u;
     if e \<noteq> 0 then Some (e, u) else f u
   }"

definition mlibc_access :: "abi \<Rightarrow> 's trap \<Rightarrow> u32 \<Rightarrow> u32 \<Rightarrow> u32 \<Rightarrow> 's user \<Rightarrow> (int \<times> 's user) option" where
  "mlibc_access c t buf ks path u = path_check c path buf (check t KSYS_STAT [buf, ks]) u"

definition mlibc_faccessat :: "'s trap \<Rightarrow> u32 \<Rightarrow> u32 \<Rightarrow> u32 \<Rightarrow> 's user \<Rightarrow> (int \<times> 's user) option" where
  "mlibc_faccessat t ks dirfd pathname u = check t KSYS_STATAT [dirfd, pathname, ks] u"

definition mlibc_write :: "abi \<Rightarrow> 's trap \<Rightarrow> u32 \<Rightarrow> u32 \<Rightarrow> u32 \<Rightarrow> 's user \<Rightarrow> ((int \<times> int option) \<times> 's user) option" where
  "mlibc_write c t fd buf count u = retry c t KSYS_WRITE [fd, buf, count] u"

definition mlibc_pipe :: "'s trap \<Rightarrow> u32 \<Rightarrow> u32 \<Rightarrow> 's user \<Rightarrow> (int \<times> 's user) option" where
  "mlibc_pipe t fds flags u = check t KSYS_PIPE [fds, flags] u"

definition mlibc_read :: "abi \<Rightarrow> 's trap \<Rightarrow> u32 \<Rightarrow> u32 \<Rightarrow> u32 \<Rightarrow> 's user \<Rightarrow> ((int \<times> int option) \<times> 's user) option" where
  "mlibc_read c t fd buf count u = retry c t KSYS_READ [fd, buf, count] u"

definition open_mask :: "abi \<Rightarrow> u32" where
  "open_mask c = c ''O_RDONLY'' OR c ''O_WRONLY'' OR c ''O_RDWR'' OR c ''O_CREAT'' OR c ''O_EXCL'' OR c ''O_TRUNC'' OR c ''O_APPEND''"

definition mlibc_open :: "abi \<Rightarrow> 's trap \<Rightarrow> u32 \<Rightarrow> u32 \<Rightarrow> u32 \<Rightarrow> 's user \<Rightarrow> ((int \<times> int option) \<times> 's user) option" where
  "mlibc_open c t buf pathname flags u =
     with_path c pathname buf None (fetch t KSYS_OPEN [buf, flags AND open_mask c]) u"

definition mlibc_openat :: "abi \<Rightarrow> 's trap \<Rightarrow> u32 \<Rightarrow> u32 \<Rightarrow> u32 \<Rightarrow> 's user \<Rightarrow> ((int \<times> int option) \<times> 's user) option" where
  "mlibc_openat c t dirfd pathname flags u = fetch t KSYS_OPENAT [dirfd, pathname, flags AND open_mask c] u"

definition mlibc_close :: "'s trap \<Rightarrow> u32 \<Rightarrow> 's user \<Rightarrow> (int \<times> 's user) option" where
  "mlibc_close t fd u = check t KSYS_CLOSE [fd] u"

definition mlibc_seek :: "abi \<Rightarrow> 's trap \<Rightarrow> u32 \<Rightarrow> u32 \<Rightarrow> u32 \<Rightarrow> 's user \<Rightarrow> ((int \<times> int option) \<times> 's user) option" where
  "mlibc_seek c t fd off whence u = do {
     (r, u) \<leftarrow> syscall t KSYS_LSEEK [fd, off, whence] u;
     Some (if r < 0 then (err c ''ESPIPE'', None) else (0, Some r), u)
   }"

datatype fsfd_target = Target_fd | Target_fd_path | Target_path

definition mlibc_stat :: "abi \<Rightarrow> 's trap \<Rightarrow> u32 \<Rightarrow> fsfd_target \<Rightarrow> u32 \<Rightarrow> u32 \<Rightarrow> 's user \<Rightarrow> ((int \<times> ustat option) \<times> 's user) option" where
  "mlibc_stat c t ks target fd path u =
     (if target \<noteq> Target_fd \<and> path = 0 then Some ((err c ''EFAULT'', None), u)
      else do {
        (r, u) \<leftarrow> (case target of
            Target_fd \<Rightarrow> syscall t KSYS_FSTAT [fd, ks] u
          | Target_fd_path \<Rightarrow> syscall t KSYS_STATAT [fd, path, ks] u
          | Target_path \<Rightarrow> syscall t KSYS_STAT [path, ks] u);
        Some (if r < 0 then (- r, None) else (0, Some (fill_stat c (stat_at (fst u) ks))), u)
      })"

definition mlibc_opendir :: "abi \<Rightarrow> 's trap \<Rightarrow> u32 \<Rightarrow> u32 \<Rightarrow> u32 \<Rightarrow> 's user \<Rightarrow> ((int \<times> int option) \<times> 's user) option" where
  "mlibc_opendir c t buf ks path u =
     with_path c path buf None (\<lambda>u. do {
       (r, u) \<leftarrow> syscall t KSYS_STAT [buf, ks] u;
       if r < 0 then Some ((- r, None), u)
       else if ucast (ks_type (stat_at (fst u) ks)) \<noteq> MUX_T_DIR then Some ((err c ''ENOTDIR'', None), u)
       else fetch t KSYS_OPEN [buf, c ''O_RDONLY''] u
     }) u"

text \<open>
  Directory entries. A record of the C library is its fields and the name with its terminator; the offset of the name in the
  structure is a parameter like the macros. The records are stored one after the other from the beginning of the buffer.
\<close>

record udirent =
  d_ino :: u32
  d_off :: u32
  d_reclen :: u32
  d_type :: u32
  d_name :: "u8 list"

definition min_rec :: "abi \<Rightarrow> u32" where
  "min_rec c = c ''offsetof d_name'' + of_nat MUX_DIRSIZ"

definition strnlen :: "u8 list \<Rightarrow> nat" where
  "strnlen xs = length (takeWhile (\<lambda>x. x \<noteq> 0) xs)"

definition reclen_of :: "abi \<Rightarrow> muxos_dirent \<Rightarrow> u32" where
  "reclen_of c de = (c ''offsetof d_name'' + of_nat (strnlen (md_name de)) + 1 + 3) AND NOT 3"

definition udirent_of :: "abi \<Rightarrow> memory \<Rightarrow> u32 \<Rightarrow> muxos_dirent \<Rightarrow> udirent" where
  "udirent_of c m a de =
     \<lparr>d_ino = md_ino de, d_off = md_off de, d_reclen = reclen_of c de,
      d_type = (if md_type de = MUX_T_DIR then c ''DT_DIR'' else if md_type de = MUX_T_DEVICE then c ''DT_CHR''
                else if md_type de = MUX_T_FILE then c ''DT_REG'' else c ''DT_UNKNOWN''),
      d_name = bytes_at m (a + 12) (strnlen (md_name de) + 1)\<rparr>"

partial_function (option) read_entries_loop :: "abi \<Rightarrow> 's trap \<Rightarrow> u32 \<Rightarrow> u32 \<Rightarrow> u32 \<Rightarrow> u32 \<Rightarrow> udirent list \<Rightarrow> 's user \<Rightarrow>
    ((u32 \<times> udirent list) \<times> 's user) option" where
  "read_entries_loop c t a handle max_size written out u =
     (if written + min_rec c \<le> max_size then
        Option.bind (syscall t KSYS_GETDENTS [handle, a, sizeof_muxos_dirent] u) (\<lambda>(n, u).
          if n < sint sizeof_muxos_dirent then Some ((written, out), u)
          else
            (let de = dirent_at (fst u) a; reclen = reclen_of c de
             in if written + reclen > max_size then Some ((written, out), u)
                else read_entries_loop c t a handle max_size (written + reclen) (out @ [udirent_of c (fst u) a de]) u))
      else Some ((written, out), u))"

definition mlibc_read_entries :: "abi \<Rightarrow> 's trap \<Rightarrow> u32 \<Rightarrow> u32 \<Rightarrow> u32 \<Rightarrow> 's user \<Rightarrow> ((int \<times> u32 \<times> udirent list) \<times> 's user) option" where
  "mlibc_read_entries c t a handle max_size u =
     map_option (\<lambda>((written, out), u). ((0, written, out), u)) (read_entries_loop c t a handle max_size 0 [] u)"

definition mlibc_mkdir :: "abi \<Rightarrow> 's trap \<Rightarrow> u32 \<Rightarrow> u32 \<Rightarrow> 's user \<Rightarrow> (int \<times> 's user) option" where
  "mlibc_mkdir c t buf path u = path_check c path buf (check t KSYS_MKDIR [buf]) u"

definition mlibc_mkdirat :: "'s trap \<Rightarrow> u32 \<Rightarrow> u32 \<Rightarrow> 's user \<Rightarrow> (int \<times> 's user) option" where
  "mlibc_mkdirat t dirfd path u = check t KSYS_MKDIRAT [dirfd, path] u"

definition mlibc_rmdir :: "abi \<Rightarrow> 's trap \<Rightarrow> u32 \<Rightarrow> u32 \<Rightarrow> 's user \<Rightarrow> (int \<times> 's user) option" where
  "mlibc_rmdir c t buf path u = path_check c path buf (check t KSYS_RMDIR [buf]) u"

definition mlibc_unlinkat :: "'s trap \<Rightarrow> u32 \<Rightarrow> u32 \<Rightarrow> u32 \<Rightarrow> 's user \<Rightarrow> (int \<times> 's user) option" where
  "mlibc_unlinkat t dirfd path flags u = check t KSYS_UNLINKAT [dirfd, path, flags] u"

definition mlibc_rename :: "abi \<Rightarrow> 's trap \<Rightarrow> u32 \<Rightarrow> u32 \<Rightarrow> u32 \<Rightarrow> u32 \<Rightarrow> 's user \<Rightarrow> (int \<times> 's user) option" where
  "mlibc_rename c t a b path new_path u =
     path_check c path a (path_check c new_path b (check t KSYS_RENAME [a, b])) u"

definition mlibc_renameat :: "'s trap \<Rightarrow> u32 \<Rightarrow> u32 \<Rightarrow> u32 \<Rightarrow> u32 \<Rightarrow> 's user \<Rightarrow> (int \<times> 's user) option" where
  "mlibc_renameat t olddirfd old_path newdirfd new_path u = check t KSYS_RENAMEAT [olddirfd, old_path, newdirfd, new_path] u"

definition mlibc_link :: "abi \<Rightarrow> 's trap \<Rightarrow> u32 \<Rightarrow> u32 \<Rightarrow> u32 \<Rightarrow> u32 \<Rightarrow> 's user \<Rightarrow> (int \<times> 's user) option" where
  "mlibc_link c t a b old_path new_path u =
     path_check c old_path a (path_check c new_path b (check t KSYS_LINK [a, b])) u"

definition mlibc_linkat :: "'s trap \<Rightarrow> u32 \<Rightarrow> u32 \<Rightarrow> u32 \<Rightarrow> u32 \<Rightarrow> 's user \<Rightarrow> (int \<times> 's user) option" where
  "mlibc_linkat t olddirfd old_path newdirfd new_path u = check t KSYS_LINKAT [olddirfd, old_path, newdirfd, new_path] u"

definition mlibc_truncate :: "abi \<Rightarrow> 's trap \<Rightarrow> u32 \<Rightarrow> u32 \<Rightarrow> u32 \<Rightarrow> 's user \<Rightarrow> (int \<times> 's user) option" where
  "mlibc_truncate c t buf path len u =
     path_check c path buf (\<lambda>u. do {
       (fd, u) \<leftarrow> syscall t KSYS_OPEN [buf, c ''O_WRONLY''] u;
       if fd < 0 then Some (- fd, u)
       else do {
         (r, u) \<leftarrow> syscall t KSYS_FTRUNCATE [word_of_int fd, len] u;
         (_, u) \<leftarrow> syscall t KSYS_CLOSE [word_of_int fd] u;
         Some (errno_of r, u)
       }
     }) u"

definition mlibc_ftruncate :: "'s trap \<Rightarrow> u32 \<Rightarrow> u32 \<Rightarrow> 's user \<Rightarrow> (int \<times> 's user) option" where
  "mlibc_ftruncate t fd sz u = check t KSYS_FTRUNCATE [fd, sz] u"

definition mlibc_chmod :: "abi \<Rightarrow> 's trap \<Rightarrow> u32 \<Rightarrow> u32 \<Rightarrow> u32 \<Rightarrow> 's user \<Rightarrow> (int \<times> 's user) option" where
  "mlibc_chmod c t buf pathname md u = path_check c pathname buf (check t KSYS_CHMOD [buf, md]) u"

definition mlibc_fchmod :: "'s trap \<Rightarrow> u32 \<Rightarrow> u32 \<Rightarrow> 's user \<Rightarrow> (int \<times> 's user) option" where
  "mlibc_fchmod t fd md u = check t KSYS_FCHMOD [fd, md] u"

definition mlibc_fchmodat :: "abi \<Rightarrow> 's trap \<Rightarrow> u32 \<Rightarrow> u32 \<Rightarrow> u32 \<Rightarrow> u32 \<Rightarrow> 's user \<Rightarrow> (int \<times> 's user) option" where
  "mlibc_fchmodat c t buf dirfd pathname md u =
     (if dirfd \<noteq> c ''AT_FDCWD'' then Some (err c ''ENOSYS'', u) else mlibc_chmod c t buf pathname md u)"

definition mlibc_fchownat :: int where "mlibc_fchownat = 0"
definition mlibc_utimensat :: int where "mlibc_utimensat = 0"
definition mlibc_fsync :: int where "mlibc_fsync = 0"

definition mlibc_dup :: "'s trap \<Rightarrow> u32 \<Rightarrow> 's user \<Rightarrow> ((int \<times> int option) \<times> 's user) option" where
  "mlibc_dup t fd u = fetch t KSYS_DUP [fd] u"

definition mlibc_dup2 :: "'s trap \<Rightarrow> u32 \<Rightarrow> u32 \<Rightarrow> 's user \<Rightarrow> (int \<times> 's user) option" where
  "mlibc_dup2 t fd newfd u = check t KSYS_DUP2 [fd, newfd] u"

definition mlibc_fcntl :: "abi \<Rightarrow> 's trap \<Rightarrow> u32 \<Rightarrow> u32 \<Rightarrow> 's user \<Rightarrow> ((int \<times> int option) \<times> 's user) option" where
  "mlibc_fcntl c t fd request u =
     (if request = c ''F_GETFD'' then Some ((0, Some 0), u)
      else if request = c ''F_SETFD'' then Some ((0, None), u)
      else if request = c ''F_GETFL'' then Some ((0, Some 0), u)
      else if request = c ''F_SETFL'' then Some ((0, None), u)
      else if request = c ''F_DUPFD'' then fetch t KSYS_DUP [fd] u
      else Some ((err c ''EINVAL'', None), u))"

section \<open>Memory and the rest\<close>

definition mlibc_anon_allocate :: "abi \<Rightarrow> 's trap \<Rightarrow> u32 \<Rightarrow> 's user \<Rightarrow> ((int \<times> u32 option) \<times> 's user) option" where
  "mlibc_anon_allocate c t sz u = do {
     (r, u) \<leftarrow> syscall t KSYS_MMAP [0, sz, 0x3, 0x22, -1, 0] u;
     Some (if r \<le> 0 then (err c ''ENOMEM'', None) else (0, Some (word_of_int r)), u)
   }"

definition mlibc_anon_free :: "abi \<Rightarrow> 's trap \<Rightarrow> u32 \<Rightarrow> u32 \<Rightarrow> 's user \<Rightarrow> (int \<times> 's user) option" where
  "mlibc_anon_free c t pointer sz u = do {
     (r, u) \<leftarrow> syscall t KSYS_MUNMAP [pointer, sz] u;
     Some (if r < 0 then err c ''EINVAL'' else 0, u)
   }"

definition mlibc_vm_map :: "abi \<Rightarrow> 's trap \<Rightarrow> u32 \<Rightarrow> u32 \<Rightarrow> 's user \<Rightarrow> ((int \<times> u32 option) \<times> 's user) option" where
  "mlibc_vm_map c t hint sz u = do {
     (r, u) \<leftarrow> syscall t KSYS_MMAP [hint, sz, 0x3, 0x22, -1, 0] u;
     Some (if r \<le> 0 then (err c ''ENOMEM'', None) else (0, Some (word_of_int r)), u)
   }"

definition mlibc_vm_unmap :: "abi \<Rightarrow> 's trap \<Rightarrow> u32 \<Rightarrow> u32 \<Rightarrow> 's user \<Rightarrow> (int \<times> 's user) option" where
  "mlibc_vm_unmap c t pointer sz u = do {
     (r, u) \<leftarrow> syscall t KSYS_MUNMAP [pointer, sz] u;
     Some (if r < 0 then err c ''EINVAL'' else 0, u)
   }"

definition mlibc_tcb_set :: "abi \<Rightarrow> 's trap \<Rightarrow> u32 \<Rightarrow> 's user \<Rightarrow> (int \<times> 's user) option" where
  "mlibc_tcb_set c t pointer u = do {
     (r, u) \<leftarrow> syscall t KSYS_SET_TLS [pointer] u;
     Some (if r < 0 then err c ''EIO'' else 0, u)
   }"

definition mlibc_clock_get :: "int \<times> u32 \<times> u32" where "mlibc_clock_get = (0, 0, 0)"
definition mlibc_futex_wait :: int where "mlibc_futex_wait = 0"
definition mlibc_futex_wake :: int where "mlibc_futex_wake = 0"

definition mlibc_exit :: "'s trap \<Rightarrow> u32 \<Rightarrow> 's user \<Rightarrow> 's user option" where
  "mlibc_exit t st u = map_option snd (syscall t KSYS_EXIT [st] u)"

definition reboot :: "'s trap \<Rightarrow> u32 \<Rightarrow> 's user \<Rightarrow> ((int \<times> int option) \<times> 's user) option" where
  "reboot t command u = do {
     (r, u) \<leftarrow> syscall t KSYS_REBOOT [command] u;
     Some (if r < 0 then (-1, Some (- r)) else (0, None), u)
   }"

end
