(* ===== verification/Descriptors.thy ===== *)
theory Descriptors
  imports Syscall
begin

text \<open>
  The reference counts of the open-file table (\<open>kernel/fs/fs.c\<close>) against the descriptor tables of the processes
  (\<open>kernel/task/process.c\<close>, \<open>kernel/task/syscall.c\<close>): every system call keeps them equal. The path operations leave the
  open-file table alone; opening, duplicating and closing move a count and a descriptor together.
\<close>

section \<open>Postconditions of operations that may not return\<close>

definition holds :: "('s \<Rightarrow> bool) \<Rightarrow> ('r \<times> 's) option \<Rightarrow> bool" where
  "holds P x \<longleftrightarrow> (\<forall>r s. x = Some (r, s) \<longrightarrow> P s)"

named_theorems holds_rules
named_theorems table_kept

lemma holdsD: "holds P x \<Longrightarrow> x = Some (r, s) \<Longrightarrow> P s"
  by (simp add: holds_def)

lemma holds_None [simp, holds_rules]: "holds P None"
  by (simp add: holds_def)

lemma holds_Some [simp]: "holds P (Some (r, s)) \<longleftrightarrow> P s"
  by (simp add: holds_def)

lemma holds_return [holds_rules]: "P s \<Longrightarrow> holds P (Some (r, s))"
  by simp

lemma holds_bind:
  assumes "holds Q x" and "\<And>r s. x = Some (r, s) \<Longrightarrow> Q s \<Longrightarrow> holds P (f (r, s))"
  shows "holds P (Option.bind x f)"
  using assms by (cases x) (auto simp: holds_def)

lemma holds_bind_any [holds_rules]: "(\<And>y. x = Some y \<Longrightarrow> holds P (f y)) \<Longrightarrow> holds P (Option.bind x f)"
  by (cases x) auto

lemma holds_if [holds_rules]: "(c \<Longrightarrow> holds P x) \<Longrightarrow> (\<not> c \<Longrightarrow> holds P y) \<Longrightarrow> holds P (if c then x else y)"
  by simp

lemma holds_option [holds_rules]:
  "(x = None \<Longrightarrow> holds P a) \<Longrightarrow> (\<And>y. x = Some y \<Longrightarrow> holds P (f y)) \<Longrightarrow> holds P (case x of None \<Rightarrow> a | Some y \<Rightarrow> f y)"
  by (cases x) auto

lemma holds_sum [holds_rules]:
  "(\<And>y. x = Inl y \<Longrightarrow> holds P (g y)) \<Longrightarrow> (\<And>y. x = Inr y \<Longrightarrow> holds P (f y)) \<Longrightarrow> holds P (case x of Inl y \<Rightarrow> g y | Inr y \<Rightarrow> f y)"
  by (cases x) auto

lemma holds_prod [holds_rules]: "(\<And>a b. x = (a, b) \<Longrightarrow> holds P (f a b)) \<Longrightarrow> holds P (case x of (a, b) \<Rightarrow> f a b)"
  by (cases x) auto

section \<open>Path operations and the open-file table\<close>

lemma ftable_simps [simp]:
  "ftable (set_errno e v) = ftable v" "ftable (upd_node i g v) = ftable v" "ftable (vfs_ifree i v) = ftable v"
  by (simp_all add: set_errno_def upd_node_def vfs_ifree_def)

lemma vfs_ialloc_table [table_kept]: "vfs_ialloc ty v = (r, v') \<Longrightarrow> ftable v' = ftable v"
  by (auto simp: vfs_ialloc_def Let_def split: prod.splits)

abbreviation table :: "'w vfs \<Rightarrow> 'w vfs \<Rightarrow> bool" where
  "table v v' \<equiv> ftable v' = ftable v"

lemma vfs_lookup_table [table_kept]: "vfs_lookup env i name v = Some (n, v') \<Longrightarrow> table v v'"
  by (auto simp: vfs_lookup_def split: bind_splits option.splits prod.splits)

lemma on_fs_table [table_kept]: "on_fs f v = Some (r, v') \<Longrightarrow> table v v'"
  by (auto simp: on_fs_def split: bind_splits)

lemma cwd_loop_table [table_kept]: "cwd_loop env ip p v = Some (r, v') \<Longrightarrow> table v v'"
proof -
  have "ftable v = T \<Longrightarrow> holds (\<lambda>s. ftable s = T) (cwd_loop env ip p v)" for T
  proof (induction env ip p v rule: cwd_loop.induct)
    case (1 env ip p v)
    show ?case
      by (subst cwd_loop.simps, intro holds_rules; (rule "1.IH", assumption, erule sym, assumption, assumption, erule sym, assumption, assumption)?)
         (auto dest: table_kept simp: "1.prems")
  qed
  then show "cwd_loop env ip p v = Some (r, v') \<Longrightarrow> table v v'" by (blast dest: holdsD)
qed

lemma iget_cwd_table [table_kept]: "iget_cwd env v = Some (r, v') \<Longrightarrow> table v v'"
  by (auto simp: iget_cwd_def dest: table_kept split: option.splits)

lemma namex_loop_table [table_kept]: "namex_loop env b ip p l v = Some (r, v') \<Longrightarrow> table v v'"
proof -
  have "ftable v = T \<Longrightarrow> holds (\<lambda>s. ftable s = T) (namex_loop env b ip p l v)" for T
  proof (induction env b ip p l v rule: namex_loop.induct)
    case (1 env b ip p l v)
    show ?case
      by (subst namex_loop.simps, intro holds_rules; (rule "1.IH", assumption, erule sym, assumption, assumption, assumption, erule sym, assumption, assumption)?)
         (auto dest: table_kept simp: "1.prems")
  qed
  then show "namex_loop env b ip p l v = Some (r, v') \<Longrightarrow> table v v'" by (blast dest: holdsD)
qed

lemma namexat_table [table_kept]: "namexat env base path b v = Some (r, v') \<Longrightarrow> table v v'"
proof (rule holdsD [of "table v"])
  show "holds (table v) (namexat env base path b v)"
    unfolding namexat_def by (intro holds_rules) (auto dest!: table_kept simp: holds_def split: if_splits option.splits)
qed

lemma nameiat_table [table_kept]: "nameiat env base path v = Some (r, v') \<Longrightarrow> table v v'"
  by (auto simp: nameiat_def dest!: table_kept split: bind_splits)

lemma nameiparentat_table [table_kept]: "nameiparentat env base path v = Some (r, v') \<Longrightarrow> table v v'"
  by (auto simp: nameiparentat_def dest!: table_kept)

lemma namei_table [table_kept]: "namei env path v = Some (r, v') \<Longrightarrow> table v v'"
  by (auto simp: namei_def dest!: table_kept)

lemma drop_link_table [simp]: "ftable (drop_link ip v) = ftable v"
  by (simp add: drop_link_def Let_def split: option.splits)

lemma vfs_mkdir_at_table [table_kept]: "vfs_mkdir_at env base path v = Some (r, v') \<Longrightarrow> table v v'"
proof (rule holdsD [of "table v"])
  show "holds (table v) (vfs_mkdir_at env base path v)"
    unfolding vfs_mkdir_at_def Let_def by (intro holds_rules) (auto dest!: table_kept simp: holds_def)
qed

lemma vfs_unlink_at_table [table_kept]: "vfs_unlink_at env u base path v = Some (r, v') \<Longrightarrow> table v v'"
proof (rule holdsD [of "table v"])
  show "holds (table v) (vfs_unlink_at env u base path v)"
    unfolding vfs_unlink_at_def Let_def by (intro holds_rules) (auto dest!: table_kept simp: holds_def)
qed

lemma vfs_rmdir_at_table [table_kept]: "vfs_rmdir_at env u base path v = Some (r, v') \<Longrightarrow> table v v'"
proof (rule holdsD [of "table v"])
  show "holds (table v) (vfs_rmdir_at env u base path v)"
    unfolding vfs_rmdir_at_def Let_def by (intro holds_rules) (auto dest!: table_kept simp: holds_def)
qed

lemma rename_replace_table [table_kept]: "rename_replace env u dp name e v = Some (r, v') \<Longrightarrow> table v v'"
proof (rule holdsD [of "table v"])
  show "holds (table v) (rename_replace env u dp name e v)"
    unfolding rename_replace_def Let_def by (intro holds_rules) (auto dest!: table_kept simp: holds_def)
qed

lemma rename_move_table [table_kept]: "rename_move env u odp on ndp nn n ip v = Some (r, v') \<Longrightarrow> table v v'"
proof (rule holdsD [of "table v"])
  show "holds (table v) (rename_move env u odp on ndp nn n ip v)"
    unfolding rename_move_def Let_def by (intro holds_rules) (auto dest!: table_kept simp: holds_def)
qed

lemma vfs_rename_at_table [table_kept]: "vfs_rename_at env u ob op nb np v = Some (r, v') \<Longrightarrow> table v v'"
proof (rule holdsD [of "table v"])
  show "holds (table v) (vfs_rename_at env u ob op nb np v)"
    unfolding vfs_rename_at_def Let_def by (intro holds_rules) (auto dest!: table_kept simp: holds_def)
qed

lemma vfs_link_at_table [table_kept]: "vfs_link_at env ob op nb np v = Some (r, v') \<Longrightarrow> table v v'"
proof (rule holdsD [of "table v"])
  show "holds (table v) (vfs_link_at env ob op nb np v)"
    unfolding vfs_link_at_def Let_def by (intro holds_rules) (auto dest!: table_kept simp: holds_def)
qed

lemma vfs_chmod_at_table [table_kept]: "vfs_chmod_at env base path m v = Some (r, v') \<Longrightarrow> table v v'"
proof (rule holdsD [of "table v"])
  show "holds (table v) (vfs_chmod_at env base path m v)"
    unfolding vfs_chmod_at_def Let_def by (intro holds_rules) (auto dest!: table_kept simp: holds_def)
qed

lemma vfs_stat_at_table [table_kept]: "vfs_stat_at env base path v = Some (r, v') \<Longrightarrow> table v v'"
proof (rule holdsD [of "table v"])
  show "holds (table v) (vfs_stat_at env base path v)"
    unfolding vfs_stat_at_def Let_def by (intro holds_rules) (auto dest!: table_kept simp: holds_def)
qed

lemma vfs_chdir_table [table_kept]: "vfs_chdir env path v = Some (r, v') \<Longrightarrow> table v v'"
proof (rule holdsD [of "table v"])
  show "holds (table v) (vfs_chdir env path v)"
    unfolding vfs_chdir_def Let_def by (intro holds_rules) (auto dest!: table_kept simp: holds_def)
qed

lemma open_target_table [table_kept]: "open_target env base path fl v = Some (r, v') \<Longrightarrow> table v v'"
proof (rule holdsD [of "table v"])
  show "holds (table v) (open_target env base path fl v)"
    unfolding open_target_def Let_def by (intro holds_rules) (auto dest!: table_kept simp: holds_def)
qed

section \<open>Counts\<close>

definition counts :: "'w vfs \<Rightarrow> nat \<Rightarrow> int" where
  "counts v f = fref (ftable v f)"

lemma counts_table: "table v v' \<Longrightarrow> counts v' = counts v"
  by (simp add: counts_def fun_eq_iff)

lemma counts_simps [simp]:
  "counts (set_errno e v) = counts v" "counts (upd_node i g v) = counts v" "counts (vfs_ifree i v) = counts v"
  "counts (v\<lparr>world := w\<rparr>) = counts v" "counts (v\<lparr>fsys := s\<rparr>) = counts v" "counts (v\<lparr>pipes := q\<rparr>) = counts v"
  by (simp_all add: counts_def fun_eq_iff)

lemma counts_upd_file: "counts (upd_file f g v) = (counts v)(f := fref (g (ftable v f)))"
  by (simp add: counts_def upd_file_def fun_eq_iff)

lemma counts_upd_same [simp]: "(\<And>x. fref (g x) = fref x) \<Longrightarrow> counts (upd_file f g v) = counts v"
  by (simp add: counts_def upd_file_def fun_eq_iff)

lemma close_pipe_table [simp]: "ftable (close_pipe x v) = ftable v"
  by (simp add: close_pipe_def Let_def split: option.splits)

lemma counts_advance [simp]: "counts (advance f r v) = counts v"
  by (simp add: advance_def)

lemma counts_filedup [simp]: "counts v f \<ge> 1 \<Longrightarrow> counts (filedup f v) = (counts v)(f := counts v f + 1)"
  by (simp add: filedup_def counts_upd_file) (simp add: counts_def)

lemma counts_fileclose [simp]: "counts v f \<ge> 1 \<Longrightarrow> counts (fileclose env f v) = (counts v)(f := counts v f - 1)"
  by (auto simp: fileclose_def Let_def counts_def upd_file_def fun_eq_iff split: option.splits)

lemma filealloc_loop_counts:
  "filealloc_loop i v = (r, v') \<Longrightarrow>
   (case r of None \<Rightarrow> counts v' = counts v | Some f \<Rightarrow> counts v f = 0 \<and> counts v' = (counts v)(f := 1))"
proof (induction i v rule: filealloc_loop.induct)
  case (1 i v)
  then show ?case
    by (subst (asm) (2) filealloc_loop.simps) (auto simp: counts_upd_file split: if_splits, simp_all add: counts_def)
qed

lemma filealloc_None: "filealloc v = (None, v') \<Longrightarrow> counts v' = counts v"
  and filealloc_Some: "filealloc v = (Some f, v') \<Longrightarrow> counts v f = 0 \<and> counts v' = (counts v)(f := 1)"
  by (auto simp: filealloc_def dest: filealloc_loop_counts)

lemma fileread_counts: "fileread env f n v = Some (r, bs, v') \<Longrightarrow> counts v' = counts v"
  by (auto simp: fileread_def Let_def split: if_splits fd_type.splits option.splits bind_splits prod.splits backend.splits)

lemma filewrite_counts: "filewrite env f bs n v = Some (r, v') \<Longrightarrow> counts v' = counts v"
  by (auto simp: filewrite_def Let_def dest!: table_kept counts_table
      split: if_splits fd_type.splits option.splits bind_splits prod.splits)

lemma filetruncate_counts: "filetruncate env f n v = Some (r, v') \<Longrightarrow> counts v' = counts v"
  by (auto simp: filetruncate_def Let_def dest!: table_kept counts_table split: if_splits option.splits bind_splits prod.splits)

text \<open>Opening: a file whose count goes from 0 to 1, or no change.\<close>

definition opened :: "'w vfs \<Rightarrow> nat option \<Rightarrow> 'w vfs \<Rightarrow> bool" where
  "opened v r v' \<longleftrightarrow> (case r of None \<Rightarrow> counts v' = counts v | Some f \<Rightarrow> counts v f = 0 \<and> counts v' = (counts v)(f := 1))"

lemma opened_simps [simp]:
  "opened v None v' \<longleftrightarrow> counts v' = counts v"
  "opened v (Some f) v' \<longleftrightarrow> counts v f = 0 \<and> counts v' = (counts v)(f := 1)"
  by (simp_all add: opened_def)

lemma open_inode_counts: "open_inode env i fl v = Some (r, v') \<Longrightarrow> opened v r v'"
  unfolding open_inode_def Let_def
  by (auto dest!: table_kept counts_table filealloc_None filealloc_Some split: if_splits option.splits bind_splits prod.splits)

lemma vfs_open_at_counts: "vfs_open_at env base path fl v = Some (r, v') \<Longrightarrow> opened v r v'"
  by (auto simp: vfs_open_at_def opened_def dest!: open_inode_counts table_kept counts_table split: bind_splits option.splits)

lemma vfs_pipe_counts:
  assumes "vfs_pipe env v = Some (r, v')"
  shows "case r of Inl e \<Rightarrow> counts v' = counts v
    | Inr (a, b) \<Rightarrow> a \<noteq> b \<and> counts v a = 0 \<and> counts v b = 0 \<and> counts v' = (counts v)(a := 1, b := 1)"
  using assms unfolding vfs_pipe_def Let_def
  by (auto simp: fun_upd_idem dest!: filealloc_None filealloc_Some split: if_splits option.splits bind_splits prod.splits)

section \<open>Descriptors\<close>

definition holders :: "nat \<Rightarrow> fds \<Rightarrow> int" where
  "holders f t = (\<Sum>i\<leftarrow>[0..<16]. of_bool (t i = Some f))"

definition held :: "fds list \<Rightarrow> nat \<Rightarrow> int" where
  "held ts f = (\<Sum>t\<leftarrow>ts. holders f t)"

text \<open>A zombie has closed its descriptors.\<close>

definition refs_ok :: "'w kernel \<Rightarrow> bool" where
  "refs_ok k \<longleftrightarrow> (\<forall>f. counts (kvfs k) f = held (map pfds (procs k)) f) \<and>
     list_all (\<lambda>p. pstate p = PROC_ZOMBIE \<longrightarrow> list_all (\<lambda>i. pfds p i = None) [0..<16]) (procs k)"

lemma holders_sum: "holders f t = (\<Sum>i\<in>{..<16}. of_bool (t i = Some f))"
  by (simp add: holders_def interv_sum_list_conv_sum_set_nat atLeast0LessThan)

lemma holders_set:
  assumes "fd < 16"
  shows "holders f (t(fd := x)) = holders f t + of_bool (x = Some f) - of_bool (t fd = Some f)"
proof -
  have fin: "finite {..<16::nat}" "fd \<in> {..<16}" using assms by auto
  have "(\<Sum>i\<in>{..<16} - {fd}. of_bool ((t(fd := x)) i = Some f)) = (\<Sum>i\<in>{..<16} - {fd}. of_bool (t i = Some f) :: int)"
    by (rule sum.cong) auto
  then show ?thesis unfolding holders_sum using sum.remove [OF fin, of "\<lambda>i. of_bool ((t(fd := x)) i = Some f) :: int"]
      sum.remove [OF fin, of "\<lambda>i. of_bool (t i = Some f) :: int"] by simp
qed

lemma holders_nonneg [simp]: "0 \<le> holders f t"
  by (simp add: holders_sum sum_nonneg)

lemma holders_pos: "fd < 16 \<Longrightarrow> t fd = Some f \<Longrightarrow> 1 \<le> holders f t"
  using holders_set [of fd f t None] holders_nonneg [of f "t(fd := None)"] by simp

lemma holders_empty: "(\<And>i. i < 16 \<Longrightarrow> t i = None) \<Longrightarrow> holders f t = 0"
  by (simp add: holders_sum)

lemma held_Cons: "held (t # ts) f = holders f t + held ts f" and held_Nil: "held [] f = 0"
  by (simp_all add: held_def)

lemma held_append [simp]: "held (ts @ us) f = held ts f + held us f"
  by (simp add: held_def)

lemma held_nonneg: "0 \<le> held ts f"
  by (induction ts) (simp_all add: held_Cons held_Nil)

lemma held_update: "i < length ts \<Longrightarrow> held (ts[i := t]) f = held ts f + holders f t - holders f (ts ! i)"
proof (induction ts arbitrary: i)
  case (Cons u us)
  then show ?case by (cases i) (auto simp: held_Cons)
qed simp

lemma held_ge: "i < length ts \<Longrightarrow> holders f (ts ! i) \<le> held ts f"
  using held_update [of i ts "\<lambda>_. None" f] held_nonneg [of "ts[i := (\<lambda>_. None)]" f] by (simp add: holders_empty)

lemma fdalloc_loop_cases:
  "fdalloc_loop i t f = (r, t') \<Longrightarrow> (r = -1 \<and> t' = t) \<or> (\<exists>fd<16. r = int fd \<and> t fd = None \<and> t' = t(fd \<mapsto> f))"
proof (induction i t f rule: fdalloc_loop.induct)
  case (1 i t f)
  then show ?case
    by (subst (asm) (2) fdalloc_loop.simps) (auto simp: FD_MAX_def fun_upd_def split: if_splits)
qed

lemma fdalloc_cases:
  assumes "fdalloc t f = (r, t')"
  obtains "r = -1" "t' = t" | fd where "fd < 16" "r = int fd" "t fd = None" "t' = t(fd \<mapsto> f)"
  using fdalloc_loop_cases [of 0 t f r t'] assms by (auto simp: fdalloc_def)

lemma fdget_Some: "fdget t fd = Some f \<Longrightarrow> 0 \<le> fd \<and> nat fd < 16 \<and> t (nat fd) = Some f"
  by (auto simp: fdget_def FD_MAX_def split: if_splits)

section \<open>Calls that leave counts and descriptors alone\<close>

definition is_live :: "'w kernel \<Rightarrow> bool" where
  "is_live k \<longleftrightarrow> cur k < length (procs k) \<and> pstate (curp k) \<noteq> PROC_ZOMBIE"

definition fd_view :: "'w kernel \<Rightarrow> (nat \<Rightarrow> int) \<times> (fds \<times> u32) list" where
  "fd_view k = (counts (kvfs k), map (\<lambda>p. (pfds p, pstate p)) (procs k))"

lemma fd_view_length: "fd_view k' = fd_view k \<Longrightarrow> length (procs k') = length (procs k)"
  by (auto simp: fd_view_def dest: map_eq_imp_length_eq)

lemma fd_view_nth: "fd_view k' = fd_view k \<Longrightarrow> i < length (procs k) \<Longrightarrow>
    pfds (procs k' ! i) = pfds (procs k ! i) \<and> pstate (procs k' ! i) = pstate (procs k ! i)"
  using fd_view_length [of k' k] unfolding fd_view_def by (auto dest!: arg_cong [of _ _ "\<lambda>xs. xs ! i"])

lemma refs_ok_view: assumes "fd_view k' = fd_view k" shows "refs_ok k' \<longleftrightarrow> refs_ok k"
proof -
  have "map pfds (procs k') = map pfds (procs k)"
    using assms fd_view_length [OF assms] by (auto intro!: nth_equalityI dest: fd_view_nth)
  moreover have "counts (kvfs k') = counts (kvfs k)" using assms by (simp add: fd_view_def)
  ultimately show ?thesis
    using fd_view_length [OF assms] fd_view_nth [OF assms] by (auto simp: refs_ok_def list_all_length)
qed

lemma fd_view_upd_proc [simp]:
  assumes "\<And>p. pfds (g p) = pfds p" and "\<And>p. pstate (g p) = pstate p"
  shows "fd_view (upd_proc i g k) = fd_view k"
proof -
  have "map (\<lambda>p. (pfds p, pstate p)) ((procs k)[i := g (procs k ! i)]) = map (\<lambda>p. (pfds p, pstate p)) (procs k)"
    by (cases "i < length (procs k)") (simp_all add: map_update assms list_update_same_conv list_update_beyond)
  then show ?thesis by (simp add: fd_view_def upd_proc_def)
qed

lemma fd_view_simps [simp]:
  "fd_view (set_mach m k) = fd_view k" "fd_view (set_fsys s k) = fd_view k" "fd_view (k\<lparr>cur := c\<rparr>) = fd_view k"
  "fd_view (k\<lparr>foreground_pgid := g\<rparr>) = fd_view k" "fd_view (k\<lparr>gs_base := b\<rparr>) = fd_view k" "fd_view (k\<lparr>next_pid := n\<rparr>) = fd_view k"
  "fd_view (kstore a w k) = fd_view k" "fd_view (clear_errno k) = fd_view k"
  by (simp_all add: fd_view_def set_mach_def set_fsys_def kstore_def clear_errno_def set_vfs_def)

lemma fd_view_set_vfs: "counts v = counts (kvfs k) \<Longrightarrow> fd_view (set_vfs v k) = fd_view k"
  by (simp add: fd_view_def set_vfs_def)

lemma clear_errno_simps [simp]: "procs (clear_errno k) = procs k" "cur (clear_errno k) = cur k" "counts (kvfs (clear_errno k)) = counts (kvfs k)"
  by (simp_all add: clear_errno_def set_vfs_def)

abbreviation unmoved :: "'w kernel \<Rightarrow> 'w kernel \<Rightarrow> bool" where
  "unmoved k k' \<equiv> fd_view k' = fd_view k"

lemma sys_read_view: "holds (unmoved k) (sys_read env fd buf n k)"
  unfolding sys_read_def by (intro holds_rules) (auto dest: fileread_counts intro: fd_view_set_vfs)

lemma sys_write_view: "holds (unmoved k) (sys_write env fd bs n k)"
  unfolding sys_write_def by (intro holds_rules) (auto dest: filewrite_counts intro: fd_view_set_vfs)

lemma sys_fchmod_view: "holds (unmoved k) (sys_fchmod fd m k)"
  unfolding sys_fchmod_def by (intro holds_rules) (auto intro: fd_view_set_vfs)

lemma sys_lseek_view: "holds (unmoved k) (sys_lseek fd off wh k)"
  unfolding sys_lseek_def Let_def by (intro holds_rules) (auto intro: fd_view_set_vfs)

lemma sys_getdents_view: "holds (unmoved k) (sys_getdents env fd buf mx k)"
  unfolding sys_getdents_def Let_def by (intro holds_rules) (auto intro: fd_view_set_vfs)

lemma sys_fstat_view: "holds (unmoved k) (sys_fstat fd buf k)"
  unfolding sys_fstat_def by (intro holds_rules) auto

lemma vfs_result_view: "(\<And>r v. x = Some (r, v) \<Longrightarrow> counts v = counts (kvfs k)) \<Longrightarrow> holds (unmoved k) (vfs_result x k)"
  unfolding vfs_result_def Let_def by (intro holds_rules) (auto intro: fd_view_set_vfs)

lemma vfs_result_clear:
  assumes "\<And>r v. x = Some (r, v) \<Longrightarrow> counts v = counts (kvfs (clear_errno k))"
  shows "holds (unmoved k) (vfs_result x (clear_errno k))"
  using vfs_result_view [of x "clear_errno k"] assms by simp

lemma path_call_view: "(\<And>r v v'. f v = Some (r, v') \<Longrightarrow> table v v') \<Longrightarrow> holds (unmoved k) (path_call f k)"
  unfolding path_call_def Let_def by (intro vfs_result_clear counts_table)

lemma sys_ftruncate_view: "holds (unmoved k) (sys_ftruncate env fd n k)"
  unfolding sys_ftruncate_def Let_def by (intro holds_rules vfs_result_clear filetruncate_counts) auto

lemma sys_statat_view: "holds (unmoved k) (sys_statat env base path buf k)"
  unfolding sys_statat_def Let_def
  by (intro holds_rules) (auto dest!: table_kept counts_table simp: fd_view_set_vfs)

lemma sys_stat_view: "holds (unmoved k) (sys_stat env path buf k)"
  unfolding sys_stat_def Let_def
  by (intro holds_rules) (auto dest!: table_kept counts_table simp: fd_view_set_vfs)

lemma sys_getcwd_view: "holds (unmoved k) (sys_getcwd buf sz k)"
  unfolding sys_getcwd_def Let_def vfs_getcwd_def
  by (intro holds_rules) (auto simp: fd_view_set_vfs split: if_splits)

section \<open>Calls that open, duplicate and close\<close>

lemma set_fds_simps [simp]:
  "kvfs (set_fds t k) = kvfs k" "cur (set_fds t k) = cur k" "kvfs (set_vfs v k) = v" "procs (set_vfs v k) = procs k"
  "cur (set_vfs v k) = cur k" "cur_fds (set_vfs v k) = cur_fds k" "set_vfs v (set_vfs w k) = set_vfs v k"
  "set_fds t (set_vfs v k) = set_vfs v (set_fds t k)"
  "cur_fds (clear_errno k) = cur_fds k"
  by (simp_all add: set_fds_def upd_proc_def set_vfs_def cur_fds_def curp_def clear_errno_def)

lemma set_fds_twice [simp]: "set_fds t (set_fds u k) = set_fds t k"
  by (cases "cur k < length (procs k)") (simp_all add: set_fds_def upd_proc_def list_update_beyond)

lemma is_live_simps [simp]: "is_live (set_vfs v k) = is_live k" "is_live (clear_errno k) = is_live k"
  by (simp_all add: is_live_def curp_def)

lemma cur_fds_set_fds [simp]: "is_live k \<Longrightarrow> cur_fds (set_fds t k) = t"
  by (simp add: set_fds_def upd_proc_def cur_fds_def curp_def is_live_def)

text \<open>The counts that go with a table, and the move from one table to another.\<close>

definition matches :: "(nat \<Rightarrow> int) \<Rightarrow> fds \<Rightarrow> 'w kernel \<Rightarrow> bool" where
  "matches c t k \<longleftrightarrow> (\<forall>f. c f = counts (kvfs k) f + holders f t - holders f (cur_fds k))"

lemma refs_ok_moved:
  assumes "refs_ok k" and "is_live k" and "matches (counts v) t k"
  shows "refs_ok (set_vfs v (set_fds t k))"
proof -
  have "held ((map pfds (procs k))[cur k := t]) f = counts v f" for f
    using assms by (simp add: held_update refs_ok_def is_live_def matches_def cur_fds_def curp_def)
  then show ?thesis using assms
    by (auto simp: refs_ok_def set_fds_def upd_proc_def set_vfs_def map_update list_all_length nth_list_update is_live_def curp_def)
qed

lemma matches_cur [simp]: "matches (counts (kvfs k)) (cur_fds k) k"
  by (simp add: matches_def)

lemma matches_add:
  "matches c t k \<Longrightarrow> fd < 16 \<Longrightarrow> t fd = None \<Longrightarrow> matches (c(f := c f + 1)) (t(fd \<mapsto> f)) k"
  by (auto simp: matches_def holders_set)

lemma matches_drop:
  "matches c t k \<Longrightarrow> fd < 16 \<Longrightarrow> t fd = Some f \<Longrightarrow> matches (c(f := c f - 1)) (t(fd := None)) k"
  by (auto simp: matches_def holders_set)

lemma matches_pos:
  assumes "refs_ok k" "is_live k" "matches c t k" "fd < 16" "t fd = Some f"
  shows "1 \<le> c f"
proof -
  have "holders f (cur_fds k) \<le> counts (kvfs k) f"
    using assms held_ge [of "cur k" "map pfds (procs k)" f] by (simp add: refs_ok_def is_live_def cur_fds_def curp_def)
  then show ?thesis using assms holders_pos [of fd t f] by (simp add: matches_def)
qed

lemma fdclose_matches:
  assumes "refs_ok k" "is_live k" "matches (counts v) t k" "fdclose env t fd v = (t', v')"
  shows "matches (counts v') t' k"
proof (cases "fd < 0 \<or> fd \<ge> FD_MAX \<or> t (nat fd) = None")
  case True
  then show ?thesis using assms by (auto simp: fdclose_def split: if_splits)
next
  case False
  then obtain f where f: "t (nat fd) = Some f" and fd: "nat fd < 16" by (auto simp: FD_MAX_def)
  have "1 \<le> counts v f" using matches_pos [OF assms(1-3) fd f] .
  then show ?thesis using False f assms(4) matches_drop [OF assms(3) fd f] by (auto simp: fdclose_def)
qed

lemma sys_close_refs: "refs_ok k \<Longrightarrow> is_live k \<Longrightarrow> holds refs_ok (sys_close env fd k)"
  unfolding sys_close_def Let_def
  by (intro holds_rules refs_ok_moved) (auto intro: fdclose_matches [OF _ _ matches_cur])

lemma fdalloc_matches:
  assumes "matches c t k" and "fdalloc t f = (fd, t')"
  shows "fd \<ge> 0 \<Longrightarrow> matches (c(f := c f + 1)) t' k" and "fd < 0 \<Longrightarrow> t' = t"
  using assms by (auto elim!: fdalloc_cases intro: matches_add)

lemma sys_dup_refs:
  assumes "refs_ok k" "is_live k" and room: "\<And>f. fst (fdalloc (cur_fds k) f) \<ge> 0"
  shows "holds refs_ok (sys_dup fd k)"
  unfolding sys_dup_def Let_def using assms(1,2)
proof (intro holds_rules)
  fix f nfd t
  assume f: "fdget (cur_fds k) fd = Some f" and a: "fdalloc (cur_fds (set_vfs (filedup f (kvfs k)) k)) f = (nfd, t)"
  have "1 \<le> counts (kvfs k) f" using matches_pos [OF assms(1,2) matches_cur] fdget_Some [OF f] by blast
  moreover have "nfd \<ge> 0" using room [of f] a by simp
  ultimately show "refs_ok (set_fds t (set_vfs (filedup f (kvfs k)) k))"
    using fdalloc_matches(1) [OF matches_cur, of k f nfd t] a assms(1,2) by (simp add: refs_ok_moved)
qed

lemma sys_dup2_refs:
  assumes "refs_ok k" "is_live k"
  shows "holds refs_ok (sys_dup2 env ofd nfd k)"
  unfolding sys_dup2_def Let_def using assms
proof (intro holds_rules)
  fix f t v
  assume f: "fdget (cur_fds k) ofd = Some f" and ne: "ofd \<noteq> nfd" and n: "\<not> (nfd < 0 \<or> nfd \<ge> FD_MAX)"
    and c: "fdclose env (cur_fds k) nfd (kvfs k) = (t, v)"
  have m: "matches (counts v) t k" by (rule fdclose_matches [OF assms matches_cur c])
  have t: "t (nat ofd) = Some f" "t (nat nfd) = None" "nat nfd < 16" "nat ofd < 16"
    using fdget_Some [OF f] ne n c by (auto simp: fdclose_def FD_MAX_def nat_eq_iff split: option.splits)
  have "1 \<le> counts v f" by (rule matches_pos [OF assms m t(4,1)])
  then show "refs_ok (set_vfs (filedup f v) (set_fds (t(nat nfd \<mapsto> f)) k))"
    using matches_add [OF m t(3,2), of f] assms by (simp add: refs_ok_moved)
qed auto

lemma refs_ok_clear_errno [simp]: "refs_ok (clear_errno k) = refs_ok k"
  by (rule refs_ok_view) simp

lemma set_cur_fds [simp]: "set_fds (cur_fds k) k = k"
  by (cases "cur k < length (procs k)") (simp_all add: set_fds_def upd_proc_def cur_fds_def curp_def list_update_beyond)

lemma sys_open_refs:
  assumes "refs_ok k" "is_live k"
  shows "holds refs_ok (sys_open env base path fl k)"
  unfolding sys_open_def Let_def
proof (intro holds_rules)
  fix y f v
  assume y: "vfs_open_at env base path fl (kvfs (clear_errno k)) = Some y" "y = (f, v)"
  have o: "opened (kvfs k) f v" using vfs_open_at_counts [of env base path fl "kvfs (clear_errno k)" f v] y by (cases f) auto
  show "refs_ok (set_vfs v (clear_errno k))" if "f = None"
    using o that assms(1) by (subst refs_ok_view [of _ k]) (simp_all add: fd_view_set_vfs)
  fix g fd t
  assume g: "f = Some g" and a: "fdalloc (cur_fds (set_vfs v (clear_errno k))) g = (fd, t)"
  have c: "counts (kvfs k) g = 0" "counts v = (counts (kvfs k))(g := counts (kvfs k) g + 1)" using o g by auto
  have a: "fdalloc (cur_fds k) g = (fd, t)" using a by simp
  show "refs_ok (set_fds t (set_vfs v (clear_errno k)))" if "\<not> fd < 0"
    using that fdalloc_matches(1) [OF matches_cur a] c assms refs_ok_moved [of "clear_errno k" v t]
    by (simp add: matches_def)
  show "refs_ok (set_vfs (fileclose env g (kvfs (set_fds t (set_vfs v (clear_errno k))))) (set_fds t (set_vfs v (clear_errno k))))"
    if "fd < 0"
  proof -
    have "set_fds t (clear_errno k) = clear_errno k" using fdalloc_matches(2) [OF matches_cur a that] set_cur_fds [of "clear_errno k"] by simp
    moreover have "counts (fileclose env g v) = counts (kvfs k)" using c by (simp add: fun_upd_idem)
    ultimately show ?thesis using assms(1) by (subst refs_ok_view [of _ k]) (simp_all add: fd_view_set_vfs)
  qed
qed

lemma fdclose_fdalloc: "fdalloc t f = (fd, t') \<Longrightarrow> 0 \<le> fd \<Longrightarrow> fdclose env t' fd v = (t, fileclose env f v)"
  by (auto simp: fdclose_def FD_MAX_def fun_upd_idem elim!: fdalloc_cases)

lemma refs_ok_restored: "refs_ok k \<Longrightarrow> counts v = counts (kvfs k) \<Longrightarrow> refs_ok (set_vfs v k)"
  by (subst refs_ok_view [of _ k]) (simp_all add: fd_view_set_vfs)

lemma sys_pipe_refs:
  assumes "refs_ok k" "is_live k"
  shows "holds refs_ok (sys_pipe env ufds k)"
proof (cases "vfs_pipe env (kvfs k)")
  case None
  then show ?thesis by (simp add: sys_pipe_def)
next
  case (Some y)
  then obtain e v where y: "vfs_pipe env (kvfs k) = Some (e, v)" by (cases y) auto
  show ?thesis
  proof (cases e)
    case (Inl e)
    then show ?thesis using vfs_pipe_counts [OF y] assms by (simp add: sys_pipe_def y refs_ok_restored)
  next
    case (Inr ab)
    then obtain a b where ab: "e = Inr (a, b)" by (cases ab) auto
    have c: "a \<noteq> b" "counts (kvfs k) a = 0" "counts (kvfs k) b = 0" "counts v = (counts (kvfs k))(a := 1, b := 1)"
      using vfs_pipe_counts [OF y] ab by auto
    obtain fd0 t0 where a0: "fdalloc (cur_fds k) a = (fd0, t0)" by fastforce
    obtain fd1 t1 where a1: "fdalloc t0 b = (fd1, t1)" by fastforce
    have undone: "counts (fileclose env b (fileclose env a v)) = counts (kvfs k)"
      using c by (simp add: fun_upd_idem fun_upd_twist)
    note m0 = fdalloc_matches [OF matches_cur a0]
    consider "0 \<le> fd0" "0 \<le> fd1" | "0 \<le> fd0" "fd1 < 0" | "fd0 < 0" "0 \<le> fd1" | "fd0 < 0" "fd1 < 0" by linarith
    then show ?thesis
    proof cases
      case 1
      have "matches (counts v) t1 k" using fdalloc_matches(1) [OF m0(1) [OF 1(1)] a1 1(2)] c by simp
      then show ?thesis using 1 assms by (simp add: sys_pipe_def y ab a0 a1 Let_def refs_ok_moved)
    next
      case 2
      have "t1 = t0" using fdalloc_matches(2) [OF m0(1) [OF 2(1)] a1 2(2)] .
      then show ?thesis using 2 assms undone
        by (simp add: sys_pipe_def y ab a0 a1 Let_def fdclose_fdalloc [OF a0] refs_ok_restored)
    next
      case 3
      have "t0 = cur_fds k" using m0(2) 3 by simp
      then show ?thesis using 3 assms undone a1
        by (simp add: sys_pipe_def y ab a0 Let_def fdclose_fdalloc [of "cur_fds k" b] refs_ok_restored)
    next
      case 4
      have t: "t0 = cur_fds k" using m0(2) 4 by simp
      have "t1 = cur_fds k" using fdalloc_matches(2) [OF matches_cur, of k b fd1 t1] a1 t 4 by simp
      then show ?thesis using 4 assms undone a1 t
        by (simp add: sys_pipe_def y ab a0 Let_def refs_ok_restored)
    qed
  qed
qed

section \<open>Exit, wait and fork\<close>

lemma close_fds_fdclose:
  assumes "i < 16"
  shows "close_fds env i k = (case fdclose env (cur_fds k) (int i) (kvfs k) of (t, v) \<Rightarrow> set_vfs v (set_fds t k))"
proof (cases "cur_fds k i")
  case None
  then show ?thesis using assms by (simp add: close_fds_def fdclose_def FD_MAX_def cur_fds_def [symmetric]) (simp add: set_vfs_def)
next
  case (Some f)
  have "upd_proc (cur k) (\<lambda>p. p\<lparr>pfds := (pfds p)(i := None)\<rparr>) (set_vfs v k) = set_vfs v (set_fds ((cur_fds k)(i := None)) k)" for v
    by (simp add: set_fds_def upd_proc_def set_vfs_def cur_fds_def curp_def)
  then show ?thesis using Some assms by (simp add: close_fds_def fdclose_def FD_MAX_def cur_fds_def [symmetric])
qed

lemma close_fds_refs:
  assumes "refs_ok k" "is_live k" "i < 16"
  shows "refs_ok (close_fds env i k)" and "is_live (close_fds env i k)" and "cur_fds (close_fds env i k) = (cur_fds k)(i := None)"
proof -
  obtain t v where tv: "fdclose env (cur_fds k) (int i) (kvfs k) = (t, v)" by fastforce
  have "t = (cur_fds k)(i := None)" using tv assms(3) by (auto simp: fdclose_def FD_MAX_def split: option.splits)
  then show "cur_fds (close_fds env i k) = (cur_fds k)(i := None)" using assms by (simp add: close_fds_fdclose tv)
  show "refs_ok (close_fds env i k)"
    using refs_ok_moved [OF assms(1,2) fdclose_matches [OF assms(1,2) matches_cur tv]] assms(3) by (simp add: close_fds_fdclose tv)
  show "is_live (close_fds env i k)"
    using assms by (simp add: close_fds_fdclose tv) (simp add: is_live_def curp_def set_fds_def upd_proc_def)
qed

lemma close_all_refs:
  assumes "refs_ok k" "is_live k" "n \<le> 16"
  shows "refs_ok (fold (close_fds env) [0..<n] k) \<and> is_live (fold (close_fds env) [0..<n] k) \<and>
    (\<forall>i<n. cur_fds (fold (close_fds env) [0..<n] k) i = None)"
  using assms(3)
proof (induction n)
  case 0
  then show ?case using assms by simp
next
  case (Suc n)
  then show ?case using close_fds_refs [of "fold (close_fds env) [0..<n] k" n env] by (auto simp: less_Suc_eq)
qed

lemma remove_slot_refs:
  assumes "refs_ok k" "i < length (procs k)" "\<And>j. j < 16 \<Longrightarrow> pfds (procs k ! i) j = None"
  shows "refs_ok (remove_slot i k)"
proof -
  have "held (map pfds (procs k)) f = held (map pfds (take i (procs k) @ drop (Suc i) (procs k))) f" for f
    using holders_empty [of "pfds (procs k ! i)" f] assms(3) arg_cong [OF id_take_nth_drop [OF assms(2)], of "\<lambda>ps. held (map pfds ps) f"]
    by (simp add: held_Cons)
  then show ?thesis using assms(1) by (auto simp: refs_ok_def remove_slot_def list_all_iff dest: in_set_takeD in_set_dropD)
qed

lemma refs_ok_zombie:
  assumes "refs_ok k" "\<And>j. j < 16 \<Longrightarrow> cur_fds k j = None"
  shows "refs_ok (upd_proc (cur k) (\<lambda>p. p\<lparr>pstate := PROC_ZOMBIE\<rparr>) k)"
proof (cases "cur k < length (procs k)")
  case True
  have "map pfds ((procs k)[cur k := (procs k ! cur k)\<lparr>pstate := PROC_ZOMBIE\<rparr>]) = map pfds (procs k)"
    using True by (simp add: map_update list_update_same_conv)
  then show ?thesis using assms True
    by (auto simp: refs_ok_def upd_proc_def list_all_length nth_list_update cur_fds_def curp_def)
next
  case False
  then show ?thesis using assms by (simp add: upd_proc_def list_update_beyond)
qed

lemma fd_view_set_tls [simp]: "fd_view (process_set_tls p k) = fd_view k"
  by (simp add: process_set_tls_def)

lemma process_exit_refs:
  assumes "refs_ok k" "is_live k" "process_exit env k = (fl, k')"
  shows "refs_ok k'"
proof -
  define k1 where "k1 = fold (close_fds env) [0..<16] k"
  have k1: "refs_ok k1" "is_live k1" "\<And>i. i < 16 \<Longrightarrow> cur_fds k1 i = None"
    using close_all_refs [OF assms(1,2), of 16 env] by (simp_all add: k1_def)
  show ?thesis
  proof (cases "parent_pid (curp k1) > 0")
    case True
    then show ?thesis using assms(3) refs_ok_zombie [OF k1(1,3)]
      by (auto simp: process_exit_def k1_def [symmetric] Let_def refs_ok_view [OF fd_view_upd_proc] split: option.splits)
  next
    case False
    have r: "refs_ok (remove_slot (cur k1) (set_mach m k1))" for m
    proof (rule remove_slot_refs)
      show "refs_ok (set_mach m k1)" using k1(1) refs_ok_view [OF fd_view_simps(1)] by blast
    qed (use k1 in \<open>simp_all add: set_mach_def set_fsys_def is_live_def cur_fds_def curp_def\<close>)
    obtain m k2 where k2: "k2 = remove_slot (cur k1) (set_mach m k1)" "fd_view k' = fd_view k2"
      using False assms(3) by (auto simp: process_exit_def k1_def [symmetric] Let_def split: if_splits)
    show ?thesis using refs_ok_view [OF k2(2)] r [of m] k2(1) by simp
  qed
qed

lemma reap_child_refs:
  assumes "refs_ok k" "i < length (procs k)" "pstate (procs k ! i) = PROC_ZOMBIE" "reap_child i k = (r, k')"
  shows "refs_ok k'"
proof -
  obtain m k2 where k2: "k2 = remove_slot i (set_mach m k)" "fd_view k' = fd_view k2"
    using assms(4) by (auto simp: reap_child_def Let_def split: if_splits)
  have "refs_ok (remove_slot i (set_mach m k))"
  proof (rule remove_slot_refs)
    show "refs_ok (set_mach m k)" using assms(1) refs_ok_view [OF fd_view_simps(1)] by blast
  qed (use assms(1-3) in \<open>simp_all add: set_mach_def set_fsys_def refs_ok_def list_all_length\<close>)
  then show ?thesis using refs_ok_view [OF k2(2)] k2(1) by simp
qed

lemma process_wait_refs: "refs_ok k \<Longrightarrow> process_wait k = (r, k') \<Longrightarrow> refs_ok k'"
  by (auto simp: process_wait_def refs_ok_view [OF fd_view_upd_proc] split: option.splits dest!: first_index_Some intro: reap_child_refs)

lemma process_waitpid_refs: "refs_ok k \<Longrightarrow> process_waitpid n fl k = (r, w, k') \<Longrightarrow> refs_ok k'"
  by (auto simp: process_waitpid_def Let_def split: option.splits if_splits prod.splits dest!: first_index_Some intro: reap_child_refs)

lemma fork_loop_counts:
  assumes "\<And>i f. i \<in> set is \<Longrightarrow> t i = Some f \<Longrightarrow> 1 \<le> counts v f"
  shows "counts (fork_loop is t v) f = counts v f + (\<Sum>i\<leftarrow>is. of_bool (t i = Some f))"
  using assms
proof (induction "is" arbitrary: v)
  case (Cons i js)
  show ?case
  proof (cases "t i")
    case None
    have "1 \<le> counts v h" if "j \<in> set js" "t j = Some h" for j h using Cons.prems [of j h] that by simp
    then show ?thesis using Cons.IH [of v] None by simp
  next
    case (Some g)
    have g: "1 \<le> counts v g" using Cons.prems [of i g] Some by simp
    have "1 \<le> counts (filedup g v) h" if "j \<in> set js" "t j = Some h" for j h
      using Cons.prems [of j h] that g by simp
    then show ?thesis using Cons.IH [of "filedup g v"] g Some by simp
  qed
qed simp

lemma fd_fork_counts:
  assumes "refs_ok k" "is_live k" "fd_fork (cur_fds k) v = (t, v')" "counts v = counts (kvfs k)"
  shows "counts v' f = counts (kvfs k) f + holders f t"
proof -
  have "holders f t = holders f (cur_fds k)" using assms(3) by (auto simp: fd_fork_def holders_def intro!: arg_cong [of _ _ sum_list] map_cong)
  moreover have "1 \<le> counts v g" if "i \<in> set [0..<16]" "cur_fds k i = Some g" for i g
    using matches_pos [OF assms(1,2) matches_cur, of i g] that assms(4) by simp
  ultimately show ?thesis using fork_loop_counts [of "[0..<16]" "cur_fds k" v f] assms(3,4) by (auto simp: fd_fork_def holders_def)
qed

lemma refs_ok_append:
  assumes "refs_ok k" "\<And>f. counts (kvfs k') f = counts (kvfs k) f + holders f (pfds p)" "procs k' = procs k @ [p]"
    "pstate p \<noteq> PROC_ZOMBIE"
  shows "refs_ok k'"
  using assms by (simp add: refs_ok_def held_Cons held_Nil)

lemma kstore_frame [simp]: "counts (kvfs (kstore a w k)) = counts (kvfs k)" "procs (kstore a w k) = procs k"
  by (simp_all add: kstore_def set_mach_def set_fsys_def)

lemma process_fork_refs:
  assumes "refs_ok k" "is_live k"
  shows "holds refs_ok (process_fork k)"
proof -
  have same: "refs_ok (set_mach m k)" for m using assms(1) refs_ok_view [OF fd_view_simps(1)] by blast
  have child: "refs_ok k2"
    if "alloc_pid (set_mach m k) = (n, ka)" "fd_fork (pfds (curp k)) (kvfs ka) = (t, v)" "counts (kvfs k2) = counts v"
      "procs k2 = procs ka @ [p]" "pfds p = t" "pstate p = PROC_RUNNING" for m n ka t v k2 p
  proof (rule refs_ok_append [OF assms(1)])
    have ka: "counts (kvfs ka) = counts (kvfs k)" "procs ka = procs k"
      using that(1) by (auto simp: alloc_pid_def set_mach_def set_fsys_def)
    show "counts (kvfs k2) f = counts (kvfs k) f + holders f (pfds p)" for f
      using fd_fork_counts [OF assms(1,2), of "kvfs ka" t v f] that(2,3,5) ka by (simp add: cur_fds_def)
    show "procs k2 = procs k @ [p]" using that(4) ka by simp
  qed (simp add: that PROC_RUNNING_def PROC_ZOMBIE_def)
  show ?thesis unfolding process_fork_def Let_def
    by (intro holds_rules; (rule child, assumption, assumption)?) (simp_all add: assms same, simp_all)
qed

lemma fd_view_fold_kstore [simp]: "fd_view (fold (\<lambda>i k. kstore (g i k) (h i) k) xs k) = fd_view k"
  by (induction xs arbitrary: k) simp_all

lemma fd_view_patch [simp]: "fd_view (patch_user_frame ent stk k) = fd_view k"
  by (simp add: patch_user_frame_def)

lemma mmap_reset_view: "mmap_reset k = Some k' \<Longrightarrow> fd_view k' = fd_view k"
  by (auto simp: mmap_reset_def split: bind_splits)

lemma process_execve_view: "holds (unmoved k) (process_execve env path av ev k)"
  unfolding process_execve_def vfs_open_def Let_def
proof (intro holds_rules)
  fix y r v
  assume "vfs_open_at env None path O_RDONLY (kvfs k) = Some y" "y = (r, v)"
  then have o: "opened (kvfs k) r v" using vfs_open_at_counts by blast
  show "unmoved k (set_vfs v k)" if "r = None" using o that by (simp add: fd_view_set_vfs)
  fix f
  assume "r = Some f"
  then have c: "counts (kvfs k) f = 0" "counts v = (counts (kvfs k))(f := 1)" using o by auto
  have closed: "unmoved k (set_vfs (fileclose env f (kvfs k1)) k1)" if "fd_view k1 = fd_view (set_vfs v k)" for k1
  proof -
    have k1: "counts (kvfs k1) = counts v" using that by (simp add: fd_view_def)
    have "counts (fileclose env f (kvfs k1)) = counts (kvfs k)" using c k1 by (simp add: fun_upd_idem)
    then show ?thesis using that by (simp add: fd_view_def set_vfs_def)
  qed
  show "unmoved k (set_vfs (fileclose env f (kvfs (set_vfs v k))) (set_vfs v k))" by (rule closed) simp
  fix s
  have s: "unmoved k (set_vfs (fileclose env f (kvfs (set_fsys s (set_vfs v k)))) (set_fsys s (set_vfs v k)))" by (rule closed) simp
  then show "unmoved k (set_vfs (fileclose env f (kvfs (set_fsys s (set_vfs v k)))) (set_fsys s (set_vfs v k)))" .
  fix m k2 stk m2 ent
  assume "mmap_reset (set_mach m (set_vfs (fileclose env f (kvfs (set_fsys s (set_vfs v k)))) (set_fsys s (set_vfs v k)))) = Some k2"
  then have "unmoved k k2" using s by (simp add: mmap_reset_view)
  then show "unmoved k (upd_proc (cur (patch_user_frame ent stk (set_mach m2 k2))) (\<lambda>p. p\<lparr>user_code := ent, user_stack := stk\<rparr>)
     (patch_user_frame ent stk (set_mach m2 k2)))" by simp
qed

section \<open>The handler\<close>

lemma unmoved_refs: "refs_ok k \<Longrightarrow> holds (unmoved k) x \<Longrightarrow> holds refs_ok x"
  unfolding holds_def using refs_ok_view [of _ k] by blast

lemma with_base_refs: "refs_ok k \<Longrightarrow> (\<And>b. holds refs_ok (f b)) \<Longrightarrow> holds refs_ok (with_base fd k f)"
  unfolding with_base_def by (intro holds_rules) auto

lemmas moving_calls = sys_open_refs sys_close_refs sys_dup2_refs sys_pipe_refs

lemmas still_calls = sys_read_view sys_write_view sys_fchmod_view sys_lseek_view sys_getdents_view sys_fstat_view sys_ftruncate_view
  sys_statat_view sys_stat_view sys_getcwd_view

lemma path_calls_refs:
  assumes "refs_ok k"
  shows "holds refs_ok (path_call (vfs_unlink_at env u b path) k)" "holds refs_ok (path_call (vfs_rmdir_at env u b path) k)"
    "holds refs_ok (path_call (vfs_rename_at env u b path b' path') k)" "holds refs_ok (path_call (vfs_link_at env b path b' path') k)"
    "holds refs_ok (path_call (vfs_chmod_at env b path m) k)" "holds refs_ok (path_call (vfs_chdir env path) k)"
    "holds refs_ok (path_call (vfs_mkdir_at env b path) k)"
  by (rule unmoved_refs [OF assms path_call_view], erule table_kept)+

lemma fdalloc_room: "fd < 16 \<Longrightarrow> t fd = None \<Longrightarrow> 0 \<le> fst (fdalloc t f)"
proof -
  have "i \<le> fd \<Longrightarrow> fd < 16 \<Longrightarrow> t fd = None \<Longrightarrow> 0 \<le> fst (fdalloc_loop i t f)" for i
  proof (induction i t f rule: fdalloc_loop.induct)
    case (1 i t f)
    then show ?case by (cases "i = fd"; subst fdalloc_loop.simps) (auto simp: FD_MAX_def)
  qed
  then show "fd < 16 \<Longrightarrow> t fd = None \<Longrightarrow> 0 \<le> fst (fdalloc t f)" by (simp add: fdalloc_def)
qed

definition has_room :: "'w kernel \<Rightarrow> bool" where
  "has_room k \<longleftrightarrow> list_ex (\<lambda>i. cur_fds k i = None) [0..<16]"

lemma file_call_refs:
  assumes "refs_ok k" "is_live k" "eax = SYS_DUP \<longrightarrow> has_room k"
  shows "holds refs_ok (file_call env u um eax ebx ecx edx esi k)"
proof -
  have dup: "holds refs_ok (sys_dup fd k)" if "eax = SYS_DUP" for fd
    using assms that fdalloc_room [of _ "cur_fds k"] by (intro sys_dup_refs) (auto simp: has_room_def list_ex_iff)
  show ?thesis unfolding file_call_def
    by (intro holds_if holds_return assms(1) moving_calls [OF assms(1,2)] with_base_refs [OF assms(1)] path_calls_refs [OF assms(1)]
        still_calls [THEN unmoved_refs [OF assms(1)]] dup) (auto simp: path_calls_refs assms(1))
qed

lemma fd_view_procs: "map (\<lambda>p. (pfds p, pstate p)) ps = map (\<lambda>p. (pfds p, pstate p)) (procs k) \<Longrightarrow> fd_view (k\<lparr>procs := ps\<rparr>) = fd_view k"
  by (simp add: fd_view_def)

lemma process_kill_view: "process_kill n sig k = (r, k') \<Longrightarrow> unmoved k k'"
  by (auto simp: process_kill_def Let_def intro!: fd_view_procs split: if_splits)

lemma process_sigaction_view: "process_sigaction sig act k = (r, w, k') \<Longrightarrow> unmoved k k'"
  by (auto simp: process_sigaction_def split: if_splits option.splits)

lemma process_sigreturn_view: "process_sigreturn k = (r, k') \<Longrightarrow> unmoved k k'"
  by (auto simp: process_sigreturn_def Let_def simp del: fold.simps upt.simps)

lemma process_setpgid_view: "process_setpgid n g k = (r, k') \<Longrightarrow> unmoved k k'"
  by (auto simp: process_setpgid_def Let_def split: option.splits)

lemma process_setsid_view: "process_setsid k = (r, k') \<Longrightarrow> unmoved k k'"
  by (auto simp: process_setsid_def Let_def)

lemma sys_mmap_view: "holds (unmoved k) (sys_mmap len k)"
  unfolding sys_mmap_def Let_def by (intro holds_rules) auto

lemma returning_holds: "holds P x \<Longrightarrow> holds P (returning x)"
  by (auto simp: returning_def holds_def)

lemma returning_Some: "(\<And>r k'. x = (r, k') \<Longrightarrow> P k') \<Longrightarrow> holds P (returning (Some x))"
  by (cases x) (simp add: returning_def)

lemma sys_exit_refs:
  assumes "refs_ok k" "is_live k"
  shows "holds refs_ok (sys_exit env code k)"
proof -
  let ?k = "upd_proc (cur k) (\<lambda>p. p\<lparr>exit_code := code\<rparr>) k"
  have "refs_ok ?k" using assms(1) by (subst refs_ok_view [of _ k]) simp_all
  moreover have "is_live ?k" using assms(2) by (simp add: is_live_def upd_proc_def curp_def)
  ultimately show ?thesis unfolding sys_exit_def Let_def by (intro holds_rules) (auto intro: process_exit_refs)
qed

lemma process_call_refs:
  assumes "refs_ok k" "is_live k"
  shows "holds refs_ok (process_call env um eax ebx ecx edx k)"
proof -
  note v = refs_ok_view [of _ k, THEN iffD2, OF _ assms(1)]
  have w: "holds refs_ok (sys_waitpid n fl st k)" for n fl st
    unfolding sys_waitpid_def Let_def by (intro holds_rules) (auto intro: process_waitpid_refs [OF assms(1)])
  have s: "holds refs_ok (sys_sigaction um n fl st k)" for n fl st
    unfolding sys_sigaction_def Let_def by (intro holds_rules) (auto intro: v process_sigaction_view)
  have i: "holds refs_ok (sys_get_process_info n buf k)" for n buf
    unfolding sys_get_process_info_def by (intro holds_rules) (auto simp: assms(1))
  show ?thesis unfolding process_call_def
    by (intro holds_if holds_return returning_Some sys_exit_refs [OF assms] returning_holds process_fork_refs [OF assms]
        process_execve_view [THEN unmoved_refs [OF assms(1)]] sys_mmap_view [THEN unmoved_refs [OF assms(1)]] w s i)
      (auto simp: assms(1) process_sleep_def intro: v process_wait_refs [OF assms(1)] process_kill_view process_sigreturn_view
        process_setpgid_view process_setsid_view)
qed

lemma console_call_kern: "holds (\<lambda>s'. kern s' = kern s) (console_call eax ebx s)"
  unfolding console_call_def
  by (intro holds_if holds_return)
     (auto simp: holds_def machine_restart_def machine_shutdown_def machine_halt_def machine_power_off_def announce_def say_def
       console_getchar_def console_getchar_src_def split: bind_splits list.splits)

lemma on_kern_holds: "holds P (f (kern s)) \<Longrightarrow> holds (\<lambda>s'. P (kern s')) (on_kern f s)"
  by (auto simp: on_kern_def holds_def)

section \<open>Properties\<close>


lemmas syscall_numbers = SYS_READ_def SYS_WRITE_def SYS_EXIT_def SYS_SLEEP_def SYS_FORK_def SYS_EXECVE_def
  SYS_WAIT_def SYS_RESTART_SYSCALL_def SYS_OPEN_def SYS_CLOSE_def SYS_WAITPID_def SYS_CREAT_def
  SYS_LINK_def SYS_UNLINK_def SYS_SETUID_def SYS_GETUID_def SYS_SHUTDOWN_def SYS_POWEROFF_def
  SYS_CLEAR_def SYS_GETCHAR_def SYS_VGASPACE_def SYS_GETPID_def SYS_GET_PROCESS_INFO_def SYS_GET_PROCESS_COUNT_def
  SYS_LSEEK_def SYS_STAT_def SYS_FSTAT_def SYS_MKDIR_def SYS_GETDENTS_def SYS_DUP_def
  SYS_MMAP_def SYS_MUNMAP_def SYS_SET_TLS_def SYS_RENAME_def SYS_RMDIR_def SYS_FTRUNCATE_def
  SYS_DUP2_def SYS_CHMOD_def SYS_FCHMOD_def SYS_CHDIR_def SYS_GETCWD_def SYS_OPENAT_def
  SYS_STATAT_def SYS_UNLINKAT_def SYS_MKDIRAT_def SYS_RENAMEAT_def SYS_LINKAT_def SYS_PIPE_def
  SYS_KILL_def SYS_SIGACTION_def SYS_SIGPROCMASK_def SYS_SETPGID_def SYS_GETPGID_def SYS_GETSID_def
  SYS_SETSID_def SYS_TCGETPGRP_def SYS_TCSETPGRP_def SYS_TTYGETMODE_def SYS_TTYSETMODE_def SYS_REBOOT_def

text \<open>A process with one open file; \<open>dup\<close> gives it the descriptor 1 and the file a second reference.\<close>

definition fd_example :: "unit machine_state" where
  "fd_example = console_example\<lparr>kern := (kern console_example)\<lparr>procs := [zero_process\<lparr>pid := 1, pstate := PROC_RUNNING, pfds := [0 \<mapsto> 0]\<rparr>]\<rparr>\<rparr>"

definition um_example :: user_mem where
  "um_example = \<lparr>u_str = (\<lambda>_. []), u_vec = (\<lambda>_. []), u_word = (\<lambda>_. 0), u_bytes = (\<lambda>_ n. replicate n 0)\<rparr>"

lemma holders_single: "holders f [0 \<mapsto> g] = of_bool (f = g)"
  using holders_set [of 0 f Map.empty "Some g"] holders_empty [of Map.empty f] by auto

lemma fd_example_ok: "refs_ok (kern fd_example)" "is_live (kern fd_example)" "has_room (kern fd_example)"
proof -
  show "refs_ok (kern fd_example)"
    by (simp add: refs_ok_def fd_example_def console_example_def vfs_example_def counts_def zero_file_def held_def holders_single
        PROC_RUNNING_def PROC_ZOMBIE_def)
  show "is_live (kern fd_example)"
    by (simp add: fd_example_def console_example_def is_live_def curp_def PROC_RUNNING_def PROC_ZOMBIE_def)
  show "has_room (kern fd_example)"
    by (auto simp: fd_example_def console_example_def has_room_def cur_fds_def curp_def list_ex_iff intro!: bexI [of _ 1])
qed


text \<open>The exception: the count goes up although no descriptor was made, and nothing takes it back.\<close>

lemma sys_dup_leaks:
  assumes "refs_ok k" "is_live k" "\<not> has_room k" "fdget (cur_fds k) fd = Some f"
  shows "\<exists>k'. sys_dup fd k = Some (Ret (-1) [], k') \<and> counts (kvfs k') f = counts (kvfs k) f + 1 \<and> cur_fds k' = cur_fds k \<and> \<not> refs_ok k'"
proof -
  obtain nfd t where a: "fdalloc (cur_fds k) f = (nfd, t)" by fastforce
  have "nfd = -1 \<and> t = cur_fds k"
    by (rule fdalloc_cases [OF a]) (use assms(3) in \<open>force simp: has_room_def list_ex_iff\<close>)+
  then have d: "sys_dup fd k = Some (Ret (-1) [], set_vfs (filedup f (kvfs k)) k)" using assms(4) a by (simp add: sys_dup_def Let_def)
  have "1 \<le> counts (kvfs k) f" using matches_pos [OF assms(1,2) matches_cur] fdget_Some [OF assms(4)] by blast
  then have "counts (filedup f (kvfs k)) f = counts (kvfs k) f + 1" by simp
  moreover from this have "\<not> refs_ok (set_vfs (filedup f (kvfs k)) k)" using assms(1) by (auto simp: refs_ok_def intro!: exI [of _ f])
  ultimately show ?thesis using d by (intro exI [of _ "set_vfs (filedup f (kvfs k)) k"]) simp
qed

end
