(* ===== verification/Listing.thy ===== *)
theory Listing
  imports Descriptors
begin

text \<open>
  Reading the directory \<open>/proc\<close> through \<open>getdents\<close> (\<open>kernel/fs/procfs.c\<close>, \<open>kernel/task/syscall.c\<close>): what the calls deliver, against
  the list of all entries.
\<close>

section \<open>The list of entries\<close>

definition pid_name :: "u32 \<Rightarrow> u8 list" where
  "pid_name n = (if sint n < 0 then [45] @ rev (digit_loop digits_lower 10 (word_of_int (- (sint n + 1)) + 1)) else rev (digit_loop digits_lower 10 n))"

definition proc_listing :: "(nat \<Rightarrow> u32) \<Rightarrow> inode \<Rightarrow> 'w kernel \<Rightarrow> dirent list" where
  "proc_listing ino dir k =
     [proc_dirent (inum dir) dot T_DIR 0, proc_dirent ROOTINO dotdot T_DIR 1, proc_dirent (ino 0) cpuinfo_name T_FILE 2,
      proc_dirent (ino 1) meminfo_name T_FILE 3, proc_dirent (ino 2) loadavg_name T_FILE 4, proc_dirent (ino 3) version_name T_FILE 5] @
     map (\<lambda>i. proc_dirent (PROC_INO_BASE + pid (procs k ! i)) (pid_name (pid (procs k ! i))) T_DIR (of_nat (6 + i))) [0..<process_count k]"

lemma length_proc_listing [simp]: "length (proc_listing ino dir k) = 6 + process_count k"
  by (simp add: proc_listing_def)

lemma kitoa_pid: "kitoa (sint (n :: u32)) 10 = Some (pid_name n)"
  by (simp add: kitoa_def pid_name_def)

lemma process_get_info_pid: "i < process_count k \<Longrightarrow> \<exists>info. process_get_info (pid (procs k ! i)) k = Some info \<and> pi_pid info = pid (procs k ! i)"
proof -
  assume i: "i < process_count k"
  have "first_index (\<lambda>p. pid p = pid (procs k ! i)) (procs k) \<noteq> None"
  proof
    assume "first_index (\<lambda>p. pid p = pid (procs k ! i)) (procs k) = None"
    then have "\<forall>p\<in>set (procs k). pid p \<noteq> pid (procs k ! i)" by (simp add: first_index_None filter_empty_conv)
    then show False using i by (metis nth_mem process_count_def)
  qed
  then show ?thesis by (auto simp: process_get_info_def Let_def dest: first_index_Some)
qed

lemma small_cookie: "unat (c :: u32) < 6 \<longleftrightarrow> c \<in> {0, 1, 2, 3, 4, 5}"
  unfolding insert_iff word_unat_eq_iff by simp arith

lemma procfs_readdir_at:
  assumes "itype dir = T_DIR" and "ibackend dir = INODE_PROCFS" and "process_count k \<le> MAX_PROCESSES"
  shows "unat c < 6 + process_count k \<Longrightarrow> procfs_readdir ino dir c k = (1, c + 1, proc_listing ino dir k ! unat c)"
    and "unat c \<ge> 6 + process_count k \<Longrightarrow> fst (procfs_readdir ino dir c k) = 0"
proof -
  have idx: "unat (c - PROC_ENTRY_COUNT) = unat c - 6" if "6 \<le> unat c"
    using that by (simp add: PROC_ENTRY_COUNT_def unat_sub word_le_nat_alt)
  have cnt: "unat (word_of_int (process_get_count k) :: u32) = process_count k"
    using assms(3) by (simp add: process_get_count_def unat_of_nat take_bit_nat_eq_self MAX_PROCESSES_def of_int_of_nat_eq)
  have big: "c \<notin> {0, 1, 2, 3, 4, 5}" if "6 \<le> unat c" using that small_cookie [of c] by simp
  show "procfs_readdir ino dir c k = (1, c + 1, proc_listing ino dir k ! unat c)" if c: "unat c < 6 + process_count k"
  proof (cases "unat c < 6")
    case True
    then show ?thesis using True small_cookie [of c] assms by (auto simp: procfs_readdir_def proc_listing_def)
  next
    case False
    define i where "i = unat c - 6"
    have i: "i < process_count k" "unat c = 6 + i" using c False by (auto simp: i_def)
    obtain info where info: "process_get_info (pid (procs k ! i)) k = Some info" "pi_pid info = pid (procs k ! i)"
      using process_get_info_pid [OF i(1)] by blast
    have c6: "c = of_nat (6 + i)" using i(2) by (simp flip: i(2))
    show ?thesis using False big idx i cnt assms(1,2) info
      by (simp add: procfs_readdir_def Let_def word_less_nat_alt kitoa_pid proc_listing_def nth_append c6 [symmetric] flip: of_nat_add)
  qed
  show "fst (procfs_readdir ino dir c k) = 0" if "unat c \<ge> 6 + process_count k"
  proof -
    have "\<not> c - PROC_ENTRY_COUNT < word_of_int (process_get_count k)" using that idx cnt by (simp add: word_less_nat_alt)
    then show ?thesis using that big assms(1,2) by (simp add: procfs_readdir_def Let_def)
  qed
qed

lemma procfs_listing_off: "unat c < 6 + process_count k \<Longrightarrow> de_off (proc_listing ino dir k ! unat c) = c + 1"
proof (cases "unat c < 6")
  case True
  then show ?thesis using True small_cookie [of c] by (auto simp: proc_listing_def proc_dirent_def)
next
  case False
  assume "unat c < 6 + process_count k"
  moreover have "of_nat (6 + (unat c - 6)) = c" using False by simp
  ultimately show ?thesis using False by (simp add: proc_listing_def proc_dirent_def nth_append del: of_nat_add)
qed

section \<open>Property\<close>

lemma getdents_proc_from:
  assumes "itype dir = T_DIR" "ibackend dir = INODE_PROCFS" "process_count k \<le> MAX_PROCESSES"
    and "unat off \<le> 6 + process_count k" and "int n \<le> mx"
  shows "getdents_proc ino dir mx off n w k =
    (let m = min ((nat mx - n) div 44) (6 + process_count k - unat off)
     in (int (n + 44 * m), w @ concat (map bytes_of_dirent (take m (drop (unat off) (proc_listing ino dir k)))), off + of_nat m))"
  using assms
proof (induction ino dir mx off n w k rule: getdents_proc.induct)
  case (1 ino dir mx off n w k)
  let ?L = "proc_listing ino dir k" and ?N = "6 + process_count k"
  show ?case
  proof (cases "int n + 44 \<le> mx \<and> unat off < ?N")
    case True
    have r: "procfs_readdir ino dir off k = (1, off + 1, ?L ! unat off)" using procfs_readdir_at(1) "1.prems" True by blast
    have s: "unat (off + 1) = Suc (unat off)"
      by (rule unat_plus1_less [of _ 100]) (use True "1.prems"(3) in \<open>simp add: word_less_nat_alt MAX_PROCESSES_def\<close>)
    have off: "de_off (?L ! unat off) = off + 1" using procfs_listing_off True by blast
    have e: "(?L ! unat off)\<lparr>de_off := off + 1\<rparr> = ?L ! unat off" using off by simp
    define m where "m = min ((nat mx - (n + 44)) div 44) (?N - unat (off + 1))"
    have mm: "min ((nat mx - (n + 44)) div 44) (5 + process_count k - unat off) = m" using s by (simp add: m_def)
    have m: "min ((nat mx - n) div 44) (?N - unat off) = Suc m"
      using True s by (simp add: m_def min_def) linarith
    have "getdents_proc ino dir mx off n w k = getdents_proc ino dir mx (off + 1) (n + 44) (w @ bytes_of_dirent (?L ! unat off)) k"
      using True r e by (subst getdents_proc.simps) simp
    also have "\<dots> = (int (n + 44 + 44 * m), (w @ bytes_of_dirent (?L ! unat off)) @ concat (map bytes_of_dirent (take m (drop (unat (off + 1)) ?L))),
        off + 1 + of_nat m)"
      using "1.IH" [of "(1, off + 1, ?L ! unat off)" 1 "(off + 1, ?L ! unat off)" "off + 1" "?L ! unat off"] True r s e "1.prems"
      by (simp add: mm Let_def)
    finally show ?thesis using True s by (simp add: m Cons_nth_drop_Suc [symmetric] add.assoc)
  next
    case False
    then have m: "min ((nat mx - n) div 44) (?N - unat off) = 0" using "1.prems"(4,5) by (auto simp: min_def nat_le_iff nat_diff_distrib)
    have "getdents_proc ino dir mx off n w k = (int n, w, off)"
    proof (cases "int n + 44 \<le> mx")
      case True
      obtain c de where "procfs_readdir ino dir off k = (0, c, de)"
        using procfs_readdir_at(2) [OF "1.prems"(1-3), of off ino] True False by (cases "procfs_readdir ino dir off k") auto
      then show ?thesis using True by (subst getdents_proc.simps) simp
    qed (subst getdents_proc.simps, simp)
    then show ?thesis by (simp add: m)
  qed
qed

text \<open>
  \<open>getdents\<close> on \<open>/proc\<close>: a call with room for \<open>mx\<close> bytes at the offset \<open>off\<close> delivers as many whole records of the list of all
  entries (the two dot entries, the four files and one directory per process, named by its decimal pid) as fit, from
  the offset on, and leaves the offset after them; so calls of any sizes deliver the list once, in order, and then 0.
\<close>

lemma getdents_proc_correct:
  assumes "itype dir = T_DIR" and "ibackend dir = INODE_PROCFS" and "process_count k \<le> MAX_PROCESSES"
    and "unat off \<le> 6 + process_count k" and "0 \<le> mx"
  shows "let m = min (nat mx div 44) (6 + process_count k - unat off)
    in getdents_proc ino dir mx off 0 [] k =
         (int (44 * m), concat (map bytes_of_dirent (take m (drop (unat off) (proc_listing ino dir k)))), off + of_nat m) \<and>
       unat (off + of_nat m) = unat off + m \<and> (m = 0 \<longrightarrow> mx < 44 \<or> unat off = length (proc_listing ino dir k))"
proof -
  define m where "m = min (nat mx div 44) (6 + process_count k - unat off)"
  have "unat off + m < 2 ^ 32" using assms(3,4) by (simp add: m_def MAX_PROCESSES_def)
  then have "unat (off + of_nat m) = unat off + m" by (simp add: unat_word_ariths(1) unat_of_nat take_bit_nat_eq_self)
  moreover have "mx < 44 \<or> unat off = 6 + process_count k" if "m = 0"
    using that assms(4,5) by (auto simp: m_def min_def div_eq_0_iff split: if_splits)
  ultimately show ?thesis using getdents_proc_from [OF assms(1-4), of 0 mx ino "[]"] assms(5) by (simp add: m_def [symmetric] Let_def)
qed

lemma getdents_proc_correct_witness:
  "itype (empty_inode\<lparr>itype := T_DIR, ibackend := INODE_PROCFS\<rparr>) = T_DIR \<and> process_count sched_example = 5 \<and>
   getdents_proc (\<lambda>_. 7) (empty_inode\<lparr>itype := T_DIR, ibackend := INODE_PROCFS\<rparr>) 100 9 0 [] sched_example =
     (88, concat (map bytes_of_dirent (take 2 (drop 9 (proc_listing (\<lambda>_. 7) (empty_inode\<lparr>itype := T_DIR, ibackend := INODE_PROCFS\<rparr>) sched_example)))), 11)"
proof -
  have c: "process_count sched_example = 5" by (simp add: sched_example_simps)
  show ?thesis
    using getdents_proc_correct [of "empty_inode\<lparr>itype := T_DIR, ibackend := INODE_PROCFS\<rparr>" sched_example 9 100 "\<lambda>_. 7"] c
    by (simp add: MAX_PROCESSES_def)
qed

end
