(* ===== verification/Mlibc_Kernel.thy ===== *)
theory Mlibc_Kernel
  imports Mlibc Listing
begin

text \<open>
  The C library's hooks (\<open>sysdeps.cpp\<close>) on the modelled kernel: listing a directory, opening a file by its path, and the blocking calls. What
  \<open>ReadEntries\<close> needs of \<open>getdents\<close> is the locale \<open>entry_source\<close>; the kernel's \<open>/proc\<close> interprets it.
\<close>

section \<open>Sizes of directory records\<close>

lemma unat_and_not_3: "unat ((x :: u32) AND NOT 3) = unat x div 4 * 4"
proof -
  have "x AND NOT (mask 2) = push_bit 2 (drop_bit 2 x)"
  proof (rule bit_word_eqI)
    fix n
    have "2 \<le> n \<Longrightarrow> Suc (Suc (n - 2)) = n" by simp
    then show "bit (x AND NOT (mask 2)) n = bit (push_bit 2 (drop_bit 2 x)) n" if "n < LENGTH(32)"
      using that by (cases "2 \<le> n") (auto simp: bit_simps)
  qed
  then have e: "x AND NOT 3 = push_bit 2 (drop_bit 2 x)" by (simp add: mask_eq_exp_minus_1)
  have "unat x div 4 * 4 < 2 ^ 32" using unat_u32_le [of x] by simp
  then show ?thesis unfolding e by (simp add: unsigned_push_bit_eq unsigned_drop_bit_eq push_bit_nat_def drop_bit_nat_def take_bit_nat_def)
qed

lemma rounded_fits:
  fixes w mx q l :: nat
  assumes "4 dvd w" "4 dvd mx" "w + q + 32 \<le> mx" "l < 32"
  shows "w + (q + l + 4) div 4 * 4 \<le> mx"
proof -
  obtain v y where vy: "w = 4 * v" "mx = 4 * y" using assms(1,2) by (metis dvdE)
  have "(q + l + 4) div 4 \<le> y - v" using assms(3,4) unfolding vy by linarith
  moreover have "v \<le> y" using assms(3) unfolding vy by linarith
  ultimately show ?thesis unfolding vy by linarith
qed

text \<open>The record the C library makes of an entry whose name is terminated.\<close>

definition record_of :: "abi \<Rightarrow> muxos_dirent \<Rightarrow> udirent" where
  "record_of c de =
     \<lparr>d_ino = md_ino de, d_off = md_off de, d_reclen = reclen_of c de,
      d_type = (if md_type de = MUX_T_DIR then c ''DT_DIR'' else if md_type de = MUX_T_DEVICE then c ''DT_CHR''
                else if md_type de = MUX_T_FILE then c ''DT_REG'' else c ''DT_UNKNOWN''),
      d_name = takeWhile (\<lambda>x. x \<noteq> 0) (md_name de) @ [0]\<rparr>"

definition name_terminated :: "muxos_dirent \<Rightarrow> bool" where
  "name_terminated de \<longleftrightarrow> strnlen (md_name de) < MUX_DIRSIZ"

definition rec_size :: "abi \<Rightarrow> muxos_dirent \<Rightarrow> nat" where
  "rec_size c de = (unat (c ''offsetof d_name'') + strnlen (md_name de) + 4) div 4 * 4"

lemma reclen_of_size:
  assumes "unat (c ''offsetof d_name'') < 2 ^ 16" and "name_terminated de"
  shows "unat (reclen_of c de) = rec_size c de"
proof -
  have "c ''offsetof d_name'' + of_nat (strnlen (md_name de)) + 1 + 3 = (of_nat (unat (c ''offsetof d_name'') + strnlen (md_name de) + 4) :: u32)"
    by simp
  moreover have "unat (of_nat (unat (c ''offsetof d_name'') + strnlen (md_name de) + 4) :: u32) = unat (c ''offsetof d_name'') + strnlen (md_name de) + 4"
    using assms by (intro unat_of_nat_lt) (simp add: name_terminated_def MUX_DIRSIZ_def)
  ultimately show ?thesis unfolding reclen_of_def rec_size_def unat_and_not_3 by (simp only:)
qed

lemma take_strnlen:
  assumes "strnlen xs < length xs"
  shows "take (Suc (strnlen xs)) xs = takeWhile (\<lambda>x. x \<noteq> 0) xs @ [0]"
proof -
  have "xs ! strnlen xs = 0" using assms nth_length_takeWhile [of "\<lambda>x. x \<noteq> 0" xs] by (auto simp: strnlen_def)
  then show ?thesis using assms by (simp add: take_Suc_conv_app_nth) (simp add: strnlen_def takeWhile_eq_take [symmetric])
qed

lemma udirent_of_at:
  assumes "name_terminated (dirent_at m a)"
  shows "udirent_of c m a (dirent_at m a) = record_of c (dirent_at m a)"
proof -
  define n where "n = strnlen (bytes_at m (a + 12) MUX_DIRSIZ)"
  have n: "n < MUX_DIRSIZ" using assms by (simp add: name_terminated_def dirent_at_def n_def)
  then have "bytes_at m (a + 12) (Suc n) = take (Suc n) (bytes_at m (a + 12) MUX_DIRSIZ)"
    by (intro nth_equalityI) auto
  also have "\<dots> = takeWhile (\<lambda>x. x \<noteq> 0) (bytes_at m (a + 12) MUX_DIRSIZ) @ [0]"
    using n unfolding n_def by (intro take_strnlen) simp
  finally show ?thesis unfolding n_def by (simp add: udirent_of_def record_of_def dirent_at_def)
qed

section \<open>Listing a directory\<close>

lemma sint_sizeof: "sint sizeof_muxos_dirent = 44"
  by (simp add: sizeof_muxos_dirent_def)

text \<open>
  What \<open>ReadEntries\<close> needs of the kernel: in a state of the invariant, \<open>getdents\<close> with room for one entry stores the next of the
  pending entries at the buffer and consumes it, or reports that there is none.
\<close>

locale entry_source =
  fixes t :: "'s trap" and handle a :: u32 and inv :: "'s \<Rightarrow> bool" and pending :: "'s \<Rightarrow> muxos_dirent list"
  assumes terminated: "inv s \<Longrightarrow> de \<in> set (pending s) \<Longrightarrow> name_terminated de"
    and no_entry: "inv s \<Longrightarrow> pending s = [] \<Longrightarrow>
      \<exists>r m' s'. t KSYS_GETDENTS handle a sizeof_muxos_dirent 0 0 (m, s) = Some (r, m', s') \<and> sint r < 44 \<and> inv s' \<and> pending s' = []"
    and next_entry: "inv s \<Longrightarrow> pending s = de # des \<Longrightarrow>
      \<exists>m' s'. t KSYS_GETDENTS handle a sizeof_muxos_dirent 0 0 (m, s) = Some (44, m', s') \<and> dirent_at m' a = de \<and> inv s' \<and> pending s' = des"
begin

lemma getdents_call:
  "syscall t KSYS_GETDENTS [handle, a, sizeof_muxos_dirent] u =
     map_option (\<lambda>(r, u). (sint r, u)) (t KSYS_GETDENTS handle a sizeof_muxos_dirent 0 0 u)"
  by (simp add: do_syscall3_def muxos_syscall_def sys_ret_def do_syscall_ret_def)

text \<open>How many entries fit: taken while the worst case still has room.\<close>

lemma loop_delivers:
  assumes off: "unat (c ''offsetof d_name'') < 2 ^ 16" and mx: "4 dvd unat mx" "unat mx < 2 ^ 31"
    and "inv s" "4 dvd unat w" "unat w \<le> unat mx"
  shows "\<exists>n w' m' s'. read_entries_loop c t a handle mx w out (m, s) =
      Some ((w', out @ map (record_of c) (take n (pending s))), m', s') \<and> n \<le> length (pending s) \<and>
      inv s' \<and> pending s' = drop n (pending s) \<and>
      unat w' = unat w + sum_list (map (rec_size c) (take n (pending s))) \<and> unat w' \<le> unat mx \<and>
      (n = length (pending s) \<or> unat mx < unat w' + unat (c ''offsetof d_name'') + 32)"
  using assms(4-)
proof (induction "pending s" arbitrary: s w out m)
  case Nil
  have sm: "unat (w + min_rec c) = unat w + unat (c ''offsetof d_name'') + 32"
    using off mx(2) Nil.prems(3) by (simp add: min_rec_def MUX_DIRSIZ_def unat_word_ariths)
  obtain r m' s' where g: "t KSYS_GETDENTS handle a sizeof_muxos_dirent 0 0 (m, s) = Some (r, m', s')" "sint r < 44" "inv s'" "pending s' = []"
    using no_entry [OF Nil.prems(1)] Nil.hyps by metis
  show ?case
  proof (cases "w + min_rec c \<le> mx")
    case True
    then have "read_entries_loop c t a handle mx w out (m, s) = Some ((w, out), m', s')"
      using g by (subst read_entries_loop.simps) (simp add: getdents_call sint_sizeof del: syscall.simps)
    with g Nil show ?thesis by auto
  next
    case False
    then have "read_entries_loop c t a handle mx w out (m, s) = Some ((w, out), m, s)"
      by (subst read_entries_loop.simps) simp
    with Nil show ?thesis by auto
  qed
next
  case (Cons de des)
  have sm: "unat (w + min_rec c) = unat w + unat (c ''offsetof d_name'') + 32"
    using off mx(2) Cons.prems(3) by (simp add: min_rec_def MUX_DIRSIZ_def unat_word_ariths)
  show ?case
  proof (cases "w + min_rec c \<le> mx")
    case False
    then have "read_entries_loop c t a handle mx w out (m, s) = Some ((w, out), m, s)"
      by (subst read_entries_loop.simps) simp
    with False Cons.prems sm show ?thesis by (intro exI [of _ "0 :: nat"] exI [of _ w] exI [of _ m] exI [of _ s]) (auto simp: word_le_nat_alt)
  next
    case True
    obtain m1 s1 where g: "t KSYS_GETDENTS handle a sizeof_muxos_dirent 0 0 (m, s) = Some (44, m1, s1)" "dirent_at m1 a = de" "inv s1" "pending s1 = des"
      using next_entry [OF Cons.prems(1)] Cons.hyps(2) by metis
    have tn: "name_terminated de" using terminated [OF Cons.prems(1), of de] by (simp flip: Cons.hyps(2))
    have len: "unat (reclen_of c de) = rec_size c de" using off tn by (rule reclen_of_size)
    have room: "unat w + unat (c ''offsetof d_name'') + 32 \<le> unat mx" using True sm by (simp add: word_le_nat_alt)
    have fit: "unat w + rec_size c de \<le> unat mx" "4 dvd rec_size c de"
      using rounded_fits [OF Cons.prems(2) mx(1) room] tn unfolding rec_size_def name_terminated_def MUX_DIRSIZ_def by simp_all
    have w1: "unat (w + reclen_of c de) = unat w + rec_size c de"
      using fit(1) len mx(2) by (simp add: unat_word_ariths)
    have "read_entries_loop c t a handle mx w out (m, s) =
        read_entries_loop c t a handle mx (w + reclen_of c de) (out @ [record_of c de]) (m1, s1)"
      using True g fit w1 udirent_of_at [of m1 a c] tn
      by (subst read_entries_loop.simps) (simp add: getdents_call sint_sizeof word_less_nat_alt del: syscall.simps)
    moreover obtain n w' m' s' where "read_entries_loop c t a handle mx (w + reclen_of c de) (out @ [record_of c de]) (m1, s1) =
        Some ((w', (out @ [record_of c de]) @ map (record_of c) (take n (pending s1))), m', s')" "n \<le> length (pending s1)"
      "inv s'" "pending s' = drop n (pending s1)" "unat w' = unat (w + reclen_of c de) + sum_list (map (rec_size c) (take n (pending s1)))"
      "unat w' \<le> unat mx" "n = length (pending s1) \<or> unat mx < unat w' + unat (c ''offsetof d_name'') + 32"
      using Cons.hyps(1) [of s1 "w + reclen_of c de" "out @ [record_of c de]" m1] g fit w1 Cons.prems(2) by auto
    ultimately show ?thesis using g(4) w1 Cons.hyps(2) [symmetric]
      by (intro exI [of _ "Suc n"] exI [of _ w'] exI [of _ m'] exI [of _ s']) auto
  qed
qed

end

section \<open>The kernel behind the trap\<close>

text \<open>The kernel's view of user memory, and a system call that stores its results there.\<close>

definition c_str :: "memory \<Rightarrow> u32 \<Rightarrow> u8 list" where
  "c_str m a = takeWhile (\<lambda>x. x \<noteq> 0) (bytes_at m a (2 ^ 32))"

definition c_vec :: "memory \<Rightarrow> u32 \<Rightarrow> u8 list list" where
  "c_vec m a = map (c_str m) (takeWhile (\<lambda>p. p \<noteq> 0) (map (\<lambda>i. ld32 m (a + 4 * of_nat i)) [0..<2 ^ 30]))"

definition user_view :: "memory \<Rightarrow> user_mem" where
  "user_view m = \<lparr>u_str = c_str m, u_vec = c_vec m, u_word = ld32 m, u_bytes = bytes_at m\<rparr>"

definition store_all :: "(u32 \<times> u8 list) list \<Rightarrow> memory \<Rightarrow> memory" where
  "store_all ws m = fold (\<lambda>(a, bs) m. store_bytes m a bs) ws m"

definition kernel_trap :: "'w vfs_env \<Rightarrow> u32 \<Rightarrow> 'w machine_state trap" where
  "kernel_trap env uninit eax ebx ecx edx esi edi = (\<lambda>(m, s).
     (case syscall_handler env uninit (user_view m) eax ebx ecx edx esi s of
        Some (Ret r ws, s') \<Rightarrow> Some (word_of_int r, store_all ws m, s')
      | _ \<Rightarrow> None))"

text \<open>Which kernel operation a number stands for.\<close>

lemma kernel_trap_file:
  "eax \<in> set file_calls \<Longrightarrow> kernel_trap env uninit eax ebx ecx edx esi edi (m, s) =
     (case file_call env uninit (user_view m) eax ebx ecx edx esi (kern s) of
        Some (Ret r ws, k) \<Rightarrow> Some (word_of_int r, store_all ws m, s\<lparr>kern := k\<rparr>)
      | _ \<Rightarrow> None)"
  by (auto simp: kernel_trap_def syscall_handler_def on_kern_def split: option.splits outcome.splits)

section \<open>Listing \<open>/proc\<close>\<close>

definition kdirent :: "dirent \<Rightarrow> muxos_dirent" where
  "kdirent de = \<lparr>md_ino = de_inum de, md_off = de_off de, md_type = de_type de, md_name = de_name de\<rparr>"

lemma dirent_at_stored:
  assumes "length (de_name de) = 32"
  shows "dirent_at (store_bytes m a (bytes_of_dirent de)) a = kdirent de"
proof -
  let ?m = "store_bytes m a (bytes_of_dirent de)"
  have len: "length (bytes_of_dirent de) = 44" using assms by (simp add: bytes_of_dirent_def)
  have at: "?m (a + of_nat k) = bytes_of_dirent de ! k" if "k < 44" for k
    using bytes_at_store_bytes [of "bytes_of_dirent de" m a] that len nth_bytes_at [of k 44 ?m a] by simp
  have nm: "bytes_at ?m (a + 12) 32 = de_name de"
  proof (rule nth_equalityI)
    fix k assume "k < length (bytes_at ?m (a + 12) 32)"
    then have k: "k < 32" by simp
    have "a + 12 + of_nat k = a + of_nat (12 + k)" by simp
    with k at [of "12 + k"] show "bytes_at ?m (a + 12) 32 ! k = de_name de ! k"
      by (simp add: bytes_of_dirent_def nth_append add.assoc)
  qed (simp add: assms)
  have "ld32 ?m a = de_inum de" "ld32 ?m (a + 4) = de_off de" "ld32 ?m (a + 8) = de_type de"
    using at [of 0] at [of 1] at [of 2] at [of 3] at [of 4] at [of 5] at [of 6] at [of 7] at [of 8] at [of 9] at [of 10] at [of 11]
    by (simp_all add: ld32_def bytes_of_dirent_def u32_bytes_def bytes_u32_join add.assoc)
  with nm show ?thesis by (simp add: dirent_at_def kdirent_def MUX_DIRSIZ_def)
qed

text \<open>A descriptor open on \<open>/proc\<close>, and the entries it has not delivered yet.\<close>

definition proc_open :: "u32 \<Rightarrow> nat \<Rightarrow> u32 \<Rightarrow> 'w machine_state \<Rightarrow> bool" where
  "proc_open handle f i s \<longleftrightarrow>
     (let k = kern s; v = kvfs k
      in fdget (cur_fds k) (sint handle) = Some f \<and> fip (ftable v f) = Some i \<and> itype (node v i) = T_DIR \<and>
         ibackend (node v i) = INODE_PROCFS \<and> process_count k \<le> MAX_PROCESSES \<and> unat (foff (ftable v f)) \<le> 6 + process_count k)"

definition proc_pending :: "'w vfs_env \<Rightarrow> nat \<Rightarrow> u32 \<Rightarrow> 'w machine_state \<Rightarrow> muxos_dirent list" where
  "proc_pending env f i s =
     map kdirent (drop (unat (foff (ftable (kvfs (kern s)) f)))
       (proc_listing (proc_inum (fsenv env)) (node (kvfs (kern s)) i) (kern s)))"

lemma positional_short:
  "2 \<le> b \<Longrightarrow> n < b ^ k \<Longrightarrow> 0 < k \<Longrightarrow> length (positional ds b n) \<le> k"
proof (induction ds b n arbitrary: k rule: positional.induct)
  case (1 ds b n)
  show ?case
  proof (cases "n < b \<or> b < 2")
    case True
    with 1 show ?thesis by (subst positional.simps) simp
  next
    case False
    then have "0 < k - 1" "n div b < b ^ (k - 1)"
      using "1.prems" by (cases k; auto simp: less_mult_imp_div_less mult.commute intro: gr0I)+
    then have "length (positional ds b (n div b)) \<le> k - 1" using "1.IH" False "1.prems"(1) by blast
    with False \<open>0 < k - 1\<close> show ?thesis by (subst positional.simps) simp
  qed
qed

lemma positional_digits:
  "2 \<le> b \<Longrightarrow> b \<le> length ds \<Longrightarrow> set (positional ds b n) \<subseteq> set ds"
proof (induction ds b n rule: positional.induct)
  case (1 ds b n)
  then have "n mod b < length ds" using mod_less_divisor [of b n] by linarith
  with 1 show ?case by (subst positional.simps) (auto intro: nth_mem)
qed

lemma length_digits: "length digits_lower = 16"
  by (simp add: digits_lower_def)

lemma pid_name_ok: "length (pid_name n) \<le> 11" "0 \<notin> set (pid_name n)"
proof -
  have len: "length (rev (digit_loop digits_lower 10 v)) \<le> 10" for v
    using positional_short [of 10 "unat v" 10 digits_lower] unat_u32_le [of v] by (subst digit_loop_positional) simp_all
  have "set (rev (digit_loop digits_lower 10 v)) \<subseteq> set digits_lower" for v
    using positional_digits [of 10 digits_lower "unat v"] by (subst digit_loop_positional) (simp_all add: length_digits)
  moreover have "0 \<notin> set digits_lower" by code_simp
  ultimately have nz: "0 \<notin> set (rev (digit_loop digits_lower 10 v))" for v by blast
  have "length (rev (digit_loop digits_lower 10 v)) \<le> 11" for v using len [of v] by linarith
  then show "length (pid_name n) \<le> 11" "0 \<notin> set (pid_name n)"
    using len nz by (auto simp: pid_name_def simp del: length_rev set_rev)
qed

lemma takeWhile_shorter: "0 \<in> set xs \<Longrightarrow> length (takeWhile (\<lambda>x. x \<noteq> 0) xs) < length xs"
  for xs :: "u8 list"
  by (induction xs) auto

lemma listing_names:
  assumes "de \<in> set (proc_listing ino dir k)"
  shows "length (de_name de) = 32" "strnlen (de_name de) < 32"
proof -
  obtain n nm ty ck where de: "de = proc_dirent n nm ty ck" "length nm \<le> 11"
    using assms pid_name_ok(1) by (auto simp: proc_listing_def dot_def dotdot_def cpuinfo_name_def meminfo_name_def loadavg_name_def version_name_def)
  show "length (de_name de) = 32" using de by (simp add: proc_dirent_def)
  have "0 \<in> set (de_name de)" using de by (simp add: proc_dirent_def)
  then have "strnlen (de_name de) < length (de_name de)"
    unfolding strnlen_def by (simp add: takeWhile_shorter)
  with \<open>length (de_name de) = 32\<close> show "strnlen (de_name de) < 32" by simp
qed

lemma getdents_call_proc:
  assumes "proc_open handle f i s"
  shows "kernel_trap env uninit KSYS_GETDENTS handle a sizeof_muxos_dirent e g (m, s) =
    (let off = foff (ftable (kvfs (kern s)) f);
         L = proc_listing (proc_inum (fsenv env)) (node (kvfs (kern s)) i) (kern s);
         n = min 1 (6 + process_count (kern s) - unat off)
     in Some (of_nat (44 * n), store_bytes m a (concat (map bytes_of_dirent (take n (drop (unat off) L)))),
          s\<lparr>kern := set_vfs (upd_file f (\<lambda>y. y\<lparr>foff := off + of_nat n\<rparr>) (kvfs (kern s))) (kern s)\<rparr>))"
proof -
  have num: "KSYS_GETDENTS = SYS_GETDENTS" "SYS_GETDENTS \<in> set file_calls"
    by (simp_all add: KSYS_GETDENTS_def SYS_GETDENTS_def file_calls_def)
  have "file_call env uninit um SYS_GETDENTS handle a sizeof_muxos_dirent e (kern s) = sys_getdents env (sint handle) a 44 (kern s)" for um
    by (simp add: file_call_def sizeof_muxos_dirent_def SYS_READ_def SYS_WRITE_def SYS_OPEN_def SYS_CLOSE_def SYS_CREAT_def SYS_UNLINK_def
        SYS_RMDIR_def SYS_RENAME_def SYS_LINK_def SYS_CHMOD_def SYS_FCHMOD_def SYS_CHDIR_def SYS_GETCWD_def SYS_OPENAT_def SYS_STATAT_def
        SYS_UNLINKAT_def SYS_MKDIRAT_def SYS_RENAMEAT_def SYS_LINKAT_def SYS_LSEEK_def SYS_STAT_def SYS_FSTAT_def SYS_MKDIR_def SYS_GETDENTS_def)
  moreover have "getdents_proc ino (node (kvfs (kern s)) i) 44 (foff (ftable (kvfs (kern s)) f)) 0 [] (kern s) =
    (let n = min 1 (6 + process_count (kern s) - unat (foff (ftable (kvfs (kern s)) f)))
     in (int (44 * n), concat (map bytes_of_dirent (take n (drop (unat (foff (ftable (kvfs (kern s)) f))) (proc_listing ino (node (kvfs (kern s)) i) (kern s))))),
         foff (ftable (kvfs (kern s)) f) + of_nat n))" for ino
    using assms getdents_proc_from [of "node (kvfs (kern s)) i" "kern s" "foff (ftable (kvfs (kern s)) f)" 0 44 ino "[]"]
    by (simp add: proc_open_def Let_def)
  ultimately show ?thesis unfolding num(1) kernel_trap_file [OF num(2)]
    using assms by (simp add: sys_getdents_def proc_open_def Let_def store_all_def)
qed

lemma drop_eq_Cons: "drop n xs = z # zs \<Longrightarrow> n < length xs \<and> zs = drop (Suc n) xs"
  by (metis drop_Suc drop_eq_Nil2 list.distinct(1) list.sel(3) not_less tl_drop)

lemma proc_getdents_end:
  assumes "proc_open handle f i s" and "proc_pending env f i s = []"
  shows "\<exists>r m' s'. kernel_trap env uninit KSYS_GETDENTS handle a sizeof_muxos_dirent 0 0 (m, s) = Some (r, m', s') \<and> sint r < 44 \<and>
    proc_open handle f i s' \<and> proc_pending env f i s' = []"
proof -
  have e: "unat (foff (ftable (kvfs (kern s)) f)) = 6 + process_count (kern s)"
    using assms by (auto simp: proc_pending_def proc_open_def Let_def)
  have "s\<lparr>kern := set_vfs (upd_file f (\<lambda>y. y\<lparr>foff := foff (ftable (kvfs (kern s)) f)\<rparr>) (kvfs (kern s))) (kern s)\<rparr> = s"
    by (simp add: set_vfs_def upd_file_def)
  with e assms show ?thesis by (simp add: getdents_call_proc [OF assms(1)])
qed

lemma proc_getdents_next:
  assumes inv: "proc_open handle f i s" and ne: "proc_pending env f i s = de # des"
  shows "\<exists>m' s'. kernel_trap env uninit KSYS_GETDENTS handle a sizeof_muxos_dirent 0 0 (m, s) = Some (44, m', s') \<and> dirent_at m' a = de \<and>
    proc_open handle f i s' \<and> proc_pending env f i s' = des"
proof -
  let ?off = "foff (ftable (kvfs (kern s)) f)" and ?L = "proc_listing (proc_inum (fsenv env)) (node (kvfs (kern s)) i) (kern s)"
  let ?s' = "s\<lparr>kern := set_vfs (upd_file f (\<lambda>y. y\<lparr>foff := ?off + 1\<rparr>) (kvfs (kern s))) (kern s)\<rparr>"
  obtain d ds where d: "drop (unat ?off) ?L = d # ds" "de = kdirent d" "des = map kdirent ds"
    using ne by (auto simp: proc_pending_def map_eq_Cons_conv)
  note dd = drop_eq_Cons [OF d(1)]
  have d32: "length (de_name d) = 32" using d(1) listing_names(1) in_set_dropD [of d "unat ?off" ?L] by (metis list.set_intros(1))
  have mn: "min 1 (6 + process_count (kern s) - unat ?off) = 1"
    using dd by (intro min_absorb1) (simp only: length_proc_listing, linarith)
  have o1: "unat (?off + 1) = Suc (unat ?off)"
    using dd inv by (intro unat_plus1_less [of _ 100]) (simp add: word_less_nat_alt proc_open_def MAX_PROCESSES_def Let_def)
  have L: "proc_listing (proc_inum (fsenv env)) (node (kvfs (kern ?s')) i) (kern ?s') = ?L"
    by (simp add: proc_listing_def set_vfs_def upd_file_def node_def process_count_def)
  have "kernel_trap env uninit KSYS_GETDENTS handle a sizeof_muxos_dirent 0 0 (m, s) = Some (44, store_bytes m a (bytes_of_dirent d), ?s')"
    using getdents_call_proc [OF inv, of env uninit a 0 0 m] d(1) mn by (simp add: Let_def)
  moreover have "proc_open handle f i ?s'"
    using inv o1 dd by (auto simp: proc_open_def set_vfs_def upd_file_def node_def process_count_def cur_fds_def curp_def Let_def)
  moreover have "proc_pending env f i ?s' = des"
    using L o1 dd d(3) by (simp add: proc_pending_def set_vfs_def upd_file_def)
  ultimately show ?thesis using dirent_at_stored [OF d32] d(2) by blast
qed

interpretation proc_dir: entry_source "kernel_trap env uninit" handle a "proc_open handle f i" "proc_pending env f i"
  for env :: "'w vfs_env" and uninit handle a f i
proof
  show "name_terminated de" if "de \<in> set (proc_pending env f i s)" for s :: "'w machine_state" and de
    using that listing_names(2) in_set_dropD by (fastforce simp: proc_pending_def name_terminated_def kdirent_def MUX_DIRSIZ_def)
qed (use proc_getdents_end proc_getdents_next in blast)+


section \<open>Termination\<close>

lemma reclen_pos:
  assumes "unat (c ''offsetof d_name'') < 2 ^ 16" "length (md_name de) = MUX_DIRSIZ"
  shows "0 < unat (reclen_of c de)" "unat (reclen_of c de) < 2 ^ 17"
proof -
  have n: "strnlen (md_name de) \<le> 32" using assms(2) length_takeWhile_le [of "\<lambda>x. x \<noteq> 0" "md_name de"] by (simp add: strnlen_def MUX_DIRSIZ_def)
  have "c ''offsetof d_name'' + of_nat (strnlen (md_name de)) + 1 + 3 = (of_nat (unat (c ''offsetof d_name'') + strnlen (md_name de) + 4) :: u32)"
    by simp
  moreover have "unat (of_nat (unat (c ''offsetof d_name'') + strnlen (md_name de) + 4) :: u32) = unat (c ''offsetof d_name'') + strnlen (md_name de) + 4"
    using assms n by (intro unat_of_nat_lt) simp
  ultimately have "unat (reclen_of c de) = (unat (c ''offsetof d_name'') + strnlen (md_name de) + 4) div 4 * 4"
    unfolding reclen_of_def unat_and_not_3 by (simp only:)
  then show "0 < unat (reclen_of c de)" "unat (reclen_of c de) < 2 ^ 17" using n assms(1) by (auto simp: div_greater_zero_iff)
qed

lemma read_entries_loop_ends:
  assumes off: "unat (c ''offsetof d_name'') < 2 ^ 16" and mx: "unat mx < 2 ^ 31"
    and calls: "\<And>u. t KSYS_GETDENTS handle a sizeof_muxos_dirent 0 0 u \<noteq> None"
  shows "unat w \<le> unat mx \<Longrightarrow> unat w = k + sum_list (map (unat \<circ> d_reclen) out) \<Longrightarrow>
    \<exists>w' out' u'. read_entries_loop c t a handle mx w out u = Some ((w', out'), u') \<and> unat w' \<le> unat mx \<and>
      unat w' = k + sum_list (map (unat \<circ> d_reclen) out')"
proof (induction "unat mx - unat w" arbitrary: w out u rule: less_induct)
  case less
  obtain r u1 where g: "t KSYS_GETDENTS handle a sizeof_muxos_dirent 0 0 u = Some (r, u1)" using calls by (metis not_None_eq surj_pair)
  let ?de = "dirent_at (fst u1) a"
  have call: "syscall t KSYS_GETDENTS [handle, a, sizeof_muxos_dirent] u = Some (sint r, u1)"
    using g by (simp add: do_syscall3_def muxos_syscall_def sys_ret_def do_syscall_ret_def)
  have len: "0 < unat (reclen_of c ?de)" "unat (reclen_of c ?de) < 2 ^ 17"
    using reclen_pos [where c = c, OF off, of ?de] by (simp_all add: dirent_at_def)
  have w1: "unat (w + reclen_of c ?de) = unat w + unat (reclen_of c ?de)"
    using less.prems(1) mx len by (simp add: unat_word_ariths)
  show ?case
  proof (cases "w + min_rec c \<le> mx \<and> \<not> sint r < 44 \<and> \<not> mx < w + reclen_of c ?de")
    case True
    then have le: "unat (w + reclen_of c ?de) \<le> unat mx" by (simp add: word_less_nat_alt)
    have "read_entries_loop c t a handle mx w out u =
        read_entries_loop c t a handle mx (w + reclen_of c ?de) (out @ [udirent_of c (fst u1) a ?de]) u1"
      using True call by (subst read_entries_loop.simps) (simp add: sint_sizeof Let_def del: syscall.simps)
    moreover have "unat mx - unat (w + reclen_of c ?de) < unat mx - unat w" using w1 len(1) le by linarith
    moreover have "unat (w + reclen_of c ?de) = k + sum_list (map (unat \<circ> d_reclen) (out @ [udirent_of c (fst u1) a ?de]))"
      using less.prems(2) w1 by (simp add: udirent_of_def)
    ultimately show ?thesis using less.hyps le by (metis (no_types, lifting))
  next
    case False
    then have "\<exists>u'. read_entries_loop c t a handle mx w out u = Some ((w, out), u')"
      using call by (subst read_entries_loop.simps) (auto simp: sint_sizeof Let_def simp del: syscall.simps)
    with less.prems show ?thesis by blast
  qed
qed

text \<open>
  (C26) \<open>ReadEntries\<close> ends on every kernel whose calls come back, whatever they store and return: the records it made fill
  exactly the bytes it reports, and these fit the buffer.
\<close>

theorem mlibc_read_entries_terminates:
  assumes "unat (c ''offsetof d_name'') < 2 ^ 16" and "unat mx < 2 ^ 31"
    and "\<forall>u. t KSYS_GETDENTS handle a sizeof_muxos_dirent 0 0 u \<noteq> None"
  shows "\<exists>w out u'. mlibc_read_entries c t a handle mx u = Some ((0, w, out), u') \<and> unat w \<le> unat mx \<and>
    unat w = sum_list (map (unat \<circ> d_reclen) out)"
  using read_entries_loop_ends [where c = c, OF assms(1,2), of t handle a 0 0 "[]" u] assms(3) by (auto simp: mlibc_read_entries_def)

text \<open>The values of Linux on i386 that the hooks use.\<close>

definition linux_abi :: abi where
  "linux_abi n = (if n = ''offsetof d_name'' then 19 else if n = ''ENAMETOOLONG'' then 36 else if n = ''EAGAIN'' then 11 else 0)"

text \<open>A kernel that answers every call with 44 and leaves memory as it is.\<close>

definition always44 :: "unit trap" where
  "always44 = (\<lambda>eax ebx ecx edx esi edi u. Some (44, u))"

theorem mlibc_read_entries_terminates_witness:
  "\<exists>w out u'. mlibc_read_entries linux_abi always44 0x1000 3 100 (\<lambda>_. 0, ()) = Some ((0, w, out), u') \<and> unat w \<le> 100 \<and>
    unat w = sum_list (map (unat \<circ> d_reclen) out)"
  using mlibc_read_entries_terminates [of linux_abi 100 always44 3 "0x1000" "(\<lambda>_. 0, ())"] by (simp add: linux_abi_def always44_def)

text \<open>One process whose descriptor 0 is open on \<open>/proc\<close>.\<close>

definition proc_example :: "unit machine_state" where
  "proc_example = fd_example\<lparr>kern := (kern fd_example)\<lparr>kvfs :=
     upd_node 5 (\<lambda>n. n\<lparr>itype := T_DIR, ibackend := INODE_PROCFS\<rparr>) vfs_example\<rparr>\<rparr>"

lemma proc_example_open: "proc_open 0 0 5 proc_example"
  by (simp add: proc_open_def proc_example_def fd_example_def console_example_def vfs_example_def upd_node_def node_def cur_fds_def curp_def
      fdget_def FD_MAX_def zero_file_def process_count_def MAX_PROCESSES_def Let_def)

lemma rec_size_le: "name_terminated de \<Longrightarrow> rec_size linux_abi de \<le> 52"
  by (simp add: rec_size_def linux_abi_def name_terminated_def MUX_DIRSIZ_def)


section \<open>Paths\<close>

lemma bytes_at_Cons: "bytes_at m a (Suc n) = m a # bytes_at m (a + 1) n"
  by (simp add: bytes_at_def upt_conv_Cons map_Suc_upt [symmetric] add.assoc del: upt_Suc)

lemma cstring_bytes: "cstring m a xs \<Longrightarrow> bytes_at m a (Suc (length xs)) = xs @ [0]"
proof (induction xs arbitrary: a)
  case (Cons x xs)
  then show ?case by (subst bytes_at_Cons) simp
qed (simp add: bytes_at_def)

lemma bytes_cstring: "bytes_at m a (Suc (length xs)) = xs @ [0] \<Longrightarrow> 0 \<notin> set xs \<Longrightarrow> cstring m a xs"
proof (induction xs arbitrary: a)
  case (Cons x xs)
  then show ?case using bytes_at_Cons [of m a "Suc (length xs)"] by auto
qed (simp add: bytes_at_def)

lemma takeWhile_cstring: "cstring m a xs \<Longrightarrow> length xs < n \<Longrightarrow> takeWhile (\<lambda>x. x \<noteq> 0) (bytes_at m a n) = xs"
proof (induction xs arbitrary: a n)
  case Nil
  then show ?case by (cases n) (simp_all add: bytes_at_Cons)
next
  case (Cons x xs)
  then show ?case by (cases n) (auto simp: bytes_at_Cons)
qed

lemma c_str_cstring: "cstring m a xs \<Longrightarrow> length xs < 2 ^ 32 \<Longrightarrow> c_str m a = xs"
  unfolding c_str_def by (rule takeWhile_cstring)

lemma cstring_copy:
  assumes "0 \<notin> set xs" and "length xs < 2 ^ 31"
  shows "cstring (store_bytes m a (xs @ [0])) a xs"
  using bytes_at_store_bytes [of "xs @ [0]" m a] assms by (intro bytes_cstring) simp_all

lemma resolve_path_cstring:
  assumes "p \<noteq> 0" "cstring m p xs" "length xs < 2 ^ 31"
  shows "resolve_path c p buf 256 (m, s) =
    (if xs = [] then Some (err c ''ENOENT'', m, s)
     else if 256 \<le> length xs then Some (err c ''ENAMETOOLONG'', m, s)
     else Some (0, store_bytes m buf (xs @ [0]), s))"
proof (cases xs)
  case (Cons x ys)
  have m: "m p \<noteq> 0" using assms(2) Cons by auto
  have u: "unat (of_nat (length xs) :: u32) = length xs" using assms(3) by (intro unat_of_nat_lt) simp
  have "unat (of_nat (length xs) + 1 :: u32) = Suc (length xs)" if "length xs < 256"
    using that unat_of_nat_lt [of "Suc (length xs)"] by (simp add: add.commute)
  then show ?thesis using m u assms Cons cstring_bytes [OF assms(2)] kstrlen_cstring [OF assms(2)]
    by (auto simp: resolve_path_def word_le_nat_alt)
qed (use assms in \<open>simp add: resolve_path_def\<close>)

lemma hook_map:
  "check t n args u = map_option (\<lambda>(r, u). (errno_of r, u)) (syscall t n args u)"
  "fetch t n args u = map_option (\<lambda>(r, u). (if r < 0 then (- r, None) else (0, Some r), u)) (syscall t n args u)"
  by (cases "syscall t n args u"; simp add: check_def fetch_def split_beta)+

text \<open>A file call of the kernel as a user program sees it.\<close>

definition user_call :: "('w kernel \<Rightarrow> (outcome \<times> 'w kernel) option) \<Rightarrow> memory \<times> 'w machine_state \<Rightarrow> (int \<times> memory \<times> 'w machine_state) option" where
  "user_call f = (\<lambda>(m, s).
     (case f (kern s) of Some (Ret r ws, k) \<Rightarrow> Some (sint (word_of_int r :: u32), store_all ws m, s\<lparr>kern := k\<rparr>) | _ \<Rightarrow> None))"

lemma kernel_file_syscalls:
  "syscall (kernel_trap env uninit) KSYS_OPEN [p, fl] (m, s) = user_call (sys_open env None (c_str m p) fl) (m, s)"
  "syscall (kernel_trap env uninit) KSYS_MKDIR [p] (m, s) = user_call (path_call (vfs_mkdir_at env None (c_str m p))) (m, s)"
  "syscall (kernel_trap env uninit) KSYS_RMDIR [p] (m, s) = user_call (path_call (vfs_rmdir_at env uninit None (c_str m p))) (m, s)"
  "syscall (kernel_trap env uninit) KSYS_RENAME [p, q] (m, s) =
     user_call (path_call (vfs_rename_at env uninit None (c_str m p) None (c_str m q))) (m, s)"
  unfolding user_call_def
  by (auto simp: do_syscall1_def do_syscall2_def muxos_syscall_def sys_ret_def do_syscall_ret_def KSYS_OPEN_def KSYS_MKDIR_def KSYS_RMDIR_def
      KSYS_RENAME_def kernel_trap_file file_calls_def file_call_def syscall_numbers user_view_def split: option.splits outcome.splits)


text \<open>The string \<open>/a\<close> at 256 and \<open>/b\<close> at 1024.\<close>

definition paths_example :: memory where
  "paths_example = store_bytes (store_bytes (\<lambda>_. 0) 256 [47, 97]) 1024 [47, 98]"


section \<open>Blocking calls\<close>

declare syscall.simps [simp del]

text \<open>The kernel answers a call with \<open>r\<close> after some number of EAGAIN answers, each followed by a tick of sleep.\<close>

inductive answers_after :: "abi \<Rightarrow> 's trap \<Rightarrow> u32 \<Rightarrow> u32 list \<Rightarrow> nat \<Rightarrow> 's user \<Rightarrow> int \<Rightarrow> 's user \<Rightarrow> bool" for c t n args where
  now: "syscall t n args u = Some (r, u') \<Longrightarrow> r \<noteq> - err c ''EAGAIN'' \<Longrightarrow> answers_after c t n args 0 u r u'"
| later: "syscall t n args u = Some (- err c ''EAGAIN'', u1) \<Longrightarrow> syscall t KSYS_SLEEP [1] u1 = Some (r1, u2) \<Longrightarrow>
    answers_after c t n args k u2 r u' \<Longrightarrow> answers_after c t n args (Suc k) u r u'"

lemma retry_answers:
  "answers_after c t n args k u r u' \<Longrightarrow> retry c t n args u = Some (if r < 0 then (- r, None) else (0, Some r), u')"
proof (induction rule: answers_after.induct)
  case (now u r u')
  then show ?case by (subst retry.simps) simp
next
  case (later u u1 r1 u2 k r u')
  then show ?case by (subst retry.simps) simp
qed

lemma retry_answers_only:
  assumes "retry c t n args u = Some y"
  shows "\<exists>k r. answers_after c t n args k u r (snd y) \<and> fst y = (if r < 0 then (- r, None) else (0, Some r))"
proof (rule retry.raw_induct [where P = "\<lambda>c t n args u y. \<exists>k r. answers_after c t n args k u r (snd y) \<and>
      fst y = (if r < 0 then (- r, None) else (0, Some r))", OF _ assms], goal_cases)
  case (1 f c t n args u y)
  then obtain r u1 where call: "syscall t n args u = Some (r, u1)" by (cases "syscall t n args u") auto
  show ?case
  proof (cases "r = - err c ''EAGAIN''")
    case True
    with 1(2) call obtain r1 u2 where "syscall t KSYS_SLEEP [1] u1 = Some (r1, u2)" "f c t n args u2 = Some y"
      by (cases "syscall t KSYS_SLEEP [1] u1") auto
    moreover from this(2) obtain k r0 where "answers_after c t n args k u2 r0 (snd y)" "fst y = (if r0 < 0 then (- r0, None) else (0, Some r0))"
      using 1(1) by blast
    ultimately show ?thesis using True call answers_after.later by blast
  next
    case False
    with 1(2) call show ?thesis by (intro exI [of _ "0 :: nat"] exI [of _ r]) (auto intro!: answers_after.now)
  qed
qed

text \<open>A blocking read, write or wait returns exactly when the kernel stops answering EAGAIN, and then with its answer.\<close>

lemma blocking_calls:
  "retry c t n args u = Some y \<longleftrightarrow>
     (\<exists>k r. answers_after c t n args k u r (snd y) \<and> fst y = (if r < 0 then (- r, None) else (0, Some r)))"
proof
  assume "\<exists>k r. answers_after c t n args k u r (snd y) \<and> fst y = (if r < 0 then (- r, None) else (0, Some r))"
  then obtain k r where "answers_after c t n args k u r (snd y)" "fst y = (if r < 0 then (- r, None) else (0, Some r))" by blast
  then show "retry c t n args u = Some y" using retry_answers [of c t n args k u r "snd y"] by (cases y) simp
qed (rule retry_answers_only)

end
