(* ===== verification/NineP.thy ===== *)
theory NineP
  imports Kernel_Prelude "HOL-Library.Monad_Syntax"
begin

text \<open>
  \<open>kernel/fs/9p_conv.c\<close> and \<open>kernel/fs/9p.h\<close>: the marshalling of 9P messages. An \<open>Fcall\<close> is its tag
  and a datatype with one constructor per message type, carrying the members of the C union that type
  uses; a \<open>char *\<close> is the bytes of its string or \<open>None\<close> for the null pointer. The encoder returns its
  result and the bytes written from \<open>ap\<close> on. The decoder's pointer \<open>p\<close> is the offset \<open>p - ap\<close> as a 32-bit
  word, next to the bytes from \<open>p\<close> to \<open>ep\<close>, so that the bounds checks \<open>p + n > ep\<close> are pointer arithmetic
  at its width. \<open>gstring\<close> moves a string one byte down inside the message, to bytes that are not read
  again; a decoded string is the bytes it points to.
\<close>

type_synonym cstring = "u8 list option"

record qid =
  qid_type :: u8
  qid_vers :: u32
  qid_path :: u64

datatype fbody =
    Tversion u32 cstring
  | Rversion u32 cstring
  | Tauth u32 cstring cstring
  | Rauth qid
  | Tattach u32 u32 cstring cstring u32
  | Rattach qid
  | Rerror cstring
  | Tflush u16
  | Rflush
  | Twalk u32 u32 u16 "cstring list"
  | Rwalk u16 "qid list"
  | Topen u32 u8
  | Ropen qid u32
  | Tcreate u32 cstring u32 u8 cstring
  | Rcreate qid u32
  | Tread u32 u64 u32
  | Rread u32 "u8 list"
  | Twrite u32 u64 u32 "u8 list"
  | Rwrite u32
  | Tclunk u32
  | Rclunk
  | Tremove u32
  | Rremove
  | Tstat u32
  | Rstat u16 "u8 list"
  | Twstat u32 u16 "u8 list"
  | Rwstat
  | Other_type u8

record fcall =
  fc_tag :: u16
  fc_body :: fbody

fun fc_type :: "fbody \<Rightarrow> u8" where
  "fc_type (Tversion _ _) = 100"
| "fc_type (Rversion _ _) = 101"
| "fc_type (Tauth _ _ _) = 102"
| "fc_type (Rauth _) = 103"
| "fc_type (Tattach _ _ _ _ _) = 104"
| "fc_type (Rattach _) = 105"
| "fc_type (Rerror _) = 107"
| "fc_type (Tflush _) = 108"
| "fc_type Rflush = 109"
| "fc_type (Twalk _ _ _ _) = 110"
| "fc_type (Rwalk _ _) = 111"
| "fc_type (Topen _ _) = 112"
| "fc_type (Ropen _ _) = 113"
| "fc_type (Tcreate _ _ _ _ _) = 114"
| "fc_type (Rcreate _ _) = 115"
| "fc_type (Tread _ _ _) = 116"
| "fc_type (Rread _ _) = 117"
| "fc_type (Twrite _ _ _ _) = 118"
| "fc_type (Rwrite _) = 119"
| "fc_type (Tclunk _) = 120"
| "fc_type Rclunk = 121"
| "fc_type (Tremove _) = 122"
| "fc_type Rremove = 123"
| "fc_type (Tstat _) = 124"
| "fc_type (Rstat _ _) = 125"
| "fc_type (Twstat _ _ _) = 126"
| "fc_type Rwstat = 127"
| "fc_type (Other_type t) = t"

definition BIT8SZ :: u32 where "BIT8SZ = 1"
definition BIT16SZ :: u32 where "BIT16SZ = 2"
definition BIT32SZ :: u32 where "BIT32SZ = 4"
definition BIT64SZ :: u32 where "BIT64SZ = 8"
definition QIDSZ :: u32 where "QIDSZ = BIT8SZ + BIT32SZ + BIT64SZ"
definition MAXWELEM :: u16 where "MAXWELEM = 16"

lemmas wire_sizes = BIT8SZ_def BIT16SZ_def BIT32SZ_def BIT64SZ_def QIDSZ_def

section \<open>Encoding\<close>

definition pstring :: "cstring \<Rightarrow> u8 list" where
  "pstring s = (case s of None \<Rightarrow> u16_bytes 0 | Some t \<Rightarrow> u16_bytes (of_nat (length t)) @ t)"

definition pqid :: "qid \<Rightarrow> u8 list" where
  "pqid q = [qid_type q] @ u32_bytes (qid_vers q) @ u64_bytes (qid_path q)"

definition stringsz :: "cstring \<Rightarrow> u32" where
  "stringsz s = (case s of None \<Rightarrow> BIT16SZ | Some t \<Rightarrow> BIT16SZ + of_nat (length t))"

fun sizeS2M :: "fbody \<Rightarrow> u32" where
  "sizeS2M (Other_type _) = 0"
| "sizeS2M (Tversion _ v) = BIT32SZ + BIT8SZ + BIT16SZ + BIT32SZ + stringsz v"
| "sizeS2M (Tflush _) = BIT32SZ + BIT8SZ + BIT16SZ + BIT16SZ"
| "sizeS2M (Tauth _ u a) = BIT32SZ + BIT8SZ + BIT16SZ + BIT32SZ + stringsz u + stringsz a"
| "sizeS2M (Tattach _ _ u a _) = BIT32SZ + BIT8SZ + BIT16SZ + BIT32SZ + BIT32SZ + stringsz u + stringsz a + BIT32SZ"
| "sizeS2M (Twalk _ _ n ws) =
     fold (\<lambda>w k. k + stringsz w) (take (unat n) ws) (BIT32SZ + BIT8SZ + BIT16SZ + BIT32SZ + BIT32SZ + BIT16SZ)"
| "sizeS2M (Topen _ _) = BIT32SZ + BIT8SZ + BIT16SZ + BIT32SZ + BIT8SZ"
| "sizeS2M (Tcreate _ nm _ _ e) = BIT32SZ + BIT8SZ + BIT16SZ + BIT32SZ + stringsz nm + BIT32SZ + BIT8SZ + stringsz e"
| "sizeS2M (Tread _ _ _) = BIT32SZ + BIT8SZ + BIT16SZ + BIT32SZ + BIT64SZ + BIT32SZ"
| "sizeS2M (Twrite _ _ c _) = BIT32SZ + BIT8SZ + BIT16SZ + BIT32SZ + BIT64SZ + BIT32SZ + c"
| "sizeS2M (Tclunk _) = BIT32SZ + BIT8SZ + BIT16SZ + BIT32SZ"
| "sizeS2M (Tremove _) = BIT32SZ + BIT8SZ + BIT16SZ + BIT32SZ"
| "sizeS2M (Tstat _) = BIT32SZ + BIT8SZ + BIT16SZ + BIT32SZ"
| "sizeS2M (Twstat _ n _) = BIT32SZ + BIT8SZ + BIT16SZ + BIT32SZ + BIT16SZ + ucast n"
| "sizeS2M (Rversion _ v) = BIT32SZ + BIT8SZ + BIT16SZ + BIT32SZ + stringsz v"
| "sizeS2M (Rerror e) = BIT32SZ + BIT8SZ + BIT16SZ + stringsz e"
| "sizeS2M Rflush = BIT32SZ + BIT8SZ + BIT16SZ"
| "sizeS2M (Rauth _) = BIT32SZ + BIT8SZ + BIT16SZ + QIDSZ"
| "sizeS2M (Rattach _) = BIT32SZ + BIT8SZ + BIT16SZ + QIDSZ"
| "sizeS2M (Rwalk n _) = BIT32SZ + BIT8SZ + BIT16SZ + BIT16SZ + ucast n * QIDSZ"
| "sizeS2M (Ropen _ _) = BIT32SZ + BIT8SZ + BIT16SZ + QIDSZ + BIT32SZ"
| "sizeS2M (Rcreate _ _) = BIT32SZ + BIT8SZ + BIT16SZ + QIDSZ + BIT32SZ"
| "sizeS2M (Rread c _) = BIT32SZ + BIT8SZ + BIT16SZ + BIT32SZ + c"
| "sizeS2M (Rwrite _) = BIT32SZ + BIT8SZ + BIT16SZ + BIT32SZ"
| "sizeS2M Rclunk = BIT32SZ + BIT8SZ + BIT16SZ"
| "sizeS2M Rremove = BIT32SZ + BIT8SZ + BIT16SZ"
| "sizeS2M (Rstat n _) = BIT32SZ + BIT8SZ + BIT16SZ + BIT16SZ + ucast n"
| "sizeS2M Rwstat = BIT32SZ + BIT8SZ + BIT16SZ"

text \<open>The switch of \<open>convS2M\<close>; \<open>None\<close> is a \<open>return 0\<close> inside it.\<close>

fun convS2M_body :: "fbody \<Rightarrow> u8 list option" where
  "convS2M_body (Other_type _) = None"
| "convS2M_body (Tversion m v) = Some (u32_bytes m @ pstring v)"
| "convS2M_body (Tflush t) = Some (u16_bytes t)"
| "convS2M_body (Tauth a u an) = Some (u32_bytes a @ pstring u @ pstring an)"
| "convS2M_body (Tattach f a u an n) = Some (u32_bytes f @ u32_bytes a @ pstring u @ pstring an @ u32_bytes n)"
| "convS2M_body (Twalk f nf n ws) =
     (if n > MAXWELEM then None
      else Some (u32_bytes f @ u32_bytes nf @ u16_bytes n @ concat (map pstring (take (unat n) ws))))"
| "convS2M_body (Topen f m) = Some (u32_bytes f @ [m])"
| "convS2M_body (Tcreate f nm p m e) = Some (u32_bytes f @ pstring nm @ u32_bytes p @ [m] @ pstring e)"
| "convS2M_body (Tread f off c) = Some (u32_bytes f @ u64_bytes off @ u32_bytes c)"
| "convS2M_body (Twrite f off c d) = Some (u32_bytes f @ u64_bytes off @ u32_bytes c @ take (unat c) d)"
| "convS2M_body (Tclunk f) = Some (u32_bytes f)"
| "convS2M_body (Tremove f) = Some (u32_bytes f)"
| "convS2M_body (Tstat f) = Some (u32_bytes f)"
| "convS2M_body (Twstat f n st) = Some (u32_bytes f @ u16_bytes n @ take (unat n) st)"
| "convS2M_body (Rversion m v) = Some (u32_bytes m @ pstring v)"
| "convS2M_body (Rerror e) = Some (pstring e)"
| "convS2M_body Rflush = Some []"
| "convS2M_body (Rauth q) = Some (pqid q)"
| "convS2M_body (Rattach q) = Some (pqid q)"
| "convS2M_body (Rwalk n qs) =
     (if n > MAXWELEM then None else Some (u16_bytes n @ concat (map pqid (take (unat n) qs))))"
| "convS2M_body (Ropen q i) = Some (pqid q @ u32_bytes i)"
| "convS2M_body (Rcreate q i) = Some (pqid q @ u32_bytes i)"
| "convS2M_body (Rread c d) = Some (u32_bytes c @ take (unat c) d)"
| "convS2M_body (Rwrite c) = Some (u32_bytes c)"
| "convS2M_body Rclunk = Some []"
| "convS2M_body Rremove = Some []"
| "convS2M_body (Rstat n st) = Some (u16_bytes n @ take (unat n) st)"
| "convS2M_body Rwstat = Some []"

definition convS2M :: "fcall \<Rightarrow> u32 \<Rightarrow> u32 \<times> u8 list" where
  "convS2M f nap =
     (let sz = sizeS2M (fc_body f)
      in if sz = 0 then (0, []) else if sz > nap then (0, [])
         else
           (let hd = u32_bytes sz @ [fc_type (fc_body f)] @ u16_bytes (fc_tag f)
            in case convS2M_body (fc_body f) of
                 None \<Rightarrow> (0, hd)
               | Some bs \<Rightarrow> if sz \<noteq> of_nat (length (hd @ bs)) then (0, hd @ bs) else (sz, hd @ bs)))"

section \<open>Decoding\<close>

type_synonym cursor = "u32 \<times> u8 list"

text \<open>\<open>past ap nap n c\<close> is the test \<open>p + n > ep\<close>.\<close>

definition past :: "u32 \<Rightarrow> u32 \<Rightarrow> u32 \<Rightarrow> cursor \<Rightarrow> bool" where
  "past ap nap n c \<longleftrightarrow> ap + fst c + n > ap + nap"

definition need :: "u32 \<Rightarrow> u32 \<Rightarrow> u32 \<Rightarrow> cursor \<Rightarrow> (unit \<times> cursor) option" where
  "need ap nap n c = (if past ap nap n c then None else Some ((), c))"

definition skip :: "u32 \<Rightarrow> cursor \<Rightarrow> cursor" where
  "skip n c = (fst c + n, drop (unat n) (snd c))"

definition GBIT8 :: "cursor \<Rightarrow> (u8 \<times> cursor) option" where
  "GBIT8 c = Some (snd c ! 0, skip BIT8SZ c)"

definition GBIT16 :: "cursor \<Rightarrow> (u16 \<times> cursor) option" where
  "GBIT16 c = Some (bytes_u16 (snd c ! 0) (snd c ! 1), skip BIT16SZ c)"

definition GBIT32 :: "cursor \<Rightarrow> (u32 \<times> cursor) option" where
  "GBIT32 c = Some (bytes_u32 (snd c ! 0) (snd c ! 1) (snd c ! 2) (snd c ! 3), skip BIT32SZ c)"

definition GBIT64 :: "cursor \<Rightarrow> (u64 \<times> cursor) option" where
  "GBIT64 c = Some (bytes_u64 (bytes_u32 (snd c ! 0) (snd c ! 1) (snd c ! 2) (snd c ! 3))
     (bytes_u32 (snd c ! 4) (snd c ! 5) (snd c ! 6) (snd c ! 7)), skip BIT64SZ c)"

definition gbytes :: "u32 \<Rightarrow> cursor \<Rightarrow> (u8 list \<times> cursor) option" where
  "gbytes n c = Some (take (unat n) (snd c), skip n c)"

definition gstring :: "u32 \<Rightarrow> u32 \<Rightarrow> cursor \<Rightarrow> (cstring \<times> cursor) option" where
  "gstring ap nap c = do {
     (_, c) \<leftarrow> need ap nap BIT16SZ c;
     (n, c) \<leftarrow> GBIT16 c;
     (_, c) \<leftarrow> need ap nap (ucast n) c;
     (t, c) \<leftarrow> gbytes (ucast n) c;
     Some (Some t, c)
   }"

definition gqid :: "u32 \<Rightarrow> u32 \<Rightarrow> cursor \<Rightarrow> (qid \<times> cursor) option" where
  "gqid ap nap c = do {
     (_, c) \<leftarrow> need ap nap QIDSZ c;
     (t, c) \<leftarrow> GBIT8 c;
     (v, c) \<leftarrow> GBIT32 c;
     (pth, c) \<leftarrow> GBIT64 c;
     Some (\<lparr>qid_type = t, qid_vers = v, qid_path = pth\<rparr>, c)
   }"

fun grepeat :: "(cursor \<Rightarrow> ('a \<times> cursor) option) \<Rightarrow> nat \<Rightarrow> cursor \<Rightarrow> ('a list \<times> cursor) option" where
  "grepeat g 0 c = Some ([], c)"
| "grepeat g (Suc n) c = do { (x, c) \<leftarrow> g c; (xs, c) \<leftarrow> grepeat g n c; Some (x # xs, c) }"

text \<open>
  The switch of \<open>convM2S\<close> on the type byte, requests and replies apart; \<open>None\<close> covers \<open>return 0\<close> and a
  null \<open>p\<close>. The members \<open>n_uname\<close> of a Tattach and \<open>ext\<close> of a Tcreate are not read and keep what the
  \<open>Fcall\<close> held before, here 0 and null.
\<close>

definition convM2S_T :: "u32 \<Rightarrow> u32 \<Rightarrow> u8 \<Rightarrow> cursor \<Rightarrow> (fbody \<times> cursor) option" where
  "convM2S_T ap nap t c =
     (if t = 100 then do {
        (_, c) \<leftarrow> need ap nap BIT32SZ c; (m, c) \<leftarrow> GBIT32 c; (v, c) \<leftarrow> gstring ap nap c; Some (Tversion m v, c) }
      else if t = 108 then do {
        (_, c) \<leftarrow> need ap nap BIT16SZ c; (ot, c) \<leftarrow> GBIT16 c; Some (Tflush ot, c) }
      else if t = 102 then do {
        (_, c) \<leftarrow> need ap nap BIT32SZ c; (a, c) \<leftarrow> GBIT32 c;
        (u, c) \<leftarrow> gstring ap nap c; (an, c) \<leftarrow> gstring ap nap c; Some (Tauth a u an, c) }
      else if t = 104 then do {
        (_, c) \<leftarrow> need ap nap BIT32SZ c; (f, c) \<leftarrow> GBIT32 c;
        (_, c) \<leftarrow> need ap nap BIT32SZ c; (a, c) \<leftarrow> GBIT32 c;
        (u, c) \<leftarrow> gstring ap nap c; (an, c) \<leftarrow> gstring ap nap c; Some (Tattach f a u an 0, c) }
      else if t = 110 then do {
        (_, c) \<leftarrow> need ap nap (BIT32SZ + BIT32SZ + BIT16SZ) c;
        (f, c) \<leftarrow> GBIT32 c; (nf, c) \<leftarrow> GBIT32 c; (n, c) \<leftarrow> GBIT16 c;
        if n > MAXWELEM then None
        else do { (ws, c) \<leftarrow> grepeat (gstring ap nap) (unat n) c; Some (Twalk f nf n ws, c) } }
      else if t = 112 then do {
        (_, c) \<leftarrow> need ap nap (BIT32SZ + BIT8SZ) c; (f, c) \<leftarrow> GBIT32 c; (m, c) \<leftarrow> GBIT8 c; Some (Topen f m, c) }
      else if t = 114 then do {
        (_, c) \<leftarrow> need ap nap BIT32SZ c; (f, c) \<leftarrow> GBIT32 c;
        (nm, c) \<leftarrow> gstring ap nap c;
        (_, c) \<leftarrow> need ap nap (BIT32SZ + BIT8SZ) c; (p, c) \<leftarrow> GBIT32 c; (m, c) \<leftarrow> GBIT8 c;
        Some (Tcreate f nm p m None, c) }
      else if t = 116 then do {
        (_, c) \<leftarrow> need ap nap (BIT32SZ + BIT64SZ + BIT32SZ) c;
        (f, c) \<leftarrow> GBIT32 c; (off, c) \<leftarrow> GBIT64 c; (k, c) \<leftarrow> GBIT32 c; Some (Tread f off k, c) }
      else if t = 118 then do {
        (_, c) \<leftarrow> need ap nap (BIT32SZ + BIT64SZ + BIT32SZ) c;
        (f, c) \<leftarrow> GBIT32 c; (off, c) \<leftarrow> GBIT64 c; (k, c) \<leftarrow> GBIT32 c;
        (_, c) \<leftarrow> need ap nap k c; (d, c) \<leftarrow> gbytes k c; Some (Twrite f off k d, c) }
      else if t = 120 then do {
        (_, c) \<leftarrow> need ap nap BIT32SZ c; (f, c) \<leftarrow> GBIT32 c; Some (Tclunk f, c) }
      else if t = 122 then do {
        (_, c) \<leftarrow> need ap nap BIT32SZ c; (f, c) \<leftarrow> GBIT32 c; Some (Tremove f, c) }
      else if t = 124 then do {
        (_, c) \<leftarrow> need ap nap BIT32SZ c; (f, c) \<leftarrow> GBIT32 c; Some (Tstat f, c) }
      else if t = 126 then do {
        (_, c) \<leftarrow> need ap nap (BIT32SZ + BIT16SZ) c;
        (f, c) \<leftarrow> GBIT32 c; (n, c) \<leftarrow> GBIT16 c;
        (_, c) \<leftarrow> need ap nap (ucast n) c; (st, c) \<leftarrow> gbytes (ucast n) c; Some (Twstat f n st, c) }
      else None)"

definition convM2S_R :: "u32 \<Rightarrow> u32 \<Rightarrow> u8 \<Rightarrow> cursor \<Rightarrow> (fbody \<times> cursor) option" where
  "convM2S_R ap nap t c =
     (if t = 101 then do {
        (_, c) \<leftarrow> need ap nap BIT32SZ c; (m, c) \<leftarrow> GBIT32 c; (v, c) \<leftarrow> gstring ap nap c; Some (Rversion m v, c) }
      else if t = 107 then do { (e, c) \<leftarrow> gstring ap nap c; Some (Rerror e, c) }
      else if t = 109 then Some (Rflush, c)
      else if t = 103 then do { (q, c) \<leftarrow> gqid ap nap c; Some (Rauth q, c) }
      else if t = 105 then do { (q, c) \<leftarrow> gqid ap nap c; Some (Rattach q, c) }
      else if t = 111 then do {
        (_, c) \<leftarrow> need ap nap BIT16SZ c; (n, c) \<leftarrow> GBIT16 c;
        if n > MAXWELEM then None
        else do { (qs, c) \<leftarrow> grepeat (gqid ap nap) (unat n) c; Some (Rwalk n qs, c) } }
      else if t = 113 then do {
        (q, c) \<leftarrow> gqid ap nap c; (_, c) \<leftarrow> need ap nap BIT32SZ c; (i, c) \<leftarrow> GBIT32 c; Some (Ropen q i, c) }
      else if t = 115 then do {
        (q, c) \<leftarrow> gqid ap nap c; (_, c) \<leftarrow> need ap nap BIT32SZ c; (i, c) \<leftarrow> GBIT32 c; Some (Rcreate q i, c) }
      else if t = 117 then do {
        (_, c) \<leftarrow> need ap nap BIT32SZ c; (k, c) \<leftarrow> GBIT32 c;
        (_, c) \<leftarrow> need ap nap k c; (d, c) \<leftarrow> gbytes k c; Some (Rread k d, c) }
      else if t = 119 then do { (_, c) \<leftarrow> need ap nap BIT32SZ c; (k, c) \<leftarrow> GBIT32 c; Some (Rwrite k, c) }
      else if t = 121 then Some (Rclunk, c)
      else if t = 123 then Some (Rremove, c)
      else if t = 125 then do {
        (_, c) \<leftarrow> need ap nap BIT16SZ c; (n, c) \<leftarrow> GBIT16 c;
        (_, c) \<leftarrow> need ap nap (ucast n) c; (st, c) \<leftarrow> gbytes (ucast n) c; Some (Rstat n st, c) }
      else if t = 127 then Some (Rwstat, c)
      else None)"

definition convM2S_body :: "u32 \<Rightarrow> u32 \<Rightarrow> u8 \<Rightarrow> cursor \<Rightarrow> (fbody \<times> cursor) option" where
  "convM2S_body ap nap t c = (case convM2S_T ap nap t c of None \<Rightarrow> convM2S_R ap nap t c | Some r \<Rightarrow> Some r)"

text \<open>\<open>convM2S\<close> on the message \<open>msg\<close> at address \<open>ap\<close>; \<open>None\<close> is the result 0.\<close>

definition convM2S :: "u32 \<Rightarrow> u8 list \<Rightarrow> (u32 \<times> fcall) option" where
  "convM2S ap msg =
     (let nap = of_nat (length msg) in do {
        (_, c) \<leftarrow> need ap nap (BIT32SZ + BIT8SZ + BIT16SZ) (0, msg);
        (sz, c) \<leftarrow> GBIT32 c;
        if sz < BIT32SZ + BIT8SZ + BIT16SZ then None
        else do {
          (t, c) \<leftarrow> GBIT8 c;
          (tag, c) \<leftarrow> GBIT16 c;
          (b, c) \<leftarrow> convM2S_body ap nap t c;
          if past ap nap 0 c then None
          else if ap + sz = ap + fst c then Some (sz, \<lparr>fc_tag = tag, fc_body = b\<rparr>)
          else None
        } })"

section \<open>Directory entries\<close>

record dir =
  d_type :: u16
  d_dev :: u32
  d_qid :: qid
  d_mode :: u32
  d_atime :: u32
  d_mtime :: u32
  d_length :: u64
  d_name :: cstring
  d_uid :: cstring
  d_gid :: cstring
  d_muid :: cstring

definition STATFIXLEN :: u32 where
  "STATFIXLEN = BIT16SZ + QIDSZ + 5 * BIT16SZ + 4 * BIT32SZ + 1 * BIT64SZ"

definition sval :: "cstring \<Rightarrow> u8 list" where
  "sval s = (case s of None \<Rightarrow> [] | Some t \<Rightarrow> t)"

text \<open>\<open>convD2M\<close>: the four strings are appended one by one, with a check before each.\<close>

fun put_strings :: "u8 list list \<Rightarrow> u32 \<Rightarrow> u8 list \<Rightarrow> u8 list option" where
  "put_strings [] nbuf out = Some out"
| "put_strings (t # ts) nbuf out =
     (if of_nat (length out) + of_nat (length t) + BIT16SZ > nbuf then None
      else put_strings ts nbuf (out @ u16_bytes (of_nat (length t)) @ t))"

definition convD2M :: "dir \<Rightarrow> u32 \<Rightarrow> u32 \<times> u8 list" where
  "convD2M d nbuf =
     (if nbuf < BIT16SZ then (0, [])
      else
        (let sv = [sval (d_name d), sval (d_uid d), sval (d_gid d), sval (d_muid d)];
             ss = STATFIXLEN + fold (\<lambda>t n. n + of_nat (length t)) sv 0;
             cnt = u16_bytes (ucast (ss - BIT16SZ))
         in if ss > nbuf then (BIT16SZ, cnt)
            else
              (let fixed = cnt @ u16_bytes (d_type d) @ u32_bytes (d_dev d) @ pqid (d_qid d) @ u32_bytes (d_mode d) @
                           u32_bytes (d_atime d) @ u32_bytes (d_mtime d) @ u64_bytes (d_length d)
               in case put_strings sv nbuf fixed of
                    None \<Rightarrow> (0, fixed)
                  | Some out \<Rightarrow> if ss \<noteq> of_nat (length out) then (0, out) else (of_nat (length out), out))))"

text \<open>
  \<open>convM2D\<close> with a buffer for the strings: the entry, the bytes consumed, and the bytes stored from
  \<open>strs\<close> on (the four strings, each with its NUL). It is called with a buffer far from the end of the
  address space and lengths below 65536 are added to its pointers, so these do not wrap.
\<close>

fun get_strings :: "nat \<Rightarrow> u8 list \<Rightarrow> (u8 list list \<times> u8 list) option" where
  "get_strings 0 bs = Some ([], bs)"
| "get_strings (Suc k) bs =
     (if length bs < 2 then None
      else
        (let ns = unat (bytes_u16 (bs ! 0) (bs ! 1)); bs = drop 2 bs
         in if length bs < ns then None
            else do { (ts, r) \<leftarrow> get_strings k (drop ns bs); Some (take ns bs # ts, r) }))"

definition convM2D :: "u8 list \<Rightarrow> (nat \<times> dir \<times> u8 list) option" where
  "convM2D buf =
     (if length buf < unat STATFIXLEN then None
      else do {
        let c = skip BIT16SZ (0, buf);
        (ty, c) \<leftarrow> GBIT16 c;
        (dev, c) \<leftarrow> GBIT32 c;
        (qt, c) \<leftarrow> GBIT8 c;
        (qv, c) \<leftarrow> GBIT32 c;
        (qp, c) \<leftarrow> GBIT64 c;
        (mo, c) \<leftarrow> GBIT32 c;
        (atm, c) \<leftarrow> GBIT32 c;
        (mtm, c) \<leftarrow> GBIT32 c;
        (len, c) \<leftarrow> GBIT64 c;
        (ts, r) \<leftarrow> get_strings 4 (snd c);
        Some (length buf - length r,
          \<lparr>d_type = ty, d_dev = dev, d_qid = \<lparr>qid_type = qt, qid_vers = qv, qid_path = qp\<rparr>, d_mode = mo,
            d_atime = atm, d_mtime = mtm, d_length = len,
            d_name = Some (ts ! 0), d_uid = Some (ts ! 1), d_gid = Some (ts ! 2), d_muid = Some (ts ! 3)\<rparr>,
          concat (map (\<lambda>t. t @ [0]) ts))
      })"

section \<open>Decoders undo encoders\<close>

text \<open>
  \<open>decodes ap nap d bs v\<close>: wherever the cursor stands inside a message at \<open>ap\<close>, the decoder \<open>d\<close> turns the
  bytes \<open>bs\<close> into \<open>v\<close> and moves behind them. The rules compose decoders the way the code chains
  them.
\<close>

definition good :: "u32 \<Rightarrow> u32 \<Rightarrow> cursor \<Rightarrow> bool" where
  "good ap nap c \<longleftrightarrow> unat (fst c) + length (snd c) = unat nap \<and> unat ap + unat nap < 2 ^ 32"

definition decodes :: "u32 \<Rightarrow> u32 \<Rightarrow> (cursor \<Rightarrow> ('a \<times> cursor) option) \<Rightarrow> u8 list \<Rightarrow> 'a \<Rightarrow> bool" where
  "decodes ap nap d bs v \<longleftrightarrow>
     (\<forall>q r. good ap nap (q, bs @ r) \<longrightarrow> d (q, bs @ r) = Some (v, (q + of_nat (length bs), r)))"

lemma good_advance: "good ap nap (q, bs @ r) \<Longrightarrow> good ap nap (q + of_nat (length bs), r)"
proof -
  assume g: "good ap nap (q, bs @ r)"
  have l: "unat (of_nat (length bs) :: u32) = length bs"
    using g by (intro unat_of_nat_lt) (simp add: good_def)
  have "unat (q + of_nat (length bs)) = unat q + length bs"
    using g l by (simp add: good_def unat_plus_if')
  with g show ?thesis by (simp add: good_def)
qed

lemma past_good:
  assumes "good ap nap c" "unat n \<le> length (snd c)"
  shows "\<not> past ap nap n c"
proof -
  have "unat (ap + fst c + n) = unat ap + unat (fst c) + unat n" "unat (ap + nap) = unat ap + unat nap"
    using assms by (auto simp: good_def unat_plus_if')
  then show ?thesis using assms by (simp add: past_def good_def word_less_nat_alt)
qed

lemma decodes_need: "unat n \<le> length bs \<Longrightarrow> decodes ap nap (k ()) bs w \<Longrightarrow>
    decodes ap nap (\<lambda>c. need ap nap n c \<bind> case_prod k) bs w"
  unfolding decodes_def by (auto simp: need_def dest: past_good [of ap nap _ n])

lemma decodes_bind: "decodes ap nap d bs v \<Longrightarrow> decodes ap nap (k v) bs' w \<Longrightarrow>
    decodes ap nap (\<lambda>c. d c \<bind> case_prod k) (bs @ bs') w"
  unfolding decodes_def using good_advance [of ap nap _ bs] by (auto simp: add.assoc)

lemma decodes_last: "decodes ap nap d bs v \<Longrightarrow> decodes ap nap (\<lambda>c. d c \<bind> (\<lambda>(v, c). Some (f v, c))) bs (f v)"
  unfolding decodes_def by simp

lemma decodes_return: "decodes ap nap (\<lambda>c. Some (v, c)) [] v"
  unfolding decodes_def by simp

lemma decodes_then: "b \<Longrightarrow> decodes ap nap k bs w \<Longrightarrow> decodes ap nap (\<lambda>c. if b then k c else k' c) bs w"
  by (simp add: decodes_def)

lemma decodes_else: "\<not> b \<Longrightarrow> decodes ap nap k' bs w \<Longrightarrow> decodes ap nap (\<lambda>c. if b then k c else k' c) bs w"
  by (simp add: decodes_def)

lemma decodes_GBIT8: "decodes ap nap GBIT8 [v] v"
  by (simp add: decodes_def GBIT8_def skip_def BIT8SZ_def)

lemma decodes_GBIT16: "decodes ap nap GBIT16 (u16_bytes v) v"
  by (simp add: decodes_def GBIT16_def skip_def BIT16SZ_def u16_bytes_def bytes_u16_join)

lemma decodes_GBIT32: "decodes ap nap GBIT32 (u32_bytes v) v"
  by (simp add: decodes_def GBIT32_def skip_def BIT32SZ_def u32_bytes_def bytes_u32_join)

lemma decodes_GBIT64: "decodes ap nap GBIT64 (u64_bytes v) v"
  using bytes_u64_join [of v] by (simp add: decodes_def GBIT64_def skip_def BIT64SZ_def u64_bytes_def)

lemma decodes_gbytes: "length bs = unat n \<Longrightarrow> decodes ap nap (gbytes n) bs bs"
  by (simp add: decodes_def gbytes_def skip_def word_unat_eq_iff [symmetric])

definition str_ok :: "cstring \<Rightarrow> bool" where
  "str_ok s \<longleftrightarrow> length (sval s) < 65536"

lemma unat_ucast_u16: "unat (ucast n :: u32) = unat n" for n :: u16
proof -
  have "unat n < 2 ^ LENGTH(16)" by (rule unsigned_less)
  then show ?thesis by (simp add: unsigned_ucast_eq take_bit_nat_eq_self)
qed

lemma unat_string_length: "length t < 65536 \<Longrightarrow> unat (ucast (of_nat (length t) :: u16) :: u32) = length t"
  by (simp add: unat_ucast_u16 unat_of_nat take_bit_nat_eq_self_iff)

lemma pstring_sval: "pstring s = u16_bytes (of_nat (length (sval s))) @ sval s"
  by (simp add: pstring_def sval_def split: option.split)

lemma decodes_gstring: "str_ok s \<Longrightarrow> decodes ap nap (gstring ap nap) (pstring s) (Some (sval s))"
  unfolding gstring_def pstring_sval
  by (rule decodes_need decodes_bind decodes_last decodes_GBIT16 decodes_gbytes
      | simp add: str_ok_def unat_string_length BIT16SZ_def)+

lemma decodes_gqid: "decodes ap nap (gqid ap nap) (pqid q) q"
proof -
  have "decodes ap nap (gqid ap nap) ([qid_type q] @ u32_bytes (qid_vers q) @ u64_bytes (qid_path q))
      \<lparr>qid_type = qid_type q, qid_vers = qid_vers q, qid_path = qid_path q\<rparr>"
    unfolding gqid_def
    by (rule decodes_need decodes_last decodes_bind decodes_GBIT8 decodes_GBIT32 decodes_GBIT64 | simp add: wire_sizes)+
  then show ?thesis by (cases q) (simp add: pqid_def)
qed

lemma decodes_grepeat:
  "(\<And>x. x \<in> set xs \<Longrightarrow> decodes ap nap g (enc x) (f x)) \<Longrightarrow>
    decodes ap nap (grepeat g (length xs)) (concat (map enc xs)) (map f xs)"
proof (induction xs)
  case Nil
  then show ?case by (simp add: decodes_def)
next
  case (Cons x xs)
  have "decodes ap nap (\<lambda>c. g c \<bind> (\<lambda>(x, c). grepeat g (length xs) c \<bind> (\<lambda>(xs, c). Some (x # xs, c))))
      (enc x @ concat (map enc xs)) (f x # map f xs)"
    using Cons decodes_last [of ap nap "grepeat g (length xs)" _ "map f xs" "\<lambda>xs. f x # xs"] by (intro decodes_bind) auto
  then show ?case by (simp add: decodes_def)
qed

lemmas decoding = decodes_need decodes_last decodes_bind decodes_return decodes_GBIT8 decodes_GBIT16
  decodes_GBIT32 decodes_GBIT64 decodes_gbytes decodes_gstring decodes_gqid

text \<open>Messages an honest sender builds: counts agree with what they count and strings fit their length field.\<close>

fun msg_ok :: "fbody \<Rightarrow> bool" where
  "msg_ok (Tversion _ v) = str_ok v"
| "msg_ok (Rversion _ v) = str_ok v"
| "msg_ok (Tauth _ u a) = (str_ok u \<and> str_ok a)"
| "msg_ok (Tattach _ _ u a _) = (str_ok u \<and> str_ok a)"
| "msg_ok (Rerror e) = str_ok e"
| "msg_ok (Twalk _ _ n ws) = (unat n = length ws \<and> n \<le> MAXWELEM \<and> list_all str_ok ws)"
| "msg_ok (Rwalk n qs) = (unat n = length qs \<and> n \<le> MAXWELEM)"
| "msg_ok (Tcreate _ nm _ _ e) = (str_ok nm \<and> str_ok e)"
| "msg_ok (Rread c d) = (unat c = length d \<and> length d < 2 ^ 31)"
| "msg_ok (Twrite _ _ c d) = (unat c = length d \<and> length d < 2 ^ 31)"
| "msg_ok (Rstat n st) = (unat n = length st)"
| "msg_ok (Twstat _ n st) = (unat n = length st)"
| "msg_ok (Other_type _) = False"
| "msg_ok _ = True"

text \<open>The message as its receiver sees it: a null string is the empty string.\<close>

fun canon :: "fbody \<Rightarrow> fbody" where
  "canon (Tversion m v) = Tversion m (Some (sval v))"
| "canon (Rversion m v) = Rversion m (Some (sval v))"
| "canon (Tauth a u n) = Tauth a (Some (sval u)) (Some (sval n))"
| "canon (Rerror e) = Rerror (Some (sval e))"
| "canon (Twalk f nf n ws) = Twalk f nf n (map (\<lambda>s. Some (sval s)) ws)"
| "canon b = b"

lemma decode_body_T: "decodes ap nap (convM2S_T ap nap t) bs v \<Longrightarrow> decodes ap nap (convM2S_body ap nap t) bs v"
  by (simp add: decodes_def convM2S_body_def)

lemma decode_body_R: "t \<notin> {100, 102, 104, 108, 110, 112, 114, 116, 118, 120, 122, 124, 126} \<Longrightarrow>
    decodes ap nap (convM2S_R ap nap t) bs v \<Longrightarrow> decodes ap nap (convM2S_body ap nap t) bs v"
  by (simp add: decodes_def convM2S_body_def convM2S_T_def)

lemma convM2S_T_decodes:
  "decodes ap nap (convM2S_T ap nap 108) (u16_bytes ot) (Tflush ot)"
  "str_ok v \<Longrightarrow> decodes ap nap (convM2S_T ap nap 100) (u32_bytes m @ pstring v) (Tversion m (Some (sval v)))"
  "str_ok u \<Longrightarrow> str_ok n \<Longrightarrow> decodes ap nap (convM2S_T ap nap 102) (u32_bytes a @ pstring u @ pstring n)
     (Tauth a (Some (sval u)) (Some (sval n)))"
  "decodes ap nap (convM2S_T ap nap 112) (u32_bytes f @ [md]) (Topen f md)"
  "decodes ap nap (convM2S_T ap nap 116) (u32_bytes f @ u64_bytes off @ u32_bytes k) (Tread f off k)"
  "length d = unat k \<Longrightarrow> decodes ap nap (convM2S_T ap nap 118) (u32_bytes f @ u64_bytes off @ u32_bytes k @ d) (Twrite f off k d)"
  "decodes ap nap (convM2S_T ap nap 120) (u32_bytes f) (Tclunk f)"
  "decodes ap nap (convM2S_T ap nap 122) (u32_bytes f) (Tremove f)"
  "decodes ap nap (convM2S_T ap nap 124) (u32_bytes f) (Tstat f)"
  "length st = unat (ns :: u16) \<Longrightarrow> decodes ap nap (convM2S_T ap nap 126) (u32_bytes f @ u16_bytes ns @ st) (Twstat f ns st)"
  unfolding convM2S_T_def
  by ((rule decodes_else, (simp; fail)) | (rule decodes_then, (simp; fail)) | rule decoding
      | (simp add: wire_sizes unat_ucast_u16; fail))+

lemma convM2S_walk_decodes:
  assumes "unat n = length ws" "n \<le> MAXWELEM" "list_all str_ok ws"
  shows "decodes ap nap (convM2S_T ap nap 110) (u32_bytes f @ u32_bytes nf @ u16_bytes n @ concat (map pstring ws))
      (Twalk f nf n (map (\<lambda>s. Some (sval s)) ws))"
proof -
  have ws: "decodes ap nap (grepeat (gstring ap nap) (unat n)) (concat (map pstring ws)) (map (\<lambda>s. Some (sval s)) ws)"
    unfolding assms(1) using assms(3) by (intro decodes_grepeat decodes_gstring) (simp add: list_all_iff)
  have n: "\<not> n > MAXWELEM" using assms(2) by simp
  show ?thesis unfolding convM2S_T_def
    by ((rule decodes_else, (simp add: n; fail)) | (rule decodes_then, (simp; fail))
      | rule ws decodes_need decodes_last decodes_bind decodes_GBIT16 decodes_GBIT32 | (simp add: wire_sizes; fail))+
qed

lemma convM2S_Rwalk_decodes:
  assumes "unat n = length qs" "n \<le> MAXWELEM"
  shows "decodes ap nap (convM2S_R ap nap 111) (u16_bytes n @ concat (map pqid qs)) (Rwalk n qs)"
proof -
  have qs: "decodes ap nap (grepeat (gqid ap nap) (unat n)) (concat (map pqid qs)) qs"
    using decodes_grepeat [of qs ap nap "gqid ap nap" pqid "\<lambda>q. q"] decodes_gqid by (simp add: assms(1))
  have n: "\<not> n > MAXWELEM" using assms(2) by simp
  show ?thesis unfolding convM2S_R_def
    by ((rule decodes_else, (simp add: n; fail)) | (rule decodes_then, (simp; fail))
      | rule qs decodes_need decodes_last decodes_bind decodes_GBIT16 decodes_GBIT32 | (simp add: wire_sizes; fail))+
qed

lemma convM2S_R_decodes:
  "str_ok v \<Longrightarrow> decodes ap nap (convM2S_R ap nap 101) (u32_bytes m @ pstring v) (Rversion m (Some (sval v)))"
  "str_ok v \<Longrightarrow> decodes ap nap (convM2S_R ap nap 107) (pstring v) (Rerror (Some (sval v)))"
  "decodes ap nap (convM2S_R ap nap 109) [] Rflush"
  "decodes ap nap (convM2S_R ap nap 103) (pqid q) (Rauth q)"
  "decodes ap nap (convM2S_R ap nap 105) (pqid q) (Rattach q)"
  "decodes ap nap (convM2S_R ap nap 113) (pqid q @ u32_bytes i) (Ropen q i)"
  "decodes ap nap (convM2S_R ap nap 115) (pqid q @ u32_bytes i) (Rcreate q i)"
  "length d = unat k \<Longrightarrow> decodes ap nap (convM2S_R ap nap 117) (u32_bytes k @ d) (Rread k d)"
  "decodes ap nap (convM2S_R ap nap 119) (u32_bytes k) (Rwrite k)"
  "decodes ap nap (convM2S_R ap nap 121) [] Rclunk"
  "decodes ap nap (convM2S_R ap nap 123) [] Rremove"
  "length st = unat (ns :: u16) \<Longrightarrow> decodes ap nap (convM2S_R ap nap 125) (u16_bytes ns @ st) (Rstat ns st)"
  "decodes ap nap (convM2S_R ap nap 127) [] Rwstat"
  unfolding convM2S_R_def
  by ((rule decodes_else, (simp; fail)) | (rule decodes_then, (simp; fail)) | rule decoding
      | (simp add: wire_sizes unat_ucast_u16; fail))+

fun is_dotu :: "fbody \<Rightarrow> bool" where
  "is_dotu (Tattach _ _ _ _ _) = True"
| "is_dotu (Tcreate _ _ _ _ _) = True"
| "is_dotu _ = False"

lemmas decode_T = convM2S_T_decodes [THEN decode_body_T] convM2S_walk_decodes [THEN decode_body_T]

lemmas decode_R = convM2S_R_decodes [THEN decode_body_R [rotated], simplified]
  convM2S_Rwalk_decodes [THEN decode_body_R [rotated], simplified]

lemma decode_body_ok:
  assumes "msg_ok b" "\<not> is_dotu b" "convS2M_body b = Some bs"
  shows "decodes ap nap (convM2S_body ap nap (fc_type b)) bs (canon b)"
  using assms by (cases b) (auto simp: not_less intro: decode_T decode_R split: if_splits)

lemma length_pqid [simp]: "length (pqid q) = 13"
  by (simp add: pqid_def)

lemma stringsz_length: "stringsz s = of_nat (length (pstring s))"
  by (simp add: stringsz_def pstring_def BIT16SZ_def split: option.split)

lemma fold_stringsz: "fold (\<lambda>w k. k + stringsz w) ws k0 = k0 + of_nat (length (concat (map pstring ws)))"
  by (induction ws arbitrary: k0) (simp_all add: stringsz_length)

lemma length_concat_pqid: "length (concat (map pqid qs)) = 13 * length qs"
  by (induction qs) simp_all

lemma sizeS2M_length:
  assumes "msg_ok b"
  shows "\<exists>bs. convS2M_body b = Some bs \<and> sizeS2M b = of_nat (7 + length bs)"
proof -
  have u: "ucast (n :: u16) = (of_nat k :: u32)" if "unat n = k" for n k
    using that by (metis unat_ucast_u16 unat_of_nat_self)
  have c: "c = (of_nat k :: u32)" if "unat c = k" for c k using that by auto
  show ?thesis using assms
    by (cases b) (auto simp: wire_sizes stringsz_length fold_stringsz [unfolded stringsz_length] length_concat_pqid
      not_less min_def u add.assoc mult.commute dest: c)
qed

lemma convS2M_ok:
  assumes "msg_ok (fc_body f)" "convS2M_body (fc_body f) = Some bs" "7 + length bs < 2 ^ 32"
  shows "convS2M f nap =
    (if 7 + length bs > unat nap then (0, [])
     else (of_nat (7 + length bs),
           u32_bytes (of_nat (7 + length bs)) @ [fc_type (fc_body f)] @ u16_bytes (fc_tag f) @ bs))"
proof -
  have sz: "sizeS2M (fc_body f) = of_nat (7 + length bs)" using sizeS2M_length [OF assms(1)] assms(2) by auto
  have u: "unat (of_nat (7 + length bs) :: u32) = 7 + length bs" using assms(3) by (intro unat_of_nat_lt) simp
  then have "(of_nat (7 + length bs) :: u32) \<noteq> 0" by (metis add_is_0 unat_0 zero_neq_numeral)
  moreover have "(of_nat (7 + length bs) > nap) \<longleftrightarrow> 7 + length bs > unat nap" unfolding word_less_nat_alt u ..
  ultimately show ?thesis using assms(2) unfolding convS2M_def Let_def sz by simp
qed

text \<open>Reading the header and the body of a message that was encoded.\<close>

definition message :: "u16 \<Rightarrow> u8 \<Rightarrow> u8 list \<Rightarrow> u8 list" where
  "message tag t bs = u32_bytes (of_nat (7 + length bs)) @ [t] @ u16_bytes tag @ bs"

lemma convM2S_message:
  assumes len: "unat ap + 7 + length bs < 2 ^ 32"
    and d: "decodes ap (of_nat (7 + length bs)) (convM2S_body ap (of_nat (7 + length bs)) t) bs1 b" and bs: "bs = bs1 @ bs2"
  shows "convM2S ap (message tag t bs) =
    (if bs2 = [] then Some (of_nat (7 + length bs), \<lparr>fc_tag = tag, fc_body = b\<rparr>) else None)"
proof -
  let ?n = "of_nat (7 + length bs) :: u32"
  have u: "unat ?n = 7 + length bs" using len by (intro unat_of_nat_lt) simp
  have L: "length (message tag t bs) = 7 + length bs" by (simp add: message_def)
  have g0: "good ap ?n (0, u32_bytes ?n @ [t] @ u16_bytes tag @ bs)" using len unfolding good_def u by simp
  have g4: "good ap ?n (4, [t] @ u16_bytes tag @ bs)" using good_advance [OF g0] by simp
  have g5: "good ap ?n (5, u16_bytes tag @ bs)" using good_advance [OF g4] by simp
  have g7: "good ap ?n (7, bs1 @ bs2)" using good_advance [OF g5] by (simp add: bs)
  have gend: "good ap ?n (7 + of_nat (length bs1), bs2)" using good_advance [OF g7] .
  have h: "need ap ?n (BIT32SZ + BIT8SZ + BIT16SZ) (0, message tag t bs) = Some ((), (0, message tag t bs))"
    using past_good [OF g0, of 7] by (simp add: need_def wire_sizes message_def)
  have r1: "GBIT32 (0, message tag t bs) = Some (?n, (4, [t] @ u16_bytes tag @ bs))"
    using decodes_GBIT32 g0 unfolding decodes_def message_def by fastforce
  have r2: "GBIT8 (4, [t] @ u16_bytes tag @ bs) = Some (t, (5, u16_bytes tag @ bs))"
    using decodes_GBIT8 g4 unfolding decodes_def by fastforce
  have r3: "GBIT16 (5, u16_bytes tag @ bs) = Some (tag, (7, bs))"
    using decodes_GBIT16 g5 unfolding decodes_def by fastforce
  have r4: "convM2S_body ap ?n t (7, bs) = Some (b, (7 + of_nat (length bs1), bs2))"
    using d g7 unfolding decodes_def bs by blast
  have e: "?n = 7 + of_nat (length bs1) \<longleftrightarrow> bs2 = []"
  proof -
    have "unat (7 + of_nat (length bs1) :: u32) + length bs2 = 7 + length bs" using gend u by (simp add: good_def)
    then show ?thesis using u by (metis add_cancel_left_right length_0_conv unat_of_nat_self)
  qed
  have "\<not> ?n < BIT32SZ + BIT8SZ + BIT16SZ" by (simp only: word_less_nat_alt u) (simp add: wire_sizes)
  moreover have "\<not> past ap ?n 0 (7 + of_nat (length bs1), bs2)" by (rule past_good [OF gend]) simp
  ultimately show ?thesis unfolding convM2S_def Let_def L using h r1 r2 r3 r4 e by simp
qed

section \<open>Properties\<close>

text \<open>
  The encoder is exact: for every message whose counts agree with what they count, \<open>convS2M\<close>
  refuses it exactly when it does not fit in the buffer, and otherwise writes the size, type, tag and
  fields, as many bytes as \<open>sizeS2M\<close> announced, and returns that number.
\<close>

lemma convS2M_correct:
  assumes "msg_ok (fc_body f)" and "convS2M_body (fc_body f) = Some bs" and "7 + length bs < 2 ^ 32"
  shows "convS2M f nap =
    (if 7 + length bs > unat nap then (0, []) else (of_nat (7 + length bs), message (fc_tag f) (fc_type (fc_body f)) bs)) \<and>
    unat (sizeS2M (fc_body f)) = 7 + length bs"
proof -
  have "unat (of_nat (7 + length bs) :: u32) = 7 + length bs" using assms(3) by (intro unat_of_nat_lt) simp
  then show ?thesis using convS2M_ok [OF assms] sizeS2M_length [OF assms(1)] assms(2)
    by (auto simp: message_def simp del: of_nat_add)
qed

lemma convS2M_correct_witness:
  "convS2M \<lparr>fc_tag = 1, fc_body = Tclunk 5\<rparr> 64 = (11, [11, 0, 0, 0, 120, 1, 0, 5, 0, 0, 0])"
  using convS2M_correct [of "\<lparr>fc_tag = 1, fc_body = Tclunk 5\<rparr>" "u32_bytes 5" 64]
  by (simp add: message_def u32_bytes_def u16_bytes_def)

text \<open>
  (C16) Round trip: every well-formed message except Tattach and Tcreate that \<open>convS2M\<close> encodes is
  decoded by \<open>convM2S\<close>, wherever the buffer lies in memory, to the same tag and the same fields (a null
  string becomes an empty one), and the whole message is consumed.
\<close>

theorem convS2M_convM2S_roundtrip:
  assumes "msg_ok (fc_body f)" and "\<not> is_dotu (fc_body f)" and "convS2M f nap = (n, msg)" and "n \<noteq> 0"
    and "7 + length (the (convS2M_body (fc_body f))) + unat ap < 2 ^ 32"
  shows "convM2S ap msg = Some (n, \<lparr>fc_tag = fc_tag f, fc_body = canon (fc_body f)\<rparr>)"
proof -
  obtain bs where bs: "convS2M_body (fc_body f) = Some bs" using sizeS2M_length [OF assms(1)] by blast
  have len: "unat ap + 7 + length bs < 2 ^ 32" using assms(5) bs by simp
  have "n = of_nat (7 + length bs) \<and> msg = message (fc_tag f) (fc_type (fc_body f)) bs"
    using convS2M_ok [OF assms(1) bs, of nap] len assms(3,4) by (auto simp: message_def split: if_splits)
  with convM2S_message [OF len decode_body_ok [OF assms(1,2) bs], of "[]"] show ?thesis by simp
qed

theorem convS2M_convM2S_roundtrip_witness:
  "convM2S 0x200000 [11, 0, 0, 0, 120, 1, 0, 5, 0, 0, 0] = Some (11, \<lparr>fc_tag = 1, fc_body = Tclunk 5\<rparr>)"
proof -
  have "convS2M \<lparr>fc_tag = 1, fc_body = Tclunk 5\<rparr> 64 = (11, [11, 0, 0, 0, 120, 1, 0, 5, 0, 0, 0])"
    by (simp add: convS2M_def u32_bytes_def u16_bytes_def wire_sizes)
  from convS2M_convM2S_roundtrip [OF _ _ this, of "0x200000"] show ?thesis by simp
qed

text \<open>
  The decoder does not accept the 9P2000.u forms the encoder emits: every Tattach and every Tcreate
  message that \<open>convS2M\<close> encodes is rejected by \<open>convM2S\<close>, because the decoder stops before the numeric
  user and the extension string.
\<close>

lemma convM2S_rejects_dotu:
  assumes "msg_ok (fc_body f)" and "is_dotu (fc_body f)" and "convS2M f nap = (n, msg)" and "n \<noteq> 0"
    and "7 + length (the (convS2M_body (fc_body f))) + unat ap < 2 ^ 32"
  shows "convM2S ap msg = None"
proof -
  obtain bs where bs: "convS2M_body (fc_body f) = Some bs" using sizeS2M_length [OF assms(1)] by blast
  have len: "unat ap + 7 + length bs < 2 ^ 32" using assms(5) bs by simp
  have msg: "msg = message (fc_tag f) (fc_type (fc_body f)) bs"
    using convS2M_ok [OF assms(1) bs, of nap] len assms(3,4) by (auto simp: message_def split: if_splits)
  let ?nap = "of_nat (7 + length bs) :: u32"
  have "\<exists>bs1 bs2 b. bs = bs1 @ bs2 \<and> bs2 \<noteq> [] \<and> decodes ap ?nap (convM2S_body ap ?nap (fc_type (fc_body f))) bs1 b"
  proof (cases "fc_body f")
    case (Tattach fd a u an k)
    then have "decodes ap ?nap (convM2S_T ap ?nap 104) (u32_bytes fd @ u32_bytes a @ pstring u @ pstring an)
        (Tattach fd a (Some (sval u)) (Some (sval an)) 0)"
      using assms(1) unfolding convM2S_T_def
      by - ((rule decodes_else, (simp; fail)) | (rule decodes_then, (simp; fail)) | rule decoding | (simp add: wire_sizes; fail))+
    then show ?thesis using bs Tattach
      by (intro exI [of _ "u32_bytes fd @ u32_bytes a @ pstring u @ pstring an"] exI [of _ "u32_bytes k"])
        (auto intro: decode_body_T simp: u32_bytes_def)
  next
    case (Tcreate fd nm p m e)
    then have "decodes ap ?nap (convM2S_T ap ?nap 114) (u32_bytes fd @ pstring nm @ u32_bytes p @ [m])
        (Tcreate fd (Some (sval nm)) p m None)"
      using assms(1) unfolding convM2S_T_def
      by - ((rule decodes_else, (simp; fail)) | (rule decodes_then, (simp; fail)) | rule decoding | (simp add: wire_sizes; fail))+
    then show ?thesis using bs Tcreate
      by (intro exI [of _ "u32_bytes fd @ pstring nm @ u32_bytes p @ [m]"] exI [of _ "pstring e"])
        (auto intro: decode_body_T simp: pstring_sval u16_bytes_def)
  qed (use assms(2) in simp_all)
  with convM2S_message [OF len] show ?thesis unfolding msg by force
qed

lemma convM2S_rejects_dotu_witness:
  "\<exists>n msg. convS2M \<lparr>fc_tag = 1, fc_body = Tcreate 5 (Some [97]) 420 1 None\<rparr> 64 = (n, msg) \<and> n = 21 \<and>
    convM2S 0x200000 msg = None"
proof -
  let ?f = "\<lparr>fc_tag = 1, fc_body = Tcreate 5 (Some [97]) 420 1 None\<rparr>"
  obtain n msg where run: "convS2M ?f 64 = (n, msg)" by fastforce
  moreover have "n = 21" using run
    by (simp add: convS2M_def wire_sizes stringsz_def pstring_def u32_bytes_def u16_bytes_def split: if_splits)
  ultimately show ?thesis
    using convM2S_rejects_dotu [OF _ _ run, of "0x200000"] by (simp add: str_ok_def sval_def pstring_def)
qed

text \<open>
  A bounds check that wraps: the decoder tests \<open>p + count > ep\<close> with 32-bit pointers. This reply of 11
  bytes announces 4294967292 bytes of data, and \<open>convM2S\<close> accepts it as a message of 7 bytes.
\<close>

lemma convM2S_count_wraps:
  "\<exists>f. convM2S 0x200000 [7, 0, 0, 0, 117, 1, 0, 0xFC, 0xFF, 0xFF, 0xFF] = Some (7, f) \<and> fc_body f = Rread 0xFFFFFFFC []"
  by (simp add: convM2S_def need_def past_def wire_sizes GBIT8_def GBIT16_def GBIT32_def skip_def convM2S_body_def
      convM2S_T_def convM2S_R_def gbytes_def bytes_u32_def bytes_u16_def)

section \<open>Directory entries: round trip\<close>

lemma GBIT_simps:
  "GBIT8 (q, v # r) = Some (v, (q + 1, r))"
  "GBIT16 (q, u16_bytes w @ r) = Some (w, (q + 2, r))"
  "GBIT32 (q, u32_bytes x @ r) = Some (x, (q + 4, r))"
  "GBIT64 (q, u64_bytes y @ r) = Some (y, (q + 8, r))"
proof -
  show "GBIT8 (q, v # r) = Some (v, (q + 1, r))" "GBIT16 (q, u16_bytes w @ r) = Some (w, (q + 2, r))"
    "GBIT32 (q, u32_bytes x @ r) = Some (x, (q + 4, r))"
    by (simp_all add: GBIT8_def GBIT16_def GBIT32_def skip_def wire_sizes u16_bytes_def u32_bytes_def
        bytes_u16_join bytes_u32_join)
  show "GBIT64 (q, u64_bytes y @ r) = Some (y, (q + 8, r))"
    using bytes_u64_join [of y] by (simp add: GBIT64_def skip_def wire_sizes u64_bytes_def)
qed

definition dir_strings :: "dir \<Rightarrow> u8 list list" where
  "dir_strings d = [sval (d_name d), sval (d_uid d), sval (d_gid d), sval (d_muid d)]"

definition dir_len :: "dir \<Rightarrow> nat" where
  "dir_len d = 49 + length (concat (dir_strings d))"

definition dir_bytes :: "dir \<Rightarrow> u8 list" where
  "dir_bytes d = u16_bytes (of_nat (dir_len d - 2)) @ u16_bytes (d_type d) @ u32_bytes (d_dev d) @ pqid (d_qid d) @
     u32_bytes (d_mode d) @ u32_bytes (d_atime d) @ u32_bytes (d_mtime d) @ u64_bytes (d_length d) @
     concat (map (\<lambda>t. u16_bytes (of_nat (length t)) @ t) (dir_strings d))"

definition stat_ok :: "dir \<Rightarrow> bool" where
  "stat_ok d \<longleftrightarrow> list_all (\<lambda>t. length t < 65536) (dir_strings d)"

lemma put_strings_ok:
  assumes "length out + length (concat (map (\<lambda>t. u16_bytes (of_nat (length t)) @ t) ts)) \<le> unat nbuf"
  shows "put_strings ts nbuf out = Some (out @ concat (map (\<lambda>t. u16_bytes (of_nat (length t)) @ t) ts))"
  using assms
proof (induction ts arbitrary: out)
  case (Cons t ts)
  have "unat (of_nat (length out + length t + 2) :: u32) = length out + length t + 2"
    using Cons.prems unat_u32_le [of nbuf] by (intro unat_of_nat_lt) simp
  then have "\<not> (of_nat (length out + length t + 2) :: u32) > nbuf"
    unfolding word_less_nat_alt using Cons.prems by simp
  then have "\<not> of_nat (length out) + of_nat (length t) + BIT16SZ > nbuf" by (simp add: BIT16SZ_def ac_simps)
  with Cons.IH [of "out @ u16_bytes (of_nat (length t)) @ t"] Cons.prems show ?case by simp
qed simp

lemma get_strings_ok:
  assumes "list_all (\<lambda>t. length t < 65536) ts"
  shows "get_strings (length ts) (concat (map (\<lambda>t. u16_bytes (of_nat (length t)) @ t) ts) @ r) = Some (ts, r)"
  using assms
proof (induction ts)
  case (Cons t ts)
  have "unat (of_nat (length t) :: u16) = length t" using Cons.prems by (simp add: unat_of_nat take_bit_nat_eq_self_iff)
  then show ?case using Cons by (simp add: u16_bytes_def bytes_u16_join)
qed simp

lemma length_dir_bytes: "length (dir_bytes d) = dir_len d"
  by (simp add: dir_bytes_def dir_len_def dir_strings_def)

lemma fold_lengths: "fold (\<lambda>t n. n + of_nat (length t)) ts n0 = n0 + (of_nat (length (concat ts)) :: u32)"
  by (induction ts arbitrary: n0) simp_all

lemma convD2M_eq:
  assumes "dir_len d < 2 ^ 31" "2 \<le> unat nbuf"
  shows "convD2M d nbuf =
    (if dir_len d > unat nbuf then (2, u16_bytes (of_nat (dir_len d - 2))) else (of_nat (dir_len d), dir_bytes d))"
proof -
  let ?sv = "dir_strings d"
  have ss: "STATFIXLEN + fold (\<lambda>t n. n + of_nat (length t)) ?sv 0 = of_nat (dir_len d)"
    unfolding fold_lengths by (simp add: STATFIXLEN_def wire_sizes dir_len_def)
  have u: "unat (of_nat (dir_len d) :: u32) = dir_len d" using assms(1) by (intro unat_of_nat_lt) simp
  have sz: "of_nat (dir_len d) - BIT16SZ = (of_nat (dir_len d - 2) :: u32)"
    by (simp add: BIT16SZ_def of_nat_diff dir_len_def)
  have cnt: "u16_bytes (ucast (of_nat k :: u32)) = u16_bytes (of_nat k)" for k
  proof -
    have "ucast (of_nat k :: u32) = (of_nat k :: u16)" by (rule bit_word_eqI) (auto simp: bit_simps)
    then show ?thesis by simp
  qed
  let ?fixed = "u16_bytes (of_nat (dir_len d - 2)) @ u16_bytes (d_type d) @ u32_bytes (d_dev d) @ pqid (d_qid d) @
     u32_bytes (d_mode d) @ u32_bytes (d_atime d) @ u32_bytes (d_mtime d) @ u64_bytes (d_length d)"
  have "dir_len d \<le> unat nbuf \<Longrightarrow> put_strings ?sv nbuf ?fixed = Some (dir_bytes d)"
    using put_strings_ok [of ?fixed ?sv nbuf] length_dir_bytes [of d] by (simp add: dir_bytes_def)
  moreover have "of_nat (dir_len d) > nbuf \<longleftrightarrow> dir_len d > unat nbuf" by (simp only: word_less_nat_alt u)
  moreover have "\<not> nbuf < BIT16SZ" using assms(2) by (simp add: BIT16SZ_def word_less_nat_alt)
  ultimately show ?thesis
    unfolding convD2M_def Let_def dir_strings_def [symmetric] ss sz cnt by (simp add: length_dir_bytes BIT16SZ_def)
qed

lemma convM2D_dir_bytes:
  assumes "stat_ok d"
  shows "convM2D (dir_bytes d @ r) =
      Some (dir_len d, d\<lparr>d_name := Some (sval (d_name d)), d_uid := Some (sval (d_uid d)),
              d_gid := Some (sval (d_gid d)), d_muid := Some (sval (d_muid d))\<rparr>,
            concat (map (\<lambda>t. t @ [0]) (dir_strings d)))"
proof -
  have g: "get_strings 4 (concat (map (\<lambda>t. u16_bytes (of_nat (length t)) @ t) (dir_strings d)) @ r) = Some (dir_strings d, r)"
  proof -
    have "length (dir_strings d) = 4" by (simp add: dir_strings_def)
    with get_strings_ok [of "dir_strings d" r] assms show ?thesis by (simp only: stat_ok_def)
  qed
  have len: "length (dir_bytes d @ r) - length r = dir_len d" by (simp add: length_dir_bytes)
  have fx: "\<not> length (dir_bytes d @ r) < unat STATFIXLEN"
    by (simp add: length_dir_bytes dir_len_def STATFIXLEN_def wire_sizes)
  let ?rest = "u16_bytes (d_type d) @ u32_bytes (d_dev d) @ [qid_type (d_qid d)] @ u32_bytes (qid_vers (d_qid d)) @
     u64_bytes (qid_path (d_qid d)) @ u32_bytes (d_mode d) @ u32_bytes (d_atime d) @ u32_bytes (d_mtime d) @
     u64_bytes (d_length d) @ concat (map (\<lambda>t. u16_bytes (of_nat (length t)) @ t) (dir_strings d)) @ r"
  have "skip BIT16SZ (0, dir_bytes d @ r) = (2, ?rest)"
    by (simp add: skip_def dir_bytes_def pqid_def wire_sizes)
  then show ?thesis
    unfolding convM2D_def using fx g len
    by (cases d) (simp add: GBIT_simps dir_strings_def del: length_append)
qed

text \<open>
  Directory entries: \<open>convD2M\<close> writes \<open>STATFIXLEN\<close> bytes plus the four strings when they fit, and
  only the 2-byte size when they do not; and \<open>convM2D\<close> reads back from those bytes exactly the
  entry that was written (null strings as empty ones), consuming all of them, whatever follows.
\<close>

lemma convD2M_convM2D_roundtrip:
  assumes "stat_ok d" and "dir_len d \<le> unat nbuf"
  shows "convD2M d nbuf = (of_nat (dir_len d), dir_bytes d) \<and> length (dir_bytes d) = dir_len d \<and>
    convM2D (dir_bytes d @ r) =
      Some (dir_len d, d\<lparr>d_name := Some (sval (d_name d)), d_uid := Some (sval (d_uid d)),
              d_gid := Some (sval (d_gid d)), d_muid := Some (sval (d_muid d))\<rparr>,
            concat (map (\<lambda>t. t @ [0]) (dir_strings d)))"
proof -
  have l: "dir_len d < 2 ^ 31"
    using assms(1) by (simp add: dir_len_def stat_ok_def dir_strings_def)
  have "2 \<le> unat nbuf" using assms(2) by (simp add: dir_len_def)
  with convD2M_eq [OF l] convM2D_dir_bytes [OF assms(1)] assms(2) length_dir_bytes show ?thesis by simp
qed

text \<open>The all-empty entry \<open>v9p_truncate\<close> sends.\<close>

definition truncate_dir :: dir where
  "truncate_dir = \<lparr>d_type = 0xFFFF, d_dev = 0xFFFFFFFF,
     d_qid = \<lparr>qid_type = 0xFF, qid_vers = 0xFFFFFFFF, qid_path = 0xFFFFFFFFFFFFFFFF\<rparr>,
     d_mode = 0xFFFFFFFF, d_atime = 0xFFFFFFFF, d_mtime = 0xFFFFFFFF, d_length = 100,
     d_name = None, d_uid = None, d_gid = None, d_muid = None\<rparr>"

lemma convD2M_convM2D_roundtrip_witness:
  "convD2M truncate_dir 49 = (49, dir_bytes truncate_dir) \<and>
   map_option (\<lambda>(n, d, strs). (n, d_length d, strs)) (convM2D (dir_bytes truncate_dir)) = Some (49, 100, [0, 0, 0, 0])"
proof -
  have "stat_ok truncate_dir" "dir_len truncate_dir = 49"
    by (simp_all add: stat_ok_def dir_len_def dir_strings_def truncate_dir_def sval_def)
  with convD2M_convM2D_roundtrip [of truncate_dir 49 "[]"] show ?thesis
    by (simp add: dir_strings_def) (simp add: truncate_dir_def sval_def)
qed

end
