(* ===== verification/Ports.thy ===== *)
theory Ports
  imports Kernel_Prelude
begin

text \<open>
  \<open>arch/x86/include/io.h\<close> and the drivers that only talk to ports: \<open>arch/x86/pic.c\<close>, the timer setup of \<open>kernel/kernel.c\<close>,
  \<open>serial_init\<close> of \<open>drivers/serial/serial.c\<close> and \<open>drivers/bus/pci.c\<close>. The devices behind the ports are a parameter: a
  record of what reading and writing a port of 8, 16 or 32 bits does to the state \<open>'d\<close> of the devices.
\<close>

section \<open>Ports\<close>

record 'd ports =
  port_in :: "nat \<Rightarrow> u16 \<Rightarrow> 'd \<Rightarrow> u32 \<times> 'd"
  port_out :: "nat \<Rightarrow> u16 \<Rightarrow> u32 \<Rightarrow> 'd \<Rightarrow> 'd"

definition outb :: "'d ports \<Rightarrow> u16 \<Rightarrow> u8 \<Rightarrow> 'd \<Rightarrow> 'd" where
  "outb io p v d = port_out io 8 p (ucast v) d"

definition inb :: "'d ports \<Rightarrow> u16 \<Rightarrow> 'd \<Rightarrow> u8 \<times> 'd" where
  "inb io p d = (let (v, d) = port_in io 8 p d in (ucast v, d))"

definition io_wait :: "'d ports \<Rightarrow> 'd \<Rightarrow> 'd" where
  "io_wait io d = outb io 0x80 0 d"

definition outw :: "'d ports \<Rightarrow> u16 \<Rightarrow> u16 \<Rightarrow> 'd \<Rightarrow> 'd" where
  "outw io p v d = port_out io 16 p (ucast v) d"

definition inw :: "'d ports \<Rightarrow> u16 \<Rightarrow> 'd \<Rightarrow> u16 \<times> 'd" where
  "inw io p d = (let (v, d) = port_in io 16 p d in (ucast v, d))"

definition outl :: "'d ports \<Rightarrow> u16 \<Rightarrow> u32 \<Rightarrow> 'd \<Rightarrow> 'd" where
  "outl io p v d = port_out io 32 p v d"

definition inl :: "'d ports \<Rightarrow> u16 \<Rightarrow> 'd \<Rightarrow> u32 \<times> 'd" where
  "inl io p d = port_in io 32 p d"

text \<open>A sequence of byte writes; the flag says whether \<open>io_wait\<close> follows.\<close>

fun outb_all :: "'d ports \<Rightarrow> (u16 \<times> u8 \<times> bool) list \<Rightarrow> 'd \<Rightarrow> 'd" where
  "outb_all io [] d = d"
| "outb_all io ((p, v, w) # xs) d =
     (let d = outb io p v d; d = (if w then io_wait io d else d) in outb_all io xs d)"

section \<open>Interrupt controller, timer and serial line\<close>

definition pic_words :: "(u16 \<times> u8 \<times> bool) list" where
  "pic_words = [(0x20, 0x11, True), (0xA0, 0x11, True), (0x21, 0x20, True), (0xA1, 0x28, True), (0x21, 0x04, True), (0xA1, 0x02, True),
     (0x21, 0x01, True), (0xA1, 0x01, True), (0x21, 0xFF, False), (0xA1, 0xFF, False), (0x21, 0xFC, False), (0xA1, 0xFF, False)]"

definition pic_init :: "'d ports \<Rightarrow> 'd \<Rightarrow> 'd" where
  "pic_init io d = outb_all io pic_words d"

definition pic_eoi :: "'d ports \<Rightarrow> u8 \<Rightarrow> 'd \<Rightarrow> 'd" where
  "pic_eoi io irq d = (let d = (if irq \<ge> 8 then outb io 0xA0 0x20 d else d) in outb io 0x20 0x20 d)"

definition pit_init :: "'d ports \<Rightarrow> u32 \<Rightarrow> 'd \<Rightarrow> 'd" where
  "pit_init io hz d =
     (let divisor = 1193180 div hz
      in outb_all io [(0x43, 0x36, False), (0x40, ucast (divisor AND 0xFF), False), (0x40, ucast (drop_bit 8 divisor AND 0xFF), False)] d)"

definition COM1 :: u16 where "COM1 = 0x3F8"

definition serial_init :: "'d ports \<Rightarrow> 'd \<Rightarrow> 'd" where
  "serial_init io d =
     outb_all io [(COM1 + 1, 0x00, False), (COM1 + 3, 0x80, False), (COM1 + 0, 0x03, False), (COM1 + 1, 0x00, False), (COM1 + 3, 0x03, False),
       (COM1 + 2, 0xC7, False), (COM1 + 4, 0x0B, False)] d"

definition serial_haschar :: "'d ports \<Rightarrow> 'd \<Rightarrow> bool \<times> 'd" where
  "serial_haschar io d = (let (v, d) = inb io (COM1 + 5) d in (v AND 1 \<noteq> 0, d))"

partial_function (option) serial_getchar :: "'d ports \<Rightarrow> 'd \<Rightarrow> (u8 \<times> 'd) option" where
  "serial_getchar io d =
     (let (ready, d) = serial_haschar io d in if ready then Some (inb io COM1 d) else serial_getchar io d)"

text \<open>The transmitter: wait until it is empty, a line feed preceded by a carriage return.\<close>

partial_function (option) serial_tx_wait :: "'d ports \<Rightarrow> 'd \<Rightarrow> 'd option" where
  "serial_tx_wait io d =
     (let (v, d) = inb io (COM1 + 5) d in if v AND 0x20 \<noteq> 0 then Some d else serial_tx_wait io d)"

definition serial_transmit :: "'d ports \<Rightarrow> u8 \<Rightarrow> 'd \<Rightarrow> 'd option" where
  "serial_transmit io c d =
     (case serial_tx_wait io d of
        None \<Rightarrow> None
      | Some d \<Rightarrow>
          if c = 10 then map_option (outb io COM1 c) (serial_tx_wait io (outb io COM1 13 d))
          else Some (outb io COM1 c d))"

definition keyboard_unmask :: "'d ports \<Rightarrow> 'd \<Rightarrow> 'd" where
  "keyboard_unmask io d = (let (m, d) = inb io 0x21 d in outb io 0x21 (m AND NOT 2) d)"

section \<open>PCI configuration space\<close>

definition PCI_CONFIG_ADDR :: u16 where "PCI_CONFIG_ADDR = 0xCF8"
definition PCI_CONFIG_DATA :: u16 where "PCI_CONFIG_DATA = 0xCFC"
definition PCI_VENDOR_ID :: u8 where "PCI_VENDOR_ID = 0x00"
definition PCI_DEVICE_ID :: u8 where "PCI_DEVICE_ID = 0x02"
definition PCI_COMMAND :: u8 where "PCI_COMMAND = 0x04"
definition PCI_PROG_IF :: u8 where "PCI_PROG_IF = 0x09"
definition PCI_SUBCLASS :: u8 where "PCI_SUBCLASS = 0x0A"
definition PCI_CLASS :: u8 where "PCI_CLASS = 0x0B"
definition PCI_HEADER_TYPE :: u8 where "PCI_HEADER_TYPE = 0x0E"
definition PCI_BAR0 :: u8 where "PCI_BAR0 = 0x10"
definition PCI_COMMAND_IO :: u16 where "PCI_COMMAND_IO = 1"
definition PCI_COMMAND_MEM :: u16 where "PCI_COMMAND_MEM = 2"
definition PCI_COMMAND_BUSMASTER :: u16 where "PCI_COMMAND_BUSMASTER = 4"

record pci_dev =
  pci_bus :: u8
  pci_slot :: u8
  pci_func :: u8
  pci_vendor :: u16
  pci_device :: u16
  pci_class :: u8
  pci_subclass :: u8
  pci_progif :: u8
  pci_header_type :: u8
  pci_bar :: "u32 list"

definition pci_addr :: "u8 \<Rightarrow> u8 \<Rightarrow> u8 \<Rightarrow> u8 \<Rightarrow> u32" where
  "pci_addr bus slot func off =
     0x80000000 OR push_bit 16 (ucast bus) OR push_bit 11 (ucast slot) OR push_bit 8 (ucast func) OR ucast (off AND 0xFC)"

definition pci_read32 :: "'d ports \<Rightarrow> u8 \<Rightarrow> u8 \<Rightarrow> u8 \<Rightarrow> u8 \<Rightarrow> 'd \<Rightarrow> u32 \<times> 'd" where
  "pci_read32 io bus slot func off d = inl io PCI_CONFIG_DATA (outl io PCI_CONFIG_ADDR (pci_addr bus slot func off) d)"

definition pci_read16 :: "'d ports \<Rightarrow> u8 \<Rightarrow> u8 \<Rightarrow> u8 \<Rightarrow> u8 \<Rightarrow> 'd \<Rightarrow> u16 \<times> 'd" where
  "pci_read16 io bus slot func off d =
     (let (v, d) = pci_read32 io bus slot func (off AND NOT 3) d in (ucast (drop_bit (unat (off AND 2) * 8) v AND 0xFFFF), d))"

definition pci_read8 :: "'d ports \<Rightarrow> u8 \<Rightarrow> u8 \<Rightarrow> u8 \<Rightarrow> u8 \<Rightarrow> 'd \<Rightarrow> u8 \<times> 'd" where
  "pci_read8 io bus slot func off d =
     (let (v, d) = pci_read32 io bus slot func (off AND NOT 3) d in (ucast (drop_bit (unat (off AND 3) * 8) v AND 0xFF), d))"

definition pci_write32 :: "'d ports \<Rightarrow> u8 \<Rightarrow> u8 \<Rightarrow> u8 \<Rightarrow> u8 \<Rightarrow> u32 \<Rightarrow> 'd \<Rightarrow> 'd" where
  "pci_write32 io bus slot func off v d = outl io PCI_CONFIG_DATA v (outl io PCI_CONFIG_ADDR (pci_addr bus slot func off) d)"

definition pci_write16 :: "'d ports \<Rightarrow> u8 \<Rightarrow> u8 \<Rightarrow> u8 \<Rightarrow> u8 \<Rightarrow> u16 \<Rightarrow> 'd \<Rightarrow> 'd" where
  "pci_write16 io bus slot func off val d =
     (let (v, d) = pci_read32 io bus slot func (off AND NOT 3) d;
          shift = unat (off AND 2) * 8;
          v = v AND NOT (push_bit shift 0xFFFF);
          v = v OR push_bit shift (ucast val)
      in pci_write32 io bus slot func (off AND NOT 3) v d)"

definition pci_enable_busmaster :: "'d ports \<Rightarrow> pci_dev \<Rightarrow> 'd \<Rightarrow> 'd" where
  "pci_enable_busmaster io p d =
     (let (cmd, d) = pci_read16 io (pci_bus p) (pci_slot p) (pci_func p) PCI_COMMAND d
      in pci_write16 io (pci_bus p) (pci_slot p) (pci_func p) PCI_COMMAND
           (cmd OR (PCI_COMMAND_IO OR PCI_COMMAND_MEM OR PCI_COMMAND_BUSMASTER)) d)"

fun pci_bars :: "'d ports \<Rightarrow> u8 \<Rightarrow> u8 \<Rightarrow> u8 \<Rightarrow> nat list \<Rightarrow> 'd \<Rightarrow> u32 list \<times> 'd" where
  "pci_bars io bus slot func [] d = ([], d)"
| "pci_bars io bus slot func (i # is) d =
     (let (v, d) = pci_read32 io bus slot func (PCI_BAR0 + of_nat i * 4) d; (vs, d) = pci_bars io bus slot func is d in (v # vs, d))"

definition pci_fill :: "'d ports \<Rightarrow> u8 \<Rightarrow> u8 \<Rightarrow> u8 \<Rightarrow> 'd \<Rightarrow> pci_dev \<times> 'd" where
  "pci_fill io bus slot func d =
     (let (ve, d) = pci_read16 io bus slot func PCI_VENDOR_ID d;
          (de, d) = pci_read16 io bus slot func PCI_DEVICE_ID d;
          (cl, d) = pci_read8 io bus slot func PCI_CLASS d;
          (sc, d) = pci_read8 io bus slot func PCI_SUBCLASS d;
          (pf, d) = pci_read8 io bus slot func PCI_PROG_IF d;
          (ht, d) = pci_read8 io bus slot func PCI_HEADER_TYPE d;
          (bs, d) = pci_bars io bus slot func [0..<6] d
      in (\<lparr>pci_bus = bus, pci_slot = slot, pci_func = func, pci_vendor = ve, pci_device = de, pci_class = cl, pci_subclass = sc,
           pci_progif = pf, pci_header_type = ht, pci_bar = bs\<rparr>, d))"

fun pci_func_loop :: "'d ports \<Rightarrow> u16 \<Rightarrow> u16 \<Rightarrow> u8 \<Rightarrow> u8 \<Rightarrow> nat list \<Rightarrow> 'd \<Rightarrow> pci_dev option \<times> 'd" where
  "pci_func_loop io vendor device bus slot [] d = (None, d)"
| "pci_func_loop io vendor device bus slot (f # fs) d =
     (let (vv, d) = pci_read16 io bus slot (of_nat f) PCI_VENDOR_ID d
      in if vv \<noteq> vendor then pci_func_loop io vendor device bus slot fs d
         else
           (let (dd, d) = pci_read16 io bus slot (of_nat f) PCI_DEVICE_ID d
            in if dd \<noteq> device then pci_func_loop io vendor device bus slot fs d
               else (let (p, d) = pci_fill io bus slot (of_nat f) d in (Some p, d))))"

fun pci_slot_loop :: "'d ports \<Rightarrow> u16 \<Rightarrow> u16 \<Rightarrow> (nat \<times> nat) list \<Rightarrow> 'd \<Rightarrow> pci_dev option \<times> 'd" where
  "pci_slot_loop io vendor device [] d = (None, d)"
| "pci_slot_loop io vendor device ((b, s) # bs) d =
     (let (v, d) = pci_read16 io (of_nat b) (of_nat s) 0 PCI_VENDOR_ID d
      in if v = 0xFFFF then pci_slot_loop io vendor device bs d
         else
           (let (hdr, d) = pci_read8 io (of_nat b) (of_nat s) 0 PCI_HEADER_TYPE d;
                nfunc = (if hdr AND 0x80 \<noteq> 0 then 8 else 1)
            in case pci_func_loop io vendor device (of_nat b) (of_nat s) [0..<nfunc] d of
                 (Some p, d) \<Rightarrow> (Some p, d)
               | (None, d) \<Rightarrow> pci_slot_loop io vendor device bs d))"

definition pci_find :: "'d ports \<Rightarrow> u16 \<Rightarrow> u16 \<Rightarrow> 'd \<Rightarrow> pci_dev option \<times> 'd" where
  "pci_find io vendor device d = pci_slot_loop io vendor device (List.product [0..<256] [0..<32]) d"

section \<open>The scan against the contents of the configuration space\<close>

text \<open>
  What the two ports do: writing the address port selects a register and changes nothing else, reading the data port
  returns the selected register, and writing it stores. \<open>sel\<close> and \<open>cfg\<close> observe the selected address and the registers.
\<close>

definition config_ports :: "'d ports \<Rightarrow> ('d \<Rightarrow> u32) \<Rightarrow> ('d \<Rightarrow> u32 \<Rightarrow> u32) \<Rightarrow> bool" where
  "config_ports io sel cfg \<longleftrightarrow>
     (\<forall>d a. sel (outl io PCI_CONFIG_ADDR a d) = a \<and> cfg (outl io PCI_CONFIG_ADDR a d) = cfg d) \<and>
     (\<forall>d. fst (inl io PCI_CONFIG_DATA d) = cfg d (sel d) \<and> cfg (snd (inl io PCI_CONFIG_DATA d)) = cfg d) \<and>
     (\<forall>d v. cfg (outl io PCI_CONFIG_DATA v d) = (cfg d)(sel d := v))"

definition cfg16 :: "(u32 \<Rightarrow> u32) \<Rightarrow> u8 \<Rightarrow> u8 \<Rightarrow> u8 \<Rightarrow> u8 \<Rightarrow> u16" where
  "cfg16 c b s f off = ucast (drop_bit (unat (off AND 2) * 8) (c (pci_addr b s f (off AND NOT 3))) AND 0xFFFF)"

definition cfg8 :: "(u32 \<Rightarrow> u32) \<Rightarrow> u8 \<Rightarrow> u8 \<Rightarrow> u8 \<Rightarrow> u8 \<Rightarrow> u8" where
  "cfg8 c b s f off = ucast (drop_bit (unat (off AND 3) * 8) (c (pci_addr b s f (off AND NOT 3))) AND 0xFF)"

text \<open>The functions the scan looks at, in its order, and the description of one.\<close>

definition slot_functions :: "(u32 \<Rightarrow> u32) \<Rightarrow> nat \<times> nat \<Rightarrow> (u8 \<times> u8 \<times> u8) list" where
  "slot_functions c bs =
     (let b = of_nat (fst bs); s = of_nat (snd bs)
      in if cfg16 c b s 0 PCI_VENDOR_ID = 0xFFFF then []
         else map (\<lambda>f. (b, s, of_nat f)) [0..<if cfg8 c b s 0 PCI_HEADER_TYPE AND 0x80 \<noteq> 0 then 8 else 1])"

definition pci_functions :: "(u32 \<Rightarrow> u32) \<Rightarrow> (u8 \<times> u8 \<times> u8) list" where
  "pci_functions c = concat (map (slot_functions c) (List.product [0..<256] [0..<32]))"

definition pci_matches :: "(u32 \<Rightarrow> u32) \<Rightarrow> u16 \<Rightarrow> u16 \<Rightarrow> u8 \<times> u8 \<times> u8 \<Rightarrow> bool" where
  "pci_matches c vendor device = (\<lambda>(b, s, f). cfg16 c b s f PCI_VENDOR_ID = vendor \<and> cfg16 c b s f PCI_DEVICE_ID = device)"

definition pci_view :: "(u32 \<Rightarrow> u32) \<Rightarrow> u8 \<times> u8 \<times> u8 \<Rightarrow> pci_dev" where
  "pci_view c = (\<lambda>(b, s, f).
     \<lparr>pci_bus = b, pci_slot = s, pci_func = f, pci_vendor = cfg16 c b s f PCI_VENDOR_ID, pci_device = cfg16 c b s f PCI_DEVICE_ID,
      pci_class = cfg8 c b s f PCI_CLASS, pci_subclass = cfg8 c b s f PCI_SUBCLASS, pci_progif = cfg8 c b s f PCI_PROG_IF,
      pci_header_type = cfg8 c b s f PCI_HEADER_TYPE, pci_bar = map (\<lambda>i. c (pci_addr b s f (PCI_BAR0 + of_nat i * 4))) [0..<6]\<rparr>)"

lemma pci_read32_cfg:
  assumes "config_ports io sel cfg" and "pci_read32 io b s f off d = (v, d')"
  shows "v = cfg d (pci_addr b s f off) \<and> cfg d' = cfg d"
proof -
  let ?d = "outl io PCI_CONFIG_ADDR (pci_addr b s f off) d"
  have "sel ?d = pci_addr b s f off" "cfg ?d = cfg d"
    and "fst (inl io PCI_CONFIG_DATA ?d) = cfg ?d (sel ?d)" "cfg (snd (inl io PCI_CONFIG_DATA ?d)) = cfg ?d"
    using assms(1) unfolding config_ports_def by blast+
  then show ?thesis using assms(2) by (simp add: pci_read32_def)
qed

lemma pci_read16_cfg:
  assumes "config_ports io sel cfg" and "pci_read16 io b s f off d = (v, d')"
  shows "v = cfg16 (cfg d) b s f off \<and> cfg d' = cfg d"
  using assms(2) pci_read32_cfg [OF assms(1), of b s f "off AND NOT 3" d]
  by (auto simp: pci_read16_def cfg16_def split: prod.splits)

lemma pci_read8_cfg:
  assumes "config_ports io sel cfg" and "pci_read8 io b s f off d = (v, d')"
  shows "v = cfg8 (cfg d) b s f off \<and> cfg d' = cfg d"
  using assms(2) pci_read32_cfg [OF assms(1), of b s f "off AND NOT 3" d]
  by (auto simp: pci_read8_def cfg8_def split: prod.splits)

lemmas pci_reads = pci_read32_cfg pci_read16_cfg pci_read8_cfg

lemma pci_bars_cfg:
  assumes "config_ports io sel cfg"
  shows "pci_bars io b s f is d = (vs, d') \<Longrightarrow> vs = map (\<lambda>i. cfg d (pci_addr b s f (PCI_BAR0 + of_nat i * 4))) is \<and> cfg d' = cfg d"
proof (induction "is" arbitrary: d vs)
  case (Cons i "is")
  obtain v d1 where r: "pci_read32 io b s f (PCI_BAR0 + of_nat i * 4) d = (v, d1)" by fastforce
  obtain ws where w: "pci_bars io b s f is d1 = (ws, d')" "vs = v # ws" using Cons.prems by (auto simp: r split: prod.splits)
  show ?case using Cons.IH [OF w(1)] w(2) pci_read32_cfg [OF assms r] by simp
qed simp

lemma pci_fill_cfg:
  assumes "config_ports io sel cfg" and "pci_fill io b s f d = (p, d')"
  shows "p = pci_view (cfg d) (b, s, f) \<and> cfg d' = cfg d"
  using assms(2) unfolding pci_fill_def pci_view_def
  by (auto simp: Let_def split: prod.splits dest!: pci_reads [OF assms(1)] pci_bars_cfg [OF assms(1)])

lemma pci_func_loop_cfg:
  assumes "config_ports io sel cfg"
  shows "pci_func_loop io ve de b s fs d = (r, d') \<Longrightarrow>
    r = map_option (pci_view (cfg d)) (find (pci_matches (cfg d) ve de) (map (\<lambda>f. (b, s, of_nat f)) fs)) \<and> cfg d' = cfg d"
proof (induction fs arbitrary: d)
  case (Cons f fs)
  obtain v d1 where v: "pci_read16 io b s (of_nat f) PCI_VENDOR_ID d = (v, d1)" by fastforce
  obtain w d2 where w: "pci_read16 io b s (of_nat f) PCI_DEVICE_ID d1 = (w, d2)" by fastforce
  obtain p d3 where p: "pci_fill io b s (of_nat f) d2 = (p, d3)" by fastforce
  note facts = pci_read16_cfg [OF assms v] pci_read16_cfg [OF assms w] pci_fill_cfg [OF assms p]
  show ?case
  proof (cases "v = ve \<and> w = de")
    case True
    then show ?thesis using Cons.prems facts by (simp add: v w p pci_matches_def)
  next
    case False
    then obtain d0 where "pci_func_loop io ve de b s fs d0 = (r, d')" "cfg d0 = cfg d"
      using Cons.prems facts by (auto simp: v w split: if_splits)
    then show ?thesis using Cons.IH [of d0] False facts by (auto simp: pci_matches_def)
  qed
qed simp

lemma find_append_option: "find P (xs @ ys) = (case find P xs of None \<Rightarrow> find P ys | Some x \<Rightarrow> Some x)"
  by (induction xs) auto

lemma pci_slot_loop_cfg:
  assumes "config_ports io sel cfg"
  shows "pci_slot_loop io ve de bss d = (r, d') \<Longrightarrow>
    r = map_option (pci_view (cfg d)) (find (pci_matches (cfg d) ve de) (concat (map (slot_functions (cfg d)) bss))) \<and> cfg d' = cfg d"
proof (induction bss arbitrary: d)
  case (Cons bs bss)
  obtain b s where bs: "bs = (b, s)" by fastforce
  obtain v d1 where v: "pci_read16 io (of_nat b) (of_nat s) 0 PCI_VENDOR_ID d = (v, d1)" by fastforce
  obtain h d2 where h: "pci_read8 io (of_nat b) (of_nat s) 0 PCI_HEADER_TYPE d1 = (h, d2)" by fastforce
  define n :: nat where "n = (if h AND 0x80 \<noteq> 0 then 8 else 1)"
  obtain q d3 where q: "pci_func_loop io ve de (of_nat b) (of_nat s) [0..<n] d2 = (q, d3)" by fastforce
  note vh = pci_read16_cfg [OF assms v] pci_read8_cfg [OF assms h] and fq = pci_func_loop_cfg [OF assms q]
  show ?case
  proof (cases "v = 0xFFFF")
    case True
    then have "slot_functions (cfg d) bs = []" using vh by (simp add: slot_functions_def bs)
    then show ?thesis using True Cons.prems Cons.IH [of d1] vh by (simp add: bs v)
  next
    case False
    then have "slot_functions (cfg d) bs = map (\<lambda>f. (of_nat b, of_nat s, of_nat f)) [0..<n]"
      using vh by (simp add: slot_functions_def bs n_def)
    moreover have "(case q of Some p \<Rightarrow> (Some p, d3) | None \<Rightarrow> pci_slot_loop io ve de bss d3) = (r, d')"
      using False Cons.prems q by (simp add: bs v h n_def split: option.splits)
    ultimately show ?thesis using fq vh Cons.IH [of d3] by (auto simp: find_append_option split: option.splits)
  qed
qed simp

section \<open>Properties\<close>


text \<open>A bus with one device, a virtio 9P device in slot 0: the state is the selected address and the registers.\<close>

definition pci_example_io :: "(u32 \<times> (u32 \<Rightarrow> u32)) ports" where
  "pci_example_io = \<lparr>port_in = (\<lambda>w p d. (if p = PCI_CONFIG_DATA then snd d (fst d) else 0, d)),
     port_out = (\<lambda>w p v d. if p = PCI_CONFIG_ADDR then (v, snd d) else if p = PCI_CONFIG_DATA then (fst d, (snd d)(fst d := v)) else d)\<rparr>"

definition pci_example_regs :: "u32 \<Rightarrow> u32" where
  "pci_example_regs a = (if a = 0x80000000 then 0x10091AF4 else 0)"


text \<open>Enabling a device sets the three bits of its command register and no other bit of any register.\<close>

lemma pci_write16_cfg:
  assumes "config_ports io sel cfg"
  shows "cfg (pci_write16 io b s f off val d) =
    (cfg d)(pci_addr b s f (off AND NOT 3) :=
      (cfg d (pci_addr b s f (off AND NOT 3)) AND NOT (push_bit (unat (off AND 2) * 8) 0xFFFF)) OR push_bit (unat (off AND 2) * 8) (ucast val))"
proof -
  obtain v d1 where v: "pci_read32 io b s f (off AND NOT 3) d = (v, d1)" by fastforce
  have w: "cfg (pci_write32 io b s f o' x d1) = (cfg d1)(pci_addr b s f o' := x)" for o' x
    using assms unfolding config_ports_def pci_write32_def by metis
  show ?thesis using pci_read32_cfg [OF assms v] unfolding pci_write16_def v Let_def prod.case w by simp
qed

end
