(* ===== verification/Virtio.thy ===== *)
theory Virtio
  imports NineP Ports VMM
begin

text \<open>
  \<open>drivers/virtio/virtio_9p.c\<close>: the legacy virtio transport of the 9P client. The statics of the file are a record; the ring
  and the message buffers live in physical memory. The devices behind the ports are the parameter \<open>io\<close>, their state \<open>'d\<close>; what the 9P
  device does to memory after a notification is the parameter \<open>dma\<close>, the memory the driver sees when it stops polling. A call
  returns \<open>None\<close> when the used index never changes, that is when the code polls for ever. Console messages are left out, and so
  is the one byte by which decoding moves a string inside the reply buffer.
\<close>

section \<open>State\<close>

definition VIRTIO_PCI_GUEST_FEATURES :: u16 where "VIRTIO_PCI_GUEST_FEATURES = 0x04"
definition VIRTIO_PCI_QUEUE_PFN :: u16 where "VIRTIO_PCI_QUEUE_PFN = 0x08"
definition VIRTIO_PCI_QUEUE_NUM :: u16 where "VIRTIO_PCI_QUEUE_NUM = 0x0c"
definition VIRTIO_PCI_QUEUE_SEL :: u16 where "VIRTIO_PCI_QUEUE_SEL = 0x0e"
definition VIRTIO_PCI_QUEUE_NOTIFY :: u16 where "VIRTIO_PCI_QUEUE_NOTIFY = 0x10"
definition VIRTIO_PCI_STATUS :: u16 where "VIRTIO_PCI_STATUS = 0x12"
definition VIRTIO_PCI_ISR :: u16 where "VIRTIO_PCI_ISR = 0x13"
definition VIRTIO_PCI_CONFIG :: u16 where "VIRTIO_PCI_CONFIG = 0x14"

definition VIRTIO_STATUS_ACKNOWLEDGE :: u8 where "VIRTIO_STATUS_ACKNOWLEDGE = 1"
definition VIRTIO_STATUS_DRIVER :: u8 where "VIRTIO_STATUS_DRIVER = 2"
definition VIRTIO_STATUS_DRIVER_OK :: u8 where "VIRTIO_STATUS_DRIVER_OK = 4"

definition VIRTIO_ID_9P :: u16 where "VIRTIO_ID_9P = 9"
definition PCI_VENDOR_VIRTIO :: u16 where "PCI_VENDOR_VIRTIO = 0x1AF4"

definition VRING_DESC_F_NEXT :: u16 where "VRING_DESC_F_NEXT = 1"
definition VRING_DESC_F_WRITE :: u16 where "VRING_DESC_F_WRITE = 2"
definition VRING_AVAIL_F_NO_INTERRUPT :: u16 where "VRING_AVAIL_F_NO_INTERRUPT = 1"
definition VRING_ALIGN :: u32 where "VRING_ALIGN = 4096"
definition V9P_MSIZE_DEFAULT :: u32 where "V9P_MSIZE_DEFAULT = 32768"

record 'd virtio =
  io_base :: u16
  vq_desc :: u32
  vq_avail :: u32
  vq_used :: u32
  vq_num :: u16
  vq_last_used :: u16
  v9p_req :: u32
  v9p_resp :: u32
  v9p_msize :: u32
  v9p_tag :: "u8 list"
  v9p_err :: "u8 list"
  v9p_ready :: bool
  hw :: 'd

section \<open>The ring in memory\<close>

definition ld16 :: "memory \<Rightarrow> u32 \<Rightarrow> u16" where
  "ld16 m a = bytes_u16 (m a) (m (a + 1))"

definition st16 :: "memory \<Rightarrow> u32 \<Rightarrow> u16 \<Rightarrow> memory" where
  "st16 m a v = store_bytes m a (u16_bytes v)"

definition sizeof_vring_desc :: u32 where "sizeof_vring_desc = 16"

definition set_desc :: "u32 \<Rightarrow> u32 \<Rightarrow> u32 \<Rightarrow> u32 \<Rightarrow> u16 \<Rightarrow> u16 \<Rightarrow> memory \<Rightarrow> memory" where
  "set_desc q i addr len flags nxt m =
     store_bytes m (q + i * sizeof_vring_desc) (u64_bytes (ucast addr) @ u32_bytes len @ u16_bytes flags @ u16_bytes nxt)"

definition avail_flags :: "u32 \<Rightarrow> u32" where "avail_flags q = q"
definition avail_idx :: "u32 \<Rightarrow> u32" where "avail_idx q = q + 2"
definition avail_ring :: "u32 \<Rightarrow> u16 \<Rightarrow> u32" where "avail_ring q i = q + 4 + 2 * ucast i"
definition used_idx :: "u32 \<Rightarrow> u32" where "used_idx q = q + 2"
definition used_id :: "u32 \<Rightarrow> u16 \<Rightarrow> u32" where "used_id q i = q + 4 + 8 * ucast i"
definition used_len :: "u32 \<Rightarrow> u16 \<Rightarrow> u32" where "used_len q i = q + 4 + 8 * ucast i + 4"

section \<open>Setting up the device\<close>

definition set_hw :: "'d \<Rightarrow> 'd virtio \<Rightarrow> 'd virtio" where
  "set_hw d v = v\<lparr>hw := d\<rparr>"

fun read_tag_loop :: "'d ports \<Rightarrow> u16 \<Rightarrow> nat list \<Rightarrow> 'd \<Rightarrow> u8 list \<times> 'd" where
  "read_tag_loop io base [] d = ([], d)"
| "read_tag_loop io base (i # is) d =
     (let (b, d) = inb io (base + VIRTIO_PCI_CONFIG + 2 + of_nat i) d; (bs, d) = read_tag_loop io base is d in (b # bs, d))"

definition read_tag :: "'d ports \<Rightarrow> 'd virtio \<Rightarrow> 'd virtio" where
  "read_tag io v =
     (let (len, d) = inw io (io_base v + VIRTIO_PCI_CONFIG) (hw v);
          len = (if len > 31 then 31 else len);
          (bs, d) = read_tag_loop io (io_base v) [0..<unat len] d
      in v\<lparr>v9p_tag := bs @ [0] @ drop (unat len + 1) (v9p_tag v), hw := d\<rparr>)"

definition setup_queue :: "'d ports \<Rightarrow> u16 \<Rightarrow> machine \<times> 'd virtio \<Rightarrow> int \<times> machine \<times> 'd virtio" where
  "setup_queue io num = (\<lambda>(s, v).
     (let desc_sz = ucast num * sizeof_vring_desc;
          avail_sz = 4 + 2 * ucast num;
          used_off = (desc_sz + avail_sz + VRING_ALIGN - 1) AND NOT (VRING_ALIGN - 1);
          used_sz = 4 + 8 * ucast num;
          total = used_off + used_sz;
          pages = (total + 4096 - 1) div 4096;
          (a, p) = pmm_alloc_contig pages (frames s);
          s = s\<lparr>frames := p\<rparr>
      in if a = 0 then (-1, s, v)
         else
           (let m = kmemset (mem s) a 0 (pages * 4096);
                v = v\<lparr>vq_desc := a, vq_avail := a + desc_sz, vq_used := a + used_off, vq_num := num, vq_last_used := 0\<rparr>;
                m = st16 m (avail_flags (vq_avail v)) VRING_AVAIL_F_NO_INTERRUPT;
                v = v\<lparr>hw := outl io (io_base v + VIRTIO_PCI_QUEUE_PFN) (drop_bit 12 a) (hw v)\<rparr>
            in (0, s\<lparr>mem := m\<rparr>, v))))"

text \<open>The two message buffers. The first allocation is kept even when the second fails, as in the code.\<close>

definition setup_buffers :: "machine \<times> 'd virtio \<Rightarrow> bool \<times> machine \<times> 'd virtio" where
  "setup_buffers = (\<lambda>(s, v).
     (let mbytes = v9p_msize v;
          (reqmem, p) = pmm_alloc_contig (mbytes div 4096) (frames s);
          (respmem, p) = pmm_alloc_contig (mbytes div 4096) p;
          s = s\<lparr>frames := p\<rparr>
      in if reqmem = 0 \<or> respmem = 0 then (False, s, v)
         else (True, s\<lparr>mem := kmemset (kmemset (mem s) reqmem 0 mbytes) respmem 0 mbytes\<rparr>, v\<lparr>v9p_req := reqmem, v9p_resp := respmem\<rparr>)))"

definition find_device :: "'d ports \<Rightarrow> 'd \<Rightarrow> pci_dev option \<times> 'd" where
  "find_device io d =
     (case pci_find io PCI_VENDOR_VIRTIO (0x1000 + VIRTIO_ID_9P) d of
        (Some p, d) \<Rightarrow> (Some p, d)
      | (None, d) \<Rightarrow> pci_find io PCI_VENDOR_VIRTIO (0x1040 + VIRTIO_ID_9P) d)"

text \<open>The handshake: reset, acknowledge, driver; no optional features; the mount tag.\<close>

definition virtio_handshake :: "'d ports \<Rightarrow> u16 \<Rightarrow> 'd \<Rightarrow> 'd virtio \<Rightarrow> 'd virtio" where
  "virtio_handshake io base d v =
     (let d = outb io (base + VIRTIO_PCI_STATUS) 0 d;
          d = outb io (base + VIRTIO_PCI_STATUS) VIRTIO_STATUS_ACKNOWLEDGE d;
          d = outb io (base + VIRTIO_PCI_STATUS) (VIRTIO_STATUS_ACKNOWLEDGE OR VIRTIO_STATUS_DRIVER) d;
          d = outl io (base + VIRTIO_PCI_GUEST_FEATURES) 0 d
      in read_tag io (v\<lparr>io_base := base, hw := d\<rparr>))"

text \<open>Queue 0, the buffers, and the final status.\<close>

definition virtio_start :: "'d ports \<Rightarrow> machine \<times> 'd virtio \<Rightarrow> int \<times> machine \<times> 'd virtio" where
  "virtio_start io = (\<lambda>(s, v).
     (let (num, d) = inw io (io_base v + VIRTIO_PCI_QUEUE_NUM) (outw io (io_base v + VIRTIO_PCI_QUEUE_SEL) 0 (hw v));
          v = set_hw d v
      in if num = 0 then (0, s, v)
         else
           (let (r, s, v) = setup_queue io (if num > 512 then 512 else num) (s, v)
            in if r < 0 then (0, s, v)
               else
                 (let (ok, s, v) = setup_buffers (s, v)
                  in if \<not> ok then (0, s, v)
                     else
                       (let d = outb io (io_base v + VIRTIO_PCI_STATUS)
                              (VIRTIO_STATUS_ACKNOWLEDGE OR VIRTIO_STATUS_DRIVER OR VIRTIO_STATUS_DRIVER_OK) (hw v)
                        in (1, s, v\<lparr>v9p_ready := True, hw := d\<rparr>))))))"

definition v9p_init :: "'d ports \<Rightarrow> machine \<times> 'd virtio \<Rightarrow> int \<times> machine \<times> 'd virtio" where
  "v9p_init io = (\<lambda>(s, v).
     (case find_device io (hw v) of
        (None, d) \<Rightarrow> (0, s, set_hw d v)
      | (Some p, d) \<Rightarrow>
          (let d = pci_enable_busmaster io p d
           in if pci_bar p ! 0 AND 1 = 0 then (0, s, set_hw d v)
              else virtio_start io (s, virtio_handshake io (ucast (pci_bar p ! 0 AND NOT 3)) d v))))"

section \<open>A remote procedure call\<close>

text \<open>The request in the queue: both descriptors, the available ring and its index.\<close>

definition queue_request :: "u32 \<Rightarrow> 'd virtio \<Rightarrow> memory \<Rightarrow> memory" where
  "queue_request n v m =
     (let m = set_desc (vq_desc v) 0 (v9p_req v) n VRING_DESC_F_NEXT 1 m;
          m = set_desc (vq_desc v) 1 (v9p_resp v) (v9p_msize v) VRING_DESC_F_WRITE 0 m;
          m = st16 m (avail_ring (vq_avail v) (ld16 m (avail_idx (vq_avail v)) mod vq_num v)) 0
      in st16 m (avail_idx (vq_avail v)) (ld16 m (avail_idx (vq_avail v)) + 1))"

definition error_text :: "u32 \<Rightarrow> memory \<Rightarrow> u32 \<Rightarrow> u8 list" where
  "error_text rlen m resp =
     (let elen = (if rlen \<ge> 9
                  then (let l = bytes_u16 (m (resp + 7)) (m (resp + 8)) in if 9 + int (unat l) > sint rlen then ucast (rlen - 9) else l)
                  else 0);
          elen = (if elen > 79 then 79 else elen)
      in bytes_at m (resp + 9) (unat (elen :: u16)))"

definition v9p_rpc :: "'d ports \<Rightarrow> ('d \<Rightarrow> memory \<Rightarrow> memory \<times> 'd) \<Rightarrow> fbody \<Rightarrow> memory \<times> 'd virtio \<Rightarrow>
    ((int \<times> fbody option) \<times> memory \<times> 'd virtio) option" where
  "v9p_rpc io dma tx = (\<lambda>(m, v).
     (if \<not> v9p_ready v then Some ((-1, None), m, v)
      else
        (let n = sizeS2M tx
         in if n = 0 \<or> n > v9p_msize v then Some ((-1, None), m, v)
            else
              (let (k, msg) = convS2M \<lparr>fc_tag = 0, fc_body = tx\<rparr> (v9p_msize v);
                   m = store_bytes m (v9p_req v) msg
               in if k \<noteq> n then Some ((-1, None), m, v)
                  else
                    (let m = queue_request n v m;
                         d = outw io (io_base v + VIRTIO_PCI_QUEUE_NOTIFY) 0 (hw v);
                         (m, d) = dma d m
                     in if ld16 m (used_idx (vq_used v)) = vq_last_used v then None
                        else
                          (let rlen = ld32 m (used_len (vq_used v) (vq_last_used v mod vq_num v));
                               v = v\<lparr>vq_last_used := vq_last_used v + 1, hw := snd (inb io (io_base v + VIRTIO_PCI_ISR) d)\<rparr>
                           in if rlen < 7 then Some ((-1, None), m, v)
                              else if m (v9p_resp v + 4) = 107 then
                                (let t = error_text rlen m (v9p_resp v)
                                 in Some ((-1, None), m, v\<lparr>v9p_err := t @ [0] @ drop (length t + 1) (v9p_err v)\<rparr>))
                              else case convM2S (v9p_resp v) (bytes_at m (v9p_resp v) (unat rlen)) of
                                     None \<Rightarrow> Some ((-1, None), m, v)
                                   | Some (_, rx) \<Rightarrow>
                                       if unat (fc_type (fc_body rx)) \<noteq> unat (fc_type tx) + 1 then Some ((-1, Some (fc_body rx)), m, v)
                                       else Some ((0, Some (fc_body rx)), m, v)))))))"

definition protocol_error :: "u8 list" where
  "protocol_error = map (of_nat \<circ> of_char) ''protocol error''"

definition v9p_errstr :: "'d virtio \<Rightarrow> u8 list" where
  "v9p_errstr v = (if v9p_err v ! 0 \<noteq> 0 then takeWhile (\<lambda>b. b \<noteq> 0) (v9p_err v) else protocol_error)"

definition v9p_get_tag :: "'d virtio \<Rightarrow> u8 list" where
  "v9p_get_tag v = takeWhile (\<lambda>b. b \<noteq> 0) (v9p_tag v)"

definition v9p_get_msize :: "'d virtio \<Rightarrow> u32" where
  "v9p_get_msize v = v9p_msize v"

definition v9p_set_msize :: "u32 \<Rightarrow> 'd virtio \<Rightarrow> 'd virtio" where
  "v9p_set_msize k v = (if k \<noteq> 0 \<and> k \<le> V9P_MSIZE_DEFAULT then v\<lparr>v9p_msize := k\<rparr> else v)"

section \<open>What a virtio device does\<close>

text \<open>
  The fields of a descriptor, and the memory after the device has put \<open>rep\<close> into the buffer of the second descriptor of the chain
  at \<open>h\<close> and reported it in the used ring. \<open>serves\<close> says that the device follows the split-queue protocol for a server \<open>srv\<close>, which maps
  the bytes of a request to the bytes of a reply: when one request is outstanding, made of a readable and a writable buffer, and the
  reply fits, the device leaves exactly this memory.
\<close>

definition desc_addr :: "memory \<Rightarrow> u32 \<Rightarrow> u16 \<Rightarrow> u32" where "desc_addr m q i = ld32 m (q + of_nat (16 * unat i))"
definition desc_len :: "memory \<Rightarrow> u32 \<Rightarrow> u16 \<Rightarrow> u32" where "desc_len m q i = ld32 m (q + of_nat (16 * unat i + 8))"
definition desc_flags :: "memory \<Rightarrow> u32 \<Rightarrow> u16 \<Rightarrow> u16" where "desc_flags m q i = ld16 m (q + of_nat (16 * unat i + 12))"
definition desc_next :: "memory \<Rightarrow> u32 \<Rightarrow> u16 \<Rightarrow> u16" where "desc_next m q i = ld16 m (q + of_nat (16 * unat i + 14))"

definition vq_complete :: "'d virtio \<Rightarrow> u16 \<Rightarrow> u8 list \<Rightarrow> memory \<Rightarrow> memory" where
  "vq_complete v h rep m =
     (let i = ld16 m (used_idx (vq_used v));
          a = desc_addr m (vq_desc v) (desc_next m (vq_desc v) h);
          m = store_bytes m a rep;
          m = st32 m (used_id (vq_used v) (i mod vq_num v)) (ucast h);
          m = st32 m (used_len (vq_used v) (i mod vq_num v)) (of_nat (length rep))
      in st16 m (used_idx (vq_used v)) (i + 1))"

definition outstanding :: "'d virtio \<Rightarrow> memory \<Rightarrow> bool" where
  "outstanding v m \<longleftrightarrow> ld16 m (avail_idx (vq_avail v)) = ld16 m (used_idx (vq_used v)) + 1"

definition vq_head :: "'d virtio \<Rightarrow> memory \<Rightarrow> u16" where
  "vq_head v m = ld16 m (avail_ring (vq_avail v) (ld16 m (used_idx (vq_used v)) mod vq_num v))"

definition serves :: "'d virtio \<Rightarrow> ('d \<Rightarrow> memory \<Rightarrow> memory \<times> 'd) \<Rightarrow> (u8 list \<Rightarrow> 'd \<Rightarrow> u8 list \<times> 'd) \<Rightarrow> bool" where
  "serves v dma srv \<longleftrightarrow>
     (\<forall>m d. let h = vq_head v m; n = desc_next m (vq_desc v) h;
                req = bytes_at m (desc_addr m (vq_desc v) h) (unat (desc_len m (vq_desc v) h));
                (rep, d') = srv req d
            in outstanding v m \<longrightarrow> desc_flags m (vq_desc v) h = VRING_DESC_F_NEXT \<longrightarrow> desc_flags m (vq_desc v) n = VRING_DESC_F_WRITE \<longrightarrow>
               length rep \<le> unat (desc_len m (vq_desc v) n) \<longrightarrow> dma d m = (vq_complete v h rep m, d'))"

section \<open>The driver's invariant\<close>

fun apart :: "(u32 \<times> nat) list \<Rightarrow> bool" where
  "apart [] = True"
| "apart ((a, n) # rs) = (n \<le> 2 ^ 32 \<and> list_all (\<lambda>(b, k). region_disjoint a n b k) rs \<and> apart rs)"

definition vq_regions :: "'d virtio \<Rightarrow> (u32 \<times> nat) list" where
  "vq_regions v = [(vq_desc v, 32), (vq_avail v, 4 + 2 * unat (vq_num v)), (vq_used v, 4 + 8 * unat (vq_num v)),
     (v9p_req v, unat (v9p_msize v)), (v9p_resp v, unat (v9p_msize v))]"

definition vq_ok :: "'d virtio \<Rightarrow> memory \<Rightarrow> bool" where
  "vq_ok v m \<longleftrightarrow> v9p_ready v \<and> vq_num v \<noteq> 0 \<and> apart (vq_regions v) \<and> unat (v9p_resp v) + unat (v9p_msize v) < 2 ^ 32 \<and>
     length (v9p_err v) = 80 \<and>
     ld16 m (avail_idx (vq_avail v)) = vq_last_used v \<and> ld16 m (used_idx (vq_used v)) = vq_last_used v"

section \<open>Reading the ring back\<close>

text \<open>A field at a fixed offset of a structure.\<close>

definition vq_cell :: "u32 \<Rightarrow> nat \<Rightarrow> u32" where
  "vq_cell a k = a + of_nat k"

lemma vq_cell_disjoint:
  "region_disjoint a k b l \<Longrightarrow> j + n \<le> k \<Longrightarrow> i + p \<le> l \<Longrightarrow> k \<le> 2 ^ 32 \<Longrightarrow> l \<le> 2 ^ 32 \<Longrightarrow> region_disjoint (vq_cell a j) n (vq_cell b i) p"
  unfolding vq_cell_def by (rule window_disjoint)

lemma vq_cell_apart:
  "j + n \<le> i \<Longrightarrow> i + p \<le> 2 ^ 32 \<Longrightarrow> region_disjoint (vq_cell a j) n (vq_cell a i) p"
  "i + p \<le> j \<Longrightarrow> j + n \<le> 2 ^ 32 \<Longrightarrow> region_disjoint (vq_cell a j) n (vq_cell a i) p"
  unfolding vq_cell_def using window_apart region_disjoint_sym by blast+

lemma bytes_cell_part:
  "bytes_at m (vq_cell a j) l = bs \<Longrightarrow> k + n \<le> l \<Longrightarrow> bytes_at m (vq_cell a (j + k)) n = take n (drop k bs)"
  unfolding vq_cell_def by (rule nth_equalityI) (auto simp: add.assoc)

lemma bytes_at_fixed:
  "bytes_at m a 2 = [m a, m (a + 1)]" "bytes_at m a 4 = [m a, m (a + 1), m (a + 2), m (a + 3)]"
  by (simp_all add: bytes_at_def upt_conv_Cons)

lemma ld16_bytes: "bytes_at m a 2 = u16_bytes w \<Longrightarrow> ld16 m a = w"
  unfolding bytes_at_fixed by (simp add: u16_bytes_def ld16_def bytes_u16_join)

lemma ld32_bytes: "bytes_at m a 4 = u32_bytes w \<Longrightarrow> ld32 m a = w"
  unfolding bytes_at_fixed by (simp add: u32_bytes_def ld32_def bytes_u32_join)

lemma ld16_cong: "bytes_at m a 2 = bytes_at m' a 2 \<Longrightarrow> ld16 m a = ld16 m' a"
  unfolding bytes_at_fixed by (simp add: ld16_def)

lemma vring_cells:
  "set_desc q 0 addr len flags nxt m = store_bytes m (vq_cell q 0) (u64_bytes (ucast addr) @ u32_bytes len @ u16_bytes flags @ u16_bytes nxt)"
  "set_desc q 1 addr len flags nxt m = store_bytes m (vq_cell q 16) (u64_bytes (ucast addr) @ u32_bytes len @ u16_bytes flags @ u16_bytes nxt)"
  "avail_idx q = vq_cell q 2" "avail_ring q i = vq_cell q (4 + 2 * unat i)" "used_idx q = vq_cell q 2"
  "used_id q i = vq_cell q (4 + 8 * unat i)" "used_len q i = vq_cell q (8 + 8 * unat i)"
  by (simp_all add: set_desc_def sizeof_vring_desc_def vq_cell_def avail_idx_def avail_ring_def used_idx_def used_id_def used_len_def)

lemma desc_cells:
  "desc_addr m q i = ld32 m (vq_cell q (16 * unat i + 0))" "desc_len m q i = ld32 m (vq_cell q (16 * unat i + 8))"
  "desc_flags m q i = ld16 m (vq_cell q (16 * unat i + 12))" "desc_next m q i = ld16 m (vq_cell q (16 * unat i + 14))"
  by (simp_all add: desc_addr_def desc_len_def desc_flags_def desc_next_def vq_cell_def)

lemma desc_fields:
  assumes "bytes_at m (vq_cell q (16 * unat i)) 16 = u64_bytes (ucast addr) @ u32_bytes len @ u16_bytes flags @ u16_bytes nxt"
  shows "desc_addr m q i = addr" "desc_len m q i = len" "desc_flags m q i = flags" "desc_next m q i = nxt"
proof -
  have lo: "u32_bytes addr = take 4 (u64_bytes (ucast addr))"
    by (simp add: u64_bytes_def u32_bytes_def bit_eq_iff bit_simps)
  show "desc_addr m q i = addr" unfolding desc_cells
    using bytes_cell_part [OF assms, of 0 4] lo by (intro ld32_bytes) simp
  show "desc_len m q i = len" "desc_flags m q i = flags" "desc_next m q i = nxt" unfolding desc_cells
    by (rule ld32_bytes ld16_bytes, simp add: bytes_cell_part [OF assms])+
qed

lemma u16_mod_less: "(n :: u16) \<noteq> 0 \<Longrightarrow> unat (i mod n) < unat n"
  by (simp add: unat_mod unat_gt_0)

lemma u16_less: "unat (n :: u16) < 65536"
  using unsigned_less [of n] by simp

lemma apart_regions:
  assumes "apart (vq_regions v)"
  shows "region_disjoint (vq_desc v) 32 (vq_avail v) (4 + 2 * unat (vq_num v))"
    "region_disjoint (vq_desc v) 32 (vq_used v) (4 + 8 * unat (vq_num v))"
    "region_disjoint (vq_desc v) 32 (v9p_req v) (unat (v9p_msize v))"
    "region_disjoint (vq_desc v) 32 (v9p_resp v) (unat (v9p_msize v))"
    "region_disjoint (vq_avail v) (4 + 2 * unat (vq_num v)) (vq_used v) (4 + 8 * unat (vq_num v))"
    "region_disjoint (vq_avail v) (4 + 2 * unat (vq_num v)) (v9p_req v) (unat (v9p_msize v))"
    "region_disjoint (vq_avail v) (4 + 2 * unat (vq_num v)) (v9p_resp v) (unat (v9p_msize v))"
    "region_disjoint (vq_used v) (4 + 8 * unat (vq_num v)) (v9p_req v) (unat (v9p_msize v))"
    "region_disjoint (vq_used v) (4 + 8 * unat (vq_num v)) (v9p_resp v) (unat (v9p_msize v))"
    "region_disjoint (v9p_req v) (unat (v9p_msize v)) (v9p_resp v) (unat (v9p_msize v))"
  using assms by (simp_all add: vq_regions_def)

lemma length_desc [simp]: "length (u64_bytes a @ u32_bytes l @ u16_bytes f @ u16_bytes x) = 16"
  by simp

lemma vq_cell_0: "vq_cell a 0 = a"
  by (simp add: vq_cell_def)

lemmas store_reads = bytes_at_store_disjoint bytes_at_store_bytes

text \<open>Cells of two different regions of the driver never overlap.\<close>

lemmas vq_cells = apart_regions [THEN vq_cell_disjoint] apart_regions [THEN region_disjoint_sym [THEN iffD1], THEN vq_cell_disjoint]

definition vq_slot :: "'d virtio \<Rightarrow> nat" where
  "vq_slot v = unat (vq_last_used v mod vq_num v)"

lemma vq_okD:
  assumes "vq_ok v m"
  shows "apart (vq_regions v)" "vq_slot v < unat (vq_num v)" "unat (vq_num v) < 65536" "unat (v9p_msize v) \<le> 2 ^ 32"
    "ld16 m (vq_cell (vq_avail v) 2) = vq_last_used v" "ld16 m (vq_cell (vq_used v) 2) = vq_last_used v"
  using assms unat_u32_le [of "v9p_msize v"] u16_less [of "vq_num v"]
  by (auto simp: vq_ok_def vq_slot_def u16_mod_less vring_cells)

definition request_memory :: "u32 \<Rightarrow> u8 list \<Rightarrow> 'd virtio \<Rightarrow> memory \<Rightarrow> memory" where
  "request_memory n msg v m =
     store_bytes (store_bytes (store_bytes (store_bytes (store_bytes m (vq_cell (v9p_req v) 0) msg)
       (vq_cell (vq_desc v) 0) (u64_bytes (ucast (v9p_req v)) @ u32_bytes n @ u16_bytes VRING_DESC_F_NEXT @ u16_bytes 1))
       (vq_cell (vq_desc v) 16) (u64_bytes (ucast (v9p_resp v)) @ u32_bytes (v9p_msize v) @ u16_bytes VRING_DESC_F_WRITE @ u16_bytes 0))
       (vq_cell (vq_avail v) (4 + 2 * vq_slot v)) (u16_bytes 0))
       (vq_cell (vq_avail v) 2) (u16_bytes (vq_last_used v + 1))"

lemma queue_request_eq:
  assumes ok: "vq_ok v m" and n: "length msg \<le> unat (v9p_msize v)"
  shows "queue_request n v (store_bytes m (v9p_req v) msg) = request_memory n msg v m"
proof -
  note D = vq_okD [OF ok]
  let ?m1 = "store_bytes m (vq_cell (v9p_req v) 0) msg"
  let ?m2 = "store_bytes ?m1 (vq_cell (vq_desc v) 0) (u64_bytes (ucast (v9p_req v)) @ u32_bytes n @ u16_bytes VRING_DESC_F_NEXT @ u16_bytes 1)"
  let ?m3 = "store_bytes ?m2 (vq_cell (vq_desc v) 16)
      (u64_bytes (ucast (v9p_resp v)) @ u32_bytes (v9p_msize v) @ u16_bytes VRING_DESC_F_WRITE @ u16_bytes 0)"
  let ?m4 = "store_bytes ?m3 (vq_cell (vq_avail v) (4 + 2 * vq_slot v)) (u16_bytes 0)"
  have 3: "ld16 ?m3 (vq_cell (vq_avail v) 2) = vq_last_used v"
    unfolding D(5) [symmetric] using D n by (intro ld16_cong) (simp add: store_reads vq_cells)
  have 4: "ld16 ?m4 (vq_cell (vq_avail v) 2) = vq_last_used v"
    unfolding 3 [symmetric] using D n by (intro ld16_cong) (simp add: store_reads vq_cells vq_cell_apart)
  show ?thesis
    using 3 4 unfolding queue_request_def request_memory_def Let_def vring_cells st16_def vq_cell_0 vq_slot_def by simp
qed

text \<open>What the device finds: one outstanding request, in descriptors 0 and 1.\<close>

lemma request_memory_reads:
  assumes ok: "vq_ok v m" and n: "length msg = unat n" "n \<le> v9p_msize v"
  defines "m' \<equiv> request_memory n msg v m"
  shows "ld16 m' (vq_cell (vq_avail v) 2) = vq_last_used v + 1" "ld16 m' (vq_cell (vq_used v) 2) = vq_last_used v"
    "ld16 m' (vq_cell (vq_avail v) (4 + 2 * vq_slot v)) = 0"
    "bytes_at m' (vq_cell (vq_desc v) 0) 16 =
       u64_bytes (ucast (v9p_req v)) @ u32_bytes n @ u16_bytes VRING_DESC_F_NEXT @ u16_bytes 1"
    "bytes_at m' (vq_cell (vq_desc v) 16) 16 =
       u64_bytes (ucast (v9p_resp v)) @ u32_bytes (v9p_msize v) @ u16_bytes VRING_DESC_F_WRITE @ u16_bytes 0"
    "bytes_at m' (vq_cell (v9p_req v) 0) (unat n) = msg"
proof -
  note D = vq_okD [OF ok]
  have l: "length msg \<le> unat (v9p_msize v)" using n by (simp add: word_le_nat_alt)
  have two: "bytes_at (store_bytes x a (u16_bytes w)) a 2 = u16_bytes w" for x a w
    using bytes_at_store_bytes [of "u16_bytes w" x a] by simp
  have sixteen: "bytes_at (store_bytes x a (u64_bytes p @ u32_bytes q @ u16_bytes f @ u16_bytes g)) a 16 =
      u64_bytes p @ u32_bytes q @ u16_bytes f @ u16_bytes g" for x a p q f g
    using bytes_at_store_bytes [of "u64_bytes p @ u32_bytes q @ u16_bytes f @ u16_bytes g" x a] by simp
  have own: "bytes_at (store_bytes x a msg) a (unat n) = msg" for x a
    using bytes_at_store_bytes [of msg x a] D(4) l n(1) by simp
  show "ld16 m' (vq_cell (vq_avail v) 2) = vq_last_used v + 1"
    unfolding m'_def request_memory_def by (rule ld16_bytes) (rule two)
  show "ld16 m' (vq_cell (vq_used v) 2) = vq_last_used v"
    unfolding D(6) [symmetric] m'_def request_memory_def using D l by (intro ld16_cong) (simp add: store_reads vq_cells)
  show "ld16 m' (vq_cell (vq_avail v) (4 + 2 * vq_slot v)) = 0"
    unfolding m'_def request_memory_def using D by (intro ld16_bytes) (simp add: store_reads vq_cell_apart two)
  show "bytes_at m' (vq_cell (vq_desc v) 0) 16 =
       u64_bytes (ucast (v9p_req v)) @ u32_bytes n @ u16_bytes VRING_DESC_F_NEXT @ u16_bytes 1"
    "bytes_at m' (vq_cell (vq_desc v) 16) 16 =
       u64_bytes (ucast (v9p_resp v)) @ u32_bytes (v9p_msize v) @ u16_bytes VRING_DESC_F_WRITE @ u16_bytes 0"
    unfolding m'_def request_memory_def using D by (simp_all add: store_reads vq_cells vq_cell_apart sixteen del: append_assoc)
  show "bytes_at m' (vq_cell (v9p_req v) 0) (unat n) = msg"
    unfolding m'_def request_memory_def using D l n by (simp add: store_reads vq_cells own)
qed

definition reply_memory :: "u8 list \<Rightarrow> 'd virtio \<Rightarrow> memory \<Rightarrow> memory" where
  "reply_memory rep v m =
     store_bytes (store_bytes (store_bytes (store_bytes m (vq_cell (v9p_resp v) 0) rep)
       (vq_cell (vq_used v) (4 + 8 * vq_slot v)) (u32_bytes 0))
       (vq_cell (vq_used v) (8 + 8 * vq_slot v)) (u32_bytes (of_nat (length rep))))
       (vq_cell (vq_used v) 2) (u16_bytes (vq_last_used v + 1))"

lemma dma_reply:
  assumes ok: "vq_ok v m" and n: "length msg = unat n" "n \<le> v9p_msize v"
    and srv: "serves v dma srv" "srv msg d = (rep, d')" "length rep \<le> unat (v9p_msize v)"
  shows "dma d (request_memory n msg v m) = (reply_memory rep v (request_memory n msg v m), d')"
proof -
  let ?m = "request_memory n msg v m"
  note R = request_memory_reads [OF ok n]
  have o: "outstanding v ?m" by (simp add: outstanding_def vring_cells R)
  have h: "vq_head v ?m = 0" using R(3) unfolding vq_head_def vring_cells R(2) vq_slot_def by simp
  have f0: "desc_addr ?m (vq_desc v) 0 = v9p_req v" "desc_len ?m (vq_desc v) 0 = n"
      "desc_flags ?m (vq_desc v) 0 = VRING_DESC_F_NEXT" "desc_next ?m (vq_desc v) 0 = 1"
    using desc_fields [of ?m "vq_desc v" 0] R(4) by simp_all
  have f1: "desc_addr ?m (vq_desc v) 1 = v9p_resp v" "desc_len ?m (vq_desc v) 1 = v9p_msize v"
      "desc_flags ?m (vq_desc v) 1 = VRING_DESC_F_WRITE"
    using desc_fields [of ?m "vq_desc v" 1] R(5) by simp_all
  have "dma d ?m = (vq_complete v 0 rep ?m, d')"
    using srv(1) [unfolded serves_def, rule_format, of ?m d] o srv(2,3)
    by (simp add: h f0 f1 R(6) [unfolded vq_cell_0] Let_def)
  then show ?thesis
    unfolding vq_complete_def reply_memory_def Let_def vring_cells R(2) f0(4) f1(1) vq_cell_0 vq_slot_def
    by (simp add: st32_def st16_def)
qed

text \<open>What the driver finds when the used index has changed.\<close>

lemma reply_memory_reads:
  assumes ok: "vq_ok v m" and n: "length msg = unat n" "n \<le> v9p_msize v" and rep: "length rep \<le> unat (v9p_msize v)"
  defines "m' \<equiv> reply_memory rep v (request_memory n msg v m)"
  shows "ld16 m' (vq_cell (vq_avail v) 2) = vq_last_used v + 1" "ld16 m' (vq_cell (vq_used v) 2) = vq_last_used v + 1"
    "ld32 m' (vq_cell (vq_used v) (8 + 8 * vq_slot v)) = of_nat (length rep)"
    "bytes_at m' (v9p_resp v) (length rep) = rep"
proof -
  note D = vq_okD [OF ok] and R = request_memory_reads [OF ok n]
  have own: "bytes_at (store_bytes x a bs) a k = bs" if "length bs = k" "k \<le> 2 ^ 32" for x a k bs
    using bytes_at_store_bytes [of bs x a] that by simp
  show "ld16 m' (vq_cell (vq_avail v) 2) = vq_last_used v + 1"
    unfolding R(1) [symmetric] m'_def reply_memory_def using D rep by (intro ld16_cong) (simp add: store_reads vq_cells)
  show "ld16 m' (vq_cell (vq_used v) 2) = vq_last_used v + 1"
    unfolding m'_def reply_memory_def by (intro ld16_bytes own) simp_all
  show "ld32 m' (vq_cell (vq_used v) (8 + 8 * vq_slot v)) = of_nat (length rep)"
    unfolding m'_def reply_memory_def using D by (intro ld32_bytes) (simp add: store_reads vq_cell_apart own)
  have "bytes_at m' (vq_cell (v9p_resp v) 0) (length rep) = rep"
    unfolding m'_def reply_memory_def using D rep by (simp add: store_reads vq_cells own)
  then show "bytes_at m' (v9p_resp v) (length rep) = rep" by (simp add: vq_cell_0)
qed

definition answered :: "'d ports \<Rightarrow> 'd \<Rightarrow> 'd virtio \<Rightarrow> 'd virtio" where
  "answered io d v = v\<lparr>vq_last_used := vq_last_used v + 1, hw := snd (inb io (io_base v + VIRTIO_PCI_ISR) d)\<rparr>"

definition rpc_memory :: "u8 list \<Rightarrow> u8 list \<Rightarrow> 'd virtio \<Rightarrow> memory \<Rightarrow> memory" where
  "rpc_memory msg rep v m = reply_memory rep v (request_memory (of_nat (length msg)) msg v m)"

lemma vq_ok_answered:
  assumes "vq_ok v m" and "length msg \<le> unat (v9p_msize v)" and "length rep \<le> unat (v9p_msize v)"
  shows "vq_ok (answered io d v) (rpc_memory msg rep v m)"
proof -
  have u: "unat (of_nat (length msg) :: u32) = length msg"
    using assms(2) unat_u32_le [of "v9p_msize v"] by (intro unat_of_nat_lt) simp
  then have n: "length msg = unat (of_nat (length msg) :: u32)" "of_nat (length msg) \<le> v9p_msize v"
    using assms(2) by (simp_all add: word_le_nat_alt)
  show ?thesis
    using assms(1) reply_memory_reads [OF assms(1) n assms(3)]
    by (simp add: vq_ok_def answered_def rpc_memory_def vring_cells vq_regions_def)
qed

lemma v9p_rpc_run:
  assumes ok: "vq_ok v m" and srv: "serves v dma srv"
    and tx: "msg_ok tx" "convS2M_body tx = Some bs" "7 + length bs \<le> unat (v9p_msize v)"
    and rep: "srv (message 0 (fc_type tx) bs) (outw io (io_base v + VIRTIO_PCI_QUEUE_NOTIFY) 0 (hw v)) = (rep, d)"
      "7 \<le> length rep" "length rep \<le> unat (v9p_msize v)"
  defines "m' \<equiv> rpc_memory (message 0 (fc_type tx) bs) rep v m"
  shows "v9p_rpc io dma tx (m, v) =
    (if rep ! 4 = 107 then
       (let t = error_text (of_nat (length rep)) m' (v9p_resp v)
        in Some ((-1, None), m', (answered io d v)\<lparr>v9p_err := t @ [0] @ drop (length t + 1) (v9p_err v)\<rparr>))
     else case convM2S (v9p_resp v) rep of
            None \<Rightarrow> Some ((-1, None), m', answered io d v)
          | Some (_, rx) \<Rightarrow>
              if unat (fc_type (fc_body rx)) \<noteq> unat (fc_type tx) + 1 then Some ((-1, Some (fc_body rx)), m', answered io d v)
              else Some ((0, Some (fc_body rx)), m', answered io d v))"
proof -
  let ?msg = "message 0 (fc_type tx) bs"
  let ?n = "of_nat (7 + length bs) :: u32"
  let ?r = "of_nat (length rep) :: u32"
  have lm: "length ?msg = 7 + length bs" by (simp add: message_def)
  have sz: "sizeS2M tx = ?n" using sizeS2M_length [OF tx(1)] tx(2) by auto
  have lt: "7 + length bs < 2 ^ 32" using tx(3) unat_u32_le [of "v9p_msize v"] by simp
  then have u: "unat ?n = 7 + length bs" by (intro unat_of_nat_lt) simp
  have n: "length ?msg = unat ?n" "?n \<le> v9p_msize v" "?n \<noteq> 0" "\<not> ?n > v9p_msize v"
    using u tx(3) lm by (auto simp: word_le_nat_alt word_less_nat_alt unat_eq_zero simp del: of_nat_add)
  have ur: "unat ?r = length rep" using rep(3) unat_u32_le [of "v9p_msize v"] by (intro unat_of_nat_lt) simp
  then have r7: "\<not> ?r < 7" using rep(2) by (simp add: word_less_nat_alt)
  have conv: "convS2M \<lparr>fc_tag = 0, fc_body = tx\<rparr> (v9p_msize v) = (?n, ?msg)"
    using convS2M_ok [of "\<lparr>fc_tag = 0, fc_body = tx\<rparr>" bs "v9p_msize v"] tx lt by (simp add: message_def)
  have q: "queue_request ?n v (store_bytes m (v9p_req v) ?msg) = request_memory ?n ?msg v m"
    using tx(3) lm by (intro queue_request_eq [OF ok]) simp
  have m': "m' = reply_memory rep v (request_memory ?n ?msg v m)" unfolding m'_def rpc_memory_def lm ..
  note dma = dma_reply [OF ok n(1,2) srv rep(1,3)] and R = reply_memory_reads [OF ok n(1,2) rep(3), folded m']
  have used: "ld32 m' (used_len (vq_used v) (vq_last_used v mod vq_num v)) = ?r"
    using R(3) by (simp add: vring_cells vq_slot_def)
  have chg: "ld16 m' (used_idx (vq_used v)) \<noteq> vq_last_used v" using R(2) by (simp add: vring_cells)
  have b4: "m' (v9p_resp v + 4) = rep ! 4" using R(4) rep(2) nth_bytes_at [of 4 "length rep" m' "v9p_resp v"] by simp
  have rdy: "v9p_ready v" using ok by (simp add: vq_ok_def)
  show ?thesis
    unfolding v9p_rpc_def prod.case Let_def conv sz q dma [folded m'] b4 used
    using n(3,4) rdy chg r7
    by (simp add: answered_def ur R(4) b4 split: option.split prod.split del: of_nat_add)
qed

section \<open>The call as the client sees it\<close>

text \<open>Memory outside the five regions of the driver.\<close>

definition outside :: "'d virtio \<Rightarrow> u32 \<Rightarrow> bool" where
  "outside v x \<longleftrightarrow> list_all (\<lambda>(a, n). \<not> in_region a n x) (vq_regions v)"

lemma outside_vq_cell:
  "\<not> in_region a k x \<Longrightarrow> j + length bs \<le> k \<Longrightarrow> k \<le> 2 ^ 32 \<Longrightarrow> store_bytes m (vq_cell a j) bs x = m x"
  using window_inside [of a j "length bs" x k] by (auto simp: vq_cell_def store_bytes_apply)

lemma rpc_memory_outside:
  assumes "vq_ok v m" and "length msg \<le> unat (v9p_msize v)" "length rep \<le> unat (v9p_msize v)" and "outside v x"
  shows "rpc_memory msg rep v m x = m x"
proof -
  note D = vq_okD [OF assms(1)]
  have o: "\<not> in_region (vq_desc v) 32 x" "\<not> in_region (vq_avail v) (4 + 2 * unat (vq_num v)) x"
    "\<not> in_region (vq_used v) (4 + 8 * unat (vq_num v)) x" "\<not> in_region (v9p_req v) (unat (v9p_msize v)) x"
    "\<not> in_region (v9p_resp v) (unat (v9p_msize v)) x"
    using assms(4) by (simp_all add: outside_def vq_regions_def)
  show ?thesis
    unfolding rpc_memory_def reply_memory_def request_memory_def
    using D assms(2,3) o [THEN outside_vq_cell] by simp
qed

lemma runs_disjoint:
  assumes "x + k \<le> y \<or> y + l \<le> x" "x + k \<le> 2 ^ 32" "y + l \<le> 2 ^ 32"
  shows "region_disjoint (vq_cell 0 x) k (vq_cell 0 y) l"
  using assms vq_cell_apart by blast

text \<open>A queue of two descriptors in empty memory, and the device that answers every request with one reply.\<close>

definition vq_example :: "unit virtio" where
  "vq_example = \<lparr>io_base = 0xC000, vq_desc = vq_cell 0 0x10000, vq_avail = vq_cell 0 0x10020, vq_used = vq_cell 0 0x11000, vq_num = 2, vq_last_used = 0,
     v9p_req = vq_cell 0 0x20000, v9p_resp = vq_cell 0 0x30000, v9p_msize = 32768, v9p_tag = replicate 32 0, v9p_err = replicate 80 0,
     v9p_ready = True, hw = ()\<rparr>"

definition null_ports :: "unit ports" where
  "null_ports = \<lparr>port_in = (\<lambda>_ _ d. (0, d)), port_out = (\<lambda>_ _ _ d. d)\<rparr>"

definition one_reply :: "u8 list \<Rightarrow> unit \<Rightarrow> memory \<Rightarrow> memory \<times> unit" where
  "one_reply rep d m = (vq_complete vq_example (vq_head vq_example m) rep m, ())"

lemma one_reply_serves: "serves vq_example (one_reply rep) (\<lambda>_ _. (rep, ()))"
  by (simp add: serves_def one_reply_def Let_def)

lemma vq_example_ok: "vq_ok vq_example (\<lambda>_. 0)"
  unfolding vq_ok_def vq_regions_def vq_example_def
  by (auto intro!: runs_disjoint simp: ld16_def bytes_u16_def, simp_all add: vq_cell_def)

text \<open>The call, with the memory it leaves.\<close>

lemma v9p_rpc_ok:
  assumes "vq_ok v m" and "serves v dma srv"
    and "msg_ok tx" "convS2M_body tx = Some bs" "7 + length bs \<le> unat (v9p_msize v)"
    and "srv (message 0 (fc_type tx) bs) (outw io (io_base v + VIRTIO_PCI_QUEUE_NOTIFY) 0 (hw v)) = (message tag (fc_type rx) cs, d)"
    and "msg_ok rx" "\<not> is_dotu rx" "convS2M_body rx = Some cs" "7 + length cs \<le> unat (v9p_msize v)"
    and "unat (fc_type rx) = unat (fc_type tx) + 1" "fc_type rx \<noteq> 107"
  shows "v9p_rpc io dma tx (m, v) =
      Some ((0, Some (canon rx)), rpc_memory (message 0 (fc_type tx) bs) (message tag (fc_type rx) cs) v m, answered io d v)"
    and "vq_ok (answered io d v) (rpc_memory (message 0 (fc_type tx) bs) (message tag (fc_type rx) cs) v m)"
    and "bytes_at (rpc_memory (message 0 (fc_type tx) bs) (message tag (fc_type rx) cs) v m) (v9p_resp v) (7 + length cs) =
      message tag (fc_type rx) cs"
    and "outside v x \<Longrightarrow> rpc_memory (message 0 (fc_type tx) bs) (message tag (fc_type rx) cs) v m x = m x"
proof -
  let ?msg = "message 0 (fc_type tx) bs" and ?rep = "message tag (fc_type rx) cs"
  let ?m = "rpc_memory ?msg ?rep v m"
  have len: "length ?rep = 7 + length cs" "length ?msg = 7 + length bs" by (simp_all add: message_def)
  have r4: "?rep ! 4 = fc_type rx" by (simp add: message_def u32_bytes_def)
  have room: "unat (v9p_resp v) + 7 + length cs < 2 ^ 32" using assms(1,10) by (simp add: vq_ok_def)
  have dec: "convM2S (v9p_resp v) ?rep = Some (of_nat (7 + length cs), \<lparr>fc_tag = tag, fc_body = canon rx\<rparr>)"
    using convM2S_message [OF room decode_body_ok [OF assms(7,8,9)], of "[]"] by simp
  have ty: "fc_type (canon rx) = fc_type rx" by (cases rx) simp_all
  show "v9p_rpc io dma tx (m, v) = Some ((0, Some (canon rx)), ?m, answered io d v)"
    using v9p_rpc_run [OF assms(1-6)] len assms(10-12) dec ty by (simp add: r4)
  have u: "unat (of_nat (length ?msg) :: u32) = length ?msg"
    using assms(5) len(2) unat_u32_le [of "v9p_msize v"] by (intro unat_of_nat_lt) simp
  have "bytes_at ?m (v9p_resp v) (length ?rep) = ?rep"
    unfolding rpc_memory_def using assms(5,10) len u
    by (intro reply_memory_reads(4) [OF assms(1)]) (simp_all add: word_le_nat_alt del: of_nat_add)
  then show "bytes_at ?m (v9p_resp v) (7 + length cs) = ?rep" unfolding len .
  show "vq_ok (answered io d v) ?m" using len assms(5,10) by (intro vq_ok_answered assms(1)) simp_all
  show "outside v x \<Longrightarrow> ?m x = m x" using rpc_memory_outside [OF assms(1)] len assms(5,10) by simp
qed

text \<open>
  (C8) A remote procedure call: against a device that follows the split-queue protocol and whose server answers the encoded request with
  the encoding of a reply of the matching type, \<open>v9p_rpc\<close> returns 0 with exactly that reply (null strings as empty ones). The request
  the server receives is the encoding of \<open>tx\<close> with tag 0; the driver is ready for the next call; the reply stays in the response buffer;
  and no byte outside the ring and the two buffers changes.
\<close>

theorem v9p_rpc_delivers:
  assumes "vq_ok v m" and "serves v dma srv"
    and "msg_ok tx" "convS2M_body tx = Some bs" "7 + length bs \<le> unat (v9p_msize v)"
    and "srv (message 0 (fc_type tx) bs) (outw io (io_base v + VIRTIO_PCI_QUEUE_NOTIFY) 0 (hw v)) = (message tag (fc_type rx) cs, d)"
    and "msg_ok rx" "\<not> is_dotu rx" "convS2M_body rx = Some cs" "7 + length cs \<le> unat (v9p_msize v)"
    and "unat (fc_type rx) = unat (fc_type tx) + 1" "fc_type rx \<noteq> 107"
  shows "\<exists>m' v'. v9p_rpc io dma tx (m, v) = Some ((0, Some (canon rx)), m', v') \<and> vq_ok v' m' \<and> v' = answered io d v \<and>
    bytes_at m' (v9p_resp v) (7 + length cs) = message tag (fc_type rx) cs \<and> (\<forall>x. outside v x \<longrightarrow> m' x = m x)"
  using v9p_rpc_ok [OF assms] by blast

theorem v9p_rpc_delivers_witness:
  "\<exists>m' v'. v9p_rpc null_ports (one_reply (message 0 121 [])) (Tclunk 5) (\<lambda>_. 0, vq_example) = Some ((0, Some Rclunk), m', v') \<and>
     vq_last_used v' = 1 \<and> m' 0x400000 = 0"
proof -
  have fits: "unat (v9p_msize vq_example) = 32768" by (simp add: vq_example_def)
  have out: "outside vq_example 0x400000"
    by (simp add: outside_def vq_regions_def vq_example_def in_region_def vq_cell_def)
  have "\<exists>m' v'. v9p_rpc null_ports (one_reply (message 0 121 [])) (Tclunk 5) (\<lambda>_. 0, vq_example) = Some ((0, Some (canon Rclunk)), m', v') \<and>
      vq_ok v' m' \<and> v' = answered null_ports () vq_example \<and>
      bytes_at m' (v9p_resp vq_example) (7 + length ([] :: u8 list)) = message 0 (fc_type Rclunk) [] \<and> (\<forall>x. outside vq_example x \<longrightarrow> m' x = 0)"
    by (rule v9p_rpc_delivers [OF vq_example_ok one_reply_serves, of "Tclunk 5" "u32_bytes 5"]) (simp_all add: fits)
  then show ?thesis using out by (auto simp: answered_def vq_example_def)
qed

text \<open>
  (C28) Errors: when the server answers with a 9P2000.u error (the text followed by a number), \<open>v9p_rpc\<close> returns -1, and \<open>v9p_errstr\<close> is
  then the text, cut to 79 bytes; the driver is ready for the next call.
\<close>

theorem v9p_rpc_error:
  assumes "vq_ok v m" and "serves v dma srv"
    and "msg_ok tx" "convS2M_body tx = Some bs" "7 + length bs \<le> unat (v9p_msize v)"
    and "srv (message 0 (fc_type tx) bs) (outw io (io_base v + VIRTIO_PCI_QUEUE_NOTIFY) 0 (hw v)) =
      (message tag 107 (pstring (Some e) @ u32_bytes code), d)"
    and "length e < 65536" "e \<noteq> []" "0 \<notin> set e" "13 + length e \<le> unat (v9p_msize v)" "v9p_msize v \<le> V9P_MSIZE_DEFAULT"
  shows "\<exists>m' v'. v9p_rpc io dma tx (m, v) = Some ((-1, None), m', v') \<and> vq_ok v' m' \<and> v9p_errstr v' = take 79 e"
proof -
  let ?msg = "message 0 (fc_type tx) bs" and ?rep = "message tag 107 (pstring (Some e) @ u32_bytes code)"
  let ?m = "rpc_memory ?msg ?rep v m"
  have len: "length ?rep = 13 + length e" "length ?msg = 7 + length bs" by (simp_all add: message_def pstring_def)
  have r4: "?rep ! 4 = 107" by (simp add: message_def u32_bytes_def)
  have u: "unat (of_nat (length ?msg) :: u32) = length ?msg"
    using assms(5) len(2) unat_u32_le [of "v9p_msize v"] by (intro unat_of_nat_lt) simp
  have bytes: "bytes_at ?m (v9p_resp v) (13 + length e) = ?rep"
    unfolding rpc_memory_def len(1) [symmetric] using assms(5,10) len u
    by (intro reply_memory_reads(4) [OF assms(1)]) (simp_all add: word_le_nat_alt del: of_nat_add)
  have at: "?m (v9p_resp v + of_nat k) = ?rep ! k" if "k < 13 + length e" for k
    using bytes nth_bytes_at [OF that, of ?m "v9p_resp v"] by simp
  let ?r = "of_nat (13 + length e) :: u32" and ?l = "of_nat (length e) :: u16"
  have e32: "13 + length e \<le> 32768" using assms(10,11) by (simp add: V9P_MSIZE_DEFAULT_def word_le_nat_alt)
  have ur: "unat ?r = 13 + length e" using e32 by (intro unat_of_nat_lt) simp
  have "unat ?r < 2 ^ 31" unfolding ur using e32 by simp
  then have sr: "sint ?r = int (13 + length e)" by (simp only: sint_small ur)
  have r9: "?r \<ge> 9" by (simp add: word_le_nat_alt ur del: of_nat_add)
  have ul: "unat ?l = length e" using assms(7) by (simp add: unat_of_nat take_bit_nat_eq_self_iff)
  have l: "bytes_u16 (?m (v9p_resp v + 7)) (?m (v9p_resp v + 8)) = ?l"
    using at [of 7] at [of 8] by (simp add: message_def u32_bytes_def u16_bytes_def pstring_def bytes_u16_join)
  let ?k = "min 79 (length e)"
  have "bytes_at ?m (v9p_resp v + 9) ?k = take ?k e"
  proof (rule nth_equalityI)
    fix j
    assume "j < length (bytes_at ?m (v9p_resp v + 9) ?k)"
    then have j: "j < ?k" by simp
    then have "?m (v9p_resp v + of_nat (9 + j)) = ?rep ! (9 + j)" by (intro at) simp
    also have "\<dots> = e ! j" using j by (simp add: message_def u32_bytes_def u16_bytes_def pstring_def nth_append)
    finally show "bytes_at ?m (v9p_resp v + 9) ?k ! j = take ?k e ! j" using j by (simp add: add.assoc)
  qed simp
  moreover have "unat (if ?l > 79 then 79 else ?l :: u16) = ?k" using ul by (auto simp: word_less_nat_alt)
  moreover have "take ?k e = take 79 e" by (simp add: min_def)
  moreover have "error_text (of_nat (length ?rep)) ?m (v9p_resp v) = bytes_at ?m (v9p_resp v + 9) (unat (if ?l > 79 then 79 else ?l))"
    unfolding error_text_def Let_def len(1) l sr ul using r9 by (simp del: of_nat_add)
  ultimately have et: "error_text (of_nat (length ?rep)) ?m (v9p_resp v) = take 79 e" by simp
  let ?v = "(answered io d v)\<lparr>v9p_err := take 79 e @ [0] @ drop (length (take 79 e) + 1) (v9p_err v)\<rparr>"
  have "v9p_rpc io dma tx (m, v) = Some ((-1, None), ?m, ?v)"
    using v9p_rpc_run [OF assms(1-6)] len assms(10) et by (simp add: r4 Let_def)
  moreover have "vq_ok (answered io d v) ?m" using len assms(5,10) by (intro vq_ok_answered assms(1)) simp_all
  then have "vq_ok ?v ?m" using assms(1) by (simp add: vq_ok_def vq_regions_def min_def)
  moreover have "v9p_errstr ?v = take 79 e"
  proof -
    have nz: "x \<noteq> 0" if "x \<in> set (take 79 e)" for x using that assms(9) by (auto dest: in_set_takeD)
    have "(take 79 e @ [0] @ drop (length (take 79 e) + 1) (v9p_err v)) ! 0 \<noteq> 0"
      using assms(8,9) by (cases e) auto
    then show ?thesis using takeWhile_append2 [of "take 79 e" "\<lambda>b. b \<noteq> 0"] nz by (simp add: v9p_errstr_def)
  qed
  ultimately show ?thesis by blast
qed

theorem v9p_rpc_error_witness:
  "\<exists>m' v'. v9p_rpc null_ports (one_reply (message 0 107 (pstring (Some [110, 111]) @ u32_bytes 2))) (Tclunk 5) (\<lambda>_. 0, vq_example) =
     Some ((-1, None), m', v') \<and> v9p_errstr v' = [110, 111]"
proof -
  have fits: "unat (v9p_msize vq_example) = 32768" "v9p_msize vq_example \<le> V9P_MSIZE_DEFAULT"
    by (simp_all add: vq_example_def V9P_MSIZE_DEFAULT_def)
  have "\<exists>m' v'. v9p_rpc null_ports (one_reply (message 0 107 (pstring (Some [110, 111]) @ u32_bytes 2))) (Tclunk 5) (\<lambda>_. 0, vq_example) =
      Some ((-1, None), m', v') \<and> vq_ok v' m' \<and> v9p_errstr v' = take 79 [110, 111]"
    by (rule v9p_rpc_error [OF vq_example_ok one_reply_serves, of "Tclunk 5" "u32_bytes 5"]) (simp_all add: fits)
  then show ?thesis by auto
qed

end
