(* ===== verification/Virtio_Init.thy ===== *)
theory Virtio_Init
  imports Virtio
begin

text \<open>
  The initialisation of the virtio transport (\<open>v9p_init\<close> of \<open>drivers/virtio/virtio_9p.c\<close>) against the page allocator and the PCI bus: what it
  sets up satisfies the invariant the remote procedure calls keep.
\<close>

section \<open>Setting up establishes the invariant\<close>

text \<open>A run of pages, counted from address 0.\<close>

lemma contig_range:
  assumes "pmm_alloc_contig pages p = (a, p')" and "a \<noteq> 0"
  obtains lo where "a = vq_cell 0 (4096 * lo)" "lo + unat pages \<le> 65536" "free_run p lo (unat pages)"
    "\<And>x. page_used p' x \<longleftrightarrow> (lo \<le> unat x \<and> unat x < lo + unat pages) \<or> page_used p x"
proof -
  have ne: "pages \<noteq> 0" "\<not> pages > pmm_total" using assms by (auto simp: pmm_alloc_contig_def split: if_splits)
  then have "contig_inv p pages 0 0 0" by (simp add: contig_inv_def free_run_def unat_gt_0)
  from pmm_contig_loop_post [OF this] ne assms have "contig_post p pages (a, p')"
    by (auto simp: pmm_alloc_contig_def not_less split: if_splits)
  with assms(2) that show ?thesis
    by (auto simp: contig_post_def vq_cell_def PAGE_SIZE_def mult.commute split: if_splits)
qed

text \<open>Two runs, the second allocated after the first, do not overlap.\<close>

lemma free_run_apart:
  assumes "free_run p lo n" "\<And>k. x \<le> k \<Longrightarrow> k < x + m \<Longrightarrow> page_used p (of_nat k)" "0 < n" "0 < m"
  shows "lo + n \<le> x \<or> x + m \<le> lo"
proof (rule ccontr)
  assume "\<not> ?thesis"
  then have "lo \<le> max lo x" "max lo x < lo + n" "x \<le> max lo x" "max lo x < x + m" using assms(3,4) by auto
  with assms(1,2) show False unfolding free_run_def by blast
qed

lemma virtio_start_steps:
  assumes "virtio_start io (s, v) = (1, s', v')"
  obtains num d s1 v1 v2 where "num \<noteq> 0" "num \<le> 512" "setup_queue io num (s, set_hw d v) = (0, s1, v1)"
    "setup_buffers (s1, v1) = (True, s', v2)" "v' = v2\<lparr>v9p_ready := True, hw := hw v'\<rparr>"
proof -
  obtain num d where n: "inw io (io_base v + VIRTIO_PCI_QUEUE_NUM) (outw io (io_base v + VIRTIO_PCI_QUEUE_SEL) 0 (hw v)) = (num, d)"
    by fastforce
  let ?num = "if num > 512 then 512 else num"
  obtain r s1 v1 where q: "setup_queue io ?num (s, set_hw d v) = (r, s1, v1)" by (rule prod_cases3)
  have r: "r = 0 \<or> r = -1" using q by (auto simp: setup_queue_def Let_def split: prod.splits if_splits)
  obtain b s2 v2 where b: "setup_buffers (s1, v1) = (b, s2, v2)" by (rule prod_cases3)
  have e: "num \<noteq> 0" "r = 0" "b" "s2 = s'" "v' = v2\<lparr>v9p_ready := True, hw := hw v'\<rparr>"
    using assms r unfolding virtio_start_def prod.case n Let_def q b by (auto split: if_splits)
  show thesis using that [of ?num d s1 v1 v2] e q b by (auto simp: not_less)
qed

lemma vq_cell_in:
  assumes "y < 2 ^ 32" "x + n \<le> 2 ^ 32"
  shows "in_region (vq_cell 0 x) n (vq_cell 0 y) \<longleftrightarrow> x \<le> y \<and> y < x + n"
proof (cases "n = 0")
  case False
  then have "unat (of_nat x :: u32) = x" "unat (of_nat y :: u32) = y" using assms by (auto intro!: unat_of_nat_lt)
  with in_region_window [of "of_nat x" n 0 "vq_cell 0 y"] assms(2) show ?thesis by (simp add: vq_cell_def)
qed simp

lemma vq_cell_vq_cell: "vq_cell (vq_cell 0 x) y = vq_cell 0 (x + y)" "vq_cell 0 x + 1 = vq_cell 0 (x + 1)"
  by (simp_all add: vq_cell_def algebra_simps)

text \<open>Positions of the three parts of the ring, as natural numbers.\<close>

definition used_pos :: "nat \<Rightarrow> nat" where
  "used_pos n = (18 * n + 4 + 4095) div 4096 * 4096"

definition ring_pages :: "nat \<Rightarrow> nat" where
  "ring_pages n = (used_pos n + 4 + 8 * n + 4095) div 4096"

lemma ring_sizes:
  fixes num :: u16
  assumes "unat num \<le> 512"
  defines "n \<equiv> unat num"
    and "off \<equiv> (ucast num * sizeof_vring_desc + (4 + 2 * ucast num) + VRING_ALIGN - 1) AND NOT (VRING_ALIGN - 1) :: u32"
  shows "ucast num * sizeof_vring_desc = (of_nat (16 * n) :: u32)" "off = of_nat (used_pos n)"
    "(off + (4 + 8 * ucast num) + 4096 - 1) div 4096 = of_nat (ring_pages n)"
    "18 * n + 4 \<le> used_pos n" "used_pos n + 4 + 8 * n \<le> 4096 * ring_pages n" "ring_pages n \<le> 6" "0 < ring_pages n"
proof -
  have c: "(ucast num :: u32) = of_nat n"
    unfolding n_def using unat_ucast_u16 [of num] by (metis unat_of_nat_self)
  have n: "n \<le> 512" using assms by simp
  show "ucast num * sizeof_vring_desc = (of_nat (16 * n) :: u32)" by (simp add: c sizeof_vring_desc_def)
  have "off = page_base (of_nat (18 * n + 4 + 4095))"
    unfolding off_def c by (simp add: sizeof_vring_desc_def VRING_ALIGN_def page_base_def algebra_simps)
  then have "unat off = used_pos n"
    unfolding used_pos_def using n page_index_eq [of "of_nat (18 * n + 4 + 4095)"]
      unat_of_nat_lt [of "18 * n + 4 + 4095"] by (simp del: of_nat_add of_nat_mult)
  then show off: "off = of_nat (used_pos n)" by (metis unat_of_nat_self)
  have up: "used_pos n \<le> 18 * n + 4 + 4095" unfolding used_pos_def by (metis div_times_less_eq_dividend)
  have sum: "off + (4 + 8 * ucast num) + 4096 - 1 = of_nat (used_pos n + 4 + 8 * n + 4095)"
    unfolding off c by (simp add: algebra_simps)
  have "unat ((of_nat (used_pos n + 4 + 8 * n + 4095) :: u32) div 4096) = ring_pages n"
    unfolding ring_pages_def unat_div using n up unat_of_nat_lt [of "used_pos n + 4 + 8 * n + 4095"]
    by (simp del: of_nat_add of_nat_mult)
  then show "(off + (4 + 8 * ucast num) + 4096 - 1) div 4096 = of_nat (ring_pages n)"
    unfolding sum by (metis unat_of_nat_self)
  show "18 * n + 4 \<le> used_pos n" unfolding used_pos_def by linarith
  show "used_pos n + 4 + 8 * n \<le> 4096 * ring_pages n" "0 < ring_pages n" unfolding ring_pages_def by linarith+
  show "ring_pages n \<le> 6" unfolding ring_pages_def using n up by linarith
qed

lemma ld16_zero: "m a = 0 \<Longrightarrow> m (a + 1) = 0 \<Longrightarrow> ld16 m a = 0"
  by (simp add: ld16_def bytes_u16_def)

lemma setup_queue_layout:
  assumes run: "setup_queue io num (s, v) = (0, s1, v1)" and num: "unat num \<le> 512"
  obtains lo where "vq_desc v1 = vq_cell 0 (4096 * lo)" "vq_avail v1 = vq_cell 0 (4096 * lo + 16 * unat num)"
    "vq_used v1 = vq_cell 0 (4096 * lo + used_pos (unat num))" "lo + ring_pages (unat num) \<le> 65536"
    "\<And>x. page_used (frames s1) x \<longleftrightarrow> (lo \<le> unat x \<and> unat x < lo + ring_pages (unat num)) \<or> page_used (frames s) x"
    "\<And>y. 4096 * lo + 16 * unat num + 2 \<le> y \<Longrightarrow> y < 4096 * (lo + ring_pages (unat num)) \<Longrightarrow> mem s1 (vq_cell 0 y) = 0"
    "vq_num v1 = num" "vq_last_used v1 = 0" "v9p_msize v1 = v9p_msize v" "v9p_err v1 = v9p_err v"
proof -
  let ?n = "unat num" and ?P = "ring_pages (unat num)"
  note Z = ring_sizes [OF num]
  note Z2 = Z(2) [unfolded Z(1)]
  note Z3 = Z(3) [unfolded Z(1), unfolded Z2]
  obtain a p where a: "pmm_alloc_contig (of_nat ?P) (frames s) = (a, p)" by fastforce
  have ne: "a \<noteq> 0" and s1: "frames s1 = p" "mem s1 = st16 (kmemset (mem s) a 0 (of_nat ?P * 4096)) (a + of_nat (16 * ?n)) 1"
    and v1: "vq_desc v1 = a" "vq_avail v1 = a + of_nat (16 * ?n)" "vq_used v1 = a + of_nat (used_pos ?n)"
      "vq_num v1 = num" "vq_last_used v1 = 0" "v9p_msize v1 = v9p_msize v" "v9p_err v1 = v9p_err v"
    using run unfolding setup_queue_def prod.case Let_def Z(1) Z2 Z3 a
    by (auto simp: avail_flags_def VRING_AVAIL_F_NO_INTERRUPT_def split: if_splits)
  have uP: "unat (of_nat ?P :: u32) = ?P" using Z(6) by (intro unat_of_nat_lt) simp
  obtain lo where lo: "a = vq_cell 0 (4096 * lo)" "lo + ?P \<le> 65536"
    "\<And>x. page_used p x \<longleftrightarrow> (lo \<le> unat x \<and> unat x < lo + ?P) \<or> page_used (frames s) x"
    using contig_range [OF a ne] uP by metis
  have at: "a + of_nat k = vq_cell 0 (4096 * lo + k)" for k by (simp add: lo(1) vq_cell_def)
  have bytes: "unat (of_nat ?P * 4096 :: u32) = 4096 * ?P"
    using Z(6) unat_of_nat_lt [of "4096 * ?P"] by (simp add: mult.commute)
  have zero: "mem s1 (vq_cell 0 y) = 0" if y: "4096 * lo + 16 * ?n + 2 \<le> y" "y < 4096 * (lo + ?P)" for y
  proof -
    have y32: "y < 2 ^ 32" using y lo(2) by simp
    have "\<not> in_region (vq_cell 0 (4096 * lo + 16 * ?n)) 2 (vq_cell 0 y)"
      using y lo(2) num y32 by (subst vq_cell_in) simp_all
    moreover have "in_region a (4096 * ?P) (vq_cell 0 y)" unfolding lo(1) using y lo(2) y32 by (subst vq_cell_in) simp_all
    ultimately show ?thesis unfolding s1 at st16_def
      by (simp add: store_bytes_apply kmemset_apply bytes)
  qed
  have "vq_desc v1 = vq_cell 0 (4096 * lo)" using v1(1) lo(1) by simp
  from that [OF this v1(2) [unfolded at] v1(3) [unfolded at] lo(2) _ zero v1(4-7)] lo(3) s1(1) show thesis by simp
qed

lemma unat_numeral_8: "unat (8 :: u32) = 8"
  by simp

lemma setup_buffers_layout:
  assumes run: "setup_buffers (s, v) = (True, s1, v1)" and sz: "v9p_msize v = V9P_MSIZE_DEFAULT"
  obtains lo lo' where "v9p_req v1 = vq_cell 0 (4096 * lo)" "v9p_resp v1 = vq_cell 0 (4096 * lo')" "lo + 8 \<le> 65536" "lo' + 8 \<le> 65536"
    "free_run (frames s) lo 8" "free_run (frames s) lo' 8" "lo + 8 \<le> lo' \<or> lo' + 8 \<le> lo"
    "\<And>y. y < 2 ^ 32 \<Longrightarrow> mem s (vq_cell 0 y) = 0 \<Longrightarrow> mem s1 (vq_cell 0 y) = 0"
    "v1 = v\<lparr>v9p_req := v9p_req v1, v9p_resp := v9p_resp v1\<rparr>"
proof -
  have eight: "v9p_msize v div 4096 = 8" by (simp add: sz V9P_MSIZE_DEFAULT_def)
  obtain a p where a: "pmm_alloc_contig 8 (frames s) = (a, p)" by fastforce
  obtain b q where b: "pmm_alloc_contig 8 p = (b, q)" by fastforce
  have ne: "a \<noteq> 0" "b \<noteq> 0" and r: "v1 = v\<lparr>v9p_req := a, v9p_resp := b\<rparr>"
    "mem s1 = kmemset (kmemset (mem s) a 0 (v9p_msize v)) b 0 (v9p_msize v)"
    using run unfolding setup_buffers_def prod.case Let_def eight a b by (auto split: if_splits)
  obtain lo where lo: "a = vq_cell 0 (4096 * lo)" "lo + 8 \<le> 65536" "free_run (frames s) lo 8"
    "\<And>x. page_used p x \<longleftrightarrow> (lo \<le> unat x \<and> unat x < lo + 8) \<or> page_used (frames s) x"
    using contig_range [OF a ne(1)] by (metis unat_numeral_8)
  obtain lo' where lo': "b = vq_cell 0 (4096 * lo')" "lo' + 8 \<le> 65536" "free_run p lo' 8"
    using contig_range [OF b ne(2)] by (metis unat_numeral_8)
  have "page_used p (of_nat k)" if "lo \<le> k" "k < lo + 8" for k
    using that lo(2,4) unat_of_nat_lt [of k] by simp
  then have apart: "lo' + 8 \<le> lo \<or> lo + 8 \<le> lo'" using free_run_apart [OF lo'(3)] by simp
  have "free_run (frames s) lo' 8" using lo'(3) lo(4) by (auto simp: free_run_def)
  moreover have "mem s1 (vq_cell 0 y) = 0" if "mem s (vq_cell 0 y) = 0" for y
    using that unfolding r by (simp add: kmemset_apply)
  ultimately show thesis using that [of lo lo'] lo lo' apart r by auto
qed

lemma page_runs_disjoint:
  assumes "x + k \<le> y \<or> y + l \<le> x" "x + k \<le> 65536" "y + l \<le> 65536"
  shows "region_disjoint (vq_cell 0 (4096 * x)) (4096 * k) (vq_cell 0 (4096 * y)) (4096 * l)"
proof (rule runs_disjoint)
  show "4096 * x + 4096 * k \<le> 4096 * y \<or> 4096 * y + 4096 * l \<le> 4096 * x"
    using assms(1) by (elim disjE) simp_all
qed (use assms(2,3) in simp_all)

lemma init_layout:
  assumes n: "2 \<le> n" "n \<le> 512"
    and A: "region_disjoint r (4096 * P) a 32768" "region_disjoint r (4096 * P) b 32768" "region_disjoint a 32768 b 32768"
    and sz: "18 * n + 4 \<le> U" "U + 4 + 8 * n \<le> 4096 * P" "P \<le> 6"
  shows "apart [(vq_cell r 0, 32), (vq_cell r (16 * n), 4 + 2 * n), (vq_cell r U, 4 + 8 * n), (vq_cell a 0, 32768), (vq_cell b 0, 32768)]"
proof -
  have "region_disjoint (vq_cell r j) k (vq_cell a 0) 32768" "region_disjoint (vq_cell r j) k (vq_cell b 0) 32768" if "j + k \<le> 4096 * P" for j k
    using that A sz(3) by (auto intro!: vq_cell_disjoint)
  moreover have "region_disjoint (vq_cell a 0) 32768 (vq_cell b 0) 32768" using A(3) by (simp add: vq_cell_0)
  moreover have "region_disjoint (vq_cell r 0) 32 (vq_cell r (16 * n)) (4 + 2 * n)" "region_disjoint (vq_cell r 0) 32 (vq_cell r U) (4 + 8 * n)"
    "region_disjoint (vq_cell r (16 * n)) (4 + 2 * n) (vq_cell r U) (4 + 8 * n)"
    using n sz by (auto intro!: vq_cell_apart(1))
  ultimately show ?thesis using n sz by simp
qed

lemma v9p_init_start:
  assumes "v9p_init io (s, v) = (1, s', v')"
  obtains v0 where "virtio_start io (s, v0) = (1, s', v')" "v9p_msize v0 = v9p_msize v" "v9p_err v0 = v9p_err v"
proof -
  have t: "v9p_msize (virtio_handshake io base d x) = v9p_msize x" "v9p_err (virtio_handshake io base d x) = v9p_err x" for base d x
    by (simp_all add: virtio_handshake_def read_tag_def Let_def split: prod.split)
  obtain p d where f: "find_device io (hw v) = (p, d)" by fastforce
  show thesis
  proof (cases p)
    case None
    then show ?thesis using assms f by (simp add: v9p_init_def)
  next
    case (Some q)
    have e: "v9p_init io (s, v) =
      (if pci_bar q ! 0 AND 1 = 0 then (0, s, set_hw (pci_enable_busmaster io q d) v)
       else virtio_start io (s, virtio_handshake io (ucast (pci_bar q ! 0 AND NOT 3)) (pci_enable_busmaster io q d) v))"
      unfolding v9p_init_def prod.case f Some option.case Let_def ..
    show ?thesis
      using assms that [of "virtio_handshake io (ucast (pci_bar q ! 0 AND NOT 3)) (pci_enable_busmaster io q d) v"] t
      unfolding e by (simp split: if_splits)
  qed
qed


text \<open>The example of a machine with the device in slot 0 of the PCI bus and all pages from 1 on free.\<close>

definition free_from :: "nat \<Rightarrow> pmm \<Rightarrow> bool" where
  "free_from b p \<longleftrightarrow> page_used p 0 \<and> (\<forall>x. b \<le> unat x \<longrightarrow> \<not> page_used p x)"

lemma contig_from:
  assumes "free_from b p" and "0 < unat pages" and "b + unat pages \<le> 65536"
  shows "\<exists>a p'. pmm_alloc_contig pages p = (a, p') \<and> a \<noteq> 0 \<and> free_from (b + unat pages) p'"
proof -
  have n: "pages \<noteq> 0" "pages \<le> pmm_total"
    using assms(2,3) by (auto simp: word_le_nat_alt pmm_total_def PMM_IDENTITY_MAPPED_LIMIT_def PAGE_SIZE_def)
  then have "contig_inv p pages 0 0 0" by (simp add: contig_inv_def free_run_def unat_gt_0)
  from pmm_contig_loop_post [OF this n(2)] have post: "contig_post p pages (pmm_alloc_contig pages p)"
    using n by (auto simp: pmm_alloc_contig_def not_less)
  have run: "free_run p b (unat pages)"
    unfolding free_run_def
  proof (intro allI impI)
    fix k
    assume k: "b \<le> k \<and> k < b + unat pages"
    then have "unat (of_nat k :: u32) = k" using assms(3) by (intro unat_of_nat_lt) simp
    with k assms(1) show "\<not> page_used p (of_nat k)" by (simp add: free_from_def)
  qed
  then obtain lo where lo: "lo + unat pages \<le> 65536" "free_run p lo (unat pages)" "\<forall>lo'<lo. \<not> free_run p lo' (unat pages)"
    "fst (pmm_alloc_contig pages p) = of_nat lo * PAGE_SIZE"
    "\<forall>x. page_used (snd (pmm_alloc_contig pages p)) x \<longleftrightarrow> (lo \<le> unat x \<and> unat x < lo + unat pages) \<or> page_used p x"
    using post assms(3) unfolding contig_post_def by (auto split: if_splits)
  have "lo \<le> b" using lo(3) run by (meson not_le)
  moreover have "lo \<noteq> 0" using lo(2) assms(1,2) by (force simp: free_run_def free_from_def)
  then have "fst (pmm_alloc_contig pages p) \<noteq> 0"
    using lo(1,4) unat_of_nat_lt [of "lo * 4096"] by (auto simp: PAGE_SIZE_def unat_eq_zero [symmetric] simp del: unat_eq_zero)
  ultimately show ?thesis using lo(5) assms(1) by (cases "pmm_alloc_contig pages p") (auto simp: free_from_def)
qed

definition vio_example_io :: "(u32 \<times> (u32 \<Rightarrow> u32)) ports" where
  "vio_example_io = \<lparr>port_in = (\<lambda>w p d. (if p = PCI_CONFIG_DATA then snd d (fst d) else 2, d)), port_out = port_out pci_example_io\<rparr>"

definition vio_example_regs :: "u32 \<Rightarrow> u32" where
  "vio_example_regs a = (if a = 0x80000000 then 0x10091AF4 else if a = 0x80000010 then 0xC001 else 0)"

definition vio_example :: "(u32 \<times> (u32 \<Rightarrow> u32)) virtio" where
  "vio_example = \<lparr>io_base = 0, vq_desc = 0, vq_avail = 0, vq_used = 0, vq_num = 0, vq_last_used = 0, v9p_req = 0, v9p_resp = 0,
     v9p_msize = V9P_MSIZE_DEFAULT, v9p_tag = replicate 32 0, v9p_err = replicate 80 0, v9p_ready = False, hw = (0, vio_example_regs)\<rparr>"

lemma vio_example_found:
  "\<exists>d. find_device vio_example_io (hw vio_example) = (Some (pci_view vio_example_regs (0, 0, 0)), d)"
proof -
  have io: "config_ports vio_example_io fst snd"
    by (simp add: config_ports_def vio_example_io_def pci_example_io_def outl_def inl_def PCI_CONFIG_ADDR_def PCI_CONFIG_DATA_def)
  have m: "cfg16 vio_example_regs 0 0 0 PCI_VENDOR_ID = 0x1AF4" "cfg16 vio_example_regs 0 0 0 PCI_DEVICE_ID = 0x1009"
    by (simp_all add: cfg16_def pci_addr_def vio_example_regs_def PCI_VENDOR_ID_def PCI_DEVICE_ID_def)
  have "List.product (0 # xs) (0 # ys) = (0, 0) # (map (Pair 0) ys @ List.product xs (0 # ys))" for xs ys :: "nat list" by simp
  moreover have "[0..<n] = 0 # [1..<n]" if "0 < n" for n using upt_conv_Cons [OF that] by simp
  ultimately obtain rest where rest: "List.product [0..<256] [0..<32] = (0, 0) # rest" by (metis zero_less_numeral)
  obtain r d where run: "pci_find vio_example_io PCI_VENDOR_VIRTIO (0x1000 + VIRTIO_ID_9P) (hw vio_example) = (r, d)"
    by (rule prod.exhaust)
  have hw: "snd (hw vio_example) = vio_example_regs" by (simp add: vio_example_def)
  from pci_slot_loop_cfg [OF io run [unfolded pci_find_def rest]]
  have "r = Some (pci_view vio_example_regs (0, 0, 0))"
    unfolding hw list.map concat.simps find_append_option
    by (simp add: slot_functions_def pci_matches_def m upt_conv_Cons [of 0] PCI_VENDOR_VIRTIO_def VIRTIO_ID_9P_def)
  with run show ?thesis by (simp add: find_device_def)
qed

lemma virtio_start_from:
  assumes num: "inw io (io_base v + VIRTIO_PCI_QUEUE_NUM) (outw io (io_base v + VIRTIO_PCI_QUEUE_SEL) 0 (hw v)) = (num, d)"
    and n: "num \<noteq> 0" "num \<le> 512" and s: "free_from b (frames s)" "b \<le> 1000" and v: "v9p_msize v = V9P_MSIZE_DEFAULT"
  shows "\<exists>s' v'. virtio_start io (s, v) = (1, s', v') \<and> vq_num v' = num"
proof -
  have nn: "unat num \<le> 512" using n(2) by (simp add: word_le_nat_alt)
  note Z = ring_sizes [OF nn]
  note Z2 = Z(2) [unfolded Z(1)]
  note Z3 = Z(3) [unfolded Z(1), unfolded Z2]
  have uP: "unat (of_nat (ring_pages (unat num)) :: u32) = ring_pages (unat num)" using Z(6) by (intro unat_of_nat_lt) simp
  obtain a p where a: "pmm_alloc_contig (of_nat (ring_pages (unat num))) (frames s) = (a, p)" "a \<noteq> 0"
    "free_from (b + ring_pages (unat num)) p"
    using contig_from [OF s(1), of "of_nat (ring_pages (unat num))"] uP Z(6,7) s(2) by auto
  obtain c q where c: "pmm_alloc_contig 8 p = (c, q)" "c \<noteq> 0" "free_from (b + ring_pages (unat num) + 8) q"
    using contig_from [OF a(3), of 8] Z(6) s(2) by auto
  obtain e r where e: "pmm_alloc_contig 8 q = (e, r)" "e \<noteq> 0"
    using contig_from [OF c(3), of 8] Z(6) s(2) by auto
  obtain s1 v1 where q1: "setup_queue io num (s, set_hw d v) = (0, s1, v1)" and s1: "frames s1 = p" "v9p_msize v1 = V9P_MSIZE_DEFAULT" "vq_num v1 = num"
    unfolding setup_queue_def prod.case Let_def Z(1) Z2 Z3 a(1) using a(2) v by (simp add: set_hw_def)
  have eight: "V9P_MSIZE_DEFAULT div 4096 = 8" by (simp add: V9P_MSIZE_DEFAULT_def)
  obtain s2 v2 where q2: "setup_buffers (s1, v1) = (True, s2, v2)" and v2: "vq_num v2 = num"
    unfolding setup_buffers_def prod.case Let_def s1 eight c(1) e(1) using c(2) e(2) s1(3) by simp
  show ?thesis unfolding virtio_start_def prod.case num Let_def
    using n q1 q2 v2 by (simp add: not_less [symmetric])
qed


end
