(* ===== verification/Boot_Image.thy ===== *)
theory Boot_Image
  imports Console
begin

text \<open>
  The boot image of \<open>kernel/fs/memfs.c\<close>: \<open>fs_init\<close> builds the initial tree and copies the programs linked into the kernel, which are
  parameters here (their table is generated by the build), and \<open>fs_selftest\<close> tries the file system. Shown: with enough free pages
  initialisation returns, the tree it leaves satisfies the invariant the path theorems assume, and the directories and devices
  the kernel relies on are there.
\<close>

section \<open>Building the tree\<close>

definition root_inode :: inode where
  "root_inode = empty_inode\<lparr>inum := ROOTINO, itype := T_DIR, nlink := 2, mode := MODE_DIR\<rparr>"

definition dev_name :: "u8 list" where "dev_name = bytes_of ''dev''"
definition console_name :: "u8 list" where "console_name = bytes_of ''console''"
definition tty_name :: "u8 list" where "tty_name = bytes_of ''tty''"
definition null_name :: "u8 list" where "null_name = bytes_of ''null''"
definition etc_name :: "u8 list" where "etc_name = bytes_of ''etc''"
definition passwd_name :: "u8 list" where "passwd_name = bytes_of ''passwd''"
definition group_name :: "u8 list" where "group_name = bytes_of ''group''"
definition hello_name :: "u8 list" where "hello_name = bytes_of ''hello''"
definition host_name :: "u8 list" where "host_name = bytes_of ''root''"
definition bin_name :: "u8 list" where "bin_name = bytes_of ''bin''"
definition toybox_name :: "u8 list" where "toybox_name = bytes_of ''toybox''"

definition set_nlink :: "u32 \<Rightarrow> (int \<Rightarrow> int) \<Rightarrow> memfs \<Rightarrow> memfs" where
  "set_nlink i f s = upd_inode i (\<lambda>n. n\<lparr>nlink := f (nlink n)\<rparr>) s"

text \<open>A directory below the root with its dot entries; \<open>f\<close> fills it.\<close>

definition boot_dir :: "fs_env \<Rightarrow> u8 list \<Rightarrow> (u32 \<Rightarrow> memfs \<Rightarrow> memfs option) \<Rightarrow> memfs \<Rightarrow> memfs option" where
  "boot_dir env name f s = do {
     (d, s) \<leftarrow> create env ROOTINO name T_DIR 0 s;
     (case d of
        None \<Rightarrow> Some s
      | Some d \<Rightarrow> do {
          let s = set_nlink d (\<lambda>_. 2) s;
          (_, s) \<leftarrow> dirlink env d dot (inum (inode_table s d)) s;
          (_, s) \<leftarrow> dirlink env d dotdot ROOTINO s;
          f d (set_nlink ROOTINO (\<lambda>n. n + 1) s)
        })
   }"

definition boot_device :: "fs_env \<Rightarrow> u8 list \<Rightarrow> nat \<Rightarrow> u32 \<Rightarrow> memfs \<Rightarrow> memfs option" where
  "boot_device env name maj d s = map_option snd (create env d name T_DEVICE (of_nat maj) s)"

definition boot_file :: "fs_env \<Rightarrow> u8 list \<Rightarrow> u8 list \<Rightarrow> u32 \<Rightarrow> memfs \<Rightarrow> memfs option" where
  "boot_file env name bs d s = do {
     (f, s) \<leftarrow> create env d name T_FILE 0 s;
     (case f of None \<Rightarrow> Some s | Some f \<Rightarrow> map_option snd (writei f bs 0 (of_nat (length bs)) s))
   }"

text \<open>The embedded programs: the inode of toybox, if it was installed.\<close>

fun install_programs :: "fs_env \<Rightarrow> u32 \<Rightarrow> (u8 list \<times> u8 list) list \<Rightarrow> u32 option \<Rightarrow> memfs \<Rightarrow> (u32 option \<times> memfs) option" where
  "install_programs env bin [] toybox s = Some (toybox, s)"
| "install_programs env bin ((name, img) # ps) toybox s = do {
     let sz = of_nat (length img);
     (f, s) \<leftarrow> create env bin name T_FILE 0 s;
     (case f of
        None \<Rightarrow> install_programs env bin ps toybox s
      | Some f \<Rightarrow>
          if sz = 0 then install_programs env bin ps toybox s
          else do {
            (_, s) \<leftarrow> writei f img 0 (if sz > MAXFILE then MAXFILE else sz) s;
            install_programs env bin ps (if name = toybox_name then Some f else toybox) s
          })
   }"

fun link_applets :: "fs_env \<Rightarrow> u32 \<Rightarrow> u32 \<Rightarrow> u8 list list \<Rightarrow> memfs \<Rightarrow> memfs option" where
  "link_applets env bin toybox [] s = Some s"
| "link_applets env bin toybox (name # ns) s = do {
     (r, s) \<leftarrow> dirlink env bin name (inum (inode_table s toybox)) s;
     link_applets env bin toybox ns (if r = 0 then set_nlink toybox (\<lambda>n. n + 1) s else s)
   }"

definition fill_dev :: "fs_env \<Rightarrow> u32 \<Rightarrow> memfs \<Rightarrow> memfs option" where
  "fill_dev env dev s = do {
     s \<leftarrow> boot_device env console_name CONSOLE_MAJOR dev s;
     s \<leftarrow> boot_device env tty_name CONSOLE_MAJOR dev s;
     boot_device env null_name NULL_MAJOR dev s
   }"

definition fill_etc :: "fs_env \<Rightarrow> u32 \<Rightarrow> memfs \<Rightarrow> memfs option" where
  "fill_etc env etc s = do {
     s \<leftarrow> boot_file env passwd_name (bytes_of ''root:x:0:0:root:/:/bin/sh'' @ [10]) etc s;
     boot_file env group_name (bytes_of ''root:x:0:'' @ [10]) etc s
   }"

definition fill_bin :: "fs_env \<Rightarrow> (u8 list \<times> u8 list) list \<Rightarrow> u8 list list \<Rightarrow> u32 \<Rightarrow> memfs \<Rightarrow> memfs option" where
  "fill_bin env progs applets bin s = do {
     (toybox, s) \<leftarrow> install_programs env bin progs None s;
     (case toybox of None \<Rightarrow> Some s | Some t \<Rightarrow> link_applets env bin t applets s)
   }"

definition fs_tree :: "fs_env \<Rightarrow> (u8 list \<times> u8 list) list \<Rightarrow> u8 list list \<Rightarrow> memfs \<Rightarrow> memfs option" where
  "fs_tree env progs applets s = do {
     let s = s\<lparr>inode_table := (\<lambda>_. empty_inode)(ROOTINO := root_inode)\<rparr>;
     (_, s) \<leftarrow> dirlink env ROOTINO dot ROOTINO s;
     (_, s) \<leftarrow> dirlink env ROOTINO dotdot ROOTINO s;
     s \<leftarrow> boot_dir env dev_name (fill_dev env) s;
     s \<leftarrow> boot_dir env etc_name (fill_etc env) s;
     s \<leftarrow> boot_file env hello_name (bytes_of ''Hello from the muxOS memfs!'' @ [10]) ROOTINO s;
     (h, s) \<leftarrow> create env ROOTINO host_name T_DIR 0 s;
     let s = (case h of None \<Rightarrow> s | Some h \<Rightarrow> set_nlink h (\<lambda>_. 2) s);
     boot_dir env bin_name (fill_bin env progs applets) s
   }"

definition fs_init :: "'w vfs_env \<Rightarrow> (u8 list \<times> u8 list) list \<Rightarrow> u8 list list \<Rightarrow> 'w vfs \<Rightarrow> 'w vfs option" where
  "fs_init env progs applets v =
     (let v = fileinit v in map_option (\<lambda>s. v\<lparr>fsys := s\<rparr>) (fs_tree (fsenv env) progs applets (fsys v)))"

section \<open>The self test\<close>

datatype selftest = Create_failed | Open_failed | Verdict bool bool

definition selftest_path :: "u8 list" where "selftest_path = bytes_of ''/selftest''"
definition selftest_dir :: "u8 list" where "selftest_dir = bytes_of ''/selftest_dir''"
definition payload :: "u8 list" where "payload = bytes_of ''muxOS memfs payload 12345''"

definition fs_selftest :: "'w vfs_env \<Rightarrow> u32 \<Rightarrow> 'w vfs \<Rightarrow> (selftest \<times> 'w vfs) option" where
  "fs_selftest env uninit v = do {
     (f, v) \<leftarrow> vfs_open env selftest_path (O_CREAT OR O_RDWR OR O_TRUNC) v;
     (case f of
        None \<Rightarrow> Some (Create_failed, v)
      | Some f \<Rightarrow> do {
          (_, v) \<leftarrow> filewrite env f payload (int (length payload)) v;
          let v = fileclose env f v;
          (f, v) \<leftarrow> vfs_open env selftest_path O_RDONLY v;
          (case f of
             None \<Rightarrow> Some (Open_failed, v)
           | Some f \<Rightarrow> do {
               (n, bs, v) \<leftarrow> fileread env f 63 v;
               let v = fileclose env f v;
               let rw_ok = (cstr (take (nat n) bs) = payload);
               (_, v) \<leftarrow> vfs_mkdir_at env None selftest_dir v;
               (ip, v) \<leftarrow> namei env selftest_dir v;
               let dir_ok = (case ip of None \<Rightarrow> False | Some i \<Rightarrow> st_type (stati i (fsys v)) = ucast T_DIR);
               (_, v) \<leftarrow> vfs_unlink_at env uninit None selftest_path v;
               (_, v) \<leftarrow> vfs_rmdir_at env uninit None selftest_dir v;
               Some (Verdict rw_ok dir_ok, v)
             })
        })
   }"

section \<open>The invariant of the tree\<close>

text \<open>
  Every directory is an in-memory one, well formed, and names only inodes in use; an inode in use has its own number.
\<close>

definition img_ok :: "memfs \<Rightarrow> bool" where
  "img_ok s \<longleftrightarrow> fs_wf s \<and> itype (inode_table s ROOTINO) = T_DIR \<and>
     (\<forall>i < MAX_INODES. itype (inode_table s i) \<noteq> 0 \<longrightarrow> inum (inode_table s i) = i) \<and>
     (\<forall>d < MAX_INODES. itype (inode_table s d) = T_DIR \<longrightarrow> dir_wf s d \<and>
        (\<forall>nm i. dir_map s d nm = Some i \<longrightarrow> i \<noteq> 0 \<and> i < MAX_INODES \<and> itype (inode_table s i) \<noteq> 0))"

lemma img_okD:
  assumes "img_ok s"
  shows "fs_wf s" "itype (inode_table s ROOTINO) = T_DIR"
    "i < MAX_INODES \<Longrightarrow> itype (inode_table s i) \<noteq> 0 \<Longrightarrow> inum (inode_table s i) = i"
    "d < MAX_INODES \<Longrightarrow> itype (inode_table s d) = T_DIR \<Longrightarrow> dir_wf s d"
    "d < MAX_INODES \<Longrightarrow> itype (inode_table s d) = T_DIR \<Longrightarrow> dir_map s d nm = Some i \<Longrightarrow>
       i \<noteq> 0 \<and> i < MAX_INODES \<and> itype (inode_table s i) \<noteq> 0"
  using assms by (auto simp: img_ok_def)

lemma iget_used: "iget i s \<noteq> None \<longleftrightarrow> i \<noteq> 0 \<and> i < MAX_INODES \<and> itype (inode_table s i) \<noteq> 0"
  by (auto simp: iget_def not_less)

lemma iget_Some: "i \<noteq> 0 \<Longrightarrow> i < MAX_INODES \<Longrightarrow> itype (inode_table s i) \<noteq> 0 \<Longrightarrow> iget i s = Some i"
  by (simp add: iget_def not_less)

lemma ROOTINO_bounds [simp]: "ROOTINO \<noteq> 0" "ROOTINO < MAX_INODES" and T_types [simp]: "T_DIR \<noteq> 0" "T_FILE \<noteq> 0" "T_DEVICE \<noteq> 0"
  "T_FILE \<noteq> T_DIR" "T_DEVICE \<noteq> T_DIR"
  by (simp_all add: ROOTINO_def MAX_INODES_def T_DIR_def T_FILE_def T_DEVICE_def)

lemma img_ok_tree: "img_ok s \<Longrightarrow> tree_ok s"
  using iget_Some [of ROOTINO s] by (simp add: tree_ok_def img_ok_def)

text \<open>What the tree looks like: the type, the device number and the names of every inode in use.\<close>

type_synonym skeleton = "u32 \<Rightarrow> (u32 \<times> u32 \<times> (u8 list \<rightharpoonup> u32)) option"

definition skel :: "memfs \<Rightarrow> skeleton" where
  "skel s i = (if i < MAX_INODES \<and> itype (inode_table s i) \<noteq> 0
     then Some (itype (inode_table s i), major (inode_table s i), if itype (inode_table s i) = T_DIR then dir_map s i else Map.empty)
     else None)"

lemma skel_Some:
  "skel s i = Some (t, mj, M) \<longleftrightarrow> i < MAX_INODES \<and> t \<noteq> 0 \<and> itype (inode_table s i) = t \<and> major (inode_table s i) = mj \<and>
     M = (if t = T_DIR then dir_map s i else Map.empty)"
  by (auto simp: skel_def)

section \<open>Steps\<close>

lemma dirlink_length:
  assumes wf: "fs_wf s" "d < MAX_INODES" and dir: "dir_wf s d" and name: "name_ok name"
    and run: "dirlink env d name n s = Some (r, s')"
  shows "length (contents s' d) \<le> length (contents s d) + 44"
proof (cases "dir_map s d name")
  case None
  obtain N where N: "length (contents s d) = 44 * N" using dir by (auto simp: dir_wf_def)
  define k where "k = length (takeWhile live (entries (contents s d)))"
  have k: "k \<le> N" using length_takeWhile_le [of live "entries (contents s d)"] by (simp add: k_def N)
  obtain r' where w: "writei d (bytes_of_dirent (new_dirent name n s)) (rec_off k) sizeof_dirent s = Some (r', s')"
    using run None by (auto simp: dirlink_unfold [OF wf dir name] k_def bind_eq_Some_conv)
  note W = write_record [OF wf N k new_dirent(1) w]
  show ?thesis
  proof (cases "44 * k + 44 > 2097152")
    case False
    then have "44 dvd length (contents s' d)" "length (entries (contents s' d)) \<le> Suc N" using W by (auto simp: N)
    then show ?thesis by (auto simp: N)
  qed (use W in simp)
qed (use run in \<open>simp add: dirlink_unfold [OF wf dir name]\<close>)

text \<open>The shape of every inode but one is unchanged.\<close>

definition same_but :: "u32 set \<Rightarrow> memfs \<Rightarrow> memfs \<Rightarrow> bool" where
  "same_but X s s' \<longleftrightarrow> (\<forall>j < MAX_INODES. j \<notin> X \<longrightarrow> itype (inode_table s' j) = itype (inode_table s j) \<and>
     major (inode_table s' j) = major (inode_table s j) \<and> contents s' j = contents s j)"

lemma same_but_skel: "same_but X s s' \<Longrightarrow> j \<notin> X \<Longrightarrow> skel s' j = skel s j"
  by (auto simp: same_but_def skel_def dir_map_def)

lemma dirlink_step:
  assumes ok: "img_ok s" and d: "d < MAX_INODES" "itype (inode_table s d) = T_DIR" and name: "name_ok name"
    and n: "n \<noteq> 0" "n < MAX_INODES" "itype (inode_table s n) \<noteq> 0"
    and run: "dirlink env d name n s = Some (r, s')"
  shows "img_ok s' \<and> same_but {d} s s' \<and> itype (inode_table s' d) = T_DIR \<and> major (inode_table s' d) = major (inode_table s d) \<and>
    length (contents s' d) \<le> length (contents s d) + 44 \<and>
    (r = -1 \<and> s' = s \<and> (dir_map s d name \<noteq> None \<or> length (contents s d) + 44 > 2097152) \<or>
     r = 0 \<and> dir_map s d name = None \<and> dir_map s' d = (dir_map s d)(name \<mapsto> n))"
proof -
  note D = img_okD [OF ok]
  have dw: "dir_wf s d" using D(4) d by blast
  have len: "length (contents s' d) \<le> length (contents s d) + 44" by (rule dirlink_length [OF D(1) d(1) dw name run])
  from dirlink_effect [OF D(1) d(1) dw name n(1) run] show ?thesis
  proof
    assume "r = 0 \<and> dir_map s d name = None \<and> dir_step d s s' ((dir_map s d)(name \<mapsto> n))"
    then have r: "r = 0" "dir_map s d name = None" and st: "dir_step d s s' ((dir_map s d)(name \<mapsto> n))" by auto
    then have wf: "fs_wf s'" "dir_wf s' d" "dir_map s' d = (dir_map s d)(name \<mapsto> n)"
      and tab: "\<exists>ad sz. inode_table s' d = (inode_table s d)\<lparr>addrs := ad, isize := sz\<rparr>"
      and oth: "\<And>j. j < MAX_INODES \<Longrightarrow> j \<noteq> d \<Longrightarrow> inode_table s' j = inode_table s j \<and> contents s' j = contents s j"
      by (auto simp: dir_step_def dir_only_def)
    have ty: "itype (inode_table s' j) = itype (inode_table s j) \<and> inum (inode_table s' j) = inum (inode_table s j) \<and>
        major (inode_table s' j) = major (inode_table s j)" if "j < MAX_INODES" for j
      using tab oth that by (cases "j = d") auto
    have dm: "dir_map s' j = dir_map s j \<and> (dir_wf s' j \<longleftrightarrow> dir_wf s j)" if "j < MAX_INODES" "j \<noteq> d" for j
      using oth [OF that] by (simp add: dir_map_def dir_wf_def)
    have "img_ok s'" unfolding img_ok_def
    proof (intro conjI allI impI)
      fix e assume e: "e < MAX_INODES" "itype (inode_table s' e) = T_DIR"
      show "dir_wf s' e" using wf(2) dm D(4) ty e by (cases "e = d") auto
      fix nm i assume "dir_map s' e nm = Some i"
      then have "i \<noteq> 0 \<and> i < MAX_INODES \<and> itype (inode_table s i) \<noteq> 0"
        using wf(3) dm D(5) [of e nm i] ty e n by (cases "e = d") (auto split: if_splits)
      then show "i \<noteq> 0" "i < MAX_INODES" "itype (inode_table s' i) \<noteq> 0" using ty by auto
    qed (use wf D ty in auto)
    moreover have "same_but {d} s s'" using ty oth by (auto simp: same_but_def)
    ultimately show ?thesis using r wf(3) ty [OF d(1)] d(2) len by simp
  next
    assume "r = -1 \<and> s' = s \<and> (dir_map s d name \<noteq> None \<or> length (contents s d) + 44 > 2097152)"
    then show ?thesis using ok d len by (simp add: same_but_def)
  qed
qed

lemma writei_step:
  assumes ok: "img_ok s" and f: "f < MAX_INODES" "itype (inode_table s f) \<noteq> T_DIR" and n: "unat n \<le> length src"
    and run: "writei f src 0 n s = Some (r, s')"
  shows "img_ok s' \<and> skel s' = skel s \<and> (\<forall>d < MAX_INODES. d \<noteq> f \<longrightarrow> contents s' d = contents s d)"
proof -
  note D = img_okD [OF ok]
  have "unat (0 :: u32) + unat n < 2 ^ 32" using unat_u32_le [of n] by simp
  from writei_effect [OF D(1) f(1) this n run] have "s' = s \<or> write_post f (take (unat n) src) (unat (0 :: u32)) s s'" by (auto split: if_splits)
  then show ?thesis
  proof
    assume "write_post f (take (unat n) src) (unat (0 :: u32)) s s'"
    then have wf: "fs_wf s'"
      and tab: "\<exists>ad sz. inode_table s' f = (inode_table s f)\<lparr>addrs := ad, isize := sz\<rparr>"
      and oth: "\<And>j. j < MAX_INODES \<Longrightarrow> j \<noteq> f \<Longrightarrow> inode_table s' j = inode_table s j \<and> contents s' j = contents s j"
      by (auto simp: write_post_def)
    have ty: "itype (inode_table s' j) = itype (inode_table s j) \<and> inum (inode_table s' j) = inum (inode_table s j) \<and>
        major (inode_table s' j) = major (inode_table s j)" if "j < MAX_INODES" for j
      using tab oth that by (cases "j = f") auto
    have dm: "dir_map s' j = dir_map s j \<and> (dir_wf s' j \<longleftrightarrow> dir_wf s j)" if "j < MAX_INODES" "j \<noteq> f" for j
      using oth [OF that] by (simp add: dir_map_def dir_wf_def)
    have df: "e \<noteq> f" if "e < MAX_INODES" "itype (inode_table s' e) = T_DIR" for e using ty that f by auto
    have "img_ok s'" unfolding img_ok_def
      using wf D ty dm df by (auto 4 3)
    moreover have "skel s' = skel s" using ty dm f by (fastforce simp: skel_def fun_eq_iff)
    ultimately show ?thesis using oth by blast
  qed (use ok in simp)
qed

text \<open>Link counts are no part of the shape.\<close>

lemma set_nlink_simps [simp]:
  "contents (set_nlink i f s) j = contents s j" "mach (set_nlink i f s) = mach s" "dir_map (set_nlink i f s) j = dir_map s j"
  "dir_wf (set_nlink i f s) j = dir_wf s j" "itype (inode_table (set_nlink i f s) j) = itype (inode_table s j)"
  "major (inode_table (set_nlink i f s) j) = major (inode_table s j)" "inum (inode_table (set_nlink i f s) j) = inum (inode_table s j)"
  "fs_wf (set_nlink i f s) = fs_wf s" "skel (set_nlink i f s) = skel s"
proof -
  show c: "contents (set_nlink i f s) j = contents s j" for j by (simp add: contents_def file_byte_def set_nlink_def upd_inode_def)
  show m: "dir_map (set_nlink i f s) j = dir_map s j" for j by (simp add: dir_map_def c)
  show t: "itype (inode_table (set_nlink i f s) j) = itype (inode_table s j)" "major (inode_table (set_nlink i f s) j) = major (inode_table s j)"
    for j by (simp_all add: set_nlink_def upd_inode_def)
  show "dir_wf (set_nlink i f s) j = dir_wf s j" by (simp add: dir_wf_def c) (simp add: set_nlink_def upd_inode_def)
  show "skel (set_nlink i f s) = skel s" by (simp add: skel_def fun_eq_iff m t)
  have e: "isize (inode_table (set_nlink i f s) k) = isize (inode_table s k)" "addrs (inode_table (set_nlink i f s) k) = addrs (inode_table s k)" for k
    by (simp_all add: set_nlink_def upd_inode_def)
  show "fs_wf (set_nlink i f s) = fs_wf s" by (simp add: fs_wf_def e) (simp add: set_nlink_def upd_inode_def)
qed (simp_all add: set_nlink_def upd_inode_def)

lemma img_ok_set_nlink [simp]: "img_ok (set_nlink i f s) = img_ok s"
  by (simp add: img_ok_def)

definition new_inode :: "u32 \<Rightarrow> u32 \<Rightarrow> u32 \<Rightarrow> inode" where
  "new_inode n ty maj = empty_inode\<lparr>inum := n, itype := ty, major := maj, minor := 0, nlink := 1, mode := default_mode ty\<rparr>"

lemma new_inode_upd: "(new_inode n ty maj)\<lparr>itype := ty, nlink := 1\<rparr> = new_inode n ty maj"
  by (simp add: new_inode_def empty_inode_def)

lemma ialloc_cases:
  fixes ty maj :: u32 and s :: memfs
  shows "case ialloc ty maj 0 s of
      (None, s1) \<Rightarrow> s1 = s \<and> (\<forall>j. 1 \<le> j \<longrightarrow> j < MAX_INODES \<longrightarrow> itype (inode_table s j) \<noteq> 0)
    | (Some n, s1) \<Rightarrow> n \<noteq> 0 \<and> n < MAX_INODES \<and> itype (inode_table s n) = 0 \<and>
        (\<forall>j. 1 \<le> j \<longrightarrow> j < n \<longrightarrow> itype (inode_table s j) \<noteq> 0) \<and> s1 = upd_inode n (\<lambda>_. new_inode n ty maj) s"
  using ialloc_loop_correct [where i = 1 and type = ty and maj = maj and mnr = 0 and s = s]
  by (auto simp: ialloc_def MAX_INODES_def new_inode_def split: option.splits prod.splits)

lemma new_inode_wf:
  assumes "fs_wf s"
  shows "fs_wf (upd_inode n (\<lambda>_. (new_inode n ty maj)\<lparr>itype := t, nlink := l\<rparr>) s)"
proof -
  let ?s = "upd_inode n (\<lambda>_. (new_inode n ty maj)\<lparr>itype := t, nlink := l\<rparr>) s"
  have "block ?s j bn = (if j = n then 0 else block s j bn)" "isize (inode_table ?s j) = (if j = n then 0 else isize (inode_table s j))" for j bn
    by (simp_all add: new_inode_def empty_inode_def)
  then show ?thesis using assms unfolding fs_wf_def by auto
qed

lemma new_inode_contents:
  "contents (upd_inode n (\<lambda>_. (new_inode n ty maj)\<lparr>itype := t, nlink := l\<rparr>) s) j = (if j = n then [] else contents s j)"
  by (simp add: contents_def new_inode_def empty_inode_def upd_inode_def)

lemma new_inode_img:
  assumes "img_ok s" and "n \<noteq> 0" "n < MAX_INODES" "itype (inode_table s n) = 0"
  shows "img_ok (upd_inode n (\<lambda>_. (new_inode n ty maj)\<lparr>itype := t, nlink := l\<rparr>) s)"
proof -
  define s1 where "s1 = upd_inode n (\<lambda>_. (new_inode n ty maj)\<lparr>itype := t, nlink := l\<rparr>) s"
  note D = img_okD [OF assms(1)]
  have tab: "inode_table s1 j = (if j = n then (new_inode n ty maj)\<lparr>itype := t, nlink := l\<rparr> else inode_table s j)" for j
    by (simp add: s1_def upd_inode_def)
  have c: "contents s1 j = (if j = n then [] else contents s j)" for j unfolding s1_def by (rule new_inode_contents)
  have dm: "dir_map s1 j = (if j = n then Map.empty else dir_map s j)" for j
    by (simp add: dir_map_def c entries_def)
  have dw: "dir_wf s1 j = dir_wf s j" if "j \<noteq> n" for j using that by (simp add: dir_wf_def c tab)
  have "ibackend (inode_table s1 n) = INODE_MEM" by (simp add: tab) (simp add: new_inode_def empty_inode_def)
  then have dn: "dir_wf s1 n" by (simp add: dir_wf_def c entries_def)
  have ne: "dir_map s d nm = Some i \<Longrightarrow> d < MAX_INODES \<Longrightarrow> itype (inode_table s d) = T_DIR \<Longrightarrow> i \<noteq> n" for d nm i
    using D(5) assms(4) by blast
  have root: "ROOTINO \<noteq> n" using D(2) assms(4) by auto
  have "itype (inode_table s1 i) \<noteq> 0 \<Longrightarrow> i < MAX_INODES \<Longrightarrow> inum (inode_table s1 i) = i" for i
    using D(3) [of i] by (cases "i = n") (simp_all add: tab new_inode_def)
  moreover have "dir_wf s1 d \<and> (\<forall>nm i. dir_map s1 d nm = Some i \<longrightarrow> i \<noteq> 0 \<and> i < MAX_INODES \<and> itype (inode_table s1 i) \<noteq> 0)"
    if "d < MAX_INODES" "itype (inode_table s1 d) = T_DIR" for d
    using that dn dw D(4,5) ne by (cases "d = n") (auto simp: tab dm)
  moreover have "fs_wf s1" unfolding s1_def by (rule new_inode_wf [OF D(1)])
  ultimately show ?thesis using D(2) root unfolding s1_def [symmetric] by (simp add: img_ok_def tab)
qed

lemma ifree_new:
  assumes "inode_table s n = new_inode n ty maj"
  shows "ifree n s = upd_inode n (\<lambda>_. (new_inode n ty maj)\<lparr>itype := 0, nlink := 0\<rparr>) s"
proof -
  have "for_u32 (release_block n) 0 NDIRECT s = s"
    by (rule for_u32_invariant) (simp_all add: release_block_def assms new_inode_def empty_inode_def)
  then show ?thesis by (simp add: ifree_def itrunc_def upd_inode_def assms) (simp add: new_inode_def empty_inode_def)
qed

lemma new_inode_same: "same_but {n} s (upd_inode n (\<lambda>_. (new_inode n ty maj)\<lparr>itype := t, nlink := l\<rparr>) s)"
  using new_inode_contents by (simp add: same_but_def upd_inode_def)

lemma same_but_trans: "same_but X s s1 \<Longrightarrow> same_but Y s1 s2 \<Longrightarrow> same_but (X \<union> Y) s s2"
  by (simp add: same_but_def)

text \<open>\<open>create\<close>: either a new inode under the name, or nothing but the inode's slot has changed.\<close>

lemma create_step:
  assumes ok: "img_ok s" and d: "d < MAX_INODES" "itype (inode_table s d) = T_DIR" and name: "name_ok name" and ty: "ty \<noteq> 0"
    and run: "create env d name ty maj s = Some (r, s')"
  shows "img_ok s' \<and>
    (case r of
       None \<Rightarrow> skel s' = skel s \<and> (\<forall>e < MAX_INODES. itype (inode_table s e) \<noteq> 0 \<longrightarrow> contents s' e = contents s e) \<and>
         ((\<forall>j. 1 \<le> j \<longrightarrow> j < MAX_INODES \<longrightarrow> itype (inode_table s j) \<noteq> 0) \<or> dir_map s d name \<noteq> None \<or> length (contents s d) + 44 > 2097152)
     | Some n \<Rightarrow> n \<noteq> 0 \<and> n < MAX_INODES \<and> n \<noteq> d \<and> dir_map s d name = None \<and> itype (inode_table s n) = 0 \<and> (\<forall>j. 1 \<le> j \<longrightarrow> j < n \<longrightarrow> itype (inode_table s j) \<noteq> 0) \<and>
         skel s' = (skel s)(d \<mapsto> (T_DIR, major (inode_table s d), (dir_map s d)(name \<mapsto> n)), n \<mapsto> (ty, maj, Map.empty)) \<and>
         contents s' n = [] \<and> length (contents s' d) \<le> length (contents s d) + 44 \<and>
         (\<forall>e < MAX_INODES. e \<noteq> d \<longrightarrow> e \<noteq> n \<longrightarrow> contents s' e = contents s e))"
proof (cases "ialloc ty maj 0 s")
  case (Pair a s1)
  show ?thesis
  proof (cases a)
    case None
    then have "s1 = s" "\<forall>j. 1 \<le> j \<longrightarrow> j < MAX_INODES \<longrightarrow> itype (inode_table s j) \<noteq> 0"
      using ialloc_cases [where ty = ty and maj = maj and s = s] Pair by auto
    with run Pair None ok show ?thesis by (auto simp: create_def)
  next
    case (Some n)
    then have n: "n \<noteq> 0" "n < MAX_INODES" "itype (inode_table s n) = 0" "\<forall>j. 1 \<le> j \<longrightarrow> j < n \<longrightarrow> itype (inode_table s j) \<noteq> 0"
      and s1: "s1 = upd_inode n (\<lambda>_. new_inode n ty maj) s" using ialloc_cases [where ty = ty and maj = maj and s = s] Pair by auto
    have s1': "s1 = upd_inode n (\<lambda>_. (new_inode n ty maj)\<lparr>itype := ty, nlink := 1\<rparr>) s"
      by (simp add: s1 new_inode_upd)
    have nd: "n \<noteq> d" using d(2) n(3) by auto
    have ok1: "img_ok s1" unfolding s1' by (rule new_inode_img [OF ok n(1-3)])
    have t1: "inode_table s1 n = new_inode n ty maj" "inode_table s1 d = inode_table s d" using nd by (simp_all add: s1 upd_inode_def)
    have c1: "contents s1 j = (if j = n then [] else contents s j)" for j unfolding s1' by (rule new_inode_contents)
    have same1: "same_but {n} s s1" unfolding s1' by (rule new_inode_same)
    have dm1: "dir_map s1 d = dir_map s d" using nd by (simp add: dir_map_def c1)
    obtain q s2 where l: "dirlink env d name n s1 = Some (q, s2)" and r: "(r, s') = (if q < 0 then (None, ifree n s2) else (Some n, s2))"
      using run Pair Some t1 by (auto simp: create_def new_inode_def bind_eq_Some_conv split: if_splits)
    have tn: "itype (inode_table s1 n) \<noteq> 0" using ty by (simp add: t1 new_inode_def)
    note S = dirlink_step [OF ok1 d(1) _ name n(1,2) tn l, unfolded t1 dm1 c1, OF d(2)]
    show ?thesis
    proof (cases "q < 0")
      case True
      then have s2: "s2 = s1" and full: "dir_map s d name \<noteq> None \<or> length (contents s d) + 44 > 2097152" using S nd by auto
      have s': "r = None" "s' = upd_inode n (\<lambda>_. (new_inode n ty maj)\<lparr>itype := 0, nlink := 0\<rparr>) s"
        using r True ifree_new [OF t1(1)] by (simp_all add: s2) (simp add: s1 upd_inode_def)
      have ok': "img_ok s'" unfolding s'(2) by (rule new_inode_img [OF ok n(1-3)])
      have "same_but {n} s s'" unfolding s'(2) by (rule new_inode_same)
      moreover have "skel s' n = skel s n" using n(3) by (simp add: skel_def s'(2) upd_inode_def)
      ultimately have "skel s' = skel s" using same_but_skel by (metis ext singletonD)
      moreover have "contents s' e = contents s e" if "e < MAX_INODES" "itype (inode_table s e) \<noteq> 0" for e
        using \<open>same_but {n} s s'\<close> that n(3) unfolding same_but_def by (metis singletonD)
      ultimately show ?thesis using ok' s'(1) full by simp
    next
      case False
      then have s': "r = Some n" "s' = s2" and q: "dir_map s2 d = (dir_map s d)(name \<mapsto> n)" and fresh: "dir_map s d name = None"
        using r S nd by auto
      have same: "same_but ({n} \<union> {d}) s s2" using same_but_trans [OF same1] S by blast
      have "skel s2 j = ((skel s)(d \<mapsto> (T_DIR, major (inode_table s d), (dir_map s d)(name \<mapsto> n)), n \<mapsto> (ty, maj, Map.empty))) j" for j
      proof -
        have "skel s2 n = skel s1 n" using S nd same_but_skel [of "{d}" s1 s2 n] by auto
        moreover have "skel s1 n = Some (ty, maj, Map.empty)" using n(2) ty by (simp add: skel_def t1 new_inode_def dir_map_def c1 entries_def)
        moreover have "skel s2 d = Some (T_DIR, major (inode_table s d), (dir_map s d)(name \<mapsto> n))" using S d(1) q by (simp add: skel_def)
        ultimately show ?thesis using same_but_skel [OF same, of j] nd by auto
      qed
      moreover have "contents s2 n = []" using S n(2) nd c1 by (auto simp: same_but_def)
      moreover have "contents s2 e = contents s e" if "e < MAX_INODES" "e \<noteq> d" "e \<noteq> n" for e
        using same that by (auto simp: same_but_def)
      ultimately show ?thesis using s' S n nd fresh by auto
    qed
  qed
qed

lemma create_spares:
  assumes ok: "img_ok s" and d: "d < MAX_INODES" "itype (inode_table s d) = T_DIR" and name: "name_ok name"
    and free: "2 + p \<le> card (free_pages (frames (mach s)))"
  shows "\<exists>r s'. create env d name ty maj s = Some (r, s') \<and> p \<le> card (free_pages (frames (mach s')))"
proof (cases "ialloc ty maj 0 s")
  case (Pair a s1)
  show ?thesis
  proof (cases a)
    case None
    then show ?thesis using ialloc_cases [where ty = ty and maj = maj and s = s] Pair free by (auto simp: create_def)
  next
    case (Some n)
    then have n: "n \<noteq> 0" "n < MAX_INODES" "itype (inode_table s n) = 0" and s1: "s1 = upd_inode n (\<lambda>_. new_inode n ty maj) s"
      using ialloc_cases [where ty = ty and maj = maj and s = s] Pair by auto
    have s1': "s1 = upd_inode n (\<lambda>_. (new_inode n ty maj)\<lparr>itype := ty, nlink := 1\<rparr>) s" by (simp add: s1 new_inode_upd)
    have ok1: "img_ok s1" unfolding s1' by (rule new_inode_img [OF ok n])
    have t1: "inode_table s1 n = new_inode n ty maj" "itype (inode_table s1 d) = T_DIR" "mach s1 = mach s"
      using d n(3) by (auto simp: s1 upd_inode_def)
    obtain q s2 where l: "dirlink env d name n s1 = Some (q, s2)" "p \<le> card (free_pages (frames (mach s2)))"
      using dirlink_spares [OF img_okD(1) [OF ok1] d(1) img_okD(4) [OF ok1 d(1) t1(2)] name, of p env n] free t1(3) by auto
    have "mach (ifree n s2) = mach s2" if "q < 0"
    proof -
      have "s2 = s1" using dirlink_effect [OF img_okD(1) [OF ok1] d(1) img_okD(4) [OF ok1 d(1) t1(2)] name n(1) l(1)] that by auto
      then show ?thesis using ifree_new [OF t1(1)] by (simp add: upd_inode_def)
    qed
    with l show ?thesis using Pair Some t1(1) by (auto simp: create_def new_inode_def)
  qed
qed

section \<open>The first directories\<close>

text \<open>
  While the fixed part of the tree is built, the inodes 1 to \<open>n - 1\<close> are in use, the tree looks exactly like \<open>K\<close>, the files in \<open>C\<close> hold
  these bytes, directories have at most \<open>l\<close> bytes, and at least \<open>p\<close> pages are free.
\<close>

definition stored :: "(u32 \<rightharpoonup> u8 list) \<Rightarrow> memfs \<Rightarrow> bool" where
  "stored C s \<longleftrightarrow> (\<forall>i bs. C i = Some bs \<longrightarrow> i < MAX_INODES \<and> itype (inode_table s i) \<noteq> 0 \<and> itype (inode_table s i) \<noteq> T_DIR \<and> contents s i = bs)"

lemma storedD: "stored C s \<Longrightarrow> C i = Some bs \<Longrightarrow> i < MAX_INODES \<and> itype (inode_table s i) \<noteq> 0 \<and> itype (inode_table s i) \<noteq> T_DIR \<and> contents s i = bs"
  by (simp add: stored_def)

lemma stored_nlink [simp]: "stored C (set_nlink i f s) = stored C s"
  by (simp add: stored_def)

lemma stored_step:
  assumes "stored C s" and "\<And>i bs. C i = Some bs \<Longrightarrow> itype (inode_table s i) \<noteq> 0 \<Longrightarrow> itype (inode_table s i) \<noteq> T_DIR \<Longrightarrow> skel s' i = skel s i \<and> contents s' i = contents s i"
  shows "stored C s'"
  unfolding stored_def
proof (intro allI impI)
  fix i bs assume C: "C i = Some bs"
  note H = storedD [OF assms(1) C]
  then have "skel s' i = skel s i" "contents s' i = contents s i" using assms(2) [OF C] by auto
  then show "i < MAX_INODES \<and> itype (inode_table s' i) \<noteq> 0 \<and> itype (inode_table s' i) \<noteq> T_DIR \<and> contents s' i = bs"
    using H by (auto simp: skel_def split: if_splits)
qed

definition tree_inv :: "skeleton \<Rightarrow> (u32 \<rightharpoonup> u8 list) \<Rightarrow> nat \<Rightarrow> nat \<Rightarrow> memfs \<Rightarrow> bool" where
  "tree_inv K C l p s \<longleftrightarrow> img_ok s \<and> skel s = K \<and> stored C s \<and> K 0 = None \<and>
     (\<forall>d < MAX_INODES. itype (inode_table s d) = T_DIR \<longrightarrow> length (contents s d) \<le> l) \<and> p \<le> card (free_pages (frames (mach s)))"

definition boot_inv :: "u32 \<Rightarrow> skeleton \<Rightarrow> (u32 \<rightharpoonup> u8 list) \<Rightarrow> nat \<Rightarrow> nat \<Rightarrow> memfs \<Rightarrow> bool" where
  "boot_inv n K C l p s \<longleftrightarrow> img_ok s \<and> skel s = K \<and> stored C s \<and> (\<forall>j. K j \<noteq> None \<longleftrightarrow> 1 \<le> j \<and> j < n) \<and>
     (\<forall>d < MAX_INODES. itype (inode_table s d) = T_DIR \<longrightarrow> length (contents s d) \<le> l) \<and> p \<le> card (free_pages (frames (mach s)))"

lemma tree_invD:
  assumes "tree_inv K C l p s"
  shows "img_ok s" "skel s = K" "K 0 = None" "p \<le> card (free_pages (frames (mach s)))"
    "d < MAX_INODES \<Longrightarrow> itype (inode_table s d) = T_DIR \<Longrightarrow> length (contents s d) \<le> l" "stored C s"
  using assms by (auto simp: tree_inv_def)

lemma boot_inv_tree: "boot_inv n K C l p s \<longleftrightarrow> tree_inv K C l p s \<and> (\<forall>j. K j \<noteq> None \<longleftrightarrow> 1 \<le> j \<and> j < n)"
proof -
  have "K 0 = None" if "\<forall>j. K j \<noteq> None \<longleftrightarrow> 1 \<le> j \<and> j < n" using that [rule_format, of 0] by (cases "K 0") auto
  then show ?thesis unfolding boot_inv_def tree_inv_def by blast
qed

lemma tree_inv_nlink [simp]: "tree_inv K C l p (set_nlink i f s) = tree_inv K C l p s"
  by (simp add: tree_inv_def)

lemma tree_inv_mono: "tree_inv K C l p s \<Longrightarrow> l \<le> l' \<Longrightarrow> p' \<le> p \<Longrightarrow> tree_inv K C l' p' s"
  unfolding tree_inv_def using order_trans by blast

lemma tree_inv_dir:
  assumes "tree_inv K C l p s" and "K d = Some (T_DIR, mj, M)"
  shows "d < MAX_INODES" "itype (inode_table s d) = T_DIR" "major (inode_table s d) = mj" "dir_map s d = M" "length (contents s d) \<le> l"
  using tree_invD [OF assms(1)] assms(2) skel_Some [of s d T_DIR mj M] by auto

lemma tree_inv_used:
  assumes "tree_inv K C l p s" and "K i \<noteq> None"
  shows "i \<noteq> 0" "i < MAX_INODES" "itype (inode_table s i) \<noteq> 0" "inum (inode_table s i) = i"
proof -
  show "i \<noteq> 0" using tree_invD(3) [OF assms(1)] assms(2) by metis
  have "skel s i \<noteq> None" using tree_invD(2) [OF assms(1)] assms(2) by simp
  then show "i < MAX_INODES" "itype (inode_table s i) \<noteq> 0" by (auto simp: skel_def split: if_splits)
  then show "inum (inode_table s i) = i" using img_okD(3) [OF tree_invD(1) [OF assms(1)]] by blast
qed

lemma boot_invD:
  assumes "boot_inv n K C l p s"
  shows "img_ok s" "skel s = K" "K j \<noteq> None \<longleftrightarrow> 1 \<le> j \<and> j < n" "p \<le> card (free_pages (frames (mach s)))"
    "d < MAX_INODES \<Longrightarrow> itype (inode_table s d) = T_DIR \<Longrightarrow> length (contents s d) \<le> l" "stored C s"
  using assms by (auto simp: boot_inv_def)

lemma boot_inv_nlink [simp]: "boot_inv n K C l p (set_nlink i f s) = boot_inv n K C l p s"
  by (simp add: boot_inv_def)

lemma boot_inv_mono: "boot_inv n K C l p s \<Longrightarrow> l \<le> l' \<Longrightarrow> p' \<le> p \<Longrightarrow> boot_inv n K C l' p' s"
  unfolding boot_inv_def using order_trans by blast

lemma boot_inv_dir:
  assumes "boot_inv n K C l p s" and "K d = Some (T_DIR, mj, M)"
  shows "d < MAX_INODES" "itype (inode_table s d) = T_DIR" "major (inode_table s d) = mj" "dir_map s d = M" "length (contents s d) \<le> l"
  using tree_inv_dir [of K C l p s d mj M] assms by (simp_all add: boot_inv_tree)

lemma boot_inv_used:
  assumes "boot_inv n K C l p s" and "K i \<noteq> None"
  shows "i \<noteq> 0" "i < MAX_INODES" "itype (inode_table s i) \<noteq> 0" "inum (inode_table s i) = i"
  using tree_inv_used [of K C l p s i] assms(1) [unfolded boot_inv_tree] assms(2) by blast+

lemma dirlink_tree:
  assumes inv: "tree_inv K C l (2 + p) s" and d: "K d = Some (T_DIR, mj, M)" and name: "M name = None" "name_ok name"
    and i: "K i \<noteq> None" and l: "l + 44 \<le> 2097152"
  shows "\<exists>s'. dirlink env d name i s = Some (0, s') \<and> tree_inv (K(d \<mapsto> (T_DIR, mj, M(name \<mapsto> i)))) C (l + 44) p s'"
proof -
  note D = tree_invD [OF inv] and dd = tree_inv_dir [OF inv d] and ii = tree_inv_used [OF inv i]
  obtain r s' where run: "dirlink env d name i s = Some (r, s')" and p: "p \<le> card (free_pages (frames (mach s')))"
    using dirlink_spares [OF img_okD(1) [OF D(1)] dd(1) img_okD(4) [OF D(1) dd(1,2)] name(2) D(4)] by blast
  have S: "img_ok s'" "same_but {d} s s'" "itype (inode_table s' d) = T_DIR" "major (inode_table s' d) = mj"
      "length (contents s' d) \<le> l + 44" "r = 0" "dir_map s' d = M(name \<mapsto> i)"
    using dirlink_step [OF D(1) dd(1,2) name(2) ii(1-3) run] dd l name(1) by auto
  have "skel s' j = (K(d \<mapsto> (T_DIR, mj, M(name \<mapsto> i)))) j" for j
    using same_but_skel [OF S(2), of j] D(2) S(3,4,7) dd(1) by (cases "j = d") (auto simp: skel_def)
  then have "skel s' = K(d \<mapsto> (T_DIR, mj, M(name \<mapsto> i)))" by (rule ext)
  moreover have "length (contents s' e) \<le> l + 44" if "e < MAX_INODES" "itype (inode_table s' e) = T_DIR" for e
    using S(2,5) D(5) [of e] that by (cases "e = d") (auto simp: same_but_def)
  moreover have "d \<noteq> 0" using D(3) d by auto
  then have "(K(d \<mapsto> (T_DIR, mj, M(name \<mapsto> i)))) 0 = None" using D(3) by simp
  moreover have "stored C s'"
  proof (rule stored_step [OF D(6)])
    fix j bs assume "C j = Some bs" "itype (inode_table s j) \<noteq> T_DIR"
    then have "j \<noteq> d" "j < MAX_INODES" using dd storedD [OF D(6)] by auto
    then show "skel s' j = skel s j \<and> contents s' j = contents s j" using same_but_skel [OF S(2), of j] S(2) by (auto simp: same_but_def)
  qed
  ultimately show ?thesis unfolding tree_inv_def using run S(1,6) p by blast
qed

lemma dirlink_boot:
  assumes inv: "boot_inv n K C l (2 + p) s" and d: "K d = Some (T_DIR, mj, M)" and name: "M name = None" "name_ok name"
    and i: "K i \<noteq> None" and l: "l + 44 \<le> 2097152"
  shows "\<exists>s'. dirlink env d name i s = Some (0, s') \<and> boot_inv n (K(d \<mapsto> (T_DIR, mj, M(name \<mapsto> i)))) C (l + 44) p s'"
proof -
  have "((K(d \<mapsto> (T_DIR, mj, M(name \<mapsto> i)))) j \<noteq> None) = (1 \<le> j \<and> j < n)" for j
    using boot_invD(3) [OF inv, of j] boot_invD(3) [OF inv, of d] d by (cases "j = d") auto
  then show ?thesis using dirlink_tree [of K C l p s d mj M name i env] assms unfolding boot_inv_tree by blast
qed

lemma create_boot:
  assumes inv: "boot_inv n K C l (2 + p) s" and d: "K d = Some (T_DIR, mj, M)" and name: "M name = None" "name_ok name"
    and ty: "ty \<noteq> 0" and n: "1 \<le> n" "n < MAX_INODES" and l: "l + 44 \<le> 2097152"
  shows "\<exists>s'. create env d name ty maj s = Some (Some n, s') \<and>
    boot_inv (n + 1) (K(d \<mapsto> (T_DIR, mj, M(name \<mapsto> n)), n \<mapsto> (ty, maj, Map.empty))) (if ty = T_DIR then C else C(n \<mapsto> [])) (l + 44) p s'"
proof -
  note D = boot_invD [OF inv] and dd = boot_inv_dir [OF inv d]
  have used: "itype (inode_table s j) \<noteq> 0 \<longleftrightarrow> 1 \<le> j \<and> j < n" if "j < MAX_INODES" for j
    using D(3) [of j] that by (auto simp: skel_def simp flip: D(2) split: if_splits)
  obtain r s' where run: "create env d name ty maj s = Some (r, s')" and p: "p \<le> card (free_pages (frames (mach s')))"
    using create_spares [OF D(1) dd(1,2) name(2) D(4)] by blast
  note S = create_step [OF D(1) dd(1,2) name(2) ty run]
  have nf: "itype (inode_table s n) = 0" using used n by auto
  then obtain m where m: "r = Some m" using S dd(4,5) name(1) l n by (cases r) auto
  then have M: "m \<noteq> 0" "m < MAX_INODES" "m \<noteq> d" "itype (inode_table s m) = 0" "\<And>j. 1 \<le> j \<Longrightarrow> j < m \<Longrightarrow> itype (inode_table s j) \<noteq> 0" using S by auto
  have "m = n"
  proof (rule antisym)
    show "m \<le> n" using M(5) nf n(1) by (meson not_less)
    show "n \<le> m" using used [OF M(2)] M(1,4) by (metis not_less word_gt_0 word_le_less_eq word_less_1 linorder_not_le)
  qed
  have sk: "skel s' = K(d \<mapsto> (T_DIR, mj, M(name \<mapsto> n)), n \<mapsto> (ty, maj, Map.empty))" using S m \<open>m = n\<close> D(2) dd(3,4) by simp
  have "length (contents s' e) \<le> l + 44" if e: "e < MAX_INODES" "itype (inode_table s' e) = T_DIR" for e
  proof -
    have "skel s' e \<noteq> None" using e by (simp add: skel_def)
    then have "e = d \<or> e = n \<or> K e \<noteq> None" unfolding sk by auto
    moreover have "itype (inode_table s e) = T_DIR" if "K e \<noteq> None" "e \<noteq> d" "e \<noteq> n"
    proof -
      have "skel s' e = skel s e" using sk that D(2) by simp
      then show ?thesis using e that D(2) by (auto simp: skel_def split: if_splits)
    qed
    ultimately show ?thesis using S m \<open>m = n\<close> dd(5) D(5) [of e] e(1) by fastforce
  qed
  moreover have "j < n + 1 \<longleftrightarrow> j < n \<or> j = n" for j
    using n(2) unat_plus1_less [OF n(2)] by (auto simp: word_less_nat_alt word_unat_eq_iff)
  then have "((K(d \<mapsto> (T_DIR, mj, M(name \<mapsto> n)), n \<mapsto> (ty, maj, Map.empty))) j \<noteq> None) = (1 \<le> j \<and> j < n + 1)" for j
    using D(3) [of j] D(3) [of d] d n(1) by (cases "j = n"; cases "j = d") auto
  moreover have "img_ok s'" using S by blast
  moreover have "stored C s'"
  proof (rule stored_step [OF D(6)])
    fix j bs assume "C j = Some bs" "itype (inode_table s j) \<noteq> 0" "itype (inode_table s j) \<noteq> T_DIR"
    then have "j \<noteq> d" "j \<noteq> n" "j < MAX_INODES" using dd nf storedD [OF D(6)] by auto
    then show "skel s' j = skel s j \<and> contents s' j = contents s j" using S m \<open>m = n\<close> sk D(2) by auto
  qed
  then have "stored (if ty = T_DIR then C else C(n \<mapsto> [])) s'"
    using S m \<open>m = n\<close> sk ty n(2) skel_Some [of s' n ty maj Map.empty] by (auto simp: stored_def)
  ultimately show ?thesis unfolding boot_inv_def using run m \<open>m = n\<close> sk p by blast
qed

lemma write_tree:
  assumes inv: "tree_inv K C l (unat k div 4096 + 2 + p) s" and f: "C f = Some []" and k: "unat k \<le> length src" "unat k \<le> 2097152"
  shows "\<exists>r s'. writei f src 0 k s = Some (r, s') \<and> tree_inv K (C(f \<mapsto> take (unat k) src)) l p s'"
proof -
  note D = tree_invD [OF inv]
  have ff: "f < MAX_INODES" "itype (inode_table s f) \<noteq> T_DIR" "itype (inode_table s f) \<noteq> 0" "contents s f = []" using storedD [OF D(6) f] by auto
  have "unat (0 :: u32) + unat k < 2 ^ 32" using unat_u32_le [of k] by simp
  moreover from this obtain r s' where run: "writei f src 0 k s = Some (r, s')" and p: "p \<le> card (free_pages (frames (mach s')))"
    using writei_spares [OF img_okD(1) [OF D(1)] ff(1) _ k(1) D(4)] by blast
  have S: "img_ok s'" "skel s' = skel s" "\<And>d. d < MAX_INODES \<Longrightarrow> d \<noteq> f \<Longrightarrow> contents s' d = contents s d"
    using writei_step [OF D(1) ff(1,2) k(1) run] by auto
  have c: "contents s' f = take (unat k) src"
    using writei_effect [OF img_okD(1) [OF D(1)] ff(1) \<open>unat (0 :: u32) + unat k < 2 ^ 32\<close> k(1) run] k(2) ff(4)
    by (simp add: write_post_def overwrite_def)
  have "length (contents s' d) \<le> l" if d: "d < MAX_INODES" "itype (inode_table s' d) = T_DIR" for d
  proof -
    have "skel s' d = skel s d" by (simp only: S(2))
    then have "itype (inode_table s d) = T_DIR" using d by (simp add: skel_def split: if_splits)
    then show ?thesis using D(5) [of d] d S(3) [of d] ff by (cases "d = f") simp_all
  qed
  moreover have "stored (C(f \<mapsto> take (unat k) src)) s'"
    unfolding stored_def
  proof (intro allI impI)
    fix i bs assume C: "(C(f \<mapsto> take (unat k) src)) i = Some bs"
    then have i: "i < MAX_INODES \<and> itype (inode_table s i) \<noteq> 0 \<and> itype (inode_table s i) \<noteq> T_DIR" and "contents s' i = bs"
      using ff c storedD [OF D(6), of i bs] S(3) [of i] by (auto split: if_splits)
    moreover have "skel s' i = skel s i" by (simp only: S(2))
    ultimately show "i < MAX_INODES \<and> itype (inode_table s' i) \<noteq> 0 \<and> itype (inode_table s' i) \<noteq> T_DIR \<and> contents s' i = bs"
      by (auto simp: skel_def split: if_splits)
  qed
  ultimately have "tree_inv K (C(f \<mapsto> take (unat k) src)) l p s'" using S(1,2) p D(2,3) by (simp add: tree_inv_def)
  with run show ?thesis by blast
qed

lemma write_boot:
  assumes "boot_inv n K C l (unat k div 4096 + 2 + p) s" "C f = Some []" "unat k \<le> length src" "unat k \<le> 2097152"
  shows "\<exists>r s'. writei f src 0 k s = Some (r, s') \<and> boot_inv n K (C(f \<mapsto> take (unat k) src)) l p s'"
  using write_tree [of K C l k p s f src] assms unfolding boot_inv_tree by blast

lemma boot_device_boot:
  assumes inv: "boot_inv n K C l (2 + p) s" and d: "K d = Some (T_DIR, mj, M)" and name: "M name = None" "name_ok name"
    and n: "1 \<le> n" "n < MAX_INODES" and l: "l + 44 \<le> 2097152"
  shows "\<exists>s'. boot_device env name maj d s = Some s' \<and>
    boot_inv (n + 1) (K(d \<mapsto> (T_DIR, mj, M(name \<mapsto> n)), n \<mapsto> (T_DEVICE, of_nat maj, Map.empty))) (C(n \<mapsto> [])) (l + 44) p s'"
  using create_boot [OF inv d name _ n l, of T_DEVICE env "of_nat maj"] by (auto simp: boot_device_def)

lemma boot_file_boot:
  assumes inv: "boot_inv n K C l (length bs div 4096 + 4 + p) s" and d: "K d = Some (T_DIR, mj, M)" and name: "M name = None" "name_ok name"
    and n: "1 \<le> n" "n < MAX_INODES" and l: "l + 44 \<le> 2097152" and bs: "length bs \<le> 2097152"
  shows "\<exists>s'. boot_file env name bs d s = Some s' \<and>
    boot_inv (n + 1) (K(d \<mapsto> (T_DIR, mj, M(name \<mapsto> n)), n \<mapsto> (T_FILE, 0, Map.empty))) (C(n \<mapsto> bs)) (l + 44) p s'"
proof -
  have u: "unat (of_nat (length bs) :: u32) = length bs" using bs by (simp add: unat_of_nat)
  have "boot_inv n K C l (2 + (length bs div 4096 + 2 + p)) s" by (rule boot_inv_mono [OF inv]) simp_all
  from create_boot [OF this d name _ n l, of T_FILE env 0] obtain s1 where
    c: "create env d name T_FILE 0 s = Some (Some n, s1)"
    and i1: "boot_inv (n + 1) (K(d \<mapsto> (T_DIR, mj, M(name \<mapsto> n)), n \<mapsto> (T_FILE, 0, Map.empty))) (C(n \<mapsto> [])) (l + 44) (length bs div 4096 + 2 + p) s1"
    by auto
  have f: "(C(n \<mapsto> [])) n = Some []" by simp
  have i1': "boot_inv (n + 1) (K(d \<mapsto> (T_DIR, mj, M(name \<mapsto> n)), n \<mapsto> (T_FILE, 0, Map.empty))) (C(n \<mapsto> [])) (l + 44)
      (unat (of_nat (length bs) :: u32) div 4096 + 2 + p) s1" using i1 by (simp add: u)
  from write_boot [OF i1' f, of bs] c u bs show ?thesis by (fastforce simp: boot_file_def)
qed

lemma dot_names: "name_ok dot" "name_ok dotdot" "dot \<noteq> dotdot"
  by (simp_all add: dot_def dotdot_def name_ok_def)

lemma boot_dir_boot:
  assumes inv: "boot_inv n K C l (6 + p) s" and d: "K ROOTINO = Some (T_DIR, mj, M)" and name: "M name = None" "name_ok name"
    and n: "1 \<le> n" "n < MAX_INODES" "K n = None" and l: "l + 132 \<le> 2097152"
  shows "\<exists>s'. boot_dir env name f s = f n s' \<and>
    boot_inv (n + 1) (K(ROOTINO \<mapsto> (T_DIR, mj, M(name \<mapsto> n)), n \<mapsto> (T_DIR, 0, [dot \<mapsto> n, dotdot \<mapsto> ROOTINO]))) C (l + 132) p s'"
proof -
  define K1 where "K1 = K(ROOTINO \<mapsto> (T_DIR, mj, M(name \<mapsto> n)), n \<mapsto> (T_DIR, 0, Map.empty))"
  have nr: "n \<noteq> ROOTINO" using d n(3) by auto
  have "boot_inv n K C l (2 + (2 + (2 + p))) s" by (rule boot_inv_mono [OF inv]) simp_all
  from create_boot [OF this d name _ n(1,2), of T_DIR env 0] l obtain s1 where
    c: "create env ROOTINO name T_DIR 0 s = Some (Some n, s1)" and i0: "boot_inv (n + 1) K1 C (l + 44) (2 + (2 + p)) s1"
    unfolding K1_def by auto
  then have i1: "boot_inv (n + 1) K1 C (l + 44) (2 + (2 + p)) (set_nlink n (\<lambda>_. 2) s1)" by simp
  have k1: "K1 n = Some (T_DIR, 0, Map.empty)" "K1 n \<noteq> None" by (simp_all add: K1_def)
  have num: "inum (inode_table (set_nlink n (\<lambda>_. 2) s1) n) = n" by (rule boot_inv_used(4) [OF i1 k1(2)])
  obtain s2 where a: "dirlink env n dot n (set_nlink n (\<lambda>_. 2) s1) = Some (0, s2)"
    and i2: "boot_inv (n + 1) (K1(n \<mapsto> (T_DIR, 0, [dot \<mapsto> n]))) C (l + 88) (2 + p) s2"
    using dirlink_boot [OF i1 k1(1) _ dot_names(1) k1(2), of env] l by (auto simp: ac_simps)
  have k2: "(K1(n \<mapsto> (T_DIR, 0, [dot \<mapsto> n]))) n = Some (T_DIR, 0, [dot \<mapsto> n])" "(K1(n \<mapsto> (T_DIR, 0, [dot \<mapsto> n]))) ROOTINO \<noteq> None"
    using nr by (simp_all add: K1_def)
  obtain s3 where b: "dirlink env n dotdot ROOTINO s2 = Some (0, s3)"
    and i3: "boot_inv (n + 1) (K1(n \<mapsto> (T_DIR, 0, [dot \<mapsto> n, dotdot \<mapsto> ROOTINO]))) C (l + 132) p s3"
    using dirlink_boot [OF i2 k2(1) _ dot_names(2) k2(2), of env, unfolded fun_upd_upd] l dot_names(3) by (auto simp: ac_simps)
  have "K1(n \<mapsto> (T_DIR, 0, [dot \<mapsto> n, dotdot \<mapsto> ROOTINO])) =
      K(ROOTINO \<mapsto> (T_DIR, mj, M(name \<mapsto> n)), n \<mapsto> (T_DIR, 0, [dot \<mapsto> n, dotdot \<mapsto> ROOTINO]))" by (simp add: K1_def)
  then show ?thesis using a b c i3 num by (auto simp: boot_dir_def Let_def intro!: exI [of _ "set_nlink ROOTINO (\<lambda>n. n + 1) s3"])
qed

section \<open>The programs\<close>

text \<open>
  From here on names may clash and tables may fill up, which the code takes as it comes: what was there before stays, and at least \<open>p\<close>
  pages are free.
\<close>

definition late_inv :: "skeleton \<Rightarrow> nat \<Rightarrow> memfs \<Rightarrow> bool" where
  "late_inv K p s \<longleftrightarrow> img_ok s \<and> p \<le> card (free_pages (frames (mach s))) \<and>
     (\<forall>i t mj M. K i = Some (t, mj, M) \<longrightarrow> (\<exists>M'. skel s i = Some (t, mj, M') \<and> M \<subseteq>\<^sub>m M'))"

lemma late_invD:
  assumes "late_inv K p s"
  shows "img_ok s" "p \<le> card (free_pages (frames (mach s)))" "K i = Some (t, mj, M) \<Longrightarrow> \<exists>M'. skel s i = Some (t, mj, M') \<and> M \<subseteq>\<^sub>m M'"
  using assms by (auto simp: late_inv_def)

lemma late_inv_nlink [simp]: "late_inv K p (set_nlink i f s) = late_inv K p s"
  by (simp add: late_inv_def)

lemma late_inv_mono: "late_inv K p s \<Longrightarrow> p' \<le> p \<Longrightarrow> late_inv K p' s"
  by (auto simp: late_inv_def)

lemma boot_inv_late: "boot_inv n K C l p s \<Longrightarrow> late_inv K p s"
  by (simp add: boot_inv_def late_inv_def)

lemma late_dir:
  assumes "late_inv K p s" and "K d = Some (T_DIR, mj, M)"
  shows "d < MAX_INODES" "itype (inode_table s d) = T_DIR"
  using late_invD(3) [OF assms] by (auto simp: skel_Some)

lemma late_used:
  assumes "late_inv K p s" and "K i = Some (t, mj, M)"
  shows "i < MAX_INODES" "itype (inode_table s i) \<noteq> 0" "itype (inode_table s i) = t"
  using late_invD(3) [OF assms] by (auto simp: skel_Some)

text \<open>An operation that only adds to the tree keeps the invariant.\<close>

lemma late_grow:
  assumes "late_inv K p s" and "img_ok s'" and "q \<le> card (free_pages (frames (mach s')))"
    and "\<And>i t mj M. skel s i = Some (t, mj, M) \<Longrightarrow> \<exists>M'. skel s' i = Some (t, mj, M') \<and> M \<subseteq>\<^sub>m M'"
  shows "late_inv K q s'"
  unfolding late_inv_def
proof (intro conjI allI impI)
  fix i t mj M assume "K i = Some (t, mj, M)"
  from late_invD(3) [OF assms(1) this] obtain M1 where "skel s i = Some (t, mj, M1)" "M \<subseteq>\<^sub>m M1" by blast
  with assms(4) show "\<exists>M'. skel s' i = Some (t, mj, M') \<and> M \<subseteq>\<^sub>m M'" by (meson map_le_trans)
qed (use assms in auto)

lemma create_late:
  assumes inv: "late_inv K (2 + p) s" and d: "K d = Some (T_DIR, mj, M)" and name: "name_ok name" and ty: "ty \<noteq> 0"
  shows "\<exists>r s'. create env d name ty maj s = Some (r, s') \<and> late_inv K p s' \<and>
    (\<forall>n. r = Some n \<longrightarrow> n \<noteq> 0 \<and> K n = None \<and> late_inv (K(n \<mapsto> (ty, maj, Map.empty))) p s')"
proof -
  note D = late_invD [OF inv] and dd = late_dir [OF inv d]
  obtain r s' where run: "create env d name ty maj s = Some (r, s')" and p: "p \<le> card (free_pages (frames (mach s')))"
    using create_spares [OF D(1) dd name D(2)] by blast
  note S = create_step [OF D(1) dd name ty run]
  have grow: "\<exists>M'. skel s' i = Some (t, mj, M') \<and> M \<subseteq>\<^sub>m M'" if "skel s i = Some (t, mj, M)" for i t mj M
  proof (cases r)
    case (Some n)
    then have n: "skel s n = None" "dir_map s d name = None"
      and sk: "skel s' = (skel s)(d \<mapsto> (T_DIR, major (inode_table s d), (dir_map s d)(name \<mapsto> n)), n \<mapsto> (ty, maj, Map.empty))"
      using S by (auto simp: skel_def)
    have "i \<noteq> n" "d \<noteq> n" using that n(1) S Some by auto
    moreover have "t = T_DIR \<and> mj = major (inode_table s d) \<and> M = dir_map s d" if "i = d"
      using \<open>skel s i = Some (t, mj, M)\<close> that dd by (auto simp: skel_Some)
    ultimately show ?thesis using that n(2) unfolding sk by (cases "i = d") (auto simp: map_le_def)
  qed (use S that in simp)
  have late: "late_inv K p s'" by (rule late_grow [OF inv _ p grow]) (use S in blast)+
  have "n \<noteq> 0 \<and> K n = None \<and> late_inv (K(n \<mapsto> (ty, maj, Map.empty))) p s'" if "r = Some n" for n
  proof -
    have "n \<noteq> 0" "itype (inode_table s n) = 0" "skel s' n = Some (ty, maj, Map.empty)" using S that by auto
    moreover have "K n = None" using \<open>itype (inode_table s n) = 0\<close> late_used(2) [OF inv, of n] by (cases "K n") auto
    ultimately show ?thesis using late unfolding late_inv_def by auto
  qed
  with run late show ?thesis by blast
qed

lemma dirlink_late:
  assumes inv: "late_inv K (2 + p) s" and d: "K d = Some (T_DIR, mj, M)" and name: "name_ok name" and i: "K i = Some x" "i \<noteq> 0"
  shows "\<exists>r s'. dirlink env d name (inum (inode_table s i)) s = Some (r, s') \<and> late_inv K p s'"
proof -
  note D = late_invD [OF inv] and dd = late_dir [OF inv d]
  obtain t mi Mi where x: "x = (t, mi, Mi)" by (cases x)
  note ii = late_used [OF inv i(1) [unfolded x]]
  have num: "inum (inode_table s i) = i" using img_okD(3) [OF D(1) ii(1,2)] .
  obtain r s' where run: "dirlink env d name i s = Some (r, s')" and p: "p \<le> card (free_pages (frames (mach s')))"
    using dirlink_spares [OF img_okD(1) [OF D(1)] dd(1) img_okD(4) [OF D(1) dd] name D(2)] by blast
  note S = dirlink_step [OF D(1) dd name i(2) ii(1,2) run]
  have "\<exists>M'. skel s' j = Some (t, mj, M') \<and> M \<subseteq>\<^sub>m M'" if "skel s j = Some (t, mj, M)" for j t mj M
  proof (cases "j = d")
    case True
    then show ?thesis using that S dd by (auto simp: skel_Some map_le_def)
  next
    case False
    then show ?thesis using that S same_but_skel [of "{d}" s s' j] by auto
  qed
  from late_grow [OF inv _ p this] S run num show ?thesis by auto
qed

lemma write_late:
  assumes inv: "late_inv K (unat k div 4096 + 2 + p) s" and f: "K f = Some (T_FILE, mj, M)" and k: "unat k \<le> length src"
  shows "\<exists>r s'. writei f src 0 k s = Some (r, s') \<and> late_inv K p s'"
proof -
  note D = late_invD [OF inv] and ff = late_used [OF inv f]
  have "unat (0 :: u32) + unat k < 2 ^ 32" using unat_u32_le [of k] by simp
  then obtain r s' where run: "writei f src 0 k s = Some (r, s')" and p: "p \<le> card (free_pages (frames (mach s')))"
    using writei_spares [OF img_okD(1) [OF D(1)] ff(1) _ k D(2)] by blast
  have S: "img_ok s'" "skel s' = skel s" using writei_step [OF D(1) ff(1) _ k run] ff(3) by auto
  have "late_inv K p s'" by (rule late_grow [OF inv S(1) p]) (simp add: S(2))
  with run show ?thesis by blast
qed

text \<open>Pages that suffice for the programs.\<close>

definition program_pages :: "(u8 list \<times> u8 list) list \<Rightarrow> nat" where
  "program_pages progs = (\<Sum>(name, img) \<leftarrow> progs. 4 + length img div 4096)"

lemma clip_size:
  assumes "length (img :: u8 list) < 2 ^ 32"
  shows "unat (if of_nat (length img) > MAXFILE then MAXFILE else of_nat (length img) :: u32) \<le> length img"
  using assms by (auto simp: unat_of_nat word_less_nat_alt)

lemma install_programs_late:
  assumes "late_inv K (program_pages progs + p) s" and "K bin = Some (T_DIR, mj, M)"
    and "\<forall>(name, img) \<in> set progs. name_ok name \<and> length img < 2 ^ 32"
    and "\<forall>t. toybox = Some t \<longrightarrow> t \<noteq> 0 \<and> (\<exists>mj M. K t = Some (T_FILE, mj, M))"
  shows "\<exists>t s' K'. install_programs env bin progs toybox s = Some (t, s') \<and> late_inv K' p s' \<and> (\<forall>i x. K i = Some x \<longrightarrow> K' i = Some x) \<and>
    (\<forall>i. t = Some i \<longrightarrow> i \<noteq> 0 \<and> (\<exists>x. K' i = Some x))"
  using assms
proof (induction progs arbitrary: K s toybox)
  case Nil
  then show ?case by (intro exI [of _ toybox] exI [of _ s] exI [of _ K]) (auto simp: program_pages_def)
next
  case (Cons pr progs)
  obtain name img where pr: "pr = (name, img)" by (cases pr)
  have P: "program_pages (pr # progs) = 2 + (length img div 4096 + 2 + program_pages progs)" by (simp add: program_pages_def pr)
  have ok: "name_ok name" "length img < 2 ^ 32" "\<forall>(name, img) \<in> set progs. name_ok name \<and> length img < 2 ^ 32" using Cons.prems(3) by (auto simp: pr)
  define sz :: u32 where "sz = of_nat (length img)"
  define k where "k = (if sz > MAXFILE then MAXFILE else sz)"
  have k: "unat k \<le> length img" unfolding k_def sz_def by (rule clip_size [OF ok(2)])
  have inv: "late_inv K (2 + (length img div 4096 + 2 + program_pages progs + p)) s" using Cons.prems(1) by (simp add: P ac_simps)
  from create_late [OF this Cons.prems(2) ok(1) T_types(2), of env 0] obtain r s1 where
    c: "create env bin name T_FILE 0 s = Some (r, s1)" and l1: "late_inv K (length img div 4096 + 2 + program_pages progs + p) s1"
    and new: "\<And>n. r = Some n \<Longrightarrow> n \<noteq> 0 \<and> K n = None \<and>
      late_inv (K(n \<mapsto> (T_FILE, 0, Map.empty))) (length img div 4096 + 2 + program_pages progs + p) s1" by blast
  show ?case
  proof (cases "\<exists>f. r = Some f \<and> sz \<noteq> 0")
    case False
    then have "install_programs env bin (pr # progs) toybox s = install_programs env bin progs toybox s1"
      using c by (auto simp: pr sz_def split: option.splits)
    then show ?thesis using Cons.IH [OF late_inv_mono [OF l1] Cons.prems(2) ok(3) Cons.prems(4)] by simp
  next
    case True
    then obtain f where f: "r = Some f" "sz \<noteq> 0" by blast
    define K1 where "K1 = K(f \<mapsto> (T_FILE, 0, Map.empty))"
    have n: "f \<noteq> 0" "K f = None" "late_inv K1 (length img div 4096 + 2 + program_pages progs + p) s1" using new [OF f(1)] by (simp_all add: K1_def)
    have ext: "K i = Some x \<Longrightarrow> K1 i = Some x" for i x using n(2) by (auto simp: K1_def)
    have "late_inv K1 (unat k div 4096 + 2 + (program_pages progs + p)) s1"
      by (rule late_inv_mono [OF n(3)]) (use div_le_mono [OF k, of 4096] in simp)
    moreover have "K1 f = Some (T_FILE, 0, Map.empty)" by (simp add: K1_def)
    ultimately obtain q s2 where w: "writei f img 0 k s1 = Some (q, s2)" and l2: "late_inv K1 (program_pages progs + p) s2"
      using write_late [OF _ _ k] by blast
    have run: "install_programs env bin (pr # progs) toybox s = install_programs env bin progs (if name = toybox_name then Some f else toybox) s2"
      using c f w unfolding k_def sz_def by (simp add: pr Let_def)
    have tb: "\<forall>t. (if name = toybox_name then Some f else toybox) = Some t \<longrightarrow> t \<noteq> 0 \<and> (\<exists>mj M. K1 t = Some (T_FILE, mj, M))"
      using Cons.prems(4) n(1) ext by (auto simp: K1_def)
    from Cons.IH [OF l2 ext [OF Cons.prems(2)] ok(3) tb] show ?thesis unfolding run using ext by blast
  qed
qed

lemma link_applets_late:
  assumes "late_inv K (2 * length ns + p) s" and "K bin = Some (T_DIR, mj, M)" and "\<forall>name \<in> set ns. name_ok name" and "K t = Some x" "t \<noteq> 0"
  shows "\<exists>s'. link_applets env bin t ns s = Some s' \<and> late_inv K p s'"
  using assms
proof (induction ns arbitrary: s)
  case (Cons name ns)
  have "late_inv K (2 + (2 * length ns + p)) s" using Cons.prems(1) by simp
  from dirlink_late [OF this Cons.prems(2) _ Cons.prems(4,5), of name env] Cons.prems(3) obtain r s1 where
    "dirlink env bin name (inum (inode_table s t)) s = Some (r, s1)" "late_inv K (2 * length ns + p) s1" by auto
  then show ?case using Cons.IH [of "if r = 0 then set_nlink t (\<lambda>n. n + 1) s1 else s1"] Cons.prems by auto
qed simp

lemma fill_bin_late:
  assumes "late_inv K (program_pages progs + 2 * length applets) s" and bin: "K bin = Some (T_DIR, mj, M)"
    and "\<forall>(name, img) \<in> set progs. name_ok name \<and> length img < 2 ^ 32" and names: "\<forall>name \<in> set applets. name_ok name"
  shows "\<exists>s'. fill_bin env progs applets bin s = Some s' \<and> late_inv K 0 s'"
proof -
  obtain t s1 K1 where run: "install_programs env bin progs None s = Some (t, s1)" and l1: "late_inv K1 (2 * length applets + 0) s1"
    and ext: "\<And>i x. K i = Some x \<Longrightarrow> K1 i = Some x" and t: "\<And>i. t = Some i \<Longrightarrow> i \<noteq> 0 \<and> (\<exists>x. K1 i = Some x)"
    using install_programs_late [where p = "2 * length applets" and toybox = None and env = env, OF assms(1-3)] by auto
  have weak: "late_inv K1 p s' \<Longrightarrow> late_inv K p s'" for p s' unfolding late_inv_def using ext by blast
  show ?thesis
  proof (cases t)
    case None
    then show ?thesis using run late_inv_mono [OF weak [OF l1], of 0] by (simp add: fill_bin_def)
  next
    case (Some i)
    then obtain x where "K1 i = Some x" "i \<noteq> 0" using t by blast
    from link_applets_late [OF l1 ext [OF bin] names this, of env] run Some weak show ?thesis by (auto simp: fill_bin_def)
  qed
qed

section \<open>The whole tree\<close>

lemmas boot_names = dev_name_def console_name_def tty_name_def null_name_def etc_name_def passwd_name_def group_name_def hello_name_def
  host_name_def bin_name_def dot_def dotdot_def bytes_of_def

lemma boot_names_ok [simp]:
  "name_ok dev_name" "name_ok console_name" "name_ok tty_name" "name_ok null_name" "name_ok etc_name" "name_ok passwd_name"
  "name_ok group_name" "name_ok hello_name" "name_ok host_name" "name_ok bin_name"
  by (simp_all add: boot_names name_ok_def of_char_def)

lemma boot_names_differ [simp]:
  "console_name \<noteq> dot" "console_name \<noteq> dotdot" "tty_name \<noteq> dot" "tty_name \<noteq> dotdot" "tty_name \<noteq> console_name"
  "null_name \<noteq> dot" "null_name \<noteq> dotdot" "null_name \<noteq> console_name" "null_name \<noteq> tty_name"
  "passwd_name \<noteq> dot" "passwd_name \<noteq> dotdot" "group_name \<noteq> dot" "group_name \<noteq> dotdot" "group_name \<noteq> passwd_name"
  "dev_name \<noteq> dot" "dev_name \<noteq> dotdot" "etc_name \<noteq> dot" "etc_name \<noteq> dotdot" "etc_name \<noteq> dev_name"
  "hello_name \<noteq> dot" "hello_name \<noteq> dotdot" "hello_name \<noteq> dev_name" "hello_name \<noteq> etc_name"
  "host_name \<noteq> dot" "host_name \<noteq> dotdot" "host_name \<noteq> dev_name" "host_name \<noteq> etc_name" "host_name \<noteq> hello_name"
  "bin_name \<noteq> dot" "bin_name \<noteq> dotdot" "bin_name \<noteq> dev_name" "bin_name \<noteq> etc_name" "bin_name \<noteq> hello_name" "bin_name \<noteq> host_name"
  by (simp_all add: boot_names of_char_def)

lemmas boot_names_differ_sym [simp] = boot_names_differ [symmetric]

definition passwd_text :: "u8 list" where "passwd_text = bytes_of ''root:x:0:0:root:/:/bin/sh'' @ [10]"
definition group_text :: "u8 list" where "group_text = bytes_of ''root:x:0:'' @ [10]"
definition hello_text :: "u8 list" where "hello_text = bytes_of ''Hello from the muxOS memfs!'' @ [10]"

lemma boot_texts: "length passwd_text = 26" "length group_text = 10" "length hello_text = 28"
  by (simp_all add: passwd_text_def group_text_def hello_text_def bytes_of_def)

definition dev_tree :: "skeleton \<Rightarrow> skeleton" where
  "dev_tree K = K(2 \<mapsto> (T_DIR, 0, [dot \<mapsto> 2, dotdot \<mapsto> 1, console_name \<mapsto> 3, tty_name \<mapsto> 4, null_name \<mapsto> 5]),
     3 \<mapsto> (T_DEVICE, of_nat CONSOLE_MAJOR, Map.empty), 4 \<mapsto> (T_DEVICE, of_nat CONSOLE_MAJOR, Map.empty),
     5 \<mapsto> (T_DEVICE, of_nat NULL_MAJOR, Map.empty))"

definition etc_tree :: "skeleton \<Rightarrow> skeleton" where
  "etc_tree K = K(6 \<mapsto> (T_DIR, 0, [dot \<mapsto> 6, dotdot \<mapsto> 1, passwd_name \<mapsto> 7, group_name \<mapsto> 8]),
     7 \<mapsto> (T_FILE, 0, Map.empty), 8 \<mapsto> (T_FILE, 0, Map.empty))"

lemma fill_dev_boot:
  assumes inv: "boot_inv 3 (K(2 \<mapsto> (T_DIR, 0, [dot \<mapsto> 2, dotdot \<mapsto> 1]))) C l (6 + p) s" and l: "l + 132 \<le> 2097152"
  shows "\<exists>s'. fill_dev env 2 s = Some s' \<and> boot_inv 6 (dev_tree K) (C(3 \<mapsto> [], 4 \<mapsto> [], 5 \<mapsto> [])) (132 + l) p s'"
proof -
  have "boot_inv 3 (K(2 \<mapsto> (T_DIR, 0, [dot \<mapsto> 2, dotdot \<mapsto> 1]))) C l (2 + (2 + (2 + p))) s" by (rule boot_inv_mono [OF inv]) simp_all
  from boot_device_boot [OF this, of 2 0 "[dot \<mapsto> 2, dotdot \<mapsto> 1]" console_name env CONSOLE_MAJOR] l obtain s1 where
    a: "boot_device env console_name CONSOLE_MAJOR 2 s = Some s1" and
    i1: "boot_inv 4 (K(2 \<mapsto> (T_DIR, 0, [dot \<mapsto> 2, dotdot \<mapsto> 1, console_name \<mapsto> 3]), 3 \<mapsto> (T_DEVICE, of_nat CONSOLE_MAJOR, Map.empty)))
      (C(3 \<mapsto> [])) (l + 44) (2 + (2 + p)) s1"
    by (auto simp: MAX_INODES_def)
  from boot_device_boot [OF i1, of 2 0 "[dot \<mapsto> 2, dotdot \<mapsto> 1, console_name \<mapsto> 3]" tty_name env CONSOLE_MAJOR] l obtain s2 where
    b: "boot_device env tty_name CONSOLE_MAJOR 2 s1 = Some s2" and
    i2: "boot_inv 5 (K(2 \<mapsto> (T_DIR, 0, [dot \<mapsto> 2, dotdot \<mapsto> 1, console_name \<mapsto> 3, tty_name \<mapsto> 4]), 3 \<mapsto> (T_DEVICE, of_nat CONSOLE_MAJOR, Map.empty),
      4 \<mapsto> (T_DEVICE, of_nat CONSOLE_MAJOR, Map.empty))) (C(3 \<mapsto> [], 4 \<mapsto> [])) (88 + l) (2 + p) s2"
    by (auto simp: MAX_INODES_def fun_upd_twist)
  from boot_device_boot [OF i2, of 2 0 "[dot \<mapsto> 2, dotdot \<mapsto> 1, console_name \<mapsto> 3, tty_name \<mapsto> 4]" null_name env NULL_MAJOR] l obtain s3 where
    c: "boot_device env null_name NULL_MAJOR 2 s2 = Some s3" and
    i3: "boot_inv 6 (dev_tree K) (C(3 \<mapsto> [], 4 \<mapsto> [], 5 \<mapsto> [])) (132 + l) p s3"
    by (auto simp: MAX_INODES_def dev_tree_def fun_upd_twist)
  show ?thesis using a b c i3 by (simp add: fill_dev_def)
qed

lemma fill_etc_boot:
  assumes inv: "boot_inv 7 (K(6 \<mapsto> (T_DIR, 0, [dot \<mapsto> 6, dotdot \<mapsto> 1]))) C l (8 + p) s" and l: "l + 88 \<le> 2097152"
  shows "\<exists>s'. fill_etc env 6 s = Some s' \<and> boot_inv 9 (etc_tree K) (C(7 \<mapsto> passwd_text, 8 \<mapsto> group_text)) (88 + l) p s'"
proof -
  have "boot_inv 7 (K(6 \<mapsto> (T_DIR, 0, [dot \<mapsto> 6, dotdot \<mapsto> 1]))) C l (length passwd_text div 4096 + 4 + (length group_text div 4096 + 4 + p)) s"
    by (rule boot_inv_mono [OF inv]) (simp_all add: boot_texts)
  from boot_file_boot [OF this, of 6 0 "[dot \<mapsto> 6, dotdot \<mapsto> 1]" passwd_name env] l obtain s1 where
    a: "boot_file env passwd_name passwd_text 6 s = Some s1" and
    i1: "boot_inv 8 (K(6 \<mapsto> (T_DIR, 0, [dot \<mapsto> 6, dotdot \<mapsto> 1, passwd_name \<mapsto> 7]), 7 \<mapsto> (T_FILE, 0, Map.empty))) (C(7 \<mapsto> passwd_text)) (l + 44)
      (length group_text div 4096 + 4 + p) s1"
    by (auto simp: MAX_INODES_def boot_texts)
  from boot_file_boot [OF i1, of 6 0 "[dot \<mapsto> 6, dotdot \<mapsto> 1, passwd_name \<mapsto> 7]" group_name env] l obtain s2 where
    b: "boot_file env group_name group_text 6 s1 = Some s2" and
    i2: "boot_inv 9 (etc_tree K) (C(7 \<mapsto> passwd_text, 8 \<mapsto> group_text)) (88 + l) p s2"
    by (auto simp: MAX_INODES_def boot_texts etc_tree_def fun_upd_twist)
  show ?thesis using a b i2 by (simp add: fill_etc_def passwd_text_def group_text_def)
qed

definition boot_tree :: skeleton where
  "boot_tree = (etc_tree (dev_tree
     [1 \<mapsto> (T_DIR, 0, [dot \<mapsto> 1, dotdot \<mapsto> 1, dev_name \<mapsto> 2, etc_name \<mapsto> 6, hello_name \<mapsto> 9, host_name \<mapsto> 10, bin_name \<mapsto> 11])]))
     (9 \<mapsto> (T_FILE, 0, Map.empty), 10 \<mapsto> (T_DIR, 0, Map.empty), 11 \<mapsto> (T_DIR, 0, [dot \<mapsto> 11, dotdot \<mapsto> 1]))"

definition boot_contents :: "u32 \<rightharpoonup> u8 list" where
  "boot_contents = [3 \<mapsto> [], 4 \<mapsto> [], 5 \<mapsto> [], 7 \<mapsto> passwd_text, 8 \<mapsto> group_text, 9 \<mapsto> hello_text]"

text \<open>The state the first directory is made in.\<close>

lemma root_boot:
  assumes "pmm_inv (frames (mach s))" and "p \<le> card (free_pages (frames (mach s)))"
  shows "boot_inv 2 [1 \<mapsto> (T_DIR, 0, Map.empty)] Map.empty 0 p (s\<lparr>inode_table := (\<lambda>_. empty_inode)(ROOTINO := root_inode)\<rparr>)"
proof -
  define s0 where "s0 = s\<lparr>inode_table := (\<lambda>_. empty_inode)(ROOTINO := root_inode)\<rparr>"
  have tab: "inode_table s0 j = (if j = 1 then root_inode else empty_inode)" for j by (simp add: s0_def ROOTINO_def)
  have c: "contents s0 j = []" for j by (simp add: contents_def tab root_inode_def empty_inode_def)
  have dm: "dir_map s0 j = Map.empty" for j by (simp add: dir_map_def c entries_def)
  have ty: "itype (inode_table s0 j) = (if j = 1 then T_DIR else 0)" for j by (simp add: tab root_inode_def empty_inode_def)
  have num: "inum (inode_table s0 1) = 1" by (simp add: tab root_inode_def ROOTINO_def)
  have maj: "major (inode_table s0 1) = 0" by (simp add: tab root_inode_def empty_inode_def)
  have wf: "fs_wf s0" using assms(1) by (simp add: fs_wf_def tab root_inode_def empty_inode_def s0_def)
  have dw: "dir_wf s0 1" by (simp add: dir_wf_def c entries_def tab root_inode_def empty_inode_def)
  have sk: "skel s0 = [1 \<mapsto> (T_DIR, 0, Map.empty)]"
    by (rule ext) (simp add: skel_def ty dm maj MAX_INODES_def)
  have "img_ok s0" using wf dw num by (simp add: img_ok_def ty dm ROOTINO_def)
  moreover have "1 \<le> j \<and> j < 2 \<longleftrightarrow> j = 1" for j :: u32
  proof
    assume "1 \<le> j \<and> j < 2"
    then have "unat j = 1" by (simp add: word_less_nat_alt word_le_nat_alt)
    then show "j = 1" by (simp add: word_unat_eq_iff)
  qed simp
  moreover have "mach s0 = mach s" by (simp add: s0_def)
  ultimately show ?thesis using sk assms(2) c unfolding s0_def [symmetric] by (simp add: boot_inv_def stored_def)
qed

lemma tree_root: "(dev_tree K)(1 \<mapsto> x) = dev_tree (K(1 \<mapsto> x))" "(etc_tree K)(1 \<mapsto> x) = etc_tree (K(1 \<mapsto> x))"
  "dev_tree K 1 = K 1" "etc_tree K 1 = K 1" "dev_tree K 6 = K 6" "7 \<le> j \<Longrightarrow> dev_tree K j = K j" "9 \<le> j \<Longrightarrow> etc_tree K j = K j"
  by (auto simp: dev_tree_def etc_tree_def fun_upd_twist)

text \<open>Everything up to the programs.\<close>

lemma fs_tree_boot:
  assumes mem: "pmm_inv (frames (mach s))" "42 + p \<le> card (free_pages (frames (mach s)))"
  shows "\<exists>s'. fs_tree env progs applets s = fill_bin env progs applets 11 s' \<and> boot_inv 12 boot_tree boot_contents 792 p s'"
proof -
  define s0 where "s0 = s\<lparr>inode_table := (\<lambda>_. empty_inode)(ROOTINO := root_inode)\<rparr>"
  have r: "ROOTINO = 1" by (simp add: ROOTINO_def)
  have "boot_inv 2 [1 \<mapsto> (T_DIR, 0, Map.empty)] Map.empty 0 (2 + (40 + p)) s0"
    unfolding s0_def by (rule root_boot) (use mem in simp_all)
  from dirlink_boot [OF this, of 1 0 Map.empty dot 1 env] dot_names obtain s1 where
    a: "dirlink env 1 dot 1 s0 = Some (0, s1)" and i1: "boot_inv 2 [1 \<mapsto> (T_DIR, 0, [dot \<mapsto> 1])] Map.empty 44 (2 + (38 + p)) s1"
    by (auto simp: boot_inv_mono)
  from dirlink_boot [OF i1, of 1 0 "[dot \<mapsto> 1]" dotdot 1 env] dot_names obtain s2 where
    b: "dirlink env 1 dotdot 1 s1 = Some (0, s2)" and
    i2: "boot_inv 2 [1 \<mapsto> (T_DIR, 0, [dot \<mapsto> 1, dotdot \<mapsto> 1])] Map.empty 88 (6 + (6 + (26 + p))) s2"
    by (auto simp: boot_inv_mono)
  from boot_dir_boot [OF i2, of 0 "[dot \<mapsto> 1, dotdot \<mapsto> 1]" dev_name env "fill_dev env"] obtain s3 where
    c: "boot_dir env dev_name (fill_dev env) s2 = fill_dev env 2 s3" and
    i3: "boot_inv 3 ([1 \<mapsto> (T_DIR, 0, [dot \<mapsto> 1, dotdot \<mapsto> 1, dev_name \<mapsto> 2])] (2 \<mapsto> (T_DIR, 0, [dot \<mapsto> 2, dotdot \<mapsto> 1]))) Map.empty 220 (6 + (26 + p)) s3"
    by (auto simp: r MAX_INODES_def)
  from fill_dev_boot [OF i3, of env] obtain s4 where d: "fill_dev env 2 s3 = Some s4" and
    i4: "boot_inv 6 (dev_tree [1 \<mapsto> (T_DIR, 0, [dot \<mapsto> 1, dotdot \<mapsto> 1, dev_name \<mapsto> 2])]) [3 \<mapsto> [], 4 \<mapsto> [], 5 \<mapsto> []] 352 (6 + (8 + (12 + p))) s4"
    by (auto simp: boot_inv_mono)
  define D where "D = dev_tree [1 \<mapsto> (T_DIR, 0, [dot \<mapsto> 1, dotdot \<mapsto> 1, dev_name \<mapsto> 2, etc_name \<mapsto> 6])]"
  from boot_dir_boot [OF i4, of 0 "[dot \<mapsto> 1, dotdot \<mapsto> 1, dev_name \<mapsto> 2]" etc_name env "fill_etc env"] obtain s5 where
    e: "boot_dir env etc_name (fill_etc env) s4 = fill_etc env 6 s5" and
    i5: "boot_inv 7 (D(6 \<mapsto> (T_DIR, 0, [dot \<mapsto> 6, dotdot \<mapsto> 1]))) [3 \<mapsto> [], 4 \<mapsto> [], 5 \<mapsto> []] 484 (8 + (12 + p)) s5"
    by (auto simp: r MAX_INODES_def tree_root D_def)
  from fill_etc_boot [OF i5, of env] obtain s6 where f: "fill_etc env 6 s5 = Some s6" and
    i6: "boot_inv 9 (etc_tree D) [3 \<mapsto> [], 4 \<mapsto> [], 5 \<mapsto> [], 7 \<mapsto> passwd_text, 8 \<mapsto> group_text] 572 (length hello_text div 4096 + 4 + (2 + (6 + p))) s6"
    by (auto simp: boot_texts)
  define H where "H = dev_tree [1 \<mapsto> (T_DIR, 0, [dot \<mapsto> 1, dotdot \<mapsto> 1, dev_name \<mapsto> 2, etc_name \<mapsto> 6, hello_name \<mapsto> 9])]"
  from boot_file_boot [OF i6, of 1 0 "[dot \<mapsto> 1, dotdot \<mapsto> 1, dev_name \<mapsto> 2, etc_name \<mapsto> 6]" hello_name env] obtain s7 where
    g: "boot_file env hello_name hello_text 1 s6 = Some s7" and
    i7: "boot_inv 10 ((etc_tree H)(9 \<mapsto> (T_FILE, 0, Map.empty))) boot_contents 616 (2 + (6 + p)) s7"
    by (auto simp: r MAX_INODES_def tree_root D_def H_def boot_texts boot_contents_def)
  define R where "R = dev_tree [1 \<mapsto> (T_DIR, 0, [dot \<mapsto> 1, dotdot \<mapsto> 1, dev_name \<mapsto> 2, etc_name \<mapsto> 6, hello_name \<mapsto> 9, host_name \<mapsto> 10])]"
  from create_boot [OF i7, of 1 0 "[dot \<mapsto> 1, dotdot \<mapsto> 1, dev_name \<mapsto> 2, etc_name \<mapsto> 6, hello_name \<mapsto> 9]" host_name T_DIR env 0] obtain s8 where
    h: "create env 1 host_name T_DIR 0 s7 = Some (Some 10, s8)" and
    i8: "boot_inv 11 ((etc_tree R)(9 \<mapsto> (T_FILE, 0, Map.empty), 10 \<mapsto> (T_DIR, 0, Map.empty))) boot_contents 660 (6 + p) (set_nlink 10 (\<lambda>_. 2) s8)"
    by (auto simp: r MAX_INODES_def tree_root H_def R_def fun_upd_twist [of 9 1])
  from boot_dir_boot [OF i8, of 0 "[dot \<mapsto> 1, dotdot \<mapsto> 1, dev_name \<mapsto> 2, etc_name \<mapsto> 6, hello_name \<mapsto> 9, host_name \<mapsto> 10]" bin_name env
      "fill_bin env progs applets"] obtain s9 where
    k: "boot_dir env bin_name (fill_bin env progs applets) (set_nlink 10 (\<lambda>_. 2) s8) = fill_bin env progs applets 11 s9" and
    i9: "boot_inv 12 boot_tree boot_contents 792 p s9"
    by (auto simp: r MAX_INODES_def tree_root R_def boot_tree_def fun_upd_twist [of 9 1] fun_upd_twist [of 10 1])
  show ?thesis using a b c d e f g h k i9 by (auto simp: fs_tree_def r s0_def hello_text_def)
qed

lemma boot_tree_bin: "boot_tree 11 = Some (T_DIR, 0, [dot \<mapsto> 11, dotdot \<mapsto> 1])"
  by (simp add: boot_tree_def)

lemma fs_tree_late:
  assumes "pmm_inv (frames (mach s))" "42 + program_pages progs + 2 * length applets \<le> card (free_pages (frames (mach s)))"
    and "\<forall>(name, img) \<in> set progs. name_ok name \<and> length img < 2 ^ 32" and "\<forall>name \<in> set applets. name_ok name"
  shows "\<exists>s'. fs_tree env progs applets s = Some s' \<and> late_inv boot_tree 0 s'"
proof -
  obtain s1 where run: "fs_tree env progs applets s = fill_bin env progs applets 11 s1"
    and i: "boot_inv 12 boot_tree boot_contents 792 (program_pages progs + 2 * length applets) s1"
    using fs_tree_boot [OF assms(1), where p = "program_pages progs + 2 * length applets" and env = env and progs = progs and applets = applets] assms(2)
    by auto
  from fill_bin_late [OF boot_inv_late [OF i] boot_tree_bin assms(3,4)] run show ?thesis by simp
qed

text \<open>Walking down a path of the tree.\<close>

lemma img_walk_step:
  assumes "img_ok s" "d < MAX_INODES" "itype (inode_table s d) = T_DIR" "dir_map s d c = Some i"
  shows "walk env s d (c # cs) = walk env s i cs"
proof -
  note D = img_okD [OF assms(1)]
  have i: "i \<noteq> 0" "i < MAX_INODES" "itype (inode_table s i) \<noteq> 0" using D(5) [OF assms(2-4)] by auto
  have "ibackend (inode_table s d) = INODE_MEM" using D(4) [OF assms(2,3)] by (simp add: dir_wf_def)
  then show ?thesis using assms i by (simp add: dir_view_def iget_Some)
qed

lemma namei_tree:
  assumes ok: "tree_ok (fsys v)" and cs: "\<forall>c \<in> set cs. elem_ok c \<and> name_ok c" "cs \<noteq> []" and cwd: "0 \<notin> set (fs_cwd v)"
    and w: "walk (fsenv env) (fsys v) ROOTINO cs = Inr i"
  shows "namei env (abs_path cs) v = Some (Some i, v)"
proof -
  have el: "elems (abs_path cs) = cs"
  proof -
    have "map (take 31) cs = cs" using cs(1) by (intro map_idI) (auto simp: name_ok_def)
    then show ?thesis using cs(1) components_abs_path [of cs] by (simp add: elems_def)
  qed
  have hd: "abs_path cs \<noteq> []" "hd (abs_path cs) = SLASH" using cs(2) by (cases cs; auto simp: abs_path_def render_def butlast_append)+
  have "0 \<notin> set (abs_path cs)"
  proof
    assume "0 \<in> set (abs_path cs)"
    then have "0 \<in> set (render cs)" using cs(2) by (simp add: abs_path_def in_set_butlastD)
    then show False using cs(1) by (auto simp: render_def name_ok_def SLASH_def split: if_splits)
  qed
  then have p: "path_ok None (abs_path cs) v" using cwd by (simp add: path_ok_def)
  show ?thesis using nameiat_find [OF ok p, of env] el hd w by (simp add: namei_def find_path_def walk_start_def walk_result_def)
qed

lemma namei_img:
  assumes "img_ok (fsys v)" "\<forall>c \<in> set cs. elem_ok c \<and> name_ok c" "cs \<noteq> []" "0 \<notin> set (fs_cwd v)" "walk (fsenv env) (fsys v) ROOTINO cs = Inr i"
  shows "namei env (abs_path cs) v = Some (Some i, v)"
  by (rule namei_tree [OF img_ok_tree [OF assms(1)] assms(2-5)])

lemma late_walk:
  assumes "late_inv K p s" "K d = Some (T_DIR, mj, M)" "M c = Some i"
  shows "walk env s d (c # cs) = walk env s i cs"
proof -
  obtain M' where M': "skel s d = Some (T_DIR, mj, M')" "M \<subseteq>\<^sub>m M'" using late_invD(3) [OF assms(1,2)] by blast
  then have "M' c = Some i" using assms(3) by (metis domI map_le_def)
  then have "dir_map s d c = Some i" using M'(1) by (simp add: skel_Some)
  then show ?thesis by (rule img_walk_step [OF late_invD(1) [OF assms(1)] late_dir [OF assms(1,2)]])
qed

definition boot_paths :: "(u8 list list \<times> u32 \<times> u32) list" where
  "boot_paths =
     [([dev_name], T_DIR, 0), ([dev_name, console_name], T_DEVICE, of_nat CONSOLE_MAJOR),
      ([dev_name, tty_name], T_DEVICE, of_nat CONSOLE_MAJOR), ([dev_name, null_name], T_DEVICE, of_nat NULL_MAJOR),
      ([etc_name], T_DIR, 0), ([etc_name, passwd_name], T_FILE, 0), ([etc_name, group_name], T_FILE, 0),
      ([hello_name], T_FILE, 0), ([host_name], T_DIR, 0), ([bin_name], T_DIR, 0)]"

fun tree_walk :: "skeleton \<Rightarrow> u32 \<Rightarrow> u8 list list \<Rightarrow> u32 option" where
  "tree_walk K d [] = Some d"
| "tree_walk K d (c # cs) =
     (case K d of None \<Rightarrow> None | Some (t, mj, M) \<Rightarrow> if t = T_DIR then case M c of None \<Rightarrow> None | Some i \<Rightarrow> tree_walk K i cs else None)"

lemma late_tree_walk: "late_inv K p s \<Longrightarrow> tree_walk K d cs = Some i \<Longrightarrow> walk env s d cs = Inr i"
proof (induction cs arbitrary: d)
  case (Cons c cs)
  then obtain mj M j where "K d = Some (T_DIR, mj, M)" "M c = Some j" "tree_walk K j cs = Some i"
    by (auto split: option.splits if_splits)
  then show ?case using Cons late_walk by metis
qed simp

lemma boot_paths_tree:
  "\<forall>(cs, ty, mj) \<in> set boot_paths. (\<forall>c \<in> set cs. elem_ok c \<and> name_ok c) \<and> cs \<noteq> [] \<and>
     (\<exists>i M. tree_walk boot_tree ROOTINO cs = Some i \<and> boot_tree i = Some (ty, mj, M))"
proof -
  have e: "elem_ok dev_name" "elem_ok console_name" "elem_ok tty_name" "elem_ok null_name" "elem_ok etc_name" "elem_ok passwd_name"
    "elem_ok group_name" "elem_ok hello_name" "elem_ok host_name" "elem_ok bin_name"
    by (simp_all add: boot_names elem_ok_def SLASH_def of_char_def)
  show ?thesis by (simp add: boot_paths_def e ROOTINO_def boot_tree_def etc_tree_def dev_tree_def)
qed

definition no_dangling :: "memfs \<Rightarrow> bool" where
  "no_dangling s \<longleftrightarrow> (\<forall>d < MAX_INODES. itype (inode_table s d) = T_DIR \<longrightarrow> (\<forall>name i. dir_map s d name = Some i \<longrightarrow> iget i s = Some i))"

lemma img_ok_no_dangling: "img_ok s \<Longrightarrow> no_dangling s"
  unfolding no_dangling_def using img_okD(5) iget_Some by metis

text \<open>
  (C12) The boot image is well formed: with enough free pages, \<open>fs_init\<close> returns for every table of programs and applets, even one whose names
  clash or that overflows the inode table; every name of every directory leads to an inode in use, each inode has its own number, no
  two inodes share a page (\<open>tree_ok\<close>), no file is open, and \<open>/dev/console\<close>, \<open>/dev/tty\<close>, \<open>/dev/null\<close>, \<open>/etc/passwd\<close>,
  \<open>/etc/group\<close>, \<open>/hello\<close>, \<open>/root\<close> and \<open>/bin\<close> are found under their paths with the type and the driver they should have.
\<close>

theorem fs_init_well_formed:
  assumes mem: "pmm_inv (frames (mach (fsys v)))"
      "42 + program_pages progs + 2 * length applets \<le> card (free_pages (frames (mach (fsys v))))"
    and names: "\<forall>(name, img) \<in> set progs. name_ok name \<and> length img < 2 ^ 32" "\<forall>name \<in> set applets. name_ok name"
    and cwd: "0 \<notin> set (fs_cwd v)"
  shows "\<exists>v'. fs_init env progs applets v = Some v' \<and> tree_ok (fsys v') \<and> no_dangling (fsys v') \<and> ftable v' = (\<lambda>_. zero_file) \<and>
    (\<forall>(cs, ty, mj) \<in> set boot_paths. \<exists>i. namei env (abs_path cs) v' = Some (Some i, v') \<and>
       itype (inode_table (fsys v') i) = ty \<and> major (inode_table (fsys v') i) = mj)"
proof -
  obtain s' where run: "fs_tree (fsenv env) progs applets (fsys v) = Some s'" and late: "late_inv boot_tree 0 s'"
    using fs_tree_late [OF mem names] by blast
  define v' where "v' = (fileinit v)\<lparr>fsys := s'\<rparr>"
  have v': "fsys v' = s'" "fs_cwd v' = fs_cwd v" "ftable v' = (\<lambda>_. zero_file)" by (simp_all add: v'_def fileinit_def)
  have "fs_init env progs applets v = Some v'" using run by (simp add: fs_init_def v'_def fileinit_def)
  moreover have "\<exists>i. namei env (abs_path cs) v' = Some (Some i, v') \<and> itype (inode_table s' i) = ty \<and> major (inode_table s' i) = mj"
    if path: "(cs, ty, mj) \<in> set boot_paths" for cs ty mj
  proof -
    obtain i M where i: "tree_walk boot_tree ROOTINO cs = Some i" "boot_tree i = Some (ty, mj, M)"
      and cs: "\<forall>c \<in> set cs. elem_ok c \<and> name_ok c" "cs \<noteq> []" using boot_paths_tree path by blast
    have "namei env (abs_path cs) v' = Some (Some i, v')"
      by (rule namei_img [OF _ cs]) (use late_invD(1) [OF late] late_tree_walk [OF late i(1)] cwd v' in simp_all)
    then show ?thesis using late_invD(3) [OF late i(2)] by (auto simp: skel_Some)
  qed
  ultimately show ?thesis using v' img_ok_tree [OF late_invD(1) [OF late]] img_ok_no_dangling [OF late_invD(1) [OF late]] by auto
qed

definition progs_example :: "(u8 list \<times> u8 list) list" where
  "progs_example = [(toybox_name, [127, 69]), (bytes_of ''sh'', [1, 2, 3])]"

lemma progs_example_ok:
  "\<forall>(name, img) \<in> set progs_example. name_ok name \<and> length img < 2 ^ 32" "\<forall>name \<in> set [bytes_of ''ls'', bytes_of ''sh'']. name_ok name"
  "program_pages progs_example = 8"
  by (simp_all add: progs_example_def name_ok_def toybox_name_def bytes_of_def of_char_def program_pages_def)

lemma vfs_boot_example: "pmm_inv (frames (mach (fsys vfs_example)))" "64 \<le> card (free_pages (frames (mach (fsys vfs_example))))" "fs_cwd vfs_example = [47]"
  using boot_example_ready by (simp_all add: vfs_example_def tree_example_def dir_example_def upd_inode_def)

theorem fs_init_well_formed_witness:
  "\<exists>v'. fs_init vfs_env_example progs_example [bytes_of ''ls'', bytes_of ''sh''] vfs_example = Some v' \<and> tree_ok (fsys v') \<and> no_dangling (fsys v')"
proof -
  have "42 + program_pages progs_example + 2 * length [bytes_of ''ls'', bytes_of ''sh''] \<le> card (free_pages (frames (mach (fsys vfs_example))))"
    using vfs_boot_example(2) by (simp add: progs_example_ok(3))
  from fs_init_well_formed [OF vfs_boot_example(1) this progs_example_ok(1,2), of vfs_env_example] show ?thesis
    by (auto simp: vfs_boot_example(3))
qed

section \<open>The programs in full\<close>

text \<open>When the names are distinct and the tables are large enough, every program is there with its bytes.\<close>

lemma program_boot:
  assumes inv: "boot_inv n K C l (4 + length img div 4096 + p) s" and d: "K bin = Some (T_DIR, mj, M)" and name: "M name = None" "name_ok name"
    and n: "1 \<le> n" "n < MAX_INODES" and l: "l + 44 \<le> 2097152" and img: "0 < length img" "length img \<le> 2097152"
  shows "\<exists>s'. install_programs env bin ((name, img) # ps) tb s = install_programs env bin ps (if name = toybox_name then Some n else tb) s' \<and>
    boot_inv (n + 1) (K(bin \<mapsto> (T_DIR, mj, M(name \<mapsto> n)), n \<mapsto> (T_FILE, 0, Map.empty))) (C(n \<mapsto> img)) (l + 44) p s'"
proof -
  define K1 where "K1 = K(bin \<mapsto> (T_DIR, mj, M(name \<mapsto> n)), n \<mapsto> (T_FILE, 0, Map.empty))"
  define sz :: u32 where "sz = of_nat (length img)"
  have u: "unat sz = length img" using img(2) by (simp add: sz_def unat_of_nat)
  then have sz: "sz \<noteq> 0" "(if sz > MAXFILE then MAXFILE else sz) = sz" using img by (auto simp: MAXFILE_def NDIRECT_def BSIZE_def word_less_nat_alt)
  have "boot_inv n K C l (2 + (unat sz div 4096 + 2 + p)) s" by (rule boot_inv_mono [OF inv]) (simp_all add: u)
  from create_boot [OF this d name _ n l, of T_FILE env 0] obtain s1 where
    c: "create env bin name T_FILE 0 s = Some (Some n, s1)" and i1: "boot_inv (n + 1) K1 (C(n \<mapsto> [])) (l + 44) (unat sz div 4096 + 2 + p) s1"
    by (auto simp: K1_def)
  have "(C(n \<mapsto> [])) n = Some []" by simp
  from write_boot [OF i1 this, of img, unfolded fun_upd_upd] u img(2) obtain r s2 where
    w: "writei n img 0 sz s1 = Some (r, s2)" and i2: "boot_inv (n + 1) K1 (C(n \<mapsto> img)) (l + 44) p s2" by auto
  show ?thesis using c w i2 sz unfolding K1_def [symmetric] sz_def by (intro exI [of _ s2]) (simp add: Let_def)
qed

text \<open>The tree after programs were added to the directory \<open>bin\<close>.\<close>

definition installed :: "(u8 list \<times> u8 list) list \<Rightarrow> (u8 list \<rightharpoonup> u32) \<Rightarrow> skeleton \<Rightarrow> (u32 \<rightharpoonup> u8 list) \<Rightarrow> bool" where
  "installed progs M K C \<longleftrightarrow> (\<forall>(name, img) \<in> set progs. \<exists>i. M name = Some i \<and> K i = Some (T_FILE, 0, Map.empty) \<and> C i = Some img)"

lemma fresh_inode:
  assumes "boot_inv n K C l p s"
  shows "K n = None" "C n = None"
proof -
  show K: "K n = None" using boot_invD(3) [OF assms, of n] by (metis less_irrefl)
  show "C n = None"
  proof (rule ccontr)
    assume "C n \<noteq> None"
    then have "skel s n \<noteq> None" using storedD [OF boot_invD(6) [OF assms], of n] by (auto simp: skel_def)
    then show False using K boot_invD(2) [OF assms] by simp
  qed
qed

lemma install_programs_boot:
  assumes "boot_inv n K C l (program_pages progs + p) s" and "K bin = Some (T_DIR, mj, M)" and "distinct (map fst progs)"
    and "\<forall>(name, img) \<in> set progs. M name = None \<and> name_ok name \<and> 0 < length img \<and> length img \<le> 2097152"
    and "1 \<le> n" "unat n + length progs \<le> 128" "l + 44 * length progs \<le> 2097152"
  shows "\<exists>t s' K' C' M'. install_programs env bin progs toybox s = Some (t, s') \<and>
    boot_inv (n + of_nat (length progs)) K' C' (l + 44 * length progs) p s' \<and> K' bin = Some (T_DIR, mj, M') \<and> installed progs M' K' C' \<and>
    (\<forall>name. name \<notin> fst ` set progs \<longrightarrow> M' name = M name) \<and> (\<forall>i x. i \<noteq> bin \<longrightarrow> K i = Some x \<longrightarrow> K' i = Some x) \<and> C \<subseteq>\<^sub>m C' \<and>
    t = (if toybox_name \<in> fst ` set progs then M' toybox_name else toybox)"
  using assms
proof (induction progs arbitrary: n K C l M s toybox)
  case Nil
  then show ?case by (intro exI [of _ toybox] exI [of _ s] exI [of _ K] exI [of _ C] exI [of _ M]) (simp add: installed_def program_pages_def)
next
  case (Cons pr progs)
  obtain name img where pr: "pr = (name, img)" by (cases pr)
  define M1 where "M1 = M(name \<mapsto> n)"
  define K1 where "K1 = K(bin \<mapsto> (T_DIR, mj, M1), n \<mapsto> (T_FILE, 0, Map.empty))"
  define C1 where "C1 = C(n \<mapsto> img)"
  note F = fresh_inode [OF Cons.prems(1)]
  have nb: "n \<noteq> bin" using F(1) Cons.prems(2) by auto
  have n1: "n < MAX_INODES" using Cons.prems(6) by (simp add: MAX_INODES_def word_less_nat_alt)
  have n: "n < MAX_INODES" "unat (n + 1) = unat n + 1" "1 \<le> n + 1" using n1 unat_plus1_less [OF n1] by (simp_all add: word_le_nat_alt)
  have "boot_inv n K C l (4 + length img div 4096 + (program_pages progs + p)) s" using Cons.prems(1) by (simp add: pr program_pages_def ac_simps)
  from program_boot [OF this Cons.prems(2) _ _ Cons.prems(5) n(1), of name env progs toybox] Cons.prems(4,7) obtain s1 where
    run: "install_programs env bin (pr # progs) toybox s = install_programs env bin progs (if name = toybox_name then Some n else toybox) s1"
    and i1: "boot_inv (n + 1) K1 C1 (l + 44) (program_pages progs + p) s1"
    by (auto simp: pr K1_def C1_def M1_def)
  have "K1 bin = Some (T_DIR, mj, M1)" using nb by (simp add: K1_def)
  moreover have "\<forall>(name, img) \<in> set progs. M1 name = None \<and> name_ok name \<and> 0 < length img \<and> length img \<le> 2097152"
    using Cons.prems(3,4) by (force simp: pr M1_def)
  ultimately obtain t s' K' C' M' where
    R: "install_programs env bin progs (if name = toybox_name then Some n else toybox) s1 = Some (t, s')"
      "boot_inv (n + 1 + of_nat (length progs)) K' C' (l + 44 + 44 * length progs) p s'" "K' bin = Some (T_DIR, mj, M')" "installed progs M' K' C'"
      "\<forall>name. name \<notin> fst ` set progs \<longrightarrow> M' name = M1 name" "\<forall>i x. i \<noteq> bin \<longrightarrow> K1 i = Some x \<longrightarrow> K' i = Some x" "C1 \<subseteq>\<^sub>m C'"
      "t = (if toybox_name \<in> fst ` set progs then M' toybox_name else if name = toybox_name then Some n else toybox)"
    using Cons.IH [OF i1, of M1 "if name = toybox_name then Some n else toybox"] Cons.prems(3,6,7) n(2,3) by (auto simp: pr)
  have new: "name \<notin> fst ` set progs" using Cons.prems(3) by (simp add: pr)
  have "M' name = Some n" using R(5) new by (simp add: M1_def)
  moreover have "K' n = Some (T_FILE, 0, Map.empty)" using R(6) nb by (simp add: K1_def)
  moreover have "C' n = Some img" using R(7) by (simp add: C1_def map_le_def)
  ultimately have "installed (pr # progs) M' K' C'" using R(4) by (auto simp: installed_def pr)
  moreover have "C \<subseteq>\<^sub>m C'" using R(7) F(2) by (auto simp: C1_def map_le_def split: if_splits dest!: bspec)
  moreover have "\<forall>i x. i \<noteq> bin \<longrightarrow> K i = Some x \<longrightarrow> K' i = Some x"
  proof (intro allI impI)
    fix i x assume "i \<noteq> bin" "K i = Some x"
    then have "K1 i = Some x" using F(1) by (auto simp: K1_def)
    then show "K' i = Some x" using R(6) \<open>i \<noteq> bin\<close> by blast
  qed
  moreover have "\<forall>name. name \<notin> fst ` set (pr # progs) \<longrightarrow> M' name = M name" using R(5) by (simp add: pr M1_def)
  moreover have "t = (if toybox_name \<in> fst ` set (pr # progs) then M' toybox_name else toybox)" using R(8) \<open>M' name = Some n\<close> new by (auto simp: pr)
  moreover have "boot_inv (n + of_nat (length (pr # progs))) K' C' (l + 44 * length (pr # progs)) p s'" using R(2) by (simp add: ac_simps)
  moreover have "install_programs env bin (pr # progs) toybox s = Some (t, s')" using run R(1) by simp
  moreover note R(3)
  ultimately show ?case by (intro exI [of _ t] exI [of _ s'] exI [of _ K'] exI [of _ C'] exI [of _ M'] conjI)
qed

lemma link_applets_boot:
  assumes "boot_inv n K C l (2 * length ns + p) s" and "K bin = Some (T_DIR, mj, M)" and "\<forall>name \<in> set ns. name_ok name" and "K t \<noteq> None"
    and "l + 44 * length ns \<le> 2097152"
  shows "\<exists>s' M'. link_applets env bin t ns s = Some s' \<and> boot_inv n (K(bin \<mapsto> (T_DIR, mj, M'))) C (l + 44 * length ns) p s' \<and>
    (\<forall>name. M' name = (if M name = None \<and> name \<in> set ns then Some t else M name))"
  using assms
proof (induction ns arbitrary: K l M s)
  case Nil
  then have "K(bin \<mapsto> (T_DIR, mj, M)) = K" by (simp add: fun_upd_idem)
  then show ?case using Nil.prems by (intro exI [of _ s] exI [of _ M]) simp
next
  case (Cons name ns)
  have inv: "boot_inv n K C l (2 + (2 * length ns + p)) s" using Cons.prems(1) by simp
  note num = boot_inv_used(4) [OF inv Cons.prems(4)]
  show ?case
  proof (cases "M name")
    case None
    define M1 where "M1 = M(name \<mapsto> t)"
    obtain s1 where l: "dirlink env bin name t s = Some (0, s1)" and i1: "boot_inv n (K(bin \<mapsto> (T_DIR, mj, M1))) C (l + 44) (2 * length ns + p) s1"
      using dirlink_boot [OF inv Cons.prems(2) None _ Cons.prems(4), of env] Cons.prems(3,5) by (auto simp: M1_def)
    obtain s' M' where R: "link_applets env bin t ns (set_nlink t (\<lambda>n. n + 1) s1) = Some s'"
        "boot_inv n (K(bin \<mapsto> (T_DIR, mj, M'))) C (l + 44 + 44 * length ns) p s'"
        "\<forall>name. M' name = (if M1 name = None \<and> name \<in> set ns then Some t else M1 name)"
    proof -
      define K1 where "K1 = K(bin \<mapsto> (T_DIR, mj, M1))"
      have K1: "K1 bin = Some (T_DIR, mj, M1)" "K1 t \<noteq> None" "K1(bin \<mapsto> x) = K(bin \<mapsto> x)" for x using Cons.prems(4) by (auto simp: K1_def)
      have ns: "\<forall>name \<in> set ns. name_ok name" "l + 44 + 44 * length ns \<le> 2097152" using Cons.prems(3,5) by auto
      have "boot_inv n K1 C (l + 44) (2 * length ns + p) (set_nlink t (\<lambda>n. n + 1) s1)" using i1 unfolding K1_def by simp
      from Cons.IH [OF this K1(1) ns(1) K1(2) ns(2), unfolded K1(3)] that show ?thesis by blast
    qed
    have "boot_inv n (K(bin \<mapsto> (T_DIR, mj, M'))) C (l + 44 * length (name # ns)) p s'" by (rule boot_inv_mono [OF R(2)]) simp_all
    moreover have "\<forall>nm. M' nm = (if M nm = None \<and> nm \<in> set (name # ns) then Some t else M nm)" using R(3) None by (simp add: M1_def)
    moreover have "link_applets env bin t (name # ns) s = Some s'" using l num R(1) by simp
    ultimately show ?thesis by blast
  next
    case (Some j)
    note D = boot_invD [OF inv] and dd = boot_inv_dir [OF inv Cons.prems(2)] and tt = boot_inv_used [OF inv Cons.prems(4)]
    have ok: "name_ok name" using Cons.prems(3) by simp
    obtain r s1 where l: "dirlink env bin name t s = Some (r, s1)"
      using dirlink_spares [OF img_okD(1) [OF D(1)] dd(1) img_okD(4) [OF D(1) dd(1,2)] ok D(4)] by blast
    have same: "r = -1" "s1 = s" using dirlink_step [OF D(1) dd(1,2) ok tt(1-3) l] Some dd(4) by auto
    obtain s' M' where R: "link_applets env bin t ns s = Some s'" "boot_inv n (K(bin \<mapsto> (T_DIR, mj, M'))) C (l + 44 * length ns) p s'"
        "\<forall>name. M' name = (if M name = None \<and> name \<in> set ns then Some t else M name)"
    proof -
      have "boot_inv n K C l (2 * length ns + p) s" by (rule boot_inv_mono [OF inv]) simp_all
      moreover have "\<forall>name \<in> set ns. name_ok name" "l + 44 * length ns \<le> 2097152" using Cons.prems(3,5) by auto
      ultimately show ?thesis using Cons.IH [OF _ Cons.prems(2) _ Cons.prems(4)] that by blast
    qed
    have "boot_inv n (K(bin \<mapsto> (T_DIR, mj, M'))) C (l + 44 * length (name # ns)) p s'" by (rule boot_inv_mono [OF R(2)]) simp_all
    moreover have "\<forall>nm. M' nm = (if M nm = None \<and> nm \<in> set (name # ns) then Some t else M nm)" using R(3) Some by auto
    moreover have "link_applets env bin t (name # ns) s = Some s'" using l num R(1) same by simp
    ultimately show ?thesis by blast
  qed
qed

lemma boot_tree_root:
  "boot_tree 1 = Some (T_DIR, 0, [dot \<mapsto> 1, dotdot \<mapsto> 1, dev_name \<mapsto> 2, etc_name \<mapsto> 6, hello_name \<mapsto> 9, host_name \<mapsto> 10, bin_name \<mapsto> 11])"
  by (simp add: boot_tree_def tree_root)

text \<open>The directory \<open>bin\<close> in the tree \<open>K\<close> with the file contents \<open>C\<close>.\<close>

definition bin_ok :: "(u8 list \<times> u8 list) list \<Rightarrow> u8 list list \<Rightarrow> skeleton \<Rightarrow> (u32 \<rightharpoonup> u8 list) \<Rightarrow> (u8 list \<rightharpoonup> u32) \<Rightarrow> bool" where
  "bin_ok progs applets K C M \<longleftrightarrow> K 11 = Some (T_DIR, 0, M) \<and> installed progs M K C \<and> (\<forall>i x. i \<noteq> 11 \<longrightarrow> boot_tree i = Some x \<longrightarrow> K i = Some x) \<and>
     (toybox_name \<in> fst ` set progs \<longrightarrow> (\<forall>a \<in> set applets. a \<notin> fst ` set progs \<longrightarrow> a \<noteq> dot \<longrightarrow> a \<noteq> dotdot \<longrightarrow> M a = M toybox_name))"

lemma fill_bin_boot:
  assumes inv: "boot_inv 12 boot_tree boot_contents 792 (program_pages progs + 2 * length applets + p) s"
    and progs: "distinct (map fst progs)" "length progs \<le> 116"
      "\<forall>(name, img) \<in> set progs. name_ok name \<and> name \<noteq> dot \<and> name \<noteq> dotdot \<and> 0 < length img \<and> length img \<le> 2097152"
    and applets: "\<forall>name \<in> set applets. name_ok name" "length applets \<le> 47000"
  shows "\<exists>s' K C M. fill_bin env progs applets 11 s = Some s' \<and> bin_ok progs applets K C M \<and>
    boot_inv (12 + of_nat (length progs)) K C (792 + 44 * length progs + 44 * length applets) p s'"
proof -
  define M0 where "M0 = [dot \<mapsto> 11, dotdot \<mapsto> 1 :: u32]"
  have M0: "boot_tree 11 = Some (T_DIR, 0, M0)" by (simp add: M0_def boot_tree_bin)
  have free: "\<forall>(name, img) \<in> set progs. M0 name = None \<and> name_ok name \<and> 0 < length img \<and> length img \<le> 2097152" using progs(3) by (auto simp: M0_def)
  have inv': "boot_inv 12 boot_tree boot_contents 792 (program_pages progs + (2 * length applets + p)) s" using inv by (simp add: ac_simps)
  obtain t s1 K1 C1 M1 where I: "install_programs env 11 progs None s = Some (t, s1)"
      "boot_inv (12 + of_nat (length progs)) K1 C1 (792 + 44 * length progs) (2 * length applets + p) s1"
      "K1 11 = Some (T_DIR, 0, M1)" "installed progs M1 K1 C1" "\<forall>name. name \<notin> fst ` set progs \<longrightarrow> M1 name = M0 name"
      "\<forall>i x. i \<noteq> 11 \<longrightarrow> boot_tree i = Some x \<longrightarrow> K1 i = Some x" "t = (if toybox_name \<in> fst ` set progs then M1 toybox_name else None)"
    using install_programs_boot [OF inv' M0 progs(1) free, of env None] progs(2) by auto
  show ?thesis
  proof (cases t)
    case None
    then have "toybox_name \<notin> fst ` set progs" using I(4,7) by (auto simp: installed_def)
    then have "bin_ok progs applets K1 C1 M1" unfolding bin_ok_def using I(3,4,6) by blast
    moreover have "boot_inv (12 + of_nat (length progs)) K1 C1 (792 + 44 * length progs + 44 * length applets) p s1"
      by (rule boot_inv_mono [OF I(2)]) simp_all
    moreover have "fill_bin env progs applets 11 s = Some s1" using I(1) None by (simp add: fill_bin_def)
    ultimately show ?thesis by blast
  next
    case (Some i)
    then have tb: "toybox_name \<in> fst ` set progs" "M1 toybox_name = Some i" using I(7) by (auto split: if_splits)
    then have Ki: "K1 i \<noteq> None" using I(4) by (auto simp: installed_def)
    have "792 + 44 * length progs + 44 * length applets \<le> 2097152" using progs(2) applets(2) by simp
    with I(2) obtain s' M' where
      L: "link_applets env 11 i applets s1 = Some s'" "boot_inv (12 + of_nat (length progs)) (K1(11 \<mapsto> (T_DIR, 0, M'))) C1
         (792 + 44 * length progs + 44 * length applets) p s'" "\<And>name. M' name = (if M1 name = None \<and> name \<in> set applets then Some i else M1 name)"
      using link_applets_boot [OF _ I(3) applets(1) Ki, where s = s1 and env = env] by metis
    define K where "K = K1(11 \<mapsto> (T_DIR, 0, M'))"
    have "installed progs M' K C1" unfolding installed_def
    proof (intro ballI, clarify)
      fix name img assume mem: "(name, img) \<in> set progs"
      obtain j where j: "M1 name = Some j" "K1 j = Some (T_FILE, 0, Map.empty)" "C1 j = Some img" using I(4) mem by (auto simp: installed_def)
      then have "j \<noteq> 11" using I(3) by auto
      then show "\<exists>j. M' name = Some j \<and> K j = Some (T_FILE, 0, Map.empty) \<and> C1 j = Some img" using j L(3) [of name] by (simp add: K_def)
    qed
    moreover have "M' a = M' toybox_name" if "a \<in> set applets" "a \<notin> fst ` set progs" "a \<noteq> dot" "a \<noteq> dotdot" for a
      using that I(5) tb(2) L(3) [of a] L(3) [of toybox_name] by (simp add: M0_def)
    moreover have "\<forall>i x. i \<noteq> 11 \<longrightarrow> boot_tree i = Some x \<longrightarrow> K i = Some x" using I(6) by (simp add: K_def)
    moreover have "K 11 = Some (T_DIR, 0, M')" by (simp add: K_def)
    ultimately have "bin_ok progs applets K C1 M'" unfolding bin_ok_def by blast
    moreover have "fill_bin env progs applets 11 s = Some s'" using I(1) L(1) Some by (simp add: fill_bin_def)
    ultimately show ?thesis using L(2) K_def by blast
  qed
qed

lemma fs_tree_exact:
  assumes mem: "pmm_inv (frames (mach s))" "42 + program_pages progs + 2 * length applets + p \<le> card (free_pages (frames (mach s)))"
    and progs: "distinct (map fst progs)" "length progs \<le> 116"
      "\<forall>(name, img) \<in> set progs. name_ok name \<and> name \<noteq> dot \<and> name \<noteq> dotdot \<and> 0 < length img \<and> length img \<le> 2097152"
    and applets: "\<forall>name \<in> set applets. name_ok name" "length applets \<le> 47000"
  shows "\<exists>s' K C M. fs_tree env progs applets s = Some s' \<and> bin_ok progs applets K C M \<and>
    boot_inv (12 + of_nat (length progs)) K C (792 + 44 * length progs + 44 * length applets) p s'"
proof -
  obtain s1 where run: "fs_tree env progs applets s = fill_bin env progs applets 11 s1"
    and i: "boot_inv 12 boot_tree boot_contents 792 (program_pages progs + 2 * length applets + p) s1"
    using fs_tree_boot [OF mem(1), where p = "program_pages progs + 2 * length applets + p" and env = env and progs = progs and applets = applets] mem(2)
    by (auto simp: ac_simps)
  show ?thesis unfolding run by (rule fill_bin_boot [OF i progs applets])
qed

lemma fs_tree_programs:
  assumes mem: "pmm_inv (frames (mach s))" "42 + program_pages progs + 2 * length applets \<le> card (free_pages (frames (mach s)))"
    and progs: "distinct (map fst progs)" "length progs \<le> 116"
      "\<forall>(name, img) \<in> set progs. name_ok name \<and> name \<noteq> dot \<and> name \<noteq> dotdot \<and> 0 < length img \<and> length img \<le> 2097152"
    and applets: "\<forall>name \<in> set applets. name_ok name" "length applets \<le> 47000"
  shows "\<exists>s' K M. fs_tree env progs applets s = Some s' \<and> late_inv K 0 s' \<and> K 1 = boot_tree 1 \<and> K 11 = Some (T_DIR, 0, M) \<and>
    (\<forall>(name, img) \<in> set progs. \<exists>i. M name = Some i \<and> K i = Some (T_FILE, 0, Map.empty) \<and> contents s' i = img) \<and>
    (toybox_name \<in> fst ` set progs \<longrightarrow> (\<forall>a \<in> set applets. a \<notin> fst ` set progs \<longrightarrow> a \<noteq> dot \<longrightarrow> a \<noteq> dotdot \<longrightarrow> M a = M toybox_name))"
proof -
  obtain s' K C M where run: "fs_tree env progs applets s = Some s'" and B: "bin_ok progs applets K C M"
    and i: "boot_inv (12 + of_nat (length progs)) K C (792 + 44 * length progs + 44 * length applets) 0 s'"
    using fs_tree_exact [OF mem(1) _ progs applets, where p = 0 and env = env] mem(2) by auto
  have "\<forall>(name, img) \<in> set progs. \<exists>i. M name = Some i \<and> K i = Some (T_FILE, 0, Map.empty) \<and> contents s' i = img"
    using B storedD [OF boot_invD(6) [OF i]] by (fastforce simp: bin_ok_def installed_def)
  moreover have "K 1 = boot_tree 1" using B boot_tree_root by (simp add: bin_ok_def)
  ultimately show ?thesis using run boot_inv_late [OF i] B unfolding bin_ok_def by blast
qed



end
