(* ===== verification/Boot_Check.thy ===== *)
theory Boot_Check
  imports Boot_Image
begin

text \<open>
  The path operations on the boot image, down to the verdict of \<open>fs_selftest\<close> (\<open>kernel/fs/memfs.c\<close>): each of \<open>vfs_open\<close>, \<open>vfs_mkdir\<close>,
  \<open>vfs_unlink\<close> and \<open>vfs_rmdir\<close> on a name of the root directory changes the shape of the tree in exactly one way.
\<close>

section \<open>Inodes\<close>

lemma ialloc_tree:
  assumes inv: "tree_inv K C l p s" and ty: "ty \<noteq> 0" and n: "1 \<le> n" "n < MAX_INODES" "K n = None" "\<And>j. 1 \<le> j \<Longrightarrow> j < n \<Longrightarrow> K j \<noteq> None"
  shows "\<exists>s1. ialloc ty 0 0 s = (Some n, s1) \<and> inode_table s1 = (inode_table s)(n := new_inode n ty 0) \<and>
    tree_inv (K(n \<mapsto> (ty, 0, Map.empty))) (if ty = T_DIR then C else C(n \<mapsto> [])) l p s1"
proof -
  note D = tree_invD [OF inv]
  have used: "itype (inode_table s j) \<noteq> 0 \<longleftrightarrow> K j \<noteq> None" if "j < MAX_INODES" for j
    using that by (auto simp: skel_def simp flip: D(2))
  have nf: "itype (inode_table s n) = 0" using used [OF n(2)] n(3) by simp
  obtain m s1 where m: "ialloc ty 0 0 s = (Some m, s1)" "m \<noteq> 0" "m < MAX_INODES" "itype (inode_table s m) = 0"
      "\<And>j. 1 \<le> j \<Longrightarrow> j < m \<Longrightarrow> itype (inode_table s j) \<noteq> 0" "s1 = upd_inode m (\<lambda>_. new_inode m ty 0) s"
    using ialloc_cases [where ty = ty and maj = 0 and s = s] n(1,2) nf by (cases "ialloc ty 0 0 s") (auto split: option.splits)
  have "m = n"
  proof (rule antisym)
    show "m \<le> n" using m(5) nf n(1) by (meson not_less)
    show "n \<le> m" using used [OF m(3)] m(2,4) n(4) [of m] by (metis not_less word_gt_0 word_less_1 linorder_not_le word_le_less_eq)
  qed
  have s1: "s1 = upd_inode n (\<lambda>_. (new_inode n ty 0)\<lparr>itype := ty, nlink := 1\<rparr>) s" by (simp add: m(6) \<open>m = n\<close> new_inode_upd)
  have tab: "inode_table s1 = (inode_table s)(n := new_inode n ty 0)" "mach s1 = mach s" by (simp_all add: m(6) \<open>m = n\<close> upd_inode_def)
  have c: "contents s1 j = (if j = n then [] else contents s j)" for j unfolding s1 by (rule new_inode_contents)
  have n0: "n \<noteq> 0" using n(1) by auto
  have ok: "img_ok s1" unfolding s1 by (rule new_inode_img [OF D(1) n0 n(2) nf])
  have same: "same_but {n} s s1" unfolding s1 by (rule new_inode_same)
  have "skel s1 n = Some (ty, 0, Map.empty)" using ty n(2) by (simp add: skel_def tab new_inode_def dir_map_def c entries_def)
  then have sk: "skel s1 = K(n \<mapsto> (ty, 0, Map.empty))" using same_but_skel [OF same] D(2) by (intro ext) auto
  have "stored C s1"
    by (rule stored_step [OF D(6)]) (use same_but_skel [OF same] nf c in \<open>metis singletonD\<close>)
  moreover have "itype (inode_table s1 n) = ty" "contents s1 n = []" by (simp_all add: tab new_inode_def c)
  ultimately have "stored (if ty = T_DIR then C else C(n \<mapsto> [])) s1" using n(2) ty by (auto simp: stored_def)
  moreover have "length (contents s1 d) \<le> l" if "d < MAX_INODES" "itype (inode_table s1 d) = T_DIR" for d
    using D(5) [of d] that by (auto simp: c tab split: if_splits)
  ultimately have "tree_inv (K(n \<mapsto> (ty, 0, Map.empty))) (if ty = T_DIR then C else C(n \<mapsto> [])) l p s1"
    using ok sk D(3,4) n0 tab(2) by (simp add: tree_inv_def)
  with m(1) tab(1) \<open>m = n\<close> show ?thesis by blast
qed

text \<open>Operations on a directory or a file change only its blocks and its size.\<close>

definition meta :: "inode \<Rightarrow> inode" where
  "meta nd = nd\<lparr>addrs := (\<lambda>_. 0), isize := 0\<rparr>"

lemma meta_simps: "meta (nd\<lparr>addrs := a, isize := z\<rparr>) = meta nd"
  by (simp add: meta_def)

lemma meta_fields: "nlink (meta x) = nlink x" "ibackend (meta x) = ibackend x" "itype (meta x) = itype x" "inum (meta x) = inum x"
  by (simp_all add: meta_def)

lemma metaD: "meta x = meta y \<Longrightarrow> nlink x = nlink y \<and> ibackend x = ibackend y \<and> itype x = itype y \<and> inum x = inum y"
  by (metis meta_fields)

lemma dirlink_meta:
  assumes "img_ok s" "d < MAX_INODES" "itype (inode_table s d) = T_DIR" "name_ok name" "n \<noteq> 0" "dirlink env d name n s = Some (r, s')" "j < MAX_INODES"
  shows "meta (inode_table s' j) = meta (inode_table s j)" "j \<noteq> d \<Longrightarrow> inode_table s' j = inode_table s j"
  using dirlink_effect [OF img_okD(1) [OF assms(1)] assms(2) img_okD(4) [OF assms(1-3)] assms(4-6)] assms(7)
  by (cases "j = d"; auto simp: dir_step_def dir_only_def meta_simps)+

lemma dirunlink_meta:
  assumes "img_ok s" "d < MAX_INODES" "itype (inode_table s d) = T_DIR" "name_ok name" "dirunlink env u d name s = Some (r, s')" "j < MAX_INODES"
  shows "meta (inode_table s' j) = meta (inode_table s j)"
  using dirunlink_effect [OF img_okD(1) [OF assms(1)] assms(2) img_okD(4) [OF assms(1-3)] assms(4,5)] assms(6)
  by (cases "j = d"; cases "dir_map s d name"; auto simp: dir_step_def dir_only_def meta_simps)+

lemma writei_meta:
  assumes "img_ok s" "f < MAX_INODES" "unat n \<le> length src" "writei f src 0 n s = Some (r, s')" "j < MAX_INODES"
  shows "meta (inode_table s' j) = meta (inode_table s j)"
proof -
  have "unat (0 :: u32) + unat n < 2 ^ 32" using unat_u32_le [of n] by simp
  from writei_effect [OF img_okD(1) [OF assms(1)] assms(2) this assms(3,4)] assms(5) show ?thesis
    by (cases "j = f") (auto simp: write_post_def meta_simps split: if_splits)
qed

text \<open>Removing an entry, and releasing an inode no entry names.\<close>

lemma dirunlink_length:
  assumes wf: "fs_wf s" "d < MAX_INODES" and dir: "dir_wf s d" and name: "name_ok name" and bound: "dir_map s d name = Some n"
    and run: "dirunlink env u d name s = Some (r, s')" and len: "length (contents s d) \<le> 2097152"
  shows "length (contents s' d) = length (contents s d)"
proof -
  obtain N where N: "length (contents s d) = 44 * N" using dir by (auto simp: dir_wf_def)
  from dirunlink_unfold [OF wf dir name bound, of env u] obtain k where k: "k < length (entries (contents s d))"
    "dirunlink env u d name s = do { (r, s') \<leftarrow> writei d (bytes_of_dirent empty_dirent) (rec_off k) sizeof_dirent s; Some (if r \<noteq> 44 then -1 else sint n, s') }"
    by blast
  obtain r' where w: "writei d (bytes_of_dirent empty_dirent) (rec_off k) sizeof_dirent s = Some (r', s')"
    using run unfolding k(2) by (auto simp: bind_eq_Some_conv)
  have kN: "k < N" "length (de_name empty_dirent) = 32" using k(1) by (simp_all add: N empty_dirent_def)
  have "\<not> 44 * k + 44 > 2097152" using kN(1) len by (simp add: N)
  then have "44 dvd length (contents s' d)" "entries (contents s' d) = (entries (contents s d))[k := empty_dirent]"
    using write_record [OF wf N _ kN(2) w] kN(1) by auto
  then have "length (entries (contents s' d)) = length (entries (contents s d))" by simp
  then show ?thesis using \<open>44 dvd length (contents s' d)\<close> by (auto simp: N)
qed

lemma dirunlink_spares:
  assumes wf: "fs_wf s" "d < MAX_INODES" and dir: "dir_wf s d" and name: "name_ok name" and bound: "dir_map s d name = Some n"
    and free: "2 + p \<le> card (free_pages (frames (mach s)))"
  shows "\<exists>r s'. dirunlink env u d name s = Some (r, s') \<and> p \<le> card (free_pages (frames (mach s')))"
proof -
  obtain N where N: "length (contents s d) = 44 * N" using dir by (auto simp: dir_wf_def)
  from dirunlink_unfold [OF wf dir name bound, of env u] obtain k where k: "k < length (entries (contents s d))"
    "dirunlink env u d name s = do { (r, s') \<leftarrow> writei d (bytes_of_dirent empty_dirent) (rec_off k) sizeof_dirent s; Some (if r \<noteq> 44 then -1 else sint n, s') }"
    by blast
  have "k \<le> N" "length (de_name empty_dirent) = 32" using k(1) by (simp_all add: N empty_dirent_def)
  from write_record_spares [OF wf free N this] k(2) show ?thesis by auto
qed

lemma dirunlink_tree:
  assumes inv: "tree_inv K C l (2 + p) s" and d: "K d = Some (T_DIR, mj, M)" and name: "M name = Some i" "name_ok name" and l: "l \<le> 2097152"
  shows "\<exists>r s'. dirunlink env u d name s = Some (r, s') \<and> tree_inv (K(d \<mapsto> (T_DIR, mj, M(name := None)))) C l p s'"
proof -
  note D = tree_invD [OF inv] and dd = tree_inv_dir [OF inv d]
  have W: "fs_wf s" "dir_wf s d" using img_okD(1,4) [OF D(1)] dd(1,2) by auto
  have bound: "dir_map s d name = Some i" using dd(4) name(1) by simp
  obtain r s' where run: "dirunlink env u d name s = Some (r, s')" and p: "p \<le> card (free_pages (frames (mach s')))"
    using dirunlink_spares [OF W(1) dd(1) W(2) name(2) bound D(4)] by blast
  have st: "dir_step d s s' (M(name := None))" using dirunlink_effect [OF W(1) dd(1) W(2) name(2) run] bound dd(4) by auto
  then have wf: "fs_wf s'" "dir_wf s' d" "dir_map s' d = M(name := None)"
    and tab: "\<exists>ad sz. inode_table s' d = (inode_table s d)\<lparr>addrs := ad, isize := sz\<rparr>"
    and oth: "\<And>j. j < MAX_INODES \<Longrightarrow> j \<noteq> d \<Longrightarrow> inode_table s' j = inode_table s j \<and> contents s' j = contents s j"
    by (auto simp: dir_step_def dir_only_def)
  have ty: "itype (inode_table s' j) = itype (inode_table s j) \<and> inum (inode_table s' j) = inum (inode_table s j) \<and>
      major (inode_table s' j) = major (inode_table s j)" if "j < MAX_INODES" for j
    using tab oth that by (cases "j = d") auto
  have same: "same_but {d} s s'" using ty oth by (auto simp: same_but_def)
  have dm: "dir_map s' j = dir_map s j \<and> (dir_wf s' j \<longleftrightarrow> dir_wf s j)" if "j < MAX_INODES" "j \<noteq> d" for j
    using oth [OF that] by (simp add: dir_map_def dir_wf_def)
  have "img_ok s'" unfolding img_ok_def
  proof (intro conjI allI impI)
    fix e assume e: "e < MAX_INODES" "itype (inode_table s' e) = T_DIR"
    show "dir_wf s' e" using wf(2) dm img_okD(4) [OF D(1)] ty e by (cases "e = d") auto
    fix nm x assume x: "dir_map s' e nm = Some x"
    have "dir_map s e nm = Some x"
    proof (cases "e = d")
      case True
      then have "(M(name := None)) nm = Some x" using x wf(3) by simp
      then show ?thesis using True dd(4) by (simp split: if_splits)
    qed (use x dm [OF e(1)] in simp)
    then show "x \<noteq> 0" "x < MAX_INODES" "itype (inode_table s' x) \<noteq> 0" using img_okD(5) [OF D(1), of e nm x] ty e by auto
  qed (use wf img_okD [OF D(1)] ty in auto)
  moreover have "skel s' = K(d \<mapsto> (T_DIR, mj, M(name := None)))"
  proof
    fix j show "skel s' j = (K(d \<mapsto> (T_DIR, mj, M(name := None)))) j"
      using same_but_skel [OF same, of j] D(2) ty [OF dd(1)] dd wf(3) by (cases "j = d") (auto simp: skel_def)
  qed
  moreover have "stored C s'"
  proof (rule stored_step [OF D(6)])
    fix j bs assume "C j = Some bs" "itype (inode_table s j) \<noteq> T_DIR"
    then have "j \<noteq> d" "j < MAX_INODES" using dd storedD [OF D(6)] by auto
    then show "skel s' j = skel s j \<and> contents s' j = contents s j" using same_but_skel [OF same, of j] oth by auto
  qed
  moreover have "length (contents s' e) \<le> l" if "e < MAX_INODES" "itype (inode_table s' e) = T_DIR" for e
    using D(5) [of e] that oth [of e] ty dd(5) dirunlink_length [OF W(1) dd(1) W(2) name(2) bound run] l by (cases "e = d") auto
  moreover have "(K(d \<mapsto> (T_DIR, mj, M(name := None)))) 0 = None" using D(3) d by auto
  ultimately show ?thesis using run p unfolding tree_inv_def by blast
qed

lemma ifree_tree:
  assumes inv: "tree_inv K C l p s" and i: "i < MAX_INODES" "i \<noteq> ROOTINO"
    and names: "\<And>d mj M nm. K d = Some (T_DIR, mj, M) \<Longrightarrow> d \<noteq> i \<Longrightarrow> M nm \<noteq> Some i"
  shows "tree_inv (K(i := None)) (C(i := None)) l p (ifree i s)"
proof -
  note D = tree_invD [OF inv]
  let ?s = "ifree i s"
  note E = ifree_effect [OF img_okD(1) [OF D(1)] i(1)]
  have oth: "\<And>j. j < MAX_INODES \<Longrightarrow> j \<noteq> i \<Longrightarrow> inode_table ?s j = inode_table s j \<and> contents ?s j = contents s j" using E by blast
  have ti: "itype (inode_table ?s i) = 0" by (simp add: ifree_def upd_inode_def)
  have free: "free_pages (frames (mach s)) \<subseteq> free_pages (frames (mach ?s))"
  proof
    fix x assume "x \<in> free_pages (frames (mach s))"
    then have x: "x < pmm_total" "\<not> page_used (frames (mach s)) x" by (simp_all add: free_pages_def)
    have "page_aligned (x * PAGE_SIZE)" using page_number(2) [OF total_page [OF x(1)]] by (simp add: PAGE_SIZE_def)
    then have "owned (mach ?s) (x * PAGE_SIZE) \<longrightarrow> owned (mach s) (x * PAGE_SIZE)" using E by blast
    then show "x \<in> free_pages (frames (mach ?s))" using x page_owned_used [OF x(1)] by (simp add: free_pages_def)
  qed
  have fin: "finite (free_pages (frames (mach ?s)))" by simp
  have dm: "dir_map ?s j = dir_map s j \<and> (dir_wf ?s j \<longleftrightarrow> dir_wf s j)" if "j < MAX_INODES" "j \<noteq> i" for j
    using oth [OF that] by (simp add: dir_map_def dir_wf_def)
  have "img_ok ?s" unfolding img_ok_def
  proof (intro conjI allI impI)
    show "itype (inode_table ?s ROOTINO) = T_DIR" using oth [of ROOTINO] i(2) img_okD(2) [OF D(1)] by simp
    fix j assume "j < MAX_INODES" "itype (inode_table ?s j) \<noteq> 0"
    then show "inum (inode_table ?s j) = j" using oth ti img_okD(3) [OF D(1)] by (cases "j = i") auto
  next
    fix e assume e: "e < MAX_INODES" "itype (inode_table ?s e) = T_DIR"
    then have ne: "e \<noteq> i" using ti by auto
    then have te: "itype (inode_table s e) = T_DIR" using oth e by auto
    show "dir_wf ?s e" using dm [OF e(1) ne] img_okD(4) [OF D(1) e(1) te] by simp
    fix nm x assume x: "dir_map ?s e nm = Some x"
    then have "dir_map s e nm = Some x" using dm [OF e(1) ne] by simp
    moreover have "K e = Some (T_DIR, major (inode_table s e), dir_map s e)" using D(2) e(1) te by (auto simp: skel_def)
    ultimately show "x \<noteq> 0" "x < MAX_INODES" "itype (inode_table ?s x) \<noteq> 0"
      using img_okD(5) [OF D(1) e(1) te, of nm x] names [of e _ _ nm] ne oth [of x] by auto
  qed (use E in blast)
  moreover have "skel ?s = K(i := None)"
  proof
    fix j show "skel ?s j = (K(i := None)) j"
      using oth [of j] dm [of j] ti D(2) by (cases "j = i") (auto simp: skel_def)
  qed
  moreover have "stored (C(i := None)) ?s" using D(6) oth by (auto simp: stored_def)
  moreover have "length (contents ?s e) \<le> l" if "e < MAX_INODES" "itype (inode_table ?s e) = T_DIR" for e
    using that D(5) [of e] oth [of e] ti by (cases "e = i") auto
  ultimately show ?thesis using D(3,4) card_mono [OF fin free] unfolding tree_inv_def by auto
qed

section \<open>Names in the root directory\<close>

lemma root_path:
  assumes "elem_ok name" "name_ok name"
  shows "elems (SLASH # name) = [name]" "abs_path [name] = SLASH # name" "0 \<notin> set (SLASH # name)"
proof -
  show a: "abs_path [name] = SLASH # name" using assms(1) by (simp add: abs_path_def render_def butlast_append elem_ok_def)
  have "components (SLASH # name) = [name]" using components_abs_path [of "[name]"] assms(1) a by simp
  then show "elems (SLASH # name) = [name]" using assms(2) by (simp add: elems_def name_ok_def)
  show "0 \<notin> set (SLASH # name)" using assms(2) by (simp add: name_ok_def SLASH_def)
qed

lemma root_parent:
  assumes "img_ok (fsys v)" "0 \<notin> set (fs_cwd v)" "elem_ok name" "name_ok name"
  shows "nameiparentat env None (SLASH # name) v = Some (Some (ROOTINO, name), v)"
proof -
  have "path_ok None (SLASH # name) v" using assms root_path(3) by (simp add: path_ok_def)
  from nameiparentat_find [OF img_ok_tree [OF assms(1)] this, of env] show ?thesis
    using root_path(1) [OF assms(3,4)] img_okD(2) [OF assms(1)]
    by (simp add: find_parent_def walk_start_def walk_parent_def walk_result_def)
qed

lemma root_lookup:
  assumes "tree_inv K C l p (fsys v)" "K ROOTINO = Some (T_DIR, mj, M)" "name_ok name"
  shows "vfs_lookup env ROOTINO name v = Some (case M name of None \<Rightarrow> 0 | Some i \<Rightarrow> i, v)"
proof -
  note D = tree_invD [OF assms(1)] and R = tree_inv_dir [OF assms(1,2)]
  have "ibackend (inode_table (fsys v) ROOTINO) = INODE_MEM" using img_okD(4) [OF D(1) R(1,2)] by (simp add: dir_wf_def)
  with vfs_lookup_view [OF img_ok_tree [OF D(1)] R(1) _ assms(3)] R show ?thesis by (simp add: node_def dir_view_def)
qed

lemma root_find:
  assumes inv: "tree_inv K C l p (fsys v)" and K: "K ROOTINO = Some (T_DIR, mj, M)" "M name = Some i" and cwd: "0 \<notin> set (fs_cwd v)"
    and name: "elem_ok name" "name_ok name"
  shows "namei env (SLASH # name) v = Some (Some i, v)"
proof -
  note D = tree_invD [OF inv] and R = tree_inv_dir [OF inv K(1)]
  have "walk (fsenv env) (fsys v) ROOTINO [name] = walk (fsenv env) (fsys v) i []"
    by (rule img_walk_step [OF D(1) R(1,2)]) (simp add: R(4) K(2))
  then have w: "walk (fsenv env) (fsys v) ROOTINO [name] = Inr i" by (simp only: walk.simps(1))
  show ?thesis using namei_img [OF D(1) _ _ cwd w] name root_path(2) [OF name] by simp
qed

section \<open>Open files\<close>

definition opened :: "u32 \<Rightarrow> bool \<Rightarrow> bool \<Rightarrow> open_file" where
  "opened i r w = zero_file\<lparr>fref := 1, ftype := FD_INODE, fip := Some i, readable := r, writable := w, foff := 0\<rparr>"

lemma filealloc_first: "fref (ftable v 0) = 0 \<Longrightarrow> filealloc v = (Some 0, upd_file 0 (\<lambda>_. zero_file\<lparr>fref := 1, ftype := FD_NONE\<rparr>) v)"
  by (simp add: filealloc_def filealloc_loop.simps [of 0] NFILE_def)

lemma open_flags:
  "flag (O_CREAT OR O_RDWR OR O_TRUNC) O_CREAT" "\<not> flag (O_CREAT OR O_RDWR OR O_TRUNC) O_EXCL" "flag (O_CREAT OR O_RDWR OR O_TRUNC) O_TRUNC"
  "\<not> flag (O_CREAT OR O_RDWR OR O_TRUNC) O_WRONLY" "flag (O_CREAT OR O_RDWR OR O_TRUNC) (O_WRONLY OR O_RDWR)" "\<not> flag (O_CREAT OR O_RDWR OR O_TRUNC) O_APPEND"
  "\<not> flag O_RDONLY x" "\<not> flag O_WRONLY O_CREAT" "\<not> flag O_WRONLY O_TRUNC" "\<not> flag O_WRONLY O_APPEND" "flag O_WRONLY O_WRONLY" "flag O_WRONLY (O_WRONLY OR O_RDWR)"
  by (simp_all add: flag_def O_CREAT_def O_RDWR_def O_TRUNC_def O_EXCL_def O_WRONLY_def O_APPEND_def O_RDONLY_def)

lemma itruncate_empty: "isize (inode_table s i) = 0 \<Longrightarrow> itruncate i 0 s = Some (0, s)"
proof -
  assume z: "isize (inode_table s i) = 0"
  have "(inode_table s i)\<lparr>isize := 0\<rparr> = inode_table s i" by (rule inode.equality) (simp_all add: z)
  then have "upd_inode i (\<lambda>n. n\<lparr>isize := 0\<rparr>) s = s" by (simp add: upd_inode_def)
  then show ?thesis by (simp add: itruncate_def z Let_def MAXFILE_def NDIRECT_def BSIZE_def)
qed

lemma open_creates:
  assumes inv: "tree_inv K C l (2 + p) (fsys v)" and fr: "fref (ftable v 0) = 0" and cwd: "0 \<notin> set (fs_cwd v)"
    and K: "K ROOTINO = Some (T_DIR, mj, M)" "M name = None" and name: "elem_ok name" "name_ok name"
    and n: "1 \<le> n" "n < MAX_INODES" "K n = None" "\<And>j. 1 \<le> j \<Longrightarrow> j < n \<Longrightarrow> K j \<noteq> None" and l: "l + 44 \<le> 2097152"
  shows "\<exists>s. vfs_open env (SLASH # name) (O_CREAT OR O_RDWR OR O_TRUNC) v =
      Some (Some 0, v\<lparr>fsys := s, ftable := (ftable v)(0 := opened n True True)\<rparr>) \<and>
    tree_inv (K(n \<mapsto> (T_FILE, 0, Map.empty), ROOTINO \<mapsto> (T_DIR, mj, M(name \<mapsto> n)))) (C(n \<mapsto> [])) (l + 44) p s \<and>
    nlink (inode_table s n) = 1 \<and> ibackend (inode_table s n) = INODE_MEM"
proof -
  have nr: "n \<noteq> ROOTINO" and n0: "n \<noteq> 0" using K(1) n(1,3) by auto
  obtain s1 where a: "ialloc T_FILE 0 0 (fsys v) = (Some n, s1)" "inode_table s1 = (inode_table (fsys v))(n := new_inode n T_FILE 0)"
      and i1: "tree_inv (K(n \<mapsto> (T_FILE, 0, Map.empty))) (C(n \<mapsto> [])) l (2 + p) s1"
    using ialloc_tree [OF inv _ n, of T_FILE] by auto
  have K1: "(K(n \<mapsto> (T_FILE, 0, Map.empty))) ROOTINO = Some (T_DIR, mj, M)" "(K(n \<mapsto> (T_FILE, 0, Map.empty))) n \<noteq> None" using K(1) nr by auto
  obtain s where b: "dirlink (fsenv env) ROOTINO name n s1 = Some (0, s)"
    and i2: "tree_inv (K(n \<mapsto> (T_FILE, 0, Map.empty), ROOTINO \<mapsto> (T_DIR, mj, M(name \<mapsto> n)))) (C(n \<mapsto> [])) (l + 44) p s"
    using dirlink_tree [OF i1 K1(1) K(2) name(2) K1(2) l] by blast
  note R = tree_inv_dir [OF i1 K1(1)]
  have nd: "inode_table s n = new_inode n T_FILE 0"
    using dirlink_meta(2) [OF tree_invD(1) [OF i1] R(1,2) name(2) n0 b n(2)] nr a(2) by simp
  have B: "ibackend (inode_table (fsys v) ROOTINO) = INODE_MEM"
    using img_okD(4) [OF tree_invD(1) [OF inv] tree_inv_dir(1,2) [OF inv K(1)]] by (simp add: dir_wf_def)
  have t: "open_target env None (SLASH # name) (O_CREAT OR O_RDWR OR O_TRUNC) v = Some (Some n, v\<lparr>fsys := s\<rparr>)"
    using root_parent [OF tree_invD(1) [OF inv] cwd name, of env] root_lookup [OF inv K(1) name(2), of env] K(2) a b B
    by (simp add: open_target_def open_flags vfs_ialloc_def on_fs_def node_def new_inode_def)
  have z: "isize (inode_table s n) = 0" "ibackend (inode_table s n) = INODE_MEM" "itype (inode_table s n) = T_FILE" "nlink (inode_table s n) = 1"
    by (simp_all add: nd new_inode_def empty_inode_def)
  have "open_inode env n (O_CREAT OR O_RDWR OR O_TRUNC) (v\<lparr>fsys := s\<rparr>) =
      Some (Some 0, v\<lparr>fsys := s, ftable := (ftable v)(0 := opened n True True)\<rparr>)"
    using z itruncate_empty [OF z(1)] filealloc_first [of "v\<lparr>fsys := s\<rparr>"] fr
    by (simp add: open_inode_def open_flags on_fs_def node_def upd_file_def opened_def T_FILE_def T_DEVICE_def)
  with t i2 z(2,4) show ?thesis by (auto simp: vfs_open_def vfs_open_at_def)
qed

lemma open_again:
  assumes inv: "tree_inv K C l p (fsys v)" and fr: "fref (ftable v 0) = 0" and cwd: "0 \<notin> set (fs_cwd v)"
    and K: "K ROOTINO = Some (T_DIR, mj, M)" "M name = Some n" and name: "elem_ok name" "name_ok name"
    and f: "itype (inode_table (fsys v) n) = T_FILE" "ibackend (inode_table (fsys v) n) = INODE_MEM"
  shows "vfs_open env (SLASH # name) O_RDONLY v = Some (Some 0, v\<lparr>ftable := (ftable v)(0 := opened n True False)\<rparr>)"
proof -
  have "open_target env None (SLASH # name) O_RDONLY v = Some (Some n, v)"
    using root_find [OF inv K cwd name, of env] by (simp add: open_target_def open_flags namei_def)
  moreover have "open_inode env n O_RDONLY v = Some (Some 0, v\<lparr>ftable := (ftable v)(0 := opened n True False)\<rparr>)"
    using f filealloc_first [OF fr] by (simp add: open_inode_def open_flags node_def upd_file_def opened_def T_FILE_def T_DEVICE_def)
  ultimately show ?thesis by (simp add: vfs_open_def vfs_open_at_def)
qed

text \<open>A slot that was closed.\<close>

definition closed :: "open_file \<Rightarrow> open_file" where
  "closed x = x\<lparr>fref := 0, ftype := FD_NONE, fip := None, fpipe := None, foff := 0, v9p_fid := 0\<rparr>"

lemma close_first:
  assumes "ftable v 0 = (opened i a b)\<lparr>foff := y\<rparr>" and "nlink (inode_table (fsys v) i) \<noteq> 0"
  shows "fileclose env 0 v = v\<lparr>ftable := (ftable v)(0 := closed (opened i a b))\<rparr>"
  using assms by (simp add: fileclose_def close_pipe_def upd_file_def node_def opened_def zero_file_def closed_def Let_def)

lemma write_first:
  assumes inv: "tree_inv K C l (length bs div 4096 + 2 + p) (fsys v)" and f: "ftable v 0 = opened n a True" and C: "C n = Some []"
    and m: "ibackend (inode_table (fsys v) n) = INODE_MEM" and bs: "length bs \<le> 2097152"
  shows "\<exists>r y s. filewrite env 0 bs (int (length bs)) v = Some (r, v\<lparr>fsys := s, ftable := (ftable v)(0 := (opened n a True)\<lparr>foff := y\<rparr>)\<rparr>) \<and>
    tree_inv K (C(n \<mapsto> bs)) l p s \<and> (\<forall>j < MAX_INODES. meta (inode_table s j) = meta (inode_table (fsys v) j))"
proof -
  define k :: u32 where "k = of_nat (length bs)"
  have u: "unat k = length bs" "word_of_int (int (length bs)) = k" using bs by (simp_all add: k_def unat_of_nat)
  obtain r s where w: "writei n bs 0 k (fsys v) = Some (r, s)" and i: "tree_inv K (C(n \<mapsto> bs)) l p s"
    using write_tree [of K C l k p "fsys v" n bs] inv C bs u(1) by auto
  have "n < MAX_INODES" using storedD [OF tree_invD(6) [OF inv] C] by simp
  then have "\<forall>j < MAX_INODES. meta (inode_table s j) = meta (inode_table (fsys v) j)"
    using writei_meta [OF tree_invD(1) [OF inv] _ _ w] u(1) by simp
  moreover obtain y where "filewrite env 0 bs (int (length bs)) v = Some (r, v\<lparr>fsys := s, ftable := (ftable v)(0 := (opened n a True)\<lparr>foff := y\<rparr>)\<rparr>)"
  proof (cases "r > 0")
    case True
    then show thesis using that [of "word_of_int r"] f m w u(2)
      by (simp add: filewrite_def opened_def zero_file_def node_def on_fs_def advance_def upd_file_def)
  next
    case False
    have "(ftable v)(0 := (opened n a True)\<lparr>foff := 0\<rparr>) = ftable v" using f by (auto simp: opened_def)
    then show thesis using that [of 0] f m w u(2) False
      by (simp add: filewrite_def opened_def zero_file_def node_def on_fs_def advance_def upd_file_def)
  qed
  ultimately show ?thesis using i by blast
qed

lemma read_first:
  assumes inv: "tree_inv K C l p (fsys v)" and f: "ftable v 0 = opened n True b" and C: "C n = Some bs"
    and m: "ibackend (inode_table (fsys v) n) = INODE_MEM" and k: "0 \<le> k" "k < 2 ^ 31"
  shows "\<exists>y. fileread env 0 k v = Some (int (length (take (nat k) bs)), take (nat k) bs, v\<lparr>ftable := (ftable v)(0 := (opened n True b)\<lparr>foff := y\<rparr>)\<rparr>)"
proof -
  have n: "n < MAX_INODES" "contents (fsys v) n = bs" using storedD [OF tree_invD(6) [OF inv] C] by auto
  define w :: u32 where "w = word_of_int k"
  have "w = of_nat (nat k)" using k(1) by (simp add: w_def)
  moreover have "nat k < 2 ^ 32" using k(2) by simp
  ultimately have u: "unat w = nat k" by (simp add: unat_of_nat)
  have rd: "readi n 0 w (fsys v) = (int (length (take (nat k) bs)), take (nat k) bs)"
    using readi_contents [OF img_okD(1) [OF tree_invD(1) [OF inv]] n(1), of 0 w] n(2) u unat_u32_le [of w] by simp
  show ?thesis
  proof (cases "int (length (take (nat k) bs)) > 0")
    case True
    then show ?thesis using f m rd [unfolded w_def] k(1)
      by (intro exI [of _ "word_of_int (int (length (take (nat k) bs)))"])
        (simp del: length_take add: fileread_def opened_def zero_file_def node_def advance_def upd_file_def)
  next
    case False
    have "(ftable v)(0 := (opened n True b)\<lparr>foff := 0\<rparr>) = ftable v" using f by (auto simp: opened_def)
    then show ?thesis using f m rd [unfolded w_def] k(1) False
      by (intro exI [of _ 0]) (simp del: length_take add: fileread_def opened_def zero_file_def node_def advance_def upd_file_def)
  qed
qed

section \<open>Directories\<close>

lemma upd_nlink: "upd_node i (\<lambda>nd. nd\<lparr>nlink := f (nlink nd)\<rparr>) v = v\<lparr>fsys := set_nlink i f (fsys v)\<rparr>"
  by (simp add: upd_node_def set_nlink_def)

lemma root_backend:
  assumes "tree_inv K C l p s" "K ROOTINO = Some (T_DIR, mj, M)"
  shows "ibackend (inode_table s ROOTINO) = INODE_MEM"
  using img_okD(4) [OF tree_invD(1) [OF assms(1)] tree_inv_dir(1,2) [OF assms]] by (simp add: dir_wf_def)

lemma mkdir_root:
  assumes inv: "tree_inv K C l (6 + p) (fsys v)" and cwd: "0 \<notin> set (fs_cwd v)"
    and K: "K ROOTINO = Some (T_DIR, mj, M)" "M name = None" and name: "elem_ok name" "name_ok name"
    and n: "1 \<le> n" "n < MAX_INODES" "K n = None" "\<And>j. 1 \<le> j \<Longrightarrow> j < n \<Longrightarrow> K j \<noteq> None" and l: "l + 132 \<le> 2097152"
  shows "\<exists>s. vfs_mkdir_at env None (SLASH # name) v = Some (0, v\<lparr>fsys := s\<rparr>) \<and>
    tree_inv (K(ROOTINO \<mapsto> (T_DIR, mj, M(name \<mapsto> n)), n \<mapsto> (T_DIR, 0, [dot \<mapsto> n, dotdot \<mapsto> ROOTINO]))) C (l + 132) p s \<and>
    (\<forall>j < MAX_INODES. j \<noteq> ROOTINO \<longrightarrow> j \<noteq> n \<longrightarrow> inode_table s j = inode_table (fsys v) j)"
proof -
  have nr: "n \<noteq> ROOTINO" and n0: "n \<noteq> 0" using K(1) n(1,3) by auto
  define K1 where "K1 = K(n \<mapsto> (T_DIR, 0, Map.empty))"
  have "tree_inv K C l (2 + (2 + (2 + p))) (fsys v)" by (rule tree_inv_mono [OF inv]) simp_all
  from ialloc_tree [OF this T_types(1) n] obtain s1 where a: "ialloc T_DIR 0 0 (fsys v) = (Some n, s1)"
      "inode_table s1 = (inode_table (fsys v))(n := new_inode n T_DIR 0)" and i1: "tree_inv K1 C l (2 + (2 + (2 + p))) s1"
    by (auto simp: K1_def)
  define s2 where "s2 = set_nlink n (\<lambda>_. 2) s1"
  have i2: "tree_inv K1 C l (2 + (2 + (2 + p))) s2" using i1 by (simp add: s2_def)
  have K1: "K1 ROOTINO = Some (T_DIR, mj, M)" "K1 n = Some (T_DIR, 0, Map.empty)" "K1 n \<noteq> None" using K(1) nr by (simp_all add: K1_def)
  define K3 where "K3 = K1(ROOTINO \<mapsto> (T_DIR, mj, M(name \<mapsto> n)))"
  obtain s3 where b: "dirlink (fsenv env) ROOTINO name n s2 = Some (0, s3)" and i3: "tree_inv K3 C (l + 44) (2 + (2 + p)) s3"
    using dirlink_tree [OF i2 K1(1) K(2) name(2) K1(3)] l by (fastforce simp: K3_def)
  have K3: "K3 n = Some (T_DIR, 0, Map.empty)" "K3 n \<noteq> None" "K3 ROOTINO \<noteq> None" using K1 nr by (simp_all add: K3_def)
  obtain s4 where c: "dirlink (fsenv env) n dot n s3 = Some (0, s4)" and i4: "tree_inv (K3(n \<mapsto> (T_DIR, 0, [dot \<mapsto> n]))) C (l + 88) (2 + p) s4"
    using dirlink_tree [OF i3 K3(1) _ dot_names(1) K3(2)] l by (fastforce simp: ac_simps)
  have K4: "(K3(n \<mapsto> (T_DIR, 0, [dot \<mapsto> n]))) n = Some (T_DIR, 0, [dot \<mapsto> n])" "(K3(n \<mapsto> (T_DIR, 0, [dot \<mapsto> n]))) ROOTINO \<noteq> None"
    using K3 nr by simp_all
  obtain s5 where d: "dirlink (fsenv env) n dotdot ROOTINO s4 = Some (0, s5)"
    and i5: "tree_inv (K3(n \<mapsto> (T_DIR, 0, [dot \<mapsto> n, dotdot \<mapsto> ROOTINO]))) C (l + 132) p s5"
    using dirlink_tree [OF i4 K4(1) _ dot_names(2) K4(2), of "fsenv env", unfolded fun_upd_upd] l dot_names(3) by (auto simp: ac_simps)
  define s6 where "s6 = set_nlink ROOTINO (\<lambda>k. k + 1) s5"
  have num: "inum (inode_table s1 n) = n" "inum (inode_table s3 n) = n" "inum (inode_table s4 ROOTINO) = ROOTINO"
    using tree_inv_used(4) [OF i1 K1(3)] tree_inv_used(4) [OF i3 K3(2)] tree_inv_used(4) [OF i4 K4(2)] by auto
  have "vfs_mkdir_at env None (SLASH # name) v = Some (0, v\<lparr>fsys := s6\<rparr>)"
    using root_parent [OF tree_invD(1) [OF inv] cwd name, of env] root_lookup [OF inv K(1) name(2), of env] K(2) root_backend [OF inv K(1)] a(1) b c d num
    by (simp add: vfs_mkdir_at_def vfs_ialloc_def on_fs_def node_def upd_nlink [where f = "\<lambda>_. 2"] upd_nlink [where f = "\<lambda>k. k + 1"] s2_def [symmetric] s6_def)
  moreover have "tree_inv (K(ROOTINO \<mapsto> (T_DIR, mj, M(name \<mapsto> n)), n \<mapsto> (T_DIR, 0, [dot \<mapsto> n, dotdot \<mapsto> ROOTINO]))) C (l + 132) p s6"
    using i5 nr by (simp add: s6_def K3_def K1_def fun_upd_twist [of n ROOTINO])
  moreover have "inode_table s6 j = inode_table (fsys v) j" if j: "j < MAX_INODES" "j \<noteq> ROOTINO" "j \<noteq> n" for j
  proof -
    have nl: "inode_table (set_nlink x g y) z = inode_table y z" if "z \<noteq> x" for x g y z using that by (simp add: set_nlink_def upd_inode_def)
    have "inode_table s3 j = inode_table s2 j"
      by (rule dirlink_meta(2) [OF tree_invD(1) [OF i2] tree_inv_dir(1,2) [OF i2 K1(1)] name(2) n0 b j(1,2)])
    moreover have "inode_table s4 j = inode_table s3 j"
      by (rule dirlink_meta(2) [OF tree_invD(1) [OF i3] tree_inv_dir(1,2) [OF i3 K3(1)] dot_names(1) n0 c j(1,3)])
    moreover have "inode_table s5 j = inode_table s4 j"
      by (rule dirlink_meta(2) [OF tree_invD(1) [OF i4] tree_inv_dir(1,2) [OF i4 K4(1)] dot_names(2) ROOTINO_bounds(1) d j(1,3)])
    ultimately show ?thesis using j a(2) nl by (simp add: s6_def s2_def)
  qed
  ultimately show ?thesis by blast
qed

lemma unlink_root:
  assumes inv: "tree_inv K C l (2 + p) (fsys v)" and cwd: "0 \<notin> set (fs_cwd v)" and l: "l \<le> 2097152"
    and K: "K ROOTINO = Some (T_DIR, mj, M)" "M name = Some i" and name: "elem_ok name" "name_ok name"
    and f: "K i = Some (T_FILE, mi, Mi)" "nlink (inode_table (fsys v) i) = 1"
    and only: "\<And>d mj M' nm. K d = Some (T_DIR, mj, M') \<Longrightarrow> M' nm = Some i \<Longrightarrow> d = ROOTINO \<and> nm = name"
  shows "\<exists>s. vfs_unlink_at env u None (SLASH # name) v = Some (0, v\<lparr>fsys := s\<rparr>) \<and>
    tree_inv (K(ROOTINO \<mapsto> (T_DIR, mj, M(name := None)), i := None)) (C(i := None)) l p s"
proof -
  note R = tree_inv_dir [OF inv K(1)]
  have i: "i \<noteq> 0" "i < MAX_INODES" "itype (inode_table (fsys v) i) = T_FILE" "i \<noteq> ROOTINO"
    using tree_inv_used [OF inv, of i] f(1) K(1) tree_invD(2) [OF inv] T_types(4) [symmetric] by (auto simp: skel_Some)
  obtain r s1 where un: "dirunlink (fsenv env) u ROOTINO name (fsys v) = Some (r, s1)"
    and i1: "tree_inv (K(ROOTINO \<mapsto> (T_DIR, mj, M(name := None)))) C l p s1"
    using dirunlink_tree [OF inv K name(2) l] by blast
  have nl: "nlink (inode_table s1 i) = 1"
    using metaD [OF dirunlink_meta [OF tree_invD(1) [OF inv] R(1,2) name(2) un i(2)]] f(2) by simp
  define s2 where "s2 = set_nlink i (\<lambda>k. k - 1) s1"
  have i2: "tree_inv (K(ROOTINO \<mapsto> (T_DIR, mj, M(name := None)))) C l p s2" using i1 by (simp add: s2_def)
  have nl2: "nlink (inode_table s2 i) = 0" using nl by (simp add: s2_def set_nlink_def upd_inode_def)
  have "tree_inv (K(ROOTINO \<mapsto> (T_DIR, mj, M(name := None)), i := None)) (C(i := None)) l p (ifree i s2)"
    by (rule ifree_tree [OF i2 i(2,4)]) (use only K(1) in \<open>auto split: if_splits\<close>)
  moreover have "vfs_unlink_at env u None (SLASH # name) v = Some (0, v\<lparr>fsys := ifree i s2\<rparr>)"
    using root_parent [OF tree_invD(1) [OF inv] cwd name, of env] root_lookup [OF inv K(1) name(2), of env] K(2) root_backend [OF inv K(1)] un i nl2
    by (simp add: vfs_unlink_at_def iget_Some node_def on_fs_def drop_link_def upd_nlink [where f = "\<lambda>k. k - 1"] s2_def [symmetric] vfs_ifree_def)
  ultimately show ?thesis by blast
qed

lemma rmdir_root:
  assumes inv: "tree_inv K C l (2 + p) (fsys v)" and cwd: "0 \<notin> set (fs_cwd v)" and l: "l \<le> 2097152"
    and K: "K ROOTINO = Some (T_DIR, mj, M)" "M name = Some i" and name: "elem_ok name" "name_ok name" and i: "i \<noteq> ROOTINO"
    and f: "K i = Some (T_DIR, mi, Mi)" "dom Mi \<subseteq> {dot, dotdot}"
    and only: "\<And>d mj M' nm. K d = Some (T_DIR, mj, M') \<Longrightarrow> d \<noteq> i \<Longrightarrow> M' nm = Some i \<Longrightarrow> d = ROOTINO \<and> nm = name"
  shows "\<exists>s. vfs_rmdir_at env u None (SLASH # name) v = Some (0, v\<lparr>fsys := s\<rparr>) \<and>
    tree_inv (K(ROOTINO \<mapsto> (T_DIR, mj, M(name := None)), i := None)) (C(i := None)) l p s"
proof -
  note R = tree_inv_dir [OF inv K(1)] and I = tree_inv_dir [OF inv f(1)] and U = tree_inv_used [OF inv, of i]
  have i0: "i \<noteq> 0" "itype (inode_table (fsys v) i) = T_DIR" using U f(1) I(2) by auto
  have empty: "isdirempty i (fsys v) = Some True"
    using isdirempty_correct [of i "fsys v"] img_okD(1,4) [OF tree_invD(1) [OF inv]] I f(2) by (simp add: dir_ok_def)
  obtain r s1 where un: "dirunlink (fsenv env) u ROOTINO name (fsys v) = Some (r, s1)"
    and i1: "tree_inv (K(ROOTINO \<mapsto> (T_DIR, mj, M(name := None)))) C l p s1"
    using dirunlink_tree [OF inv K name(2) l] by blast
  define s2 where "s2 = (if nlink (inode_table s1 ROOTINO) \<noteq> 0 then set_nlink ROOTINO (\<lambda>k. k - 1) s1 else s1)"
  define s3 where "s3 = set_nlink i (\<lambda>_. 0) s2"
  have i3: "tree_inv (K(ROOTINO \<mapsto> (T_DIR, mj, M(name := None)))) C l p s3" using i1 by (simp add: s3_def s2_def)
  have "tree_inv (K(ROOTINO \<mapsto> (T_DIR, mj, M(name := None)), i := None)) (C(i := None)) l p (ifree i s3)"
    by (rule ifree_tree [OF i3 I(1) i]) (use only K(1) in \<open>auto split: if_splits\<close>)
  moreover have "vfs_rmdir_at env u None (SLASH # name) v = Some (0, v\<lparr>fsys := ifree i s3\<rparr>)"
    using root_parent [OF tree_invD(1) [OF inv] cwd name, of env] root_lookup [OF inv K(1) name(2), of env] K(2) root_backend [OF inv K(1)] un i0 I(1) empty
    by (simp add: vfs_rmdir_at_def iget_Some node_def on_fs_def upd_nlink [where f = "\<lambda>k. k - 1"] upd_nlink [where f = "\<lambda>_. 0"] s3_def s2_def vfs_ifree_def)
  ultimately show ?thesis by blast
qed

section \<open>The self test passes\<close>

definition selftest_name :: "u8 list" where "selftest_name = bytes_of ''selftest''"
definition selftest_dir_name :: "u8 list" where "selftest_dir_name = bytes_of ''selftest_dir''"

lemma selftest_names:
  "selftest_path = SLASH # selftest_name" "selftest_dir = SLASH # selftest_dir_name" "elem_ok selftest_name" "name_ok selftest_name"
  "elem_ok selftest_dir_name" "name_ok selftest_dir_name" "selftest_name \<noteq> selftest_dir_name" "length payload = 25" "cstr payload = payload"
  by (simp_all add: selftest_path_def selftest_dir_def selftest_name_def selftest_dir_name_def payload_def bytes_of_def of_char_def SLASH_def
      elem_ok_def name_ok_def cstr_def)

lemma selftest_file:
  assumes inv: "tree_inv K C l (4 + p) (fsys v)" and fr: "fref (ftable v 0) = 0" and cwd: "0 \<notin> set (fs_cwd v)"
    and K: "K ROOTINO = Some (T_DIR, mj, M)" "M selftest_name = None" and l: "l + 44 \<le> 2097152"
    and n: "1 \<le> n" "n < MAX_INODES" "K n = None" "\<And>j. 1 \<le> j \<Longrightarrow> j < n \<Longrightarrow> K j \<noteq> None"
  shows "\<exists>v1 r v2 v4 v5 s x. vfs_open env selftest_path (O_CREAT OR O_RDWR OR O_TRUNC) v = Some (Some 0, v1) \<and>
    filewrite env 0 payload (int (length payload)) v1 = Some (r, v2) \<and> vfs_open env selftest_path O_RDONLY (fileclose env 0 v2) = Some (Some 0, v4) \<and>
    fileread env 0 63 v4 = Some (25, payload, v5) \<and> fileclose env 0 v5 = v\<lparr>fsys := s, ftable := (ftable v)(0 := x)\<rparr> \<and> fref x = 0 \<and>
    tree_inv (K(n \<mapsto> (T_FILE, 0, Map.empty), ROOTINO \<mapsto> (T_DIR, mj, M(selftest_name \<mapsto> n)))) (C(n \<mapsto> payload)) (l + 44) p s \<and> nlink (inode_table s n) = 1"
proof -
  note N = selftest_names
  define K1 where "K1 = K(n \<mapsto> (T_FILE, 0, Map.empty), ROOTINO \<mapsto> (T_DIR, mj, M(selftest_name \<mapsto> n)))"
  have "tree_inv K C l (2 + (2 + p)) (fsys v)" by (rule tree_inv_mono [OF inv]) simp_all
  from open_creates [OF this fr cwd K N(3,4) n l] obtain s1 where
    o1: "vfs_open env selftest_path (O_CREAT OR O_RDWR OR O_TRUNC) v = Some (Some 0, v\<lparr>fsys := s1, ftable := (ftable v)(0 := opened n True True)\<rparr>)"
    and i1: "tree_inv K1 (C(n \<mapsto> [])) (l + 44) (2 + p) s1" and d1: "nlink (inode_table s1 n) = 1" "ibackend (inode_table s1 n) = INODE_MEM"
    by (auto simp: K1_def N(1))
  define v1 where "v1 = v\<lparr>fsys := s1, ftable := (ftable v)(0 := opened n True True)\<rparr>"
  have v1: "fsys v1 = s1" "ftable v1 0 = opened n True True" by (simp_all add: v1_def)
  have "tree_inv K1 (C(n \<mapsto> [])) (l + 44) (length payload div 4096 + 2 + p) (fsys v1)" using i1 by (simp add: N(8) v1)
  from write_first [OF this v1(2), of env] d1(2) N(8) obtain r y s2 where
    w: "filewrite env 0 payload (int (length payload)) v1 = Some (r, v1\<lparr>fsys := s2, ftable := (ftable v1)(0 := (opened n True True)\<lparr>foff := y\<rparr>)\<rparr>)"
    and i2: "tree_inv K1 (C(n \<mapsto> payload)) (l + 44) p s2" and m2: "\<forall>j < MAX_INODES. meta (inode_table s2 j) = meta (inode_table s1 j)"
    by (auto simp: v1)
  have d2: "nlink (inode_table s2 n) = 1" "ibackend (inode_table s2 n) = INODE_MEM" using m2 n(2) metaD d1 by metis+
  define v2 where "v2 = v1\<lparr>fsys := s2, ftable := (ftable v1)(0 := (opened n True True)\<lparr>foff := y\<rparr>)\<rparr>"
  define v3 where "v3 = v\<lparr>fsys := s2, ftable := (ftable v)(0 := closed (opened n True True))\<rparr>"
  have c3: "fileclose env 0 v2 = v3" using close_first [where v = v2 and i = n and a = True and b = True and y = y and env = env] d2(1) by (simp add: v2_def v3_def v1_def)
  have v3: "fsys v3 = s2" "fref (ftable v3 0) = 0" "fs_cwd v3 = fs_cwd v" by (simp_all add: v3_def closed_def)
  have nr: "n \<noteq> ROOTINO" using K(1) n(3) by auto
  have K1: "K1 ROOTINO = Some (T_DIR, mj, M(selftest_name \<mapsto> n))" "K1 n = Some (T_FILE, 0, Map.empty)" using nr by (simp_all add: K1_def)
  have ty: "itype (inode_table s2 n) = T_FILE" using K1(2) tree_invD(2) [OF i2] by (auto simp: skel_Some)
  define v4 where "v4 = v3\<lparr>ftable := (ftable v3)(0 := opened n True False)\<rparr>"
  have o4: "vfs_open env selftest_path O_RDONLY v3 = Some (Some 0, v4)"
    using open_again [OF i2 [folded v3(1)] v3(2) _ K1(1) _ N(3,4), where n = n and env = env] cwd ty d2(2) by (simp add: v3 v4_def N(1))
  have v4: "ftable v4 0 = opened n True False" "fsys v4 = s2" by (simp_all add: v4_def v3(1))
  obtain z where rd: "fileread env 0 63 v4 = Some (25, payload, v4\<lparr>ftable := (ftable v4)(0 := (opened n True False)\<lparr>foff := z\<rparr>)\<rparr>)"
    using read_first [OF i2 [folded v4(2)] v4(1), where bs = payload and k = 63 and env = env] d2(2) N(8) by (auto simp: v4)
  define v5 where "v5 = v4\<lparr>ftable := (ftable v4)(0 := (opened n True False)\<lparr>foff := z\<rparr>)\<rparr>"
  have c6: "fileclose env 0 v5 = v\<lparr>fsys := s2, ftable := (ftable v)(0 := closed (opened n True False))\<rparr>"
    using close_first [where v = v5 and i = n and a = True and b = False and y = z and env = env] d2(1) by (simp add: v5_def v4_def v3_def)
  have fx: "fref (closed (opened n True False)) = 0" by (simp add: closed_def)
  show ?thesis
    using o1 [folded v1_def] w [folded v2_def] o4 [folded c3] rd [folded v5_def] c6 fx i2 [unfolded K1_def] d2(1) by blast
qed

lemma tree_entries:
  assumes "tree_inv K C l p s" "K d = Some (T_DIR, mj, M)" "M nm = Some i"
  shows "K i \<noteq> None"
proof -
  note D = tree_invD [OF assms(1)] and R = tree_inv_dir [OF assms(1,2)]
  have "i < MAX_INODES" "itype (inode_table s i) \<noteq> 0" using img_okD(5) [OF D(1) R(1,2), of nm i] assms(3) R(4) by auto
  then have "skel s i \<noteq> None" by (simp add: skel_def)
  then show ?thesis using D(2) by simp
qed

lemma stored_used:
  assumes "tree_inv K C l p s" "K i = None"
  shows "C i = None"
proof (rule ccontr)
  assume "C i \<noteq> None"
  then have "skel s i \<noteq> None" using storedD [OF tree_invD(6) [OF assms(1)], of i] by (auto simp: skel_def)
  then show False using assms(2) tree_invD(2) [OF assms(1)] by simp
qed

lemma selftest_dirs:
  assumes inv0: "tree_inv K C l0 p0 s0" and K: "K ROOTINO = Some (T_DIR, mj, M)" "M selftest_name = None" "M selftest_dir_name = None"
    and cwd: "0 \<notin> set (fs_cwd v)"
    and inv: "tree_inv (K(n \<mapsto> (T_FILE, 0, Map.empty), ROOTINO \<mapsto> (T_DIR, mj, M(selftest_name \<mapsto> n)))) (C(n \<mapsto> payload)) l (10 + p) (fsys v)"
    and nl: "nlink (inode_table (fsys v) n) = 1" and l: "l + 132 \<le> 2097152" and n: "n < MAX_INODES" "K n = None"
    and d: "1 \<le> d" "d < MAX_INODES" "K d = None" "d \<noteq> n" "\<And>j. 1 \<le> j \<Longrightarrow> j < d \<Longrightarrow> j \<noteq> n \<Longrightarrow> K j \<noteq> None"
  shows "\<exists>v1 v3 s. vfs_mkdir_at env None selftest_dir v = Some (0, v1) \<and> namei env selftest_dir v1 = Some (Some d, v1) \<and>
    st_type (stati d (fsys v1)) = ucast T_DIR \<and> vfs_unlink_at env u None selftest_path v1 = Some (0, v3) \<and>
    vfs_rmdir_at env u None selftest_dir v3 = Some (0, v\<lparr>fsys := s\<rparr>) \<and> tree_inv K C (l + 132) p s"
proof -
  note N = selftest_names
  define Ma where "Ma = M(selftest_name \<mapsto> n)"
  define K1 where "K1 = K(n \<mapsto> (T_FILE, 0, Map.empty), ROOTINO \<mapsto> (T_DIR, mj, Ma))"
  define C1 where "C1 = C(n \<mapsto> payload)"
  define Mb where "Mb = Ma(selftest_dir_name \<mapsto> d)"
  have Ma: "Ma selftest_dir_name = None" "Mb selftest_name = Some n" "Mb selftest_dir_name = Some d" "Mb x = Some n \<Longrightarrow> M x \<noteq> Some n \<Longrightarrow> x = selftest_name"
      "Mb x = Some d \<Longrightarrow> M x \<noteq> Some d \<Longrightarrow> x = selftest_dir_name" for x
    using N(7) K(3) d(4) by (auto simp: Ma_def Mb_def split: if_splits)
  have ne: "n \<noteq> ROOTINO" "d \<noteq> ROOTINO" using K(1) n(2) d(3) by auto
  have i0: "tree_inv K1 C1 l (6 + (2 + (2 + p))) (fsys v)" unfolding K1_def C1_def Ma_def by (rule tree_inv_mono [OF inv]) simp_all
  have K1: "K1 ROOTINO = Some (T_DIR, mj, Ma)" "K1 d = None" using ne d(3,4) by (simp_all add: K1_def)
  have least: "K1 j \<noteq> None" if "1 \<le> j" "j < d" for j using d(5) [OF that] by (cases "j = n") (auto simp: K1_def)
  define K2 where "K2 = K1(ROOTINO \<mapsto> (T_DIR, mj, Mb), d \<mapsto> (T_DIR, 0, [dot \<mapsto> d, dotdot \<mapsto> ROOTINO]))"
  obtain s1 where mk: "vfs_mkdir_at env None selftest_dir v = Some (0, v\<lparr>fsys := s1\<rparr>)" and i1: "tree_inv K2 C1 (l + 132) (2 + (2 + p)) s1"
    and f1: "\<forall>j < MAX_INODES. j \<noteq> ROOTINO \<longrightarrow> j \<noteq> d \<longrightarrow> inode_table s1 j = inode_table (fsys v) j"
    using mkdir_root [OF i0 cwd K1(1) Ma(1) N(5,6) d(1,2) K1(2) least l, where env = env] unfolding K2_def N(2) Mb_def by blast
  define v1 where "v1 = v\<lparr>fsys := s1\<rparr>"
  have v1: "fsys v1 = s1" "fs_cwd v1 = fs_cwd v" "v1\<lparr>fsys := s\<rparr> = v\<lparr>fsys := s\<rparr>" for s by (simp_all add: v1_def)
  have i1': "tree_inv K2 C1 (l + 132) (2 + (2 + p)) (fsys v1)" and cwd1: "0 \<notin> set (fs_cwd v1)" using i1 cwd by (simp_all add: v1)
  have K2: "K2 ROOTINO = Some (T_DIR, mj, Mb)" "K2 d = Some (T_DIR, 0, [dot \<mapsto> d, dotdot \<mapsto> ROOTINO])" "K2 n = Some (T_FILE, 0, Map.empty)"
    using ne d(4) by (simp_all add: K2_def K1_def)
  have K2': "K2 e = K e" if "e \<noteq> ROOTINO" "e \<noteq> d" "e \<noteq> n" for e using that by (simp add: K2_def K1_def)
  have nm: "namei env selftest_dir v1 = Some (Some d, v1)"
    unfolding N(2) by (rule root_find [OF i1' K2(1) Ma(3) cwd1 N(5,6)])
  have ty: "st_type (stati d (fsys v1)) = ucast T_DIR" using tree_inv_dir(2) [OF i1' K2(2)] by (simp add: stati_def Let_def)
  have old: "x \<noteq> n \<and> x \<noteq> d" if "K e = Some (T_DIR, mj', M')" "M' nm' = Some x" for e mj' M' nm' x
    using tree_entries [OF inv0 that] n(2) d(3) by auto
  have nl1: "nlink (inode_table (fsys v1) n) = 1" using f1 n(1) ne(1) d(4) nl by (simp add: v1)
  have only1: "e = ROOTINO \<and> nm' = selftest_name" if e: "K2 e = Some (T_DIR, mj', M')" "M' nm' = Some n" for e mj' M' nm'
  proof -
    have "e \<noteq> n" using e(1) K2(3) T_types(4) by auto
    moreover have "e \<noteq> d" using e K2(2) ne d(4) by (auto split: if_splits)
    ultimately have "e = ROOTINO" using e K2' [of e] old [of e mj' M' nm' n] by metis
    then show ?thesis using e K2(1) Ma(4) [of nm'] old [OF K(1), of nm' n] by auto
  qed
  define Mc where "Mc = Mb(selftest_name := None)"
  define K3 where "K3 = K2(ROOTINO \<mapsto> (T_DIR, mj, Mc), n := None)"
  define C3 where "C3 = C1(n := None)"
  obtain s3 where un: "vfs_unlink_at env u None selftest_path v1 = Some (0, v1\<lparr>fsys := s3\<rparr>)" and i3: "tree_inv K3 C3 (l + 132) (2 + p) s3"
  proof -
    have "\<exists>s. vfs_unlink_at env u None (SLASH # selftest_name) v1 = Some (0, v1\<lparr>fsys := s\<rparr>) \<and> tree_inv K3 C3 (l + 132) (2 + p) s"
      unfolding K3_def Mc_def C3_def by (rule unlink_root [OF i1' cwd1 l K2(1) Ma(2) N(3,4) K2(3) nl1], erule (1) only1)
    then show ?thesis using that unfolding N(1) by blast
  qed
  define v3 where "v3 = v1\<lparr>fsys := s3\<rparr>"
  have v3: "fsys v3 = s3" "fs_cwd v3 = fs_cwd v" "v3\<lparr>fsys := s\<rparr> = v\<lparr>fsys := s\<rparr>" for s by (simp_all add: v3_def v1_def)
  have i3': "tree_inv K3 C3 (l + 132) (2 + p) (fsys v3)" and cwd3: "0 \<notin> set (fs_cwd v3)" using i3 cwd by (simp_all add: v3)
  have K3: "K3 ROOTINO = Some (T_DIR, mj, Mc)" "K3 d = Some (T_DIR, 0, [dot \<mapsto> d, dotdot \<mapsto> ROOTINO])" "Mc selftest_dir_name = Some d"
      "dom [dot \<mapsto> d, dotdot \<mapsto> ROOTINO] \<subseteq> {dot, dotdot}"
    using ne d(4) K2(2) N(7) Ma(3) by (auto simp: K3_def Mc_def)
  have only3: "e = ROOTINO \<and> nm' = selftest_dir_name" if e: "K3 e = Some (T_DIR, mj', M')" "e \<noteq> d" "M' nm' = Some d" for e mj' M' nm'
  proof -
    have "e \<noteq> n" using e(1) ne by (auto simp: K3_def)
    then have "e = ROOTINO \<or> K3 e = K e" using e(2) K2' [of e] by (auto simp: K3_def)
    then have "e = ROOTINO" using e old [of e mj' M' nm' d] by metis
    moreover have "M' = Mc" using calculation e(1) K3(1) by simp
    ultimately show ?thesis using e(3) Ma(5) [of nm'] old [OF K(1), of nm' d] by (auto simp: Mc_def split: if_splits)
  qed
  obtain s4 where rm: "vfs_rmdir_at env u None selftest_dir v3 = Some (0, v3\<lparr>fsys := s4\<rparr>)"
    and i4: "tree_inv (K3(ROOTINO \<mapsto> (T_DIR, mj, Mc(selftest_dir_name := None)), d := None)) (C3(d := None)) (l + 132) p s4"
  proof -
    have "\<exists>s. vfs_rmdir_at env u None (SLASH # selftest_dir_name) v3 = Some (0, v3\<lparr>fsys := s\<rparr>) \<and>
        tree_inv (K3(ROOTINO \<mapsto> (T_DIR, mj, Mc(selftest_dir_name := None)), d := None)) (C3(d := None)) (l + 132) p s"
      by (rule rmdir_root [OF i3' cwd3 l K3(1,3) N(5,6) ne(2) K3(2,4)], erule (2) only3)
    then show ?thesis using that unfolding N(2) by blast
  qed
  have "Mc(selftest_dir_name := None) = M" using K(2,3) by (auto simp: Mc_def Mb_def Ma_def)
  then have "K3(ROOTINO \<mapsto> (T_DIR, mj, Mc(selftest_dir_name := None)), d := None) = K"
    using ne K(1) n(2) d(3,4) by (auto simp: K3_def K2_def K1_def fun_eq_iff)
  moreover have "C3(d := None) = C"
    using stored_used [OF inv0, of n] stored_used [OF inv0, of d] n(2) d(3) by (auto simp: C3_def C1_def fun_eq_iff)
  ultimately have "tree_inv K C (l + 132) p s4" using i4 by simp
  then show ?thesis using mk [folded v1_def] nm ty un [folded v3_def] rm [unfolded v3(3)] by blast
qed

lemma selftest_verdict:
  assumes inv: "boot_inv n K C l (14 + p) (fsys v)" and fr: "fref (ftable v 0) = 0" and cwd: "0 \<notin> set (fs_cwd v)"
    and K: "K ROOTINO = Some (T_DIR, mj, M)" "M selftest_name = None" "M selftest_dir_name = None"
    and n: "1 \<le> n" "n + 1 < MAX_INODES" "n < n + 1" and l: "l + 176 \<le> 2097152"
  shows "\<exists>s x. fs_selftest env u v = Some (Verdict True True, v\<lparr>fsys := s, ftable := (ftable v)(0 := x)\<rparr>) \<and> fref x = 0 \<and>
    boot_inv n K C (l + 176) p s"
proof -
  note N = selftest_names
  have T: "tree_inv K C l (14 + p) (fsys v)" and used: "\<And>j. K j \<noteq> None \<longleftrightarrow> 1 \<le> j \<and> j < n" using inv by (simp_all add: boot_inv_tree)
  have n': "n < MAX_INODES" "K n = None" "\<And>j. 1 \<le> j \<Longrightarrow> j < n \<Longrightarrow> K j \<noteq> None"
    using less_trans [OF n(3,2)] used [of n] used by (blast, metis less_irrefl, blast)
  have un: "unat (n + 1) = unat n + 1" using unat_plus1_less [OF n'(1)] by simp
  have d: "1 \<le> n + 1" "K (n + 1) = None" "n + 1 \<noteq> n" "\<And>j. 1 \<le> j \<Longrightarrow> j < n + 1 \<Longrightarrow> j \<noteq> n \<Longrightarrow> K j \<noteq> None"
  proof -
    show "1 \<le> n + 1" "n + 1 \<noteq> n" using un n(1) by (auto simp: word_le_nat_alt)
    show "K (n + 1) = None" using used [of "n + 1"] n(3) by (meson less_asym)
    fix j assume j: "1 \<le> j" "j < n + 1" "j \<noteq> n"
    then have "j < n" using un by (auto simp: word_less_nat_alt word_unat_eq_iff)
    then show "K j \<noteq> None" using n'(3) j(1) by blast
  qed
  have "tree_inv K C l (4 + (10 + p)) (fsys v)" by (rule tree_inv_mono [OF T]) simp_all
  from selftest_file [OF this fr cwd K(1,2) _ n(1) n', where env = env] l obtain v1 r v2 v4 v5 s x where
    F: "vfs_open env selftest_path (O_CREAT OR O_RDWR OR O_TRUNC) v = Some (Some 0, v1)"
      "filewrite env 0 payload (int (length payload)) v1 = Some (r, v2)" "vfs_open env selftest_path O_RDONLY (fileclose env 0 v2) = Some (Some 0, v4)"
      "fileread env 0 63 v4 = Some (25, payload, v5)" "fileclose env 0 v5 = v\<lparr>fsys := s, ftable := (ftable v)(0 := x)\<rparr>" "fref x = 0"
      "tree_inv (K(n \<mapsto> (T_FILE, 0, Map.empty), ROOTINO \<mapsto> (T_DIR, mj, M(selftest_name \<mapsto> n)))) (C(n \<mapsto> payload)) (l + 44) (10 + p) s"
      "nlink (inode_table s n) = 1" by auto
  define w where "w = v\<lparr>fsys := s, ftable := (ftable v)(0 := x)\<rparr>"
  have w: "fsys w = s" "0 \<notin> set (fs_cwd w)" using cwd by (simp_all add: w_def)
  obtain w1 w3 s' where G: "vfs_mkdir_at env None selftest_dir w = Some (0, w1)" "namei env selftest_dir w1 = Some (Some (n + 1), w1)"
      "st_type (stati (n + 1) (fsys w1)) = ucast T_DIR" "vfs_unlink_at env u None selftest_path w1 = Some (0, w3)"
      "vfs_rmdir_at env u None selftest_dir w3 = Some (0, w\<lparr>fsys := s'\<rparr>)" "tree_inv K C (l + 44 + 132) p s'"
    using selftest_dirs [OF T K w(2) F(7) [folded w(1)] F(8) [folded w(1)] _ n'(1,2) d(1) n(2) d(2-4), where env = env and u = u] l by auto
  have "fs_selftest env u v = Some (Verdict True True, w\<lparr>fsys := s'\<rparr>)"
    using F(1-4) F(5) [folded w_def] G(1-5) N(8,9) by (simp add: fs_selftest_def)
  moreover have "boot_inv n K C (l + 176) p s'" using G(6) used by (simp add: boot_inv_tree ac_simps)
  moreover have "w\<lparr>fsys := s'\<rparr> = v\<lparr>fsys := s', ftable := (ftable v)(0 := x)\<rparr>" by (simp add: w_def)
  ultimately show ?thesis using F(6) by metis
qed

text \<open>The program tables the build generates, as the theorems assume them.\<close>

definition tables_ok :: "(u8 list \<times> u8 list) list \<Rightarrow> u8 list list \<Rightarrow> bool" where
  "tables_ok progs applets \<longleftrightarrow> distinct (map fst progs) \<and> length progs \<le> 110 \<and> length applets \<le> 47000 \<and> (\<forall>name \<in> set applets. name_ok name) \<and>
     (\<forall>(name, img) \<in> set progs. name_ok name \<and> name \<noteq> dot \<and> name \<noteq> dotdot \<and> 0 < length img \<and> length img \<le> 2097152)"

lemma fs_init_exact:
  assumes tab: "tables_ok progs applets" and mem: "pmm_inv (frames (mach (fsys v)))"
      "42 + program_pages progs + 2 * length applets + p \<le> card (free_pages (frames (mach (fsys v))))"
  shows "\<exists>v' K C M l. fs_init env progs applets v = Some v' \<and> bin_ok progs applets K C M \<and>
    boot_inv (12 + of_nat (length progs)) K C l p (fsys v') \<and> l \<le> 2096000 \<and> ftable v' = (\<lambda>_. zero_file) \<and> v' = v\<lparr>fsys := fsys v', ftable := ftable v'\<rparr>"
proof -
  have T: "distinct (map fst progs)" "length progs \<le> 116" "length progs \<le> 110" "length applets \<le> 47000" "\<forall>name \<in> set applets. name_ok name"
    "\<forall>(name, img) \<in> set progs. name_ok name \<and> name \<noteq> dot \<and> name \<noteq> dotdot \<and> 0 < length img \<and> length img \<le> 2097152"
    using tab by (auto simp: tables_ok_def)
  obtain s' K C M where run: "fs_tree (fsenv env) progs applets (fsys v) = Some s'" and B: "bin_ok progs applets K C M"
    and i: "boot_inv (12 + of_nat (length progs)) K C (792 + 44 * length progs + 44 * length applets) p s'"
    using fs_tree_exact [OF mem T(1,2,6,5,4), where env = "fsenv env"] by blast
  have "fs_init env progs applets v = Some ((fileinit v)\<lparr>fsys := s'\<rparr>)" using run by (simp add: fs_init_def fileinit_def)
  moreover have "792 + 44 * length progs + 44 * length applets \<le> 2096000" using T(3,4) by simp
  ultimately show ?thesis using B i
    by (intro exI [of _ "(fileinit v)\<lparr>fsys := s'\<rparr>"] exI [of _ K] exI [of _ C] exI [of _ M] exI [of _ "792 + 44 * length progs + 44 * length applets"])
      (simp add: fileinit_def)
qed

lemma root_without_selftest:
  "bin_ok progs applets K C M \<Longrightarrow> K ROOTINO = boot_tree 1"
  using boot_tree_root by (simp add: bin_ok_def ROOTINO_def)

lemma selftest_names_new: "selftest_name \<notin> {dot, dotdot, dev_name, etc_name, hello_name, host_name, bin_name}"
  "selftest_dir_name \<notin> {dot, dotdot, dev_name, etc_name, hello_name, host_name, bin_name}"
  by (simp_all add: selftest_name_def selftest_dir_name_def boot_names of_char_def)

lemma selftest_after_init:
  assumes tab: "tables_ok progs applets" and B: "bin_ok progs applets K C M" and inv: "boot_inv (12 + of_nat (length progs)) K C l (14 + p) (fsys v)"
    and l: "l \<le> 2096000" and fr: "fref (ftable v 0) = 0" and cwd: "0 \<notin> set (fs_cwd v)"
  shows "\<exists>s x. fs_selftest env u v = Some (Verdict True True, v\<lparr>fsys := s, ftable := (ftable v)(0 := x)\<rparr>) \<and> fref x = 0 \<and>
    boot_inv (12 + of_nat (length progs)) K C (l + 176) p s"
proof (rule selftest_verdict [OF inv fr cwd])
  show "K ROOTINO = Some (T_DIR, 0, [dot \<mapsto> 1, dotdot \<mapsto> 1, dev_name \<mapsto> 2, etc_name \<mapsto> 6, hello_name \<mapsto> 9, host_name \<mapsto> 10, bin_name \<mapsto> 11])"
    using root_without_selftest [OF B] boot_tree_root by simp
  have u: "unat (12 + of_nat (length progs) :: u32) = 12 + length progs" and len: "length progs \<le> 110"
    using tab by (auto simp: tables_ok_def unat_word_ariths unat_of_nat)
  then have "unat (12 + of_nat (length progs) + 1 :: u32) = 13 + length progs" by (subst unat_plus_if') simp
  with u len show "1 \<le> 12 + (of_nat (length progs) :: u32)" "12 + of_nat (length progs) + 1 < MAX_INODES" "12 + of_nat (length progs) < 12 + of_nat (length progs) + (1 :: u32)"
    by (simp_all add: word_le_nat_alt word_less_nat_alt MAX_INODES_def)
  show "l + 176 \<le> 2097152" using l by simp
qed (use selftest_names_new in auto)

text \<open>
  (C14) The self test of the file system passes: on the tree \<open>fs_init\<close> has built, with 14 pages left, \<open>fs_selftest\<close> creates and writes its
  file through \<open>vfs_open\<close> and \<open>filewrite\<close>, reads the same bytes back, makes a directory and finds it as one, removes both again, and so
  returns the verdict that is printed as PASS. It leaves the tree as it found it: the same inodes with the same types and
  names, well formed, and no file open.
\<close>

theorem fs_selftest_passes:
  assumes "tables_ok progs applets" and "pmm_inv (frames (mach (fsys v)))"
      "56 + program_pages progs + 2 * length applets \<le> card (free_pages (frames (mach (fsys v))))" and "0 \<notin> set (fs_cwd v)"
  shows "\<exists>v1 v2. fs_init env progs applets v = Some v1 \<and> fs_selftest env u v1 = Some (Verdict True True, v2) \<and>
    tree_ok (fsys v2) \<and> no_dangling (fsys v2) \<and> skel (fsys v2) = skel (fsys v1) \<and> (\<forall>f. fref (ftable v2 f) = 0)"
proof -
  have m: "42 + program_pages progs + 2 * length applets + (14 + 0) \<le> card (free_pages (frames (mach (fsys v))))" using assms(3) by simp
  obtain v1 K C M l where I: "fs_init env progs applets v = Some v1" "bin_ok progs applets K C M"
      "boot_inv (12 + of_nat (length progs)) K C l (14 + 0) (fsys v1)" "l \<le> 2096000" "ftable v1 = (\<lambda>_. zero_file)"
      "v1 = v\<lparr>fsys := fsys v1, ftable := ftable v1\<rparr>"
    using fs_init_exact [OF assms(1,2) m, where env = env] by blast
  have cwd: "0 \<notin> set (fs_cwd v1)" using assms(4) by (subst I(6)) simp
  have z: "fref (ftable v1 0) = 0" by (simp add: I(5) zero_file_def)
  obtain s x where R: "fs_selftest env u v1 = Some (Verdict True True, v1\<lparr>fsys := s, ftable := (ftable v1)(0 := x)\<rparr>)" "fref x = 0"
      "boot_inv (12 + of_nat (length progs)) K C (l + 176) 0 s"
    using selftest_after_init [OF assms(1) I(2,3,4) z cwd, where env = env and u = u] by blast
  have "skel s = skel (fsys v1)" using boot_invD(2) [OF R(3)] boot_invD(2) [OF I(3)] by simp
  with I(1,5) R img_ok_tree [OF boot_invD(1) [OF R(3)]] img_ok_no_dangling [OF boot_invD(1) [OF R(3)]] show ?thesis
    by (intro exI [of _ v1] exI [of _ "v1\<lparr>fsys := s, ftable := (ftable v1)(0 := x)\<rparr>"]) (simp add: zero_file_def)
qed

theorem fs_selftest_passes_witness:
  "\<exists>v1 v2. fs_init vfs_env_example [(bytes_of ''sh'', [1, 2, 3])] [] vfs_example = Some v1 \<and> fs_selftest vfs_env_example 0 v1 = Some (Verdict True True, v2)"
proof -
  have "tables_ok [(bytes_of ''sh'', [1, 2, 3])] []"
    by (simp add: tables_ok_def bytes_of_def of_char_def name_ok_def dot_def dotdot_def)
  moreover have "56 + program_pages [(bytes_of ''sh'', [1, 2, 3])] + 2 * length ([] :: u8 list list) \<le> card (free_pages (frames (mach (fsys vfs_example))))"
    using vfs_boot_example(2) by (simp add: program_pages_def)
  ultimately show ?thesis
    using fs_selftest_passes [of "[(bytes_of ''sh'', [1, 2, 3])]" "[]" vfs_example vfs_env_example 0] vfs_boot_example by auto
qed

end
