(* ===== verification/Boot_Processes.thy ===== *)
theory Boot_Processes
  imports Boot_Check Procfs Process_Table Descriptors
begin

text \<open>
  The last steps of the boot sequence: \<open>fs_procfs_init\<close> (\<open>kernel/fs/procfs.c\<close>), and \<open>fd_init\<close>, \<open>process_register_current\<close> and
  \<open>process_create_kernel\<close> (\<open>kernel/fs/fs.c\<close>, \<open>kernel/task/process.c\<close>) on a tree that has the console device.
\<close>

section \<open>The console in the tree\<close>

definition has_console :: "memfs \<Rightarrow> bool" where
  "has_console s \<longleftrightarrow> tree_ok s \<and> dir_wf s ROOTINO \<and> dir_wf s 2 \<and> itype (inode_table s 2) = T_DIR \<and> itype (inode_table s 3) = T_DEVICE \<and>
     dir_map s ROOTINO dev_name = Some 2 \<and> dir_map s 2 console_name = Some 3"

lemma console_names: "console_path = abs_path [dev_name, console_name]" "\<forall>c \<in> set [dev_name, console_name]. elem_ok c \<and> name_ok c"
  by (simp_all add: console_path_def abs_path_def render_def boot_names of_char_def SLASH_def elem_ok_def name_ok_def)

lemma console_found:
  assumes s: "has_console (fsys v)" and cwd: "0 \<notin> set (fs_cwd v)"
  shows "namei env console_path v = Some (Some 3, v)"
proof -
  note H = s [unfolded has_console_def]
  have r: "itype (inode_table (fsys v) ROOTINO) = T_DIR" using H by (simp add: tree_ok_def)
  have "iget 2 (fsys v) = Some 2" "iget 3 (fsys v) = Some 3" using H by (simp_all add: iget_Some MAX_INODES_def)
  then have "walk (fsenv env) (fsys v) ROOTINO [dev_name, console_name] = Inr 3"
    using H r by (simp add: dir_view_def dir_wf_def)
  with namei_tree [OF _ console_names(2) _ cwd] H show ?thesis by (simp add: console_names(1))
qed

lemma has_console_step:
  assumes s: "has_console s" and wf: "fs_wf s'"
    and old: "\<And>j. j < MAX_INODES \<Longrightarrow> j \<notin> X \<Longrightarrow> inode_table s' j = inode_table s j \<and> contents s' j = contents s j"
    and new: "\<And>j. j \<in> X \<Longrightarrow> itype (inode_table s' j) \<noteq> 0 \<Longrightarrow> inum (inode_table s' j) = j"
      "\<And>j. j \<in> X \<Longrightarrow> itype (inode_table s' j) = T_DIR \<Longrightarrow> ibackend (inode_table s' j) = INODE_PROCFS"
    and X: "ROOTINO \<notin> X" "2 \<notin> X" "3 \<notin> X"
  shows "has_console s'"
proof -
  note H = s [unfolded has_console_def tree_ok_def]
  have dm: "dir_map s' j = dir_map s j \<and> (dir_wf s' j \<longleftrightarrow> dir_wf s j)" if "j < MAX_INODES" "j \<notin> X" for j
    using old [OF that] by (simp add: dir_map_def dir_wf_def)
  have b: "(2 :: u32) < MAX_INODES" "(3 :: u32) < MAX_INODES" by (simp_all add: MAX_INODES_def)
  have "ibackend (inode_table s' d) = INODE_PROCFS \<or> dir_wf s' d" if "d < MAX_INODES" "itype (inode_table s' d) = T_DIR" for d
    using that new(2) old dm H by (cases "d \<in> X") auto
  moreover have "inum (inode_table s' d) = d" if "d < MAX_INODES" "itype (inode_table s' d) \<noteq> 0" for d
    using that new(1) old H by (cases "d \<in> X") auto
  ultimately have "tree_ok s'" using wf H old [OF _ X(1)] by (auto simp: tree_ok_def iget_def)
  then show ?thesis using H old X b dm by (simp add: has_console_def)
qed

section \<open>The process file system\<close>

lemma has_console_ialloc:
  assumes "has_console s" "ialloc T_FILE 0 0 s = (Some i, s1)"
  shows "has_console (upd_inode i (\<lambda>nd. nd\<lparr>ibackend := b, parent := q\<rparr>) s1)" "mach s1 = mach s"
proof -
  have i: "i \<noteq> 0" "i < MAX_INODES" "itype (inode_table s i) = 0" "s1 = upd_inode i (\<lambda>_. new_inode i T_FILE 0) s"
    using ialloc_cases [where ty = T_FILE and maj = 0 and s = s] assms(2) by auto
  define s2 where "s2 = upd_inode i (\<lambda>nd. nd\<lparr>ibackend := b, parent := q\<rparr>) s1"
  have wf: "fs_wf s1" using new_inode_wf [where s = s and n = i and ty = T_FILE and maj = 0 and t = T_FILE and l = 1] assms(1) i(4) by (simp add: new_inode_upd has_console_def tree_ok_def)
  have tab: "inode_table s2 j = (if j = i then (new_inode i T_FILE 0)\<lparr>ibackend := b, parent := q\<rparr> else inode_table s j)" "mach s2 = mach s" for j
    by (simp_all add: s2_def i(4) upd_inode_def)
  have "fs_wf s2" using wf by (simp add: fs_wf_def s2_def upd_inode_def)
  then have "has_console s2"
    by (rule has_console_step [OF assms(1), where X = "{i}"])
      (use assms(1) i(3) in \<open>auto simp: tab contents_def new_inode_def has_console_def tree_ok_def\<close>)
  then show "has_console (upd_inode i (\<lambda>nd. nd\<lparr>ibackend := b, parent := q\<rparr>) s1)" "mach s1 = mach s" by (simp_all add: s2_def i(4) upd_inode_def)
qed

lemma init_inodes_console:
  assumes "has_console (fsys v)" "init_inodes n proc ns v = (ns', v')"
  shows "\<exists>s. v' = v\<lparr>fsys := s\<rparr> \<and> has_console s \<and> mach s = mach (fsys v)"
  using assms
proof (induction n arbitrary: ns v)
  case 0
  then show ?case by (intro exI [of _ "fsys v"]) simp
next
  case (Suc n)
  obtain r s1 where a: "ialloc T_FILE 0 0 (fsys v) = (r, s1)" by fastforce
  show ?case
  proof (cases r)
    case None
    then have "s1 = fsys v" using ialloc_cases [where ty = T_FILE and maj = 0 and s = "fsys v"] a by simp
    then show ?thesis using Suc.prems a None by (intro exI [of _ "fsys v"]) (auto simp: vfs_ialloc_def)
  next
    case (Some i)
    note K = has_console_ialloc [OF Suc.prems(1) a [unfolded Some]]
    define v1 where "v1 = upd_node i (\<lambda>nd. nd\<lparr>ibackend := INODE_PROCFS, parent := inum (node (v\<lparr>fsys := s1\<rparr>) proc)\<rparr>) (v\<lparr>fsys := s1\<rparr>)"
    have v1: "has_console (fsys v1)" "mach (fsys v1) = mach (fsys v)" "v1\<lparr>fsys := s\<rparr> = v\<lparr>fsys := s\<rparr>" for s
      using K by (simp_all add: v1_def upd_node_def upd_inode_def)
    have "init_inodes n proc (ns @ [inum (node v1 i)]) v1 = (ns', v')"
      using Suc.prems(2) a Some by (simp add: vfs_ialloc_def v1_def Let_def)
    from Suc.IH [OF v1(1) this] v1(2,3) show ?thesis by simp
  qed
qed

lemma proc_names: "proc_path = SLASH # bytes_of ''proc''" "elem_ok (bytes_of ''proc'')" "name_ok (bytes_of ''proc'')"
  "bytes_of ''proc'' \<notin> {dot, dotdot, dev_name, etc_name, hello_name, host_name, bin_name}"
  by (simp_all add: proc_path_def bytes_of_def of_char_def SLASH_def elem_ok_def name_ok_def boot_names)

lemma tree_console:
  assumes inv: "tree_inv K C l p s" and K: "K ROOTINO = Some (T_DIR, mj, M)" "M dev_name = Some 2"
    "K 2 = Some (T_DIR, mj2, N)" "N console_name = Some 3" "K 3 = Some (T_DEVICE, mj3, L)"
  shows "has_console s"
proof -
  note D = tree_invD [OF inv] and R = tree_inv_dir [OF inv K(1)] and S = tree_inv_dir [OF inv K(3)]
  have "itype (inode_table s 3) = T_DEVICE" using K(5) D(2) by (auto simp: skel_Some)
  then show ?thesis using img_ok_tree [OF D(1)] img_okD(4) [OF D(1)] R S K(2,4) by (simp add: has_console_def)
qed

lemma procfs_init_console:
  assumes inv: "tree_inv K C l (6 + p) (fsys v)" and cwd: "0 \<notin> set (fs_cwd v)" and l: "l + 132 \<le> 2097152"
    and K: "K ROOTINO = Some (T_DIR, mj, M)" "M dev_name = Some 2" "K 2 = Some (T_DIR, mj2, N)" "N console_name = Some 3" "K 3 = Some (T_DEVICE, mj3, L)"
      "M (bytes_of ''proc'') = None"
    and n: "1 \<le> n" "n < MAX_INODES" "K n = None" "\<And>j. 1 \<le> j \<Longrightarrow> j < n \<Longrightarrow> K j \<noteq> None"
  shows "\<exists>ps ns s. fs_procfs_init env cpuid cpuid_max q v = Some (ps, ns, v\<lparr>fsys := s\<rparr>) \<and> has_console s \<and> p \<le> card (free_pages (frames (mach s)))"
proof -
  note N = proc_names
  define M1 where "M1 = M(bytes_of ''proc'' \<mapsto> n)"
  define K1 where "K1 = K(ROOTINO \<mapsto> (T_DIR, mj, M1), n \<mapsto> (T_DIR, 0, [dot \<mapsto> n, dotdot \<mapsto> ROOTINO]))"
  obtain s1 where mk: "vfs_mkdir_at env None proc_path v = Some (0, v\<lparr>fsys := s1\<rparr>)" and i1: "tree_inv K1 C (l + 132) p s1"
    using mkdir_root [OF inv cwd K(1,6) N(2,3) n l, where env = env] by (auto simp: N(1) K1_def M1_def)
  have ne: "n \<noteq> ROOTINO" "n \<noteq> 2" "n \<noteq> 3" using K(1,3,5) n(3) by auto
  have rt: "(2 :: u32) \<noteq> ROOTINO" "(3 :: u32) \<noteq> ROOTINO" "dev_name \<noteq> bytes_of ''proc''" using N(4) by (auto simp: ROOTINO_def)
  have K1: "K1 ROOTINO = Some (T_DIR, mj, M1)" "M1 dev_name = Some 2" "K1 2 = Some (T_DIR, mj2, N)" "K1 3 = Some (T_DEVICE, mj3, L)" "M1 (bytes_of ''proc'') = Some n"
    using K ne rt by (simp_all add: K1_def M1_def)
  define v1 where "v1 = v\<lparr>fsys := s1\<rparr>"
  have v1: "fsys v1 = s1" "0 \<notin> set (fs_cwd v1)" using cwd by (simp_all add: v1_def)
  have nm: "namei env proc_path v1 = Some (Some n, v1)"
    unfolding N(1) by (rule root_find [OF i1 [folded v1(1)] K1(1,5) v1(2) N(2,3)])
  have c1: "has_console s1" by (rule tree_console [OF i1 K1(1-3) K(4) K1(4)])
  define s2 where "s2 = upd_inode n (\<lambda>nd. nd\<lparr>ibackend := INODE_PROCFS, parent := ROOTINO\<rparr>) s1"
  have tab: "inode_table s2 j = (if j = n then (inode_table s1 n)\<lparr>ibackend := INODE_PROCFS, parent := ROOTINO\<rparr> else inode_table s1 j)" "mach s2 = mach s1" for j
    by (simp_all add: s2_def upd_inode_def)
  have wf: "fs_wf s2" using c1 by (simp add: has_console_def tree_ok_def fs_wf_def s2_def upd_inode_def)
  have num: "inum (inode_table s1 n) = n" using c1 n(2) tree_inv_used [OF i1, of n] by (simp add: K1_def)
  have c2: "has_console s2"
    by (rule has_console_step [OF c1 wf, where X = "{n}"]) (use ne num in \<open>auto simp: tab contents_def\<close>)
  define v2 where "v2 = v\<lparr>fsys := s2\<rparr>"
  have v2: "upd_node n (\<lambda>nd. nd\<lparr>ibackend := INODE_PROCFS, parent := ROOTINO\<rparr>) v1 = v2" "has_console (fsys v2)" using c2 by (simp_all add: upd_node_def v1_def v2_def s2_def)
  obtain ns v3 where ini: "init_inodes 5 n [] v2 = (ns, v3)" by fastforce
  obtain s3 where s3: "v3 = v2\<lparr>fsys := s3\<rparr>" "has_console s3" "mach s3 = mach (fsys v2)" using init_inodes_console [OF v2(2) ini] by blast
  have "fs_procfs_init env cpuid cpuid_max q v = Some (cpuinfo_init cpuid cpuid_max q, ns, v3)"
    using mk [folded v1_def] nm ini by (simp add: fs_procfs_init_def v2(1))
  moreover have "p \<le> card (free_pages (frames (mach s3)))" using tree_invD(4) [OF i1] s3(3) tab(2) by (simp add: v2_def)
  ultimately show ?thesis using s3(1,2) by (intro exI [of _ "cpuinfo_init cpuid cpuid_max q"] exI [of _ ns] exI [of _ s3]) (simp add: v2_def)
qed

section \<open>Memory outside the files\<close>

text \<open>Pages the files do not use may change without the files noticing.\<close>

lemma machine_step:
  assumes wf: "fs_wf s" and inv: "pmm_inv (frames m)"
    and own: "\<And>p. page_aligned p \<Longrightarrow> owned (mach s) p \<Longrightarrow> owned m p"
    and mem: "\<And>p x. page_aligned p \<Longrightarrow> owned (mach s) p \<Longrightarrow> in_region p 4096 x \<Longrightarrow> mem m x = mem (mach s) x"
  shows "fs_wf (s\<lparr>mach := m\<rparr>)" "j < 128 \<Longrightarrow> contents (s\<lparr>mach := m\<rparr>) j = contents s j"
proof -
  note D = fs_wfD [OF wf]
  show "fs_wf (s\<lparr>mach := m\<rparr>)" using wf inv own by (simp add: fs_wf_def)
  assume j: "j < 128"
  have "file_byte (inode_table s j) (mem m) b = file_byte (inode_table s j) (mem (mach s)) b" if b: "b < unat (isize (inode_table s j))" for b
  proof (rule file_byte_cong)
    have "(of_nat (b div 4096) :: u32) < 512" using b D(4) [OF j] by (intro of_nat_block) simp
    then show "mem m x = mem (mach s) x" if "in_region (block s j (of_nat (b div 4096))) 4096 x" for x
      using mem [OF _ _ that] D(2) [OF j _ D(5) [OF j b]] by blast
  qed
  then show "contents (s\<lparr>mach := m\<rparr>) j = contents s j" by (simp add: contents_def)
qed

lemma stack_frame_outside:
  assumes "\<not> in_region a 4096 x"
  shows "st32 (st32 (st32 m (a + 4096 - 4) u) (a + 4096 - 8) v) (a + 4096 - 12) w x = m x"
proof -
  have "\<not> in_region (a + of_nat k) 4 x" if "k + 4 \<le> 4096" for k
    using window_inside [where j = k and n = 4 and k = 4096 and a = a and z = x] that assms by auto
  from this [of 4092] this [of 4088] this [of 4084] show ?thesis by (simp add: st32_outside algebra_simps)
qed

lemma has_console_stack:
  assumes s: "has_console s" and al: "frame_alloc (mach s) = Some (a, m)"
  shows "has_console (s\<lparr>mach := upd_mem (\<lambda>mm. st32 (st32 (st32 mm (a + 4096 - 4) u) (a + 4096 - 8) v) (a + 4096 - 12) w) m\<rparr>)"
proof -
  define m1 where "m1 = upd_mem (\<lambda>mm. st32 (st32 (st32 mm (a + 4096 - 4) u) (a + 4096 - 8) v) (a + 4096 - 12) w) m"
  have wf: "fs_wf s" using s by (simp add: has_console_def tree_ok_def)
  note F = frame_alloc_correct [OF fs_wfD(1) [OF wf] al]
  have m1: "frames m1 = frames m" "mem m1 = st32 (st32 (st32 (mem (mach s)) (a + 4096 - 4) u) (a + 4096 - 8) v) (a + 4096 - 12) w"
    using frame_alloc_fields(1) [OF al] by (simp_all add: m1_def)
  have inv: "pmm_inv (frames m1)" using F(1) m1(1) by simp
  have own: "owned m1 p" if "page_aligned p" "owned (mach s) p" for p using F(5) [OF that(1)] that(2) m1(1) by simp
  have mem: "mem m1 x = mem (mach s) x" if "page_aligned p" "owned (mach s) p" "in_region p 4096 x" for p x
    unfolding m1(2) by (rule stack_frame_outside) (use page_disjointD [OF that(1) F(2) _ that(3)] that(2) F(4) in auto)
  note M = machine_step [OF wf inv own mem]
  show ?thesis unfolding m1_def [symmetric]
    by (rule has_console_step [OF s M(1), where X = "{}"]) (use M(2) in \<open>auto simp: MAX_INODES_def\<close>)
qed

section \<open>Descriptors on the console\<close>

definition con_file :: "bool \<Rightarrow> bool \<Rightarrow> open_file" where
  "con_file r w = zero_file\<lparr>fref := 1, ftype := FD_DEVICE, fip := Some 3, readable := r, writable := w, foff := 0\<rparr>"

definition con_fds :: "nat \<Rightarrow> fds" where
  "con_fds a = (\<lambda>_. None)(0 := Some a, 1 := Some (a + 1), 2 := Some (a + 2))"

lemma filealloc_at:
  assumes "\<forall>i < a. fref (ftable v i) \<noteq> 0" "fref (ftable v a) = 0" "a < NFILE"
  shows "filealloc v = (Some a, upd_file a (\<lambda>_. zero_file\<lparr>fref := 1, ftype := FD_NONE\<rparr>) v)"
proof -
  have "filealloc_loop i v = (Some a, upd_file a (\<lambda>_. zero_file\<lparr>fref := 1, ftype := FD_NONE\<rparr>) v)" if "i \<le> a" for i
    using that
  proof (induction "a - i" arbitrary: i)
    case 0
    then show ?case using assms(2,3) by (simp add: filealloc_loop.simps [of i])
  next
    case (Suc n)
    then have "i < a" "filealloc_loop (Suc i) v = (Some a, upd_file a (\<lambda>_. zero_file\<lparr>fref := 1, ftype := FD_NONE\<rparr>) v)" by auto
    then show ?case using assms by (simp add: filealloc_loop.simps [of i])
  qed
  then show ?thesis by (simp add: filealloc_def)
qed

lemma open_console:
  assumes s: "has_console (fsys v)" and cwd: "0 \<notin> set (fs_cwd v)"
    and slots: "\<forall>i < a. fref (ftable v i) \<noteq> 0" "fref (ftable v a) = 0" "a < NFILE" and fl: "fl = O_RDONLY \<or> fl = O_WRONLY"
  shows "vfs_open env console_path fl v = Some (Some a, v\<lparr>ftable := (ftable v)(a := con_file (fl = O_RDONLY) (fl = O_WRONLY))\<rparr>)"
proof -
  have ty: "itype (inode_table (fsys v) 3) = T_DEVICE" using s by (simp add: has_console_def)
  have "open_target env None console_path fl v = Some (Some 3, v)"
    using console_found [OF s cwd, of env] fl open_flags by (auto simp: open_target_def namei_def)
  moreover have "open_inode env 3 fl v = Some (Some a, v\<lparr>ftable := (ftable v)(a := con_file (fl = O_RDONLY) (fl = O_WRONLY))\<rparr>)"
    using fl ty filealloc_at [OF slots] open_flags
    by (auto simp: open_inode_def node_def upd_file_def con_file_def T_FILE_def T_DEVICE_def T_DIR_def O_RDONLY_def O_WRONLY_def)
  ultimately show ?thesis by (simp add: vfs_open_def vfs_open_at_def)
qed

lemma fd_init_console:
  assumes s: "has_console (fsys v)" and cwd: "0 \<notin> set (fs_cwd v)"
    and slots: "\<forall>i < a. fref (ftable v i) \<noteq> 0" "\<forall>i \<ge> a. fref (ftable v i) = 0" "a + 2 < NFILE"
  shows "fd_init env v = Some (con_fds a,
    v\<lparr>ftable := (ftable v)(a := con_file True False, a + 1 := con_file False True, a + 2 := con_file False True)\<rparr>)"
proof -
  define v1 where "v1 = v\<lparr>ftable := (ftable v)(a := con_file True False)\<rparr>"
  define v2 where "v2 = v\<lparr>ftable := (ftable v)(a := con_file True False, a + 1 := con_file False True)\<rparr>"
  have ne: "O_RDONLY \<noteq> O_WRONLY" by (simp add: O_RDONLY_def O_WRONLY_def)
  have used: "fref (con_file r w) \<noteq> 0" for r w by (simp add: con_file_def)
  have "vfs_open env console_path O_RDONLY v = Some (Some a, v1)"
    using open_console [OF s cwd slots(1), of O_RDONLY env] slots(2,3) ne by (simp add: v1_def)
  moreover have "vfs_open env console_path O_WRONLY v1 = Some (Some (a + 1), v2)"
    using open_console [of v1 "a + 1" O_WRONLY env] s cwd slots used ne by (simp add: v1_def v2_def less_Suc_eq)
  moreover have "vfs_open env console_path O_WRONLY v2 =
      Some (Some (a + 2), v\<lparr>ftable := (ftable v)(a := con_file True False, a + 1 := con_file False True, a + 2 := con_file False True)\<rparr>)"
    using open_console [of v2 "a + 2" O_WRONLY env] s cwd slots used ne by (simp add: v2_def less_Suc_eq)
  ultimately show ?thesis by (simp add: fd_init_def con_fds_def)
qed

lemma con_fds_holders: "holders f (con_fds a) = of_bool (a \<le> f \<and> f < a + 3)"
proof -
  have "holders f (con_fds a) = of_bool (Some a = Some f) + of_bool (Some (a + 1) = Some f) + of_bool (Some (a + 2) = Some f)"
    by (simp add: holders_def con_fds_def upt_rec)
  then show ?thesis by auto
qed

section \<open>The first two processes\<close>

lemma first_processes:
  assumes s: "has_console (fsys (kvfs k))" and cwd: "0 \<notin> set (fs_cwd (kvfs k))" and fr: "\<forall>i. fref (ftable (kvfs k) i) = 0"
    and page: "1 \<le> card (free_pages (frames (kmach k)))" and start: "cur k = 0" "next_pid k = 1"
  shows "\<exists>k1 k2. process_register_current env k = Some k1 \<and> process_create_kernel env ent k1 = Some k2 \<and>
    map (\<lambda>p. (pid p, process_name p, pstate p)) (procs k2) = [(0, bytes_of ''bootstrap'', PROC_RUNNING), (1, bytes_of ''kernel_init'', PROC_RUNNING)] \<and>
    map pfds (procs k2) = [con_fds 0, con_fds 3] \<and> (\<forall>f < 6. ftable (kvfs k2) f = con_file (f = 0 \<or> f = 3) (f \<noteq> 0 \<and> f \<noteq> 3)) \<and>
    table_inv k2 \<and> refs_ok k2 \<and> has_console (fsys (kvfs k2)) \<and> fs_cwd (kvfs k2) = fs_cwd (kvfs k)"
proof -
  define v1 where "v1 = (kvfs k)\<lparr>ftable := (ftable (kvfs k))(0 := con_file True False, 1 := con_file False True, 2 := con_file False True)\<rparr>"
  have f1: "fd_init env (kvfs k) = Some (con_fds 0, v1)"
    using fd_init_console [OF s cwd, of 0 env] fr by (simp add: v1_def NFILE_def numeral_2_eq_2)
  define p1 where "p1 = zero_process\<lparr>pid := 0, started := 1, kernel_stack := 0, pstate := PROC_RUNNING,
       pdir := vmm_kernel_pdir (kmach k), mmap_next := USER_MMAP_BASE, tls_base := 0, process_name := bytes_of ''bootstrap'', pfds := con_fds 0\<rparr>"
  define k1 where "k1 = k\<lparr>kvfs := v1, procs := [p1]\<rparr>"
  have r1: "process_register_current env k = Some k1" using f1 by (simp add: process_register_current_def k1_def p1_def)
  have wf: "pmm_inv (frames (kmach k))" using s by (simp add: has_console_def tree_ok_def fs_wf_def)
  have "Suc 0 \<le> card (free_pages (frames (kmach k)))" using page by simp
  then obtain a m where al: "frame_alloc (kmach k) = Some (a, m)" using frame_alloc_free [OF wf] by blast
  define s2 where "s2 = (fsys (kvfs k))\<lparr>mach := upd_mem (\<lambda>mm. st32 (st32 (st32 mm (a + 4096 - 4) 0x200) (a + 4096 - 8) 0x08) (a + 4096 - 12) ent) m\<rparr>"
  have c2: "has_console s2" unfolding s2_def by (rule has_console_stack [OF s al])
  define w where "w = v1\<lparr>fsys := s2\<rparr>"
  have ks: "kstore (a + 4096 - 12) ent (kstore (a + 4096 - 8) 0x08 (kstore (a + 4096 - 4) 0x200 (set_mach m k1))) = k1\<lparr>kvfs := w\<rparr>"
    by (simp add: kstore_def set_mach_def set_fsys_def w_def s2_def k1_def v1_def)
  have used: "fref (con_file r x) = 1" for r x by (simp add: con_file_def)
  have w: "has_console (fsys w)" "0 \<notin> set (fs_cwd w)" "\<forall>i < 3. fref (ftable w i) \<noteq> 0" "\<forall>i \<ge> 3. fref (ftable w i) = 0"
    using c2 cwd fr used by (auto simp: w_def v1_def)
  define v2 where "v2 = w\<lparr>ftable := (ftable w)(3 := con_file True False, 4 := con_file False True, 5 := con_file False True)\<rparr>"
  have f2: "fd_init env w = Some (con_fds 3, v2)" using fd_init_console [OF w, of env] by (simp add: v2_def NFILE_def)
  define p2 where "p2 = zero_process\<lparr>pid := 1, ctx := zero_context\<lparr>c_esp := a + 4096 - 12 - 32\<rparr>, started := 0, kernel_stack := 0, pstate := PROC_RUNNING,
       pdir := vmm_kernel_pdir (mach (fsys v2)), mmap_next := USER_MMAP_BASE, tls_base := 0, process_name := bytes_of ''kernel_init'', pfds := con_fds 3\<rparr>"
  define k2 where "k2 = k1\<lparr>kvfs := v2, next_pid := 2, procs := [p1, p2]\<rparr>"
  have km: "kmach k1 = kmach k" "next_pid k1 = 1" by (simp_all add: k1_def v1_def start)
  have r2: "process_create_kernel env ent k1 = Some k2"
    using al ks f2 by (simp add: process_create_kernel_def km Let_def alloc_pid_def set_vfs_def k2_def p2_def) (simp add: k1_def)
  have "table_inv k2" using start by (simp add: table_inv_def k2_def k1_def p1_def p2_def process_count_def MAX_PROCESSES_def zero_process_def)
  moreover have tab: "ftable v2 f = (if f < 6 then con_file (f = 0 \<or> f = 3) (f \<noteq> 0 \<and> f \<noteq> 3) else ftable (kvfs k) f)" for f
    by (auto simp: v2_def w_def v1_def)
  moreover have "refs_ok k2"
    using fr by (auto simp: refs_ok_def k2_def k1_def counts_def tab used held_def con_fds_holders p1_def p2_def PROC_RUNNING_def PROC_ZOMBIE_def)
  ultimately show ?thesis using r1 r2 c2 by (intro exI [of _ k1] exI [of _ k2]) (simp add: k2_def p1_def p2_def v2_def w_def v1_def)
qed

end
