(* ===== verification/Terminal_Safety.thy ===== *)
theory Terminal_Safety
  imports Terminal
begin

text \<open>
  Properties of the terminal: the cursor, scroll region and saved cursor stay on the screen and no byte sequence with
  parameters of ordinary size writes outside the text buffer; the one way a byte never gets processed; printed text is
  read back by the snapshot of the line; and the parameters that break the screen bounds.
\<close>

section \<open>Invariant\<close>

definition term_inv :: "terminal \<Rightarrow> bool" where
  "term_inv s \<longleftrightarrow> 0 \<le> cx s \<and> cx s < 80 \<and> 0 \<le> cy s \<and> cy s < 25 \<and> 0 \<le> top_row s \<and> top_row s < bot_row s \<and> bot_row s < 25 \<and>
     0 \<le> sx s \<and> sx s < 80 \<and> 0 \<le> sy s \<and> sy s < 25 \<and> length (stack (parser s)) \<le> TERM_STACK_SIZE"

definition outside_same :: "terminal \<Rightarrow> terminal \<Rightarrow> bool" where
  "outside_same s s' \<longleftrightarrow> (\<forall>i. i < 0 \<or> 2000 \<le> i \<longrightarrow> vga s' i = vga s i)"

text \<open>Only cells of the screen and the hardware cursor change.\<close>

definition drawn :: "terminal \<Rightarrow> terminal \<Rightarrow> bool" where
  "drawn s s' \<longleftrightarrow> (\<exists>v c. s' = s\<lparr>vga := v, crtc := c\<rparr>) \<and> outside_same s s'"

lemma drawn_refl [simp, intro!]: "drawn s s"
  unfolding drawn_def outside_same_def by (rule conjI, rule exI [of _ "vga s"], rule exI [of _ "crtc s"]) simp_all

lemma drawn_trans: "drawn s s1 \<Longrightarrow> drawn s1 s2 \<Longrightarrow> drawn s s2"
  unfolding drawn_def outside_same_def by (elim conjE exE) (intro conjI exI, auto)

lemma drawn_fold: "(\<And>x s. x \<in> set xs \<Longrightarrow> drawn s (f x s)) \<Longrightarrow> drawn s (fold f xs s)"
proof (induction xs arbitrary: s)
  case (Cons x xs)
  then show ?case using drawn_trans [of s "f x s" "fold f xs (f x s)"] by simp
qed simp

lemma drawn_fields:
  assumes "drawn s s'"
  shows "cx s' = cx s" "cy s' = cy s" "top_row s' = top_row s" "bot_row s' = bot_row s" "sx s' = sx s" "sy s' = sy s"
    "parser s' = parser s" "autowrap s' = autowrap s" "pending_wrap s' = pending_wrap s" "ready s' = ready s"
    "cursor_visible s' = cursor_visible s"
  using assms by (auto simp: drawn_def)

lemma drawn_inv: "drawn s s' \<Longrightarrow> term_inv s \<Longrightarrow> term_inv s'"
  by (simp add: term_inv_def drawn_fields)

lemma drawn_outside: "drawn s s' \<Longrightarrow> outside_same s s'"
  by (simp add: drawn_def)

lemma drawn_putcell: "0 \<le> x \<Longrightarrow> x < 80 \<Longrightarrow> 0 \<le> y \<Longrightarrow> y < 25 \<Longrightarrow> drawn s (putcell x y c s)"
  unfolding drawn_def outside_same_def putcell_def COLS_def
  by (rule conjI, rule exI, rule exI [of _ "crtc s"]) auto

lemma drawn_blank_row: "0 \<le> y \<Longrightarrow> y < 25 \<Longrightarrow> drawn s (blank_row y s)"
  unfolding blank_row_def blank_cell_def by (rule drawn_fold) (simp add: drawn_putcell COLS_def)

lemma drawn_set_cursor [simp]: "drawn s (set_cursor s)"
proof -
  have "\<exists>c. set_cursor s = s\<lparr>crtc := c\<rparr>" by (auto simp: set_cursor_def Let_def)
  then obtain c where c: "set_cursor s = s\<lparr>crtc := c\<rparr>" by blast
  show ?thesis unfolding drawn_def outside_same_def c by (rule conjI, rule exI [of _ "vga s"], rule exI [of _ c]) simp_all
qed

lemma drawn_move_rows:
  assumes "0 \<le> dst" "dst < 25"
  shows "drawn s (move_rows dst src s)"
  unfolding move_rows_def
proof (rule drawn_fold)
  fix x and s :: terminal
  assume "x \<in> set [0..COLS - 1]"
  then show "drawn s (s\<lparr>vga := (vga s)(dst * COLS + x := vga s (src * COLS + x))\<rparr>)"
    using assms unfolding drawn_def outside_same_def COLS_def
    by (intro conjI, intro exI [of _ "(vga s)(dst * 80 + x := vga s (src * 80 + x))"] exI [of _ "crtc s"]) auto
qed

lemma drawn_scroll:
  assumes "term_inv s"
  shows "drawn s (scroll_up s)" "drawn s (scroll_down s)"
proof -
  let ?u = "fold (\<lambda>y. move_rows y (y + 1)) [top_row s..bot_row s - 1] s"
  let ?d = "fold (\<lambda>y. move_rows y (y - 1)) (rev [top_row s + 1..bot_row s]) s"
  have "drawn s ?u" "drawn s ?d" using assms by (auto intro!: drawn_fold drawn_move_rows simp: term_inv_def)
  moreover have "drawn ?u (blank_row (bot_row s) ?u)" "drawn ?d (blank_row (top_row s) ?d)"
    using assms by (simp_all add: drawn_blank_row term_inv_def)
  ultimately show "drawn s (scroll_up s)" "drawn s (scroll_down s)"
    unfolding scroll_up_def scroll_down_def using drawn_trans by blast+
qed

lemma drawn_blank_rows: "(\<And>y. y \<in> set ys \<Longrightarrow> 0 \<le> y \<and> y < 25) \<Longrightarrow> drawn s (fold blank_row ys s)"
  by (rule drawn_fold) (simp add: drawn_blank_row)

lemma drawn_erase_line: "0 \<le> y \<Longrightarrow> y < 25 \<Longrightarrow> drawn s (erase_line y a b s)"
  unfolding erase_line_def Let_def blank_cell_def by (rule drawn_fold) (auto intro!: drawn_putcell simp: COLS_def split: if_splits)

lemma drawn_erase_display: "term_inv s \<Longrightarrow> drawn s (erase_display m s)"
  unfolding erase_display_def
  by (auto intro!: drawn_trans [OF drawn_erase_line drawn_blank_rows] drawn_trans [OF drawn_blank_rows drawn_erase_line] drawn_blank_rows
      simp: term_inv_def ROWS_def)

lemma drawn_lines:
  assumes "term_inv s" "1 \<le> n"
  shows "drawn s (insert_lines n s)" "drawn s (delete_lines n s)"
proof -
  define k where "k = (if n > bot_row s - cy s + 1 then bot_row s - cy s + 1 else n)"
  let ?i = "fold (\<lambda>y. move_rows y (y - k)) (rev [cy s + k..bot_row s]) s"
  let ?d = "fold (\<lambda>y. move_rows y (y + k)) [cy s..bot_row s - k] s"
  have k: "k \<le> n" "k \<le> bot_row s - cy s + 1" "k = n \<or> k = bot_row s - cy s + 1" by (auto simp: k_def)
  have "drawn s ?i" "drawn s ?d" using assms k by (auto intro!: drawn_fold drawn_move_rows simp: term_inv_def)
  moreover have "drawn ?i (fold blank_row [cy s..cy s + k - 1] ?i)" "drawn ?d (fold blank_row [bot_row s - k + 1..bot_row s] ?d)"
    using assms k by (auto intro!: drawn_blank_rows simp: term_inv_def)
  ultimately show "drawn s (insert_lines n s)" "drawn s (delete_lines n s)"
    unfolding insert_lines_def delete_lines_def Let_def k_def [symmetric] using drawn_trans by blast+
qed

section \<open>Every operation keeps it\<close>

definition safe :: "terminal \<Rightarrow> terminal \<Rightarrow> bool" where
  "safe s s' \<longleftrightarrow> term_inv s' \<and> outside_same s s'"

lemma safe_drawn: "drawn s s' \<Longrightarrow> term_inv s \<Longrightarrow> safe s s'"
  by (simp add: safe_def drawn_inv drawn_outside)

lemma safe_regs: "term_inv s' \<Longrightarrow> vga s' = vga s \<Longrightarrow> safe s s'"
  by (simp add: safe_def outside_same_def)

lemma safe_trans: "safe s s1 \<Longrightarrow> safe s1 s2 \<Longrightarrow> safe s s2"
  by (simp add: safe_def outside_same_def)

lemma safe_then_drawn: "safe s s1 \<Longrightarrow> drawn s1 s2 \<Longrightarrow> safe s s2"
  using safe_trans safe_drawn by (meson safe_def)

lemma safe_linefeed:
  assumes "term_inv s"
  shows "safe s (linefeed s)"
proof (cases "cy s \<ge> bot_row s")
  case True
  then show ?thesis using safe_drawn [OF drawn_scroll(1) [OF assms] assms] by (simp add: linefeed_def)
next
  case False
  then have "term_inv (linefeed s)" using assms by (simp add: linefeed_def term_inv_def ROWS_def)
  then show ?thesis using False by (intro safe_regs) (simp_all add: linefeed_def)
qed

lemma linefeed_fields: "term_inv s \<Longrightarrow> cx (linefeed s) = cx s \<and> autowrap (linefeed s) = autowrap s \<and>
    pending_wrap (linefeed s) = pending_wrap s \<and> parser (linefeed s) = parser s"
  using drawn_fields [OF drawn_scroll(1)] by (simp add: linefeed_def)

lemma putc_effect:
  assumes "term_inv s"
  shows "safe s (putc c s)" "autowrap (putc c s) = autowrap s" "parser (putc c s) = parser s"
    "cx (putc c s) = (if pending_wrap s then 1 else if cx s = 79 then 79 else cx s + 1)"
    "pending_wrap (putc c s) = (\<not> pending_wrap s \<and> cx s = 79 \<and> autowrap s)"
proof -
  define s1 where "s1 = (if pending_wrap s then linefeed (s\<lparr>pending_wrap := False, cx := 0\<rparr>) else s)"
  let ?w = "s\<lparr>pending_wrap := False, cx := 0\<rparr>"
  have w: "term_inv ?w" using assms by (simp add: term_inv_def)
  have s1: "safe s s1" "cx s1 = (if pending_wrap s then 0 else cx s)" "autowrap s1 = autowrap s" "parser s1 = parser s" "\<not> pending_wrap s1"
    using safe_trans [OF safe_regs [OF w] safe_linefeed [OF w], of s] linefeed_fields [OF w] safe_regs [OF assms, of s] 
    by (auto simp: s1_def)
  then have i1: "term_inv s1" by (simp add: safe_def)
  define s2 where "s2 = putcell (cx s1) (cy s1) c s1"
  have d2: "drawn s1 s2" unfolding s2_def using i1 by (intro drawn_putcell) (simp_all add: term_inv_def)
  have s2: "safe s s2" by (rule safe_then_drawn [OF s1(1) d2])
  then have i2: "term_inv s2" by (simp add: safe_def)
  define s3 where "s3 = (if cx s2 = COLS - 1 then if autowrap s2 then s2\<lparr>pending_wrap := True\<rparr> else s2 else s2\<lparr>cx := cx s2 + 1\<rparr>)"
  have "term_inv s3" using i2 by (auto simp: s3_def term_inv_def COLS_def)
  then have "safe s2 s3" by (rule safe_regs) (simp add: s3_def)
  then have s3: "safe s s3" using safe_trans s2 by blast
  have p: "putc c s = set_cursor s3" by (simp add: putc_def Let_def s3_def s2_def s1_def)
  show "safe s (putc c s)" unfolding p by (rule safe_then_drawn [OF s3]) simp
  note F = drawn_fields [OF drawn_set_cursor [of s3]] drawn_fields [OF d2]
  show "autowrap (putc c s) = autowrap s" "parser (putc c s) = parser s"
    "cx (putc c s) = (if pending_wrap s then 1 else if cx s = 79 then 79 else cx s + 1)"
    "pending_wrap (putc c s) = (\<not> pending_wrap s \<and> cx s = 79 \<and> autowrap s)"
    unfolding p using F s1 by (auto simp: s3_def COLS_def)
qed

section \<open>The tab\<close>

text \<open>With auto-wrap off the loop is stuck in the last column.\<close>

definition tab_stuck :: "terminal \<Rightarrow> bool" where
  "tab_stuck s \<longleftrightarrow> \<not> autowrap s \<and> \<not> pending_wrap s \<and> 72 \<le> cx s"

lemma tab_loop_stuck: "tab_loop s = Some s' \<Longrightarrow> term_inv s \<longrightarrow> \<not> tab_stuck s"
proof (erule tab_loop.raw_induct [rotated, where P = "\<lambda>s s'. term_inv s \<longrightarrow> \<not> tab_stuck s"], rule impI, rule notI)
  fix f s s'
  assume IH: "\<And>s s'. f s = Some s' \<Longrightarrow> term_inv s \<longrightarrow> \<not> tab_stuck s"
    and body: "(let s = putc 32 s in if cx s mod 8 \<noteq> 0 \<and> cx s > 0 then f s else Some s) = Some s'"
    and inv: "term_inv s" and st: "tab_stuck s"
  let ?s = "putc 32 s"
  note P = putc_effect [OF inv, of 32]
  have "cx s < 80" using inv by (simp add: term_inv_def)
  then have s: "tab_stuck ?s" "cx ?s < 80" "73 \<le> cx ?s" using st P by (auto simp: tab_stuck_def)
  then have "cx ?s mod 8 \<noteq> 0" by presburger
  then have "f ?s = Some s'" using body s(3) by (auto simp: Let_def)
  then show False using IH s(1) P(1) by (auto simp: safe_def)
qed

definition tab_measure :: "terminal \<Rightarrow> nat" where
  "tab_measure s = (if pending_wrap s then 8 else if cx s < 72 then nat (8 - cx s mod 8) else nat (88 - cx s))"

lemma tab_loop_returns:
  assumes "term_inv s" "\<not> tab_stuck s"
  shows "\<exists>s'. tab_loop s = Some s' \<and> safe s s'"
  using assms
proof (induction "tab_measure s" arbitrary: s rule: less_induct)
  case less
  let ?s = "putc 32 s"
  note P = putc_effect [OF less.prems(1), of 32]
  have i: "term_inv ?s" "0 \<le> cx s" "cx s < 80" using P(1) less.prems(1) by (simp_all add: safe_def term_inv_def)
  show ?case
  proof (cases "cx ?s mod 8 \<noteq> 0 \<and> cx ?s > 0")
    case True
    have ne: "cx s \<noteq> 71 \<or> pending_wrap s" using True P(4) by (auto split: if_splits)
    have st: "\<not> tab_stuck ?s" using P less.prems(2) ne by (auto simp: tab_stuck_def split: if_splits)
    have "tab_measure ?s < tab_measure s"
    proof (cases "pending_wrap s")
      case True
      then show ?thesis using P by (simp add: tab_measure_def)
    next
      case F: False
      show ?thesis
      proof (cases "cx s < 72")
        case c: True
        have "(cx s + 1) mod 8 \<noteq> 0" using True P(4) F c by auto
        then have "8 - (cx s + 1) mod 8 < 8 - cx s mod 8" "0 \<le> 8 - (cx s + 1) mod 8" by presburger+
        then show ?thesis using P F c ne by (simp add: tab_measure_def)
      next
        case False
        then show ?thesis using P F i less.prems(2) by (auto simp: tab_measure_def tab_stuck_def)
      qed
    qed
    then obtain s' where "tab_loop ?s = Some s'" "safe ?s s'" using less.hyps [OF _ i(1) st] by blast
    then show ?thesis using True safe_trans [OF P(1)] by (subst tab_loop.simps) (auto simp: Let_def)
  next
    case False
    then show ?thesis using P(1) by (subst tab_loop.simps) (auto simp: Let_def)
  qed
qed

section \<open>Callbacks\<close>

text \<open>Parameters small enough that the 32-bit cursor arithmetic is exact.\<close>

definition params_ok :: "lw_terminal \<Rightarrow> bool" where
  "params_ok t \<longleftrightarrow> (\<forall>i < argc t. unat (argv t i) < 2 ^ 31 - 100)"

lemma wrap32_id: "- (2 ^ 31) \<le> x \<Longrightarrow> x < 2 ^ 31 \<Longrightarrow> wrap32 x = x"
  by (simp add: wrap32_def sint_sbintrunc' signed_take_bit_int_eq_self)

lemma csi_arg_bounds:
  assumes "params_ok (parser s)" "1 \<le> d" "d \<le> 25"
  shows "1 \<le> csi_arg i d s" "csi_arg i d s < 2 ^ 31 - 100"
proof -
  have "\<exists>n. csi_arg i d s = int n \<and> 0 < n \<and> n < 2 ^ 31 - 100"
  proof (cases "i < argc (parser s) \<and> argv (parser s) i \<noteq> 0")
    case True
    let ?n = "unat (argv (parser s) i)"
    have n: "0 < ?n" "?n < 2 ^ 31 - 100" using True assms(1) by (auto simp: unat_gt_0 params_ok_def)
    then have "sint (argv (parser s) i) = int ?n" by (intro sint_small) simp
    then show ?thesis using True n by (intro exI [of _ ?n]) (simp add: csi_arg_def)
  next
    case False
    then show ?thesis using assms by (intro exI [of _ "nat d"]) (simp add: csi_arg_def)
  qed
  then obtain n where "csi_arg i d s = int n" "0 < n" "n < 2 ^ 31 - 100" by blast
  then show "1 \<le> csi_arg i d s" "csi_arg i d s < 2 ^ 31 - 100" by simp_all
qed

lemma safe_colours:
  assumes "term_inv s"
  shows "safe s (sgr_colour a s)" "safe s (s\<lparr>fg := f\<rparr>)" "safe s (s\<lparr>bg := g\<rparr>)" "safe s (sgr_default s)"
  using assms by (intro safe_regs; simp add: sgr_colour_def sgr_default_def term_inv_def)+

lemma safe_sgr_loop: "term_inv s \<Longrightarrow> safe s (sgr_loop vs s)"
proof (induction vs s rule: sgr_loop.induct)
  case (2 v vs s)
  note step = safe_trans [OF safe_colours(1)] safe_trans [OF safe_colours(2)] safe_trans [OF safe_colours(3)]
  consider (pal) "sint v = 38 \<or> sint v = 48" "length vs \<ge> 2 \<and> vs ! 0 = 5"
    | (rgb) "sint v = 38 \<or> sint v = 48" "\<not> (length vs \<ge> 2 \<and> vs ! 0 = 5)" "length vs \<ge> 4 \<and> vs ! 0 = 2"
    | (none) "sint v = 38 \<or> sint v = 48" "\<not> (length vs \<ge> 2 \<and> vs ! 0 = 5)" "\<not> (length vs \<ge> 4 \<and> vs ! 0 = 2)"
    | (plain) "\<not> (sint v = 38 \<or> sint v = 48)" by blast
  then show ?case
  proof cases
    case pal
    let ?s = "if sint v = 38 then s\<lparr>fg := uint (vs ! 1 AND 0x0F)\<rparr> else s\<lparr>bg := uint (vs ! 1 AND 0x0F) mod 8\<rparr>"
    have "safe s ?s" using safe_colours(2,3) [OF 2(5)] by simp
    moreover from this have "safe ?s (sgr_loop (drop 2 vs) ?s)" using 2(1) [OF refl pal(1,2) refl] by (simp add: safe_def)
    ultimately have "safe s (sgr_loop (drop 2 vs) ?s)" by (rule safe_trans)
    then show ?thesis using pal by (auto simp: Let_def)
  next
    case rgb
    then show ?thesis using 2(2) [OF refl rgb] 2(5) by (auto simp: Let_def)
  next
    case none
    then show ?thesis using 2(3) [OF refl none] 2(5) by (auto simp: Let_def)
  next
    case plain
    have "safe s (sgr_colour (sint v) s)" using safe_colours(1) [OF 2(5)] .
    moreover from this have "safe (sgr_colour (sint v) s) (sgr_loop vs (sgr_colour (sint v) s))"
      using 2(4) [OF refl plain] by (simp add: safe_def)
    ultimately show ?thesis using plain safe_trans by (simp add: Let_def)
  qed
qed (simp add: safe_regs)

lemma safe_modes: "term_inv s \<Longrightarrow> safe s (set_cursor (fold (set_private_mode b) ms s))"
proof (rule safe_then_drawn [OF _ drawn_set_cursor])
  show "term_inv s \<Longrightarrow> safe s (fold (set_private_mode b) ms s)"
    by (induction ms arbitrary: s) (auto simp: safe_def outside_same_def term_inv_def set_private_mode_def)
qed

lemma safe_scrolls:
  assumes "term_inv s"
  shows "safe s ((scroll_up ^^ n) s)" "safe s ((scroll_down ^^ n) s)"
proof -
  have "drawn s ((scroll_up ^^ n) s) \<and> drawn s ((scroll_down ^^ n) s)"
  proof (induction n)
    case (Suc n)
    then show ?case using drawn_trans drawn_scroll drawn_inv [OF _ assms] by simp blast
  qed simp
  then show "safe s ((scroll_up ^^ n) s)" "safe s ((scroll_down ^^ n) s)" using safe_drawn assms by blast+
qed

lemma safe_cursor_moves:
  assumes "term_inv s" "params_ok (parser s)"
  shows "safe s (csi_cuu s)" "safe s (csi_cud s)" "safe s (csi_cuf s)" "safe s (csi_cub s)" "safe s (csi_cnl s)"
    "safe s (csi_cpl s)" "safe s (csi_cha s)" "safe s (csi_vpa s)" "safe s (csi_cup s)" "safe s (csi_decstbm s)"
proof -
  note A = csi_arg_bounds [OF assms(2), of 1 0, simplified] csi_arg_bounds [OF assms(2), of 1 1, simplified]
    csi_arg_bounds [OF assms(2), of 25 1, simplified]
  note I = assms(1) [unfolded term_inv_def]
  have w: "wrap32 (cy s - csi_arg 0 1 s) = cy s - csi_arg 0 1 s"
    "wrap32 (cy s + csi_arg 0 1 s) = cy s + csi_arg 0 1 s" "wrap32 (cx s + csi_arg 0 1 s) = cx s + csi_arg 0 1 s"
    "wrap32 (cx s - csi_arg 0 1 s) = cx s - csi_arg 0 1 s"
    "wrap32 (csi_arg 0 1 s - 1) = csi_arg 0 1 s - 1" "wrap32 (csi_arg 1 1 s - 1) = csi_arg 1 1 s - 1"
    "wrap32 (csi_arg 1 25 s - 1) = csi_arg 1 25 s - 1"
    using A I by (simp_all add: wrap32_id)
  show "safe s (csi_cuu s)" "safe s (csi_cud s)" "safe s (csi_cuf s)" "safe s (csi_cub s)" "safe s (csi_cnl s)"
    "safe s (csi_cpl s)" "safe s (csi_cha s)" "safe s (csi_vpa s)" "safe s (csi_cup s)" "safe s (csi_decstbm s)"
    using A I w
    by (auto intro!: safe_regs simp: csi_cuu_def csi_cud_def csi_cuf_def csi_cub_def csi_cnl_def csi_cpl_def csi_cha_def csi_vpa_def
        csi_cup_def csi_decstbm_def cursor_home_def Let_def term_inv_def COLS_def ROWS_def)
qed

lemma safe_csi:
  assumes "csi_table c = Some f" "term_inv s" "params_ok (parser s)"
  shows "safe s (f s)"
proof -
  have cy: "0 \<le> cy s" "cy s < 25" using assms(2) by (simp_all add: term_inv_def)
  have a: "1 \<le> csi_arg 0 1 s" using csi_arg_bounds [OF assms(3)] by simp
  have "safe s (csi_ed s)" "safe s (csi_el s)" "safe s (csi_il s)" "safe s (csi_dl s)" "safe s (csi_su s)" "safe s (csi_sd s)"
      "safe s (sgr s)" "safe s (csi_sm s)" "safe s (csi_rm s)"
    unfolding csi_ed_def csi_el_def csi_il_def csi_dl_def csi_su_def csi_sd_def sgr_def csi_sm_def csi_rm_def Let_def
    using assms(2) cy a
    by (simp_all add: safe_drawn drawn_erase_display drawn_erase_line drawn_lines safe_scrolls safe_colours(4) safe_sgr_loop safe_modes)
  moreover have "f \<in> {csi_cuu, csi_cud, csi_cuf, csi_cub, csi_cnl, csi_cpl, csi_cha, csi_cup, csi_vpa, csi_ed, csi_el, csi_il, csi_dl,
      csi_su, csi_sd, csi_decstbm, sgr, csi_sm, csi_rm}"
    using map_of_SomeD [OF assms(1) [unfolded csi_table_def]] by auto
  ultimately show ?thesis using safe_cursor_moves [OF assms(2,3)] by blast
qed

lemma safe_reset:
  assumes "term_inv s"
  shows "safe s (terminal_reset s)"
proof -
  let ?s = "s\<lparr>cx := 0, cy := 0, top_row := 0, bot_row := ROWS - 1, sx := 0, sy := 0, pending_wrap := False, autowrap := True,
          cursor_visible := True, bold := False, reverse_video := False, fg := 7, bg := 0\<rparr>"
  have "safe s ?s" using assms by (intro safe_regs) (simp_all add: term_inv_def ROWS_def)
  then have "safe s (fold blank_row [0..ROWS - 1] ?s)" by (rule safe_then_drawn) (auto intro!: drawn_blank_rows simp: ROWS_def)
  then show ?thesis unfolding terminal_reset_def by (rule safe_then_drawn) simp
qed

lemma safe_esc:
  assumes "esc_table c = Some f" "term_inv s"
  shows "safe s (f s)"
proof -
  have i: "term_inv (s\<lparr>cx := 0\<rparr>)" using assms(2) by (simp add: term_inv_def)
  have "safe s (esc_nel s)" unfolding esc_nel_def by (rule safe_trans [OF safe_regs [OF i] safe_linefeed [OF i]]) simp
  moreover have "safe s (esc_ri s)"
    unfolding esc_ri_def using assms(2) safe_drawn [OF drawn_scroll(2)] by (auto intro!: safe_regs) (auto simp: term_inv_def)
  moreover have "safe s (esc_decsc s)" "safe s (esc_decrc s)"
    using assms(2) by (auto intro!: safe_regs simp: esc_decsc_def esc_decrc_def term_inv_def)
  moreover have "safe s (esc_ind s)" "safe s (esc_ris s)"
    unfolding esc_ind_def esc_ris_def using safe_linefeed safe_reset assms(2) by blast+
  moreover have "f \<in> {esc_ind, esc_ri, esc_nel, esc_decsc, esc_decrc, esc_ris}"
    using map_of_SomeD [OF assms(1) [unfolded esc_table_def]] by auto
  ultimately show ?thesis by blast
qed

section \<open>Bytes\<close>

lemma safe_upd_parser:
  "safe s s' \<Longrightarrow> length (stack (f (parser s'))) \<le> TERM_STACK_SIZE \<Longrightarrow> safe s (upd_parser f s')"
  by (simp add: safe_def term_inv_def outside_same_def upd_parser_def)

definition tab_hangs :: "u8 \<Rightarrow> terminal \<Rightarrow> bool" where
  "tab_hangs c s \<longleftrightarrow> c = 9 \<and> tstate (parser s) \<noteq> G0SET \<and> tstate (parser s) \<noteq> G1SET \<and> tab_stuck s"

lemma term_write_cb_safe:
  assumes "term_inv s"
  shows "case term_write_cb c s of None \<Rightarrow> c = 9 \<and> tab_stuck s | Some s' \<Rightarrow> \<not> (c = 9 \<and> tab_stuck s) \<and> safe s s'"
proof (cases "c = 9")
  case True
  show ?thesis
  proof (cases "tab_stuck s")
    case st: True
    then have "tab_loop s = None" using tab_loop_stuck [of s] assms by (cases "tab_loop s") auto
    then show ?thesis using True st by (simp add: term_write_cb_def)
  next
    case False
    then obtain s' where "tab_loop s = Some s'" "safe s s'" using tab_loop_returns assms by blast
    then show ?thesis using True False safe_then_drawn [OF _ drawn_set_cursor] by (simp add: term_write_cb_def)
  qed
next
  case False
  let ?n = "s\<lparr>cx := 0, pending_wrap := False\<rparr>"
  let ?b = "(if cx s > 0 then s\<lparr>cx := cx s - 1\<rparr> else s)\<lparr>pending_wrap := False\<rparr>"
  have n: "term_inv ?n" "term_inv ?b" using assms by (simp_all add: term_inv_def)
  have "safe s ?n" "safe s ?b" using n by (auto intro: safe_regs)
  moreover have "safe s (linefeed ?n)" using safe_trans [OF safe_regs [OF n(1)] safe_linefeed [OF n(1)], of s] by simp
  moreover have "safe s s" "safe s (putc c s)" using safe_regs [OF assms] putc_effect(1) [OF assms] by simp_all
  ultimately show ?thesis using False by (auto simp: term_write_cb_def intro: safe_then_drawn [OF _ drawn_set_cursor])
qed

text \<open>The final byte of a control sequence finds parameters of ordinary size.\<close>

definition params_fit :: "u8 \<Rightarrow> terminal \<Rightarrow> bool" where
  "params_fit c s \<longleftrightarrow> tstate (parser s) = CSI \<and> c > 63 \<and> c \<le> 122 \<longrightarrow>
     (case lw_terminal_parser_parse_params (parser s) of None \<Rightarrow> False | Some t \<Rightarrow> params_ok t)"

lemma lw_terminal_parser_read_safe:
  assumes "term_inv s" "params_fit c s"
  shows "case lw_terminal_parser_read c s of None \<Rightarrow> tab_hangs c s | Some s' \<Rightarrow> \<not> tab_hangs c s \<and> safe s s'"
proof -
  have r: "safe s s" using safe_regs [OF assms(1)] by simp
  have l: "length (stack (parser s)) \<le> TERM_STACK_SIZE" using assms(1) by (simp add: term_inv_def)
  have up: "safe s (goto st s)" "safe s (upd_parser leave_sequence s)" "safe s (upd_parser (\<lambda>t. t\<lparr>pflag := 63\<rparr>) s)"
      "safe s (upd_parser (lw_terminal_parser_push c) s)" for st
    using l unfolding goto_def
    by (intro safe_upd_parser [OF r]; simp add: leave_sequence_def lw_terminal_parser_push_def TERM_STACK_SIZE_def)+
  have esc: "safe s (lw_terminal_parser_call_ESC c s)"
    unfolding lw_terminal_parser_call_ESC_def
    by (rule safe_upd_parser) (use safe_esc assms(1) r in \<open>auto simp: leave_sequence_def split: option.splits\<close>)
  have csi: "case lw_terminal_parser_call_CSI c s of None \<Rightarrow> False | Some s' \<Rightarrow> safe s s'"
    if "lw_terminal_parser_parse_params (parser s) = Some t" "params_ok t" for t
  proof -
    let ?s = "s\<lparr>parser := t\<rparr>"
    have "length (stack t) \<le> TERM_STACK_SIZE" using that(1) l by (auto simp: lw_terminal_parser_parse_params_def)
    then have i: "term_inv ?s" "params_ok (parser ?s)" using assms(1) that(2) by (simp_all add: term_inv_def)
    have "safe s (case csi_table c of None \<Rightarrow> ?s | Some f \<Rightarrow> f ?s)"
      using safe_trans [OF safe_regs [OF i(1)] safe_csi [OF _ i]] safe_regs [OF i(1)] by (auto split: option.splits)
    then show ?thesis using that(1)
      by (auto simp: lw_terminal_parser_call_CSI_def Let_def leave_sequence_def intro: safe_upd_parser)
  qed
  note W = term_write_cb_safe [OF assms(1), of c]
  show ?thesis
  proof (cases "tstate (parser s)")
    case CSI
    then show ?thesis using up csi assms(2) W
      by (auto simp: lw_terminal_parser_read_def tab_hangs_def params_fit_def split: option.splits if_splits)
  qed (use up esc W in \<open>auto simp: lw_terminal_parser_read_def lw_terminal_parser_call_HASH_def lw_terminal_parser_call_GSET_def
    tab_hangs_def split: option.splits\<close>)
qed


fun output_fits :: "u8 list \<Rightarrow> terminal \<Rightarrow> bool" where
  "output_fits [] s = True"
| "output_fits (c # cs) s = (params_fit c s \<and> \<not> tab_hangs c s \<and>
     (case lw_terminal_parser_read c s of None \<Rightarrow> False | Some s' \<Rightarrow> output_fits cs s'))"

lemma read_all_safe: "term_inv s \<Longrightarrow> output_fits cs s \<Longrightarrow> \<exists>s'. read_all cs s = Some s' \<and> safe s s'"
proof (induction cs arbitrary: s)
  case Nil
  then show ?case using safe_regs by simp
next
  case (Cons c cs)
  then obtain s1 where r: "lw_terminal_parser_read c s = Some s1" "output_fits cs s1" by (auto split: option.splits)
  then have "safe s s1" using lw_terminal_parser_read_safe [of s c] Cons.prems by simp
  moreover from this obtain s2 where "read_all cs s1 = Some s2" "safe s1 s2" using Cons.IH r(2) by (auto simp: safe_def)
  ultimately show ?case using r(1) safe_trans by auto
qed

lemma set_cursor_position:
  assumes "term_inv s" "cursor_visible s"
  shows "256 * uint (crtc (set_cursor s) 0x0E) + uint (crtc (set_cursor s) 0x0F) = cy s * 80 + cx s"
proof -
  define p :: u16 where "p = word_of_int (cy s * COLS + cx s)"
  have small: "uint (word_of_int n :: u16) = n" if "0 \<le> n" "n < 2000" for n :: int
    using that by (simp add: uint_word_of_int_eq take_bit_int_eq_self)
  have p: "uint p = cy s * 80 + cx s" "uint p < 2000"
    using assms(1) small [of "cy s * COLS + cx s"] by (simp_all only: p_def) (simp_all add: COLS_def term_inv_def)
  have "p AND 0xFF = take_bit 8 p" by (simp add: take_bit_eq_mask mask_eq_exp_minus_1)
  then have "uint (ucast (p AND 0xFF) :: u8) = uint p mod 256"
    by (simp add: unsigned_ucast_eq take_bit_eq_mod uint_mod)
  moreover have "uint (ucast (drop_bit 8 p) :: u8) = uint p div 256"
  proof -
    have "uint (ucast (drop_bit 8 p) :: u8) = uint p div 256 mod 256"
      by (simp add: unsigned_ucast_eq take_bit_eq_mod drop_bit_eq_div uint_div)
    moreover have "0 \<le> uint p div 256" "uint p div 256 < 256" using p(2) by (simp_all add: pos_imp_zdiv_nonneg_iff)
    ultimately show ?thesis by (simp only: mod_pos_pos_trivial)
  qed
  moreover have "crtc (set_cursor s) 0x0E = ucast (drop_bit 8 p)" "crtc (set_cursor s) 0x0F = ucast (p AND 0xFF)"
    using assms(2) by (simp_all add: set_cursor_def Let_def p_def)
  ultimately show ?thesis using p(1) by simp
qed

text \<open>
  Writing to the console: for output whose sequences have ordinary parameters and no hanging tab, \<open>terminal_write\<close> returns,
  the cursor stays on the screen, nothing outside the text buffer is written, and the hardware cursor
  registers hold the position of the cursor when it is visible.
\<close>

lemma terminal_write_safe:
  assumes "term_inv s" and "ready s" and "output_fits buf s"
  shows "\<exists>s'. terminal_write buf s = Some s' \<and> term_inv s' \<and> (\<forall>i. i < 0 \<or> 2000 \<le> i \<longrightarrow> vga s' i = vga s i) \<and>
    (cursor_visible s' \<longrightarrow> 256 * uint (crtc s' 0x0E) + uint (crtc s' 0x0F) = cy s' * 80 + cx s')"
proof -
  obtain s1 where s1: "read_all buf s = Some s1" "safe s s1" using read_all_safe assms by blast
  let ?s = "set_cursor s1"
  have "safe s ?s" by (rule safe_then_drawn [OF s1(2) drawn_set_cursor])
  moreover have "cursor_visible ?s \<longrightarrow> 256 * uint (crtc ?s 0x0E) + uint (crtc ?s 0x0F) = cy ?s * 80 + cx ?s"
    using set_cursor_position [of s1] s1(2) drawn_fields [OF drawn_set_cursor [of s1]] by (simp add: safe_def)
  ultimately show ?thesis using s1 assms(2) by (simp add: terminal_write_def safe_def outside_same_def)
qed

section \<open>Text\<close>

lemma cell_char: "ucast (cell c s AND 0xFF) = c"
proof -
  have "(0xFF :: u16) = mask 8" by (simp add: mask_eq_exp_minus_1)
  then show ?thesis by (auto simp: cell_def bit_eq_iff bit_simps)
qed

definition printable :: "u8 \<Rightarrow> bool" where
  "printable c \<longleftrightarrow> 32 \<le> c"

lemma putc_plain:
  assumes "term_inv s" "\<not> pending_wrap s" "cx s < 79"
  shows "vga (putc c s) = (vga s)(cy s * 80 + cx s := cell c s)" "cy (putc c s) = cy s" "attr (putc c s) = attr s"
    "ready (putc c s) = ready s"
proof -
  let ?s = "(putcell (cx s) (cy s) c s)\<lparr>cx := cx s + 1\<rparr>"
  have p: "putc c s = set_cursor ?s" using assms by (simp add: putc_def Let_def putcell_def COLS_def)
  have c: "\<exists>r. set_cursor ?s = ?s\<lparr>crtc := r\<rparr>" by (auto simp: set_cursor_def Let_def)
  then show "vga (putc c s) = (vga s)(cy s * 80 + cx s := cell c s)" "cy (putc c s) = cy s" "attr (putc c s) = attr s"
    "ready (putc c s) = ready s"
    unfolding p by (auto simp: putcell_def COLS_def attr_def)
qed

lemma read_plain:
  assumes "term_inv s" "\<not> pending_wrap s" "cx s < 79" "tstate (parser s) = INIT" "printable c"
  shows "\<exists>s'. lw_terminal_parser_read c s = Some s' \<and> term_inv s' \<and> \<not> pending_wrap s' \<and> cx s' = cx s + 1 \<and> cy s' = cy s \<and>
    parser s' = parser s \<and> attr s' = attr s \<and> ready s' = ready s \<and> vga s' = (vga s)(cy s * 80 + cx s := cell c s)"
proof -
  have c: "c \<noteq> 27" "c \<noteq> 10" "c \<noteq> 13" "c \<noteq> 8" "c \<noteq> 9" "c \<noteq> 7" "c \<noteq> 0x0e" "c \<noteq> 0x0f" using assms(5) by (auto simp: printable_def)
  let ?s = "set_cursor (putc c s)"
  have r: "lw_terminal_parser_read c s = Some ?s"
    using assms(4,5) c by (simp add: lw_terminal_parser_read_def term_write_cb_def printable_def)
  note P = putc_effect [OF assms(1), of c] and Q = putc_plain [OF assms(1-3), of c]
  note F = drawn_fields [OF drawn_set_cursor [of "putc c s"]]
  have v: "\<exists>r. ?s = (putc c s)\<lparr>crtc := r\<rparr>" by (auto simp: set_cursor_def Let_def)
  then have "vga ?s = vga (putc c s)" "attr ?s = attr (putc c s)" by (auto simp: attr_def)
  then show ?thesis using r P Q F assms(2,3) drawn_inv [OF drawn_set_cursor, of "putc c s"] by (simp add: safe_def)
qed

lemma read_all_plain:
  assumes "term_inv s" "\<not> pending_wrap s" "cx s + int (length cs) < 80" "tstate (parser s) = INIT" "\<forall>c\<in>set cs. printable c"
  shows "\<exists>s'. read_all cs s = Some s' \<and> term_inv s' \<and> \<not> pending_wrap s' \<and> cx s' = cx s + int (length cs) \<and> cy s' = cy s \<and> attr s' = attr s \<and> ready s' = ready s \<and>
    vga s' = (\<lambda>i. let k = i - (cy s * 80 + cx s) in if 0 \<le> k \<and> k < int (length cs) then cell (cs ! nat k) s else vga s i)"
  using assms
proof (induction cs arbitrary: s)
  case Nil
  then show ?case by (auto simp: fun_eq_iff Let_def)
next
  case (Cons c cs)
  obtain s1 where s1: "lw_terminal_parser_read c s = Some s1" "term_inv s1" "\<not> pending_wrap s1" "cx s1 = cx s + 1" "cy s1 = cy s"
    "parser s1 = parser s" "attr s1 = attr s" "ready s1 = ready s" "vga s1 = (vga s)(cy s * 80 + cx s := cell c s)"
    using read_plain [of s c] Cons.prems by auto
  then obtain s2 where s2: "read_all cs s1 = Some s2" "term_inv s2" "\<not> pending_wrap s2" "cx s2 = cx s1 + int (length cs)" "cy s2 = cy s1"
    "attr s2 = attr s1" "ready s2 = ready s1"
    "vga s2 = (\<lambda>i. let k = i - (cy s1 * 80 + cx s1) in if 0 \<le> k \<and> k < int (length cs) then cell (cs ! nat k) s1 else vga s1 i)"
    using Cons.IH [of s1] Cons.prems by auto
  have "vga s2 i = (let k = i - (cy s * 80 + cx s) in if 0 \<le> k \<and> k < int (length (c # cs)) then cell ((c # cs) ! nat k) s else vga s i)" for i
  proof -
    have cl: "cell x s1 = cell x s" for x using s1(7) by (simp add: cell_def)
    have n: "nat (i - (cy s * 80 + cx s)) = Suc (nat (i - (cy s * 80 + (cx s + 1))))" if "cy s * 80 + (cx s + 1) \<le> i" using that by simp
    show ?thesis unfolding s2(8) s1(4,5,9) cl Let_def
      by (cases "i = cy s * 80 + cx s"; cases "cy s * 80 + (cx s + 1) \<le> i") (auto simp: n)
  qed
  then show ?case using s1 s2 by (auto simp: fun_eq_iff)
qed

text \<open>
  (C35) A prompt written to the beginning of a line is what the line discipline reads back to redraw it: after a carriage return and any
  printable text that fits before the last column, the snapshot of the line is exactly that text, terminated by a NUL.
\<close>

theorem terminal_snapshot_roundtrip:
  assumes "term_inv s" and "ready s" and "tstate (parser s) = INIT" and "\<forall>c\<in>set str. printable c" and "length str < 80"
    and "int (length str) < mx"
  shows "\<exists>s'. terminal_write (13 # str) s = Some s' \<and> terminal_snapshot_line mx s' = (int (length str), str @ [0]) \<and> cy s' = cy s"
proof -
  let ?s = "set_cursor (s\<lparr>cx := 0, pending_wrap := False\<rparr>)"
  note F = drawn_fields [OF drawn_set_cursor [of "s\<lparr>cx := 0, pending_wrap := False\<rparr>"]]
  have r: "lw_terminal_parser_read 13 s = Some ?s" using assms(3) by (simp add: lw_terminal_parser_read_def term_write_cb_def)
  have i: "term_inv ?s" by (rule drawn_inv [OF drawn_set_cursor]) (use assms(1) in \<open>simp add: term_inv_def\<close>)
  obtain s1 where s1: "read_all str ?s = Some s1" "cx s1 = int (length str)" "cy s1 = cy s" "ready s1 = ready s"
    "vga s1 = (\<lambda>i. let k = i - (cy s * 80) in if 0 \<le> k \<and> k < int (length str) then cell (str ! nat k) ?s else vga ?s i)"
    using read_all_plain [OF i, of str] F assms by auto
  let ?e = "set_cursor s1"
  have w: "terminal_write (13 # str) s = Some ?e" using r s1(1) assms(2) by (simp add: terminal_write_def)
  have "\<exists>q. ?e = s1\<lparr>crtc := q\<rparr>" by (auto simp: set_cursor_def Let_def)
  then have e: "vga ?e = vga s1" "cy ?e = cy s" "cx ?e = int (length str)" "ready ?e = ready s" using s1(2-4) by auto
  have nz: "str ! k \<noteq> 0" if "k < length str" for k
    using bspec [OF assms(4) nth_mem [OF that]] by (auto simp: printable_def)
  have m: "map (\<lambda>x. let c = ucast (vga s1 (cy s * COLS + x) AND 0xFF) :: u8 in if c \<noteq> 0 then c else 32) [0..int (length str) - 1] = str"
    by (rule nth_equalityI) (simp_all add: s1(5) Let_def COLS_def cell_char nz)
  have "terminal_snapshot_line mx ?e = (int (length str), str @ [0])"
    using e m assms(2,6) by (simp add: terminal_snapshot_line_def)
  then show ?thesis using w e by auto
qed

section \<open>Witnesses\<close>

definition term_example :: terminal where
  "term_example = \<lparr>vga = (\<lambda>_. 0), crtc = (\<lambda>_. 0), parser = \<lparr>tstate = INIT, argc = 0, argv = (\<lambda>_. 0), stack = [], pflag = 0\<rparr>,
     ready = True, cx = 0, cy = 0, top_row = 0, bot_row = 24, sx = 0, sy = 0, pending_wrap = False, autowrap = True,
     cursor_visible = True, fg = 7, bg = 0, bold = False, reverse_video = False, lflag = 7\<rparr>"

lemma term_example_inv: "term_inv term_example"
  by (simp add: term_inv_def term_example_def TERM_STACK_SIZE_def)


lemma parse_params_semicolons:
  "parse_params_loop (replicate n 59) m v got = None \<longleftrightarrow> 0 < n \<and> TERM_STACK_SIZE \<le> m + n"
proof (induction n arbitrary: m v got)
  case (Suc n)
  then show ?case by (auto simp: TERM_STACK_SIZE_def)
qed simp

text \<open>A sequence with 1024 separators, which fit the parser's stack, stores past its parameter array.\<close>

lemma parser_params_overflow:
  "lw_terminal_parser_parse_params (parser term_example\<lparr>stack := replicate 1024 59\<rparr>) = None"
  by (simp add: lw_terminal_parser_parse_params_def parse_params_semicolons TERM_STACK_SIZE_def)

text \<open>\<open>ESC [ 4294967271 A\<close>: the parameter is read as -25, and moving the cursor up leaves it below the screen.\<close>

lemmas byte_simps = lw_terminal_parser_read_def goto_def upd_parser_def lw_terminal_parser_push_def TERM_STACK_SIZE_def
  lw_terminal_parser_call_CSI_def lw_terminal_parser_parse_params_def leave_sequence_def csi_table_def

lemma cursor_leaves_screen:
  "map_option cy (read_all [27, 91, 52, 50, 57, 52, 57, 54, 55, 50, 55, 49, 65] term_example) = Some 25"
  by (simp add: byte_simps term_example_def csi_cuu_def csi_arg_def wrap32_def)

definition hi :: "u8 list" where "hi = [72, 105]"

theorem terminal_snapshot_roundtrip_witness:
  "\<exists>s'. terminal_write (13 # hi) term_example = Some s' \<and> terminal_snapshot_line 64 s' = (2, [72, 105, 0])"
  using terminal_snapshot_roundtrip [OF term_example_inv, of hi 64]
  by (auto simp: term_example_def hi_def printable_def)

lemma terminal_write_safe_witness:
  "output_fits [27, 91, 53, 59, 49, 48, 72] term_example \<and>
   (\<exists>s'. terminal_write [27, 91, 53, 59, 49, 48, 72] term_example = Some s' \<and> term_inv s')"
proof -
  have f: "output_fits [27, 91, 53, 59, 49, 48, 72] term_example"
    by (simp add: byte_simps term_example_def params_fit_def tab_hangs_def params_ok_def less_Suc_eq)
  have "ready term_example" by (simp add: term_example_def)
  then show ?thesis using terminal_write_safe [OF term_example_inv _ f] f by blast
qed

end
