(* ===== verification/Interrupts.thy ===== *)
theory Interrupts
  imports Scheduler Vga Terminal_Safety
begin

text \<open>
  \<open>arch/x86/isr.c\<close> and \<open>panic\<close> of \<open>kernel/kernel.c\<close>: the handlers of the processor's exceptions. Each prints a report and stops the machine;
  a page fault of user code ends the process instead. The word at the faulting instruction and the address in CR2 are
  arguments. \<open>None\<close> is the non-termination of the terminal's output, as in \<open>print\<close>.
\<close>

section \<open>Reports\<close>

datatype piece = Str "u8 list" u8 | Hex u32

fun report :: "piece list \<Rightarrow> console \<Rightarrow> console option" where
  "report [] c = Some c"
| "report (Str s col # ps) c = Option.bind (print s col c) (report ps)"
| "report (Hex v # ps) c = Option.bind (print_hex v c) (report ps)"

datatype fault_flow = Stops | Ends_process exit_flow

definition panic_report :: "u8 list \<Rightarrow> piece list" where
  "panic_report msg = [Str ([10] @ bytes_of ''=== KERNEL PANIC! ==='' @ [10]) 0, Str msg 0x0c, Str [10] 0x0c]"

definition panic :: "u8 list \<Rightarrow> console \<Rightarrow> (fault_flow \<times> console) option" where
  "panic msg c = do { c \<leftarrow> report (panic_report msg) (clear_screen c); Some (Stops, c) }"

section \<open>Handlers\<close>

definition isr0 :: "console \<Rightarrow> (fault_flow \<times> console) option" where
  "isr0 c = panic (bytes_of ''INFO: Divide by zero'') c"

definition isr6_handler :: "u32 \<Rightarrow> u32 \<Rightarrow> u32 \<Rightarrow> u32 \<Rightarrow> console \<Rightarrow> (fault_flow \<times> console) option" where
  "isr6_handler eip cs eflags inst c = do {
     c \<leftarrow> report [Str (bytes_of ''Invalid Opcode(6)!'' @ [10]) 0x04, Str (bytes_of ''EIP=0x'') 0x04, Hex eip, Str (bytes_of '' CS=0x'') 0x04,
       Hex cs, Str (bytes_of '' EFLAGS=0x'') 0x04, Hex eflags, Str [10] 0x04, Str (bytes_of ''Inst=0x'') 0x04, Hex inst, Str [10] 0x04] c;
     Some (Stops, c)
   }"

definition upper_digit :: "u32 \<Rightarrow> u8" where
  "upper_digit n = (if n < 10 then 48 + ucast n else 65 + ucast n - 10)"

definition isr13_handler :: "u32 \<Rightarrow> console \<Rightarrow> (fault_flow \<times> console) option" where
  "isr13_handler error_code c = do {
     c \<leftarrow> report ([Str (bytes_of ''GPF(13)! Error code: 0x'') 0x0C] @
       map (\<lambda>i. Str [upper_digit (drop_bit (28 - 4 * i) error_code AND 0xF)] 0x0C) [0..<8] @ [Str [10] 0x0C]) c;
     Some (Stops, c)
   }"

definition SIGSEGV :: u32 where "SIGSEGV = 11"

definition isr14_report :: "u32 \<Rightarrow> u32 \<Rightarrow> u32 \<Rightarrow> u32 \<Rightarrow> u32 \<Rightarrow> piece list" where
  "isr14_report error_code cr2 eip cs esp =
     [Str (bytes_of ''Page Fault(14)! err=0x'') 0x04, Hex error_code, Str (bytes_of '' addr=0x'') 0x04, Hex cr2, Str (bytes_of '' eip=0x'') 0x04,
      Hex eip, Str (bytes_of '' cs=0x'') 0x04, Hex cs, Str (bytes_of '' esp=0x'') 0x04, Hex esp, Str [10] 0x04]"

definition isr14_handler :: "'w vfs_env \<Rightarrow> u32 \<Rightarrow> u32 \<Rightarrow> u32 \<Rightarrow> u32 \<Rightarrow> u32 \<Rightarrow> 'w kernel \<times> console \<Rightarrow>
    (fault_flow \<times> 'w kernel \<times> console) option" where
  "isr14_handler env error_code cr2 eip cs esp = (\<lambda>(k, c). do {
     c \<leftarrow> report (isr14_report error_code cr2 eip cs esp) c;
     if error_code AND 4 \<noteq> 0 then do {
       c \<leftarrow> print (bytes_of ''user fault: terminating process'' @ [10]) 0x04 c;
       let k = upd_proc (cur k) (\<lambda>p. p\<lparr>exit_code := 128 + SIGSEGV\<rparr>) k;
       let (fl, k) = process_exit env k;
       Some (Ends_process fl, k, c)
     }
     else do {
       c \<leftarrow> print (bytes_of ''kernel fault: halting'' @ [10]) 0x04 c;
       Some (Stops, k, c)
     }
   })"

section \<open>A faulting process\<close>

lemma close_fds_keeps:
  "cur (close_fds env i k) = cur k \<and> length (procs (close_fds env i k)) = length (procs k) \<and>
   (\<exists>g. procs (close_fds env i k) ! cur k = (procs k ! cur k)\<lparr>pfds := g\<rparr>) \<and>
   (\<forall>j. j \<noteq> cur k \<longrightarrow> procs (close_fds env i k) ! j = procs k ! j)"
proof (cases "cur k < length (procs k)")
  case True
  then show ?thesis by (auto simp: close_fds_def upd_proc_def set_vfs_def curp_def split: option.split intro: exI [of _ "pfds (procs k ! cur k)"])
next
  case False
  then show ?thesis
    by (auto simp: close_fds_def upd_proc_def set_vfs_def curp_def list_update_beyond split: option.split intro: exI [of _ "pfds (procs k ! cur k)"])
qed

lemma close_all_keeps:
  "cur (fold (close_fds env) is k) = cur k \<and> length (procs (fold (close_fds env) is k)) = length (procs k) \<and>
   (\<exists>g. procs (fold (close_fds env) is k) ! cur k = (procs k ! cur k)\<lparr>pfds := g\<rparr>) \<and>
   (\<forall>j. j \<noteq> cur k \<longrightarrow> procs (fold (close_fds env) is k) ! j = procs k ! j)"
proof (induction "is" arbitrary: k)
  case Nil
  then show ?case by (auto intro: exI [of _ "pfds (procs k ! cur k)"])
next
  case (Cons i "is")
  show ?case using Cons [of "close_fds env i k"] close_fds_keeps [of env i k] by auto
qed


text \<open>Before the terminal is there, printing always returns.\<close>

lemma fold_ready:
  "(\<And>x c. terminal_ready (tty (g x c)) = terminal_ready (tty c)) \<Longrightarrow> terminal_ready (tty (fold g xs c)) = terminal_ready (tty c)"
  by (induction xs arbitrary: c) auto

lemma steps_ready:
  "terminal_ready (tty (put_cell i x a c)) = terminal_ready (tty c)"
  "terminal_ready (tty (serial_putchar x c)) = terminal_ready (tty c)"
  "terminal_ready (tty (update_hw_cursor c)) = terminal_ready (tty c)"
  "terminal_ready (tty (scroll c)) = terminal_ready (tty c)"
proof -
  show cell: "terminal_ready (tty (put_cell i x a c)) = terminal_ready (tty c)" for i x a c
    by (simp add: put_cell_def terminal_ready_def)
  show "terminal_ready (tty (serial_putchar x c)) = terminal_ready (tty c)"
    "terminal_ready (tty (update_hw_cursor c)) = terminal_ready (tty c)"
    by (simp_all add: serial_putchar_def update_hw_cursor_def terminal_ready_def Let_def)
  show "terminal_ready (tty (scroll c)) = terminal_ready (tty c)"
    unfolding scroll_def Let_def by (simp add: fold_ready cell) (intro fold_ready, simp add: terminal_ready_def)
qed

lemma print_char_ready: "terminal_ready (tty (print_char col x c)) = terminal_ready (tty c)"
  by (simp add: print_char_def next_line_def Let_def steps_ready)

lemma print_returns:
  assumes "\<not> terminal_ready (tty c)"
  shows "\<exists>c'. print s col c = Some c' \<and> \<not> terminal_ready (tty c')"
  using assms by (simp add: print_def Let_def steps_ready fold_ready print_char_ready)

lemma report_returns:
  "\<not> terminal_ready (tty c) \<Longrightarrow> \<exists>c'. report ps c = Some c' \<and> \<not> terminal_ready (tty c')"
proof (induction ps arbitrary: c)
  case (Cons p ps)
  obtain s col where p: "report (p # ps) c = Option.bind (print s col c) (report ps)"
    by (cases p) (auto simp: print_hex_def)
  obtain c1 where "print s col c = Some c1" "\<not> terminal_ready (tty c1)" using print_returns [OF Cons.prems] by blast
  then show ?case using Cons.IH [of c1] unfolding p by simp
qed auto

definition dark_console :: console where
  "dark_console = \<lparr>tty = term_example\<lparr>ready := False\<rparr>, cursor_x = 0, cursor_y = 0, serial_out = []\<rparr>"


end
