(* ===== verification/Segments.thy ===== *)
theory Segments
  imports Kernel_Prelude
begin

text \<open>
  \<open>arch/x86/gdt.c\<close>, \<open>arch/x86/idt.c\<close> and \<open>arch/x86/tss.c\<close>: the descriptor tables of the processor. The tables are functions of the index;
  the instructions that load the table registers and the selectors are not modelled. The addresses of the handlers, of the
  task state segment and of its stack are parameters.
\<close>

section \<open>Segment descriptors\<close>

record gdt_entry =
  limit_low :: u16
  base_low :: u16
  base_middle :: u8
  access :: u8
  granularity :: u8
  base_high :: u8

definition gdt_set :: "nat \<Rightarrow> u32 \<Rightarrow> u32 \<Rightarrow> u32 \<Rightarrow> u32 \<Rightarrow> (nat \<Rightarrow> gdt_entry) \<Rightarrow> nat \<Rightarrow> gdt_entry" where
  "gdt_set i base limit acc gran gdt = gdt(i :=
     \<lparr>limit_low = ucast (limit AND 0xFFFF), base_low = ucast (base AND 0xFFFF), base_middle = ucast (drop_bit 16 base AND 0xFF),
      access = ucast acc, granularity = ucast (drop_bit 16 limit AND 0x0F) OR ucast (gran AND 0xF0),
      base_high = ucast (drop_bit 24 base AND 0xFF)\<rparr>)"

definition gdt_set_tls_base :: "u32 \<Rightarrow> (nat \<Rightarrow> gdt_entry) \<Rightarrow> nat \<Rightarrow> gdt_entry" where
  "gdt_set_tls_base base gdt = gdt_set 6 base 0xFFFFFFFF 0xF2 0xCF gdt"

record gdt_ptr =
  gp_limit :: u16
  gp_base :: u32

definition gdt_init :: "u32 \<Rightarrow> (nat \<Rightarrow> gdt_entry) \<Rightarrow> gdt_ptr \<times> (nat \<Rightarrow> gdt_entry)" where
  "gdt_init addr gdt =
     (\<lparr>gp_limit = 7 * 8 - 1, gp_base = addr\<rparr>,
      gdt_set 6 0 0xFFFFFFFF 0xF2 0xCF (gdt_set 5 0 0 0 0 (gdt_set 4 0 0xFFFFFFFF 0xF2 0xCF (gdt_set 3 0 0xFFFFFFFF 0xFA 0xCF
       (gdt_set 2 0 0xFFFFFFFF 0x92 0xCF (gdt_set 1 0 0xFFFFFFFF 0x9A 0xCF (gdt_set 0 0 0 0 0 gdt)))))))"

section \<open>Interrupt gates\<close>

definition IDT_SIZE :: nat where "IDT_SIZE = 256"

record idt_entry =
  offset_low :: u16
  selector :: u16
  zero :: u8
  type_attr :: u8
  offset_high :: u16

definition idt_set :: "nat \<Rightarrow> u32 \<Rightarrow> u16 \<Rightarrow> u8 \<Rightarrow> (nat \<Rightarrow> idt_entry) \<Rightarrow> nat \<Rightarrow> idt_entry" where
  "idt_set i handler sl flags idt = idt(i :=
     \<lparr>offset_low = ucast (handler AND 0xFFFF), selector = sl, zero = 0, type_attr = flags,
      offset_high = ucast (drop_bit 16 handler AND 0xFFFF)\<rparr>)"

record idt_ptr =
  ip_limit :: u16
  ip_base :: u32

record handlers =
  h_isr0 :: u32
  h_isr6 :: u32
  h_isr13 :: u32
  h_isr14 :: u32
  h_irq0 :: u32
  h_keyboard :: u32
  h_syscall :: u32

definition idt_init :: "handlers \<Rightarrow> u32 \<Rightarrow> (nat \<Rightarrow> idt_entry) \<Rightarrow> idt_ptr \<times> (nat \<Rightarrow> idt_entry)" where
  "idt_init h addr idt =
     (let p = \<lparr>ip_limit = of_nat (8 * IDT_SIZE) - 1, ip_base = addr\<rparr>;
          idt = fold (\<lambda>i. idt_set i 0 0 0) [0..<IDT_SIZE] idt;
          idt = idt_set 0 (h_isr0 h) 0x08 0x8E idt;
          idt = idt_set 6 (h_isr6 h) 0x08 0x8E idt;
          idt = idt_set 13 (h_isr13 h) 0x08 0x8E idt;
          idt = idt_set 14 (h_isr14 h) 0x08 0x8E idt;
          idt = idt_set 32 (h_irq0 h) 0x08 0x8E idt;
          idt = idt_set 0x21 (h_keyboard h) 0x08 0x8E idt
      in (p, idt_set 0x80 (h_syscall h) 0x08 0xEE idt))"

section \<open>Task state segment\<close>

record tss =
  tss_prev_tss :: u32
  tss_esp0 :: u32
  tss_ss0 :: u32
  tss_esp1 :: u32
  tss_ss1 :: u32
  tss_esp2 :: u32
  tss_ss2 :: u32
  tss_cr3 :: u32
  tss_eip :: u32
  tss_eflags :: u32
  tss_eax :: u32
  tss_ecx :: u32
  tss_edx :: u32
  tss_ebx :: u32
  tss_esp :: u32
  tss_ebp :: u32
  tss_esi :: u32
  tss_edi :: u32
  tss_es :: u32
  tss_cs :: u32
  tss_ss :: u32
  tss_ds :: u32
  tss_fs :: u32
  tss_gs :: u32
  tss_ldt :: u32
  tss_trap :: u16
  tss_iomap_base :: u16

definition sizeof_tss :: u32 where "sizeof_tss = 104"

definition tss_zero :: tss where
  "tss_zero =
     \<lparr>tss_prev_tss = 0, tss_esp0 = 0, tss_ss0 = 0, tss_esp1 = 0, tss_ss1 = 0, tss_esp2 = 0, tss_ss2 = 0, tss_cr3 = 0,
      tss_eip = 0, tss_eflags = 0, tss_eax = 0, tss_ecx = 0, tss_edx = 0, tss_ebx = 0, tss_esp = 0, tss_ebp = 0, tss_esi = 0,
      tss_edi = 0, tss_es = 0, tss_cs = 0, tss_ss = 0, tss_ds = 0, tss_fs = 0, tss_gs = 0, tss_ldt = 0, tss_trap = 0,
      tss_iomap_base = 0\<rparr>"

definition tss_init :: "u32 \<Rightarrow> u32 \<Rightarrow> (nat \<Rightarrow> gdt_entry) \<Rightarrow> tss \<times> (nat \<Rightarrow> gdt_entry)" where
  "tss_init base stk gdt =
     (tss_zero\<lparr>tss_ss0 := 0x10, tss_esp0 := stk + 4096, tss_cs := 0x08, tss_ss := 0x10, tss_ds := 0x10, tss_es := 0x10,
        tss_fs := 0x10, tss_gs := 0x10, tss_iomap_base := ucast sizeof_tss\<rparr>,
      gdt_set 5 base (sizeof_tss - 1) 0x89 0x00 gdt)"

definition tss_set_kernel_stack :: "u32 \<Rightarrow> tss \<Rightarrow> tss" where
  "tss_set_kernel_stack esp0 t = t\<lparr>tss_esp0 := esp0\<rparr>"

section \<open>What the processor reads back\<close>

text \<open>The fields of a descriptor as the processor puts them together.\<close>

definition seg_base :: "gdt_entry \<Rightarrow> u32" where
  "seg_base e = ucast (base_low e) OR push_bit 16 (ucast (base_middle e)) OR push_bit 24 (ucast (base_high e))"

definition seg_limit :: "gdt_entry \<Rightarrow> u32" where
  "seg_limit e = ucast (limit_low e) OR push_bit 16 (ucast (granularity e AND 0x0F))"

definition seg_flags :: "gdt_entry \<Rightarrow> u8" where
  "seg_flags e = granularity e AND 0xF0"

definition gate_offset :: "idt_entry \<Rightarrow> u32" where
  "gate_offset e = ucast (offset_low e) OR push_bit 16 (ucast (offset_high e))"

lemma mask16: "x AND 0xFFFF = take_bit 16 x" for x :: u32
  using take_bit_eq_mask [of 16 x] by (simp add: mask_eq_exp_minus_1)

lemma mask8: "x AND 0xFF = take_bit 8 x" for x :: u32
  using take_bit_eq_mask [of 8 x] by (simp add: mask_eq_exp_minus_1)

lemma mask4: "x AND 0x0F = take_bit 4 x" for x :: "'a::len word"
  using take_bit_eq_mask [of 4 x] by (simp add: mask_eq_exp_minus_1)

lemma high4: "x AND 0xF0 = push_bit 4 (take_bit 4 (drop_bit 4 x))" for x :: "'a::len word"
proof -
  have e: "(0xF0 :: 'a word) = push_bit 4 (mask 4)"
    by (simp add: mask_eq_exp_minus_1 push_bit_eq_mult)
  show ?thesis
    unfolding e by (rule bit_eqI) (auto simp: bit_simps)
qed

lemmas descriptor_bits = mask16 mask8 mask4 high4

lemma gate_offset_set:
  "gate_offset (idt_set i handler sl flags idt i) = handler"
  unfolding gate_offset_def idt_set_def descriptor_bits
  by (rule bit_eqI) (auto simp: bit_simps)

lemma word_three_fields:
  "(ucast (ucast (take_bit 16 w) :: u16) :: u32) OR push_bit 16 (ucast (ucast (take_bit 8 (drop_bit 16 w)) :: u8)) OR
     push_bit 24 (ucast (ucast (take_bit 8 (drop_bit 24 w)) :: u8)) = w"
proof (rule bit_word_eqI)
  fix n
  assume "n < LENGTH(32)"
  then consider "n < 16" | "16 \<le> n" "n < 24" | "24 \<le> n" "n < 32" by fastforce
  then show "bit ((ucast (ucast (take_bit 16 w) :: u16) :: u32) OR push_bit 16 (ucast (ucast (take_bit 8 (drop_bit 16 w)) :: u8)) OR
     push_bit 24 (ucast (ucast (take_bit 8 (drop_bit 24 w)) :: u8))) n \<longleftrightarrow> bit w n"
    by cases (auto simp: bit_simps)
qed

lemma seg_base_set:
  "seg_base (gdt_set i base limit acc gran gdt i) = base"
  by (simp add: seg_base_def gdt_set_def descriptor_bits word_three_fields)

lemma seg_limit_set:
  "seg_limit (gdt_set i base limit acc gran gdt i) = take_bit 20 limit"
  unfolding seg_limit_def gdt_set_def descriptor_bits
  by (rule bit_eqI) (auto simp: bit_simps)

lemma seg_flags_set:
  "seg_flags (gdt_set i base limit acc gran gdt i) = ucast (gran AND 0xF0)"
  unfolding seg_flags_def gdt_set_def descriptor_bits
  by (rule bit_eqI) (auto simp: bit_simps)

section \<open>The tables the kernel installs\<close>

text \<open>
  Descriptors round-trip: what \<open>gdt_set\<close> scatters over the fields of an entry the processor reads back, that is the base, the
  low twenty bits of the limit, the access byte and the upper nibble of the granularity, and no other entry changes. The gate
  \<open>idt_set\<close> writes has the address of the handler as its offset.
\<close>

lemma descriptors_roundtrip:
  "seg_base (gdt_set i base limit acc gran gdt i) = base \<and>
   seg_limit (gdt_set i base limit acc gran gdt i) = take_bit 20 limit \<and>
   access (gdt_set i base limit acc gran gdt i) = ucast acc \<and>
   seg_flags (gdt_set i base limit acc gran gdt i) = ucast (gran AND 0xF0) \<and>
   (j = i \<or> gdt_set i base limit acc gran gdt j = gdt j) \<and>
   gate_offset (idt_set i handler sl flags idt i) = handler \<and>
   selector (idt_set i handler sl flags idt i) = sl \<and> type_attr (idt_set i handler sl flags idt i) = flags \<and>
   (j = i \<or> idt_set i handler sl flags idt j = idt j)"
  by (simp add: seg_base_set seg_limit_set seg_flags_set gate_offset_set) (simp add: gdt_set_def idt_set_def)

text \<open>Privilege: the present bit and the level of a descriptor.\<close>

definition gate_present :: "u8 \<Rightarrow> bool" where
  "gate_present a = bit a 7"

definition dpl :: "u8 \<Rightarrow> nat" where
  "dpl a = unat (drop_bit 5 a AND 3)"

lemma idt_clear:
  "j < n \<Longrightarrow> fold (\<lambda>i. idt_set i 0 0 0) [0..<n] idt j = \<lparr>offset_low = 0, selector = 0, zero = 0, type_attr = 0, offset_high = 0\<rparr>"
  by (induction n) (auto simp: idt_set_def less_Suc_eq)

text \<open>
  (C31) After \<open>idt_init\<close> the only vector a user program may raise is the system call's: among the 256 gates the present ones
  are those of the seven handlers, and the gate of vector 0x80 alone has privilege level 3.
\<close>

theorem idt_init_user_gate:
  assumes "j < IDT_SIZE"
  shows "(gate_present (type_attr (snd (idt_init h addr idt) j)) \<longleftrightarrow> j \<in> {0, 6, 13, 14, 32, 33, 128}) \<and>
    (gate_present (type_attr (snd (idt_init h addr idt) j)) \<and> dpl (type_attr (snd (idt_init h addr idt) j)) = 3 \<longleftrightarrow> j = 128)"
  using assms idt_clear [of j IDT_SIZE]
  by (simp add: idt_init_def Let_def idt_set_def gate_present_def dpl_def)

theorem idt_init_user_gate_witness:
  "let h = \<lparr>h_isr0 = 1, h_isr6 = 2, h_isr13 = 3, h_isr14 = 4, h_irq0 = 5, h_keyboard = 6, h_syscall = 7\<rparr>;
       gate = snd (idt_init h 0x1000 (\<lambda>_. \<lparr>offset_low = 0, selector = 0, zero = 0, type_attr = 0, offset_high = 0\<rparr>))
   in gate_present (type_attr (gate 128)) \<and> dpl (type_attr (gate 128)) = 3 \<and> \<not> gate_present (type_attr (gate 3))"
  using idt_init_user_gate [of 128] idt_init_user_gate [of 3]
  by (simp add: IDT_SIZE_def Let_def)

end
