(* ===== verification/Framebuffer.thy ===== *)
theory Framebuffer
  imports Kernel_Prelude
begin

text \<open>
  \<open>drivers/video/framebuffer.c\<close>: the statics of the file as a record, the pixel memory as part of the byte-addressed
  memory. All offsets are computed in 32-bit arithmetic, as in the code.
\<close>

record framebuffer =
  fb_address :: u32
  fb_width :: u32
  fb_height :: u32
  fb_pitch :: u32
  fb_bpp :: u8

definition framebuffer_init :: "u32 \<Rightarrow> u32 \<Rightarrow> u32 \<Rightarrow> u32 \<Rightarrow> u8 \<Rightarrow> framebuffer" where
  "framebuffer_init address width height pitch bpp =
     \<lparr>fb_address = address, fb_width = width, fb_height = height, fb_pitch = pitch, fb_bpp = bpp\<rparr>"

definition fb_offset :: "framebuffer \<Rightarrow> u32 \<Rightarrow> u32 \<Rightarrow> u32" where
  "fb_offset f x y = y * fb_pitch f + x * ucast (fb_bpp f div 8)"

definition framebuffer_putpixel :: "framebuffer \<Rightarrow> u32 \<Rightarrow> u32 \<Rightarrow> u32 \<Rightarrow> memory \<Rightarrow> memory" where
  "framebuffer_putpixel f x y color m =
     (if fb_address f = 0 then m
      else if x \<ge> fb_width f \<or> y \<ge> fb_height f then m
      else if fb_bpp f = 32 then st32 m (fb_address f + fb_offset f x y) color
      else if fb_bpp f = 24 then
        m(fb_address f + (fb_offset f x y + 0) := ucast (color AND 0xFF),
          fb_address f + (fb_offset f x y + 1) := ucast (drop_bit 8 color AND 0xFF),
          fb_address f + (fb_offset f x y + 2) := ucast (drop_bit 16 color AND 0xFF))
      else m)"

definition framebuffer_clear :: "framebuffer \<Rightarrow> u32 \<Rightarrow> memory \<Rightarrow> memory" where
  "framebuffer_clear f color m =
     (if fb_address f = 0 then m
      else for_u32 (\<lambda>y. for_u32 (\<lambda>x. framebuffer_putpixel f x y color) 0 (fb_width f)) 0 (fb_height f) m)"

definition framebuffer_fill_rect :: "framebuffer \<Rightarrow> u32 \<Rightarrow> u32 \<Rightarrow> u32 \<Rightarrow> u32 \<Rightarrow> u32 \<Rightarrow> memory \<Rightarrow> memory" where
  "framebuffer_fill_rect f x y width height color m =
     (if fb_address f = 0 then m
      else for_u32 (\<lambda>iy. for_u32 (\<lambda>ix. framebuffer_putpixel f (x + ix) (y + iy) color) 0 width) 0 height m)"

definition framebuffer_get_width :: "framebuffer \<Rightarrow> u32" where "framebuffer_get_width f = fb_width f"
definition framebuffer_get_height :: "framebuffer \<Rightarrow> u32" where "framebuffer_get_height f = fb_height f"
definition framebuffer_get_pitch :: "framebuffer \<Rightarrow> u32" where "framebuffer_get_pitch f = fb_pitch f"
definition framebuffer_get_bpp :: "framebuffer \<Rightarrow> u8" where "framebuffer_get_bpp f = fb_bpp f"
definition framebuffer_get_address :: "framebuffer \<Rightarrow> u32" where "framebuffer_get_address f = fb_address f"

section \<open>A mode the boot loader may report\<close>

text \<open>
  A line holds its pixels, and the whole screen fits in 32 bits of address space. The screen is \<open>fb_size\<close> bytes.
\<close>

definition fb_size :: "framebuffer \<Rightarrow> nat" where
  "fb_size f = unat (fb_pitch f) * unat (fb_height f)"

definition fb_ok :: "framebuffer \<Rightarrow> bool" where
  "fb_ok f \<longleftrightarrow> (fb_bpp f = 32 \<or> fb_bpp f = 24) \<and> fb_address f \<noteq> 0 \<and>
     unat (fb_width f) * unat (fb_bpp f div 8) \<le> unat (fb_pitch f) \<and> fb_size f \<le> 2 ^ 32"

lemma fb_offset_unat:
  assumes "fb_ok f" and "x < fb_width f" and "y < fb_height f"
  shows "unat (fb_offset f x y) = unat y * unat (fb_pitch f) + unat x * unat (fb_bpp f div 8)"
    and "unat y * unat (fb_pitch f) + unat x * unat (fb_bpp f div 8) + unat (fb_bpp f div 8) \<le> Suc (unat y) * unat (fb_pitch f)"
    and "Suc (unat y) * unat (fb_pitch f) \<le> fb_size f"
proof -
  let ?b = "unat (fb_bpp f div 8)"
  let ?o = "unat y * unat (fb_pitch f) + unat x * ?b"
  have "Suc (unat x) * ?b \<le> unat (fb_width f) * ?b" using assms(2) by (intro mult_le_mono1) (simp add: word_less_nat_alt)
  also have "\<dots> \<le> unat (fb_pitch f)" using assms(1) by (simp add: fb_ok_def)
  finally show line: "?o + ?b \<le> Suc (unat y) * unat (fb_pitch f)" by simp
  show total: "Suc (unat y) * unat (fb_pitch f) \<le> fb_size f"
    unfolding fb_size_def using assms(3) by (subst mult.commute, intro mult_le_mono2) (simp add: word_less_nat_alt)
  have "?b > 0" using assms(1) by (auto simp: fb_ok_def)
  with line total assms(1) have lt: "?o < 2 ^ 32" by (simp add: fb_ok_def)
  have "fb_offset f x y = of_nat ?o"
    by (simp add: fb_offset_def)
  with lt show "unat (fb_offset f x y) = ?o" by (simp only: unat_of_nat_lt)
qed

section \<open>Pixels\<close>

definition pixel_bytes :: "framebuffer \<Rightarrow> u32 \<Rightarrow> u8 list" where
  "pixel_bytes f color = take (unat (fb_bpp f div 8)) (u32_bytes color)"

definition fb_pixel :: "framebuffer \<Rightarrow> memory \<Rightarrow> u32 \<Rightarrow> u32 \<Rightarrow> u8 list" where
  "fb_pixel f m x y = bytes_at m (fb_address f + fb_offset f x y) (unat (fb_bpp f div 8))"

lemma putpixel_store:
  assumes "fb_ok f" and "x < fb_width f" and "y < fb_height f"
  shows "framebuffer_putpixel f x y color m = store_bytes m (fb_address f + fb_offset f x y) (pixel_bytes f color)"
proof -
  have low: "ucast (w AND 0xFF) = (ucast w :: u8)" for w :: u32
  proof -
    have "w AND 0xFF = take_bit 8 w" using take_bit_eq_mask [of 8 w] by (simp add: mask_eq_exp_minus_1)
    then show ?thesis by (simp only:) (rule bit_word_eqI, auto simp: bit_simps)
  qed
  have "fb_bpp f = 32 \<or> fb_bpp f = 24" "fb_address f \<noteq> 0" using assms(1) by (auto simp: fb_ok_def)
  then show ?thesis using assms(2,3)
    by (auto simp: framebuffer_putpixel_def pixel_bytes_def st32_def u32_bytes_def low add.assoc)
qed

lemma length_pixel_bytes: "fb_ok f \<Longrightarrow> length (pixel_bytes f color) = unat (fb_bpp f div 8)"
  by (auto simp: fb_ok_def pixel_bytes_def u32_bytes_def)

lemma in_pixel:
  assumes "fb_ok f" and "x < fb_width f" and "y < fb_height f"
  shows "in_region (fb_address f + fb_offset f x y) (unat (fb_bpp f div 8)) z \<longleftrightarrow>
    unat y * unat (fb_pitch f) + unat x * unat (fb_bpp f div 8) \<le> unat (z - fb_address f) \<and>
    unat (z - fb_address f) < unat y * unat (fb_pitch f) + Suc (unat x) * unat (fb_bpp f div 8)"
proof -
  note o = fb_offset_unat [OF assms]
  have "unat (fb_offset f x y) + unat (fb_bpp f div 8) \<le> 2 ^ 32"
    using o assms(1) unfolding fb_ok_def by linarith
  from in_region_window [OF this, of "fb_address f" z] show ?thesis unfolding o(1) by (simp add: ac_simps)
qed

text \<open>The pixel a screen byte belongs to is determined by its position.\<close>

lemma in_pixel_unique:
  assumes "fb_ok f" and "x < fb_width f" "y < fb_height f" "x' < fb_width f" "y' < fb_height f"
    and "in_region (fb_address f + fb_offset f x y) (unat (fb_bpp f div 8)) z"
    and "in_region (fb_address f + fb_offset f x' y') (unat (fb_bpp f div 8)) z"
  shows "x' = x \<and> y' = y"
proof -
  have pos: "(unat (z - fb_address f)) div unat (fb_pitch f) = unat v \<and>
      (unat (z - fb_address f) - unat v * unat (fb_pitch f)) div unat (fb_bpp f div 8) = unat u"
    if "u < fb_width f" "v < fb_height f" "in_region (fb_address f + fb_offset f u v) (unat (fb_bpp f div 8)) z" for u v
  proof -
    note w = that(3) [unfolded in_pixel [OF assms(1) that(1,2)]]
    have "unat (z - fb_address f) < Suc (unat v) * unat (fb_pitch f)"
      using fb_offset_unat(2) [OF assms(1) that(1,2)] w by simp
    then have "unat (z - fb_address f) div unat (fb_pitch f) = unat v"
      using w by (intro div_nat_eqI) (simp_all add: mult.commute)
    moreover have "(unat (z - fb_address f) - unat v * unat (fb_pitch f)) div unat (fb_bpp f div 8) = unat u"
      using w by (intro div_nat_eqI) (auto simp: mult.commute)
    ultimately show ?thesis by simp
  qed
  from pos [OF assms(2,3,6)] pos [OF assms(4,5,7)] show ?thesis by (auto simp: word_unat_eq_iff)
qed

lemma fb_pixel_putpixel:
  assumes "fb_ok f" and "px < fb_width f" "py < fb_height f"
  shows "fb_pixel f (framebuffer_putpixel f x y color m) px py =
    (if y = py \<and> x = px then pixel_bytes f color else fb_pixel f m px py)"
proof (cases "x < fb_width f \<and> y < fb_height f")
  case True
  note st = putpixel_store [OF assms(1), of x y color m] length_pixel_bytes [OF assms(1), of color]
  have b: "unat (fb_bpp f div 8) \<le> 2 ^ 32" using assms(1) by (auto simp: fb_ok_def)
  show ?thesis
  proof (cases "y = py \<and> x = px")
    case True
    with assms st b bytes_at_store_bytes [of "pixel_bytes f color"] show ?thesis by (simp add: fb_pixel_def)
  next
    case False
    have "fb_pixel f (framebuffer_putpixel f x y color m) px py = fb_pixel f m px py"
      unfolding fb_pixel_def using True False assms st b in_pixel_unique [OF assms(1)]
      by (intro bytes_at_cong) (auto simp: store_bytes_apply)
    with False show ?thesis by auto
  qed
next
  case False
  with assms show ?thesis by (auto simp: framebuffer_putpixel_def not_less)
qed

lemma putpixel_outside:
  assumes "fb_ok f" and "\<not> in_region (fb_address f) (fb_size f) z"
  shows "framebuffer_putpixel f x y color m z = m z"
proof (cases "x < fb_width f \<and> y < fb_height f")
  case True
  then have xy: "x < fb_width f" "y < fb_height f" by auto
  have "\<not> in_region (fb_address f + fb_offset f x y) (unat (fb_bpp f div 8)) z"
    unfolding in_pixel [OF assms(1) xy] using fb_offset_unat(2,3) [OF assms(1) xy] assms(2) unfolding in_region_def by simp
  moreover have "unat (fb_bpp f div 8) \<le> 2 ^ 32" using assms(1) by (auto simp: fb_ok_def)
  ultimately show ?thesis using length_pixel_bytes [OF assms(1), of color]
    by (simp add: putpixel_store [OF assms(1) xy] store_bytes_apply)
next
  case False
  then show ?thesis by (auto simp: framebuffer_putpixel_def not_less)
qed

text \<open>A loop one of whose steps changes a value leaves it changed when it reaches that step.\<close>

lemma for_u32_set:
  assumes "\<And>i s. v (f i s) = (if Q \<and> i = k then c else v s)"
  shows "v (for_u32 f 0 hi s) = (if Q \<and> k < hi then c else v s)"
proof -
  have "v (for_u32 f 0 hi s) = (if Q \<and> k < hi then c else v s)"
  proof (rule for_u32_index_rule [where P = "\<lambda>i s'. v s' = (if Q \<and> k < i then c else v s)"])
    fix i s'
    assume "v s' = (if Q \<and> k < i then c else v s)" "i < hi"
    moreover have "k < i + 1 \<longleftrightarrow> k < i \<or> k = i"
      using \<open>i < hi\<close> by (simp add: word_less_nat_alt unat_plus1_less less_Suc_eq word_unat_eq_iff)
    ultimately show "v (f i s') = (if Q \<and> k < i + 1 then c else v s)" using assms by auto
  qed simp_all
  then show ?thesis .
qed

section \<open>Filling rectangles\<close>

text \<open>
  (C30) \<open>framebuffer_fill_rect\<close> paints exactly the rectangle: in a mode whose lines hold their pixels, a pixel of the screen has
  the colour afterwards when it lies within the rectangle, counted from its corner in 32-bit arithmetic, and keeps its bytes
  otherwise; and no byte outside the screen is written, however far the rectangle reaches beyond it.
\<close>

theorem fill_rect_correct:
  assumes "fb_ok f"
  shows "(px < fb_width f \<longrightarrow> py < fb_height f \<longrightarrow>
      fb_pixel f (framebuffer_fill_rect f x y width height color m) px py =
        (if py - y < height \<and> px - x < width then pixel_bytes f color else fb_pixel f m px py)) \<and>
    (in_region (fb_address f) (fb_size f) z \<or> framebuffer_fill_rect f x y width height color m z = m z)"
proof (intro conjI impI)
  assume p: "px < fb_width f" "py < fb_height f"
  have row: "fb_pixel f (for_u32 (\<lambda>ix. framebuffer_putpixel f (x + ix) (y + iy) color) 0 width s) px py =
      (if px - x < width \<and> iy = py - y then pixel_bytes f color else fb_pixel f s px py)" for iy s
    using for_u32_set [of "\<lambda>s. fb_pixel f s px py" "\<lambda>ix. framebuffer_putpixel f (x + ix) (y + iy) color" "iy = py - y"
        "px - x" "pixel_bytes f color" width s] fb_pixel_putpixel [OF assms p, of _ "y + iy" color]
    by (auto simp: eq_diff_eq add.commute)
  show "fb_pixel f (framebuffer_fill_rect f x y width height color m) px py =
      (if py - y < height \<and> px - x < width then pixel_bytes f color else fb_pixel f m px py)"
    using for_u32_set [of "\<lambda>s. fb_pixel f s px py", OF row] assms
    by (auto simp: framebuffer_fill_rect_def fb_ok_def)
next
  show "in_region (fb_address f) (fb_size f) z \<or> framebuffer_fill_rect f x y width height color m z = m z"
  proof (rule disjCI)
    assume out: "framebuffer_fill_rect f x y width height color m z \<noteq> m z"
    have "framebuffer_fill_rect f x y width height color m z = m z"
      if "\<not> in_region (fb_address f) (fb_size f) z"
      unfolding framebuffer_fill_rect_def
      by (auto intro!: for_u32_invariant [where P = "\<lambda>s. s z = m z"] simp: putpixel_outside [OF assms that])
    with out show "in_region (fb_address f) (fb_size f) z" by blast
  qed
qed

theorem fill_rect_correct_witness:
  "fb_pixel (framebuffer_init 0xA0000 4 3 16 32)
     (framebuffer_fill_rect (framebuffer_init 0xA0000 4 3 16 32) 3 1 9 2 0x01020304 (\<lambda>_. 0)) 3 2 = [4, 3, 2, 1] \<and>
   framebuffer_fill_rect (framebuffer_init 0xA0000 4 3 16 32) 3 1 9 2 0x01020304 (\<lambda>_. 0) 0xA0030 = 0"
proof -
  have "fb_ok (framebuffer_init 0xA0000 4 3 16 32)" by (simp add: fb_ok_def framebuffer_init_def fb_size_def)
  from fill_rect_correct [OF this, of 3 2 3 1 9 2 "0x01020304" "\<lambda>_. 0" "0xA0030"] show ?thesis
    by (simp add: framebuffer_init_def pixel_bytes_def u32_bytes_def in_region_def fb_size_def)
qed

end
