(* ===== verification/NineP_Client.thy ===== *)
theory NineP_Client
  imports Virtio VFS
begin

text \<open>
  \<open>kernel/fs/9p_client.c\<close>: the 9P operations behind the files and directories of a mounted host directory. The state is the file system and
  the statics of the client and of its transport. \<open>None\<close> is a call that never returns (the device does not answer) or a panic of the page
  allocator. The bytes \<open>rx.data\<close> points to are read from the response buffer, 11 bytes from its start. Where \<open>dirlookup\<close> loads the listing of a
  9P directory, the load is run first, on the whole state, and the directory operations of memfs then find it loaded. The operations that share
  their name with an entry of the environment of the file system carry the suffix \<open>_op\<close>. Console messages are left out.
\<close>

section \<open>State\<close>

definition NOFID :: u32 where "NOFID = 0xFFFFFFFF"
definition IOHDRSZ :: u32 where "IOHDRSZ = 24"
definition VERSION9P :: "u8 list" where "VERSION9P = map (of_nat \<circ> of_char) ''9P2000.u''"
definition root_name :: "u8 list" where "root_name = map (of_nat \<circ> of_char) ''root''"

definition P9_OREAD :: u32 where "P9_OREAD = 0"
definition P9_OWRITE :: u32 where "P9_OWRITE = 1"
definition P9_ORDWR :: u32 where "P9_ORDWR = 2"
definition P9_OTRUNC :: u32 where "P9_OTRUNC = 0x10"
definition P9_DMDIR :: u32 where "P9_DMDIR = 0x80000000"
definition O_ACCMODE :: u32 where "O_ACCMODE = 3"

record 'd client =
  vio :: "'d virtio"
  next_fid :: u32
  dirbuf :: u32
  dirbuf_size :: u32

type_synonym 'd p9 = "memfs \<times> 'd client"
type_synonym 'd device = "'d ports \<times> ('d \<Rightarrow> memory \<Rightarrow> memory \<times> 'd)"

definition set_mem :: "memory \<Rightarrow> memfs \<Rightarrow> memfs" where
  "set_mem m s = s\<lparr>mach := (mach s)\<lparr>mem := m\<rparr>\<rparr>"

section \<open>Messages\<close>

definition rpc :: "'d device \<Rightarrow> fbody \<Rightarrow> 'd p9 \<Rightarrow> ((int \<times> fbody option) \<times> 'd p9) option" where
  "rpc dv tx = (\<lambda>(s, c). do {
     (r, m, v) \<leftarrow> v9p_rpc (fst dv) (snd dv) tx (mem (mach s), vio c);
     Some (r, set_mem m s, c\<lparr>vio := v\<rparr>)
   })"

definition alloc_fid :: "'d p9 \<Rightarrow> u32 \<times> 'd p9" where
  "alloc_fid = (\<lambda>(s, c). (next_fid c, s, c\<lparr>next_fid := next_fid c + 1\<rparr>))"

fun rx_nwqid :: "fbody option \<Rightarrow> u16" where
  "rx_nwqid (Some (Rwalk n qs)) = n"
| "rx_nwqid _ = 0"

fun rx_count :: "fbody option \<Rightarrow> u32" where
  "rx_count (Some (Rread n d)) = n"
| "rx_count (Some (Rwrite n)) = n"
| "rx_count _ = 0"

fun rx_msize :: "fbody option \<Rightarrow> u32" where
  "rx_msize (Some (Rversion n ver)) = n"
| "rx_msize _ = 0"

text \<open>\<open>walk\<close> with a null \<open>qid\<close>, as in all its calls; \<open>None\<close> is the result -1, else the new fid.\<close>

definition walk_fid :: "'d device \<Rightarrow> u32 \<Rightarrow> u8 list option \<Rightarrow> 'd p9 \<Rightarrow> (u32 option \<times> 'd p9) option" where
  "walk_fid dv f name st = do {
     let (nf, st) = alloc_fid st;
     let nwname = (case name of None \<Rightarrow> 0 | Some _ \<Rightarrow> 1);
     ((r, rx), st) \<leftarrow> rpc dv (Twalk f nf nwname (case name of None \<Rightarrow> [] | Some t \<Rightarrow> [Some t])) st;
     if r < 0 then Some (None, st)
     else if rx_nwqid rx \<noteq> nwname then Some (None, st)
     else Some (Some nf, st)
   }"

definition open_fid :: "'d device \<Rightarrow> u32 \<Rightarrow> u32 \<Rightarrow> 'd p9 \<Rightarrow> (int \<times> 'd p9) option" where
  "open_fid dv f md st = do { ((r, rx), st) \<leftarrow> rpc dv (Topen f (ucast md)) st; Some (r, st) }"

definition fid_read :: "'d device \<Rightarrow> u32 \<Rightarrow> u64 \<Rightarrow> u32 \<Rightarrow> 'd p9 \<Rightarrow> (int \<times> 'd p9) option" where
  "fid_read dv f off count st = do {
     ((r, rx), st) \<leftarrow> rpc dv (Tread f off count) st;
     if r < 0 then Some (-1, st) else Some (sint (rx_count rx), st)
   }"

definition rx_data :: "u32 \<Rightarrow> 'd p9 \<Rightarrow> u8 list" where
  "rx_data n = (\<lambda>(s, c). bytes_at (mem (mach s)) (v9p_resp (vio c) + 11) (unat n))"

definition clunk :: "'d device \<Rightarrow> u32 \<Rightarrow> 'd p9 \<Rightarrow> (int \<times> 'd p9) option" where
  "clunk dv f st = do { ((r, rx), st) \<leftarrow> rpc dv (Tclunk f) st; Some (r, st) }"

section \<open>Open files\<close>

definition p9_mode :: "u32 \<Rightarrow> u32" where
  "p9_mode flags =
     (let acc = flags AND O_ACCMODE in if acc = O_WRONLY then P9_OWRITE else if acc = O_RDWR then P9_ORDWR else P9_OREAD)"

definition v9p_open_file_op :: "'d device \<Rightarrow> inode \<Rightarrow> u32 \<Rightarrow> 'd p9 \<Rightarrow> (u32 option \<times> 'd p9) option" where
  "v9p_open_file_op dv ip flags st =
     (if fid ip = NOFID then Some (None, st)
      else do {
        (nf, st) \<leftarrow> walk_fid dv (fid ip) None st;
        (case nf of
           None \<Rightarrow> Some (None, st)
         | Some nf \<Rightarrow> do {
             let md = (if flags AND O_TRUNC \<noteq> 0 then p9_mode flags OR P9_OTRUNC else p9_mode flags);
             (r, st) \<leftarrow> open_fid dv nf md st;
             if r \<ge> 0 then Some (Some nf, st)
             else if md = P9_OREAD then do { (_, st) \<leftarrow> clunk dv nf st; Some (None, st) }
             else do {
               (r, st) \<leftarrow> open_fid dv nf P9_OREAD st;
               if r < 0 then do { (_, st) \<leftarrow> clunk dv nf st; Some (None, st) } else Some (Some nf, st)
             }
           })
      })"

text \<open>The most that fits in one message.\<close>

definition p9_chunk :: "'d client \<Rightarrow> u32 \<Rightarrow> u32" where
  "p9_chunk c n = (let mx = v9p_get_msize (vio c) - IOHDRSZ in if n > mx then mx else n)"

definition v9p_file_read_op :: "'d device \<Rightarrow> u32 \<Rightarrow> u32 \<Rightarrow> u32 \<Rightarrow> 'd p9 \<Rightarrow> ((int \<times> u8 list) \<times> 'd p9) option" where
  "v9p_file_read_op dv f off n st = do {
     let n = p9_chunk (snd st) n;
     (r, st) \<leftarrow> fid_read dv f (ucast off) n st;
     if r < 0 then Some ((-1, []), st)
     else do {
       let r = (if (word_of_int r :: u32) > n then sint n else r);
       Some ((r, if r > 0 then rx_data (word_of_int r) st else []), st)
     }
   }"

definition v9p_file_write_op :: "'d device \<Rightarrow> u32 \<Rightarrow> u8 list \<Rightarrow> u32 \<Rightarrow> u32 \<Rightarrow> 'd p9 \<Rightarrow> (int \<times> 'd p9) option" where
  "v9p_file_write_op dv f src off n st = do {
     let n = p9_chunk (snd st) n;
     ((r, rx), st) \<leftarrow> rpc dv (Twrite f (ucast off) n (take (unat n) src)) st;
     if r < 0 then Some (-1, st) else Some (sint (rx_count rx), st)
   }"

definition v9p_close_op :: "'d device \<Rightarrow> u32 \<Rightarrow> 'd p9 \<Rightarrow> (int \<times> 'd p9) option" where
  "v9p_close_op dv f st = (if f \<noteq> 0 then clunk dv f st else Some (0, st))"

definition length_dir :: "u32 \<Rightarrow> dir" where
  "length_dir sz = \<lparr>d_type = 0xFFFF, d_dev = 0xFFFFFFFF,
     d_qid = \<lparr>qid_type = 0xFF, qid_vers = 0xFFFFFFFF, qid_path = NOT 0\<rparr>,
     d_mode = 0xFFFFFFFF, d_atime = 0xFFFFFFFF, d_mtime = 0xFFFFFFFF, d_length = ucast sz,
     d_name = None, d_uid = None, d_gid = None, d_muid = None\<rparr>"

definition v9p_truncate_op :: "'d device \<Rightarrow> u32 \<Rightarrow> u32 \<Rightarrow> 'd p9 \<Rightarrow> (int \<times> 'd p9) option" where
  "v9p_truncate_op dv f sz st =
     (let (n, stt) = convD2M (length_dir sz) STATFIXLEN
      in if n = 0 then Some (-1, st)
         else do {
           ((r, rx), st) \<leftarrow> rpc dv (Twstat f (ucast n) stt) st;
           if r < 0 then Some (-1, st) else Some (0, st)
         })"

section \<open>Directories\<close>

text \<open>The directory operations of memfs on a directory whose listing is there.\<close>

definition loaded_env :: "fs_env \<Rightarrow> fs_env" where
  "loaded_env env = env\<lparr>v9p_loaddir := (\<lambda>_ s. Some s)\<rparr>"

definition set_node :: "u32 \<Rightarrow> (inode \<Rightarrow> inode) \<Rightarrow> 'd p9 \<Rightarrow> 'd p9" where
  "set_node i f = (\<lambda>(s, c). (upd_inode i f s, c))"

definition get_node :: "u32 \<Rightarrow> 'd p9 \<Rightarrow> inode" where
  "get_node i st = inode_table (fst st) i"

definition p9_ialloc :: "u32 \<Rightarrow> 'd p9 \<Rightarrow> u32 option \<times> 'd p9" where
  "p9_ialloc ty = (\<lambda>(s, c). let (r, s) = ialloc ty 0 0 s in (r, s, c))"

text \<open>The body of the entry loop of \<open>v9p_loaddir\<close>, after \<open>convM2D\<close>.\<close>

definition load_entry :: "'d device \<Rightarrow> fs_env \<Rightarrow> u32 \<Rightarrow> dir \<Rightarrow> 'd p9 \<Rightarrow> 'd p9 option" where
  "load_entry dv env ip d st =
     (let name = cstr (sval (d_name d)); isdir = (qid_type (d_qid d) AND 0x80 \<noteq> 0)
      in if name = dot \<or> name = dotdot then Some st
         else case p9_ialloc (if isdir then T_DIR else T_FILE) st of
                (None, st) \<Rightarrow> Some st
              | (Some cip, st) \<Rightarrow> do {
                  let st = set_node cip (\<lambda>nd. nd\<lparr>ibackend := INODE_9P, parent := inum (get_node ip st), fid := NOFID\<rparr>) st;
                  let st = set_node cip (\<lambda>nd. if isdir then nd\<lparr>mode := MODE_DIR\<rparr> else nd\<lparr>isize := ucast (d_length d), mode := MODE_FILE\<rparr>) st;
                  (cfid, st) \<leftarrow> walk_fid dv (fid (get_node ip st)) (Some name) st;
                  let st = (case cfid of None \<Rightarrow> st | Some f \<Rightarrow> set_node cip (\<lambda>nd. nd\<lparr>fid := f\<rparr>) st);
                  (_, s) \<leftarrow> dirlink (loaded_env env) ip name (inum (get_node cip st)) (fst st);
                  Some (s, snd st)
                })"

text \<open>The entries between \<open>p\<close> and \<open>stop\<close>; the flag is \<open>processed\<close>.\<close>

partial_function (option) load_entries :: "'d device \<Rightarrow> fs_env \<Rightarrow> u32 \<Rightarrow> u32 \<Rightarrow> u32 \<Rightarrow> bool \<Rightarrow> 'd p9 \<Rightarrow> (bool \<times> 'd p9) option" where
  "load_entries dv env ip p stop processed st =
     (let m = mem (mach (fst st))
      in if p + 2 \<le> stop then
           (let total = ucast (bytes_u16 (m p) (m (p + 1))) + 2
            in if p + total > stop then Some (processed, st)
               else case convM2D (bytes_at m p (unat total)) of
                      None \<Rightarrow> Some (processed, st)
                    | Some (_, d, _) \<Rightarrow> Option.bind (load_entry dv env ip d st) (load_entries dv env ip (p + total) stop True))
         else Some (processed, st))"

fun load_chunks :: "'d device \<Rightarrow> fs_env \<Rightarrow> u32 \<Rightarrow> u32 \<Rightarrow> u32 \<Rightarrow> nat \<Rightarrow> u64 \<Rightarrow> 'd p9 \<Rightarrow> 'd p9 option" where
  "load_chunks dv env ip rfid req 0 off st = Some st"
| "load_chunks dv env ip rfid req (Suc g) off st = do {
     (r, st) \<leftarrow> fid_read dv rfid off req st;
     if r \<le> 0 then Some st
     else do {
       let c = snd st;
       let r = (if (word_of_int r :: u32) > dirbuf_size c then dirbuf_size c else word_of_int r);
       let st = (set_mem (kmemcpy (mem (mach (fst st))) (dirbuf c) (v9p_resp (vio c) + 11) r) (fst st), c);
       (processed, st) \<leftarrow> load_entries dv env ip (dirbuf c) (dirbuf c + r) False st;
       if \<not> processed then Some st else load_chunks dv env ip rfid req g 1 st
     }
   }"

definition get_dirbuf :: "'d p9 \<Rightarrow> 'd p9" where
  "get_dirbuf = (\<lambda>(s, c).
     (if dirbuf c = 0
      then (let (a, p) = pmm_alloc_contig (v9p_get_msize (vio c) div 4096) (frames (mach s))
            in (s\<lparr>mach := (mach s)\<lparr>frames := p\<rparr>\<rparr>, c\<lparr>dirbuf_size := v9p_get_msize (vio c), dirbuf := a\<rparr>))
      else (s, c)))"

definition v9p_loaddir_op :: "'d device \<Rightarrow> fs_env \<Rightarrow> u32 \<Rightarrow> 'd p9 \<Rightarrow> (int \<times> 'd p9) option" where
  "v9p_loaddir_op dv env ip st = do {
     let req = v9p_get_msize (vio (snd st)) - IOHDRSZ;
     let st = set_node ip (\<lambda>nd. nd\<lparr>dir_loaded := True\<rparr>) st;
     if fid (get_node ip st) = NOFID then Some (-1, st)
     else do {
       let st = get_dirbuf st;
       if dirbuf (snd st) = 0 then Some (-1, st)
       else do {
         (rfid, st) \<leftarrow> walk_fid dv (fid (get_node ip st)) None st;
         (case rfid of
            None \<Rightarrow> Some (-1, st)
          | Some rfid \<Rightarrow> do {
              (r, st) \<leftarrow> open_fid dv rfid 0 st;
              if r < 0 then do { (_, st) \<leftarrow> clunk dv rfid st; Some (-1, st) }
              else do {
                st \<leftarrow> load_chunks dv env ip rfid req 4096 0 st;
                (_, st) \<leftarrow> clunk dv rfid st;
                Some (0, st)
              }
            })
       }
     }
   }"

text \<open>The load \<open>dirlookup\<close> makes on its first use of a 9P directory, other than for \<open>.\<close> and \<open>..\<close>.\<close>

definition ensure_loaded :: "'d device \<Rightarrow> fs_env \<Rightarrow> u32 \<Rightarrow> u8 list \<Rightarrow> 'd p9 \<Rightarrow> 'd p9 option" where
  "ensure_loaded dv env dp name st =
     (if ibackend (get_node dp st) = INODE_9P \<and> name \<noteq> dot \<and> name \<noteq> dotdot \<and> \<not> dir_loaded (get_node dp st)
      then map_option snd (v9p_loaddir_op dv env dp st) else Some st)"

definition p9_dirlink :: "'d device \<Rightarrow> fs_env \<Rightarrow> u32 \<Rightarrow> u8 list \<Rightarrow> u32 \<Rightarrow> 'd p9 \<Rightarrow> (int \<times> 'd p9) option" where
  "p9_dirlink dv env dp name n st = do {
     st \<leftarrow> ensure_loaded dv env dp name st;
     (r, s) \<leftarrow> dirlink (loaded_env env) dp name n (fst st);
     Some (r, s, snd st)
   }"

definition p9_dirlookup :: "'d device \<Rightarrow> fs_env \<Rightarrow> u32 \<Rightarrow> u8 list \<Rightarrow> 'd p9 \<Rightarrow> (u32 \<times> 'd p9) option" where
  "p9_dirlookup dv env dp name st = do {
     st \<leftarrow> ensure_loaded dv env dp name st;
     (n, off, s) \<leftarrow> dirlookup (loaded_env env) dp name (fst st);
     Some (n, s, snd st)
   }"

definition p9_dirunlink :: "'d device \<Rightarrow> fs_env \<Rightarrow> u32 \<Rightarrow> u32 \<Rightarrow> u8 list \<Rightarrow> 'd p9 \<Rightarrow> (int \<times> 'd p9) option" where
  "p9_dirunlink dv env uninit dp name st = do {
     st \<leftarrow> ensure_loaded dv env dp name st;
     (r, s) \<leftarrow> dirunlink (loaded_env env) uninit dp name (fst st);
     Some (r, s, snd st)
   }"

text \<open>The tail of \<open>v9p_create\<close> and \<open>v9p_mkdir\<close>: the new inode gets an unopened fid of its own and a name.\<close>

definition bind_new :: "'d device \<Rightarrow> fs_env \<Rightarrow> u32 \<Rightarrow> u8 list \<Rightarrow> u32 \<Rightarrow> u16 \<Rightarrow> 'd p9 \<Rightarrow> 'd p9 option" where
  "bind_new dv env dp name ip md st = do {
     let st = set_node ip (\<lambda>nd. nd\<lparr>ibackend := INODE_9P, parent := inum (get_node dp st), fid := NOFID\<rparr>) st;
     (nf, st) \<leftarrow> walk_fid dv (fid (get_node dp st)) (Some name) st;
     let st = (case nf of None \<Rightarrow> st | Some f \<Rightarrow> set_node ip (\<lambda>nd. nd\<lparr>fid := f\<rparr>) st);
     let st = set_node ip (\<lambda>nd. nd\<lparr>isize := 0, mode := md\<rparr>) st;
     map_option snd (p9_dirlink dv env dp name (inum (get_node ip st)) st)
   }"

definition v9p_create_op :: "'d device \<Rightarrow> fs_env \<Rightarrow> u32 \<Rightarrow> u8 list \<Rightarrow> u32 \<Rightarrow> 'd p9 \<Rightarrow> ((int + u32) \<times> 'd p9) option" where
  "v9p_create_op dv env dp name flags st =
     (if fid (get_node dp st) = NOFID then Some (Inl EIO, st)
      else do {
        (cfid, st) \<leftarrow> walk_fid dv (fid (get_node dp st)) None st;
        (case cfid of
           None \<Rightarrow> Some (Inl EIO, st)
         | Some cfid \<Rightarrow> do {
             let md = (if flags AND O_TRUNC \<noteq> 0 then p9_mode flags OR P9_OTRUNC else p9_mode flags);
             ((r, rx), st) \<leftarrow> rpc dv (Tcreate cfid (Some name) 420 (ucast md) (Some [])) st;
             if r < 0 then do { (_, st) \<leftarrow> clunk dv cfid st; Some (Inl EACCES, st) }
             else case p9_ialloc T_FILE st of
                    (None, st) \<Rightarrow> do { (_, st) \<leftarrow> clunk dv cfid st; Some (Inl ENOSPC, st) }
                  | (Some ip, st) \<Rightarrow> do {
                      (_, st) \<leftarrow> clunk dv cfid st;
                      st \<leftarrow> bind_new dv env dp name ip MODE_FILE st;
                      Some (Inr ip, st)
                    }
           })
      })"

definition v9p_mkdir_op :: "'d device \<Rightarrow> fs_env \<Rightarrow> u32 \<Rightarrow> u8 list \<Rightarrow> u16 \<Rightarrow> 'd p9 \<Rightarrow> (int \<times> 'd p9) option" where
  "v9p_mkdir_op dv env dp name md st =
     (if fid (get_node dp st) = NOFID then Some (-1, st)
      else do {
        (cfid, st) \<leftarrow> walk_fid dv (fid (get_node dp st)) None st;
        (case cfid of
           None \<Rightarrow> Some (-1, st)
         | Some cfid \<Rightarrow> do {
             ((r, rx), st) \<leftarrow> rpc dv (Tcreate cfid (Some name) (P9_DMDIR OR ucast (md AND 511)) (ucast P9_OREAD) (Some [])) st;
             if r < 0 then do { (_, st) \<leftarrow> clunk dv cfid st; Some (-1, st) }
             else do {
               (_, st) \<leftarrow> clunk dv cfid st;
               (case p9_ialloc T_DIR st of
                  (None, st) \<Rightarrow> Some (-1, st)
                | (Some ip, st) \<Rightarrow> do { st \<leftarrow> bind_new dv env dp name ip MODE_DIR st; Some (0, st) })
             }
           })
      })"

text \<open>On a 9P directory \<open>dirlookup\<close> always reports the offset of what it finds, so no uninitialised offset is used.\<close>

definition v9p_remove_op :: "'d device \<Rightarrow> fs_env \<Rightarrow> u32 \<Rightarrow> u8 list \<Rightarrow> 'd p9 \<Rightarrow> (int \<times> 'd p9) option" where
  "v9p_remove_op dv env dp name st =
     (if fid (get_node dp st) = NOFID then Some (-1, st)
      else do {
        (f, st) \<leftarrow> walk_fid dv (fid (get_node dp st)) (Some name) st;
        (case f of
           None \<Rightarrow> Some (-1, st)
         | Some f \<Rightarrow> do {
             ((r, rx), st) \<leftarrow> rpc dv (Tremove f) st;
             if r < 0 then Some (-1, st)
             else do {
               (n, st) \<leftarrow> p9_dirlookup dv env dp name st;
               (_, st) \<leftarrow> p9_dirunlink dv env 0 dp name st;
               (case (if n \<noteq> 0 then iget n (fst st) else None) of
                  None \<Rightarrow> Some (0, st)
                | Some ip \<Rightarrow> Some (0, ifree ip (fst st), snd st))
             }
           })
      })"

section \<open>Mounting\<close>

definition rpc_vfs :: "'d device \<Rightarrow> fbody \<Rightarrow> 'd client vfs \<Rightarrow> ((int \<times> fbody option) \<times> 'd client vfs) option" where
  "rpc_vfs dv tx st = do { (r, s, c) \<leftarrow> rpc dv tx (fsys st, world st); Some (r, st\<lparr>fsys := s, world := c\<rparr>) }"

definition v9p_mount :: "'d device \<Rightarrow> 'd client vfs_env \<Rightarrow> u8 list \<Rightarrow> 'd client vfs \<Rightarrow> (int \<times> 'd client vfs) option" where
  "v9p_mount dv env path st = do {
     ((r, rx), st) \<leftarrow> rpc_vfs dv (Tversion (v9p_get_msize (vio (world st))) (Some VERSION9P)) st;
     if r < 0 then Some (-1, st)
     else do {
       let c = world st;
       let st = st\<lparr>world := c\<lparr>vio := v9p_set_msize (rx_msize rx) (vio c)\<rparr>\<rparr>;
       ((r, rx), st) \<leftarrow> rpc_vfs dv (Tattach 0 NOFID (Some root_name) (Some (v9p_get_tag (vio (world st)))) 0) st;
       if r < 0 then Some (-1, st)
       else do {
         (ip, st) \<leftarrow> namei env path st;
         (case ip of
            None \<Rightarrow> Some (-1, st)
          | Some ip \<Rightarrow>
              if itype (node st ip) \<noteq> T_DIR then Some (-1, st)
              else
                (let st = st\<lparr>fsys := itrunc ip (fsys st)\<rparr>
                 in Some (0, upd_node ip (\<lambda>nd. nd\<lparr>ibackend := INODE_9P, fid := 0, parent := ROOTINO, dir_loaded := False, mode := MODE_DIR,
                        isize := 0\<rparr>) st)))
       }
     }
   }"

section \<open>Calls against a server\<close>

definition host_ok :: "'d p9 \<Rightarrow> bool" where
  "host_ok = (\<lambda>(s, c). vq_ok (vio c) (mem (mach s)))"

text \<open>The server's answer to the request \<open>tx\<close> is the message \<open>rx\<close>.\<close>

definition answers :: "'d device \<Rightarrow> fbody \<Rightarrow> fbody \<Rightarrow> 'd \<Rightarrow> 'd client \<Rightarrow> bool" where
  "answers dv tx rx d c \<longleftrightarrow>
     (\<exists>srv bs cs tag. serves (vio c) (snd dv) srv \<and> convS2M_body tx = Some bs \<and> convS2M_body rx = Some cs \<and>
        srv (message 0 (fc_type tx) bs) (outw (fst dv) (io_base (vio c) + VIRTIO_PCI_QUEUE_NOTIFY) 0 (hw (vio c))) = (message tag (fc_type rx) cs, d))"

lemma rpc_ok:
  assumes "host_ok (s, c)" and "answers dv tx rx d c"
    and "msg_ok tx" "unat (sizeS2M tx) \<le> unat (v9p_msize (vio c))"
    and "msg_ok rx" "\<not> is_dotu rx" "unat (sizeS2M rx) \<le> unat (v9p_msize (vio c))"
    and "unat (fc_type rx) = unat (fc_type tx) + 1" "fc_type rx \<noteq> 107"
    and "7 + length (the (convS2M_body tx)) < 2 ^ 32" "7 + length (the (convS2M_body rx)) < 2 ^ 32"
  obtains m where "rpc dv tx (s, c) = Some ((0, Some (canon rx)), set_mem m s, c\<lparr>vio := answered (fst dv) d (vio c)\<rparr>)"
    "vq_ok (answered (fst dv) d (vio c)) m" "\<And>x. outside (vio c) x \<Longrightarrow> m x = mem (mach s) x"
    "\<exists>tag. bytes_at m (v9p_resp (vio c)) (7 + length (the (convS2M_body rx))) = message tag (fc_type rx) (the (convS2M_body rx))"
proof -
  from assms(2) obtain srv bs cs tag where a: "serves (vio c) (snd dv) srv" "convS2M_body tx = Some bs" "convS2M_body rx = Some cs"
    "srv (message 0 (fc_type tx) bs) (outw (fst dv) (io_base (vio c) + VIRTIO_PCI_QUEUE_NOTIFY) 0 (hw (vio c))) = (message tag (fc_type rx) cs, d)"
    unfolding answers_def by blast
  have sz: "unat (sizeS2M b) = 7 + length x" if "msg_ok b" "convS2M_body b = Some x" "7 + length x < 2 ^ 32" for b x
    using sizeS2M_length [OF that(1)] that(2,3) unat_of_nat_lt [of "7 + length x"] by auto
  have ok: "vq_ok (vio c) (mem (mach s))" using assms(1) by (simp add: host_ok_def)
  have l: "7 + length bs \<le> unat (v9p_msize (vio c))" "7 + length cs \<le> unat (v9p_msize (vio c))"
    using sz [OF assms(3) a(2)] sz [OF assms(5) a(3)] assms(4,7,10,11) a(2,3) by simp_all
  note R = v9p_rpc_ok [OF ok a(1) assms(3) a(2) l(1) a(4) assms(5,6) a(3) l(2) assms(8,9)]
  show thesis
    by (rule that [of "rpc_memory (message 0 (fc_type tx) bs) (message tag (fc_type rx) cs) (vio c) (mem (mach s))"])
      (use R a in \<open>auto simp: rpc_def\<close>)
qed

definition msize_ok :: "'d client \<Rightarrow> bool" where
  "msize_ok c \<longleftrightarrow> IOHDRSZ \<le> v9p_msize (vio c) \<and> v9p_msize (vio c) \<le> V9P_MSIZE_DEFAULT"

lemma p9_chunk_bounds:
  assumes "msize_ok c"
  shows "unat (p9_chunk c n) + 24 \<le> unat (v9p_msize (vio c))" "p9_chunk c n \<le> n" "unat (p9_chunk c n) < 32768"
proof -
  have m: "unat (v9p_msize (vio c) - IOHDRSZ) = unat (v9p_msize (vio c)) - 24" "24 \<le> unat (v9p_msize (vio c))"
    using assms by (simp_all add: msize_ok_def IOHDRSZ_def unat_sub word_le_nat_alt)
  show "unat (p9_chunk c n) + 24 \<le> unat (v9p_msize (vio c))" "p9_chunk c n \<le> n"
    using m by (auto simp: p9_chunk_def v9p_get_msize_def word_less_nat_alt word_le_nat_alt)
  have "unat (v9p_msize (vio c)) \<le> 32768" using assms by (simp add: msize_ok_def V9P_MSIZE_DEFAULT_def word_le_nat_alt)
  with m show "unat (p9_chunk c n) < 32768" by (auto simp: p9_chunk_def v9p_get_msize_def word_less_nat_alt)
qed

lemma sint_of_nat_small: "k < 2 ^ 31 \<Longrightarrow> sint (of_nat k :: u32) = int k"
  using sint_small [of "of_nat k"] unat_of_nat_lt [of k] by simp

text \<open>A client on the example queue, whose device answers every request with \<open>rx\<close>.\<close>

definition client_example :: "unit client" where
  "client_example = \<lparr>vio = vq_example, next_fid = 1, dirbuf = 0, dirbuf_size = 0\<rparr>"

definition fs_example0 :: memfs where
  "fs_example0 = \<lparr>inode_table = (\<lambda>_. empty_inode),
     mach = \<lparr>mem = (\<lambda>_. 0), frames = \<lparr>bitmap = (\<lambda>_. 0), pmm_hint = 0\<rparr>, kernel_pdir = 0, cr3 = 0, cr0 = 0\<rparr>\<rparr>"

definition replying :: "fbody \<Rightarrow> unit device" where
  "replying rx = (null_ports, one_reply (message 0 (fc_type rx) (the (convS2M_body rx))))"

lemma client_example_ok: "host_ok (fs_example0, client_example)" "msize_ok client_example" "p9_chunk client_example 100 = 100"
  using vq_example_ok
  by (simp_all add: host_ok_def fs_example0_def client_example_def msize_ok_def p9_chunk_def vq_example_def v9p_get_msize_def IOHDRSZ_def
      V9P_MSIZE_DEFAULT_def)

lemma replying_answers:
  assumes "convS2M_body tx \<noteq> None" "convS2M_body rx \<noteq> None"
  shows "answers (replying rx) tx rx () client_example"
  using assms one_reply_serves [of "message 0 (fc_type rx) (the (convS2M_body rx))"]
  unfolding answers_def replying_def client_example_def
  by (intro exI [of _ "\<lambda>_ _. (message 0 (fc_type rx) (the (convS2M_body rx)), ())"]) auto

text \<open>
  (C18) Reading a host file: when the server answers the Tread for the clamped count with at most that many bytes, \<open>v9p_file_read\<close> returns
  their number and stores exactly these bytes; the transport is ready for the next call, and neither the inode table nor any memory outside
  the ring and the message buffers changes.
\<close>

theorem v9p_file_read_correct:
  assumes "host_ok (s, c)" and "msize_ok c"
    and "answers dv (Tread f (ucast off) (p9_chunk c n)) (Rread (of_nat (length data)) data) d c"
    and "length data \<le> unat (p9_chunk c n)"
  shows "\<exists>s' c'. v9p_file_read_op dv f off n (s, c) = Some ((int (length data), data), s', c') \<and> host_ok (s', c') \<and>
    inode_table s' = inode_table s \<and> (\<forall>x. outside (vio c) x \<longrightarrow> mem (mach s') x = mem (mach s) x)"
proof -
  note B = p9_chunk_bounds [OF assms(2), of n]
  let ?rx = "Rread (of_nat (length data)) data"
  have u: "unat (of_nat (length data) :: u32) = length data" using assms(4) B by (intro unat_of_nat_lt) simp
  have sz: "unat (sizeS2M ?rx) = 11 + length data"
    using u assms(4) B unat_of_nat_lt [of "11 + length data"] by (simp add: wire_sizes)
  obtain m where m: "rpc dv (Tread f (ucast off) (p9_chunk c n)) (s, c) =
      Some ((0, Some (canon ?rx)), set_mem m s, c\<lparr>vio := answered (fst dv) d (vio c)\<rparr>)"
    "vq_ok (answered (fst dv) d (vio c)) m" "\<And>x. outside (vio c) x \<Longrightarrow> m x = mem (mach s) x"
    "\<exists>tag. bytes_at m (v9p_resp (vio c)) (7 + length (the (convS2M_body ?rx))) = message tag 117 (the (convS2M_body ?rx))"
    using rpc_ok [OF assms(1,3)] u sz assms(4) B by (auto simp: wire_sizes)
  then obtain tag where tag: "bytes_at m (v9p_resp (vio c)) (11 + length data) = message tag 117 (u32_bytes (of_nat (length data)) @ data)"
    by (auto simp: u)
  have data: "bytes_at m (v9p_resp (vio c) + 11) (length data) = data"
    using bytes_cell_part [of m "v9p_resp (vio c)" 0 "11 + length data" _ 11 "length data"] tag
    by (simp add: vq_cell_def message_def)
  have sint: "sint (of_nat (length data) :: u32) = int (length data)" using assms(4) B by (intro sint_of_nat_small) simp
  have le: "\<not> of_nat (length data) > p9_chunk c n" using assms(4) u by (simp add: word_less_nat_alt)
  have "fid_read dv f (ucast off) (p9_chunk c n) (s, c) = Some (int (length data), set_mem m s, c\<lparr>vio := answered (fst dv) d (vio c)\<rparr>)"
    using m(1) sint by (simp add: fid_read_def)
  then have "v9p_file_read_op dv f off n (s, c) = Some ((int (length data), data), set_mem m s, c\<lparr>vio := answered (fst dv) d (vio c)\<rparr>)"
    using le data u unfolding v9p_file_read_op_def Let_def
    by (simp add: rx_data_def set_mem_def answered_def)
  then show ?thesis using m(2,3) by (auto simp: host_ok_def set_mem_def)
qed

theorem v9p_file_read_correct_witness:
  "\<exists>s' c'. v9p_file_read_op (replying (Rread 3 [104, 105, 33])) 7 0 100 (fs_example0, client_example) = Some ((3, [104, 105, 33]), s', c') \<and>
    host_ok (s', c')"
proof -
  have "answers (replying (Rread 3 [104, 105, 33])) (Tread 7 (ucast (0 :: u32)) (p9_chunk client_example 100))
      (Rread (of_nat (length [104 :: u8, 105, 33])) [104, 105, 33]) () client_example"
    using replying_answers [of "Tread 7 0 100" "Rread 3 [104, 105, 33]"] client_example_ok(3) by simp
  from v9p_file_read_correct [OF client_example_ok(1,2) this] show ?thesis by (auto simp: client_example_ok(3))
qed

text \<open>
  Writing a host file: \<open>v9p_file_write\<close> sends the bytes of one clamped piece in a single Twrite, and returns the count the server
  reports; the transport is ready for the next call, and neither the inode table nor any memory outside the ring and the message buffers
  changes.
\<close>

lemma v9p_file_write_correct:
  assumes "host_ok (s, c)" and "msize_ok c" and "unat n \<le> length src"
    and "answers dv (Twrite f (ucast off) (p9_chunk c n) (take (unat (p9_chunk c n)) src)) (Rwrite k) d c"
  shows "\<exists>s' c'. v9p_file_write_op dv f src off n (s, c) = Some (sint k, s', c') \<and> host_ok (s', c') \<and>
    inode_table s' = inode_table s \<and> (\<forall>x. outside (vio c) x \<longrightarrow> mem (mach s') x = mem (mach s) x)"
proof -
  note B = p9_chunk_bounds [OF assms(2), of n]
  let ?k = "p9_chunk c n"
  have l: "length (take (unat ?k) src) = unat ?k" using B(2) assms(3) by (simp add: word_le_nat_alt)
  have "unat (?k + 23) = unat ?k + 23" using B(1) unat_u32_le [of "v9p_msize (vio c)"] by (simp add: unat_plus_if')
  then have sz: "unat (sizeS2M (Twrite f (ucast off) ?k (take (unat ?k) src))) = unat ?k + 23" by (simp add: wire_sizes add.commute)
  obtain m where m: "rpc dv (Twrite f (ucast off) ?k (take (unat ?k) src)) (s, c) =
      Some ((0, Some (canon (Rwrite k))), set_mem m s, c\<lparr>vio := answered (fst dv) d (vio c)\<rparr>)"
    "vq_ok (answered (fst dv) d (vio c)) m" "\<And>x. outside (vio c) x \<Longrightarrow> m x = mem (mach s) x"
    using rpc_ok [OF assms(1,4)] l sz B by (auto simp: wire_sizes)
  from m(1) have "v9p_file_write_op dv f src off n (s, c) = Some (sint k, set_mem m s, c\<lparr>vio := answered (fst dv) d (vio c)\<rparr>)"
    by (simp add: v9p_file_write_op_def)
  then show ?thesis using m(2,3) by (auto simp: host_ok_def set_mem_def)
qed

lemma v9p_file_write_correct_witness:
  "\<exists>s' c'. v9p_file_write_op (replying (Rwrite 2)) 7 (replicate 100 65) 0 100 (fs_example0, client_example) = Some (2, s', c') \<and> host_ok (s', c')"
proof -
  have "answers (replying (Rwrite 2)) (Twrite 7 (ucast (0 :: u32)) (p9_chunk client_example 100)
      (take (unat (p9_chunk client_example 100)) (replicate 100 65))) (Rwrite 2) () client_example"
    by (rule replying_answers) simp_all
  from v9p_file_write_correct [OF client_example_ok(1,2) _ this] show ?thesis by auto
qed

text \<open>
  (C19) Reading is safe against any device: whatever the device writes and however it answers, when \<open>v9p_file_read\<close> returns it has stored no
  more bytes than were asked for and than fit in a message, and its result is their number, or -1 with none stored.
\<close>

theorem v9p_file_read_bounds:
  assumes "msize_ok c" and "v9p_file_read_op dv f off n (s, c) = Some ((r, bs), st')"
  shows "r = -1 \<and> bs = [] \<or> 0 \<le> r \<and> length bs = nat r \<and> nat r \<le> unat n \<and> nat r + 24 \<le> unat (v9p_msize (vio c))"
proof -
  note B = p9_chunk_bounds [OF assms(1), of n]
  have small: "sint (p9_chunk c n) = int (unat (p9_chunk c n))" using B(3) by (intro sint_small) simp
  obtain q st1 where q: "fid_read dv f (ucast off) (p9_chunk c n) (s, c) = Some (q, st1)"
    using assms(2) by (auto simp: v9p_file_read_op_def Let_def bind_eq_Some_conv)
  show ?thesis
  proof (cases "q < 0")
    case True
    then show ?thesis using assms(2) q by (auto simp: v9p_file_read_op_def)
  next
    case False
    let ?r = "if (word_of_int q :: u32) > p9_chunk c n then sint (p9_chunk c n) else q"
    have r: "r = ?r" "bs = (if ?r > 0 then rx_data (word_of_int ?r) st1 else [])"
      using assms(2) q False by (auto simp: v9p_file_read_op_def Let_def)
    obtain w :: u32 where w: "q = sint w" using q False by (auto simp: fid_read_def bind_eq_Some_conv split: if_splits)
    have "sint w < 2 ^ 31" using sint_lt [of w] by simp
    then have "take_bit 32 (sint w) = sint w" using False w by (intro take_bit_int_eq_self) simp_all
    then have "uint w = q" using w uint_sint [of w] by simp
    then have qw: "q = int (unat w)" by simp
    then have wq: "(word_of_int q :: u32) = w" by simp
    define x where "x = (if w > p9_chunk c n then p9_chunk c n else w)"
    have e: "?r = int (unat x)" unfolding wq x_def small by (simp add: qw)
    have "word_of_int (int (unat x)) = x" by simp
    then have rx: "r = int (unat x)" "bs = (if 0 < unat x then rx_data x st1 else [])"
      using r [unfolded e] by (simp_all only: of_nat_0_less_iff)
    have "unat x \<le> unat (p9_chunk c n)" by (simp add: x_def word_less_nat_alt)
    moreover have "length (rx_data x st1) = unat x" by (cases st1) (simp add: rx_data_def)
    moreover have "unat (p9_chunk c n) \<le> unat n" using B(2) by (simp add: word_le_nat_alt)
    ultimately show ?thesis using rx B(1) by (intro disjI2) simp
  qed
qed

text \<open>A server that returns more than was asked for.\<close>

theorem v9p_file_read_bounds_witness:
  "\<exists>bs st'. v9p_file_read_op (replying (Rread 150 (replicate 150 65))) 7 0 100 (fs_example0, client_example) = Some ((100, bs), st') \<and>
    length bs = 100"
proof -
  let ?rx = "Rread 150 (replicate 150 65)" and ?tx = "Tread 7 0 100"
  have a: "answers (replying ?rx) ?tx ?rx () client_example" by (rule replying_answers) simp_all
  have sz: "unat (v9p_msize (vio client_example)) = 32768" by (simp add: client_example_def vq_example_def)
  obtain m where "rpc (replying ?rx) ?tx (fs_example0, client_example) =
      Some ((0, Some (canon ?rx)), set_mem m fs_example0, client_example\<lparr>vio := answered (fst (replying ?rx)) () (vio client_example)\<rparr>)"
    using rpc_ok [OF client_example_ok(1) a] sz by (auto simp: wire_sizes)
  then have "\<exists>bs st'. v9p_file_read_op (replying ?rx) 7 0 100 (fs_example0, client_example) = Some ((100, bs), st')"
    by (simp add: v9p_file_read_op_def fid_read_def client_example_ok(3))
  then obtain bs st' where run: "v9p_file_read_op (replying ?rx) 7 0 100 (fs_example0, client_example) = Some ((100, bs), st')" by blast
  from v9p_file_read_bounds [OF client_example_ok(2) run] run show ?thesis by auto
qed

text \<open>
  Three limits of the code. A message size below the I/O header, which \<open>v9p_set_msize\<close> accepts from the server, makes the room for data wrap
  around. The count of a Twrite reply is returned as it is, also when it exceeds the count that was sent. And \<open>convM2D\<close> stores the four strings of
  an entry in the 256 bytes that \<open>v9p_loaddir\<close> gives it however long they are: the name of a host file may take them all.
\<close>

lemma p9_chunk_wraps:
  "v9p_msize (v9p_set_msize 8 v) = 8" "v9p_msize (vio c) = 8 \<Longrightarrow> p9_chunk c 0xFFFFFF00 = 0xFFFFFF00"
  by (simp_all add: v9p_set_msize_def V9P_MSIZE_DEFAULT_def p9_chunk_def v9p_get_msize_def IOHDRSZ_def)

lemma convM2D_overflows_strs:
  assumes "d_name d = Some (replicate 255 97)" "d_uid d = Some root_name" "d_gid d = None" "d_muid d = None"
  shows "\<exists>n d' strs. convM2D (dir_bytes d) = Some (n, d', strs) \<and> length strs = 263"
proof -
  have "stat_ok d" using assms by (simp add: stat_ok_def dir_strings_def sval_def root_name_def)
  from convM2D_dir_bytes [OF this, of "[]"] assms show ?thesis by (simp add: dir_strings_def sval_def root_name_def)
qed

end
