(* ===== verification/Kernel_Main.thy ===== *)
theory Kernel_Main
  imports Boot_Processes Interrupts Segments Framebuffer Procfs NineP_Client
begin

text \<open>
  The boot sequence: \<open>kernel_main\<close> of \<open>kernel/kernel.c\<close> and the first kernel task. The initialisation functions of the components are composed in
  the order of the source, over one state that holds what each of them works on. Addresses the linker assigns, the handlers of the
  assembly files and the \<open>cpuid\<close> instruction are parameters; the messages of the 9P driver are left out as in its own theory.
\<close>

section \<open>State\<close>

text \<open>The fields of \<open>multiboot_info_t\<close> that are read besides the memory map.\<close>

record boot_info = multiboot_info +
  framebuffer_addr :: u64
  framebuffer_pitch :: u32
  framebuffer_width :: u32
  framebuffer_height :: u32
  framebuffer_bpp :: u8
  framebuffer_type :: u8

record linked =
  gdt_at :: u32
  idt_at :: u32
  tss_at :: u32
  tss_stack_at :: u32
  kernel_end :: u32
  handlers_at :: handlers
  task_kernel_init_at :: u32
  embedded_programs :: "(u8 list \<times> u8 list) list"
  embedded_applets :: "u8 list list"

record cpu =
  cpuid :: "u32 \<Rightarrow> cpu_regs"
  cpuid_max :: "u32 \<Rightarrow> u32"

record 'd boot =
  bcon :: console
  bgdt :: "nat \<Rightarrow> gdt_entry"
  bgdtr :: gdt_ptr
  btss :: tss
  bidt :: "nat \<Rightarrow> idt_entry"
  bidtr :: idt_ptr
  bfb :: framebuffer
  bproc :: procfs
  bproc_inodes :: "u32 list"
  bkern :: "'d client kernel"

abbreviation bvfs :: "'d boot \<Rightarrow> 'd client vfs" where
  "bvfs b \<equiv> kvfs (bkern b)"

abbreviation bmach :: "'d boot \<Rightarrow> machine" where
  "bmach b \<equiv> mach (fsys (bvfs b))"

definition set_bvfs :: "'d client vfs \<Rightarrow> 'd boot \<Rightarrow> 'd boot" where
  "set_bvfs v b = b\<lparr>bkern := set_vfs v (bkern b)\<rparr>"

definition set_bmach :: "machine \<Rightarrow> 'd boot \<Rightarrow> 'd boot" where
  "set_bmach m b = set_bvfs ((bvfs b)\<lparr>fsys := (fsys (bvfs b))\<lparr>mach := m\<rparr>\<rparr>) b"

text \<open>Port access to the devices, whose state is part of the 9P client's.\<close>

definition on_hw :: "('d \<Rightarrow> 'd) \<Rightarrow> 'd boot \<Rightarrow> 'd boot" where
  "on_hw f b =
     (let c = world (bvfs b) in set_bvfs ((bvfs b)\<lparr>world := c\<lparr>vio := set_hw (f (hw (vio c))) (vio c)\<rparr>\<rparr>) b)"

definition bsay :: "string \<Rightarrow> u8 \<Rightarrow> 'd boot \<Rightarrow> 'd boot option" where
  "bsay msg col b = map_option (\<lambda>c. b\<lparr>bcon := c\<rparr>) (print (bytes_of msg @ [10]) col (bcon b))"

section \<open>The steps of \<open>kernel_main\<close>\<close>

definition MULTIBOOT_BOOTLOADER_MAGIC :: u32 where "MULTIBOOT_BOOTLOADER_MAGIC = 0x2BADB002"
definition MULTIBOOT_INFO_FRAMEBUFFER :: nat where "MULTIBOOT_INFO_FRAMEBUFFER = 12"

definition CHECK_FLAG :: "u32 \<Rightarrow> nat \<Rightarrow> bool" where
  "CHECK_FLAG flags b \<longleftrightarrow> flags AND push_bit b 1 \<noteq> 0"

definition boot_cpu :: "'d ports \<Rightarrow> linked \<Rightarrow> 'd boot \<Rightarrow> 'd boot option" where
  "boot_cpu io ld b = do {
     let (gp, g) = gdt_init (gdt_at ld) (bgdt b);
     b \<leftarrow> bsay ''[OK] GDT init'' 0 (b\<lparr>bgdtr := gp, bgdt := g\<rparr>);
     let (t, g) = tss_init (tss_at ld) (tss_stack_at ld) (bgdt b);
     let b = on_hw (pit_init io PIT_HZ) (on_hw (pic_init io) (b\<lparr>btss := t, bgdt := g\<rparr>));
     let (ip, i) = idt_init (handlers_at ld) (idt_at ld) (bidt b);
     b \<leftarrow> bsay ''[OK] IDT init'' 0 (b\<lparr>bidtr := ip, bidt := i\<rparr>);
     Some (on_hw (serial_init io) b)
   }"

definition boot_screen :: "boot_info \<Rightarrow> 'd boot \<Rightarrow> 'd boot" where
  "boot_screen mbi b =
     (let b = (if CHECK_FLAG (mbi_flags mbi) MULTIBOOT_INFO_FRAMEBUFFER \<and> framebuffer_addr mbi \<le> 0xFFFFFFFF \<and> framebuffer_type mbi = 1
               then b\<lparr>bfb := framebuffer_init (ucast (framebuffer_addr mbi)) (framebuffer_width mbi) (framebuffer_height mbi)
                        (framebuffer_pitch mbi) (framebuffer_bpp mbi)\<rparr>
               else b)
      in b\<lparr>bcon := (bcon b)\<lparr>tty := terminal_init (tty (bcon b))\<rparr>\<rparr>)"

definition boot_memory :: "linked \<Rightarrow> boot_info \<Rightarrow> 'd boot \<Rightarrow> 'd boot option" where
  "boot_memory ld mbi b = do {
     p \<leftarrow> pmm_init (mem (bmach b)) (multiboot_info.truncate mbi) (kernel_end ld) (frames (bmach b));
     b \<leftarrow> bsay ''[OK] PMM init'' 0 (set_bmach ((bmach b)\<lparr>frames := p\<rparr>) b);
     m \<leftarrow> vmm_init (bmach b);
     bsay ''[OK] VMM init'' 0 (set_bmach m b)
   }"

definition boot_files :: "'d ports \<Rightarrow> 'd client vfs_env \<Rightarrow> linked \<Rightarrow> 'd boot \<Rightarrow> 'd boot option" where
  "boot_files io env ld b = do {
     b \<leftarrow> bsay ''[OK] Keyboard init'' 0 (on_hw (keyboard_unmask io) b);
     v \<leftarrow> fs_init env (embedded_programs ld) (embedded_applets ld) (bvfs b);
     bsay ''[OK] FS init'' 0 (set_bvfs v b)
   }"

definition selftest_report :: "selftest \<Rightarrow> piece list" where
  "selftest_report t =
     (case t of
        Create_failed \<Rightarrow> [Str (bytes_of ''[FS] selftest: create failed'' @ [10]) 0x0C]
      | Open_failed \<Rightarrow> [Str (bytes_of ''[FS] selftest: open failed'' @ [10]) 0x0C]
      | Verdict rw dir \<Rightarrow>
          if rw \<and> dir then [Str (bytes_of ''[FS] selftest PASS'' @ [10]) 0x0A]
          else [Str (bytes_of ''[FS] selftest FAIL (rw='') 0x0C, Str (bytes_of (if rw then ''ok'' else ''bad'')) 0x0C,
                Str (bytes_of '', dir='') 0x0C, Str (bytes_of (if dir then ''ok'' else ''bad'')) 0x0C, Str (bytes_of '')'' @ [10]) 0x0C])"

definition boot_mounts :: "'d device \<Rightarrow> 'd client vfs_env \<Rightarrow> cpu \<Rightarrow> u32 \<Rightarrow> 'd boot \<Rightarrow> 'd boot option" where
  "boot_mounts dv env cpu uninit b = do {
     (t, v) \<leftarrow> fs_selftest env uninit (bvfs b);
     c \<leftarrow> report (selftest_report t) (bcon b);
     (ps, ns, v) \<leftarrow> fs_procfs_init env (cpuid cpu) (cpuid_max cpu) (bproc b) v;
     let b = set_bvfs v (b\<lparr>bcon := c, bproc := ps, bproc_inodes := ns\<rparr>);
     let c = world (bvfs b);
     let (r, m, d) = v9p_init (fst dv) (bmach b, vio c);
     let b = set_bmach m (set_bvfs ((bvfs b)\<lparr>world := c\<lparr>vio := d\<rparr>\<rparr>) b);
     if r \<noteq> 0 then map_option (\<lambda>(_, v). set_bvfs v b) (v9p_mount dv env (bytes_of ''/root'') (bvfs b)) else Some b
   }"

definition boot_processes :: "'d client vfs_env \<Rightarrow> linked \<Rightarrow> 'd boot \<Rightarrow> 'd boot option" where
  "boot_processes env ld b = do {
     k \<leftarrow> process_register_current env (bkern b);
     k \<leftarrow> process_create_kernel env (task_kernel_init_at ld) k;
     Some (b\<lparr>bkern := k\<rparr>)
   }"

text \<open>The processor ends in \<open>panic\<close> or in the idle loop with interrupts on.\<close>

datatype 'd boot_end = Panicked console | Idle "'d boot"

definition kernel_main :: "'d device \<Rightarrow> 'd client vfs_env \<Rightarrow> cpu \<Rightarrow> linked \<Rightarrow> u32 \<Rightarrow> u32 \<Rightarrow> boot_info \<Rightarrow> 'd boot \<Rightarrow> 'd boot_end option" where
  "kernel_main dv env cpu ld uninit magic mbi b =
     (if magic \<noteq> MULTIBOOT_BOOTLOADER_MAGIC
      then map_option (\<lambda>(_, c). Panicked c) (panic (bytes_of ''Invalid multiboot magic. Not booted by a multiboot loader.'') (bcon b))
      else do {
        b \<leftarrow> boot_cpu (fst dv) ld b;
        b \<leftarrow> boot_memory ld mbi (boot_screen mbi b);
        b \<leftarrow> boot_files (fst dv) env ld b;
        b \<leftarrow> boot_mounts dv env cpu uninit b;
        b \<leftarrow> boot_processes env ld b;
        Some (Idle b)
      })"

text \<open>The first kernel task: it starts the shell and spins.\<close>

definition task_kernel_init :: "'d client vfs_env \<Rightarrow> 'd boot \<Rightarrow> 'd boot option" where
  "task_kernel_init env b = do {
     b \<leftarrow> bsay ''kernel task init!'' 0x0B b;
     let b = b\<lparr>bcon := clear_screen (bcon b)\<rparr>;
     (n, k) \<leftarrow> process_create_user env (bkern b);
     Some (b\<lparr>bkern := (if n > 0 then start_user_process n (bytes_of ''sh'') k else k)\<rparr>)
   }"

section \<open>Messages\<close>

text \<open>A console that prints plain text: before the terminal is set up, or with its parser between sequences and its invariant.\<close>

definition con_ok :: "console \<Rightarrow> bool" where
  "con_ok c \<longleftrightarrow> tstate (parser (tty c)) = INIT \<and> length (stack (parser (tty c))) \<le> TERM_STACK_SIZE \<and> (ready (tty c) \<longrightarrow> term_inv (tty c))"

definition plain :: "u8 list \<Rightarrow> bool" where
  "plain s \<longleftrightarrow> 27 \<notin> set s \<and> 9 \<notin> set s"

lemma read_text:
  assumes "term_inv s" "tstate (parser s) = INIT" "c \<noteq> 27" "c \<noteq> 9"
  shows "\<exists>s'. lw_terminal_parser_read c s = Some s' \<and> term_inv s' \<and> parser s' = parser s \<and> ready s' = ready s"
proof -
  have cur: "term_inv (set_cursor x)" "parser (set_cursor x) = parser x" "ready (set_cursor x) = ready x" if "term_inv x" for x
    using that by (simp_all add: set_cursor_def term_inv_def Let_def)
  have w: "term_inv (s\<lparr>cx := 0, pending_wrap := False\<rparr>)" "term_inv ((if cx s > 0 then s\<lparr>cx := cx s - 1\<rparr> else s)\<lparr>pending_wrap := False\<rparr>)"
    using assms(1) by (auto simp: term_inv_def)
  have l: "term_inv (linefeed x)" "parser (linefeed x) = parser x" "ready (linefeed x) = ready x" if "term_inv x" for x
    using safe_linefeed [OF that] linefeed_fields [OF that] drawn_fields(10) [OF drawn_scroll(1) [OF that]] by (simp_all add: safe_def linefeed_def)
  have "term_inv (s\<lparr>pending_wrap := False, cx := 0\<rparr>)" using assms(1) by (simp add: term_inv_def)
  then have rd: "ready (putc c s) = ready s" using l(3) by (simp add: putc_def putcell_def set_cursor_def Let_def)
  have p: "term_inv (putc c s)" "parser (putc c s) = parser s" "ready (putc c s) = ready s"
    using putc_effect(1,3) [OF assms(1), of c] rd by (simp_all add: safe_def)
  show ?thesis using assms cur l [OF w(1)] p w by (auto simp: lw_terminal_parser_read_def term_write_cb_def)
qed

lemma read_all_text:
  assumes "term_inv s" "tstate (parser s) = INIT" "plain cs"
  shows "\<exists>s'. read_all cs s = Some s' \<and> term_inv s' \<and> parser s' = parser s \<and> ready s' = ready s"
  using assms
proof (induction cs arbitrary: s)
  case (Cons c cs)
  obtain s1 where "lw_terminal_parser_read c s = Some s1" "term_inv s1" "parser s1 = parser s" "ready s1 = ready s"
    using read_text [of s c] Cons.prems by (auto simp: plain_def)
  then show ?case using Cons.IH [of s1] Cons.prems by (auto simp: plain_def)
qed simp

text \<open>Printing without the terminal changes only cells and the cursor.\<close>

definition con_core :: "console \<Rightarrow> bool \<times> lw_terminal" where
  "con_core c = (ready (tty c), parser (tty c))"

lemma con_core_fold: "(\<And>x c. con_core (g x c) = con_core c) \<Longrightarrow> con_core (fold g xs c) = con_core c"
  by (induction xs arbitrary: c) auto

lemma con_core_steps [simp]:
  "con_core (put_cell i x a c) = con_core c" "con_core (serial_putchar x c) = con_core c" "con_core (update_hw_cursor c) = con_core c"
  "con_core (scroll c) = con_core c" "con_core (print_char col x c) = con_core c"
proof -
  show cell: "con_core (put_cell i x a c) = con_core c" for i x a c by (simp add: put_cell_def con_core_def)
  show "con_core (serial_putchar x c) = con_core c" "con_core (update_hw_cursor c) = con_core c"
    by (simp_all add: serial_putchar_def update_hw_cursor_def con_core_def Let_def)
  have cur: "con_core (c\<lparr>cursor_y := n\<rparr>) = con_core c" "con_core (c\<lparr>cursor_x := n\<rparr>) = con_core c" for c n by (simp_all add: con_core_def)
  show scr: "con_core (scroll c) = con_core c" for c
    unfolding scroll_def Let_def cur by (simp add: con_core_fold cell) (intro con_core_fold, simp add: con_core_def)
  show "con_core (print_char col x c) = con_core c"
    by (simp add: print_char_def next_line_def Let_def scr cell cur)
qed

lemma con_ok_core: "con_core c' = con_core c \<Longrightarrow> \<not> ready (tty c) \<Longrightarrow> con_ok c \<Longrightarrow> con_ok c'"
  by (simp add: con_ok_def con_core_def)

lemma print_text:
  assumes ok: "con_ok c" and s: "plain s"
  shows "\<exists>c'. print s col c = Some c' \<and> con_ok c' \<and> ready (tty c') = ready (tty c)"
proof -
  define c1 where "c1 = fold serial_putchar s c"
  have "tty (fold serial_putchar xs c) = tty c" for xs c by (induction xs arbitrary: c) (simp_all add: serial_putchar_def)
  then have c1: "tty c1 = tty c" by (simp add: c1_def)
  show ?thesis
  proof (cases "ready (tty c)")
    case True
    then have "term_inv (tty c)" "tstate (parser (tty c)) = INIT" using ok by (simp_all add: con_ok_def)
    from read_all_text [OF this s] obtain t where t: "read_all s (tty c) = Some t" "term_inv t" "parser t = parser (tty c)" "ready t = ready (tty c)" by blast
    have "print s col c = Some (c1\<lparr>tty := set_cursor t\<rparr>)" using True t(1) c1 by (simp add: print_def terminal_ready_def terminal_write_def c1_def)
    moreover have "con_ok (c1\<lparr>tty := set_cursor t\<rparr>)" "ready (set_cursor t) = ready (tty c)"
      using ok t by (simp_all add: con_ok_def set_cursor_def term_inv_def Let_def)
    ultimately show ?thesis by simp
  next
    case False
    define c2 where "c2 = update_hw_cursor (fold (print_char (if col = 0 then 0x07 else col)) s c1)"
    have "con_core c2 = con_core c1" by (simp add: c2_def con_core_fold)
    then have core: "con_core c2 = con_core c" using c1 by (simp add: con_core_def)
    moreover have "print s col c = Some c2" using False c1 by (simp add: print_def terminal_ready_def c2_def c1_def)
    ultimately show ?thesis using con_ok_core [OF core False ok] by (simp add: con_core_def)
  qed
qed

lemma bsay_text:
  assumes "con_ok (bcon b)" and "plain (bytes_of msg @ [10])"
  shows "\<exists>c. bsay msg col b = Some (b\<lparr>bcon := c\<rparr>) \<and> con_ok c \<and> ready (tty c) = ready (tty (bcon b))"
  using print_text [OF assms, of col] by (auto simp: bsay_def)

lemma terminal_init_drawn:
  "drawn (s\<lparr>ready := True, cx := 0, cy := 0, top_row := 0, bot_row := ROWS - 1, sx := 0, sy := 0, pending_wrap := False, autowrap := True,
      cursor_visible := True, bold := False, reverse_video := False, fg := 7, bg := 0\<rparr>) (terminal_init s)"
proof -
  have "drawn x (set_cursor (fold blank_row [0..ROWS - 1] x))" for x
    by (rule drawn_trans [OF drawn_blank_rows drawn_set_cursor]) (simp add: ROWS_def)
  then show ?thesis by (simp add: terminal_init_def terminal_reset_def)
qed

lemma terminal_init_ok:
  assumes "con_ok c"
  shows "con_ok (c\<lparr>tty := terminal_init (tty c)\<rparr>)" "ready (terminal_init (tty c))"
proof -
  note d = terminal_init_drawn [of "tty c"]
  have "term_inv (terminal_init (tty c))" by (rule drawn_inv [OF d]) (use assms in \<open>simp add: term_inv_def ROWS_def con_ok_def\<close>)
  then show "con_ok (c\<lparr>tty := terminal_init (tty c)\<rparr>)" "ready (terminal_init (tty c))"
    using assms drawn_fields(7,10) [OF d] by (simp_all add: con_ok_def)
qed

section \<open>Reaching the file system\<close>

text \<open>What the console and the ports do leaves memory, files and processes alone.\<close>

definition same_kernel :: "'d boot \<Rightarrow> 'd boot \<Rightarrow> bool" where
  "same_kernel b b' \<longleftrightarrow> (\<exists>w. bkern b' = set_vfs ((bvfs b)\<lparr>world := w\<rparr>) (bkern b))"

lemma same_kernel_eq: "bkern b' = bkern b \<Longrightarrow> same_kernel b b'"
  unfolding same_kernel_def by (rule exI [of _ "world (bvfs b)"]) (simp add: set_vfs_def)

lemma same_kernel_trans: "same_kernel a b \<Longrightarrow> same_kernel b c \<Longrightarrow> same_kernel a c"
  by (auto simp: same_kernel_def set_vfs_def)

lemma same_kernel_hw: "same_kernel b (on_hw f b)"
  by (auto simp: same_kernel_def on_hw_def set_bvfs_def Let_def)

lemma on_hw_simps [simp]: "bcon (on_hw f b) = bcon b" "bidt (on_hw f b) = bidt b" "bgdt (on_hw f b) = bgdt b" "bproc (on_hw f b) = bproc b"
  by (simp_all add: on_hw_def set_bvfs_def Let_def)

text \<open>The slot and the next process id do not change before the first process is registered.\<close>

definition same_table :: "'d boot \<Rightarrow> 'd boot \<Rightarrow> bool" where
  "same_table b b' \<longleftrightarrow> cur (bkern b') = cur (bkern b) \<and> next_pid (bkern b') = next_pid (bkern b)"

lemma same_kernelD:
  assumes "same_kernel b b'"
  shows "fsys (bvfs b') = fsys (bvfs b)" "fs_cwd (bvfs b') = fs_cwd (bvfs b)" "same_table b b'"
  using assms by (auto simp: same_kernel_def set_vfs_def same_table_def)

lemma boot_cpu_ok:
  assumes con: "con_ok (bcon b)"
  shows "\<exists>b'. boot_cpu io ld b = Some b' \<and> same_kernel b b' \<and> con_ok (bcon b') \<and> bidt b' = snd (idt_init (handlers_at ld) (idt_at ld) (bidt b))"
proof -
  have msg: "plain (bytes_of ''[OK] GDT init'' @ [10])" "plain (bytes_of ''[OK] IDT init'' @ [10])"
    by (simp_all add: plain_def bytes_of_def of_char_def)
  obtain gp g where g: "gdt_init (gdt_at ld) (bgdt b) = (gp, g)" by fastforce
  obtain c1 where c1: "bsay ''[OK] GDT init'' 0 (b\<lparr>bgdtr := gp, bgdt := g\<rparr>) = Some (b\<lparr>bgdtr := gp, bgdt := g, bcon := c1\<rparr>)" "con_ok c1"
    using bsay_text [of "b\<lparr>bgdtr := gp, bgdt := g\<rparr>" "''[OK] GDT init''"] con msg by auto
  define b1 where "b1 = b\<lparr>bgdtr := gp, bgdt := g, bcon := c1\<rparr>"
  obtain t g2 where t: "tss_init (tss_at ld) (tss_stack_at ld) g = (t, g2)" by fastforce
  define b2 where "b2 = on_hw (pit_init io PIT_HZ) (on_hw (pic_init io) (b1\<lparr>btss := t, bgdt := g2\<rparr>))"
  obtain ip i where i: "idt_init (handlers_at ld) (idt_at ld) (bidt b) = (ip, i)" by fastforce
  have b2: "bidt b2 = bidt b" "bcon b2 = c1" by (simp_all add: b2_def b1_def)
  obtain c2 where c2: "bsay ''[OK] IDT init'' 0 (b2\<lparr>bidtr := ip, bidt := i\<rparr>) = Some (b2\<lparr>bidtr := ip, bidt := i, bcon := c2\<rparr>)" "con_ok c2"
    using bsay_text [of "b2\<lparr>bidtr := ip, bidt := i\<rparr>" "''[OK] IDT init''"] c1(2) b2 msg by auto
  define b3 where "b3 = b2\<lparr>bidtr := ip, bidt := i, bcon := c2\<rparr>"
  have "boot_cpu io ld b = Some (on_hw (serial_init io) b3)"
    using g c1(1) t i c2(1) b2(1) unfolding b2_def b1_def b3_def by (simp add: boot_cpu_def Let_def)
  moreover have "same_kernel b (on_hw (serial_init io) b3)"
  proof -
    have "same_kernel b (b1\<lparr>btss := t, bgdt := g2\<rparr>)" by (rule same_kernel_eq) (simp add: b1_def)
    moreover have "same_kernel (b1\<lparr>btss := t, bgdt := g2\<rparr>) b2" unfolding b2_def by (blast intro: same_kernel_trans same_kernel_hw)
    moreover have "same_kernel b2 b3" by (rule same_kernel_eq) (simp add: b3_def)
    ultimately show ?thesis by (blast intro: same_kernel_trans same_kernel_hw)
  qed
  ultimately show ?thesis using c2(2) i by (simp add: b3_def)
qed

lemma boot_screen_ok:
  assumes "con_ok (bcon b)"
  shows "same_kernel b (boot_screen mbi b)" "con_ok (bcon (boot_screen mbi b))" "ready (tty (bcon (boot_screen mbi b)))" "bidt (boot_screen mbi b) = bidt b"
  using terminal_init_ok [OF assms] by (auto simp: boot_screen_def Let_def intro: same_kernel_eq)

text \<open>The pages the memory map offers below 256 MiB outside the kernel image.\<close>

definition usable_pages :: "mmap_entry list \<Rightarrow> u32 \<Rightarrow> u32 set" where
  "usable_pages es ke = {i. i < pmm_total \<and> (\<exists>e \<in> set es. entry_covers e i) \<and> \<not> (256 \<le> i \<and> i < 256 + (ke - 0x100000 + 4095) div 4096)}"

text \<open>The kernel's page directory is a zeroed page of the kernel image.\<close>

definition pdir_static :: "linked \<Rightarrow> machine \<Rightarrow> bool" where
  "pdir_static ld m \<longleftrightarrow> page_aligned (kernel_pdir m) \<and> 256 \<le> kernel_pdir m div 4096 \<and> kernel_pdir m div 4096 < 65536 \<and>
     kernel_pdir m div 4096 < 256 + (kernel_end ld - 0x100000 + 4095) div 4096 \<and> (\<forall>i < 1024. entry (mem m) (kernel_pdir m) i = 0)"

lemma boot_memory_ok:
  assumes con: "con_ok (bcon b)" and flags: "mbi_flags mbi AND push_bit 6 1 \<noteq> 0"
    and es: "mmap_entries (mem (bmach b)) (mmap_addr mbi) (mmap_addr mbi + mmap_length mbi) es"
    and ke: "kernel_end ld \<ge> 0x100000" and hint: "pmm_hint (frames (bmach b)) = 0" and pd: "pdir_static ld (bmach b)"
    and free: "64 + n \<le> card (usable_pages es (kernel_end ld))"
  shows "\<exists>b'. boot_memory ld mbi b = Some b' \<and> con_ok (bcon b') \<and> ready (tty (bcon b')) = ready (tty (bcon b)) \<and> same_table b b' \<and> bidt b' = bidt b \<and> fs_cwd (bvfs b') = fs_cwd (bvfs b) \<and>
    pmm_inv (frames (bmach b')) \<and> n \<le> card (free_pages (frames (bmach b'))) \<and> cr0 (bmach b') AND 0x80000000 \<noteq> 0 \<and>
    vmm_current_pdir (bmach b') = kernel_pdir (bmach b) \<and> (\<forall>a < 0x10000000. vmm_phys (kernel_pdir (bmach b)) a (bmach b') = a)"
proof -
  let ?m = "bmach b" and ?ke = "kernel_end ld"
  have tr: "mbi_flags (multiboot_info.truncate mbi) = mbi_flags mbi" "mmap_addr (multiboot_info.truncate mbi) = mmap_addr mbi"
    "mmap_length (multiboot_info.truncate mbi) = mmap_length mbi" by (simp_all add: multiboot_info.truncate_def)
  obtain p where p: "pmm_init (mem ?m) (multiboot_info.truncate mbi) ?ke (frames ?m) = Some p" "pmm_inv p"
    and used: "\<And>i. i < MAX_PAGES \<Longrightarrow> page_used p i \<longleftrightarrow> (\<forall>e \<in> set es. \<not> entry_covers e i) \<or> (256 \<le> i \<and> i < 256 + (?ke - 0x100000 + 4095) div 4096)"
    using pmm_init_effect [of "multiboot_info.truncate mbi" "mem ?m" es ?ke "frames ?m"] flags es ke hint tr by auto
  have total: "i < pmm_total \<Longrightarrow> i < MAX_PAGES" for i by (simp add: MAX_PAGES_def word_less_nat_alt)
  have free_eq: "free_pages p = usable_pages es ?ke" using used total by (auto simp: free_pages_def usable_pages_def)
  have msg: "plain (bytes_of ''[OK] PMM init'' @ [10])" "plain (bytes_of ''[OK] VMM init'' @ [10])"
    by (simp_all add: plain_def bytes_of_def of_char_def)
  define m1 where "m1 = ?m\<lparr>frames := p\<rparr>"
  obtain c1 where c1: "bsay ''[OK] PMM init'' 0 (set_bmach m1 b) = Some ((set_bmach m1 b)\<lparr>bcon := c1\<rparr>)" "con_ok c1" "ready (tty c1) = ready (tty (bcon b))"
    using bsay_text [of "set_bmach m1 b" "''[OK] PMM init''"] con msg(1) by (auto simp: set_bmach_def set_bvfs_def)
  have pdn: "256 \<le> kernel_pdir ?m div 4096" "kernel_pdir ?m div 4096 < MAX_PAGES" "page_aligned (kernel_pdir ?m)"
    using pd by (auto simp: pdir_static_def MAX_PAGES_def word_less_nat_alt)
  then have own: "owned m1 (kernel_pdir m1)" "kernel_pdir m1 \<noteq> 0"
    using used [OF pdn(2)] pd by (auto simp: m1_def page_owned_def PAGE_SIZE_def pdir_static_def)
  obtain m2 where m2: "vmm_init m1 = Some m2" "vmm_current_pdir m2 = kernel_pdir ?m" "cr0 m2 AND 0x80000000 \<noteq> 0"
      "\<forall>a < 0x10000000. vmm_phys (kernel_pdir ?m) a m2 = a" "pdir_wf (kernel_pdir ?m) m2" "n \<le> card (free_pages (frames m2))"
    using vmm_init_correct [of m1 n] p(2) free free_eq own pdn(3) pd by (auto simp: m1_def pdir_static_def vmm_kernel_pdir_def)
  define b1 where "b1 = set_bmach m2 ((set_bmach m1 b)\<lparr>bcon := c1\<rparr>)"
  obtain c2 where c2: "bsay ''[OK] VMM init'' 0 b1 = Some (b1\<lparr>bcon := c2\<rparr>)" "con_ok c2" "ready (tty c2) = ready (tty c1)"
    using bsay_text [of b1 "''[OK] VMM init''"] c1(2) msg(2) by (auto simp: b1_def set_bmach_def set_bvfs_def)
  have mm: "bmach (set_bmach m x) = m" "fs_cwd (bvfs (set_bmach m x)) = fs_cwd (bvfs x)" "bidt (set_bmach m x) = bidt x"
    "cur (bkern (set_bmach m x)) = cur (bkern x)" "next_pid (bkern (set_bmach m x)) = next_pid (bkern x)" for m and x :: "'d boot"
    by (simp_all add: set_bmach_def set_bvfs_def set_vfs_def)
  have "boot_memory ld mbi b = Some (b1\<lparr>bcon := c2\<rparr>)"
    using p(1) c1(1) m2(1) c2(1) unfolding m1_def [symmetric] b1_def by (simp add: boot_memory_def m1_def [symmetric] mm)
  then show ?thesis using m2 c1(3) c2(2,3) pdir_wfD(1) [OF m2(5)] by (simp add: b1_def mm same_table_def)
qed

lemma boot_files_ok:
  assumes con: "con_ok (bcon b)" and tab: "tables_ok (embedded_programs ld) (embedded_applets ld)" and mem: "pmm_inv (frames (bmach b))"
      "42 + program_pages (embedded_programs ld) + 2 * length (embedded_applets ld) + p \<le> card (free_pages (frames (bmach b)))"
  shows "\<exists>b' K C M l. boot_files io env ld b = Some b' \<and> con_ok (bcon b') \<and> ready (tty (bcon b')) = ready (tty (bcon b)) \<and> same_table b b' \<and>
    bin_ok (embedded_programs ld) (embedded_applets ld) K C M \<and> boot_inv (12 + of_nat (length (embedded_programs ld))) K C l p (fsys (bvfs b')) \<and>
    l \<le> 2096000 \<and> ftable (bvfs b') = (\<lambda>_. zero_file) \<and> fs_cwd (bvfs b') = fs_cwd (bvfs b) \<and> bidt b' = bidt b"
proof -
  have msg: "plain (bytes_of ''[OK] Keyboard init'' @ [10])" "plain (bytes_of ''[OK] FS init'' @ [10])"
    by (simp_all add: plain_def bytes_of_def of_char_def)
  obtain c1 where c1: "bsay ''[OK] Keyboard init'' 0 (on_hw (keyboard_unmask io) b) = Some ((on_hw (keyboard_unmask io) b)\<lparr>bcon := c1\<rparr>)"
      "con_ok c1" "ready (tty c1) = ready (tty (bcon b))"
    using bsay_text [of "on_hw (keyboard_unmask io) b" "''[OK] Keyboard init''"] con msg(1) by auto
  define b1 where "b1 = (on_hw (keyboard_unmask io) b)\<lparr>bcon := c1\<rparr>"
  have k: "fsys (bvfs b1) = fsys (bvfs b)" "fs_cwd (bvfs b1) = fs_cwd (bvfs b)" "bidt b1 = bidt b" "same_table b b1"
    using same_kernelD [OF same_kernel_hw [of b "keyboard_unmask io"]] by (simp_all add: b1_def same_table_def)
  obtain v K C M l where v: "fs_init env (embedded_programs ld) (embedded_applets ld) (bvfs b1) = Some v"
      "bin_ok (embedded_programs ld) (embedded_applets ld) K C M" "boot_inv (12 + of_nat (length (embedded_programs ld))) K C l p (fsys v)"
      "l \<le> 2096000" "ftable v = (\<lambda>_. zero_file)" "v = (bvfs b1)\<lparr>fsys := fsys v, ftable := ftable v\<rparr>"
    using fs_init_exact [OF tab, of "bvfs b1" p env] mem k(1) by auto
  have cw: "fs_cwd v = fs_cwd (bvfs b1)" by (subst v(6)) simp
  obtain c2 where c2: "bsay ''[OK] FS init'' 0 (set_bvfs v b1) = Some ((set_bvfs v b1)\<lparr>bcon := c2\<rparr>)" "con_ok c2" "ready (tty c2) = ready (tty c1)"
    using bsay_text [of "set_bvfs v b1" "''[OK] FS init''"] c1(2) msg(2) by (auto simp: b1_def set_bvfs_def)
  define b2 where "b2 = (set_bvfs v b1)\<lparr>bcon := c2\<rparr>"
  have b2: "bvfs b2 = v" "bidt b2 = bidt b" "same_table b b2" "bcon b2 = c2" using k(3,4) by (simp_all add: b2_def set_bvfs_def set_vfs_def same_table_def)
  have "boot_files io env ld b = Some b2" using c1(1) v(1) c2(1) by (simp add: boot_files_def b1_def b2_def)
  then show ?thesis using b2 v c2(2,3) c1(3) cw k(2)
    by (intro exI [of _ b2] exI [of _ K] exI [of _ C] exI [of _ M] exI [of _ l]) simp
qed

section \<open>Mounting\<close>

lemma boot_tree_console: "boot_tree 2 = Some (T_DIR, 0, [dot \<mapsto> 2, dotdot \<mapsto> 1, console_name \<mapsto> 3, tty_name \<mapsto> 4, null_name \<mapsto> 5])"
  "boot_tree 3 = Some (T_DEVICE, of_nat CONSOLE_MAJOR, Map.empty)"
  by (simp_all add: boot_tree_def etc_tree_def dev_tree_def)

lemma procfs_after_selftest:
  assumes tab: "tables_ok progs applets" and B: "bin_ok progs applets K C M" and inv: "boot_inv (12 + of_nat (length progs)) K C l (6 + p) (fsys v)"
    and l: "l \<le> 2097000" and cwd: "0 \<notin> set (fs_cwd v)"
  shows "\<exists>ps ns s. fs_procfs_init env cp cm q v = Some (ps, ns, v\<lparr>fsys := s\<rparr>) \<and> has_console s \<and> p \<le> card (free_pages (frames (mach s)))"
proof -
  define n :: u32 where "n = 12 + of_nat (length progs)"
  have T: "tree_inv K C l (6 + p) (fsys v)" and used: "\<And>j. K j \<noteq> None \<longleftrightarrow> 1 \<le> j \<and> j < n"
    using inv by (simp_all add: boot_inv_tree n_def)
  have K: "K ROOTINO = Some (T_DIR, 0, [dot \<mapsto> 1, dotdot \<mapsto> 1, dev_name \<mapsto> 2, etc_name \<mapsto> 6, hello_name \<mapsto> 9, host_name \<mapsto> 10, bin_name \<mapsto> 11])"
    using root_without_selftest [OF B] boot_tree_root by simp
  have K23: "K 2 = boot_tree 2" "K 3 = boot_tree 3" using B boot_tree_console by (auto simp: bin_ok_def)
  have len: "length progs \<le> 110" using tab by (simp add: tables_ok_def)
  then have u: "unat n = 12 + length progs" by (simp add: n_def unat_word_ariths unat_of_nat)
  have n: "1 \<le> n" "n < MAX_INODES" using u len by (simp_all add: word_le_nat_alt word_less_nat_alt MAX_INODES_def)
  have free: "K n = None" "\<And>j. 1 \<le> j \<Longrightarrow> j < n \<Longrightarrow> K j \<noteq> None" using used [of n] used by (metis less_irrefl, blast)
  show ?thesis
    by (rule procfs_init_console [OF T cwd _ K _ K23(1) [unfolded boot_tree_console] _ K23(2) [unfolded boot_tree_console] _ n free])
      (use l proc_names(4) in auto)
qed

lemma boot_mounts_ok:
  assumes dev: "\<And>d. fst (find_device (fst dv) d) = None" and con: "con_ok (bcon b)"
    and tab: "tables_ok (embedded_programs ld) (embedded_applets ld)" and B: "bin_ok (embedded_programs ld) (embedded_applets ld) K C M"
    and inv: "boot_inv (12 + of_nat (length (embedded_programs ld))) K C l (14 + (6 + p)) (fsys (bvfs b))" and l: "l \<le> 2096000"
    and fr: "ftable (bvfs b) = (\<lambda>_. zero_file)" and cwd: "0 \<notin> set (fs_cwd (bvfs b))"
  shows "\<exists>b'. boot_mounts dv env cpu u b = Some b' \<and> con_ok (bcon b') \<and> ready (tty (bcon b')) = ready (tty (bcon b)) \<and> same_table b b' \<and>
    has_console (fsys (bvfs b')) \<and> p \<le> card (free_pages (frames (bmach b'))) \<and> (\<forall>f. fref (ftable (bvfs b') f) = 0) \<and>
    fs_cwd (bvfs b') = fs_cwd (bvfs b) \<and> bidt b' = bidt b"
proof -
  have z: "fref (ftable (bvfs b) 0) = 0" by (simp add: fr zero_file_def)
  obtain s1 x where t: "fs_selftest env u (bvfs b) = Some (Verdict True True, (bvfs b)\<lparr>fsys := s1, ftable := (ftable (bvfs b))(0 := x)\<rparr>)" "fref x = 0"
      "boot_inv (12 + of_nat (length (embedded_programs ld))) K C (l + 176) (6 + p) s1"
    using selftest_after_init [OF tab B inv l z cwd, where env = env and u = u] by blast
  define v1 where "v1 = (bvfs b)\<lparr>fsys := s1, ftable := (ftable (bvfs b))(0 := x)\<rparr>"
  have v1: "fsys v1 = s1" "fs_cwd v1 = fs_cwd (bvfs b)" "fref (ftable v1 f) = 0" for f using t(2) by (simp_all add: v1_def fr zero_file_def)
  have "plain (bytes_of ''[FS] selftest PASS'' @ [10])" by (simp add: plain_def bytes_of_def of_char_def)
  from print_text [OF con this, of 10] obtain c where c: "report (selftest_report (Verdict True True)) (bcon b) = Some c" "con_ok c" "ready (tty c) = ready (tty (bcon b))"
    by (auto simp: selftest_report_def)
  have "0 \<notin> set (fs_cwd v1)" "l + 176 \<le> 2097000" using cwd l v1(2) by simp_all
  with procfs_after_selftest [OF tab B t(3) [folded v1(1)], where env = env and cp = "cpuid cpu" and cm = "cpuid_max cpu" and q = "bproc b"]
  obtain ps ns s2 where pr: "fs_procfs_init env (cpuid cpu) (cpuid_max cpu) (bproc b) v1 = Some (ps, ns, v1\<lparr>fsys := s2\<rparr>)" "has_console s2"
      "p \<le> card (free_pages (frames (mach s2)))" by blast
  define b1 where "b1 = set_bvfs (v1\<lparr>fsys := s2\<rparr>) (b\<lparr>bcon := c, bproc := ps, bproc_inodes := ns\<rparr>)"
  obtain d where d: "find_device (fst dv) (hw (vio (world (bvfs b1)))) = (None, d)" using dev by (metis prod.collapse)
  define b2 where "b2 = set_bmach (bmach b1) (set_bvfs ((bvfs b1)\<lparr>world := (world (bvfs b1))\<lparr>vio := set_hw d (vio (world (bvfs b1)))\<rparr>\<rparr>) b1)"
  have run: "boot_mounts dv env cpu u b = Some b2"
    using t(1) [folded v1_def] c(1) pr(1) d by (simp add: boot_mounts_def v9p_init_def b1_def [symmetric] b2_def Let_def)
  have "fsys (bvfs b2) = s2" "ftable (bvfs b2) = ftable v1" "fs_cwd (bvfs b2) = fs_cwd v1" "bcon b2 = c" "bidt b2 = bidt b" "same_table b b2"
    by (simp_all add: b2_def b1_def set_bmach_def set_bvfs_def set_vfs_def same_table_def)
  then show ?thesis using run c(2,3) pr(2,3) v1(2,3) by (intro exI [of _ b2]) simp
qed

section \<open>The whole boot\<close>

text \<open>The state the loader leaves: static data as linked, the terminal not yet set up.\<close>

definition loaded :: "linked \<Rightarrow> boot_info \<Rightarrow> mmap_entry list \<Rightarrow> 'd boot \<Rightarrow> bool" where
  "loaded ld mbi es b \<longleftrightarrow> con_ok (bcon b) \<and> mbi_flags mbi AND push_bit 6 1 \<noteq> 0 \<and>
     mmap_entries (mem (bmach b)) (mmap_addr mbi) (mmap_addr mbi + mmap_length mbi) es \<and> kernel_end ld \<ge> 0x100000 \<and>
     pmm_hint (frames (bmach b)) = 0 \<and> pdir_static ld (bmach b) \<and> 0 \<notin> set (fs_cwd (bvfs b)) \<and> cur (bkern b) = 0 \<and> next_pid (bkern b) = 1"

lemma boot_to_files:
  assumes ld: "loaded ld mbi es b" and tab: "tables_ok (embedded_programs ld) (embedded_applets ld)"
    and free: "106 + program_pages (embedded_programs ld) + 2 * length (embedded_applets ld) + p \<le> card (usable_pages es (kernel_end ld))"
  shows "\<exists>b' K C M l. kernel_main dv env cpu ld uninit MULTIBOOT_BOOTLOADER_MAGIC mbi b =
      do { b \<leftarrow> boot_mounts dv env cpu uninit b'; b \<leftarrow> boot_processes env ld b; Some (Idle b) } \<and>
    con_ok (bcon b') \<and> ready (tty (bcon b')) \<and> same_table b b' \<and> bin_ok (embedded_programs ld) (embedded_applets ld) K C M \<and>
    boot_inv (12 + of_nat (length (embedded_programs ld))) K C l p (fsys (bvfs b')) \<and> l \<le> 2096000 \<and>
    ftable (bvfs b') = (\<lambda>_. zero_file) \<and> fs_cwd (bvfs b') = fs_cwd (bvfs b) \<and> bidt b' = snd (idt_init (handlers_at ld) (idt_at ld) (bidt b))"
proof -
  note L = ld [unfolded loaded_def]
  obtain b1 where b1: "boot_cpu (fst dv) ld b = Some b1" "same_kernel b b1" "con_ok (bcon b1)" "bidt b1 = snd (idt_init (handlers_at ld) (idt_at ld) (bidt b))"
    using boot_cpu_ok L by blast
  define b2 where "b2 = boot_screen mbi b1"
  have b2: "con_ok (bcon b2)" "ready (tty (bcon b2))" "bidt b2 = bidt b1" "fsys (bvfs b2) = fsys (bvfs b)" "fs_cwd (bvfs b2) = fs_cwd (bvfs b)" "same_table b b2"
    using boot_screen_ok [OF b1(3), of mbi] same_kernelD [OF same_kernel_trans [OF b1(2) boot_screen_ok(1) [OF b1(3)]]] by (simp_all add: b2_def)
  let ?n = "42 + program_pages (embedded_programs ld) + 2 * length (embedded_applets ld) + p"
  have n: "64 + ?n \<le> card (usable_pages es (kernel_end ld))" using free by simp
  obtain b3 where b3: "boot_memory ld mbi b2 = Some b3" "con_ok (bcon b3)" "ready (tty (bcon b3)) = ready (tty (bcon b2))" "same_table b2 b3" "bidt b3 = bidt b2"
      "fs_cwd (bvfs b3) = fs_cwd (bvfs b2)" "pmm_inv (frames (bmach b3))" "?n \<le> card (free_pages (frames (bmach b3)))"
    using boot_memory_ok [OF b2(1) _ _ _ _ _ n, of mbi] L b2(4) by metis
  obtain b4 K C M l where b4: "boot_files (fst dv) env ld b3 = Some b4" "con_ok (bcon b4)" "ready (tty (bcon b4)) = ready (tty (bcon b3))" "same_table b3 b4"
      "bin_ok (embedded_programs ld) (embedded_applets ld) K C M" "boot_inv (12 + of_nat (length (embedded_programs ld))) K C l p (fsys (bvfs b4))"
      "l \<le> 2096000" "ftable (bvfs b4) = (\<lambda>_. zero_file)" "fs_cwd (bvfs b4) = fs_cwd (bvfs b3)" "bidt b4 = bidt b3"
    using boot_files_ok [OF b3(2) tab b3(7,8), where io = "fst dv" and env = env] by blast
  have run: "kernel_main dv env cpu ld uninit MULTIBOOT_BOOTLOADER_MAGIC mbi b =
      do { b \<leftarrow> boot_mounts dv env cpu uninit b4; b \<leftarrow> boot_processes env ld b; Some (Idle b) }"
    using b1(1) b3(1) b4(1) by (simp add: kernel_main_def b2_def)
  have "same_table b b4" using b2(6) b3(4) b4(4) by (simp add: same_table_def)
  with run b1(4) b2(2,3,5) b3(3,5,6) b4 show ?thesis
    by (intro exI [of _ b4] exI [of _ K] exI [of _ C] exI [of _ M] exI [of _ l]) simp
qed

text \<open>
  (C5) The kernel boots: from the state the multiboot loader leaves, with 127 usable pages beyond those the embedded programs need and no 9P
  device on the bus, \<open>kernel_main\<close> reaches its idle loop. The terminal is set up and keeps its invariant; the process table holds the
  bootstrap process and \<open>kernel_init\<close>, whose descriptors 0, 1 and 2 are open on the console device, the first for reading and the others for writing;
  the process table, the reference counts of open files and the directory tree satisfy the invariants that the
  theorems on processes, system calls and paths start from; and the interrupt table is the one \<open>idt_init\<close> builds.
\<close>

theorem kernel_main_boots:
  assumes "loaded ld mbi es b" and "tables_ok (embedded_programs ld) (embedded_applets ld)"
    and "127 + program_pages (embedded_programs ld) + 2 * length (embedded_applets ld) \<le> card (usable_pages es (kernel_end ld))"
    and "\<And>d. fst (find_device (fst dv) d) = None"
  shows "\<exists>b'. kernel_main dv env cpu ld uninit MULTIBOOT_BOOTLOADER_MAGIC mbi b = Some (Idle b') \<and>
    ready (tty (bcon b')) \<and> term_inv (tty (bcon b')) \<and>
    map (\<lambda>p. (pid p, process_name p, pstate p)) (procs (bkern b')) =
      [(0, bytes_of ''bootstrap'', PROC_RUNNING), (1, bytes_of ''kernel_init'', PROC_RUNNING)] \<and>
    map pfds (procs (bkern b')) = [con_fds 0, con_fds 3] \<and>
    (\<forall>f < 6. ftable (bvfs b') f = con_file (f = 0 \<or> f = 3) (f \<noteq> 0 \<and> f \<noteq> 3)) \<and> namei env console_path (bvfs b') = Some (Some 3, bvfs b') \<and>
    table_inv (bkern b') \<and> refs_ok (bkern b') \<and> tree_ok (fsys (bvfs b')) \<and>
    bidt b' = snd (idt_init (handlers_at ld) (idt_at ld) (bidt b))"
proof -
  note L = assms(1) [unfolded loaded_def]
  have free: "106 + program_pages (embedded_programs ld) + 2 * length (embedded_applets ld) + (14 + (6 + 1)) \<le> card (usable_pages es (kernel_end ld))"
    using assms(3) by simp
  obtain b1 K C M l where b1: "kernel_main dv env cpu ld uninit MULTIBOOT_BOOTLOADER_MAGIC mbi b =
      do { b \<leftarrow> boot_mounts dv env cpu uninit b1; b \<leftarrow> boot_processes env ld b; Some (Idle b) }"
      "con_ok (bcon b1)" "ready (tty (bcon b1))" "same_table b b1" "bin_ok (embedded_programs ld) (embedded_applets ld) K C M"
      "boot_inv (12 + of_nat (length (embedded_programs ld))) K C l (14 + (6 + 1)) (fsys (bvfs b1))" "l \<le> 2096000"
      "ftable (bvfs b1) = (\<lambda>_. zero_file)" "fs_cwd (bvfs b1) = fs_cwd (bvfs b)" "bidt b1 = snd (idt_init (handlers_at ld) (idt_at ld) (bidt b))"
    using boot_to_files [OF assms(1,2) free, where dv = dv and env = env and cpu = cpu and uninit = uninit] by blast
  have cwd: "0 \<notin> set (fs_cwd (bvfs b1))" using b1(9) L by simp
  obtain b2 where b2: "boot_mounts dv env cpu uninit b1 = Some b2" "con_ok (bcon b2)" "ready (tty (bcon b2)) = ready (tty (bcon b1))" "same_table b1 b2"
      "has_console (fsys (bvfs b2))" "1 \<le> card (free_pages (frames (bmach b2)))" "\<forall>f. fref (ftable (bvfs b2) f) = 0"
      "fs_cwd (bvfs b2) = fs_cwd (bvfs b1)" "bidt b2 = bidt b1"
    using boot_mounts_ok [OF assms(4) b1(2) assms(2) b1(5-8) cwd, where env = env and cpu = cpu and u = uninit] by blast
  have cwd2: "0 \<notin> set (fs_cwd (bvfs b2))" using cwd b2(8) by simp
  have st: "cur (bkern b2) = 0" "next_pid (bkern b2) = 1" using L b1(4) b2(4) by (simp_all add: same_table_def)
  obtain k1 k2 where k: "process_register_current env (bkern b2) = Some k1" "process_create_kernel env (task_kernel_init_at ld) k1 = Some k2"
      "map (\<lambda>p. (pid p, process_name p, pstate p)) (procs k2) = [(0, bytes_of ''bootstrap'', PROC_RUNNING), (1, bytes_of ''kernel_init'', PROC_RUNNING)]"
      "map pfds (procs k2) = [con_fds 0, con_fds 3]" "\<forall>f < 6. ftable (kvfs k2) f = con_file (f = 0 \<or> f = 3) (f \<noteq> 0 \<and> f \<noteq> 3)"
      "table_inv k2" "refs_ok k2" "has_console (fsys (kvfs k2))" "fs_cwd (kvfs k2) = fs_cwd (bvfs b2)"
    using first_processes [OF b2(5) cwd2 b2(7,6) st, where env = env and ent = "task_kernel_init_at ld"]
    by (elim exE conjE) (rule that; assumption)
  have nm: "namei env console_path (kvfs k2) = Some (Some 3, kvfs k2)" using console_found [OF k(8)] k(9) cwd2 by simp
  have run: "kernel_main dv env cpu ld uninit MULTIBOOT_BOOTLOADER_MAGIC mbi b = Some (Idle (b2\<lparr>bkern := k2\<rparr>))"
    using b1(1) b2(1) k(1,2) by (simp add: boot_processes_def)
  have tm: "ready (tty (bcon b2))" "term_inv (tty (bcon b2))" using b1(3) b2(2,3) by (simp_all add: con_ok_def)
  have tr: "tree_ok (fsys (kvfs k2))" using k(8) by (simp add: has_console_def)
  show ?thesis by (rule exI [of _ "b2\<lparr>bkern := k2\<rparr>"]) (simp add: run tm k(3-7) nm tr b1(10) b2(9))
qed

text \<open>A machine to boot: nothing on the bus, one MiB of memory from the second MiB on, one program, and static data of zeros.\<close>

definition empty_bus :: "unit ports" where
  "empty_bus = \<lparr>port_in = (\<lambda>_ _ d. (0xFFFFFFFF, d)), port_out = (\<lambda>_ _ _ d. d)\<rparr>"

definition empty_slots :: "unit device" where
  "empty_slots = (empty_bus, \<lambda>d m. (m, d))"

definition boot_env :: "unit client vfs_env" where
  "boot_env = \<lparr>fsenv = env_example, v9p_file_read = (\<lambda>_ _ _ w. ((-1, []), w)),
     v9p_file_write = (\<lambda>_ _ _ _ w. (-1, w)), v9p_truncate = (\<lambda>_ _ w. (-1, w)), v9p_close = (\<lambda>_ w. w),
     v9p_open_file = (\<lambda>_ _ w. (None, w)), v9p_create = (\<lambda>_ _ _ sw. Some (Inl 5, sw)),
     v9p_mkdir = (\<lambda>_ _ _ sw. Some (-1, sw)), v9p_remove = (\<lambda>_ _ sw. Some (-1, sw)),
     procfs_read = (\<lambda>_ _ _ _. (0, [])), dev_read = (\<lambda>_. None), dev_write = (\<lambda>_. None)\<rparr>"

definition linked_example :: linked where
  "linked_example = \<lparr>gdt_at = 0x101000, idt_at = 0x102000, tss_at = 0x103000, tss_stack_at = 0x104000, kernel_end = 0x180000,
     handlers_at = \<lparr>h_isr0 = 0x110000, h_isr6 = 0x110010, h_isr13 = 0x110020, h_isr14 = 0x110030, h_irq0 = 0x110040, h_keyboard = 0x110050, h_syscall = 0x110060\<rparr>,
     task_kernel_init_at = 0x120000, embedded_programs = [(bytes_of ''sh'', [1, 2, 3])], embedded_applets = []\<rparr>"

definition cpu_example :: cpu where
  "cpu_example = \<lparr>cpuid = (\<lambda>_. \<lparr>r_eax = 0, r_ebx = 0, r_ecx = 0, r_edx = 0\<rparr>), cpuid_max = (\<lambda>_. 0)\<rparr>"

definition mbi_example :: boot_info where
  "mbi_example = \<lparr>mbi_flags = 64, mmap_length = 24, mmap_addr = 0x1000, framebuffer_addr = 0, framebuffer_pitch = 0, framebuffer_width = 0,
     framebuffer_height = 0, framebuffer_bpp = 0, framebuffer_type = 0\<rparr>"

definition zero_gdt :: "nat \<Rightarrow> gdt_entry" where
  "zero_gdt _ = \<lparr>limit_low = 0, base_low = 0, base_middle = 0, access = 0, granularity = 0, base_high = 0\<rparr>"

definition loaded_example :: "unit boot" where
  "loaded_example = \<lparr>bcon = dark_console, bgdt = zero_gdt, bgdtr = \<lparr>gp_limit = 0, gp_base = 0\<rparr>, btss = fst (tss_init 0 0 zero_gdt),
     bidt = (\<lambda>_. \<lparr>offset_low = 0, selector = 0, zero = 0, type_attr = 0, offset_high = 0\<rparr>), bidtr = \<lparr>ip_limit = 0, ip_base = 0\<rparr>,
     bfb = framebuffer_init 0 0 0 0 0, bproc = \<lparr>cpuinfo_buf = (\<lambda>_. 0), meminfo_buf = (\<lambda>_. 0)\<rparr>, bproc_inodes = [],
     bkern = \<lparr>procs = [], cur = 0, next_pid = 1, foreground_pgid = 0, avenrun = [0, 0, 0], load_ticks = 0, gs_base = 0,
       kvfs = \<lparr>fsys = \<lparr>inode_table = (\<lambda>_. empty_inode),
           mach = \<lparr>mem = mmap_memory, frames = \<lparr>bitmap = (\<lambda>_. 0), pmm_hint = 0\<rparr>, kernel_pdir = 0x100000, cr3 = 0, cr0 = 0\<rparr>\<rparr>,
         fs_errno = 0, ftable = (\<lambda>_. zero_file), pipes = (\<lambda>_. new_pipe), fs_cwd = [47], world = client_example\<rparr>\<rparr>\<rparr>"

lemma empty_bus_finds_nothing: "fst (find_device empty_bus d) = None"
proof -
  have "pci_slot_loop empty_bus ve de bs () = (None, ())" for ve de bs
    by (induction bs) (auto simp: pci_read16_def pci_read32_def empty_bus_def inl_def outl_def PCI_VENDOR_ID_def)
  then show ?thesis by (simp add: find_device_def pci_find_def)
qed

lemma loaded_example_ok: "loaded linked_example mbi_example [mmap_example] loaded_example"
proof -
  have "mmap_entries mmap_memory 0x1000 (0x1000 + 24) [mmap_example]" using mmap_example_at by (simp add: mmap_example_def)
  moreover have "entry mmap_memory 0x100000 i = 0" if "i < 1024" for i
  proof -
    have "mmap_memory x = 0" if x: "in_region 0x100000 4096 x" for x
    proof -
      obtain k where k: "k < 4096" "x = 0x100000 + of_nat k" using x by (rule in_regionE)
      then have "unat x = 0x100000 + k" by (simp add: unat_word_ariths unat_of_nat)
      then have "x \<noteq> a" if "unat a < 0x100000" for a using that by auto
      then show ?thesis by (simp add: mmap_memory_def st32_apply)
    qed
    then have "entry mmap_memory 0x100000 i = entry (\<lambda>_. 0) 0x100000 i" using that by (intro entry_cong) auto
    then show ?thesis by (simp add: entry_def ld32_def bytes_u32_def)
  qed
  moreover have "con_ok dark_console" by (simp add: con_ok_def dark_console_def term_example_def)
  ultimately show ?thesis
    by (simp add: loaded_def loaded_example_def mbi_example_def linked_example_def pdir_static_def page_aligned_def)
qed

lemma usable_example: "256 \<le> card (usable_pages [mmap_example] 0x180000)"
proof -
  let ?f = "of_nat :: nat \<Rightarrow> u32"
  have u: "unat (?f k) = k" if "k \<in> {512..<768}" for k using that by (simp add: unat_of_nat)
  have "inj_on ?f {512..<768}" by (rule inj_onI) (metis u)
  then have "card (?f ` {512..<768}) = 256" by (simp add: card_image)
  moreover have "?f ` {512..<768} \<subseteq> usable_pages [mmap_example] 0x180000"
    using u by (auto simp: usable_pages_def entry_covers_def mmap_available_def mmap_example_def PAGE_SIZE_def word_less_nat_alt word_le_nat_alt)
  moreover have "finite (usable_pages [mmap_example] 0x180000)" by simp
  ultimately show ?thesis using card_mono by metis
qed

theorem kernel_main_boots_witness:
  "\<exists>b'. kernel_main empty_slots boot_env cpu_example linked_example 0 0x2BADB002 mbi_example loaded_example = Some (Idle b') \<and>
     map pid (procs (bkern b')) = [0, 1] \<and> table_inv (bkern b') \<and> refs_ok (bkern b')"
proof -
  have "tables_ok (embedded_programs linked_example) (embedded_applets linked_example)"
    by (simp add: tables_ok_def linked_example_def bytes_of_def of_char_def name_ok_def dot_def dotdot_def)
  moreover have "127 + program_pages (embedded_programs linked_example) + 2 * length (embedded_applets linked_example)
      \<le> card (usable_pages [mmap_example] (kernel_end linked_example))"
    using usable_example by (simp add: program_pages_def linked_example_def)
  moreover have "fst (find_device (fst empty_slots) d) = None" for d by (simp add: empty_slots_def empty_bus_finds_nothing)
  ultimately obtain b' where b': "kernel_main empty_slots boot_env cpu_example linked_example 0 MULTIBOOT_BOOTLOADER_MAGIC mbi_example loaded_example = Some (Idle b')"
      "map (\<lambda>p. (pid p, process_name p, pstate p)) (procs (bkern b')) = [(0, bytes_of ''bootstrap'', PROC_RUNNING), (1, bytes_of ''kernel_init'', PROC_RUNNING)]"
      "table_inv (bkern b')" "refs_ok (bkern b')"
    using kernel_main_boots [OF loaded_example_ok, where dv = empty_slots and env = boot_env and cpu = cpu_example and uninit = 0] by auto
  have "map pid (procs (bkern b')) = map fst (map (\<lambda>p. (pid p, process_name p, pstate p)) (procs (bkern b')))" by simp
  also have "\<dots> = [0, 1]" unfolding b'(2) by simp
  finally show ?thesis using b' by (auto simp: MULTIBOOT_BOOTLOADER_MAGIC_def)
qed

end
