(* ===== verification/Spec2Isabelle.thy ===== *)
theory Spec2Isabelle
  imports Keyboard Mlibc_Kernel Virtio_Init Kernel_Main
begin

text \<open>
  muxOS is a 32-bit x86 kernel in C: physical and virtual memory, an in-memory file system with pipes, devices, \<open>/proc\<close> and a 9P
  mount, an ELF loader, processes with signals, a terminal emulator and about sixty system calls. This library models the
  C sources as executable HOL definitions and proves what makes the parts correct. File and function names below are those under
  \<open>src/\<close>; a definition has the name of the C function it models, and helpers are named after the loop or the
  branch they stand for.

  \<^bold>\<open>Conventions.\<close> C integers are words of their width (\<open>u8\<close>, \<open>u16\<close>, \<open>u32\<close>, \<open>u64\<close>) wherever wrap-around can be seen, \<open>int\<close> for the C
  type \<open>int\<close> where the source stays in range. State is a record that is passed through. A panic, a fault and a loop that never
  ends are the value \<open>None\<close> of an option; error returns are the negative numbers of the source. Loops are recursive functions with
  a termination proof where they end, and \<open>partial_function (option)\<close> where they may not (a missing NUL byte, an address
  that wraps); there is no fuel, except that the search of \<open>pmm_alloc\<close> runs \<open>MAX_PAGES\<close> times because that is its bound in C.

  \<^bold>\<open>Memory.\<close>
  \<^item> \<open>Kernel_Prelude\<close>: the word types, byte encodings, counted loops and list lemmas all theories share.
  \<^item> \<open>KString\<close>: \<open>lib/string.c\<close> over byte-addressed memory.
  \<^item> \<open>Page_Allocator\<close>: the interface of a page allocator as a locale (its laws and what a client may conclude: distinct live
    pages); \<open>PMM\<close> (\<open>mm/pmm.c\<close>) models the bitmap allocator and interprets the locale. Shown: allocation, contiguous
    allocation, boot from the memory map, no page handed out twice, no store past the bitmap.
  \<^item> \<open>Machine\<close>: memory, the allocator, CR3, and counted loops that may leave early.
  \<^item> \<open>VMM\<close> (\<open>mm/vmm.c\<close>): page directories and tables are words in that memory. Shown: what mapping, freeing,
    copying and destroying an address space do to every translation and to the allocator, and that one space never changes another.

  \<^bold>\<open>Files.\<close>
  \<^item> \<open>Memfs\<close> and \<open>Directory\<close> (\<open>fs/memfs.c\<close>): the inode table, block lists, file contents, and directories as 44-byte
    records inside files. Reads, writes and truncation are shown against the contents as a byte list, directories
    against finite maps over any history of link and unlink calls.
  \<^item> \<open>Byte_Stream\<close>: a bounded queue of bytes as a locale. \<open>Pipe\<close> (\<open>fs/fs.c\<close>) and \<open>Keyboard\<close> (\<open>drivers/input/keyboard.c\<close>)
    interpret it with their ring buffers: what is read is what was accepted, in order.
  \<^item> \<open>Paths\<close> and \<open>VFS\<close> (\<open>fs/fs.c\<close>): components, normalisation, path walking (equal to a walk in the tree of directory maps), open
    files, descriptor tables and every path operation. The 9P client, the device table and the \<open>/proc\<close> reader are parameters of
    the operations (the record \<open>vfs_env\<close>) and act on an opaque world; \<open>NineP_Client\<close> below models the 9P client itself.
  \<^item> \<open>Procfs\<close> (\<open>fs/procfs.c\<close>), \<open>Console\<close> (\<open>fs/devfs.c\<close>, \<open>console.c\<close>) and \<open>Vga\<close> (\<open>drivers/video/vga.c\<close>): the texts and the directory of
    \<open>/proc\<close>, the line discipline of the console, and console output. Shown: lines never overrun the reader's buffer
    and contain no editing characters.
  \<^item> \<open>Boot_Image\<close> (\<open>fs/memfs.c\<close>: \<open>fs_init\<close>, \<open>fs_selftest\<close>): the initial tree, the installation of the programs linked into the kernel (their
    tables are parameters) and the self test. Shown: initialisation returns, the tree it leaves satisfies the hypotheses of the path
    theorems, the fixed directories and devices are there, and every program is found in \<open>/bin\<close> with its bytes. The 42 pages
    of the hypothesis are the sum over the calls of the fixed part (two pages for a directory entry, two and one per 4096 bytes for a file).
    \<open>Boot_Check\<close>: creating, writing, reading and removing files and directories of the root directory, and that the self test passes.
  \<^item> \<open>NineP\<close> (\<open>fs/9p_conv.c\<close>, \<open>fs/9p.h\<close>): encoder and decoder of 9P messages and directory entries, their round trips and
    the messages the decoder rejects.
  \<^item> \<open>NineP_Client\<close> (\<open>fs/9p_client.c\<close>): host files over the transport below. Shown: a read hands exactly the bytes of the server's
    reply to the reader, and no device can make it store more than was asked for.

  \<^bold>\<open>Devices.\<close> Ports are a record of two functions (\<open>ports\<close>) on an opaque device state, so every theorem holds for every
  device that satisfies the hypotheses it states.
  \<^item> \<open>Ports\<close> (\<open>io.h\<close>, \<open>pic.c\<close>, \<open>serial.c\<close>, \<open>drivers/bus/pci.c\<close>): port access, interrupt controller, timer, serial line and the PCI
    scan, which is equal to a search in the list of functions the configuration space describes.
  \<^item> \<open>Virtio\<close> and \<open>Virtio_Init\<close> (\<open>drivers/virtio/virtio_9p.c\<close>): the split virtqueue in memory. Initialisation establishes the invariant of
    the queue; against a device that follows the queue protocol (\<open>serves\<close>) a call delivers the request and returns the reply.
  \<^item> \<open>Segments\<close> (\<open>gdt.c\<close>, \<open>idt.c\<close>, \<open>tss.c\<close>): descriptors read back as written; only the system call gate is open to user code.
  \<^item> \<open>Interrupts\<close> (\<open>isr.c\<close>, \<open>panic\<close>): the exception handlers; a user page fault ends that process and no other.
  \<^item> \<open>Framebuffer\<close> (\<open>drivers/video/framebuffer.c\<close>): filled rectangles paint their pixels and nothing else.

  \<^bold>\<open>Processes.\<close>
  \<^item> \<open>ELF\<close> (\<open>elf.c\<close>): both loaders.
  \<^item> \<open>Process\<close> (\<open>task/process.c\<close>): the process table, fork, exec, exit, wait, signals, groups, scheduling. The
    assembly that switches stacks is represented by what is asked of it (\<open>switch\<close>, \<open>exit_flow\<close>, \<open>delivery\<close>).
  \<^item> \<open>Scheduler\<close>: round robin, no starvation (a bound on the ticks a started process waits), load averages, waiting, and that
    returning from a signal handler restores the interrupted frame.
  \<^item> \<open>Process_Table\<close>: the step relation \<open>kernel_step\<close> over all operations on the table and the invariant that process ids are unique
    and increasing, parents precede children, and the current slot exists.
  \<^item> \<open>Syscall\<close> (\<open>task/syscall.c\<close>, \<open>drivers/platform/reboot.c\<close>): every case of the handler. \<open>Descriptors\<close>: each system call keeps the reference count of
    every open file equal to the number of descriptors for it; \<open>Listing\<close>: \<open>getdents\<close> on \<open>/proc\<close>.

  \<^bold>\<open>Boot.\<close> \<open>Kernel_Main\<close> (\<open>kernel.c\<close>) composes the initialisation functions in the order of \<open>kernel_main\<close> over one state and holds the
  first kernel task. Shown: on a machine whose memory map offers enough pages and that has no 9P device the sequence reaches
  the idle loop, in a state that satisfies the invariants the theorems on the terminal, the process table, open files and paths start from.
  The 127 pages of the hypothesis are 64 page tables, 42 for the fixed part of the tree, 14 for the self test, 6 for \<open>/proc\<close> and one kernel
  stack. \<open>Boot_Processes\<close> has the lemmas on \<open>/proc\<close>, the console's descriptors and the first two processes.

  \<^bold>\<open>The C library.\<close> \<open>Mlibc\<close> (\<open>ports/mlibc/sysdeps/muxos\<close>) models every hook of the user-space C library over an arbitrary trap
  instruction; \<open>Mlibc_Kernel\<close> puts the modelled kernel behind that trap. Shown: listing a directory ends, stays inside the
  buffer and over the kernel's \<open>/proc\<close> delivers every entry once; the path hooks run the kernel's operations on the strings passed.

  \<^bold>\<open>Terminal and text.\<close>
  \<^item> \<open>Terminal\<close> (\<open>tty/terminal.c\<close>, \<open>tty/lw_terminal_parser.c\<close>) and \<open>Terminal_Safety\<close>: the escape sequence parser and the screen; which bytes keep
    the cursor on the screen and all writes inside the text buffer, and the sequences that do not.
  \<^item> \<open>Stdio\<close> (\<open>lib/stdio.c\<close>): \<open>ksnprintf\<close> is equal to an unlimited expansion cut to the buffer; \<open>kitoa\<close> reads back.

  \<^bold>\<open>Hypotheses.\<close> The memory theorems assume allocator states the boot code establishes (page 0 in use, directories and
  tables on distinct pages the allocator holds); the file theorems assume well-formed inode tables, which every
  operation is shown to keep; the path theorem is about the in-memory tree. Each theorem with a hypothesis is applied to a
  concrete state in the theorem named after it with \<open>_witness\<close>.

  \<^bold>\<open>Not modelled.\<close> The assembly entry code and the instructions that load descriptor tables, and the headers
  of the C library, whose macros are parameters. The TLB, interrupts arriving in the middle
  of a kernel operation and the progress messages of the drivers are left out of the parts that are modelled. User programs and
  the packaging files are not part of the kernel.
\<close>

end
